(* ===== verification/Prelude.thy ===== *)
theory Prelude
  imports Main "HOL-Library.Word" "HOL-Library.AList" "HOL-Library.Sublist"
begin

text \<open>
  Shared vocabulary of the development: Rust's unsigned machine integers as words with the
  standard library's checked and saturating operations, \<open>Result\<close> as a sum, strings as lists
  of Unicode code points with their UTF-8 length, and generic lemmas on sums of words and on
  association lists (the model of a \<open>HashMap\<close>, whose iteration order the code never
  relies on).
\<close>

named_theorems res_simps \<open>unfolding rules for results\<close>
named_theorems word_ops \<open>reading word operations through unat\<close>

section \<open>Machine integers\<close>

text \<open>
  \<open>usize\<close> is 64 bits wide, as on the targets the code is built for. Plain \<open>+\<close> and \<open>-\<close>
  on words wrap, as Rust's do in a release build.
\<close>

type_synonym u8 = "8 word"
type_synonym u32 = "32 word"
type_synonym u64 = "64 word"
type_synonym usize = "64 word"
type_synonym i64 = "64 word"

definition sat_add :: "'a::len word \<Rightarrow> 'a word \<Rightarrow> 'a word" where
  "sat_add a b = (let s = a + b in if s < a then - 1 else s)"

definition sat_sub :: "'a::len word \<Rightarrow> 'a word \<Rightarrow> 'a word" where
  "sat_sub a b = (if a < b then 0 else a - b)"

definition checked_add :: "'a::len word \<Rightarrow> 'a word \<Rightarrow> 'a word option" where
  "checked_add a b = (let s = a + b in if s < a then None else Some s)"

definition checked_sub :: "'a::len word \<Rightarrow> 'a word \<Rightarrow> 'a word option" where
  "checked_sub a b = (if a < b then None else Some (a - b))"

definition checked_mul :: "'a::len word \<Rightarrow> 'a word \<Rightarrow> 'a word option" where
  "checked_mul a b =
     (let p = unat a * unat b in if p div 2 ^ LENGTH('a) = 0 then Some (word_of_nat p) else None)"

lemma add_wraps_iff: "(a + b < a) \<longleftrightarrow> 2 ^ LENGTH('a) \<le> unat a + unat b"
  for a b :: "'a::len word"
  by (metis no_olen_add_nat not_le word_less_nat_alt unat_plus_simple word_le_nat_alt)

lemma unat_sat_add [word_ops]:
  "unat (sat_add a b) = min (unat a + unat b) (2 ^ LENGTH('a) - 1)" for a b :: "'a::len word"
proof (cases "a + b < a")
  case True
  then show ?thesis
    by (simp add: sat_add_def Let_def add_wraps_iff unsigned_minus_1_eq_mask mask_eq_exp_minus_1)
next
  case False
  then have "unat a + unat b < 2 ^ LENGTH('a)" by (simp add: add_wraps_iff)
  then have "unat (a + b) = unat a + unat b" "unat a + unat b \<le> 2 ^ LENGTH('a) - 1"
    using unat_add_lem [of a b] by (blast, linarith)
  with False show ?thesis
    by (simp add: sat_add_def Let_def min_absorb1)
qed

lemma unat_sat_sub [word_ops]: "unat (sat_sub a b) = unat a - unat b"
  by (auto simp: sat_sub_def word_less_nat_alt unat_sub word_le_nat_alt not_less)

lemma checked_add_Some:
  "checked_add a b = Some c \<longleftrightarrow> unat a + unat b < 2 ^ LENGTH('a) \<and> c = a + b"
  for a b :: "'a::len word"
  by (auto simp: checked_add_def Let_def add_wraps_iff not_le)

lemma checked_add_None:
  "checked_add a b = None \<longleftrightarrow> 2 ^ LENGTH('a) \<le> unat a + unat b" for a b :: "'a::len word"
  by (simp add: checked_add_def Let_def add_wraps_iff)

lemma unat_checked_add [word_ops]:
  "checked_add a b = Some c \<Longrightarrow> unat c = unat a + unat b" for a b :: "'a::len word"
  by (auto simp: checked_add_Some unat_add_lem)

lemma unat_checked_mul [word_ops]:
  "checked_mul a b = Some c \<Longrightarrow> unat c = unat a * unat b" for a b :: "'a::len word"
  by (auto simp: checked_mul_def Let_def div_eq_0_iff unat_mult_lem [symmetric] split: if_splits)

lemma unat_diff_le [word_ops]: "b \<le> a \<Longrightarrow> unat (a - b) = unat a - unat b"
  by (simp add: unat_sub)

lemma unat_add_small [word_ops]:
  "unat a + unat b < 2 ^ LENGTH('a) \<Longrightarrow> unat (a + b) = unat a + unat b"
  for a b :: "'a::len word"
  by (simp add: unat_add_lem)

lemma unat_plus_one_less [word_ops]: "a < b \<Longrightarrow> unat (a + 1) = Suc (unat a)" for a b :: "'a::len word"
proof -
  assume "a < b"
  moreover have "unat b < 2 ^ LENGTH('a)" by (rule unsigned_less)
  ultimately have "unat a + unat (1 :: 'a word) < 2 ^ LENGTH('a)"
    by (simp only: word_less_nat_alt unat_1)
  then show ?thesis by (simp add: unat_add_small)
qed

lemma unat_lt_max64 [simp, intro]: "unat (w :: 64 word) < 18446744073709551616"
  using unsigned_less [of w, where ?'a = nat] by simp

lemma unat_le_max64 [simp, intro]: "unat (w :: 64 word) \<le> 18446744073709551615"
  using unat_lt_max64 [of w] by linarith

lemma not_u64_max: "(w :: 64 word) \<noteq> - 1 \<longleftrightarrow> unat w < 18446744073709551615"
proof -
  have "w \<noteq> - 1 \<longleftrightarrow> unat w \<noteq> 18446744073709551615"
    by (simp add: word_unat_eq_iff unsigned_minus_1_eq_mask mask_eq_exp_minus_1)
  then show ?thesis using unat_le_max64 [of w] by linarith
qed

section \<open>Sums of words\<close>

text \<open>
  The usage totals of the code are \<open>u64\<close> accumulators: a sum of words is the sum of the
  numbers modulo \<open>2^64\<close>, and the plain sum as long as that fits.
\<close>

lemma unat_sum_list: "unat (sum_list ws) = sum_list (map unat ws) mod 2 ^ LENGTH('a)"
  for ws :: "'a::len word list"
  by (induction ws) (simp_all add: unat_word_ariths mod_add_right_eq)

lemma unat_sum_list_small:
  "sum_list (map unat ws) < 2 ^ LENGTH('a) \<Longrightarrow> unat (sum_list ws) = sum_list (map unat ws)"
  for ws :: "'a::len word list"
  by (simp add: unat_sum_list)

lemma sum_list_map_update:
  "i < length xs \<Longrightarrow> sum_list (map f (xs[i := y])) + f (xs ! i) = sum_list (map f xs) + (f y :: nat)"
  by (induction xs arbitrary: i) (auto simp: nth_Cons split: nat.splits)

section \<open>Results\<close>

text \<open>\<open>Result<T, E>\<close> is the sum \<open>E + T\<close>; the \<open>?\<close> operator is \<open>res_bind\<close>.\<close>

abbreviation Err :: "'e \<Rightarrow> 'e + 'a" where "Err \<equiv> Inl"
abbreviation Ok :: "'a \<Rightarrow> 'e + 'a" where "Ok \<equiv> Inr"

definition res_bind :: "'e + 'a \<Rightarrow> ('a \<Rightarrow> 'e + 'b) \<Rightarrow> 'e + 'b" where
  "res_bind r k = (case r of Inl e \<Rightarrow> Inl e | Inr x \<Rightarrow> k x)"

definition map_err :: "('e \<Rightarrow> 'f) \<Rightarrow> 'e + 'a \<Rightarrow> 'f + 'a" where
  "map_err f r = (case r of Inl e \<Rightarrow> Inl (f e) | Inr x \<Rightarrow> Inr x)"

definition is_ok :: "'e + 'a \<Rightarrow> bool" where
  "is_ok r = (case r of Inl _ \<Rightarrow> False | Inr _ \<Rightarrow> True)"

lemma res_bind_simps [simp, res_simps]:
  "res_bind (Inl e) k = Inl e" "res_bind (Inr x) k = k x"
  by (simp_all add: res_bind_def)

lemma map_err_simps [simp, res_simps]:
  "map_err f (Inl e) = Inl (f e)" "map_err f (Inr x) = Inr x"
  by (simp_all add: map_err_def)

lemma is_ok_simps [simp, res_simps]: "\<not> is_ok (Inl e)" "is_ok (Inr x)"
  by (simp_all add: is_ok_def)

lemma res_bind_Inr:
  "res_bind r k = Inr y \<longleftrightarrow> (\<exists>x. r = Inr x \<and> k x = Inr y)"
  by (cases r) auto

lemma map_err_Inr [simp]: "map_err f r = Inr y \<longleftrightarrow> r = Inr y"
  by (cases r) auto

section \<open>Strings\<close>

text \<open>
  A Rust \<open>char\<close> is a Unicode scalar value, here its code point; a \<open>str\<close> is the list of its
  characters. \<open>str::len\<close> counts UTF-8 bytes.
\<close>

type_synonym uchar = nat
type_synonym rstr = "uchar list"

definition lit :: "string \<Rightarrow> rstr" where
  "lit s = map of_char s"

definition len_utf8 :: "uchar \<Rightarrow> nat" where
  "len_utf8 c = (if c < 128 then 1 else if c < 2048 then 2 else if c < 65536 then 3 else 4)"

definition byte_len :: "rstr \<Rightarrow> nat" where
  "byte_len s = sum_list (map len_utf8 s)"

lemma len_utf8_pos [simp]: "0 < len_utf8 c"
  by (simp add: len_utf8_def)

lemma byte_len_simps [simp]:
  "byte_len [] = 0" "byte_len (c # s) = len_utf8 c + byte_len s"
  "byte_len (s @ t) = byte_len s + byte_len t"
  by (simp_all add: byte_len_def)

lemma length_le_byte_len: "length s \<le> byte_len s"
  proof (induction s)
  case (Cons c s)
  have "Suc 0 \<le> len_utf8 c" by (simp add: Suc_le_eq)
  with Cons show ?case by simp
qed simp

lemma byte_len_0_iff [simp]: "byte_len s = 0 \<longleftrightarrow> s = []"
  using length_le_byte_len [of s] by auto

definition is_ascii :: "rstr \<Rightarrow> bool" where
  "is_ascii s = list_all (\<lambda>c. c < 128) s"

lemma byte_len_ascii: "is_ascii s \<Longrightarrow> byte_len s = length s"
  by (induction s) (auto simp: is_ascii_def len_utf8_def)

definition starts_with :: "rstr \<Rightarrow> rstr \<Rightarrow> bool" where
  "starts_with s p = prefix p s"

definition ends_with :: "rstr \<Rightarrow> rstr \<Rightarrow> bool" where
  "ends_with s p = suffix p s"

definition strip_prefix :: "rstr \<Rightarrow> rstr \<Rightarrow> rstr option" where
  "strip_prefix s p = (if prefix p s then Some (drop (length p) s) else None)"

definition strip_suffix :: "rstr \<Rightarrow> rstr \<Rightarrow> rstr option" where
  "strip_suffix s p = (if suffix p s then Some (take (length s - length p) s) else None)"

lemma strip_prefix_Some [simp]: "strip_prefix s p = Some r \<longleftrightarrow> s = p @ r"
  by (auto simp: strip_prefix_def prefix_def)

lemma strip_suffix_Some [simp]: "strip_suffix s p = Some r \<longleftrightarrow> s = r @ p"
  by (auto simp: strip_suffix_def suffix_def)

section \<open>Association lists as hash maps\<close>

text \<open>
  A \<open>HashMap\<close> is an association list with distinct keys: \<open>map_of\<close> reads it,
  \<open>AList.update\<close> inserts, \<open>AList.delete\<close> removes, and iteration visits the pairs.
\<close>

abbreviation keys :: "('k \<times> 'v) list \<Rightarrow> 'k list" where
  "keys m \<equiv> map fst m"

definition contains_key :: "('k \<times> 'v) list \<Rightarrow> 'k \<Rightarrow> bool" where
  "contains_key m k = (map_of m k \<noteq> None)"

lemma contains_key_iff: "contains_key m k \<longleftrightarrow> k \<in> set (keys m)"
  by (simp add: contains_key_def map_of_eq_None_iff)

lemma sum_list_update_new:
  "k \<notin> fst ` set m \<Longrightarrow>
   sum_list (map f (AList.update k v m)) = sum_list (map f m) + (f (k, v) :: 'n::comm_monoid_add)"
  by (induction m) (auto simp: algebra_simps)

lemma sum_list_update_old:
  "distinct (keys m) \<Longrightarrow> map_of m k = Some u \<Longrightarrow>
   sum_list (map f (AList.update k v m)) + f (k, u) = sum_list (map f m) + (f (k, v) :: 'n::comm_monoid_add)"
proof (induction m)
  case (Cons p m)
  then show ?case
    by (cases p) (auto simp: algebra_simps split: if_splits)
qed simp

lemma sum_list_delete:
  "distinct (keys m) \<Longrightarrow> map_of m k = Some u \<Longrightarrow>
   sum_list (map f (AList.delete k m)) + f (k, u) = (sum_list (map f m) :: 'n::comm_monoid_add)"
proof (induction m)
  case (Cons p m)
  show ?case
  proof (cases "fst p = k")
    case True
    with Cons.prems have "k \<notin> fst ` set m" by auto
    then have "AList.delete k m = m" by (simp add: delete_id)
    with True Cons.prems show ?thesis by (cases p) (auto simp: algebra_simps delete_simps)
  next
    case False
    with Cons show ?thesis by (cases p) (auto simp: algebra_simps)
  qed
qed simp

end
