(* ===== verification/Limits.thy ===== *)
theory Limits
  imports Prelude
begin

text \<open>
  The limit configurations of \<open>bashkit/src/limits.rs\<close>: the structs \<open>ExecutionLimits\<close>,
  \<open>SessionLimits\<close> and \<open>MemoryLimits\<close> with their defaults and their builder methods, and the
  error values \<open>LimitExceeded\<close> and \<open>ExecutionBudgetExceeded\<close> that a crossed limit produces.
  A \<open>Duration\<close> is its number of nanoseconds. The builder method \<open>f\<close> of the code is
  \<open>with_f\<close> here, since \<open>f\<close> names the record field.
\<close>

section \<open>Execution limits\<close>

type_synonym duration = nat

definition dur_secs :: "nat \<Rightarrow> duration" where
  "dur_secs s = s * 1000000000"

record execution_limits =
  max_work_units :: u64
  max_aggregate_input_bytes :: u64
  max_live_intermediate_bytes :: u64
  max_commands :: usize
  max_loop_iterations :: usize
  max_total_loop_iterations :: usize
  max_function_depth :: usize
  timeout :: duration
  parser_timeout :: duration
  max_input_bytes :: usize
  max_ast_depth :: usize
  max_parser_operations :: usize
  max_stdout_bytes :: usize
  max_stderr_bytes :: usize
  max_subst_depth :: usize
  max_subshell_depth :: usize
  max_file_descriptors :: usize
  max_history_entries :: usize
  max_history_bytes :: usize
  max_history_output_bytes :: usize
  max_word_split_fields :: usize
  max_word_split_bytes :: usize
  capture_final_env :: bool

definition default_execution_limits :: execution_limits where
  "default_execution_limits = \<lparr>
     max_work_units = 100000000,
     max_aggregate_input_bytes = 100000000,
     max_live_intermediate_bytes = 32000000,
     max_commands = 10000,
     max_loop_iterations = 10000,
     max_total_loop_iterations = 1000000,
     max_function_depth = 100,
     timeout = dur_secs 30,
     parser_timeout = dur_secs 5,
     max_input_bytes = 10000000,
     max_ast_depth = 100,
     max_parser_operations = 100000,
     max_stdout_bytes = 1048576,
     max_stderr_bytes = 1048576,
     max_subst_depth = 32,
     max_subshell_depth = 32,
     max_file_descriptors = 1024,
     max_history_entries = 1000,
     max_history_bytes = 1048576,
     max_history_output_bytes = 1048576,
     max_word_split_fields = 100000,
     max_word_split_bytes = 10000000,
     capture_final_env = False\<rparr>"

definition new_execution_limits :: execution_limits where
  "new_execution_limits = default_execution_limits"

text \<open>
  The relaxed preset for interactive use: counters and the timeout are effectively off, the
  guards against crashes keep their defaults.
\<close>

definition cli_execution_limits :: execution_limits where
  "cli_execution_limits = default_execution_limits\<lparr>
     max_commands := - 1,
     max_loop_iterations := - 1,
     max_total_loop_iterations := - 1,
     timeout := dur_secs (unat ((- 1 :: u64) div 2)),
     max_stdout_bytes := 10485760,
     max_stderr_bytes := 10485760,
     max_history_output_bytes := 10485760\<rparr>"

definition with_max_work_units :: "u64 \<Rightarrow> execution_limits \<Rightarrow> execution_limits" where
  "with_max_work_units v l = l\<lparr>max_work_units := v\<rparr>"

definition with_max_aggregate_input_bytes :: "u64 \<Rightarrow> execution_limits \<Rightarrow> execution_limits" where
  "with_max_aggregate_input_bytes v l = l\<lparr>max_aggregate_input_bytes := v\<rparr>"

definition with_max_live_intermediate_bytes :: "u64 \<Rightarrow> execution_limits \<Rightarrow> execution_limits" where
  "with_max_live_intermediate_bytes v l = l\<lparr>max_live_intermediate_bytes := v\<rparr>"

definition with_max_commands :: "usize \<Rightarrow> execution_limits \<Rightarrow> execution_limits" where
  "with_max_commands v l = l\<lparr>max_commands := v\<rparr>"

definition with_max_loop_iterations :: "usize \<Rightarrow> execution_limits \<Rightarrow> execution_limits" where
  "with_max_loop_iterations v l = l\<lparr>max_loop_iterations := v\<rparr>"

definition with_max_total_loop_iterations :: "usize \<Rightarrow> execution_limits \<Rightarrow> execution_limits" where
  "with_max_total_loop_iterations v l = l\<lparr>max_total_loop_iterations := v\<rparr>"

definition with_max_function_depth :: "usize \<Rightarrow> execution_limits \<Rightarrow> execution_limits" where
  "with_max_function_depth v l = l\<lparr>max_function_depth := v\<rparr>"

definition with_timeout :: "duration \<Rightarrow> execution_limits \<Rightarrow> execution_limits" where
  "with_timeout v l = l\<lparr>timeout := v\<rparr>"

definition with_parser_timeout :: "duration \<Rightarrow> execution_limits \<Rightarrow> execution_limits" where
  "with_parser_timeout v l = l\<lparr>parser_timeout := v\<rparr>"

definition with_max_input_bytes :: "usize \<Rightarrow> execution_limits \<Rightarrow> execution_limits" where
  "with_max_input_bytes v l = l\<lparr>max_input_bytes := v\<rparr>"

definition with_max_ast_depth :: "usize \<Rightarrow> execution_limits \<Rightarrow> execution_limits" where
  "with_max_ast_depth v l = l\<lparr>max_ast_depth := v\<rparr>"

definition with_max_parser_operations :: "usize \<Rightarrow> execution_limits \<Rightarrow> execution_limits" where
  "with_max_parser_operations v l = l\<lparr>max_parser_operations := v\<rparr>"

definition with_max_stdout_bytes :: "usize \<Rightarrow> execution_limits \<Rightarrow> execution_limits" where
  "with_max_stdout_bytes v l = l\<lparr>max_stdout_bytes := v\<rparr>"

definition with_max_stderr_bytes :: "usize \<Rightarrow> execution_limits \<Rightarrow> execution_limits" where
  "with_max_stderr_bytes v l = l\<lparr>max_stderr_bytes := v\<rparr>"

definition with_max_subst_depth :: "usize \<Rightarrow> execution_limits \<Rightarrow> execution_limits" where
  "with_max_subst_depth v l = l\<lparr>max_subst_depth := v\<rparr>"

definition with_max_subshell_depth :: "usize \<Rightarrow> execution_limits \<Rightarrow> execution_limits" where
  "with_max_subshell_depth v l = l\<lparr>max_subshell_depth := v\<rparr>"

definition with_max_file_descriptors :: "usize \<Rightarrow> execution_limits \<Rightarrow> execution_limits" where
  "with_max_file_descriptors v l = l\<lparr>max_file_descriptors := v\<rparr>"

definition with_max_history_entries :: "usize \<Rightarrow> execution_limits \<Rightarrow> execution_limits" where
  "with_max_history_entries v l = l\<lparr>max_history_entries := v\<rparr>"

definition with_max_history_bytes :: "usize \<Rightarrow> execution_limits \<Rightarrow> execution_limits" where
  "with_max_history_bytes v l = l\<lparr>max_history_bytes := v\<rparr>"

definition with_max_history_output_bytes :: "usize \<Rightarrow> execution_limits \<Rightarrow> execution_limits" where
  "with_max_history_output_bytes v l = l\<lparr>max_history_output_bytes := v\<rparr>"

definition with_max_word_split_fields :: "usize \<Rightarrow> execution_limits \<Rightarrow> execution_limits" where
  "with_max_word_split_fields v l = (if 0 < v then l\<lparr>max_word_split_fields := v\<rparr> else l)"

definition with_max_word_split_bytes :: "usize \<Rightarrow> execution_limits \<Rightarrow> execution_limits" where
  "with_max_word_split_bytes v l = (if 0 < v then l\<lparr>max_word_split_bytes := v\<rparr> else l)"

definition with_capture_final_env :: "bool \<Rightarrow> execution_limits \<Rightarrow> execution_limits" where
  "with_capture_final_env v l = l\<lparr>capture_final_env := v\<rparr>"

section \<open>Session limits\<close>

definition DEFAULT_SESSION_MAX_COMMANDS :: u64 where
  "DEFAULT_SESSION_MAX_COMMANDS = 100000"

definition DEFAULT_SESSION_MAX_EXEC_CALLS :: u64 where
  "DEFAULT_SESSION_MAX_EXEC_CALLS = 1000"

record session_limits =
  max_total_commands :: u64
  max_exec_calls :: u64

definition default_session_limits :: session_limits where
  "default_session_limits =
     \<lparr>max_total_commands = DEFAULT_SESSION_MAX_COMMANDS,
      max_exec_calls = DEFAULT_SESSION_MAX_EXEC_CALLS\<rparr>"

definition with_max_total_commands :: "u64 \<Rightarrow> session_limits \<Rightarrow> session_limits" where
  "with_max_total_commands n l = l\<lparr>max_total_commands := n\<rparr>"

definition with_max_exec_calls :: "u64 \<Rightarrow> session_limits \<Rightarrow> session_limits" where
  "with_max_exec_calls n l = l\<lparr>max_exec_calls := n\<rparr>"

definition unlimited_session_limits :: session_limits where
  "unlimited_session_limits = \<lparr>max_total_commands = - 1, max_exec_calls = - 1\<rparr>"

section \<open>Memory limits\<close>

definition DEFAULT_MAX_VARIABLE_COUNT :: usize where "DEFAULT_MAX_VARIABLE_COUNT = 10000"
definition DEFAULT_MAX_TOTAL_VARIABLE_BYTES :: usize where "DEFAULT_MAX_TOTAL_VARIABLE_BYTES = 10000000"
definition DEFAULT_MAX_ARRAY_ENTRIES :: usize where "DEFAULT_MAX_ARRAY_ENTRIES = 100000"
definition DEFAULT_MAX_FUNCTION_COUNT :: usize where "DEFAULT_MAX_FUNCTION_COUNT = 1000"
definition DEFAULT_MAX_FUNCTION_BODY_BYTES :: usize where "DEFAULT_MAX_FUNCTION_BODY_BYTES = 1000000"

record memory_limits =
  max_variable_count :: usize
  max_total_variable_bytes :: usize
  max_array_entries :: usize
  max_function_count :: usize
  max_function_body_bytes :: usize

definition default_memory_limits :: memory_limits where
  "default_memory_limits =
     \<lparr>max_variable_count = DEFAULT_MAX_VARIABLE_COUNT,
      max_total_variable_bytes = DEFAULT_MAX_TOTAL_VARIABLE_BYTES,
      max_array_entries = DEFAULT_MAX_ARRAY_ENTRIES,
      max_function_count = DEFAULT_MAX_FUNCTION_COUNT,
      max_function_body_bytes = DEFAULT_MAX_FUNCTION_BODY_BYTES\<rparr>"

definition with_max_variable_count :: "usize \<Rightarrow> memory_limits \<Rightarrow> memory_limits" where
  "with_max_variable_count n l = l\<lparr>max_variable_count := n\<rparr>"

definition with_max_total_variable_bytes :: "usize \<Rightarrow> memory_limits \<Rightarrow> memory_limits" where
  "with_max_total_variable_bytes n l = l\<lparr>max_total_variable_bytes := n\<rparr>"

definition with_max_array_entries :: "usize \<Rightarrow> memory_limits \<Rightarrow> memory_limits" where
  "with_max_array_entries n l = l\<lparr>max_array_entries := n\<rparr>"

definition with_max_function_count :: "usize \<Rightarrow> memory_limits \<Rightarrow> memory_limits" where
  "with_max_function_count n l = l\<lparr>max_function_count := n\<rparr>"

definition with_max_function_body_bytes :: "usize \<Rightarrow> memory_limits \<Rightarrow> memory_limits" where
  "with_max_function_body_bytes n l = l\<lparr>max_function_body_bytes := n\<rparr>"

definition unlimited_memory_limits :: memory_limits where
  "unlimited_memory_limits =
     \<lparr>max_variable_count = - 1, max_total_variable_bytes = - 1, max_array_entries = - 1,
      max_function_count = - 1, max_function_body_bytes = - 1\<rparr>"

section \<open>Errors\<close>

datatype budget_exceeded =
    WorkUnits u64 u64
  | InputBytes u64 u64
  | LiveBytes u64 u64
  | Deadline duration
  | Cancelled
  | RequestClosed

datatype memory_error =
    VariableCountLimit usize
  | VariableByteLimit usize
  | ArrayEntryLimit usize
  | FunctionCountLimit usize
  | FunctionBodyByteLimit usize
  | BufferSizeOverflow
  | BufferAllocationFailed
  | StringSizeOverflow
  | StringAllocationFailed

datatype limit_exceeded =
    ExecutionBudgetErr budget_exceeded
  | MaxCommands usize
  | MaxLoopIterations usize
  | MaxTotalLoopIterations usize
  | MaxFunctionDepth usize
  | MaxSubstDepth usize
  | MaxSubshellDepth usize
  | MaxFileDescriptors usize
  | Timeout duration
  | ParserTimeout duration
  | InputTooLarge usize usize
  | AstTooDeep usize usize
  | ParserExhausted usize usize
  | SessionMaxCommands u64
  | SessionMaxExecCalls u64
  | MemoryErr memory_error

text \<open>
  \<open>LimitExceeded::Memory\<close> carries a message text; \<open>memory_error\<close> has one constructor for
  each of the nine messages the code builds, with the number a message shows.
\<close>

end
