(* ===== verification/Counters.thy ===== *)
theory Counters
  imports Limits
begin

text \<open>
  \<open>ExecutionCounters\<close> of \<open>bashkit/src/limits.rs\<close>: the per-execution and per-session counters
  that every command, loop iteration, function call, command substitution and subshell ticks.
  An operation returns its \<open>Result\<close> and the new counters. \<open>loop_iterations\<close> is a \<open>Vec\<close> whose
  last element belongs to the innermost loop.
\<close>

record execution_counters =
  commands :: usize
  function_depth :: usize
  loop_iterations :: "usize list"
  total_loop_iterations :: usize
  subst_depth :: usize
  subshell_depth :: usize
  session_commands :: u64
  session_exec_calls :: u64

definition new_counters :: execution_counters where
  "new_counters = \<lparr>commands = 0, function_depth = 0, loop_iterations = [],
     total_loop_iterations = 0, subst_depth = 0, subshell_depth = 0,
     session_commands = 0, session_exec_calls = 0\<rparr>"

definition reset_for_execution :: "execution_counters \<Rightarrow> execution_counters" where
  "reset_for_execution c = c\<lparr>commands := 0, loop_iterations := [], total_loop_iterations := 0,
     function_depth := 0, subst_depth := 0, subshell_depth := 0\<rparr>"

type_synonym 'a counted = "(limit_exceeded + 'a) \<times> execution_counters"

definition tick_command :: "execution_limits \<Rightarrow> execution_counters \<Rightarrow> unit counted" where
  "tick_command l c =
     (let c' = c\<lparr>commands := sat_add (commands c) 1,
                 session_commands := sat_add (session_commands c) 1\<rparr>
      in if max_commands l < commands c' then (Err (MaxCommands (max_commands l)), c')
         else (Ok (), c'))"

definition check_session_limits :: "session_limits \<Rightarrow> execution_counters \<Rightarrow> limit_exceeded + unit" where
  "check_session_limits sl c =
     (if max_exec_calls sl < session_exec_calls c then Err (SessionMaxExecCalls (max_exec_calls sl))
      else if max_total_commands sl < session_commands c
        then Err (SessionMaxCommands (max_total_commands sl))
      else Ok ())"

definition tick_exec_call :: "execution_counters \<Rightarrow> execution_counters" where
  "tick_exec_call c = c\<lparr>session_exec_calls := sat_add (session_exec_calls c) 1\<rparr>"

definition tick_loop :: "execution_limits \<Rightarrow> execution_counters \<Rightarrow> unit counted" where
  "tick_loop l c =
     (let stack = (if loop_iterations c = [] then [0] else loop_iterations c);
          current = last stack + 1;
          c' = c\<lparr>loop_iterations := butlast stack @ [current],
                 total_loop_iterations := total_loop_iterations c + 1\<rparr>
      in if max_loop_iterations l < current
           then (Err (MaxLoopIterations (max_loop_iterations l)), c')
         else if max_total_loop_iterations l < total_loop_iterations c'
           then (Err (MaxTotalLoopIterations (max_total_loop_iterations l)), c')
         else (Ok (), c'))"

definition enter_loop :: "execution_counters \<Rightarrow> execution_counters" where
  "enter_loop c = c\<lparr>loop_iterations := loop_iterations c @ [0]\<rparr>"

definition exit_loop :: "execution_counters \<Rightarrow> execution_counters" where
  "exit_loop c = c\<lparr>loop_iterations := butlast (loop_iterations c)\<rparr>"

definition push_function :: "execution_limits \<Rightarrow> execution_counters \<Rightarrow> unit counted" where
  "push_function l c =
     (if max_function_depth l \<le> function_depth c
      then (Err (MaxFunctionDepth (max_function_depth l)), c)
      else (Ok (), c\<lparr>function_depth := function_depth c + 1\<rparr>))"

definition pop_function :: "execution_counters \<Rightarrow> execution_counters" where
  "pop_function c =
     (if 0 < function_depth c then c\<lparr>function_depth := function_depth c - 1\<rparr> else c)"

definition push_subst :: "execution_limits \<Rightarrow> execution_counters \<Rightarrow> unit counted" where
  "push_subst l c =
     (if max_subst_depth l \<le> subst_depth c
      then (Err (MaxSubstDepth (max_subst_depth l)), c)
      else (Ok (), c\<lparr>subst_depth := subst_depth c + 1\<rparr>))"

definition pop_subst :: "execution_counters \<Rightarrow> execution_counters" where
  "pop_subst c = c\<lparr>subst_depth := sat_sub (subst_depth c) 1\<rparr>"

definition push_subshell :: "execution_limits \<Rightarrow> execution_counters \<Rightarrow> unit counted" where
  "push_subshell l c =
     (if max_subshell_depth l \<le> subshell_depth c
      then (Err (MaxSubshellDepth (max_subshell_depth l)), c)
      else (Ok (), c\<lparr>subshell_depth := subshell_depth c + 1\<rparr>))"

definition pop_subshell :: "execution_counters \<Rightarrow> execution_counters" where
  "pop_subshell c = c\<lparr>subshell_depth := sat_sub (subshell_depth c) 1\<rparr>"

section \<open>The depth guards\<close>

text \<open>
  Function calls, command substitutions and subshells are guarded the same way: a push is
  refused at the limit and otherwise adds one, a pop takes one off and stops at zero.
\<close>

locale depth_guard =
  fixes depth :: "execution_counters \<Rightarrow> usize"
    and maxd :: "execution_limits \<Rightarrow> usize"
    and push :: "execution_limits \<Rightarrow> execution_counters \<Rightarrow> unit counted"
    and pop :: "execution_counters \<Rightarrow> execution_counters"
  assumes push_ok: "depth c < maxd l \<Longrightarrow> fst (push l c) = Ok () \<and> depth (snd (push l c)) = depth c + 1"
    and push_full: "maxd l \<le> depth c \<Longrightarrow> (\<exists>e. fst (push l c) = Err e) \<and> snd (push l c) = c"
    and pop_depth: "depth (pop c) = sat_sub (depth c) 1"
begin

lemma push_iff: "fst (push l c) = Ok () \<longleftrightarrow> depth c < maxd l"
  using push_ok [of c l] push_full [of l c] by (metis Inl_Inr_False not_le)

lemma push_within: "unat (depth c) \<le> unat (maxd l) \<Longrightarrow> unat (depth (snd (push l c))) \<le> unat (maxd l)"
proof (cases "depth c < maxd l")
  case True
  then show ?thesis by (simp add: push_ok unat_plus_one_less) (simp add: word_less_nat_alt)
next
  case False
  moreover assume "unat (depth c) \<le> unat (maxd l)"
  ultimately show ?thesis using push_full [of l c] by simp
qed

lemma pop_within: "unat (depth c) \<le> n \<Longrightarrow> unat (depth (pop c)) \<le> n"
  by (simp add: pop_depth unat_sat_sub)

lemma push_pop: "depth c < maxd l \<Longrightarrow> depth (pop (snd (push l c))) = depth c"
  by (rule word_unat_eq_iff [THEN iffD2])
    (simp add: push_ok pop_depth unat_sat_sub unat_plus_one_less)

end

lemma lt1_iff_0: "(w :: usize) < 1 \<longleftrightarrow> w = 0"
  by (simp add: word_less_nat_alt unat_eq_0)

interpretation fn_guard: depth_guard function_depth max_function_depth push_function pop_function
  by unfold_locales
    (auto simp: push_function_def pop_function_def sat_sub_def not_less word_gt_0 lt1_iff_0)

interpretation subst_guard: depth_guard subst_depth max_subst_depth push_subst pop_subst
  by unfold_locales (auto simp: push_subst_def pop_subst_def)

interpretation subshell_guard: depth_guard subshell_depth max_subshell_depth push_subshell pop_subshell
  by unfold_locales (auto simp: push_subshell_def pop_subshell_def)

section \<open>Sequences of operations\<close>

text \<open>
  A script drives the counters through a sequence of these operations; the \<open>?\<close> after each
  of them in the interpreter stops the script at the first error.
\<close>

datatype counter_op =
    TickCommand | TickLoop | EnterLoop | ExitLoop
  | PushFunction | PopFunction | PushSubst | PopSubst | PushSubshell | PopSubshell

fun counter_step :: "execution_limits \<Rightarrow> counter_op \<Rightarrow> execution_counters \<Rightarrow> unit counted" where
  "counter_step l TickCommand c = tick_command l c"
| "counter_step l TickLoop c = tick_loop l c"
| "counter_step l EnterLoop c = (Ok (), enter_loop c)"
| "counter_step l ExitLoop c = (Ok (), exit_loop c)"
| "counter_step l PushFunction c = push_function l c"
| "counter_step l PopFunction c = (Ok (), pop_function c)"
| "counter_step l PushSubst c = push_subst l c"
| "counter_step l PopSubst c = (Ok (), pop_subst c)"
| "counter_step l PushSubshell c = push_subshell l c"
| "counter_step l PopSubshell c = (Ok (), pop_subshell c)"

fun counter_run :: "execution_limits \<Rightarrow> counter_op list \<Rightarrow> execution_counters \<Rightarrow> unit counted" where
  "counter_run l [] c = (Ok (), c)"
| "counter_run l (x # xs) c =
     (case counter_step l x c of
        (Inl e, c') \<Rightarrow> (Err e, c')
      | (Inr _, c') \<Rightarrow> counter_run l xs c')"

lemmas counter_defs =
  tick_command_def tick_loop_def enter_loop_def exit_loop_def push_function_def pop_function_def
  push_subst_def pop_subst_def push_subshell_def pop_subshell_def Let_def

lemma counter_step_total:
  assumes "counter_step l x c = (Inr u, c')" and "max_total_loop_iterations l \<noteq> - 1"
    and "total_loop_iterations c \<le> max_total_loop_iterations l"
  shows "unat (total_loop_iterations c') =
           unat (total_loop_iterations c) + (if x = TickLoop then 1 else 0)"
    and "total_loop_iterations c' \<le> max_total_loop_iterations l"
proof -
  have "max_total_loop_iterations l < - 1"
    using assms(2) by (simp add: order_less_le)
  with assms(3) have lt: "total_loop_iterations c < - 1" by (rule le_less_trans)
  show "unat (total_loop_iterations c') =
           unat (total_loop_iterations c) + (if x = TickLoop then 1 else 0)"
    using assms(1) lt by (cases x) (auto simp: counter_defs unat_plus_one_less split: if_splits)
  show "total_loop_iterations c' \<le> max_total_loop_iterations l"
    using assms(1,3) by (cases x) (auto simp: counter_defs not_less split: if_splits)
qed

lemma counter_run_total:
  assumes "max_total_loop_iterations l \<noteq> - 1"
  shows "counter_run l xs c = (Inr u, c') \<Longrightarrow> total_loop_iterations c \<le> max_total_loop_iterations l \<Longrightarrow>
    unat (total_loop_iterations c') = unat (total_loop_iterations c) + count_list xs TickLoop \<and>
    total_loop_iterations c' \<le> max_total_loop_iterations l"
proof (induction xs arbitrary: c)
  case (Cons x xs)
  from Cons.prems(1) obtain c1 where
    step: "counter_step l x c = (Inr (), c1)" and rest: "counter_run l xs c1 = (Inr u, c')"
    by (auto split: prod.splits sum.splits)
  from counter_step_total [OF step assms Cons.prems(2)] Cons.IH [OF rest]
  show ?case by auto
qed simp

lemma counter_step_commands:
  assumes "counter_step l x c = (Inr u, c')" and "max_commands l \<noteq> - 1"
    and "commands c \<le> max_commands l"
  shows "unat (commands c') = unat (commands c) + (if x = TickCommand then 1 else 0)"
    and "commands c' \<le> max_commands l"
proof -
  have "max_commands l < - 1"
    using assms(2) by (simp add: order_less_le)
  with assms(3) have "commands c < - 1" by (rule le_less_trans)
  then have "unat (commands c) + 1 \<le> 18446744073709551615"
    by (simp add: word_less_nat_alt unsigned_minus_1_eq_mask mask_eq_exp_minus_1)
  then show "unat (commands c') = unat (commands c) + (if x = TickCommand then 1 else 0)"
    using assms(1) by (cases x) (auto simp: counter_defs unat_sat_add split: if_splits)
  show "commands c' \<le> max_commands l"
    using assms(1,3) by (cases x) (auto simp: counter_defs not_less split: if_splits)
qed

lemma counter_run_commands:
  assumes "max_commands l \<noteq> - 1"
  shows "counter_run l xs c = (Inr u, c') \<Longrightarrow> commands c \<le> max_commands l \<Longrightarrow>
    unat (commands c') = unat (commands c) + count_list xs TickCommand \<and> commands c' \<le> max_commands l"
proof (induction xs arbitrary: c)
  case (Cons x xs)
  from Cons.prems(1) obtain c1 where
    step: "counter_step l x c = (Inr (), c1)" and rest: "counter_run l xs c1 = (Inr u, c')"
    by (auto split: prod.splits sum.splits)
  from counter_step_commands [OF step assms Cons.prems(2)] Cons.IH [OF rest]
  show ?case by auto
qed simp

section \<open>Loop and command budgets\<close>

text \<open>
  Property C26: a script that runs to its end without a limit error has made at most
  \<open>max_total_loop_iterations\<close> loop iterations and at most \<open>max_commands\<close> commands, however its
  loops nest (the defence against TM-DOS-018). The limits are assumed below \<open>u64::MAX\<close>, the
  value that stands for "unlimited".
\<close>

theorem script_within_budget:
  assumes "counter_run l ops (reset_for_execution c) = (Ok (), c')"
    and "max_total_loop_iterations l \<noteq> - 1" and "max_commands l \<noteq> - 1"
  shows "count_list ops TickLoop \<le> unat (max_total_loop_iterations l) \<and>
         count_list ops TickCommand \<le> unat (max_commands l)"
  using counter_run_total [OF assms(2,1)] counter_run_commands [OF assms(3,1)]
  by (simp add: reset_for_execution_def word_le_nat_alt)

text \<open>
  A loop is stopped neither early nor late. The counters of one loop run through
  \<open>n\<close> iterations from an empty or fresh stack.
\<close>

lemma tick_loop_fresh:
  assumes "loop_iterations c = xs @ [w]" and "unat (total_loop_iterations c) < 18446744073709551615"
    and "unat w < 18446744073709551615"
  shows "tick_loop l c =
    (let c' = c\<lparr>loop_iterations := xs @ [w + 1], total_loop_iterations := total_loop_iterations c + 1\<rparr>
     in if unat (max_loop_iterations l) < Suc (unat w) then (Err (MaxLoopIterations (max_loop_iterations l)), c')
        else if unat (max_total_loop_iterations l) < Suc (unat (total_loop_iterations c))
        then (Err (MaxTotalLoopIterations (max_total_loop_iterations l)), c')
        else (Ok (), c'))"
proof -
  have "unat (w + 1) = Suc (unat w)" "unat (total_loop_iterations c + 1) = Suc (unat (total_loop_iterations c))"
    using assms(2,3) by (auto simp: unat_add_small)
  then show ?thesis
    using assms(1) by (simp add: tick_loop_def Let_def word_less_nat_alt)
qed

lemma iterate_loop_iff:
  assumes "unat (max_total_loop_iterations l) < 18446744073709551615"
  shows "loop_iterations c = xs @ [w] \<Longrightarrow> unat w \<le> unat (total_loop_iterations c) \<Longrightarrow>
     unat w \<le> unat (max_loop_iterations l) \<Longrightarrow>
     unat (total_loop_iterations c) \<le> unat (max_total_loop_iterations l) \<Longrightarrow>
     fst (counter_run l (replicate n TickLoop) c) = Ok () \<longleftrightarrow>
       unat w + n \<le> unat (max_loop_iterations l) \<and>
       unat (total_loop_iterations c) + n \<le> unat (max_total_loop_iterations l)"
proof (induction n arbitrary: c w)
  case (Suc n)
  let ?c = "c\<lparr>loop_iterations := xs @ [w + 1], total_loop_iterations := total_loop_iterations c + 1\<rparr>"
  have lt: "unat (total_loop_iterations c) < 18446744073709551615" "unat w < 18446744073709551615"
    using Suc.prems assms by linarith+
  note tick = tick_loop_fresh [OF Suc.prems(1) lt, of l]
  have u: "unat (w + 1) = Suc (unat w)" "unat (total_loop_iterations c + 1) = Suc (unat (total_loop_iterations c))"
    using lt by (auto simp: unat_add_small)
  show ?case
  proof (cases "Suc (unat w) \<le> unat (max_loop_iterations l) \<and>
      Suc (unat (total_loop_iterations c)) \<le> unat (max_total_loop_iterations l)")
    case True
    have "fst (counter_run l (replicate n TickLoop) ?c) = Ok () \<longleftrightarrow>
        Suc (unat w) + n \<le> unat (max_loop_iterations l) \<and>
        Suc (unat (total_loop_iterations c)) + n \<le> unat (max_total_loop_iterations l)"
      using Suc.IH [of ?c "w + 1"] True Suc.prems u by simp
    moreover have "tick_loop l c = (Ok (), ?c)"
      using True by (simp add: tick Let_def)
    ultimately show ?thesis by simp
  next
    case False
    then have "\<exists>e. tick_loop l c = (Err e, ?c)"
      by (auto simp: tick Let_def)
    then show ?thesis using False by auto
  qed
qed simp

text \<open>
  A loop entered with budget left is cut off at exactly the right iteration:
  \<open>n\<close> iterations in a row succeed if and only if neither the per-loop limit nor what is
  left of the limit over all loops is below \<open>n\<close>.
\<close>

theorem loop_limit_exact:
  assumes "max_total_loop_iterations l \<noteq> - 1"
    and "total_loop_iterations c \<le> max_total_loop_iterations l"
  shows "fst (counter_run l (EnterLoop # replicate n TickLoop) c) = Ok () \<longleftrightarrow>
         n \<le> unat (max_loop_iterations l) \<and>
         unat (total_loop_iterations c) + n \<le> unat (max_total_loop_iterations l)"
proof -
  have "unat (max_total_loop_iterations l) < 18446744073709551615"
    using assms(1) by (simp only: not_u64_max)
  from iterate_loop_iff [OF this, of "enter_loop c" "loop_iterations c" 0 n] assms(2)
  show ?thesis by (simp add: enter_loop_def word_le_nat_alt)
qed

section \<open>Nesting depth\<close>

definition depths_ok :: "execution_limits \<Rightarrow> execution_counters \<Rightarrow> bool" where
  "depths_ok l c \<longleftrightarrow> unat (function_depth c) \<le> unat (max_function_depth l) \<and>
     unat (subst_depth c) \<le> unat (max_subst_depth l) \<and>
     unat (subshell_depth c) \<le> unat (max_subshell_depth l)"

lemma counter_step_frame:
  "x \<notin> {PushFunction, PopFunction} \<Longrightarrow> function_depth (snd (counter_step l x c)) = function_depth c"
  "x \<notin> {PushSubst, PopSubst} \<Longrightarrow> subst_depth (snd (counter_step l x c)) = subst_depth c"
  "x \<notin> {PushSubshell, PopSubshell} \<Longrightarrow> subshell_depth (snd (counter_step l x c)) = subshell_depth c"
  by (cases x; auto simp: counter_defs)+

lemma counter_step_depths: "depths_ok l c \<Longrightarrow> depths_ok l (snd (counter_step l x c))"
  unfolding depths_ok_def
  using counter_step_frame [of x l c] fn_guard.push_within [of c l] fn_guard.pop_within [of c]
    subst_guard.push_within [of c l] subst_guard.pop_within [of c]
    subshell_guard.push_within [of c l] subshell_guard.pop_within [of c]
  by (cases x) auto

lemma counter_run_depths: "depths_ok l c \<Longrightarrow> depths_ok l (snd (counter_run l xs c))"
proof (induction xs arbitrary: c)
  case (Cons x xs)
  then show ?case
    using counter_step_depths [OF Cons.prems, of x]
    by (auto split: prod.splits sum.splits)
qed simp

text \<open>
  Whatever sequence of operations a script performs, the nesting depths of
  function calls, command substitutions and subshells stay within their limits, also when
  the sequence ends in an error.
\<close>

theorem nesting_stays_within_limits:
  "depths_ok l (snd (counter_run l ops (reset_for_execution c)))"
  by (rule counter_run_depths) (simp add: depths_ok_def reset_for_execution_def)

section \<open>Sessions\<close>

text \<open>
  \<open>begin_exec_invocation\<close> of the interpreter opens every \<open>exec\<close> call of a session: it resets the
  per-execution counters, counts the call and checks the session limits.
\<close>

definition begin_exec_invocation :: "session_limits \<Rightarrow> execution_counters \<Rightarrow> unit counted" where
  "begin_exec_invocation sl c =
     (let c' = tick_exec_call (reset_for_execution c) in (check_session_limits sl c', c'))"

fun session_run ::
  "session_limits \<Rightarrow> execution_limits \<Rightarrow> counter_op list list \<Rightarrow> execution_counters \<Rightarrow>
   nat \<times> execution_counters" where
  "session_run sl l [] c = (0, c)"
| "session_run sl l (ops # scripts) c =
     (case begin_exec_invocation sl c of
        (Inl e, c') \<Rightarrow> session_run sl l scripts c'
      | (Inr _, c') \<Rightarrow>
          (let (n, c'') = session_run sl l scripts (snd (counter_run l ops c')) in (Suc n, c'')))"

lemma counter_step_session:
  "session_commands c \<le> session_commands (snd (counter_step l x c)) \<and>
   session_exec_calls (snd (counter_step l x c)) = session_exec_calls c"
  using unat_le_max64 [of "session_commands c"]
  by (cases x) (auto simp: counter_defs word_le_nat_alt unat_sat_add min_def simp del: unat_le_max64)

lemma counter_run_session:
  "session_commands c \<le> session_commands (snd (counter_run l xs c)) \<and>
   session_exec_calls (snd (counter_run l xs c)) = session_exec_calls c"
proof (induction xs arbitrary: c)
  case (Cons x xs)
  show ?case
    using counter_step_session [of c l x] Cons.IH [of "snd (counter_step l x c)"]
    by (auto split: prod.splits sum.splits intro: order_trans)
qed simp

lemma begin_exec_calls:
  "begin_exec_invocation sl c = (r, c') \<Longrightarrow>
   unat (session_exec_calls c') = min (Suc (unat (session_exec_calls c))) 18446744073709551615 \<and>
   (r = Ok () \<longrightarrow> session_exec_calls c' \<le> max_exec_calls sl) \<and> session_commands c' = session_commands c"
  by (auto simp: begin_exec_invocation_def Let_def tick_exec_call_def reset_for_execution_def
      check_session_limits_def unat_sat_add not_less split: if_splits)

lemma session_run_bound:
  assumes "max_exec_calls sl \<noteq> - 1"
  shows "session_run sl l scripts c = (n, c') \<Longrightarrow>
    n + min (unat (session_exec_calls c)) (unat (max_exec_calls sl)) \<le> unat (max_exec_calls sl) \<and>
    session_commands c \<le> session_commands c'"
proof (induction scripts arbitrary: c n)
  case (Cons ops scripts)
  obtain r c1 where b: "begin_exec_invocation sl c = (r, c1)" by fastforce
  note calls = begin_exec_calls [OF b]
  have lim: "unat (max_exec_calls sl) < 18446744073709551615"
    using assms by (simp only: not_u64_max)
  show ?case
  proof (cases r)
    case (Inl e)
    with Cons.prems b have "session_run sl l scripts c1 = (n, c')" by simp
    from Cons.IH [OF this] calls lim show ?thesis by (auto simp: min_def split: if_splits)
  next
    case (Inr u)
    define c2 where "c2 = snd (counter_run l ops c1)"
    from Cons.prems b Inr obtain m where m: "session_run sl l scripts c2 = (m, c')" "n = Suc m"
      by (auto simp: c2_def split: prod.splits)
    have s: "session_commands c1 \<le> session_commands c2" "session_exec_calls c2 = session_exec_calls c1"
      using counter_run_session [of c1 l ops] by (auto simp: c2_def)
    from Inr calls have "unat (session_exec_calls c1) \<le> unat (max_exec_calls sl)"
      by (simp add: word_le_nat_alt)
    with Cons.IH [OF m(1)] calls s lim m(2) show ?thesis by auto
  qed
qed simp

text \<open>
  The session limit on \<open>exec\<close> calls holds across a whole session. However the
  host splits its work, at most \<open>max_exec_calls\<close> scripts of a fresh session are admitted, and
  the session's command count never goes down (TM-DOS-059).
\<close>

theorem session_admits_at_most:
  assumes "max_exec_calls sl \<noteq> - 1" and "session_run sl l scripts new_counters = (n, c')"
  shows "n \<le> unat (max_exec_calls sl)"
  using session_run_bound [OF assms] by (simp add: new_counters_def)

section \<open>Instances\<close>

text \<open>Concrete runs under the default limits at which the properties' hypotheses hold.\<close>

lemma default_limits_finite:
  "max_total_loop_iterations default_execution_limits \<noteq> - 1"
  "max_commands default_execution_limits \<noteq> - 1"
  by (simp_all add: default_execution_limits_def)

theorem script_within_budget_witness:
  "fst (counter_run default_execution_limits [EnterLoop, TickLoop, TickCommand, TickLoop, ExitLoop]
     (reset_for_execution new_counters)) = Ok () \<and>
   count_list [EnterLoop, TickLoop, TickCommand, TickLoop, ExitLoop] TickLoop
     \<le> unat (max_total_loop_iterations default_execution_limits)"
proof -
  let ?ops = "[EnterLoop, TickLoop, TickCommand, TickLoop, ExitLoop]"
  have run: "fst (counter_run default_execution_limits ?ops (reset_for_execution new_counters)) = Ok ()"
    by (simp add: counter_defs new_counters_def reset_for_execution_def default_execution_limits_def sat_add_def)
  then have "counter_run default_execution_limits ?ops (reset_for_execution new_counters) =
      (Ok (), snd (counter_run default_execution_limits ?ops (reset_for_execution new_counters)))"
    by (simp add: prod_eq_iff)
  from script_within_budget [OF this default_limits_finite] run show ?thesis by simp
qed

theorem loop_limit_exact_witness:
  "fst (counter_run default_execution_limits (EnterLoop # replicate 10000 TickLoop) new_counters) = Ok () \<and>
   fst (counter_run default_execution_limits (EnterLoop # replicate 10001 TickLoop) new_counters) \<noteq> Ok ()"
proof -
  have "total_loop_iterations new_counters \<le> max_total_loop_iterations default_execution_limits"
    by (simp add: new_counters_def)
  note exact = loop_limit_exact [OF default_limits_finite(1) this]
  have "unat (max_loop_iterations default_execution_limits) = 10000"
    "unat (max_total_loop_iterations default_execution_limits) = 1000000"
    "unat (total_loop_iterations new_counters) = 0"
    by (simp_all add: default_execution_limits_def new_counters_def)
  then show ?thesis by (simp only: exact) simp
qed

theorem session_admits_at_most_witness:
  "fst (session_run (session_limits.make 100 1) default_execution_limits [[TickCommand], [TickCommand], []]
     new_counters) \<le> 1"
proof -
  let ?sl = "session_limits.make 100 1"
  have lim: "max_exec_calls ?sl \<noteq> - 1" "unat (max_exec_calls ?sl) = 1"
    by (simp_all add: session_limits.defs)
  show ?thesis
    using session_admits_at_most [OF lim(1), of default_execution_limits
        "[[TickCommand], [TickCommand], []]" "fst (session_run ?sl default_execution_limits
        [[TickCommand], [TickCommand], []] new_counters)"] lim(2)
    by (simp add: prod_eq_iff)
qed

end
