(* ===== verification/MemBudget.thy ===== *)
theory MemBudget
  imports Limits
begin

unbundle bit_operations_syntax

text \<open>
  \<open>MemoryBudget\<close> of \<open>bashkit/src/limits.rs\<close>, the running totals that bound what a shell keeps
  in variables, arrays and functions, and its main client, the interpreter's
  \<open>insert_variable_checked\<close>, with the cached option flags it maintains. Sums of lengths are
  \<open>usize\<close> sums, which wrap.
\<close>

record memory_budget =
  variable_count :: usize
  variable_bytes :: usize
  array_entries :: usize
  function_count :: usize
  function_body_bytes :: usize

definition empty_memory_budget :: memory_budget where
  "empty_memory_budget = \<lparr>variable_count = 0, variable_bytes = 0, array_entries = 0,
     function_count = 0, function_body_bytes = 0\<rparr>"

definition check_variable_insert ::
  "usize \<Rightarrow> usize \<Rightarrow> bool \<Rightarrow> usize \<Rightarrow> usize \<Rightarrow> memory_limits \<Rightarrow> memory_budget \<Rightarrow> limit_exceeded + unit" where
  "check_variable_insert key_len value_len is_new old_key_len old_value_len l b =
     (if is_new \<and> max_variable_count l \<le> variable_count b
      then Err (MemoryErr (VariableCountLimit (max_variable_count l)))
      else let new_bytes = sat_sub (variable_bytes b + key_len + value_len) (old_key_len + old_value_len)
           in if max_total_variable_bytes l < new_bytes
              then Err (MemoryErr (VariableByteLimit (max_total_variable_bytes l)))
              else Ok ())"

definition record_variable_insert ::
  "usize \<Rightarrow> usize \<Rightarrow> bool \<Rightarrow> usize \<Rightarrow> usize \<Rightarrow> memory_budget \<Rightarrow> memory_budget" where
  "record_variable_insert key_len value_len is_new old_key_len old_value_len b =
     (let b' = (if is_new then b\<lparr>variable_count := variable_count b + 1\<rparr> else b)
      in b'\<lparr>variable_bytes :=
               sat_sub (variable_bytes b' + key_len + value_len) (old_key_len + old_value_len)\<rparr>)"

definition record_variable_remove :: "usize \<Rightarrow> usize \<Rightarrow> memory_budget \<Rightarrow> memory_budget" where
  "record_variable_remove key_len value_len b =
     b\<lparr>variable_count := sat_sub (variable_count b) 1,
       variable_bytes := sat_sub (variable_bytes b) (key_len + value_len)\<rparr>"

definition check_array_entries :: "usize \<Rightarrow> memory_limits \<Rightarrow> memory_budget \<Rightarrow> limit_exceeded + unit" where
  "check_array_entries additional l b =
     (if max_array_entries l < array_entries b + additional
      then Err (MemoryErr (ArrayEntryLimit (max_array_entries l))) else Ok ())"

definition record_array_insert :: "usize \<Rightarrow> memory_budget \<Rightarrow> memory_budget" where
  "record_array_insert added b = b\<lparr>array_entries := array_entries b + added\<rparr>"

definition record_array_remove :: "usize \<Rightarrow> memory_budget \<Rightarrow> memory_budget" where
  "record_array_remove removed b = b\<lparr>array_entries := sat_sub (array_entries b) removed\<rparr>"

definition check_function_insert ::
  "usize \<Rightarrow> bool \<Rightarrow> usize \<Rightarrow> memory_limits \<Rightarrow> memory_budget \<Rightarrow> limit_exceeded + unit" where
  "check_function_insert body_bytes is_new old_body_bytes l b =
     (if is_new \<and> max_function_count l \<le> function_count b
      then Err (MemoryErr (FunctionCountLimit (max_function_count l)))
      else let new_bytes = sat_sub (function_body_bytes b + body_bytes) old_body_bytes
           in if max_function_body_bytes l < new_bytes
              then Err (MemoryErr (FunctionBodyByteLimit (max_function_body_bytes l)))
              else Ok ())"

definition record_function_insert :: "usize \<Rightarrow> bool \<Rightarrow> usize \<Rightarrow> memory_budget \<Rightarrow> memory_budget" where
  "record_function_insert body_bytes is_new old_body_bytes b =
     (let b' = (if is_new then b\<lparr>function_count := function_count b + 1\<rparr> else b)
      in b'\<lparr>function_body_bytes := sat_sub (function_body_bytes b' + body_bytes) old_body_bytes\<rparr>)"

definition record_function_remove :: "usize \<Rightarrow> memory_budget \<Rightarrow> memory_budget" where
  "record_function_remove body_bytes b =
     b\<lparr>function_count := sat_sub (function_count b) 1,
       function_body_bytes := sat_sub (function_body_bytes b) body_bytes\<rparr>"

definition str_len :: "rstr \<Rightarrow> usize" where
  "str_len s = of_nat (byte_len s)"

definition recompute_from_state ::
  "(rstr \<times> rstr) list \<Rightarrow> (rstr \<times> (usize \<times> rstr) list) list \<Rightarrow> (rstr \<times> (rstr \<times> rstr) list) list \<Rightarrow>
   usize \<Rightarrow> usize \<Rightarrow> (rstr \<Rightarrow> bool) \<Rightarrow> memory_budget" where
  "recompute_from_state variables arrays assoc_arrays fn_count fn_bytes is_internal =
     (let b0 = foldl (\<lambda>b (k, v).
                 if \<not> is_internal k
                 then b\<lparr>variable_count := variable_count b + 1,
                        variable_bytes := variable_bytes b + (str_len k + str_len v)\<rparr>
                 else b) empty_memory_budget variables;
          b1 = foldl (\<lambda>b (_, arr). b\<lparr>array_entries := array_entries b + of_nat (length arr)\<rparr>) b0 arrays;
          b2 = foldl (\<lambda>b (_, arr). b\<lparr>array_entries := array_entries b + of_nat (length arr)\<rparr>) b1 assoc_arrays
      in b2\<lparr>function_count := fn_count, function_body_bytes := fn_bytes\<rparr>)"

section \<open>The variable store\<close>

definition is_internal_variable :: "rstr \<Rightarrow> bool" where
  "is_internal_variable name \<longleftrightarrow>
     starts_with name (lit ''SHOPT_'') \<or> starts_with name (lit ''_NAMEREF_'') \<or>
     starts_with name (lit ''_READONLY_'') \<or> starts_with name (lit ''_UPPER_'') \<or>
     starts_with name (lit ''_LOWER_'') \<or> starts_with name (lit ''_INTEGER_'') \<or>
     starts_with name (lit ''_ARRAY_READ_'') \<or>
     name = lit ''_SHIFT_COUNT'' \<or> name = lit ''_SET_POSITIONAL''"

type_synonym bash_flags = "16 word"

definition shopt_bits :: "(rstr \<times> bash_flags) list" where
  "shopt_bits =
     [(lit ''SHOPT_e'', 1), (lit ''SHOPT_x'', 2), (lit ''SHOPT_u'', 4), (lit ''SHOPT_f'', 8),
      (lit ''SHOPT_v'', 16), (lit ''SHOPT_a'', 32), (lit ''SHOPT_n'', 64), (lit ''SHOPT_C'', 128),
      (lit ''SHOPT_pipefail'', 256), (lit ''SHOPT_expand_aliases'', 512)]"

definition from_shopt_name :: "rstr \<Rightarrow> bash_flags option" where
  "from_shopt_name name = map_of shopt_bits name"

record var_store =
  variables :: "(rstr \<times> rstr) list"
  mem_budget :: memory_budget
  flags :: bash_flags

definition insert_variable_checked ::
  "memory_limits \<Rightarrow> rstr \<Rightarrow> rstr \<Rightarrow> var_store \<Rightarrow> bool \<times> var_store" where
  "insert_variable_checked l key value s =
     (let is_new = (\<not> contains_key (variables s) key);
          (old_key_len, old_value_len) =
            (if is_new then (0, 0)
             else (str_len key, case map_of (variables s) key of None \<Rightarrow> 0 | Some v \<Rightarrow> str_len v));
          checked =
            (if is_internal_variable key then Ok (mem_budget s)
             else res_bind (check_variable_insert (str_len key) (str_len value) is_new
                              old_key_len old_value_len l (mem_budget s))
                    (\<lambda>_. Ok (record_variable_insert (str_len key) (str_len value) is_new
                              old_key_len old_value_len (mem_budget s))))
      in case checked of
           Inl e \<Rightarrow> (False, s)
         | Inr b \<Rightarrow>
             (True, s\<lparr>mem_budget := b,
                      flags := (case from_shopt_name key of
                                  None \<Rightarrow> flags s
                                | Some fl \<Rightarrow> if value = lit ''1'' then flags s OR fl
                                              else flags s AND NOT fl),
                      variables := AList.update key value (variables s)\<rparr>))"

definition empty_store :: var_store where
  "empty_store = \<lparr>variables = [], mem_budget = empty_memory_budget, flags = 0\<rparr>"

fun insert_all :: "memory_limits \<Rightarrow> (rstr \<times> rstr) list \<Rightarrow> var_store \<Rightarrow> var_store" where
  "insert_all l [] s = s"
| "insert_all l ((k, v) # kvs) s = insert_all l kvs (snd (insert_variable_checked l k v s))"

section \<open>What the totals count\<close>

definition user_count :: "rstr \<times> rstr \<Rightarrow> nat" where
  "user_count kv = (if is_internal_variable (fst kv) then 0 else 1)"

definition user_bytes :: "rstr \<times> rstr \<Rightarrow> nat" where
  "user_bytes kv = (if is_internal_variable (fst kv) then 0 else byte_len (fst kv) + byte_len (snd kv))"

definition total_count :: "(rstr \<times> rstr) list \<Rightarrow> nat" where
  "total_count vs = sum_list (map user_count vs)"

definition total_bytes :: "(rstr \<times> rstr) list \<Rightarrow> nat" where
  "total_bytes vs = sum_list (map user_bytes vs)"

text \<open>The store within its limits: what \<open>insert_variable_checked\<close> keeps true.\<close>

definition store_ok :: "memory_limits \<Rightarrow> var_store \<Rightarrow> bool" where
  "store_ok l s \<longleftrightarrow>
     distinct (keys (variables s)) \<and>
     unat (variable_count (mem_budget s)) = total_count (variables s) \<and>
     unat (variable_bytes (mem_budget s)) = total_bytes (variables s) \<and>
     total_count (variables s) \<le> unat (max_variable_count l) \<and>
     total_bytes (variables s) \<le> unat (max_total_variable_bytes l)"

definition addressable :: "memory_limits \<Rightarrow> rstr \<times> rstr \<Rightarrow> bool" where
  "addressable l kv \<longleftrightarrow>
     byte_len (fst kv) + byte_len (snd kv) + unat (max_total_variable_bytes l) < 2 ^ 64"

lemma total_update_new:
  "k \<notin> set (keys vs) \<Longrightarrow> total_count (AList.update k v vs) = total_count vs + user_count (k, v)"
  "k \<notin> set (keys vs) \<Longrightarrow> total_bytes (AList.update k v vs) = total_bytes vs + user_bytes (k, v)"
  by (simp_all add: total_count_def total_bytes_def sum_list_update_new)

lemma total_update_old:
  assumes "distinct (keys vs)" "map_of vs k = Some u"
  shows "total_count (AList.update k v vs) + user_count (k, u) = total_count vs + user_count (k, v)"
    "total_bytes (AList.update k v vs) + user_bytes (k, u) = total_bytes vs + user_bytes (k, v)"
  using assms by (simp_all add: total_count_def total_bytes_def sum_list_update_old)

lemma total_bytes_mem: "map_of vs k = Some u \<Longrightarrow> user_bytes (k, u) \<le> total_bytes vs"
  by (auto simp: total_bytes_def dest!: map_of_SomeD intro!: member_le_sum_list)

lemma total_count_mem: "map_of vs k = Some u \<Longrightarrow> user_count (k, u) \<le> total_count vs"
  by (auto simp: total_count_def dest!: map_of_SomeD intro!: member_le_sum_list)

lemma unat_str_len: "byte_len s < 2 ^ 64 \<Longrightarrow> unat (str_len s) = byte_len s"
  by (simp add: str_len_def unat_of_nat take_bit_nat_eq_self)

text \<open>The charge of one insert, as a function of the sizes, when nothing wraps.\<close>

lemma charge_exact:
  assumes "unat b + unat k + unat v < 2 ^ 64"
  shows "unat (sat_sub (b + k + v) (ok + ov :: usize)) = unat b + unat k + unat v - unat (ok + ov)"
proof -
  have "unat (b + k) = unat b + unat k"
    by (rule unat_add_small) (use assms in simp)
  moreover from this have "unat (b + k + v) = unat (b + k) + unat v"
    by (intro unat_add_small) (use assms in simp)
  ultimately show ?thesis by (simp add: unat_sat_sub)
qed

section \<open>Inserting a variable\<close>

lemma insert_variables:
  "variables (snd (insert_variable_checked l k v s)) =
     (if fst (insert_variable_checked l k v s) then AList.update k v (variables s) else variables s)"
  by (auto simp: insert_variable_checked_def Let_def split: prod.split sum.splits)

lemma insert_internal_budget:
  "is_internal_variable k \<Longrightarrow> fst (insert_variable_checked l k v s) \<and>
     mem_budget (snd (insert_variable_checked l k v s)) = mem_budget s"
  by (simp add: insert_variable_checked_def Let_def split: prod.split)

lemma insert_refused_state:
  "\<not> fst (insert_variable_checked l k v s) \<Longrightarrow> snd (insert_variable_checked l k v s) = s"
  by (auto simp: insert_variable_checked_def Let_def split: prod.splits sum.splits if_splits)

lemma insert_new_user:
  assumes "\<not> is_internal_variable k" "k \<notin> set (keys (variables s))"
  shows "fst (insert_variable_checked l k v s) \<longleftrightarrow>
           variable_count (mem_budget s) < max_variable_count l \<and>
           sat_sub (variable_bytes (mem_budget s) + str_len k + str_len v) (0 + 0) \<le> max_total_variable_bytes l"
    and "fst (insert_variable_checked l k v s) \<Longrightarrow>
           mem_budget (snd (insert_variable_checked l k v s)) =
           (mem_budget s)\<lparr>variable_count := variable_count (mem_budget s) + 1,
              variable_bytes := sat_sub (variable_bytes (mem_budget s) + str_len k + str_len v) (0 + 0)\<rparr>"
  using assms
  by (auto simp: insert_variable_checked_def contains_key_iff check_variable_insert_def
      record_variable_insert_def Let_def not_le not_less split: if_splits)

lemma insert_old_user:
  assumes "\<not> is_internal_variable k" "map_of (variables s) k = Some u"
  shows "fst (insert_variable_checked l k v s) \<longleftrightarrow>
           sat_sub (variable_bytes (mem_budget s) + str_len k + str_len v) (str_len k + str_len u)
             \<le> max_total_variable_bytes l"
    and "fst (insert_variable_checked l k v s) \<Longrightarrow>
           mem_budget (snd (insert_variable_checked l k v s)) =
           (mem_budget s)\<lparr>variable_bytes :=
              sat_sub (variable_bytes (mem_budget s) + str_len k + str_len v) (str_len k + str_len u)\<rparr>"
  using assms
  by (auto simp: insert_variable_checked_def contains_key_def check_variable_insert_def
      record_variable_insert_def Let_def not_le not_less split: if_splits)

lemma addressable_charge:
  assumes "store_ok l s" "addressable l (k, v)"
  shows "unat (sat_sub (variable_bytes (mem_budget s) + str_len k + str_len v) w) =
           total_bytes (variables s) + byte_len k + byte_len v - unat w"
proof -
  from assms have "byte_len k < 2 ^ 64" "byte_len v < 2 ^ 64"
    "unat (variable_bytes (mem_budget s)) + byte_len k + byte_len v < 2 ^ 64"
    by (auto simp: store_ok_def addressable_def)
  then show ?thesis
    using assms(1) charge_exact [of "variable_bytes (mem_budget s)" "str_len k" "str_len v" w 0]
    by (simp add: unat_str_len store_ok_def)
qed

lemma insert_new_ok:
  assumes ok: "store_ok l s" and ad: "addressable l (k, v)"
    and user: "\<not> is_internal_variable k" and new: "k \<notin> set (keys (variables s))"
    and acc: "fst (insert_variable_checked l k v s)"
  shows "store_ok l (snd (insert_variable_checked l k v s))"
proof -
  let ?s' = "snd (insert_variable_checked l k v s)"
  have vs: "variables ?s' = AList.update k v (variables s)" by (simp add: insert_variables acc)
  have cnt: "variable_count (mem_budget s) < max_variable_count l"
    and byt: "sat_sub (variable_bytes (mem_budget s) + str_len k + str_len v) (0 + 0) \<le> max_total_variable_bytes l"
    using acc insert_new_user(1) [OF user new] by simp_all
  note mb = insert_new_user(2) [OF user new acc]
  have "unat (variable_count (mem_budget ?s')) = Suc (total_count (variables s))"
    using ok cnt by (simp add: mb store_ok_def unat_plus_one_less)
  moreover have "total_count (AList.update k v (variables s)) = Suc (total_count (variables s))"
    "total_bytes (AList.update k v (variables s)) = total_bytes (variables s) + byte_len k + byte_len v"
    using new user by (simp_all add: total_update_new user_count_def user_bytes_def)
  moreover have "Suc (total_count (variables s)) \<le> unat (max_variable_count l)"
    using ok cnt by (simp add: store_ok_def word_less_nat_alt)
  moreover have "total_bytes (variables s) + byte_len k + byte_len v \<le> unat (max_total_variable_bytes l)"
    using byt addressable_charge [OF ok ad] by (simp add: word_le_nat_alt)
  ultimately show ?thesis
    using ok addressable_charge [OF ok ad] by (simp add: store_ok_def vs mb distinct_update)
qed

lemma insert_old_ok:
  assumes ok: "store_ok l s" and ad: "addressable l (k, v)"
    and user: "\<not> is_internal_variable k" and old: "map_of (variables s) k = Some u"
    and acc: "fst (insert_variable_checked l k v s)"
  shows "store_ok l (snd (insert_variable_checked l k v s))"
proof -
  let ?s' = "snd (insert_variable_checked l k v s)"
  have vs: "variables ?s' = AList.update k v (variables s)" by (simp add: insert_variables acc)
  have d: "distinct (keys (variables s))" using ok by (simp add: store_ok_def)
  have le: "byte_len k + byte_len u \<le> total_bytes (variables s)"
    using total_bytes_mem [OF old] user by (simp add: user_bytes_def)
  then have small: "byte_len k + byte_len u < 2 ^ 64"
    using ok unat_lt_max64 [of "variable_bytes (mem_budget s)"] by (simp add: store_ok_def)
  then have "unat (str_len k + str_len u) = byte_len k + byte_len u"
    by (simp add: unat_add_small unat_str_len)
  then have new_bytes: "unat (sat_sub (variable_bytes (mem_budget s) + str_len k + str_len v)
      (str_len k + str_len u)) = total_bytes (variables s) + byte_len v - byte_len u"
    by (simp add: addressable_charge [OF ok ad])
  have tot: "total_count (AList.update k v (variables s)) = total_count (variables s)"
    "total_bytes (AList.update k v (variables s)) = total_bytes (variables s) + byte_len v - byte_len u"
    using total_update_old [OF d old, of v] user le by (simp_all add: user_count_def user_bytes_def)
  have "sat_sub (variable_bytes (mem_budget s) + str_len k + str_len v) (str_len k + str_len u)
      \<le> max_total_variable_bytes l"
    using acc insert_old_user(1) [OF user old] by simp
  then have "total_bytes (variables s) + byte_len v - byte_len u \<le> unat (max_total_variable_bytes l)"
    using new_bytes by (simp add: word_le_nat_alt)
  then show ?thesis
    using ok d new_bytes
    by (simp add: store_ok_def vs insert_old_user(2) [OF user old acc] tot distinct_update)
qed

lemma insert_internal_ok:
  assumes ok: "store_ok l s" and "is_internal_variable k"
  shows "store_ok l (snd (insert_variable_checked l k v s))"
proof -
  have "total_count (AList.update k v (variables s)) = total_count (variables s)"
    "total_bytes (AList.update k v (variables s)) = total_bytes (variables s)"
    using ok assms(2) total_update_new [of k "variables s" v] total_update_old [of "variables s" k _ v]
    by (cases "map_of (variables s) k";
        simp add: store_ok_def user_count_def user_bytes_def map_of_eq_None_iff)+
  then show ?thesis
    using ok insert_internal_budget [OF assms(2), of l v s]
    by (simp add: store_ok_def insert_variables distinct_update)
qed

lemma insert_ok:
  assumes "store_ok l s" "addressable l (k, v)"
  shows "store_ok l (snd (insert_variable_checked l k v s))"
proof (cases "fst (insert_variable_checked l k v s)")
  case False
  then show ?thesis using assms(1) by (simp add: insert_refused_state)
next
  case True
  then show ?thesis
    using insert_new_ok [OF assms] insert_old_ok [OF assms] insert_internal_ok [OF assms(1)]
    by (cases "map_of (variables s) k") (auto simp: map_of_eq_None_iff)
qed

lemma of_nat_unat_eq: "unat w = n \<Longrightarrow> w = of_nat n" for w :: "'a::len word"
  by auto

lemma store_ok_empty: "store_ok l empty_store"
  by (simp add: store_ok_def empty_store_def empty_memory_budget_def total_count_def total_bytes_def)

lemma insert_all_ok:
  "\<forall>kv \<in> set kvs. addressable l kv \<Longrightarrow> store_ok l s \<Longrightarrow> store_ok l (insert_all l kvs s)"
  by (induction kvs arbitrary: s) (auto simp: insert_ok)

section \<open>Recomputing the totals\<close>

definition count_variable :: "memory_budget \<Rightarrow> rstr \<times> rstr \<Rightarrow> memory_budget" where
  "count_variable b kv = (case kv of (k, v) \<Rightarrow>
     if \<not> is_internal_variable k
     then b\<lparr>variable_count := variable_count b + 1,
            variable_bytes := variable_bytes b + (str_len k + str_len v)\<rparr>
     else b)"

lemma foldl_count_variable:
  "foldl count_variable b vs =
     b\<lparr>variable_count := variable_count b + of_nat (total_count vs),
       variable_bytes := variable_bytes b + of_nat (total_bytes vs)\<rparr>"
proof (induction vs arbitrary: b)
  case Nil
  show ?case by (simp add: total_count_def total_bytes_def)
next
  case (Cons kv vs)
  show ?case
    by (simp add: Cons.IH)
      (cases kv, simp add: count_variable_def total_count_def total_bytes_def user_count_def
        user_bytes_def str_len_def algebra_simps)
qed

lemma recompute_variables:
  "recompute_from_state vs [] [] fc fb is_internal_variable =
     \<lparr>variable_count = of_nat (total_count vs), variable_bytes = of_nat (total_bytes vs),
      array_entries = 0, function_count = fc, function_body_bytes = fb\<rparr>"
proof -
  have "(\<lambda>b (k, v). if \<not> is_internal_variable k
           then b\<lparr>variable_count := variable_count b + 1,
                  variable_bytes := variable_bytes b + (str_len k + str_len v)\<rparr>
           else b) = count_variable"
    by (intro ext) (simp add: count_variable_def split: prod.split)
  then show ?thesis
    by (simp only: recompute_from_state_def Let_def)
      (simp add: foldl_count_variable empty_memory_budget_def)
qed

definition other_totals :: "memory_budget \<Rightarrow> usize \<times> usize \<times> usize" where
  "other_totals b = (array_entries b, function_count b, function_body_bytes b)"

lemma insert_other_totals:
  "other_totals (mem_budget (snd (insert_variable_checked l k v s))) = other_totals (mem_budget s)"
  by (auto simp: insert_variable_checked_def Let_def record_variable_insert_def other_totals_def
      res_bind_def split: prod.split sum.splits)

lemma insert_all_other_totals:
  "other_totals (mem_budget (insert_all l kvs s)) = other_totals (mem_budget s)"
  by (induction kvs arbitrary: s) (auto simp: insert_other_totals)

section \<open>The flag cache\<close>

definition flags_synced :: "var_store \<Rightarrow> bool" where
  "flags_synced s = list_all (\<lambda>(name, fl).
     flags s AND fl = (if map_of (variables s) name = Some (lit ''1'') then fl else 0)) shopt_bits"

lemma insert_flags:
  "flags (snd (insert_variable_checked l k v s)) =
     (if fst (insert_variable_checked l k v s)
      then case from_shopt_name k of None \<Rightarrow> flags s
           | Some fl \<Rightarrow> if v = lit ''1'' then flags s OR fl else flags s AND NOT fl
      else flags s)"
  by (auto simp: insert_variable_checked_def Let_def split: prod.split sum.splits)

lemma shopt_disjoint:
  "list_all (\<lambda>(n, f). list_all (\<lambda>(n', f'). n = n' \<longleftrightarrow> f AND f' \<noteq> 0) shopt_bits) shopt_bits"
  "list_all (\<lambda>(n, f). list_all (\<lambda>(n', f'). n = n' \<longrightarrow> f = f') shopt_bits) shopt_bits"
  by (simp_all add: shopt_bits_def lit_def)

lemma shopt_pairs:
  assumes "(n, f) \<in> set shopt_bits" "(n', f') \<in> set shopt_bits"
  shows "n = n' \<longleftrightarrow> f AND f' \<noteq> 0" "n = n' \<Longrightarrow> f = f'"
  using bspec [OF bspec [OF shopt_disjoint(1) [unfolded list_all_iff] assms(1), simplified] assms(2)]
    bspec [OF bspec [OF shopt_disjoint(2) [unfolded list_all_iff] assms(1), simplified] assms(2)]
  by simp_all

lemma and_or_distrib: "((w :: bash_flags) OR b) AND f = (w AND f) OR (b AND f)"
  by (simp add: bit.conj_disj_distrib2)

lemma and_not_disjoint:
  "b AND f = 0 \<Longrightarrow> ((w :: bash_flags) AND NOT b) AND f = w AND f"
  by (auto simp: bit_eq_iff bit_and_iff bit_not_iff)

lemma insert_flags_synced:
  assumes "flags_synced s"
  shows "flags_synced (snd (insert_variable_checked l k v s))"
  unfolding flags_synced_def list_all_iff
proof (clarify)
  fix n f
  assume nf: "(n, f) \<in> set shopt_bits"
  let ?s' = "snd (insert_variable_checked l k v s)"
  have old: "flags s AND f = (if map_of (variables s) n = Some (lit ''1'') then f else 0)"
    using assms nf by (auto simp: flags_synced_def list_all_iff)
  show "flags ?s' AND f = (if map_of (variables ?s') n = Some (lit ''1'') then f else 0)"
  proof (cases "fst (insert_variable_checked l k v s)")
    case False
    then show ?thesis using old by (simp add: insert_refused_state)
  next
    case acc: True
    show ?thesis
    proof (cases "from_shopt_name k")
      case None
      then have "k \<noteq> n" using nf by (force simp: from_shopt_name_def map_of_eq_None_iff)
      then show ?thesis using old None acc by (simp add: insert_flags insert_variables update_conv')
    next
      case (Some g)
      then have kg: "(k, g) \<in> set shopt_bits" by (simp add: from_shopt_name_def map_of_SomeD)
      show ?thesis
      proof (cases "k = n")
        case True
        then have "f = g" using shopt_pairs(2) [OF kg nf] by simp
        moreover have "((w :: bash_flags) AND NOT g) AND g = 0" for w by (simp add: and.assoc)
        ultimately show ?thesis
          using True Some acc by (simp add: insert_flags insert_variables update_conv' and_or_distrib or.commute)
      next
        case False
        then have "g AND f = 0" using shopt_pairs(1) [OF kg nf] by blast
        then show ?thesis
          using False Some acc old
          by (simp add: insert_flags insert_variables update_conv' and_or_distrib and_not_disjoint)
      qed
    qed
  qed
qed

lemma insert_all_flags_synced: "flags_synced s \<Longrightarrow> flags_synced (insert_all l kvs s)"
  by (induction kvs arbitrary: s) (auto simp: insert_flags_synced)

lemma flags_synced_empty: "flags_synced empty_store"
  by (simp add: flags_synced_def empty_store_def list_all_iff)

section \<open>Properties\<close>

text \<open>
  Property C31: after any sequence of \<open>insert_variable_checked\<close> calls, accepted or refused, the
  incrementally maintained budget equals the budget \<open>recompute_from_state\<close> computes from the
  variables the shell really holds, the number of user variables is at most
  \<open>max_variable_count\<close> and their total size at most \<open>max_total_variable_bytes\<close>. Sizes must stay
  addressable: the byte limit plus one entry fits \<open>usize\<close>.
\<close>

theorem variable_budget_is_exact:
  assumes "\<forall>kv \<in> set kvs. addressable l kv"
  shows "mem_budget (insert_all l kvs empty_store) =
           recompute_from_state (variables (insert_all l kvs empty_store)) [] [] 0 0 is_internal_variable
         \<and> total_count (variables (insert_all l kvs empty_store)) \<le> unat (max_variable_count l)
         \<and> total_bytes (variables (insert_all l kvs empty_store)) \<le> unat (max_total_variable_bytes l)"
proof -
  let ?s = "insert_all l kvs empty_store"
  have ok: "store_ok l ?s" by (rule insert_all_ok [OF assms store_ok_empty])
  have "other_totals (mem_budget ?s) = (0, 0, 0)"
    by (simp add: insert_all_other_totals) (simp add: other_totals_def empty_store_def empty_memory_budget_def)
  moreover have "variable_count (mem_budget ?s) = of_nat (total_count (variables ?s))"
    "variable_bytes (mem_budget ?s) = of_nat (total_bytes (variables ?s))"
    using ok by (simp_all only: store_ok_def of_nat_unat_eq)
  ultimately show ?thesis
    using ok by (simp add: recompute_variables store_ok_def other_totals_def)
qed

text \<open>
  The cached option flags agree with the \<open>SHOPT_*\<close> variables after any sequence of
  inserts: a flag's bit is set exactly when its variable holds \<open>1\<close>.
\<close>

theorem flag_cache_matches_variables:
  assumes "from_shopt_name name = Some fl"
  shows "flags (insert_all l kvs empty_store) AND fl =
           (if map_of (variables (insert_all l kvs empty_store)) name = Some (lit ''1'') then fl else 0)"
proof -
  have "(name, fl) \<in> set shopt_bits"
    using assms by (auto simp: from_shopt_name_def dest: map_of_SomeD)
  then show ?thesis
    using insert_all_flags_synced [OF flags_synced_empty, of l kvs]
    by (auto simp only: flags_synced_def list_all_iff split_beta fst_conv snd_conv dest!: bspec)
qed

text \<open>Concrete instances of the two properties.\<close>

theorem variable_budget_is_exact_witness:
  "mem_budget (insert_all default_memory_limits [(lit ''a'', lit ''bc''), (lit ''SHOPT_e'', lit ''1'')] empty_store) =
     recompute_from_state
       (variables (insert_all default_memory_limits [(lit ''a'', lit ''bc''), (lit ''SHOPT_e'', lit ''1'')] empty_store))
       [] [] 0 0 is_internal_variable"
proof -
  have "\<forall>kv \<in> set [(lit ''a'', lit ''bc''), (lit ''SHOPT_e'', lit ''1'')]. addressable default_memory_limits kv"
    by (simp add: addressable_def lit_def len_utf8_def default_memory_limits_def
        DEFAULT_MAX_TOTAL_VARIABLE_BYTES_def)
  from variable_budget_is_exact [OF this] show ?thesis by blast
qed

theorem flag_cache_matches_variables_witness:
  "flags (insert_all default_memory_limits [(lit ''SHOPT_e'', lit ''1'')] empty_store) AND 1 = 1"
proof -
  have name: "from_shopt_name (lit ''SHOPT_e'') = Some 1"
    by (simp add: from_shopt_name_def shopt_bits_def lit_def)
  have "map_of (variables (insert_all default_memory_limits [(lit ''SHOPT_e'', lit ''1'')] empty_store))
      (lit ''SHOPT_e'') = Some (lit ''1'')"
    by (simp add: insert_variable_checked_def empty_store_def is_internal_variable_def
        starts_with_def lit_def Let_def)
  with flag_cache_matches_variables [OF name, of default_memory_limits "[(lit ''SHOPT_e'', lit ''1'')]"]
  show ?thesis by simp
qed

end
