(* ===== verification/Budget.thy ===== *)
theory Budget
  imports Limits
begin

text \<open>
  \<open>ExecutionBudget\<close> of \<open>bashkit/src/limits.rs\<close>: the aggregate work, input and live-byte budget
  shared by everything one request starts, its leases, and the interpreter's per-command
  checkpoint. An operation reads an environment (the clock, the shared cancellation token)
  and returns its \<open>Result\<close> with the new budget. The concurrent behaviour of the atomic
  counters is modelled in \<open>BudgetRace\<close>, the growable buffers in \<open>BudgetBuf\<close>.
\<close>

section \<open>State\<close>

text \<open>
  \<open>Instant\<close> is a number of nanoseconds; \<open>Instant::checked_add\<close> fails when the seconds leave
  an \<open>i64\<close>. The \<open>cancelled\<close> flag is owned by the host, so it is part of the environment.
\<close>

type_synonym instant = nat

record budget_env =
  now :: instant
  cancelled :: bool

definition instant_checked_add :: "instant \<Rightarrow> duration \<Rightarrow> instant option" where
  "instant_checked_add t d = (if (t + d) div 1000000000 < 2 ^ 63 then Some (t + d) else None)"

record execution_budget =
  b_max_work_units :: u64
  b_max_input_bytes :: u64
  b_max_live_bytes :: u64
  b_timeout :: duration
  b_work_units :: u64
  b_input_bytes :: u64
  b_live_bytes :: u64
  b_deadline :: "instant option"
  b_poisoned :: "budget_exceeded option"
  b_closed :: bool

definition DEADLINE_GRACE :: duration where "DEADLINE_GRACE = 100000000"

definition new_budget :: "budget_env \<Rightarrow> execution_limits \<Rightarrow> execution_budget" where
  "new_budget e l =
     \<lparr>b_max_work_units = max_work_units l,
      b_max_input_bytes = max_aggregate_input_bytes l,
      b_max_live_bytes = max_live_intermediate_bytes l,
      b_timeout = timeout l,
      b_work_units = 0, b_input_bytes = 0, b_live_bytes = 0,
      b_deadline = (case instant_checked_add (now e) (timeout l) of
                      None \<Rightarrow> None | Some d \<Rightarrow> instant_checked_add d DEADLINE_GRACE),
      b_poisoned = None, b_closed = False\<rparr>"

type_synonym 'a budgeted = "(limit_exceeded + 'a) \<times> execution_budget"

section \<open>Operations\<close>

definition failure :: "execution_budget \<Rightarrow> limit_exceeded option" where
  "failure b = map_option ExecutionBudgetErr (b_poisoned b)"

definition poison :: "budget_exceeded \<Rightarrow> execution_budget \<Rightarrow> limit_exceeded \<times> execution_budget" where
  "poison reason b =
     (let r = (case b_poisoned b of None \<Rightarrow> reason | Some old \<Rightarrow> old)
      in (ExecutionBudgetErr r, b\<lparr>b_poisoned := Some r\<rparr>))"

text \<open>\<open>return Err(self.poison(reason))\<close>.\<close>

definition fail_with :: "budget_exceeded \<Rightarrow> execution_budget \<Rightarrow> 'a budgeted" where
  "fail_with reason b = (let (err, b') = poison reason b in (Err err, b'))"

definition check :: "budget_env \<Rightarrow> execution_budget \<Rightarrow> unit budgeted" where
  "check e b =
     (if b_closed b then (Err (ExecutionBudgetErr RequestClosed), b)
      else case failure b of
        Some err \<Rightarrow> (Err err, b)
      | None \<Rightarrow>
          if cancelled e then fail_with Cancelled b
          else if (case b_deadline b of None \<Rightarrow> False | Some d \<Rightarrow> d \<le> now e)
            then fail_with (Deadline (b_timeout b)) b
          else (Ok (), b))"

definition close :: "execution_budget \<Rightarrow> execution_budget" where
  "close b = b\<lparr>b_closed := True\<rparr>"

text \<open>\<open>self.check()?\<close> followed by the rest of the operation.\<close>

definition checked_then ::
  "budget_env \<Rightarrow> execution_budget \<Rightarrow> (execution_budget \<Rightarrow> 'a budgeted) \<Rightarrow> 'a budgeted" where
  "checked_then e b k = (case check e b of (Inl err, b') \<Rightarrow> (Err err, b') | (Inr _, b') \<Rightarrow> k b')"

text \<open>
  One pass of \<open>reserve_atomic\<close>, which is all of it when no other thread writes the counter
  (then \<open>compare_exchange_weak\<close> at worst repeats the pass with the same value): the new
  counter, or the total that was asked for.
\<close>

definition reserve_atomic :: "u64 \<Rightarrow> u64 \<Rightarrow> u64 \<Rightarrow> u64 + u64" where
  "reserve_atomic current amount limit =
     (case checked_add current amount of
        None \<Rightarrow> Err (- 1)
      | Some next \<Rightarrow> if limit < next then Err next else Ok next)"

definition consume_work :: "budget_env \<Rightarrow> u64 \<Rightarrow> execution_budget \<Rightarrow> unit budgeted" where
  "consume_work e units b = checked_then e b (\<lambda>b.
     case reserve_atomic (b_work_units b) units (b_max_work_units b) of
       Inl used \<Rightarrow> fail_with (WorkUnits used (b_max_work_units b)) b
     | Inr next \<Rightarrow> (Ok (), b\<lparr>b_work_units := next\<rparr>))"

definition work_units :: "execution_budget \<Rightarrow> u64" where
  "work_units b = b_work_units b"

definition consume_input :: "budget_env \<Rightarrow> usize \<Rightarrow> execution_budget \<Rightarrow> unit budgeted" where
  "consume_input e bytes b = checked_then e b (\<lambda>b.
     case reserve_atomic (b_input_bytes b) bytes (b_max_input_bytes b) of
       Inl used \<Rightarrow> fail_with (InputBytes used (b_max_input_bytes b)) b
     | Inr next \<Rightarrow> (Ok (), b\<lparr>b_input_bytes := next\<rparr>))"

definition reserve_live_bytes :: "u64 \<Rightarrow> execution_budget \<Rightarrow> (u64 + unit) \<times> execution_budget" where
  "reserve_live_bytes bytes b =
     (case reserve_atomic (b_live_bytes b) bytes (b_max_live_bytes b) of
        Inl used \<Rightarrow> (Err used, b)
      | Inr next \<Rightarrow> (Ok (), b\<lparr>b_live_bytes := next\<rparr>))"

text \<open>A lease is the number of bytes it holds; dropping it gives them back.\<close>

type_synonym lease = u64

definition lease_bytes :: "budget_env \<Rightarrow> usize \<Rightarrow> execution_budget \<Rightarrow> lease budgeted" where
  "lease_bytes e bytes b = checked_then e b (\<lambda>b.
     case reserve_live_bytes bytes b of
       (Inl used, b') \<Rightarrow> fail_with (LiveBytes used (b_max_live_bytes b')) b'
     | (Inr _, b') \<Rightarrow> (Ok bytes, b'))"

definition lease_grow :: "budget_env \<Rightarrow> usize \<Rightarrow> lease \<Rightarrow> execution_budget \<Rightarrow> lease budgeted" where
  "lease_grow e additional held b = checked_then e b (\<lambda>b.
     let previous = b_live_bytes b;
         b1 = b\<lparr>b_live_bytes := previous + additional\<rparr>;
         used = sat_add previous additional
     in if b_max_live_bytes b1 < used \<or> checked_add previous additional = None
        then fail_with (LiveBytes used (b_max_live_bytes b1))
               (b1\<lparr>b_live_bytes := b_live_bytes b1 - additional\<rparr>)
        else (Ok (sat_add held additional), b1))"

definition try_grow_to :: "budget_env \<Rightarrow> u64 \<Rightarrow> lease \<Rightarrow> execution_budget \<Rightarrow> lease budgeted" where
  "try_grow_to e bytes held b = checked_then e b (\<lambda>b.
     if bytes \<le> held then (Ok held, b)
     else case reserve_live_bytes (bytes - held) b of
            (Inl used, b') \<Rightarrow> fail_with (LiveBytes used (b_max_live_bytes b')) b'
          | (Inr _, b') \<Rightarrow> (Ok bytes, b'))"

definition shrink_to :: "u64 \<Rightarrow> lease \<Rightarrow> execution_budget \<Rightarrow> lease \<times> execution_budget" where
  "shrink_to bytes held b = (bytes, b\<lparr>b_live_bytes := b_live_bytes b - (held - bytes)\<rparr>)"

definition lease_drop :: "lease \<Rightarrow> execution_budget \<Rightarrow> execution_budget" where
  "lease_drop held b = b\<lparr>b_live_bytes := b_live_bytes b - held\<rparr>"

section \<open>Basic laws\<close>

lemma reserve_atomic_Ok:
  "reserve_atomic c a l = Ok n \<longleftrightarrow> unat c + unat a \<le> unat l \<and> n = c + a"
  using unat_lt_max64 [of l]
  by (auto simp: reserve_atomic_def word_less_nat_alt checked_add_Some checked_add_None unat_add_small
      not_less split: option.splits if_splits simp del: unat_lt_max64)

lemma reserve_atomic_Err:
  "reserve_atomic c a l = Err n \<longleftrightarrow>
     unat l < unat c + unat a \<and> n = (if unat c + unat a < 2 ^ 64 then c + a else - 1)"
  using unat_lt_max64 [of l]
  by (auto simp: reserve_atomic_def word_less_nat_alt checked_add_Some checked_add_None unat_add_small
      not_less split: option.splits if_splits simp del: unat_lt_max64)

lemma unat_reserved: "reserve_atomic c a l = Ok n \<Longrightarrow> unat n = unat c + unat a \<and> unat n \<le> unat l"
  using unat_lt_max64 [of l] by (auto simp: reserve_atomic_Ok unat_add_small simp del: unat_lt_max64)

lemma fail_with_simps [simp]:
  "fail_with r b = (Err (ExecutionBudgetErr (case b_poisoned b of None \<Rightarrow> r | Some o' \<Rightarrow> o')),
     b\<lparr>b_poisoned := Some (case b_poisoned b of None \<Rightarrow> r | Some o' \<Rightarrow> o')\<rparr>)"
  by (simp add: fail_with_def poison_def Let_def)

text \<open>The request is past its deadline.\<close>

definition expired :: "budget_env \<Rightarrow> execution_budget \<Rightarrow> bool" where
  "expired e b = (case b_deadline b of None \<Rightarrow> False | Some d \<Rightarrow> d \<le> now e)"

definition admissible :: "budget_env \<Rightarrow> execution_budget \<Rightarrow> bool" where
  "admissible e b \<longleftrightarrow> \<not> b_closed b \<and> b_poisoned b = None \<and> \<not> cancelled e \<and> \<not> expired e b"

lemma check_cases:
  "check e b =
     (if b_closed b then (Err (ExecutionBudgetErr RequestClosed), b)
      else case b_poisoned b of
        Some r \<Rightarrow> (Err (ExecutionBudgetErr r), b)
      | None \<Rightarrow>
          if cancelled e then (Err (ExecutionBudgetErr Cancelled), b\<lparr>b_poisoned := Some Cancelled\<rparr>)
          else if expired e b
            then (Err (ExecutionBudgetErr (Deadline (b_timeout b))), b\<lparr>b_poisoned := Some (Deadline (b_timeout b))\<rparr>)
          else (Ok (), b))"
  by (auto simp: check_def failure_def expired_def split: option.splits)

lemma check_admissible: "admissible e b \<Longrightarrow> check e b = (Ok (), b)"
  by (simp add: check_cases admissible_def)

lemma check_not_admissible:
  "\<not> admissible e b \<Longrightarrow> \<exists>r p. check e b = (Err (ExecutionBudgetErr r), b\<lparr>b_poisoned := p\<rparr>) \<and>
     (b_closed b \<longrightarrow> p = b_poisoned b) \<and> (\<not> b_closed b \<longrightarrow> p = Some r) \<and>
     (b_poisoned b \<noteq> None \<longrightarrow> p = b_poisoned b)"
  by (auto simp: check_cases admissible_def split: option.splits)

lemma checked_then_simps [simp]:
  "admissible e b \<Longrightarrow> checked_then e b k = k b"
  by (simp add: checked_then_def check_admissible)

lemma checked_then_ok:
  "checked_then e b k = (Ok x, b') \<Longrightarrow> admissible e b \<and> k b = (Ok x, b')"
  using check_not_admissible [of e b] check_admissible [of e b]
  by (cases "admissible e b") (auto simp: checked_then_def)

section \<open>A request's operations\<close>

text \<open>
  Everything a request does with its budget, in order: the leases it holds are a list, in which
  an operation names one by position. \<open>shrink_to\<close> asserts that it does not grow the lease, and
  both callers respect that.
\<close>

datatype budget_op =
    Check | Close | Work u64 | Input usize | Lease usize
  | Grow nat usize | GrowTo nat u64 | Shrink nat u64 | DropLease nat

type_synonym request = "execution_budget \<times> lease list"

definition returning :: "'a budgeted \<Rightarrow> ('a \<Rightarrow> lease list) \<Rightarrow> lease list \<Rightarrow> (limit_exceeded + unit) \<times> request" where
  "returning r f ls = (case r of (Inl err, b) \<Rightarrow> (Err err, (b, ls)) | (Inr x, b) \<Rightarrow> (Ok (), (b, f x)))"

fun budget_step :: "budget_env \<Rightarrow> budget_op \<Rightarrow> request \<Rightarrow> (limit_exceeded + unit) \<times> request" where
  "budget_step e Check (b, ls) = returning (check e b) (\<lambda>_. ls) ls"
| "budget_step e Close (b, ls) = (Ok (), (close b, ls))"
| "budget_step e (Work n) (b, ls) = returning (consume_work e n b) (\<lambda>_. ls) ls"
| "budget_step e (Input n) (b, ls) = returning (consume_input e n b) (\<lambda>_. ls) ls"
| "budget_step e (Lease n) (b, ls) = returning (lease_bytes e n b) (\<lambda>h. ls @ [h]) ls"
| "budget_step e (Grow i n) (b, ls) =
     (if i < length ls then returning (lease_grow e n (ls ! i) b) (\<lambda>h. ls[i := h]) ls
      else (Ok (), (b, ls)))"
| "budget_step e (GrowTo i n) (b, ls) =
     (if i < length ls then returning (try_grow_to e n (ls ! i) b) (\<lambda>h. ls[i := h]) ls
      else (Ok (), (b, ls)))"
| "budget_step e (Shrink i n) (b, ls) =
     (if i < length ls \<and> n \<le> ls ! i
      then (case shrink_to n (ls ! i) b of (h, b') \<Rightarrow> (Ok (), (b', ls[i := h])))
      else (Ok (), (b, ls)))"
| "budget_step e (DropLease i) (b, ls) =
     (if i < length ls then (Ok (), (lease_drop (ls ! i) b, take i ls @ drop (Suc i) ls))
      else (Ok (), (b, ls)))"

fun budget_run ::
  "(budget_env \<times> budget_op) list \<Rightarrow> request \<Rightarrow> (limit_exceeded + unit) list \<times> request" where
  "budget_run [] r = ([], r)"
| "budget_run ((e, x) # xs) r =
     (let (o1, r1) = budget_step e x r; (os, r2) = budget_run xs r1 in (o1 # os, r2))"

text \<open>The units of work, and bytes of input, that a run was granted.\<close>

fun granted :: "(budget_op \<Rightarrow> nat) \<Rightarrow> budget_op list \<Rightarrow> (limit_exceeded + unit) list \<Rightarrow> nat" where
  "granted f (x # xs) (r # rs) = (if is_ok r then f x else 0) + granted f xs rs"
| "granted f _ _ = 0"

definition work_of :: "budget_op \<Rightarrow> nat" where
  "work_of x = (case x of Work n \<Rightarrow> unat n | _ \<Rightarrow> 0)"

definition input_of :: "budget_op \<Rightarrow> nat" where
  "input_of x = (case x of Input n \<Rightarrow> unat n | _ \<Rightarrow> 0)"

definition held :: "lease list \<Rightarrow> nat" where
  "held ls = sum_list (map unat ls)"

text \<open>The accounting invariant of a request.\<close>

definition request_ok :: "request \<Rightarrow> bool" where
  "request_ok r \<longleftrightarrow> (case r of (b, ls) \<Rightarrow>
     unat (b_live_bytes b) = held ls \<and>
     b_live_bytes b \<le> b_max_live_bytes b \<and>
     b_work_units b \<le> b_max_work_units b \<and>
     b_input_bytes b \<le> b_max_input_bytes b)"

lemma held_update: "i < length ls \<Longrightarrow> held (ls[i := h]) + unat (ls ! i) = held ls + unat h"
  by (simp add: held_def sum_list_map_update)

lemma held_remove: "i < length ls \<Longrightarrow> held (take i ls @ drop (Suc i) ls) + unat (ls ! i) = held ls"
  using arg_cong [OF id_take_nth_drop [of i ls], of held] by (simp add: held_def)

lemma held_append: "held (ls @ [h]) = held ls + unat h"
  by (simp add: held_def)

lemma held_member: "i < length ls \<Longrightarrow> unat (ls ! i) \<le> held ls"
  by (auto simp: held_def intro!: member_le_sum_list)

lemma request_ok_poison [simp]:
  "request_ok (b\<lparr>b_poisoned := p\<rparr>, ls) = request_ok (b, ls)"
  by (simp add: request_ok_def)

text \<open>
  Each fallible operation either fails, changing nothing but the recorded failure, or was
  admissible, fits its ceiling and makes the one update named here.
\<close>

definition refused :: "limit_exceeded \<Rightarrow> limit_exceeded + unit \<Rightarrow> bool" where
  "refused err r \<longleftrightarrow> r = Err err \<or> r = Err (ExecutionBudgetErr RequestClosed)"

text \<open>The request is closed, or has recorded the failure \<open>err\<close>.\<close>

definition failed_with :: "limit_exceeded \<Rightarrow> execution_budget \<Rightarrow> bool" where
  "failed_with err b \<longleftrightarrow> b_closed b \<or> failure b = Some err"

definition failing :: "execution_budget \<Rightarrow> 'a budgeted \<Rightarrow> bool" where
  "failing b out \<longleftrightarrow> (\<exists>err p. out = (Err err, b\<lparr>b_poisoned := p\<rparr>) \<and>
     failed_with err (b\<lparr>b_poisoned := p\<rparr>) \<and>
     (\<forall>err0. failed_with err0 b \<longrightarrow> failed_with err0 (b\<lparr>b_poisoned := p\<rparr>) \<and> refused err0 (Err err)))"

lemma admissible_not_failed: "admissible e b \<Longrightarrow> \<not> failed_with err b"
  by (simp add: admissible_def failed_with_def failure_def)

lemma failing_intro:
  "failed_with err (b\<lparr>b_poisoned := p\<rparr>) \<Longrightarrow>
   (\<And>err0. failed_with err0 b \<Longrightarrow> failed_with err0 (b\<lparr>b_poisoned := p\<rparr>) \<and> refused err0 (Err err)) \<Longrightarrow>
   failing b (Err err, b\<lparr>b_poisoned := p\<rparr>)"
  unfolding failing_def by blast

lemma failing_fail_with: "admissible e b \<Longrightarrow> failing b (fail_with r b)"
  using admissible_not_failed [of e b]
  by (auto simp: admissible_def failed_with_def failure_def intro!: failing_intro)

lemma failing_check: "\<not> admissible e b \<Longrightarrow> \<exists>err b'. check e b = (Inl err, b') \<and> failing b (Inl err, b')"
proof -
  assume na: "\<not> admissible e b"
  obtain r p where c: "check e b = (Err (ExecutionBudgetErr r), b\<lparr>b_poisoned := p\<rparr>)"
      and closed: "b_closed b \<longrightarrow> p = b_poisoned b" and opened: "\<not> b_closed b \<longrightarrow> p = Some r"
      and old: "b_poisoned b \<noteq> None \<longrightarrow> p = b_poisoned b"
    using check_not_admissible [OF na] by blast
  have req: "b_closed b \<Longrightarrow> r = RequestClosed" using c by (simp add: check_def)
  have "failing b (Err (ExecutionBudgetErr r), b\<lparr>b_poisoned := p\<rparr>)"
    using opened old req
    by (intro failing_intro) (auto simp: failed_with_def failure_def refused_def)
  with c show ?thesis by blast
qed

lemma failing_checked: "\<not> admissible e b \<Longrightarrow> failing b (checked_then e b k)"
proof -
  assume "\<not> admissible e b"
  then obtain err b' where "check e b = (Inl err, b')" and f: "failing b (Inl err :: limit_exceeded + unit, b')"
    using failing_check by blast
  then have "checked_then e b k = (Inl err, b')" by (simp add: checked_then_def)
  with f show ?thesis by (auto simp: failing_def)
qed

lemma check_outcome: "failing b (check e b) \<or> check e b = (Ok (), b) \<and> admissible e b"
  using failing_check [of e b] check_admissible [of e b] by fastforce

lemma reserve_atomic_outcome:
  "(\<exists>u. reserve_atomic c a l = Err u) \<or> reserve_atomic c a l = Ok (c + a) \<and> unat c + unat a \<le> unat l"
  using reserve_atomic_Ok [of c a l] by (cases "reserve_atomic c a l") auto

lemma consume_work_outcome:
  "failing b (consume_work e n b) \<or>
   consume_work e n b = (Ok (), b\<lparr>b_work_units := b_work_units b + n\<rparr>) \<and> admissible e b \<and>
   unat (b_work_units b) + unat n \<le> unat (b_max_work_units b)"
proof (cases "admissible e b")
  case True
  then show ?thesis
    using reserve_atomic_outcome [of "b_work_units b" n "b_max_work_units b"]
    by (auto simp: consume_work_def simp del: fail_with_simps intro: failing_fail_with)
qed (simp add: consume_work_def failing_checked)

lemma consume_input_outcome:
  "failing b (consume_input e n b) \<or>
   consume_input e n b = (Ok (), b\<lparr>b_input_bytes := b_input_bytes b + n\<rparr>) \<and> admissible e b \<and>
   unat (b_input_bytes b) + unat n \<le> unat (b_max_input_bytes b)"
proof (cases "admissible e b")
  case True
  then show ?thesis
    using reserve_atomic_outcome [of "b_input_bytes b" n "b_max_input_bytes b"]
    by (auto simp: consume_input_def simp del: fail_with_simps intro: failing_fail_with)
qed (simp add: consume_input_def failing_checked)

lemma reserve_live_outcome:
  "(\<exists>u. reserve_live_bytes n b = (Err u, b)) \<or>
   reserve_live_bytes n b = (Ok (), b\<lparr>b_live_bytes := b_live_bytes b + n\<rparr>) \<and>
   unat (b_live_bytes b) + unat n \<le> unat (b_max_live_bytes b)"
  using reserve_atomic_outcome [of "b_live_bytes b" n "b_max_live_bytes b"]
  by (auto simp: reserve_live_bytes_def)

lemma lease_bytes_outcome:
  "failing b (lease_bytes e n b) \<or>
   lease_bytes e n b = (Ok n, b\<lparr>b_live_bytes := b_live_bytes b + n\<rparr>) \<and> admissible e b \<and>
   unat (b_live_bytes b) + unat n \<le> unat (b_max_live_bytes b)"
proof (cases "admissible e b")
  case True
  then show ?thesis using reserve_live_outcome [of n b] 
    by (auto simp: lease_bytes_def simp del: fail_with_simps intro: failing_fail_with)
qed (simp add: lease_bytes_def failing_checked)

lemma try_grow_to_outcome:
  "failing b (try_grow_to e n h b) \<or>
   try_grow_to e n h b = (Ok (max n h), b\<lparr>b_live_bytes := b_live_bytes b + (max n h - h)\<rparr>) \<and>
   admissible e b \<and>
   unat (b_live_bytes b) + (unat (max n h) - unat h) \<le> max (unat (b_max_live_bytes b)) (unat (b_live_bytes b))"
proof (cases "admissible e b")
  case True
  then show ?thesis
    using reserve_live_outcome [of "n - h" b]
    by (cases "n \<le> h") (auto simp: try_grow_to_def max_def unat_diff_le simp del: fail_with_simps intro: failing_fail_with)
qed (simp add: try_grow_to_def failing_checked)

lemma lease_grow_outcome:
  "failing b (lease_grow e n h b) \<or>
   lease_grow e n h b = (Ok (sat_add h n), b\<lparr>b_live_bytes := b_live_bytes b + n\<rparr>) \<and> admissible e b \<and>
   unat (b_live_bytes b) + unat n \<le> unat (b_max_live_bytes b)"
proof (cases "admissible e b")
  case True
  show ?thesis
  proof (cases "unat (b_live_bytes b) + unat n \<le> unat (b_max_live_bytes b)")
    case fits: True
    then have "unat (b_live_bytes b) + unat n < 2 ^ 64"
      by (rule le_less_trans) simp
    with fits True show ?thesis
      by (simp add: lease_grow_def Let_def word_less_nat_alt checked_add_None unat_sat_add)
  next
    case False
    then have "b_max_live_bytes b < sat_add (b_live_bytes b) n \<or> checked_add (b_live_bytes b) n = None"
      by (auto simp: word_less_nat_alt checked_add_None unat_sat_add)
    with True have "lease_grow e n h b = fail_with (LiveBytes (sat_add (b_live_bytes b) n) (b_max_live_bytes b)) b"
      by (simp add: lease_grow_def Let_def admissible_def)
    with True show ?thesis by (simp add: failing_fail_with del: fail_with_simps)
  qed
qed (simp add: lease_grow_def failing_checked)

text \<open>What a step may do to the counters of a request.\<close>

definition step_effect :: "budget_op \<Rightarrow> (limit_exceeded + unit) \<Rightarrow> request \<Rightarrow> request \<Rightarrow> bool" where
  "step_effect x r q q' \<longleftrightarrow> request_ok q' \<and>
     unat (b_work_units (fst q')) = unat (b_work_units (fst q)) + (if is_ok r then work_of x else 0) \<and>
     unat (b_input_bytes (fst q')) = unat (b_input_bytes (fst q)) + (if is_ok r then input_of x else 0) \<and>
     b_max_work_units (fst q') = b_max_work_units (fst q) \<and>
     b_max_input_bytes (fst q') = b_max_input_bytes (fst q) \<and>
     b_max_live_bytes (fst q') = b_max_live_bytes (fst q)"

lemma effect_fail:
  "request_ok (b, ls) \<Longrightarrow> failing b r \<Longrightarrow>
   step_effect x (fst (returning r f ls)) (b, ls) (snd (returning r f ls))"
  by (auto simp: step_effect_def failing_def returning_def)

lemma word_le_bound: "unat a + unat n \<le> unat m \<Longrightarrow> unat (a + n) = unat a + unat n"
  for a n m :: u64
  using unat_lt_max64 [of m] by (simp add: unat_add_small del: unat_lt_max64)

lemma effect_live:
  assumes "request_ok (b, ls)" "unat w = held ls'" "held ls' \<le> unat (b_max_live_bytes b)"
    "work_of x = 0" "input_of x = 0"
  shows "step_effect x (Inr u) (b, ls) (b\<lparr>b_live_bytes := w\<rparr>, ls')"
  using assms by (simp add: step_effect_def request_ok_def word_le_nat_alt)

lemma step_effect_step:
  assumes ok: "request_ok (b, ls)"
  shows "step_effect x (fst (budget_step e x (b, ls))) (b, ls) (snd (budget_step e x (b, ls)))"
proof -
  have live: "unat (b_live_bytes b) = held ls" "held ls \<le> unat (b_max_live_bytes b)"
    using ok by (simp_all add: request_ok_def word_le_nat_alt)
  note fail = effect_fail [OF ok]
  show ?thesis
  proof (cases x)
    case Check
    then show ?thesis
      using check_outcome [where b = b and e = e] ok
      by (elim disjE conjE, simp add: fail)
        (auto simp: returning_def step_effect_def work_of_def input_of_def)
  next
    case Close
    then show ?thesis
      using ok by (simp add: close_def step_effect_def work_of_def input_of_def request_ok_def)
  next
    case (Work n)
    then show ?thesis
      using consume_work_outcome [where e = e and n = n and b = b] ok
      by (elim disjE conjE, simp add: fail)
        (auto simp: returning_def step_effect_def work_of_def input_of_def request_ok_def
          word_le_nat_alt word_le_bound)
  next
    case (Input n)
    then show ?thesis
      using consume_input_outcome [where e = e and n = n and b = b] ok
      by (elim disjE conjE, simp add: fail)
        (auto simp: returning_def step_effect_def work_of_def input_of_def request_ok_def
          word_le_nat_alt word_le_bound)
  next
    case (Lease n)
    then show ?thesis
      using lease_bytes_outcome [where e = e and n = n and b = b] live
      by (elim disjE conjE, simp add: fail)
        (auto simp: returning_def held_append word_le_bound work_of_def input_of_def
          intro!: effect_live ok)
  next
    case (Grow i n)
    show ?thesis
    proof (cases "i < length ls")
      case True
      have "unat (sat_add (ls ! i) n) = unat (ls ! i) + unat n"
        if "unat (b_live_bytes b) + unat n \<le> unat (b_max_live_bytes b)"
      proof -
        have "unat (ls ! i) + unat n \<le> unat (b_max_live_bytes b)"
          using that held_member [OF True] live(1) by linarith
        then have "unat (ls ! i) + unat n \<le> 18446744073709551615"
          by (rule order_trans [OF _ unat_le_max64])
        then show ?thesis by (simp add: unat_sat_add)
      qed
      then show ?thesis
        using Grow True lease_grow_outcome [where e = e and n = n and h = "ls ! i" and b = b] live
          held_update [OF True, of "sat_add (ls ! i) n"]
        by (elim disjE conjE, simp add: fail)
          (auto simp: returning_def word_le_bound work_of_def input_of_def intro!: effect_live ok)
    qed (use Grow ok in \<open>simp add: step_effect_def work_of_def input_of_def\<close>)
  next
    case (GrowTo i n)
    show ?thesis
    proof (cases "i < length ls")
      case True
      let ?d = "max n (ls ! i) - ls ! i"
      have d: "unat ?d = unat (max n (ls ! i)) - unat (ls ! i)" "unat (ls ! i) \<le> unat (max n (ls ! i))"
        by (auto simp: unat_diff_le simp flip: word_le_nat_alt)
      moreover have "unat (b_live_bytes b + ?d) = held (ls[i := max n (ls ! i)])"
        if "unat (b_live_bytes b) + unat ?d \<le> unat (b_max_live_bytes b)"
        using word_le_bound [OF that] held_update [OF True, of "max n (ls ! i)"] live(1) d by linarith
      ultimately show ?thesis
        using GrowTo True try_grow_to_outcome [where e = e and n = n and h = "ls ! i" and b = b] live
          held_update [OF True, of "max n (ls ! i)"]
        by (elim disjE conjE, simp add: fail)
          (auto simp: returning_def work_of_def input_of_def max_absorb1 intro!: effect_live ok, linarith)
    qed (use GrowTo ok in \<open>simp add: step_effect_def work_of_def input_of_def\<close>)
  next
    case (Shrink i n)
    show ?thesis
    proof (cases "i < length ls \<and> n \<le> ls ! i")
      case True
      then have i: "i < length ls" and n: "unat n \<le> unat (ls ! i)" by (simp_all add: word_le_nat_alt)
      have "ls ! i - n \<le> b_live_bytes b"
        using True live(1) held_member [OF i] by (simp add: word_le_nat_alt unat_diff_le)
      then have "unat (b_live_bytes b - (ls ! i - n)) = held ls - (unat (ls ! i) - unat n)"
        using True live(1) by (simp add: unat_diff_le)
      then have "unat (b_live_bytes b - (ls ! i - n)) = held (ls[i := n])"
        using held_update [OF i, of n] n held_member [OF i] by linarith
      then show ?thesis
        using Shrink True live held_update [OF i, of n] n
        by (auto simp: shrink_to_def work_of_def input_of_def intro!: effect_live ok)
    qed (use Shrink ok in \<open>auto simp: step_effect_def work_of_def input_of_def\<close>)
  next
    case (DropLease i)
    show ?thesis
    proof (cases "i < length ls")
      case True
      have "unat (b_live_bytes b - ls ! i) = held ls - unat (ls ! i)"
        using live(1) held_member [OF True] by (simp add: word_le_nat_alt unat_diff_le)
      then show ?thesis
        using DropLease True live held_remove [OF True]
        by (auto simp: lease_drop_def work_of_def input_of_def intro!: effect_live ok)
    qed (use DropLease ok in \<open>simp add: step_effect_def work_of_def input_of_def\<close>)
  qed
qed

lemma request_ok_new: "request_ok (new_budget e l, [])"
  by (simp add: request_ok_def new_budget_def held_def)

lemma budget_run_effect:
  "request_ok q \<Longrightarrow> (case budget_run xs q of (rs, q') \<Rightarrow>
     request_ok q' \<and>
     unat (b_work_units (fst q')) = unat (b_work_units (fst q)) + granted work_of (map snd xs) rs \<and>
     unat (b_input_bytes (fst q')) = unat (b_input_bytes (fst q)) + granted input_of (map snd xs) rs \<and>
     b_max_work_units (fst q') = b_max_work_units (fst q) \<and>
     b_max_input_bytes (fst q') = b_max_input_bytes (fst q) \<and>
     b_max_live_bytes (fst q') = b_max_live_bytes (fst q))"
proof (induction xs arbitrary: q)
  case (Cons ex xs)
  obtain e x where ex: "ex = (e, x)" by fastforce
  obtain r q1 where step: "budget_step e x q = (r, q1)" by (rule prod.exhaust)
  obtain rs q2 where run: "budget_run xs q1 = (rs, q2)" by (rule prod.exhaust)
  from Cons.prems step_effect_step [of "fst q" "snd q" x e] step have "step_effect x r q q1" by simp
  then show ?case
    using Cons.IH [of q1] by (simp add: ex step run step_effect_def)
qed simp

text \<open>
  Property C5: over everything a request does, in any order and under any clock and
  cancellation, the work it is granted is at most \<open>max_work_units\<close>, the input it is granted at
  most \<open>max_aggregate_input_bytes\<close>, and the live-byte counter is exactly the sum of the leases
  still held and at most \<open>max_live_intermediate_bytes\<close>. Nothing wraps (TM-DOS-096).
\<close>

theorem budget_ceilings_hold:
  "(case budget_run xs (new_budget e l, []) of (rs, (b, ls)) \<Rightarrow>
     granted work_of (map snd xs) rs \<le> unat (max_work_units l) \<and>
     granted input_of (map snd xs) rs \<le> unat (max_aggregate_input_bytes l) \<and>
     unat (b_live_bytes b) = held ls \<and> held ls \<le> unat (max_live_intermediate_bytes l))"
  using budget_run_effect [OF request_ok_new [of e l], of xs]
  by (auto simp: request_ok_def word_le_nat_alt new_budget_def split: prod.splits)

section \<open>Failing closed\<close>

definition fallible :: "budget_op \<Rightarrow> bool" where
  "fallible x = (case x of Check \<Rightarrow> True | Work _ \<Rightarrow> True | Input _ \<Rightarrow> True | Lease _ \<Rightarrow> True | _ \<Rightarrow> False)"

definition step_failing :: "request \<Rightarrow> (limit_exceeded + unit) \<times> request \<Rightarrow> bool" where
  "step_failing q out \<longleftrightarrow> (\<exists>err b'. out = (Err err, (b', snd q)) \<and> failed_with err b' \<and>
     (\<forall>err0. failed_with err0 (fst q) \<longrightarrow> failed_with err0 b' \<and> refused err0 (Err err)))"

lemma returning_failing: "failing b r \<Longrightarrow> step_failing (b, ls) (returning r f ls)"
  by (auto simp: returning_def failing_def step_failing_def)

lemma failed_with_frame [simp]:
  "failed_with err (b\<lparr>b_live_bytes := w\<rparr>) = failed_with err b"
  by (simp add: failed_with_def failure_def)

text \<open>
  A step fails as \<open>step_failing\<close> says, or succeeds on an admissible budget, or is
  one of the infallible operations.
\<close>

lemma budget_step_trichotomy:
  "step_failing (b, ls) (budget_step e x (b, ls)) \<or>
   fst (budget_step e x (b, ls)) = Ok () \<and>
   (admissible e b \<or> \<not> fallible x \<and>
     (\<forall>err. failed_with err b \<longrightarrow> failed_with err (fst (snd (budget_step e x (b, ls))))) \<and>
     held (snd (snd (budget_step e x (b, ls)))) \<le> held ls)"
proof (cases x)
  case Check
  then show ?thesis using check_outcome [where b = b and e = e] 
    by (elim disjE conjE, simp add: returning_failing) (auto simp: returning_def)
next
  case (Work n)
  then show ?thesis using consume_work_outcome [where e = e and n = n and b = b] 
    by (elim disjE conjE, simp add: returning_failing) (auto simp: returning_def)
next
  case (Input n)
  then show ?thesis using consume_input_outcome [where e = e and n = n and b = b] 
    by (elim disjE conjE, simp add: returning_failing) (auto simp: returning_def)
next
  case (Lease n)
  then show ?thesis using lease_bytes_outcome [where e = e and n = n and b = b] 
    by (elim disjE conjE, simp add: returning_failing) (auto simp: returning_def)
next
  case (Grow i n)
  then show ?thesis
    using lease_grow_outcome [where e = e and n = n and h = "ls ! i" and b = b] 
    by (elim disjE conjE, simp add: returning_failing) (auto simp: returning_def fallible_def)
next
  case (GrowTo i n)
  then show ?thesis
    using try_grow_to_outcome [where e = e and n = n and h = "ls ! i" and b = b] 
    by (elim disjE conjE, simp add: returning_failing) (auto simp: returning_def fallible_def)
next
  case (Shrink i n)
  then show ?thesis
    using held_update [of i ls n] by (auto simp: shrink_to_def fallible_def word_le_nat_alt)
next
  case (DropLease i)
  then show ?thesis using held_remove [of i ls] by (auto simp: lease_drop_def fallible_def)
qed (auto simp: close_def failed_with_def fallible_def)

lemma step_failed:
  assumes "failed_with err b" and "budget_step e x (b, ls) = (r, (b', ls'))"
  shows "failed_with err b' \<and> (fallible x \<longrightarrow> refused err r) \<and> held ls' \<le> held ls"
  using budget_step_trichotomy [where e = e and x = x and b = b and ls = ls] admissible_not_failed [of e b err] assms
  by (elim disjE conjE) (auto simp: step_failing_def)

lemma step_error_recorded:
  assumes "budget_step e x (b, ls) = (Inl err, q)"
  shows "failed_with err (fst q)"
  using budget_step_trichotomy [where e = e and x = x and b = b and ls = ls] assms
  by (elim disjE conjE) (auto simp: step_failing_def)

lemma run_failed:
  "failed_with err (fst q) \<Longrightarrow>
   list_all2 (\<lambda>ex r. fallible (snd ex) \<longrightarrow> refused err r) xs (fst (budget_run xs q)) \<and>
   held (snd (snd (budget_run xs q))) \<le> held (snd q)"
proof (induction xs arbitrary: q)
  case (Cons ex xs)
  obtain e x where ex: "ex = (e, x)" by (rule prod.exhaust)
  obtain b ls where q: "q = (b, ls)" by (rule prod.exhaust)
  obtain r b1 ls1 where step: "budget_step e x (b, ls) = (r, (b1, ls1))"
    by (metis prod.exhaust)
  have s: "failed_with err b1 \<and> (fallible x \<longrightarrow> refused err r) \<and> held ls1 \<le> held ls"
    using step_failed [OF _ step] Cons.prems by (simp add: q)
  then have "list_all2 (\<lambda>ex r. fallible (snd ex) \<longrightarrow> refused err r) xs (fst (budget_run xs (b1, ls1))) \<and>
      held (snd (snd (budget_run xs (b1, ls1)))) \<le> held ls1"
    using Cons.IH [of "(b1, ls1)"] by simp
  with s show ?case by (auto simp: ex q step split: prod.split)
qed simp

text \<open>
  The budget fails closed. Once any operation of a request has failed, every later
  check, work, input or lease request of it fails with that same first error, or with "request
  closed" after the completion guard ran, and the bytes it holds never grow again.
\<close>

theorem first_failure_is_final:
  assumes "fst (budget_step e x q) = Err err"
  shows "list_all2 (\<lambda>ex r. fallible (snd ex) \<longrightarrow> refused err r) xs
           (fst (budget_run xs (snd (budget_step e x q)))) \<and>
         held (snd (snd (budget_run xs (snd (budget_step e x q))))) \<le> held (snd (snd (budget_step e x q)))"
proof -
  have "failed_with err (fst (snd (budget_step e x q)))"
    using step_error_recorded [of e x "fst q" "snd q" err] assms by (simp add: prod_eq_iff)
  then show ?thesis by (rule run_failed)
qed

text \<open>A request with three units of work left that asks for five, then for one.\<close>

theorem first_failure_is_final_witness:
  "refused (ExecutionBudgetErr (WorkUnits 5 3))
     (hd (fst (budget_run [(\<lparr>now = 0, cancelled = False\<rparr>, Work 1)]
       (snd (budget_step \<lparr>now = 0, cancelled = False\<rparr> (Work 5)
         (new_budget \<lparr>now = 0, cancelled = False\<rparr> (default_execution_limits\<lparr>max_work_units := 3\<rparr>), []))))))"
proof -
  let ?e = "\<lparr>now = 0, cancelled = False\<rparr>"
  let ?q = "(new_budget ?e (default_execution_limits\<lparr>max_work_units := 3\<rparr>), [])"
  have "fst (budget_step ?e (Work 5) ?q) = Err (ExecutionBudgetErr (WorkUnits 5 3))"
    by (simp add: new_budget_def default_execution_limits_def dur_secs_def instant_checked_add_def
        DEADLINE_GRACE_def consume_work_def checked_then_def check_cases expired_def reserve_atomic_def
        checked_add_def returning_def)
  from first_failure_is_final [OF this, of "[(?e, Work 1)]"]
  show ?thesis by (auto simp: fallible_def list_all2_Cons1)
qed

end
