(* ===== verification/BudgetRace.thy ===== *)
theory BudgetRace
  imports Budget
begin

text \<open>
  The live-byte counter of \<open>ExecutionBudget\<close> under concurrency. Agents, each owning a lease,
  reserve with the compare-and-exchange loop of \<open>reserve_atomic\<close>, shrink or drop with one
  \<open>fetch_sub\<close>, and grow with \<open>fetch_add\<close> followed, when that overshot, by \<open>fetch_sub\<close>. A step is
  one atomic access, and the steps of the agents interleave freely.
\<close>

section \<open>Steps\<close>

datatype agent_pc =
    Idle
  | Reserving u64 u64 \<comment> \<open>amount, and the value of the counter last observed\<close>
  | Undoing u64 \<comment> \<open>a failed \<open>grow\<close> that has not yet taken its addition back\<close>

record agent =
  a_held :: u64
  a_pc :: agent_pc

record race =
  r_live :: u64
  r_agents :: "agent list"

definition with_agent :: "nat \<Rightarrow> agent \<Rightarrow> u64 \<Rightarrow> race \<Rightarrow> race" where
  "with_agent i a w r = r\<lparr>r_live := w, r_agents := (r_agents r)[i := a]\<rparr>"

text \<open>\<open>lim\<close> is \<open>max_live_bytes\<close>; \<open>g\<close> bounds the \<open>additional\<close> argument of \<open>grow\<close>.\<close>

definition grow_overshoots :: "u64 \<Rightarrow> u64 \<Rightarrow> u64 \<Rightarrow> bool" where
  "grow_overshoots lim live additional \<longleftrightarrow>
     lim < sat_add live additional \<or> checked_add live additional = None"

inductive race_step :: "u64 \<Rightarrow> nat \<Rightarrow> race \<Rightarrow> race \<Rightarrow> bool" for lim :: u64 and g :: nat where
  load: "i < length (r_agents r) \<Longrightarrow> r_agents r ! i = \<lparr>a_held = h, a_pc = Idle\<rparr> \<Longrightarrow>
    race_step lim g r (with_agent i \<lparr>a_held = h, a_pc = Reserving n (r_live r)\<rparr> (r_live r) r)"
| reserve_fail: "i < length (r_agents r) \<Longrightarrow> r_agents r ! i = \<lparr>a_held = h, a_pc = Reserving n cur\<rparr> \<Longrightarrow>
    reserve_atomic cur n lim = Err u \<Longrightarrow>
    race_step lim g r (with_agent i \<lparr>a_held = h, a_pc = Idle\<rparr> (r_live r) r)"
| cas_ok: "i < length (r_agents r) \<Longrightarrow> r_agents r ! i = \<lparr>a_held = h, a_pc = Reserving n cur\<rparr> \<Longrightarrow>
    reserve_atomic cur n lim = Ok next_value \<Longrightarrow> r_live r = cur \<Longrightarrow>
    race_step lim g r (with_agent i \<lparr>a_held = h + n, a_pc = Idle\<rparr> next_value r)"
| cas_retry: "i < length (r_agents r) \<Longrightarrow> r_agents r ! i = \<lparr>a_held = h, a_pc = Reserving n cur\<rparr> \<Longrightarrow>
    reserve_atomic cur n lim = Ok next_value \<Longrightarrow>
    race_step lim g r (with_agent i \<lparr>a_held = h, a_pc = Reserving n (r_live r)\<rparr> (r_live r) r)"
| shrink: "i < length (r_agents r) \<Longrightarrow> r_agents r ! i = \<lparr>a_held = h, a_pc = Idle\<rparr> \<Longrightarrow> n \<le> h \<Longrightarrow>
    race_step lim g r (with_agent i \<lparr>a_held = n, a_pc = Idle\<rparr> (r_live r - (h - n)) r)"
| grow_ok: "i < length (r_agents r) \<Longrightarrow> r_agents r ! i = \<lparr>a_held = h, a_pc = Idle\<rparr> \<Longrightarrow>
    unat n \<le> g \<Longrightarrow> \<not> grow_overshoots lim (r_live r) n \<Longrightarrow>
    race_step lim g r (with_agent i \<lparr>a_held = sat_add h n, a_pc = Idle\<rparr> (r_live r + n) r)"
| grow_over: "i < length (r_agents r) \<Longrightarrow> r_agents r ! i = \<lparr>a_held = h, a_pc = Idle\<rparr> \<Longrightarrow>
    unat n \<le> g \<Longrightarrow> grow_overshoots lim (r_live r) n \<Longrightarrow>
    race_step lim g r (with_agent i \<lparr>a_held = h, a_pc = Undoing n\<rparr> (r_live r + n) r)"
| grow_undo: "i < length (r_agents r) \<Longrightarrow> r_agents r ! i = \<lparr>a_held = h, a_pc = Undoing n\<rparr> \<Longrightarrow>
    race_step lim g r (with_agent i \<lparr>a_held = h, a_pc = Idle\<rparr> (r_live r - n) r)"

inductive race_reach :: "u64 \<Rightarrow> nat \<Rightarrow> nat \<Rightarrow> race \<Rightarrow> bool" for lim :: u64 and g :: nat and n :: nat where
  start: "race_reach lim g n
            \<lparr>r_live = 0, r_agents = replicate n \<lparr>a_held = 0, a_pc = Idle\<rparr>\<rparr>"
| step: "race_reach lim g n r \<Longrightarrow> race_step lim g r r' \<Longrightarrow> race_reach lim g n r'"

section \<open>The counter covers the leases\<close>

definition agent_held :: "agent \<Rightarrow> nat" where
  "agent_held a = unat (a_held a)"

definition in_flight :: "agent \<Rightarrow> nat" where
  "in_flight a = (case a_pc a of Undoing n \<Rightarrow> unat n | _ \<Rightarrow> 0)"

definition leased :: "race \<Rightarrow> nat" where
  "leased r = sum_list (map agent_held (r_agents r))"

definition flying :: "race \<Rightarrow> nat" where
  "flying r = sum_list (map in_flight (r_agents r))"

definition race_ok :: "u64 \<Rightarrow> nat \<Rightarrow> nat \<Rightarrow> race \<Rightarrow> bool" where
  "race_ok lim g n r \<longleftrightarrow> length (r_agents r) = n \<and> unat (r_live r) = leased r + flying r \<and>
     leased r \<le> unat lim \<and> (\<forall>a \<in> set (r_agents r). in_flight a \<le> g)"

lemma leased_with_agent:
  "i < length (r_agents r) \<Longrightarrow> leased (with_agent i a w r) + agent_held (r_agents r ! i) = leased r + agent_held a"
  by (simp add: leased_def with_agent_def sum_list_map_update)

lemma flying_with_agent:
  "i < length (r_agents r) \<Longrightarrow> flying (with_agent i a w r) + in_flight (r_agents r ! i) = flying r + in_flight a"
  by (simp add: flying_def with_agent_def sum_list_map_update)

lemma flying_le: "\<forall>a \<in> set (r_agents r). in_flight a \<le> g \<Longrightarrow> flying r \<le> length (r_agents r) * g"
proof -
  have "(\<forall>a \<in> set as. in_flight a \<le> g) \<Longrightarrow> sum_list (map in_flight as) \<le> length as * g" for as
    by (induction as) auto
  then show "\<forall>a \<in> set (r_agents r). in_flight a \<le> g \<Longrightarrow> ?thesis" by (simp add: flying_def)
qed

lemma with_agent_simps [simp]:
  "length (r_agents (with_agent i a w r)) = length (r_agents r)"
  "r_live (with_agent i a w r) = w"
  "r_agents (with_agent i a w r) = (r_agents r)[i := a]"
  by (simp_all add: with_agent_def)

lemma agent_le_leased: "i < length (r_agents r) \<Longrightarrow> agent_held (r_agents r ! i) \<le> leased r"
  by (auto simp: leased_def intro!: member_le_sum_list)

lemma agent_le_flying: "i < length (r_agents r) \<Longrightarrow> in_flight (r_agents r ! i) \<le> flying r"
  by (auto simp: flying_def intro!: member_le_sum_list)

text \<open>An update of one agent keeps the invariant when its own numbers add up.\<close>

lemma race_ok_update:
  assumes ok: "race_ok lim g n r" and i: "i < length (r_agents r)"
    and live: "unat w + agent_held (r_agents r ! i) + in_flight (r_agents r ! i) =
                 unat (r_live r) + agent_held a + in_flight a"
    and lease: "leased r + agent_held a \<le> unat lim + agent_held (r_agents r ! i)"
    and fl: "in_flight a \<le> g"
  shows "race_ok lim g n (with_agent i a w r)"
  unfolding race_ok_def
proof (intro conjI)
  show "length (r_agents (with_agent i a w r)) = n" using ok by (simp add: race_ok_def)
  show "unat (r_live (with_agent i a w r)) = leased (with_agent i a w r) + flying (with_agent i a w r)"
    using live ok leased_with_agent [OF i, of a w] flying_with_agent [OF i, of a w]
    by (simp add: race_ok_def)
  show "leased (with_agent i a w r) \<le> unat lim"
    using lease leased_with_agent [OF i, of a w] by linarith
  show "\<forall>x \<in> set (r_agents (with_agent i a w r)). in_flight x \<le> g"
    using ok fl set_update_subset_insert [of "r_agents r" i a] by (auto simp: race_ok_def)
qed

lemma not_overshoots:
  "\<not> grow_overshoots lim live n \<longleftrightarrow> unat live + unat n \<le> unat lim"
proof
  assume "unat live + unat n \<le> unat lim"
  moreover from this have "unat live + unat n < 2 ^ 64" by (rule le_less_trans) simp
  ultimately show "\<not> grow_overshoots lim live n"
    by (simp add: grow_overshoots_def word_less_nat_alt unat_sat_add checked_add_None)
next
  assume "\<not> grow_overshoots lim live n"
  then show "unat live + unat n \<le> unat lim"
    by (auto simp: grow_overshoots_def word_less_nat_alt unat_sat_add checked_add_None)
qed

lemma race_step_ok:
  assumes "race_step lim g r r'" and ok: "race_ok lim g n r" and room: "unat lim + n * g < 2 ^ 64"
  shows "race_ok lim g n r'"
proof -
  have le: "leased r \<le> unat lim" and len: "length (r_agents r) = n"
    using ok by (simp_all add: race_ok_def)
  note upd = race_ok_update [OF ok]
  show ?thesis
    using assms(1)
  proof cases
  case (load i h k)
  show ?thesis
      unfolding load(1)
      by (rule upd [OF load(2)]) (simp_all add: load(3) agent_held_def in_flight_def le)
next
  case (reserve_fail i h k cur u)
  show ?thesis
      unfolding reserve_fail(1)
      by (rule upd [OF reserve_fail(2)]) (simp_all add: reserve_fail(3) agent_held_def in_flight_def le)
next
  case (cas_retry i h k cur v)
  show ?thesis
      unfolding cas_retry(1)
      by (rule upd [OF cas_retry(2)]) (simp_all add: cas_retry(3) agent_held_def in_flight_def le)
next
  case (cas_ok i h k cur v)
  have fits: "unat v = unat cur + unat k" "unat v \<le> unat lim"
    using unat_reserved [OF cas_ok(4)] by simp_all
  have h: "unat h \<le> leased r" using agent_le_leased [OF cas_ok(2)] cas_ok(3) by (simp add: agent_held_def)
  have "unat h + unat k \<le> unat lim"
    using h fits ok cas_ok(5) by (simp add: race_ok_def)
  then have "unat (h + k) = unat h + unat k" by (rule word_le_bound)
  then show ?thesis
      unfolding cas_ok(1) using fits h le ok cas_ok(4,5) agent_le_leased [OF cas_ok(2)] 
      by (intro upd [OF cas_ok(2)]) (simp_all add: cas_ok(3) agent_held_def in_flight_def race_ok_def fits cas_ok(5))
next
  case (shrink i h k)
  have h: "unat h \<le> leased r" using agent_le_leased [OF shrink(2)] shrink(3) by (simp add: agent_held_def)
  have k: "unat k \<le> unat h" using shrink(4) by (simp add: word_le_nat_alt)
  from h have "h - k \<le> r_live r"
    using ok shrink(4) by (simp add: race_ok_def word_le_nat_alt unat_diff_le)
  then have "unat (r_live r - (h - k)) + unat h = unat (r_live r) + unat k"
    using shrink(4) h ok by (simp add: word_le_nat_alt unat_diff_le race_ok_def)
  then show ?thesis
      unfolding shrink(1) using le h k
      by (intro upd [OF shrink(2)]) (simp_all add: shrink(3) agent_held_def in_flight_def race_ok_def)
next
  case (grow_ok i h k)
  have fits: "unat (r_live r) + unat k \<le> unat lim" using grow_ok(5) by (simp add: not_overshoots)
  have h: "unat h \<le> leased r" using agent_le_leased [OF grow_ok(2)] grow_ok(3) by (simp add: agent_held_def)
  have room: "leased r + unat k \<le> unat lim" using fits ok by (simp add: race_ok_def)
  with h have "unat h + unat k \<le> unat lim" by linarith
  then have "unat h + unat k \<le> 18446744073709551615" by (rule order_trans) simp
  then have "unat (sat_add h k) = unat h + unat k" by (simp add: unat_sat_add)
  then show ?thesis
      unfolding grow_ok(1) using fits h le ok room
      by (intro upd [OF grow_ok(2)]) (simp_all add: grow_ok(3) agent_held_def in_flight_def race_ok_def word_le_bound [OF fits])
next
  case (grow_over i h k)
  let ?a = "\<lparr>a_held = h, a_pc = Undoing k\<rparr>"
  let ?r = "with_agent i ?a (r_live r) r"
  have "\<forall>x \<in> set (r_agents ?r). in_flight x \<le> g"
    using ok grow_over(4) set_update_subset_insert [of "r_agents r" i ?a]
    by (auto simp: race_ok_def in_flight_def)
  then have "flying ?r \<le> n * g" using flying_le [of ?r g] ok by (simp add: race_ok_def)
  moreover have "flying ?r = flying r + unat k"
    using flying_with_agent [OF grow_over(2), of ?a "r_live r"] grow_over(3) by (simp add: in_flight_def)
  ultimately have "unat (r_live r) + unat k < 2 ^ 64" using ok room by (simp add: race_ok_def)
  then have "unat (r_live r + k) = unat (r_live r) + unat k" by (simp add: unat_add_small)
  then show ?thesis
      unfolding grow_over(1) using le 
      by (intro upd [OF grow_over(2)]) (simp_all add: grow_over(3) agent_held_def in_flight_def race_ok_def grow_over(4))
next
  case (grow_undo i h k)
  have "unat k \<le> flying r" using agent_le_flying [OF grow_undo(2)] grow_undo(3) by (simp add: in_flight_def)
  then have "unat (r_live r - k) + unat k = unat (r_live r)"
    using ok by (simp add: race_ok_def word_le_nat_alt unat_diff_le)
  then show ?thesis
      unfolding grow_undo(1) using le 
      by (intro upd [OF grow_undo(2)]) (simp_all add: grow_undo(3) agent_held_def in_flight_def race_ok_def )
qed
qed

text \<open>
  Property C1: however the atomic steps of any number of lease owners interleave, the bytes under
  lease never exceed \<open>max_live_bytes\<close>, and the counter is exactly the bytes under lease plus the
  additions of failed \<open>grow\<close> calls not yet taken back. The requests of \<open>grow\<close> must be small
  enough that the counter cannot wrap.
\<close>

theorem concurrent_leases_within_limit:
  assumes "race_reach lim g n r" and "unat lim + n * g < 2 ^ 64"
  shows "leased r \<le> unat lim \<and> unat (r_live r) = leased r + flying r"
proof -
  have "race_ok lim g n r"
    using assms(1)
  proof induction
    case start
    have "sum_list (map f (replicate n \<lparr>a_held = 0, a_pc = Idle\<rparr>)) = (0 :: nat)"
      if "f \<lparr>a_held = 0, a_pc = Idle\<rparr> = 0" for f
      by (simp add: that sum_list_replicate)
    then show ?case by (auto simp: race_ok_def leased_def flying_def agent_held_def in_flight_def sum_list_replicate)
  next
    case (step r r')
    then show ?case using race_step_ok assms(2) by blast
  qed
  then show ?thesis by (simp add: race_ok_def)
qed

section \<open>An overflowing grow\<close>

text \<open>
  Two agents and a limit of 100 bytes: the first reserves 90, then asks to grow by
  \<open>2^64 - 50\<close>. Its \<open>fetch_add\<close> wraps the counter to 40, and before its \<open>fetch_sub\<close> runs the
  second agent reserves 60.
\<close>

definition two_agents :: "u64 \<Rightarrow> agent \<Rightarrow> agent \<Rightarrow> race" where
  "two_agents w a b = \<lparr>r_live = w, r_agents = [a, b]\<rparr>"

lemma with_agent_two [simp]:
  "with_agent 0 a w (two_agents w' x y) = two_agents w a y"
  "with_agent (Suc 0) a w (two_agents w' x y) = two_agents w x a"
  "r_live (two_agents w x y) = w"
  "r_agents (two_agents w x y) = [x, y]"
  by (simp_all add: with_agent_def two_agents_def)

lemma reach_reserved:
  "race_reach 100 g 2 (two_agents 90 \<lparr>a_held = 90, a_pc = Idle\<rparr> \<lparr>a_held = 0, a_pc = Idle\<rparr>)"
proof -
  let ?z = "\<lparr>a_held = 0, a_pc = Idle\<rparr>"
  have s0: "race_reach 100 g 2 (two_agents 0 ?z ?z)"
    using race_reach.start [of 100 g 2] by (simp add: two_agents_def numeral_2_eq_2)
  have "race_step 100 g (two_agents 0 ?z ?z) (two_agents 0 \<lparr>a_held = 0, a_pc = Reserving 90 0\<rparr> ?z)"
    using race_step.load [where i = 0 and h = 0 and n = 90 and r = "two_agents 0 ?z ?z"] by simp
  with s0 have s1: "race_reach 100 g 2 (two_agents 0 \<lparr>a_held = 0, a_pc = Reserving 90 0\<rparr> ?z)"
    by (rule race_reach.step)
  have "race_step 100 g (two_agents 0 \<lparr>a_held = 0, a_pc = Reserving 90 0\<rparr> ?z)
      (two_agents 90 \<lparr>a_held = 90, a_pc = Idle\<rparr> ?z)"
    using race_step.cas_ok [where i = 0 and h = 0 and n = 90 and cur = 0 and lim = 100 and next_value = 90
        and r = "two_agents 0 \<lparr>a_held = 0, a_pc = Reserving 90 0\<rparr> ?z"]
    by (simp add: reserve_atomic_Ok)
  with s1 show ?thesis by (rule race_reach.step)
qed

lemma reach_overflowed:
  "race_reach 100 (2 ^ 64) 2
     (two_agents 100 \<lparr>a_held = 90, a_pc = Undoing (- 50)\<rparr> \<lparr>a_held = 60, a_pc = Idle\<rparr>)"
proof -
  let ?a = "\<lparr>a_held = 90, a_pc = Undoing (- 50)\<rparr>" and ?z = "\<lparr>a_held = 0, a_pc = Idle\<rparr>"
  have "race_step 100 (2 ^ 64) (two_agents 90 \<lparr>a_held = 90, a_pc = Idle\<rparr> ?z) (two_agents 40 ?a ?z)"
    using race_step.grow_over [where i = 0 and h = 90 and n = "- 50" and g = "2 ^ 64" and lim = 100
        and r = "two_agents 90 \<lparr>a_held = 90, a_pc = Idle\<rparr> ?z"]
    by (simp add: grow_overshoots_def sat_add_def checked_add_def Let_def)
  with reach_reserved have s1: "race_reach 100 (2 ^ 64) 2 (two_agents 40 ?a ?z)"
    by (rule race_reach.step)
  have "race_step 100 (2 ^ 64) (two_agents 40 ?a ?z) (two_agents 40 ?a \<lparr>a_held = 0, a_pc = Reserving 60 40\<rparr>)"
    using race_step.load [where i = 1 and h = 0 and n = 60 and r = "two_agents 40 ?a ?z"] by simp
  with s1 have s2: "race_reach 100 (2 ^ 64) 2 (two_agents 40 ?a \<lparr>a_held = 0, a_pc = Reserving 60 40\<rparr>)"
    by (rule race_reach.step)
  have "race_step 100 (2 ^ 64) (two_agents 40 ?a \<lparr>a_held = 0, a_pc = Reserving 60 40\<rparr>)
      (two_agents 100 ?a \<lparr>a_held = 60, a_pc = Idle\<rparr>)"
    using race_step.cas_ok [where i = 1 and h = 0 and n = 60 and cur = 40 and lim = 100 and next_value = 100
        and r = "two_agents 40 ?a \<lparr>a_held = 0, a_pc = Reserving 60 40\<rparr>"]
    by (simp add: reserve_atomic_Ok)
  with s2 show ?thesis by (rule race_reach.step)
qed

text \<open>
  The bound on the arguments of \<open>grow\<close> is needed. \<open>grow\<close> adds the requested bytes to
  the held ones without a check for overflow, so there is an interleaving of two owners in which 150
  bytes are under lease of a request limited to 100.
\<close>

theorem overflowing_grow_breaks_limit:
  "\<exists>r. race_reach 100 (2 ^ 64) 2 r \<and> leased r = 150"
  using reach_overflowed by (intro exI conjI) (assumption, simp add: leased_def agent_held_def)

theorem concurrent_leases_within_limit_witness:
  "leased (two_agents 90 \<lparr>a_held = 90, a_pc = Idle\<rparr> \<lparr>a_held = 0, a_pc = Idle\<rparr>) \<le> 100"
  using concurrent_leases_within_limit [OF reach_reserved, of 1000] by simp

end
