(* ===== verification/BudgetBuf.thy ===== *)
theory BudgetBuf
  imports Budget
begin

text \<open>
  \<open>BudgetedVec\<close> and \<open>BudgetedString\<close> of \<open>bashkit/src/limits.rs\<close>: growable buffers whose capacity
  is charged to the budget's live bytes before it is allocated. The allocator is a parameter:
  \<open>alloc n\<close> says whether \<open>try_reserve_exact\<close> obtains \<open>n\<close> bytes, and the capacity it gives is the
  one asked for. A buffer without a budget (\<open>None\<close>) has no lease. \<open>size_of::<T>()\<close> is the
  parameter \<open>sz\<close>; for the element types in use it is positive.
\<close>

type_synonym allocator = "u64 \<Rightarrow> bool"
type_synonym ('a, 'b) buffered = "(limit_exceeded + 'a) \<times> 'b \<times> execution_budget"

definition memory_err :: "memory_error \<Rightarrow> limit_exceeded + 'a" where
  "memory_err m = Err (MemoryErr m)"

section \<open>Vectors\<close>

record 'a budgeted_vec =
  bv_items :: "'a list"
  bv_cap :: usize
  bv_lease :: "lease option"

definition vec_new :: "budget_env \<Rightarrow> bool \<Rightarrow> execution_budget \<Rightarrow> ('a budgeted_vec) budgeted" where
  "vec_new e budgeted b =
     (if budgeted
      then (case lease_bytes e 0 b of
              (Inl err, b') \<Rightarrow> (Err err, b')
            | (Inr h, b') \<Rightarrow> (Ok \<lparr>bv_items = [], bv_cap = 0, bv_lease = Some h\<rparr>, b'))
      else (Ok \<lparr>bv_items = [], bv_cap = 0, bv_lease = None\<rparr>, b))"

definition capacity_bytes :: "usize \<Rightarrow> usize \<Rightarrow> limit_exceeded + u64" where
  "capacity_bytes sz capacity =
     (case checked_mul capacity sz of None \<Rightarrow> memory_err BufferSizeOverflow | Some n \<Rightarrow> Ok n)"

definition vec_growth_capacity :: "usize \<Rightarrow> 'a budgeted_vec \<Rightarrow> limit_exceeded + usize" where
  "vec_growth_capacity required v =
     (if required \<le> bv_cap v then Ok (bv_cap v)
      else case checked_mul (bv_cap v) 2 of
             None \<Rightarrow> memory_err BufferSizeOverflow
           | Some grown \<Rightarrow> Ok (max grown required))"

definition vec_try_reserve_capacity ::
  "usize \<Rightarrow> budget_env \<Rightarrow> allocator \<Rightarrow> usize \<Rightarrow> 'a budgeted_vec \<Rightarrow> execution_budget \<Rightarrow>
   (unit, 'a budgeted_vec) buffered" where
  "vec_try_reserve_capacity sz e alloc capacity v b =
     (if capacity \<le> bv_cap v
      then (case bv_lease v of
              None \<Rightarrow> (Ok (), v, b)
            | Some _ \<Rightarrow> (let (r, b') = check e b in (r, v, b')))
      else case capacity_bytes sz capacity of
        Inl err \<Rightarrow> (Err err, v, b)
      | Inr bytes \<Rightarrow>
          (case bv_lease v of
             None \<Rightarrow>
               if alloc bytes then (Ok (), v\<lparr>bv_cap := capacity\<rparr>, b)
               else (memory_err BufferAllocationFailed, v, b)
           | Some previous \<Rightarrow>
               (case try_grow_to e bytes previous b of
                  (Inl err, b1) \<Rightarrow> (Err err, v, b1)
                | (Inr h, b1) \<Rightarrow>
                    if alloc bytes then (Ok (), v\<lparr>bv_cap := capacity, bv_lease := Some h\<rparr>, b1)
                    else (let (h', b2) = shrink_to previous h b1
                          in (memory_err BufferAllocationFailed, v\<lparr>bv_lease := Some h'\<rparr>, b2)))))"

definition vec_try_with_capacity ::
  "usize \<Rightarrow> budget_env \<Rightarrow> allocator \<Rightarrow> bool \<Rightarrow> usize \<Rightarrow> execution_budget \<Rightarrow> ('a budgeted_vec) budgeted" where
  "vec_try_with_capacity sz e alloc budgeted capacity b =
     (case vec_new e budgeted b of
        (Inl err, b1) \<Rightarrow> (Err err, b1)
      | (Inr v, b1) \<Rightarrow>
          (case vec_try_reserve_capacity sz e alloc capacity v b1 of
             (Inl err, v', b2) \<Rightarrow> (Err err, case bv_lease v' of None \<Rightarrow> b2 | Some h \<Rightarrow> lease_drop h b2)
           | (Inr _, v', b2) \<Rightarrow> (Ok v', b2)))"

definition vec_try_extend ::
  "usize \<Rightarrow> budget_env \<Rightarrow> allocator \<Rightarrow> 'a list \<Rightarrow> 'a budgeted_vec \<Rightarrow> execution_budget \<Rightarrow>
   (unit, 'a budgeted_vec) buffered" where
  "vec_try_extend sz e alloc values v b =
     (case checked_add (of_nat (length (bv_items v))) (of_nat (length values)) of
        None \<Rightarrow> (memory_err BufferSizeOverflow, v, b)
      | Some required \<Rightarrow>
          (case vec_growth_capacity required v of
             Inl err \<Rightarrow> (Err err, v, b)
           | Inr capacity \<Rightarrow>
               (case vec_try_reserve_capacity sz e alloc capacity v b of
                  (Inl err, v', b') \<Rightarrow> (Err err, v', b')
                | (Inr _, v', b') \<Rightarrow> (Ok (), v'\<lparr>bv_items := bv_items v' @ values\<rparr>, b'))))"

definition vec_try_push ::
  "usize \<Rightarrow> budget_env \<Rightarrow> allocator \<Rightarrow> 'a \<Rightarrow> 'a budgeted_vec \<Rightarrow> execution_budget \<Rightarrow>
   (unit, 'a budgeted_vec) buffered" where
  "vec_try_push sz e alloc value v b =
     (case checked_add (of_nat (length (bv_items v))) 1 of
        None \<Rightarrow> (memory_err BufferSizeOverflow, v, b)
      | Some required \<Rightarrow>
          (case vec_growth_capacity required v of
             Inl err \<Rightarrow> (Err err, v, b)
           | Inr capacity \<Rightarrow>
               (case vec_try_reserve_capacity sz e alloc capacity v b of
                  (Inl err, v', b') \<Rightarrow> (Err err, v', b')
                | (Inr _, v', b') \<Rightarrow> (Ok (), v'\<lparr>bv_items := bv_items v' @ [value]\<rparr>, b'))))"

section \<open>Strings\<close>

record budgeted_string =
  bs_text :: rstr
  bs_cap :: usize
  bs_lease :: "lease option"

definition string_new :: "budget_env \<Rightarrow> bool \<Rightarrow> execution_budget \<Rightarrow> budgeted_string budgeted" where
  "string_new e budgeted b =
     (if budgeted
      then (case lease_bytes e 0 b of
              (Inl err, b') \<Rightarrow> (Err err, b')
            | (Inr h, b') \<Rightarrow> (Ok \<lparr>bs_text = [], bs_cap = 0, bs_lease = Some h\<rparr>, b'))
      else (Ok \<lparr>bs_text = [], bs_cap = 0, bs_lease = None\<rparr>, b))"

definition string_growth_capacity :: "usize \<Rightarrow> budgeted_string \<Rightarrow> limit_exceeded + usize" where
  "string_growth_capacity required v =
     (if required \<le> bs_cap v then Ok (bs_cap v)
      else case checked_mul (bs_cap v) 2 of
             None \<Rightarrow> memory_err StringSizeOverflow
           | Some grown \<Rightarrow> Ok (max grown required))"

definition string_try_reserve_capacity ::
  "budget_env \<Rightarrow> allocator \<Rightarrow> usize \<Rightarrow> budgeted_string \<Rightarrow> execution_budget \<Rightarrow>
   (unit, budgeted_string) buffered" where
  "string_try_reserve_capacity e alloc capacity v b =
     (if capacity \<le> bs_cap v
      then (case bs_lease v of
              None \<Rightarrow> (Ok (), v, b)
            | Some _ \<Rightarrow> (let (r, b') = check e b in (r, v, b')))
      else (case bs_lease v of
              None \<Rightarrow>
                if alloc capacity then (Ok (), v\<lparr>bs_cap := capacity\<rparr>, b)
                else (memory_err StringAllocationFailed, v, b)
            | Some previous \<Rightarrow>
                (case try_grow_to e capacity previous b of
                   (Inl err, b1) \<Rightarrow> (Err err, v, b1)
                 | (Inr h, b1) \<Rightarrow>
                     if alloc capacity then (Ok (), v\<lparr>bs_cap := capacity, bs_lease := Some h\<rparr>, b1)
                     else (let (h', b2) = shrink_to previous h b1
                           in (memory_err StringAllocationFailed, v\<lparr>bs_lease := Some h'\<rparr>, b2)))))"

definition string_try_push_str ::
  "budget_env \<Rightarrow> allocator \<Rightarrow> rstr \<Rightarrow> budgeted_string \<Rightarrow> execution_budget \<Rightarrow>
   (unit, budgeted_string) buffered" where
  "string_try_push_str e alloc value v b =
     (case checked_add (of_nat (byte_len (bs_text v))) (of_nat (byte_len value)) of
        None \<Rightarrow> (memory_err StringSizeOverflow, v, b)
      | Some required \<Rightarrow>
          (case string_growth_capacity required v of
             Inl err \<Rightarrow> (Err err, v, b)
           | Inr capacity \<Rightarrow>
               (case string_try_reserve_capacity e alloc capacity v b of
                  (Inl err, v', b') \<Rightarrow> (Err err, v', b')
                | (Inr _, v', b') \<Rightarrow> (Ok (), v'\<lparr>bs_text := bs_text v' @ value\<rparr>, b'))))"

definition string_try_push ::
  "budget_env \<Rightarrow> allocator \<Rightarrow> uchar \<Rightarrow> budgeted_string \<Rightarrow> execution_budget \<Rightarrow>
   (unit, budgeted_string) buffered" where
  "string_try_push e alloc value v b =
     (case checked_add (of_nat (byte_len (bs_text v))) (of_nat (len_utf8 value)) of
        None \<Rightarrow> (memory_err StringSizeOverflow, v, b)
      | Some required \<Rightarrow>
          (case string_growth_capacity required v of
             Inl err \<Rightarrow> (Err err, v, b)
           | Inr capacity \<Rightarrow>
               (case string_try_reserve_capacity e alloc capacity v b of
                  (Inl err, v', b') \<Rightarrow> (Err err, v', b')
                | (Inr _, v', b') \<Rightarrow> (Ok (), v'\<lparr>bs_text := bs_text v' @ [value]\<rparr>, b'))))"

section \<open>The contract of a budgeted buffer\<close>

text \<open>
  What the two buffers promise of reserving capacity: a refusal changes neither the buffer nor
  the live bytes; a success makes room, keeps the contents, and moves the lease and the live
  bytes together, the lease always covering the capacity. Appending is built on it the same way
  in all four operations.
\<close>

definition lease_size :: "lease option \<Rightarrow> nat" where
  "lease_size l = (case l of None \<Rightarrow> 0 | Some h \<Rightarrow> unat h)"

definition live_within :: "execution_budget \<Rightarrow> bool" where
  "live_within b \<longleftrightarrow> b_live_bytes b \<le> b_max_live_bytes b"

fun append_all ::
  "(budget_env \<Rightarrow> allocator \<Rightarrow> 'c list \<Rightarrow> 'b \<Rightarrow> execution_budget \<Rightarrow> (unit, 'b) buffered) \<Rightarrow>
   (budget_env \<times> allocator \<times> 'c list) list \<Rightarrow> 'b \<Rightarrow> execution_budget \<Rightarrow>
   (limit_exceeded + unit) list \<times> 'b \<times> execution_budget" where
  "append_all f [] v b = ([], v, b)"
| "append_all f ((e, al, xs) # steps) v b =
     (let (r, v1, b1) = f e al xs v b; (rs, v2, b2) = append_all f steps v1 b1 in (r # rs, v2, b2))"

text \<open>The pieces whose append succeeded.\<close>

fun accepted :: "(budget_env \<times> allocator \<times> 'c list) list \<Rightarrow> (limit_exceeded + unit) list \<Rightarrow> 'c list" where
  "accepted ((e, al, xs) # steps) (r # rs) = (if is_ok r then xs else []) @ accepted steps rs"
| "accepted _ _ = []"

locale budgeted_buffer =
  fixes items :: "'b \<Rightarrow> 'c list"
    and used :: "'c list \<Rightarrow> nat"
    and cap :: "'b \<Rightarrow> usize"
    and lease_of :: "'b \<Rightarrow> lease option"
    and unit_bytes :: nat
    and grow_cap :: "usize \<Rightarrow> 'b \<Rightarrow> limit_exceeded + usize"
    and reserve :: "budget_env \<Rightarrow> allocator \<Rightarrow> usize \<Rightarrow> 'b \<Rightarrow> execution_budget \<Rightarrow> (unit, 'b) buffered"
    and put :: "'c list \<Rightarrow> 'b \<Rightarrow> 'b"
    and append :: "budget_env \<Rightarrow> allocator \<Rightarrow> 'c list \<Rightarrow> 'b \<Rightarrow> execution_budget \<Rightarrow> (unit, 'b) buffered"
    and overflow :: memory_error
  assumes reserve_fail: "reserve e al c v b = (Inl err, v', b') \<Longrightarrow>
      (\<forall>h. lease_of v = Some h \<longrightarrow> unat h = unat (cap v) * unit_bytes) \<Longrightarrow> v' = v \<and>
      b_live_bytes b' = b_live_bytes b \<and> b_max_live_bytes b' = b_max_live_bytes b"
    and reserve_ok: "reserve e al c v b = (Inr u, v', b') \<Longrightarrow>
      (\<forall>h. lease_of v = Some h \<longrightarrow> unat h = unat (cap v) * unit_bytes) \<Longrightarrow>
      items v' = items v \<and> cap v' = max c (cap v) \<and> (lease_of v' = None \<longleftrightarrow> lease_of v = None) \<and>
      (\<forall>h. lease_of v' = Some h \<longrightarrow> unat h = unat (cap v') * unit_bytes) \<and>
      unat (b_live_bytes b') + lease_size (lease_of v) = unat (b_live_bytes b) + lease_size (lease_of v') \<and>
      b_max_live_bytes b' = b_max_live_bytes b \<and> (live_within b \<longrightarrow> live_within b')"
    and grow_cap_ok: "grow_cap n v = Inr c \<Longrightarrow> n \<le> c"
    and put: "items (put xs v) = items v @ xs" "cap (put xs v) = cap v" "lease_of (put xs v) = lease_of v"
    and used: "used (xs @ ys) = used xs + used ys" "used [] = 0"
    and append: "append e al xs v b =
      (case checked_add (of_nat (used (items v))) (of_nat (used xs)) of
         None \<Rightarrow> (memory_err overflow, v, b)
       | Some required \<Rightarrow>
          (case grow_cap required v of
             Inl err \<Rightarrow> (Err err, v, b)
           | Inr capacity \<Rightarrow>
               (case reserve e al capacity v b of
                  (Inl err, v', b') \<Rightarrow> (Err err, v', b')
                | (Inr _, v', b') \<Rightarrow> (Ok (), put xs v', b'))))"
begin

text \<open>The contents fit the capacity, the capacity is covered by the lease, and the lease is
  part of the live bytes.\<close>

definition sound :: "'b \<Rightarrow> execution_budget \<Rightarrow> bool" where
  "sound v b \<longleftrightarrow> used (items v) \<le> unat (cap v) \<and>
     (\<forall>h. lease_of v = Some h \<longrightarrow> unat h = unat (cap v) * unit_bytes) \<and>
     lease_size (lease_of v) \<le> unat (b_live_bytes b) \<and> live_within b"

lemma append_fail:
  "append e al xs v b = (Inl err, v', b') \<Longrightarrow> sound v b \<Longrightarrow> v' = v \<and> b_live_bytes b' = b_live_bytes b \<and>
     b_max_live_bytes b' = b_max_live_bytes b"
  by (auto simp: append memory_err_def sound_def dest: reserve_fail split: option.splits sum.splits prod.splits)

lemma append_ok:
  assumes "append e al xs v b = (Inr u, v', b')" and s: "sound v b" and small: "used xs < 2 ^ 64"
  shows "sound v' b' \<and> items v' = items v @ xs \<and>
    unat (b_live_bytes b') + lease_size (lease_of v) = unat (b_live_bytes b) + lease_size (lease_of v') \<and>
    (lease_of v' = None \<longleftrightarrow> lease_of v = None) \<and> b_max_live_bytes b' = b_max_live_bytes b"
proof -
  obtain n c v1 where n: "checked_add (of_nat (used (items v))) (of_nat (used xs)) = Some n"
    and c: "grow_cap n v = Inr c" and r: "reserve e al c v b = (Inr (), v1, b')" and v': "v' = put xs v1"
    using assms(1) by (auto simp: append memory_err_def split: option.splits sum.splits prod.splits)
  note r_ok = reserve_ok [OF r]
  have cov: "\<forall>h. lease_of v = Some h \<longrightarrow> unat h = unat (cap v) * unit_bytes" using s by (simp add: sound_def)
  have "used (items v) < 2 ^ 64"
    by (rule le_less_trans [of _ "unat (cap v)"]) (use s in \<open>simp_all add: sound_def\<close>)
  then have "unat n = used (items v) + used xs"
    using unat_checked_add [OF n] small by (simp add: unat_of_nat)
  moreover have "unat n \<le> unat (max c (cap v))"
    using grow_cap_ok [OF c] by (simp add: word_le_nat_alt max_def)
  ultimately show ?thesis
    using r_ok [OF cov] s by (auto simp: sound_def v' put used)
qed

text \<open>Any sequence of appends, each with its own environment and allocator.\<close>

lemma append_all_sound:
  "append_all append steps v b = (rs, v', b') \<Longrightarrow> sound v b \<Longrightarrow>
   (\<forall>(e, al, xs) \<in> set steps. used xs < 2 ^ 64) \<Longrightarrow>
   sound v' b' \<and> items v' = items v @ accepted steps rs \<and>
   unat (b_live_bytes b') + lease_size (lease_of v) = unat (b_live_bytes b) + lease_size (lease_of v') \<and>
   (lease_of v' = None \<longleftrightarrow> lease_of v = None) \<and> b_max_live_bytes b' = b_max_live_bytes b"
proof (induction steps arbitrary: v b rs)
  case (Cons st steps)
  obtain e al xs where st: "st = (e, al, xs)" by (metis prod.exhaust)
  obtain r v1 b1 where step: "append e al xs v b = (r, v1, b1)" by (metis prod.exhaust)
  obtain rs2 v2 b2 where run: "append_all append steps v1 b1 = (rs2, v2, b2)" by (metis prod.exhaust)
  from Cons.prems(1) have res: "rs = r # rs2" "v' = v2" "b' = b2" by (simp_all add: st step run)
  note IH = Cons.IH [of v1 b1 rs2]
  have small: "used xs < 2 ^ 64" using Cons.prems(3) by (simp add: st)
  show ?case
  proof (cases r)
    case (Inl err)
    with step have "append e al xs v b = (Inl err, v1, b1)" by simp
    note f = append_fail [OF this Cons.prems(2)]
    then have "sound v1 b1" using Cons.prems(2) by (simp add: sound_def live_within_def)
    then show ?thesis using IH run f Cons.prems(3) by (simp add: res Inl st)
  next
    case (Inr u)
    with step have "append e al xs v b = (Inr u, v1, b1)" by simp
    from append_ok [OF this Cons.prems(2) small]
    show ?thesis using IH run Cons.prems(3) by (auto simp: res Inr st)
  qed
qed simp

end

section \<open>Interpretations\<close>

lemma try_grow_to_Inl:
  "try_grow_to e n h b = (Inl err, b') \<Longrightarrow> b_live_bytes b' = b_live_bytes b \<and>
     b_max_live_bytes b' = b_max_live_bytes b"
  using try_grow_to_outcome [where e = e and n = n and h = h and b = b]
  by (auto simp: failing_def)

lemma try_grow_to_Inr:
  assumes "try_grow_to e n h b = (Inr h', b')" and "h \<le> n"
  shows "h' = n \<and> b_max_live_bytes b' = b_max_live_bytes b \<and>
    unat (b_live_bytes b') + unat h = unat (b_live_bytes b) + unat n \<and> (live_within b \<longrightarrow> live_within b')"
proof -
  have m: "max n h = n" using assms(2) by (simp add: max_def)
  have out: "h' = n" "b' = b\<lparr>b_live_bytes := b_live_bytes b + (n - h)\<rparr>"
    and le: "unat (b_live_bytes b) + (unat n - unat h) \<le> max (unat (b_max_live_bytes b)) (unat (b_live_bytes b))"
    using try_grow_to_outcome [where e = e and n = n and h = h and b = b] assms(1) m
    by (auto simp: failing_def)
  have hn: "unat h \<le> unat n" using assms(2) by (simp add: word_le_nat_alt)
  have "unat (b_live_bytes b) + unat (n - h) \<le> unat (max (b_max_live_bytes b) (b_live_bytes b))"
    using le assms(2) by (auto simp: unat_diff_le max_def word_le_nat_alt)
  from word_le_bound [OF this] have "unat (b_live_bytes b') = unat (b_live_bytes b) + (unat n - unat h)"
    using assms(2) by (simp add: out unat_diff_le)
  with out(1) le hn show ?thesis by (auto simp: out(2) live_within_def word_le_nat_alt)
qed

lemma check_live:
  "check e b = (r, b') \<Longrightarrow> b_live_bytes b' = b_live_bytes b \<and> b_max_live_bytes b' = b_max_live_bytes b"
  using check_outcome [where b = b and e = e] by (auto simp: failing_def)

lemma shrink_to_live [simp]: "b_live_bytes (snd (shrink_to n h b)) = b_live_bytes b - (h - n)"
  "b_max_live_bytes (snd (shrink_to n h b)) = b_max_live_bytes b" "fst (shrink_to n h b) = n"
  by (simp_all add: shrink_to_def)

text \<open>Growing and then giving the addition back restores the live bytes.\<close>

lemma grow_shrink_restores:
  "try_grow_to e n h b = (Inr h', b') \<Longrightarrow> h \<le> n \<Longrightarrow> b_live_bytes b' - (h' - h) = b_live_bytes b"
  using try_grow_to_outcome [where e = e and n = n and h = h and b = b]
  by (auto simp: failing_def max_def)

lemma growth_capacity_ge:
  "vec_growth_capacity n v = Inr c \<Longrightarrow> n \<le> c"
  "string_growth_capacity n w = Inr c \<Longrightarrow> n \<le> c"
  by (auto simp: vec_growth_capacity_def string_growth_capacity_def memory_err_def
      split: if_splits option.splits)

definition vec_charged :: "usize \<Rightarrow> 'a budgeted_vec \<Rightarrow> bool" where
  "vec_charged sz v \<longleftrightarrow> (\<forall>h. bv_lease v = Some h \<longrightarrow> unat h = unat (bv_cap v) * unat sz)"

lemma vec_bytes_ge:
  assumes "vec_charged sz v" "bv_lease v = Some h" "bv_cap v < c" "capacity_bytes sz c = Inr n"
  shows "h \<le> n" "unat n = unat c * unat sz"
proof -
  show n: "unat n = unat c * unat sz"
    using assms(4) by (auto simp: capacity_bytes_def memory_err_def dest: unat_checked_mul split: option.splits)
  have "unat (bv_cap v) * unat sz \<le> unat c * unat sz"
    using assms(3) by (simp add: word_less_nat_alt)
  then show "h \<le> n" using assms(1,2) by (simp add: word_le_nat_alt n vec_charged_def)
qed

lemma vec_reserve_fail:
  assumes "vec_charged sz v" and "vec_try_reserve_capacity sz e al c v b = (Inl err, v', b')"
  shows "v' = v \<and> b_live_bytes b' = b_live_bytes b \<and> b_max_live_bytes b' = b_max_live_bytes b"
proof (cases "c \<le> bv_cap v")
  case True
  then show ?thesis
    using assms(2) by (auto simp: vec_try_reserve_capacity_def dest: check_live split: option.splits prod.splits)
next
  case False
  then have lt: "bv_cap v < c" by simp
  show ?thesis
  proof (cases "capacity_bytes sz c")
    case (Inl x)
    then show ?thesis using assms(2) False by (simp add: vec_try_reserve_capacity_def)
  next
    case (Inr n)
    show ?thesis
    proof (cases "bv_lease v")
      case None
      then show ?thesis
        using assms(2) False Inr by (auto simp: vec_try_reserve_capacity_def split: if_splits)
    next
      case (Some h)
      note ge = vec_bytes_ge(1) [OF assms(1) Some lt Inr]
      show ?thesis
        using assms(2) False Inr Some try_grow_to_Inl [of e n h b] grow_shrink_restores [OF _ ge, of e b]
          try_grow_to_Inr [OF _ ge, of e b]
        by (cases "try_grow_to e n h b")
          (auto simp: vec_try_reserve_capacity_def Let_def shrink_to_def memory_err_def split: sum.splits if_splits)
    qed
  qed
qed

lemma vec_reserve_ok:
  assumes "vec_try_reserve_capacity sz e al c v b = (Inr u, v', b')" and "vec_charged sz v"
  shows "bv_items v' = bv_items v \<and> bv_cap v' = max c (bv_cap v) \<and>
    (bv_lease v' = None \<longleftrightarrow> bv_lease v = None) \<and> vec_charged sz v' \<and>
    unat (b_live_bytes b') + lease_size (bv_lease v) = unat (b_live_bytes b) + lease_size (bv_lease v') \<and>
    b_max_live_bytes b' = b_max_live_bytes b \<and> (live_within b \<longrightarrow> live_within b')"
proof (cases "c \<le> bv_cap v")
  case True
  then show ?thesis
    using assms by (auto simp: vec_try_reserve_capacity_def max_def live_within_def dest: check_live
        split: option.splits prod.splits)
next
  case False
  then have lt: "bv_cap v < c" by simp
  then have m: "max c (bv_cap v) = c" by (simp add: max_absorb1)
  obtain n where n: "capacity_bytes sz c = Inr n"
    using assms(1) False by (auto simp: vec_try_reserve_capacity_def split: sum.splits)
  show ?thesis
  proof (cases "bv_lease v")
    case None
    then show ?thesis
      using assms False n m
      by (auto simp: vec_try_reserve_capacity_def memory_err_def vec_charged_def split: if_splits)
  next
    case (Some h)
    note ge = vec_bytes_ge [OF assms(2) Some lt n]
    obtain h' b1 where g: "try_grow_to e n h b = (Inr h', b1)"
      using assms(1) False n Some by (auto simp: vec_try_reserve_capacity_def split: prod.splits sum.splits)
    show ?thesis
      using assms(1) False n Some g try_grow_to_Inr [OF g ge(1)] m ge(2)
      by (auto simp: vec_try_reserve_capacity_def Let_def memory_err_def vec_charged_def lease_size_def
          split: if_splits prod.splits)
  qed
qed

text \<open>A string buffer reserves exactly as a byte vector does.\<close>

definition as_vec :: "budgeted_string \<Rightarrow> uchar budgeted_vec" where
  "as_vec v = \<lparr>bv_items = bs_text v, bv_cap = bs_cap v, bv_lease = bs_lease v\<rparr>"

lemma as_vec_simps [simp]:
  "bv_items (as_vec v) = bs_text v" "bv_cap (as_vec v) = bs_cap v" "bv_lease (as_vec v) = bs_lease v"
  "as_vec v = as_vec w \<longleftrightarrow> v = w"
  by (simp_all add: as_vec_def) (cases v; cases w; auto)

lemma capacity_bytes_1: "capacity_bytes 1 c = Inr c"
  by (simp add: capacity_bytes_def checked_mul_def)

lemma string_reserve_vec:
  "string_try_reserve_capacity e al c v b = (r, v', b') \<Longrightarrow>
   \<exists>r0. vec_try_reserve_capacity 1 e al c (as_vec v) b = (r0, as_vec v', b') \<and> is_ok r0 = is_ok r"
  by (auto simp: string_try_reserve_capacity_def vec_try_reserve_capacity_def capacity_bytes_1 Let_def
      memory_err_def as_vec_def split: option.splits prod.splits sum.splits if_splits)

lemma string_reserve_fail:
  assumes "string_try_reserve_capacity e al c v b = (Inl err, v', b')" and "vec_charged 1 (as_vec v)"
  shows "v' = v \<and> b_live_bytes b' = b_live_bytes b \<and> b_max_live_bytes b' = b_max_live_bytes b"
proof -
  obtain r0 where r0: "vec_try_reserve_capacity 1 e al c (as_vec v) b = (r0, as_vec v', b')" "\<not> is_ok r0"
    using string_reserve_vec [OF assms(1)] by auto
  then obtain x where "r0 = Inl x" by (cases r0) auto
  with vec_reserve_fail [OF assms(2)] r0(1) show ?thesis by fastforce
qed

lemma string_reserve_ok:
  assumes "string_try_reserve_capacity e al c v b = (Inr u, v', b')" and "vec_charged 1 (as_vec v)"
  shows "bs_text v' = bs_text v \<and> bs_cap v' = max c (bs_cap v) \<and>
    (bs_lease v' = None \<longleftrightarrow> bs_lease v = None) \<and> vec_charged 1 (as_vec v') \<and>
    unat (b_live_bytes b') + lease_size (bs_lease v) = unat (b_live_bytes b) + lease_size (bs_lease v') \<and>
    b_max_live_bytes b' = b_max_live_bytes b \<and> (live_within b \<longrightarrow> live_within b')"
proof -
  obtain r0 where r0: "vec_try_reserve_capacity 1 e al c (as_vec v) b = (r0, as_vec v', b')" "is_ok r0"
    using string_reserve_vec [OF assms(1)] by auto
  then obtain x where "vec_try_reserve_capacity 1 e al c (as_vec v) b = (Inr x, as_vec v', b')"
    by (cases r0) auto
  from vec_reserve_ok [OF this assms(2)] show ?thesis by simp
qed

lemma charged_iff:
  "vec_charged sz v \<longleftrightarrow> (\<forall>h. bv_lease v = Some h \<longrightarrow> unat h = unat (bv_cap v) * unat sz)"
  "vec_charged 1 (as_vec w) \<longleftrightarrow> (\<forall>h. bs_lease w = Some h \<longrightarrow> unat h = unat (bs_cap w) * 1)"
  by (simp_all add: vec_charged_def)

text \<open>Pushing one element is extending by a single-element slice.\<close>

lemma vec_try_push_extend: "vec_try_push sz e al x v b = vec_try_extend sz e al [x] v b"
  by (simp add: vec_try_push_def vec_try_extend_def)

lemma string_try_push_push_str: "string_try_push e al c v b = string_try_push_str e al [c] v b"
  by (simp add: string_try_push_def string_try_push_str_def)

interpretation vec_buf: budgeted_buffer bv_items length bv_cap bv_lease "unat sz" vec_growth_capacity
  "vec_try_reserve_capacity sz" "\<lambda>xs v. v\<lparr>bv_items := bv_items v @ xs\<rparr>" "vec_try_extend sz"
  BufferSizeOverflow for sz :: usize
proof
  show "v' = v \<and> b_live_bytes b' = b_live_bytes b \<and> b_max_live_bytes b' = b_max_live_bytes b"
    if "vec_try_reserve_capacity sz e al c v b = (Inl err, v', b')"
      "\<forall>h. bv_lease v = Some h \<longrightarrow> unat h = unat (bv_cap v) * unat sz"
    for e al c b err b' and v v' :: "'a budgeted_vec"
    using vec_reserve_fail [OF that(2) [folded charged_iff] that(1)] .
  show "bv_items v' = bv_items v \<and> bv_cap v' = max c (bv_cap v) \<and>
      (bv_lease v' = None \<longleftrightarrow> bv_lease v = None) \<and>
      (\<forall>h. bv_lease v' = Some h \<longrightarrow> unat h = unat (bv_cap v') * unat sz) \<and>
      unat (b_live_bytes b') + lease_size (bv_lease v) = unat (b_live_bytes b) + lease_size (bv_lease v') \<and>
      b_max_live_bytes b' = b_max_live_bytes b \<and> (live_within b \<longrightarrow> live_within b')"
    if "vec_try_reserve_capacity sz e al c v b = (Inr u, v', b')"
      "\<forall>h. bv_lease v = Some h \<longrightarrow> unat h = unat (bv_cap v) * unat sz"
    for e al c b u b' and v v' :: "'a budgeted_vec"
    using vec_reserve_ok [unfolded charged_iff(1), OF that] .
qed (auto simp: growth_capacity_ge vec_try_extend_def split: option.splits sum.splits prod.splits)

interpretation string_buf: budgeted_buffer bs_text byte_len bs_cap bs_lease 1 string_growth_capacity
  string_try_reserve_capacity "\<lambda>xs v. v\<lparr>bs_text := bs_text v @ xs\<rparr>" string_try_push_str
  StringSizeOverflow
proof
  show "v' = v \<and> b_live_bytes b' = b_live_bytes b \<and> b_max_live_bytes b' = b_max_live_bytes b"
    if "string_try_reserve_capacity e al c v b = (Inl err, v', b')"
      "\<forall>h. bs_lease v = Some h \<longrightarrow> unat h = unat (bs_cap v) * 1"
    for e al c b err b' v v'
    using string_reserve_fail [OF that(1) that(2) [folded charged_iff]] .
  show "bs_text v' = bs_text v \<and> bs_cap v' = max c (bs_cap v) \<and>
      (bs_lease v' = None \<longleftrightarrow> bs_lease v = None) \<and>
      (\<forall>h. bs_lease v' = Some h \<longrightarrow> unat h = unat (bs_cap v') * 1) \<and>
      unat (b_live_bytes b') + lease_size (bs_lease v) = unat (b_live_bytes b) + lease_size (bs_lease v') \<and>
      b_max_live_bytes b' = b_max_live_bytes b \<and> (live_within b \<longrightarrow> live_within b')"
    if "string_try_reserve_capacity e al c v b = (Inr u, v', b')"
      "\<forall>h. bs_lease v = Some h \<longrightarrow> unat h = unat (bs_cap v) * 1"
    for e al c b u b' v v'
    using string_reserve_ok [unfolded charged_iff(2), OF that] .
qed (auto simp: growth_capacity_ge string_try_push_str_def split: option.splits sum.splits prod.splits)

section \<open>Properties\<close>

text \<open>
  Property C32: a budgeted vector is charged before it grows. After any sequence of pushes and
  extends, under any clock, cancellation and allocator, the vector holds exactly the elements
  whose append succeeded, they fit its capacity, the lease is its capacity in bytes, and the
  live-byte counter has moved by exactly the change of the lease and stays within its limit
  (TM-DOS-103).
\<close>

theorem vec_capacity_is_charged:
  assumes "append_all (vec_try_extend sz) steps \<lparr>bv_items = [], bv_cap = 0, bv_lease = Some 0\<rparr> b = (rs, v, b')"
    and "\<forall>(e, al, xs) \<in> set steps. length xs < 2 ^ 64" and "live_within b"
  shows "bv_items v = accepted steps rs \<and> length (bv_items v) \<le> unat (bv_cap v) \<and>
    (\<exists>h. bv_lease v = Some h \<and> unat h = unat (bv_cap v) * unat sz \<and>
         unat (b_live_bytes b') = unat (b_live_bytes b) + unat h \<and> b_live_bytes b' \<le> b_max_live_bytes b)"
proof -
  let ?v0 = "\<lparr>bv_items = [], bv_cap = 0, bv_lease = Some 0\<rparr>"
  have "vec_buf.sound sz ?v0 b" using assms(3) by (simp add: vec_buf.sound_def lease_size_def)
  from vec_buf.append_all_sound [OF assms(1) this assms(2)] show ?thesis
    by (auto simp: vec_buf.sound_def lease_size_def live_within_def)
qed

text \<open>
  The same of a budgeted string, whose capacity counts UTF-8 bytes.
\<close>

theorem string_capacity_is_charged:
  assumes "append_all string_try_push_str steps \<lparr>bs_text = [], bs_cap = 0, bs_lease = Some 0\<rparr> b = (rs, v, b')"
    and "\<forall>(e, al, xs) \<in> set steps. byte_len xs < 2 ^ 64" and "live_within b"
  shows "bs_text v = accepted steps rs \<and> byte_len (bs_text v) \<le> unat (bs_cap v) \<and>
    (\<exists>h. bs_lease v = Some h \<and> unat h = unat (bs_cap v) \<and>
         unat (b_live_bytes b') = unat (b_live_bytes b) + unat h \<and> b_live_bytes b' \<le> b_max_live_bytes b)"
proof -
  let ?v0 = "\<lparr>bs_text = [], bs_cap = 0, bs_lease = Some 0\<rparr>"
  have "string_buf.sound ?v0 b" using assms(3)
    unfolding string_buf.sound_def by (simp add: lease_size_def)
  from string_buf.append_all_sound [OF assms(1) this assms(2)] show ?thesis
    unfolding string_buf.sound_def by (auto simp: lease_size_def live_within_def)
qed

text \<open>Two pushes into a 4-byte budget: the first is granted, the second is not.\<close>

definition demo_env :: budget_env where "demo_env = \<lparr>now = 0, cancelled = False\<rparr>"

definition demo_budget :: execution_budget where
  "demo_budget = new_budget demo_env (default_execution_limits\<lparr>max_live_intermediate_bytes := 4\<rparr>)"

lemmas demo_defs = demo_env_def demo_budget_def new_budget_def default_execution_limits_def dur_secs_def
  instant_checked_add_def DEADLINE_GRACE_def memory_err_def Let_def check_cases expired_def checked_then_def
  try_grow_to_def reserve_live_bytes_def reserve_atomic_def checked_add_def checked_mul_def

lemma demo_live: "live_within demo_budget"
  by (simp add: live_within_def demo_budget_def new_budget_def)

theorem vec_capacity_is_charged_witness:
  "fst (append_all (vec_try_extend 2) [(demo_env, \<lambda>_. True, [7 :: nat, 8]), (demo_env, \<lambda>_. True, [9])]
      \<lparr>bv_items = [], bv_cap = 0, bv_lease = Some 0\<rparr> demo_budget)
    = [Ok (), Err (ExecutionBudgetErr (LiveBytes 8 4))] \<and>
   bv_items (fst (snd (append_all (vec_try_extend 2) [(demo_env, \<lambda>_. True, [7 :: nat, 8]), (demo_env, \<lambda>_. True, [9])]
      \<lparr>bv_items = [], bv_cap = 0, bv_lease = Some 0\<rparr> demo_budget))) = [7, 8]"
proof -
  let ?steps = "[(demo_env, \<lambda>_. True, [7 :: nat, 8]), (demo_env, \<lambda>_. True, [9])]"
  let ?run = "append_all (vec_try_extend 2) ?steps \<lparr>bv_items = [], bv_cap = 0, bv_lease = Some 0\<rparr> demo_budget"
  have rs: "fst ?run = [Ok (), Err (ExecutionBudgetErr (LiveBytes 8 4))]"
    by (simp add: vec_try_extend_def vec_growth_capacity_def vec_try_reserve_capacity_def capacity_bytes_def demo_defs)
  have eq: "?run = (fst ?run, fst (snd ?run), snd (snd ?run))" by simp
  have small: "\<forall>(e, al, xs) \<in> set ?steps. length xs < 2 ^ 64" by simp
  from vec_capacity_is_charged [OF eq small demo_live] rs
  show ?thesis by simp
qed

theorem string_capacity_is_charged_witness:
  "bs_text (fst (snd (append_all string_try_push_str [(demo_env, \<lambda>_. True, lit ''ab''), (demo_env, \<lambda>_. False, lit ''c'')]
      \<lparr>bs_text = [], bs_cap = 0, bs_lease = Some 0\<rparr> demo_budget))) = lit ''ab''"
proof -
  let ?steps = "[(demo_env, \<lambda>_. True, lit ''ab''), (demo_env, \<lambda>_. False, lit ''c'')]"
  let ?run = "append_all string_try_push_str ?steps \<lparr>bs_text = [], bs_cap = 0, bs_lease = Some 0\<rparr> demo_budget"
  have rs: "fst ?run = [Ok (), memory_err StringAllocationFailed]"
    by (simp add: string_try_push_str_def string_growth_capacity_def string_try_reserve_capacity_def
        shrink_to_def lit_def len_utf8_def demo_defs)
  have eq: "?run = (fst ?run, fst (snd ?run), snd (snd ?run))" by simp
  have small: "\<forall>(e, al, xs) \<in> set ?steps. byte_len xs < 2 ^ 64" by (simp add: lit_def len_utf8_def)
  from string_capacity_is_charged [OF eq small demo_live] rs
  show ?thesis by (simp add: memory_err_def)
qed

end
