(* ===== verification/Glob.thy ===== *)
theory Glob
  imports Prelude
begin

text \<open>
  Shell pattern matching, \<open>bashkit/src/interpreter/glob.rs\<close>: bracket expressions with POSIX
  classes, the wildcard loop with its single restore point, extended patterns, and the option
  lookups that drive them. Patterns and values are lists of code points. The recursion between
  \<open>glob_match_impl\<close> and \<open>match_extglob\<close> is bounded by \<open>MAX_GLOB_DEPTH\<close>; the model counts the
  levels that are left.
\<close>

section \<open>Options and characters\<close>

text \<open>\<open>self.scoped.variables.get("SHOPT_x").map(|v| v == "1").unwrap_or(false)\<close>\<close>

definition shopt_on :: "(rstr \<times> rstr) list \<Rightarrow> rstr \<Rightarrow> bool" where
  "shopt_on vars name = (map_of vars name = Some (lit ''1''))"

definition is_extglob :: "(rstr \<times> rstr) list \<Rightarrow> bool" where
  "is_extglob vars = shopt_on vars (lit ''SHOPT_extglob'')"

definition is_dotglob :: "(rstr \<times> rstr) list \<Rightarrow> bool" where
  "is_dotglob vars = shopt_on vars (lit ''SHOPT_dotglob'')"

definition is_nocaseglob :: "(rstr \<times> rstr) list \<Rightarrow> bool" where
  "is_nocaseglob vars = shopt_on vars (lit ''SHOPT_nocaseglob'')"

definition is_noglob :: "(rstr \<times> rstr) list \<Rightarrow> bool" where
  "is_noglob vars = shopt_on vars (lit ''SHOPT_f'')"

definition is_failglob :: "(rstr \<times> rstr) list \<Rightarrow> bool" where
  "is_failglob vars = shopt_on vars (lit ''SHOPT_failglob'')"

definition is_globstar :: "(rstr \<times> rstr) list \<Rightarrow> bool" where
  "is_globstar vars = shopt_on vars (lit ''SHOPT_globstar'')"

abbreviation BSL :: uchar where "BSL \<equiv> 92"
abbreviation STAR :: uchar where "STAR \<equiv> 42"
abbreviation QUEST :: uchar where "QUEST \<equiv> 63"
abbreviation LBRACK :: uchar where "LBRACK \<equiv> 91"
abbreviation RBRACK :: uchar where "RBRACK \<equiv> 93"
abbreviation BANG :: uchar where "BANG \<equiv> 33"
abbreviation CARET :: uchar where "CARET \<equiv> 94"
abbreviation COLON :: uchar where "COLON \<equiv> 58"
abbreviation DASH :: uchar where "DASH \<equiv> 45"
abbreviation LPAREN :: uchar where "LPAREN \<equiv> 40"
abbreviation RPAREN :: uchar where "RPAREN \<equiv> 41"
abbreviation BAR :: uchar where "BAR \<equiv> 124"
abbreviation AT :: uchar where "AT \<equiv> 64"
abbreviation PLUS :: uchar where "PLUS \<equiv> 43"

definition lower :: "uchar \<Rightarrow> uchar" where
  "lower c = (if 65 \<le> c \<and> c \<le> 90 then c + 32 else c)"

text \<open>\<open>==\<close>, or \<open>eq_ignore_ascii_case\<close> in case-insensitive mode.\<close>

definition same_char :: "bool \<Rightarrow> uchar \<Rightarrow> uchar \<Rightarrow> bool" where
  "same_char nocase a b = (if nocase then lower a = lower b else a = b)"

definition peeks :: "uchar \<Rightarrow> rstr \<Rightarrow> bool" where
  "peeks c cs = (case cs of [] \<Rightarrow> False | x # _ \<Rightarrow> x = c)"

definition contains_glob_step :: "uchar \<Rightarrow> bool" where
  "contains_glob_step ch = (ch = STAR \<or> ch = QUEST \<or> ch = LBRACK)"

fun glob_chars_loop :: "bool \<Rightarrow> rstr \<Rightarrow> bool" where
  "glob_chars_loop escaped [] = False"
| "glob_chars_loop escaped (ch # chs) =
     (if escaped then glob_chars_loop False chs
      else if ch = BSL then glob_chars_loop True chs
      else if contains_glob_step ch then True
      else glob_chars_loop False chs)"

definition contains_glob_chars :: "rstr \<Rightarrow> bool" where
  "contains_glob_chars s = glob_chars_loop False s"

definition extglob_operator :: "uchar \<Rightarrow> bool" where
  "extglob_operator ch = (ch = AT \<or> ch = QUEST \<or> ch = STAR \<or> ch = PLUS \<or> ch = BANG)"

fun extglob_loop :: "bool \<Rightarrow> rstr \<Rightarrow> bool" where
  "extglob_loop escaped [] = False"
| "extglob_loop escaped (ch # chs) =
     (if escaped then extglob_loop False chs
      else if ch = BSL then extglob_loop True chs
      else if extglob_operator ch \<and> peeks LPAREN chs then True
      else extglob_loop False chs)"

definition contains_extglob :: "bool \<Rightarrow> rstr \<Rightarrow> bool" where
  "contains_extglob ext s = (ext \<and> extglob_loop False s)"

section \<open>Bracket expressions\<close>

definition expand_posix_class :: "rstr \<Rightarrow> rstr" where
  "expand_posix_class name =
     (if name = lit ''space'' then [32, 9, 10, 13, 11, 12]
      else if name = lit ''blank'' then [32, 9]
      else if name = lit ''digit'' then [48..<58]
      else if name = lit ''lower'' then [97..<123]
      else if name = lit ''upper'' then [65..<91]
      else if name = lit ''alpha'' then [97..<123] @ [65..<91]
      else if name = lit ''alnum'' then [97..<123] @ [65..<91] @ [48..<58]
      else if name = lit ''xdigit'' then [48..<58] @ [97..<103] @ [65..<71]
      else if name = lit ''punct'' then [33..<48] @ [58..<65] @ [91..<97] @ [123..<127]
      else if name = lit ''print'' then [32..<127]
      else if name = lit ''graph'' then [33..<127]
      else if name = lit ''cntrl'' then [0..<32] @ [127]
      else [])"

text \<open>The inner loop that reads a class name up to \<open>:]\<close>.\<close>

fun class_loop :: "rstr \<Rightarrow> rstr \<Rightarrow> (rstr \<times> rstr) option" where
  "class_loop [] name = None"
| "class_loop (c # cs) name =
     (if c = COLON \<and> peeks RBRACK cs then Some (name, tl cs) else class_loop cs (name @ [c]))"

lemma class_loop_length: "class_loop cs name = Some (n, rest) \<Longrightarrow> length rest < length cs"
  by (induction cs name rule: class_loop.induct) (auto split: if_splits)

definition class_hit :: "bool \<Rightarrow> uchar \<Rightarrow> rstr \<Rightarrow> bool" where
  "class_hit nocase v cls = list_ex (\<lambda>c. same_char nocase c v) cls"

definition range_hit :: "bool \<Rightarrow> uchar \<Rightarrow> uchar \<Rightarrow> uchar \<Rightarrow> bool" where
  "range_hit nocase v prev next =
     (let (start, end_char) = (if prev \<le> next then (prev, next) else (next, prev));
          probe = (if nocase then lower v else v);
          (start_cmp, end_cmp) = (if nocase then (lower start, lower end_char) else (start, end_char))
      in start_cmp \<le> probe \<and> probe \<le> end_cmp)"

text \<open>The main loop: \<open>matched\<close>, \<open>saw_class_char\<close> and \<open>prev_char\<close> as the code has them.\<close>

function bracket_loop :: "bool \<Rightarrow> uchar \<Rightarrow> rstr \<Rightarrow> bool \<Rightarrow> bool \<Rightarrow> uchar option \<Rightarrow> (bool \<times> rstr) option" where
  "bracket_loop nocase v [] matched saw prev = None"
| "bracket_loop nocase v (c # cs) matched saw prev =
     (if c = RBRACK then
        if saw then Some (matched, cs)
        else bracket_loop nocase v cs (matched \<or> same_char nocase RBRACK v) True (Some RBRACK)
      else if c = LBRACK \<and> peeks COLON cs then
        (case class_loop (tl cs) [] of
           None \<Rightarrow> None
         | Some (name, rest) \<Rightarrow>
             bracket_loop nocase v rest (matched \<or> class_hit nocase v (expand_posix_class name))
               (saw \<or> expand_posix_class name \<noteq> [])
               (if expand_posix_class name \<noteq> [] then Some (last (expand_posix_class name)) else prev))
      else if c = DASH \<and> saw then
        (case cs of
           [] \<Rightarrow> None
         | next # rest \<Rightarrow>
             if next = RBRACK then bracket_loop nocase v cs (matched \<or> same_char nocase DASH v) True (Some DASH)
             else (case prev of
                     Some p \<Rightarrow> bracket_loop nocase v rest (matched \<or> range_hit nocase v p next) True (Some next)
                   | None \<Rightarrow> bracket_loop nocase v rest matched saw prev))
      else bracket_loop nocase v cs (matched \<or> same_char nocase c v) True (Some c))"
  by pat_completeness auto
termination
  by (relation "measure (\<lambda>(nocase, v, cs, matched, saw, prev). length cs)")
    (auto dest!: class_loop_length simp: peeks_def split: list.splits)

definition match_bracket_expr :: "rstr \<Rightarrow> uchar \<Rightarrow> bool \<Rightarrow> (bool \<times> rstr) option" where
  "match_bracket_expr pattern v nocase =
     (let (negate, cs) = (if peeks BANG pattern \<or> peeks CARET pattern then (True, tl pattern) else (False, pattern))
      in case bracket_loop nocase v cs False False None of
           None \<Rightarrow> None
         | Some (matched, rest) \<Rightarrow> Some (if negate then \<not> matched else matched, rest))"

section \<open>The wildcard loop\<close>

text \<open>
  One turn of the loop of \<open>glob_match_impl\<close>. \<open>flag\<close> is \<open>no_more_bracket_closes\<close>; \<open>sub\<close> is the
  recursive call one level deeper, given a value and a pattern.
\<close>

datatype glob_next =
    Matched
  | Backtrack
  | Advance rstr rstr bool
  | NewStar rstr

definition try_sub :: "(rstr \<Rightarrow> rstr \<Rightarrow> bool) \<Rightarrow> rstr \<Rightarrow> rstr \<Rightarrow> glob_next" where
  "try_sub sub value pattern = (if sub value pattern then Matched else Backtrack)"

definition glob_step ::
  "bool \<Rightarrow> bool \<Rightarrow> (rstr \<Rightarrow> rstr \<Rightarrow> bool) \<Rightarrow> rstr \<Rightarrow> rstr \<Rightarrow> bool \<Rightarrow> glob_next" where
  "glob_step ext nocase sub pattern value flag =
     (case pattern of
        [] \<Rightarrow> (if value = [] then Matched else Backtrack)
      | c # cs \<Rightarrow>
          if c = BSL then
            (case value of
               [] \<Rightarrow> Backtrack
             | v # vs \<Rightarrow>
                 (let (literal, rest) = (case cs of [] \<Rightarrow> (BSL, []) | l # ls \<Rightarrow> (l, ls))
                  in if same_char nocase literal v then Advance rest vs flag else Backtrack))
          else if c = STAR then
            (if ext \<and> peeks LPAREN cs then try_sub sub value pattern
             else if cs = [] then Matched else NewStar cs)
          else if c = QUEST then
            (if ext \<and> peeks LPAREN cs then try_sub sub value pattern
             else case value of [] \<Rightarrow> Backtrack | v # vs \<Rightarrow> Advance cs vs flag)
          else if c = LBRACK then
            (case value of
               [] \<Rightarrow> Backtrack
             | v # vs \<Rightarrow>
                 if flag \<or> RBRACK \<notin> set pattern then (if v = LBRACK then Advance cs vs True else Backtrack)
                 else case match_bracket_expr cs (if nocase then lower v else v) nocase of
                        Some (m, rest) \<Rightarrow> if m then Advance rest vs flag else Backtrack
                      | None \<Rightarrow> if same_char nocase LBRACK v then Advance cs vs flag else Backtrack)
          else
            (case value of
               [] \<Rightarrow> Backtrack
             | v # vs \<Rightarrow>
                 if ext \<and> (c = AT \<or> c = PLUS \<or> c = BANG) \<and> peeks LPAREN cs then try_sub sub value pattern
                 else if same_char nocase c v then Advance cs vs flag else Backtrack))"

lemma bracket_loop_length:
  "bracket_loop nocase v cs matched saw prev = Some (m, rest) \<Longrightarrow> length rest < length cs"
  by (induction nocase v cs matched saw prev rule: bracket_loop.induct)
    (force split: if_splits option.splits list.splits dest: class_loop_length)+

lemma match_bracket_length:
  assumes "match_bracket_expr cs v nocase = Some (m, rest)"
  shows "length rest < length cs"
proof -
  define cs' where "cs' = (if peeks BANG cs \<or> peeks CARET cs then tl cs else cs)"
  obtain m' where "bracket_loop nocase v cs' False False None = Some (m', rest)"
    using assms by (auto simp: match_bracket_expr_def cs'_def Let_def split: if_splits option.splits)
  moreover have "length cs' \<le> length cs" by (simp add: cs'_def)
  ultimately show ?thesis using bracket_loop_length by fastforce
qed

lemma glob_step_Advance: "glob_step ext nocase sub p v flag = Advance p' v' flag' \<Longrightarrow> length p' < length p"
  by (auto simp: glob_step_def try_sub_def Let_def split: list.splits if_splits option.splits prod.splits
      dest!: match_bracket_length)

lemma glob_step_NewStar: "glob_step ext nocase sub p v flag = NewStar p' \<Longrightarrow> p = STAR # p'"
  by (auto simp: glob_step_def try_sub_def Let_def split: list.splits if_splits option.splits prod.splits)

text \<open>
  The loop: the restore point is the pattern after the last \<open>*\<close>, the value from where that \<open>*\<close>
  has consumed, and the flag of that moment. Backtracking lets the \<open>*\<close> take one more character.
\<close>

type_synonym restore_point = "(rstr \<times> rstr \<times> bool) option"

function glob_loop ::
  "bool \<Rightarrow> bool \<Rightarrow> (rstr \<Rightarrow> rstr \<Rightarrow> bool) \<Rightarrow> rstr \<Rightarrow> rstr \<Rightarrow> bool \<Rightarrow> restore_point \<Rightarrow> bool" where
  "glob_loop ext nocase sub p v flag star =
     (case glob_step ext nocase sub p v flag of
        Matched \<Rightarrow> True
      | Advance p' v' flag' \<Rightarrow> glob_loop ext nocase sub p' v' flag' star
      | NewStar p' \<Rightarrow> glob_loop ext nocase sub p' v flag (Some (p', v, flag))
      | Backtrack \<Rightarrow>
          (case star of
             Some (sp, c # sv, sflag) \<Rightarrow> glob_loop ext nocase sub sp sv sflag (Some (sp, sv, sflag))
           | _ \<Rightarrow> False))"
  by pat_completeness auto

definition star_length :: "restore_point \<Rightarrow> nat" where
  "star_length star = (case star of None \<Rightarrow> 0 | Some (sp, _) \<Rightarrow> length sp)"

definition star_value :: "restore_point \<Rightarrow> nat" where
  "star_value star = (case star of None \<Rightarrow> 0 | Some (_, sv, _) \<Rightarrow> length sv)"

termination glob_loop
  by (relation "measures [\<lambda>(_, _, _, p, _, _, star). max (star_length star) (length p),
      \<lambda>(_, _, _, _, _, _, star). star_value star, \<lambda>(_, _, _, p, _, _, _). length p]")
    (auto simp: star_length_def star_value_def max_def dest!: glob_step_Advance glob_step_NewStar)

declare glob_loop.simps [simp del]

section \<open>Extended patterns\<close>

text \<open>The pattern list up to its closing parenthesis, with escapes, and the rest of the pattern.\<close>

fun find_close :: "rstr \<Rightarrow> nat \<Rightarrow> rstr \<Rightarrow> (rstr \<times> rstr) option" where
  "find_close [] depth inner = None"
| "find_close (c # cs) depth inner =
     (if c = LPAREN then find_close cs (depth + 1) (inner @ [c])
      else if c = RPAREN then (if depth = 1 then Some (inner, cs) else find_close cs (depth - 1) (inner @ [c]))
      else if c = BSL then (case cs of [] \<Rightarrow> None | x # xs \<Rightarrow> find_close xs depth (inner @ [c, x]))
      else find_close cs depth (inner @ [c]))"

fun split_alts :: "rstr \<Rightarrow> rstr list \<Rightarrow> rstr \<Rightarrow> int \<Rightarrow> rstr list" where
  "split_alts [] alts current d = alts @ [current]"
| "split_alts (c # cs) alts current d =
     (if c = LPAREN then split_alts cs alts (current @ [c]) (d + 1)
      else if c = RPAREN then split_alts cs alts (current @ [c]) (d - 1)
      else if c = BAR \<and> d = 0 then split_alts cs (alts @ [current]) [] d
      else split_alts cs alts (current @ [c]) d)"

definition parse_extglob_pattern_list :: "rstr \<Rightarrow> (rstr list \<times> rstr) option" where
  "parse_extglob_pattern_list pattern =
     map_option (\<lambda>(inner, rest). (split_alts inner [] [] 0, rest)) (find_close pattern 1 [])"

fun join_bar :: "rstr list \<Rightarrow> rstr" where
  "join_bar [] = []"
| "join_bar [a] = a"
| "join_bar (a # as) = a @ BAR # join_bar as"

text \<open>Every split of the value after its first character, the end included.\<close>

definition split_points :: "rstr \<Rightarrow> nat list" where
  "split_points value = [1..<length value] @ [length value]"

text \<open>One or more alternatives: the body shared by \<open>+(...)\<close> and \<open>*(...)\<close>.\<close>

definition match_repeat :: "(rstr \<Rightarrow> rstr \<Rightarrow> bool) \<Rightarrow> uchar \<Rightarrow> rstr list \<Rightarrow> rstr \<Rightarrow> rstr \<Rightarrow> bool" where
  "match_repeat sub op alts rest value =
     list_ex (\<lambda>alt. sub value (alt @ rest) \<or>
        list_ex (\<lambda>i. sub (take i value) alt \<and>
            sub (drop i value) ([op, LPAREN] @ join_bar alts @ [RPAREN] @ rest)) (split_points value)) alts"

definition match_extglob :: "(rstr \<Rightarrow> rstr \<Rightarrow> bool) \<Rightarrow> uchar \<Rightarrow> rstr list \<Rightarrow> rstr \<Rightarrow> rstr \<Rightarrow> bool" where
  "match_extglob sub op alts rest value =
     (if op = AT then list_ex (\<lambda>alt. sub value (alt @ rest)) alts
      else if op = QUEST then sub value rest \<or> list_ex (\<lambda>alt. sub value (alt @ rest)) alts
      else if op = PLUS then match_repeat sub PLUS alts rest value
      else if op = STAR then sub value rest \<or> match_repeat sub STAR alts rest value
      else if op = BANG then
        (\<not> sub value ([AT, LPAREN] @ join_bar alts @ [RPAREN] @ rest) \<and> sub value rest) \<or>
        list_ex (\<lambda>i. \<not> list_ex (\<lambda>a. sub (take i value) a) alts \<and> sub (drop i value) rest) (split_points value)
      else False)"

text \<open>The test for an extended pattern at the start of \<open>glob_match_impl\<close>.\<close>

definition extglob_head :: "bool \<Rightarrow> rstr \<Rightarrow> (uchar \<times> rstr list \<times> rstr) option" where
  "extglob_head ext pattern =
     (case pattern of
        op # p # tail \<Rightarrow>
          if ext \<and> extglob_operator op \<and> p = LPAREN
          then map_option (\<lambda>(alts, rest). (op, alts, rest)) (parse_extglob_pattern_list tail)
          else None
      | _ \<Rightarrow> None)"

definition MAX_GLOB_DEPTH :: nat where "MAX_GLOB_DEPTH = 50"

fun glob_match_impl :: "nat \<Rightarrow> bool \<Rightarrow> bool \<Rightarrow> rstr \<Rightarrow> rstr \<Rightarrow> bool" where
  "glob_match_impl 0 ext nocase value pattern = False"
| "glob_match_impl (Suc levels) ext nocase value pattern =
     (case extglob_head ext pattern of
        Some (op, alts, rest) \<Rightarrow>
          (case levels of
             0 \<Rightarrow> False
           | Suc fewer \<Rightarrow> match_extglob (\<lambda>v p. glob_match_impl fewer ext nocase v p) op alts rest value)
      | None \<Rightarrow>
          glob_loop ext nocase (\<lambda>v p. glob_match_impl levels ext nocase v p)
            pattern value (RBRACK \<notin> set pattern) None)"

definition glob_match :: "bool \<Rightarrow> rstr \<Rightarrow> rstr \<Rightarrow> bool" where
  "glob_match ext value pattern = glob_match_impl MAX_GLOB_DEPTH ext False value pattern"

definition pattern_matches :: "bool \<Rightarrow> rstr \<Rightarrow> rstr \<Rightarrow> bool" where
  "pattern_matches ext value pattern =
     (if pattern = [STAR] then True
      else if contains_glob_chars pattern \<or> contains_extglob ext pattern then glob_match ext value pattern
      else value = pattern)"

section \<open>Quoted text in patterns\<close>

definition glob_meta :: "uchar \<Rightarrow> bool" where
  "glob_meta c = (c \<in> {92, 42, 63, 91, 93, 123, 125, 64, 33, 43, 40, 41, 124})"

text \<open>\<open>expansion.rs\<close>: a backslash before every metacharacter of a quoted segment.\<close>

fun quote_expansion_for_quoted_glob :: "rstr \<Rightarrow> rstr" where
  "quote_expansion_for_quoted_glob [] = []"
| "quote_expansion_for_quoted_glob (ch # chs) =
     (if glob_meta ch then [BSL, ch] else [ch]) @ quote_expansion_for_quoted_glob chs"

text \<open>Its inverse on path components.\<close>

fun glob_path_unescape :: "rstr \<Rightarrow> rstr" where
  "glob_path_unescape [] = []"
| "glob_path_unescape [ch] = [ch]"
| "glob_path_unescape (ch # nx # chs) =
     (if ch = BSL \<and> glob_meta nx then nx # glob_path_unescape chs
      else ch # glob_path_unescape (nx # chs))"

end
