(* ===== verification/GlobMatch.thy ===== *)
theory GlobMatch
  imports Glob
begin

text \<open>
  Pattern matching against a reference matcher. A pattern without extended operators is a list of
  tokens, each a star or a test on one character; the reference tries every extension of a star.
  The loop of the code keeps one restore point and a cached bracket flag; this theory shows that
  it decides the same relation.
\<close>

section \<open>Tokens and the reference matcher\<close>

datatype token = TStar | TOne "uchar \<Rightarrow> bool"

definition bracket_rest :: "bool \<Rightarrow> rstr \<Rightarrow> rstr" where
  "bracket_rest nocase cs = (case match_bracket_expr cs 0 nocase of Some (_, rest) \<Rightarrow> rest | None \<Rightarrow> cs)"

definition bracket_test :: "bool \<Rightarrow> rstr \<Rightarrow> uchar \<Rightarrow> bool" where
  "bracket_test nocase cs v =
     (case match_bracket_expr cs (if nocase then lower v else v) nocase of
        Some (m, _) \<Rightarrow> m
      | None \<Rightarrow> same_char nocase LBRACK v)"

lemma bracket_rest_length: "length (bracket_rest nocase cs) \<le> length cs"
  by (auto simp: bracket_rest_def split: option.splits dest!: match_bracket_length)

function tokens :: "bool \<Rightarrow> rstr \<Rightarrow> token list" where
  "tokens nocase [] = []"
| "tokens nocase (c # cs) =
     (if c = BSL then
        (case cs of
           [] \<Rightarrow> [TOne (same_char nocase BSL)]
         | l # ls \<Rightarrow> TOne (same_char nocase l) # tokens nocase ls)
      else if c = STAR then TStar # tokens nocase cs
      else if c = QUEST then TOne (\<lambda>_. True) # tokens nocase cs
      else if c = LBRACK then TOne (bracket_test nocase cs) # tokens nocase (bracket_rest nocase cs)
      else TOne (same_char nocase c) # tokens nocase cs)"
  by pat_completeness auto
termination
  by (relation "measure (\<lambda>(nocase, cs). length cs)") (auto simp: le_imp_less_Suc bracket_rest_length)

fun token_match :: "token list \<Rightarrow> rstr \<Rightarrow> bool" where
  "token_match [] v = (v = [])"
| "token_match (TOne f # ts) v = (case v of [] \<Rightarrow> False | c # cs \<Rightarrow> f c \<and> token_match ts cs)"
| "token_match (TStar # ts) v = list_ex (\<lambda>i. token_match ts (drop i v)) [0..<Suc (length v)]"

declare token_match.simps(3) [simp del]

lemma token_match_star: "token_match (TStar # ts) v \<longleftrightarrow> (\<exists>i \<le> length v. token_match ts (drop i v))"
  unfolding token_match.simps(3) list_ex_iff by (auto simp: less_Suc_eq_le simp del: upt_Suc)

lemma token_match_star_drop:
  assumes "token_match (TStar # ts) (drop j v)"
  shows "token_match (TStar # ts) v"
proof -
  obtain i where "i \<le> length v - j" "token_match ts (drop (i + j) v)"
    using assms by (auto simp: token_match_star)
  moreover have "drop (min (i + j) (length v)) v = drop (i + j) v" by (simp add: min_def)
  ultimately have "token_match ts (drop (min (i + j) (length v)) v)" by simp
  then show ?thesis unfolding token_match_star by (intro exI [of _ "min (i + j) (length v)"]) simp
qed

text \<open>A run of one-character tokens before a star consumes exactly its length.\<close>

lemma token_match_prefix:
  "\<forall>t \<in> set pre. t \<noteq> TStar \<Longrightarrow> token_match (pre @ TStar # ts) x \<Longrightarrow>
   token_match (TStar # ts) (drop (length pre) x)"
proof (induction pre arbitrary: x)
  case (Cons t pre)
  then show ?case by (cases t; cases x) auto
qed simp

section \<open>Bracket expressions do not depend on the value for their extent\<close>

lemma in_set_tl: "x \<in> set (tl xs) \<Longrightarrow> x \<in> set xs"
  by (cases xs) auto

lemma class_loop_set: "class_loop cs name = Some (n, rest) \<Longrightarrow> set rest \<subseteq> set cs"
  by (induction cs name rule: class_loop.induct) (auto split: if_splits dest: in_set_tl)

text \<open>
  A turn of the loop refuses, closes the expression, or goes on with a suffix after adding one test
  on the value: which of the three, and the new state, do not depend on the value.
\<close>

lemma bracket_turn:
  obtains (refuse) "\<And>v m. bracket_loop nocase v (c # cs) m saw prev = None"
  | (closed) "c = RBRACK" "\<And>v m. bracket_loop nocase v (c # cs) m saw prev = Some (m, cs)"
  | (turn) cs' test saw' prev' where "length cs' \<le> length cs" "set cs' \<subseteq> set cs"
      "\<And>v m. bracket_loop nocase v (c # cs) m saw prev = bracket_loop nocase v cs' (m \<or> test v) saw' prev'"
proof -
  consider "c = RBRACK" saw | "c = RBRACK" "\<not> saw" | "c = LBRACK" "peeks COLON cs" "class_loop (tl cs) [] = None"
    | name rest where "c = LBRACK" "peeks COLON cs" "class_loop (tl cs) [] = Some (name, rest)"
    | "c \<noteq> RBRACK" "\<not> (c = LBRACK \<and> peeks COLON cs)" "c = DASH" saw "cs = []"
    | nx rest where "c \<noteq> RBRACK" "\<not> (c = LBRACK \<and> peeks COLON cs)" "c = DASH" saw "cs = nx # rest"
    | "c \<noteq> RBRACK" "\<not> (c = LBRACK \<and> peeks COLON cs)" "\<not> (c = DASH \<and> saw)"
    by (cases "class_loop (tl cs) []"; cases cs) auto
  then show thesis
  proof cases
    case 2
    then show thesis by (intro turn [of cs "same_char nocase RBRACK" True "Some RBRACK"]) simp_all
  next
    case (4 name rest)
    then have "length rest \<le> length cs" "set rest \<subseteq> set cs"
      using class_loop_length [of "tl cs"] class_loop_set [of "tl cs"] by (fastforce dest: in_set_tl)+
    then show thesis
      using 4 by (intro turn [of rest "\<lambda>v. class_hit nocase v (expand_posix_class name)"]) simp_all
  next
    case (6 n rest)
    show thesis
    proof (cases "n = RBRACK")
      case True
      then show thesis using 6 by (intro turn [of cs "same_char nocase DASH" True "Some DASH"]) simp_all
    next
      case False
      then show thesis
      proof (cases prev)
        case None
        then show thesis using 6 False by (intro turn [of rest "\<lambda>_. False" saw prev]) auto
      next
        case (Some p)
        then show thesis using 6 False by (intro turn [of rest "\<lambda>v. range_hit nocase v p n" True "Some n"]) auto
      qed
    qed
  next
    case 7
    then show thesis by (intro turn [of cs "same_char nocase c" True "Some c"]) auto
  qed (auto intro: refuse closed)
qed

declare bracket_loop.simps(2) [simp del]

lemma bracket_loop_extent:
  "map_option snd (bracket_loop nocase v cs m saw prev) = map_option snd (bracket_loop nocase w cs m' saw prev)"
proof (induction cs arbitrary: m m' saw prev rule: length_induct)
  case (1 xs)
  show ?case
  proof (cases xs)
    case (Cons c cs)
    show ?thesis
      by (rule bracket_turn [of nocase c cs saw prev]) (use 1 Cons in \<open>auto simp: le_imp_less_Suc\<close>)
  qed simp
qed

lemma match_bracket_extent:
  "map_option snd (match_bracket_expr cs v nocase) = map_option snd (match_bracket_expr cs w nocase)"
proof -
  define cs' where "cs' = (if peeks BANG cs \<or> peeks CARET cs then tl cs else cs)"
  have "map_option snd (match_bracket_expr cs u nocase) = map_option snd (bracket_loop nocase u cs' False False None)" for u
    by (auto simp: match_bracket_expr_def cs'_def Let_def split: option.splits)
  then show ?thesis using bracket_loop_extent by metis
qed

lemma bracket_loop_closes: "bracket_loop nocase v cs m saw prev \<noteq> None \<Longrightarrow> RBRACK \<in> set cs"
proof (induction cs arbitrary: m saw prev rule: length_induct)
  case (1 xs)
  show ?case
  proof (cases xs)
    case Nil
    then show ?thesis using 1 by simp
  next
    case (Cons c cs)
    show ?thesis
    proof (rule bracket_turn [of nocase c cs saw prev])
      fix cs' test saw' prev'
      assume t: "length cs' \<le> length cs" "set cs' \<subseteq> set cs"
        "\<And>v m. bracket_loop nocase v (c # cs) m saw prev = bracket_loop nocase v cs' (m \<or> test v) saw' prev'"
      have "bracket_loop nocase v cs' (m \<or> test v) saw' prev' \<noteq> None" using 1(2) Cons t(3) by simp
      then have "RBRACK \<in> set cs'" using 1(1) t(1) Cons by (metis le_imp_less_Suc length_Cons)
      then show ?thesis using t(2) Cons by auto
    qed (use 1(2) Cons in auto)
  qed
qed

lemma bracket_loop_set: "bracket_loop nocase v cs m saw prev = Some (r, rest) \<Longrightarrow> set rest \<subseteq> set cs"
proof (induction cs arbitrary: m saw prev rule: length_induct)
  case (1 xs)
  show ?case
  proof (cases xs)
    case Nil
    then show ?thesis using 1 by simp
  next
    case (Cons c cs)
    show ?thesis
    proof (rule bracket_turn [of nocase c cs saw prev])
      fix cs' test saw' prev'
      assume t: "length cs' \<le> length cs" "set cs' \<subseteq> set cs"
        "\<And>v m. bracket_loop nocase v (c # cs) m saw prev = bracket_loop nocase v cs' (m \<or> test v) saw' prev'"
      have "bracket_loop nocase v cs' (m \<or> test v) saw' prev' = Some (r, rest)" using 1(2) Cons t(3) by simp
      then have "set rest \<subseteq> set cs'" using 1(1) t(1) Cons by (metis le_imp_less_Suc length_Cons)
      then show ?thesis using t(2) Cons by auto
    qed (use 1(2) Cons in auto)
  qed
qed

lemma match_bracket_set: "match_bracket_expr cs v nocase = Some (r, rest) \<Longrightarrow> set rest \<subseteq> set cs"
  by (auto simp: match_bracket_expr_def Let_def split: if_splits option.splits
      dest!: bracket_loop_set dest: in_set_tl)

lemma match_bracket_closes: "match_bracket_expr cs v nocase \<noteq> None \<Longrightarrow> RBRACK \<in> set cs"
  by (auto simp: match_bracket_expr_def Let_def split: if_splits option.splits
      dest!: option.discI [THEN bracket_loop_closes] in_set_tl)

lemma same_char_lbrack [simp]: "same_char nocase LBRACK v \<longleftrightarrow> v = LBRACK"
  by (auto simp: same_char_def lower_def)

lemma bracket_open:
  assumes "RBRACK \<notin> set cs"
  shows "bracket_rest nocase cs = cs" "bracket_test nocase cs v \<longleftrightarrow> v = LBRACK"
proof -
  have "match_bracket_expr cs u nocase = None" for u using match_bracket_closes assms by blast
  then show "bracket_rest nocase cs = cs" "bracket_test nocase cs v \<longleftrightarrow> v = LBRACK"
    by (simp_all add: bracket_rest_def bracket_test_def)
qed

lemma bracket_rest_eq:
  "bracket_rest nocase cs = (case match_bracket_expr cs v nocase of Some (_, rest) \<Rightarrow> rest | None \<Rightarrow> cs)"
  using match_bracket_extent [of cs 0 nocase v]
  by (auto simp: bracket_rest_def split: option.splits)

section \<open>The loop decides the reference relation\<close>

text \<open>What one turn does, read off the first token of the pattern.\<close>

lemma glob_step_tokens:
  assumes "flag \<longrightarrow> RBRACK \<notin> set p"
  shows "case tokens nocase p of
      [] \<Rightarrow> glob_step False nocase sub p v flag = (if v = [] then Matched else Backtrack)
    | TStar # ts \<Rightarrow> (\<exists>p'. p = STAR # p' \<and> tokens nocase p' = ts \<and>
        glob_step False nocase sub p v flag = (if p' = [] then Matched else NewStar p'))
    | TOne f # ts \<Rightarrow>
        (case v of
           [] \<Rightarrow> glob_step False nocase sub p v flag = Backtrack
         | x # xs \<Rightarrow>
             if f x then \<exists>p' flag'. glob_step False nocase sub p v flag = Advance p' xs flag' \<and>
               tokens nocase p' = ts \<and> (flag' \<longrightarrow> RBRACK \<notin> set p')
             else glob_step False nocase sub p v flag = Backtrack)"
proof (cases p)
  case (Cons c cs)
  consider "c = BSL" | "c = STAR" | "c = QUEST" | "c = LBRACK" "flag \<or> RBRACK \<notin> set cs"
    | "c = LBRACK" "\<not> flag" "RBRACK \<in> set cs" | "c \<notin> {BSL, STAR, QUEST, LBRACK}"
    by blast
  then show ?thesis
  proof cases
    case 4
    with assms Cons have "RBRACK \<notin> set cs" by auto
    with 4 Cons show ?thesis by (auto simp: glob_step_def bracket_open split: list.split)
  next
    case 5
    show ?thesis
    proof (cases v)
      case Nil
      with 5 Cons show ?thesis by (simp add: glob_step_def)
    next
      case v: (Cons x xs)
      define m where "m = match_bracket_expr cs (if nocase then lower x else x) nocase"
      have "bracket_rest nocase cs = (case m of Some (_, rest) \<Rightarrow> rest | None \<Rightarrow> cs)"
        unfolding m_def by (rule bracket_rest_eq)
      moreover have "bracket_test nocase cs x = (case m of Some (b, _) \<Rightarrow> b | None \<Rightarrow> x = LBRACK)"
        by (simp add: m_def bracket_test_def split: option.split)
      moreover have "glob_step False nocase sub p v flag = (case m of
          Some (b, rest) \<Rightarrow> if b then Advance rest xs flag else Backtrack
        | None \<Rightarrow> if x = LBRACK then Advance cs xs flag else Backtrack)"
        using 5 unfolding m_def by (auto simp: Cons v glob_step_def split: option.split)
      ultimately show ?thesis
        using 5 by (cases m) (auto simp: Cons v split: prod.split)
    qed
  qed (use assms Cons in \<open>auto simp: glob_step_def Let_def split: list.split\<close>)
qed (simp add: glob_step_def)

definition star_invariant :: "bool \<Rightarrow> rstr \<Rightarrow> rstr \<Rightarrow> restore_point \<Rightarrow> bool" where
  "star_invariant nocase p v star =
     (case star of
        None \<Rightarrow> True
      | Some (sp, sv, sflag) \<Rightarrow>
          (sflag \<longrightarrow> RBRACK \<notin> set sp) \<and>
          (\<exists>pre. tokens nocase sp = pre @ tokens nocase p \<and> TStar \<notin> set pre \<and> v = drop (length pre) sv))"

definition star_offers :: "bool \<Rightarrow> restore_point \<Rightarrow> bool" where
  "star_offers nocase star =
     (case star of
        None \<Rightarrow> False
      | Some (sp, sv, _) \<Rightarrow> \<exists>j > 0. j \<le> length sv \<and> token_match (tokens nocase sp) (drop j sv))"

text \<open>A star that comes later makes the choices of the earlier one redundant.\<close>

lemma later_star:
  assumes "star_invariant nocase (STAR # p') v star" and "star_offers nocase star"
  shows "token_match (TStar # tokens nocase p') v"
proof -
  obtain sp sv sflag pre j where st: "star = Some (sp, sv, sflag)"
    "tokens nocase sp = pre @ TStar # tokens nocase p'" "TStar \<notin> set pre" "v = drop (length pre) sv"
    and j: "token_match (tokens nocase sp) (drop j sv)"
    using assms by (fastforce simp: star_invariant_def star_offers_def split: option.splits)
  have "\<forall>t \<in> set pre. t \<noteq> TStar" using st(3) by blast
  then have "token_match (TStar # tokens nocase p') (drop (length pre) (drop j sv))"
    using j unfolding st(2) by (rule token_match_prefix)
  then have "token_match (TStar # tokens nocase p') (drop j v)" by (simp add: st(4) add.commute)
  then show ?thesis by (rule token_match_star_drop)
qed

lemma drop_Cons_eq: "x # xs = drop n ys \<Longrightarrow> xs = drop (Suc n) ys"
  by (metis drop_Suc list.sel(3) tl_drop)

lemma glob_loop_tokens:
  "flag \<longrightarrow> RBRACK \<notin> set p \<Longrightarrow> star_invariant nocase p v star \<Longrightarrow>
   glob_loop False nocase sub p v flag star \<longleftrightarrow> token_match (tokens nocase p) v \<or> star_offers nocase star"
proof (induction "False" nocase sub p v flag star rule: glob_loop.induct)
  case (1 nocase sub p v flag star)
  note IH_back = "1.hyps"(1) and IH_advance = "1.hyps"(2) and IH_star = "1.hyps"(3)
  note flag = "1.prems"(1) and inv = "1.prems"(2)
  note step = glob_step_tokens [OF flag, of nocase sub v]
  have on_back: ?case
    if bt: "glob_step False nocase sub p v flag = Backtrack" and no: "\<not> token_match (tokens nocase p) v"
  proof (cases star)
    case None
    then show ?thesis using bt no by (simp add: glob_loop.simps [of _ _ _ p] star_offers_def)
  next
    case (Some s)
    obtain sp sv sflag where s: "star = Some (sp, sv, sflag)" using Some by (cases s) auto
    show ?thesis
    proof (cases sv)
      case Nil
      then show ?thesis using bt no s by (simp add: glob_loop.simps [of _ _ _ p] star_offers_def)
    next
      case (Cons x xs)
      have "glob_loop False nocase sub sp xs sflag (Some (sp, xs, sflag)) \<longleftrightarrow>
          token_match (tokens nocase sp) xs \<or> star_offers nocase (Some (sp, xs, sflag))"
        using IH_back [OF bt s refl refl Cons] inv s by (simp add: star_invariant_def)
      moreover have "(token_match (tokens nocase sp) xs \<or> star_offers nocase (Some (sp, xs, sflag))) \<longleftrightarrow>
          star_offers nocase star"
        unfolding s Cons star_offers_def by (auto simp: gr0_conv_Suc) (metis Suc_le_mono drop_0 le0 not0_implies_Suc drop_Suc_Cons)
      ultimately show ?thesis using bt no s Cons by (simp add: glob_loop.simps [of _ _ _ p])
    qed
  qed
  show ?case
  proof (cases "tokens nocase p")
    case Nil
    then show ?thesis
      using step on_back by (cases "v = []") (simp_all add: glob_loop.simps [of _ _ _ p])
  next
    case (Cons t ts)
    show ?thesis
    proof (cases t)
      case TStar
      then obtain p' where p': "p = STAR # p'" "tokens nocase p' = ts"
        "glob_step False nocase sub p v flag = (if p' = [] then Matched else NewStar p')"
        using step Cons by auto
      have red: "star_offers nocase star \<Longrightarrow> token_match (TStar # ts) v"
        using later_star [of nocase p' v star] inv p'(1,2) by simp
      show ?thesis
      proof (cases "p' = []")
        case True
        then have "token_match (TStar # ts) v" using p'(2) by (auto simp: token_match_star)
        then show ?thesis using True p' by (subst glob_loop.simps) (simp add: TStar)
      next
        case False
        have "star_invariant nocase p' v (Some (p', v, flag))"
          using flag p'(1) by (auto simp: star_invariant_def)
        then have "glob_loop False nocase sub p' v flag (Some (p', v, flag)) \<longleftrightarrow>
            token_match ts v \<or> star_offers nocase (Some (p', v, flag))"
          using IH_star [of p'] p' flag False by simp
        also have "\<dots> \<longleftrightarrow> token_match (TStar # ts) v"
          unfolding token_match_star star_offers_def using p'(2)
          by auto (metis drop_0 gr0I le0)+
        finally show ?thesis using p'(3) False red by (subst glob_loop.simps) (auto simp: Cons TStar)
      qed
    next
      case (TOne f)
      show ?thesis
      proof (cases v)
        case Nil
        then show ?thesis using on_back step Cons TOne by simp
      next
        case v: (Cons x xs)
        show ?thesis
        proof (cases "f x")
          case False
          then show ?thesis using on_back step Cons TOne v by simp
        next
          case True
          then obtain p' flag' where p': "glob_step False nocase sub p v flag = Advance p' xs flag'"
            "tokens nocase p' = ts" "flag' \<longrightarrow> RBRACK \<notin> set p'"
            using step Cons TOne v by auto
          have "star_invariant nocase p' xs star"
            using inv p'(2) Cons TOne v unfolding star_invariant_def
            by (auto split: option.splits intro!: exI [of _ "_ @ [TOne f]"] dest!: drop_Cons_eq)
          then have "glob_loop False nocase sub p' xs flag' star \<longleftrightarrow> token_match ts xs \<or> star_offers nocase star"
            using IH_advance [OF p'(1)] p'(2,3) by simp
          then show ?thesis using p' True by (simp add: glob_loop.simps [of _ _ _ p] Cons TOne v)
        qed
      qed
    qed
  qed
qed

text \<open>
  Property C33: the wildcard loop is correct. With extended patterns off, and at any depth above the
  limit, \<open>glob_match_impl\<close> accepts exactly what the reference matcher accepts on the tokens of the
  pattern. One restore point is enough (TM-DOS-031), and the cached \<open>no_more_bracket_closes\<close> flag
  (TM-DOS-039) never changes the answer.
\<close>

theorem glob_match_reference:
  "glob_match_impl (Suc levels) False nocase value pattern = token_match (tokens nocase pattern) value"
proof -
  have "extglob_head False pattern = None" by (simp add: extglob_head_def split: list.split)
  then show ?thesis by (simp add: glob_loop_tokens star_invariant_def star_offers_def)
qed

section \<open>Bracket expressions\<close>

text \<open>Items of a bracket expression: single characters and ranges, of unreserved characters.\<close>

datatype bracket_item = Single uchar | Range uchar uchar

definition unreserved :: "uchar \<Rightarrow> bool" where
  "unreserved c \<longleftrightarrow> c \<notin> {RBRACK, LBRACK, DASH, BANG, CARET}"

fun item_text :: "bracket_item \<Rightarrow> rstr" where
  "item_text (Single c) = [c]"
| "item_text (Range a b) = [a, DASH, b]"

fun item_ok :: "bracket_item \<Rightarrow> bool" where
  "item_ok (Single c) = unreserved c"
| "item_ok (Range a b) = (unreserved a \<and> unreserved b)"

fun item_hit :: "uchar \<Rightarrow> bracket_item \<Rightarrow> bool" where
  "item_hit v (Single c) = (v = c)"
| "item_hit v (Range a b) = (min a b \<le> v \<and> v \<le> max a b)"

lemma bracket_loop_items:
  "list_all item_ok items \<Longrightarrow> saw \<or> items \<noteq> [] \<Longrightarrow>
   bracket_loop False v (concat (map item_text items) @ RBRACK # rest) m saw prev =
     Some (m \<or> list_ex (item_hit v) items, rest)"
proof (induction items arbitrary: m saw prev)
  case (Cons i items)
  show ?case
  proof (cases i)
    case (Single c)
    then show ?thesis
      using Cons.prems Cons.IH [of True]
      by (auto simp: unreserved_def bracket_loop.simps(2) [of _ _ c] same_char_def)
  next
    case (Range a b)
    have "range_hit False v a b \<longleftrightarrow> min a b \<le> v \<and> v \<le> max a b"
      by (auto simp: range_hit_def)
    moreover have "v = a \<longrightarrow> min a b \<le> v \<and> v \<le> max a b" by simp
    ultimately show ?thesis
      using Range Cons.prems Cons.IH [of True]
      by (auto simp: unreserved_def bracket_loop.simps(2) [of _ _ a] bracket_loop.simps(2) [of _ _ DASH] same_char_def)
  qed
qed (simp add: bracket_loop.simps(2))

lemma match_bracket_items:
  assumes "list_all item_ok items" and "items \<noteq> []"
  shows "match_bracket_expr ((if negated then [BANG] else []) @ concat (map item_text items) @ RBRACK # rest) v False =
     Some (negated \<noteq> list_ex (item_hit v) items, rest)"
proof -
  obtain c cs where c: "concat (map item_text items) = c # cs" "unreserved c"
    using assms by (cases items; cases "hd items") auto
  then have "\<not> peeks BANG (c # cs @ RBRACK # rest) \<and> \<not> peeks CARET (c # cs @ RBRACK # rest)"
    by (auto simp: peeks_def unreserved_def)
  then show ?thesis
    using bracket_loop_items [OF assms(1) disjI2 [OF assms(2)], of v rest False False None] c(1)
    by (auto simp: match_bracket_expr_def peeks_def)
qed

text \<open>
  A bracket expression matches one character that is one of its items, or none of them
  when it is negated, and the rest of the pattern goes on behind it. Ranges may be written in either
  order.
\<close>

theorem bracket_expression_exact:
  assumes "list_all item_ok items" and "items \<noteq> []"
  shows "glob_match False value
      (LBRACK # (if negated then [BANG] else []) @ concat (map item_text items) @ RBRACK # pattern) \<longleftrightarrow>
    (case value of
       [] \<Rightarrow> False
     | v # vs \<Rightarrow> (negated \<noteq> list_ex (item_hit v) items) \<and> glob_match False vs pattern)"
proof -
  let ?cs = "(if negated then [BANG] else []) @ concat (map item_text items) @ RBRACK # pattern"
  have depth: "MAX_GLOB_DEPTH = Suc 49" by (simp add: MAX_GLOB_DEPTH_def)
  have "tokens False (LBRACK # ?cs) = TOne (bracket_test False ?cs) # tokens False (bracket_rest False ?cs)"
    by simp
  also have "bracket_rest False ?cs = pattern"
    by (simp only: bracket_rest_def match_bracket_items [OF assms] option.case prod.case)
  finally show ?thesis
    unfolding glob_match_def depth glob_match_reference
    by (simp only: token_match.simps) (simp only: bracket_test_def match_bracket_items [OF assms] option.case prod.case if_False)
qed

end
