(* ===== verification/GlobExt.thy ===== *)
theory GlobExt
  imports GlobMatch
begin

text \<open>
  Quoted text in patterns and extended patterns: what they accept where they are correct, and the
  two places where \<open>match_extglob\<close> departs from the shell.
\<close>

section \<open>Quoted text\<close>

lemma max_levels: "MAX_GLOB_DEPTH = Suc 49"
  by (simp add: MAX_GLOB_DEPTH_def)

lemma glob_step_quoted:
  "glob_step ext False sub (quote_expansion_for_quoted_glob (c # s) @ p) v flag =
     (case v of [] \<Rightarrow> Backtrack
      | x # xs \<Rightarrow> if x = c then Advance (quote_expansion_for_quoted_glob s @ p) xs flag else Backtrack)"
  by (auto simp: glob_step_def glob_meta_def same_char_def split: list.split)

lemma glob_loop_quoted:
  "glob_loop ext False sub (quote_expansion_for_quoted_glob s @ p) v flag None \<longleftrightarrow>
   (\<exists>w. v = s @ w \<and> glob_loop ext False sub p w flag None)"
proof (induction s arbitrary: v)
  case (Cons c s)
  show ?case
    by (subst glob_loop.simps, subst glob_step_quoted) (auto simp: Cons.IH split: list.split)
qed simp

lemma extglob_head_quoted: "extglob_head ext (quote_expansion_for_quoted_glob (c # s) @ p) = None"
  if "\<not> (s = [] \<and> peeks LPAREN p \<and> extglob_operator c)" "s \<noteq> [] \<or> \<not> peeks LPAREN p"
  using that by (auto simp: extglob_head_def glob_meta_def extglob_operator_def peeks_def split: list.split)

lemma glob_path_unescape_meta:
  "glob_path_unescape (quote_expansion_for_quoted_glob s) = s"
proof (induction s)
  case (Cons c s)
  show ?case
  proof (cases "glob_meta c")
    case False
    then have "c \<noteq> BSL" by (auto simp: glob_meta_def)
    with Cons False show ?thesis by (cases "quote_expansion_for_quoted_glob s") auto
  qed (use Cons in simp)
qed simp

lemma glob_match_impl_loop:
  "extglob_head ext p = None \<Longrightarrow>
   glob_match_impl (Suc levels) ext nocase v p =
     glob_loop ext nocase (\<lambda>v p. glob_match_impl levels ext nocase v p) p v (RBRACK \<notin> set p) None"
  by (simp only: glob_match_impl.simps(2) option.case)

lemma quoted_levels:
  "glob_match_impl (Suc levels) ext False v (quote_expansion_for_quoted_glob s) \<longleftrightarrow> v = s"
  "glob_match_impl (Suc levels) ext False v (quote_expansion_for_quoted_glob s @ [STAR]) \<longleftrightarrow> prefix s v"
proof -
  have head: "extglob_head ext (quote_expansion_for_quoted_glob s @ p) = None" if "p = [] \<or> p = [STAR]" for p
  proof (cases s)
    case Nil
    with that show ?thesis by (auto simp: extglob_head_def)
  next
    case (Cons c cs)
    with that show ?thesis by (simp only:) (rule extglob_head_quoted; auto simp: peeks_def)
  qed
  have loop: "glob_loop ext False sub [] w flag None \<longleftrightarrow> w = []"
    "glob_loop ext False sub [STAR] w flag None" for sub w flag
    by (subst glob_loop.simps, simp add: glob_step_def peeks_def)+
  show "glob_match_impl (Suc levels) ext False v (quote_expansion_for_quoted_glob s) \<longleftrightarrow> v = s"
    using glob_match_impl_loop [OF head [of "[]"], of levels False v] glob_loop_quoted [where p = "[]"] loop(1)
    by (simp del: glob_match_impl.simps)
  show "glob_match_impl (Suc levels) ext False v (quote_expansion_for_quoted_glob s @ [STAR]) \<longleftrightarrow> prefix s v"
    using glob_match_impl_loop [OF head [of "[STAR]"], of levels False v] glob_loop_quoted [where p = "[STAR]"] loop(2)
    by (simp add: prefix_def del: glob_match_impl.simps)
qed

text \<open>
  Property C34: quoting makes text literal (TM-INF-022). Whatever characters a quoted expansion
  contains, and with extended patterns on or off, its quoted form matches only the text itself, in
  front of an unquoted star it matches the words that begin with the text, and removing the escapes
  for a directory lookup gives the text back.
\<close>

theorem quoted_text_is_literal:
  "(glob_match ext v (quote_expansion_for_quoted_glob s) \<longleftrightarrow> v = s) \<and>
   (glob_match ext v (quote_expansion_for_quoted_glob s @ [STAR]) \<longleftrightarrow> prefix s v) \<and>
   glob_path_unescape (quote_expansion_for_quoted_glob s) = s"
  unfolding glob_match_def max_levels by (intro conjI quoted_levels glob_path_unescape_meta)

section \<open>Extended patterns over literal alternatives\<close>

definition literal_text :: "rstr \<Rightarrow> bool" where
  "literal_text s = list_all (\<lambda>c. \<not> glob_meta c) s"

lemma quote_literal: "literal_text s \<Longrightarrow> quote_expansion_for_quoted_glob s = s"
  by (induction s) (auto simp: literal_text_def)

lemma glob_match_impl_literal:
  "literal_text s \<Longrightarrow> glob_match_impl (Suc levels) ext False v s \<longleftrightarrow> v = s"
  "literal_text s \<Longrightarrow> glob_match_impl (Suc levels) ext False v (s @ [STAR]) \<longleftrightarrow> prefix s v"
  using quoted_levels [of levels ext v s] by (simp_all only: quote_literal)

lemma find_close_literal:
  "literal_text s \<Longrightarrow> find_close (s @ p) d inner = find_close p d (inner @ s)"
  by (induction s arbitrary: inner) (auto simp: literal_text_def glob_meta_def)

lemma split_alts_literal:
  "literal_text s \<Longrightarrow> split_alts (s @ p) alts cur 0 = split_alts p alts (cur @ s) 0"
  by (induction s arbitrary: cur) (auto simp: literal_text_def glob_meta_def)

lemma find_close_alts:
  "list_all literal_text alts \<Longrightarrow> find_close (join_bar alts @ p) d inner = find_close p d (inner @ join_bar alts)"
  by (induction alts arbitrary: inner rule: join_bar.induct) (auto simp: find_close_literal)

lemma split_alts_join:
  "list_all literal_text alts \<Longrightarrow> alts \<noteq> [] \<Longrightarrow>
   split_alts (join_bar alts) done_alts cur 0 = done_alts @ (cur @ hd alts) # tl alts"
proof (induction alts arbitrary: done_alts cur rule: join_bar.induct)
  case (2 a)
  then show ?case using split_alts_literal [of a "[]"] by simp
qed (auto simp: split_alts_literal)

lemma extglob_head_alts:
  assumes "list_all literal_text alts" and "alts \<noteq> []" and "extglob_operator op"
  shows "extglob_head True (op # LPAREN # join_bar alts @ RPAREN # p) = Some (op, alts, p)"
  using assms by (simp add: extglob_head_def parse_extglob_pattern_list_def find_close_alts split_alts_join)

lemma glob_match_impl_ext:
  "extglob_head True p = Some (op, alts, rest) \<Longrightarrow>
   glob_match_impl (Suc (Suc levels)) True nocase v p =
     match_extglob (\<lambda>v p. glob_match_impl levels True nocase v p) op alts rest v"
  by (simp only: glob_match_impl.simps(2) option.case prod.case nat.case)

lemma literal_Nil [simp]: "literal_text []"
  by (simp add: literal_text_def)

lemma list_ex_eq: "list_ex (\<lambda>a. v = a) as \<longleftrightarrow> v \<in> set as"
  by (auto simp: list_ex_iff)

lemma split_points_end: "list_ex (\<lambda>i. P i \<and> drop i v = []) (split_points v) \<longleftrightarrow> P (length v)"
  by (auto simp: split_points_def list_ex_iff)

lemma match_extglob_literal:
  assumes sub: "\<And>w a. literal_text a \<Longrightarrow> sub w a \<longleftrightarrow> w = a" and lits: "list_all literal_text alts"
  shows "match_extglob sub AT alts [] v \<longleftrightarrow> v \<in> set alts"
    and "match_extglob sub QUEST alts [] v \<longleftrightarrow> v = [] \<or> v \<in> set alts"
    and "sub v (AT # LPAREN # join_bar alts @ [RPAREN]) = (v \<in> set alts) \<Longrightarrow>
         match_extglob sub BANG alts [] v \<longleftrightarrow> v \<notin> set alts"
proof -
  have alt: "list_ex (sub w) alts \<longleftrightarrow> w \<in> set alts" for w
    using lits by (induction alts) (auto simp: sub)
  then show "match_extglob sub AT alts [] v \<longleftrightarrow> v \<in> set alts"
    "match_extglob sub QUEST alts [] v \<longleftrightarrow> v = [] \<or> v \<in> set alts"
    by (simp_all add: match_extglob_def sub)
  show "match_extglob sub BANG alts [] v \<longleftrightarrow> v \<notin> set alts"
    if "sub v (AT # LPAREN # join_bar alts @ [RPAREN]) = (v \<in> set alts)"
    using that split_points_end [of "\<lambda>i. take i v \<notin> set alts" v]
    by (simp add: match_extglob_def alt sub) blast
qed

lemma match_extglob_levels:
  assumes "list_all literal_text alts" and "alts \<noteq> []" and "extglob_operator op"
  shows "glob_match_impl (Suc (Suc levels)) True False v (op # LPAREN # join_bar alts @ [RPAREN]) =
    match_extglob (\<lambda>v p. glob_match_impl levels True False v p) op alts [] v"
  using extglob_head_alts [OF assms, of "[]"] by (rule glob_match_impl_ext)

text \<open>
  Over literal alternatives the extended patterns mean what they should: \<open>@(...)\<close>
  accepts exactly the alternatives, \<open>?(...)\<close> also the empty word, and \<open>!(...)\<close> exactly the other
  words.
\<close>

theorem extglob_alternatives:
  assumes "list_all literal_text alts" and "alts \<noteq> []"
  shows "(glob_match True v (AT # LPAREN # join_bar alts @ [RPAREN]) \<longleftrightarrow> v \<in> set alts) \<and>
    (glob_match True v (QUEST # LPAREN # join_bar alts @ [RPAREN]) \<longleftrightarrow> v = [] \<or> v \<in> set alts) \<and>
    (glob_match True v (BANG # LPAREN # join_bar alts @ [RPAREN]) \<longleftrightarrow> v \<notin> set alts)"
proof -
  have depth: "MAX_GLOB_DEPTH = Suc (Suc (Suc (Suc (Suc 45))))" by (simp add: MAX_GLOB_DEPTH_def)
  have lits: "\<And>l w a. literal_text a \<Longrightarrow> glob_match_impl (Suc l) True False w a \<longleftrightarrow> w = a"
    by (rule glob_match_impl_literal(1))
  have ops: "extglob_operator AT" "extglob_operator QUEST" "extglob_operator BANG"
    by (simp_all add: extglob_operator_def)
  have at: "glob_match_impl (Suc (Suc (Suc l))) True False v (AT # LPAREN # join_bar alts @ [RPAREN]) \<longleftrightarrow> v \<in> set alts" for l
    unfolding match_extglob_levels [OF assms ops(1)] by (rule match_extglob_literal(1) [OF lits assms(1)])
  show ?thesis
    unfolding glob_match_def depth
  proof (intro conjI)
    show "glob_match_impl (Suc (Suc (Suc (Suc (Suc 45))))) True False v (AT # LPAREN # join_bar alts @ [RPAREN]) \<longleftrightarrow> v \<in> set alts"
      by (rule at)
    show "glob_match_impl (Suc (Suc (Suc (Suc (Suc 45))))) True False v (QUEST # LPAREN # join_bar alts @ [RPAREN]) \<longleftrightarrow>
        v = [] \<or> v \<in> set alts"
      unfolding match_extglob_levels [OF assms ops(2)] by (rule match_extglob_literal(2) [OF lits assms(1)])
    show "glob_match_impl (Suc (Suc (Suc (Suc (Suc 45))))) True False v (BANG # LPAREN # join_bar alts @ [RPAREN]) \<longleftrightarrow>
        v \<notin> set alts"
      unfolding match_extglob_levels [OF assms ops(3)]
      by (rule match_extglob_literal(3) [OF lits assms(1) at])
  qed
qed

section \<open>Patterns without parentheses\<close>

text \<open>Turning extended patterns on changes nothing for a pattern without an open parenthesis.\<close>

lemma glob_step_no_paren:
  "LPAREN \<notin> set p \<Longrightarrow> glob_step ext nocase sub p v flag = glob_step False nocase sub' p v flag"
  by (cases p) (auto simp: glob_step_def peeks_def split: list.split)

lemma glob_step_set:
  "glob_step ext nocase sub p v flag = Advance p' v' flag' \<Longrightarrow> set p' \<subseteq> set p"
  by (auto simp: glob_step_def try_sub_def Let_def split: list.splits if_splits option.splits prod.splits
      dest!: match_bracket_set)

lemma glob_loop_no_paren:
  "LPAREN \<notin> set p \<Longrightarrow> (case star of None \<Rightarrow> True | Some (sp, _) \<Rightarrow> LPAREN \<notin> set sp) \<Longrightarrow>
   glob_loop ext nocase sub p v flag star = glob_loop False nocase sub p v flag star"
proof (induction ext nocase sub p v flag star rule: glob_loop.induct)
  case (1 ext nocase sub p v flag star)
  have eq: "glob_step ext nocase sub p v flag = glob_step False nocase sub p v flag"
    by (rule glob_step_no_paren [OF 1(4)])
  show ?case
  proof (cases "glob_step ext nocase sub p v flag")
    case Matched
    then show ?thesis using eq by (simp add: glob_loop.simps [of _ _ _ p])
  next
    case Backtrack
    then show ?thesis
      using 1(1) [OF Backtrack] 1(5) eq
      by (auto simp: glob_loop.simps [of _ _ _ p] split: option.splits list.splits)
  next
    case (Advance p' v' flag')
    have "LPAREN \<notin> set p'" using glob_step_set [OF Advance] 1(4) by blast
    then show ?thesis
      using 1(2) [OF Advance _ 1(5)] Advance eq by (simp add: glob_loop.simps [of _ _ _ p])
  next
    case (NewStar p')
    have "LPAREN \<notin> set p'" using glob_step_NewStar [OF NewStar] 1(4) by simp
    then show ?thesis
      using 1(3) [OF NewStar] NewStar eq by (simp add: glob_loop.simps [of _ _ _ p])
  qed
qed

lemma glob_match_no_paren:
  assumes "LPAREN \<notin> set p"
  shows "glob_match ext v p = token_match (tokens False p) v"
proof -
  have "extglob_head ext p = None"
    using assms by (auto simp: extglob_head_def split: list.split)
  then have "glob_match ext v p = glob_loop ext False (\<lambda>v p. glob_match_impl 49 ext False v p) p v (RBRACK \<notin> set p) None"
    unfolding glob_match_def max_levels by (rule glob_match_impl_loop)
  also have "\<dots> = glob_loop False False (\<lambda>v p. glob_match_impl 49 ext False v p) p v (RBRACK \<notin> set p) None"
    by (rule glob_loop_no_paren [OF assms]) simp
  also have "\<dots> = token_match (tokens False p) v"
    by (simp add: glob_loop_tokens star_invariant_def star_offers_def)
  finally show ?thesis .
qed

lemma tokens_literal:
  "literal_text s \<Longrightarrow> tokens False (s @ p) = map (\<lambda>c. TOne (same_char False c)) s @ tokens False p"
  by (induction s) (auto simp: literal_text_def glob_meta_def)

lemma token_match_literal:
  "token_match (map (\<lambda>c. TOne (same_char False c)) s @ ts) v \<longleftrightarrow> (\<exists>w. v = s @ w \<and> token_match ts w)"
proof (induction s arbitrary: v)
  case (Cons c s)
  then show ?case by (cases v) (auto simp: same_char_def)
qed simp

lemma literal_no_paren: "literal_text s \<Longrightarrow> LPAREN \<notin> set s \<and> LBRACK \<notin> set s \<and> STAR \<notin> set s \<and> BSL \<notin> set s"
  by (induction s) (auto simp: literal_text_def glob_meta_def)

lemma glob_match_one_star:
  assumes "literal_text pre" and "literal_text suf"
  shows "glob_match ext v (pre @ STAR # suf) \<longleftrightarrow> (\<exists>m. v = pre @ m @ suf)"
proof -
  have "LPAREN \<notin> set (pre @ STAR # suf)" using assms literal_no_paren by auto
  then have "glob_match ext v (pre @ STAR # suf) \<longleftrightarrow> (\<exists>w. v = pre @ w \<and> token_match (TStar # tokens False suf) w)"
    by (simp add: glob_match_no_paren tokens_literal [OF assms(1)] token_match_literal)
  moreover have "token_match (TStar # tokens False suf) w \<longleftrightarrow> (\<exists>m. w = m @ suf)" for w
  proof -
    have "token_match (tokens False suf) u \<longleftrightarrow> u = suf" for u
      using tokens_literal [OF assms(2), of "[]"] token_match_literal [of suf "[]" u] by simp
    then show ?thesis
      unfolding token_match_star by (metis append_eq_conv_conj append_take_drop_id le_add1 length_append)
  qed
  ultimately show ?thesis by blast
qed

section \<open>Repetition and the depth limit\<close>

text \<open>Every repetition of \<open>+(a)\<close> costs two levels.\<close>

lemma plus_head: "extglob_head True (PLUS # LPAREN # 97 # [RPAREN]) = Some (PLUS, [[97]], [])"
  by (simp add: extglob_head_def parse_extglob_pattern_list_def extglob_operator_def)

lemma replicate_eq_single: "replicate n x = [x] \<longleftrightarrow> n = 1"
  by (cases n) auto

lemma plus_levels:
  "glob_match_impl levels True False (replicate n 97) (PLUS # LPAREN # 97 # [RPAREN]) \<longleftrightarrow>
   1 \<le> n \<and> 2 * n + 1 \<le> levels"
proof (induction levels arbitrary: n rule: less_induct)
  case (less levels)
  consider "levels = 0" | "levels = Suc 0" | "levels = Suc (Suc 0)" | k where "levels = Suc (Suc (Suc k))"
    by (metis not0_implies_Suc)
  then show ?case
  proof cases
    case 2
    then show ?thesis by (simp add: plus_head)
  next
    case 3
    then show ?thesis
      by (simp add: glob_match_impl_ext [OF plus_head] match_extglob_def match_repeat_def list_ex_iff
          del: glob_match_impl.simps(2))
  next
    case (4 k)
    have one: "glob_match_impl (Suc k) True False w [97] \<longleftrightarrow> w = [97]" for w
      by (rule glob_match_impl_literal(1)) (simp add: literal_text_def glob_meta_def)
    have "glob_match_impl levels True False (replicate n 97) (PLUS # LPAREN # 97 # [RPAREN]) \<longleftrightarrow>
        replicate n (97 :: uchar) = [97] \<or> list_ex (\<lambda>i. take i (replicate n (97 :: uchar)) = [97] \<and>
          glob_match_impl (Suc k) True False (drop i (replicate n 97)) (PLUS # LPAREN # 97 # [RPAREN])) (split_points (replicate n 97))"
      unfolding 4 glob_match_impl_ext [OF plus_head]
      by (simp add: match_extglob_def match_repeat_def one del: glob_match_impl.simps)
    also have "\<dots> \<longleftrightarrow> n = 1 \<or> (2 \<le> n \<and> glob_match_impl (Suc k) True False (replicate (n - 1) 97) (PLUS # LPAREN # 97 # [RPAREN]))"
      by (auto simp: split_points_def list_ex_iff take_replicate drop_replicate replicate_eq_single
          simp del: glob_match_impl.simps intro: bexI [of _ 1])
    finally show ?thesis using less [of "Suc k" "n - 1"] 4 by auto
  qed simp
qed

text \<open>
  Where extended patterns depart from the shell. The depth limit of 50 cuts repetition
  off: \<open>+(a)\<close> accepts at most 24 repetitions. And \<open>!(a)*\<close> rejects \<open>a\<close>, although the empty word is not
  \<open>a\<close> and the star takes the rest.
\<close>

theorem extglob_gaps:
  "(glob_match True (replicate n 97) (lit ''+(a)'') \<longleftrightarrow> 1 \<le> n \<and> n \<le> 24) \<and>
   \<not> glob_match True (lit ''a'') (lit ''!(a)*'')"
proof
  have "lit ''+(a)'' = PLUS # LPAREN # 97 # [RPAREN]" by (simp add: lit_def)
  then show "glob_match True (replicate n 97) (lit ''+(a)'') \<longleftrightarrow> 1 \<le> n \<and> n \<le> 24"
    using plus_levels [of MAX_GLOB_DEPTH n] by (auto simp: glob_match_def MAX_GLOB_DEPTH_def)
  have a: "literal_text [97]" by (simp add: literal_text_def glob_meta_def)
  have depth: "MAX_GLOB_DEPTH = Suc (Suc (Suc (Suc (Suc 45))))" by (simp add: MAX_GLOB_DEPTH_def)
  have neg: "extglob_head True (lit ''!(a)*'') = Some (BANG, [[97]], [STAR])"
    by (simp add: lit_def extglob_head_def parse_extglob_pattern_list_def extglob_operator_def)
  have pos: "extglob_head True (AT # LPAREN # 97 # RPAREN # [STAR]) = Some (AT, [[97]], [STAR])"
    by (simp add: extglob_head_def parse_extglob_pattern_list_def extglob_operator_def)
  have "glob_match_impl (Suc (Suc (Suc 45))) True False [97] (AT # LPAREN # 97 # RPAREN # [STAR])"
    using glob_match_impl_literal(2) [OF a, of 45 True "[97]"]
    unfolding glob_match_impl_ext [OF pos] by (simp add: match_extglob_def del: glob_match_impl.simps)
  moreover have "glob_match_impl (Suc (Suc (Suc 45))) True False [97] [97]"
    by (simp only: glob_match_impl_literal(1) [OF a])
  ultimately show "\<not> glob_match True (lit ''a'') (lit ''!(a)*'')"
    unfolding glob_match_def depth glob_match_impl_ext [OF neg]
    by (simp add: match_extglob_def split_points_def lit_def del: glob_match_impl.simps)
qed

section \<open>Applications\<close>

theorem extglob_alternatives_witness:
  "glob_match True (lit ''tar'') (lit ''@(zip|tar)'') \<and> \<not> glob_match True (lit ''tar'') (lit ''!(zip|tar)'')"
proof -
  have "list_all literal_text [lit ''zip'', lit ''tar'']"
    by (simp add: literal_text_def glob_meta_def lit_def)
  from extglob_alternatives [OF this, of "lit ''tar''"] show ?thesis by (simp add: lit_def)
qed

theorem bracket_expression_exact_witness:
  "glob_match False (lit ''q7'') (lit ''[!a-f_]7'')"
proof -
  have ok: "list_all item_ok [Range 97 102, Single 95]" by (simp add: unreserved_def)
  have "glob_match False (lit ''7'') (lit ''7'')"
    unfolding glob_match_def max_levels
    by (rule glob_match_impl_literal(1) [THEN iffD2]) (simp_all add: literal_text_def glob_meta_def lit_def)
  then show ?thesis
    using bracket_expression_exact [OF ok, of "lit ''q7''" True "lit ''7''"] by (simp add: lit_def)
qed

end
