(* ===== verification/Brace.thy ===== *)
theory Brace
  imports Prelude
begin

text \<open>
  Brace expansion, \<open>bashkit/src/interpreter/brace_expansion.rs\<close>: the search for the first brace
  group, numeric and character ranges, comma lists with nesting, and the expansion itself with its
  caps on words, bytes and depth. The word and byte counters are natural numbers: a run adds at
  most 100000 words per level over 100 levels to the first (\<open>expand_count_bound\<close>), far from the
  end of \<open>usize\<close>.
\<close>

section \<open>Numbers as text\<close>

definition is_digit :: "uchar \<Rightarrow> bool" where
  "is_digit c \<longleftrightarrow> 48 \<le> c \<and> c \<le> 57"

definition digits_value :: "rstr \<Rightarrow> nat" where
  "digits_value ds = foldl (\<lambda>a c. a * 10 + (c - 48)) 0 ds"

text \<open>\<open>str::parse::<i64>\<close>: an optional sign, at least one digit, in range.\<close>

definition parse_i64 :: "rstr \<Rightarrow> int option" where
  "parse_i64 s =
     (let (neg, ds) = (case s of [] \<Rightarrow> (False, [])
                       | c # cs \<Rightarrow> if c = 45 then (True, cs) else if c = 43 then (False, cs) else (False, s))
      in if ds = [] \<or> \<not> list_all is_digit ds then None
         else let v = (if neg then - int (digits_value ds) else int (digits_value ds))
              in if - (2 ^ 63) \<le> v \<and> v < 2 ^ 63 then Some v else None)"

fun nat_to_string :: "nat \<Rightarrow> rstr" where
  "nat_to_string n = (if n < 10 then [48 + n] else nat_to_string (n div 10) @ [48 + n mod 10])"

declare nat_to_string.simps [simp del]

definition int_to_string :: "int \<Rightarrow> rstr" where
  "int_to_string i = (if i < 0 then 45 # nat_to_string (nat (- i)) else nat_to_string (nat i))"

section \<open>Ranges\<close>

definition MAX_BRACE_RANGE :: nat where "MAX_BRACE_RANGE = 10000"

text \<open>\<open>content.split("..")\<close>\<close>

fun split_dots :: "rstr \<Rightarrow> rstr list" where
  "split_dots [] = [[]]"
| "split_dots [c] = [[c]]"
| "split_dots (c # d # cs) =
     (if c = 46 \<and> d = 46 then [] # split_dots cs
      else (case split_dots (d # cs) of [] \<Rightarrow> [[c]] | p # ps \<Rightarrow> (c # p) # ps))"

text \<open>The two counting loops, in \<open>i128\<close> for numbers, which no \<open>i64\<close> bounds can overflow.\<close>

function count_up :: "int \<Rightarrow> int \<Rightarrow> int \<Rightarrow> rstr list" where
  "count_up i last_value step =
     (if 0 < step \<and> i \<le> last_value then int_to_string i # count_up (i + step) last_value step else [])"
  by auto
termination by (relation "measure (\<lambda>(i, last_value, step). nat (last_value - i + 1))") auto

function count_down :: "int \<Rightarrow> int \<Rightarrow> int \<Rightarrow> rstr list" where
  "count_down i last_value step =
     (if step < 0 \<and> last_value \<le> i then int_to_string i # count_down (i + step) last_value step else [])"
  by auto
termination by (relation "measure (\<lambda>(i, last_value, step). nat (i - last_value + 1))") auto

declare count_up.simps [simp del] count_down.simps [simp del]

text \<open>The character loops on \<open>u64\<close>, which stop when the next value would not fit.\<close>

function chars_up :: "u64 \<Rightarrow> u64 \<Rightarrow> u64 \<Rightarrow> rstr list" where
  "chars_up b end_byte step =
     (if b \<le> end_byte \<and> step \<noteq> 0
      then [unat b mod 256] # (case checked_add b step of None \<Rightarrow> [] | Some v \<Rightarrow> chars_up v end_byte step)
      else [])"
  by auto
termination
proof (relation "measure (\<lambda>(b, end_byte, step). unat end_byte + 1 - unat b)")
  fix b end_byte step v :: u64
  assume "b \<le> end_byte \<and> step \<noteq> 0" "checked_add b step = Some v"
  moreover from this have "unat v = unat b + unat step" "0 < unat step"
    by (simp_all add: unat_checked_add unat_gt_0)
  ultimately show "((v, end_byte, step), (b, end_byte, step)) \<in> measure (\<lambda>(b, end_byte, step). unat end_byte + 1 - unat b)"
    by (auto simp: word_le_nat_alt)
qed simp

function chars_down :: "u64 \<Rightarrow> u64 \<Rightarrow> u64 \<Rightarrow> rstr list" where
  "chars_down b end_byte step =
     (if end_byte \<le> b \<and> step \<noteq> 0
      then [unat b mod 256] # (case checked_sub b step of None \<Rightarrow> [] | Some v \<Rightarrow> chars_down v end_byte step)
      else [])"
  by auto
termination
proof (relation "measure (\<lambda>(b, end_byte, step). unat b)")
  fix b end_byte step v :: u64
  assume "end_byte \<le> b \<and> step \<noteq> 0" "checked_sub b step = Some v"
  then have "unat v = unat b - unat step" "unat step \<le> unat b" "0 < unat step"
    by (auto simp: checked_sub_def unat_diff_le word_le_nat_alt unat_gt_0 word_less_nat_alt split: if_splits)
  then show "((v, end_byte, step), (b, end_byte, step)) \<in> measure (\<lambda>(b, end_byte, step). unat b)" by simp
qed simp

declare chars_up.simps [simp del] chars_down.simps [simp del]

definition is_ascii_alphabetic :: "uchar \<Rightarrow> bool" where
  "is_ascii_alphabetic c \<longleftrightarrow> 65 \<le> c \<and> c \<le> 90 \<or> 97 \<le> c \<and> c \<le> 122"

text \<open>The optional third part: 0 and anything that is not a number are refused.\<close>

definition parse_step :: "rstr list \<Rightarrow> int \<Rightarrow> int option" where
  "parse_step parts dflt =
     (if length parts = 3
      then (case parse_i64 (parts ! 2) of
              Some st \<Rightarrow> if st = 0 then None else Some st
            | None \<Rightarrow> None)
      else Some dflt)"

definition expand_numeric_range :: "rstr list \<Rightarrow> int \<Rightarrow> int \<Rightarrow> rstr list option" where
  "expand_numeric_range parts start_num end_num =
     (case parse_step parts (if start_num \<le> end_num then 1 else - 1) of
        None \<Rightarrow> None
      | Some step \<Rightarrow>
          (let abs_step = \<bar>step\<bar>; abs_diff = \<bar>end_num - start_num\<bar>; range_size = abs_diff div abs_step + 1
           in if int MAX_BRACE_RANGE < range_size then None
              else let effective_step = (if start_num \<le> end_num then abs_step else - abs_step)
                   in Some (if 0 < effective_step then count_up start_num end_num effective_step
                            else count_down start_num end_num effective_step)))"

definition expand_char_range :: "rstr list \<Rightarrow> uchar \<Rightarrow> uchar \<Rightarrow> rstr list option" where
  "expand_char_range parts start_char end_char =
     (case parse_step parts 1 of
        None \<Rightarrow> None
      | Some step \<Rightarrow>
          (let abs_step = of_int \<bar>step\<bar>; start_byte = of_nat start_char; end_byte = of_nat end_char
           in Some (if (start_byte :: u64) \<le> end_byte then chars_up start_byte end_byte abs_step
                    else chars_down start_byte end_byte abs_step)))"

definition try_expand_range :: "rstr \<Rightarrow> rstr list option" where
  "try_expand_range content =
     (let parts = split_dots content
      in if length parts \<noteq> 2 \<and> length parts \<noteq> 3 then None
         else case (parse_i64 (parts ! 0), parse_i64 (parts ! 1)) of
                (Some start_num, Some end_num) \<Rightarrow> expand_numeric_range parts start_num end_num
              | _ \<Rightarrow>
                  (if byte_len (parts ! 0) = 1 \<and> byte_len (parts ! 1) = 1 \<and>
                      is_ascii_alphabetic (hd (parts ! 0)) \<and> is_ascii_alphabetic (hd (parts ! 1))
                   then expand_char_range parts (hd (parts ! 0)) (hd (parts ! 1))
                   else None))"

section \<open>Lists\<close>

text \<open>The loop of \<open>split_brace_items\<close>: items so far, the current item, the nesting depth.\<close>

fun split_items_loop :: "rstr \<Rightarrow> rstr list \<Rightarrow> rstr \<Rightarrow> int \<Rightarrow> rstr list" where
  "split_items_loop [] items current depth = items @ [current]"
| "split_items_loop (ch # chs) items current depth =
     (if ch = 123 then split_items_loop chs items (current @ [ch]) (depth + 1)
      else if ch = 125 then split_items_loop chs items (current @ [ch]) (depth - 1)
      else if ch = 44 \<and> depth = 0 then split_items_loop chs (items @ [current]) [] depth
      else split_items_loop chs items (current @ [ch]) depth)"

definition split_brace_items :: "rstr \<Rightarrow> rstr list" where
  "split_brace_items content = split_items_loop content [] [] 0"

section \<open>Expansion\<close>

text \<open>The search for the first brace group, with backslash escapes.\<close>

fun find_brace :: "rstr \<Rightarrow> nat \<Rightarrow> bool \<Rightarrow> nat \<Rightarrow> nat option \<Rightarrow> (nat \<times> nat) option" where
  "find_brace [] i escaped depth brace_start = None"
| "find_brace (ch # chs) i escaped depth brace_start =
     (if escaped then find_brace chs (i + 1) False depth brace_start
      else if ch = 92 then find_brace chs (i + 1) True depth brace_start
      else if ch = 123
        then find_brace chs (i + 1) False (depth + 1) (if depth = 0 then Some i else brace_start)
      else if ch = 125
        then (let depth' = (if 0 < depth then depth - 1 else depth)
              in case brace_start of
                   Some s \<Rightarrow> if depth' = 0 then Some (s, i) else find_brace chs (i + 1) False depth' brace_start
                 | None \<Rightarrow> find_brace chs (i + 1) False depth' brace_start)
      else find_brace chs (i + 1) False depth brace_start)"

definition MAX_BRACE_EXPANSION_TOTAL :: nat where "MAX_BRACE_EXPANSION_TOTAL = 100000"
definition MAX_BRACE_EXPANSION_DEPTH :: nat where "MAX_BRACE_EXPANSION_DEPTH = 100"
definition MAX_EXPANSION_RESULT_BYTES :: nat where "MAX_EXPANSION_RESULT_BYTES = 10485760"

text \<open>
  What a brace group stands for: the prefix, the items and the suffix, or nothing when the text
  is not a valid brace expression.
\<close>

definition brace_group :: "rstr \<Rightarrow> (rstr \<times> rstr list \<times> rstr) option" where
  "brace_group s =
     (case find_brace s 0 False 0 None of
        None \<Rightarrow> None
      | Some (start, end_pos) \<Rightarrow>
          (let prefix_str = take start s; suffix_str = drop (end_pos + 1) s;
               content = drop (start + 1) (take end_pos s)
           in if starts_with content [32] \<or> ends_with content [32] then None
              else case try_expand_range content of
                Some items \<Rightarrow> Some (prefix_str, items, suffix_str)
              | None \<Rightarrow>
                  (let items = split_brace_items content
                   in if length items \<le> 1 \<and> 44 \<notin> set content then None
                      else Some (prefix_str, items, suffix_str))))"

definition total_len :: "rstr list \<Rightarrow> nat" where
  "total_len ws = sum_list (map byte_len ws)"

text \<open>
  \<open>expand_braces_capped\<close> and the loop over the items in it. The counters go in and come out with
  the words; \<open>fuel\<close> is the number of levels left below \<open>MAX_BRACE_EXPANSION_DEPTH\<close>.
\<close>

fun expand_braces_capped :: "nat \<Rightarrow> rstr \<Rightarrow> nat \<Rightarrow> nat \<Rightarrow> nat \<Rightarrow> rstr list \<times> nat \<times> nat"
  and expand_items :: "nat \<Rightarrow> rstr \<Rightarrow> rstr list \<Rightarrow> rstr \<Rightarrow> nat \<Rightarrow> nat \<Rightarrow> nat \<Rightarrow> rstr list \<times> nat \<times> nat" where
  "expand_braces_capped 0 s count bytes max_words = ([s], count, bytes)"
| "expand_braces_capped (Suc fuel) s count bytes max_words =
     (if max_words \<le> count \<or> MAX_EXPANSION_RESULT_BYTES \<le> bytes then ([s], count, bytes)
      else case brace_group s of
             None \<Rightarrow> ([s], count, bytes)
           | Some (prefix_str, items, suffix_str) \<Rightarrow>
               expand_items fuel prefix_str items suffix_str count bytes max_words)"
| "expand_items fuel prefix_str [] suffix_str count bytes max_words = ([], count, bytes)"
| "expand_items fuel prefix_str (item # items) suffix_str count bytes max_words =
     (if max_words \<le> count \<or> MAX_EXPANSION_RESULT_BYTES \<le> bytes then ([], count, bytes)
      else case expand_braces_capped fuel (prefix_str @ item @ suffix_str) count bytes max_words of
             (sub, count1, bytes1) \<Rightarrow>
               (case expand_items fuel prefix_str items suffix_str
                       (count1 + length sub) (bytes1 + total_len sub) max_words of
                  (rest, count2, bytes2) \<Rightarrow> (sub @ rest, count2, bytes2)))"

definition expand_braces :: "rstr \<Rightarrow> rstr list" where
  "expand_braces s =
     fst (expand_braces_capped MAX_BRACE_EXPANSION_DEPTH s 0 0 MAX_BRACE_EXPANSION_TOTAL)"

section \<open>The caps\<close>

lemma expand_bounds:
  "case expand_braces_capped fuel s count bytes max_words of (ws, count', bytes') \<Rightarrow>
     count \<le> count' \<and> length ws \<le> max 1 (max_words - count) \<and>
     count' \<le> max count (max_words * (fuel + 1))"
  "case expand_items fuel p items t count bytes max_words of (ws, count', bytes') \<Rightarrow>
     count + length ws \<le> count' \<and> length ws \<le> max_words - count \<and>
     count' \<le> max count (max_words * (fuel + 2))"
proof (induction fuel s count bytes max_words and fuel p items t count bytes max_words
      rule: expand_braces_capped_expand_items.induct)
  case (2 fuel s count bytes max_words)
  show ?case
  proof (cases "(max_words \<le> count \<or> MAX_EXPANSION_RESULT_BYTES \<le> bytes) \<or> brace_group s = None")
    case True
    then show ?thesis by auto
  next
    case False
    then obtain p items t where g: "brace_group s = Some (p, items, t)" by auto
    show ?thesis
      using 2 [OF _ g refl refl] False g by (fastforce split: prod.splits)
  qed
next
  case (4 fuel p item items t count bytes max_words)
  show ?case
  proof (cases "max_words \<le> count \<or> MAX_EXPANSION_RESULT_BYTES \<le> bytes")
    case False
    obtain sub c1 b1 where sub: "expand_braces_capped fuel (p @ item @ t) count bytes max_words = (sub, c1, b1)"
      by (metis prod.exhaust)
    obtain rest c2 b2 where rest: "expand_items fuel p items t (c1 + length sub) (b1 + total_len sub) max_words
        = (rest, c2, b2)" by (metis prod.exhaust)
    have s: "count \<le> c1" "length sub \<le> max 1 (max_words - count)" "c1 \<le> max count (max_words * (fuel + 1))"
      using 4(1) [OF False] by (simp_all add: sub)
    have r: "c1 + length sub + length rest \<le> c2" "length rest \<le> max_words - (c1 + length sub)"
        "c2 \<le> max (c1 + length sub) (max_words * (fuel + 2))"
      using 4(2) [OF False sub [symmetric] refl] by (simp_all add: rest)
    have lt: "count < max_words" using False by simp
    have "length sub \<le> max_words - count" using s(2) lt by simp
    moreover from this have "c1 + length sub \<le> max_words * (fuel + 2)"
      using s(3) lt by (auto simp: max_def algebra_simps split: if_splits)
    ultimately show ?thesis
      using False s r lt by (simp add: sub rest)
  qed simp
qed simp_all

text \<open>
  Brace expansion never yields more than 100000 words, whatever the input and however
  its groups nest, and its word counter stays at most 10.1 million (TM-DOS-042).
\<close>

theorem expand_braces_capped_total:
  "length (expand_braces s) \<le> 100000 \<and>
   fst (snd (expand_braces_capped MAX_BRACE_EXPANSION_DEPTH s 0 0 MAX_BRACE_EXPANSION_TOTAL)) \<le> 10100000"
  using expand_bounds(1) [where fuel = MAX_BRACE_EXPANSION_DEPTH and s = s and count = 0 and bytes = 0
      and max_words = MAX_BRACE_EXPANSION_TOTAL]
  by (auto simp: expand_braces_def MAX_BRACE_EXPANSION_DEPTH_def MAX_BRACE_EXPANSION_TOTAL_def split: prod.splits)

section \<open>Ranges\<close>

lemma nat_to_string_digits: "list_all is_digit (nat_to_string n) \<and> nat_to_string n \<noteq> []"
proof (induction n rule: nat_to_string.induct)
  case (1 n)
  show ?case
  proof (cases "n < 10")
    case True
    then show ?thesis by (simp add: nat_to_string.simps [of n] is_digit_def)
  next
    case False
    have "n mod 10 < 10" by simp
    then have "is_digit (48 + n mod 10)" by (simp only: is_digit_def) linarith
    then show ?thesis using 1 False by (simp add: nat_to_string.simps [of n])
  qed
qed

lemma digits_value_snoc: "digits_value (ds @ [c]) = digits_value ds * 10 + (c - 48)"
  by (simp add: digits_value_def)

lemma digits_value_nat: "digits_value (nat_to_string n) = n"
proof (induction n rule: nat_to_string.induct)
  case (1 n)
  then show ?case
    by (subst nat_to_string.simps) (auto simp: digits_value_snoc, simp add: digits_value_def)
qed

text \<open>Printing and parsing a number are inverse.\<close>

lemma parse_int_to_string:
  assumes "- (2 ^ 63) \<le> i" "i < 2 ^ 63"
  shows "parse_i64 (int_to_string i) = Some i"
proof (cases "i < 0")
  case True
  have "nat_to_string (nat (- i)) \<noteq> []" "list_all is_digit (nat_to_string (nat (- i)))"
    using nat_to_string_digits by blast+
  then show ?thesis
    using assms True by (simp add: int_to_string_def parse_i64_def digits_value_nat)
next
  case False
  obtain d ds where d: "nat_to_string (nat i) = d # ds" "is_digit d"
    using nat_to_string_digits [of "nat i"] by (cases "nat_to_string (nat i)") auto
  have "list_all is_digit (nat_to_string (nat i))" using nat_to_string_digits by blast
  moreover have "digits_value (nat_to_string (nat i)) = nat i" by (rule digits_value_nat)
  moreover have "d \<noteq> 45" "d \<noteq> 43" using d(2) by (auto simp: is_digit_def)
  ultimately show ?thesis
    using assms False d(1) by (simp add: int_to_string_def parse_i64_def)
qed

lemma parse_i64_range: "parse_i64 s = Some i \<Longrightarrow> - (2 ^ 63) \<le> i \<and> i < 2 ^ 63"
  by (auto simp: parse_i64_def Let_def split: if_splits list.splits)

lemma count_up_eq:
  "0 < st \<Longrightarrow> i \<le> n \<Longrightarrow> count_up i n st = map (\<lambda>k. int_to_string (i + st * int k)) [0..<nat ((n - i) div st + 1)]"
proof (induction i n st rule: count_up.induct)
  case (1 i n st)
  show ?case
  proof (cases "i + st \<le> n")
    case True
    have d: "(n - i) div st = (n - (i + st)) div st + 1"
      using 1(2) div_add_self2 [of st "n - (i + st)"] by (simp add: algebra_simps)
    have "0 \<le> (n - (i + st)) div st" using True 1(2) by (simp add: pos_imp_zdiv_nonneg_iff)
    then have "nat ((n - i) div st + 1) = Suc (nat ((n - (i + st)) div st + 1))" by (simp add: d)
    then show ?thesis
      using 1 True by (subst count_up.simps)
        (simp add: upt_conv_Cons map_Suc_upt [symmetric] del: upt_Suc, simp add: algebra_simps)
  next
    case False
    then have "(n - i) div st = 0" using 1(2,3) by (simp add: div_pos_pos_trivial)
    moreover have "count_up (i + st) n st = []" using False by (subst count_up.simps) simp
    ultimately show ?thesis using 1(2,3) by (subst count_up.simps) simp
  qed
qed

lemma count_down_up:
  "st < 0 \<Longrightarrow> count_down i n st =
     map (\<lambda>k. int_to_string (i + st * int k)) [0..<nat (if n \<le> i then (i - n) div (- st) + 1 else 0)]"
proof (induction i n st rule: count_down.induct)
  case (1 i n st)
  show ?case
  proof (cases "n \<le> i")
    case le: True
    show ?thesis
    proof (cases "n \<le> i + st")
      case True
      have d: "(i - n) div (- st) = (i + st - n) div (- st) + 1"
        using 1(2) div_add_self2 [of "- st" "i + st - n"] by (simp add: algebra_simps)
      have "0 \<le> (i + st - n) div (- st)" using True 1(2) by (intro pos_imp_zdiv_nonneg_iff [THEN iffD2]) auto
      then have "nat ((i - n) div (- st) + 1) = Suc (nat ((i + st - n) div (- st) + 1))" by (simp add: d)
      then show ?thesis
        using 1 True le by (subst count_down.simps)
          (simp add: upt_conv_Cons map_Suc_upt [symmetric] del: upt_Suc, simp add: algebra_simps)
    next
      case False
      then have "(i - n) div (- st) = 0" using 1(2) le by (intro div_pos_pos_trivial) auto
      moreover have "count_down (i + st) n st = []" using False by (subst count_down.simps) simp
      ultimately show ?thesis using 1(2) le by (subst count_down.simps) simp
    qed
  next
    case False
    then show ?thesis by (subst count_down.simps) simp
  qed
qed

lemma between_bounds:
  fixes x y d :: int
  assumes "d \<le> \<bar>y - x\<bar>" "0 \<le> d" "e = (if x \<le> y then d else - d)" "a \<le> x \<and> x < b" "a \<le> y \<and> y < b"
  shows "a \<le> x + e \<and> x + e < b"
  using assms by (cases "x \<le> y") auto

text \<open>
  A numeric range \<open>{x..y}\<close> or \<open>{x..y..step}\<close> expands to the arithmetic progression
  from \<open>x\<close> towards \<open>y\<close>: each word parses back to its number, the sign of the step is ignored in
  favour of the direction from \<open>x\<close> to \<open>y\<close>, and there are never more than 10000 words (TM-DOS-041).
\<close>

theorem numeric_range_exact:
  assumes "try_expand_range content = Some ws"
    and "parse_i64 (split_dots content ! 0) = Some x" and "parse_i64 (split_dots content ! 1) = Some y"
  shows "\<exists>step. parse_step (split_dots content) (if x \<le> y then 1 else - 1) = Some step \<and> step \<noteq> 0 \<and>
    map parse_i64 ws = map (\<lambda>k. Some (x + (if x \<le> y then \<bar>step\<bar> else - \<bar>step\<bar>) * int k))
      [0..<nat (\<bar>y - x\<bar> div \<bar>step\<bar> + 1)] \<and> length ws \<le> 10000"
proof -
  have r: "expand_numeric_range (split_dots content) x y = Some ws"
    using assms by (auto simp: try_expand_range_def Let_def split: if_splits)
  then obtain step where st: "parse_step (split_dots content) (if x \<le> y then 1 else - 1) = Some step"
    and size: "\<bar>y - x\<bar> div \<bar>step\<bar> + 1 \<le> 10000"
    by (auto simp: expand_numeric_range_def Let_def MAX_BRACE_RANGE_def not_less split: option.splits if_splits)
  have nz: "step \<noteq> 0" using st by (auto simp: parse_step_def split: if_splits option.splits)
  define sgn_step where "sgn_step = (if x \<le> y then \<bar>step\<bar> else - \<bar>step\<bar>)"
  define n where "n = nat (\<bar>y - x\<bar> div \<bar>step\<bar> + 1)"
  have ws: "ws = map (\<lambda>k. int_to_string (x + sgn_step * int k)) [0..<n]"
    using r st nz size count_up_eq [of "\<bar>step\<bar>" x y] count_down_up [of "- \<bar>step\<bar>" x y]
    by (auto simp: expand_numeric_range_def Let_def MAX_BRACE_RANGE_def sgn_step_def n_def split: if_splits)
  have bound: "- (2 ^ 63) \<le> x + sgn_step * int k \<and> x + sgn_step * int k < 2 ^ 63" if "k < n" for k
  proof -
    have "int k \<le> \<bar>y - x\<bar> div \<bar>step\<bar>" using that by (simp add: n_def)
    then have "\<bar>step\<bar> * int k \<le> \<bar>step\<bar> * (\<bar>y - x\<bar> div \<bar>step\<bar>)" by (simp add: mult_left_mono)
    also have "\<dots> \<le> \<bar>y - x\<bar>"
    proof -
      have "0 \<le> \<bar>y - x\<bar> mod \<bar>step\<bar>" using nz by simp
      then show ?thesis using mult_div_mod_eq [of "\<bar>step\<bar>" "\<bar>y - x\<bar>"] by linarith
    qed
    finally have "\<bar>step\<bar> * int k \<le> \<bar>y - x\<bar>" .
    moreover have "0 \<le> \<bar>step\<bar> * int k" by simp
    moreover have "sgn_step * int k = (if x \<le> y then \<bar>step\<bar> * int k else - (\<bar>step\<bar> * int k))"
      by (simp add: sgn_step_def)
    ultimately show ?thesis
      using parse_i64_range [OF assms(2)] parse_i64_range [OF assms(3)] by (rule between_bounds)
  qed
  have "map parse_i64 ws = map (\<lambda>k. Some (x + sgn_step * int k)) [0..<n]"
    using bound by (simp add: ws parse_int_to_string)
  moreover have "length ws \<le> 10000" using size by (simp add: ws n_def)
  ultimately show ?thesis using st nz unfolding sgn_step_def n_def by blast
qed

section \<open>Lists\<close>

text \<open>Text without braces, commas, backslashes, spaces or dots.\<close>

definition plain :: "rstr \<Rightarrow> bool" where
  "plain s = list_all (\<lambda>c. c \<notin> {123, 125, 44, 92, 32, 46}) s"

fun join_comma :: "rstr list \<Rightarrow> rstr" where
  "join_comma [] = []"
| "join_comma [s] = s"
| "join_comma (s # ss) = s @ 44 # join_comma ss"

lemma find_brace_plain: "plain p \<Longrightarrow> find_brace (p @ s) i False d b = find_brace s (i + length p) False d b"
  by (induction p arbitrary: i) (auto simp: plain_def)

lemma find_brace_inside:
  "list_all (\<lambda>c. c \<notin> {123, 125, 92}) p \<Longrightarrow>
   find_brace (p @ 125 # s) i False 1 (Some b) = Some (b, i + length p)"
  by (induction p arbitrary: i) (auto simp: Let_def)

lemma plain_no_group: "plain s \<Longrightarrow> brace_group s = None"
  using find_brace_plain [of s "[]"] by (simp add: brace_group_def)

lemma expand_plain: "plain s \<Longrightarrow> expand_braces_capped fuel s c b m = ([s], c, b)"
  by (cases fuel) (simp_all add: plain_no_group)

lemma split_items_plain:
  "plain p \<Longrightarrow> split_items_loop (p @ s) items cur 0 = split_items_loop s items (cur @ p) 0"
  by (induction p arbitrary: cur) (auto simp: plain_def)

lemma split_items_join:
  "list_all plain is \<Longrightarrow> is \<noteq> [] \<Longrightarrow>
   split_items_loop (join_comma is) items cur 0 = items @ (cur @ hd is) # tl is"
proof (induction "is" arbitrary: items cur rule: join_comma.induct)
  case (2 s)
  then show ?case using split_items_plain [of s "[]" items cur] by simp
next
  case (3 s t ts)
  then show ?case using split_items_plain [of s "44 # join_comma (t # ts)" items cur] by simp
qed simp

lemma join_comma_chars: "list_all plain is \<Longrightarrow> list_all (\<lambda>c. c \<notin> {123, 125, 92, 32, 46}) (join_comma is)"
proof (induction "is" rule: join_comma.induct)
  case (2 s)
  then show ?case unfolding plain_def by (simp add: list.pred_mono_strong)
next
  case (3 s t ts)
  have "list_all (\<lambda>c. c \<notin> {123, 125, 92, 32, 46}) s"
    using 3(2) unfolding plain_def by (auto elim: list.pred_mono_strong)
  then show ?case using 3 by simp
qed simp

lemma split_dots_none: "46 \<notin> set s \<Longrightarrow> split_dots s = [s]"
proof (induction s rule: split_dots.induct)
  case (3 c d cs)
  then have "c \<noteq> 46" by auto
  then show ?case using 3 by simp
qed simp_all

lemma max_depth_Suc: "MAX_BRACE_EXPANSION_DEPTH = Suc 99"
  by (simp add: MAX_BRACE_EXPANSION_DEPTH_def)

lemma expand_items_plain:
  "list_all (\<lambda>i. plain (p @ i @ t)) is \<Longrightarrow> c + length is \<le> m \<Longrightarrow>
   b + total_len (map (\<lambda>i. p @ i @ t) is) \<le> MAX_EXPANSION_RESULT_BYTES \<Longrightarrow> list_all (\<lambda>i. p @ i @ t \<noteq> []) is \<Longrightarrow>
   fst (expand_items fuel p is t c b m) = map (\<lambda>i. p @ i @ t) is"
proof (induction "is" arbitrary: c b)
  case (Cons i "is")
  have pl: "plain (p @ i @ t)" using Cons.prems(1) by simp
  have "p @ i @ t \<noteq> []" using Cons.prems(4) by simp
  then have "0 < byte_len (p @ i @ t)" by (metis byte_len_0_iff gr0I)
  then have go: "\<not> (m \<le> c \<or> MAX_EXPANSION_RESULT_BYTES \<le> b)"
    using Cons.prems(2,3) by (auto simp: total_len_def)
  have "fst (expand_items fuel p is t (c + 1) (b + total_len [p @ i @ t]) m) = map (\<lambda>i. p @ i @ t) is"
    by (rule Cons.IH) (use Cons.prems in \<open>simp_all add: total_len_def add.assoc\<close>)
  then show ?case
    using go by (simp add: expand_plain [OF pl] del: append_assoc split: prod.split) (metis fst_conv)
qed simp

lemma expand_braces_stop: "brace_group s = None \<Longrightarrow> expand_braces s = [s]"
  unfolding expand_braces_def max_depth_Suc by (simp only: expand_braces_capped.simps(2)) simp

lemma expand_braces_step:
  "brace_group s = Some (p, items, t) \<Longrightarrow>
   expand_braces s = fst (expand_items 99 p items t 0 0 MAX_BRACE_EXPANSION_TOTAL)"
  unfolding expand_braces_def max_depth_Suc
  by (simp only: expand_braces_capped.simps(2))
    (simp add: MAX_BRACE_EXPANSION_TOTAL_def MAX_EXPANSION_RESULT_BYTES_def)

text \<open>
  A comma list between plain texts expands to one word per item, in order, each with
  the prefix and the suffix around it, as long as the result stays under the word and byte caps.
\<close>

theorem expand_comma_list:
  assumes "plain p" and "plain t" and "list_all plain is" and "2 \<le> length is" and "length is \<le> 100000"
    and "list_all (\<lambda>i. p @ i @ t \<noteq> []) is"
    and "total_len (map (\<lambda>i. p @ i @ t) is) \<le> 10485760"
  shows "expand_braces (p @ [123] @ join_comma is @ [125] @ t) = map (\<lambda>i. p @ i @ t) is"
proof -
  let ?s = "p @ [123] @ join_comma is @ [125] @ t"
  have chars: "list_all (\<lambda>c. c \<notin> {123, 125, 92, 32, 46}) (join_comma is)" by (rule join_comma_chars [OF assms(3)])
  then have inner: "list_all (\<lambda>c. c \<notin> {123, 125, 92}) (join_comma is)"
    by (auto elim: list.pred_mono_strong)
  have no32: "32 \<notin> set (join_comma is)" and no46: "46 \<notin> set (join_comma is)"
    using chars unfolding list_all_iff by blast+
  have "find_brace ?s 0 False 0 None = Some (length p, length p + 1 + length (join_comma is))"
    using find_brace_plain [OF assms(1), of "[123] @ join_comma is @ [125] @ t" 0]
      find_brace_inside [OF inner, of t "Suc (length p)" "length p"] by simp
  moreover have "\<not> starts_with (join_comma is) [32]" "\<not> ends_with (join_comma is) [32]"
    using no32 by (auto simp: starts_with_def ends_with_def dest!: set_mono_prefix set_mono_suffix)
  moreover have "try_expand_range (join_comma is) = None"
    using split_dots_none [OF no46] by (simp add: try_expand_range_def)
  moreover obtain i1 i2 rest where is_eq: "is = i1 # i2 # rest"
    using assms(4) by (cases "is" rule: join_comma.cases) auto
  moreover have "split_brace_items (join_comma is) = is"
    using split_items_join [OF assms(3), of "[]" "[]"] is_eq by (simp add: split_brace_items_def)
  ultimately have g: "brace_group ?s = Some (p, is, t)"
    by (simp add: brace_group_def Let_def numeral_3_eq_3)
  have pl: "list_all (\<lambda>i. plain (p @ i @ t)) is" using assms(1,2,3) by (auto simp: plain_def list_all_iff)
  have "expand_braces ?s = fst (expand_items 99 p is t 0 0 MAX_BRACE_EXPANSION_TOTAL)"
    by (rule expand_braces_step [OF g])
  also have "\<dots> = map (\<lambda>i. p @ i @ t) is"
    by (rule expand_items_plain [OF pl _ _ assms(6)])
      (use assms(5,7) in \<open>simp_all add: MAX_BRACE_EXPANSION_TOTAL_def MAX_EXPANSION_RESULT_BYTES_def\<close>)
  finally show ?thesis .
qed


section \<open>Applications\<close>

lemma nat_to_string_step [simp]:
  "n < 10 \<Longrightarrow> nat_to_string n = [48 + n]"
  "10 \<le> n \<Longrightarrow> nat_to_string n = nat_to_string (n div 10) @ [48 + n mod 10]"
  by (subst nat_to_string.simps; simp)+

theorem numeric_range_exact_witness:
  "map parse_i64 [lit ''8'', lit ''5'', lit ''2''] = [Some 8, Some 5, Some 2] \<and> length [lit ''8'', lit ''5'', lit ''2''] \<le> 10000"
proof -
  have e: "try_expand_range (lit ''8..1..3'') = Some [lit ''8'', lit ''5'', lit ''2'']"
    by (simp add: lit_def try_expand_range_def parse_i64_def is_digit_def digits_value_def expand_numeric_range_def
        parse_step_def MAX_BRACE_RANGE_def count_down.simps int_to_string_def)
  have "parse_i64 (split_dots (lit ''8..1..3'') ! 0) = Some 8" "parse_i64 (split_dots (lit ''8..1..3'') ! 1) = Some 1"
    "parse_step (split_dots (lit ''8..1..3'')) (- 1) = Some 3"
    by (simp_all add: lit_def parse_i64_def is_digit_def digits_value_def parse_step_def)
  with numeric_range_exact [OF e] show ?thesis by (auto simp: upt_rec)
qed

theorem expand_comma_list_witness:
  "expand_braces (lit ''a{b,cd,}e'') = [lit ''abe'', lit ''acde'', lit ''ae'']"
  using expand_comma_list [of "lit ''a''" "lit ''e''" "[lit ''b'', lit ''cd'', []]"]
  by (simp add: lit_def plain_def total_len_def len_utf8_def)

text \<open>
  Where the search for the first group departs from the shell: a group around a single
  nested list loses its outer braces, a group without a comma stops the expansion of the groups
  after it, and an unmatched open brace hides the matched group after it.
\<close>

theorem brace_search_gaps:
  "expand_braces (lit ''{{a,b}}'') = [lit ''a'', lit ''b''] \<and>
   expand_braces (lit ''{x}{a,b}'') = [lit ''{x}{a,b}''] \<and>
   expand_braces (lit ''{a{b,c}'') = [lit ''{a{b,c}'']"
proof (intro conjI)
  have g1: "brace_group (lit ''{{a,b}}'') = Some ([], [lit ''{a,b}''], [])"
    by (simp add: lit_def brace_group_def starts_with_def ends_with_def try_expand_range_def
        split_brace_items_def suffix_def)
  have g2: "brace_group (lit ''{a,b}'') = Some ([], [lit ''a'', lit ''b''], [])"
    by (simp add: lit_def brace_group_def starts_with_def ends_with_def try_expand_range_def
        split_brace_items_def suffix_def)
  have "expand_braces_capped (Suc 98) (lit ''{a,b}'') 0 0 MAX_BRACE_EXPANSION_TOTAL =
      ([lit ''a'', lit ''b''], 2, 2)"
    by (simp only: expand_braces_capped.simps(2) g2)
      (simp add: expand_plain plain_def lit_def MAX_BRACE_EXPANSION_TOTAL_def MAX_EXPANSION_RESULT_BYTES_def
        total_len_def len_utf8_def)
  then show "expand_braces (lit ''{{a,b}}'') = [lit ''a'', lit ''b'']"
    unfolding expand_braces_step [OF g1] by (simp add: MAX_BRACE_EXPANSION_TOTAL_def MAX_EXPANSION_RESULT_BYTES_def)
  have "brace_group (lit ''{x}{a,b}'') = None" "brace_group (lit ''{a{b,c}'') = None"
    by (simp_all add: lit_def brace_group_def try_expand_range_def split_brace_items_def Let_def)
  then show "expand_braces (lit ''{x}{a,b}'') = [lit ''{x}{a,b}'']"
    "expand_braces (lit ''{a{b,c}'') = [lit ''{a{b,c}'']"
    by (simp_all add: expand_braces_stop)
qed

end
