(* ===== verification/ParamPattern.thy ===== *)
theory ParamPattern
  imports GlobExt Brace
begin

text \<open>
  Pattern removal and replacement in parameter expansions (\<open>${x#p}\<close>, \<open>${x%%p}\<close>, \<open>${x/p/r}\<close>),
  \<open>bashkit/src/interpreter/expansion.rs\<close>. Byte offsets of the code are positions in the list of
  characters here: every slice the code takes is at a character boundary.
\<close>

section \<open>Searching in strings\<close>

text \<open>\<open>str::find\<close> and \<open>str::rfind\<close>.\<close>

definition str_find :: "rstr \<Rightarrow> rstr \<Rightarrow> nat option" where
  "str_find value pat = find (\<lambda>i. prefix pat (drop i value)) [0..<Suc (length value)]"

definition str_rfind :: "rstr \<Rightarrow> rstr \<Rightarrow> nat option" where
  "str_rfind value pat = find (\<lambda>i. prefix pat (drop i value)) (rev [0..<Suc (length value)])"

text \<open>\<open>str::replace\<close> for a non-empty pattern, from the left and without overlaps.\<close>

function str_replace :: "rstr \<Rightarrow> rstr \<Rightarrow> rstr \<Rightarrow> rstr" where
  "str_replace value pat repl =
     (if pat = [] \<or> value = [] then value
      else if prefix pat value then repl @ str_replace (drop (length pat) value) pat repl
      else hd value # str_replace (tl value) pat repl)"
  by pat_completeness auto
termination
  by (relation "measure (\<lambda>(value, pat, repl). length value)") (auto simp: neq_Nil_conv)

declare str_replace.simps [simp del]

text \<open>\<open>str::replacen\<close> with a count of one.\<close>

definition str_replace_first :: "rstr \<Rightarrow> rstr \<Rightarrow> rstr \<Rightarrow> rstr" where
  "str_replace_first value pat repl =
     (case str_find value pat of
        None \<Rightarrow> value
      | Some pos \<Rightarrow> take pos value @ repl @ drop (pos + length pat) value)"

fun find_unescaped_loop :: "uchar \<Rightarrow> bool \<Rightarrow> nat \<Rightarrow> rstr \<Rightarrow> nat option" where
  "find_unescaped_loop target escaped idx [] = None"
| "find_unescaped_loop target escaped idx (ch # chs) =
     (if escaped then find_unescaped_loop target False (idx + 1) chs
      else if ch = BSL then find_unescaped_loop target True (idx + 1) chs
      else if ch = target then Some idx
      else find_unescaped_loop target False (idx + 1) chs)"

definition find_unescaped_char :: "rstr \<Rightarrow> uchar \<Rightarrow> nat option" where
  "find_unescaped_char pattern target = find_unescaped_loop target False 0 pattern"

definition has_unescaped_char :: "rstr \<Rightarrow> uchar \<Rightarrow> bool" where
  "has_unescaped_char pattern target = (find_unescaped_char pattern target \<noteq> None)"

definition contains_unescaped_extglob :: "rstr \<Rightarrow> bool" where
  "contains_unescaped_extglob pattern =
     list_ex (\<lambda>op. case str_find pattern [op, LPAREN] of
         None \<Rightarrow> False
       | Some pos \<Rightarrow> \<not> ends_with (take pos pattern) [BSL]) [AT, STAR, QUEST, PLUS, BANG]"

fun unescape_loop :: "bool \<Rightarrow> rstr \<Rightarrow> rstr" where
  "unescape_loop escaped [] = (if escaped then [BSL] else [])"
| "unescape_loop escaped (ch # chs) =
     (if escaped then ch # unescape_loop False chs
      else if ch = BSL then unescape_loop True chs
      else ch # unescape_loop False chs)"

definition unescape_pattern_literal :: "rstr \<Rightarrow> rstr" where
  "unescape_pattern_literal pattern = unescape_loop False pattern"

section \<open>Removal\<close>

definition MAX_GLOB_MATCH_CALLS :: nat where "MAX_GLOB_MATCH_CALLS = 10000"

text \<open>
  The candidates in the order the loop tries them, at most \<open>MAX_GLOB_MATCH_CALLS\<close> of them; the
  first hit is the shortest removal, the last one the longest.
\<close>

definition removal_hits :: "bool \<Rightarrow> rstr \<Rightarrow> rstr \<Rightarrow> bool \<Rightarrow> nat list" where
  "removal_hits ext value pattern at_front =
     filter (\<lambda>i. glob_match ext (if at_front then take i value else drop i value) pattern)
       (take MAX_GLOB_MATCH_CALLS
         (if at_front then [0..<Suc (length value)] else rev [0..<Suc (length value)]))"

definition remove_pattern_glob :: "bool \<Rightarrow> rstr \<Rightarrow> rstr \<Rightarrow> bool \<Rightarrow> bool \<Rightarrow> rstr" where
  "remove_pattern_glob ext value pattern at_front longest =
     (case removal_hits ext value pattern at_front of
        [] \<Rightarrow> value
      | i # is \<Rightarrow>
          (let cut = (if longest then last (i # is) else i)
           in if at_front then drop cut value else take cut value))"

definition remove_prefix_pattern :: "rstr \<Rightarrow> rstr \<Rightarrow> bool \<Rightarrow> rstr" where
  "remove_prefix_pattern value pattern longest =
     (if pattern = [STAR] then
        (if longest then [] else if value \<noteq> [] then tl value else value)
      else case find_unescaped_char pattern STAR of
        Some star_pos \<Rightarrow>
          (let prefix_part = unescape_pattern_literal (take star_pos pattern);
               suffix_part = unescape_pattern_literal (drop (star_pos + 1) pattern)
           in if prefix_part = [] then
                (case (if longest then str_rfind value suffix_part else str_find value suffix_part) of
                   Some pos \<Rightarrow> drop (pos + length suffix_part) value
                 | None \<Rightarrow> value)
              else if suffix_part = [] then
                (case strip_prefix value prefix_part of
                   Some rest \<Rightarrow> if longest then [] else rest
                 | None \<Rightarrow> value)
              else
                (case strip_prefix value prefix_part of
                   Some rest \<Rightarrow>
                     (case (if longest then str_rfind rest suffix_part else str_find rest suffix_part) of
                        Some pos \<Rightarrow> drop (pos + length suffix_part) rest
                      | None \<Rightarrow> value)
                 | None \<Rightarrow> value))
      | None \<Rightarrow>
          (case strip_prefix value (unescape_pattern_literal pattern) of Some rest \<Rightarrow> rest | None \<Rightarrow> value))"

definition remove_suffix_pattern :: "rstr \<Rightarrow> rstr \<Rightarrow> bool \<Rightarrow> rstr" where
  "remove_suffix_pattern value pattern longest =
     (if pattern = [STAR] then
        (if longest then [] else if value \<noteq> [] then butlast value else value)
      else case find_unescaped_char pattern STAR of
        Some star_pos \<Rightarrow>
          (let prefix_part = unescape_pattern_literal (take star_pos pattern);
               suffix_part = unescape_pattern_literal (drop (star_pos + 1) pattern)
           in if suffix_part = [] then
                (case (if longest then str_find value prefix_part else str_rfind value prefix_part) of
                   Some pos \<Rightarrow> take pos value
                 | None \<Rightarrow> value)
              else if prefix_part = [] then
                (case strip_suffix value suffix_part of
                   Some before \<Rightarrow> if longest then [] else before
                 | None \<Rightarrow> value)
              else
                (case strip_suffix value suffix_part of
                   Some before_suffix \<Rightarrow>
                     (case (if longest then str_find before_suffix prefix_part
                            else str_rfind before_suffix prefix_part) of
                        Some pos \<Rightarrow> take pos value
                      | None \<Rightarrow> value)
                 | None \<Rightarrow> value))
      | None \<Rightarrow>
          (case strip_suffix value (unescape_pattern_literal pattern) of Some before \<Rightarrow> before | None \<Rightarrow> value))"

definition remove_pattern :: "bool \<Rightarrow> rstr \<Rightarrow> rstr \<Rightarrow> bool \<Rightarrow> bool \<Rightarrow> rstr" where
  "remove_pattern ext value pattern at_front longest =
     (if pattern = [] then value
      else if has_unescaped_char pattern LBRACK \<or> contains_unescaped_extglob pattern
      then remove_pattern_glob ext value pattern at_front longest
      else if at_front then remove_prefix_pattern value pattern longest
      else remove_suffix_pattern value pattern longest)"

section \<open>Replacement\<close>

definition concat_or_original :: "rstr \<Rightarrow> rstr list \<Rightarrow> rstr" where
  "concat_or_original value parts =
     (if MAX_EXPANSION_RESULT_BYTES < byte_len (concat parts) then value else concat parts)"

definition replace_at_start :: "bool \<Rightarrow> rstr \<Rightarrow> rstr \<Rightarrow> rstr \<Rightarrow> rstr" where
  "replace_at_start ext value rest replacement =
     (if rest = [] then concat_or_original value [replacement, value]
      else case strip_prefix value rest of
        Some stripped \<Rightarrow> concat_or_original value [replacement, stripped]
      | None \<Rightarrow>
          if STAR \<in> set rest then
            (let matched = remove_pattern ext value rest True False
             in if matched \<noteq> value
                then concat_or_original value [replacement, drop (length value - length matched) value]
                else value)
          else value)"

definition replace_at_end :: "bool \<Rightarrow> rstr \<Rightarrow> rstr \<Rightarrow> rstr \<Rightarrow> rstr" where
  "replace_at_end ext value rest replacement =
     (if rest = [] then concat_or_original value [value, replacement]
      else case strip_suffix value rest of
        Some stripped \<Rightarrow> concat_or_original value [stripped, replacement]
      | None \<Rightarrow>
          if STAR \<in> set rest then
            (let matched = remove_pattern ext value rest False False
             in if matched \<noteq> value then concat_or_original value [matched, replacement] else value)
          else value)"

lemma str_find_Some: "str_find value pat = Some pos \<Longrightarrow> prefix pat (drop pos value) \<and> pos \<le> length value"
  by (auto simp: str_find_def find_Some_iff less_Suc_eq_le nth_append simp del: upt_Suc)

text \<open>
  \<open>star_pos\<close> is the first star of the pattern; the recursive call has the same pattern, so the
  branch \<open>*suffix\<close> is a function of its own.
\<close>

function replace_star_suffix :: "rstr \<Rightarrow> rstr \<Rightarrow> rstr \<Rightarrow> bool \<Rightarrow> rstr" where
  "replace_star_suffix value suffix_part replacement every =
     (if suffix_part = [] then value
      else case str_find value suffix_part of
        None \<Rightarrow> value
      | Some pos \<Rightarrow>
          (let after = drop (pos + length suffix_part) value
           in if every then
                (let result = replacement @ replace_star_suffix after suffix_part replacement True
                 in if MAX_EXPANSION_RESULT_BYTES < byte_len result then value else result)
              else concat_or_original value [replacement, after]))"
  by pat_completeness auto
termination
proof (relation "measure (\<lambda>(v, s, r, g). length v)")
  fix v s r :: rstr and g :: bool and pos x
  assume ne: "s \<noteq> []" and f: "str_find v s = Some pos" and x: "x = drop (pos + length s) v"
  have "v \<noteq> []" using str_find_Some [OF f] ne by auto
  then show "((x, s, r, True), (v, s, r, g)) \<in> measure (\<lambda>(v, s, r, g). length v)"
    using ne by (simp add: x)
qed simp

declare replace_star_suffix.simps [simp del]

definition replace_pattern :: "bool \<Rightarrow> rstr \<Rightarrow> rstr \<Rightarrow> rstr \<Rightarrow> bool \<Rightarrow> rstr" where
  "replace_pattern ext value pattern replacement every =
     (if pattern = [] then value
      else if hd pattern = 35 then replace_at_start ext value (tl pattern) replacement
      else if hd pattern = 37 then replace_at_end ext value (tl pattern) replacement
      else if STAR \<in> set pattern then
        (if pattern = [STAR]
         then (if MAX_EXPANSION_RESULT_BYTES < byte_len replacement then value else replacement)
         else case str_find pattern [STAR] of
           None \<Rightarrow> value
         | Some star_pos \<Rightarrow>
             (let prefix_part = take star_pos pattern; suffix_part = drop (star_pos + 1) pattern
              in if prefix_part = [] \<and> suffix_part \<noteq> [] then replace_star_suffix value suffix_part replacement every
                 else if prefix_part \<noteq> [] \<and> suffix_part = [] then
                   (if starts_with value prefix_part
                    then (if MAX_EXPANSION_RESULT_BYTES < byte_len replacement then value else replacement)
                    else value)
                 else value))
      else
        (let result = (if every then str_replace value pattern replacement
                       else str_replace_first value pattern replacement)
         in if MAX_EXPANSION_RESULT_BYTES < byte_len result then value else result))"

lemma concat_or_original_bound:
  "byte_len (concat_or_original value parts) \<le> max (byte_len value) MAX_EXPANSION_RESULT_BYTES"
  by (simp add: concat_or_original_def max_def)

lemma replace_star_suffix_bound:
  "byte_len (replace_star_suffix value s r g) \<le> max (byte_len value) MAX_EXPANSION_RESULT_BYTES"
  by (subst replace_star_suffix.simps)
    (auto simp: Let_def concat_or_original_bound split: option.split simp del: byte_len_simps)

text \<open>
  A replacement never blows a value up beyond the expansion cap: the result of
  \<open>replace_pattern\<close> has at most 10 MiB, or is no longer than the value it started from, for every
  pattern, replacement and mode.
\<close>

theorem replace_pattern_bounded:
  "byte_len (replace_pattern ext value pattern replacement every) \<le> max (byte_len value) 10485760"
proof -
  have "byte_len (replace_at_start ext value rest replacement) \<le> max (byte_len value) MAX_EXPANSION_RESULT_BYTES" for rest
    by (simp add: replace_at_start_def Let_def concat_or_original_bound split: option.split del: strip_prefix_Some)
  moreover have "byte_len (replace_at_end ext value rest replacement) \<le> max (byte_len value) MAX_EXPANSION_RESULT_BYTES" for rest
    by (simp add: replace_at_end_def Let_def concat_or_original_bound split: option.split del: strip_suffix_Some)
  ultimately have "byte_len (replace_pattern ext value pattern replacement every) \<le>
      max (byte_len value) MAX_EXPANSION_RESULT_BYTES"
    by (auto simp: replace_pattern_def Let_def replace_star_suffix_bound split: option.split)
  then show ?thesis by (simp add: MAX_EXPANSION_RESULT_BYTES_def)
qed

section \<open>Removal is exact\<close>

text \<open>
  What a removal should do: cut off the shortest or the longest part at the front or the back that
  the pattern accepts, or nothing.
\<close>

definition removal_of :: "(rstr \<Rightarrow> bool) \<Rightarrow> bool \<Rightarrow> bool \<Rightarrow> rstr \<Rightarrow> rstr \<Rightarrow> bool" where
  "removal_of accepts at_front longest v r \<longleftrightarrow>
     (\<exists>i \<le> length v. accepts (if at_front then take i v else drop i v) \<and>
        (\<forall>j \<le> length v. accepts (if at_front then take j v else drop j v) \<longrightarrow>
           (if at_front = longest then j \<le> i else i \<le> j)) \<and>
        r = (if at_front then drop i v else take i v)) \<or>
     ((\<forall>j \<le> length v. \<not> accepts (if at_front then take j v else drop j v)) \<and> r = v)"

lemma find_upt: "find P [0..<n] = Some i \<longleftrightarrow> i < n \<and> P i \<and> (\<forall>j < i. \<not> P j)"
  by (auto simp: find_Some_iff)

lemma find_rev_upt: "find P (rev [0..<n]) = Some i \<longleftrightarrow> i < n \<and> P i \<and> (\<forall>j < n. i < j \<longrightarrow> \<not> P j)"
  by (induction n) (auto simp: less_Suc_eq)

lemma str_find_cases:
  "str_find v p = Some i \<longleftrightarrow> i \<le> length v \<and> prefix p (drop i v) \<and> (\<forall>j < i. \<not> prefix p (drop j v))"
  "str_find v p = None \<longleftrightarrow> (\<forall>j \<le> length v. \<not> prefix p (drop j v))"
  "str_rfind v p = Some i \<longleftrightarrow> i \<le> length v \<and> prefix p (drop i v) \<and>
     (\<forall>j \<le> length v. i < j \<longrightarrow> \<not> prefix p (drop j v))"
  "str_rfind v p = None \<longleftrightarrow> (\<forall>j \<le> length v. \<not> prefix p (drop j v))"
  unfolding str_find_def str_rfind_def find_upt find_rev_upt
  by (auto simp: less_Suc_eq_le find_None_iff simp del: upt_Suc)

lemma prefix_drop_take:
  "k + length p \<le> length r \<Longrightarrow> prefix p (drop k r) \<longleftrightarrow> (\<exists>m. take (k + length p) r = m @ p \<and> length m = k)"
proof
  assume k: "k + length p \<le> length r" and "prefix p (drop k r)"
  then obtain z where "drop k r = p @ z" by (auto simp: prefix_def)
  then have "take (k + length p) r = take k r @ p"
    using k by (simp add: take_add)
  then show "\<exists>m. take (k + length p) r = m @ p \<and> length m = k" using k by (intro exI [of _ "take k r"]) simp
next
  assume "k + length p \<le> length r" and "\<exists>m. take (k + length p) r = m @ p \<and> length m = k"
  then obtain m where m: "take (k + length p) r = m @ p" "length m = k" by blast
  have "r = take (k + length p) r @ drop (k + length p) r" by simp
  then have "r = m @ p @ drop (k + length p) r" unfolding m(1) by simp
  then have "drop k r = p @ drop (k + length p) r" using m(2) by (metis append_eq_conv_conj)
  then show "prefix p (drop k r)" by simp
qed

lemma accepts_front:
  assumes acc: "\<And>s. accepts s \<longleftrightarrow> (\<exists>m. s = pre @ m @ suf)" and v: "v = pre @ r" and i: "i \<le> length v"
  shows "accepts (take i v) \<longleftrightarrow> (\<exists>k. i = length pre + k + length suf \<and> prefix suf (drop k r))"
proof
  assume "accepts (take i v)"
  then obtain m where m: "take i v = pre @ m @ suf" using acc by blast
  then have "i = length pre + length m + length suf" using i by (metis add.assoc length_append length_take min.absorb2)
  moreover have "r = m @ suf @ drop i v"
    using append_take_drop_id [of i v] unfolding m by (simp add: v)
  ultimately show "\<exists>k. i = length pre + k + length suf \<and> prefix suf (drop k r)"
    by (intro exI [of _ "length m"]) simp
next
  assume "\<exists>k. i = length pre + k + length suf \<and> prefix suf (drop k r)"
  then obtain k where k: "i = length pre + k + length suf" "prefix suf (drop k r)" by blast
  moreover have "k + length suf \<le> length r" using k i by (simp add: v)
  ultimately obtain m where "take (k + length suf) r = m @ suf" using prefix_drop_take by blast
  then show "accepts (take i v)" using k acc by (simp add: v add.assoc)
qed

lemma removal_front:
  assumes acc: "\<And>s. accepts s \<longleftrightarrow> (\<exists>m. s = pre @ m @ suf)"
  shows "removal_of accepts True longest v
    (case strip_prefix v pre of
       None \<Rightarrow> v
     | Some r \<Rightarrow> (case (if longest then str_rfind r suf else str_find r suf) of
           Some pos \<Rightarrow> drop (pos + length suf) r | None \<Rightarrow> v))"
proof (cases "strip_prefix v pre")
  case None
  have "\<not> accepts (take j v)" for j
  proof
    assume "accepts (take j v)"
    then obtain m where "take j v = pre @ m @ suf" using acc by blast
    then have "v = pre @ m @ suf @ drop j v" using append_take_drop_id [of j v] by simp
    then show False using None by (metis option.distinct(1) strip_prefix_Some)
  qed
  then show ?thesis by (simp add: None removal_of_def)
next
  case sp: (Some r)
  then have v: "v = pre @ r" by simp
  note iff = accepts_front [of accepts pre suf, OF acc v]
  define res where "res = (if longest then str_rfind r suf else str_find r suf)"
  show ?thesis
  proof (cases res)
    case None
    then have "\<forall>k \<le> length r. \<not> prefix suf (drop k r)"
      by (auto simp: res_def str_find_cases split: if_splits)
    then have "\<forall>j \<le> length v. \<not> accepts (take j v)" using iff by (auto simp: v)
    then show ?thesis using None sp by (simp add: removal_of_def res_def del: strip_prefix_Some)
  next
    case (Some pos)
    have pos: "pos \<le> length r" "prefix suf (drop pos r)"
      using Some by (auto simp: res_def str_find_cases split: if_splits)
    let ?i = "length pre + pos + length suf"
    have i: "?i \<le> length v" using pos prefix_length_le [OF pos(2)] by (simp add: v)
    have "accepts (take ?i v)" using iff [OF i] pos(2) by blast
    moreover have "if longest then j \<le> ?i else ?i \<le> j" if j: "j \<le> length v" "accepts (take j v)" for j
    proof -
      obtain k where k: "j = length pre + k + length suf" "prefix suf (drop k r)" using iff j by blast
      have "k \<le> length r" using j(1) k(1) by (simp add: v)
      then have "if longest then k \<le> pos else pos \<le> k"
        using Some k(2) by (auto simp: res_def str_find_cases not_less [symmetric] split: if_splits)
      then show ?thesis using k(1) by (simp split: if_splits)
    qed
    moreover have "(case strip_prefix v pre of None \<Rightarrow> v
        | Some r \<Rightarrow> (case (if longest then str_rfind r suf else str_find r suf) of
             Some pos \<Rightarrow> drop (pos + length suf) r | None \<Rightarrow> v)) = drop ?i v"
      using Some sp by (simp add: res_def v [symmetric] del: strip_prefix_Some) (simp add: v)
    ultimately show ?thesis using i unfolding removal_of_def by (intro disjI1 exI [of _ ?i]) simp
  qed
qed

lemma accepts_rear:
  assumes acc: "\<And>s. accepts s \<longleftrightarrow> (\<exists>m. s = pre @ m @ suf)" and v: "v = b @ suf" and i: "i \<le> length v"
  shows "accepts (drop i v) \<longleftrightarrow> i \<le> length b \<and> prefix pre (drop i b)"
proof
  assume "accepts (drop i v)"
  then obtain m where m: "drop i v = pre @ m @ suf" using acc by blast
  then have "length v - i = length pre + length m + length suf" by (metis add.assoc length_append length_drop)
  then have le: "i \<le> length b" using i by (simp add: v)
  then have "drop i b @ suf = pre @ m @ suf" using m by (simp add: v)
  then show "i \<le> length b \<and> prefix pre (drop i b)" using le by simp
next
  assume "i \<le> length b \<and> prefix pre (drop i b)"
  then obtain m where "drop i b = pre @ m" "i \<le> length b" by (auto simp: prefix_def)
  then show "accepts (drop i v)" using acc by (simp add: v)
qed

lemma removal_rear:
  assumes acc: "\<And>s. accepts s \<longleftrightarrow> (\<exists>m. s = pre @ m @ suf)"
  shows "removal_of accepts False longest v
    (case strip_suffix v suf of
       None \<Rightarrow> v
     | Some b \<Rightarrow> (case (if longest then str_find b pre else str_rfind b pre) of
           Some pos \<Rightarrow> take pos v | None \<Rightarrow> v))"
proof (cases "strip_suffix v suf")
  case None
  have "\<not> accepts (drop j v)" for j
  proof
    assume "accepts (drop j v)"
    then obtain m where "drop j v = pre @ m @ suf" using acc by blast
    then have "v = (take j v @ pre @ m) @ suf" using append_take_drop_id [of j v] by simp
    then show False using None by (metis option.distinct(1) strip_suffix_Some)
  qed
  then show ?thesis by (simp add: None removal_of_def)
next
  case sp: (Some b)
  then have v: "v = b @ suf" by simp
  note iff = accepts_rear [of accepts pre suf, OF acc v]
  define res where "res = (if longest then str_find b pre else str_rfind b pre)"
  show ?thesis
  proof (cases res)
    case None
    then have "\<forall>k \<le> length b. \<not> prefix pre (drop k b)"
      by (auto simp: res_def str_find_cases split: if_splits)
    then have "\<forall>j \<le> length v. \<not> accepts (drop j v)" using iff by blast
    then show ?thesis using None sp by (simp add: removal_of_def res_def del: strip_suffix_Some)
  next
    case (Some pos)
    have pos: "pos \<le> length b" "prefix pre (drop pos b)"
      using Some by (auto simp: res_def str_find_cases split: if_splits)
    have i: "pos \<le> length v" using pos by (simp add: v)
    have "accepts (drop pos v)" using iff [OF i] pos by blast
    moreover have "if longest then pos \<le> j else j \<le> pos" if j: "j \<le> length v" "accepts (drop j v)" for j
      using iff [OF j(1)] j(2) Some by (auto simp: res_def str_find_cases not_less [symmetric] split: if_splits)
    moreover have "(case strip_suffix v suf of None \<Rightarrow> v
        | Some b \<Rightarrow> (case (if longest then str_find b pre else str_rfind b pre) of
             Some pos \<Rightarrow> take pos v | None \<Rightarrow> v)) = take pos v"
      using Some sp by (simp add: res_def del: strip_suffix_Some split: if_splits)
    ultimately show ?thesis using i unfolding removal_of_def by (intro disjI1 exI [of _ pos]) simp
  qed
qed

lemma unescape_literal: "literal_text s \<Longrightarrow> unescape_pattern_literal s = s"
proof -
  have "literal_text s \<Longrightarrow> unescape_loop False s = s"
    by (induction s) (auto simp: literal_text_def glob_meta_def)
  then show "literal_text s \<Longrightarrow> unescape_pattern_literal s = s" by (simp add: unescape_pattern_literal_def)
qed

lemma find_unescaped_literal:
  "literal_text s \<Longrightarrow> glob_meta t \<Longrightarrow>
   find_unescaped_loop t False i (s @ p) = find_unescaped_loop t False (i + length s) p"
  by (induction s arbitrary: i) (auto simp: literal_text_def glob_meta_def)

lemma no_paren_no_extglob: "LPAREN \<notin> set p \<Longrightarrow> \<not> contains_unescaped_extglob p"
proof -
  assume p: "LPAREN \<notin> set p"
  have "str_find p [op, LPAREN] = None" for op
  proof (cases "str_find p [op, LPAREN]")
    case (Some pos)
    then obtain z where "drop pos p = op # LPAREN # z" using str_find_Some by (fastforce simp: prefix_def)
    then have "LPAREN \<in> set (drop pos p)" by simp
    then show ?thesis using p by (meson in_set_dropD)
  qed
  then show ?thesis by (simp add: contains_unescaped_extglob_def)
qed

lemma removal_of_cong: "(\<And>s. accepts s \<longleftrightarrow> accepts' s) \<Longrightarrow> removal_of accepts = removal_of accepts'"
  by (simp add: removal_of_def fun_eq_iff)

lemma remove_pattern_one_star:
  assumes lit: "literal_text pre" "literal_text suf" and ne: "pre \<noteq> [] \<or> suf \<noteq> []"
  shows "removal_of (\<lambda>s. glob_match ext s (pre @ STAR # suf)) at_front longest v
    (remove_pattern ext v (pre @ STAR # suf) at_front longest)"
proof -
  let ?p = "pre @ STAR # suf"
  have no: "LPAREN \<notin> set ?p" "LBRACK \<notin> set ?p" using lit literal_no_paren by auto
  have lb: "\<not> has_unescaped_char ?p LBRACK"
    using find_unescaped_literal [OF lit(1), of LBRACK 0 "STAR # suf"]
      find_unescaped_literal [OF lit(2), of LBRACK _ "[]"]
    by (simp add: has_unescaped_char_def find_unescaped_char_def glob_meta_def)
  have star: "find_unescaped_char ?p STAR = Some (length pre)"
    using find_unescaped_literal [OF lit(1), of STAR 0 "STAR # suf"]
    by (simp add: find_unescaped_char_def glob_meta_def)
  have ps: "?p \<noteq> [STAR]" using ne by (cases pre) auto
  have acc: "\<And>s. glob_match ext s ?p \<longleftrightarrow> (\<exists>m. s = pre @ m @ suf)"
    by (rule glob_match_one_star [OF lit])
  have find_Nil: "str_find r [] = Some 0" "str_rfind r [] = Some (length r)" for r
    by (simp_all add: str_find_cases)
  have parts: "unescape_pattern_literal pre = pre" "unescape_pattern_literal suf = suf"
    using lit by (simp_all add: unescape_literal)
  have front: "remove_prefix_pattern v ?p longest =
      (case strip_prefix v pre of None \<Rightarrow> v
       | Some r \<Rightarrow> (case (if longest then str_rfind r suf else str_find r suf) of
             Some pos \<Rightarrow> drop (pos + length suf) r | None \<Rightarrow> v))"
    using ps ne unfolding remove_prefix_pattern_def star
    by (simp add: parts find_Nil Let_def) (cases "pre = []"; cases "suf = []"; simp add: strip_prefix_def find_Nil)
  have rear: "remove_suffix_pattern v ?p longest =
      (case strip_suffix v suf of None \<Rightarrow> v
       | Some b \<Rightarrow> (case (if longest then str_find b pre else str_rfind b pre) of
             Some pos \<Rightarrow> take pos v | None \<Rightarrow> v))"
    using ps ne unfolding remove_suffix_pattern_def star
    by (simp add: parts find_Nil Let_def) (cases "pre = []"; cases "suf = []"; simp add: strip_suffix_def find_Nil)
  show ?thesis
    using removal_front [OF acc, of longest v] removal_rear [OF acc, of longest v]
    by (cases at_front) (simp_all add: remove_pattern_def lb no_paren_no_extglob [OF no(1)] front rear)
qed

lemma sorted_filter_ends:
  assumes "sorted xs" and "filter P xs = a # as"
  shows "x \<in> set xs \<Longrightarrow> P x \<Longrightarrow> a \<le> x \<and> x \<le> last (a # as)" and "P a" "a \<in> set xs"
    and "P (last (a # as))" "last (a # as) \<in> set xs"
proof -
  have s: "sorted (a # as)" using sorted_wrt_filter [of "(\<le>)" xs P] assms by simp
  have mem: "set (a # as) = {y \<in> set xs. P y}" using assms(2) by (metis set_filter)
  then show "P a" "a \<in> set xs" by auto
  have "last (a # as) \<in> set (a # as)" by (rule last_in_set) simp
  then show "P (last (a # as))" "last (a # as) \<in> set xs" using mem by blast+
  assume "x \<in> set xs" "P x"
  then have "x \<in> set (a # as)" using mem by blast
  then obtain i where "i < length (a # as)" "x = (a # as) ! i" by (metis in_set_conv_nth)
  then show "a \<le> x \<and> x \<le> last (a # as)"
    using sorted_nth_mono [OF s, of 0 i] sorted_nth_mono [OF s, of i "length (a # as) - 1"]
      last_conv_nth [of "a # as"] by (simp del: last.simps)
qed

lemma remove_pattern_glob_exact:
  assumes "length v < MAX_GLOB_MATCH_CALLS"
  shows "removal_of (\<lambda>s. glob_match ext s p) at_front longest v (remove_pattern_glob ext v p at_front longest)"
proof -
  define P where "P = (\<lambda>i. glob_match ext (if at_front then take i v else drop i v) p)"
  define xs where "xs = [0..<Suc (length v)]"
  have hits: "removal_hits ext v p at_front = (if at_front then filter P xs else rev (filter P xs))"
    using assms by (simp add: removal_hits_def P_def xs_def rev_filter del: upt_Suc)
  have sorted: "sorted xs" unfolding xs_def by (rule sorted_upt)
  have set: "set xs = {i. i \<le> length v}" by (auto simp: xs_def)
  show ?thesis
  proof (cases "filter P xs")
    case Nil
    then have "\<forall>i \<le> length v. \<not> P i" using set by (auto simp: filter_empty_conv)
    then show ?thesis
      using Nil hits by (auto simp: removal_of_def remove_pattern_glob_def P_def split: if_splits)
  next
    case (Cons a as)
    note ends = sorted_filter_ends [OF sorted Cons]
    define cut where "cut = (if at_front = longest then last (a # as) else a)"
    have cut: "cut \<le> length v" "P cut" "\<And>j. j \<le> length v \<Longrightarrow> P j \<Longrightarrow> if at_front = longest then j \<le> cut else cut \<le> j"
      using ends set by (auto simp: cut_def)
    obtain i "is" where ris: "removal_hits ext v p at_front = i # is"
      using hits Cons by (metis append_is_Nil_conv list.distinct(1) neq_Nil_conv rev.simps(2))
    moreover have "(if longest then last (i # is) else i) = cut"
    proof (cases at_front)
      case True
      then show ?thesis using ris hits Cons by (simp add: cut_def)
    next
      case False
      then have r: "i # is = rev (a # as)" using ris hits Cons by simp
      have "i = last (a # as)" using r by (metis hd_rev list.sel(1))
      moreover have "last (i # is) = a" using r by (metis last_rev list.sel(1))
      ultimately show ?thesis using False by (simp add: cut_def)
    qed
    ultimately have "remove_pattern_glob ext v p at_front longest = (if at_front then drop cut v else take cut v)"
      by (simp add: remove_pattern_glob_def Let_def)
    then show ?thesis
      using cut unfolding removal_of_def P_def by (intro disjI1 exI [of _ cut]) simp
  qed
qed

lemma remove_pattern_literal:
  assumes lit: "literal_text p" and ne: "p \<noteq> []"
  shows "removal_of (\<lambda>s. glob_match ext s p) at_front longest v (remove_pattern ext v p at_front longest)"
proof -
  have acc: "glob_match ext s p \<longleftrightarrow> s = p" for s
    unfolding glob_match_def max_levels by (rule glob_match_impl_literal(1) [OF lit])
  have un: "find_unescaped_char p t = None" if "glob_meta t" for t
    using find_unescaped_literal [OF lit that, of 0 "[]"] by (simp add: find_unescaped_char_def)
  have star: "p \<noteq> [STAR]" using lit by (auto simp: literal_text_def glob_meta_def)
  have "remove_pattern ext v p at_front longest =
      (if at_front then (case strip_prefix v p of Some r \<Rightarrow> r | None \<Rightarrow> v)
       else (case strip_suffix v p of Some r \<Rightarrow> r | None \<Rightarrow> v))"
    using ne star no_paren_no_extglob [of p] literal_no_paren [OF lit] un [of STAR] un [of LBRACK]
    by (simp add: remove_pattern_def has_unescaped_char_def remove_prefix_pattern_def remove_suffix_pattern_def
        unescape_literal [OF lit] glob_meta_def)
  moreover have "removal_of (\<lambda>s. s = p) True longest v (case strip_prefix v p of Some r \<Rightarrow> r | None \<Rightarrow> v)"
  proof -
    have len: "j = length p" if "take j v = p" "j \<le> length v" for j using that by auto
    show ?thesis
    proof (cases "prefix p v")
      case True
      then have "take (length p) v = p" "length p \<le> length v" by (auto simp: prefix_def)
      then show ?thesis
        unfolding removal_of_def using True by (intro disjI1 exI [of _ "length p"]) (auto simp: strip_prefix_def dest: len)
    next
      case False
      then have "take j v \<noteq> p" for j by (metis take_is_prefix)
      then show ?thesis using False by (simp add: removal_of_def strip_prefix_def)
    qed
  qed
  moreover have "removal_of (\<lambda>s. s = p) False longest v (case strip_suffix v p of Some r \<Rightarrow> r | None \<Rightarrow> v)"
  proof -
    have len: "j = length v - length p" if "drop j v = p" "j \<le> length v" for j using that by auto
    show ?thesis
    proof (cases "suffix p v")
      case True
      then have "drop (length v - length p) v = p" "length p \<le> length v" by (auto simp: suffix_def)
      then show ?thesis
        unfolding removal_of_def using True
        by (intro disjI1 exI [of _ "length v - length p"]) (auto simp: strip_suffix_def dest: len)
    next
      case False
      then have "drop j v \<noteq> p" for j by (metis suffix_drop)
      then show ?thesis using False by (simp add: removal_of_def strip_suffix_def)
    qed
  qed
  ultimately show ?thesis by (simp add: acc)
qed

text \<open>
  The patterns for which removal is exact: literal text, a star with literal text before it or after it, and every
  pattern in which the code finds an unescaped bracket or extended operator, up to the cap on the candidates.
\<close>

definition removal_supported :: "rstr \<Rightarrow> rstr \<Rightarrow> bool" where
  "removal_supported v p \<longleftrightarrow>
     p \<noteq> [] \<and> literal_text p \<or>
     (\<exists>pre suf. p = pre @ STAR # suf \<and> literal_text pre \<and> literal_text suf \<and> p \<noteq> [STAR]) \<or>
     (has_unescaped_char p LBRACK \<or> contains_unescaped_extglob p) \<and> p \<noteq> [] \<and> length v < 10000"

text \<open>
  Property C36: \<open>${x#p}\<close>, \<open>${x##p}\<close>, \<open>${x%p}\<close> and \<open>${x%%p}\<close> are exact for three kinds of patterns: a
  non-empty text without special characters; one star with such text before it, after it or on both sides, but not the
  star alone; and a pattern in which the code finds an unescaped bracket or an extended operator, when the value has fewer
  than 10000 characters. For these, what is removed is the shortest or the longest front or rear part of the value that the
  pattern matcher accepts, and nothing if there is none. Nothing is claimed of other patterns: \<open>${x#*}\<close> and
  patterns with a question mark but no bracket do depart from the matcher (see \<open>param_pattern_gaps\<close>).
\<close>

theorem remove_pattern_exact:
  assumes "removal_supported v p"
  shows "removal_of (\<lambda>s. glob_match ext s p) at_front longest v (remove_pattern ext v p at_front longest)"
proof -
  consider "p \<noteq> []" "literal_text p"
    | pre suf where "p = pre @ STAR # suf" "literal_text pre" "literal_text suf" "p \<noteq> [STAR]"
    | "has_unescaped_char p LBRACK \<or> contains_unescaped_extglob p" "p \<noteq> []" "length v < 10000"
    using assms unfolding removal_supported_def by blast
  then show ?thesis
  proof cases
    case 1
    then show ?thesis by (intro remove_pattern_literal)
  next
    case (2 pre suf)
    then show ?thesis using remove_pattern_one_star [of pre suf ext at_front longest v] by auto
  next
    case 3
    then show ?thesis
      using remove_pattern_glob_exact [of v ext p at_front longest]
      by (simp add: remove_pattern_def MAX_GLOB_MATCH_CALLS_def)
  qed
qed

section \<open>Applications\<close>

text \<open>
  Where removal and replacement depart from the shell. \<open>${x#*}\<close> removes a character,
  although the shortest match of a star is empty; \<open>?\<close> is not a wildcard unless the pattern also has a
  bracket; and a replacement of \<open>*a\<close> takes the first \<open>a\<close> instead of the last.
\<close>

theorem param_pattern_gaps:
  "remove_pattern False (lit ''abc'') (lit ''*'') True False = lit ''bc'' \<and>
   remove_pattern False (lit ''abc'') (lit ''?'') True False = lit ''abc'' \<and>
   replace_pattern False (lit ''xaya'') (lit ''*a'') (lit ''R'') False = lit ''Rya''"
  by (simp add: lit_def remove_pattern_def has_unescaped_char_def find_unescaped_char_def
      contains_unescaped_extglob_def str_find_def remove_prefix_pattern_def unescape_pattern_literal_def
      strip_prefix_def replace_pattern_def replace_star_suffix.simps concat_or_original_def
      MAX_EXPANSION_RESULT_BYTES_def len_utf8_def)

theorem remove_pattern_exact_witness:
  "removal_of (\<lambda>s. glob_match False s (lit ''*.'')) True True (lit ''a.b.c'') (lit ''c'')"
proof -
  have "removal_supported (lit ''a.b.c'') (lit ''*.'')"
    unfolding removal_supported_def
    by (intro disjI2 disjI1 exI [of _ "[]"] exI [of _ "[46]"]) (simp add: lit_def literal_text_def glob_meta_def)
  from remove_pattern_exact [OF this, of False True True]
  show ?thesis
    by (simp add: lit_def remove_pattern_def has_unescaped_char_def find_unescaped_char_def
      contains_unescaped_extglob_def str_find_def str_rfind_def remove_prefix_pattern_def
      unescape_pattern_literal_def)
qed

end
