(* ===== verification/Arith.thy ===== *)
theory Arith
  imports Brace "HOL-Library.Signed_Division"
begin

text \<open>
  The arithmetic evaluator of \<open>bashkit/src/interpreter/arithmetic.rs\<close>: \<open>parse_arithmetic_impl\<close> splits
  the text of an expression at its loosest operator, found by scanning the characters at parenthesis
  depth 0, and evaluates the parts on \<open>i64\<close>, here a 64-bit word read as a signed number. Every call
  goes one level deeper; the levels left below \<open>MAX_ARITHMETIC_DEPTH\<close> are the fuel. Expressions reach
  this evaluator after variables have been substituted.
\<close>

section \<open>Numbers\<close>

definition MAX_ARITHMETIC_DEPTH :: nat where "MAX_ARITHMETIC_DEPTH = 50"

definition i64_min :: i64 where "i64_min = 2 ^ 63"

text \<open>\<open>char::is_whitespace\<close> and \<open>str::trim\<close>.\<close>

definition is_whitespace :: "uchar \<Rightarrow> bool" where
  "is_whitespace c \<longleftrightarrow> 9 \<le> c \<and> c \<le> 13 \<or> c = 32 \<or> c = 133 \<or> c = 160 \<or> c = 5760 \<or> 8192 \<le> c \<and> c \<le> 8202 \<or>
     c = 8232 \<or> c = 8233 \<or> c = 8239 \<or> c = 8287 \<or> c = 12288"

definition trim :: "rstr \<Rightarrow> rstr" where
  "trim s = rev (dropWhile is_whitespace (rev (dropWhile is_whitespace s)))"

definition digit_of :: "uchar \<Rightarrow> nat option" where
  "digit_of c =
     (if 48 \<le> c \<and> c \<le> 57 then Some (c - 48)
      else if 97 \<le> c \<and> c \<le> 122 then Some (c - 87)
      else if 65 \<le> c \<and> c \<le> 90 then Some (c - 55)
      else None)"

fun radix_value :: "nat \<Rightarrow> nat \<Rightarrow> rstr \<Rightarrow> nat option" where
  "radix_value radix acc [] = Some acc"
| "radix_value radix acc (c # cs) =
     (case digit_of c of
        None \<Rightarrow> None
      | Some d \<Rightarrow> if d < radix then radix_value radix (acc * radix + d) cs else None)"

text \<open>\<open>i64::from_str_radix\<close>: an optional sign, at least one digit, in range.\<close>

definition from_str_radix :: "rstr \<Rightarrow> nat \<Rightarrow> int option" where
  "from_str_radix s radix =
     (let (neg, ds) = (case s of [] \<Rightarrow> (False, [])
                       | c # cs \<Rightarrow> if c = 45 then (True, cs) else if c = 43 then (False, cs) else (False, s))
      in if ds = [] then None
         else case radix_value radix 0 ds of
           None \<Rightarrow> None
         | Some n \<Rightarrow>
             (let v = (if neg then - int n else int n)
              in if - (2 ^ 63) \<le> v \<and> v < 2 ^ 63 then Some v else None))"

text \<open>\<open>str::parse::<u32>\<close>\<close>

definition parse_u32 :: "rstr \<Rightarrow> nat option" where
  "parse_u32 s =
     (let ds = (if s \<noteq> [] \<and> hd s = 43 then tl s else s)
      in if ds = [] \<or> \<not> list_all is_digit ds then None
         else if digits_value ds < 2 ^ 32 then Some (digits_value ds) else None)"

definition int_or_zero :: "int option \<Rightarrow> i64" where
  "int_or_zero r = (case r of None \<Rightarrow> 0 | Some v \<Rightarrow> word_of_int v)"

text \<open>Bases 37 to 64: digits, lower case, upper case, \<open>@\<close> and \<open>_\<close>; anything else gives 0.\<close>

definition base_n_digit :: "uchar \<Rightarrow> nat option" where
  "base_n_digit ch =
     (if 48 \<le> ch \<and> ch \<le> 57 then Some (ch - 48)
      else if 97 \<le> ch \<and> ch \<le> 122 then Some (10 + (ch - 97))
      else if 65 \<le> ch \<and> ch \<le> 90 then Some (36 + (ch - 65))
      else if ch = 64 then Some 62
      else if ch = 95 then Some 63
      else None)"

fun base_n_loop :: "nat \<Rightarrow> i64 \<Rightarrow> rstr \<Rightarrow> i64" where
  "base_n_loop base result [] = result"
| "base_n_loop base result (ch # chs) =
     (case base_n_digit ch of
        None \<Rightarrow> 0
      | Some d \<Rightarrow> if base \<le> d then 0 else base_n_loop base (result * of_nat base + of_nat d) chs)"

definition parse_base_n :: "rstr \<Rightarrow> nat \<Rightarrow> i64" where
  "parse_base_n value_str base = base_n_loop base 0 value_str"

text \<open>\<open>str::find\<close> for a character.\<close>

definition str_find_char :: "rstr \<Rightarrow> uchar \<Rightarrow> nat option" where
  "str_find_char s c = find (\<lambda>i. s ! i = c) [0..<length s]"

section \<open>Operators on \<open>i64\<close>\<close>

definition wrapping_div :: "i64 \<Rightarrow> i64 \<Rightarrow> i64" where
  "wrapping_div a b = word_of_int (sint a sdiv sint b)"

definition wrapping_rem :: "i64 \<Rightarrow> i64 \<Rightarrow> i64" where
  "wrapping_rem a b = word_of_int (sint a smod sint b)"

text \<open>\<open>x.clamp(0, 63) as u32\<close>\<close>

definition clamp63 :: "i64 \<Rightarrow> nat" where
  "clamp63 x = nat (min 63 (max 0 (sint x)))"

definition of_truth :: "bool \<Rightarrow> i64" where
  "of_truth b = (if b then 1 else 0)"

section \<open>Scanning for operators\<close>

text \<open>
  The loops of \<open>try_parse_arith_comparison\<close> and \<open>try_parse_arith_addmul\<close>: from the right or from
  the left, parentheses change the depth, and the first position at depth 0 that passes the test of
  the loop is the split.
\<close>

fun rscan :: "(nat \<Rightarrow> bool) \<Rightarrow> rstr \<Rightarrow> int \<Rightarrow> nat \<Rightarrow> nat option" where
  "rscan test cs depth 0 = None"
| "rscan test cs depth (Suc i) =
     (if cs ! i = 40 then rscan test cs (depth + 1) i
      else if cs ! i = 41 then rscan test cs (depth - 1) i
      else if depth = 0 \<and> test i then Some i
      else rscan test cs depth i)"

definition find_from_right :: "(nat \<Rightarrow> bool) \<Rightarrow> rstr \<Rightarrow> nat option" where
  "find_from_right test cs = rscan test cs 0 (length cs)"

fun lscan :: "(nat \<Rightarrow> bool) \<Rightarrow> int \<Rightarrow> nat \<Rightarrow> rstr \<Rightarrow> nat option" where
  "lscan test depth i [] = None"
| "lscan test depth i (c # cs) =
     (if c = 40 then lscan test (depth + 1) (i + 1) cs
      else if c = 41 then lscan test (depth - 1) (i + 1) cs
      else if depth = 0 \<and> test i then Some i
      else lscan test depth (i + 1) cs)"

definition find_from_left :: "(nat \<Rightarrow> bool) \<Rightarrow> rstr \<Rightarrow> nat option" where
  "find_from_left test cs = lscan test 0 0 cs"

text \<open>\<open>chars[i]\<close> is \<open>c\<close>, with the bounds tests of the guards.\<close>

definition here :: "rstr \<Rightarrow> nat \<Rightarrow> uchar \<Rightarrow> bool" where
  "here cs i c = (cs ! i = c)"

definition before :: "rstr \<Rightarrow> nat \<Rightarrow> uchar \<Rightarrow> bool" where
  "before cs i c = (0 < i \<and> cs ! (i - 1) = c)"

definition behind :: "rstr \<Rightarrow> nat \<Rightarrow> uchar \<Rightarrow> bool" where
  "behind cs i c = (i + 1 < length cs \<and> cs ! (i + 1) = c)"

text \<open>The colon of a conditional: nested conditionals and parentheses count.\<close>

fun colon_scan :: "int \<Rightarrow> nat \<Rightarrow> rstr \<Rightarrow> nat option" where
  "colon_scan depth j [] = None"
| "colon_scan depth j (c # cs) =
     (if c = 40 then colon_scan (depth + 1) (j + 1) cs
      else if c = 41 then colon_scan (depth - 1) (j + 1) cs
      else if c = 63 then colon_scan (depth + 1) (j + 1) cs
      else if c = 58 then (if depth = 0 then Some j else colon_scan (depth - 1) (j + 1) cs)
      else colon_scan depth (j + 1) cs)"

definition find_colon :: "rstr \<Rightarrow> nat \<Rightarrow> nat option" where
  "find_colon cs i = colon_scan 0 (i + 1) (drop (i + 1) cs)"

text \<open>\<open>starts_with('(') && ends_with(')')\<close> and the first parenthesis closes at the end.\<close>

fun wrapped_loop :: "nat \<Rightarrow> rstr \<Rightarrow> bool" where
  "wrapped_loop depth [] = (depth = 0)"
| "wrapped_loop depth (c # cs) =
     (if c = 40 then wrapped_loop (depth + 1) cs
      else if c = 41 then (if depth - 1 = 0 \<and> cs \<noteq> [] then False else wrapped_loop (depth - 1) cs)
      else wrapped_loop depth cs)"

definition wrapped :: "rstr \<Rightarrow> bool" where
  "wrapped s = (s \<noteq> [] \<and> hd s = 40 \<and> last s = 41 \<and> wrapped_loop 0 s)"

section \<open>One level of evaluation\<close>

text \<open>
  \<open>rec\<close> is the evaluation one level deeper. Each operator is a test for its loop, and what the loop
  does at the split.
\<close>

definition left_of :: "rstr \<Rightarrow> nat \<Rightarrow> rstr" where
  "left_of s i = take i s"

definition right_of :: "rstr \<Rightarrow> nat \<Rightarrow> rstr" where
  "right_of s i = drop (i + 1) s"

definition ternary_test :: "rstr \<Rightarrow> nat \<Rightarrow> bool" where
  "ternary_test s i = (here s i 63 \<and> find_colon s i \<noteq> None)"

definition or_test :: "rstr \<Rightarrow> nat \<Rightarrow> bool" where
  "or_test s i = (here s i 124 \<and> before s i 124)"

definition and_test :: "rstr \<Rightarrow> nat \<Rightarrow> bool" where
  "and_test s i = (here s i 38 \<and> before s i 38)"

definition bitor_test :: "rstr \<Rightarrow> nat \<Rightarrow> bool" where
  "bitor_test s i = (here s i 124 \<and> \<not> before s i 124 \<and> \<not> behind s i 124)"

definition xor_test :: "rstr \<Rightarrow> nat \<Rightarrow> bool" where
  "xor_test s i = here s i 94"

definition bitand_test :: "rstr \<Rightarrow> nat \<Rightarrow> bool" where
  "bitand_test s i = (here s i 38 \<and> \<not> before s i 38 \<and> \<not> behind s i 38)"

definition equality_test :: "rstr \<Rightarrow> nat \<Rightarrow> bool" where
  "equality_test s i = (here s i 61 \<and> (before s i 61 \<or> before s i 33))"

definition relation_test :: "rstr \<Rightarrow> nat \<Rightarrow> bool" where
  "relation_test s i =
     (here s i 61 \<and> (before s i 60 \<or> before s i 62) \<or>
      here s i 60 \<and> \<not> behind s i 61 \<and> \<not> behind s i 60 \<and> \<not> before s i 60 \<or>
      here s i 62 \<and> \<not> behind s i 61 \<and> \<not> behind s i 62 \<and> \<not> before s i 62)"

definition shift_test :: "rstr \<Rightarrow> nat \<Rightarrow> bool" where
  "shift_test s i =
     ((here s i 60 \<and> before s i 60 \<and> (i < 2 \<or> s ! (i - 2) \<noteq> 60) \<or>
       here s i 62 \<and> before s i 62 \<and> (i < 2 \<or> s ! (i - 2) \<noteq> 62)) \<and> \<not> behind s i 61)"

definition addsub_test :: "rstr \<Rightarrow> nat \<Rightarrow> bool" where
  "addsub_test s i =
     (0 < i \<and> (here s i 43 \<and> \<not> behind s i 43 \<and> \<not> before s i 43 \<or>
               here s i 45 \<and> \<not> behind s i 45 \<and> \<not> before s i 45))"

definition muldiv_test :: "rstr \<Rightarrow> nat \<Rightarrow> bool" where
  "muldiv_test s i = (here s i 42 \<and> \<not> behind s i 42 \<and> \<not> before s i 42 \<or> here s i 47 \<or> here s i 37)"

definition pow_test :: "rstr \<Rightarrow> nat \<Rightarrow> bool" where
  "pow_test s i = (here s i 42 \<and> behind s i 42)"

definition try_parse_arith_comparison :: "(rstr \<Rightarrow> i64) \<Rightarrow> rstr \<Rightarrow> i64 option" where
  "try_parse_arith_comparison rec s =
     (case find_from_left (ternary_test s) s of
        Some i \<Rightarrow>
          (let j = the (find_colon s i); cond = rec (left_of s i);
               then_val = rec (drop (i + 1) (take j s)); else_val = rec (right_of s j)
           in Some (if cond \<noteq> 0 then then_val else else_val))
      | None \<Rightarrow>
     (case find_from_right (or_test s) s of
        Some i \<Rightarrow>
          Some (if rec (left_of s (i - 1)) \<noteq> 0 then 1 else of_truth (rec (right_of s i) \<noteq> 0))
      | None \<Rightarrow>
     (case find_from_right (and_test s) s of
        Some i \<Rightarrow>
          Some (if rec (left_of s (i - 1)) = 0 then 0 else of_truth (rec (right_of s i) \<noteq> 0))
      | None \<Rightarrow>
     (case find_from_right (bitor_test s) s of
        Some i \<Rightarrow> Some (or (rec (left_of s i)) (rec (right_of s i)))
      | None \<Rightarrow>
     (case find_from_right (xor_test s) s of
        Some i \<Rightarrow> Some (xor (rec (left_of s i)) (rec (right_of s i)))
      | None \<Rightarrow>
     (case find_from_right (bitand_test s) s of
        Some i \<Rightarrow> Some (and (rec (left_of s i)) (rec (right_of s i)))
      | None \<Rightarrow>
     (case find_from_right (equality_test s) s of
        Some i \<Rightarrow>
          (let left = rec (left_of s (i - 1)); right = rec (right_of s i)
           in Some (of_truth (if before s i 61 then left = right else left \<noteq> right)))
      | None \<Rightarrow>
     (case find_from_right (relation_test s) s of
        Some i \<Rightarrow>
          (let left = sint (rec (left_of s (if here s i 61 then i - 1 else i))); right = sint (rec (right_of s i))
           in Some (of_truth
                (if here s i 61 then (if before s i 60 then left \<le> right else right \<le> left)
                 else if here s i 60 then left < right else right < left)))
      | None \<Rightarrow>
     (case find_from_right (shift_test s) s of
        Some i \<Rightarrow>
          (let left = rec (left_of s (i - 1)); right = rec (right_of s i)
           in Some (if here s i 60 then push_bit (clamp63 right) left else signed_drop_bit (clamp63 right) left))
      | None \<Rightarrow> None)))))))))"

definition try_parse_arith_addmul :: "(rstr \<Rightarrow> i64) \<Rightarrow> rstr \<Rightarrow> i64 option" where
  "try_parse_arith_addmul rec s =
     (case find_from_right (addsub_test s) s of
        Some i \<Rightarrow>
          (let left = rec (left_of s i); right = rec (right_of s i)
           in Some (if here s i 43 then left + right else left - right))
      | None \<Rightarrow>
     (case find_from_right (muldiv_test s) s of
        Some i \<Rightarrow>
          (let left = rec (left_of s i); right = rec (right_of s i)
           in Some (if here s i 42 then left * right
                    else if right = 0 then 0
                    else if here s i 47 then wrapping_div left right
                    else wrapping_rem left right))
      | None \<Rightarrow>
     (case find_from_left (pow_test s) s of
        Some i \<Rightarrow>
          (let left = rec (left_of s i); right = rec (drop (i + 2) s)
           in Some (left ^ clamp63 right))
      | None \<Rightarrow> None)))"

text \<open>The prefix operators, then the literals of the various bases.\<close>

definition literal_value :: "rstr \<Rightarrow> i64" where
  "literal_value s =
     (let plain_value =
        (if starts_with s [48, 120] \<or> starts_with s [48, 88] then int_or_zero (from_str_radix (drop 2 s) 16)
         else if starts_with s [48] \<and> 1 < length s \<and> list_all is_digit s then int_or_zero (from_str_radix (tl s) 8)
         else int_or_zero (parse_i64 (trim s)))
      in case str_find_char s 35 of
           None \<Rightarrow> plain_value
         | Some hash_pos \<Rightarrow>
             (case parse_u32 (take hash_pos s) of
                None \<Rightarrow> plain_value
              | Some base \<Rightarrow>
                  if 2 \<le> base \<and> base \<le> 36 then int_or_zero (from_str_radix (drop (hash_pos + 1) s) base)
                  else if 37 \<le> base \<and> base \<le> 64 then parse_base_n (drop (hash_pos + 1) s) base
                  else plain_value))"

definition prefixed :: "rstr \<Rightarrow> uchar \<Rightarrow> rstr option" where
  "prefixed s op =
     (if s \<noteq> [] \<and> hd s = op \<and> trim (tl s) \<noteq> [] then Some (trim (tl s)) else None)"

definition parse_arith_atom :: "(rstr \<Rightarrow> i64) \<Rightarrow> rstr \<Rightarrow> i64" where
  "parse_arith_atom rec s =
     (if parse_i64 (trim s) = Some (- (2 ^ 63)) then i64_min
      else case prefixed s 45 of
        Some rest \<Rightarrow> - rec rest
      | None \<Rightarrow>
     (case prefixed s 126 of
        Some rest \<Rightarrow> not (rec rest)
      | None \<Rightarrow>
     (case prefixed s 33 of
        Some rest \<Rightarrow> of_truth (rec rest = 0)
      | None \<Rightarrow> literal_value s)))"

fun parse_arithmetic_impl :: "nat \<Rightarrow> rstr \<Rightarrow> i64" where
  "parse_arithmetic_impl 0 s = 0"
| "parse_arithmetic_impl (Suc levels) s =
     (let expr = trim s; rec = (\<lambda>e. parse_arithmetic_impl levels e)
      in if expr = [] \<or> \<not> is_ascii expr then 0
         else if wrapped expr then rec (butlast (tl expr))
         else case try_parse_arith_comparison rec expr of
           Some val \<Rightarrow> val
         | None \<Rightarrow>
             (case try_parse_arith_addmul rec expr of
                Some val \<Rightarrow> val
              | None \<Rightarrow> parse_arith_atom rec expr))"

end
