(* ===== verification/ArithText.thy ===== *)
theory ArithText
  imports Arith
begin

text \<open>
  The arithmetic evaluator against a reference: expressions as a datatype with their value, written
  out with parentheses around every operand. The evaluator works on the text alone and finds the
  operator by scanning; this theory shows that it computes the value of the expression.
\<close>

section \<open>Expressions\<close>

datatype binop =
    Add | Sub | Mul | Div | Rem | Pow | Shl | Shr | Lt | Gt | Le | Ge | Equal | NotEqual
  | BitAnd | BitXor | BitOr | LogAnd | LogOr

datatype expr =
    Num nat
  | Neg expr
  | BitNot expr
  | LogNot expr
  | Bin binop expr expr
  | Cond expr expr expr

fun op_text :: "binop \<Rightarrow> rstr" where
  "op_text Add = [43]"
| "op_text Sub = [45]"
| "op_text Mul = [42]"
| "op_text Div = [47]"
| "op_text Rem = [37]"
| "op_text Pow = [42, 42]"
| "op_text Shl = [60, 60]"
| "op_text Shr = [62, 62]"
| "op_text Lt = [60]"
| "op_text Gt = [62]"
| "op_text Le = [60, 61]"
| "op_text Ge = [62, 61]"
| "op_text Equal = [61, 61]"
| "op_text NotEqual = [33, 61]"
| "op_text BitAnd = [38]"
| "op_text BitXor = [94]"
| "op_text BitOr = [124]"
| "op_text LogAnd = [38, 38]"
| "op_text LogOr = [124, 124]"

definition in_parens :: "rstr \<Rightarrow> rstr" where
  "in_parens s = 40 # s @ [41]"

fun expr_text :: "expr \<Rightarrow> rstr" where
  "expr_text (Num n) = nat_to_string n"
| "expr_text (Neg e) = 45 # in_parens (expr_text e)"
| "expr_text (BitNot e) = 126 # in_parens (expr_text e)"
| "expr_text (LogNot e) = 33 # in_parens (expr_text e)"
| "expr_text (Bin b e1 e2) = in_parens (expr_text e1) @ op_text b @ in_parens (expr_text e2)"
| "expr_text (Cond c e1 e2) =
     in_parens (expr_text c) @ 63 # in_parens (expr_text e1) @ 58 # in_parens (expr_text e2)"

text \<open>
  The value. Arithmetic wraps, comparisons are signed, division truncates towards zero and
  by zero is 0, a power is a repeated product, and shifts multiply and divide by a power of two.
\<close>

fun op_value :: "binop \<Rightarrow> i64 \<Rightarrow> i64 \<Rightarrow> i64" where
  "op_value Add a b = a + b"
| "op_value Sub a b = a - b"
| "op_value Mul a b = a * b"
| "op_value Div a b = (if b = 0 then 0 else word_of_int (sint a sdiv sint b))"
| "op_value Rem a b = (if b = 0 then 0 else word_of_int (sint a smod sint b))"
| "op_value Pow a b = a ^ unat b"
| "op_value Shl a b = a * 2 ^ unat b"
| "op_value Shr a b = word_of_int (sint a div 2 ^ unat b)"
| "op_value Lt a b = of_truth (sint a < sint b)"
| "op_value Gt a b = of_truth (sint b < sint a)"
| "op_value Le a b = of_truth (sint a \<le> sint b)"
| "op_value Ge a b = of_truth (sint b \<le> sint a)"
| "op_value Equal a b = of_truth (a = b)"
| "op_value NotEqual a b = of_truth (a \<noteq> b)"
| "op_value BitAnd a b = and a b"
| "op_value BitXor a b = xor a b"
| "op_value BitOr a b = or a b"
| "op_value LogAnd a b = of_truth (a \<noteq> 0 \<and> b \<noteq> 0)"
| "op_value LogOr a b = of_truth (a \<noteq> 0 \<or> b \<noteq> 0)"

fun expr_value :: "expr \<Rightarrow> i64" where
  "expr_value (Num n) = of_nat n"
| "expr_value (Neg e) = - expr_value e"
| "expr_value (BitNot e) = not (expr_value e)"
| "expr_value (LogNot e) = of_truth (expr_value e = 0)"
| "expr_value (Bin b e1 e2) = op_value b (expr_value e1) (expr_value e2)"
| "expr_value (Cond c e1 e2) = (if expr_value c \<noteq> 0 then expr_value e1 else expr_value e2)"

text \<open>The same with shift counts and exponents clamped to the range from 0 to 63, as the evaluator does.\<close>

fun clamped_op :: "binop \<Rightarrow> i64 \<Rightarrow> i64 \<Rightarrow> i64" where
  "clamped_op Add a b = a + b"
| "clamped_op Sub a b = a - b"
| "clamped_op Mul a b = a * b"
| "clamped_op Div a b = (if b = 0 then 0 else word_of_int (sint a sdiv sint b))"
| "clamped_op Rem a b = (if b = 0 then 0 else word_of_int (sint a smod sint b))"
| "clamped_op Pow a b = a ^ clamp63 b"
| "clamped_op Shl a b = push_bit (clamp63 b) a"
| "clamped_op Shr a b = signed_drop_bit (clamp63 b) a"
| "clamped_op Lt a b = of_truth (sint a < sint b)"
| "clamped_op Gt a b = of_truth (sint b < sint a)"
| "clamped_op Le a b = of_truth (sint a \<le> sint b)"
| "clamped_op Ge a b = of_truth (sint b \<le> sint a)"
| "clamped_op Equal a b = of_truth (a = b)"
| "clamped_op NotEqual a b = of_truth (a \<noteq> b)"
| "clamped_op BitAnd a b = and a b"
| "clamped_op BitXor a b = xor a b"
| "clamped_op BitOr a b = or a b"
| "clamped_op LogAnd a b = of_truth (a \<noteq> 0 \<and> b \<noteq> 0)"
| "clamped_op LogOr a b = of_truth (a \<noteq> 0 \<or> b \<noteq> 0)"

fun clamped_value :: "expr \<Rightarrow> i64" where
  "clamped_value (Num n) = of_nat n"
| "clamped_value (Neg e) = - clamped_value e"
| "clamped_value (BitNot e) = not (clamped_value e)"
| "clamped_value (LogNot e) = of_truth (clamped_value e = 0)"
| "clamped_value (Bin b e1 e2) = clamped_op b (clamped_value e1) (clamped_value e2)"
| "clamped_value (Cond c e1 e2) = (if clamped_value c \<noteq> 0 then clamped_value e1 else clamped_value e2)"

text \<open>Exponents and shift counts are from 0 to 63; a negative one, read without its sign, is larger.\<close>

fun counts_ok :: "expr \<Rightarrow> bool" where
  "counts_ok (Num n) = True"
| "counts_ok (Neg e) = counts_ok e"
| "counts_ok (BitNot e) = counts_ok e"
| "counts_ok (LogNot e) = counts_ok e"
| "counts_ok (Bin b e1 e2) = (counts_ok e1 \<and> counts_ok e2 \<and> (b \<in> {Pow, Shl, Shr} \<longrightarrow> unat (expr_value e2) \<le> 63))"
| "counts_ok (Cond c e1 e2) = (counts_ok c \<and> counts_ok e1 \<and> counts_ok e2)"

lemma clamp63_count: "unat b \<le> 63 \<Longrightarrow> clamp63 b = unat b"
proof -
  assume b: "unat b \<le> 63"
  then have u: "uint b \<le> 63" using uint_nat [of b] by linarith
  have "sint b = uint b"
    unfolding sint_uint by (rule signed_take_bit_int_eq_self) (use u in \<open>auto intro: order_trans [OF _ uint_ge_0]\<close>)
  then have "sint b = int (unat b)" by (simp only: uint_nat)
  with u show ?thesis by (simp add: clamp63_def min_absorb2)
qed

lemma clamped_op_value: "b \<in> {Pow, Shl, Shr} \<longrightarrow> unat y \<le> 63 \<Longrightarrow> clamped_op b x y = op_value b x y"
proof -
  assume c: "b \<in> {Pow, Shl, Shr} \<longrightarrow> unat y \<le> 63"
  have shr: "signed_drop_bit n x = word_of_int (sint x div 2 ^ n)" for n
    by (simp flip: drop_bit_eq_div sint_signed_drop_bit_eq)
  from c show ?thesis by (cases b) (simp_all add: clamp63_count push_bit_eq_mult shr)
qed

lemma clamped_expr_value: "counts_ok e \<Longrightarrow> clamped_value e = expr_value e"
  by (induction e) (simp_all add: clamped_op_value)

fun expr_ok :: "expr \<Rightarrow> bool" where
  "expr_ok (Num n) = (n < 2 ^ 63)"
| "expr_ok (Neg e) = expr_ok e"
| "expr_ok (BitNot e) = expr_ok e"
| "expr_ok (LogNot e) = expr_ok e"
| "expr_ok (Bin b e1 e2) = (expr_ok e1 \<and> expr_ok e2)"
| "expr_ok (Cond c e1 e2) = (expr_ok c \<and> expr_ok e1 \<and> expr_ok e2)"

text \<open>Levels of evaluation an expression needs: one for the operator and one for the parentheses.\<close>

fun levels :: "expr \<Rightarrow> nat" where
  "levels (Num n) = 1"
| "levels (Neg e) = levels e + 2"
| "levels (BitNot e) = levels e + 2"
| "levels (LogNot e) = levels e + 2"
| "levels (Bin b e1 e2) = max (levels e1) (levels e2) + 2"
| "levels (Cond c e1 e2) = max (levels c) (max (levels e1) (levels e2)) + 2"

section \<open>Balanced text\<close>

text \<open>
  Text in which parentheses match, and question marks match colons within them: every scan passes
  over it at any depth that is not 0.
\<close>

inductive balanced :: "rstr \<Rightarrow> bool" where
  balanced_Nil: "balanced []"
| balanced_char: "c \<notin> {40, 41, 58, 63} \<Longrightarrow> balanced [c]"
| balanced_append: "balanced a \<Longrightarrow> balanced b \<Longrightarrow> balanced (a @ b)"
| balanced_group: "balanced a \<Longrightarrow> balanced (in_parens a)"
| balanced_cond: "balanced a \<Longrightarrow> balanced (63 # a @ [58])"

lemma balanced_Cons: "c \<notin> {40, 41, 58, 63} \<Longrightarrow> balanced s \<Longrightarrow> balanced (c # s)"
  using balanced_append [OF balanced_char] by fastforce

lemma balanced_digits: "list_all is_digit s \<Longrightarrow> balanced s"
  by (induction s) (auto simp: is_digit_def intro: balanced_Nil balanced_Cons)

lemma balanced_op: "balanced (op_text b)"
  by (cases b) (auto intro!: balanced_Nil balanced_Cons)

lemma balanced_expr: "balanced (expr_text e)"
proof (induction e)
  case (Num n)
  show ?case using nat_to_string_digits balanced_digits by simp
next
  case (Cond c e1 e2)
  have "balanced (in_parens (expr_text c) @ (63 # in_parens (expr_text e1) @ [58]) @ in_parens (expr_text e2))"
    by (intro balanced_append [OF _ balanced_append] balanced_group balanced_cond Cond)
  then show ?case by simp
qed (auto intro!: balanced_append balanced_group balanced_op balanced_Cons)

text \<open>The scans over balanced text.\<close>

lemma rscan_balanced:
  "balanced w \<Longrightarrow> depth < 0 \<Longrightarrow>
   rscan test (p @ w @ q) depth (length p + length w) = rscan test (p @ w @ q) depth (length p)"
proof (induction w arbitrary: p q depth rule: balanced.induct)
  case (balanced_append a b)
  have "rscan test ((p @ a) @ b @ q) depth (length (p @ a) + length b) = rscan test ((p @ a) @ b @ q) depth (length (p @ a))"
    by (rule balanced_append.IH(2)) fact
  then show ?case using balanced_append.IH(1) [where p = p and q = "b @ q" and depth = depth] balanced_append.prems
    by (simp add: add.assoc)
next
  case (balanced_group a)
  have "rscan test ((p @ [40]) @ a @ (41 # q)) (depth - 1) (length (p @ [40]) + length a) =
      rscan test ((p @ [40]) @ a @ (41 # q)) (depth - 1) (length (p @ [40]))"
    by (rule balanced_group.IH) (use balanced_group.prems in simp)
  then show ?case by (simp add: in_parens_def nth_append)
next
  case (balanced_cond a)
  have "rscan test ((p @ [63]) @ a @ (58 # q)) depth (length (p @ [63]) + length a) =
      rscan test ((p @ [63]) @ a @ (58 # q)) depth (length (p @ [63]))"
    by (rule balanced_cond.IH) (use balanced_cond.prems in simp)
  then show ?case using balanced_cond.prems by (simp add: nth_append)
qed (auto simp: nth_append)

lemma lscan_balanced:
  "balanced w \<Longrightarrow> 0 < depth \<Longrightarrow> lscan test depth i (w @ q) = lscan test depth (i + length w) q"
  by (induction w arbitrary: q depth i rule: balanced.induct) (auto simp: in_parens_def add.assoc)

lemma colon_scan_balanced:
  "balanced w \<Longrightarrow> 0 < depth \<Longrightarrow> colon_scan depth i (w @ q) = colon_scan depth (i + length w) q"
  by (induction w arbitrary: q depth i rule: balanced.induct) (auto simp: in_parens_def add.assoc)

lemma wrapped_loop_balanced:
  "balanced w \<Longrightarrow> 0 < depth \<Longrightarrow> wrapped_loop depth (w @ q) = wrapped_loop depth q"
  by (induction w arbitrary: q depth rule: balanced.induct) (auto simp: in_parens_def)

text \<open>Over a group at depth 0.\<close>

lemma rscan_group:
  "balanced w \<Longrightarrow> rscan test (p @ in_parens w @ q) 0 (length p + length w + 2) = rscan test (p @ in_parens w @ q) 0 (length p)"
  using rscan_balanced [of w "- 1" test "p @ [40]" "41 # q"] by (simp add: in_parens_def nth_append)

lemma lscan_group: "balanced w \<Longrightarrow> lscan test 0 i (in_parens w @ q) = lscan test 0 (i + length w + 2) q"
  by (simp add: in_parens_def lscan_balanced)

lemma colon_scan_group:
  "balanced w \<Longrightarrow> colon_scan 0 i (in_parens w @ q) = colon_scan 0 (i + length w + 2) q"
  by (simp add: in_parens_def colon_scan_balanced)

lemma wrapped_group: "balanced w \<Longrightarrow> wrapped (in_parens w)"
  by (simp add: wrapped_def in_parens_def wrapped_loop_balanced)

lemma not_wrapped_groups: "balanced w \<Longrightarrow> q \<noteq> [] \<Longrightarrow> \<not> wrapped (in_parens w @ q)"
  by (simp add: wrapped_def in_parens_def wrapped_loop_balanced)

text \<open>
  A binary expression is two groups with the operator between them: a scan from the right passes
  the right group, looks at the characters of the operator, passes the left group and ends.
\<close>

lemma rscan_two_groups:
  assumes "balanced w1" and "balanced w2" and "list_all (\<lambda>c. c \<noteq> 40 \<and> c \<noteq> 41) op"
  shows "find_from_right test (in_parens w1 @ op @ in_parens w2) =
    find test (rev [length w1 + 2..<length w1 + 2 + length op])"
proof -
  let ?s = "in_parens w1 @ op @ in_parens w2" and ?n = "length w1 + 2"
  have last_group: "find_from_right test ?s = rscan test ?s 0 (?n + length op)"
    using rscan_group [OF assms(2), of test "in_parens w1 @ op" "[]"]
    by (simp add: find_from_right_def in_parens_def add.assoc add.commute add.left_commute)
  have first_group: "rscan test ?s 0 ?n = None"
    using rscan_group [OF assms(1), of test "[]" "op @ in_parens w2"] by simp
  have "rscan test ?s 0 (?n + k) = find test (rev [?n..<?n + k])" if "k \<le> length op" for k
    using that
  proof (induction k)
    case 0
    then show ?case using first_group by simp
  next
    case (Suc k)
    have at: "?s ! (?n + k) = op ! k" using Suc.prems by (simp add: in_parens_def nth_append)
    have "op ! k \<noteq> 40 \<and> op ! k \<noteq> 41" using assms(3) Suc.prems by (simp add: list_all_length)
    then show ?case using Suc at by simp
  qed
  then show ?thesis using last_group by simp
qed

lemma lscan_two_groups:
  assumes "balanced w1" and "balanced w2" and "list_all (\<lambda>c. c \<noteq> 40 \<and> c \<noteq> 41) op"
  shows "find_from_left test (in_parens w1 @ op @ in_parens w2) =
    find test [length w1 + 2..<length w1 + 2 + length op]"
proof -
  have "lscan test 0 i (op @ in_parens w2) = find test [i..<i + length op]" for i
    using assms(3)
  proof (induction op arbitrary: i)
    case Nil
    then show ?case using lscan_group [OF assms(2), of test i "[]"] by simp
  next
    case (Cons c op)
    have "[i..<i + length (c # op)] = i # [i + 1..<i + 1 + length op]"
      using upt_conv_Cons [of i "i + length (c # op)"] by simp
    then show ?case using Cons by simp
  qed
  then show ?thesis by (simp add: find_from_left_def lscan_group [OF assms(1)] add.commute)
qed

lemmas tests = ternary_test_def or_test_def and_test_def bitor_test_def xor_test_def bitand_test_def
  equality_test_def relation_test_def shift_test_def addsub_test_def muldiv_test_def pow_test_def

lemma two_positions:
  "[n..<n + 1] = [n]"
  "[n..<n + 2] = [n, Suc n]"
  by (simp_all add: upt_rec [of n] upt_rec [of "Suc n"])

lemma around_one:
  assumes "s = in_parens w1 @ [a] @ in_parens w2" and "n = length w1 + 2"
  shows "here s n c = (a = c)" and "before s n c = (41 = c)" and "behind s n c = (40 = c)"
    and "left_of s n = in_parens w1" and "right_of s n = in_parens w2" and "0 < n"
  using assms
  by (auto simp: here_def before_def behind_def left_of_def right_of_def in_parens_def nth_append)

lemma around_two:
  assumes "s = in_parens w1 @ [a, b] @ in_parens w2" and "n = length w1 + 2"
  shows "here s n c = (a = c)" and "before s n c = (41 = c)" and "behind s n c = (b = c)"
    and "here s (Suc n) c = (b = c)" and "before s (Suc n) c = (a = c)" and "behind s (Suc n) c = (40 = c)"
    and "s ! (n - Suc 0) = 41" and "left_of s n = in_parens w1" and "right_of s (Suc n) = in_parens w2"
    and "drop (Suc (Suc n)) s = in_parens w2" and "2 \<le> n"
  using assms
  by (auto simp: here_def before_def behind_def left_of_def right_of_def in_parens_def nth_append)

text \<open>The operator loops of the two functions at a binary expression.\<close>

lemma split_one:
  assumes "balanced w1" and "balanced w2" and "a \<noteq> 40" and "a \<noteq> 41"
    and "s = in_parens w1 @ [a] @ in_parens w2" and "n = length w1 + 2"
  shows "find_from_right test s = (if test n then Some n else None)"
    and "find_from_left test s = (if test n then Some n else None)"
  using rscan_two_groups [OF assms(1,2), of "[a]" test] lscan_two_groups [OF assms(1,2), of "[a]" test] assms(3-)
    two_positions(1) [of n]
  by simp_all

lemma split_two:
  assumes "balanced w1" and "balanced w2" and "a \<noteq> 40" and "a \<noteq> 41" and "b \<noteq> 40" and "b \<noteq> 41"
    and "s = in_parens w1 @ [a, b] @ in_parens w2" and "n = length w1 + 2"
  shows "find_from_right test s = (if test (Suc n) then Some (Suc n) else if test n then Some n else None)"
    and "find_from_left test s = (if test n then Some n else if test (Suc n) then Some (Suc n) else None)"
  using rscan_two_groups [OF assms(1,2), of "[a, b]" test] lscan_two_groups [OF assms(1,2), of "[a, b]" test] assms(3-)
    two_positions(2) [of n]
  by simp_all

definition split_value :: "(rstr \<Rightarrow> i64) \<Rightarrow> rstr \<Rightarrow> i64 option" where
  "split_value rec s =
     (case try_parse_arith_comparison rec s of Some v \<Rightarrow> Some v | None \<Rightarrow> try_parse_arith_addmul rec s)"

lemma split_value_one:
  assumes "balanced w1" and "balanced w2" and "op_text b = [a]"
  shows "split_value rec (in_parens w1 @ op_text b @ in_parens w2) =
    Some (clamped_op b (rec (in_parens w1)) (rec (in_parens w2)))"
proof -
  define s n where "s = in_parens w1 @ [a] @ in_parens w2" and "n = length w1 + 2"
  have a: "a \<noteq> 40" "a \<noteq> 41" using assms(3) by (cases b; auto)+
  note scan = split_one [OF assms(1,2) a s_def n_def]
  note at = around_one [OF s_def n_def]
  have "split_value rec s = Some (clamped_op b (rec (in_parens w1)) (rec (in_parens w2)))"
    using assms(3)
    by (cases b) (simp_all add: split_value_def try_parse_arith_comparison_def try_parse_arith_addmul_def scan at tests
        wrapping_div_def wrapping_rem_def Let_def)
  then show ?thesis using assms(3) s_def by simp
qed

lemma split_value_two:
  assumes "balanced w1" and "balanced w2" and "op_text b = [a, a2]"
  shows "split_value rec (in_parens w1 @ op_text b @ in_parens w2) =
    Some (clamped_op b (rec (in_parens w1)) (rec (in_parens w2)))"
proof -
  define s n where "s = in_parens w1 @ [a, a2] @ in_parens w2" and "n = length w1 + 2"
  have a: "a \<noteq> 40" "a \<noteq> 41" "a2 \<noteq> 40" "a2 \<noteq> 41" using assms(3) by (cases b; auto)+
  note scan = split_two [OF assms(1,2) a s_def n_def]
  note at = around_two [OF s_def n_def]
  have "split_value rec s = Some (clamped_op b (rec (in_parens w1)) (rec (in_parens w2)))"
    using assms(3)
    by (cases b) (simp_all add: split_value_def try_parse_arith_comparison_def try_parse_arith_addmul_def scan at tests
        of_truth_def Let_def)
  then show ?thesis using assms(3) s_def by simp
qed

lemma op_text_cases:
  obtains a where "op_text b = [a]" | a a2 where "op_text b = [a, a2]"
  by (cases b) auto

lemma split_value_binary:
  assumes "balanced w1" and "balanced w2"
  shows "split_value rec (in_parens w1 @ op_text b @ in_parens w2) =
    Some (clamped_op b (rec (in_parens w1)) (rec (in_parens w2)))"
  using assms by (cases b rule: op_text_cases) (blast intro: split_value_one split_value_two)+

section \<open>Conditionals, prefix operators and numbers\<close>

lemma split_value_conditional:
  assumes "balanced w1" and "balanced w2" and "balanced w3"
  shows "split_value rec (in_parens w1 @ 63 # in_parens w2 @ 58 # in_parens w3) =
    Some (if rec (in_parens w1) \<noteq> 0 then rec (in_parens w2) else rec (in_parens w3))"
proof -
  let ?s = "in_parens w1 @ 63 # in_parens w2 @ 58 # in_parens w3" and ?n = "length w1 + 2"
  let ?m = "length w1 + 2 + 1 + (length w2 + 2)"
  have rest: "drop (?n + 1) ?s = in_parens w2 @ 58 # in_parens w3"
    by (simp add: in_parens_def)
  have colon: "find_colon ?s ?n = Some ?m"
    unfolding find_colon_def rest by (simp add: colon_scan_group [OF assms(2)])
  have "find_from_left (ternary_test ?s) ?s = Some ?n"
    using colon lscan_group [OF assms(1), of "ternary_test ?s" 0 "63 # in_parens w2 @ 58 # in_parens w3"]
    by (simp add: find_from_left_def ternary_test_def here_def in_parens_def nth_append)
  moreover have "left_of ?s ?n = in_parens w1" "right_of ?s ?m = in_parens w3"
      "drop (?n + 1) (take ?m ?s) = in_parens w2"
    by (simp_all add: left_of_def right_of_def in_parens_def numeral_eq_Suc)
  ultimately show ?thesis
    using colon by (simp add: split_value_def try_parse_arith_comparison_def Let_def del: One_nat_def)
qed

lemma rscan_None: "(\<And>j. j < i \<Longrightarrow> \<not> test j) \<Longrightarrow> rscan test cs depth i = None"
  by (induction i arbitrary: depth) auto

lemma lscan_None: "(\<And>j. j < i + length cs \<Longrightarrow> \<not> test j) \<Longrightarrow> lscan test depth i cs = None"
  by (induction cs arbitrary: depth i) auto

lemma scan_None:
  assumes "\<And>j. j < length cs \<Longrightarrow> \<not> test j"
  shows "find_from_right test cs = None" and "find_from_left test cs = None"
  using assms by (simp_all add: find_from_right_def find_from_left_def rscan_None lscan_None)

text \<open>A prefix operator is at position 0, where no loop splits.\<close>

lemma prefix_scan:
  assumes "balanced w" and "c \<noteq> 40" and "c \<noteq> 41"
  shows "find_from_right test (c # in_parens w) = (if test 0 then Some 0 else None)"
    and "find_from_left test (c # in_parens w) = (if test 0 then Some 0 else None)"
  using rscan_group [OF assms(1), of test "[c]" "[]"] lscan_group [OF assms(1), of test 1 "[]"] assms(2,3)
  by (simp_all add: find_from_right_def find_from_left_def in_parens_def)

lemma split_value_prefix:
  assumes "balanced w" and "c \<in> {45, 126, 33}"
  shows "split_value rec (c # in_parens w) = None"
proof -
  have c: "c \<noteq> 40" "c \<noteq> 41" using assms(2) by auto
  show ?thesis
    using assms(2)
    by (auto simp: split_value_def try_parse_arith_comparison_def try_parse_arith_addmul_def prefix_scan [OF assms(1) c]
        tests here_def before_def)
qed

lemma split_value_digits:
  assumes "list_all is_digit s"
  shows "split_value rec s = None"
proof -
  have d: "48 \<le> s ! j \<and> s ! j \<le> 57" if "j < length s" for j
    using assms that by (simp add: list_all_length is_digit_def)
  have "\<not> test j" if "j < length s"
    and "test \<in> {ternary_test s, or_test s, and_test s, bitor_test s, xor_test s, bitand_test s,
      equality_test s, relation_test s, shift_test s, addsub_test s, muldiv_test s, pow_test s}" for test j
    using d [OF that(1)] that(2) by (auto simp: tests here_def)
  then have none: "find_from_right test s = None \<and> find_from_left test s = None"
    if "test \<in> {ternary_test s, or_test s, and_test s, bitor_test s, xor_test s, bitand_test s,
      equality_test s, relation_test s, shift_test s, addsub_test s, muldiv_test s, pow_test s}" for test
    using scan_None [of s test] that by blast
  show ?thesis
    using none by (simp add: split_value_def try_parse_arith_comparison_def try_parse_arith_addmul_def)
qed

end
