(* ===== verification/ArithExpand.thy ===== *)
theory ArithExpand
  imports Arith
begin

text \<open>
  What happens to the text of an arithmetic expression before it is parsed, \<open>interpreter/arithmetic.rs\<close>: variables,
  array elements and \<open>${...}\<close> are replaced by their values, a value that is itself an expression is resolved
  recursively, and a budget of fuel, the depth and the set of names being resolved bound the work. Reading a variable and
  the expansion of \<open>${...}\<close> are parameters. Where the code counts the depth up to \<open>MAX_ARITHMETIC_DEPTH\<close>, the
  definitions count the levels that are left.
\<close>

section \<open>State\<close>

definition MAX_ARITHMETIC_EXPANSION_FUEL :: nat where "MAX_ARITHMETIC_EXPANSION_FUEL = 8192"
definition MAX_ARITHMETIC_EXPANSION_BYTES :: nat where "MAX_ARITHMETIC_EXPANSION_BYTES = 64 * 1024"

record arith_state =
  as_resolving :: "rstr list"
  as_fuel :: nat

definition spend :: "nat \<Rightarrow> arith_state \<Rightarrow> arith_state option" where
  "spend amount st = (if as_fuel st < amount then None else Some (st\<lparr>as_fuel := as_fuel st - amount\<rparr>))"

definition enter_var :: "rstr \<Rightarrow> arith_state \<Rightarrow> arith_state option" where
  "enter_var name st = (if name \<in> set (as_resolving st) then None else Some (st\<lparr>as_resolving := as_resolving st @ [name]\<rparr>))"

definition exit_var :: "arith_state \<Rightarrow> arith_state" where
  "exit_var st = st\<lparr>as_resolving := butlast (as_resolving st)\<rparr>"

text \<open>
  What the evaluator reads: \<open>expand_variable\<close>, the indexed arrays, and \<open>expand_brace_expr_in_arithmetic\<close>, which gets
  the levels left and the state.
\<close>

record arith_env =
  ae_variable :: "rstr \<Rightarrow> rstr"
  ae_arrays :: "rstr \<Rightarrow> (nat \<Rightarrow> rstr option) option"
  ae_braces :: "nat \<Rightarrow> rstr \<Rightarrow> arith_state \<Rightarrow> rstr \<times> arith_state"

section \<open>The scan of a text\<close>

definition is_name_start :: "uchar \<Rightarrow> bool" where
  "is_name_start c \<longleftrightarrow> 65 \<le> c \<and> c \<le> 90 \<or> 97 \<le> c \<and> c \<le> 122 \<or> c = 95"

definition is_name_char :: "uchar \<Rightarrow> bool" where
  "is_name_char c \<longleftrightarrow> is_name_start c \<or> is_digit c"

definition is_valid_var_name :: "rstr \<Rightarrow> bool" where
  "is_valid_var_name name = (case name of [] \<Rightarrow> False | c # cs \<Rightarrow> is_name_start c \<and> list_all is_name_char cs)"

text \<open>The text up to the closing character that matches, and the rest after it.\<close>

fun delimited :: "uchar \<Rightarrow> uchar \<Rightarrow> nat \<Rightarrow> rstr \<Rightarrow> rstr \<Rightarrow> rstr \<times> rstr" where
  "delimited opening closing depth acc [] = (acc, [])"
| "delimited opening closing depth acc (c # cs) =
     (if c = opening then delimited opening closing (depth + 1) (acc @ [c]) cs
      else if c = closing then (if depth = 1 then (acc, cs) else delimited opening closing (depth - 1) (acc @ [c]) cs)
      else delimited opening closing depth (acc @ [c]) cs)"

definition or_zero :: "rstr \<Rightarrow> rstr" where
  "or_zero v = (if v = [] then [48] else v)"

type_synonym resolver = "rstr \<Rightarrow> arith_state \<Rightarrow> rstr \<times> arith_state"

text \<open>
  One turn of the loop of \<open>expand_arithmetic_vars_depth_state\<close>: what is appended to the result, whether a numeric literal
  goes on, and what is left to read. \<open>resolve\<close> is \<open>resolve_arith_var\<close>, \<open>named\<close> is \<open>resolve_arith_named_var\<close>,
  \<open>index\<close> evaluates an index and \<open>braces\<close> the inside of \<open>${...}\<close>, all at the depth of the loop.
\<close>

definition expand_turn ::
  "arith_env \<Rightarrow> resolver \<Rightarrow> (rstr \<Rightarrow> resolver) \<Rightarrow> (rstr \<Rightarrow> arith_state \<Rightarrow> i64 \<times> arith_state) \<Rightarrow> resolver \<Rightarrow>
   bool \<Rightarrow> uchar \<Rightarrow> rstr \<Rightarrow> arith_state \<Rightarrow> rstr \<times> bool \<times> rstr \<times> arith_state" where
  "expand_turn E resolve named index braces in_literal ch cs st =
     (if ch = 36 then
        (case cs of
           c # cs' \<Rightarrow>
             if c = 123 then
               (case delimited 123 125 1 [] cs' of
                  (content, rest) \<Rightarrow> (case braces content st of (v, st) \<Rightarrow> (or_zero v, False, rest, st)))
             else if c \<in> {35, 63, 36, 33, 64, 42, 45} then (or_zero (ae_variable E [c]), False, cs', st)
             else (let name = takeWhile is_name_char cs
                   in if name \<noteq> [] then (or_zero (ae_variable E name), False, dropWhile is_name_char cs, st)
                      else ([ch], False, cs, st))
         | [] \<Rightarrow> ([ch], False, cs, st))
      else if ch = 35 then ([ch], True, cs, st)
      else if in_literal \<and> is_name_char ch then ([ch], True, cs, st)
      else if is_digit ch then
        (case cs of
           c # cs' \<Rightarrow> if ch = 48 \<and> (c = 120 \<or> c = 88) then ([ch, c], True, cs', st) else ([ch], in_literal, cs, st)
         | [] \<Rightarrow> ([ch], in_literal, cs, st))
      else if is_name_start ch then
        (let name = ch # takeWhile is_name_char cs; rest = dropWhile is_name_char cs
         in (case rest of
               c # rest' \<Rightarrow>
                 if c = 91 then
                   (case delimited 91 93 1 [] rest' of
                      (index_expr, rest) \<Rightarrow>
                        (case index index_expr st of
                           (idx, st) \<Rightarrow>
                             (case ae_arrays E name of
                                Some arr \<Rightarrow>
                                  (case resolve (case arr (nat (sint idx)) of Some v \<Rightarrow> v | None \<Rightarrow> []) st of
                                     (v, st) \<Rightarrow> (v, False, rest, st))
                              | None \<Rightarrow>
                                  if idx = 0
                                  then (case resolve (ae_variable E name) st of (v, st) \<Rightarrow> (v, False, rest, st))
                                  else ([48], False, rest, st))))
                 else (case named name (ae_variable E name) st of (v, st) \<Rightarrow> (v, False, rest, st))
             | [] \<Rightarrow> (case named name (ae_variable E name) st of (v, st) \<Rightarrow> (v, False, rest, st))))
      else ([ch], False, cs, st))"

lemma delimited_shorter: "length (snd (delimited opening closing depth acc cs)) \<le> length cs"
  by (induction cs arbitrary: depth acc) (auto intro: le_SucI)

lemma expand_turn_shorter:
  "expand_turn E resolve named index braces in_literal ch cs st = (out, in_literal', rest, st') \<Longrightarrow> length rest \<le> length cs"
proof -
  have tail: "length r \<le> length cs" if "dropWhile is_name_char cs = c # r" for c r
    using that length_dropWhile_le [of is_name_char cs] by simp
  have inside: "length rest \<le> length cs" if "delimited a b (Suc 0) [] cs = (x, rest)" for a b x rest and cs :: rstr
    using that delimited_shorter [of a b "Suc 0" "[]" cs] by simp
  assume "expand_turn E resolve named index braces in_literal ch cs st = (out, in_literal', rest, st')"
  then show ?thesis
    using length_dropWhile_le [of is_name_char cs]
    by (auto simp: expand_turn_def Let_def split: if_splits list.splits prod.splits option.splits
        dest!: inside tail intro: le_SucI length_dropWhile_le)
qed

function expand_loop ::
  "arith_env \<Rightarrow> resolver \<Rightarrow> (rstr \<Rightarrow> resolver) \<Rightarrow> (rstr \<Rightarrow> arith_state \<Rightarrow> i64 \<times> arith_state) \<Rightarrow> resolver \<Rightarrow>
   bool \<Rightarrow> rstr \<Rightarrow> rstr \<Rightarrow> arith_state \<Rightarrow> rstr \<times> arith_state" where
  "expand_loop E resolve named index braces in_literal result [] st = (result, st)"
| "expand_loop E resolve named index braces in_literal result (ch # cs) st =
     (case expand_turn E resolve named index braces in_literal ch cs st of
        (out, in_literal, rest, st) \<Rightarrow>
          if MAX_ARITHMETIC_EXPANSION_BYTES < byte_len (result @ out) then ([48], st)
          else expand_loop E resolve named index braces in_literal (result @ out) rest st)"
  by pat_completeness auto

termination
  by (relation "measure (\<lambda>(E, resolve, named, index, braces, in_literal, result, cs, st). length cs)")
    (auto dest: expand_turn_shorter [OF sym] simp: le_imp_less_Suc)

definition resolve_named :: "resolver \<Rightarrow> rstr \<Rightarrow> resolver" where
  "resolve_named resolve name v st =
     (case enter_var name st of
        None \<Rightarrow> ([48], st)
      | Some st \<Rightarrow> (case resolve v st of (resolved, st) \<Rightarrow> (resolved, exit_var st)))"

definition expand_vars ::
  "arith_env \<Rightarrow> nat \<Rightarrow> resolver \<Rightarrow> (rstr \<Rightarrow> arith_state \<Rightarrow> i64 \<times> arith_state) \<Rightarrow> resolver" where
  "expand_vars E levels resolve index expr st =
     (if levels = 0 then ([48], st)
      else case spend (max (byte_len expr) 1) st of
             None \<Rightarrow> ([48], st)
           | Some st \<Rightarrow>
               expand_loop E resolve (resolve_named resolve) index (ae_braces E (levels - 1)) False []
                 (filter (\<lambda>c. c \<noteq> 34) expr) st)"

text \<open>The value of a variable, and the evaluation of an expression, by the levels left.\<close>

fun resolve_arith_var :: "arith_env \<Rightarrow> nat \<Rightarrow> resolver"
  and evaluate_arithmetic_depth_state :: "arith_env \<Rightarrow> nat \<Rightarrow> rstr \<Rightarrow> arith_state \<Rightarrow> i64 \<times> arith_state" where
  "resolve_arith_var E 0 v st = ([48], st)"
| "resolve_arith_var E (Suc levels) v st =
     (case spend (max (byte_len v) 1) st of
        None \<Rightarrow> ([48], st)
      | Some st \<Rightarrow>
          (let trimmed = trim v
           in if trimmed = [] then ([48], st)
              else if parse_i64 trimmed \<noteq> None then (trimmed, st)
              else if is_valid_var_name trimmed
              then resolve_named (\<lambda>v st. resolve_arith_var E levels v st) trimmed (ae_variable E trimmed) st
              else (case expand_vars E levels (\<lambda>v st. resolve_arith_var E levels v st)
                           (\<lambda>e st. evaluate_arithmetic_depth_state E (levels - 1) e st) trimmed st of
                      (expanded, st) \<Rightarrow>
                        (if MAX_ARITHMETIC_EXPANSION_BYTES < byte_len expanded then [48] else 40 # expanded @ [41], st))))"
| "evaluate_arithmetic_depth_state E 0 expr st = (0, st)"
| "evaluate_arithmetic_depth_state E (Suc levels) expr st =
     (case spend (max (byte_len expr) 1) st of
        None \<Rightarrow> (0, st)
      | Some st \<Rightarrow>
          (case expand_vars E levels (\<lambda>v st. resolve_arith_var E levels v st)
                  (\<lambda>e st. evaluate_arithmetic_depth_state E (levels - 1) e st) (trim expr) st of
             (expanded, st) \<Rightarrow>
               (if MAX_ARITHMETIC_EXPANSION_BYTES < byte_len expanded then 0 else parse_arithmetic_impl levels expanded, st)))"

definition evaluate_arithmetic :: "arith_env \<Rightarrow> rstr \<Rightarrow> i64" where
  "evaluate_arithmetic E expr =
     fst (evaluate_arithmetic_depth_state E MAX_ARITHMETIC_DEPTH expr \<lparr>as_resolving = [], as_fuel = MAX_ARITHMETIC_EXPANSION_FUEL\<rparr>)"

section \<open>Texts without names\<close>

text \<open>A text of ASCII characters in which nothing is replaced.\<close>

definition nameless :: "rstr \<Rightarrow> bool" where
  "nameless s = list_all (\<lambda>c. c < 128 \<and> \<not> is_name_start c \<and> c \<notin> {34, 35, 36}) s"

lemma nameless_byte_len: "nameless s \<Longrightarrow> byte_len s = length s"
  by (auto simp: nameless_def is_ascii_def list_all_iff intro!: byte_len_ascii)

lemma expand_loop_nameless:
  assumes "nameless (result @ cs)" and "length (result @ cs) \<le> MAX_ARITHMETIC_EXPANSION_BYTES"
  shows "expand_loop E resolve named index braces False result cs st = (result @ cs, st)"
  using assms
proof (induction cs arbitrary: result)
  case (Cons ch cs)
  have c: "\<not> is_name_start ch" "ch \<notin> {34, 35, 36}" using Cons.prems(1) by (auto simp: nameless_def)
  have "c \<noteq> 120 \<and> c \<noteq> 88" if "cs = c # cs'" for c cs'
    using Cons.prems(1) that by (auto simp: nameless_def is_name_start_def)
  then have turn: "expand_turn E resolve named index braces False ch cs st = ([ch], False, cs, st)"
    using c by (auto simp: expand_turn_def split: list.split)
  have "nameless (result @ [ch])" using Cons.prems(1) by (simp add: nameless_def)
  then have "byte_len (result @ [ch]) = length (result @ [ch])" by (rule nameless_byte_len)
  then have "\<not> MAX_ARITHMETIC_EXPANSION_BYTES < byte_len (result @ [ch])" using Cons.prems(2) by simp
  then show ?case using Cons.IH [of "result @ [ch]"] Cons.prems by (simp only: expand_loop.simps turn split_conv if_False) simp
qed simp

lemma trim_length: "length (trim s) \<le> length s"
proof -
  have "length (dropWhile is_whitespace xs) \<le> length xs" for xs by (rule length_dropWhile_le)
  then show ?thesis unfolding trim_def length_rev by (metis le_trans length_rev)
qed

lemma trim_set: "set (trim s) \<subseteq> set s"
  by (auto simp: trim_def dest!: set_dropWhileD)

text \<open>Within the fuel such a text is evaluated as it stands.\<close>

lemma evaluate_nameless:
  assumes "nameless s" and "2 * length s \<le> MAX_ARITHMETIC_EXPANSION_FUEL" and "s \<noteq> []"
  shows "evaluate_arithmetic E s = parse_arithmetic_impl (MAX_ARITHMETIC_DEPTH - 1) (trim s)"
proof -
  let ?t = "trim s"
  have t: "nameless ?t" using assms(1) trim_set [of s] by (auto simp: nameless_def list_all_iff)
  have quotes: "filter (\<lambda>c. c \<noteq> 34) ?t = ?t" using t by (auto simp: nameless_def list_all_iff filter_id_conv)
  have len: "1 \<le> length s" "length ?t \<le> length s" using assms(3) trim_length [of s] by (simp_all add: Suc_le_eq)
  have "length ?t \<le> MAX_ARITHMETIC_EXPANSION_BYTES"
    using len assms(2) by (simp add: MAX_ARITHMETIC_EXPANSION_FUEL_def MAX_ARITHMETIC_EXPANSION_BYTES_def)
  note loop = expand_loop_nameless [of "[]" ?t, simplified, OF t this]
  have fuel: "\<not> 8192 - length s < length ?t" using len assms(2) by (simp add: MAX_ARITHMETIC_EXPANSION_FUEL_def)
  have "fst (evaluate_arithmetic_depth_state E (Suc 49) s \<lparr>as_resolving = [], as_fuel = 8192\<rparr>) = parse_arithmetic_impl 49 ?t"
    using len assms(2) \<open>length ?t \<le> MAX_ARITHMETIC_EXPANSION_BYTES\<close> fuel
    unfolding evaluate_arithmetic_depth_state.simps(2)
    by (simp add: spend_def expand_vars_def nameless_byte_len [OF assms(1)] nameless_byte_len [OF t] quotes loop
        MAX_ARITHMETIC_EXPANSION_FUEL_def max_def del: parse_arithmetic_impl.simps)
  then show ?thesis
    by (simp add: evaluate_arithmetic_def MAX_ARITHMETIC_EXPANSION_FUEL_def MAX_ARITHMETIC_DEPTH_def del: parse_arithmetic_impl.simps)
qed

end
