(* ===== verification/ArithValue.thy ===== *)
theory ArithValue
  imports ArithText ArithExpand
begin

text \<open>
  The evaluator of \<open>arithmetic.rs\<close> computes the value of every expression written out with
  parentheses, up to the nesting that \<open>MAX_ARITHMETIC_DEPTH\<close> allows; where the parentheses are left
  out it does not always find the grouping of the shell.
\<close>

section \<open>Text that needs no trimming\<close>

lemma trim_id: "s \<noteq> [] \<Longrightarrow> \<not> is_whitespace (hd s) \<Longrightarrow> \<not> is_whitespace (last s) \<Longrightarrow> trim s = s"
  by (simp add: trim_def dropWhile_eq_self_iff [THEN iffD2] hd_rev)

lemma whitespace_chars: "33 \<le> c \<Longrightarrow> c < 128 \<Longrightarrow> \<not> is_whitespace c"
  by (auto simp: is_whitespace_def)

definition visible :: "rstr \<Rightarrow> bool" where
  "visible s = list_all (\<lambda>c. 33 \<le> c \<and> c < 128) s"

lemma visible_parts [simp]:
  "visible []"
  "visible (c # s) \<longleftrightarrow> 33 \<le> c \<and> c < 128 \<and> visible s"
  "visible (s @ t) \<longleftrightarrow> visible s \<and> visible t"
  "visible (in_parens s) \<longleftrightarrow> visible s"
  by (auto simp: visible_def in_parens_def)

lemma visible_trim:
  assumes "visible s" and "s \<noteq> []"
  shows "trim s = s"
proof -
  have "\<not> is_whitespace c" if "c \<in> set s" for c
    using assms(1) that whitespace_chars by (simp add: visible_def list_all_iff)
  then show ?thesis using assms(2) trim_id hd_in_set last_in_set by blast
qed

lemma visible_ascii: "visible s \<Longrightarrow> is_ascii s"
  by (auto simp: visible_def is_ascii_def list_all_iff)

lemma visible_digits: "list_all is_digit s \<Longrightarrow> visible s"
  by (auto simp: visible_def is_digit_def list_all_iff)

lemma visible_op: "visible (op_text b)"
  by (cases b) auto

lemma visible_expr: "visible (expr_text e)"
  by (induction e) (use nat_to_string_digits visible_digits visible_op in auto)

lemma in_parens_not_Nil [simp]: "in_parens s \<noteq> []"
  by (simp add: in_parens_def)

lemma expr_text_not_Nil [simp]: "expr_text e \<noteq> []"
  using nat_to_string_digits by (cases e) (auto simp: in_parens_def)

section \<open>One step of the evaluator\<close>

lemma impl_split:
  assumes "visible s" and "s \<noteq> []" and "\<not> wrapped s"
  shows "parse_arithmetic_impl (Suc f) s =
    (case split_value (parse_arithmetic_impl f) s of
       Some v \<Rightarrow> v | None \<Rightarrow> parse_arith_atom (parse_arithmetic_impl f) s)"
  using assms by (simp add: Let_def visible_trim visible_ascii split_value_def split: option.split)

lemma impl_parens:
  assumes "balanced w" and "visible w"
  shows "parse_arithmetic_impl (Suc f) (in_parens w) = parse_arithmetic_impl f w"
proof -
  have "butlast (tl (in_parens w)) = w" by (simp add: in_parens_def)
  then show ?thesis
    using assms by (simp add: Let_def visible_trim visible_ascii wrapped_group)
qed

lemma not_digits_none: "c \<in> {126, 33, 40, 41} \<Longrightarrow> parse_i64 (c # s) = None"
  by (auto simp: parse_i64_def is_digit_def)

lemma atom_prefix:
  assumes "visible w"
  shows "parse_arith_atom rec (45 # in_parens w) = - rec (in_parens w)"
    and "parse_arith_atom rec (126 # in_parens w) = not (rec (in_parens w))"
    and "parse_arith_atom rec (33 # in_parens w) = of_truth (rec (in_parens w) = 0)"
proof -
  have "parse_i64 (45 # in_parens w) = None" by (simp add: parse_i64_def in_parens_def is_digit_def)
  then show "parse_arith_atom rec (45 # in_parens w) = - rec (in_parens w)"
      "parse_arith_atom rec (126 # in_parens w) = not (rec (in_parens w))"
      "parse_arith_atom rec (33 # in_parens w) = of_truth (rec (in_parens w) = 0)"
    using assms by (simp_all add: parse_arith_atom_def visible_trim prefixed_def not_digits_none)
qed

text \<open>A number in decimal: no leading zero, so it is not read as octal.\<close>

lemma nat_to_string_hd: "0 < n \<Longrightarrow> hd (nat_to_string n) \<noteq> 48"
proof (induction n rule: nat_to_string.induct)
  case (1 n)
  show ?case
  proof (cases "n < 10")
    case False
    then have "hd (nat_to_string (n div 10)) \<noteq> 48" using 1 by simp
    then show ?thesis using False nat_to_string_digits [of "n div 10"] by simp
  qed (use 1 in simp)
qed

lemma nat_to_string_zero: "nat_to_string 0 = [48]"
  by simp

lemma parse_nat_to_string: "n < 2 ^ 63 \<Longrightarrow> parse_i64 (nat_to_string n) = Some (int n)"
  using parse_int_to_string [of "int n"] by (simp add: int_to_string_def)

lemma find_char_digits: "list_all is_digit s \<Longrightarrow> c < 48 \<Longrightarrow> str_find_char s c = None"
  by (auto simp: str_find_char_def find_None_iff list_all_length is_digit_def)

lemma atom_number:
  assumes "n < 2 ^ 63"
  shows "parse_arith_atom rec (nat_to_string n) = of_nat n"
proof -
  have d: "list_all is_digit (nat_to_string n)" "nat_to_string n \<noteq> []" using nat_to_string_digits by auto
  then obtain c cs where s: "nat_to_string n = c # cs" "48 \<le> c" "c \<le> 57"
    by (cases "nat_to_string n") (auto simp: is_digit_def)
  have trimmed: "trim (c # cs) = c # cs" using d s(1) visible_trim visible_digits by metis
  have parsed: "parse_i64 (c # cs) = Some (int n)" using parse_nat_to_string [OF assms] s(1) by simp
  have hash: "str_find_char (c # cs) 35 = None" using d s(1) find_char_digits by simp
  have "c = 48 \<Longrightarrow> cs = []" using nat_to_string_hd [of n] nat_to_string_zero s(1) by (cases "n = 0") auto
  then have "literal_value (c # cs) = of_nat n"
    using hash parsed trimmed by (auto simp: literal_value_def Let_def starts_with_def int_or_zero_def)
  then show ?thesis
    using parsed trimmed s by (simp add: parse_arith_atom_def prefixed_def)
qed

section \<open>The value of an expression\<close>

lemma parse_arithmetic_value:
  "expr_ok e \<Longrightarrow> levels e \<le> f \<Longrightarrow> parse_arithmetic_impl f (expr_text e) = clamped_value e"
proof (induction e arbitrary: f)
  case (Num n)
  obtain f' where f: "f = Suc f'" using Num.prems(2) by (cases f) auto
  have d: "list_all is_digit (nat_to_string n)" "nat_to_string n \<noteq> []" using nat_to_string_digits by auto
  then have "hd (nat_to_string n) \<noteq> 40" by (cases "nat_to_string n") (auto simp: is_digit_def)
  then have "\<not> wrapped (nat_to_string n)" by (simp add: wrapped_def)
  then show ?case
    using impl_split [of "nat_to_string n" f'] d Num.prems(1) f
    by (simp add: visible_digits split_value_digits atom_number)
next
  case (Bin b e1 e2)
  obtain f' where f: "f = Suc (Suc f')" "levels e1 \<le> f'" "levels e2 \<le> f'"
    using Bin.prems(2) by (cases f; cases "f - 1") auto
  let ?s = "in_parens (expr_text e1) @ op_text b @ in_parens (expr_text e2)"
  have "\<not> wrapped ?s" by (rule not_wrapped_groups) (use balanced_expr in auto)
  then show ?case
    using impl_split [of ?s "Suc f'"] split_value_binary [OF balanced_expr balanced_expr] Bin f
    by (simp add: impl_parens balanced_expr visible_expr visible_op del: parse_arithmetic_impl.simps)
next
  case (Cond c e1 e2)
  obtain f' where f: "f = Suc (Suc f')" "levels c \<le> f'" "levels e1 \<le> f'" "levels e2 \<le> f'"
    using Cond.prems(2) by (cases f; cases "f - 1") auto
  let ?s = "in_parens (expr_text c) @ 63 # in_parens (expr_text e1) @ 58 # in_parens (expr_text e2)"
  have "\<not> wrapped ?s" by (rule not_wrapped_groups) (use balanced_expr in auto)
  then show ?case
    using impl_split [of ?s "Suc f'"] split_value_conditional [OF balanced_expr balanced_expr balanced_expr] Cond f
    by (simp add: impl_parens balanced_expr visible_expr del: parse_arithmetic_impl.simps)
next
  case (Neg e)
  obtain f' where f: "f = Suc (Suc f')" "levels e \<le> f'" using Neg.prems(2) by (cases f; cases "f - 1") auto
  have "\<not> wrapped (45 # in_parens (expr_text e))" by (simp add: wrapped_def)
  then show ?case
    using impl_split [of "45 # in_parens (expr_text e)" "Suc f'"] split_value_prefix [OF balanced_expr, of 45] Neg f
    by (simp add: impl_parens balanced_expr visible_expr atom_prefix del: parse_arithmetic_impl.simps)
next
  case (BitNot e)
  obtain f' where f: "f = Suc (Suc f')" "levels e \<le> f'" using BitNot.prems(2) by (cases f; cases "f - 1") auto
  have "\<not> wrapped (126 # in_parens (expr_text e))" by (simp add: wrapped_def)
  then show ?case
    using impl_split [of "126 # in_parens (expr_text e)" "Suc f'"] split_value_prefix [OF balanced_expr, of 126] BitNot f
    by (simp add: impl_parens balanced_expr visible_expr atom_prefix del: parse_arithmetic_impl.simps)
next
  case (LogNot e)
  obtain f' where f: "f = Suc (Suc f')" "levels e \<le> f'" using LogNot.prems(2) by (cases f; cases "f - 1") auto
  have "\<not> wrapped (33 # in_parens (expr_text e))" by (simp add: wrapped_def)
  then show ?case
    using impl_split [of "33 # in_parens (expr_text e)" "Suc f'"] split_value_prefix [OF balanced_expr, of 33] LogNot f
    by (simp add: impl_parens balanced_expr visible_expr atom_prefix del: parse_arithmetic_impl.simps)
qed

lemma nameless_expr: "nameless (expr_text e)"
proof (induction e)
  case (Num n)
  show ?case using nat_to_string_digits [of n] by (auto simp: nameless_def list_all_iff is_digit_def is_name_start_def)
next
  case (Bin b e1 e2)
  then show ?case by (cases b) (auto simp: nameless_def in_parens_def is_name_start_def)
qed (auto simp: nameless_def in_parens_def is_name_start_def)

lemma evaluate_clamped:
  assumes "expr_ok e" and "levels e \<le> 49" and "length (expr_text e) \<le> 4096"
  shows "evaluate_arithmetic E (expr_text e) = clamped_value e"
proof -
  have "evaluate_arithmetic E (expr_text e) = parse_arithmetic_impl (MAX_ARITHMETIC_DEPTH - 1) (expr_text e)"
    using evaluate_nameless [OF nameless_expr, of e E] assms(3) visible_trim [OF visible_expr, of e]
    by (simp add: MAX_ARITHMETIC_EXPANSION_FUEL_def)
  also have "\<dots> = clamped_value e"
    using assms(1,2) by (intro parse_arithmetic_value) (simp_all add: MAX_ARITHMETIC_DEPTH_def)
  finally show ?thesis .
qed

text \<open>
  Property C35: the arithmetic evaluator computes the value of an expression. For every expression
  built from numbers below \<open>2 ^ 63\<close>, the prefix operators, the nineteen binary operators and the
  conditional, written with parentheses around each operand, nested at most 24 deep, of at most 4096 characters, which
  is what the fuel of 8192 allows, and in which every exponent and shift count has a value from 0 to 63,
  \<open>evaluate_arithmetic\<close> returns the 64-bit value of the expression: wrapping sums, products, negation, powers and
  left shifts, right shifts rounding down, signed comparisons, division truncated towards zero and 0 for a zero divisor.
  What the variables hold does not matter. Outside these counts the code clamps them to 0 and 63 (see
  \<open>arithmetic_gaps\<close>).
\<close>

theorem arithmetic_value_exact:
  "expr_ok e \<Longrightarrow> counts_ok e \<Longrightarrow> levels e \<le> 49 \<Longrightarrow> length (expr_text e) \<le> 4096 \<Longrightarrow>
   evaluate_arithmetic E (expr_text e) = expr_value e"
  using evaluate_clamped [of e E] clamped_expr_value [of e] by simp

lemma arithmetic_value_exact_witness:
  "expr_text (Bin Shl (Num 1) (Bin Sub (Num 5) (Num 3))) = lit ''(1)<<((5)-(3))''
   \<and> evaluate_arithmetic \<lparr>ae_variable = (\<lambda>_. []), ae_arrays = (\<lambda>_. None), ae_braces = (\<lambda>_ e st. (e, st))\<rparr>
       (expr_text (Bin Shl (Num 1) (Bin Sub (Num 5) (Num 3)))) = 4
   \<and> evaluate_arithmetic \<lparr>ae_variable = (\<lambda>_. []), ae_arrays = (\<lambda>_. None), ae_braces = (\<lambda>_ e st. (e, st))\<rparr>
       (expr_text (Bin Add (Num 9223372036854775807) (Num 1))) = i64_min"
proof -
  let ?E = "\<lparr>ae_variable = (\<lambda>_. []), ae_arrays = (\<lambda>_. None), ae_braces = (\<lambda>_ e st. (e, st))\<rparr>"
  have "evaluate_arithmetic ?E (expr_text (Bin Shl (Num 1) (Bin Sub (Num 5) (Num 3)))) = 4"
    by (subst arithmetic_value_exact) (simp_all add: in_parens_def)
  moreover have "evaluate_arithmetic ?E (expr_text (Bin Add (Num 9223372036854775807) (Num 1))) = i64_min"
    by (subst arithmetic_value_exact) (simp_all add: i64_min_def in_parens_def)
  moreover have "expr_text (Bin Shl (Num 1) (Bin Sub (Num 5) (Num 3))) = lit ''(1)<<((5)-(3))''"
    by (simp add: lit_def in_parens_def)
  ultimately show ?thesis by blast
qed

section \<open>Unparenthesised operands\<close>

lemma rscan_numeral:
  "rscan test cs depth (numeral k) =
     (let i = pred_numeral k in
      if cs ! i = 40 then rscan test cs (depth + 1) i
      else if cs ! i = 41 then rscan test cs (depth - 1) i
      else if depth = 0 \<and> test i then Some i
      else rscan test cs depth i)"
  unfolding numeral_eq_Suc [of k] rscan.simps Let_def by (rule refl)

lemmas scanning = split_value_def try_parse_arith_comparison_def try_parse_arith_addmul_def
  find_from_right_def find_from_left_def rscan_numeral tests here_def before_def behind_def left_of_def right_of_def
  Let_def

lemma impl_trimmed:
  assumes "trim s = t" and "visible (filter (\<lambda>c. c \<noteq> 32) t)" and "t \<noteq> []" and "\<not> wrapped t"
  shows "parse_arithmetic_impl (Suc f) s =
    (case split_value (parse_arithmetic_impl f) t of
       Some v \<Rightarrow> v | None \<Rightarrow> parse_arith_atom (parse_arithmetic_impl f) t)"
proof -
  have "c < 128" if "c \<in> set t" for c
    using assms(2) that by (cases "c = 32") (auto simp: visible_def list_all_iff)
  then have "is_ascii t" by (simp add: is_ascii_def list_all_iff)
  then show ?thesis using assms by (simp add: Let_def split_value_def split: option.split)
qed

lemma impl_number:
  assumes "trim s = nat_to_string n" and "n < 2 ^ 63"
  shows "parse_arithmetic_impl (Suc f) s = of_nat n"
proof -
  have "parse_arithmetic_impl (Suc f) s = parse_arithmetic_impl (Suc f) (trim s)"
    using assms(1) nat_to_string_digits [of n] visible_trim visible_digits by simp
  then show ?thesis using parse_arithmetic_value [of "Num n" "Suc f"] assms by simp
qed

lemma impl_blank: "trim s = [] \<Longrightarrow> parse_arithmetic_impl (Suc f) s = 0"
  by simp

lemmas trimming = trim_def is_whitespace_def visible_def wrapped_def

lemma minus_negative: "parse_arithmetic_impl (Suc (Suc (Suc f))) (lit ''5 - -1'') = 4"
proof -
  let ?rec = "parse_arithmetic_impl (Suc (Suc f))" and ?rec2 = "parse_arithmetic_impl (Suc f)"
  have "parse_arithmetic_impl (Suc (Suc (Suc f))) (lit ''5 - -1'') = ?rec [53, 32, 45, 32] - ?rec [49]"
    by (subst impl_trimmed [OF refl]) (simp_all add: lit_def trimming scanning)
  also have "?rec [49] = 1" by (subst impl_number [where n = 1]) (simp_all add: trimming)
  also have "?rec [53, 32, 45, 32] = ?rec2 [53, 32] - ?rec2 []"
    by (subst impl_trimmed [OF refl]) (simp_all add: trimming scanning)
  also have "?rec2 [] = 0" by (simp add: trim_def)
  also have "?rec2 [53, 32] = 5" by (subst impl_number [where n = 5]) (simp_all add: trimming)
  finally show ?thesis by simp
qed

lemma times_negative: "parse_arithmetic_impl (Suc (Suc (Suc f))) (lit ''2 * -3'') = - 3"
proof -
  let ?rec = "parse_arithmetic_impl (Suc (Suc f))" and ?rec2 = "parse_arithmetic_impl (Suc f)"
  have "parse_arithmetic_impl (Suc (Suc (Suc f))) (lit ''2 * -3'') = ?rec [50, 32, 42, 32] - ?rec [51]"
    by (subst impl_trimmed [OF refl]) (simp_all add: lit_def trimming scanning)
  also have "?rec [51] = 3" by (subst impl_number [where n = 3]) (simp_all add: trimming)
  also have "?rec [50, 32, 42, 32] = ?rec2 [50, 32] * ?rec2 []"
    by (subst impl_trimmed [OF refl]) (simp_all add: trimming scanning)
  also have "?rec2 [] = 0" by (simp add: trim_def)
  finally show ?thesis by simp
qed

text \<open>
  Where the evaluator departs from shell arithmetic. A minus sign after a binary
  operator and a blank is taken for a subtraction whose left operand lacks its own right operand,
  which counts as 0: \<open>5 - -1\<close> is 4, where the expression's value is 6, and \<open>2 * -3\<close> is -3, where it
  is -6. And exponents above 63 are cut down to 63, so \<open>(-(1))**(64)\<close> is -1 where the power is 1.
\<close>

theorem arithmetic_gaps:
  "evaluate_arithmetic E (lit ''5 - -1'') = 4 \<and> expr_value (Bin Sub (Num 5) (Neg (Num 1))) = 6
   \<and> evaluate_arithmetic E (lit ''2 * -3'') = - 3 \<and> expr_value (Bin Mul (Num 2) (Neg (Num 3))) = - 6
   \<and> evaluate_arithmetic E (lit ''(-(1))**(64)'') = - 1 \<and> expr_value (Bin Pow (Neg (Num 1)) (Num 64)) = 1"
proof -
  have levels: "MAX_ARITHMETIC_DEPTH - 1 = Suc (Suc (Suc 46))" by (simp add: MAX_ARITHMETIC_DEPTH_def)
  have plain: "evaluate_arithmetic E s = parse_arithmetic_impl (Suc (Suc (Suc 46))) s"
    if "nameless s" "length s \<le> 4096" "s \<noteq> []" "trim s = s" for s
    using evaluate_nameless [of s E] that unfolding levels by (simp add: MAX_ARITHMETIC_EXPANSION_FUEL_def del: parse_arithmetic_impl.simps)
  have texts: "evaluate_arithmetic E (lit ''5 - -1'') = parse_arithmetic_impl (Suc (Suc (Suc 46))) (lit ''5 - -1'')"
    "evaluate_arithmetic E (lit ''2 * -3'') = parse_arithmetic_impl (Suc (Suc (Suc 46))) (lit ''2 * -3'')"
    by (rule plain; simp add: lit_def nameless_def is_name_start_def trim_def is_whitespace_def)+
  have "lit ''(-(1))**(64)'' = expr_text (Bin Pow (Neg (Num 1)) (Num 64))"
    by (simp add: lit_def in_parens_def)
  moreover have "evaluate_arithmetic E (expr_text (Bin Pow (Neg (Num 1)) (Num 64))) = - 1"
    by (subst evaluate_clamped) (simp_all add: clamp63_def in_parens_def)
  ultimately have "evaluate_arithmetic E (lit ''(-(1))**(64)'') = - 1" by simp
  moreover have "expr_value (Bin Pow (Neg (Num 1)) (Num 64)) = 1" by simp
  moreover have "expr_value (Bin Sub (Num 5) (Neg (Num 1))) = 6" "expr_value (Bin Mul (Num 2) (Neg (Num 3))) = - 6" by simp_all
  ultimately show ?thesis unfolding texts minus_negative times_negative by blast
qed

end
