(* ===== verification/FsPath.thy ===== *)
theory FsPath
  imports Prelude
begin

text \<open>
  Paths of the virtual filesystem: the lexical decomposition of \<open>std::path::Path\<close> on Unix,
  \<open>normalize_path\<close> of \<open>bashkit/src/fs/mod.rs\<close>, and \<open>FsLimits\<close> of \<open>bashkit/src/fs/limits.rs\<close> with
  its path validation and quota checks. Paths are UTF-8 strings; a \<open>PathBuf\<close> used as a map key is
  compared by its components, so a key is a component list.
\<close>

section \<open>Components\<close>

datatype component = RootDir | CurDir | ParentDir | Normal rstr

type_synonym path_key = "component list"

fun split_slash :: "rstr \<Rightarrow> rstr list" where
  "split_slash [] = [[]]"
| "split_slash (c # cs) =
     (if c = 47 then [] # split_slash cs
      else (case split_slash cs of [] \<Rightarrow> [[c]] | s # ss \<Rightarrow> (c # s) # ss))"

definition component_of :: "rstr \<Rightarrow> component list" where
  "component_of s =
     (if s = [] \<or> s = [46] then [] else if s = [46, 46] then [ParentDir] else [Normal s])"

definition components :: "rstr \<Rightarrow> path_key" where
  "components s =
     (case s of
        [] \<Rightarrow> []
      | c # cs \<Rightarrow>
          if c = 47 then RootDir # concat (map component_of (split_slash cs))
          else (case split_slash s of
                  [] \<Rightarrow> []
                | p # ps \<Rightarrow> (if p = [46] then [CurDir] else component_of p) @
                            concat (map component_of ps)))"

text \<open>\<open>Path::parent\<close>, \<open>Path::file_name\<close> and \<open>Path::starts_with\<close> on components.\<close>

definition parent :: "path_key \<Rightarrow> path_key option" where
  "parent p = (if p = [] \<or> last p = RootDir then None else Some (butlast p))"

definition file_name :: "path_key \<Rightarrow> rstr option" where
  "file_name p = (if p = [] then None else case last p of Normal n \<Rightarrow> Some n | _ \<Rightarrow> None)"

definition path_starts_with :: "path_key \<Rightarrow> path_key \<Rightarrow> bool" where
  "path_starts_with p q = prefix q p"

section \<open>Normalisation\<close>

text \<open>One component of the loop of \<open>normalize_path\<close>, over the segments collected so far.\<close>

fun normalize_step :: "rstr list \<Rightarrow> component \<Rightarrow> rstr list" where
  "normalize_step segs RootDir = []"
| "normalize_step segs (Normal name) = segs @ [name]"
| "normalize_step segs ParentDir = butlast segs"
| "normalize_step segs CurDir = segs"

fun join_slash :: "rstr list \<Rightarrow> rstr" where
  "join_slash [] = []"
| "join_slash [s] = s"
| "join_slash (s # ss) = s @ 47 # join_slash ss"

definition normal_segments :: "rstr \<Rightarrow> rstr list" where
  "normal_segments path = foldl normalize_step [] (components path)"

definition normalize_path :: "rstr \<Rightarrow> rstr" where
  "normalize_path path =
     (let segments = foldl normalize_step [] (components path)
      in if segments = [] then lit ''/'' else 47 # join_slash segments)"

section \<open>Limits\<close>

record fs_limits =
  max_total_bytes :: u64
  max_file_size :: u64
  max_file_count :: u64
  max_dir_count :: u64
  max_path_depth :: usize
  max_filename_length :: usize
  max_path_length :: usize

definition default_fs_limits :: fs_limits where
  "default_fs_limits = \<lparr>max_total_bytes = 100000000, max_file_size = 10000000,
     max_file_count = 10000, max_dir_count = 10000, max_path_depth = 100,
     max_filename_length = 255, max_path_length = 4096\<rparr>"

definition unlimited_fs_limits :: fs_limits where
  "unlimited_fs_limits = \<lparr>max_total_bytes = - 1, max_file_size = - 1, max_file_count = - 1,
     max_dir_count = - 1, max_path_depth = - 1, max_filename_length = - 1, max_path_length = - 1\<rparr>"

definition with_max_total_bytes :: "u64 \<Rightarrow> fs_limits \<Rightarrow> fs_limits" where
  "with_max_total_bytes n l = l\<lparr>max_total_bytes := n\<rparr>"

definition with_max_file_size :: "u64 \<Rightarrow> fs_limits \<Rightarrow> fs_limits" where
  "with_max_file_size n l = l\<lparr>max_file_size := n\<rparr>"

definition with_max_file_count :: "u64 \<Rightarrow> fs_limits \<Rightarrow> fs_limits" where
  "with_max_file_count n l = l\<lparr>max_file_count := n\<rparr>"

definition with_max_dir_count :: "u64 \<Rightarrow> fs_limits \<Rightarrow> fs_limits" where
  "with_max_dir_count n l = l\<lparr>max_dir_count := n\<rparr>"

definition with_max_path_depth :: "usize \<Rightarrow> fs_limits \<Rightarrow> fs_limits" where
  "with_max_path_depth n l = l\<lparr>max_path_depth := n\<rparr>"

definition with_max_filename_length :: "usize \<Rightarrow> fs_limits \<Rightarrow> fs_limits" where
  "with_max_filename_length n l = l\<lparr>max_filename_length := n\<rparr>"

definition with_max_path_length :: "usize \<Rightarrow> fs_limits \<Rightarrow> fs_limits" where
  "with_max_path_length n l = l\<lparr>max_path_length := n\<rparr>"

text \<open>
  The description of an unsafe character is its code point and the class its message names.
\<close>

datatype unsafe_class =
  ControlChar | BidiOverride | ZeroWidth | DeprecatedFormat | InterlinearAnnotation | TagChar

datatype fs_limit_exceeded =
    TotalBytes u64 u64 u64
  | FileSize u64 u64
  | FileCount u64 u64
  | DirCount u64 u64
  | PathTooDeep usize usize
  | FilenameTooLong usize usize
  | PathTooLong usize usize
  | UnsafePathChar "uchar \<times> unsafe_class" rstr

fun find_unsafe_path_char :: "rstr \<Rightarrow> (uchar \<times> unsafe_class) option" where
  "find_unsafe_path_char [] = None"
| "find_unsafe_path_char (ch # chs) =
     (if ch < 0x20 \<or> ch = 0x7F then Some (ch, ControlChar)
      else if 0x80 \<le> ch \<and> ch \<le> 0x9F then Some (ch, ControlChar)
      else if 0x202A \<le> ch \<and> ch \<le> 0x202E \<or> 0x2066 \<le> ch \<and> ch \<le> 0x2069 then Some (ch, BidiOverride)
      else if ch \<in> {0x200B, 0x200C, 0x200D, 0x2060, 0xFEFF, 0x180E} then Some (ch, ZeroWidth)
      else if 0x206A \<le> ch \<and> ch \<le> 0x206F then Some (ch, DeprecatedFormat)
      else if 0xFFF9 \<le> ch \<and> ch \<le> 0xFFFB then Some (ch, InterlinearAnnotation)
      else if 0xE0000 \<le> ch \<and> ch \<le> 0xE007F then Some (ch, TagChar)
      else find_unsafe_path_char chs)"

definition path_str_len :: "rstr \<Rightarrow> usize" where
  "path_str_len s = of_nat (byte_len s)"

text \<open>The loop of \<open>validate_path\<close> over the components, with the depth so far.\<close>

fun validate_components :: "fs_limits \<Rightarrow> component list \<Rightarrow> usize \<Rightarrow> fs_limit_exceeded + usize" where
  "validate_components l [] depth = Ok depth"
| "validate_components l (Normal name # cs) depth =
     (if max_filename_length l < path_str_len name
      then Err (FilenameTooLong (path_str_len name) (max_filename_length l))
      else case find_unsafe_path_char name of
        Some bad_char \<Rightarrow> Err (UnsafePathChar bad_char name)
      | None \<Rightarrow> validate_components l cs (depth + 1))"
| "validate_components l (ParentDir # cs) depth = validate_components l cs (sat_sub depth 1)"
| "validate_components l (RootDir # cs) depth = validate_components l cs depth"
| "validate_components l (CurDir # cs) depth = validate_components l cs depth"

definition validate_path :: "fs_limits \<Rightarrow> rstr \<Rightarrow> fs_limit_exceeded + unit" where
  "validate_path l path =
     (if max_path_length l < path_str_len path
      then Err (PathTooLong (path_str_len path) (max_path_length l))
      else res_bind (validate_components l (components path) 0) (\<lambda>depth.
        if max_path_depth l < depth then Err (PathTooDeep depth (max_path_depth l)) else Ok ()))"

definition check_total_bytes :: "fs_limits \<Rightarrow> u64 \<Rightarrow> u64 \<Rightarrow> fs_limit_exceeded + unit" where
  "check_total_bytes l current additional =
     (let new_total = sat_add current additional
      in if max_total_bytes l < new_total
         then Err (TotalBytes current additional (max_total_bytes l)) else Ok ())"

definition check_file_size :: "fs_limits \<Rightarrow> u64 \<Rightarrow> fs_limit_exceeded + unit" where
  "check_file_size l n =
     (if max_file_size l < n then Err (FileSize n (max_file_size l)) else Ok ())"

definition check_file_count :: "fs_limits \<Rightarrow> u64 \<Rightarrow> fs_limit_exceeded + unit" where
  "check_file_count l current =
     (if max_file_count l \<le> current then Err (FileCount current (max_file_count l)) else Ok ())"

definition check_final_file_count :: "fs_limits \<Rightarrow> u64 \<Rightarrow> fs_limit_exceeded + unit" where
  "check_final_file_count l count =
     (if max_file_count l < count then Err (FileCount count (max_file_count l)) else Ok ())"

definition check_dir_count :: "fs_limits \<Rightarrow> u64 \<Rightarrow> fs_limit_exceeded + unit" where
  "check_dir_count l current =
     (if max_dir_count l \<le> current then Err (DirCount current (max_dir_count l)) else Ok ())"

record fs_usage =
  total_bytes :: u64
  file_count :: u64
  dir_count :: u64

section \<open>What normalisation guarantees\<close>

text \<open>A proper segment: what a \<open>Normal\<close> component can hold.\<close>

definition proper_segment :: "rstr \<Rightarrow> bool" where
  "proper_segment s \<longleftrightarrow> s \<noteq> [] \<and> s \<noteq> [46] \<and> s \<noteq> [46, 46] \<and> 47 \<notin> set s"

lemma split_slash_nonempty [simp]: "split_slash s \<noteq> []"
  by (induction s) (auto split: list.splits)

lemma split_slash_no_slash: "p \<in> set (split_slash s) \<Longrightarrow> 47 \<notin> set p"
  by (induction s arbitrary: p) (auto split: if_splits list.splits)

lemma component_of_Normal: "Normal n \<in> set (component_of p) \<Longrightarrow> 47 \<notin> set p \<Longrightarrow> proper_segment n"
  by (auto simp: component_of_def proper_segment_def split: if_splits)

lemma components_slash: "components (47 # cs) = RootDir # concat (map component_of (split_slash cs))"
  by (simp add: components_def)

lemma components_relative:
  assumes "c \<noteq> 47"
  obtains p ps where "split_slash (c # cs) = p # ps"
    "components (c # cs) = (if p = [46] then [CurDir] else component_of p) @ concat (map component_of ps)"
proof -
  obtain p ps where "split_slash (c # cs) = p # ps" 
    using split_slash_nonempty neq_Nil_conv by metis
  moreover from this have "components (c # cs) =
      (if p = [46] then [CurDir] else component_of p) @ concat (map component_of ps)"
    using assms by (simp add: components_def del: split_slash.simps)
  ultimately show ?thesis by (rule that)
qed

lemma components_from_parts:
  "Normal n \<in> set (components s) \<Longrightarrow> \<exists>t. \<exists>p \<in> set (split_slash t). Normal n \<in> set (component_of p)"
proof (cases s)
  case (Cons c cs)
  assume n: "Normal n \<in> set (components s)"
  show ?thesis
  proof (cases "c = 47")
    case True
    then show ?thesis using n Cons by (auto simp: components_slash)
  next
    case False
    then obtain p ps where parts: "split_slash (c # cs) = p # ps"
      "components (c # cs) = (if p = [46] then [CurDir] else component_of p) @ concat (map component_of ps)"
      by (rule components_relative)
    then have "\<exists>q \<in> set (p # ps). Normal n \<in> set (component_of q)"
      using n Cons by (auto split: if_splits)
    then show ?thesis using parts(1) by metis
  qed
qed (simp add: components_def)

lemma components_proper: "Normal n \<in> set (components s) \<Longrightarrow> proper_segment n"
  by (drule components_from_parts) (auto intro: component_of_Normal dest: split_slash_no_slash)

definition proper_component :: "component \<Rightarrow> bool" where
  "proper_component c \<longleftrightarrow> (case c of Normal n \<Rightarrow> proper_segment n | _ \<Rightarrow> True)"

lemma normalize_step_proper:
  "list_all proper_segment segs \<Longrightarrow> proper_component c \<Longrightarrow> list_all proper_segment (normalize_step segs c)"
  by (cases c) (auto simp: proper_component_def list_all_iff dest: in_set_butlastD)

lemma foldl_normalize_proper:
  "list_all proper_component cs \<Longrightarrow> list_all proper_segment segs \<Longrightarrow>
   list_all proper_segment (foldl normalize_step segs cs)"
  by (induction cs arbitrary: segs) (simp_all add: normalize_step_proper)

lemma normal_segments_list_all: "list_all proper_segment (normal_segments p)"
  unfolding normal_segments_def
  by (rule foldl_normalize_proper)
    (auto simp: list_all_iff proper_component_def components_proper split: component.splits)

lemma normal_segments_proper: "s \<in> set (normal_segments p) \<Longrightarrow> proper_segment s"
  using normal_segments_list_all by (simp add: list_all_iff)

lemma component_of_proper: "proper_segment s \<Longrightarrow> component_of s = [Normal s]"
  by (simp add: component_of_def proper_segment_def)

lemma split_slash_segment: "47 \<notin> set s \<Longrightarrow> split_slash s = [s]"
  by (induction s) auto

lemma split_slash_append: "47 \<notin> set s \<Longrightarrow> split_slash (s @ 47 # t) = s # split_slash t"
  by (induction s) auto

lemma split_join:
  "\<forall>s \<in> set ss. proper_segment s \<Longrightarrow> ss \<noteq> [] \<Longrightarrow> split_slash (join_slash ss) = ss"
  by (induction ss rule: join_slash.induct)
    (auto simp: split_slash_segment split_slash_append proper_segment_def)

lemma components_join:
  assumes "\<forall>s \<in> set ss. proper_segment s"
  shows "components (if ss = [] then lit ''/'' else 47 # join_slash ss) = RootDir # map Normal ss"
proof (cases "ss = []")
  case False
  have "concat (map component_of ss) = map Normal ss"
    using assms by (induction ss) (auto simp: component_of_proper)
  then show ?thesis using split_join [OF assms False] False by (simp add: components_def)
qed (simp add: components_def component_of_def lit_def)

text \<open>The key of a normalised path: the root followed by its segments.\<close>

lemma components_normalize: "components (normalize_path p) = RootDir # map Normal (normal_segments p)"
  using components_join [of "normal_segments p"] normal_segments_proper
  by (simp add: normalize_path_def Let_def flip: normal_segments_def)

lemma foldl_normalize_Normal: "foldl normalize_step segs (map Normal ss) = segs @ ss"
  by (induction ss arbitrary: segs) auto

lemma normal_segments_normalize [simp]: "normal_segments (normalize_path p) = normal_segments p"
  by (simp add: normal_segments_def [of "normalize_path p"] components_normalize foldl_normalize_Normal)

text \<open>
  \<open>normalize_path\<close> contains every path in the virtual root. Whatever \<open>..\<close>, \<open>.\<close> and
  slashes the input holds, the result is absolute and its components after the root are ordinary
  names, so no later join can leave the root (TM-ESC-033); and normalising again changes nothing.
\<close>

theorem normalize_path_contained:
  "components (normalize_path p) = RootDir # map Normal (normal_segments p) \<and>
   list_all proper_segment (normal_segments p) \<and>
   normalize_path (normalize_path p) = normalize_path p"
proof -
  have eq: "normalize_path q = (if normal_segments q = [] then lit ''/'' else 47 # join_slash (normal_segments q))" for q
    by (simp add: normalize_path_def normal_segments_def Let_def)
  have "normalize_path (normalize_path p) = normalize_path p"
    by (subst eq, subst (2) eq) simp
  then show ?thesis
    using normal_segments_proper by (auto simp: components_normalize list_all_iff)
qed

section \<open>What validation guarantees\<close>

definition unsafe_chars :: "uchar set" where
  "unsafe_chars = {0..0x1F} \<union> {0x7F} \<union> {0x80..0x9F} \<union> {0x202A..0x202E} \<union> {0x2066..0x2069} \<union>
     {0x200B..0x200D} \<union> {0x2060, 0xFEFF, 0x180E} \<union> {0x206A..0x206F} \<union> {0xFFF9..0xFFFB} \<union>
     {0xE0000..0xE007F}"

lemma find_unsafe_None: "find_unsafe_path_char s = None \<longleftrightarrow> set s \<inter> unsafe_chars = {}"
proof (induction s)
  case (Cons c s)
  have "find_unsafe_path_char (c # s) = None \<longleftrightarrow> c \<notin> unsafe_chars \<and> find_unsafe_path_char s = None"
    by (auto simp: unsafe_chars_def)
  then show ?case using Cons.IH by auto
qed (simp add: unsafe_chars_def)

definition good_name :: "fs_limits \<Rightarrow> rstr \<Rightarrow> bool" where
  "good_name l n \<longleftrightarrow> path_str_len n \<le> max_filename_length l \<and> set n \<inter> unsafe_chars = {}"

lemma foldl_normalize_length:
  "length (foldl normalize_step segs cs) \<le> length segs + length cs"
proof (induction cs arbitrary: segs)
  case (Cons c cs)
  have "length (normalize_step segs c) \<le> Suc (length segs)" by (cases c) auto
  then show ?case using Cons.IH [of "normalize_step segs c"] by simp
qed simp

lemma good_names_butlast: "list_all (good_name l) segs \<Longrightarrow> list_all (good_name l) (butlast segs)"
  by (auto simp: list_all_iff dest: in_set_butlastD)

lemma validate_components_ok:
  assumes "validate_components l cs d = Inr d'" and "unat d = length segs"
    and "length segs + length cs < 2 ^ 64" and "RootDir \<notin> set cs"
    and "list_all (good_name l) segs"
  shows "unat d' = length (foldl normalize_step segs cs) \<and>
         list_all (good_name l) (foldl normalize_step segs cs)"
  using assms
proof (induction l cs d arbitrary: segs rule: validate_components.induct)
  case (2 l name cs depth)
  then have name: "path_str_len name \<le> max_filename_length l" "find_unsafe_path_char name = None"
    "validate_components l cs (depth + 1) = Inr d'"
    by (auto split: if_splits option.splits)
  have len: "unat (depth + 1) = length (segs @ [name])"
    using 2(3,4) by (subst unat_add_small) auto
  have room: "length (segs @ [name]) + length cs < 2 ^ 64" using 2(4) by simp
  have names: "list_all (good_name l) (segs @ [name])"
    using 2(6) name(1,2) by (simp add: good_name_def [of l name] find_unsafe_None)
  from 2(1) [OF _ name(2,3) len room _ names] name(1) 2(5) show ?case by simp
next
  case (3 l cs depth)
  have len: "unat (sat_sub depth 1) = length (butlast segs)" using 3(3) by (simp add: unat_sat_sub)
  have room: "length (butlast segs) + length cs < 2 ^ 64" using 3(4) by simp
  have "validate_components l cs (sat_sub depth 1) = Inr d'" "RootDir \<notin> set cs" using 3(2,5) by simp_all
  from 3(1) [OF this(1) len room this(2) good_names_butlast [OF 3(6)]] show ?case by simp
qed simp_all

lemma component_of_no_root: "RootDir \<notin> set (component_of p)" "length (component_of p) \<le> 1"
  by (simp_all add: component_of_def)

lemma parts_no_root: "RootDir \<notin> set (concat (map component_of ps))"
  using component_of_no_root(1) by auto

lemma parts_length: "length (concat (map component_of ps)) \<le> length ps"
proof (induction ps)
  case (Cons p ps)
  then show ?case using component_of_no_root(2) [of p] by simp
qed simp

lemma split_slash_length: "length (split_slash s) \<le> Suc (length s)"
  by (induction s) (auto split: list.splits)

text \<open>A path's components are a root, if any, and then none; there are no more than characters.\<close>

lemma components_shape:
  obtains cs where "components s = cs \<or> components s = RootDir # cs" "RootDir \<notin> set cs" "length cs \<le> Suc (length s)"
proof (cases s)
  case Nil
  then show ?thesis using that [of "[]"] by (simp add: components_def)
next
  case (Cons c t)
  show ?thesis
  proof (cases "c = 47")
    case True
    then show ?thesis
      using that [of "concat (map component_of (split_slash t))"] Cons parts_no_root
        parts_length [of "split_slash t"] split_slash_length [of t]
      by (simp add: components_slash)
  next
    case False
    then obtain p ps where "split_slash (c # t) = p # ps"
      "components (c # t) = (if p = [46] then [CurDir] else component_of p) @ concat (map component_of ps)"
      by (rule components_relative)
    then show ?thesis
      using that [of "components s"] Cons parts_no_root component_of_no_root(1) component_of_no_root(2) [of p]
        parts_length [of ps] split_slash_length [of s]
      by (auto split: if_splits)
  qed
qed

lemma validate_path_segments:
  assumes "validate_path l p = Ok u" and "length p < 2 ^ 63"
  shows "length (normal_segments p) \<le> unat (max_path_depth l) \<and> list_all (good_name l) (normal_segments p)"
proof -
  obtain d where d: "validate_components l (components p) 0 = Inr d" "d \<le> max_path_depth l"
    using assms(1) by (auto simp: validate_path_def res_bind_Inr split: if_splits)
  obtain cs where cs: "components p = cs \<or> components p = RootDir # cs" "RootDir \<notin> set cs" "length cs \<le> Suc (length p)"
    by (rule components_shape)
  have v: "validate_components l cs 0 = Inr d" and seg: "normal_segments p = foldl normalize_step [] cs"
    using cs(1) d(1) by (auto simp: normal_segments_def)
  have "unat d = length (normal_segments p) \<and> list_all (good_name l) (normal_segments p)"
    unfolding seg by (rule validate_components_ok [OF v]) (use cs assms(2) in auto)
  then show ?thesis using d(2) by (auto simp: word_le_nat_alt)
qed

text \<open>
  Property C8: a path that \<open>validate_path\<close> accepts is harmless once normalised: it has at most
  \<open>max_path_depth\<close> segments, each at most \<open>max_filename_length\<close> bytes long and free of control,
  bidirectional, zero-width, deprecated, annotation and tag characters (TM-DOS-012/013/015,
  TM-UNI-003/011/012/013).
\<close>

theorem validated_path_is_safe:
  assumes "validate_path l p = Ok ()" and "length p < 2 ^ 63"
  shows "length (normal_segments p) \<le> unat (max_path_depth l) \<and>
         (\<forall>s \<in> set (normal_segments p). path_str_len s \<le> max_filename_length l \<and> set s \<inter> unsafe_chars = {})"
  using validate_path_segments [OF assms] by (auto simp: good_name_def list_all_iff)

theorem validated_path_is_safe_witness:
  "normal_segments (lit ''/tmp/./a/../b'') = [lit ''tmp'', lit ''b''] \<and>
   set (lit ''tmp'') \<inter> unsafe_chars = {} \<and> set (lit ''b'') \<inter> unsafe_chars = {}"
proof -
  let ?p = "lit ''/tmp/./a/../b''"
  have "validate_path default_fs_limits ?p = Ok ()"
    by (simp add: validate_path_def default_fs_limits_def lit_def components_def component_of_def
        path_str_len_def len_utf8_def sat_sub_def)
  moreover have "length ?p < 2 ^ 63" by (simp add: lit_def)
  moreover have "normal_segments ?p = [lit ''tmp'', lit ''b'']"
    by (simp add: normal_segments_def lit_def components_def component_of_def)
  ultimately show ?thesis using validated_path_is_safe [of default_fs_limits ?p] by simp
qed

end
