(* ===== verification/MemFs.thy ===== *)
theory MemFs
  imports FsPath
begin

text \<open>
  \<open>InMemoryFs\<close> of \<open>bashkit/src/fs/memory.rs\<close>, the filesystem a script runs against: a map from
  normalised paths to entries under one lock, with byte, file-count and directory-count quotas.
  Each operation is one critical section. The clock reading of an operation is its argument \<open>t\<close>;
  the bytes a lazy file's loader returns stand for the loader; the operating system's random
  source is an argument of \<open>read_file\<close>. Quota totals are \<open>u64\<close> sums.
\<close>

section \<open>State\<close>

type_synonym bytes = "u8 list"
type_synonym system_time = nat

datatype file_type = FtFile | FtDirectory | FtSymlink | FtFifo

record metadata =
  file_type :: file_type
  meta_size :: u64
  mode :: u32
  modified :: system_time
  created :: system_time

datatype fs_entry =
    File bytes metadata
  | LazyFile bytes metadata
  | Directory metadata
  | Symlink rstr metadata
  | Fifo bytes metadata

type_synonym fs_entries = "(path_key \<times> fs_entry) list"

record mem_fs =
  entries :: fs_entries
  limits :: fs_limits

datatype fs_error =
    LimitErr fs_limit_exceeded
  | FilesystemFull u64 u64
  | SnapshotTooLarge
  | IsADirectory
  | FileNotFound
  | NotFound
  | ParentNotFound
  | FileExists
  | DirectoryExists
  | DirectoryNotEmpty
  | NotADirectory
  | MoveIntoItself
  | RenameDirOverFile
  | RenameFileOverDir
  | CannotCopyDirectory
  | CopyFileOverDir
  | NotASymlink
  | RandomUnavailable
  | PermissionDenied
  | NotSupported
  | CrossesDevices
  | InvalidPath
  | RollbackFailed fs_error fs_error
  | CapabilityRevoked
  | OutOfFuel

type_synonym 'a fs_result = "(fs_error + 'a) \<times> mem_fs"

definition new_metadata :: "file_type \<Rightarrow> u64 \<Rightarrow> u32 \<Rightarrow> system_time \<Rightarrow> metadata" where
  "new_metadata ft n m t = \<lparr>file_type = ft, meta_size = n, mode = m, modified = t, created = t\<rparr>"

text \<open>Mode bits \<open>0o755\<close>, \<open>0o644\<close>, \<open>0o666\<close> and \<open>0o777\<close>.\<close>

abbreviation MODE_755 :: u32 where "MODE_755 \<equiv> 493"
abbreviation MODE_644 :: u32 where "MODE_644 \<equiv> 420"
abbreviation MODE_666 :: u32 where "MODE_666 \<equiv> 438"
abbreviation MODE_777 :: u32 where "MODE_777 \<equiv> 511"

definition bytes_len :: "bytes \<Rightarrow> u64" where
  "bytes_len content = of_nat (length content)"

definition new_directory :: "u32 \<Rightarrow> system_time \<Rightarrow> fs_entry" where
  "new_directory m t = Directory (new_metadata FtDirectory 0 m t)"

definition new_file :: "bytes \<Rightarrow> u32 \<Rightarrow> system_time \<Rightarrow> fs_entry" where
  "new_file content m t = File content (new_metadata FtFile (bytes_len content) m t)"

definition is_directory :: "fs_entry \<Rightarrow> bool" where
  "is_directory e = (case e of Directory _ \<Rightarrow> True | _ \<Rightarrow> False)"

definition entry_metadata :: "fs_entry \<Rightarrow> metadata" where
  "entry_metadata e = (case e of File _ m \<Rightarrow> m | LazyFile _ m \<Rightarrow> m | Directory m \<Rightarrow> m
     | Symlink _ m \<Rightarrow> m | Fifo _ m \<Rightarrow> m)"

definition update_metadata :: "(metadata \<Rightarrow> metadata) \<Rightarrow> fs_entry \<Rightarrow> fs_entry" where
  "update_metadata f e = (case e of File c m \<Rightarrow> File c (f m) | LazyFile c m \<Rightarrow> LazyFile c (f m)
     | Directory m \<Rightarrow> Directory (f m) | Symlink s m \<Rightarrow> Symlink s (f m) | Fifo c m \<Rightarrow> Fifo c (f m))"

definition key :: "string \<Rightarrow> path_key" where
  "key s = components (lit s)"

definition with_limits :: "fs_limits \<Rightarrow> system_time \<Rightarrow> mem_fs" where
  "with_limits l t =
     \<lparr>entries =
        [(key ''/'', new_directory MODE_755 t)] @
        map (\<lambda>d. (key d, new_directory MODE_755 t)) [''/tmp'', ''/home'', ''/home/user'', ''/dev''] @
        [(key ''/dev/null'', new_file [] MODE_666 t)] @
        map (\<lambda>d. (key d, new_file [] MODE_666 t)) [''/dev/urandom'', ''/dev/random''] @
        [(key ''/dev/fd'', new_directory MODE_755 t)],
      limits = l\<rparr>"

definition new_fs :: "system_time \<Rightarrow> mem_fs" where
  "new_fs t = with_limits default_fs_limits t"

section \<open>Quotas\<close>

definition entry_counts_toward_file_count :: "fs_entry \<Rightarrow> bool" where
  "entry_counts_toward_file_count e = (\<not> is_directory e)"

definition entry_size :: "fs_entry \<Rightarrow> u64" where
  "entry_size e = (case e of File c _ \<Rightarrow> bytes_len c | Fifo c _ \<Rightarrow> bytes_len c
     | LazyFile _ m \<Rightarrow> meta_size m | Symlink _ m \<Rightarrow> meta_size m | Directory _ \<Rightarrow> 0)"

definition usage_step :: "fs_usage \<Rightarrow> path_key \<times> fs_entry \<Rightarrow> fs_usage" where
  "usage_step u pe =
     (let e = snd pe;
          u1 = (case e of
                  File c _ \<Rightarrow> u\<lparr>total_bytes := total_bytes u + bytes_len c\<rparr>
                | Fifo c _ \<Rightarrow> u\<lparr>total_bytes := total_bytes u + bytes_len c\<rparr>
                | Directory _ \<Rightarrow> u\<lparr>dir_count := dir_count u + 1\<rparr>
                | LazyFile _ m \<Rightarrow> u\<lparr>total_bytes := total_bytes u + meta_size m\<rparr>
                | Symlink _ m \<Rightarrow> u\<lparr>total_bytes := total_bytes u + meta_size m\<rparr>)
      in if entry_counts_toward_file_count e then u1\<lparr>file_count := file_count u1 + 1\<rparr> else u1)"

definition compute_usage :: "mem_fs \<Rightarrow> fs_usage" where
  "compute_usage fs = foldl usage_step \<lparr>total_bytes = 0, file_count = 0, dir_count = 0\<rparr> (entries fs)"

text \<open>
  The loop of \<open>check_write_limits\<close>: total bytes, file count, the size of the file being replaced,
  and whether there is none.
\<close>

record write_scan =
  current_total :: u64
  current_file_count :: u64
  old_file_size :: u64
  is_new_file :: bool

definition scan_step :: "path_key \<Rightarrow> write_scan \<Rightarrow> path_key \<times> fs_entry \<Rightarrow> write_scan" where
  "scan_step path w pe =
     (case pe of (entry_path, e) \<Rightarrow>
       let w1 = w\<lparr>current_total := current_total w + entry_size e\<rparr>
       in if entry_counts_toward_file_count e
          then let w2 = w1\<lparr>current_file_count := current_file_count w1 + 1\<rparr>
               in if entry_path = path then w2\<lparr>old_file_size := entry_size e, is_new_file := False\<rparr> else w2
          else w1)"

definition scan_entries :: "path_key \<Rightarrow> fs_entries \<Rightarrow> write_scan" where
  "scan_entries path es = foldl (scan_step path)
     \<lparr>current_total = 0, current_file_count = 0, old_file_size = 0, is_new_file = True\<rparr> es"

definition check_write_limits :: "fs_limits \<Rightarrow> fs_entries \<Rightarrow> path_key \<Rightarrow> u64 \<Rightarrow> fs_error + unit" where
  "check_write_limits l es path new_size =
     res_bind (map_err LimitErr (check_file_size l new_size)) (\<lambda>_.
     let w = scan_entries path es
     in res_bind (if is_new_file w then map_err LimitErr (check_file_count l (current_file_count w)) else Ok ()) (\<lambda>_.
        let new_total = current_total w - old_file_size w + new_size
        in if max_total_bytes l < new_total then Err (FilesystemFull new_total (max_total_bytes l))
           else Ok ()))"

definition count_directories :: "fs_entries \<Rightarrow> u64" where
  "count_directories es = of_nat (length (filter (\<lambda>pe. is_directory (snd pe)) es))"

section \<open>Setup helpers\<close>

text \<open>The loop that creates missing parents, over the components after the root.\<close>

fun ensure_dirs :: "system_time \<Rightarrow> path_key \<Rightarrow> component list \<Rightarrow> fs_entries \<Rightarrow> fs_entries" where
  "ensure_dirs t current [] es = es"
| "ensure_dirs t current (c # cs) es =
     (let current' = current @ [c];
          es' = (if contains_key es current' then es
                 else AList.update current' (new_directory MODE_755 t) es)
      in ensure_dirs t current' cs es')"

definition ensure_parents :: "system_time \<Rightarrow> path_key \<Rightarrow> fs_entries \<Rightarrow> fs_entries" where
  "ensure_parents t path es =
     (case parent path of None \<Rightarrow> es | Some par \<Rightarrow> ensure_dirs t [RootDir] (drop 1 par) es)"

definition add_file :: "system_time \<Rightarrow> rstr \<Rightarrow> bytes \<Rightarrow> u32 \<Rightarrow> mem_fs \<Rightarrow> mem_fs" where
  "add_file t path content m fs =
     (let p = components (normalize_path path)
      in if \<not> is_ok (validate_path (limits fs) (normalize_path path)) then fs
         else if \<not> is_ok (check_write_limits (limits fs) (entries fs) p (bytes_len content)) then fs
         else fs\<lparr>entries := AList.update p (new_file content m t) (ensure_parents t p (entries fs))\<rparr>)"

fun add_dir_loop :: "fs_limits \<Rightarrow> u32 \<Rightarrow> system_time \<Rightarrow> path_key \<Rightarrow> component list \<Rightarrow> fs_entries \<Rightarrow> fs_entries" where
  "add_dir_loop l m t current [] es = es"
| "add_dir_loop l m t current (c # cs) es =
     (let current' = current @ [c]
      in if contains_key es current' then add_dir_loop l m t current' cs es
         else if \<not> is_ok (check_dir_count l (count_directories es)) then es
         else add_dir_loop l m t current' cs (AList.update current' (new_directory m t) es))"

definition add_dir :: "system_time \<Rightarrow> rstr \<Rightarrow> u32 \<Rightarrow> mem_fs \<Rightarrow> mem_fs" where
  "add_dir t path m fs =
     (if \<not> is_ok (validate_path (limits fs) (normalize_path path)) then fs
      else fs\<lparr>entries := add_dir_loop (limits fs) m t [RootDir]
                            (drop 1 (components (normalize_path path))) (entries fs)\<rparr>)"

definition add_lazy_file :: "system_time \<Rightarrow> rstr \<Rightarrow> u64 \<Rightarrow> u32 \<Rightarrow> bytes \<Rightarrow> mem_fs \<Rightarrow> mem_fs" where
  "add_lazy_file t path size_hint m loader fs =
     (let p = components (normalize_path path)
      in if \<not> is_ok (validate_path (limits fs) (normalize_path path)) then fs
         else if \<not> is_ok (check_write_limits (limits fs) (entries fs) p size_hint) then fs
         else fs\<lparr>entries := AList.update p (LazyFile loader (new_metadata FtFile size_hint m t))
                              (ensure_parents t p (entries fs))\<rparr>)"

section \<open>File operations\<close>

text \<open>\<open>self.limits.validate_path(path)?\<close>, then the rest on the normalised path.\<close>

definition on_path :: "rstr \<Rightarrow> mem_fs \<Rightarrow> (path_key \<Rightarrow> 'a fs_result) \<Rightarrow> 'a fs_result" where
  "on_path path fs k =
     (case validate_path (limits fs) path of
        Inl e \<Rightarrow> (Err (LimitErr e), fs)
      | Inr _ \<Rightarrow> k (components (normalize_path path)))"

text \<open>
  Loading a lazy file: the entry is taken out, checked against the quotas at its real size, and
  put back as a plain file, or as it was.
\<close>

definition materialize ::
  "fs_limits \<Rightarrow> path_key \<Rightarrow> bytes \<Rightarrow> metadata \<Rightarrow> fs_entries \<Rightarrow> (fs_error + unit) \<times> fs_entries" where
  "materialize l p loader m es =
     (let es1 = AList.delete p es; content = loader
      in case check_write_limits l es1 p (bytes_len content) of
           Inl err \<Rightarrow> (Err err, AList.update p (LazyFile loader m) es1)
         | Inr _ \<Rightarrow> (Ok (), AList.update p (File content (m\<lparr>meta_size := bytes_len content\<rparr>)) es1))"

definition read_file :: "(nat \<Rightarrow> bytes option) \<Rightarrow> rstr \<Rightarrow> mem_fs \<Rightarrow> bytes fs_result" where
  "read_file random path fs = on_path path fs (\<lambda>p.
     if p = key ''/dev/urandom'' \<or> p = key ''/dev/random''
     then (case random 8192 of None \<Rightarrow> (Err RandomUnavailable, fs) | Some bs \<Rightarrow> (Ok bs, fs))
     else case map_of (entries fs) p of
       Some (File content _) \<Rightarrow> (Ok content, fs)
     | Some (Fifo content _) \<Rightarrow> (Ok content, fs)
     | Some (Directory _) \<Rightarrow> (Err IsADirectory, fs)
     | Some (Symlink _ _) \<Rightarrow> (Err FileNotFound, fs)
     | Some (LazyFile loader m) \<Rightarrow>
         (case materialize (limits fs) p loader m (entries fs) of
            (Inl err, es) \<Rightarrow> (Err err, fs\<lparr>entries := es\<rparr>)
          | (Inr _, es) \<Rightarrow> (Ok loader, fs\<lparr>entries := es\<rparr>))
     | None \<Rightarrow> (Err FileNotFound, fs))"

definition parent_missing :: "fs_entries \<Rightarrow> path_key \<Rightarrow> bool" where
  "parent_missing es p =
     (case parent p of None \<Rightarrow> False | Some par \<Rightarrow> \<not> contains_key es par \<and> par \<noteq> key ''/'')"

definition write_file :: "system_time \<Rightarrow> rstr \<Rightarrow> bytes \<Rightarrow> mem_fs \<Rightarrow> unit fs_result" where
  "write_file t path content fs = on_path path fs (\<lambda>p.
     if p = key ''/dev/null'' then (Ok (), fs)
     else if parent_missing (entries fs) p then (Err ParentNotFound, fs)
     else if (case map_of (entries fs) p of Some (Directory _) \<Rightarrow> True | _ \<Rightarrow> False)
       then (Err IsADirectory, fs)
     else case check_write_limits (limits fs) (entries fs) p (bytes_len content) of
       Inl err \<Rightarrow> (Err err, fs)
     | Inr _ \<Rightarrow>
         (case map_of (entries fs) p of
            Some (Fifo _ _) \<Rightarrow>
              (Ok (), fs\<lparr>entries := AList.update p
                 (Fifo content (new_metadata FtFifo (bytes_len content) MODE_644 t)) (entries fs)\<rparr>)
          | _ \<Rightarrow> (Ok (), fs\<lparr>entries := AList.update p (new_file content MODE_644 t) (entries fs)\<rparr>)))"

text \<open>The second half of \<open>append_file\<close>, once the entry is a loaded file or a fifo.\<close>

definition append_scan :: "fs_entries \<Rightarrow> u64" where
  "append_scan es = foldl (\<lambda>total pe. case snd pe of
       File c _ \<Rightarrow> total + bytes_len c
     | Fifo c _ \<Rightarrow> total + bytes_len c
     | LazyFile _ m \<Rightarrow> total + meta_size m
     | _ \<Rightarrow> total) 0 es"

definition append_loaded ::
  "system_time \<Rightarrow> fs_limits \<Rightarrow> path_key \<Rightarrow> bytes \<Rightarrow> fs_entries \<Rightarrow> (fs_error + unit) \<times> fs_entries" where
  "append_loaded t l p content es =
     (let current_file_size = (case map_of es p of Some (File c _) \<Rightarrow> bytes_len c
                                | Some (Fifo c _) \<Rightarrow> bytes_len c | _ \<Rightarrow> 0);
          new_file_size = current_file_size + bytes_len content
      in case map_err LimitErr (check_file_size l new_file_size) of
        Inl err \<Rightarrow> (Err err, es)
      | Inr _ \<Rightarrow>
          (let new_total = append_scan es + bytes_len content
           in if max_total_bytes l < new_total then (Err (FilesystemFull new_total (max_total_bytes l)), es)
              else case map_of es p of
                Some (File c m) \<Rightarrow>
                  (Ok (), AList.update p (File (c @ content)
                     (m\<lparr>meta_size := bytes_len (c @ content), modified := t\<rparr>)) es)
              | Some (Fifo c m) \<Rightarrow>
                  (Ok (), AList.update p (Fifo (c @ content)
                     (m\<lparr>meta_size := bytes_len (c @ content), modified := t\<rparr>)) es)
              | _ \<Rightarrow> (Ok (), es)))"

definition append_file :: "system_time \<Rightarrow> rstr \<Rightarrow> bytes \<Rightarrow> mem_fs \<Rightarrow> unit fs_result" where
  "append_file t path content fs = on_path path fs (\<lambda>p.
     if p = key ''/dev/null'' then (Ok (), fs)
     else case map_of (entries fs) p of
       Some (Directory _) \<Rightarrow> (Err IsADirectory, fs)
     | Some (Symlink _ _) \<Rightarrow> (Err FileNotFound, fs)
     | None \<Rightarrow>
         (case check_write_limits (limits fs) (entries fs) p (bytes_len content) of
            Inl err \<Rightarrow> (Err err, fs)
          | Inr _ \<Rightarrow>
              if parent_missing (entries fs) p then (Err ParentNotFound, fs)
              else (Ok (), fs\<lparr>entries := AList.update p (new_file content MODE_644 t) (entries fs)\<rparr>))
     | Some (LazyFile loader m) \<Rightarrow>
         (case materialize (limits fs) p loader m (entries fs) of
            (Inl err, es) \<Rightarrow> (Err err, fs\<lparr>entries := es\<rparr>)
          | (Inr _, es) \<Rightarrow>
              (let (r, es') = append_loaded t (limits fs) p content es in (r, fs\<lparr>entries := es'\<rparr>)))
     | _ \<Rightarrow>
         (let (r, es') = append_loaded t (limits fs) p content (entries fs)
          in (r, fs\<lparr>entries := es'\<rparr>)))"

section \<open>Directories, links and metadata\<close>

fun mkdir_loop ::
  "fs_limits \<Rightarrow> system_time \<Rightarrow> path_key \<Rightarrow> component list \<Rightarrow> fs_entries \<Rightarrow> (fs_error + unit) \<times> fs_entries" where
  "mkdir_loop l t current [] es = (Ok (), es)"
| "mkdir_loop l t current (c # cs) es =
     (let current' = current @ [c]
      in case map_of es current' of
           Some e \<Rightarrow> if is_directory e then mkdir_loop l t current' cs es else (Err FileExists, es)
         | None \<Rightarrow>
             (case map_err LimitErr (check_dir_count l (count_directories es)) of
                Inl err \<Rightarrow> (Err err, es)
              | Inr _ \<Rightarrow> mkdir_loop l t current' cs (AList.update current' (new_directory MODE_755 t) es)))"

definition mkdir :: "system_time \<Rightarrow> rstr \<Rightarrow> bool \<Rightarrow> mem_fs \<Rightarrow> unit fs_result" where
  "mkdir t path recursive fs = on_path path fs (\<lambda>p.
     if recursive
     then let (r, es) = mkdir_loop (limits fs) t [RootDir] (drop 1 p) (entries fs)
          in (r, fs\<lparr>entries := es\<rparr>)
     else if parent_missing (entries fs) p then (Err ParentNotFound, fs)
     else if contains_key (entries fs) p then (Err DirectoryExists, fs)
     else case map_err LimitErr (check_dir_count (limits fs) (count_directories (entries fs))) of
       Inl err \<Rightarrow> (Err err, fs)
     | Inr _ \<Rightarrow> (Ok (), fs\<lparr>entries := AList.update p (new_directory MODE_755 t) (entries fs)\<rparr>))"

definition has_children :: "fs_entries \<Rightarrow> path_key \<Rightarrow> bool" where
  "has_children es p = list_ex (\<lambda>q. q \<noteq> p \<and> parent q = Some p) (keys es)"

definition remove :: "rstr \<Rightarrow> bool \<Rightarrow> mem_fs \<Rightarrow> unit fs_result" where
  "remove path recursive fs = on_path path fs (\<lambda>p.
     case map_of (entries fs) p of
       None \<Rightarrow> (Err NotFound, fs)
     | Some e \<Rightarrow>
         if is_directory e
         then if recursive
              then (Ok (), fs\<lparr>entries := filter (\<lambda>pe. \<not> path_starts_with (fst pe) p) (entries fs)\<rparr>)
              else if has_children (entries fs) p then (Err DirectoryNotEmpty, fs)
              else (Ok (), fs\<lparr>entries := AList.delete p (entries fs)\<rparr>)
         else (Ok (), fs\<lparr>entries := AList.delete p (entries fs)\<rparr>))"

definition stat :: "rstr \<Rightarrow> mem_fs \<Rightarrow> metadata fs_result" where
  "stat path fs = on_path path fs (\<lambda>p.
     case map_of (entries fs) p of Some e \<Rightarrow> (Ok (entry_metadata e), fs) | None \<Rightarrow> (Err NotFound, fs))"

definition read_dir :: "rstr \<Rightarrow> mem_fs \<Rightarrow> ((rstr \<times> metadata) list) fs_result" where
  "read_dir path fs = on_path path fs (\<lambda>p.
     case map_of (entries fs) p of
       Some e \<Rightarrow>
         if is_directory e
         then (Ok (map (\<lambda>(q, e'). (case file_name q of None \<Rightarrow> [] | Some n \<Rightarrow> n, entry_metadata e'))
                 (filter (\<lambda>(q, _). parent q = Some p \<and> q \<noteq> p) (entries fs))), fs)
         else (Err NotADirectory, fs)
     | None \<Rightarrow> (Err NotFound, fs))"

definition path_exists :: "rstr \<Rightarrow> mem_fs \<Rightarrow> bool fs_result" where
  "path_exists path fs = on_path path fs (\<lambda>p. (Ok (contains_key (entries fs) p), fs))"

definition parent_not_directory :: "fs_entries \<Rightarrow> path_key \<Rightarrow> bool" where
  "parent_not_directory es p =
     (case parent p of
        None \<Rightarrow> False
      | Some par \<Rightarrow> (case map_of es par of Some e \<Rightarrow> \<not> is_directory e | None \<Rightarrow> True))"

definition moved_entries :: "path_key \<Rightarrow> path_key \<Rightarrow> fs_entries \<Rightarrow> fs_entries" where
  "moved_entries src dst es =
     map (\<lambda>(q, e). (dst @ drop (length src) q, e)) (filter (\<lambda>(q, _). path_starts_with q src) es)"

definition rename :: "rstr \<Rightarrow> rstr \<Rightarrow> mem_fs \<Rightarrow> unit fs_result" where
  "rename src dst fs = on_path src fs (\<lambda>p. on_path dst fs (\<lambda>q.
     let es = entries fs
     in if p = q then (if contains_key es p then (Ok (), fs) else (Err NotFound, fs))
        else if parent_not_directory es q then (Err ParentNotFound, fs)
        else case map_of es p of
          None \<Rightarrow> (Err NotFound, fs)
        | Some e \<Rightarrow>
            if is_directory e \<and> path_starts_with q p then (Err MoveIntoItself, fs)
            else if is_directory e \<and> (case map_of es q of Some (Directory _) \<Rightarrow> has_children es q | _ \<Rightarrow> False)
              then (Err DirectoryNotEmpty, fs)
            else if is_directory e \<and> (case map_of es q of None \<Rightarrow> False | Some e' \<Rightarrow> \<not> is_directory e')
              then (Err RenameDirOverFile, fs)
            else if (case e of File _ _ \<Rightarrow> True | Symlink _ _ \<Rightarrow> True | Fifo _ _ \<Rightarrow> True | _ \<Rightarrow> False)
                    \<and> (case map_of es q of Some (Directory _) \<Rightarrow> True | _ \<Rightarrow> False)
              then (Err RenameFileOverDir, fs)
            else if is_directory e
              then (Ok (), fs\<lparr>entries :=
                      foldl (\<lambda>acc (k, v). AList.update k v acc)
                        (filter (\<lambda>(k, _). \<not> path_starts_with k p) es) (moved_entries p q es)\<rparr>)
              else (Ok (), fs\<lparr>entries := AList.update q e (AList.delete p es)\<rparr>)))"

definition copy :: "rstr \<Rightarrow> rstr \<Rightarrow> mem_fs \<Rightarrow> unit fs_result" where
  "copy src dst fs = on_path src fs (\<lambda>p. on_path dst fs (\<lambda>q.
     let es = entries fs
     in case map_of es p of
          None \<Rightarrow> (Err NotFound, fs)
        | Some e \<Rightarrow>
            if (case e of File _ _ \<Rightarrow> False | Symlink _ _ \<Rightarrow> False | Fifo _ _ \<Rightarrow> False | _ \<Rightarrow> True)
              then (Err CannotCopyDirectory, fs)
            else if (case map_of es q of Some (Directory _) \<Rightarrow> True | _ \<Rightarrow> False)
              then (Err CopyFileOverDir, fs)
            else if parent_not_directory es q then (Err ParentNotFound, fs)
            else let sz = (case e of File c _ \<Rightarrow> bytes_len c | Fifo c _ \<Rightarrow> bytes_len c | _ \<Rightarrow> 0)
                 in case check_write_limits (limits fs) es q sz of
                      Inl err \<Rightarrow> (Err err, fs)
                    | Inr _ \<Rightarrow> (Ok (), fs\<lparr>entries := AList.update q e es\<rparr>)))"

definition symlink :: "system_time \<Rightarrow> rstr \<Rightarrow> rstr \<Rightarrow> mem_fs \<Rightarrow> unit fs_result" where
  "symlink t target link fs = on_path link fs (\<lambda>p.
     case validate_path (limits fs) target of
       Inl e \<Rightarrow> (Err (LimitErr e), fs)
     | Inr _ \<Rightarrow>
         (let target_size = path_str_len target
          in case check_write_limits (limits fs) (entries fs) p target_size of
               Inl err \<Rightarrow> (Err err, fs)
             | Inr _ \<Rightarrow> (Ok (), fs\<lparr>entries := AList.update p
                          (Symlink target (new_metadata FtSymlink target_size MODE_777 t)) (entries fs)\<rparr>)))"

definition read_link :: "rstr \<Rightarrow> mem_fs \<Rightarrow> rstr fs_result" where
  "read_link path fs = on_path path fs (\<lambda>p.
     case map_of (entries fs) p of
       Some (Symlink target _) \<Rightarrow> (Ok target, fs)
     | Some _ \<Rightarrow> (Err NotASymlink, fs)
     | None \<Rightarrow> (Err NotFound, fs))"

definition chmod :: "rstr \<Rightarrow> u32 \<Rightarrow> mem_fs \<Rightarrow> unit fs_result" where
  "chmod path m fs = on_path path fs (\<lambda>p.
     case map_of (entries fs) p of
       Some e \<Rightarrow> (Ok (), fs\<lparr>entries := AList.update p (update_metadata (\<lambda>d. d\<lparr>mode := m\<rparr>) e) (entries fs)\<rparr>)
     | None \<Rightarrow> (Err NotFound, fs))"

definition set_modified_time :: "rstr \<Rightarrow> system_time \<Rightarrow> mem_fs \<Rightarrow> unit fs_result" where
  "set_modified_time path t fs = on_path path fs (\<lambda>p.
     case map_of (entries fs) p of
       Some e \<Rightarrow> (Ok (), fs\<lparr>entries := AList.update p (update_metadata (\<lambda>d. d\<lparr>modified := t\<rparr>) e) (entries fs)\<rparr>)
     | None \<Rightarrow> (Err NotFound, fs))"

definition mkfifo :: "system_time \<Rightarrow> rstr \<Rightarrow> u32 \<Rightarrow> mem_fs \<Rightarrow> unit fs_result" where
  "mkfifo t path m fs = on_path path fs (\<lambda>p.
     if parent_missing (entries fs) p then (Err ParentNotFound, fs)
     else if contains_key (entries fs) p then (Err FileExists, fs)
     else case map_err LimitErr (check_file_count (limits fs)
                 (of_nat (length (filter (\<lambda>pe. \<not> is_directory (snd pe)) (entries fs))))) of
       Inl err \<Rightarrow> (Err err, fs)
     | Inr _ \<Rightarrow> (Ok (), fs\<lparr>entries := AList.update p (Fifo [] (new_metadata FtFifo 0 m t)) (entries fs)\<rparr>))"

end
