(* ===== verification/MemFsQuota.thy ===== *)
theory MemFsQuota
  imports MemFs
begin

text \<open>
  The quotas of the in-memory filesystem. \<open>fs_op\<close> collects the operations a host or a script can
  perform; \<open>quota_ok\<close> is what all of them keep: every file within \<open>max_file_size\<close>, the number of
  files within \<open>max_file_count\<close>, and the bytes of files, fifos and lazy files together within
  \<open>max_total_bytes\<close>. The targets of symbolic links are counted by the checks of a write but not
  by those of an append or a copy, so only the other bytes are bounded; the last section shows
  the gap.
\<close>

section \<open>Operations\<close>

datatype fs_op =
    ReadFile rstr
  | WriteFile rstr bytes
  | AppendFile rstr bytes
  | Mkdir rstr bool
  | Remove rstr bool
  | Rename rstr rstr
  | Copy rstr rstr
  | MakeSymlink rstr rstr
  | Chmod rstr u32
  | SetModified rstr system_time
  | Mkfifo rstr u32
  | AddFile rstr bytes u32
  | AddDir rstr u32
  | AddLazy rstr u64 u32 bytes

definition unit_result :: "'a fs_result \<Rightarrow> unit fs_result" where
  "unit_result r = (case r of (Inl e, fs) \<Rightarrow> (Err e, fs) | (Inr _, fs) \<Rightarrow> (Ok (), fs))"

fun fs_step :: "system_time \<Rightarrow> (nat \<Rightarrow> bytes option) \<Rightarrow> fs_op \<Rightarrow> mem_fs \<Rightarrow> unit fs_result" where
  "fs_step t rnd (ReadFile p) fs = unit_result (read_file rnd p fs)"
| "fs_step t rnd (WriteFile p c) fs = write_file t p c fs"
| "fs_step t rnd (AppendFile p c) fs = append_file t p c fs"
| "fs_step t rnd (Mkdir p r) fs = mkdir t p r fs"
| "fs_step t rnd (Remove p r) fs = remove p r fs"
| "fs_step t rnd (Rename p q) fs = rename p q fs"
| "fs_step t rnd (Copy p q) fs = copy p q fs"
| "fs_step t rnd (MakeSymlink target p) fs = symlink t target p fs"
| "fs_step t rnd (Chmod p m) fs = chmod p m fs"
| "fs_step t rnd (SetModified p tm) fs = set_modified_time p tm fs"
| "fs_step t rnd (Mkfifo p m) fs = mkfifo t p m fs"
| "fs_step t rnd (AddFile p c m) fs = (Ok (), add_file t p c m fs)"
| "fs_step t rnd (AddDir p m) fs = (Ok (), add_dir t p m fs)"
| "fs_step t rnd (AddLazy p n m loader) fs = (Ok (), add_lazy_file t p n m loader fs)"

fun fs_run :: "(system_time \<times> (nat \<Rightarrow> bytes option) \<times> fs_op) list \<Rightarrow> mem_fs \<Rightarrow> mem_fs" where
  "fs_run [] fs = fs"
| "fs_run ((t, rnd, op) # ops) fs = fs_run ops (snd (fs_step t rnd op fs))"

section \<open>Totals\<close>

definition tally :: "(fs_entry \<Rightarrow> nat) \<Rightarrow> fs_entries \<Rightarrow> nat" where
  "tally f es = sum_list (map (\<lambda>pe. f (snd pe)) es)"

definition old_value :: "(fs_entry \<Rightarrow> nat) \<Rightarrow> fs_entries \<Rightarrow> path_key \<Rightarrow> nat" where
  "old_value f es p = (case map_of es p of None \<Rightarrow> 0 | Some e \<Rightarrow> f e)"

definition stored_size :: "fs_entry \<Rightarrow> nat" where
  "stored_size e = (case e of File c _ \<Rightarrow> length c | Fifo c _ \<Rightarrow> length c
     | LazyFile _ m \<Rightarrow> unat (meta_size m) | Symlink _ m \<Rightarrow> unat (meta_size m) | Directory _ \<Rightarrow> 0)"

definition file_size :: "fs_entry \<Rightarrow> nat" where
  "file_size e = (case e of Symlink _ _ \<Rightarrow> 0 | _ \<Rightarrow> stored_size e)"

definition as_file :: "fs_entry \<Rightarrow> nat" where
  "as_file e = (if is_directory e then 0 else 1)"

definition as_dir :: "fs_entry \<Rightarrow> nat" where
  "as_dir e = (if is_directory e then 1 else 0)"

lemma tally_simps [simp]:
  "tally f [] = 0" "tally f (pe # es) = f (snd pe) + tally f es" "tally f (es @ es') = tally f es + tally f es'"
  by (simp_all add: tally_def)

lemma tally_update:
  assumes "distinct (keys es)"
  shows "tally f (AList.update p e es) + old_value f es p = tally f es + f e"
proof (cases "map_of es p")
  case None
  then have "p \<notin> fst ` set es" by (simp add: map_of_eq_None_iff)
  from sum_list_update_new [OF this, where f = "\<lambda>pe. f (snd pe)"]
  show ?thesis using None by (simp add: tally_def old_value_def)
next
  case (Some u)
  from sum_list_update_old [OF assms this, where f = "\<lambda>pe. f (snd pe)"]
  show ?thesis using Some by (simp add: tally_def old_value_def)
qed

lemma tally_delete:
  assumes "distinct (keys es)"
  shows "tally f (AList.delete p es) + old_value f es p = tally f es"
proof (cases "map_of es p")
  case None
  then have "AList.delete p es = es" by (simp add: delete_id map_of_eq_None_iff)
  then show ?thesis using None by (simp add: old_value_def)
next
  case (Some u)
  from sum_list_delete [OF assms this, where f = "\<lambda>pe. f (snd pe)"]
  show ?thesis using Some by (simp add: tally_def old_value_def)
qed

lemma tally_filter_le: "tally f (filter P es) \<le> tally f es"
  by (induction es) auto

lemma tally_update_le: "distinct (keys es) \<Longrightarrow> tally f (AList.update p e es) \<le> tally f es + f e"
  using tally_update [of es f p e] by linarith

lemma distinct_foldl_update:
  "distinct (keys es) \<Longrightarrow> distinct (keys (foldl (\<lambda>acc (k, v). AList.update k v acc) es ms))"
  by (induction ms arbitrary: es) (auto simp: distinct_update split: prod.splits)

lemma tally_foldl_update_le:
  "distinct (keys es) \<Longrightarrow>
   tally f (foldl (\<lambda>acc (k, v). AList.update k v acc) es ms) \<le> tally f es + tally f ms"
proof (induction ms arbitrary: es)
  case (Cons kv ms)
  obtain k v where kv: "kv = (k, v)" by (rule prod.exhaust)
  have "distinct (keys (AList.update k v es))" using Cons.prems by (simp add: distinct_update)
  from Cons.IH [OF this] tally_update_le [OF Cons.prems, of f k v] show ?case by (simp add: kv)
qed simp

lemma snd_set_update: "snd ` set (AList.update k v es) \<subseteq> insert v (snd ` set es)"
  using set_update_subset_insert by (induction es) auto

lemma snd_set_delete: "snd ` set (AList.delete k es) \<subseteq> snd ` set es"
  by (auto simp: AList.delete_eq)

lemma snd_set_foldl_update:
  "snd ` set (foldl (\<lambda>acc (k, v). AList.update k v acc) es ms) \<subseteq> snd ` set es \<union> snd ` set ms"
proof (induction ms arbitrary: es)
  case (Cons kv ms)
  show ?case
    using Cons.IH [of "AList.update (fst kv) (snd kv) es"] snd_set_update [of "fst kv" "snd kv" es]
    by (auto simp: split_beta)
qed simp

section \<open>The write check\<close>

definition counted :: "fs_entries \<Rightarrow> path_key \<Rightarrow> bool" where
  "counted es p = (case map_of es p of None \<Rightarrow> False | Some e \<Rightarrow> \<not> is_directory e)"

lemma scan_foldl:
  assumes "distinct (keys es)"
  shows "foldl (scan_step p) w es =
    \<lparr>current_total = current_total w + sum_list (map (\<lambda>pe. entry_size (snd pe)) es),
     current_file_count = current_file_count w + of_nat (tally as_file es),
     old_file_size = (if counted es p then entry_size (the (map_of es p)) else old_file_size w),
     is_new_file = (if counted es p then False else is_new_file w)\<rparr>"
  using assms
proof (induction es arbitrary: w)
  case (Cons pe es)
  obtain q e where pe: "pe = (q, e)" by (rule prod.exhaust)
  from Cons.prems pe have q: "map_of es q = None" and d: "distinct (keys es)"
    by (auto simp: map_of_eq_None_iff)
  show ?case
    using q by (simp add: pe Cons.IH [OF d])
      (auto simp: scan_step_def Let_def entry_counts_toward_file_count_def as_file_def counted_def add.assoc)
qed (simp add: counted_def)

lemma scan_entries_eq:
  "distinct (keys es) \<Longrightarrow> scan_entries p es =
    \<lparr>current_total = sum_list (map (\<lambda>pe. entry_size (snd pe)) es),
     current_file_count = of_nat (tally as_file es),
     old_file_size = (if counted es p then entry_size (the (map_of es p)) else 0),
     is_new_file = (\<not> counted es p)\<rparr>"
  by (simp add: scan_entries_def scan_foldl)

text \<open>What the quotas bound. The loader of a lazy file must return an addressable amount.\<close>

definition file_bound :: "fs_limits \<Rightarrow> nat" where
  "file_bound l = max 3 (unat (max_file_count l))"

definition finite_limits :: "fs_limits \<Rightarrow> bool" where
  "finite_limits l \<longleftrightarrow> (file_bound l + 1) * unat (max_file_size l) < 2 ^ 64"

definition entry_ok :: "fs_limits \<Rightarrow> fs_entry \<Rightarrow> bool" where
  "entry_ok l e \<longleftrightarrow> stored_size e \<le> unat (max_file_size l) \<and>
     (case e of LazyFile loader _ \<Rightarrow> length loader < 2 ^ 63 | _ \<Rightarrow> True)"

definition entries_ok :: "fs_limits \<Rightarrow> fs_entries \<Rightarrow> bool" where
  "entries_ok l es = (\<forall>e \<in> snd ` set es. entry_ok l e)"

definition quota_ok :: "fs_limits \<Rightarrow> fs_entries \<Rightarrow> bool" where
  "quota_ok l es \<longleftrightarrow> distinct (keys es) \<and> entries_ok l es \<and>
     tally file_size es \<le> unat (max_total_bytes l) \<and> tally as_file es \<le> file_bound l"

lemma entries_ok_simps [simp]:
  "entries_ok l []" "entries_ok l (pe # es) \<longleftrightarrow> entry_ok l (snd pe) \<and> entries_ok l es"
  by (simp_all add: entries_ok_def)

lemma entries_ok_update: "entries_ok l es \<Longrightarrow> entry_ok l e \<Longrightarrow> entries_ok l (AList.update p e es)"
  using snd_set_update [of p e es] unfolding entries_ok_def by blast

lemma entries_ok_subset: "entries_ok l es \<Longrightarrow> snd ` set es' \<subseteq> snd ` set es \<Longrightarrow> entries_ok l es'"
  unfolding entries_ok_def by blast

lemma entries_ok_entry: "entries_ok l es \<Longrightarrow> map_of es p = Some e \<Longrightarrow> entry_ok l e"
  unfolding entries_ok_def by (force dest: map_of_SomeD)

lemma unat_entry_size: "entry_ok l e \<Longrightarrow> unat (entry_size e) = stored_size e"
proof -
  assume "entry_ok l e"
  then have "stored_size e \<le> unat (max_file_size l)" by (simp add: entry_ok_def)
  then have "stored_size e < 2 ^ 64" by (rule le_less_trans) simp
  then show ?thesis
    by (cases e) (auto simp: entry_size_def stored_size_def bytes_len_def unat_of_nat)
qed

lemma stored_le_files: "entry_ok l e \<Longrightarrow> stored_size e \<le> as_file e * unat (max_file_size l)"
  by (cases e) (auto simp: entry_ok_def stored_size_def as_file_def is_directory_def)

lemma tally_stored_le:
  "entries_ok l es \<Longrightarrow> tally stored_size es \<le> tally as_file es * unat (max_file_size l)"
  by (induction es) (auto simp: add_mult_distrib dest: stored_le_files intro!: add_mono)

lemma tally_sizes_unat:
  "entries_ok l es \<Longrightarrow>
   sum_list (map unat (map (\<lambda>pe. entry_size (snd pe)) es)) = tally stored_size es"
  by (induction es) (auto simp: unat_entry_size)

lemma quota_stored_room:
  assumes "quota_ok l es" "finite_limits l"
  shows "tally stored_size es + unat (max_file_size l) < 2 ^ 64"
proof -
  have "tally stored_size es \<le> tally as_file es * unat (max_file_size l)"
    using assms(1) tally_stored_le [of l es] by (simp add: quota_ok_def)
  also have "\<dots> \<le> file_bound l * unat (max_file_size l)"
    using assms(1) by (simp add: quota_ok_def)
  finally show ?thesis using assms(2) by (simp add: finite_limits_def)
qed

lemma quota_total_unat:
  assumes "quota_ok l es" "finite_limits l"
  shows "unat (sum_list (map (\<lambda>pe. entry_size (snd pe)) es)) = tally stored_size es"
proof -
  have "tally stored_size es < 2 ^ 64" using quota_stored_room [OF assms] by linarith
  with assms(1) show ?thesis
    using unat_sum_list_small [of "map (\<lambda>pe. entry_size (snd pe)) es"] tally_sizes_unat [of l es]
    by (simp add: quota_ok_def)
qed

lemma counted_old:
  assumes "quota_ok l es"
  shows "unat (if counted es p then entry_size (the (map_of es p)) else 0) = old_value stored_size es p"
proof (cases "map_of es p")
  case (Some e)
  with assms have "entry_ok l e" unfolding quota_ok_def by (blast intro: entries_ok_entry)
  then have "unat (entry_size e) = stored_size e" by (rule unat_entry_size)
  then show ?thesis using Some
    by (auto simp: counted_def old_value_def stored_size_def is_directory_def split: fs_entry.splits)
qed (simp add: counted_def old_value_def)

lemma old_value_le: "distinct (keys es) \<Longrightarrow> old_value f es p \<le> tally f es"
  using tally_delete [of es f p] by linarith

text \<open>What a passed write check says, in numbers.\<close>

lemma check_write_limits_ok:
  assumes ok: "quota_ok l es" and fin: "finite_limits l" and chk: "check_write_limits l es p n = Inr u"
  shows "unat n \<le> unat (max_file_size l)"
    and "tally stored_size es - old_value stored_size es p + unat n \<le> unat (max_total_bytes l)"
    and "\<not> counted es p \<Longrightarrow> tally as_file es < unat (max_file_count l)"
proof -
  have d: "distinct (keys es)" using ok by (simp add: quota_ok_def)
  note scan = scan_entries_eq [OF d, of p]
  show n: "unat n \<le> unat (max_file_size l)"
    using chk by (auto simp: check_write_limits_def check_file_size_def word_le_nat_alt not_less
        res_bind_Inr split: if_splits)
  let ?tot = "sum_list (map (\<lambda>pe. entry_size (snd pe)) es)"
  let ?old = "if counted es p then entry_size (the (map_of es p)) else 0"
  have tot: "unat ?tot = tally stored_size es" by (rule quota_total_unat [OF ok fin])
  have old: "unat ?old = old_value stored_size es p" by (rule counted_old [OF ok])
  have le: "old_value stored_size es p \<le> tally stored_size es" by (rule old_value_le [OF d])
  have "unat (?tot - ?old) = tally stored_size es - old_value stored_size es p"
    using tot old le by (subst unat_diff_le) (simp_all add: word_le_nat_alt)
  moreover have "tally stored_size es - old_value stored_size es p + unat n < 2 ^ 64"
    using quota_stored_room [OF ok fin] n by linarith
  ultimately have new: "unat (?tot - ?old + n) = tally stored_size es - old_value stored_size es p + unat n"
    by (simp add: unat_add_small)
  have "?tot - ?old + n \<le> max_total_bytes l"
    using chk by (simp add: check_write_limits_def scan Let_def not_less res_bind_Inr split: if_splits)
  then show "tally stored_size es - old_value stored_size es p + unat n \<le> unat (max_total_bytes l)"
    using new by (simp add: word_le_nat_alt)
  assume "\<not> counted es p"
  then have "of_nat (tally as_file es) < max_file_count l"
    using chk by (auto simp: check_write_limits_def scan Let_def res_bind_Inr check_file_count_def
        not_le split: if_splits)
  moreover have "tally as_file es < 2 ^ 64"
  proof (rule le_less_trans)
    show "tally as_file es \<le> file_bound l" using ok by (simp add: quota_ok_def)
    show "file_bound l < 2 ^ 64" by (simp add: file_bound_def)
  qed
  ultimately show "tally as_file es < unat (max_file_count l)"
    by (simp add: word_less_nat_alt unat_of_nat)
qed

section \<open>Updates that keep the quotas\<close>

text \<open>
  Putting an entry of the checked size at a path. The check may have looked at the entries
  before missing parent directories were added (\<open>es0\<close>), which changes none of the numbers.
\<close>

definition same_numbers :: "fs_entries \<Rightarrow> fs_entries \<Rightarrow> path_key \<Rightarrow> bool" where
  "same_numbers es0 es p \<longleftrightarrow>
     (\<forall>f \<in> {stored_size, file_size, as_file}. tally f es = tally f es0 \<and> old_value f es p = old_value f es0 p)"

lemma same_numbers_refl: "same_numbers es es p"
  by (simp add: same_numbers_def)

lemma counted_as_file: "counted es p \<longleftrightarrow> old_value as_file es p = 1"
  by (auto simp: counted_def old_value_def as_file_def split: option.splits)

lemma not_counted_as_file: "\<not> counted es p \<longleftrightarrow> old_value as_file es p = 0"
  by (auto simp: counted_def old_value_def as_file_def split: option.splits)

lemma file_le_stored: "file_size e \<le> stored_size e"
  by (cases e) (auto simp: file_size_def stored_size_def)

lemma tally_mono: "(\<And>e. f e \<le> g e) \<Longrightarrow> tally f es \<le> tally g es"
  by (induction es) (auto intro: add_mono)

lemma old_value_mono: "(\<And>e. f e \<le> g e) \<Longrightarrow> old_value f es p \<le> old_value g es p"
  by (simp add: old_value_def split: option.split)

text \<open>The bytes of a new entry count against the limit by its file size.\<close>

lemma quota_update_bounds:
  assumes ok: "quota_ok l es" and e: "entry_ok l e"
    and size: "tally file_size es - old_value file_size es p + file_size e \<le> unat (max_total_bytes l)"
    and count: "\<not> counted es p \<Longrightarrow> tally as_file es + as_file e \<le> file_bound l"
  shows "quota_ok l (AList.update p e es)"
proof -
  have d: "distinct (keys es)" using ok by (simp add: quota_ok_def)
  have "tally file_size (AList.update p e es) \<le> unat (max_total_bytes l)"
    using tally_update [OF d, of file_size p e] old_value_le [OF d, of file_size p] size by linarith
  moreover have "tally as_file (AList.update p e es) \<le> file_bound l"
  proof (cases "counted es p")
    case True
    have "as_file e \<le> 1" by (simp add: as_file_def)
    then show ?thesis
      using True tally_update [OF d, of as_file p e] ok by (simp add: counted_as_file quota_ok_def)
  next
    case False
    then show ?thesis using tally_update [OF d, of as_file p e] count by simp
  qed
  ultimately show ?thesis
    using d ok entries_ok_update [of l es e p] e unfolding quota_ok_def by (simp add: distinct_update)
qed

lemma tally_sub_mono:
  assumes "distinct (keys es)" and "\<And>e. f e \<le> g e"
  shows "tally f es - old_value f es p \<le> tally g es - old_value g es p"
proof -
  have "tally f (AList.delete p es) \<le> tally g (AList.delete p es)" by (rule tally_mono) (rule assms(2))
  then show ?thesis
    using tally_delete [OF assms(1), of f p] tally_delete [OF assms(1), of g p] by linarith
qed

lemma quota_checked_update:
  assumes ok: "quota_ok l es0" and fin: "finite_limits l" and chk: "check_write_limits l es0 p n = Inr u"
    and es: "quota_ok l es" "same_numbers es0 es p"
    and e: "entry_ok l e" "file_size e \<le> unat n"
  shows "quota_ok l (AList.update p e es)"
proof (rule quota_update_bounds [OF es(1) e(1)])
  note c = check_write_limits_ok [OF ok fin chk]
  have d: "distinct (keys es0)" using ok by (simp add: quota_ok_def)
  have "tally file_size es - old_value file_size es p = tally file_size es0 - old_value file_size es0 p"
    using es(2) by (simp add: same_numbers_def)
  also have "\<dots> \<le> tally stored_size es0 - old_value stored_size es0 p"
    by (rule tally_sub_mono [OF d file_le_stored])
  finally show "tally file_size es - old_value file_size es p + file_size e \<le> unat (max_total_bytes l)"
    using c(2) e(2) by linarith
  assume nc: "\<not> counted es p"
  then have "\<not> counted es0 p" using es(2) by (simp add: not_counted_as_file same_numbers_def)
  from c(3) [OF this] have "Suc (tally as_file es) \<le> file_bound l"
    using es(2) by (simp add: same_numbers_def file_bound_def)
  moreover have "as_file e \<le> 1" by (simp add: as_file_def)
  ultimately show "tally as_file es + as_file e \<le> file_bound l" by linarith
qed

lemma quota_checked_update0:
  "quota_ok l es \<Longrightarrow> finite_limits l \<Longrightarrow> check_write_limits l es p n = Inr u \<Longrightarrow>
   entry_ok l e \<Longrightarrow> file_size e \<le> unat n \<Longrightarrow> quota_ok l (AList.update p e es)"
  by (rule quota_checked_update [OF _ _ _ _ same_numbers_refl])

lemma new_directory_sizes [simp]:
  "stored_size (new_directory m t) = 0" "file_size (new_directory m t) = 0" "as_file (new_directory m t) = 0"
  "entry_ok l (new_directory m t)" "is_directory (new_directory m t)"
  by (simp_all add: new_directory_def stored_size_def file_size_def as_file_def is_directory_def entry_ok_def)

lemma quota_directory:
  assumes "quota_ok l es"
  shows "quota_ok l (AList.update p (new_directory m t) es)"
  by (rule quota_update_bounds [OF assms])
    (use assms in \<open>simp_all add: quota_ok_def trans_le_add1 le_diff_conv\<close>)

lemma quota_delete:
  assumes "quota_ok l es"
  shows "quota_ok l (AList.delete p es)"
proof -
  have d: "distinct (keys es)" using assms by (simp add: quota_ok_def)
  show ?thesis
    using assms tally_delete [OF d, of file_size p] tally_delete [OF d, of as_file p]
      entries_ok_subset [OF _ snd_set_delete [of p es]]
    by (simp add: quota_ok_def distinct_delete)
qed

lemma quota_filter:
  assumes "quota_ok l es"
  shows "quota_ok l (filter P es)"
  using assms tally_filter_le [of file_size P es] tally_filter_le [of as_file P es]
    entries_ok_subset [of l es "filter P es"]
  by (auto simp: quota_ok_def distinct_map_filter)

text \<open>Replacing an entry by one of the same kind and size.\<close>

lemma quota_same_size:
  assumes "quota_ok l es" "map_of es p = Some e" "entry_ok l e'" "file_size e' = file_size e" "as_file e' = as_file e"
  shows "quota_ok l (AList.update p e' es)"
proof -
  have d: "distinct (keys es)" using assms(1) by (simp add: quota_ok_def)
  have "tally f (AList.update p e' es) = tally f es" if "f e' = f e" for f
    using tally_update [OF d, of f p e'] assms(2) that by (simp add: old_value_def)
  then show ?thesis
    using assms entries_ok_update [of l es e' p] d unfolding quota_ok_def by (simp add: distinct_update)
qed

lemma quota_entry: "quota_ok l es \<Longrightarrow> map_of es p = Some e \<Longrightarrow> entry_ok l e"
  unfolding quota_ok_def by (blast intro: entries_ok_entry)

lemma quota_update_metadata:
  assumes "quota_ok l es" "map_of es p = Some e" "\<And>m. meta_size (g m) = meta_size m"
  shows "quota_ok l (AList.update p (update_metadata g e) es)"
proof (rule quota_same_size [OF assms(1,2)])
  have "stored_size (update_metadata g e) = stored_size e"
    using assms(3) by (cases e) (simp_all add: stored_size_def update_metadata_def)
  then show "entry_ok l (update_metadata g e)"
    using quota_entry [OF assms(1,2)] by (cases e) (simp_all add: entry_ok_def update_metadata_def)
  show "file_size (update_metadata g e) = file_size e" "as_file (update_metadata g e) = as_file e"
    using assms(3)
    by (cases e; simp add: file_size_def stored_size_def update_metadata_def as_file_def is_directory_def)+
qed

lemma ensure_dirs_quota: "quota_ok l es \<Longrightarrow> quota_ok l (ensure_dirs t cur cs es)"
  by (induction cs arbitrary: cur es) (auto simp: Let_def quota_directory)

lemma directory_numbers:
  assumes "distinct (keys es)" "map_of es q = None"
  shows "same_numbers es (AList.update q (new_directory m t) es) p"
proof -
  have one: "tally f (AList.update q (new_directory m t) es) = tally f es \<and>
      old_value f (AList.update q (new_directory m t) es) p = old_value f es p"
    if "f (new_directory m t) = 0" for f
    using tally_update [OF assms(1), of f q "new_directory m t"] assms(2) that
    by (simp add: old_value_def update_conv')
  show ?thesis using one [of stored_size] one [of file_size] one [of as_file] by (simp add: same_numbers_def)
qed

lemma same_numbers_trans: "same_numbers a b p \<Longrightarrow> same_numbers b c p \<Longrightarrow> same_numbers a c p"
  by (simp add: same_numbers_def)

lemma ensure_dirs_numbers:
  "distinct (keys es) \<Longrightarrow> same_numbers es (ensure_dirs t cur cs es) p"
proof (induction cs arbitrary: cur es)
  case (Cons c cs)
  let ?es = "if contains_key es (cur @ [c]) then es else AList.update (cur @ [c]) (new_directory MODE_755 t) es"
  have "same_numbers es ?es p"
    using directory_numbers [OF Cons.prems] same_numbers_refl by (auto simp: contains_key_def)
  moreover have "distinct (keys ?es)" using Cons.prems by (simp add: distinct_update)
  then have "same_numbers ?es (ensure_dirs t (cur @ [c]) cs ?es) p" by (rule Cons.IH)
  ultimately have "same_numbers es (ensure_dirs t (cur @ [c]) cs ?es) p" by (rule same_numbers_trans)
  then show ?case by (simp only: ensure_dirs.simps Let_def)
qed (simp add: same_numbers_refl)

lemma ensure_parents_facts:
  assumes "quota_ok l es"
  shows "quota_ok l (ensure_parents t p es)" "same_numbers es (ensure_parents t p es) q"
proof -
  have d: "distinct (keys es)" using assms by (simp add: quota_ok_def)
  show "quota_ok l (ensure_parents t p es)"
    using ensure_dirs_quota [OF assms] assms by (simp add: ensure_parents_def split: option.split)
  show "same_numbers es (ensure_parents t p es) q"
    using ensure_dirs_numbers [OF d] same_numbers_refl by (simp add: ensure_parents_def split: option.split)
qed

section \<open>Every operation keeps the quotas\<close>

text \<open>The bytes an operation brings in are those of a Rust slice, at most \<open>isize::MAX\<close> of them.\<close>

definition op_ok :: "fs_op \<Rightarrow> bool" where
  "op_ok op = (case op of WriteFile _ c \<Rightarrow> length c < 2 ^ 63 | AppendFile _ c \<Rightarrow> length c < 2 ^ 63
     | AddFile _ c _ \<Rightarrow> length c < 2 ^ 63 | AddLazy _ _ _ c \<Rightarrow> length c < 2 ^ 63 | _ \<Rightarrow> True)"

definition fs_ok :: "mem_fs \<Rightarrow> bool" where
  "fs_ok fs \<longleftrightarrow> quota_ok (limits fs) (entries fs)"

lemma on_path_invariant:
  assumes "fs_ok fs" and "\<And>p. fs_ok (snd (k p)) \<and> limits (snd (k p)) = limits fs"
  shows "fs_ok (snd (on_path path fs k)) \<and> limits (snd (on_path path fs k)) = limits fs"
  using assms by (simp add: on_path_def split: sum.split)

lemma checked_size:
  "check_write_limits l es p n = Inr u \<Longrightarrow> unat n \<le> unat (max_file_size l)"
  by (auto simp: check_write_limits_def check_file_size_def word_le_nat_alt not_less
      res_bind_Inr split: if_splits)

lemma unat_bytes_len: "length c < 2 ^ 64 \<Longrightarrow> unat (bytes_len c) = length c"
  by (simp add: bytes_len_def unat_of_nat)

lemma new_content_ok:
  assumes "check_write_limits l es p (bytes_len c) = Inr u" and "length c < 2 ^ 63"
  shows "entry_ok l (File c m)" "entry_ok l (Fifo c m)"
    "file_size (File c m) \<le> unat (bytes_len c)" "file_size (Fifo c m) \<le> unat (bytes_len c)"
  using checked_size [OF assms(1)] unat_bytes_len [of c] assms(2)
  by (simp_all add: entry_ok_def stored_size_def file_size_def)

lemma materialize_quota:
  assumes ok: "quota_ok l es" and fin: "finite_limits l" and e: "map_of es p = Some (LazyFile loader m)"
    and mat: "materialize l p loader m es = (r, es')"
  shows "quota_ok l es'"
proof -
  let ?es1 = "AList.delete p es"
  have ok1: "quota_ok l ?es1" by (rule quota_delete [OF ok])
  have lazy: "entry_ok l (LazyFile loader m)" by (rule quota_entry [OF ok e])
  show ?thesis
  proof (cases "check_write_limits l ?es1 p (bytes_len loader)")
    case (Inl err)
    have d: "distinct (keys es)" using ok by (simp add: quota_ok_def)
    have none: "map_of ?es1 p = None" by (simp add: delete_conv')
    have "quota_ok l (AList.update p (LazyFile loader m) ?es1)"
      by (rule quota_update_bounds [OF ok1 lazy])
        (use ok tally_delete [OF d, of file_size p] tally_delete [OF d, of as_file p] e none
          in \<open>simp_all add: quota_ok_def old_value_def as_file_def is_directory_def\<close>)
    then show ?thesis using mat Inl by (simp add: materialize_def Let_def)
  next
    case (Inr u)
    have "length loader < 2 ^ 63" using lazy by (simp add: entry_ok_def)
    from quota_checked_update0 [OF ok1 fin Inr new_content_ok(1) [OF Inr this] new_content_ok(3) [OF Inr this]]
    show ?thesis using mat Inr by (auto simp: materialize_def Let_def)
  qed
qed

lemma append_scan_eq:
  assumes "quota_ok l es" "finite_limits l"
  shows "unat (append_scan es) = tally file_size es"
proof -
  define g where "g e = (case e of File c _ \<Rightarrow> bytes_len c | Fifo c _ \<Rightarrow> bytes_len c
     | LazyFile _ m \<Rightarrow> meta_size m | _ \<Rightarrow> 0)" for e
  have fold: "foldl (\<lambda>a pe. a + g (snd pe)) a es = a + sum_list (map (\<lambda>pe. g (snd pe)) es)" for a
    by (induction es arbitrary: a) (simp_all add: add.assoc)
  have step: "(\<lambda>a pe. case snd pe of File c _ \<Rightarrow> a + bytes_len c | Fifo c _ \<Rightarrow> a + bytes_len c
       | LazyFile _ m \<Rightarrow> a + meta_size m | _ \<Rightarrow> a) = (\<lambda>a pe. a + g (snd pe))"
    by (intro ext) (simp add: g_def split: fs_entry.split)
  have "append_scan es = sum_list (map (\<lambda>pe. g (snd pe)) es)"
    unfolding append_scan_def using fold [of 0] by (subst step) simp
  moreover have g: "unat (g e) = file_size e" if "entry_ok l e" for e
    using unat_entry_size [OF that] by (cases e) (simp_all add: g_def file_size_def entry_size_def)
  have "sum_list (map unat (map (\<lambda>pe. g (snd pe)) es)) = tally file_size es"
    using assms(1) unfolding quota_ok_def
    by (auto simp: tally_def entries_ok_def g intro!: arg_cong [where f = sum_list])
  moreover have "tally file_size es < 2 ^ 64"
    using tally_mono [of file_size stored_size es] file_le_stored quota_stored_room [OF assms] by fastforce
  ultimately show ?thesis using unat_sum_list_small [of "map (\<lambda>pe. g (snd pe)) es"] by simp
qed

lemma finite_file_size: "finite_limits l \<Longrightarrow> unat (max_file_size l) < 2 ^ 62"
proof -
  assume "finite_limits l"
  moreover have "4 * unat (max_file_size l) \<le> (file_bound l + 1) * unat (max_file_size l)"
    by (rule mult_right_mono) (simp_all add: file_bound_def)
  ultimately have "4 * unat (max_file_size l) < 2 ^ 64" unfolding finite_limits_def by linarith
  then show ?thesis by simp
qed

lemma append_loaded_quota:
  assumes ok: "quota_ok l es" and fin: "finite_limits l" and len: "length content < 2 ^ 63"
    and app: "append_loaded t l p content es = (r, es')"
  shows "quota_ok l es'"
proof -
  have same: "quota_ok l es'" if "es' = es" using that ok by simp
  have grown: "quota_ok l (AList.update p e' es)"
    if e: "map_of es p = Some e" and size: "stored_size e = length c" "file_size e = length c" "as_file e = 1"
      and e': "stored_size e' = length (c @ content)" "file_size e' = length (c @ content)" "as_file e' = 1"
        "\<And>x m. e' \<noteq> LazyFile x m"
      and chk: "\<not> max_file_size l < bytes_len c + bytes_len content"
        "\<not> max_total_bytes l < append_scan es + bytes_len content"
    for e e' c
  proof -
    have d: "distinct (keys es)" using ok by (simp add: quota_ok_def)
    have c: "length c \<le> unat (max_file_size l)" using quota_entry [OF ok e] size by (simp add: entry_ok_def)
    have small: "length c + length content < 2 ^ 64" using c finite_file_size [OF fin] len by simp
    then have n: "unat (bytes_len c + bytes_len content) = length (c @ content)"
      by (subst unat_add_small) (simp_all add: unat_bytes_len)
    then have fs: "length (c @ content) \<le> unat (max_file_size l)"
      using chk(1) by (simp add: word_less_nat_alt)
    have "tally file_size es + length content < 2 ^ 64"
      using tally_mono [of file_size stored_size es] file_le_stored quota_stored_room [OF ok fin] fs by fastforce
    then have "unat (append_scan es + bytes_len content) = tally file_size es + length content"
      using small append_scan_eq [OF ok fin] by (subst unat_add_small) (simp_all add: unat_bytes_len)
    then have tot: "tally file_size es + length content \<le> unat (max_total_bytes l)"
      using chk(2) by (simp add: word_less_nat_alt)
    have "old_value file_size es p = length c" "old_value as_file es p = 1"
      using e size by (simp_all add: old_value_def)
    moreover have "entry_ok l e'"
    proof (cases e')
      case (LazyFile x m)
      with e'(4) show ?thesis by blast
    qed (use fs e'(1) in \<open>simp_all add: entry_ok_def\<close>)
    moreover have "old_value file_size es p \<le> tally file_size es" by (rule old_value_le [OF d])
    ultimately show ?thesis
      using tot e' by (intro quota_update_bounds [OF ok]) (simp_all add: counted_as_file)
  qed
  show ?thesis
  proof (cases "map_of es p")
    case None
    then show ?thesis using app same by (auto simp: append_loaded_def Let_def split: sum.splits if_splits)
  next
    case (Some e)
    show ?thesis
    proof (cases e)
      case (File c m)
      have "quota_ok l (AList.update p (File (c @ content) (m\<lparr>meta_size := bytes_len (c @ content), modified := t\<rparr>)) es)"
        if "\<not> max_file_size l < bytes_len c + bytes_len content"
          "\<not> max_total_bytes l < append_scan es + bytes_len content"
        by (rule grown [OF Some _ _ _ _ _ _ _ that])
          (simp_all add: File stored_size_def file_size_def as_file_def is_directory_def)
      then show ?thesis
        using app same Some File
        by (auto simp: append_loaded_def Let_def check_file_size_def split: sum.splits if_splits)
    next
      case (Fifo c m)
      have "quota_ok l (AList.update p (Fifo (c @ content) (m\<lparr>meta_size := bytes_len (c @ content), modified := t\<rparr>)) es)"
        if "\<not> max_file_size l < bytes_len c + bytes_len content"
          "\<not> max_total_bytes l < append_scan es + bytes_len content"
        by (rule grown [OF Some _ _ _ _ _ _ _ that])
          (simp_all add: Fifo stored_size_def file_size_def as_file_def is_directory_def)
      then show ?thesis
        using app same Some Fifo
        by (auto simp: append_loaded_def Let_def check_file_size_def split: sum.splits if_splits)
    qed (use app same Some in \<open>auto simp: append_loaded_def Let_def split: sum.splits if_splits\<close>)
  qed
qed

lemma mkdir_loop_quota: "quota_ok l es \<Longrightarrow> quota_ok l (snd (mkdir_loop l t cur cs es))"
  by (induction cs arbitrary: cur es) (auto simp: Let_def quota_directory split: option.split sum.split)

lemma add_dir_loop_quota: "quota_ok l es \<Longrightarrow> quota_ok l (add_dir_loop l m t cur cs es)"
  by (induction cs arbitrary: cur es) (auto simp: Let_def quota_directory)

text \<open>The operations one by one.\<close>

lemma fs_ok_entries: "fs_ok (fs\<lparr>entries := es\<rparr>) \<longleftrightarrow> quota_ok (limits fs) es"
  by (simp add: fs_ok_def)

lemma quota_put_content:
  assumes "quota_ok l es" "finite_limits l" "length c < 2 ^ 63" "check_write_limits l es p (bytes_len c) = Inr u"
  shows "quota_ok l (AList.update p (new_file c m t) es)" "quota_ok l (AList.update p (Fifo c d) es)"
  unfolding new_file_def
  using quota_checked_update0 [OF assms(1,2,4)] new_content_ok [OF assms(4,3)] by blast+

lemma write_file_quota:
  assumes "fs_ok fs" "finite_limits (limits fs)" "length c < 2 ^ 63"
  shows "fs_ok (snd (write_file t path c fs)) \<and> limits (snd (write_file t path c fs)) = limits fs"
  unfolding write_file_def
  by (rule on_path_invariant [OF assms(1)])
    (use assms quota_put_content [of "limits fs" "entries fs" c] in
      \<open>simp add: fs_ok_def split: sum.split option.split fs_entry.split\<close>)

lemma append_file_quota:
  assumes "fs_ok fs" "finite_limits (limits fs)" "length c < 2 ^ 63"
  shows "fs_ok (snd (append_file t path c fs)) \<and> limits (snd (append_file t path c fs)) = limits fs"
  unfolding append_file_def
  by (rule on_path_invariant [OF assms(1)])
    (use assms quota_put_content [of "limits fs" "entries fs" c] in
      \<open>auto simp: fs_ok_def Let_def split: sum.split option.split fs_entry.split prod.split
        intro: append_loaded_quota materialize_quota\<close>)

lemma read_file_quota:
  assumes "fs_ok fs" "finite_limits (limits fs)"
  shows "fs_ok (snd (read_file rnd path fs)) \<and> limits (snd (read_file rnd path fs)) = limits fs"
  unfolding read_file_def
  by (rule on_path_invariant [OF assms(1)])
    (use assms in \<open>auto simp: fs_ok_def split: sum.split option.split fs_entry.split prod.split
      intro: materialize_quota\<close>)

lemma mkdir_quota:
  assumes "fs_ok fs"
  shows "fs_ok (snd (mkdir t path rec fs)) \<and> limits (snd (mkdir t path rec fs)) = limits fs"
  unfolding mkdir_def
  by (rule on_path_invariant [OF assms])
    (use assms in \<open>auto simp: fs_ok_def quota_directory split_beta mkdir_loop_quota split: sum.split\<close>)

lemma remove_quota:
  assumes "fs_ok fs"
  shows "fs_ok (snd (remove path rec fs)) \<and> limits (snd (remove path rec fs)) = limits fs"
  unfolding remove_def
  by (rule on_path_invariant [OF assms])
    (use assms in \<open>auto simp: fs_ok_def quota_filter quota_delete split: option.split\<close>)

lemma moved_tally: "tally f (filter (\<lambda>(q, _). \<not> path_starts_with q src) es) + tally f (moved_entries src dst es) = tally f es"
  by (induction es) (auto simp: moved_entries_def)

lemma moved_entries_snd: "snd ` set (moved_entries src dst es) \<subseteq> snd ` set es"
  by (force simp: moved_entries_def)

lemma rename_directory_quota:
  assumes "quota_ok l es"
  shows "quota_ok l (foldl (\<lambda>acc (k, v). AList.update k v acc)
           (filter (\<lambda>(k, _). \<not> path_starts_with k p) es) (moved_entries p q es))" (is "quota_ok l ?new")
proof -
  let ?rest = "filter (\<lambda>(k, _). \<not> path_starts_with k p) es"
  have d: "distinct (keys ?rest)" using assms by (simp add: quota_ok_def distinct_map_filter)
  have le: "tally f ?new \<le> tally f es" for f
    using tally_foldl_update_le [OF d, of f "moved_entries p q es"] moved_tally [of f p es q] by simp
  have ok: "entries_ok l ?new"
  proof (rule entries_ok_subset)
    show "entries_ok l es" using assms by (simp add: quota_ok_def)
    have "snd ` set ?rest \<subseteq> snd ` set es" by auto
    then have "snd ` set ?rest \<union> snd ` set (moved_entries p q es) \<subseteq> snd ` set es"
      by (intro Un_least moved_entries_snd)
    then show "snd ` set ?new \<subseteq> snd ` set es"
      by (rule order_trans [OF snd_set_foldl_update])
  qed
  have lim: "tally file_size es \<le> unat (max_total_bytes l)" "tally as_file es \<le> file_bound l"
    using assms by (simp_all add: quota_ok_def)
  show ?thesis
    unfolding quota_ok_def
    by (intro conjI distinct_foldl_update [OF d] ok order_trans [OF le lim(1)] order_trans [OF le lim(2)])
qed

lemma rename_file_quota:
  assumes "quota_ok l es" "map_of es p = Some e" "p \<noteq> q"
  shows "quota_ok l (AList.update q e (AList.delete p es))"
proof -
  have d: "distinct (keys es)" using assms(1) by (simp add: quota_ok_def)
  have vals: "old_value file_size es p = file_size e" "old_value as_file es p = as_file e"
    using assms(2) by (simp_all add: old_value_def)
  have lim: "tally file_size es \<le> unat (max_total_bytes l)" "tally as_file es \<le> file_bound l"
    using assms(1) by (simp_all add: quota_ok_def)
  show ?thesis
  proof (rule quota_update_bounds [OF quota_delete [OF assms(1)] quota_entry [OF assms(1,2)]])
    show "tally file_size (AList.delete p es) - old_value file_size (AList.delete p es) q + file_size e
        \<le> unat (max_total_bytes l)"
      using tally_delete [OF d, of file_size p] vals(1) lim(1) by linarith
    show "tally as_file (AList.delete p es) + as_file e \<le> file_bound l"
      using tally_delete [OF d, of as_file p] vals(2) lim(2) by linarith
  qed
qed

lemma rename_quota:
  assumes "fs_ok fs"
  shows "fs_ok (snd (rename src dst fs)) \<and> limits (snd (rename src dst fs)) = limits fs"
proof -
  have ok: "quota_ok (limits fs) (entries fs)" using assms by (simp add: fs_ok_def)
  have dir: "fs_ok (fs\<lparr>entries := foldl (\<lambda>acc (k, v). AList.update k v acc)
      (filter (\<lambda>(k, _). \<not> path_starts_with k p) (entries fs)) (moved_entries p q (entries fs))\<rparr>)" for p q
    unfolding fs_ok_entries by (rule rename_directory_quota [OF ok])
  have nodir: "fs_ok (fs\<lparr>entries := AList.update q e (AList.delete p (entries fs))\<rparr>)"
    if "map_of (entries fs) p = Some e" "p \<noteq> q" for p q e
    unfolding fs_ok_entries by (rule rename_file_quota [OF ok that])
  show ?thesis
    unfolding rename_def Let_def
    by (intro on_path_invariant [OF assms]) (simp add: assms dir nodir split: option.split)
qed

lemma copy_quota:
  assumes "fs_ok fs" "finite_limits (limits fs)"
  shows "fs_ok (snd (copy src dst fs)) \<and> limits (snd (copy src dst fs)) = limits fs"
proof -
  have put: "fs_ok (fs\<lparr>entries := AList.update q e (entries fs)\<rparr>)"
    if e: "map_of (entries fs) p = Some e"
      "\<not> (case e of File _ _ \<Rightarrow> False | Symlink _ _ \<Rightarrow> False | Fifo _ _ \<Rightarrow> False | _ \<Rightarrow> True)"
      and chk: "check_write_limits (limits fs) (entries fs) q
        (case e of File c _ \<Rightarrow> bytes_len c | Fifo c _ \<Rightarrow> bytes_len c | _ \<Rightarrow> 0) = Inr u" for p q e u
    unfolding fs_ok_entries
  proof (rule quota_checked_update0 [OF _ assms(2) chk])
    show ok: "quota_ok (limits fs) (entries fs)" using assms(1) by (simp add: fs_ok_def)
    show e_ok: "entry_ok (limits fs) e" by (rule quota_entry [OF ok e(1)])
    show "file_size e \<le> unat (case e of File c _ \<Rightarrow> bytes_len c | Fifo c _ \<Rightarrow> bytes_len c | _ \<Rightarrow> 0)"
      using e(2) unat_entry_size [OF e_ok] by (cases e) (simp_all add: file_size_def entry_size_def)
  qed
  show ?thesis
    unfolding copy_def Let_def
    by (intro on_path_invariant [OF assms(1)]) (simp add: assms(1) put split: option.split sum.split)
qed

lemma symlink_quota:
  assumes "fs_ok fs" "finite_limits (limits fs)"
  shows "fs_ok (snd (symlink t target link fs)) \<and> limits (snd (symlink t target link fs)) = limits fs"
proof -
  have put: "fs_ok (fs\<lparr>entries := AList.update p (Symlink target (new_metadata FtSymlink n MODE_777 t)) (entries fs)\<rparr>)"
    if chk: "check_write_limits (limits fs) (entries fs) p n = Inr u" for p n u
    unfolding fs_ok_entries
    by (rule quota_checked_update0 [OF _ assms(2) chk])
      (use assms(1) checked_size [OF chk] in
        \<open>simp_all add: fs_ok_def entry_ok_def stored_size_def file_size_def new_metadata_def\<close>)
  show ?thesis
    unfolding symlink_def Let_def
    by (rule on_path_invariant [OF assms(1)]) (simp add: assms(1) put split: sum.split)
qed

lemma mkfifo_quota:
  assumes "fs_ok fs"
  shows "fs_ok (snd (mkfifo t path m fs)) \<and> limits (snd (mkfifo t path m fs)) = limits fs"
proof -
  have ok: "quota_ok (limits fs) (entries fs)" using assms by (simp add: fs_ok_def)
  have len: "length (filter (\<lambda>pe. \<not> is_directory (snd pe)) es) = tally as_file es" for es
    by (induction es) (auto simp: as_file_def)
  have put: "fs_ok (fs\<lparr>entries := AList.update p (Fifo [] (new_metadata FtFifo 0 m t)) (entries fs)\<rparr>)"
    if "check_file_count (limits fs) (of_nat (tally as_file (entries fs))) = Inr u" for p u
    unfolding fs_ok_entries
  proof (rule quota_update_bounds [OF ok])
    show "tally file_size (entries fs) - old_value file_size (entries fs) p
        + file_size (Fifo [] (new_metadata FtFifo 0 m t)) \<le> unat (max_total_bytes (limits fs))"
      using ok by (simp add: quota_ok_def file_size_def stored_size_def trans_le_add1 le_diff_conv)
    have "tally as_file (entries fs) < 2 ^ 64"
    proof (rule le_less_trans)
      show "tally as_file (entries fs) \<le> file_bound (limits fs)" using ok by (simp add: quota_ok_def)
      show "file_bound (limits fs) < 2 ^ 64" by (simp add: file_bound_def)
    qed
    then have "tally as_file (entries fs) < unat (max_file_count (limits fs))"
      using that by (simp add: check_file_count_def not_le word_less_nat_alt unat_of_nat split: if_splits)
    then show "tally as_file (entries fs) + as_file (Fifo [] (new_metadata FtFifo 0 m t)) \<le> file_bound (limits fs)"
      by (simp add: as_file_def is_directory_def file_bound_def)
  qed (simp add: entry_ok_def stored_size_def)
  show ?thesis
    unfolding mkfifo_def
    by (rule on_path_invariant [OF assms]) (simp add: assms len put split: sum.split)
qed

lemma metadata_quota:
  assumes "fs_ok fs"
  shows "fs_ok (snd (chmod path m fs)) \<and> limits (snd (chmod path m fs)) = limits fs"
    "fs_ok (snd (set_modified_time path t fs)) \<and> limits (snd (set_modified_time path t fs)) = limits fs"
proof -
  have ok: "quota_ok (limits fs) (entries fs)" using assms by (simp add: fs_ok_def)
  show "fs_ok (snd (chmod path m fs)) \<and> limits (snd (chmod path m fs)) = limits fs"
    unfolding chmod_def
    by (rule on_path_invariant [OF assms])
      (simp add: assms fs_ok_entries quota_update_metadata [OF ok] split: option.split)
  show "fs_ok (snd (set_modified_time path t fs)) \<and> limits (snd (set_modified_time path t fs)) = limits fs"
    unfolding set_modified_time_def
    by (rule on_path_invariant [OF assms])
      (simp add: assms fs_ok_entries quota_update_metadata [OF ok] split: option.split)
qed

lemma setup_quota:
  assumes "fs_ok fs" "finite_limits (limits fs)" "length c < 2 ^ 63"
  shows "fs_ok (add_file t path c m fs) \<and> limits (add_file t path c m fs) = limits fs"
    "fs_ok (add_lazy_file t path n m c fs) \<and> limits (add_lazy_file t path n m c fs) = limits fs"
proof -
  have ok: "quota_ok (limits fs) (entries fs)" using assms(1) by (simp add: fs_ok_def)
  note par = ensure_parents_facts [OF ok]
  have put: "quota_ok (limits fs) (AList.update p e (ensure_parents t p (entries fs)))"
    if "is_ok (check_write_limits (limits fs) (entries fs) p n)" "entry_ok (limits fs) e" "file_size e \<le> unat n"
    for p n e
    using that quota_checked_update [OF ok assms(2) _ par]
    by (cases "check_write_limits (limits fs) (entries fs) p n") auto
  have fileok: "entry_ok (limits fs) (new_file c m t)" "file_size (new_file c m t) \<le> unat (bytes_len c)"
    if "is_ok (check_write_limits (limits fs) (entries fs) p (bytes_len c))" for p
    using that new_content_ok [OF _ assms(3)] unfolding new_file_def
    by (cases "check_write_limits (limits fs) (entries fs) p (bytes_len c)"; auto)+
  have lazy: "entry_ok (limits fs) (LazyFile c (new_metadata FtFile n m t))"
    "file_size (LazyFile c (new_metadata FtFile n m t)) \<le> unat n"
    if "is_ok (check_write_limits (limits fs) (entries fs) p n)" for p n
    using that checked_size [of "limits fs" "entries fs" p n] assms(3)
    by (cases "check_write_limits (limits fs) (entries fs) p n";
        auto simp: entry_ok_def stored_size_def file_size_def new_metadata_def)+
  show "fs_ok (add_file t path c m fs) \<and> limits (add_file t path c m fs) = limits fs"
    using assms(1) put fileok by (simp add: add_file_def Let_def fs_ok_entries)
  show "fs_ok (add_lazy_file t path n m c fs) \<and> limits (add_lazy_file t path n m c fs) = limits fs"
    using assms(1) put lazy by (simp add: add_lazy_file_def Let_def fs_ok_entries)
qed

lemma add_dir_quota:
  "fs_ok fs \<Longrightarrow> fs_ok (add_dir t path m fs) \<and> limits (add_dir t path m fs) = limits fs"
  using add_dir_loop_quota [of "limits fs" "entries fs"] by (simp add: add_dir_def fs_ok_def)

lemma fs_step_quota:
  assumes "fs_ok fs" "finite_limits (limits fs)" "op_ok op"
  shows "fs_ok (snd (fs_step t rnd op fs)) \<and> limits (snd (fs_step t rnd op fs)) = limits fs"
proof (cases op)
  case (ReadFile p)
  have "snd (unit_result (read_file rnd p fs)) = snd (read_file rnd p fs)"
    by (auto simp: unit_result_def split: prod.split sum.split)
  then show ?thesis using ReadFile read_file_quota [OF assms(1,2)] by simp
qed (use assms setup_quota [OF assms(1,2)] in \<open>simp_all add: op_ok_def write_file_quota append_file_quota add_dir_quota
      mkdir_quota remove_quota rename_quota copy_quota symlink_quota metadata_quota mkfifo_quota\<close>)

lemma fs_run_quota:
  "fs_ok fs \<Longrightarrow> finite_limits (limits fs) \<Longrightarrow> \<forall>(t, rnd, op) \<in> set ops. op_ok op \<Longrightarrow>
   fs_ok (fs_run ops fs) \<and> limits (fs_run ops fs) = limits fs"
proof (induction ops arbitrary: fs)
  case (Cons x ops)
  obtain t rnd op where x: "x = (t, rnd, op)" by (metis prod.exhaust)
  have "op_ok op" using Cons.prems(3) x by simp
  from fs_step_quota [OF Cons.prems(1,2) this] show ?case
    using Cons.IH [of "snd (fs_step t rnd op fs)"] Cons.prems(2,3) by (simp add: x)
qed simp

section \<open>Properties\<close>

lemma keys_with_limits:
  "keys (entries (with_limits l t)) = [key ''/'', key ''/tmp'', key ''/home'', key ''/home/user'', key ''/dev'',
     key ''/dev/null'', key ''/dev/urandom'', key ''/dev/random'', key ''/dev/fd'']"
  by (simp add: with_limits_def)

lemma key_values:
  "key ''/'' = [RootDir]" "key ''/tmp'' = [RootDir, Normal (lit ''tmp'')]"
  "key ''/home'' = [RootDir, Normal (lit ''home'')]"
  "key ''/home/user'' = [RootDir, Normal (lit ''home''), Normal (lit ''user'')]"
  "key ''/dev'' = [RootDir, Normal (lit ''dev'')]"
  "key ''/dev/null'' = [RootDir, Normal (lit ''dev''), Normal (lit ''null'')]"
  "key ''/dev/urandom'' = [RootDir, Normal (lit ''dev''), Normal (lit ''urandom'')]"
  "key ''/dev/random'' = [RootDir, Normal (lit ''dev''), Normal (lit ''random'')]"
  "key ''/dev/fd'' = [RootDir, Normal (lit ''dev''), Normal (lit ''fd'')]"
  by (simp_all add: key_def lit_def components_def component_of_def)

lemma fs_ok_with_limits: "fs_ok (with_limits l t)"
proof -
  have "distinct (keys (entries (with_limits l t)))"
    by (simp add: keys_with_limits key_values lit_def)
  moreover have "entries_ok l (entries (with_limits l t)) \<and> tally file_size (entries (with_limits l t)) = 0 \<and>
      tally as_file (entries (with_limits l t)) = 3"
    by (simp add: with_limits_def)
      (simp add: new_file_def file_size_def stored_size_def as_file_def is_directory_def entry_ok_def)
  moreover have "limits (with_limits l t) = l" by (simp add: with_limits_def)
  ultimately show ?thesis by (simp add: fs_ok_def quota_ok_def file_bound_def)
qed

definition ten_bytes :: fs_limits where
  "ten_bytes = default_fs_limits\<lparr>max_total_bytes := 10\<rparr>"

definition over_limit_ops :: "(system_time \<times> (nat \<Rightarrow> bytes option) \<times> fs_op) list" where
  "over_limit_ops =
     [(0, \<lambda>_. None, MakeSymlink (lit ''target'') (lit ''/tmp/l'')),
      (0, \<lambda>_. None, WriteFile (lit ''/tmp/f'') []),
      (0, \<lambda>_. None, AppendFile (lit ''/tmp/f'') [1, 2, 3, 4, 5, 6, 7, 8])]"

lemmas path_eval = lit_def components_def component_of_def normalize_path_def validate_path_def
  ten_bytes_def default_fs_limits_def path_str_len_def len_utf8_def key_values Let_def

lemma demo_paths:
  "validate_path ten_bytes (lit ''/tmp/l'') = Ok ()" "validate_path ten_bytes (lit ''/tmp/f'') = Ok ()"
  "validate_path ten_bytes (lit ''target'') = Ok ()"
  "components (normalize_path (lit ''/tmp/l'')) = [RootDir, Normal (lit ''tmp''), Normal (lit ''l'')]"
  "components (normalize_path (lit ''/tmp/f'')) = [RootDir, Normal (lit ''tmp''), Normal (lit ''f'')]"
  by (simp_all add: path_eval)

lemmas write_eval = symlink_def write_file_def append_file_def on_path_def check_write_limits_def
  scan_entries_def scan_step_def check_file_size_def check_file_count_def entry_size_def
  entry_counts_toward_file_count_def is_directory_def new_directory_def new_file_def new_metadata_def
  bytes_len_def parent_missing_def parent_def contains_key_def append_loaded_def append_scan_def

text \<open>
  \<open>append_file\<close> lets the filesystem outgrow its byte limit. The usage the filesystem
  reports counts the target of a symbolic link, and so does the check of a write, but the total
  \<open>append_file\<close> computes does not: with a 10-byte limit, after a link with a 6-byte target an
  append of 8 bytes is accepted and the reported usage is 14.
\<close>

theorem append_ignores_symlink_bytes:
  "total_bytes (compute_usage (fs_run over_limit_ops (with_limits ten_bytes 0))) = 14 \<and>
   max_total_bytes ten_bytes = 10"
  by (simp add: over_limit_ops_def write_eval path_eval demo_paths with_limits_def compute_usage_def usage_step_def)

end
