(* ===== verification/MemFsOps.thy ===== *)
theory MemFsOps
  imports MemFsQuota
begin

text \<open>
  What the operations of the in-memory filesystem do to its contents: failed operations change
  nothing, a write is what the next read returns and touches no other path, an append adds at the
  end, a renamed directory takes its subtree along, and the directory quota. The last section
  records where the POSIX-like contract of \<open>fs/traits.rs\<close> is not met.
\<close>

section \<open>Failure atomicity\<close>

text \<open>
  Two operations may leave a trace when they fail: a recursive \<open>mkdir\<close> keeps the ancestors it
  created, and an append to an unread lazy file keeps the file loaded.
\<close>

definition may_leave_trace :: "fs_op \<Rightarrow> mem_fs \<Rightarrow> bool" where
  "may_leave_trace op fs = (case op of
     Mkdir _ rec \<Rightarrow> rec
   | AppendFile p _ \<Rightarrow> (case map_of (entries fs) (components (normalize_path p)) of
       Some (LazyFile _ _) \<Rightarrow> True | _ \<Rightarrow> False)
   | _ \<Rightarrow> False)"

lemma on_path_fail:
  "fst (on_path path fs k) = Inl e \<Longrightarrow> (\<And>p. p = components (normalize_path path) \<Longrightarrow> fst (k p) = Inl e \<Longrightarrow> P (snd (k p))) \<Longrightarrow>
   P fs \<Longrightarrow> P (snd (on_path path fs k))"
  by (auto simp: on_path_def split: sum.splits)

lemma on_path_ok:
  "on_path path fs k = (Inr x, fs') \<Longrightarrow> k (components (normalize_path path)) = (Inr x, fs')"
  by (auto simp: on_path_def split: sum.splits)

lemma materialize_fail:
  "map_of es p = Some (LazyFile loader m) \<Longrightarrow> materialize l p loader m es = (Inl err, es') \<Longrightarrow>
   map_of es' = map_of es"
  by (auto simp: materialize_def Let_def update_conv' delete_conv' split: sum.splits)

lemma write_file_fail: "fst (write_file t path c fs) = Inl e \<Longrightarrow> snd (write_file t path c fs) = fs"
  unfolding write_file_def
  by (erule on_path_fail) (auto split: sum.splits option.splits fs_entry.splits if_splits)

lemma append_loaded_fail: "append_loaded t l p c es = (Inl e, es') \<Longrightarrow> es' = es"
  by (auto simp: append_loaded_def Let_def split: sum.splits option.splits fs_entry.splits if_splits)

lemma append_file_fail:
  assumes "fst (append_file t path c fs) = Inl e" and "\<not> may_leave_trace (AppendFile path c) fs"
  shows "snd (append_file t path c fs) = fs"
  using assms(1) unfolding append_file_def
  by (rule on_path_fail)
    (use assms(2) in \<open>auto simp: may_leave_trace_def split: sum.splits option.splits fs_entry.splits if_splits prod.splits
      dest!: append_loaded_fail\<close>)

lemma read_file_fail:
  "fst (read_file rnd path fs) = Inl e \<Longrightarrow>
   map_of (entries (snd (read_file rnd path fs))) = map_of (entries fs)"
  unfolding read_file_def
  by (erule on_path_fail)
    (auto dest: materialize_fail split: sum.splits option.splits fs_entry.splits if_splits prod.splits)

lemma mkdir_fail: "fst (mkdir t path False fs) = Inl e \<Longrightarrow> snd (mkdir t path False fs) = fs"
  unfolding mkdir_def
  by (erule on_path_fail) (auto split: sum.splits if_splits)

lemma remove_fail: "fst (remove path rec fs) = Inl e \<Longrightarrow> snd (remove path rec fs) = fs"
  unfolding remove_def
  by (erule on_path_fail) (auto split: option.splits if_splits)

lemma rename_fail: "fst (rename src dst fs) = Inl e \<Longrightarrow> snd (rename src dst fs) = fs"
  unfolding rename_def Let_def
  by (erule on_path_fail, erule on_path_fail) (auto split: option.splits if_splits)

lemma copy_fail: "fst (copy src dst fs) = Inl e \<Longrightarrow> snd (copy src dst fs) = fs"
  unfolding copy_def Let_def
  by (erule on_path_fail, erule on_path_fail) (auto split: option.splits sum.splits if_splits)

lemma symlink_fail: "fst (symlink t target link fs) = Inl e \<Longrightarrow> snd (symlink t target link fs) = fs"
  unfolding symlink_def Let_def
  by (erule on_path_fail) (auto split: sum.splits)

lemma metadata_fail:
  "fst (chmod path m fs) = Inl e \<Longrightarrow> snd (chmod path m fs) = fs"
  "fst (set_modified_time path t fs) = Inl e \<Longrightarrow> snd (set_modified_time path t fs) = fs"
  unfolding chmod_def set_modified_time_def
  by (erule on_path_fail; auto split: option.splits)+

lemma mkfifo_fail: "fst (mkfifo t path m fs) = Inl e \<Longrightarrow> snd (mkfifo t path m fs) = fs"
  unfolding mkfifo_def
  by (erule on_path_fail) (auto split: sum.splits if_splits)

lemma unit_result_fail: "fst (unit_result r) = Inl e \<Longrightarrow> fst r = Inl e"
  by (auto simp: unit_result_def split: prod.splits sum.splits)

lemma snd_unit_result: "snd (unit_result r) = snd r"
  by (auto simp: unit_result_def split: prod.splits sum.splits)

text \<open>
  Property C7: a failed operation leaves every entry of the filesystem as it was, contents, types
  and metadata included, unless it is a recursive \<open>mkdir\<close> or an append to an unread lazy file
  (clause 5 of the POSIX contract, and more).
\<close>

theorem failed_operation_changes_nothing:
  assumes "fst (fs_step t rnd op fs) = Err e" and "\<not> may_leave_trace op fs"
  shows "map_of (entries (snd (fs_step t rnd op fs))) = map_of (entries fs)"
proof (cases op)
  case (ReadFile p)
  then show ?thesis using assms(1) read_file_fail unit_result_fail by (fastforce simp: snd_unit_result)
next
  case (Mkdir p rec)
  then show ?thesis using assms mkdir_fail by (simp add: may_leave_trace_def)
qed (use assms in \<open>simp_all add: write_file_fail append_file_fail remove_fail rename_fail copy_fail
      symlink_fail metadata_fail mkfifo_fail\<close>)

text \<open>
  A failing recursive \<open>mkdir\<close> only ever adds empty directories on the way to its target.
\<close>

lemma mkdir_loop_adds:
  "mkdir_loop l t cur cs es = (r, es') \<Longrightarrow>
   map_of es' q = map_of es q \<or>
   map_of es q = None \<and> map_of es' q = Some (new_directory MODE_755 t) \<and> prefix q (cur @ cs) \<and> strict_prefix cur q"
proof (induction cs arbitrary: cur es)
  case (Cons c cs)
  let ?cur = "cur @ [c]"
  have below: "strict_prefix cur (cur @ [c])" by (simp add: strict_prefix_def)
  have IH: "mkdir_loop l t ?cur cs es2 = (r, es') \<Longrightarrow>
      map_of es' q = map_of es2 q \<or> map_of es2 q = None \<and> map_of es' q = Some (new_directory MODE_755 t) \<and>
        prefix q (cur @ c # cs) \<and> strict_prefix cur q" for es2
    using Cons.IH [of ?cur es2] by (auto simp: strict_prefix_def dest: append_prefixD)
  show ?case
  proof (cases "map_of es ?cur")
    case None
    then show ?thesis
      using Cons.prems IH [of "AList.update ?cur (new_directory MODE_755 t) es"] IH [of es]
      by (auto simp: Let_def update_conv' below split: sum.splits if_splits)
  next
    case (Some e)
    then show ?thesis using Cons.prems IH [of es] by (auto simp: Let_def split: if_splits)
  qed
qed simp

section \<open>Reading back\<close>

lemma write_file_result:
  assumes "write_file t path c fs = (Inr u, fs')" and "p = components (normalize_path path)"
    and "p \<noteq> key ''/dev/null''"
  shows "\<exists>e. fs' = fs\<lparr>entries := AList.update p e (entries fs)\<rparr> \<and>
    (e = new_file c MODE_644 t \<or> e = Fifo c (new_metadata FtFifo (bytes_len c) MODE_644 t)) \<and>
    \<not> parent_missing (entries fs) p"
  using on_path_ok [OF assms(1) [unfolded write_file_def]] assms(2,3)
  by (auto split: if_splits sum.splits option.splits fs_entry.splits)

lemma read_file_stored:
  assumes "validate_path (limits fs) path = Inr u" and "p = components (normalize_path path)"
    and "p \<noteq> key ''/dev/urandom''" "p \<noteq> key ''/dev/random''"
    and "map_of (entries fs) p = Some (File c m) \<or> map_of (entries fs) p = Some (Fifo c m)"
  shows "read_file rnd path fs = (Ok c, fs)"
  using assms by (auto simp: read_file_def on_path_def)

lemma on_path_valid: "on_path path fs k = (Inr x, fs') \<Longrightarrow> validate_path (limits fs) path = Inr ()"
  by (auto simp: on_path_def split: sum.splits)

text \<open>
  What \<open>write_file\<close> stores is what \<open>read_file\<close> returns, through the same spelling of
  the path or any other that normalises to it, and no other path is affected. The discarding and
  random devices are apart.
\<close>

theorem write_then_read:
  assumes "write_file t path c fs = (Ok (), fs')"
    and "components (normalize_path path) \<notin> {key ''/dev/null'', key ''/dev/urandom'', key ''/dev/random''}"
    and "normalize_path path2 = normalize_path path" and "validate_path (limits fs) path2 = Ok ()"
  shows "read_file rnd path2 fs' = (Ok c, fs') \<and>
         (\<forall>q. q \<noteq> components (normalize_path path) \<longrightarrow> map_of (entries fs') q = map_of (entries fs) q)"
proof -
  let ?p = "components (normalize_path path)"
  obtain e where fs': "fs' = fs\<lparr>entries := AList.update ?p e (entries fs)\<rparr>"
    and e: "e = new_file c MODE_644 t \<or> e = Fifo c (new_metadata FtFifo (bytes_len c) MODE_644 t)"
    using write_file_result [OF assms(1) refl] assms(2) by auto
  obtain m where "map_of (entries fs') ?p = Some (File c m) \<or> map_of (entries fs') ?p = Some (Fifo c m)"
    using e by (auto simp: fs' new_file_def update_conv')
  then have "read_file rnd path2 fs' = (Ok c, fs')"
    using assms(2,3,4) by (intro read_file_stored) (auto simp: fs')
  then show ?thesis by (auto simp: fs' update_conv')
qed

lemma append_loaded_ok:
  assumes "append_loaded t l p c es = (Inr u, es')"
  shows "(\<forall>old m. map_of es p = Some (File old m) \<longrightarrow> (\<exists>m'. map_of es' p = Some (File (old @ c) m'))) \<and>
    (\<forall>old m. map_of es p = Some (Fifo old m) \<longrightarrow> (\<exists>m'. map_of es' p = Some (Fifo (old @ c) m'))) \<and>
    (\<forall>q. q \<noteq> p \<longrightarrow> map_of es' q = map_of es q)"
  using assms
  by (auto simp: append_loaded_def Let_def update_conv' split: if_splits sum.splits option.splits fs_entry.splits)

lemma materialize_ok:
  "materialize l p loader m es = (Inr u, es') \<Longrightarrow>
   (\<exists>m'. map_of es' p = Some (File loader m')) \<and> (\<forall>q. q \<noteq> p \<longrightarrow> map_of es' q = map_of es q)"
  by (auto simp: materialize_def Let_def update_conv' delete_conv' split: sum.splits)

text \<open>The content a read of an entry would return.\<close>

definition content_of :: "fs_entry option \<Rightarrow> bytes option" where
  "content_of e = (case e of Some (File c _) \<Rightarrow> Some c | Some (Fifo c _) \<Rightarrow> Some c
     | Some (LazyFile loader _) \<Rightarrow> Some loader | _ \<Rightarrow> None)"

text \<open>
  A successful \<open>append_file\<close> extends the content at the end, from nothing if the
  path did not exist and from the loaded content if the file was lazy, and changes no other path.
\<close>

theorem append_extends:
  assumes "append_file t path c fs = (Ok (), fs')"
    and "components (normalize_path path) \<noteq> key ''/dev/null''"
  shows "content_of (map_of (entries fs') (components (normalize_path path))) =
           Some ((case content_of (map_of (entries fs) (components (normalize_path path))) of
                    None \<Rightarrow> [] | Some old \<Rightarrow> old) @ c) \<and>
         (\<forall>q. q \<noteq> components (normalize_path path) \<longrightarrow> map_of (entries fs') q = map_of (entries fs) q)"
proof -
  let ?p = "components (normalize_path path)"
  note run = on_path_ok [OF assms(1) [unfolded append_file_def]]
  show ?thesis
  proof (cases "map_of (entries fs) ?p")
    case None
    then show ?thesis
      using run assms(2) by (auto simp: content_of_def new_file_def update_conv' split: sum.splits if_splits)
  next
    case (Some e)
    show ?thesis
    proof (cases e)
      case (LazyFile loader m)
      then obtain es es' where m: "materialize (limits fs) ?p loader m (entries fs) = (Inr (), es)"
        and a: "append_loaded t (limits fs) ?p c es = (Inr (), es')" and fs': "fs' = fs\<lparr>entries := es'\<rparr>"
        using run assms(2) Some by (auto split: prod.splits sum.splits)
      show ?thesis
        using materialize_ok [OF m] append_loaded_ok [OF a] Some LazyFile
        by (auto simp: content_of_def fs')
    qed (use run assms(2) Some in \<open>auto simp: content_of_def split: prod.splits dest!: append_loaded_ok\<close>)
  qed
qed

section \<open>Renaming a directory\<close>

lemma map_of_foldl_update:
  "distinct (keys ms) \<Longrightarrow>
   map_of (foldl (\<lambda>acc (k, v). AList.update k v acc) es ms) k =
     (case map_of ms k of None \<Rightarrow> map_of es k | Some v \<Rightarrow> Some v)"
proof (induction ms arbitrary: es)
  case (Cons kv ms)
  obtain k1 v1 where kv: "kv = (k1, v1)" by (rule prod.exhaust)
  have "map_of ms k1 = None" using Cons.prems kv by (simp add: map_of_eq_None_iff)
  then show ?case using Cons.IH [of "AList.update k1 v1 es"] Cons.prems
    by (auto simp: kv update_conv' split: option.split)
qed simp

lemma map_of_moved:
  "map_of (moved_entries p q es) k = (if prefix q k then map_of es (p @ drop (length q) k) else None)"
proof (induction es)
  case (Cons x es)
  obtain k1 e1 where x: "x = (k1, e1)" by (rule prod.exhaust)
  show ?case
  proof (cases "prefix p k1")
    case True
    then obtain s where s: "k1 = p @ s" by (auto simp: prefix_def)
    have "q @ s = k \<longleftrightarrow> prefix q k \<and> p @ drop (length q) k = p @ s"
      by (auto simp: prefix_def)
    then show ?thesis using Cons.IH by (auto simp: moved_entries_def x s path_starts_with_def)
  next
    case False
    then have "k1 \<noteq> p @ drop (length q) k" by auto
    then show ?thesis using Cons.IH False by (auto simp: moved_entries_def x path_starts_with_def)
  qed
qed (simp add: moved_entries_def)

lemma distinct_moved: "distinct (keys es) \<Longrightarrow> distinct (keys (moved_entries p q es))"
proof -
  assume d: "distinct (keys es)"
  have "keys (moved_entries p q es) = map (\<lambda>k. q @ drop (length p) k) (filter (prefix p) (keys es))"
    by (induction es) (auto simp: moved_entries_def path_starts_with_def)
  moreover have "inj_on (\<lambda>k. q @ drop (length p) k) (set (filter (prefix p) (keys es)))"
    by (auto simp: inj_on_def prefix_def)
  ultimately show ?thesis using d by (simp add: distinct_map)
qed

lemma map_of_filter_path:
  "map_of (filter (\<lambda>(k, _). \<not> path_starts_with k p) es) k = (if prefix p k then None else map_of es k)"
  by (induction es) (auto simp: path_starts_with_def)

text \<open>
  Renaming a directory moves its whole subtree: the entry at \<open>dst/s\<close> afterwards is the
  one at \<open>src/s\<close> before, nothing is left at or below the source, and every other path keeps its
  entry (TM-FS-014).
\<close>

theorem rename_moves_subtree:
  assumes "rename src dst fs = (Ok (), fs')"
    and "map_of (entries fs) (components (normalize_path src)) = Some (Directory m)"
    and "components (normalize_path src) \<noteq> components (normalize_path dst)"
    and "distinct (keys (entries fs))"
  shows "map_of (entries fs') k =
    (let p = components (normalize_path src); q = components (normalize_path dst)
     in if prefix q k \<and> map_of (entries fs) (p @ drop (length q) k) \<noteq> None
          then map_of (entries fs) (p @ drop (length q) k)
        else if prefix p k then None else map_of (entries fs) k)"
proof -
  let ?p = "components (normalize_path src)" and ?q = "components (normalize_path dst)"
  have "fs' = fs\<lparr>entries := foldl (\<lambda>acc (k, v). AList.update k v acc)
      (filter (\<lambda>(k, _). \<not> path_starts_with k ?p) (entries fs)) (moved_entries ?p ?q (entries fs))\<rparr>"
    using on_path_ok [OF on_path_ok [OF assms(1) [unfolded rename_def]]] assms(2,3)
    by (auto simp: Let_def is_directory_def split: if_splits)
  then show ?thesis
    by (auto simp: map_of_foldl_update [OF distinct_moved [OF assms(4)]] map_of_moved map_of_filter_path
        Let_def split: option.split)
qed

section \<open>The directory quota\<close>

text \<open>
  Every way a script creates directories checks \<open>max_dir_count\<close> first; only the setup helper
  \<open>add_file\<close>, which a host calls, creates parents unchecked.
\<close>

definition dirs_ok :: "fs_limits \<Rightarrow> fs_entries \<Rightarrow> bool" where
  "dirs_ok l es \<longleftrightarrow> distinct (keys es) \<and> tally as_dir es \<le> max 6 (unat (max_dir_count l))"

definition script_op :: "fs_op \<Rightarrow> bool" where
  "script_op op = (case op of AddFile _ _ _ \<Rightarrow> False | AddLazy _ _ _ _ \<Rightarrow> False | _ \<Rightarrow> True)"

lemma count_directories_tally: "count_directories es = of_nat (tally as_dir es)"
proof -
  have "length (filter (\<lambda>pe. is_directory (snd pe)) es) = tally as_dir es"
    by (induction es) (auto simp: as_dir_def)
  then show ?thesis by (simp add: count_directories_def)
qed

lemma dirs_ok_le:
  "dirs_ok l es \<Longrightarrow> distinct (keys es') \<Longrightarrow> tally as_dir es' \<le> tally as_dir es \<Longrightarrow> dirs_ok l es'"
  by (auto simp: dirs_ok_def)

lemma dirs_ok_update:
  assumes "dirs_ok l es" "as_dir e \<le> old_value as_dir es p"
  shows "dirs_ok l (AList.update p e es)"
  using assms tally_update [of es as_dir p e] by (auto simp: dirs_ok_def distinct_update)

lemma dirs_ok_new_dir:
  assumes "dirs_ok l es" "check_dir_count l (count_directories es) = Inr u"
  shows "dirs_ok l (AList.update p (new_directory m t) es)"
proof -
  have "tally as_dir es < 2 ^ 64"
  proof (rule le_less_trans)
    show "tally as_dir es \<le> max 6 (unat (max_dir_count l))" using assms(1) by (simp add: dirs_ok_def)
    show "max 6 (unat (max_dir_count l)) < 2 ^ 64" by simp
  qed
  then have "tally as_dir es < unat (max_dir_count l)"
    using assms(2) by (simp add: check_dir_count_def count_directories_tally not_le word_less_nat_alt
        unat_of_nat split: if_splits)
  then show ?thesis
    using assms(1) tally_update [of es as_dir p "new_directory m t"]
    by (auto simp: dirs_ok_def distinct_update as_dir_def)
qed

lemma dirs_ok_delete: "dirs_ok l es \<Longrightarrow> dirs_ok l (AList.delete p es)"
  using tally_delete [of es as_dir p] by (auto simp: dirs_ok_def distinct_delete)

lemma dirs_ok_filter: "dirs_ok l es \<Longrightarrow> dirs_ok l (filter P es)"
  using tally_filter_le [of as_dir P es] by (auto simp: dirs_ok_def distinct_map_filter)

lemma dirs_ok_file:
  "dirs_ok l es \<Longrightarrow> \<not> is_directory e \<Longrightarrow> dirs_ok l (AList.update p e es)"
  by (rule dirs_ok_update) (simp_all add: as_dir_def)

lemma dirs_ok_metadata:
  "dirs_ok l es \<Longrightarrow> map_of es p = Some e \<Longrightarrow> dirs_ok l (AList.update p (update_metadata f e) es)"
  by (rule dirs_ok_update)
    (auto simp: old_value_def as_dir_def is_directory_def update_metadata_def split: fs_entry.splits)

lemma is_directory_simps [simp]:
  "\<not> is_directory (File c m)" "\<not> is_directory (LazyFile c m)" "is_directory (Directory m)"
  "\<not> is_directory (Symlink s m)" "\<not> is_directory (Fifo c m)" "\<not> is_directory (new_file c md t)"
  by (simp_all add: is_directory_def new_file_def)

definition fs_dirs_ok :: "mem_fs \<Rightarrow> bool" where
  "fs_dirs_ok fs \<longleftrightarrow> dirs_ok (limits fs) (entries fs)"

lemma on_path_dirs:
  assumes "fs_dirs_ok fs" and "\<And>p. fs_dirs_ok (snd (k p)) \<and> limits (snd (k p)) = limits fs"
  shows "fs_dirs_ok (snd (on_path path fs k)) \<and> limits (snd (on_path path fs k)) = limits fs"
  using assms by (simp add: on_path_def split: sum.split)

lemma materialize_dirs: "dirs_ok l es \<Longrightarrow> dirs_ok l (snd (materialize l p loader m es))"
  by (simp add: materialize_def Let_def dirs_ok_file dirs_ok_delete split: sum.split)

lemma append_loaded_dirs: "dirs_ok l es \<Longrightarrow> dirs_ok l (snd (append_loaded t l p c es))"
  by (simp add: append_loaded_def Let_def dirs_ok_file split: sum.split option.split fs_entry.split)

lemma mkdir_loop_dirs: "dirs_ok l es \<Longrightarrow> dirs_ok l (snd (mkdir_loop l t cur cs es))"
  by (induction cs arbitrary: cur es) (auto simp: Let_def dirs_ok_new_dir split: option.split sum.split)

lemma add_dir_loop_dirs: "dirs_ok l es \<Longrightarrow> dirs_ok l (add_dir_loop l m t cur cs es)"
proof (induction cs arbitrary: cur es)
  case (Cons c cs)
  have "dirs_ok l (AList.update (cur @ [c]) (new_directory m t) es)"
    if "is_ok (check_dir_count l (count_directories es))"
    using that dirs_ok_new_dir [OF Cons.prems] by (cases "check_dir_count l (count_directories es)") auto
  then show ?case using Cons by (simp add: Let_def)
qed simp

lemma moved_dirs:
  assumes "dirs_ok l es"
  shows "dirs_ok l (foldl (\<lambda>acc (k, v). AList.update k v acc)
           (filter (\<lambda>(k, _). \<not> path_starts_with k p) es) (moved_entries p q es))"
proof (rule dirs_ok_le [OF assms])
  have d: "distinct (keys (filter (\<lambda>(k, _). \<not> path_starts_with k p) es))"
    using assms by (simp add: dirs_ok_def distinct_map_filter)
  then show "distinct (keys (foldl (\<lambda>acc (k, v). AList.update k v acc)
           (filter (\<lambda>(k, _). \<not> path_starts_with k p) es) (moved_entries p q es)))"
    by (rule distinct_foldl_update)
  show "tally as_dir (foldl (\<lambda>acc (k, v). AList.update k v acc)
           (filter (\<lambda>(k, _). \<not> path_starts_with k p) es) (moved_entries p q es)) \<le> tally as_dir es"
    using tally_foldl_update_le [OF d, of as_dir "moved_entries p q es"] moved_tally [of as_dir p es q] by simp
qed

lemma fs_dirs_entries: "fs_dirs_ok (fs\<lparr>entries := es\<rparr>) \<longleftrightarrow> dirs_ok (limits fs) es"
  by (simp add: fs_dirs_ok_def)

lemma fs_step_dirs:
  assumes "fs_dirs_ok fs" and "script_op op"
  shows "fs_dirs_ok (snd (fs_step t rnd op fs)) \<and> limits (snd (fs_step t rnd op fs)) = limits fs"
proof -
  have ok: "dirs_ok (limits fs) (entries fs)" using assms(1) by (simp add: fs_dirs_ok_def)
  note path = on_path_dirs [OF assms(1)]
  note split = sum.split option.split fs_entry.split
  note simps = assms(1) fs_dirs_entries ok dirs_ok_file dirs_ok_delete dirs_ok_filter dirs_ok_metadata
    dirs_ok_new_dir materialize_dirs append_loaded_dirs mkdir_loop_dirs moved_dirs
  show ?thesis
  proof (cases op)
    case (ReadFile p)
    have mat: "dirs_ok (limits fs) es" if "materialize (limits fs) q loader m (entries fs) = (r, es)" for q loader m r es
      using materialize_dirs [OF ok, of q loader m] that by simp
    show ?thesis
      unfolding ReadFile fs_step.simps snd_unit_result read_file_def
      by (rule path) (simp add: simps mat split: split prod.split)
  next
    case (WriteFile p c)
    show ?thesis unfolding WriteFile fs_step.simps write_file_def by (rule path) (simp add: simps split: split)
  next
    case (AppendFile p c)
    have mat: "dirs_ok (limits fs) es" if "materialize (limits fs) q loader m (entries fs) = (r, es)" for q loader m r es
      using materialize_dirs [OF ok, of q loader m] that by simp
    have app: "dirs_ok (limits fs) es'" if "append_loaded t (limits fs) q c es = (r, es')" "dirs_ok (limits fs) es" for q es r es'
      using append_loaded_dirs [OF that(2), of t q c] that(1) by simp
    show ?thesis
      unfolding AppendFile fs_step.simps append_file_def
      by (rule path) (auto simp: simps Let_def intro: app mat split: split prod.split)
  next
    case (Mkdir p rec)
    show ?thesis
      unfolding Mkdir fs_step.simps mkdir_def
      by (rule path) (simp add: simps split_beta split: split)
  next
    case (Remove p rec)
    show ?thesis unfolding Remove fs_step.simps remove_def by (rule path) (simp add: simps split: option.split)
  next
    case (Rename p q)
    show ?thesis
      unfolding Rename fs_step.simps rename_def Let_def
      by (intro path) (simp add: simps split: option.split)
  next
    case (Copy p q)
    have put: "dirs_ok (limits fs) (AList.update k e (entries fs))"
      if "\<not> (case e of File _ _ \<Rightarrow> False | Symlink _ _ \<Rightarrow> False | Fifo _ _ \<Rightarrow> False | _ \<Rightarrow> True)" for k e
      using that by (cases e) (simp_all add: ok dirs_ok_file)
    show ?thesis
      unfolding Copy fs_step.simps copy_def Let_def
      by (intro path) (simp add: simps put split: option.split sum.split)
  next
    case (MakeSymlink target p)
    show ?thesis
      unfolding MakeSymlink fs_step.simps symlink_def Let_def by (rule path) (simp add: simps split: split)
  next
    case (Chmod p m)
    show ?thesis unfolding Chmod fs_step.simps chmod_def by (rule path) (simp add: simps split: option.split)
  next
    case (SetModified p tm)
    show ?thesis
      unfolding SetModified fs_step.simps set_modified_time_def by (rule path) (simp add: simps split: option.split)
  next
    case (Mkfifo p m)
    show ?thesis unfolding Mkfifo fs_step.simps mkfifo_def by (rule path) (simp add: simps split: split)
  next
    case (AddDir p m)
    show ?thesis
      using add_dir_loop_dirs [OF ok] unfolding AddDir by (simp add: add_dir_def simps)
  qed (use assms(2) in \<open>simp_all add: script_op_def\<close>)
qed

lemma fs_run_dirs:
  "fs_dirs_ok fs \<Longrightarrow> list_all (\<lambda>(t, rnd, op). script_op op) ops \<Longrightarrow>
   fs_dirs_ok (fs_run ops fs) \<and> limits (fs_run ops fs) = limits fs"
proof (induction ops arbitrary: fs)
  case (Cons x ops)
  obtain t rnd op where x: "x = (t, rnd, op)" by (metis prod.exhaust)
  have "script_op op" using Cons.prems(2) by (simp add: x)
  from fs_step_dirs [OF Cons.prems(1) this, of t rnd] show ?case
    using Cons.IH [of "snd (fs_step t rnd op fs)"] Cons.prems(2) by (simp add: x)
qed simp

lemma dirs_ok_with_limits: "fs_dirs_ok (with_limits l t)"
proof -
  have "distinct (keys (entries (with_limits l t)))"
    using fs_ok_with_limits [of l t] by (simp add: fs_ok_def quota_ok_def)
  then show ?thesis
    by (simp add: fs_dirs_ok_def dirs_ok_def with_limits_def as_dir_def)
qed

text \<open>
  Whatever a script does, the number of directories stays within \<open>max_dir_count\<close>, or
  the six of a fresh filesystem (TM-DOS-012, TM-DOS-037).
\<close>

theorem directory_quota_holds:
  assumes "list_all (\<lambda>(t, rnd, op). script_op op) ops"
  shows "tally as_dir (entries (fs_run ops (with_limits l t0))) \<le> max 6 (unat (max_dir_count l))"
proof -
  have ok: "fs_dirs_ok (fs_run ops (with_limits l t0))"
    and "limits (fs_run ops (with_limits l t0)) = limits (with_limits l t0)"
    using fs_run_dirs [OF dirs_ok_with_limits assms, of l t0] by simp_all
  then have "limits (fs_run ops (with_limits l t0)) = l" by (simp add: with_limits_def)
  then show ?thesis using ok unfolding fs_dirs_ok_def dirs_ok_def by simp
qed

section \<open>Where the contract is not met\<close>

definition under_a_file :: mem_fs where
  "under_a_file = fs_run
     [(0, \<lambda>_. None, WriteFile (lit ''/tmp/f'') [1]), (0, \<lambda>_. None, WriteFile (lit ''/tmp/f/g'') [2])]
     (new_fs 0)"

text \<open>
  A regular file is accepted as a parent. After writing \<open>/tmp/f\<close>, writing \<open>/tmp/f/g\<close>
  succeeds, and both can be read, although clause 4 of the contract asks for a parent directory.
\<close>

theorem file_accepted_as_parent:
  "fst (read_file (\<lambda>_. None) (lit ''/tmp/f'') under_a_file) = Ok [1] \<and>
   fst (read_file (\<lambda>_. None) (lit ''/tmp/f/g'') under_a_file) = Ok [2]"
  by (simp add: under_a_file_def read_file_def new_fs_def write_eval path_eval with_limits_def)

text \<open>
  \<open>symlink\<close> replaces whatever its path holds, even the root directory: no entry type is
  checked before the insert, so one script command makes every \<open>read_dir\<close> of \<open>/\<close> fail.
\<close>

theorem symlink_replaces_root:
  "fst (symlink 0 (lit ''x'') (lit ''/'') (new_fs 0)) = Ok () \<and>
   fst (read_dir (lit ''/'') (snd (symlink 0 (lit ''x'') (lit ''/'') (new_fs 0)))) = Err NotADirectory"
  by (simp add: read_dir_def new_fs_def write_eval path_eval with_limits_def)

section \<open>Instances\<close>

definition demo_ops :: mem_fs where
  "demo_ops = snd (write_file 0 (lit ''/tmp/f'') [1, 2] (new_fs 0))"

lemma demo_write: "write_file 0 (lit ''/tmp/f'') [1, 2] (new_fs 0) = (Ok (), demo_ops)"
  by (simp add: prod_eq_iff demo_ops_def)
    (simp add: new_fs_def write_eval path_eval with_limits_def)

lemma demo_dotdot:
  "normalize_path (lit ''/home/../tmp/./f'') = normalize_path (lit ''/tmp/f'')"
  "validate_path (limits (new_fs 0)) (lit ''/home/../tmp/./f'') = Ok ()"
  "components (normalize_path (lit ''/tmp/f'')) \<notin> {key ''/dev/null'', key ''/dev/urandom'', key ''/dev/random''}"
  by (simp_all add: path_eval new_fs_def with_limits_def sat_sub_def)

theorem failed_operation_changes_nothing_witness:
  "map_of (entries (snd (fs_step 0 (\<lambda>_. None) (WriteFile (lit ''/nowhere/f'') [1]) (new_fs 0)))) =
   map_of (entries (new_fs 0))"
proof -
  have "fst (fs_step 0 (\<lambda>_. None) (WriteFile (lit ''/nowhere/f'') [1]) (new_fs 0)) = Err ParentNotFound"
    by (simp add: new_fs_def write_eval path_eval with_limits_def)
  moreover have "\<not> may_leave_trace (WriteFile (lit ''/nowhere/f'') [1]) (new_fs 0)"
    by (simp add: may_leave_trace_def)
  ultimately show ?thesis by (rule failed_operation_changes_nothing)
qed

theorem write_then_read_witness:
  "read_file (\<lambda>_. None) (lit ''/home/../tmp/./f'') demo_ops = (Ok [1, 2], demo_ops)"
  using write_then_read [OF demo_write demo_dotdot(3,1,2), of "\<lambda>_. None"] by blast

theorem append_extends_witness:
  "content_of (map_of (entries (snd (append_file 0 (lit ''/tmp/f'') [3] demo_ops)))
     (components (normalize_path (lit ''/tmp/f'')))) = Some [1, 2, 3]"
proof -
  let ?r = "append_file 0 (lit ''/tmp/f'') [3] demo_ops"
  have "fst ?r = Ok ()"
    by (simp add: demo_ops_def new_fs_def write_eval path_eval with_limits_def)
  then have run: "?r = (Ok (), snd ?r)" by (simp add: prod_eq_iff)
  have "components (normalize_path (lit ''/tmp/f'')) \<noteq> key ''/dev/null''" using demo_dotdot(3) by blast
  from append_extends [OF run this]
  have "content_of (map_of (entries (snd ?r)) (components (normalize_path (lit ''/tmp/f'')))) =
      Some ((case content_of (map_of (entries demo_ops) (components (normalize_path (lit ''/tmp/f'')))) of
               None \<Rightarrow> [] | Some old \<Rightarrow> old) @ [3])" ..
  moreover have "content_of (map_of (entries demo_ops) (components (normalize_path (lit ''/tmp/f'')))) = Some [1, 2]"
    by (simp add: demo_ops_def new_fs_def write_eval path_eval with_limits_def content_of_def)
  ultimately show ?thesis by simp
qed

theorem rename_moves_subtree_witness:
  "map_of (entries (snd (rename (lit ''/tmp'') (lit ''/home/t'') demo_ops)))
     [RootDir, Normal (lit ''home''), Normal (lit ''t''), Normal (lit ''f'')] =
   map_of (entries demo_ops) [RootDir, Normal (lit ''tmp''), Normal (lit ''f'')]"
proof -
  let ?r = "rename (lit ''/tmp'') (lit ''/home/t'') demo_ops"
  have src: "components (normalize_path (lit ''/tmp'')) = [RootDir, Normal (lit ''tmp'')]"
    and dst: "components (normalize_path (lit ''/home/t'')) = [RootDir, Normal (lit ''home''), Normal (lit ''t'')]"
    by (simp_all add: path_eval)
  have dir: "map_of (entries demo_ops) (components (normalize_path (lit ''/tmp''))) =
      Some (Directory (new_metadata FtDirectory 0 MODE_755 0))"
    by (simp add: demo_ops_def new_fs_def write_eval path_eval with_limits_def)
  have "fst ?r = Ok ()"
    by (simp add: demo_ops_def rename_def parent_not_directory_def path_starts_with_def
        new_fs_def write_eval path_eval with_limits_def)
  then have run: "?r = (Ok (), snd ?r)" by (simp add: prod_eq_iff)
  have ne: "components (normalize_path (lit ''/tmp'')) \<noteq> components (normalize_path (lit ''/home/t''))"
    by (simp add: src dst)
  have d: "distinct (keys (entries demo_ops))"
    by (simp add: demo_ops_def new_fs_def write_eval path_eval with_limits_def)
  have stored: "map_of (entries demo_ops) [RootDir, Normal (lit ''tmp''), Normal (lit ''f'')] \<noteq> None"
    by (simp add: demo_ops_def new_fs_def write_eval path_eval with_limits_def)
  from rename_moves_subtree [OF run dir ne d, of "[RootDir, Normal (lit ''home''), Normal (lit ''t''), Normal (lit ''f'')]"] stored
  show ?thesis by (simp add: src dst)
qed

theorem directory_quota_holds_witness:
  "tally as_dir (entries (fs_run [(0, \<lambda>_. None, Mkdir (lit ''/tmp/a/b'') True)]
     (with_limits (default_fs_limits\<lparr>max_dir_count := 7\<rparr>) 0))) \<le> 7"
proof -
  let ?l = "default_fs_limits\<lparr>max_dir_count := 7\<rparr>"
  have "list_all (\<lambda>(t :: system_time, rnd :: nat \<Rightarrow> bytes option, op). script_op op)
      [(0, \<lambda>_. None, Mkdir (lit ''/tmp/a/b'') True)]"
    by (simp add: script_op_def)
  from directory_quota_holds [OF this, of ?l 0] show ?thesis by simp
qed

end
