(* ===== verification/FsSnapshot.thy ===== *)
theory FsSnapshot
  imports MemFsOps
begin

text \<open>
  \<open>snapshot\<close> and \<open>restore\<close> of \<open>bashkit/src/fs/memory.rs\<close>: capturing the filesystem as a list of
  entries, and replacing the contents by such a list after checking all of it. A snapshot's paths
  are strings, since they may come from outside; restoring inserts them as they are.
\<close>

section \<open>Snapshots\<close>

datatype vfs_entry_kind = KFile bytes | KDirectory | KSymlink rstr | KFifo

record vfs_entry =
  ve_path :: rstr
  ve_kind :: vfs_entry_kind
  ve_mode :: u32

type_synonym vfs_snapshot = "vfs_entry list"

definition snapshot_entry_counts_toward_file_count :: "vfs_entry_kind \<Rightarrow> bool" where
  "snapshot_entry_counts_toward_file_count k = (k \<noteq> KDirectory)"

text \<open>The string of a key: what \<open>PathBuf\<close> shows for a normalised path.\<close>

definition component_string :: "component \<Rightarrow> rstr" where
  "component_string c = (case c of RootDir \<Rightarrow> [] | CurDir \<Rightarrow> [46] | ParentDir \<Rightarrow> [46, 46] | Normal n \<Rightarrow> n)"

definition path_string :: "path_key \<Rightarrow> rstr" where
  "path_string k =
     (if k = [RootDir] then lit ''/'' else join_slash (map component_string k))"

text \<open>Loading every lazy file that fits the quotas; the others stay lazy and are left out.\<close>

definition materialize_path :: "fs_limits \<Rightarrow> fs_entries \<Rightarrow> path_key \<Rightarrow> fs_entries" where
  "materialize_path l es p =
     (case map_of es p of
        Some (LazyFile loader m) \<Rightarrow> snd (materialize l p loader m es)
      | _ \<Rightarrow> es)"

definition lazy_paths :: "fs_entries \<Rightarrow> path_key list" where
  "lazy_paths es = map fst (filter (\<lambda>pe. case snd pe of LazyFile _ _ \<Rightarrow> True | _ \<Rightarrow> False) es)"

definition entry_view :: "fs_entry \<Rightarrow> (vfs_entry_kind \<times> u32) option" where
  "entry_view e =
     (case e of
        File c m \<Rightarrow> Some (KFile c, mode m)
      | LazyFile _ _ \<Rightarrow> None
      | Directory m \<Rightarrow> Some (KDirectory, mode m)
      | Symlink target m \<Rightarrow> Some (KSymlink target, mode m)
      | Fifo _ m \<Rightarrow> Some (KFifo, mode m))"

definition snapshot_entry :: "path_key \<times> fs_entry \<Rightarrow> vfs_entry list" where
  "snapshot_entry pe =
     (case entry_view (snd pe) of
        None \<Rightarrow> []
      | Some (k, m) \<Rightarrow> [\<lparr>ve_path = path_string (fst pe), ve_kind = k, ve_mode = m\<rparr>])"

definition snapshot :: "mem_fs \<Rightarrow> vfs_snapshot \<times> mem_fs" where
  "snapshot fs =
     (let es = foldl (materialize_path (limits fs)) (entries fs) (lazy_paths (entries fs))
      in (concat (map snapshot_entry es), fs\<lparr>entries := es\<rparr>))"

section \<open>Restoring\<close>

fun validate_snapshot :: "fs_limits \<Rightarrow> vfs_snapshot \<Rightarrow> u64 \<Rightarrow> u64 \<Rightarrow> fs_error + (u64 \<times> u64)" where
  "validate_snapshot l [] bytes_sum count = Ok (bytes_sum, count)"
| "validate_snapshot l (e # es) bytes_sum count =
     (case validate_path l (ve_path e) of
        Inl err \<Rightarrow> Err (LimitErr err)
      | Inr _ \<Rightarrow>
          (let count' = (if snapshot_entry_counts_toward_file_count (ve_kind e)
                              then count + 1 else count)
           in case ve_kind e of
                KFile content \<Rightarrow>
                  (case check_file_size l (bytes_len content) of
                     Inl err \<Rightarrow> Err (LimitErr err)
                   | Inr _ \<Rightarrow> validate_snapshot l es (bytes_sum + bytes_len content) count')
              | _ \<Rightarrow> validate_snapshot l es bytes_sum count'))"

definition restored_entry :: "system_time \<Rightarrow> vfs_entry \<Rightarrow> fs_entry" where
  "restored_entry t e =
     (case ve_kind e of
        KFile content \<Rightarrow> File content (new_metadata FtFile (bytes_len content) (ve_mode e) t)
      | KDirectory \<Rightarrow> Directory (new_metadata FtDirectory 0 (ve_mode e) t)
      | KSymlink target \<Rightarrow> Symlink target (new_metadata FtSymlink 0 (ve_mode e) t)
      | KFifo \<Rightarrow> Fifo [] (new_metadata FtFifo 0 (ve_mode e) t))"

definition restore :: "system_time \<Rightarrow> vfs_snapshot \<Rightarrow> mem_fs \<Rightarrow> unit fs_result" where
  "restore t snap fs =
     (case validate_snapshot (limits fs) snap 0 0 of
        Inl err \<Rightarrow> (Err err, fs)
      | Inr (bytes_sum, count) \<Rightarrow>
          if max_total_bytes (limits fs) < bytes_sum then (Err SnapshotTooLarge, fs)
          else case check_final_file_count (limits fs) count of
            Inl err \<Rightarrow> (Err (LimitErr err), fs)
          | Inr _ \<Rightarrow>
              (Ok (), fs\<lparr>entries := foldl (\<lambda>es e. AList.update (components (ve_path e)) (restored_entry t e) es)
                           [] snap\<rparr>))"

section \<open>Keys stay normalised\<close>

definition normal_key :: "path_key \<Rightarrow> bool" where
  "normal_key k \<longleftrightarrow> (\<exists>ss. k = RootDir # map Normal ss \<and> list_all proper_segment ss)"

definition keys_ok :: "fs_entries \<Rightarrow> bool" where
  "keys_ok es = list_all normal_key (keys es)"

lemma normal_key_normalize: "normal_key (components (normalize_path p))"
  using normal_segments_list_all by (auto simp: normal_key_def components_normalize)

lemma path_string_normal:
  assumes "normal_key k"
  shows "components (path_string k) = k"
proof -
  obtain ss where k: "k = RootDir # map Normal ss" and ss: "list_all proper_segment ss"
    using assms by (auto simp: normal_key_def)
  have "map component_string (map Normal ss) = ss" by (induction ss) (auto simp: component_string_def)
  then have "path_string k = (if ss = [] then lit ''/'' else 47 # join_slash ss)"
    by (cases ss) (simp_all add: k path_string_def component_string_def)
  then show ?thesis using components_join [of ss] ss by (simp add: k list_all_iff)
qed

lemma normal_key_prefix: "normal_key k \<Longrightarrow> prefix [RootDir] q \<Longrightarrow> prefix q k \<Longrightarrow> normal_key q"
proof -
  assume k: "normal_key k" "prefix [RootDir] q" "prefix q k"
  then obtain ss q' where ss: "k = RootDir # map Normal ss" "list_all proper_segment ss" "q = RootDir # q'"
    by (auto simp: normal_key_def prefix_Cons prefix_def)
  then have "prefix q' (map Normal ss)" using k(3) by simp
  then have "q' = map Normal (take (length q') ss)"
    by (auto simp: prefix_def take_map dest: arg_cong [where f = "take (length q')"])
  then show ?thesis
    using ss unfolding normal_key_def by (metis list_all_iff in_set_takeD)
qed

lemma keys_ok_simps [simp]:
  "keys_ok []" "keys_ok (pe # es) \<longleftrightarrow> normal_key (fst pe) \<and> keys_ok es"
  by (simp_all add: keys_ok_def)

lemma keys_ok_update: "keys_ok es \<Longrightarrow> normal_key p \<Longrightarrow> keys_ok (AList.update p e es)"
  by (induction es) (auto split: if_splits)

lemma keys_ok_delete: "keys_ok es \<Longrightarrow> keys_ok (AList.delete p es)"
  by (induction es) auto

lemma keys_ok_filter: "keys_ok es \<Longrightarrow> keys_ok (filter P es)"
  by (induction es) auto

lemma keys_ok_foldl: "keys_ok es \<Longrightarrow> keys_ok ms \<Longrightarrow> keys_ok (foldl (\<lambda>acc (k, v). AList.update k v acc) es ms)"
  by (induction ms arbitrary: es) (auto simp: keys_ok_update)

lemma normal_key_moved:
  "normal_key p \<Longrightarrow> normal_key q \<Longrightarrow> normal_key k \<Longrightarrow> prefix p k \<Longrightarrow> normal_key (q @ drop (length p) k)"
proof -
  assume k: "normal_key p" "normal_key q" "normal_key k" "prefix p k"
  then obtain ps qs ks where p: "p = RootDir # map Normal ps" and q: "q = RootDir # map Normal qs"
    and ks: "k = RootDir # map Normal ks" "list_all proper_segment qs" "list_all proper_segment ks"
    by (auto simp: normal_key_def)
  have "q @ drop (length p) k = RootDir # map Normal (qs @ drop (length ps) ks)"
    by (simp add: p q ks drop_map)
  moreover have "list_all proper_segment (qs @ drop (length ps) ks)"
    using ks by (auto simp: list_all_iff dest: in_set_dropD)
  ultimately show ?thesis unfolding normal_key_def by blast
qed

lemma keys_ok_moved: "keys_ok es \<Longrightarrow> normal_key p \<Longrightarrow> normal_key q \<Longrightarrow> keys_ok (moved_entries p q es)"
  by (induction es) (auto simp: moved_entries_def path_starts_with_def normal_key_moved)

text \<open>Distinct, normalised keys, and what keeps them.\<close>

definition tree_ok :: "fs_entries \<Rightarrow> bool" where
  "tree_ok es \<longleftrightarrow> distinct (keys es) \<and> keys_ok es"

lemma tree_ok_update: "tree_ok es \<Longrightarrow> normal_key p \<Longrightarrow> tree_ok (AList.update p e es)"
  by (simp add: tree_ok_def distinct_update keys_ok_update)

lemma tree_ok_delete: "tree_ok es \<Longrightarrow> tree_ok (AList.delete p es)"
  by (simp add: tree_ok_def distinct_delete keys_ok_delete)

lemma tree_ok_filter: "tree_ok es \<Longrightarrow> tree_ok (filter P es)"
  by (simp add: tree_ok_def distinct_map_filter keys_ok_filter)

lemma tree_ok_rename:
  "tree_ok es \<Longrightarrow> normal_key p \<Longrightarrow> normal_key q \<Longrightarrow>
   tree_ok (foldl (\<lambda>acc (k, v). AList.update k v acc) (filter P es) (moved_entries p q es))"
  by (simp add: tree_ok_def distinct_map_filter distinct_foldl_update keys_ok_foldl keys_ok_filter keys_ok_moved)

lemma tree_ok_key: "tree_ok es \<Longrightarrow> map_of es p = Some e \<Longrightarrow> normal_key p"
  by (auto simp: tree_ok_def keys_ok_def list_all_iff dest!: map_of_SomeD)

lemma tree_ok_materialize: "tree_ok es \<Longrightarrow> normal_key p \<Longrightarrow> tree_ok (snd (materialize l p loader m es))"
  by (simp add: materialize_def Let_def tree_ok_update tree_ok_delete split: sum.split)

lemma tree_ok_append: "tree_ok es \<Longrightarrow> normal_key p \<Longrightarrow> tree_ok (snd (append_loaded t l p c es))"
  by (simp add: append_loaded_def Let_def tree_ok_update split: sum.split option.split fs_entry.split)

lemma normal_key_next: "normal_key (cur @ c # cs) \<Longrightarrow> prefix [RootDir] cur \<Longrightarrow> normal_key (cur @ [c])"
  by (erule normal_key_prefix) (auto simp: prefix_def)

lemma prefix_snoc_root: "prefix [RootDir] cur \<Longrightarrow> prefix [RootDir] (cur @ [c])"
  by (auto simp: prefix_def)

lemma tree_ok_mkdir_loop:
  "tree_ok es \<Longrightarrow> normal_key (cur @ cs) \<Longrightarrow> prefix [RootDir] cur \<Longrightarrow> tree_ok (snd (mkdir_loop l t cur cs es))"
proof (induction cs arbitrary: cur es)
  case (Cons c cs)
  note nk = normal_key_next [OF Cons.prems(2,3)]
  have "normal_key ((cur @ [c]) @ cs)" using Cons.prems(2) by simp
  note IH = Cons.IH [OF _ this prefix_snoc_root [OF Cons.prems(3)]]
  show ?case
    using IH Cons.prems(1) tree_ok_update [OF Cons.prems(1) nk]
    by (simp add: Let_def split: option.split sum.split)
qed simp

lemma tree_ok_add_dir_loop:
  "tree_ok es \<Longrightarrow> normal_key (cur @ cs) \<Longrightarrow> prefix [RootDir] cur \<Longrightarrow> tree_ok (add_dir_loop l m t cur cs es)"
proof (induction cs arbitrary: cur es)
  case (Cons c cs)
  note nk = normal_key_next [OF Cons.prems(2,3)]
  have "normal_key ((cur @ [c]) @ cs)" using Cons.prems(2) by simp
  note IH = Cons.IH [OF _ this prefix_snoc_root [OF Cons.prems(3)]]
  show ?case
    using IH Cons.prems(1) tree_ok_update [OF Cons.prems(1) nk] by (simp add: Let_def)
qed simp

lemma tree_ok_ensure_dirs:
  "tree_ok es \<Longrightarrow> normal_key (cur @ cs) \<Longrightarrow> prefix [RootDir] cur \<Longrightarrow> tree_ok (ensure_dirs t cur cs es)"
proof (induction cs arbitrary: cur es)
  case (Cons c cs)
  note nk = normal_key_next [OF Cons.prems(2,3)]
  have "normal_key ((cur @ [c]) @ cs)" using Cons.prems(2) by simp
  note IH = Cons.IH [OF _ this prefix_snoc_root [OF Cons.prems(3)]]
  show ?case
    using IH Cons.prems(1) tree_ok_update [OF Cons.prems(1) nk] by (simp add: Let_def)
qed simp

lemma normal_key_root: "normal_key p \<Longrightarrow> [RootDir] @ drop 1 p = p \<and> p \<noteq> []"
  by (auto simp: normal_key_def)

lemma tree_ok_ensure_parents:
  assumes "tree_ok es" "normal_key p"
  shows "tree_ok (ensure_parents t p es)"
proof (cases "parent p")
  case (Some par)
  then have par: "par = butlast p" "last p \<noteq> RootDir" by (auto simp: parent_def split: if_splits)
  then have "prefix [RootDir] par" using assms(2) 
    by (cases p rule: rev_cases; cases par) (auto simp: normal_key_def)
  moreover have "prefix par p" using par normal_key_root [OF assms(2)] by (metis append_butlast_last_id prefixI)
  ultimately have nk: "normal_key par" by (rule normal_key_prefix [OF assms(2)])
  have "tree_ok (ensure_dirs t [RootDir] (drop 1 par) es)"
    by (rule tree_ok_ensure_dirs [OF assms(1)]) (use normal_key_root [OF nk] nk in simp_all)
  then show ?thesis using Some by (simp add: ensure_parents_def)
qed (use assms in \<open>simp add: ensure_parents_def\<close>)

definition fs_tree_ok :: "mem_fs \<Rightarrow> bool" where
  "fs_tree_ok fs \<longleftrightarrow> tree_ok (entries fs)"

lemma on_path_tree:
  assumes "fs_tree_ok fs" and "\<And>p. normal_key p \<Longrightarrow> fs_tree_ok (snd (k p))"
  shows "fs_tree_ok (snd (on_path path fs k))"
  using assms normal_key_normalize by (simp add: on_path_def split: sum.split)

lemma fs_tree_entries: "fs_tree_ok (fs\<lparr>entries := es\<rparr>) \<longleftrightarrow> tree_ok es"
  by (simp add: fs_tree_ok_def)

lemma fs_step_tree:
  assumes "fs_tree_ok fs"
  shows "fs_tree_ok (snd (fs_step t rnd op fs))"
proof -
  have ok: "tree_ok (entries fs)" using assms by (simp add: fs_tree_ok_def)
  note path = on_path_tree [OF assms]
  note simps = assms fs_tree_entries ok tree_ok_update tree_ok_delete tree_ok_filter tree_ok_rename
  have mat: "tree_ok es" if "materialize l q loader m (entries fs) = (r, es)" "normal_key q" for l q loader m r es
    using tree_ok_materialize [OF ok that(2), of l loader m] that(1) by simp
  have app: "tree_ok es'" if "append_loaded t l q c es = (r, es')" "tree_ok es" "normal_key q" for l c q es r es'
    using tree_ok_append [OF that(2,3), of t l c] that(1) by simp
  have nodes: "normal_key ([RootDir] @ drop 1 q)" if "normal_key q" for q
    using that normal_key_root [OF that] by simp
  show ?thesis
  proof (cases op)
    case (ReadFile p)
    show ?thesis
      unfolding ReadFile fs_step.simps snd_unit_result read_file_def
      by (rule path) (auto simp: simps intro: mat split: sum.split option.split fs_entry.split prod.split)
  next
    case (WriteFile p c)
    show ?thesis
      unfolding WriteFile fs_step.simps write_file_def
      by (rule path) (simp add: simps split: sum.split option.split fs_entry.split)
  next
    case (AppendFile p c)
    show ?thesis
      unfolding AppendFile fs_step.simps append_file_def
      by (rule path) (auto simp: simps Let_def intro: app mat split: sum.split option.split fs_entry.split prod.split)
  next
    case (Mkdir p rec)
    show ?thesis
      unfolding Mkdir fs_step.simps mkdir_def
      by (rule path)
        (use tree_ok_mkdir_loop [OF ok nodes] in \<open>simp add: simps split_beta split: sum.split\<close>)
  next
    case (Remove p rec)
    show ?thesis unfolding Remove fs_step.simps remove_def by (rule path) (simp add: simps split: option.split)
  next
    case (Rename p q)
    show ?thesis
      unfolding Rename fs_step.simps rename_def Let_def
      by (intro path) (simp add: simps split: option.split)
  next
    case (Copy p q)
    show ?thesis
      unfolding Copy fs_step.simps copy_def Let_def
      by (intro path) (simp add: simps split: option.split sum.split)
  next
    case (MakeSymlink target p)
    show ?thesis
      unfolding MakeSymlink fs_step.simps symlink_def Let_def by (rule path) (simp add: simps split: sum.split)
  next
    case (Chmod p m)
    show ?thesis unfolding Chmod fs_step.simps chmod_def by (rule path) (simp add: simps split: option.split)
  next
    case (SetModified p tm)
    show ?thesis
      unfolding SetModified fs_step.simps set_modified_time_def by (rule path) (simp add: simps split: option.split)
  next
    case (Mkfifo p m)
    show ?thesis unfolding Mkfifo fs_step.simps mkfifo_def by (rule path) (simp add: simps split: sum.split)
  next
    case (AddFile p c m)
    show ?thesis
      unfolding AddFile
      by (simp add: add_file_def Let_def simps tree_ok_ensure_parents normal_key_normalize)
  next
    case (AddDir p m)
    show ?thesis
      using tree_ok_add_dir_loop [OF ok nodes [OF normal_key_normalize]] unfolding AddDir
      by (simp add: add_dir_def simps)
  next
    case (AddLazy p n m loader)
    show ?thesis
      unfolding AddLazy
      by (simp add: add_lazy_file_def Let_def simps tree_ok_ensure_parents normal_key_normalize)
  qed
qed

lemma fs_run_tree: "fs_tree_ok fs \<Longrightarrow> fs_tree_ok (fs_run ops fs)"
  by (induction ops fs rule: fs_run.induct) (simp_all add: fs_step_tree)

lemma normal_key_components: "list_all proper_segment (map lit ss) \<Longrightarrow> normal_key (RootDir # map Normal (map lit ss))"
  unfolding normal_key_def by blast

lemma tree_ok_with_limits: "fs_tree_ok (with_limits l t)"
proof -
  have "distinct (keys (entries (with_limits l t)))"
    using fs_ok_with_limits [of l t] by (simp add: fs_ok_def quota_ok_def)
  moreover have "keys_ok (entries (with_limits l t))"
    unfolding keys_ok_def keys_with_limits key_values
    using normal_key_components [of "[]"] normal_key_components [of "[''tmp'']"]
      normal_key_components [of "[''home'']"] normal_key_components [of "[''home'', ''user'']"]
      normal_key_components [of "[''dev'']"] normal_key_components [of "[''dev'', ''null'']"]
      normal_key_components [of "[''dev'', ''urandom'']"] normal_key_components [of "[''dev'', ''random'']"]
      normal_key_components [of "[''dev'', ''fd'']"]
    by (simp add: proper_segment_def lit_def)
  ultimately show ?thesis by (simp add: fs_tree_ok_def tree_ok_def)
qed

section \<open>Round trip\<close>

lemma materialize_content:
  assumes "map_of es p = Some (LazyFile loader m)"
  shows "content_of (map_of (snd (materialize l p loader m es)) q) = content_of (map_of es q)"
proof (cases "q = p")
  case True
  then show ?thesis
    using assms by (simp add: materialize_def Let_def update_conv' content_of_def split: sum.split)
next
  case False
  then show ?thesis
    by (simp add: materialize_def Let_def update_conv' delete_conv' split: sum.split)
qed

lemma materialize_path_facts:
  "tree_ok es \<Longrightarrow> tree_ok (materialize_path l es p) \<and>
   content_of (map_of (materialize_path l es p) q) = content_of (map_of es q)"
  by (simp add: materialize_path_def tree_ok_materialize tree_ok_key materialize_content
      split: option.split fs_entry.split)

lemma materialize_paths_facts:
  "tree_ok es \<Longrightarrow> tree_ok (foldl (materialize_path l) es ps) \<and>
   content_of (map_of (foldl (materialize_path l) es ps) q) = content_of (map_of es q)"
proof (induction ps arbitrary: es)
  case (Cons p ps)
  then show ?case using materialize_path_facts [OF Cons.prems, of l p q] by simp
qed simp

definition viewed :: "fs_entries \<Rightarrow> path_key \<Rightarrow> (vfs_entry_kind \<times> u32) option" where
  "viewed es p = Option.bind (map_of es p) entry_view"

lemma entry_view_restored [simp]:
  "entry_view (restored_entry t e) = Some (ve_kind e, ve_mode e)"
  by (cases e) (simp add: restored_entry_def entry_view_def new_metadata_def split: vfs_entry_kind.split)

lemma viewed_restored:
  "tree_ok es \<Longrightarrow>
   viewed (foldl (\<lambda>acc e. AList.update (components (ve_path e)) (restored_entry t e) acc) acc
             (concat (map snapshot_entry es))) p =
     (case viewed es p of None \<Rightarrow> viewed acc p | Some v \<Rightarrow> Some v)"
proof (induction es arbitrary: acc)
  case (Cons pe es)
  obtain q e where pe: "pe = (q, e)" by (rule prod.exhaust)
  have es: "tree_ok es" and nk: "normal_key q" and none: "map_of es q = None"
    using Cons.prems by (auto simp: tree_ok_def pe map_of_eq_None_iff)
  show ?case
  proof (cases "entry_view e")
    case None
    then have "snapshot_entry pe = []" by (simp add: pe snapshot_entry_def)
    moreover have "viewed (pe # es) p = viewed es p" using None none by (simp add: pe viewed_def)
    ultimately show ?thesis using Cons.IH [OF es, of acc] by simp
  next
    case (Some km)
    obtain k m where km: "km = (k, m)" by (rule prod.exhaust)
    let ?acc = "AList.update q (restored_entry t \<lparr>ve_path = path_string q, ve_kind = k, ve_mode = m\<rparr>) acc"
    have "snapshot_entry pe = [\<lparr>ve_path = path_string q, ve_kind = k, ve_mode = m\<rparr>]"
      using Some by (simp add: pe km snapshot_entry_def)
    then have "viewed (foldl (\<lambda>acc e. AList.update (components (ve_path e)) (restored_entry t e) acc) acc
             (concat (map snapshot_entry (pe # es)))) p =
        (case viewed es p of None \<Rightarrow> viewed ?acc p | Some v \<Rightarrow> Some v)"
      using Cons.IH [OF es, of ?acc] by (simp add: path_string_normal [OF nk])
    also have "\<dots> = (case viewed (pe # es) p of None \<Rightarrow> viewed acc p | Some v \<Rightarrow> Some v)"
      using Some none
      by (cases "p = q") (auto simp: pe km viewed_def update_conv' split: option.split)
    finally show ?thesis .
  qed
qed (simp add: viewed_def)

text \<open>What taking a snapshot does to an entry: a lazy file becomes the file it stands for, or stays if it is too large.\<close>

definition entry_loaded :: "fs_entry option \<Rightarrow> fs_entry option \<Rightarrow> bool" where
  "entry_loaded e e' \<longleftrightarrow> e' = e \<or>
     (\<exists>content m. e = Some (LazyFile content m) \<and> e' = Some (File content (m\<lparr>meta_size := bytes_len content\<rparr>)))"

lemma entry_loaded_refl [simp]: "entry_loaded e e"
  by (simp add: entry_loaded_def)

lemma entry_loaded_trans: "entry_loaded a b \<Longrightarrow> entry_loaded b c \<Longrightarrow> entry_loaded a c"
  by (auto simp: entry_loaded_def)

lemma materialize_loaded:
  assumes "map_of es p = Some (LazyFile loader m)"
  shows "entry_loaded (map_of es q) (map_of (snd (materialize l p loader m es)) q)"
  using assms
  by (auto simp: materialize_def Let_def entry_loaded_def update_conv delete_conv split: sum.splits)

lemma materialize_paths_loaded: "entry_loaded (map_of es q) (map_of (foldl (materialize_path l) es ps) q)"
proof (induction ps arbitrary: es)
  case (Cons p ps)
  have "entry_loaded (map_of es q) (map_of (materialize_path l es p) q)"
    by (auto simp: materialize_path_def materialize_loaded split: option.split fs_entry.split)
  with Cons.IH [of "materialize_path l es p"] show ?case using entry_loaded_trans by simp
qed simp


section \<open>Restoring is checked first\<close>

definition snapshot_bytes :: "vfs_snapshot \<Rightarrow> nat" where
  "snapshot_bytes snap = sum_list (map (\<lambda>e. case ve_kind e of KFile c \<Rightarrow> length c | _ \<Rightarrow> 0) snap)"

definition snapshot_files :: "vfs_snapshot \<Rightarrow> nat" where
  "snapshot_files snap = length (filter (\<lambda>e. ve_kind e \<noteq> KDirectory) snap)"

lemma validate_snapshot_ok:
  "validate_snapshot l snap a n = Inr (a', n') \<Longrightarrow>
   unat a + snapshot_bytes snap < 2 ^ 64 \<Longrightarrow> unat n + snapshot_files snap < 2 ^ 64 \<Longrightarrow>
   unat a' = unat a + snapshot_bytes snap \<and> unat n' = unat n + snapshot_files snap \<and>
   list_all (\<lambda>e. case ve_kind e of KFile c \<Rightarrow> length c \<le> unat (max_file_size l) | _ \<Rightarrow> True) snap"
proof (induction l snap a n rule: validate_snapshot.induct)
  case (2 l e es a n)
  let ?n = "if snapshot_entry_counts_toward_file_count (ve_kind e) then n + 1 else n"
  have n: "unat ?n + snapshot_files es = unat n + snapshot_files (e # es)"
    using 2(7) by (auto simp: snapshot_entry_counts_toward_file_count_def snapshot_files_def unat_add_small)
  show ?case
  proof (cases "ve_kind e")
    case (KFile c)
    have len: "length c < 2 ^ 64" "unat a + length c < 2 ^ 64"
      using 2(6) by (simp_all add: snapshot_bytes_def KFile)
    then have a: "unat (a + bytes_len c) = unat a + length c"
      by (subst unat_add_small) (simp_all add: unat_bytes_len)
    have run: "validate_snapshot l es (a + bytes_len c) ?n = Inr (a', n')"
      and sz: "bytes_len c \<le> max_file_size l"
      using 2(5) KFile by (auto simp: Let_def check_file_size_def not_less split: sum.splits if_splits)
    have "unat (a + bytes_len c) + snapshot_bytes es < 2 ^ 64" "unat ?n + snapshot_files es < 2 ^ 64"
      using 2(6) 2(7) a n by (simp_all add: snapshot_bytes_def KFile)
    then show ?thesis
      using 2(1) [OF _ refl KFile] run sz a n len 2(5)
      by (auto simp: snapshot_bytes_def KFile word_le_nat_alt unat_bytes_len Let_def check_file_size_def
          split: sum.splits if_splits)
  qed (use 2(2-7) n in \<open>auto simp: snapshot_bytes_def Let_def split: sum.splits\<close>)
qed (simp add: snapshot_bytes_def snapshot_files_def)

text \<open>
  \<open>restore\<close> is all or nothing and cannot be used to get past the quotas on files. It
  either refuses the snapshot and leaves the filesystem exactly as it was, or every file of the
  snapshot is within \<open>max_file_size\<close>, all together within \<open>max_total_bytes\<close>, and the entries that
  are not directories within \<open>max_file_count\<close> (TM-ESC-012).
\<close>

theorem restore_all_or_nothing:
  assumes "snapshot_bytes snap < 2 ^ 64" and "length snap < 2 ^ 64"
  shows "case restore t snap fs of
      (Inl err, fs') \<Rightarrow> fs' = fs
    | (Inr _, fs') \<Rightarrow>
        list_all (\<lambda>e. case ve_kind e of KFile c \<Rightarrow> length c \<le> unat (max_file_size (limits fs)) | _ \<Rightarrow> True) snap \<and>
        snapshot_bytes snap \<le> unat (max_total_bytes (limits fs)) \<and>
        snapshot_files snap \<le> unat (max_file_count (limits fs))"
proof -
  have "snapshot_files snap \<le> length snap" by (simp add: snapshot_files_def)
  then have room: "unat (0 :: u64) + snapshot_bytes snap < 2 ^ 64" "unat (0 :: u64) + snapshot_files snap < 2 ^ 64"
    using assms by simp_all
  show ?thesis
  proof (cases "validate_snapshot (limits fs) snap 0 0")
    case (Inl err)
    then show ?thesis by (simp add: restore_def)
  next
    case (Inr an)
    obtain a n where an: "an = (a, n)" by (rule prod.exhaust)
    note v = validate_snapshot_ok [OF Inr [unfolded an] room]
    then have "unat a = snapshot_bytes snap" "unat n = snapshot_files snap" by simp_all
    then show ?thesis
      using v Inr by (simp add: restore_def an check_final_file_count_def word_less_nat_alt)
  qed
qed

section \<open>Quotas\<close>

text \<open>The operations of \<open>fs_step\<close> together with the two on whole filesystems, at a time and with a source of random bytes.\<close>

datatype fs_action = FsOp "nat \<Rightarrow> bytes option" fs_op | TakeSnapshot | RestoreSnapshot vfs_snapshot

fun fs_act :: "system_time \<Rightarrow> fs_action \<Rightarrow> mem_fs \<Rightarrow> mem_fs" where
  "fs_act t (FsOp rnd op) fs = snd (fs_step t rnd op fs)"
| "fs_act t TakeSnapshot fs = snd (snapshot fs)"
| "fs_act t (RestoreSnapshot snap) fs = snd (restore t snap fs)"

definition fs_acts :: "(system_time \<times> fs_action) list \<Rightarrow> mem_fs \<Rightarrow> mem_fs" where
  "fs_acts acts fs = fold (\<lambda>(t, act). fs_act t act) acts fs"

text \<open>Slices and vectors of Rust are smaller than the address space.\<close>

definition action_ok :: "fs_action \<Rightarrow> bool" where
  "action_ok act = (case act of FsOp rnd op \<Rightarrow> op_ok op
     | TakeSnapshot \<Rightarrow> True
     | RestoreSnapshot snap \<Rightarrow> snapshot_bytes snap < 2 ^ 64 \<and> length snap < 2 ^ 64)"

lemma snapshot_quota:
  assumes "fs_ok fs" and "finite_limits (limits fs)"
  shows "fs_ok (snd (snapshot fs)) \<and> limits (snd (snapshot fs)) = limits fs"
proof -
  have "quota_ok (limits fs) (foldl (materialize_path (limits fs)) es ps)" if "quota_ok (limits fs) es" for es ps
    using that
  proof (induction ps arbitrary: es)
    case (Cons p ps)
    have "quota_ok (limits fs) (materialize_path (limits fs) es p)"
      using materialize_quota [OF Cons.prems assms(2)] Cons.prems
      by (auto simp: materialize_path_def split: option.split fs_entry.split) (metis prod.collapse)
    with Cons.IH show ?case by simp
  qed simp
  with assms(1) show ?thesis by (simp add: snapshot_def Let_def fs_ok_def)
qed

lemma restored_size:
  "file_size (restored_entry t e) \<le> (case ve_kind e of KFile c \<Rightarrow> length c | _ \<Rightarrow> 0)"
  "as_file (restored_entry t e) = (if ve_kind e \<noteq> KDirectory then 1 else 0)"
  by (simp_all add: restored_entry_def file_size_def stored_size_def as_file_def is_directory_def split: vfs_entry_kind.split)

lemma restored_ok:
  "(case ve_kind e of KFile c \<Rightarrow> length c \<le> unat (max_file_size l) | _ \<Rightarrow> True) \<Longrightarrow> entry_ok l (restored_entry t e)"
  by (simp add: restored_entry_def entry_ok_def stored_size_def new_metadata_def split: vfs_entry_kind.splits)

lemma restored_quota:
  "distinct (keys acc) \<Longrightarrow> entries_ok l acc \<Longrightarrow>
   list_all (\<lambda>e. case ve_kind e of KFile c \<Rightarrow> length c \<le> unat (max_file_size l) | _ \<Rightarrow> True) snap \<Longrightarrow>
   es = foldl (\<lambda>es e. AList.update (components (ve_path e)) (restored_entry t e) es) acc snap \<Longrightarrow>
   distinct (keys es) \<and> entries_ok l es \<and> tally file_size es \<le> tally file_size acc + snapshot_bytes snap \<and>
   tally as_file es \<le> tally as_file acc + snapshot_files snap"
proof (induction snap arbitrary: acc)
  case (Cons e snap)
  let ?acc = "AList.update (components (ve_path e)) (restored_entry t e) acc"
  have "distinct (keys ?acc)" "entries_ok l ?acc"
    using Cons.prems by (simp_all add: distinct_update entries_ok_update restored_ok)
  moreover have "list_all (\<lambda>e. case ve_kind e of KFile c \<Rightarrow> length c \<le> unat (max_file_size l) | _ \<Rightarrow> True) snap"
    "es = foldl (\<lambda>es e. AList.update (components (ve_path e)) (restored_entry t e) es) ?acc snap"
    using Cons.prems(3,4) by simp_all
  ultimately have IH: "distinct (keys es)" "entries_ok l es" "tally file_size es \<le> tally file_size ?acc + snapshot_bytes snap"
    "tally as_file es \<le> tally as_file ?acc + snapshot_files snap"
    using Cons.IH [of ?acc] by blast+
  have "tally file_size ?acc \<le> tally file_size acc + (case ve_kind e of KFile c \<Rightarrow> length c | _ \<Rightarrow> 0)"
    "tally as_file ?acc \<le> tally as_file acc + (if ve_kind e \<noteq> KDirectory then 1 else 0)"
    using tally_update_le [OF Cons.prems(1), of file_size "components (ve_path e)" "restored_entry t e"]
      tally_update_le [OF Cons.prems(1), of as_file "components (ve_path e)" "restored_entry t e"] restored_size [of t e]
    by linarith+
  moreover have "snapshot_bytes (e # snap) = (case ve_kind e of KFile c \<Rightarrow> length c | _ \<Rightarrow> 0) + snapshot_bytes snap"
    "snapshot_files (e # snap) = (if ve_kind e \<noteq> KDirectory then 1 else 0) + snapshot_files snap"
    by (simp_all add: snapshot_bytes_def snapshot_files_def)
  ultimately show ?case using IH by linarith
qed (simp add: snapshot_bytes_def snapshot_files_def)

lemma restore_quota:
  assumes "fs_ok fs" and "snapshot_bytes snap < 2 ^ 64" and "length snap < 2 ^ 64"
  shows "fs_ok (snd (restore t snap fs)) \<and> limits (snd (restore t snap fs)) = limits fs"
proof (cases "restore t snap fs")
  case (Pair r fs')
  note all = restore_all_or_nothing [OF assms(2,3), where t = t and fs = fs, unfolded Pair]
  show ?thesis
  proof (cases r)
    case (Inl e)
    then show ?thesis using all Pair assms(1) by simp
  next
    case (Inr u)
    then have es: "entries fs' = foldl (\<lambda>es e. AList.update (components (ve_path e)) (restored_entry t e) es) [] snap"
        "limits fs' = limits fs"
      using Pair by (auto simp: restore_def split: sum.splits prod.splits if_splits)
    from restored_quota [OF _ _ _ es(1), of "limits fs"] all Inr show ?thesis
      by (auto simp: Pair fs_ok_def quota_ok_def file_bound_def es(2))
  qed
qed

lemma fs_acts_quota:
  "fs_ok fs \<Longrightarrow> finite_limits (limits fs) \<Longrightarrow> \<forall>(t, act) \<in> set acts. action_ok act \<Longrightarrow>
   fs_ok (fs_acts acts fs) \<and> limits (fs_acts acts fs) = limits fs"
proof (induction acts arbitrary: fs)
  case (Cons x acts)
  obtain t act where x: "x = (t, act)" by (rule prod.exhaust)
  have "fs_ok (fs_act t act fs) \<and> limits (fs_act t act fs) = limits fs"
    using Cons.prems x
    by (cases act) (simp_all add: action_ok_def fs_step_quota snapshot_quota restore_quota)
  then show ?case using Cons.IH [of "fs_act t act fs"] Cons.prems by (simp add: fs_acts_def x)
qed (simp add: fs_acts_def)

text \<open>
  Property C2: the quotas of the filesystem hold after any sequence of operations, snapshots and restores, successful or
  failed: no file is larger than \<open>max_file_size\<close>, there are at most \<open>max_file_count\<close> entries
  that are not directories (or the three device files of a fresh filesystem), and the contents
  of files, fifos and unread lazy files take at most \<open>max_total_bytes\<close> (TM-DOS-005 to 010).
  The limits must be finite enough that the \<open>u64\<close> totals of the checks cannot wrap, and what an operation or a
  restore brings in must fit into the address space.
\<close>

theorem filesystem_quotas_hold:
  assumes "finite_limits l" and "\<forall>(t, act) \<in> set acts. action_ok act"
  shows "(\<forall>e \<in> snd ` set (entries (fs_acts acts (with_limits l t0))). stored_size e \<le> unat (max_file_size l)) \<and>
         tally as_file (entries (fs_acts acts (with_limits l t0))) \<le> max 3 (unat (max_file_count l)) \<and>
         tally file_size (entries (fs_acts acts (with_limits l t0))) \<le> unat (max_total_bytes l)"
proof -
  have l: "limits (with_limits l t0) = l" by (simp add: with_limits_def)
  have "fs_ok (fs_acts acts (with_limits l t0)) \<and> limits (fs_acts acts (with_limits l t0)) = l"
    using fs_acts_quota [OF fs_ok_with_limits _ assms(2), of l t0] assms(1) l by simp
  then show ?thesis
    by (auto simp: fs_ok_def quota_ok_def file_bound_def entries_ok_def entry_ok_def)
qed

text \<open>A symbolic link, an empty file, eight bytes appended, and a restore of twelve bytes, with a limit of ten.\<close>

definition over_limit_acts :: "(system_time \<times> fs_action) list" where
  "over_limit_acts = map (\<lambda>(t, rnd, op). (t, FsOp rnd op)) over_limit_ops @
     [(1, TakeSnapshot), (2, RestoreSnapshot [\<lparr>ve_path = lit ''/f'', ve_kind = KFile (replicate 12 0), ve_mode = MODE_644\<rparr>])]"

theorem filesystem_quotas_hold_witness:
  "tally file_size (entries (fs_acts over_limit_acts (with_limits ten_bytes 0))) \<le> 10"
proof -
  have fin: "finite_limits ten_bytes"
    by (simp add: finite_limits_def file_bound_def ten_bytes_def default_fs_limits_def)
  have acts: "\<forall>(t, act) \<in> set over_limit_acts. action_ok act"
    by (simp add: over_limit_acts_def over_limit_ops_def action_ok_def op_ok_def snapshot_bytes_def)
  from filesystem_quotas_hold [OF fin acts, of 0] show ?thesis by (simp add: ten_bytes_def)
qed

text \<open>
  \<open>restore\<close> does not check the directory quota: a filesystem that allows no directory at
  all accepts a snapshot with two of them, and then reports a directory count over its limit.
\<close>

theorem restore_ignores_directory_quota:
  "fst (restore 0 [\<lparr>ve_path = lit ''/'', ve_kind = KDirectory, ve_mode = MODE_755\<rparr>,
                   \<lparr>ve_path = lit ''/d'', ve_kind = KDirectory, ve_mode = MODE_755\<rparr>]
          (with_limits (default_fs_limits\<lparr>max_dir_count := 0\<rparr>) 0)) = Ok () \<and>
   dir_count (compute_usage (snd (restore 0
     [\<lparr>ve_path = lit ''/'', ve_kind = KDirectory, ve_mode = MODE_755\<rparr>,
      \<lparr>ve_path = lit ''/d'', ve_kind = KDirectory, ve_mode = MODE_755\<rparr>]
          (with_limits (default_fs_limits\<lparr>max_dir_count := 0\<rparr>) 0)))) = 2"
  by (simp add: restore_def with_limits_def path_eval snapshot_entry_counts_toward_file_count_def
      check_final_file_count_def restored_entry_def compute_usage_def usage_step_def
      entry_counts_toward_file_count_def is_directory_def)

section \<open>Instances\<close>

definition demo_snapshot_ops :: "(system_time \<times> (nat \<Rightarrow> bytes option) \<times> fs_op) list" where
  "demo_snapshot_ops = [(0, \<lambda>_. None, WriteFile (lit ''/tmp/f'') [1, 2])]"

theorem restore_all_or_nothing_witness:
  "snd (restore 0 [\<lparr>ve_path = lit ''/f'', ve_kind = KFile [1, 2], ve_mode = MODE_644\<rparr>]
     (with_limits (default_fs_limits\<lparr>max_total_bytes := 1\<rparr>) 0)) =
   with_limits (default_fs_limits\<lparr>max_total_bytes := 1\<rparr>) 0"
proof -
  let ?snap = "[\<lparr>ve_path = lit ''/f'', ve_kind = KFile [1, 2], ve_mode = MODE_644\<rparr>]"
  let ?fs = "with_limits (default_fs_limits\<lparr>max_total_bytes := 1\<rparr>) 0"
  have "snapshot_bytes ?snap < 2 ^ 64" "length ?snap < 2 ^ 64" by (simp_all add: snapshot_bytes_def)
  note r = restore_all_or_nothing [OF this, where t = 0 and fs = ?fs]
  show ?thesis
  proof (cases "restore 0 ?snap ?fs")
    case (Pair res fs')
    then show ?thesis using r by (cases res) (auto simp: snapshot_bytes_def with_limits_def)
  qed
qed


end
