(* ===== verification/FsDyn.thy ===== *)
theory FsDyn
  imports FsSnapshot
begin

text \<open>
  The trait \<open>FileSystem\<close> with its supertrait \<open>FileSystemExt\<close> of \<open>bashkit/src/fs/traits.rs\<close> as an
  interface: an \<open>Arc<dyn FileSystem>\<close> is a record of operations on the state \<open>'w\<close> of the host program,
  with the address that \<open>Arc::ptr_eq\<close> compares. Two values that share a filesystem act on the same
  part of the state. The clock reading of an operation is its first argument. \<open>InMemoryFs\<close> and the wrapper \<open>ReadOnlyFs\<close> are instances; the other layers are
  built over this interface.
\<close>

section \<open>The interface\<close>

type_synonym ('a, 'w) fs_io = "'w \<Rightarrow> (fs_error + 'a) \<times> 'w"

type_synonym dir_entry = "rstr \<times> metadata"

record 'w fs_dyn =
  v_id :: nat
  v_read_file :: "rstr \<Rightarrow> (bytes, 'w) fs_io"
  v_write_file :: "system_time \<Rightarrow> rstr \<Rightarrow> bytes \<Rightarrow> (unit, 'w) fs_io"
  v_append_file :: "system_time \<Rightarrow> rstr \<Rightarrow> bytes \<Rightarrow> (unit, 'w) fs_io"
  v_mkdir :: "system_time \<Rightarrow> rstr \<Rightarrow> bool \<Rightarrow> (unit, 'w) fs_io"
  v_remove :: "system_time \<Rightarrow> rstr \<Rightarrow> bool \<Rightarrow> (unit, 'w) fs_io"
  v_stat :: "rstr \<Rightarrow> (metadata, 'w) fs_io"
  v_read_dir :: "system_time \<Rightarrow> rstr \<Rightarrow> (dir_entry list, 'w) fs_io"
  v_exists :: "rstr \<Rightarrow> (bool, 'w) fs_io"
  v_rename :: "system_time \<Rightarrow> rstr \<Rightarrow> rstr \<Rightarrow> (unit, 'w) fs_io"
  v_copy :: "system_time \<Rightarrow> rstr \<Rightarrow> rstr \<Rightarrow> (unit, 'w) fs_io"
  v_symlink :: "system_time \<Rightarrow> rstr \<Rightarrow> rstr \<Rightarrow> (unit, 'w) fs_io"
  v_read_link :: "rstr \<Rightarrow> (rstr, 'w) fs_io"
  v_chmod :: "system_time \<Rightarrow> rstr \<Rightarrow> u32 \<Rightarrow> (unit, 'w) fs_io"
  v_set_modified_time :: "system_time \<Rightarrow> rstr \<Rightarrow> system_time \<Rightarrow> (unit, 'w) fs_io"
  v_mkfifo :: "system_time \<Rightarrow> rstr \<Rightarrow> u32 \<Rightarrow> (unit, 'w) fs_io"
  v_usage :: "'w \<Rightarrow> fs_usage"
  v_limits :: "'w \<Rightarrow> fs_limits"
  v_vfs_snapshot :: "'w \<Rightarrow> vfs_snapshot option \<times> 'w"
  v_vfs_restore :: "system_time \<Rightarrow> vfs_snapshot \<Rightarrow> (unit, 'w) fs_io"

text \<open>\<open>?\<close> on the result of an operation, and \<open>unwrap_or(false)\<close> on that of \<open>exists\<close>.\<close>

definition io_bind :: "('a, 'w) fs_io \<Rightarrow> ('a \<Rightarrow> ('b, 'w) fs_io) \<Rightarrow> ('b, 'w) fs_io" where
  "io_bind m k w = (case m w of (Inl e, w') \<Rightarrow> (Err e, w') | (Inr a, w') \<Rightarrow> k a w')"

definition io_return :: "'a \<Rightarrow> ('a, 'w) fs_io" where
  "io_return a w = (Ok a, w)"

definition io_fail :: "fs_error \<Rightarrow> ('a, 'w) fs_io" where
  "io_fail e w = (Err e, w)"

definition io_try :: "('a, 'w) fs_io \<Rightarrow> (fs_error + 'a, 'w) fs_io" where
  "io_try m w = (case m w of (r, w') \<Rightarrow> (Ok r, w'))"

definition from_res :: "fs_error + 'a \<Rightarrow> ('a, 'w) fs_io" where
  "from_res r w = (r, w)"

definition unwrap_or_false :: "fs_error + bool \<Rightarrow> bool" where
  "unwrap_or_false r = (case r of Inl _ \<Rightarrow> False | Inr b \<Rightarrow> b)"

lemmas io_defs = io_bind_def io_return_def io_fail_def io_try_def from_res_def

section \<open>\<open>InMemoryFs\<close> as an instance\<close>

text \<open>A host program with any number of in-memory filesystems, numbered.\<close>

type_synonym fs_world = "nat \<Rightarrow> mem_fs"

definition on_fs :: "nat \<Rightarrow> (mem_fs \<Rightarrow> 'a \<times> mem_fs) \<Rightarrow> fs_world \<Rightarrow> 'a \<times> fs_world" where
  "on_fs i f w = (case f (w i) of (r, fs) \<Rightarrow> (r, w(i := fs)))"

definition mem_dyn :: "nat \<Rightarrow> (nat \<Rightarrow> bytes option) \<Rightarrow> fs_world fs_dyn" where
  "mem_dyn i rnd =
     \<lparr>v_id = i,
      v_read_file = (\<lambda>p. on_fs i (read_file rnd p)),
      v_write_file = (\<lambda>t p c. on_fs i (write_file t p c)),
      v_append_file = (\<lambda>t p c. on_fs i (append_file t p c)),
      v_mkdir = (\<lambda>t p r. on_fs i (mkdir t p r)),
      v_remove = (\<lambda>_ p r. on_fs i (remove p r)),
      v_stat = (\<lambda>p. on_fs i (stat p)),
      v_read_dir = (\<lambda>_ p. on_fs i (read_dir p)),
      v_exists = (\<lambda>p. on_fs i (path_exists p)),
      v_rename = (\<lambda>_ p q. on_fs i (rename p q)),
      v_copy = (\<lambda>_ p q. on_fs i (copy p q)),
      v_symlink = (\<lambda>t target link. on_fs i (symlink t target link)),
      v_read_link = (\<lambda>p. on_fs i (read_link p)),
      v_chmod = (\<lambda>_ p m. on_fs i (chmod p m)),
      v_set_modified_time = (\<lambda>_ p t. on_fs i (set_modified_time p t)),
      v_mkfifo = (\<lambda>t p m. on_fs i (mkfifo t p m)),
      v_usage = (\<lambda>w. compute_usage (w i)),
      v_limits = (\<lambda>w. limits (w i)),
      v_vfs_snapshot = (\<lambda>w. case on_fs i snapshot w of (s, w') \<Rightarrow> (Some s, w')),
      v_vfs_restore = (\<lambda>t s. on_fs i (restore t s))\<rparr>"

section \<open>\<open>ReadOnlyFs\<close>\<close>

definition readonly_error :: fs_error where
  "readonly_error = PermissionDenied"

definition readonly_dyn :: "nat \<Rightarrow> 'w fs_dyn \<Rightarrow> 'w fs_dyn" where
  "readonly_dyn addr inner =
     \<lparr>v_id = addr,
      v_read_file = v_read_file inner,
      v_write_file = (\<lambda>_ _ _. io_fail readonly_error),
      v_append_file = (\<lambda>_ _ _. io_fail readonly_error),
      v_mkdir = (\<lambda>_ _ _. io_fail readonly_error),
      v_remove = (\<lambda>_ _ _. io_fail readonly_error),
      v_stat = v_stat inner,
      v_read_dir = v_read_dir inner,
      v_exists = v_exists inner,
      v_rename = (\<lambda>_ _ _. io_fail readonly_error),
      v_copy = (\<lambda>_ _ _. io_fail readonly_error),
      v_symlink = (\<lambda>_ _ _. io_fail readonly_error),
      v_read_link = v_read_link inner,
      v_chmod = (\<lambda>_ _ _. io_fail readonly_error),
      v_set_modified_time = (\<lambda>_ _ _. io_fail readonly_error),
      v_mkfifo = (\<lambda>_ _ _. io_fail readonly_error),
      v_usage = v_usage inner,
      v_limits = v_limits inner,
      v_vfs_snapshot = v_vfs_snapshot inner,
      v_vfs_restore = (\<lambda>_ _. io_fail readonly_error)\<rparr>"

section \<open>Sequences of calls\<close>

datatype fs_call =
    CReadFile rstr
  | CStat rstr
  | CReadDir system_time rstr
  | CExists rstr
  | CReadLink rstr
  | CSnapshot
  | CWriteFile system_time rstr bytes
  | CAppendFile system_time rstr bytes
  | CMkdir system_time rstr bool
  | CRemove system_time rstr bool
  | CRename system_time rstr rstr
  | CCopy system_time rstr rstr
  | CSymlink system_time rstr rstr
  | CChmod system_time rstr u32
  | CSetModified system_time rstr system_time
  | CMkfifo system_time rstr u32
  | CRestore system_time vfs_snapshot

definition void :: "('a, 'w) fs_io \<Rightarrow> (unit, 'w) fs_io" where
  "void m w = (case m w of (Inl e, w') \<Rightarrow> (Err e, w') | (Inr _, w') \<Rightarrow> (Ok (), w'))"

fun do_call :: "'w fs_dyn \<Rightarrow> fs_call \<Rightarrow> (unit, 'w) fs_io" where
  "do_call v (CReadFile p) = void (v_read_file v p)"
| "do_call v (CStat p) = void (v_stat v p)"
| "do_call v (CReadDir t p) = void (v_read_dir v t p)"
| "do_call v (CExists p) = void (v_exists v p)"
| "do_call v (CReadLink p) = void (v_read_link v p)"
| "do_call v CSnapshot = (\<lambda>w. (Ok (), snd (v_vfs_snapshot v w)))"
| "do_call v (CWriteFile t p c) = v_write_file v t p c"
| "do_call v (CAppendFile t p c) = v_append_file v t p c"
| "do_call v (CMkdir t p r) = v_mkdir v t p r"
| "do_call v (CRemove t p r) = v_remove v t p r"
| "do_call v (CRename t p q) = v_rename v t p q"
| "do_call v (CCopy t p q) = v_copy v t p q"
| "do_call v (CSymlink t target link) = v_symlink v t target link"
| "do_call v (CChmod t p m) = v_chmod v t p m"
| "do_call v (CSetModified t p tm) = v_set_modified_time v t p tm"
| "do_call v (CMkfifo t p m) = v_mkfifo v t p m"
| "do_call v (CRestore t s) = v_vfs_restore v t s"

fun reads :: "fs_call \<Rightarrow> bool" where
  "reads (CReadFile p) = True"
| "reads (CStat p) = True"
| "reads (CReadDir t p) = True"
| "reads (CExists p) = True"
| "reads (CReadLink p) = True"
| "reads CSnapshot = True"
| "reads _ = False"

text \<open>The state after a sequence of calls, and the results.\<close>

fun do_calls :: "'w fs_dyn \<Rightarrow> fs_call list \<Rightarrow> 'w \<Rightarrow> 'w" where
  "do_calls v [] w = w"
| "do_calls v (c # cs) w = do_calls v cs (snd (do_call v c w))"

section \<open>Reading changes nothing that can be seen\<close>

text \<open>
  A relation \<open>keeps\<close> on states that an observer cannot tell apart, or that differ only where they
  may, is reflexive and transitive; then a sequence of operations keeps it when each of them does.
\<close>

definition io_keeps :: "('w \<Rightarrow> 'w \<Rightarrow> bool) \<Rightarrow> ('a, 'w) fs_io \<Rightarrow> bool" where
  "io_keeps keeps m \<longleftrightarrow> (\<forall>w. keeps w (snd (m w)))"

locale unseen =
  fixes keeps :: "'w \<Rightarrow> 'w \<Rightarrow> bool"
  assumes keeps_refl: "keeps w w"
    and keeps_trans: "keeps w1 w2 \<Longrightarrow> keeps w2 w3 \<Longrightarrow> keeps w1 w3"
begin

lemma keeps_bind:
  assumes "io_keeps keeps m" and "\<And>a. io_keeps keeps (k a)"
  shows "io_keeps keeps (io_bind m k)"
  unfolding io_keeps_def
proof
  fix w
  obtain r w' where m: "m w = (r, w')" by (rule prod.exhaust)
  have first: "keeps w w'" using assms(1) m by (metis io_keeps_def snd_conv)
  show "keeps w (snd (io_bind m k w))"
  proof (cases r)
    case (Inr a)
    have "keeps w' (snd (k a w'))" using assms(2) by (simp add: io_keeps_def)
    then show ?thesis using first keeps_trans Inr m by (simp add: io_bind_def)
  qed (use first m in \<open>simp add: io_bind_def\<close>)
qed

lemma keeps_try: "io_keeps keeps m \<Longrightarrow> io_keeps keeps (io_try m)"
  by (simp add: io_keeps_def io_try_def split_beta)

lemma keeps_pure: "io_keeps keeps (io_return a)" "io_keeps keeps (io_fail e)" "io_keeps keeps (from_res r)"
  by (simp_all add: io_keeps_def io_return_def io_fail_def from_res_def keeps_refl)

lemma keeps_calls:
  "(\<And>c. c \<in> set cs \<Longrightarrow> io_keeps keeps (do_call v c)) \<Longrightarrow> keeps w (do_calls v cs w)"
proof (induction cs arbitrary: w)
  case (Cons c cs)
  have "keeps w (snd (do_call v c w))" using Cons.prems by (simp add: io_keeps_def)
  moreover have "keeps (snd (do_call v c w)) (do_calls v cs (snd (do_call v c w)))" using Cons by simp
  ultimately show ?case using keeps_trans by simp
qed (simp add: keeps_refl)

end

text \<open>The contract a layer that only reads relies on: a reading call may load a lazy file, no more.\<close>

locale reading = unseen keeps for keeps :: "'w \<Rightarrow> 'w \<Rightarrow> bool" +
  fixes v :: "'w fs_dyn"
  assumes read_keeps: "reads c \<Longrightarrow> io_keeps keeps (do_call v c)"

text \<open>For \<open>InMemoryFs\<close>: the same limits and, at every path, the same entry or the lazy file loaded.\<close>

definition same_contents :: "mem_fs \<Rightarrow> mem_fs \<Rightarrow> bool" where
  "same_contents fs fs' \<longleftrightarrow> limits fs' = limits fs \<and>
     (\<forall>p. entry_loaded (map_of (entries fs) p) (map_of (entries fs') p))"

definition same_world :: "fs_world \<Rightarrow> fs_world \<Rightarrow> bool" where
  "same_world w w' \<longleftrightarrow> (\<forall>i. same_contents (w i) (w' i))"

lemma same_contents_refl [simp]: "same_contents fs fs"
  by (simp add: same_contents_def)

lemma same_contents_trans: "same_contents a b \<Longrightarrow> same_contents b c \<Longrightarrow> same_contents a c"
  unfolding same_contents_def using entry_loaded_trans by metis

lemma same_world_refl [simp]: "same_world w w"
  by (simp add: same_world_def)

lemma same_world_trans: "same_world a b \<Longrightarrow> same_world b c \<Longrightarrow> same_world a c"
  unfolding same_world_def using same_contents_trans by blast

lemma read_file_same: "same_contents fs (snd (read_file rnd p fs))"
proof -
  have "entry_loaded (map_of (entries fs) q) (map_of es q) \<and> True"
    if "map_of (entries fs) k = Some (LazyFile loader m)" "materialize l k loader m (entries fs) = (r, es)" for l k loader m r es q
    using materialize_loaded [OF that(1), of q l] that(2) by simp
  then show ?thesis
    by (auto simp: read_file_def on_path_def same_contents_def split: sum.splits option.splits fs_entry.splits prod.splits)
qed

lemma snapshot_same: "same_contents fs (snd (snapshot fs))"
proof -
  have step: "entry_loaded (map_of es q) (map_of (materialize_path l es p) q)" for l es p q
    by (auto simp: materialize_path_def materialize_loaded split: option.split fs_entry.split)
  have "entry_loaded (map_of es q) (map_of (foldl (materialize_path l) es ps) q)" for l es ps q
  proof (induction ps arbitrary: es)
    case (Cons p ps)
    then show ?case using step entry_loaded_trans by simp blast
  qed simp
  then show ?thesis by (simp add: snapshot_def Let_def same_contents_def)
qed

lemma lookup_same:
  "snd (stat p fs) = fs" "snd (read_dir p fs) = fs" "snd (path_exists p fs) = fs" "snd (read_link p fs) = fs"
  by (auto simp: stat_def read_dir_def path_exists_def read_link_def on_path_def
      split: sum.splits option.splits fs_entry.splits)

lemma on_fs_same: "same_contents (w i) (snd (f (w i))) \<Longrightarrow> same_world w (snd (on_fs i f w))"
  by (auto simp: same_world_def on_fs_def split: prod.splits)

lemma snd_void [simp]: "snd (void m w) = snd (m w)"
  by (auto simp: void_def split: prod.splits sum.splits)

interpretation mem_reading: reading same_world "mem_dyn i rnd"
proof unfold_locales
  fix c :: fs_call
  assume "reads c"
  then show "io_keeps same_world (do_call (mem_dyn i rnd) c)"
    by (cases c) (auto simp: io_keeps_def mem_dyn_def split_beta intro!: on_fs_same read_file_same snapshot_same,
      simp_all add: lookup_same)
qed (auto intro: same_world_trans)

section \<open>What a read-only wrapper lets through\<close>

lemma readonly_call:
  "do_call (readonly_dyn addr v) c w = (if reads c then do_call v c w else (Err PermissionDenied, w))"
  by (cases c) (simp_all add: readonly_dyn_def io_fail_def readonly_error_def)

lemma readonly_calls: "do_calls (readonly_dyn addr v) cs w = do_calls v (filter reads cs) w"
  by (induction cs arbitrary: w) (simp_all add: readonly_call)

text \<open>A wrapped filesystem keeps the contract, whatever is called on the wrapper.\<close>

context reading begin

lemma readonly_keeps: "io_keeps keeps (do_call (readonly_dyn addr v) c)"
  using read_keeps keeps_refl by (cases "reads c") (simp_all add: io_keeps_def readonly_call)

lemma readonly_calls_keep: "keeps w (do_calls (readonly_dyn addr v) cs w)"
  by (rule keeps_calls) (rule readonly_keeps)

end

text \<open>
  A session on a read-only wrapper cannot change what the wrapped filesystem holds.
  Each mutating call fails with a permission error and leaves the state alone, and after any
  sequence of calls every in-memory filesystem of the host has the limits it had and, at every
  path, the entry it had; only lazy files that were read may have been loaded.
\<close>

theorem readonly_wrapper_is_safe:
  "do_call (readonly_dyn addr (mem_dyn i rnd)) c w =
     (if reads c then do_call (mem_dyn i rnd) c w else (Err PermissionDenied, w)) \<and>
   same_world w (do_calls (readonly_dyn addr (mem_dyn i rnd)) cs w)"
  by (intro conjI readonly_call mem_reading.readonly_calls_keep)

end
