(* ===== verification/FsRoots.thy ===== *)
theory FsRoots
  imports FsDyn
begin

text \<open>
  What a filesystem owes a layer that confines its users to subtrees: an operation on paths below a
  set of roots leaves every entry outside of them as it was. The law is the locale \<open>rooted\<close>, and
  \<open>InMemoryFs\<close> satisfies it.
\<close>

section \<open>Below a root\<close>

definition below :: "path_key set \<Rightarrow> path_key \<Rightarrow> bool" where
  "below R p \<longleftrightarrow> (\<exists>r \<in> R. path_starts_with p r)"

definition above :: "path_key set \<Rightarrow> path_key \<Rightarrow> bool" where
  "above R p \<longleftrightarrow> (\<exists>r \<in> R. path_starts_with r p)"

text \<open>
  Outside the roots no entry is lost or altered, beyond the loading of lazy files, and no new one
  appears except directories on the way down to a root.
\<close>

definition kept :: "path_key set \<Rightarrow> fs_entries \<Rightarrow> fs_entries \<Rightarrow> bool" where
  "kept R es es' \<longleftrightarrow>
     (\<forall>p. \<not> below R p \<longrightarrow>
        (map_of es p = None \<longrightarrow> map_of es' p = None \<or> above R p \<and> (\<exists>m. map_of es' p = Some (Directory m))) \<and>
        (map_of es p \<noteq> None \<longrightarrow> entry_loaded (map_of es p) (map_of es' p)))"

lemma kept_refl [simp]: "kept R es es"
  by (simp add: kept_def)

lemma entry_loaded_Some: "entry_loaded (Some e) e' \<Longrightarrow> e' \<noteq> None"
  by (auto simp: entry_loaded_def)

lemma kept_trans: "kept R a b \<Longrightarrow> kept R b c \<Longrightarrow> kept R a c"
proof -
  assume ab: "kept R a b" and bc: "kept R b c"
  have dir: "e' = Some (Directory m)" if "entry_loaded (Some (Directory m)) e'" for m e'
    using that by (auto simp: entry_loaded_def)
  show "kept R a c"
    unfolding kept_def
  proof (intro allI impI conjI)
    fix p assume p: "\<not> below R p"
    show "map_of c p = None \<or> above R p \<and> (\<exists>m. map_of c p = Some (Directory m))" if "map_of a p = None"
      using ab bc p that dir unfolding kept_def by (metis option.distinct(1))
    show "entry_loaded (map_of a p) (map_of c p)" if "map_of a p \<noteq> None"
      using ab bc p that unfolding kept_def by (metis entry_loaded_Some entry_loaded_trans not_None_eq)
  qed
qed

lemma kept_loaded: "(\<And>p. entry_loaded (map_of es p) (map_of es' p)) \<Longrightarrow> kept R es es'"
  unfolding kept_def entry_loaded_def by (metis option.distinct(1))

lemma kept_off:
  "(\<And>p. \<not> below R p \<Longrightarrow> map_of es' p = map_of es p) \<Longrightarrow> kept R es es'"
  by (auto simp: kept_def)

lemma kept_update: "below R p \<Longrightarrow> kept R es (AList.update p e es)"
  by (rule kept_off) (auto simp: update_conv')

lemma kept_delete: "below R p \<Longrightarrow> kept R es (AList.delete p es)"
  by (rule kept_off) (auto simp: delete_conv')

lemma below_subtree: "below R p \<Longrightarrow> path_starts_with q p \<Longrightarrow> below R q"
  by (auto simp: below_def path_starts_with_def intro: prefix_order.trans)

lemma kept_filter_subtree:
  assumes "below R p"
  shows "kept R es (filter (\<lambda>pe. \<not> path_starts_with (fst pe) p) es)"
proof (rule kept_off)
  fix q assume "\<not> below R q"
  then have "\<not> path_starts_with q p" using assms below_subtree by blast
  then show "map_of (filter (\<lambda>pe. \<not> path_starts_with (fst pe) p) es) q = map_of es q"
    by (induction es) auto
qed

lemma kept_foldl_update:
  assumes "list_all (\<lambda>(k, v). below R k) ms"
  shows "kept R es (foldl (\<lambda>acc (k, v). AList.update k v acc) es ms)"
  using assms
proof (induction ms arbitrary: es)
  case (Cons kv ms)
  obtain k v where kv: "kv = (k, v)" by (rule prod.exhaust)
  then have "below R k" "list_all (\<lambda>(k, v). below R k) ms" using Cons.prems by simp_all
  then show ?case using kept_trans [OF kept_update Cons.IH] by (simp add: kv)
qed simp

lemma moved_below: "below R q \<Longrightarrow> list_all (\<lambda>(k, v). below R k) (moved_entries p q es)"
  by (auto simp: moved_entries_def list_all_iff path_starts_with_def intro: below_subtree)

lemma kept_rename_tree:
  assumes "below R p" and "below R q"
  shows "kept R es (foldl (\<lambda>acc (k, v). AList.update k v acc)
           (filter (\<lambda>(k, _). \<not> path_starts_with k p) es) (moved_entries p q es))"
proof -
  have "filter (\<lambda>(k, _). \<not> path_starts_with k p) es = filter (\<lambda>pe. \<not> path_starts_with (fst pe) p) es"
    by (simp add: case_prod_beta')
  then show ?thesis
    using kept_trans [OF kept_filter_subtree [OF assms(1)] kept_foldl_update [OF moved_below [OF assms(2)]]]
    by metis
qed

text \<open>Creating the directories on the way to a path below a root.\<close>

lemma kept_new: "above R p \<or> below R p \<Longrightarrow> map_of es p = None \<Longrightarrow> kept R es (AList.update p (Directory m) es)"
  by (auto simp: kept_def update_conv')

lemma on_the_way: "below R p \<Longrightarrow> path_starts_with p q \<Longrightarrow> above R q \<or> below R q"
  unfolding below_def above_def path_starts_with_def using prefix_same_cases by blast

lemma kept_mkdir_loop:
  "below R (cur @ cs) \<Longrightarrow> kept R es (snd (mkdir_loop l t cur cs es))"
proof (induction l t cur cs es rule: mkdir_loop.induct)
  case (2 l t cur c cs es)
  have "above R (cur @ [c]) \<or> below R (cur @ [c])"
    by (rule on_the_way [OF 2(3)]) (simp add: path_starts_with_def)
  then have new: "map_of es (cur @ [c]) = None \<Longrightarrow> kept R es (AList.update (cur @ [c]) (new_directory MODE_755 t) es)"
    unfolding new_directory_def by (rule kept_new)
  show ?case
    using 2 new kept_trans by (auto simp: Let_def split: option.split sum.split)
qed simp

section \<open>The operations of \<open>InMemoryFs\<close>\<close>

definition fs_kept :: "path_key set \<Rightarrow> mem_fs \<Rightarrow> mem_fs \<Rightarrow> bool" where
  "fs_kept R fs fs' \<longleftrightarrow> limits fs' = limits fs \<and> kept R (entries fs) (entries fs')"

lemma fs_kept_refl [simp]: "fs_kept R fs fs"
  by (simp add: fs_kept_def)

lemma fs_kept_trans: "fs_kept R a b \<Longrightarrow> fs_kept R b c \<Longrightarrow> fs_kept R a c"
  using kept_trans by (auto simp: fs_kept_def)

lemma fs_kept_same: "same_contents fs fs' \<Longrightarrow> fs_kept R fs fs'"
  by (auto simp: same_contents_def fs_kept_def intro: kept_loaded)

lemma fs_kept_entries: "kept R (entries fs) es \<Longrightarrow> fs_kept R fs (fs\<lparr>entries := es\<rparr>)"
  by (simp add: fs_kept_def)

definition names_below :: "path_key set \<Rightarrow> rstr \<Rightarrow> bool" where
  "names_below R p \<longleftrightarrow> below R (components (normalize_path p))"

lemma on_path_kept:
  "(\<And>q. q = components (normalize_path p) \<Longrightarrow> fs_kept R fs (snd (k q))) \<Longrightarrow> fs_kept R fs (snd (on_path p fs k))"
  by (auto simp: on_path_def split: sum.split)

lemma kept_materialize:
  "map_of es p = Some (LazyFile loader m) \<Longrightarrow> kept R es (snd (materialize l p loader m es))"
  by (rule kept_loaded) (rule materialize_loaded)

lemma kept_append_loaded: "below R p \<Longrightarrow> kept R es (snd (append_loaded t l p c es))"
  by (auto simp: append_loaded_def Let_def kept_update split: sum.split option.split fs_entry.split)

lemma kept_materialize_append:
  "map_of es p = Some (LazyFile loader m) \<Longrightarrow> below R p \<Longrightarrow>
   kept R es (snd (append_loaded t l p c (snd (materialize l p loader m es))))"
  using kept_trans [OF kept_materialize kept_append_loaded] by blast

lemmas kept_intros = fs_kept_entries kept_update kept_delete kept_append_loaded kept_materialize kept_materialize_append

lemma write_file_kept: "names_below R p \<Longrightarrow> fs_kept R fs (snd (write_file t p c fs))"
  unfolding write_file_def names_below_def
  by (rule on_path_kept) (auto intro!: fs_kept_entries kept_update split: sum.split option.split fs_entry.split)

lemma append_file_kept: "names_below R p \<Longrightarrow> fs_kept R fs (snd (append_file t p c fs))"
  unfolding append_file_def names_below_def
  by (rule on_path_kept)
    (auto intro!: kept_intros simp: Let_def split_beta split: sum.split option.split fs_entry.split)

lemma mkdir_kept: "names_below R p \<Longrightarrow> fs_kept R fs (snd (mkdir t p r fs))"
  unfolding mkdir_def names_below_def
proof (rule on_path_kept)
  fix q assume b: "below R (components (normalize_path p))" and q: "q = components (normalize_path p)"
  have root: "[RootDir] @ drop 1 q = q" using normal_key_root normal_key_normalize q by blast
  then have "kept R (entries fs) (snd (mkdir_loop (limits fs) t [RootDir] (drop 1 q) (entries fs)))"
    using kept_mkdir_loop [of R "[RootDir]" "drop 1 q"] b q by simp
  then show "fs_kept R fs (snd (if r
      then let (r, es) = mkdir_loop (limits fs) t [RootDir] (drop 1 q) (entries fs) in (r, fs\<lparr>entries := es\<rparr>)
      else if parent_missing (entries fs) q then (Err ParentNotFound, fs)
      else if contains_key (entries fs) q then (Err DirectoryExists, fs)
      else case map_err LimitErr (check_dir_count (limits fs) (count_directories (entries fs))) of
             Inl err \<Rightarrow> (Err err, fs)
           | Inr _ \<Rightarrow> (Ok (), fs\<lparr>entries := AList.update q (new_directory MODE_755 t) (entries fs)\<rparr>)))"
    using b q by (auto intro!: kept_intros simp: split_beta split: sum.split)
qed

lemma remove_kept: "names_below R p \<Longrightarrow> fs_kept R fs (snd (remove p r fs))"
  unfolding remove_def names_below_def
  by (rule on_path_kept) (auto intro!: kept_intros kept_filter_subtree split: option.split)

lemma rename_kept: "names_below R p \<Longrightarrow> names_below R q \<Longrightarrow> fs_kept R fs (snd (rename p q fs))"
  unfolding rename_def names_below_def
  by (rule on_path_kept, rule on_path_kept)
    (auto intro!: fs_kept_entries kept_rename_tree kept_trans [OF kept_delete kept_update] simp: Let_def split: option.split)

lemma copy_kept: "names_below R q \<Longrightarrow> fs_kept R fs (snd (copy p q fs))"
  unfolding copy_def names_below_def
  by (rule on_path_kept, rule on_path_kept)
    (auto intro!: kept_intros simp: Let_def split: option.split sum.split)

lemma symlink_kept: "names_below R link \<Longrightarrow> fs_kept R fs (snd (symlink t target link fs))"
  unfolding symlink_def names_below_def
  by (rule on_path_kept) (auto intro!: kept_intros simp: Let_def split: sum.split)

lemma metadata_kept:
  "names_below R p \<Longrightarrow> fs_kept R fs (snd (chmod p m fs))"
  "names_below R p \<Longrightarrow> fs_kept R fs (snd (set_modified_time p t fs))"
  unfolding chmod_def set_modified_time_def names_below_def
  by (rule on_path_kept, auto intro!: kept_intros split: option.split)+

lemma mkfifo_kept: "names_below R p \<Longrightarrow> fs_kept R fs (snd (mkfifo t p m fs))"
  unfolding mkfifo_def names_below_def
  by (rule on_path_kept) (auto intro!: kept_intros split: sum.split)

section \<open>The contract\<close>

text \<open>The paths a call may write to. Restoring a snapshot writes everywhere, so no set of roots allows it.\<close>

fun targets :: "fs_call \<Rightarrow> rstr list" where
  "targets (CWriteFile t p c) = [p]"
| "targets (CAppendFile t p c) = [p]"
| "targets (CMkdir t p r) = [p]"
| "targets (CRemove t p r) = [p]"
| "targets (CRename t p q) = [p, q]"
| "targets (CCopy t p q) = [q]"
| "targets (CSymlink t target link) = [link]"
| "targets (CChmod t p m) = [p]"
| "targets (CSetModified t p tm) = [p]"
| "targets (CMkfifo t p m) = [p]"
| "targets _ = []"

fun restores :: "fs_call \<Rightarrow> bool" where
  "restores (CRestore t s) = True"
| "restores _ = False"

locale rooted = reading keeps v for keeps :: "'w \<Rightarrow> 'w \<Rightarrow> bool" and v :: "'w fs_dyn" +
  fixes allowed :: "rstr \<Rightarrow> bool"
  assumes call_keeps: "\<not> restores c \<Longrightarrow> list_all allowed (targets c) \<Longrightarrow> io_keeps keeps (do_call v c)"

definition world_kept :: "(nat \<Rightarrow> path_key set) \<Rightarrow> fs_world \<Rightarrow> fs_world \<Rightarrow> bool" where
  "world_kept R w w' \<longleftrightarrow> (\<forall>i. fs_kept (R i) (w i) (w' i))"

lemma on_fs_kept: "fs_kept (R i) (w i) (snd (f (w i))) \<Longrightarrow> world_kept R w (snd (on_fs i f w))"
  by (auto simp: world_kept_def on_fs_def split: prod.splits)

lemma same_world_kept: "same_world w w' \<Longrightarrow> world_kept R w w'"
  by (simp add: same_world_def world_kept_def fs_kept_same)

interpretation mem_rooted: rooted "world_kept R" "mem_dyn i rnd" "names_below (R i)"
proof unfold_locales
  fix c :: fs_call
  show read: "reads c \<Longrightarrow> io_keeps (world_kept R) (do_call (mem_dyn i rnd) c)"
    using mem_reading.read_keeps [of c i rnd] same_world_kept by (auto simp: io_keeps_def)
  show "\<not> restores c \<Longrightarrow> list_all (names_below (R i)) (targets c) \<Longrightarrow> io_keeps (world_kept R) (do_call (mem_dyn i rnd) c)"
    using read
    by (cases c) (auto simp: io_keeps_def mem_dyn_def
        intro!: on_fs_kept write_file_kept append_file_kept mkdir_kept remove_kept rename_kept copy_kept symlink_kept
          metadata_kept mkfifo_kept)
next
  show "world_kept R w w" for w by (simp add: world_kept_def)
  show "world_kept R w1 w2 \<Longrightarrow> world_kept R w2 w3 \<Longrightarrow> world_kept R w1 w3" for w1 w2 w3
    unfolding world_kept_def using fs_kept_trans by blast
qed

text \<open>A read-only wrapper satisfies it whatever paths are called allowed.\<close>

context reading begin

lemma readonly_rooted: "rooted keeps (readonly_dyn addr v) allowed"
  by unfold_locales (rule readonly_keeps)+

end

end
