(* ===== verification/PathText.thy ===== *)
theory PathText
  imports FsSnapshot
begin

text \<open>
  Paths as text: \<open>Path::join\<close>, \<open>strip_prefix\<close> and \<open>parent\<close> as the layered filesystems use them on
  normalised paths, and how they act on the segments.
\<close>

definition path_join :: "rstr \<Rightarrow> rstr \<Rightarrow> rstr" where
  "path_join base p =
     (if starts_with p (lit ''/'') then p
      else if base = [] \<or> last base = 47 then base @ p
      else base @ 47 # p)"

text \<open>What \<open>strip_prefix\<close> leaves of a normalised path, and its parent.\<close>

definition strip_path_prefix :: "rstr \<Rightarrow> rstr \<Rightarrow> rstr option" where
  "strip_path_prefix path base =
     (if path_starts_with (components path) (components base)
      then Some (join_slash (map component_string (drop (length (components base)) (components path))))
      else None)"

definition parent_path :: "rstr \<Rightarrow> rstr option" where
  "parent_path path = map_option path_string (parent (components path))"

text \<open>The loop over \<open>parent\<close>.\<close>

function ancestors :: "path_key \<Rightarrow> path_key list" where
  "ancestors k = (case parent k of None \<Rightarrow> [] | Some p \<Rightarrow> p # ancestors p)"
  by auto
termination
  by (relation "measure length") (auto simp: parent_def split: if_splits)

declare ancestors.simps [simp del]

section \<open>Absolute paths and their segments\<close>

definition abs_text :: "rstr list \<Rightarrow> rstr" where
  "abs_text ss = (if ss = [] then lit ''/'' else 47 # join_slash ss)"

lemma normalize_path_text: "normalize_path p = abs_text (normal_segments p)"
  by (simp add: abs_text_def normalize_path_def normal_segments_def Let_def)

lemma components_abs_text: "list_all proper_segment ss \<Longrightarrow> components (abs_text ss) = RootDir # map Normal ss"
  using components_join [of ss] by (simp add: abs_text_def list_all_iff)

lemma segments_abs_text [simp]: "list_all proper_segment ss \<Longrightarrow> normal_segments (abs_text ss) = ss"
  by (simp add: normal_segments_def components_abs_text foldl_normalize_Normal)

lemma normalize_abs_text [simp]: "list_all proper_segment ss \<Longrightarrow> normalize_path (abs_text ss) = abs_text ss"
  by (simp add: normalize_path_text)

lemma component_string_Normal: "map component_string (map Normal ss) = ss"
  by (induction ss) (simp_all add: component_string_def)

lemma path_string_abs: "path_string (RootDir # map Normal ss) = abs_text ss"
  using component_string_Normal [of ss]
  by (cases ss) (simp_all add: path_string_def abs_text_def component_string_def)

lemma join_slash_append: "rs \<noteq> [] \<Longrightarrow> ss \<noteq> [] \<Longrightarrow> join_slash (rs @ ss) = join_slash rs @ 47 # join_slash ss"
proof (induction rs rule: join_slash.induct)
  case (2 s)
  then show ?case by (cases ss) auto
qed auto

lemma join_slash_not_Nil: "list_all proper_segment ss \<Longrightarrow> ss \<noteq> [] \<Longrightarrow> join_slash ss \<noteq> []"
  by (induction ss rule: join_slash.induct) (auto simp: proper_segment_def)

lemma join_slash_last: "list_all proper_segment ss \<Longrightarrow> ss \<noteq> [] \<Longrightarrow> last (join_slash ss) \<noteq> 47"
proof (induction ss rule: join_slash.induct)
  case (2 s)
  then show ?case by (cases s rule: rev_cases) (auto simp: proper_segment_def)
next
  case (3 s s' ss)
  then show ?case using join_slash_not_Nil [of "s' # ss"] by auto
qed simp

lemma join_slash_hd: "list_all proper_segment ss \<Longrightarrow> ss \<noteq> [] \<Longrightarrow> \<not> starts_with (join_slash ss) (lit ''/'')"
  by (induction ss rule: join_slash.induct)
    (auto simp: proper_segment_def starts_with_def lit_def neq_Nil_conv)

lemma path_join_text:
  assumes "list_all proper_segment rs" and "list_all proper_segment ss" and "ss \<noteq> []"
  shows "path_join (abs_text rs) (join_slash ss) = abs_text (rs @ ss)"
  using assms join_slash_hd [OF assms(2,3)] join_slash_last [OF assms(1)] join_slash_append [OF _ assms(3), of rs]
    join_slash_not_Nil [OF assms(1)]
  by (cases "rs = []") (simp_all add: path_join_def abs_text_def, simp_all add: lit_def)

lemma path_join_name:
  "list_all proper_segment rs \<Longrightarrow> proper_segment n \<Longrightarrow> path_join (abs_text rs) n = abs_text (rs @ [n])"
  using path_join_text [of rs "[n]"] by simp

lemma prefix_map_Normal: "prefix (map Normal rs) (map Normal ss) \<longleftrightarrow> prefix rs ss"
proof (induction rs arbitrary: ss)
  case (Cons r rs)
  then show ?case by (cases ss) auto
qed simp

lemma strip_prefix_text:
  assumes "list_all proper_segment rs" and "list_all proper_segment ss"
  shows "strip_path_prefix (abs_text ss) (abs_text rs) =
    (if prefix rs ss then Some (join_slash (drop (length rs) ss)) else None)"
proof -
  have "prefix (map Normal rs) (map Normal ss) \<longleftrightarrow> prefix rs ss"
    by (rule prefix_map_Normal)
  moreover have "map component_string (drop (length rs) (map Normal ss)) = drop (length rs) ss"
    using component_string_Normal [of "drop (length rs) ss"] by (simp only: drop_map)
  ultimately show ?thesis
    using assms by (simp add: strip_path_prefix_def path_starts_with_def components_abs_text)
qed

lemma parent_path_text:
  assumes "list_all proper_segment ss"
  shows "parent_path (abs_text ss) = (if ss = [] then None else Some (abs_text (butlast ss)))"
proof (cases ss rule: rev_cases)
  case (snoc rs n)
  then have "parent (components (abs_text ss)) = Some (RootDir # map Normal rs)"
    using assms by (simp add: components_abs_text parent_def)
  then show ?thesis using snoc by (simp add: parent_path_def path_string_abs)
qed (use assms in \<open>simp add: parent_path_def components_abs_text parent_def\<close>)

lemma ancestors_normal:
  "q \<in> set (ancestors (RootDir # map Normal ss)) \<longleftrightarrow> (\<exists>rs. strict_prefix rs ss \<and> q = RootDir # map Normal rs)"
proof (induction ss rule: rev_induct)
  case Nil
  then show ?case by (simp add: ancestors.simps parent_def)
next
  case (snoc n ss)
  have "ancestors (RootDir # map Normal (ss @ [n])) = (RootDir # map Normal ss) # ancestors (RootDir # map Normal ss)"
    by (subst ancestors.simps) (simp add: parent_def butlast_append)
  moreover have "strict_prefix rs (ss @ [n]) \<longleftrightarrow> rs = ss \<or> strict_prefix rs ss" for rs
    unfolding strict_prefix_def prefix_snoc using prefix_length_le by fastforce
  ultimately show ?case using snoc by auto
qed

end
