(* ===== verification/Namespace.thy ===== *)
theory Namespace
  imports FsRoots PathText "HOL-Library.List_Lexorder"
begin

text \<open>
  \<open>NamespaceFs\<close> of \<open>bashkit/src/fs/namespace.rs\<close>: one path tree composed from subtrees of other
  filesystems, fixed once it is built. A path is normalised, the mount with the longest target above
  it is chosen, and the rest of the path is put below the source root of that mount. Directories
  above the targets are synthetic. The one clock reading of \<open>build\<close> is its argument.
\<close>

section \<open>Building a namespace\<close>

datatype namespace_access = ReadOnly | ReadWrite

record 'w namespace_mount =
  nm_target :: rstr
  nm_source_root :: rstr
  nm_fs :: "'w fs_dyn"
  nm_access :: namespace_access

record 'w pending_mount =
  pm_source_root :: rstr
  pm_fs :: "'w fs_dyn"
  pm_access :: namespace_access

type_synonym 'w namespace_builder = "(rstr \<times> 'w pending_mount) list"

record 'w namespace_fs =
  ns_mounts :: "'w namespace_mount list"
  ns_synthetic_dirs :: "path_key list"
  ns_synthetic_metadata :: metadata
  ns_limits :: fs_limits

definition validate_mount_path :: "rstr \<Rightarrow> fs_error + rstr" where
  "validate_mount_path path =
     (if \<not> starts_with path (lit ''/'') then Err InvalidPath
      else case validate_path default_fs_limits path of
        Inl e \<Rightarrow> Err (LimitErr e)
      | Inr _ \<Rightarrow> Ok (normalize_path path))"

definition mount_from ::
  "nat \<Rightarrow> rstr \<Rightarrow> 'w fs_dyn \<Rightarrow> rstr \<Rightarrow> namespace_access \<Rightarrow> 'w namespace_builder \<Rightarrow>
   fs_error + 'w namespace_builder" where
  "mount_from addr target fs source_root access b =
     res_bind (validate_mount_path target) (\<lambda>target.
     res_bind (validate_mount_path source_root) (\<lambda>source_root.
     let fs = (case access of ReadOnly \<Rightarrow> readonly_dyn addr fs | ReadWrite \<Rightarrow> fs)
     in Ok (AList.update target \<lparr>pm_source_root = source_root, pm_fs = fs, pm_access = access\<rparr> b)))"

definition mount :: "nat \<Rightarrow> rstr \<Rightarrow> 'w fs_dyn \<Rightarrow> namespace_access \<Rightarrow> 'w namespace_builder \<Rightarrow>
   fs_error + 'w namespace_builder" where
  "mount addr target fs access b = mount_from addr target fs (lit ''/'') access b"

definition mount_readonly where
  "mount_readonly addr target fs b = mount addr target fs ReadOnly b"

definition mount_readonly_from where
  "mount_readonly_from addr target fs source_root b = mount_from addr target fs source_root ReadOnly b"

definition mount_readwrite where
  "mount_readwrite addr target fs b = mount addr target fs ReadWrite b"

definition mount_readwrite_from where
  "mount_readwrite_from addr target fs source_root b = mount_from addr target fs source_root ReadWrite b"

definition build :: "system_time \<Rightarrow> 'w namespace_builder \<Rightarrow> 'w namespace_fs" where
  "build t b =
     \<lparr>ns_mounts = map (\<lambda>(target, p). \<lparr>nm_target = target, nm_source_root = pm_source_root p,
                                       nm_fs = pm_fs p, nm_access = pm_access p\<rparr>) b,
      ns_synthetic_dirs = [RootDir] # concat (map (\<lambda>(target, _). ancestors (components target)) b),
      ns_synthetic_metadata = new_metadata FtDirectory 0 MODE_755 t,
      ns_limits = default_fs_limits\<rparr>"

section \<open>Resolving paths\<close>

record 'w resolved_path =
  rp_index :: nat
  rp_mount :: "'w namespace_mount"
  rp_source_path :: rstr

definition normalized :: "'w namespace_fs \<Rightarrow> rstr \<Rightarrow> fs_error + rstr" where
  "normalized ns path =
     (case validate_path (ns_limits ns) path of
        Inl e \<Rightarrow> Err (LimitErr e)
      | Inr _ \<Rightarrow> Ok (normalize_path path))"

text \<open>\<open>max_by_key\<close> over the mounts above the path: the last of the longest targets.\<close>

fun best_mount :: "path_key \<Rightarrow> nat \<Rightarrow> 'w namespace_mount list \<Rightarrow> (nat \<times> 'w namespace_mount) option \<Rightarrow>
    (nat \<times> 'w namespace_mount) option" where
  "best_mount path i [] best = best"
| "best_mount path i (m # ms) best =
     best_mount path (i + 1) ms
       (if path_starts_with path (components (nm_target m))
        then (case best of
                None \<Rightarrow> Some (i, m)
              | Some (_, b) \<Rightarrow>
                  if length (components (nm_target b)) \<le> length (components (nm_target m)) then Some (i, m) else best)
        else best)"

definition resolve :: "'w namespace_fs \<Rightarrow> rstr \<Rightarrow> 'w resolved_path option" where
  "resolve ns path =
     map_option (\<lambda>(i, m).
       let relative = (case strip_path_prefix path (nm_target m) of None \<Rightarrow> [] | Some r \<Rightarrow> r)
       in \<lparr>rp_index = i, rp_mount = m,
           rp_source_path = (if relative = [] then nm_source_root m else path_join (nm_source_root m) relative)\<rparr>)
     (best_mount (components path) 0 (ns_mounts ns) None)"

definition is_exact_mount :: "'w namespace_fs \<Rightarrow> rstr \<Rightarrow> bool" where
  "is_exact_mount ns path = list_ex (\<lambda>m. components (nm_target m) = components path) (ns_mounts ns)"

definition is_synthetic :: "'w namespace_fs \<Rightarrow> rstr \<Rightarrow> bool" where
  "is_synthetic ns path = (components path \<in> set (ns_synthetic_dirs ns) \<and> \<not> is_exact_mount ns path)"

definition is_namespace_node :: "'w namespace_fs \<Rightarrow> rstr \<Rightarrow> bool" where
  "is_namespace_node ns path = (components path \<in> set (ns_synthetic_dirs ns) \<or> is_exact_mount ns path)"

definition outside_read_error :: fs_error where
  "outside_read_error = NotFound"

definition outside_write_error :: fs_error where
  "outside_write_error = PermissionDenied"

definition cross_mount_error :: fs_error where
  "cross_mount_error = CrossesDevices"

definition require_writable :: "'w resolved_path \<Rightarrow> fs_error + unit" where
  "require_writable r = (if nm_access (rp_mount r) = ReadOnly then Err PermissionDenied else Ok ())"

definition ok_or :: "fs_error \<Rightarrow> 'a option \<Rightarrow> fs_error + 'a" where
  "ok_or e x = (case x of None \<Rightarrow> Err e | Some a \<Rightarrow> Ok a)"

text \<open>The children of a directory that are, or lead to, mount targets, in the order of the set.\<close>

definition child_mount_paths :: "'w namespace_fs \<Rightarrow> rstr \<Rightarrow> rstr list" where
  "child_mount_paths ns path =
     map (path_join path)
       (sort (remdups (concat (map (\<lambda>m.
          if path_starts_with (components (nm_target m)) (components path)
          then (case drop (length (components path)) (components (nm_target m)) of
                  Normal name # _ \<Rightarrow> [name] | _ \<Rightarrow> [])
          else []) (ns_mounts ns)))))"

definition resolve_writable :: "'w namespace_fs \<Rightarrow> rstr \<Rightarrow> fs_error + 'w resolved_path" where
  "resolve_writable ns path =
     res_bind (normalized ns path) (\<lambda>path.
     if is_synthetic ns path then Err outside_write_error
     else res_bind (ok_or outside_write_error (resolve ns path)) (\<lambda>r.
          res_bind (require_writable r) (\<lambda>_. Ok r)))"

section \<open>The operations\<close>

definition ns_read_file :: "'w namespace_fs \<Rightarrow> rstr \<Rightarrow> (bytes, 'w) fs_io" where
  "ns_read_file ns path =
     io_bind (from_res (normalized ns path)) (\<lambda>path.
     if is_synthetic ns path then io_fail IsADirectory
     else io_bind (from_res (ok_or outside_read_error (resolve ns path))) (\<lambda>r.
          v_read_file (nm_fs (rp_mount r)) (rp_source_path r)))"

text \<open>\<open>write_file\<close>, \<open>append_file\<close>, \<open>mkdir\<close>, \<open>symlink\<close>, \<open>chmod\<close>, \<open>set_modified_time\<close> and \<open>mkfifo\<close> have one shape.\<close>

definition on_writable :: "'w namespace_fs \<Rightarrow> rstr \<Rightarrow> ('w fs_dyn \<Rightarrow> rstr \<Rightarrow> ('a, 'w) fs_io) \<Rightarrow> ('a, 'w) fs_io" where
  "on_writable ns path op =
     io_bind (from_res (resolve_writable ns path)) (\<lambda>r. op (nm_fs (rp_mount r)) (rp_source_path r))"

definition ns_write_file :: "'w namespace_fs \<Rightarrow> system_time \<Rightarrow> rstr \<Rightarrow> bytes \<Rightarrow> (unit, 'w) fs_io" where
  "ns_write_file ns t path content = on_writable ns path (\<lambda>fs p. v_write_file fs t p content)"

definition ns_append_file :: "'w namespace_fs \<Rightarrow> system_time \<Rightarrow> rstr \<Rightarrow> bytes \<Rightarrow> (unit, 'w) fs_io" where
  "ns_append_file ns t path content = on_writable ns path (\<lambda>fs p. v_append_file fs t p content)"

definition ns_mkdir :: "'w namespace_fs \<Rightarrow> system_time \<Rightarrow> rstr \<Rightarrow> bool \<Rightarrow> (unit, 'w) fs_io" where
  "ns_mkdir ns t path recursive = on_writable ns path (\<lambda>fs p. v_mkdir fs t p recursive)"

definition ns_remove :: "'w namespace_fs \<Rightarrow> system_time \<Rightarrow> rstr \<Rightarrow> bool \<Rightarrow> (unit, 'w) fs_io" where
  "ns_remove ns t path recursive =
     io_bind (from_res (normalized ns path)) (\<lambda>path.
     if is_namespace_node ns path then io_fail outside_write_error
     else on_writable ns path (\<lambda>fs p. v_remove fs t p recursive))"

definition ns_stat :: "'w namespace_fs \<Rightarrow> rstr \<Rightarrow> (metadata, 'w) fs_io" where
  "ns_stat ns path =
     io_bind (from_res (normalized ns path)) (\<lambda>path.
     if is_synthetic ns path then io_return (ns_synthetic_metadata ns)
     else io_bind (from_res (ok_or outside_read_error (resolve ns path))) (\<lambda>r.
          v_stat (nm_fs (rp_mount r)) (rp_source_path r)))"

text \<open>The mount points below a directory replace its entries of the same name or are added.\<close>

fun put_entry :: "rstr \<Rightarrow> metadata \<Rightarrow> dir_entry list \<Rightarrow> dir_entry list" where
  "put_entry name m [] = [(name, m)]"
| "put_entry name m (e # es) = (if fst e = name then (fst e, m) # es else e # put_entry name m es)"

fun add_mount_entries :: "'w namespace_fs \<Rightarrow> rstr list \<Rightarrow> dir_entry list \<Rightarrow> (dir_entry list, 'w) fs_io" where
  "add_mount_entries ns [] es = io_return es"
| "add_mount_entries ns (child # children) es =
     io_bind (ns_stat ns child) (\<lambda>m.
       add_mount_entries ns children
         (put_entry (case file_name (components child) of None \<Rightarrow> [] | Some n \<Rightarrow> n) m es))"

definition ns_read_dir :: "'w namespace_fs \<Rightarrow> system_time \<Rightarrow> rstr \<Rightarrow> (dir_entry list, 'w) fs_io" where
  "ns_read_dir ns t path =
     io_bind (from_res (normalized ns path)) (\<lambda>path.
     io_bind (if is_synthetic ns path then io_return []
              else io_bind (from_res (ok_or outside_read_error (resolve ns path))) (\<lambda>r.
                   v_read_dir (nm_fs (rp_mount r)) t (rp_source_path r))) (\<lambda>es.
     io_bind (add_mount_entries ns (child_mount_paths ns path) es) (\<lambda>es.
     io_return (sort_key fst es))))"

definition ns_exists :: "'w namespace_fs \<Rightarrow> rstr \<Rightarrow> (bool, 'w) fs_io" where
  "ns_exists ns path =
     io_bind (from_res (normalized ns path)) (\<lambda>path.
     if is_synthetic ns path then io_return True
     else case resolve ns path of
       None \<Rightarrow> io_return False
     | Some r \<Rightarrow> v_exists (nm_fs (rp_mount r)) (rp_source_path r))"

definition ns_rename :: "'w namespace_fs \<Rightarrow> system_time \<Rightarrow> rstr \<Rightarrow> rstr \<Rightarrow> (unit, 'w) fs_io" where
  "ns_rename ns t src dst =
     io_bind (from_res (normalized ns src)) (\<lambda>src.
     io_bind (from_res (normalized ns dst)) (\<lambda>dst.
     if is_namespace_node ns src \<or> is_namespace_node ns dst then io_fail outside_write_error
     else io_bind (from_res (ok_or outside_write_error (resolve ns src))) (\<lambda>a.
          io_bind (from_res (ok_or outside_write_error (resolve ns dst))) (\<lambda>b.
          io_bind (from_res (require_writable a)) (\<lambda>_.
          io_bind (from_res (require_writable b)) (\<lambda>_.
          if rp_index a \<noteq> rp_index b then io_fail cross_mount_error
          else v_rename (nm_fs (rp_mount a)) t (rp_source_path a) (rp_source_path b)))))))"

definition ns_copy :: "'w namespace_fs \<Rightarrow> system_time \<Rightarrow> rstr \<Rightarrow> rstr \<Rightarrow> (unit, 'w) fs_io" where
  "ns_copy ns t src dst =
     io_bind (from_res (normalized ns src)) (\<lambda>src.
     io_bind (from_res (normalized ns dst)) (\<lambda>dst.
     if is_namespace_node ns dst then io_fail outside_write_error
     else if is_synthetic ns src then io_fail IsADirectory
     else io_bind (from_res (ok_or outside_read_error (resolve ns src))) (\<lambda>a.
          io_bind (from_res (ok_or outside_write_error (resolve ns dst))) (\<lambda>b.
          io_bind (from_res (require_writable b)) (\<lambda>_.
          if rp_index a = rp_index b then v_copy (nm_fs (rp_mount a)) t (rp_source_path a) (rp_source_path b)
          else io_bind (v_stat (nm_fs (rp_mount a)) (rp_source_path a)) (\<lambda>metadata.
               case file_type metadata of
                 FtFile \<Rightarrow> io_bind (v_read_file (nm_fs (rp_mount a)) (rp_source_path a)) (\<lambda>content.
                             v_write_file (nm_fs (rp_mount b)) t (rp_source_path b) content)
               | FtSymlink \<Rightarrow> io_bind (v_read_link (nm_fs (rp_mount a)) (rp_source_path a)) (\<lambda>target.
                             v_symlink (nm_fs (rp_mount b)) t target (rp_source_path b))
               | FtDirectory \<Rightarrow> io_fail NotSupported
               | FtFifo \<Rightarrow> io_fail NotSupported))))))"

definition ns_symlink :: "'w namespace_fs \<Rightarrow> system_time \<Rightarrow> rstr \<Rightarrow> rstr \<Rightarrow> (unit, 'w) fs_io" where
  "ns_symlink ns t target link = on_writable ns link (\<lambda>fs p. v_symlink fs t target p)"

definition ns_read_link :: "'w namespace_fs \<Rightarrow> rstr \<Rightarrow> (rstr, 'w) fs_io" where
  "ns_read_link ns path =
     io_bind (from_res (normalized ns path)) (\<lambda>path.
     if is_synthetic ns path then io_fail NotASymlink
     else io_bind (from_res (ok_or outside_read_error (resolve ns path))) (\<lambda>r.
          v_read_link (nm_fs (rp_mount r)) (rp_source_path r)))"

definition ns_chmod :: "'w namespace_fs \<Rightarrow> system_time \<Rightarrow> rstr \<Rightarrow> u32 \<Rightarrow> (unit, 'w) fs_io" where
  "ns_chmod ns t path m = on_writable ns path (\<lambda>fs p. v_chmod fs t p m)"

definition ns_set_modified_time :: "'w namespace_fs \<Rightarrow> system_time \<Rightarrow> rstr \<Rightarrow> system_time \<Rightarrow> (unit, 'w) fs_io" where
  "ns_set_modified_time ns now path t = on_writable ns path (\<lambda>fs p. v_set_modified_time fs now p t)"

definition ns_mkfifo :: "'w namespace_fs \<Rightarrow> system_time \<Rightarrow> rstr \<Rightarrow> u32 \<Rightarrow> (unit, 'w) fs_io" where
  "ns_mkfifo ns t path m = on_writable ns path (\<lambda>fs p. v_mkfifo fs t p m)"

definition ns_usage :: "'w namespace_fs \<Rightarrow> 'w \<Rightarrow> fs_usage" where
  "ns_usage ns w = foldl (\<lambda>total m. let usage = v_usage (nm_fs m) w in
       \<lparr>total_bytes = total_bytes total + total_bytes usage,
        file_count = file_count total + file_count usage,
        dir_count = dir_count total + dir_count usage\<rparr>)
     \<lparr>total_bytes = 0, file_count = 0, dir_count = 0\<rparr> (ns_mounts ns)"

text \<open>Snapshots are the trait's defaults: none can be taken, none restored.\<close>

definition ns_dyn :: "nat \<Rightarrow> 'w namespace_fs \<Rightarrow> 'w fs_dyn" where
  "ns_dyn addr ns =
     \<lparr>v_id = addr,
      v_read_file = ns_read_file ns,
      v_write_file = ns_write_file ns,
      v_append_file = ns_append_file ns,
      v_mkdir = ns_mkdir ns,
      v_remove = ns_remove ns,
      v_stat = ns_stat ns,
      v_read_dir = ns_read_dir ns,
      v_exists = ns_exists ns,
      v_rename = ns_rename ns,
      v_copy = ns_copy ns,
      v_symlink = ns_symlink ns,
      v_read_link = ns_read_link ns,
      v_chmod = ns_chmod ns,
      v_set_modified_time = ns_set_modified_time ns,
      v_mkfifo = ns_mkfifo ns,
      v_usage = ns_usage ns,
      v_limits = (\<lambda>_. ns_limits ns),
      v_vfs_snapshot = (\<lambda>w. (None, w)),
      v_vfs_restore = (\<lambda>_ _. io_fail NotSupported)\<rparr>"

section \<open>Where a path leads\<close>

lemma best_mount_in:
  "best_mount path i ms best = Some (j, m) \<Longrightarrow> best = Some (j, m) \<or> m \<in> set ms \<and> path_starts_with path (components (nm_target m))"
proof (induction path i ms best rule: best_mount.induct)
  case (2 path i m ms best)
  from 2(1) [OF 2(2) [unfolded best_mount.simps]] show ?case
    by (auto split: if_splits option.splits prod.splits)
qed simp

definition mount_ok :: "'w namespace_mount \<Rightarrow> bool" where
  "mount_ok m \<longleftrightarrow> (\<exists>rs ss. list_all proper_segment rs \<and> list_all proper_segment ss \<and>
     nm_target m = abs_text rs \<and> nm_source_root m = abs_text ss)"

text \<open>
  The source path is the source root with the segments of the visible path that follow the target:
  no path leads out of the source root.
\<close>

lemma resolve_source:
  assumes "resolve ns (abs_text ps) = Some r" and "list_all proper_segment ps" and "list_all mount_ok (ns_mounts ns)"
  obtains rs ss where "rp_mount r \<in> set (ns_mounts ns)" and "nm_target (rp_mount r) = abs_text rs"
    and "nm_source_root (rp_mount r) = abs_text ss" and "prefix rs ps"
    and "list_all proper_segment rs" and "list_all proper_segment ss"
    and "rp_source_path r = abs_text (ss @ drop (length rs) ps)"
proof -
  obtain i m where best: "best_mount (components (abs_text ps)) 0 (ns_mounts ns) None = Some (i, m)"
    using assms(1) by (auto simp: resolve_def)
  have m: "m \<in> set (ns_mounts ns)" "path_starts_with (components (abs_text ps)) (components (nm_target m))"
    using best_mount_in [OF best] by auto
  obtain rs ss where ok: "list_all proper_segment rs" "list_all proper_segment ss"
      "nm_target m = abs_text rs" "nm_source_root m = abs_text ss"
    using assms(3) m(1) by (auto simp: mount_ok_def list_all_iff)
  have pre: "prefix rs ps"
    using m(2) assms(2) ok by (simp add: path_starts_with_def components_abs_text prefix_map_Normal)
  have rest: "list_all proper_segment (drop (length rs) ps)"
    using assms(2) by (auto simp: list_all_iff dest: in_set_dropD)
  have "(if join_slash (drop (length rs) ps) = [] then abs_text ss
         else path_join (abs_text ss) (join_slash (drop (length rs) ps))) = abs_text (ss @ drop (length rs) ps)"
    using join_slash_not_Nil [OF rest] path_join_text [OF ok(2) rest] by (cases "drop (length rs) ps = []") simp_all
  moreover have "strip_path_prefix (abs_text ps) (nm_target m) = Some (join_slash (drop (length rs) ps))"
    using strip_prefix_text [OF ok(1) assms(2)] pre ok(3) by simp
  ultimately have "rp_mount r = m" "rp_source_path r = abs_text (ss @ drop (length rs) ps)"
    using assms(1) best ok(4) by (auto simp: resolve_def Let_def)
  then show ?thesis using that m(1) ok pre by blast
qed

lemma normalized_text: "normalized ns path = Inr p \<Longrightarrow> p = abs_text (normal_segments path)"
  by (auto simp: normalized_def normalize_path_text split: sum.splits)

lemma source_below:
  assumes "resolve ns p = Some r" and "normalized ns path = Inr p" and "list_all mount_ok (ns_mounts ns)"
  shows "rp_mount r \<in> set (ns_mounts ns) \<and> names_below {components (nm_source_root (rp_mount r))} (rp_source_path r)"
proof -
  let ?ps = "normal_segments path"
  have ps: "list_all proper_segment ?ps" by (rule normal_segments_list_all)
  have p: "resolve ns (abs_text ?ps) = Some r" using assms(1) normalized_text [OF assms(2)] by simp
  obtain rs ss where r: "rp_mount r \<in> set (ns_mounts ns)" "nm_target (rp_mount r) = abs_text rs"
      "nm_source_root (rp_mount r) = abs_text ss" "prefix rs ?ps" "list_all proper_segment rs" "list_all proper_segment ss"
      "rp_source_path r = abs_text (ss @ drop (length rs) ?ps)"
    by (rule resolve_source [OF p ps assms(3)])
  have "list_all proper_segment (ss @ drop (length rs) ?ps)"
    using r(6) ps by (auto simp: list_all_iff dest: in_set_dropD)
  then show ?thesis
    using r by (simp add: names_below_def below_def path_starts_with_def components_abs_text)
qed

lemma resolve_mount: "resolve ns path = Some r \<Longrightarrow> rp_mount r \<in> set (ns_mounts ns)"
  using best_mount_in by (fastforce simp: resolve_def Let_def)

lemma best_mount_nth:
  "best_mount path i ms best = Some (j, m) \<Longrightarrow> best = Some (j, m) \<or> i \<le> j \<and> m = ms ! (j - i)"
proof (induction path i ms best rule: best_mount.induct)
  case (2 path i m' ms best)
  from 2(1) [OF 2(2) [unfolded best_mount.simps]] show ?case
    by (auto simp: nth_Cons' split: if_splits option.splits prod.splits)
qed simp

lemma resolve_index:
  "resolve ns p = Some a \<Longrightarrow> resolve ns q = Some b \<Longrightarrow> rp_index a = rp_index b \<Longrightarrow> rp_mount a = rp_mount b"
proof -
  have "rp_mount r = ns_mounts ns ! rp_index r" if "resolve ns k = Some r" for k r
    using that best_mount_nth [of "components k" 0 "ns_mounts ns" None] by (auto simp: resolve_def Let_def)
  then show "resolve ns p = Some a \<Longrightarrow> resolve ns q = Some b \<Longrightarrow> rp_index a = rp_index b \<Longrightarrow> rp_mount a = rp_mount b"
    by metis
qed

section \<open>Confinement\<close>

text \<open>
  A mount confines its users when its filesystem satisfies the contract for the paths below its
  source root, or for none at all when it is read-only.
\<close>

definition confined_mount :: "('w \<Rightarrow> 'w \<Rightarrow> bool) \<Rightarrow> 'w namespace_mount \<Rightarrow> bool" where
  "confined_mount keeps m \<longleftrightarrow> mount_ok m \<and>
     rooted keeps (nm_fs m) (\<lambda>p. nm_access m = ReadWrite \<and> names_below {components (nm_source_root m)} p)"

lemma io_keeps_void: "io_keeps keeps (void m) \<longleftrightarrow> io_keeps keeps m"
  by (simp add: io_keeps_def)

lemma mount_reads:
  assumes "confined_mount keeps m"
  shows "io_keeps keeps (v_read_file (nm_fs m) p)" and "io_keeps keeps (v_stat (nm_fs m) p)"
    and "io_keeps keeps (v_read_dir (nm_fs m) t p)" and "io_keeps keeps (v_exists (nm_fs m) p)"
    and "io_keeps keeps (v_read_link (nm_fs m) p)"
proof -
  have "reading keeps (nm_fs m)" using assms unfolding confined_mount_def rooted_def by blast
  note keep = reading.read_keeps [OF this]
  show "io_keeps keeps (v_read_file (nm_fs m) p)" "io_keeps keeps (v_stat (nm_fs m) p)"
    "io_keeps keeps (v_read_dir (nm_fs m) t p)" "io_keeps keeps (v_exists (nm_fs m) p)"
    "io_keeps keeps (v_read_link (nm_fs m) p)"
    using keep [of "CReadFile p"] keep [of "CStat p"] keep [of "CReadDir t p"] keep [of "CExists p"] keep [of "CReadLink p"]
    by (simp_all add: io_keeps_void)
qed

lemma mount_writes:
  assumes "confined_mount keeps m" and "nm_access m = ReadWrite" and "\<not> restores c"
    and "list_all (names_below {components (nm_source_root m)}) (targets c)"
  shows "io_keeps keeps (do_call (nm_fs m) c)"
proof -
  have "rooted keeps (nm_fs m) (\<lambda>p. nm_access m = ReadWrite \<and> names_below {components (nm_source_root m)} p)"
    using assms(1) by (simp add: confined_mount_def)
  from rooted.call_keeps [OF this assms(3)] show ?thesis using assms(2,4) by simp
qed

context unseen begin

lemma keeps_res: "(\<And>a. r = Inr a \<Longrightarrow> io_keeps keeps (k a)) \<Longrightarrow> io_keeps keeps (io_bind (from_res r) k)"
  using keeps_refl by (cases r) (simp_all add: io_keeps_def io_bind_def from_res_def)

lemma ok_or_Inr: "ok_or e x = Inr a \<longleftrightarrow> x = Some a"
  by (simp add: ok_or_def split: option.split)

lemma keeps_on_writable:
  assumes "list_all (confined_mount keeps) (ns_mounts ns)"
    and "\<And>m p. confined_mount keeps m \<Longrightarrow> nm_access m = ReadWrite \<Longrightarrow>
           names_below {components (nm_source_root m)} p \<Longrightarrow> io_keeps keeps (op (nm_fs m) p)"
  shows "io_keeps keeps (on_writable ns path op)"
  unfolding on_writable_def
proof (rule keeps_res)
  fix r assume "resolve_writable ns path = Inr r"
  then obtain p where p: "normalized ns path = Inr p" "resolve ns p = Some r" "nm_access (rp_mount r) \<noteq> ReadOnly"
    by (auto simp: resolve_writable_def require_writable_def res_bind_Inr ok_or_Inr split: if_splits)
  have "list_all mount_ok (ns_mounts ns)" using assms(1) by (auto simp: list_all_iff confined_mount_def)
  from source_below [OF p(2,1) this] have "confined_mount keeps (rp_mount r)"
      "names_below {components (nm_source_root (rp_mount r))} (rp_source_path r)"
    using assms(1) by (auto simp: list_all_iff)
  moreover have "nm_access (rp_mount r) = ReadWrite" using p(3) by (cases "nm_access (rp_mount r)") auto
  ultimately show "io_keeps keeps (op (nm_fs (rp_mount r)) (rp_source_path r))" using assms(2) by blast
qed

lemma keeps_resolved:
  assumes "list_all (confined_mount keeps) (ns_mounts ns)"
    and "\<And>m p. confined_mount keeps m \<Longrightarrow> io_keeps keeps (op (nm_fs m) p)"
  shows "io_keeps keeps (io_bind (from_res (ok_or e (resolve ns path))) (\<lambda>r. op (nm_fs (rp_mount r)) (rp_source_path r)))"
proof (rule keeps_res)
  fix r assume "ok_or e (resolve ns path) = Inr r"
  then have "rp_mount r \<in> set (ns_mounts ns)" using resolve_mount by (auto simp: ok_or_Inr)
  then show "io_keeps keeps (op (nm_fs (rp_mount r)) (rp_source_path r))" using assms by (auto simp: list_all_iff)
qed

lemma keeps_ns_stat:
  "list_all (confined_mount keeps) (ns_mounts ns) \<Longrightarrow> io_keeps keeps (ns_stat ns path)"
  unfolding ns_stat_def by (rule keeps_res) (auto intro: keeps_pure keeps_resolved mount_reads)

lemma keeps_add_mount_entries:
  "list_all (confined_mount keeps) (ns_mounts ns) \<Longrightarrow> io_keeps keeps (add_mount_entries ns cs es)"
proof (induction cs arbitrary: es)
  case (Cons c cs)
  then show ?case unfolding add_mount_entries.simps by (intro keeps_bind keeps_ns_stat)
qed (simp add: keeps_pure)

lemma keeps_ns_reads:
  assumes "list_all (confined_mount keeps) (ns_mounts ns)"
  shows "io_keeps keeps (ns_read_file ns path)" and "io_keeps keeps (ns_read_dir ns t path)"
    and "io_keeps keeps (ns_exists ns path)" and "io_keeps keeps (ns_read_link ns path)"
proof -
  show "io_keeps keeps (ns_read_file ns path)"
    unfolding ns_read_file_def by (rule keeps_res) (auto intro: keeps_pure keeps_resolved mount_reads assms)
  show "io_keeps keeps (ns_read_link ns path)"
    unfolding ns_read_link_def by (rule keeps_res) (auto intro: keeps_pure keeps_resolved mount_reads assms)
  show "io_keeps keeps (ns_read_dir ns t path)"
    unfolding ns_read_dir_def
    by (intro keeps_bind keeps_add_mount_entries keeps_pure assms)
      (auto intro: keeps_pure keeps_resolved mount_reads assms)
  have "io_keeps keeps (case resolve ns p of None \<Rightarrow> io_return False
      | Some r \<Rightarrow> v_exists (nm_fs (rp_mount r)) (rp_source_path r))" for p
    using assms resolve_mount [of ns p] by (auto simp: list_all_iff intro: keeps_pure mount_reads split: option.split)
  then show "io_keeps keeps (ns_exists ns path)"
    unfolding ns_exists_def by (intro keeps_bind) (auto intro: keeps_pure)
qed

lemma keeps_ns_rename:
  assumes "list_all (confined_mount keeps) (ns_mounts ns)"
  shows "io_keeps keeps (ns_rename ns t src dst)"
proof -
  have ok: "list_all mount_ok (ns_mounts ns)" using assms by (auto simp: list_all_iff confined_mount_def)
  have "io_keeps keeps (v_rename (nm_fs (rp_mount a)) t (rp_source_path a) (rp_source_path b))"
    if "normalized ns src = Inr p" "normalized ns dst = Inr q" "resolve ns p = Some a" "resolve ns q = Some b"
      "require_writable a = Inr u" "rp_index a = rp_index b" for p q a b u
  proof -
    have same: "rp_mount b = rp_mount a" using resolve_index [OF that(3,4,6)] by simp
    have "confined_mount keeps (rp_mount a)" using source_below [OF that(3,1) ok] assms by (simp add: list_all_iff)
    moreover have "nm_access (rp_mount a) = ReadWrite"
      using that(5) by (cases "nm_access (rp_mount a)") (auto simp: require_writable_def)
    ultimately show ?thesis
      using mount_writes [of keeps "rp_mount a" "CRename t (rp_source_path a) (rp_source_path b)"]
        source_below [OF that(3,1) ok] source_below [OF that(4,2) ok] same by simp
  qed
  then show ?thesis
    unfolding ns_rename_def
    by (intro keeps_res) (auto intro!: keeps_res keeps_pure simp: ok_or_Inr)
qed

lemma keeps_ns_copy:
  assumes "list_all (confined_mount keeps) (ns_mounts ns)"
  shows "io_keeps keeps (ns_copy ns t src dst)"
proof -
  have ok: "list_all mount_ok (ns_mounts ns)" using assms by (auto simp: list_all_iff confined_mount_def)
  have writes: "io_keeps keeps (do_call (nm_fs (rp_mount b)) c)"
    if "normalized ns dst = Inr q" "resolve ns q = Some b" "require_writable b = Inr u" "targets c = [rp_source_path b]"
      "\<not> restores c" for q b u c
  proof -
    have "confined_mount keeps (rp_mount b)" "names_below {components (nm_source_root (rp_mount b))} (rp_source_path b)"
      using source_below [OF that(2,1) ok] assms by (simp_all add: list_all_iff)
    moreover have "nm_access (rp_mount b) = ReadWrite"
      using that(3) by (cases "nm_access (rp_mount b)") (auto simp: require_writable_def)
    ultimately show ?thesis using mount_writes [of keeps "rp_mount b" c] that(4,5) by simp
  qed
  have "io_keeps keeps (v_copy (nm_fs (rp_mount a)) t (rp_source_path a) (rp_source_path b))"
    if "normalized ns dst = Inr q" "resolve ns p = Some a" "resolve ns q = Some b" "require_writable b = Inr u"
      "rp_index a = rp_index b" for p q a b u
    using writes [OF that(1,3,4), of "CCopy t (rp_source_path a) (rp_source_path b)"] resolve_index [OF that(2,3,5)] by simp
  moreover have "io_keeps keeps (v_write_file (nm_fs (rp_mount b)) t (rp_source_path b) content)"
      "io_keeps keeps (v_symlink (nm_fs (rp_mount b)) t target (rp_source_path b))"
    if "normalized ns dst = Inr q" "resolve ns q = Some b" "require_writable b = Inr u" for q b u content target
    using writes [OF that, of "CWriteFile t (rp_source_path b) content"] writes [OF that, of "CSymlink t target (rp_source_path b)"]
    by simp_all
  moreover have "io_keeps keeps (v_stat (nm_fs (rp_mount a)) (rp_source_path a))"
      "io_keeps keeps (v_read_file (nm_fs (rp_mount a)) (rp_source_path a))"
      "io_keeps keeps (v_read_link (nm_fs (rp_mount a)) (rp_source_path a))" if "resolve ns p = Some a" for p a
    using resolve_mount [OF that] assms by (auto simp: list_all_iff intro: mount_reads)
  ultimately show ?thesis
    unfolding ns_copy_def
    by (intro keeps_res)
      (auto intro!: keeps_res keeps_bind keeps_pure simp: ok_or_Inr split: file_type.split)
qed

lemma ns_call_keeps:
  assumes "list_all (confined_mount keeps) (ns_mounts ns)"
  shows "io_keeps keeps (do_call (ns_dyn addr ns) c)"
proof -
  note writable = keeps_on_writable [OF assms]
  show ?thesis
  proof (cases c)
    case (CRemove t p r)
    have "io_keeps keeps (ns_remove ns t p r)"
      unfolding ns_remove_def
      by (rule keeps_res) (auto intro!: keeps_pure writable mount_writes [of keeps _ "CRemove _ _ _", simplified])
    then show ?thesis using CRemove by (simp add: ns_dyn_def)
  next
    case (CWriteFile t p x)
    then show ?thesis
      using writable [of "\<lambda>fs p. v_write_file fs t p x" p] mount_writes [of keeps _ "CWriteFile t _ x"]
      by (simp add: ns_dyn_def ns_write_file_def)
  next
    case (CAppendFile t p x)
    then show ?thesis
      using writable [of "\<lambda>fs p. v_append_file fs t p x" p] mount_writes [of keeps _ "CAppendFile t _ x"]
      by (simp add: ns_dyn_def ns_append_file_def)
  next
    case (CMkdir t p r)
    then show ?thesis
      using writable [of "\<lambda>fs p. v_mkdir fs t p r" p] mount_writes [of keeps _ "CMkdir t _ r"]
      by (simp add: ns_dyn_def ns_mkdir_def)
  next
    case (CSymlink t target p)
    then show ?thesis
      using writable [of "\<lambda>fs p. v_symlink fs t target p" p] mount_writes [of keeps _ "CSymlink t target _"]
      by (simp add: ns_dyn_def ns_symlink_def)
  next
    case (CChmod t p m)
    then show ?thesis
      using writable [of "\<lambda>fs p. v_chmod fs t p m" p] mount_writes [of keeps _ "CChmod t _ m"]
      by (simp add: ns_dyn_def ns_chmod_def)
  next
    case (CSetModified t p tm)
    then show ?thesis
      using writable [of "\<lambda>fs p. v_set_modified_time fs t p tm" p] mount_writes [of keeps _ "CSetModified t _ tm"]
      by (simp add: ns_dyn_def ns_set_modified_time_def)
  next
    case (CMkfifo t p m)
    then show ?thesis
      using writable [of "\<lambda>fs p. v_mkfifo fs t p m" p] mount_writes [of keeps _ "CMkfifo t _ m"]
      by (simp add: ns_dyn_def ns_mkfifo_def)
  qed (use assms in \<open>simp_all add: ns_dyn_def io_keeps_void keeps_ns_reads keeps_ns_stat keeps_ns_rename keeps_ns_copy
        keeps_pure\<close>, simp add: io_keeps_def keeps_refl)
qed

end

end
