(* ===== verification/NamespaceSafe.thy ===== *)
theory NamespaceSafe
  imports Namespace
begin

text \<open>
  What a namespace over in-memory filesystems guarantees: its users stay inside the source roots of
  the writable mounts, and a path always leads through the mount with the longest target.
\<close>

section \<open>Namespaces over in-memory filesystems\<close>

text \<open>A list of calls of \<open>mount_from\<close>: target, number of the filesystem, source root, access.\<close>

type_synonym mount_spec = "rstr \<times> nat \<times> rstr \<times> namespace_access"

fun mount_all :: "(nat \<Rightarrow> bytes option) \<Rightarrow> mount_spec list \<Rightarrow> fs_world namespace_builder \<Rightarrow>
    fs_error + fs_world namespace_builder" where
  "mount_all rnd [] b = Ok b"
| "mount_all rnd ((target, i, root, access) # ms) b =
     res_bind (mount_from i target (mem_dyn i rnd) root access b) (\<lambda>b. mount_all rnd ms b)"

definition writable_roots :: "mount_spec list \<Rightarrow> nat \<Rightarrow> path_key set" where
  "writable_roots ms i =
     (\<lambda>(_, _, root, _). components (normalize_path root)) ` {m \<in> set ms. fst (snd m) = i \<and> snd (snd (snd m)) = ReadWrite}"

definition stems_from :: "(nat \<Rightarrow> bytes option) \<Rightarrow> mount_spec list \<Rightarrow> rstr \<times> fs_world pending_mount \<Rightarrow> bool" where
  "stems_from rnd ms entry \<longleftrightarrow>
     (\<exists>target i root access. (target, i, root, access) \<in> set ms \<and>
        entry = (normalize_path target,
          \<lparr>pm_source_root = normalize_path root,
           pm_fs = (case access of ReadOnly \<Rightarrow> readonly_dyn i (mem_dyn i rnd) | ReadWrite \<Rightarrow> mem_dyn i rnd),
           pm_access = access\<rparr>))"

lemma validate_mount_path_Inr: "validate_mount_path p = Inr q \<Longrightarrow> q = normalize_path p"
  by (auto simp: validate_mount_path_def split: if_splits sum.splits)

lemma mount_from_entries:
  "mount_from i target fs root access b = Inr b' \<Longrightarrow>
   b' = AList.update (normalize_path target)
     \<lparr>pm_source_root = normalize_path root, pm_fs = (case access of ReadOnly \<Rightarrow> readonly_dyn i fs | ReadWrite \<Rightarrow> fs),
      pm_access = access\<rparr> b"
  by (auto simp: mount_from_def res_bind_Inr Let_def dest!: validate_mount_path_Inr)

lemma set_update_in: "x \<in> set (AList.update k v b) \<Longrightarrow> x = (k, v) \<or> x \<in> set b"
  by (induction b) (auto split: if_splits)

lemma mount_all_entries:
  "mount_all rnd ms b = Inr b' \<Longrightarrow> x \<in> set b' \<Longrightarrow> x \<in> set b \<or> stems_from rnd ms x"
proof (induction ms arbitrary: b)
  case (Cons m ms)
  obtain target i root access where m: "m = (target, i, root, access)" by (cases m)
  obtain b1 where b1: "mount_from i target (mem_dyn i rnd) root access b = Inr b1" "mount_all rnd ms b1 = Inr b'"
    using Cons.prems(1) by (auto simp: m res_bind_Inr)
  have "x \<in> set b1 \<or> stems_from rnd ms x" by (rule Cons.IH [OF b1(2) Cons.prems(2)])
  then show ?case
  proof
    assume "x \<in> set b1"
    then consider "x \<in> set b" | "x = (normalize_path target, \<lparr>pm_source_root = normalize_path root,
        pm_fs = (case access of ReadOnly \<Rightarrow> readonly_dyn i (mem_dyn i rnd) | ReadWrite \<Rightarrow> mem_dyn i rnd),
        pm_access = access\<rparr>)"
      unfolding mount_from_entries [OF b1(1)] using set_update_in by metis
    then show ?thesis
      by cases (simp_all only: stems_from_def m list.set, blast+)
  next
    assume "stems_from rnd ms x"
    then show ?thesis by (auto simp: stems_from_def)
  qed
qed simp

lemma rooted_weaken:
  assumes "rooted keeps v allowed" and "\<And>p. allowed' p \<Longrightarrow> allowed p"
  shows "rooted keeps v allowed'"
proof -
  have base: "reading keeps v" using assms(1) by (simp add: rooted_def)
  have "list_all allowed' ps \<Longrightarrow> list_all allowed ps" for ps using assms(2) by (simp add: list_all_iff)
  then show ?thesis
    using base rooted.call_keeps [OF assms(1)] by (intro rooted.intro) (auto simp: rooted_axioms_def)
qed

lemma built_confined:
  assumes "mount_all rnd ms [] = Inr b"
  shows "list_all (confined_mount (world_kept (writable_roots ms))) (ns_mounts (build t b))"
proof -
  have "confined_mount (world_kept (writable_roots ms)) m" if m: "m \<in> set (ns_mounts (build t b))" for m
  proof -
    obtain target p where tp: "(target, p) \<in> set b" "m = \<lparr>nm_target = target, nm_source_root = pm_source_root p,
        nm_fs = pm_fs p, nm_access = pm_access p\<rparr>"
      using m by (auto simp: build_def split: prod.splits)
    then obtain tg i root access where s: "(tg, i, root, access) \<in> set ms" "target = normalize_path tg"
        "p = \<lparr>pm_source_root = normalize_path root,
              pm_fs = (case access of ReadOnly \<Rightarrow> readonly_dyn i (mem_dyn i rnd) | ReadWrite \<Rightarrow> mem_dyn i rnd),
              pm_access = access\<rparr>"
      using mount_all_entries [OF assms tp(1)] by (auto simp: stems_from_def)
    have "mount_ok m"
      unfolding mount_ok_def using tp(2) s normal_segments_list_all by (auto simp: normalize_path_text)
    moreover have "rooted (world_kept (writable_roots ms)) (nm_fs m)
        (\<lambda>p. nm_access m = ReadWrite \<and> names_below {components (nm_source_root m)} p)"
    proof (cases access)
      case ReadOnly
      then show ?thesis using tp(2) s(3) mem_rooted.readonly_rooted by simp
    next
      case ReadWrite
      have "components (normalize_path root) \<in> writable_roots ms i"
        using s(1) ReadWrite by (force simp: writable_roots_def)
      then have "names_below {components (normalize_path root)} p \<Longrightarrow> names_below (writable_roots ms i) p" for p
        by (auto simp: names_below_def below_def)
      then show ?thesis using tp(2) s(3) ReadWrite rooted_weaken [OF mem_rooted.rooted_axioms] by simp
    qed
    ultimately show ?thesis by (simp add: confined_mount_def)
  qed
  then show ?thesis by (simp add: list_all_iff)
qed

text \<open>
  Property C3: the users of a namespace cannot leave its writable subtrees. Whatever in-memory filesystems are
  mounted, wherever and with whatever source roots, and whatever sequence of calls is made, with
  dots, repeated slashes or nested mounts in the paths: outside the source roots of the writable
  mounts no entry of any of these filesystems is lost or altered, beyond the loading of lazy files, and nothing
  appears except directories that lead to such a root (TM-ESC-031).
\<close>

theorem namespace_confined:
  assumes "mount_all rnd ms [] = Ok b"
  shows "world_kept (writable_roots ms) w (do_calls (ns_dyn addr (build t b)) cs w)"
  by (rule mem_rooted.keeps_calls) (rule mem_rooted.ns_call_keeps [OF built_confined [OF assms]])

section \<open>The longest target wins\<close>

lemma best_mount_best:
  "best_mount path i ms best = Some (j, m) \<Longrightarrow>
   (\<forall>j' m'. best = Some (j', m') \<longrightarrow> length (components (nm_target m')) \<le> length (components (nm_target m))) \<and>
   (\<forall>m' \<in> set ms. path_starts_with path (components (nm_target m')) \<longrightarrow>
      length (components (nm_target m')) \<le> length (components (nm_target m)))"
proof (induction path i ms best rule: best_mount.induct)
  case (2 path i m' ms best)
  from 2(1) [OF 2(2) [unfolded best_mount.simps]] show ?case
    by (auto split: if_splits option.splits prod.splits)
qed simp

text \<open>
  A path leads through the mount with the longest target above it, and to the source root
  of that mount followed by the rest of the path. So nothing below a nested mount can be reached
  through an outer one, and with a read-only mount inside a writable one the read-only mount decides:
  a write there fails with a permission error.
\<close>

theorem longest_mount_decides:
  assumes "mount_all rnd ms [] = Ok b" and "resolve (build t b) (normalize_path path) = Some r"
    and "m \<in> set (ns_mounts (build t b))" and "prefix (normal_segments (nm_target m)) (normal_segments path)"
  shows "length (normal_segments (nm_target m)) \<le> length (normal_segments (nm_target (rp_mount r))) \<and>
    normal_segments (rp_source_path r) = normal_segments (nm_source_root (rp_mount r)) @
      drop (length (normal_segments (nm_target (rp_mount r)))) (normal_segments path) \<and>
    (nm_access (rp_mount r) = ReadWrite \<or>
     fst (do_call (ns_dyn addr (build t b)) (CWriteFile now path content) w) \<noteq> Ok ())"
proof -
  let ?ns = "build t b" and ?ps = "normal_segments path"
  have ok: "list_all mount_ok (ns_mounts ?ns)"
    using built_confined [OF assms(1)] by (auto simp: list_all_iff confined_mount_def)
  have ps: "list_all proper_segment ?ps" by (rule normal_segments_list_all)
  have res: "resolve ?ns (abs_text ?ps) = Some r" using assms(2) by (simp add: normalize_path_text)
  obtain rs ss where r: "rp_mount r \<in> set (ns_mounts ?ns)" "nm_target (rp_mount r) = abs_text rs"
      "nm_source_root (rp_mount r) = abs_text ss" "prefix rs ?ps" "list_all proper_segment rs" "list_all proper_segment ss"
      "rp_source_path r = abs_text (ss @ drop (length rs) ?ps)"
    by (rule resolve_source [OF res ps ok])
  obtain ts where ts: "nm_target m = abs_text ts" "list_all proper_segment ts"
    using ok assms(3) by (auto simp: list_all_iff mount_ok_def)
  obtain j where best: "best_mount (components (abs_text ?ps)) 0 (ns_mounts ?ns) None = Some (j, rp_mount r)"
    using res by (auto simp: resolve_def Let_def)
  have "path_starts_with (components (abs_text ?ps)) (components (nm_target m))"
    using assms(4) ts ps by (simp add: path_starts_with_def components_abs_text prefix_map_Normal)
  then have "length ts \<le> length rs"
    using best_mount_best [OF best] assms(3) ts r(2,5) by (auto simp: components_abs_text)
  moreover have "list_all proper_segment (ss @ drop (length rs) ?ps)"
    using r(6) ps by (auto simp: list_all_iff dest: in_set_dropD)
  moreover have "fst (do_call (ns_dyn addr ?ns) (CWriteFile now path content) w) \<noteq> Ok ()"
    if access: "nm_access (rp_mount r) = ReadOnly"
  proof -
    have "resolve_writable ?ns path \<noteq> Inr a" for a
      using access assms(2) normalized_text [of ?ns path]
      by (auto simp: resolve_writable_def res_bind_Inr ok_or_def require_writable_def normalize_path_text split: if_splits option.splits)
    then show ?thesis
      by (cases "resolve_writable ?ns path")
        (auto simp: ns_dyn_def ns_write_file_def on_writable_def io_bind_def from_res_def)
  qed
  ultimately show ?thesis
    using r ts by (cases "nm_access (rp_mount r)") auto
qed

section \<open>A namespace with a read-only mount inside a writable one\<close>

definition demo_mounts :: "mount_spec list" where
  "demo_mounts = [(lit ''/'', 0, lit ''/job'', ReadWrite), (lit ''/data/'', 1, lit ''/./pub'', ReadOnly)]"

definition demo_builder :: "fs_world namespace_builder" where
  "demo_builder =
     [(lit ''/'', \<lparr>pm_source_root = lit ''/job'', pm_fs = mem_dyn 0 (\<lambda>_. None), pm_access = ReadWrite\<rparr>),
      (lit ''/data'', \<lparr>pm_source_root = lit ''/pub'', pm_fs = readonly_dyn 1 (mem_dyn 1 (\<lambda>_. None)), pm_access = ReadOnly\<rparr>)]"

lemma demo_text:
  "validate_mount_path (lit ''/'') = Ok (lit ''/'')"
  "validate_mount_path (lit ''/job'') = Ok (lit ''/job'')"
  "validate_mount_path (lit ''/data/'') = Ok (lit ''/data'')"
  "validate_mount_path (lit ''/./pub'') = Ok (lit ''/pub'')"
  "normalize_path (lit ''/x/../data/./f'') = lit ''/data/f''"
  by (simp_all add: validate_mount_path_def starts_with_def path_eval default_fs_limits_def)

lemma demo_all: "mount_all (\<lambda>_. None) demo_mounts [] = Ok demo_builder"
  by (simp add: demo_mounts_def demo_builder_def mount_from_def demo_text Let_def) (simp add: lit_def)

theorem namespace_confined_witness:
  "world_kept (writable_roots demo_mounts) (\<lambda>_. new_fs 0)
     (do_calls (ns_dyn 7 (build 0 demo_builder)) [CWriteFile 1 (lit ''/../f'') [1], CRemove 2 (lit ''/data'') True] (\<lambda>_. new_fs 0))"
  by (rule namespace_confined [OF demo_all])

theorem longest_mount_decides_witness:
  "fst (do_call (ns_dyn 7 (build 0 demo_builder)) (CWriteFile 1 (lit ''/x/../data/./f'') [1]) (\<lambda>_. new_fs 0)) \<noteq> Ok ()"
proof -
  let ?ns = "build 0 demo_builder" and ?path = "lit ''/x/../data/./f''"
  obtain r where r: "resolve ?ns (normalize_path ?path) = Some r" "nm_access (rp_mount r) = ReadOnly"
    unfolding demo_text
    by (simp add: resolve_def build_def demo_builder_def path_eval path_starts_with_def Let_def)
  have m: "hd (ns_mounts ?ns) \<in> set (ns_mounts ?ns)" "prefix (normal_segments (nm_target (hd (ns_mounts ?ns)))) (normal_segments ?path)"
    by (simp_all add: build_def demo_builder_def path_eval normal_segments_def)
  show ?thesis
    using longest_mount_decides [OF demo_all r(1) m, of 7 1 "[1]" "\<lambda>_. new_fs 0"] r(2) by simp
qed

text \<open>
  A directory above a target is synthetic even where an outer mount has it: its files can be read,
  but a listing shows the mount point only, and nothing can be created in it.
\<close>

definition nested_mounts :: "mount_spec list" where
  "nested_mounts = [(lit ''/'', 0, lit ''/'', ReadWrite), (lit ''/tmp/m'', 1, lit ''/'', ReadWrite)]"

definition nested_builder :: "fs_world namespace_builder" where
  "nested_builder =
     [(lit ''/'', \<lparr>pm_source_root = lit ''/'', pm_fs = mem_dyn 0 (\<lambda>_. None), pm_access = ReadWrite\<rparr>),
      (lit ''/tmp/m'', \<lparr>pm_source_root = lit ''/'', pm_fs = mem_dyn 1 (\<lambda>_. None), pm_access = ReadWrite\<rparr>)]"

definition with_file :: "mem_fs" where
  "with_file = (new_fs 0)\<lparr>entries := AList.update (key ''/tmp/f'') (new_file [7] MODE_644 0) (entries (new_fs 0))\<rparr>"

lemma nested_all: "mount_all (\<lambda>_. None) nested_mounts [] = Ok nested_builder"
proof -
  have "validate_mount_path (lit ''/tmp/m'') = Ok (lit ''/tmp/m'')"
    by (simp add: validate_mount_path_def starts_with_def path_eval default_fs_limits_def)
  then show ?thesis
    by (simp add: nested_mounts_def nested_builder_def mount_from_def demo_text Let_def) (simp add: lit_def)
qed

lemmas namespace_eval = build_def nested_builder_def resolve_def resolve_writable_def normalized_def is_synthetic_def
  is_namespace_node_def is_exact_mount_def ancestors.simps parent_def path_starts_with_def strip_path_prefix_def
  component_string_def path_join_def starts_with_def ok_or_def res_bind_def io_defs

theorem synthetic_directory_hides_entries:
  "fst (ns_read_file (build 0 nested_builder) (lit ''/tmp/f'') (\<lambda>_. with_file)) = Ok [7] \<and>
   (case fst (ns_read_dir (build 0 nested_builder) 0 (lit ''/tmp'') (\<lambda>_. with_file)) of
     Inr es \<Rightarrow> map fst es | Inl _ \<Rightarrow> []) = [lit ''m'']"
proof -
  have a: "fst (ns_read_file (build 0 nested_builder) (lit ''/tmp/f'') (\<lambda>_. with_file)) = Ok [7]"
    by (simp add: ns_read_file_def namespace_eval path_eval mem_dyn_def on_fs_def read_file_def on_path_def
      with_file_def new_fs_def with_limits_def new_file_def update_conv' key_def)
  have b: "(case fst (ns_read_dir (build 0 nested_builder) 0 (lit ''/tmp'') (\<lambda>_. with_file)) of
     Inr es \<Rightarrow> map fst es | Inl _ \<Rightarrow> []) = [lit ''m'']"
    by (simp add: ns_read_dir_def child_mount_paths_def namespace_eval path_eval ns_stat_def mem_dyn_def on_fs_def stat_def on_path_def
      file_name_def with_file_def new_fs_def with_limits_def)
  show ?thesis using a b by blast
qed

end
