(* ===== verification/Mountable.thy ===== *)
theory Mountable
  imports FsDyn PathText "HOL-Library.List_Lexorder"
begin

text \<open>
  \<open>MountableFs\<close> of \<open>bashkit/src/fs/mountable.rs\<close>: a root filesystem and others mounted over paths
  of it, which can be added and removed at run time. A path goes to the mount with the longest
  matching target, or to the root. A rename between two filesystems is a copy and a removal that is
  rolled back when a step fails.
\<close>

section \<open>State\<close>

text \<open>
  The mounts are a map from normalised paths. The order of the \<open>BTreeMap\<close> shows only in listings,
  where the names are sorted. \<open>mf_id\<close> is the address of the value itself.
\<close>

record 'w mountable_fs =
  mf_id :: nat
  mf_root :: "'w fs_dyn"
  mf_mounts :: "(rstr \<times> 'w fs_dyn) list"

datatype cross_mount_entry = CFile bytes u32 | CLink rstr

definition new_mountable :: "nat \<Rightarrow> 'w fs_dyn \<Rightarrow> 'w mountable_fs" where
  "new_mountable addr root = \<lparr>mf_id = addr, mf_root = root, mf_mounts = []\<rparr>"

definition is_posix_absolute :: "rstr \<Rightarrow> bool" where
  "is_posix_absolute path = starts_with path (lit ''/'')"

definition mf_mount :: "rstr \<Rightarrow> 'w fs_dyn \<Rightarrow> 'w mountable_fs \<Rightarrow> (fs_error + unit) \<times> 'w mountable_fs" where
  "mf_mount path fs mf =
     (if v_id fs = mf_id mf then (Err InvalidPath, mf)
      else if \<not> is_posix_absolute path then (Err InvalidPath, mf)
      else (Ok (), mf\<lparr>mf_mounts := AList.update (normalize_path path) fs (mf_mounts mf)\<rparr>))"

definition mf_unmount :: "rstr \<Rightarrow> 'w mountable_fs \<Rightarrow> (fs_error + unit) \<times> 'w mountable_fs" where
  "mf_unmount path mf =
     (let p = normalize_path path
      in if contains_key (mf_mounts mf) p then (Ok (), mf\<lparr>mf_mounts := AList.delete p (mf_mounts mf)\<rparr>)
         else (Err NotFound, mf))"

definition mf_validate_path :: "'w mountable_fs \<Rightarrow> rstr \<Rightarrow> (unit, 'w) fs_io" where
  "mf_validate_path mf path w =
     (case validate_path (v_limits (mf_root mf) w) path of Inl e \<Rightarrow> (Err (LimitErr e), w) | Inr _ \<Rightarrow> (Ok (), w))"

text \<open>The loop over the mounts: a longer target replaces the best one.\<close>

fun longest_mount :: "path_key \<Rightarrow> (rstr \<times> 'w fs_dyn) list \<Rightarrow> (rstr \<times> 'w fs_dyn) option \<Rightarrow> (rstr \<times> 'w fs_dyn) option" where
  "longest_mount path [] best = best"
| "longest_mount path (m # ms) best =
     longest_mount path ms
       (if path_starts_with path (components (fst m))
        then (case best of
                None \<Rightarrow> Some m
              | Some b \<Rightarrow> if length (components (fst b)) < length (components (fst m)) then Some m else best)
        else best)"

definition mf_resolve :: "'w mountable_fs \<Rightarrow> rstr \<Rightarrow> 'w fs_dyn \<times> rstr" where
  "mf_resolve mf path =
     (let path = normalize_path path
      in case longest_mount (components path) (mf_mounts mf) None of
           Some (mount_path, fs) \<Rightarrow>
             (let relative = (case strip_path_prefix path mount_path of None \<Rightarrow> [] | Some r \<Rightarrow> r)
              in (fs, if relative = [] then lit ''/'' else path_join (lit ''/'') relative))
         | None \<Rightarrow> (mf_root mf, path))"

section \<open>Moving between filesystems\<close>

definition capture_cross_mount_entry :: "'w fs_dyn \<Rightarrow> rstr \<Rightarrow> (cross_mount_entry option, 'w) fs_io" where
  "capture_cross_mount_entry fs path =
     io_bind (v_exists fs path) (\<lambda>there.
     if \<not> there then io_return None
     else io_bind (v_stat fs path) (\<lambda>metadata.
          case file_type metadata of
            FtFile \<Rightarrow> io_bind (v_read_file fs path) (\<lambda>content. io_return (Some (CFile content (mode metadata))))
          | FtSymlink \<Rightarrow> io_bind (v_read_link fs path) (\<lambda>target. io_return (Some (CLink target)))
          | FtDirectory \<Rightarrow> io_fail NotSupported
          | FtFifo \<Rightarrow> io_fail NotSupported))"

definition install_cross_mount_entry :: "system_time \<Rightarrow> 'w fs_dyn \<Rightarrow> rstr \<Rightarrow> cross_mount_entry \<Rightarrow> (unit, 'w) fs_io" where
  "install_cross_mount_entry t fs path entry =
     (case entry of
        CFile content m \<Rightarrow> io_bind (v_write_file fs t path content) (\<lambda>_. v_chmod fs t path m)
      | CLink target \<Rightarrow> v_symlink fs t target path)"

definition restore_cross_mount_destination ::
  "system_time \<Rightarrow> 'w fs_dyn \<Rightarrow> rstr \<Rightarrow> cross_mount_entry option \<Rightarrow> (unit, 'w) fs_io" where
  "restore_cross_mount_destination t fs path entry =
     io_bind (v_exists fs path) (\<lambda>there.
     io_bind (if there then v_remove fs t path False else io_return ()) (\<lambda>_.
     case entry of None \<Rightarrow> io_return () | Some e \<Rightarrow> install_cross_mount_entry t fs path e))"

text \<open>A failed step: the destination is put back, and the error is that of the step or both.\<close>

definition or_roll_back ::
  "(unit, 'w) fs_io \<Rightarrow> (unit, 'w) fs_io \<Rightarrow> (unit, 'w) fs_io \<Rightarrow> (unit, 'w) fs_io" where
  "or_roll_back step rollback continue =
     io_bind (io_try step) (\<lambda>r.
     case r of
       Inr _ \<Rightarrow> continue
     | Inl operation_error \<Rightarrow>
         io_bind (io_try rollback) (\<lambda>rb.
         case rb of
           Inr _ \<Rightarrow> io_fail operation_error
         | Inl rollback_error \<Rightarrow> io_fail (RollbackFailed operation_error rollback_error)))"

definition cross_mount_rename ::
  "system_time \<Rightarrow> 'w fs_dyn \<Rightarrow> rstr \<Rightarrow> 'w fs_dyn \<Rightarrow> rstr \<Rightarrow> (unit, 'w) fs_io" where
  "cross_mount_rename t from_fs src to_fs dst =
     io_bind (capture_cross_mount_entry from_fs src) (\<lambda>s.
     case s of
       None \<Rightarrow> io_fail NotFound
     | Some source \<Rightarrow>
         io_bind (capture_cross_mount_entry to_fs dst) (\<lambda>destination.
         io_bind (if destination \<noteq> None then v_remove to_fs t dst False else io_return ()) (\<lambda>_.
         or_roll_back (install_cross_mount_entry t to_fs dst source)
           (restore_cross_mount_destination t to_fs dst destination)
           (or_roll_back (v_remove from_fs t src False)
              (restore_cross_mount_destination t to_fs dst destination)
              (io_return ())))))"

section \<open>The operations\<close>

text \<open>Most operations validate the path against the limits of the root and hand it on.\<close>

definition delegate :: "'w mountable_fs \<Rightarrow> rstr \<Rightarrow> ('w fs_dyn \<Rightarrow> rstr \<Rightarrow> ('a, 'w) fs_io) \<Rightarrow> ('a, 'w) fs_io" where
  "delegate mf path op = io_bind (mf_validate_path mf path) (\<lambda>_. case mf_resolve mf path of (fs, resolved) \<Rightarrow> op fs resolved)"

definition mf_read_file where
  "mf_read_file mf path = delegate mf path v_read_file"

definition mf_write_file where
  "mf_write_file mf t path content = delegate mf path (\<lambda>fs p. v_write_file fs t p content)"

definition mf_append_file where
  "mf_append_file mf t path content = delegate mf path (\<lambda>fs p. v_append_file fs t p content)"

definition mf_mkdir where
  "mf_mkdir mf t path recursive = delegate mf path (\<lambda>fs p. v_mkdir fs t p recursive)"

definition mf_remove where
  "mf_remove mf t path recursive = delegate mf path (\<lambda>fs p. v_remove fs t p recursive)"

definition mf_stat where
  "mf_stat mf path = delegate mf path v_stat"

text \<open>The mount points that are children of the directory are added unless an entry has the name.\<close>

fun add_missing :: "metadata \<Rightarrow> rstr list \<Rightarrow> dir_entry list \<Rightarrow> dir_entry list" where
  "add_missing m [] es = es"
| "add_missing m (n # ns) es = add_missing m ns (if n \<in> set (map fst es) then es else es @ [(n, m)])"

definition mount_names :: "'w mountable_fs \<Rightarrow> path_key \<Rightarrow> rstr list" where
  "mount_names mf path = sort (concat (map (\<lambda>(p, _).
     if parent (components p) = Some path
     then (case file_name (components p) of None \<Rightarrow> [] | Some n \<Rightarrow> [n]) else []) (mf_mounts mf)))"

definition mf_read_dir :: "'w mountable_fs \<Rightarrow> system_time \<Rightarrow> rstr \<Rightarrow> (dir_entry list, 'w) fs_io" where
  "mf_read_dir mf t path =
     io_bind (mf_validate_path mf path) (\<lambda>_.
     let path = normalize_path path
     in case mf_resolve mf path of (fs, resolved) \<Rightarrow>
        io_bind (v_read_dir fs t resolved) (\<lambda>es.
        io_return (add_missing (new_metadata FtDirectory 0 MODE_755 t) (mount_names mf (components path)) es)))"

definition mf_exists :: "'w mountable_fs \<Rightarrow> rstr \<Rightarrow> (bool, 'w) fs_io" where
  "mf_exists mf path =
     io_bind (mf_validate_path mf path) (\<lambda>_.
     let path = normalize_path path
     in if contains_key (mf_mounts mf) path then io_return True
        else case mf_resolve mf path of (fs, resolved) \<Rightarrow> v_exists fs resolved)"

definition mf_rename :: "'w mountable_fs \<Rightarrow> system_time \<Rightarrow> rstr \<Rightarrow> rstr \<Rightarrow> (unit, 'w) fs_io" where
  "mf_rename mf t src dst =
     io_bind (mf_validate_path mf src) (\<lambda>_.
     io_bind (mf_validate_path mf dst) (\<lambda>_.
     case mf_resolve mf src of (from_fs, from_resolved) \<Rightarrow>
     case mf_resolve mf dst of (to_fs, to_resolved) \<Rightarrow>
       if v_id from_fs = v_id to_fs then v_rename from_fs t from_resolved to_resolved
       else cross_mount_rename t from_fs from_resolved to_fs to_resolved))"

definition mf_copy :: "'w mountable_fs \<Rightarrow> system_time \<Rightarrow> rstr \<Rightarrow> rstr \<Rightarrow> (unit, 'w) fs_io" where
  "mf_copy mf t src dst =
     io_bind (mf_validate_path mf src) (\<lambda>_.
     io_bind (mf_validate_path mf dst) (\<lambda>_.
     case mf_resolve mf src of (from_fs, from_resolved) \<Rightarrow>
     case mf_resolve mf dst of (to_fs, to_resolved) \<Rightarrow>
       if v_id from_fs = v_id to_fs then v_copy from_fs t from_resolved to_resolved
       else io_bind (v_stat from_fs from_resolved) (\<lambda>meta.
            if file_type meta = FtSymlink
            then io_bind (v_read_link from_fs from_resolved) (\<lambda>target. v_symlink to_fs t target to_resolved)
            else io_bind (v_read_file from_fs from_resolved) (\<lambda>content. v_write_file to_fs t to_resolved content))))"

definition mf_symlink where
  "mf_symlink mf t target link = delegate mf link (\<lambda>fs p. v_symlink fs t target p)"

definition mf_read_link where
  "mf_read_link mf path = delegate mf path v_read_link"

definition mf_chmod where
  "mf_chmod mf t path m = delegate mf path (\<lambda>fs p. v_chmod fs t p m)"

definition mf_set_modified_time where
  "mf_set_modified_time mf now path t = delegate mf path (\<lambda>fs p. v_set_modified_time fs now p t)"

definition mf_mkfifo where
  "mf_mkfifo mf t path m = delegate mf path (\<lambda>fs p. v_mkfifo fs t p m)"

definition mf_usage :: "'w mountable_fs \<Rightarrow> 'w \<Rightarrow> fs_usage" where
  "mf_usage mf w = foldl (\<lambda>total m. let usage = v_usage (snd m) w in
       \<lparr>total_bytes = total_bytes total + total_bytes usage,
        file_count = file_count total + file_count usage,
        dir_count = dir_count total + dir_count usage\<rparr>)
     (v_usage (mf_root mf) w) (mf_mounts mf)"

definition mf_dyn :: "'w mountable_fs \<Rightarrow> 'w fs_dyn" where
  "mf_dyn mf =
     \<lparr>v_id = mf_id mf,
      v_read_file = mf_read_file mf,
      v_write_file = mf_write_file mf,
      v_append_file = mf_append_file mf,
      v_mkdir = mf_mkdir mf,
      v_remove = mf_remove mf,
      v_stat = mf_stat mf,
      v_read_dir = mf_read_dir mf,
      v_exists = mf_exists mf,
      v_rename = mf_rename mf,
      v_copy = mf_copy mf,
      v_symlink = mf_symlink mf,
      v_read_link = mf_read_link mf,
      v_chmod = mf_chmod mf,
      v_set_modified_time = mf_set_modified_time mf,
      v_mkfifo = mf_mkfifo mf,
      v_usage = mf_usage mf,
      v_limits = v_limits (mf_root mf),
      v_vfs_snapshot = v_vfs_snapshot (mf_root mf),
      v_vfs_restore = v_vfs_restore (mf_root mf)\<rparr>"

end
