(* ===== verification/MountableSafe.thy ===== *)
theory MountableSafe
  imports Mountable
begin

text \<open>
  A rename between two in-memory filesystems under a \<open>MountableFs\<close>: the file or link arrives with
  its content and mode and leaves the source, or nothing is lost; and where paths are routed.
\<close>

section \<open>What a rename looks at\<close>

definition cm_view :: "fs_entry option \<Rightarrow> cross_mount_entry option" where
  "cm_view e = (case e of
       Some (File c m) \<Rightarrow> Some (CFile c (mode m))
     | Some (LazyFile c m) \<Rightarrow> Some (CFile c (mode m))
     | Some (Symlink target _) \<Rightarrow> Some (CLink target)
     | _ \<Rightarrow> None)"

text \<open>
  An entry as it was: the same file, loaded or not, with its content and mode, the same link, or, for a directory, a fifo or
  a free path, exactly the same.
\<close>

definition as_before :: "fs_entry option \<Rightarrow> fs_entry option \<Rightarrow> bool" where
  "as_before e e' \<longleftrightarrow> (if cm_view e = None then e' = e else cm_view e' = cm_view e)"

lemma as_before_refl [simp]: "as_before e e"
  by (simp add: as_before_def)

lemma as_before_trans: "as_before a b \<Longrightarrow> as_before b c \<Longrightarrow> as_before a c"
  by (auto simp: as_before_def split: if_splits)

lemma as_before_view: "as_before e e' \<Longrightarrow> cm_view e' = cm_view e"
  by (auto simp: as_before_def split: if_splits)

text \<open>Only the entry at one path of one filesystem may differ.\<close>

definition touches :: "path_key \<Rightarrow> nat \<Rightarrow> fs_world \<Rightarrow> fs_world \<Rightarrow> bool" where
  "touches p i w w' \<longleftrightarrow> (\<forall>k. k \<noteq> i \<longrightarrow> w' k = w k) \<and> limits (w' i) = limits (w i) \<and>
     (\<forall>q. q \<noteq> p \<longrightarrow> map_of (entries (w' i)) q = map_of (entries (w i)) q)"

definition entry_at :: "fs_world \<Rightarrow> nat \<Rightarrow> path_key \<Rightarrow> fs_entry option" where
  "entry_at w i p = map_of (entries (w i)) p"

definition plain_key :: "path_key \<Rightarrow> bool" where
  "plain_key p \<longleftrightarrow> p \<notin> {key ''/dev/null'', key ''/dev/urandom'', key ''/dev/random''}"

lemma touches_refl [simp]: "touches p i w w"
  by (simp add: touches_def)

lemma touches_trans: "touches p i a b \<Longrightarrow> touches p i b c \<Longrightarrow> touches p i a c"
  by (simp add: touches_def)

lemma touches_other: "touches p i w w' \<Longrightarrow> j \<noteq> i \<Longrightarrow> entry_at w' j q = entry_at w j q"
  by (simp add: touches_def entry_at_def)

lemma on_fs_eq: "on_fs i f w = (r, w') \<longleftrightarrow> (\<exists>fs. f (w i) = (r, fs) \<and> w' = w(i := fs))"
  by (auto simp: on_fs_def split: prod.split)

lemma io_bind_Inr: "io_bind m k w = (Inr b, w'') \<longleftrightarrow> (\<exists>a w'. m w = (Inr a, w') \<and> k a w' = (Inr b, w''))"
  by (auto simp: io_bind_def split: prod.split sum.split)

lemma io_bind_Inl:
  "io_bind m k w = (Inl e, w'') \<longleftrightarrow> m w = (Inl e, w'') \<or> (\<exists>a w'. m w = (Inr a, w') \<and> k a w' = (Inl e, w''))"
  by (auto simp: io_bind_def split: prod.split sum.split)

lemma mem_dyn_simps [simp]:
  "v_exists (mem_dyn i rnd) p = on_fs i (path_exists p)"
  "v_stat (mem_dyn i rnd) p = on_fs i (stat p)"
  "v_read_file (mem_dyn i rnd) p = on_fs i (read_file rnd p)"
  "v_read_link (mem_dyn i rnd) p = on_fs i (read_link p)"
  "v_write_file (mem_dyn i rnd) t p c = on_fs i (write_file t p c)"
  "v_chmod (mem_dyn i rnd) t p m = on_fs i (chmod p m)"
  "v_symlink (mem_dyn i rnd) t target p = on_fs i (symlink t target p)"
  "v_remove (mem_dyn i rnd) t p r = on_fs i (remove p r)"
  "v_id (mem_dyn i rnd) = i"
  by (simp_all add: mem_dyn_def)

section \<open>Capturing and installing\<close>

lemma read_file_view:
  assumes "read_file rnd path fs = (r, fs')" and "p = components (normalize_path path)" and "plain_key p"
  shows "limits fs' = limits fs \<and> (\<forall>q. q \<noteq> p \<longrightarrow> map_of (entries fs') q = map_of (entries fs) q) \<and>
    as_before (map_of (entries fs) p) (map_of (entries fs') p) \<and>
    (\<forall>c. r = Inr c \<longrightarrow> content_of (map_of (entries fs) p) = Some c)"
  using assms
  by (auto simp: read_file_def on_path_def plain_key_def materialize_def Let_def as_before_def cm_view_def content_of_def
      update_conv' delete_conv' split: sum.splits option.splits fs_entry.splits prod.splits)

lemma lookup_results:
  "path_exists path fs = (Inr b, fs') \<Longrightarrow> fs' = fs \<and> b = contains_key (entries fs) (components (normalize_path path))"
  "stat path fs = (Inr m, fs') \<Longrightarrow> fs' = fs \<and>
     (\<exists>e. map_of (entries fs) (components (normalize_path path)) = Some e \<and> m = entry_metadata e)"
  "read_link path fs = (Inr target, fs') \<Longrightarrow> fs' = fs \<and>
     (\<exists>m. map_of (entries fs) (components (normalize_path path)) = Some (Symlink target m))"
  by (auto simp: path_exists_def stat_def read_link_def on_path_def split: sum.splits option.splits fs_entry.splits)

text \<open>Metadata say what kind of entry they belong to.\<close>

definition kinds_ok :: "fs_entries \<Rightarrow> bool" where
  "kinds_ok es \<longleftrightarrow> list_all (\<lambda>(_, e). case e of
       File _ m \<Rightarrow> file_type m = FtFile | LazyFile _ m \<Rightarrow> file_type m = FtFile
     | Directory m \<Rightarrow> file_type m = FtDirectory | Symlink _ m \<Rightarrow> file_type m = FtSymlink
     | Fifo _ m \<Rightarrow> file_type m = FtFifo) es"

lemma kinds_ok_lookup:
  assumes "kinds_ok es" and "map_of es p = Some e"
  shows "case e of File _ m \<Rightarrow> file_type m = FtFile | LazyFile _ m \<Rightarrow> file_type m = FtFile
     | Directory m \<Rightarrow> file_type m = FtDirectory | Symlink _ m \<Rightarrow> file_type m = FtSymlink
     | Fifo _ m \<Rightarrow> file_type m = FtFifo"
  using assms map_of_SomeD [OF assms(2)] by (auto simp: kinds_ok_def list_all_iff)

lemma lookup_state:
  "path_exists path fs = (r, fs') \<Longrightarrow> fs' = fs"
  "stat path fs = (r', fs') \<Longrightarrow> fs' = fs"
  "read_link path fs = (r'', fs') \<Longrightarrow> fs' = fs"
  using lookup_same by (metis snd_conv)+

lemma capture_mem:
  assumes "capture_cross_mount_entry (mem_dyn i rnd) path w = (r, w')"
    and "p = components (normalize_path path)" and "plain_key p"
  shows "touches p i w w' \<and> as_before (entry_at w i p) (entry_at w' i p) \<and>
    (kinds_ok (entries (w i)) \<longrightarrow> (\<forall>s. r = Inr s \<longrightarrow> s = cm_view (entry_at w i p) \<and> (s = None \<longrightarrow> entry_at w i p = None))) \<and>
    (r = Inr None \<longrightarrow> w' = w) \<and> (\<forall>s. r = Inr s \<longrightarrow> validate_path (limits (w i)) path = Inr ())"
proof -
  obtain r1 w1 where ex: "on_fs i (path_exists path) w = (r1, w1)" by (rule prod.exhaust)
  have w1: "w1 = w" using ex lookup_state(1) by (auto simp: on_fs_eq)
  obtain r2 w2 where st: "on_fs i (stat path) w = (r2, w2)" by (rule prod.exhaust)
  have w2: "w2 = w" using st lookup_state(2) by (auto simp: on_fs_eq)
  obtain r3 w3 where rd: "on_fs i (read_file rnd path) w = (r3, w3)" by (rule prod.exhaust)
  have w3: "touches p i w w3 \<and> as_before (entry_at w i p) (entry_at w3 i p) \<and>
      (\<forall>c. r3 = Inr c \<longrightarrow> content_of (entry_at w i p) = Some c)"
    using rd read_file_view [OF _ assms(2,3)] by (fastforce simp: on_fs_eq touches_def entry_at_def)
  obtain r4 w4 where rl: "on_fs i (read_link path) w = (r4, w4)" by (rule prod.exhaust)
  have w4: "w4 = w" using rl lookup_state(3) by (auto simp: on_fs_eq)
  have run: "(r, w') = (case r1 of Inl e \<Rightarrow> (Inl e, w) | Inr there \<Rightarrow>
      if \<not> there then (Inr None, w) else
      (case r2 of Inl e \<Rightarrow> (Inl e, w) | Inr md \<Rightarrow>
        (case file_type md of
           FtFile \<Rightarrow> (case r3 of Inl e \<Rightarrow> (Inl e, w3) | Inr c \<Rightarrow> (Inr (Some (CFile c (mode md))), w3))
         | FtSymlink \<Rightarrow> (case r4 of Inl e \<Rightarrow> (Inl e, w) | Inr target \<Rightarrow> (Inr (Some (CLink target)), w))
         | FtDirectory \<Rightarrow> (Inl NotSupported, w) | FtFifo \<Rightarrow> (Inl NotSupported, w))))"
    using assms(1) ex st rd rl w1 w2 w4
    by (auto simp: capture_cross_mount_entry_def io_defs split: sum.splits file_type.splits)
  have f1: "b \<longleftrightarrow> entry_at w i p \<noteq> None" if "r1 = Inr b" for b
    using ex that lookup_results(1) assms(2) by (fastforce simp: on_fs_eq entry_at_def contains_key_def)
  have f2: "\<exists>e. entry_at w i p = Some e \<and> md = entry_metadata e" if "r2 = Inr md" for md
    using st that lookup_results(2) assms(2) by (fastforce simp: on_fs_eq entry_at_def)
  have f4: "\<exists>m. entry_at w i p = Some (Symlink target m)" if "r4 = Inr target" for target
    using rl that lookup_results(3) assms(2) by (fastforce simp: on_fs_eq entry_at_def)
  have f5: "case e of File _ m \<Rightarrow> file_type m = FtFile | LazyFile _ m \<Rightarrow> file_type m = FtFile
     | Directory m \<Rightarrow> file_type m = FtDirectory | Symlink _ m \<Rightarrow> file_type m = FtSymlink
     | Fifo _ m \<Rightarrow> file_type m = FtFifo" if "kinds_ok (entries (w i))" "entry_at w i p = Some e" for e
    using kinds_ok_lookup that by (simp add: entry_at_def)
  have state: "w' = w \<or> w' = w3" using run by (auto split: sum.splits if_splits file_type.splits)
  have "s = cm_view (entry_at w i p) \<and> (s = None \<longrightarrow> entry_at w i p = None)"
    if kinds: "kinds_ok (entries (w i))" and r: "r = Inr s" for s
  proof (cases "entry_at w i p")
    case None
    then have "s = None" using run r f1 f2 by (fastforce split: sum.splits if_splits file_type.splits)
    then show ?thesis using None by (simp add: cm_view_def)
  next
    case (Some e)
    obtain md where md: "r2 = Inr md" "r1 = Inr True" using run r f1 Some by (fastforce split: sum.splits if_splits)
    then have e: "md = entry_metadata e" using f2 Some by fastforce
    show ?thesis
    proof (cases e)
      case (File c m)
      then have "file_type md = FtFile" using f5 [OF kinds Some] e by (simp add: entry_metadata_def)
      then obtain c' where "r3 = Inr c'" "s = Some (CFile c' (mode md))" using run r md by (auto split: sum.splits)
      then show ?thesis using w3 Some File e by (simp add: cm_view_def content_of_def entry_metadata_def)
    next
      case (LazyFile c m)
      then have "file_type md = FtFile" using f5 [OF kinds Some] e by (simp add: entry_metadata_def)
      then obtain c' where "r3 = Inr c'" "s = Some (CFile c' (mode md))" using run r md by (auto split: sum.splits)
      then show ?thesis using w3 Some LazyFile e by (simp add: cm_view_def content_of_def entry_metadata_def)
    next
      case (Symlink target m)
      then have "file_type md = FtSymlink" using f5 [OF kinds Some] e by (simp add: entry_metadata_def)
      then obtain target' where "r4 = Inr target'" "s = Some (CLink target')" using run r md by (auto split: sum.splits)
      then show ?thesis using f4 Some Symlink by (fastforce simp: cm_view_def)
    next
      case (Directory m)
      then have "file_type md = FtDirectory" using f5 [OF kinds Some] e by (simp add: entry_metadata_def)
      then show ?thesis using run r md by simp
    next
      case (Fifo c m)
      then have "file_type md = FtFifo" using f5 [OF kinds Some] e by (simp add: entry_metadata_def)
      then show ?thesis using run r md by simp
    qed
  qed
  moreover have "r = Inr None \<longrightarrow> w' = w" using run by (auto split: sum.splits if_splits file_type.splits)
  moreover have "validate_path (limits (w i)) path = Inr ()" if ok: "r = Inr s" for s
  proof -
    obtain b where "r1 = Inr b" using run ok by (auto split: sum.splits)
    then show ?thesis using ex on_path_valid unfolding path_exists_def by (fastforce simp: on_fs_eq)
  qed
  ultimately show ?thesis using state w3 by auto
qed

lemma remove_mem:
  assumes "on_fs i (remove path False) w = (r, w')" and "p = components (normalize_path path)"
  shows "touches p i w w' \<and> (r \<noteq> Inr () \<longrightarrow> w' = w) \<and> (r = Inr () \<longrightarrow> entry_at w' i p = None)"
  using assms
  by (auto simp: on_fs_eq remove_def on_path_def touches_def entry_at_def delete_conv' fun_upd_idem
      split: sum.splits option.splits if_splits)

lemma remove_mem_ok:
  assumes "cm_view (entry_at w i (components (normalize_path path))) \<noteq> None"
    and "validate_path (limits (w i)) path = Inr ()"
  shows "fst (on_fs i (remove path False) w) = Inr ()"
  using assms
  by (auto simp: on_fs_def remove_def on_path_def entry_at_def cm_view_def is_directory_def
      split: option.splits fs_entry.splits prod.splits)

lemma install_mem:
  assumes "install_cross_mount_entry t (mem_dyn i rnd) path e w = (r, w')"
    and "p = components (normalize_path path)" and "plain_key p" and "entry_at w i p = None"
  shows "touches p i w w' \<and> (r \<noteq> Inr () \<longrightarrow> w' = w) \<and> (r = Inr () \<longrightarrow> cm_view (entry_at w' i p) = Some e)"
proof (cases e)
  case (CFile content m)
  obtain r1 w1 where wr: "on_fs i (write_file t path content) w = (r1, w1)" by (rule prod.exhaust)
  obtain r2 w2 where ch: "on_fs i (chmod path m) w1 = (r2, w2)" by (rule prod.exhaust)
  have run: "(r, w') = (case r1 of Inl x \<Rightarrow> (Inl x, w1) | Inr _ \<Rightarrow> (r2, w2))"
    using assms(1) wr ch CFile by (auto simp: install_cross_mount_entry_def io_bind_def split: sum.splits)
  show ?thesis
  proof (cases r1)
    case (Inl x)
    have "snd (write_file t path content (w i)) = w i" using wr Inl by (intro write_file_fail) (auto simp: on_fs_eq)
    then have "w1 = w" using wr by (auto simp: on_fs_eq fun_upd_idem)
    then show ?thesis using run Inl by simp
  next
    case (Inr u)
    obtain fs' where fs': "write_file t path content (w i) = (Inr u, fs')" "w1 = w(i := fs')"
      using wr Inr by (auto simp: on_fs_eq)
    have valid: "validate_path (limits (w i)) path = Inr ()"
      by (rule on_path_valid [OF fs'(1) [unfolded write_file_def]])
    obtain f where f: "fs' = (w i)\<lparr>entries := AList.update p f (entries (w i))\<rparr>"
        "f = new_file content MODE_644 t"
      using fs'(1) assms(2-4) by (auto simp: write_file_def on_path_def entry_at_def plain_key_def split: sum.splits if_splits option.splits)
    have "r2 = Inr ()" "w2 = w(i := (w i)\<lparr>entries := AList.update p (update_metadata (\<lambda>d. d\<lparr>mode := m\<rparr>) f) (AList.update p f (entries (w i)))\<rparr>)"
      using ch valid fs'(2) f(1) assms(2) by (auto simp: on_fs_eq chmod_def on_path_def update_conv')
    then show ?thesis
      using run Inr f(2) CFile
      by (simp add: touches_def entry_at_def update_conv' cm_view_def update_metadata_def new_file_def)
  qed
next
  case (CLink target)
  then show ?thesis
    using assms
    by (auto simp: install_cross_mount_entry_def on_fs_eq symlink_def on_path_def Let_def touches_def entry_at_def
        update_conv' cm_view_def fun_upd_idem split: sum.splits)
qed

lemma restore_mem:
  assumes "restore_cross_mount_destination t (mem_dyn i rnd) path d w = (r, w')"
    and "p = components (normalize_path path)" and "plain_key p" and "entry_at w i p = None"
  shows "touches p i w w' \<and> (r = Inr () \<longrightarrow> cm_view (entry_at w' i p) = d \<and> (d = None \<longrightarrow> entry_at w' i p = None))"
proof -
  obtain r1 w1 where ex: "on_fs i (path_exists path) w = (r1, w1)" by (rule prod.exhaust)
  have w1: "w1 = w" using ex lookup_state(1) by (auto simp: on_fs_eq)
  have "b = False" if "r1 = Inr b" for b
    using ex that lookup_results(1) assms(2,4) by (fastforce simp: on_fs_eq entry_at_def contains_key_def)
  then have run: "(r, w') = (case r1 of Inl e \<Rightarrow> (Inl e, w) | Inr _ \<Rightarrow>
      (case d of None \<Rightarrow> (Inr (), w) | Some e \<Rightarrow> install_cross_mount_entry t (mem_dyn i rnd) path e w))"
    using assms(1) ex w1
    by (auto simp: restore_cross_mount_destination_def io_bind_def io_return_def split: sum.splits option.splits)
  show ?thesis
  proof (cases r1)
    case (Inr b)
    then show ?thesis
    proof (cases d)
      case None
      then show ?thesis using run Inr assms(4) by (simp add: cm_view_def)
    next
      case (Some e)
      then have "install_cross_mount_entry t (mem_dyn i rnd) path e w = (r, w')" using run Inr by simp
      from install_mem [OF this assms(2-4)] show ?thesis using Some by simp
    qed
  qed (use run in simp)
qed

section \<open>Nothing is lost\<close>

definition same_but :: "(nat \<times> path_key) set \<Rightarrow> fs_world \<Rightarrow> fs_world \<Rightarrow> bool" where
  "same_but X w w' \<longleftrightarrow> (\<forall>k u. (k, u) \<notin> X \<longrightarrow> entry_at w' k u = entry_at w k u)"

lemma touches_same_but: "touches p i w w' \<Longrightarrow> (i, p) \<in> X \<Longrightarrow> same_but X w w'"
  unfolding same_but_def touches_def entry_at_def by metis

lemma same_but_trans: "same_but X a b \<Longrightarrow> same_but X b c \<Longrightarrow> same_but X a c"
  by (simp add: same_but_def)

lemma touches_entry: "touches p i w w' \<Longrightarrow> k \<noteq> i \<Longrightarrow> w' k = w k"
  by (simp add: touches_def)

text \<open>From the state in which both ends are known to the end.\<close>

lemma move_known:
  assumes "io_bind (if d \<noteq> None then v_remove (mem_dyn j rnd') t dst False else io_return ()) (\<lambda>_.
         or_roll_back (install_cross_mount_entry t (mem_dyn j rnd') dst source)
           (restore_cross_mount_destination t (mem_dyn j rnd') dst d)
           (or_roll_back (v_remove (mem_dyn i rnd) t src False)
              (restore_cross_mount_destination t (mem_dyn j rnd') dst d)
              (io_return ()))) w = (r, w')"
    and "i \<noteq> j" and "p = components (normalize_path src)" and "q = components (normalize_path dst)"
    and "plain_key q" and "cm_view (entry_at w i p) = Some source" and "validate_path (limits (w i)) src = Inr ()"
    and "cm_view (entry_at w j q) = d" and "d = None \<longrightarrow> entry_at w j q = None"
  shows "same_but {(i, p), (j, q)} w w' \<and>
    (case r of
       Inr _ \<Rightarrow> cm_view (entry_at w' j q) = Some source \<and> entry_at w' i p = None
     | Inl e \<Rightarrow> w' i = w i \<and> ((\<exists>a b. e = RollbackFailed a b) \<or> as_before (entry_at w j q) (entry_at w' j q)))"
proof -
  let ?X = "{(i, p), (j, q)}"
  obtain r3 w3 where rm: "(if d \<noteq> None then v_remove (mem_dyn j rnd') t dst False else io_return ()) w = (r3, w3)"
    by (rule prod.exhaust)
  have rm3: "touches q j w w3" "r3 \<noteq> Inr () \<longrightarrow> w3 = w" "r3 = Inr () \<longrightarrow> entry_at w3 j q = None"
    using rm remove_mem [of j dst w r3 w3 q] assms(4,9) by (auto simp: io_return_def split: if_splits)
  show ?thesis
  proof (cases r3)
    case (Inl e)
    then have "w' = w" "r = Inl e" using assms(1) rm rm3(2) by (simp_all add: io_bind_def)
    then show ?thesis using assms(8) by (simp add: same_but_def)
  next
    case (Inr u)
    then have empty: "entry_at w3 j q = None" using rm3(3) by simp
    obtain r4 w4 where ins: "install_cross_mount_entry t (mem_dyn j rnd') dst source w3 = (r4, w4)" by (rule prod.exhaust)
    note ins4 = install_mem [OF ins assms(4,5) empty]
    have i4: "w4 i = w i" using ins4 rm3(1) assms(2) touches_entry by metis
    show ?thesis
    proof (cases r4)
      case (Inl e)
      obtain r5 w5 where rb: "restore_cross_mount_destination t (mem_dyn j rnd') dst d w3 = (r5, w5)" by (rule prod.exhaust)
      note rb5 = restore_mem [OF rb assms(4,5) empty]
      have "w' = w5" "r = (case r5 of Inr _ \<Rightarrow> Inl e | Inl e' \<Rightarrow> Inl (RollbackFailed e e'))"
        using assms(1) rm Inr ins Inl ins4 rb
        by (auto simp: io_bind_def or_roll_back_def io_try_def io_fail_def split: sum.splits)
      moreover have "same_but ?X w w5"
        using same_but_trans [OF touches_same_but [OF rm3(1)] touches_same_but [of q j w3 w5]] rb5 by simp
      moreover have "w5 i = w i"
        using touches_entry [OF rm3(1) assms(2)] touches_entry [of q j w3 w5 i] rb5 assms(2) by simp
      ultimately show ?thesis using rb5 assms(8,9) by (auto simp: as_before_def split: sum.splits)
    next
      case (Inr u')
      have "fst (on_fs i (remove src False) w4) = Inr ()"
        using remove_mem_ok [of w4 i src] assms(3,6,7) i4 by (simp add: entry_at_def)
      then obtain w6 where w6: "on_fs i (remove src False) w4 = (Inr (), w6)"
        by (cases "on_fs i (remove src False) w4") auto
      note rm6 = remove_mem [OF w6 assms(3)]
      have "w' = w6" "r = Inr ()"
        using assms(1) rm \<open>r3 = Inr u\<close> ins Inr w6 by (auto simp: io_bind_def or_roll_back_def io_try_def io_return_def)
      moreover have "same_but ?X w w6"
        using same_but_trans [OF same_but_trans [OF touches_same_but [OF rm3(1)] touches_same_but [of q j w3 w4]]
            touches_same_but [of p i w4 w6]] rm6 ins4 by simp
      moreover have "w6 j = w4 j" using rm6 assms(2) touches_entry by metis
      ultimately show ?thesis using rm6 ins4 Inr by (simp add: entry_at_def)
    qed
  qed
qed

text \<open>
  Property C21: a rename from one in-memory filesystem to another moves a file or link whole or not at
  all. No other entry of any filesystem changes. If it succeeds, the destination has the content and
  mode, or the link target, of the source, the source is gone, and the destination was free or a file or link before: a directory or a
  fifo at either end is refused and stays exactly as it is. If it fails, the source is as it
  was, and so is the destination unless the error says that putting it back failed too (TM-FS-014). The three devices
  are left out, and the metadata of the entries must name their type.
\<close>

theorem cross_mount_rename_moves:
  assumes "cross_mount_rename t (mem_dyn i rnd) src (mem_dyn j rnd') dst w = (r, w')" and "i \<noteq> j"
    and "p = components (normalize_path src)" and "q = components (normalize_path dst)"
    and "plain_key p" and "plain_key q" and "kinds_ok (entries (w i))" and "kinds_ok (entries (w j))"
  shows "same_but {(i, p), (j, q)} w w' \<and>
    (cm_view (entry_at w j q) = None \<and> entry_at w j q \<noteq> None \<longrightarrow> (\<exists>e. r = Inl e) \<and> entry_at w' j q = entry_at w j q) \<and>
    (case r of
       Inr _ \<Rightarrow> cm_view (entry_at w' j q) = cm_view (entry_at w i p) \<and> cm_view (entry_at w i p) \<noteq> None \<and>
                entry_at w' i p = None
     | Inl e \<Rightarrow> as_before (entry_at w i p) (entry_at w' i p) \<and>
                ((\<exists>a b. e = RollbackFailed a b) \<or> as_before (entry_at w j q) (entry_at w' j q)))"
proof -
  let ?X = "{(i, p), (j, q)}"
  obtain r1 w1 where c1: "capture_cross_mount_entry (mem_dyn i rnd) src w = (r1, w1)" by (rule prod.exhaust)
  note cap1 = capture_mem [OF c1 assms(3,5)]
  have j1: "w1 j = w j" using cap1 assms(2) touches_entry by metis
  have same1: "same_but ?X w w1" using cap1 touches_same_but by blast
  show ?thesis
  proof (cases "\<exists>source. r1 = Inr (Some source)")
    case False
    then have "w' = w1" "\<exists>e. r = Inl e" using assms(1) c1
      by (auto simp: cross_mount_rename_def io_bind_def io_fail_def split: sum.splits option.splits)
    then show ?thesis using cap1 j1 same1 by (auto simp: entry_at_def)
  next
    case True
    then obtain source where source: "r1 = Inr (Some source)" by blast
    obtain r2 w2 where c2: "capture_cross_mount_entry (mem_dyn j rnd') dst w1 = (r2, w2)" by (rule prod.exhaust)
    note cap2 = capture_mem [OF c2 assms(4,6)]
    have i2: "w2 i = w1 i" using cap2 assms(2) touches_entry by metis
    have same2: "same_but ?X w w2" using same1 cap2 touches_same_but same_but_trans by blast
    have kept: "as_before (entry_at w i p) (entry_at w2 i p)" "as_before (entry_at w j q) (entry_at w2 j q)"
      using cap1 cap2 i2 j1 by (simp_all add: entry_at_def)
    note view = kept [THEN as_before_view]
    show ?thesis
    proof (cases r2)
      case (Inl e)
      then have "w' = w2" "r = Inl e" using assms(1) c1 c2 source
        by (auto simp: cross_mount_rename_def io_bind_def)
      then show ?thesis using kept same2 by (auto simp: as_before_def)
    next
      case (Inr d)
      have d: "cm_view (entry_at w2 j q) = d" "d = None \<longrightarrow> entry_at w2 j q = None" "d = None \<longrightarrow> entry_at w j q = None"
        using cap2 Inr assms(8) j1 view(2) by (auto simp: entry_at_def)
      have src: "cm_view (entry_at w2 i p) = Some source" "validate_path (limits (w2 i)) src = Inr ()"
        using cap1 source assms(7) view(1) i2 by (auto simp: touches_def)
      have "io_bind (if d \<noteq> None then v_remove (mem_dyn j rnd') t dst False else io_return ()) (\<lambda>_.
         or_roll_back (install_cross_mount_entry t (mem_dyn j rnd') dst source)
           (restore_cross_mount_destination t (mem_dyn j rnd') dst d)
           (or_roll_back (v_remove (mem_dyn i rnd) t src False)
              (restore_cross_mount_destination t (mem_dyn j rnd') dst d)
              (io_return ()))) w2 = (r, w')"
        using assms(1) c1 c2 source Inr by (simp add: cross_mount_rename_def io_bind_def)
      note moved = move_known [OF this assms(2-4,6) src d(1,2)]
      have "entry_at w' i p = entry_at w2 i p" if "w' i = w2 i" using that by (simp add: entry_at_def)
      moreover have "\<exists>e. cm_view (entry_at w i p) = Some e" using view(1) src(1) by (metis (no_types))
      ultimately show ?thesis using moved same2 same_but_trans view src(1) d(1,3) kept as_before_trans by (auto split: sum.splits)
    qed
  qed
qed

definition demo_world :: fs_world where
  "demo_world = (\<lambda>k. if k = 0
     then (new_fs 0)\<lparr>entries := AList.update (key ''/tmp/f'') (new_file [7, 8] MODE_755 0) (entries (new_fs 0))\<rparr>
     else new_fs 0)"

lemma demo_keys:
  "components (normalize_path (lit ''/tmp/f'')) = key ''/tmp/f''"
  "components (normalize_path (lit ''/home/g'')) = key ''/home/g''"
  "plain_key (key ''/tmp/f'')" "plain_key (key ''/home/g'')"
  by (simp_all add: path_eval plain_key_def key_def)

lemma demo_kinds: "kinds_ok (entries (demo_world k))"
  by (simp add: demo_world_def kinds_ok_def new_fs_def with_limits_def new_directory_def new_file_def new_metadata_def
      path_eval key_def)

theorem cross_mount_rename_moves_witness:
  "case cross_mount_rename 5 (mem_dyn 0 (\<lambda>_. None)) (lit ''/tmp/f'') (mem_dyn 1 (\<lambda>_. None)) (lit ''/home/g'') demo_world of
     (r, w') \<Rightarrow> same_but {(0, key ''/tmp/f''), (1, key ''/home/g'')} demo_world w'"
proof -
  obtain r w' where run: "cross_mount_rename 5 (mem_dyn 0 (\<lambda>_. None)) (lit ''/tmp/f'') (mem_dyn 1 (\<lambda>_. None)) (lit ''/home/g'') demo_world = (r, w')"
    by (rule prod.exhaust)
  show ?thesis
    using cross_mount_rename_moves [OF run _ demo_keys(1,2) [symmetric] demo_keys(3,4) demo_kinds demo_kinds] run by simp
qed

section \<open>What a mounted filesystem receives\<close>

lemma longest_mount_in:
  "longest_mount path ms best = Some m \<Longrightarrow> best = Some m \<or> m \<in> set ms \<and> path_starts_with path (components (fst m))"
proof (induction path ms best rule: longest_mount.induct)
  case (2 path m' ms best)
  from 2(1) [OF 2(2) [unfolded longest_mount.simps]] show ?case
    by (auto split: if_splits option.splits)
qed simp

definition mounts_normal :: "'w mountable_fs \<Rightarrow> bool" where
  "mounts_normal mf \<longleftrightarrow> list_all (\<lambda>(p, _). p = normalize_path p) (mf_mounts mf)"

lemma normal_update:
  "list_all (\<lambda>(p, _). p = normalize_path p) ms \<Longrightarrow>
   list_all (\<lambda>(p, _). p = normalize_path p) (AList.update (normalize_path path) fs ms)"
  using normalize_path_contained by (induction ms) auto

lemma normal_delete:
  "list_all (\<lambda>(p, _). p = normalize_path p) ms \<Longrightarrow> list_all (\<lambda>(p, _). p = normalize_path p) (AList.delete k ms)"
  by (induction ms) auto

lemma mounts_normal_ops:
  "mounts_normal (new_mountable addr root)"
  "mounts_normal mf \<Longrightarrow> mounts_normal (snd (mf_mount path fs mf))"
  "mounts_normal mf \<Longrightarrow> mounts_normal (snd (mf_unmount path mf))"
  by (simp_all add: mounts_normal_def new_mountable_def mf_mount_def mf_unmount_def Let_def normal_update normal_delete)

lemma resolve_segments:
  assumes "mounts_normal mf" and "mf_resolve mf path = (fs, sub)"
  shows "\<exists>n. normal_segments sub = drop n (normal_segments path)"
proof -
  let ?ps = "normal_segments path"
  have ps: "list_all proper_segment ?ps" by (rule normal_segments_list_all)
  have norm: "normalize_path path = abs_text ?ps" by (rule normalize_path_text)
  show ?thesis
  proof (cases "longest_mount (components (normalize_path path)) (mf_mounts mf) None")
    case None
    then have "sub = abs_text ?ps" using assms(2) norm by (simp add: mf_resolve_def)
    then show ?thesis using ps by (auto intro: exI [of _ 0])
  next
    case (Some m)
    obtain target v where m: "m = (target, v)" by (rule prod.exhaust)
    have in_mounts: "m \<in> set (mf_mounts mf)" "path_starts_with (components (normalize_path path)) (components (fst m))"
      using longest_mount_in [OF Some] by auto
    have fixed: "target = normalize_path target"
      using in_mounts(1) assms(1) unfolding m mounts_normal_def list_all_iff by blast
    have t: "target = abs_text (normal_segments target)" by (rule trans [OF fixed normalize_path_text])
    have "path_starts_with (components (abs_text ?ps)) (components target)"
      using in_mounts(2) unfolding m norm fst_conv .
    then have "path_starts_with (components (abs_text ?ps)) (components (abs_text (normal_segments target)))"
      by (rule subst [OF t])
    then have pre: "prefix (normal_segments target) ?ps"
      using ps normal_segments_list_all [of target] by (simp add: path_starts_with_def components_abs_text prefix_map_Normal)
    let ?rest = "drop (length (normal_segments target)) ?ps"
    have rest: "list_all proper_segment ?rest" using ps by (auto simp: list_all_iff dest: in_set_dropD)
    have "strip_path_prefix (abs_text ?ps) target = Some (join_slash ?rest)"
      using strip_prefix_text [OF normal_segments_list_all [of target] ps] pre by (simp flip: t)
    then have "sub = (if join_slash ?rest = [] then lit ''/'' else path_join (lit ''/'') (join_slash ?rest))"
      using assms(2) Some m norm by (simp add: mf_resolve_def Let_def split: if_splits)
    also have "\<dots> = abs_text ?rest"
      using join_slash_not_Nil [OF rest] path_join_text [of "[]" ?rest] rest
      by (cases "?rest = []") (simp_all add: abs_text_def)
    finally show ?thesis using rest by auto
  qed
qed

text \<open>
  A mounted filesystem never sees a path that breaks the limits of the root. An operation
  either fails with the limit that is violated, and no filesystem is called, or hands a mounted
  filesystem a path with at most \<open>max_path_depth\<close> segments, none longer than \<open>max_filename_length\<close> or
  holding an unsafe character (TM-DOS-046).
\<close>

theorem delegated_paths_are_safe:
  assumes "mounts_normal mf" and "length path < 2 ^ 63"
  shows "(\<exists>e. delegate mf path op w = (Err (LimitErr e), w)) \<or>
    (\<exists>fs sub. delegate mf path op w = op fs sub w \<and>
       length (normal_segments sub) \<le> unat (max_path_depth (v_limits (mf_root mf) w)) \<and>
       list_all (\<lambda>s. path_str_len s \<le> max_filename_length (v_limits (mf_root mf) w) \<and> set s \<inter> unsafe_chars = {})
         (normal_segments sub))"
proof (cases "validate_path (v_limits (mf_root mf) w) path")
  case (Inl e)
  then show ?thesis by (simp add: delegate_def mf_validate_path_def io_bind_def)
next
  case (Inr u)
  obtain fs sub where r: "mf_resolve mf path = (fs, sub)" by (rule prod.exhaust)
  obtain n where n: "normal_segments sub = drop n (normal_segments path)"
    using resolve_segments [OF assms(1) r] by blast
  let ?l = "v_limits (mf_root mf) w"
  have "length (normal_segments path) \<le> unat (max_path_depth ?l)" "list_all (good_name ?l) (normal_segments path)"
    using validate_path_segments [OF Inr [unfolded unit_eq] assms(2)] by auto
  then have "length (normal_segments sub) \<le> unat (max_path_depth ?l)" "list_all (good_name ?l) (normal_segments sub)"
    using n by (auto simp: list_all_iff dest: in_set_dropD)
  then show ?thesis
    using Inr r by (auto simp: delegate_def mf_validate_path_def io_bind_def good_name_def list_all_iff)
qed

theorem delegated_paths_are_safe_witness:
  "(\<exists>e. delegate (new_mountable 9 (mem_dyn 0 (\<lambda>_. None))) (lit ''/a/../tmp'') v_stat demo_world = (Err (LimitErr e), demo_world)) \<or>
   (\<exists>(fs :: fs_world fs_dyn) sub. delegate (new_mountable 9 (mem_dyn 0 (\<lambda>_. None))) (lit ''/a/../tmp'') v_stat demo_world = v_stat fs sub demo_world \<and>
      length (normal_segments sub) \<le> 100)"
proof -
  let ?mf = "new_mountable 9 (mem_dyn 0 (\<lambda>_. None))"
  have depth: "unat (max_path_depth (v_limits (mf_root ?mf) demo_world)) = 100"
    by (simp add: new_mountable_def mem_dyn_def demo_world_def new_fs_def with_limits_def default_fs_limits_def)
  have len: "length (lit ''/a/../tmp'') < 2 ^ 63" by (simp add: lit_def)
  show ?thesis
    using delegated_paths_are_safe [OF mounts_normal_ops(1) [of 9 "mem_dyn 0 (\<lambda>_. None)"] len, of v_stat demo_world]
    unfolding depth
  proof (elim disjE exE conjE, goal_cases)
    case (1 e)
    then show ?case by (intro disjI1 exI)
  next
    case (2 fs sub)
    then show ?case by (intro disjI2 exI conjI)
  qed
qed

end
