(* ===== verification/Overlay.thy ===== *)
theory Overlay
  imports FsDyn PathText
begin

text \<open>
  \<open>OverlayFs\<close> of \<open>bashkit/src/fs/overlay.rs\<close>: a writable in-memory layer over a filesystem that is
  only read. Deleted paths of the lower layer are kept as whiteouts, and the usage the lower layer
  contributes is corrected by what overrides and whiteouts hide. The state of an operation is that of
  the overlay and that of the lower filesystem. Two loops follow the directory tree of the lower
  layer and have a fuel, the argument \<open>n\<close>; the order in which a \<open>HashMap\<close> yields a directory's
  entries is that of the layers.
\<close>

section \<open>State\<close>

record 'w overlay_fs =
  ov_lower :: "'w fs_dyn"
  ov_upper :: mem_fs
  whiteouts :: "path_key set"
  ov_limits :: fs_limits
  lower_hidden :: fs_usage
  lower_hidden_paths :: "path_key set"

type_synonym 'w ov = "'w overlay_fs \<times> 'w"

definition default_usage :: fs_usage where
  "default_usage = \<lparr>total_bytes = 0, file_count = 0, dir_count = 0\<rparr>"

definition ov_with_limits :: "system_time \<Rightarrow> 'w fs_dyn \<Rightarrow> fs_limits \<Rightarrow> 'w overlay_fs" where
  "ov_with_limits t lower l =
     \<lparr>ov_lower = lower, ov_upper = with_limits l t, whiteouts = {}, ov_limits = l,
      lower_hidden = default_usage, lower_hidden_paths = {}\<rparr>"

definition new_overlay :: "system_time \<Rightarrow> 'w fs_dyn \<Rightarrow> 'w overlay_fs" where
  "new_overlay t lower = ov_with_limits t lower default_fs_limits"

text \<open>A call on the lower layer, a call on the upper layer, a change of the overlay's own fields.\<close>

definition low :: "('w fs_dyn \<Rightarrow> ('a, 'w) fs_io) \<Rightarrow> ('a, 'w ov) fs_io" where
  "low f s = (case s of (ov, w) \<Rightarrow> case f (ov_lower ov) w of (r, w') \<Rightarrow> (r, (ov, w')))"

definition up :: "(mem_fs \<Rightarrow> (fs_error + 'a) \<times> mem_fs) \<Rightarrow> ('a, 'w ov) fs_io" where
  "up f s = (case s of (ov, w) \<Rightarrow> case f (ov_upper ov) of (r, u) \<Rightarrow> (r, (ov\<lparr>ov_upper := u\<rparr>, w)))"

definition own :: "('w overlay_fs \<Rightarrow> 'w overlay_fs) \<Rightarrow> (unit, 'w ov) fs_io" where
  "own f s = (case s of (ov, w) \<Rightarrow> (Ok (), (f ov, w)))"

definition ask :: "('w overlay_fs \<Rightarrow> 'w \<Rightarrow> fs_error + 'a) \<Rightarrow> ('a, 'w ov) fs_io" where
  "ask f s = (case s of (ov, w) \<Rightarrow> (f ov w, s))"

text \<open>\<open>exists(..).await.unwrap_or(false)\<close> on either layer.\<close>

definition upper_exists :: "rstr \<Rightarrow> (bool, 'w ov) fs_io" where
  "upper_exists path = io_bind (io_try (up (path_exists path))) (\<lambda>r. io_return (unwrap_or_false r))"

definition lower_exists :: "rstr \<Rightarrow> (bool, 'w ov) fs_io" where
  "lower_exists path = io_bind (io_try (low (\<lambda>v. v_exists v path))) (\<lambda>r. io_return (unwrap_or_false r))"

section \<open>Usage and whiteouts\<close>

definition ov_compute_usage :: "'w overlay_fs \<Rightarrow> 'w \<Rightarrow> fs_usage" where
  "ov_compute_usage ov w =
     (let u = compute_usage (ov_upper ov); l = v_usage (ov_lower ov) w; h = lower_hidden ov
      in \<lparr>total_bytes = sat_sub (sat_add (total_bytes u) (total_bytes l)) (total_bytes h),
          file_count = sat_sub (sat_add (file_count u) (file_count l)) (file_count h),
          dir_count = sat_sub (sat_add (dir_count u) (dir_count l)) (dir_count h)\<rparr>)"

definition hide_lower_file :: "rstr \<Rightarrow> u64 \<Rightarrow> 'w overlay_fs \<Rightarrow> 'w overlay_fs" where
  "hide_lower_file path n ov =
     (let p = components (normalize_path path)
      in if p \<in> lower_hidden_paths ov then ov
         else ov\<lparr>lower_hidden_paths := insert p (lower_hidden_paths ov),
                 lower_hidden := (lower_hidden ov)\<lparr>total_bytes := sat_add (total_bytes (lower_hidden ov)) n,
                                                   file_count := sat_add (file_count (lower_hidden ov)) 1\<rparr>\<rparr>)"

definition hide_lower_dir :: "rstr \<Rightarrow> 'w overlay_fs \<Rightarrow> 'w overlay_fs" where
  "hide_lower_dir path ov =
     (let p = components (normalize_path path)
      in if p \<in> lower_hidden_paths ov then ov
         else ov\<lparr>lower_hidden_paths := insert p (lower_hidden_paths ov),
                 lower_hidden := (lower_hidden ov)\<lparr>dir_count := sat_add (dir_count (lower_hidden ov)) 1\<rparr>\<rparr>)"

text \<open>A path is deleted when it or a directory above it has a whiteout.\<close>

definition is_whiteout :: "'w overlay_fs \<Rightarrow> rstr \<Rightarrow> bool" where
  "is_whiteout ov path =
     (let p = components (normalize_path path) in list_ex (\<lambda>q. q \<in> whiteouts ov) (p # ancestors p))"

definition add_whiteout :: "rstr \<Rightarrow> 'w overlay_fs \<Rightarrow> 'w overlay_fs" where
  "add_whiteout path ov = ov\<lparr>whiteouts := insert (components (normalize_path path)) (whiteouts ov)\<rparr>"

definition remove_whiteout :: "rstr \<Rightarrow> 'w overlay_fs \<Rightarrow> 'w overlay_fs" where
  "remove_whiteout path ov = ov\<lparr>whiteouts := whiteouts ov - {components (normalize_path path)}\<rparr>"

text \<open>
  \<open>hide_lower_children_recursive\<close>: the loop over the entries of a lower directory, which goes into
  each subdirectory.
\<close>

fun hide_lower_children :: "nat \<Rightarrow> system_time \<Rightarrow> rstr \<Rightarrow> (unit, 'w ov) fs_io"
  and hide_each :: "nat \<Rightarrow> system_time \<Rightarrow> rstr \<Rightarrow> dir_entry list \<Rightarrow> (unit, 'w ov) fs_io" where
  "hide_lower_children 0 t dir = io_return ()"
| "hide_lower_children (Suc n) t dir =
     io_bind (io_try (low (\<lambda>v. v_read_dir v t dir))) (\<lambda>r.
     case r of Inl _ \<Rightarrow> io_return () | Inr es \<Rightarrow> hide_each n t dir es)"
| "hide_each n t dir [] = io_return ()"
| "hide_each n t dir (e # es) =
     (let child = path_join dir (fst e)
      in io_bind (ask (\<lambda>ov _. Ok (is_whiteout ov child))) (\<lambda>gone.
         if gone then hide_each n t dir es
         else io_bind (io_try (low (\<lambda>v. v_stat v child))) (\<lambda>r.
              io_bind (case r of
                  Inl _ \<Rightarrow> io_return ()
                | Inr meta \<Rightarrow>
                    if file_type meta = FtDirectory
                    then io_bind (own (hide_lower_dir child)) (\<lambda>_.
                         io_bind (hide_lower_children n t child) (\<lambda>_.
                         own (add_whiteout child)))
                    else io_bind (upper_exists child) (\<lambda>in_upper.
                         if in_upper then io_return ()
                         else own (\<lambda>ov. add_whiteout child (hide_lower_file child (meta_size meta) ov)))) (\<lambda>_.
              hide_each n t dir es))))"

section \<open>Limits\<close>

definition check_write_limits_u64 :: "u64 \<Rightarrow> (unit, 'w ov) fs_io" where
  "check_write_limits_u64 content_size = ask (\<lambda>ov w.
     if max_file_size (ov_limits ov) < content_size
     then Err (LimitErr (FileSize content_size (max_file_size (ov_limits ov))))
     else let usage = ov_compute_usage ov w; new_total = total_bytes usage + content_size
          in if max_total_bytes (ov_limits ov) < new_total
             then Err (FilesystemFull new_total (max_total_bytes (ov_limits ov)))
             else if max_file_count (ov_limits ov) \<le> file_count usage
             then Err (LimitErr (FileCount (file_count usage) (max_file_count (ov_limits ov))))
             else Ok ())"

definition ov_check_write_limits :: "bytes \<Rightarrow> (unit, 'w ov) fs_io" where
  "ov_check_write_limits content = check_write_limits_u64 (bytes_len content)"

definition check_dir_limits :: "u64 \<Rightarrow> (unit, 'w ov) fs_io" where
  "check_dir_limits dirs_to_create = ask (\<lambda>ov w.
     let usage = ov_compute_usage ov w
     in if max_dir_count (ov_limits ov) < sat_add (dir_count usage) dirs_to_create
        then Err (LimitErr (DirCount (dir_count usage) (max_dir_count (ov_limits ov)))) else Ok ())"

fun count_missing_loop :: "path_key \<Rightarrow> component list \<Rightarrow> u64 \<Rightarrow> (u64, 'w ov) fs_io" where
  "count_missing_loop current [] missing = io_return missing"
| "count_missing_loop current (c # cs) missing =
     io_bind (upper_exists (path_string (current @ [c]))) (\<lambda>there.
     count_missing_loop (current @ [c]) cs (if there then missing else sat_add missing 1))"

definition count_missing_upper_dirs :: "rstr \<Rightarrow> bool \<Rightarrow> (u64, 'w ov) fs_io" where
  "count_missing_upper_dirs path recursive =
     (if \<not> recursive
      then io_bind (upper_exists path) (\<lambda>there. io_return (if there then 0 else 1))
      else count_missing_loop [RootDir] (drop 1 (components path)) 0)"

section \<open>Reading\<close>

text \<open>\<open>self.limits.validate_path(path)\<close>, then the rest on the normalised path.\<close>

definition ov_path :: "rstr \<Rightarrow> (rstr \<Rightarrow> ('a, 'w ov) fs_io) \<Rightarrow> ('a, 'w ov) fs_io" where
  "ov_path path k =
     io_bind (ask (\<lambda>ov _. case validate_path (ov_limits ov) path of Inl e \<Rightarrow> Err (LimitErr e) | Inr _ \<Rightarrow> Ok ()))
       (\<lambda>_. k (normalize_path path))"

definition whited_out :: "rstr \<Rightarrow> (bool, 'w ov) fs_io" where
  "whited_out path = ask (\<lambda>ov _. Ok (is_whiteout ov path))"

text \<open>A deleted path is not found, one in the upper layer is answered there, the others below.\<close>

definition read_through ::
  "fs_error \<Rightarrow> (mem_fs \<Rightarrow> (fs_error + 'a) \<times> mem_fs) \<Rightarrow> ('w fs_dyn \<Rightarrow> ('a, 'w) fs_io) \<Rightarrow> rstr \<Rightarrow> ('a, 'w ov) fs_io" where
  "read_through missing upper lower path =
     io_bind (whited_out path) (\<lambda>gone.
     if gone then io_fail missing
     else io_bind (upper_exists path) (\<lambda>in_upper.
          if in_upper then up upper else low lower))"

definition ov_read_file :: "(nat \<Rightarrow> bytes option) \<Rightarrow> rstr \<Rightarrow> (bytes, 'w ov) fs_io" where
  "ov_read_file rnd path = ov_path path (\<lambda>path.
     read_through FileNotFound (read_file rnd path) (\<lambda>v. v_read_file v path) path)"

definition ov_stat :: "rstr \<Rightarrow> (metadata, 'w ov) fs_io" where
  "ov_stat path = ov_path path (\<lambda>path. read_through NotFound (stat path) (\<lambda>v. v_stat v path) path)"

definition ov_read_link :: "rstr \<Rightarrow> (rstr, 'w ov) fs_io" where
  "ov_read_link path = ov_path path (\<lambda>path. read_through NotFound (read_link path) (\<lambda>v. v_read_link v path) path)"

definition ov_exists :: "rstr \<Rightarrow> (bool, 'w ov) fs_io" where
  "ov_exists path = ov_path path (\<lambda>path.
     io_bind (whited_out path) (\<lambda>gone.
     if gone then io_return False
     else io_bind (upper_exists path) (\<lambda>in_upper.
          if in_upper then io_return True else low (\<lambda>v. v_exists v path))))"

text \<open>Is the path a directory in the layer? In the upper layer anything else ends the listing.\<close>

definition dir_in_upper :: "rstr \<Rightarrow> (bool, 'w ov) fs_io" where
  "dir_in_upper path = io_bind (io_try (up (stat path))) (\<lambda>r.
     case r of Inl _ \<Rightarrow> io_return False
     | Inr meta \<Rightarrow> if file_type meta = FtDirectory then io_return True else io_fail NotADirectory)"

definition dir_in_lower :: "system_time \<Rightarrow> rstr \<Rightarrow> bool \<Rightarrow> (bool, 'w ov) fs_io" where
  "dir_in_lower t path is_dir_upper = io_bind (io_try (low (\<lambda>v. v_stat v path))) (\<lambda>r.
     case r of Inl _ \<Rightarrow> io_return False
     | Inr meta \<Rightarrow>
         if file_type meta = FtDirectory then io_return True
         else if \<not> is_dir_upper then io_fail NotADirectory else io_return False)"

text \<open>Entries by name: a later one replaces an earlier one.\<close>

definition insert_entries :: "dir_entry list \<Rightarrow> dir_entry list \<Rightarrow> dir_entry list" where
  "insert_entries new old = foldl (\<lambda>es e. AList.update (fst e) (snd e) es) old new"

definition ov_read_dir :: "system_time \<Rightarrow> rstr \<Rightarrow> (dir_entry list, 'w ov) fs_io" where
  "ov_read_dir t path = ov_path path (\<lambda>path.
     io_bind (whited_out path) (\<lambda>gone.
     if gone then io_fail NotFound
     else io_bind (dir_in_upper path) (\<lambda>is_dir_upper.
          io_bind (dir_in_lower t path is_dir_upper) (\<lambda>is_dir_lower.
          if \<not> is_dir_lower \<and> \<not> is_dir_upper then io_fail NotFound
          else
            io_bind (if is_dir_lower then io_try (low (\<lambda>v. v_read_dir v t path)) else io_return (Ok [])) (\<lambda>lower_entries.
            io_bind (ask (\<lambda>ov _. Ok (case lower_entries of Inl _ \<Rightarrow> []
                | Inr es \<Rightarrow> insert_entries (filter (\<lambda>e. \<not> is_whiteout ov (path_join path (fst e))) es) []))) (\<lambda>es.
            io_bind (if is_dir_upper then io_try (up (read_dir path)) else io_return (Ok [])) (\<lambda>upper_entries.
            io_return (case upper_entries of Inl _ \<Rightarrow> es | Inr us \<Rightarrow> insert_entries us es))))))))"

section \<open>Writing\<close>

text \<open>The parent directory in the upper layer: there, or created because the lower layer has it.\<close>

definition ensure_parent :: "system_time \<Rightarrow> rstr \<Rightarrow> (unit, 'w ov) fs_io" where
  "ensure_parent t path =
     (case parent_path path of
        None \<Rightarrow> io_return ()
      | Some par \<Rightarrow>
          io_bind (upper_exists par) (\<lambda>there.
          if there then io_return ()
          else io_bind (lower_exists par) (\<lambda>below.
               if below then up (mkdir t par True) else io_fail ParentNotFound)))"

text \<open>The same in the copy-on-write paths, where the lower file exists.\<close>

definition copy_up_parent :: "system_time \<Rightarrow> rstr \<Rightarrow> (unit, 'w ov) fs_io" where
  "copy_up_parent t path =
     (case parent_path path of
        None \<Rightarrow> io_return ()
      | Some par \<Rightarrow> io_bind (upper_exists par) (\<lambda>there. if there then io_return () else up (mkdir t par True)))"

definition ov_write_file :: "system_time \<Rightarrow> rstr \<Rightarrow> bytes \<Rightarrow> (unit, 'w ov) fs_io" where
  "ov_write_file t path content = ov_path path (\<lambda>path.
     io_bind (ov_check_write_limits content) (\<lambda>_.
     io_bind (upper_exists path) (\<lambda>already_in_upper.
     io_bind (whited_out path) (\<lambda>already_whited.
     io_bind (lower_exists path) (\<lambda>lower_there.
     io_bind (own (remove_whiteout path)) (\<lambda>_.
     io_bind (ensure_parent t path) (\<lambda>_.
     io_bind (up (write_file t path content)) (\<lambda>_.
     if lower_there \<and> \<not> already_in_upper \<and> \<not> already_whited
     then io_bind (io_try (low (\<lambda>v. v_stat v path))) (\<lambda>r.
          case r of Inl _ \<Rightarrow> io_return ()
          | Inr meta \<Rightarrow> (case file_type meta of
                FtFile \<Rightarrow> own (hide_lower_file path (meta_size meta))
              | FtDirectory \<Rightarrow> own (hide_lower_dir path)
              | _ \<Rightarrow> io_return ()))
     else io_return ()))))))))"

definition ov_append_file :: "system_time \<Rightarrow> rstr \<Rightarrow> bytes \<Rightarrow> (unit, 'w ov) fs_io" where
  "ov_append_file t path content = ov_path path (\<lambda>path.
     io_bind (whited_out path) (\<lambda>gone.
     if gone then io_fail FileNotFound
     else io_bind (upper_exists path) (\<lambda>in_upper.
     if in_upper
     then io_bind (ov_check_write_limits content) (\<lambda>_. up (append_file t path content))
     else io_bind (lower_exists path) (\<lambda>in_lower.
     if in_lower
     then io_bind (low (\<lambda>v. v_stat v path)) (\<lambda>lower_meta.
          io_bind (check_write_limits_u64 (sat_add (meta_size lower_meta) (bytes_len content))) (\<lambda>_.
          io_bind (low (\<lambda>v. v_read_file v path)) (\<lambda>existing.
          io_bind (ov_check_write_limits (existing @ content)) (\<lambda>_.
          io_bind (copy_up_parent t path) (\<lambda>_.
          io_bind (up (write_file t path (existing @ content))) (\<lambda>_.
          own (hide_lower_file path (meta_size lower_meta))))))))
     else io_bind (ov_check_write_limits content) (\<lambda>_. up (write_file t path content))))))"

definition ov_mkdir :: "system_time \<Rightarrow> rstr \<Rightarrow> bool \<Rightarrow> (unit, 'w ov) fs_io" where
  "ov_mkdir t path recursive = ov_path path (\<lambda>path.
     io_bind (count_missing_upper_dirs path recursive) (\<lambda>dirs_to_create.
     io_bind (check_dir_limits dirs_to_create) (\<lambda>_.
     io_bind (own (remove_whiteout path)) (\<lambda>_.
     up (mkdir t path recursive)))))"

text \<open>What \<open>remove\<close> does for a path the lower layer has: hide it, and what is below it, under a whiteout.\<close>

definition hide_removed :: "nat \<Rightarrow> system_time \<Rightarrow> rstr \<Rightarrow> bool \<Rightarrow> bool \<Rightarrow> (unit, 'w ov) fs_io" where
  "hide_removed n t path in_upper recursive =
     io_bind (io_try (low (\<lambda>v. v_stat v path))) (\<lambda>r.
     io_bind (case r of
         Inl _ \<Rightarrow> io_return ()
       | Inr meta \<Rightarrow>
           if file_type meta = FtDirectory
           then io_bind (if \<not> in_upper then own (hide_lower_dir path) else io_return ()) (\<lambda>_.
                if recursive then hide_lower_children n t path else io_return ())
           else if \<not> in_upper then own (hide_lower_file path (meta_size meta)) else io_return ()) (\<lambda>_.
     own (add_whiteout path)))"

definition ov_remove :: "nat \<Rightarrow> system_time \<Rightarrow> rstr \<Rightarrow> bool \<Rightarrow> (unit, 'w ov) fs_io" where
  "ov_remove n t path recursive = ov_path path (\<lambda>path.
     io_bind (upper_exists path) (\<lambda>in_upper.
     io_bind (whited_out path) (\<lambda>gone.
     io_bind (if gone then io_return False else lower_exists path) (\<lambda>in_lower.
     if \<not> in_upper \<and> \<not> in_lower then io_fail NotFound
     else
       io_bind (if in_upper then up (remove path recursive) else io_return ()) (\<lambda>_.
       if in_lower then hide_removed n t path in_upper recursive else io_return ())))))"

definition ov_symlink :: "system_time \<Rightarrow> rstr \<Rightarrow> rstr \<Rightarrow> (unit, 'w ov) fs_io" where
  "ov_symlink t target link = ov_path link (\<lambda>link.
     io_bind (check_write_limits_u64 0) (\<lambda>_.
     io_bind (own (remove_whiteout link)) (\<lambda>_.
     up (symlink t target link))))"

text \<open>Copying a lower file or directory up, with the quota checks, for changes of its metadata.\<close>

definition copy_up_file :: "system_time \<Rightarrow> rstr \<Rightarrow> u64 \<Rightarrow> (unit, 'w ov) fs_io" where
  "copy_up_file t path n =
     io_bind (check_write_limits_u64 n) (\<lambda>_.
     io_bind (low (\<lambda>v. v_read_file v path)) (\<lambda>content.
     io_bind (ov_check_write_limits content) (\<lambda>_.
     io_bind (copy_up_parent t path) (\<lambda>_.
     io_bind (up (write_file t path content)) (\<lambda>_.
     own (hide_lower_file path n))))))"

definition copy_up_dir :: "system_time \<Rightarrow> rstr \<Rightarrow> (unit, 'w ov) fs_io" where
  "copy_up_dir t path =
     io_bind (count_missing_upper_dirs path True) (\<lambda>dirs_to_create.
     io_bind (check_dir_limits dirs_to_create) (\<lambda>_.
     io_bind (up (mkdir t path True)) (\<lambda>_.
     own (hide_lower_dir path))))"

definition copy_up_link :: "system_time \<Rightarrow> rstr \<Rightarrow> u64 \<Rightarrow> (unit, 'w ov) fs_io" where
  "copy_up_link t path n =
     io_bind (low (\<lambda>v. v_read_link v path)) (\<lambda>target.
     io_bind (check_write_limits_u64 0) (\<lambda>_.
     io_bind (copy_up_parent t path) (\<lambda>_.
     io_bind (up (symlink t target path)) (\<lambda>_.
     own (hide_lower_file path n)))))"

definition ov_chmod :: "system_time \<Rightarrow> rstr \<Rightarrow> u32 \<Rightarrow> (unit, 'w ov) fs_io" where
  "ov_chmod t path m = ov_path path (\<lambda>path.
     io_bind (whited_out path) (\<lambda>gone.
     if gone then io_fail NotFound
     else io_bind (upper_exists path) (\<lambda>in_upper.
     if in_upper then up (chmod path m)
     else io_bind (lower_exists path) (\<lambda>in_lower.
     if in_lower
     then io_bind (low (\<lambda>v. v_stat v path)) (\<lambda>st.
          io_bind (case file_type st of
              FtFile \<Rightarrow> copy_up_file t path (meta_size st)
            | FtDirectory \<Rightarrow> copy_up_dir t path
            | _ \<Rightarrow> io_return ()) (\<lambda>_.
          up (chmod path m)))
     else io_fail NotFound))))"

definition ov_set_modified_time :: "system_time \<Rightarrow> rstr \<Rightarrow> system_time \<Rightarrow> (unit, 'w ov) fs_io" where
  "ov_set_modified_time t path tm = ov_path path (\<lambda>path.
     io_bind (whited_out path) (\<lambda>gone.
     if gone then io_fail NotFound
     else io_bind (upper_exists path) (\<lambda>in_upper.
     if in_upper then up (set_modified_time path tm)
     else io_bind (lower_exists path) (\<lambda>in_lower.
     if in_lower
     then io_bind (low (\<lambda>v. v_stat v path)) (\<lambda>st.
          io_bind (case file_type st of
              FtFile \<Rightarrow> copy_up_file t path (meta_size st)
            | FtFifo \<Rightarrow> copy_up_file t path (meta_size st)
            | FtDirectory \<Rightarrow> copy_up_dir t path
            | FtSymlink \<Rightarrow> copy_up_link t path (meta_size st)) (\<lambda>_.
          up (set_modified_time path tm)))
     else io_fail NotFound))))"

section \<open>Renaming and copying\<close>

datatype captured_entry =
    CapDirectory rstr u32
  | CapFile rstr bytes u32
  | CapSymlink rstr rstr u32
  | CapFifo rstr bytes u32

definition captured_path :: "captured_entry \<Rightarrow> rstr" where
  "captured_path e = (case e of CapDirectory p _ \<Rightarrow> p | CapFile p _ _ \<Rightarrow> p | CapSymlink p _ _ \<Rightarrow> p | CapFifo p _ _ \<Rightarrow> p)"

text \<open>The loop that reads the whole source; the pending paths are a stack.\<close>

fun capture_tree :: "nat \<Rightarrow> (nat \<Rightarrow> bytes option) \<Rightarrow> system_time \<Rightarrow> (rstr \<times> rstr) list \<Rightarrow> captured_entry list \<Rightarrow>
    (captured_entry list, 'w ov) fs_io" where
  "capture_tree n rnd t [] captured = io_return captured"
| "capture_tree 0 rnd t (p # pending) captured = io_fail OutOfFuel"
| "capture_tree (Suc n) rnd t ((path, relative) # pending) captured =
     io_bind (ov_stat path) (\<lambda>metadata.
     case file_type metadata of
       FtDirectory \<Rightarrow>
         io_bind (ov_read_dir t path) (\<lambda>es.
         capture_tree n rnd t
           (rev (map (\<lambda>e. (path_join path (fst e), path_join relative (fst e))) es) @ pending)
           (captured @ [CapDirectory relative (mode metadata)]))
     | FtFile \<Rightarrow>
         io_bind (ov_read_file rnd path) (\<lambda>content.
         capture_tree n rnd t pending (captured @ [CapFile relative content (mode metadata)]))
     | FtSymlink \<Rightarrow>
         io_bind (ov_read_link path) (\<lambda>target.
         capture_tree n rnd t pending (captured @ [CapSymlink relative target (mode metadata)]))
     | FtFifo \<Rightarrow>
         io_bind (ov_read_file rnd path) (\<lambda>content.
         capture_tree n rnd t pending (captured @ [CapFifo relative content (mode metadata)])))"

text \<open>\<open>mkfifo\<close> is the default of the trait, which supports none.\<close>

definition ov_mkfifo :: "system_time \<Rightarrow> rstr \<Rightarrow> u32 \<Rightarrow> (unit, 'w ov) fs_io" where
  "ov_mkfifo t path m = io_fail NotSupported"

definition install_captured :: "system_time \<Rightarrow> rstr \<Rightarrow> captured_entry \<Rightarrow> (unit, 'w ov) fs_io" where
  "install_captured t dst e =
     (case e of
        CapDirectory path m \<Rightarrow>
          io_bind (ov_mkdir t (path_join dst path) True) (\<lambda>_. ov_chmod t (path_join dst path) m)
      | CapFile path content m \<Rightarrow>
          io_bind (ov_write_file t (path_join dst path) content) (\<lambda>_. ov_chmod t (path_join dst path) m)
      | CapSymlink path target m \<Rightarrow>
          io_bind (ov_symlink t target (path_join dst path)) (\<lambda>_. ov_chmod t (path_join dst path) m)
      | CapFifo path content m \<Rightarrow>
          io_bind (ov_mkfifo t (path_join dst path) m) (\<lambda>_. ov_append_file t (path_join dst path) content))"

fun install_all :: "system_time \<Rightarrow> rstr \<Rightarrow> captured_entry list \<Rightarrow> (unit, 'w ov) fs_io" where
  "install_all t dst [] = io_return ()"
| "install_all t dst (e # es) = io_bind (install_captured t dst e) (\<lambda>_. install_all t dst es)"

text \<open>The checks before anything is moved.\<close>

definition check_directory_target :: "system_time \<Rightarrow> rstr \<Rightarrow> rstr \<Rightarrow> (unit, 'w ov) fs_io" where
  "check_directory_target t src dst =
     (if path_starts_with (components dst) (components src) then io_fail MoveIntoItself
      else
        io_bind (case parent_path dst of
            None \<Rightarrow> io_return ()
          | Some par \<Rightarrow>
              io_bind (io_try (ov_stat par)) (\<lambda>r.
              case r of Inl _ \<Rightarrow> io_fail ParentNotFound
              | Inr meta \<Rightarrow> if file_type meta = FtDirectory then io_return () else io_fail ParentNotFound)) (\<lambda>_.
        io_bind (io_try (ov_stat dst)) (\<lambda>r.
        case r of Inl _ \<Rightarrow> io_return ()
        | Inr destination \<Rightarrow>
            if file_type destination \<noteq> FtDirectory then io_fail DirectoryNotEmpty
            else io_bind (ov_read_dir t dst) (\<lambda>es. if es \<noteq> [] then io_fail DirectoryNotEmpty else io_return ()))))"

text \<open>The move itself; when a step fails every part of the overlay's state is put back.\<close>

definition apply_move ::
  "nat \<Rightarrow> system_time \<Rightarrow> rstr \<Rightarrow> rstr \<Rightarrow> bool \<Rightarrow> captured_entry list \<Rightarrow> (unit, 'w ov) fs_io" where
  "apply_move n t src dst destination_exists captured =
     io_bind (ov_remove n t src True) (\<lambda>_.
     io_bind (if destination_exists then ov_remove n t dst True else io_return ()) (\<lambda>_.
     install_all t dst captured))"

definition upper_snapshot :: "(vfs_snapshot, 'w ov) fs_io" where
  "upper_snapshot = up (\<lambda>fs. case snapshot fs of (snap, fs') \<Rightarrow> (Ok snap, fs'))"

definition rename_directory ::
  "nat \<Rightarrow> (nat \<Rightarrow> bytes option) \<Rightarrow> system_time \<Rightarrow> rstr \<Rightarrow> rstr \<Rightarrow> (unit, 'w ov) fs_io" where
  "rename_directory n rnd t src dst =
     io_bind (check_directory_target t src dst) (\<lambda>_.
     io_bind (capture_tree n rnd t [(src, [])] []) (\<lambda>captured.
     let captured = sort_key (\<lambda>e. length (components (captured_path e))) captured
     in io_bind upper_snapshot (\<lambda>upper_before.
        io_bind (ask (\<lambda>ov _. Ok ov)) (\<lambda>before.
        io_bind (ov_exists dst) (\<lambda>destination_exists.
        io_bind (io_try (apply_move n t src dst destination_exists captured)) (\<lambda>result.
        case result of
          Inr _ \<Rightarrow> io_return ()
        | Inl error \<Rightarrow>
            io_bind (up (restore t upper_before)) (\<lambda>_.
            io_bind (own (\<lambda>ov. ov\<lparr>whiteouts := whiteouts before, lower_hidden := lower_hidden before,
                                    lower_hidden_paths := lower_hidden_paths before\<rparr>)) (\<lambda>_.
            io_fail error))))))))"

definition ov_rename :: "nat \<Rightarrow> (nat \<Rightarrow> bytes option) \<Rightarrow> system_time \<Rightarrow> rstr \<Rightarrow> rstr \<Rightarrow> (unit, 'w ov) fs_io" where
  "ov_rename n rnd t src dst =
     ov_path src (\<lambda>src. ov_path dst (\<lambda>dst.
     io_bind (ov_stat src) (\<lambda>meta.
     if file_type meta = FtDirectory then rename_directory n rnd t src dst
     else if file_type meta = FtSymlink
     then io_bind (ov_read_link src) (\<lambda>target.
          io_bind (check_write_limits_u64 0) (\<lambda>_.
          io_bind (own (remove_whiteout dst)) (\<lambda>_.
          io_bind (up (symlink t target dst)) (\<lambda>_.
          ov_remove n t src False))))
     else io_bind (ov_read_file rnd src) (\<lambda>content.
          io_bind (ov_write_file t dst content) (\<lambda>_.
          ov_remove n t src False)))))"

definition ov_copy :: "(nat \<Rightarrow> bytes option) \<Rightarrow> system_time \<Rightarrow> rstr \<Rightarrow> rstr \<Rightarrow> (unit, 'w ov) fs_io" where
  "ov_copy rnd t src dst =
     ov_path src (\<lambda>src. ov_path dst (\<lambda>dst.
     io_bind (ov_stat src) (\<lambda>meta.
     if file_type meta = FtSymlink
     then io_bind (ov_read_link src) (\<lambda>target.
          io_bind (check_write_limits_u64 0) (\<lambda>_.
          io_bind (own (remove_whiteout dst)) (\<lambda>_.
          up (symlink t target dst))))
     else io_bind (ov_read_file rnd src) (\<lambda>content. ov_write_file t dst content))))"

definition ov_vfs_snapshot :: "'w ov \<Rightarrow> vfs_snapshot option \<times> 'w ov" where
  "ov_vfs_snapshot s = (case s of (ov, w) \<Rightarrow> case snapshot (ov_upper ov) of (snap, u) \<Rightarrow> (Some snap, (ov\<lparr>ov_upper := u\<rparr>, w)))"

definition ov_vfs_restore :: "system_time \<Rightarrow> vfs_snapshot \<Rightarrow> (unit, 'w ov) fs_io" where
  "ov_vfs_restore t snap = up (restore t snap)"

definition ov_dyn :: "nat \<Rightarrow> nat \<Rightarrow> (nat \<Rightarrow> bytes option) \<Rightarrow> ('w ov) fs_dyn" where
  "ov_dyn addr n rnd =
     \<lparr>v_id = addr,
      v_read_file = ov_read_file rnd,
      v_write_file = ov_write_file,
      v_append_file = ov_append_file,
      v_mkdir = ov_mkdir,
      v_remove = ov_remove n,
      v_stat = ov_stat,
      v_read_dir = ov_read_dir,
      v_exists = ov_exists,
      v_rename = ov_rename n rnd,
      v_copy = ov_copy rnd,
      v_symlink = ov_symlink,
      v_read_link = ov_read_link,
      v_chmod = ov_chmod,
      v_set_modified_time = ov_set_modified_time,
      v_mkfifo = ov_mkfifo,
      v_usage = (\<lambda>(ov, w). ov_compute_usage ov w),
      v_limits = (\<lambda>(ov, _). ov_limits ov),
      v_vfs_snapshot = ov_vfs_snapshot,
      v_vfs_restore = ov_vfs_restore\<rparr>"

end
