(* ===== verification/OverlaySafe.thy ===== *)
theory OverlaySafe
  imports Overlay FsRoots
begin

text \<open>
  What the overlay promises: the lower filesystem is only ever read, whatever is called, and a
  deleted subtree can no longer be seen.
\<close>

section \<open>The lower layer is only read\<close>

text \<open>The lower filesystem stays the same value, and its state changes as reading may change it.\<close>

definition lower_kept :: "('w \<Rightarrow> 'w \<Rightarrow> bool) \<Rightarrow> 'w fs_dyn \<Rightarrow> 'w ov \<Rightarrow> 'w ov \<Rightarrow> bool" where
  "lower_kept keeps v s s' \<longleftrightarrow>
     (ov_lower (fst s) = v \<longrightarrow> ov_lower (fst s') = v \<and> keeps (snd s) (snd s'))"

lemma lower_record [simp]:
  "ov_lower (hide_lower_file p n ov) = ov_lower ov" "ov_lower (hide_lower_dir p ov) = ov_lower ov"
  "ov_lower (add_whiteout p ov) = ov_lower ov" "ov_lower (remove_whiteout p ov) = ov_lower ov"
  by (simp_all add: hide_lower_file_def hide_lower_dir_def add_whiteout_def remove_whiteout_def Let_def)

context reading begin

lemma lower_unseen: "unseen (lower_kept keeps v)"
  by unfold_locales (auto simp: lower_kept_def keeps_refl intro: keeps_trans)

lemma kept_bind:
  "io_keeps (lower_kept keeps v) m \<Longrightarrow> (\<And>a. io_keeps (lower_kept keeps v) (k a)) \<Longrightarrow>
   io_keeps (lower_kept keeps v) (io_bind m k)"
  by (rule unseen.keeps_bind [OF lower_unseen])

lemma kept_try: "io_keeps (lower_kept keeps v) m \<Longrightarrow> io_keeps (lower_kept keeps v) (io_try m)"
  by (rule unseen.keeps_try [OF lower_unseen])

lemma kept_pure:
  "io_keeps (lower_kept keeps v) (io_return a)" "io_keeps (lower_kept keeps v) (io_fail e)"
  by (rule unseen.keeps_pure [OF lower_unseen])+

lemma kept_up: "io_keeps (lower_kept keeps v) (up f)"
  using keeps_refl by (auto simp: io_keeps_def up_def lower_kept_def split: prod.split)

lemma kept_ask: "io_keeps (lower_kept keeps v) (ask f)"
  using keeps_refl by (auto simp: io_keeps_def ask_def lower_kept_def)

lemma kept_own: "(\<And>ov. ov_lower (f ov) = ov_lower ov) \<Longrightarrow> io_keeps (lower_kept keeps v) (own f)"
  using keeps_refl by (auto simp: io_keeps_def own_def lower_kept_def)

lemma kept_low: "io_keeps keeps (f v) \<Longrightarrow> io_keeps (lower_kept keeps v) (low f)"
  by (auto simp: io_keeps_def low_def lower_kept_def split: prod.split) (metis snd_conv)

lemma lower_reads:
  "io_keeps keeps (v_read_file v p)" "io_keeps keeps (v_stat v p)" "io_keeps keeps (v_read_dir v t p)"
  "io_keeps keeps (v_exists v p)" "io_keeps keeps (v_read_link v p)"
  using read_keeps [of "CReadFile p"] read_keeps [of "CStat p"] read_keeps [of "CReadDir t p"]
    read_keeps [of "CExists p"] read_keeps [of "CReadLink p"]
  by (simp_all add: io_keeps_def)

lemma kept_if:
  "(b \<Longrightarrow> io_keeps K x) \<Longrightarrow> (\<not> b \<Longrightarrow> io_keeps K y) \<Longrightarrow> io_keeps K (if b then x else y)"
  by simp

lemma kept_sum:
  "(\<And>a. io_keeps K (f a)) \<Longrightarrow> (\<And>b. io_keeps K (g b)) \<Longrightarrow> io_keeps K (case r of Inl a \<Rightarrow> f a | Inr b \<Rightarrow> g b)"
  by (cases r) simp_all

lemma kept_option:
  "io_keeps K x \<Longrightarrow> (\<And>b. io_keeps K (g b)) \<Longrightarrow> io_keeps K (case r of None \<Rightarrow> x | Some b \<Rightarrow> g b)"
  by (cases r) simp_all

lemma kept_type:
  "(ft = FtFile \<Longrightarrow> io_keeps K a) \<Longrightarrow> (ft = FtDirectory \<Longrightarrow> io_keeps K b) \<Longrightarrow>
   (ft = FtSymlink \<Longrightarrow> io_keeps K c) \<Longrightarrow> (ft = FtFifo \<Longrightarrow> io_keeps K d) \<Longrightarrow>
   io_keeps K (case ft of FtFile \<Rightarrow> a | FtDirectory \<Rightarrow> b | FtSymlink \<Rightarrow> c | FtFifo \<Rightarrow> d)"
  by (cases ft) simp_all

lemmas kept_steps = kept_if kept_sum kept_option kept_type kept_bind kept_try kept_pure kept_up kept_ask
  kept_low lower_reads

lemma kept_parts:
  "io_keeps (lower_kept keeps v) (upper_exists p)" "io_keeps (lower_kept keeps v) (lower_exists p)"
  "io_keeps (lower_kept keeps v) (whited_out p)" "io_keeps (lower_kept keeps v) (check_write_limits_u64 n)"
  "io_keeps (lower_kept keeps v) (ov_check_write_limits c)" "io_keeps (lower_kept keeps v) (check_dir_limits n)"
  "io_keeps (lower_kept keeps v) upper_snapshot" "io_keeps (lower_kept keeps v) (dir_in_upper p)"
  "io_keeps (lower_kept keeps v) (dir_in_lower t p b)"
  unfolding upper_exists_def lower_exists_def whited_out_def check_write_limits_u64_def ov_check_write_limits_def
    check_dir_limits_def upper_snapshot_def dir_in_upper_def dir_in_lower_def
  by (intro kept_steps)+

lemma kept_path: "(\<And>p. io_keeps (lower_kept keeps v) (k p)) \<Longrightarrow> io_keeps (lower_kept keeps v) (ov_path p k)"
  unfolding ov_path_def by (intro kept_steps)

lemma kept_count_loop: "io_keeps (lower_kept keeps v) (count_missing_loop cur cs n)"
  by (induction cur cs n rule: count_missing_loop.induct) (auto intro!: kept_steps kept_parts)

lemma kept_count: "io_keeps (lower_kept keeps v) (count_missing_upper_dirs p b)"
  unfolding count_missing_upper_dirs_def by (intro kept_steps kept_parts kept_count_loop)

lemma kept_hide:
  "io_keeps (lower_kept keeps v) (hide_lower_children n t d)"
  "io_keeps (lower_kept keeps v) (hide_each n t d es)"
proof (induction n t d and n t d es rule: hide_lower_children_hide_each.induct)
  case (4 n t d e es)
  then show ?case unfolding hide_each.simps Let_def
    by (intro kept_steps kept_parts kept_own) auto
qed (auto intro!: kept_steps)

lemma kept_reads:
  "io_keeps (lower_kept keeps v) (ov_read_file rnd p)" "io_keeps (lower_kept keeps v) (ov_stat p)"
  "io_keeps (lower_kept keeps v) (ov_read_link p)" "io_keeps (lower_kept keeps v) (ov_exists p)"
  "io_keeps (lower_kept keeps v) (ov_read_dir t p)"
  unfolding ov_read_file_def ov_stat_def ov_read_link_def ov_exists_def ov_read_dir_def read_through_def
  by (intro kept_path kept_steps kept_parts)+

lemma kept_copy_up:
  "io_keeps (lower_kept keeps v) (ensure_parent t p)" "io_keeps (lower_kept keeps v) (copy_up_parent t p)"
  "io_keeps (lower_kept keeps v) (copy_up_file t p n)" "io_keeps (lower_kept keeps v) (copy_up_dir t p)"
  "io_keeps (lower_kept keeps v) (copy_up_link t p n)"
  unfolding ensure_parent_def copy_up_parent_def copy_up_file_def copy_up_dir_def copy_up_link_def
  by (intro kept_steps kept_parts kept_count kept_own lower_record)+

lemma kept_writes:
  "io_keeps (lower_kept keeps v) (ov_write_file t p c)" "io_keeps (lower_kept keeps v) (ov_append_file t p c)"
  "io_keeps (lower_kept keeps v) (ov_mkdir t p b)" "io_keeps (lower_kept keeps v) (ov_remove n t p b)"
  "io_keeps (lower_kept keeps v) (ov_symlink t q p)" "io_keeps (lower_kept keeps v) (ov_chmod t p m)"
  "io_keeps (lower_kept keeps v) (ov_set_modified_time t p tm)" "io_keeps (lower_kept keeps v) (ov_mkfifo t p m)"
  "io_keeps (lower_kept keeps v) (ov_copy rnd t p q)" "io_keeps (lower_kept keeps v) (ov_vfs_restore t snap)"
  unfolding ov_append_file_def ov_mkdir_def ov_remove_def hide_removed_def ov_symlink_def ov_chmod_def
    ov_set_modified_time_def ov_mkfifo_def ov_copy_def ov_vfs_restore_def ov_write_file_def
  by (intro kept_path kept_steps kept_parts kept_count kept_hide kept_copy_up kept_reads kept_own lower_record)+

lemma kept_capture: "io_keeps (lower_kept keeps v) (capture_tree n rnd t pending captured)"
  by (induction n rnd t pending captured rule: capture_tree.induct)
    (auto intro!: kept_steps kept_reads)

lemma kept_install_one: "io_keeps (lower_kept keeps v) (install_captured t d e)"
  by (cases e) (auto simp: install_captured_def intro!: kept_steps kept_writes)

lemma kept_install: "io_keeps (lower_kept keeps v) (install_all t d es)"
  by (induction t d es rule: install_all.induct) (auto intro!: kept_steps kept_install_one)

lemma kept_move:
  "io_keeps (lower_kept keeps v) (check_directory_target t p q)"
  "io_keeps (lower_kept keeps v) (apply_move n t p q b es)"
  "io_keeps (lower_kept keeps v) (rename_directory n rnd t p q)"
  "io_keeps (lower_kept keeps v) (ov_rename n rnd t p q)"
  unfolding check_directory_target_def apply_move_def rename_directory_def ov_rename_def Let_def
  by (intro kept_path kept_steps kept_parts kept_reads kept_writes kept_capture kept_install kept_own lower_record | simp)+

lemma overlay_call_keeps: "io_keeps (lower_kept keeps v) (do_call (ov_dyn addr n rnd) c)"
proof -
  have snap: "io_keeps (lower_kept keeps v) (\<lambda>s. (Ok (), snd (ov_vfs_snapshot s)))"
    using keeps_refl by (auto simp: io_keeps_def ov_vfs_snapshot_def lower_kept_def split: prod.split)
  note facts = kept_reads kept_writes kept_move snap
  show ?thesis
    by (cases c) (insert facts, simp_all add: ov_dyn_def io_keeps_def)
qed

lemma overlay_calls_keep: "lower_kept keeps v s (do_calls (ov_dyn addr n rnd) cs s)"
  by (rule unseen.keeps_calls [OF lower_unseen]) (rule overlay_call_keeps)

end


text \<open>
  Property C4: no sequence of calls on an overlay changes the filesystem below it. The overlay keeps
  its lower filesystem, and every in-memory filesystem of the host has the limits it had and, at
  every path, the entry it had; only lazy files that were read may have been loaded.
\<close>

theorem overlay_only_reads_below:
  "ov_lower (fst (do_calls (ov_dyn addr n rnd) cs (ov\<lparr>ov_lower := mem_dyn i rnd'\<rparr>, w))) = mem_dyn i rnd' \<and>
   same_world w (snd (do_calls (ov_dyn addr n rnd) cs (ov\<lparr>ov_lower := mem_dyn i rnd'\<rparr>, w)))"
  using mem_reading.overlay_calls_keep [of i rnd' "(ov\<lparr>ov_lower := mem_dyn i rnd'\<rparr>, w)" addr n rnd cs]
  by (simp add: lower_kept_def)

section \<open>The union of the layers\<close>

text \<open>What a path names: nothing under a whiteout, else the upper entry, else the lower one.\<close>

definition deleted :: "'w overlay_fs \<Rightarrow> path_key \<Rightarrow> bool" where
  "deleted ov k = list_ex (\<lambda>q. q \<in> whiteouts ov) (k # ancestors k)"

definition union_view :: "'w overlay_fs \<Rightarrow> fs_entries \<Rightarrow> path_key \<Rightarrow> fs_entry option" where
  "union_view ov es k =
     (if deleted ov k then None
      else case map_of (entries (ov_upper ov)) k of Some e \<Rightarrow> Some e | None \<Rightarrow> map_of es k)"

text \<open>An overlay over the in-memory filesystem \<open>i\<close>, all with the same limits, and a path they accept.\<close>

definition stacked :: "nat \<Rightarrow> (nat \<Rightarrow> bytes option) \<Rightarrow> fs_world ov \<Rightarrow> bool" where
  "stacked i rnd s \<longleftrightarrow> ov_lower (fst s) = mem_dyn i rnd \<and> limits (ov_upper (fst s)) = ov_limits (fst s) \<and>
     limits (snd s i) = ov_limits (fst s)"

definition accepted :: "fs_limits \<Rightarrow> rstr \<Rightarrow> bool" where
  "accepted l path \<longleftrightarrow> validate_path l path = Inr () \<and> validate_path l (normalize_path path) = Inr ()"

lemma normalize_idem [simp]: "normalize_path (normalize_path p) = normalize_path p"
  using normalize_path_contained by auto

lemma is_whiteout_deleted: "is_whiteout ov path = deleted ov (components (normalize_path path))"
  by (simp add: is_whiteout_def deleted_def Let_def)

lemma ov_path_ok: "accepted (ov_limits (fst s)) path \<Longrightarrow> ov_path path k s = k (normalize_path path) s"
  by (cases s) (simp add: ov_path_def accepted_def io_bind_def ask_def)

lemma whited_out_run: "whited_out path s = (Ok (deleted (fst s) (components (normalize_path path))), s)"
  by (cases s) (simp add: whited_out_def ask_def is_whiteout_deleted)

lemma contains_map_of: "contains_key es k \<longleftrightarrow> map_of es k \<noteq> None"
  by (simp add: contains_key_def)

lemma exists_run:
  assumes "stacked i rnd s" and "accepted (ov_limits (fst s)) path"
  shows "upper_exists (normalize_path path) s =
      (Ok (map_of (entries (ov_upper (fst s))) (components (normalize_path path)) \<noteq> None), s)"
    and "lower_exists (normalize_path path) s =
      (Ok (map_of (entries (snd s i)) (components (normalize_path path)) \<noteq> None), s)"
  using assms
  by (cases s; simp add: stacked_def accepted_def upper_exists_def lower_exists_def io_defs up_def low_def mem_dyn_def
      on_fs_def path_exists_def on_path_def unwrap_or_false_def contains_map_of)+

lemmas layer_defs = io_defs up_def low_def own_def ask_def mem_dyn_def on_fs_def on_path_def

lemma read_through_run:
  assumes "stacked i rnd s" and "accepted (ov_limits (fst s)) path"
  shows "read_through missing u d (normalize_path path) s =
    (if deleted (fst s) (components (normalize_path path)) then (Err missing, s)
     else if map_of (entries (ov_upper (fst s))) (components (normalize_path path)) \<noteq> None then up u s else low d s)"
  unfolding read_through_def
  by (simp add: io_bind_def io_fail_def whited_out_run exists_run [OF assms])

lemma world_upd_id: "w(i := w i) = w" "ov\<lparr>ov_upper := ov_upper ov\<rparr> = ov"
  by simp_all

text \<open>What reading an entry gives, and what reading a path of a lazy file may do.\<close>

definition entry_read :: "fs_entry option \<Rightarrow> fs_error + bytes" where
  "entry_read e =
     (case e of
        Some (File c _) \<Rightarrow> Ok c
      | Some (Fifo c _) \<Rightarrow> Ok c
      | Some (LazyFile loader _) \<Rightarrow> Ok loader
      | Some (Directory _) \<Rightarrow> Err IsADirectory
      | Some (Symlink _ _) \<Rightarrow> Err FileNotFound
      | None \<Rightarrow> Err FileNotFound)"

fun is_lazy :: "fs_entry option \<Rightarrow> bool" where
  "is_lazy (Some (LazyFile _ _)) \<longleftrightarrow> True"
| "is_lazy _ \<longleftrightarrow> False"

lemma read_file_lazy:
  assumes "map_of (entries fs) p = Some (LazyFile loader m)" and "p = components (normalize_path path)"
    and "validate_path (limits fs) path = Inr ()" and "p \<notin> {key ''/dev/urandom'', key ''/dev/random''}"
  shows "\<exists>r es. read_file rnd path fs = (r, fs\<lparr>entries := es\<rparr>) \<and> (r = Ok loader \<or> (\<exists>err. r = Err err)) \<and>
    (\<forall>q. entry_loaded (map_of (entries fs) q) (map_of es q))"
proof -
  obtain r es where m: "materialize (limits fs) p loader m (entries fs) = (r, es)" by (rule prod.exhaust)
  with materialize_loaded [OF assms(1), of _ "limits fs"] have "\<forall>q. entry_loaded (map_of (entries fs) q) (map_of es q)" by (metis snd_conv)
  with m assms show ?thesis by (cases r) (auto simp: read_file_def on_path_def)
qed


section \<open>Deleting a directory\<close>

text \<open>
  What hiding the contents of a lower directory may change: the overlay's whiteouts grow, by paths
  below the directory only, and the usage it counts as hidden.
\<close>

definition hides :: "path_key \<Rightarrow> fs_world ov \<Rightarrow> fs_world ov \<Rightarrow> bool" where
  "hides p s s' \<longleftrightarrow> snd s' = snd s \<and> ov_lower (fst s') = ov_lower (fst s) \<and> ov_upper (fst s') = ov_upper (fst s) \<and>
     ov_limits (fst s') = ov_limits (fst s) \<and>
     whiteouts (fst s) \<subseteq> whiteouts (fst s') \<and> whiteouts (fst s') \<subseteq> whiteouts (fst s) \<union> {k. path_starts_with k p}"

lemma hides_refl [simp]: "hides p s s"
  by (simp add: hides_def)

lemma hides_trans: "hides p a b \<Longrightarrow> hides p b c \<Longrightarrow> hides p a c"
  unfolding hides_def by auto

text \<open>The same, where the lower filesystem is an in-memory one with a well-formed tree.\<close>

definition hides_if_ok :: "nat \<Rightarrow> (nat \<Rightarrow> bytes option) \<Rightarrow> path_key \<Rightarrow> fs_world ov \<Rightarrow> fs_world ov \<Rightarrow> bool" where
  "hides_if_ok i rnd p s s' \<longleftrightarrow>
     (ov_lower (fst s) = mem_dyn i rnd \<and> keys_ok (entries (snd s i)) \<longrightarrow> hides p s s')"

interpretation hiding: unseen "hides_if_ok i rnd p"
proof unfold_locales
  show "hides_if_ok i rnd p w1 w2 \<Longrightarrow> hides_if_ok i rnd p w2 w3 \<Longrightarrow> hides_if_ok i rnd p w1 w3" for w1 w2 w3
    using hides_trans [of p w1 w2 w3] by (auto simp: hides_if_ok_def hides_def)
qed (simp add: hides_if_ok_def)

lemma hides_own:
  "io_keeps (hides_if_ok i rnd p) (own (hide_lower_dir q))"
  "io_keeps (hides_if_ok i rnd p) (own (hide_lower_file q n))"
  "path_starts_with (components (normalize_path q)) p \<Longrightarrow> io_keeps (hides_if_ok i rnd p) (own (add_whiteout q))"
  "path_starts_with (components (normalize_path q)) p \<Longrightarrow>
   io_keeps (hides_if_ok i rnd p) (own (\<lambda>ov. add_whiteout q (hide_lower_file q n ov)))"
  by (auto simp: io_keeps_def hides_if_ok_def hides_def own_def hide_lower_dir_def hide_lower_file_def add_whiteout_def Let_def)

lemma hides_ask: "io_keeps (hides_if_ok i rnd p) (ask f)"
  by (auto simp: io_keeps_def hides_if_ok_def ask_def)

lemma on_fs_state: "snd (f (w i)) = w i \<Longrightarrow> snd (on_fs i f w) = w"
  by (auto simp: on_fs_def split: prod.splits)

lemma hides_low:
  assumes "\<And>w. snd (f (mem_dyn i rnd) w) = w"
  shows "io_keeps (hides_if_ok i rnd p) (low f)"
  using assms by (auto simp: io_keeps_def hides_if_ok_def hides_def low_def split: prod.splits) (metis snd_conv)+

lemma mem_looks:
  "snd (v_stat (mem_dyn i rnd) q w) = w" "snd (v_read_dir (mem_dyn i rnd) t q w) = w"
  "snd (v_exists (mem_dyn i rnd) q w) = w"
  by (simp_all add: mem_dyn_def on_fs_state lookup_same)

lemma hides_upper_exists: "io_keeps (hides_if_ok i rnd p) (upper_exists q)"
proof -
  have "snd (up (path_exists q) s) = s" for s :: "fs_world ov"
    by (cases s) (simp add: up_def split_beta lookup_same)
  then show ?thesis
    by (auto simp: io_keeps_def upper_exists_def io_defs split_beta hides_if_ok_def split: sum.split prod.split)
qed

text \<open>The names a directory of a well-formed tree lists are names of path segments.\<close>

lemma read_dir_names:
  assumes "keys_ok (entries fs)" and "fst (read_dir q fs) = Inr es"
  shows "list_all (\<lambda>e. proper_segment (fst e)) es"
proof -
  have "proper_segment (case file_name k of None \<Rightarrow> [] | Some n \<Rightarrow> n)" if nk: "normal_key k" and pa: "parent k = Some par" for k par
  proof -
    obtain ss where k: "k = RootDir # map Normal ss" and ss: "list_all proper_segment ss"
      using nk by (auto simp: normal_key_def)
    then obtain rs n where "ss = rs @ [n]" using pa by (cases ss rule: rev_cases) (auto simp: parent_def)
    then show ?thesis using ss by (simp add: k file_name_def)
  qed
  moreover have "normal_key k" if "(k, e) \<in> set (entries fs)" for k e
    using assms(1) that by (force simp: keys_ok_def list_all_iff)
  ultimately show ?thesis
    using assms(2) by (auto simp: read_dir_def on_path_def list_all_iff split: sum.splits option.splits if_splits)
qed

lemma hide_children_keeps:
  "list_all proper_segment ss \<Longrightarrow> dir = abs_text ss \<Longrightarrow> path_starts_with (RootDir # map Normal ss) p \<Longrightarrow>
   io_keeps (hides_if_ok i rnd p) (hide_lower_children n t dir)"
  "list_all proper_segment ss \<Longrightarrow> dir = abs_text ss \<Longrightarrow> path_starts_with (RootDir # map Normal ss) p \<Longrightarrow>
   list_all (\<lambda>e. proper_segment (fst e)) es \<Longrightarrow> io_keeps (hides_if_ok i rnd p) (hide_each n t dir es)"
proof (induction n t dir and n t dir es arbitrary: ss and ss rule: hide_lower_children_hide_each.induct)
  case (2 n t dir)
  show ?case
    unfolding io_keeps_def
  proof
    fix s :: "fs_world ov"
    obtain ov w where s: "s = (ov, w)" by (rule prod.exhaust)
    show "hides_if_ok i rnd p s (snd (hide_lower_children (Suc n) t dir s))"
    proof (cases "ov_lower ov = mem_dyn i rnd \<and> keys_ok (entries (w i))")
      case ok: True
      obtain r where r: "v_read_dir (mem_dyn i rnd) t dir w = (r, w)"
        using mem_looks(2) [of i rnd t dir w] by (cases "v_read_dir (mem_dyn i rnd) t dir w") auto
      show ?thesis
      proof (cases r)
        case (Inl e)
        then show ?thesis using ok r by (simp add: s io_defs low_def hides_if_ok_def)
      next
        case (Inr es)
        have "fst (read_dir dir (w i)) = Inr es"
          using r Inr by (auto simp: mem_dyn_def on_fs_def split: prod.splits)
        then have "io_keeps (hides_if_ok i rnd p) (hide_each n t dir es)"
          using 2 ok read_dir_names by blast
        then show ?thesis using ok r Inr by (simp add: s io_defs low_def io_keeps_def)
      qed
    qed (auto simp: s hides_if_ok_def)
  qed
next
  case (4 n t dir e es)
  have child: "path_join dir (fst e) = abs_text (ss @ [fst e])" "list_all proper_segment (ss @ [fst e])"
    using 4(4-7) by (simp_all add: path_join_name)
  have under: "path_starts_with (components (normalize_path (abs_text (ss @ [fst e])))) p"
    "path_starts_with (RootDir # map Normal (ss @ [fst e])) p"
    using 4(6) child(2) components_abs_text [OF child(2)] prefix_prefix [of p "RootDir # map Normal ss" "[Normal (fst e)]"]
    by (simp_all add: path_starts_with_def)
  have deep: "io_keeps (hides_if_ok i rnd p) (hide_lower_children n t (abs_text (ss @ [fst e])))"
    if "file_type meta = FtDirectory" for meta :: metadata
    by (rule 4(2) [of _ False "Inr meta" meta "ss @ [fst e]"]) (use child under(2) that in simp_all)
  have rest: "io_keeps (hides_if_ok i rnd p) (hide_each n t dir es)" using 4 by auto
  show ?case
    unfolding hide_each.simps Let_def child(1)
    by (intro hiding.keeps_bind hiding.keeps_try hiding.keeps_pure mem_reading.kept_if mem_reading.kept_sum hides_ask hides_low
        hides_upper_exists hides_own under deep rest mem_looks) assumption
qed (simp_all add: hiding.keeps_pure)

lemma remove_elsewhere:
  assumes "remove path rec fs = (Inr u, fs')" and "\<not> path_starts_with k (components (normalize_path path))"
  shows "map_of (entries fs') k = map_of (entries fs) k"
proof -
  have "k \<noteq> components (normalize_path path)" using assms(2) by (auto simp: path_starts_with_def)
  moreover have "map_of (filter (\<lambda>pe. \<not> path_starts_with (fst pe) q) es) k = map_of es k"
    if "\<not> path_starts_with k q" for q and es :: fs_entries
    using that by (induction es) auto
  ultimately show ?thesis
    using assms by (auto simp: remove_def on_path_def delete_conv'
        split: sum.splits option.splits if_splits)
qed

lemma deleted_iff:
  assumes "normal_key k"
  shows "deleted ov k \<longleftrightarrow> (\<exists>q \<in> whiteouts ov. normal_key q \<and> path_starts_with k q)"
proof -
  obtain ss where k: "k = RootDir # map Normal ss" and ss: "list_all proper_segment ss"
    using assms by (auto simp: normal_key_def)
  have "q \<in> set (k # ancestors k) \<longleftrightarrow> normal_key q \<and> path_starts_with k q" for q
  proof
    assume "q \<in> set (k # ancestors k)"
    then consider "q = k" | rs where "strict_prefix rs ss" "q = RootDir # map Normal rs"
      using ancestors_normal [of q ss] k by auto
    then show "normal_key q \<and> path_starts_with k q"
    proof cases
      case 1
      then show ?thesis using assms by (simp add: path_starts_with_def)
    next
      case 2
      then have "list_all proper_segment rs" using ss by (auto simp: strict_prefix_def prefix_def)
      then show ?thesis
        using 2 by (auto simp: normal_key_def k path_starts_with_def prefix_map_Normal strict_prefix_def)
    qed
  next
    assume q: "normal_key q \<and> path_starts_with k q"
    then obtain rs where rs: "q = RootDir # map Normal rs" by (auto simp: normal_key_def)
    then have "prefix rs ss" using q by (simp add: k path_starts_with_def prefix_map_Normal)
    then show "q \<in> set (k # ancestors k)"
      using ancestors_normal [of q ss] rs k by (cases "rs = ss") (auto simp: strict_prefix_def)
  qed
  then show ?thesis unfolding deleted_def list_ex_iff by blast
qed

text \<open>The state once everything below \<open>p\<close> is hidden.\<close>

lemma view_erased:
  assumes "normal_key k" and "normal_key p" and "p \<in> whiteouts ov'"
    and "whiteouts ov \<subseteq> whiteouts ov'" and "whiteouts ov' \<subseteq> whiteouts ov \<union> {k. path_starts_with k p}"
    and "\<not> path_starts_with k p \<Longrightarrow> map_of (entries (ov_upper ov')) k = map_of (entries (ov_upper ov)) k"
  shows "union_view ov' es k = (if path_starts_with k p then None else union_view ov es k)"
proof (cases "path_starts_with k p")
  case True
  then have "deleted ov' k" using assms(2,3) deleted_iff [OF assms(1), of ov'] by blast
  then show ?thesis using True by (simp add: union_view_def)
next
  case False
  have "\<not> path_starts_with k q" if "path_starts_with q p" for q
    using False that prefix_order.trans unfolding path_starts_with_def by blast
  then have "deleted ov' k = deleted ov k"
    using assms(4,5) unfolding deleted_iff [OF assms(1)] by blast
  then show ?thesis using False assms(6) by (simp add: union_view_def)
qed

lemma own_run: "own f s = (Ok (), (f (fst s), snd s))"
  by (cases s) (simp add: own_def)

lemma io_bind_own:
  "io_bind m (\<lambda>_. own f) s = (Inr u, s') \<Longrightarrow> \<exists>s1. s' = (f (fst s1), snd s1)"
  by (auto simp: io_bind_def own_run split: prod.splits sum.splits)

lemma hide_removed_run:
  assumes "ov_lower (fst s) = mem_dyn i rnd" and "keys_ok (entries (snd s i))" and "list_all proper_segment ss"
    and "hide_removed n t (abs_text ss) b rec s = (Inr u, s')"
  shows "hides (RootDir # map Normal ss) s s' \<and> RootDir # map Normal ss \<in> whiteouts (fst s')"
proof -
  have here: "path_starts_with (RootDir # map Normal ss) (RootDir # map Normal ss)"
    "path_starts_with (components (normalize_path (abs_text ss))) (RootDir # map Normal ss)"
    using components_abs_text [OF assms(3)] assms(3) by (simp_all add: path_starts_with_def)
  have "io_keeps (hides_if_ok i rnd (RootDir # map Normal ss)) (hide_removed n t (abs_text ss) b rec)"
    unfolding hide_removed_def
    by (intro hiding.keeps_bind hiding.keeps_try hiding.keeps_pure mem_reading.kept_if mem_reading.kept_sum
        hides_low hides_own hide_children_keeps(1) [OF assms(3) refl] here mem_looks)
  then have "hides (RootDir # map Normal ss) s s'"
    using assms(1,2,4) by (metis io_keeps_def hides_if_ok_def snd_conv)
  moreover have "RootDir # map Normal ss \<in> whiteouts (fst s')"
    using assms(4) components_abs_text [OF assms(3)] assms(3)
    unfolding hide_removed_def
    by (auto simp: io_bind_def [of "io_try m" for m] add_whiteout_def dest!: io_bind_own split: prod.splits sum.splits)
  ultimately show ?thesis ..
qed

text \<open>
  Property C20: deleting a path of the lower layer hides its whole subtree and nothing else. After a
  successful \<open>remove\<close> of a path that the lower layer has and no whiteout covers, the union view is
  empty at the path and below it and unchanged everywhere else, and the lower filesystem is as it was
  (TM-DOS-038). This holds for a directory too when \<open>recursive\<close> is not set: nothing refuses to remove a
  lower directory that is not empty.
\<close>

theorem overlay_remove_erases_subtree:
  assumes "stacked i rnd s" and "accepted (ov_limits (fst s)) path" and "keys_ok (entries (snd s i))"
    and "components (normalize_path path) = p" and "map_of (entries (snd s i)) p \<noteq> None" and "\<not> deleted (fst s) p"
    and "ov_remove n t path recursive s = (Ok (), s')"
  shows "snd s' = snd s \<and>
    (\<forall>k. normal_key k \<longrightarrow> union_view (fst s') (entries (snd s' i)) k =
       (if path_starts_with k p then None else union_view (fst s) (entries (snd s i)) k))"
proof -
  let ?m = "normalize_path path"
  obtain ss where m: "?m = abs_text ss" and ss: "list_all proper_segment ss" and p: "p = RootDir # map Normal ss"
    using normalize_path_text [of path] normal_segments_list_all [of path] assms(4) components_abs_text by metis
  let ?b = "map_of (entries (ov_upper (fst s))) p \<noteq> None"
  have "io_bind (if ?b then up (remove ?m recursive) else io_return ()) (\<lambda>_. hide_removed n t ?m ?b recursive) s = (Ok (), s')"
    using assms(7) unfolding ov_remove_def ov_path_ok [OF assms(2)]
    by (simp add: io_bind_def [of "upper_exists _"] io_bind_def [of "lower_exists _"] io_bind_def [of "whited_out _"]
        exists_run [OF assms(1,2)] whited_out_run assms(4,5,6) split: if_splits)
  then obtain s1 where s1: "(if ?b then up (remove ?m recursive) else io_return ()) s = (Inr (), s1)"
    and hide: "hide_removed n t ?m ?b recursive s1 = (Inr (), s')"
    by (auto simp: io_bind_def split: prod.splits sum.splits)
  have upper: "snd s1 = snd s \<and> ov_lower (fst s1) = ov_lower (fst s) \<and> whiteouts (fst s1) = whiteouts (fst s) \<and>
      (\<forall>k. \<not> path_starts_with k p \<longrightarrow> map_of (entries (ov_upper (fst s1))) k = map_of (entries (ov_upper (fst s))) k)"
    using s1 remove_elsewhere [of ?m recursive "ov_upper (fst s)"] assms(4)
    by (cases s; cases ?b) (auto simp: up_def io_return_def split: prod.splits)
  have "ov_lower (fst s1) = mem_dyn i rnd" "keys_ok (entries (snd s1 i))"
    using upper assms(1,3) by (simp_all add: stacked_def)
  from hide_removed_run [OF this ss hide [unfolded m]]
  have h: "hides p s1 s'" "p \<in> whiteouts (fst s')" by (simp_all add: p)
  have np: "normal_key p" using assms(4) normal_key_normalize by blast
  have "union_view (fst s') (entries (snd s' i)) k =
      (if path_starts_with k p then None else union_view (fst s) (entries (snd s i)) k)" if "normal_key k" for k
    using view_erased [OF that np h(2), of "fst s" "entries (snd s i)"] h(1) upper by (simp add: hides_def)
  then show ?thesis using h(1) upper by (simp add: hides_def)
qed

section \<open>Writing and reading back\<close>

lemma io_bind_Ok:
  "io_bind m k s = (Inr b, s') \<longleftrightarrow> (\<exists>a s1. m s = (Inr a, s1) \<and> k a s1 = (Inr b, s'))"
  by (auto simp: io_bind_def split: prod.split sum.split)

text \<open>Steps that change the upper layer and the counters only.\<close>

definition upper_only :: "fs_world ov \<Rightarrow> fs_world ov \<Rightarrow> bool" where
  "upper_only s s' \<longleftrightarrow> snd s' = snd s \<and> ov_lower (fst s') = ov_lower (fst s) \<and> ov_limits (fst s') = ov_limits (fst s) \<and>
     whiteouts (fst s') = whiteouts (fst s) \<and> limits (ov_upper (fst s')) = limits (ov_upper (fst s))"

lemma upper_only_trans: "upper_only a b \<Longrightarrow> upper_only b c \<Longrightarrow> upper_only a c"
  by (simp add: upper_only_def)

lemma limits_kept: "limits (snd (mkdir t p b fs)) = limits fs" "limits (snd (write_file t p c fs)) = limits fs"
  "limits (snd (append_file t p c fs)) = limits fs"
proof -
  have "names_below UNIV p" by (auto simp: names_below_def below_def path_starts_with_def)
  then show "limits (snd (mkdir t p b fs)) = limits fs" "limits (snd (write_file t p c fs)) = limits fs"
    "limits (snd (append_file t p c fs)) = limits fs"
    using mkdir_kept write_file_kept append_file_kept by (simp_all add: fs_kept_def)
qed

lemma upper_only_up: "limits (snd (f (ov_upper (fst s)))) = limits (ov_upper (fst s)) \<Longrightarrow> upper_only s (snd (up f s))"
  by (cases s) (auto simp: up_def upper_only_def split: prod.splits)

lemma exists_state:
  "ov_lower (fst s) = mem_dyn i rnd \<Longrightarrow> snd (lower_exists q s) = s" "snd (upper_exists q s) = s"
  by (cases s; simp add: upper_exists_def lower_exists_def io_defs up_def low_def split_beta lookup_same mem_looks)+

lemma checks_state:
  "snd (ov_check_write_limits c s) = s" "snd (check_write_limits_u64 n s) = s"
  by (cases s; simp add: ov_check_write_limits_def check_write_limits_u64_def ask_def)+

lemma parent_upper_only:
  assumes "ov_lower (fst s) = mem_dyn i rnd"
  shows "upper_only s (snd (ensure_parent t q s))" "upper_only s (snd (copy_up_parent t q s))"
proof -
  have same: "upper_only s s" by (simp add: upper_only_def)
  have mk: "upper_only s (snd (up (mkdir t p True) s))" for p by (rule upper_only_up) (rule limits_kept)
  show "upper_only s (snd (ensure_parent t q s))" "upper_only s (snd (copy_up_parent t q s))"
  proof (atomize (full), cases "parent_path q")
    case (Some par)
    obtain b d where "upper_exists par s = (b, s)" "lower_exists par s = (d, s)"
      using exists_state(1) [OF assms, of par] exists_state(2) [of par s] by (metis prod.collapse)
    then show "upper_only s (snd (ensure_parent t q s)) \<and> upper_only s (snd (copy_up_parent t q s))"
      using same mk by (auto simp: ensure_parent_def copy_up_parent_def Some io_bind_def io_return_def io_fail_def split: sum.split)
  qed (simp add: ensure_parent_def copy_up_parent_def io_return_def same)
qed

lemma ask_own_facts [simp]:
  "upper_only s (snd (own (hide_lower_file p n) s))" "upper_only s (snd (own (hide_lower_dir p) s))"
  "ov_upper (fst (snd (own (hide_lower_file p n) s))) = ov_upper (fst s)"
  "ov_upper (fst (snd (own (hide_lower_dir p) s))) = ov_upper (fst s)"
  by (simp_all add: own_run upper_only_def hide_lower_file_def hide_lower_dir_def Let_def)

text \<open>After the write the counters are adjusted; the entries stay.\<close>

lemma adjust_run:
  assumes "ov_lower (fst s) = mem_dyn i rnd"
  shows "upper_only s (snd (io_bind (io_try (low (\<lambda>v. v_stat v q))) (\<lambda>r.
          case r of Inl _ \<Rightarrow> io_return ()
          | Inr meta \<Rightarrow> (case file_type meta of
                FtFile \<Rightarrow> own (hide_lower_file q (meta_size meta))
              | FtDirectory \<Rightarrow> own (hide_lower_dir q)
              | _ \<Rightarrow> io_return ())) s)) \<and>
     ov_upper (fst (snd (io_bind (io_try (low (\<lambda>v. v_stat v q))) (\<lambda>r.
          case r of Inl _ \<Rightarrow> io_return ()
          | Inr meta \<Rightarrow> (case file_type meta of
                FtFile \<Rightarrow> own (hide_lower_file q (meta_size meta))
              | FtDirectory \<Rightarrow> own (hide_lower_dir q)
              | _ \<Rightarrow> io_return ())) s))) = ov_upper (fst s)"
proof -
  have same: "upper_only s s" by (simp add: upper_only_def)
  have "snd (low (\<lambda>v. v_stat v q) s) = s" using assms by (cases s) (simp add: low_def split_beta mem_looks)
  then obtain r where "low (\<lambda>v. v_stat v q) s = (r, s)" by (metis prod.collapse)
  then show ?thesis
    using same by (cases r) (auto simp: io_bind_def io_try_def io_return_def split: file_type.split)
qed

lemma not_own_ancestor:
  assumes "normal_key p"
  shows "p \<notin> set (ancestors p)"
proof -
  obtain ss where "p = RootDir # map Normal ss" using assms by (auto simp: normal_key_def)
  then show ?thesis using ancestors_normal [of p ss] by (auto dest!: prefix_length_less map_eq_imp_length_eq)
qed

text \<open>
  What is written through an overlay is read back, unless a directory above it was
  deleted. On every path both layers accept, except the three devices \<open>/dev/null\<close>, where a write is discarded, \<open>/dev/urandom\<close>
  and \<open>/dev/random\<close>: after a successful \<open>write_file\<close>, \<open>read_file\<close> of the same path gives the content when no
  proper ancestor of the path has a whiteout, and fails with \<open>file not found\<close> when one has: the write
  clears the whiteout of the path alone and asks the lower layer, without whiteouts, for the parent.
\<close>

theorem overlay_write_then_read:
  assumes "stacked i rnd s" and "accepted (ov_limits (fst s)) path"
    and "components (normalize_path path) = p"
    and "p \<notin> {key ''/dev/null'', key ''/dev/urandom'', key ''/dev/random''}"
    and "ov_write_file t path c s = (Ok (), s')"
  shows "ov_read_file rnd' path s' =
    (if list_ex (\<lambda>q. q \<in> whiteouts (fst s)) (ancestors p) then Err FileNotFound else Ok c, s')"
proof -
  let ?m = "normalize_path path"
  let ?s2 = "(remove_whiteout ?m (fst s), snd s)"
  obtain b1 b2 where ex: "upper_exists ?m s = (Ok b1, s)" "lower_exists ?m s = (Ok b2, s)"
    using exists_run [OF assms(1,2)] by blast
  note run = assms(5) [unfolded ov_write_file_def ov_path_ok [OF assms(2)]]
  obtain s3 s4 where s3: "ensure_parent t ?m ?s2 = (Inr (), s3)"
    and s4: "up (write_file t ?m c) s3 = (Inr (), s4)"
    and last: "s' = s4 \<or> s' = snd (io_bind (io_try (low (\<lambda>v. v_stat v ?m))) (\<lambda>r.
          case r of Inl _ \<Rightarrow> io_return ()
          | Inr meta \<Rightarrow> (case file_type meta of
                FtFile \<Rightarrow> own (hide_lower_file ?m (meta_size meta))
              | FtDirectory \<Rightarrow> own (hide_lower_dir ?m)
              | _ \<Rightarrow> io_return ())) s4)"
  proof -
    obtain s1 where check: "ov_check_write_limits c s = (Inr (), s1)" using run by (auto simp: io_bind_Ok)
    then have "s1 = s" using checks_state(1) [of c s] by simp
    then show thesis
      using run that
      by (simp add: io_bind_def [of "ov_check_write_limits c"] check io_bind_def [of "upper_exists _"]
          io_bind_def [of "lower_exists _"] io_bind_def [of "whited_out _"] io_bind_def [of "own _"] ex whited_out_run own_run)
        (auto simp: io_bind_Ok [of "ensure_parent _ _"] io_bind_Ok [of "up _"] io_return_def split: if_splits)
  qed
  have s2: "ov_lower (fst ?s2) = mem_dyn i rnd" using assms(1) by (simp add: stacked_def)
  have u3: "upper_only ?s2 s3" using parent_upper_only(1) [OF s2, of t ?m] s3 by simp
  have u4: "upper_only s3 s4" using upper_only_up [of "write_file t ?m c" s3] limits_kept(2) s4 by (metis snd_conv)
  have low4: "ov_lower (fst s4) = mem_dyn i rnd" using u3 u4 s2 by (simp add: upper_only_def)
  have u': "upper_only s4 s' \<and> ov_upper (fst s') = ov_upper (fst s4)"
    using last adjust_run [OF low4, of ?m] by (auto simp: upper_only_def)
  have all: "upper_only ?s2 s'" using upper_only_trans [OF upper_only_trans [OF u3 u4]] u' by blast
  have lims: "limits (ov_upper (fst s')) = ov_limits (fst s)" "ov_limits (fst s') = ov_limits (fst s)"
    "stacked i rnd s'"
    using all assms(1) by (simp_all add: upper_only_def stacked_def remove_whiteout_def)
  obtain u where w: "write_file t ?m c (ov_upper (fst s3)) = (Inr (), u)" and u: "ov_upper (fst s4) = u"
    using s4 by (cases s3) (auto simp: up_def split: prod.splits)
  have "\<exists>m. map_of (entries u) p = Some (File c m) \<or> map_of (entries u) p = Some (Fifo c m)"
    using write_file_result [OF w, of p] assms(3,4) by (auto simp: update_conv' new_file_def)
  then obtain m where stored: "map_of (entries (ov_upper (fst s'))) p = Some (File c m) \<or>
      map_of (entries (ov_upper (fst s'))) p = Some (Fifo c m)" using u u' by auto
  have "validate_path (limits (ov_upper (fst s'))) ?m = Inr ()" using assms(2) lims by (simp add: accepted_def)
  from read_file_stored [OF this _ _ _ stored, of rnd'] assms(3,4)
  have stored_read: "read_file rnd' ?m (ov_upper (fst s')) = (Ok c, ov_upper (fst s'))" by simp
  have gone: "deleted (fst s') p = list_ex (\<lambda>q. q \<in> whiteouts (fst s)) (ancestors p)"
  proof -
    have "whiteouts (fst s') = whiteouts (fst s) - {p}"
      using all assms(3) by (simp add: upper_only_def remove_whiteout_def)
    moreover have "p \<notin> set (ancestors p)" using not_own_ancestor assms(3) normal_key_normalize by blast
    ultimately show ?thesis by (auto simp: deleted_def list_ex_iff)
  qed
  have acc': "accepted (ov_limits (fst s')) path" using assms(2) lims by simp
  show ?thesis
    unfolding ov_read_file_def ov_path_ok [OF acc'] read_through_run [OF lims(3) acc']
    using stored stored_read gone by (cases s') (auto simp: assms(3) up_def)
qed

section \<open>A directory of the lower layer\<close>

definition layers_lower :: mem_fs where
  "layers_lower = (new_fs 0)\<lparr>entries :=
     AList.update [RootDir, Normal (lit ''d''), Normal (lit ''f'')] (new_file [7, 8] MODE_644 0)
       (AList.update [RootDir, Normal (lit ''d'')] (new_directory MODE_755 0) (entries (new_fs 0)))\<rparr>"

definition demo_layers :: "fs_world ov" where
  "demo_layers = (new_overlay 0 (mem_dyn 0 (\<lambda>_. None)), \<lambda>_. layers_lower)"

lemma ancestors_eval:
  "ancestors [RootDir] = []" "ancestors [RootDir, Normal x] = [[RootDir]]"
  "ancestors [RootDir, Normal x, Normal y] = [[RootDir, Normal x], [RootDir]]"
  by (simp_all add: ancestors.simps parent_def)

lemma demo_stacked: "stacked 0 (\<lambda>_. None) demo_layers"
  by (simp add: stacked_def demo_layers_def new_overlay_def ov_with_limits_def layers_lower_def new_fs_def with_limits_def)

lemma demo_accepted:
  "accepted default_fs_limits (lit ''/d'')" "accepted default_fs_limits (lit ''/d/f'')" "accepted default_fs_limits (lit ''/d/g'')"
  "accepted default_fs_limits (lit ''/d/x'')"
  "components (normalize_path (lit ''/d'')) = [RootDir, Normal (lit ''d'')]"
  "components (normalize_path (lit ''/d/f'')) = [RootDir, Normal (lit ''d''), Normal (lit ''f'')]"
  "components (normalize_path (lit ''/d/g'')) = [RootDir, Normal (lit ''d''), Normal (lit ''g'')]"
  "components (normalize_path (lit ''/d/x'')) = [RootDir, Normal (lit ''d''), Normal (lit ''x'')]"
  "ov_limits (fst demo_layers) = default_fs_limits"
  by (simp_all add: accepted_def path_eval demo_layers_def new_overlay_def ov_with_limits_def sat_sub_def)

definition without_d :: "fs_world ov" where
  "without_d = (new_overlay 0 (mem_dyn 0 (\<lambda>_. None))\<lparr>whiteouts := {[RootDir, Normal (lit ''d'')]},
     lower_hidden := \<lparr>total_bytes = 0, file_count = 0, dir_count = 1\<rparr>,
     lower_hidden_paths := {[RootDir, Normal (lit ''d'')]}\<rparr>, \<lambda>_. layers_lower)"

lemma normal_key_eval:
  "normal_key (RootDir # cs) \<longleftrightarrow> list_all (\<lambda>c. case c of Normal n \<Rightarrow> proper_segment n | _ \<Rightarrow> False) cs"
proof -
  have "(\<exists>ss. cs = map Normal ss \<and> list_all proper_segment ss) \<longleftrightarrow>
      list_all (\<lambda>c. case c of Normal n \<Rightarrow> proper_segment n | _ \<Rightarrow> False) cs"
  proof (induction cs)
    case (Cons c cs)
    have "(\<exists>ss. c # cs = map Normal ss \<and> list_all proper_segment ss) \<longleftrightarrow>
        (\<exists>n ss. c = Normal n \<and> proper_segment n \<and> cs = map Normal ss \<and> list_all proper_segment ss)"
      by (auto simp: Cons_eq_map_conv) (metis list.pred_inject(2) list.simps(9))
    then show ?case using Cons by (cases c) auto
  qed simp
  then show ?thesis by (simp add: normal_key_def)
qed

lemma low_stat_run:
  assumes "stacked i rnd s" and "accepted (ov_limits (fst s)) path"
  shows "low (\<lambda>v. v_stat v (normalize_path path)) s =
    (case map_of (entries (snd s i)) (components (normalize_path path)) of
       Some e \<Rightarrow> Ok (entry_metadata e) | None \<Rightarrow> Err NotFound, s)"
  using assms by (cases s) (simp add: stacked_def accepted_def low_def mem_dyn_def on_fs_def stat_def on_path_def split: option.split)

lemma demo_entries:
  "map_of (entries layers_lower) [RootDir, Normal (lit ''d'')] = Some (new_directory MODE_755 0)"
  "map_of (entries layers_lower) [RootDir, Normal (lit ''d''), Normal (lit ''f'')] = Some (new_file [7, 8] MODE_644 0)"
  "map_of (entries (ov_upper (fst demo_layers))) [RootDir, Normal (lit ''d'')] = None"
  "map_of (entries (ov_upper (fst demo_layers))) [RootDir, Normal (lit ''d''), Normal (lit ''f'')] = None"
  "keys_ok (entries layers_lower)"
  by (simp_all add: layers_lower_def demo_layers_def new_overlay_def ov_with_limits_def new_fs_def with_limits_def path_eval
      normal_key_eval proper_segment_def)

lemma demo_rmdir: "ov_remove n 0 (lit ''/d'') False demo_layers = (Ok (), without_d)"
proof -
  have acc: "accepted (ov_limits (fst demo_layers)) (lit ''/d'')" using demo_accepted by simp
  have in_lower: "map_of (entries (snd demo_layers 0)) [RootDir, Normal (lit ''d'')] = Some (new_directory MODE_755 0)"
    using demo_entries(1) by (simp add: demo_layers_def)
  have live: "\<not> deleted (fst demo_layers) [RootDir, Normal (lit ''d'')]"
    by (simp add: deleted_def demo_layers_def new_overlay_def ov_with_limits_def ancestors_eval)
  have "ov_remove n 0 (lit ''/d'') False demo_layers = hide_removed n 0 (normalize_path (lit ''/d'')) False False demo_layers"
    unfolding ov_remove_def ov_path_ok [OF acc]
    by (simp add: io_bind_def [of "upper_exists _"] io_bind_def [of "lower_exists _"] io_bind_def [of "whited_out _"]
        exists_run [OF demo_stacked acc] whited_out_run demo_accepted(5) in_lower demo_entries(3) live)
      (simp add: io_bind_def io_return_def)
  also have "\<dots> = (Ok (), without_d)"
    by (simp add: hide_removed_def io_bind_def io_try_def low_stat_run [OF demo_stacked acc] demo_accepted(5) in_lower
        entry_metadata_def new_directory_def new_metadata_def own_run io_return_def)
      (simp add: without_d_def demo_layers_def new_overlay_def ov_with_limits_def default_usage_def hide_lower_dir_def
        add_whiteout_def demo_accepted Let_def sat_add_def)
  finally show ?thesis .
qed

definition upper_with_d :: mem_fs where
  "upper_with_d = (new_fs 0)\<lparr>entries := entries (new_fs 0) @ [([RootDir, Normal (lit ''d'')], new_directory MODE_755 0)]\<rparr>"

lemma without_d_facts:
  "stacked 0 (\<lambda>_. None) without_d" "ov_limits (fst without_d) = default_fs_limits"
  "entries (snd without_d 0) = entries layers_lower" "ov_upper (fst without_d) = new_fs 0"
  "whiteouts (fst without_d) = {[RootDir, Normal (lit ''d'')]}"
  by (simp_all add: stacked_def without_d_def new_overlay_def ov_with_limits_def layers_lower_def new_fs_def with_limits_def)

lemma demo_mkdir: "mkdir 0 (lit ''/d'') True (new_fs 0) = (Ok (), upper_with_d)"
  by (simp add: mkdir_def new_fs_def with_limits_def write_eval path_eval upper_with_d_def check_dir_count_def count_directories_def sat_sub_def)

lemma demo_write_upper: "fst (write_file 0 (lit ''/d/g'') [9] upper_with_d) = Ok ()"
  by (simp add: upper_with_d_def new_fs_def with_limits_def write_eval path_eval  sat_sub_def)

lemma demo_room: "ov_check_write_limits [9] without_d = (Ok (), without_d)"
  by (simp add: ov_check_write_limits_def check_write_limits_u64_def ask_def without_d_def new_overlay_def ov_with_limits_def
      mem_dyn_def ov_compute_usage_def compute_usage_def usage_step_def layers_lower_def new_fs_def with_limits_def sat_sub_def sat_add_def
       write_eval path_eval)
lemma demo_texts:
  "normalize_path (lit ''/d/g'') = lit ''/d/g''" "parent_path (lit ''/d/g'') = Some (lit ''/d'')"
  "normalize_path (lit ''/d'') = lit ''/d''" "normalize_path (lit ''/d/x'') = lit ''/d/x''"
  by (simp_all add: path_eval parent_path_def parent_def path_string_def component_string_def)

lemma demo_write_hidden: "fst (ov_write_file 0 (lit ''/d/g'') [9] without_d) = Ok ()"
proof -
  note st = without_d_facts(1)
  have acc: "accepted (ov_limits (fst without_d)) (lit ''/d'')" "accepted (ov_limits (fst without_d)) (lit ''/d/g'')"
    using demo_accepted without_d_facts(2) by simp_all
  have absent: "map_of (entries (new_fs 0)) [RootDir, Normal (lit ''d'')] = None"
    "map_of (entries layers_lower) [RootDir, Normal (lit ''d''), Normal (lit ''g'')] = None"
    by (simp_all add: new_fs_def with_limits_def layers_lower_def path_eval)
  note ex = exists_run [OF st acc(1), unfolded demo_accepted(5,7) without_d_facts, unfolded demo_texts]
    exists_run [OF st acc(2), unfolded demo_accepted(5,7) without_d_facts, unfolded demo_texts]
  have par: "ensure_parent 0 (lit ''/d/g'') without_d = up (mkdir 0 (lit ''/d'') True) without_d"
    using ex(1,2) absent(1) demo_entries(1) by (simp add: ensure_parent_def demo_texts io_bind_def)
  obtain ov w where s: "without_d = (ov, w)" by (rule prod.exhaust)
  have upper: "ov_upper ov = new_fs 0" using without_d_facts(4) [unfolded s] by simp
  have "remove_whiteout (lit ''/d/g'') ov = ov"
  proof -
    have "whiteouts ov = {[RootDir, Normal (lit ''d'')]}" using without_d_facts(5) [unfolded s] by simp
    then have "whiteouts ov - {[RootDir, Normal (lit ''d''), Normal (lit ''g'')]} = whiteouts ov" by simp
    then show ?thesis using demo_accepted(7) by (simp add: remove_whiteout_def demo_texts)
  qed
  then have keep: "own (remove_whiteout (lit ''/d/g'')) without_d = (Ok (), without_d)" by (simp add: own_run s)
  have step: "up (mkdir 0 (lit ''/d'') True) without_d = (Ok (), (ov\<lparr>ov_upper := upper_with_d\<rparr>, w))"
    by (simp add: up_def s upper demo_mkdir)
  obtain u where wr: "up (write_file 0 (lit ''/d/g'') [9]) (ov\<lparr>ov_upper := upper_with_d\<rparr>, w) = (Ok (), u)"
    using demo_write_upper by (cases "write_file 0 (lit ''/d/g'') [9] upper_with_d") (auto simp: up_def)
  have there: "lower_exists (lit ''/d/g'') without_d = (Ok False, without_d)" using ex(4) absent(2) by simp
  show ?thesis
    unfolding ov_write_file_def ov_path_ok [OF acc(2)]
    by (simp add: demo_texts io_bind_def demo_room ex(3) there whited_out_run keep par step wr io_return_def)
qed

theorem overlay_write_then_read_witness:
  "fst (ov_read_file (\<lambda>_. None) (lit ''/d/g'') (snd (ov_write_file 0 (lit ''/d/g'') [9] without_d))) = Err FileNotFound"
proof -
  have run: "ov_write_file 0 (lit ''/d/g'') [9] without_d = (Ok (), snd (ov_write_file 0 (lit ''/d/g'') [9] without_d))"
    using demo_write_hidden by (simp add: prod_eq_iff)
  have acc: "accepted (ov_limits (fst without_d)) (lit ''/d/g'')"
    using demo_accepted without_d_facts(2) by simp
  have plain: "[RootDir, Normal (lit ''d''), Normal (lit ''g'')] \<notin> {key ''/dev/null'', key ''/dev/urandom'', key ''/dev/random''}"
    by (simp add: path_eval)
  show ?thesis
    using overlay_write_then_read [OF without_d_facts(1) acc demo_accepted(7) plain run, of "\<lambda>_. None"]
    by (simp add: without_d_facts(5) ancestors_eval)
qed


theorem overlay_remove_erases_subtree_witness:
  "union_view (fst without_d) (entries (snd without_d 0)) [RootDir, Normal (lit ''d''), Normal (lit ''f'')] = None \<and>
   map_of (entries (snd without_d 0)) [RootDir, Normal (lit ''d''), Normal (lit ''f'')] = Some (new_file [7, 8] MODE_644 0)"
proof -
  have acc: "accepted (ov_limits (fst demo_layers)) (lit ''/d'')" using demo_accepted by simp
  have lower: "entries (snd demo_layers 0) = entries layers_lower" by (simp add: demo_layers_def)
  have live: "\<not> deleted (fst demo_layers) [RootDir, Normal (lit ''d'')]"
    by (simp add: deleted_def demo_layers_def new_overlay_def ov_with_limits_def ancestors_eval)
  have "normal_key [RootDir, Normal (lit ''d''), Normal (lit ''f'')]"
    by (simp add: normal_key_eval proper_segment_def lit_def)
  moreover have "keys_ok (entries (snd demo_layers 0))"
    "map_of (entries (snd demo_layers 0)) [RootDir, Normal (lit ''d'')] \<noteq> None"
    using demo_entries(1,5) lower by simp_all
  ultimately show ?thesis
    using overlay_remove_erases_subtree [OF demo_stacked acc _ demo_accepted(5) _ live demo_rmdir] demo_entries(2) without_d_facts(3)
    by (simp add: path_starts_with_def)
qed

end
