(* ===== verification/Utf8.thy ===== *)
theory Utf8
  imports Prelude
begin

text \<open>
  The UTF-8 form of a Rust \<open>String\<close>: \<open>as_bytes\<close> and \<open>String::from_utf8\<close> of the standard library, which
  the snapshot encodings rest on. Code points are numbers; \<open>from_utf8\<close> rejects overlong forms and
  surrogates.
\<close>

definition scalar :: "uchar \<Rightarrow> bool" where
  "scalar c \<longleftrightarrow> c < 0xD800 \<or> 0xE000 \<le> c \<and> c < 0x110000"

definition utf8_char :: "uchar \<Rightarrow> nat list" where
  "utf8_char c =
     (if c < 0x80 then [c]
      else if c < 0x800 then [0xC0 + c div 64, 0x80 + c mod 64]
      else if c < 0x10000 then [0xE0 + c div 4096, 0x80 + c div 64 mod 64, 0x80 + c mod 64]
      else [0xF0 + c div 262144, 0x80 + c div 4096 mod 64, 0x80 + c div 64 mod 64, 0x80 + c mod 64])"

definition as_bytes :: "rstr \<Rightarrow> u8 list" where
  "as_bytes s = map of_nat (concat (map utf8_char s))"

definition continuation :: "nat \<Rightarrow> bool" where
  "continuation b \<longleftrightarrow> 0x80 \<le> b \<and> b \<le> 0xBF"

fun from_utf8_nats :: "nat list \<Rightarrow> rstr option" where
  "from_utf8_nats [] = Some []"
| "from_utf8_nats (b0 # bs) =
     (if b0 < 0x80 then map_option ((#) b0) (from_utf8_nats bs)
      else case bs of
        b1 # bs1 \<Rightarrow>
          if 0xC2 \<le> b0 \<and> b0 \<le> 0xDF
          then if continuation b1
               then map_option ((#) ((b0 - 0xC0) * 64 + (b1 - 0x80))) (from_utf8_nats bs1) else None
          else (case bs1 of
            b2 # bs2 \<Rightarrow>
              if 0xE0 \<le> b0 \<and> b0 \<le> 0xEF
              then if continuation b1 \<and> (b0 = 0xE0 \<longrightarrow> 0xA0 \<le> b1) \<and> (b0 = 0xED \<longrightarrow> b1 \<le> 0x9F) \<and> continuation b2
                   then map_option ((#) ((b0 - 0xE0) * 4096 + (b1 - 0x80) * 64 + (b2 - 0x80))) (from_utf8_nats bs2)
                   else None
              else (case bs2 of
                b3 # bs3 \<Rightarrow>
                  if 0xF0 \<le> b0 \<and> b0 \<le> 0xF4 \<and> continuation b1 \<and> (b0 = 0xF0 \<longrightarrow> 0x90 \<le> b1) \<and> (b0 = 0xF4 \<longrightarrow> b1 \<le> 0x8F) \<and>
                     continuation b2 \<and> continuation b3
                  then map_option ((#) ((b0 - 0xF0) * 262144 + (b1 - 0x80) * 4096 + (b2 - 0x80) * 64 + (b3 - 0x80)))
                         (from_utf8_nats bs3)
                  else None
              | [] \<Rightarrow> None)
          | [] \<Rightarrow> None)
      | [] \<Rightarrow> None)"

definition from_utf8 :: "u8 list \<Rightarrow> rstr option" where
  "from_utf8 bs = from_utf8_nats (map unat bs)"

section \<open>Round trips\<close>

text \<open>The digits of a code point to the base 64.\<close>

lemma digits_2: "x < 64 \<Longrightarrow> (a * 64 + x) div 64 = a" "x < 64 \<Longrightarrow> (a * 64 + x) mod 64 = x" for a x :: nat
  by (rule div_nat_eqI, simp_all)

lemma digits_3:
  fixes a x y :: nat
  assumes "x < 64" and "y < 64"
  shows "(a * 4096 + x * 64 + y) div 4096 = a" "(a * 4096 + x * 64 + y) div 64 mod 64 = x"
    "(a * 4096 + x * 64 + y) mod 64 = y"
proof -
  have e: "a * 4096 + x * 64 + y = (a * 64 + x) * 64 + y" by simp
  show "(a * 4096 + x * 64 + y) div 4096 = a" by (rule div_nat_eqI) (use assms in simp_all)
  show "(a * 4096 + x * 64 + y) div 64 mod 64 = x" unfolding e digits_2(1) [OF assms(2)] by (rule digits_2(2) [OF assms(1)])
  show "(a * 4096 + x * 64 + y) mod 64 = y" unfolding e by (rule digits_2(2) [OF assms(2)])
qed

lemma digits_4:
  fixes a x y z :: nat
  assumes "x < 64" and "y < 64" and "z < 64"
  shows "(a * 262144 + x * 4096 + y * 64 + z) div 262144 = a" "(a * 262144 + x * 4096 + y * 64 + z) div 4096 mod 64 = x"
    "(a * 262144 + x * 4096 + y * 64 + z) div 64 mod 64 = y" "(a * 262144 + x * 4096 + y * 64 + z) mod 64 = z"
proof -
  have e: "a * 262144 + x * 4096 + y * 64 + z = (a * 64 + x) * 4096 + y * 64 + z" by simp
  show "(a * 262144 + x * 4096 + y * 64 + z) div 262144 = a" by (rule div_nat_eqI) (use assms in simp_all)
  show "(a * 262144 + x * 4096 + y * 64 + z) div 4096 mod 64 = x"
    unfolding e digits_3(1) [OF assms(2,3)] by (rule digits_2(2) [OF assms(1)])
  show "(a * 262144 + x * 4096 + y * 64 + z) div 64 mod 64 = y" unfolding e by (rule digits_3(2) [OF assms(2,3)])
  show "(a * 262144 + x * 4096 + y * 64 + z) mod 64 = z" unfolding e by (rule digits_3(3) [OF assms(2,3)])
qed

text \<open>A valid multi-byte sequence in terms of its digits.\<close>

lemma utf8_char_2: "2 \<le> a \<Longrightarrow> a \<le> 31 \<Longrightarrow> x < 64 \<Longrightarrow>
    scalar (a * 64 + x) \<and> utf8_char (a * 64 + x) = [0xC0 + a, 0x80 + x]"
  by (simp add: scalar_def utf8_char_def digits_2)

lemma utf8_char_3: "a \<le> 15 \<Longrightarrow> x < 64 \<Longrightarrow> y < 64 \<Longrightarrow> (a = 0 \<Longrightarrow> 32 \<le> x) \<Longrightarrow> (a = 13 \<Longrightarrow> x \<le> 31) \<Longrightarrow>
    scalar (a * 4096 + x * 64 + y) \<and> utf8_char (a * 4096 + x * 64 + y) = [0xE0 + a, 0x80 + x, 0x80 + y]"
proof -
  assume a: "a \<le> 15" "x < 64" "y < 64" "a = 0 \<Longrightarrow> 32 \<le> x" "a = 13 \<Longrightarrow> x \<le> 31"
  have "scalar (a * 4096 + x * 64 + y)"
    unfolding scalar_def using a by (cases "a = 13") auto
  moreover have "0x800 \<le> a * 4096 + x * 64 + y" "a * 4096 + x * 64 + y < 0x10000"
    using a by (cases "a = 0"; simp)+
  ultimately show ?thesis by (simp add: utf8_char_def digits_3 [OF a(2,3)])
qed

lemma utf8_char_4: "a \<le> 4 \<Longrightarrow> x < 64 \<Longrightarrow> y < 64 \<Longrightarrow> z < 64 \<Longrightarrow> (a = 0 \<Longrightarrow> 16 \<le> x) \<Longrightarrow> (a = 4 \<Longrightarrow> x \<le> 15) \<Longrightarrow>
    scalar (a * 262144 + x * 4096 + y * 64 + z) \<and>
    utf8_char (a * 262144 + x * 4096 + y * 64 + z) = [0xF0 + a, 0x80 + x, 0x80 + y, 0x80 + z]"
proof -
  assume a: "a \<le> 4" "x < 64" "y < 64" "z < 64" "a = 0 \<Longrightarrow> 16 \<le> x" "a = 4 \<Longrightarrow> x \<le> 15"
  have "0x10000 \<le> a * 262144 + x * 4096 + y * 64 + z" using a by (cases "a = 0") auto
  moreover have "a * 262144 + x * 4096 + y * 64 + z < 0x110000" using a by (cases "a = 4") auto
  ultimately show ?thesis by (simp add: scalar_def utf8_char_def digits_4 [OF a(2,3,4)])
qed

text \<open>Every code point that is not ASCII has one of these forms.\<close>

lemma scalar_digits:
  assumes "scalar c"
  obtains "c < 0x80"
  | a x where "c = a * 64 + x" "2 \<le> a" "a \<le> 31" "x < 64"
  | a x y where "c = a * 4096 + x * 64 + y" "a \<le> 15" "x < 64" "y < 64" "a = 0 \<longrightarrow> 32 \<le> x" "a = 13 \<longrightarrow> x \<le> 31"
  | a x y z where "c = a * 262144 + x * 4096 + y * 64 + z" "a \<le> 4" "x < 64" "y < 64" "z < 64" "a = 0 \<longrightarrow> 16 \<le> x" "a = 4 \<longrightarrow> x \<le> 15"
proof -
  have c: "c = c div 64 * 64 + c mod 64" by simp
  have c2: "c div 64 = c div 4096 * 64 + c div 64 mod 64"
    using div_mult_mod_eq [of "c div 64" 64] by (simp add: div_mult2_eq [of c 64 64, simplified])
  have c3: "c div 4096 = c div 262144 * 64 + c div 4096 mod 64"
    using div_mult_mod_eq [of "c div 4096" 64] by (simp add: div_mult2_eq [of c 4096 64, simplified])
  have m: "c mod 64 < 64" "c div 64 mod 64 < 64" "c div 4096 mod 64 < 64" by simp_all
  consider "c < 0x80" | "0x80 \<le> c" "c < 0x800" | "0x800 \<le> c" "c < 0x10000" | "0x10000 \<le> c" "c < 0x110000"
    using assms unfolding scalar_def by linarith
  then show thesis
  proof cases
    case 1
    then show thesis by (rule that(1))
  next
    case 2
    then show thesis using c m by (intro that(2) [of "c div 64" "c mod 64"]) linarith+
  next
    case 3
    then show thesis using c c2 m assms unfolding scalar_def
      by (intro that(3) [of "c div 4096" "c div 64 mod 64" "c mod 64"]) linarith+
  next
    case 4
    then show thesis using c c2 c3 m
      by (intro that(4) [of "c div 262144" "c div 4096 mod 64" "c div 64 mod 64" "c mod 64"]) linarith+
  qed
qed

lemma utf8_char_decode:
  assumes "scalar c"
  shows "from_utf8_nats (utf8_char c @ bs) = map_option ((#) c) (from_utf8_nats bs)"
  using assms
proof (cases c rule: scalar_digits)
  case 1
  then show ?thesis by (simp add: utf8_char_def)
next
  case (2 a x)
  then show ?thesis using utf8_char_2 [of a x] by (simp add: continuation_def)
next
  case (3 a x y)
  then show ?thesis using utf8_char_3 [of a x y] by (simp add: continuation_def)
next
  case (4 a x y z)
  then show ?thesis using utf8_char_4 [of a x y z] by (simp add: continuation_def)
qed

lemma decode_utf8_nats: "list_all scalar s \<Longrightarrow> from_utf8_nats (concat (map utf8_char s)) = Some s"
  by (induction s) (simp_all add: utf8_char_decode)

lemma continuation_digit: "continuation b \<Longrightarrow> \<exists>x < 64. b = 0x80 + x"
  by (rule exI [of _ "b - 0x80"]) (auto simp: continuation_def)

text \<open>The multi-byte sequences that \<open>from_utf8\<close> accepts are the forms of the code points it reads.\<close>

lemma utf8_read_1: "b < 0x80 \<Longrightarrow> scalar b \<and> utf8_char b = [b]"
  by (simp add: scalar_def utf8_char_def)

lemma utf8_read_2:
  assumes "0xC2 \<le> b0" "b0 \<le> 0xDF" "continuation b1"
  shows "scalar ((b0 - 0xC0) * 64 + (b1 - 0x80)) \<and> utf8_char ((b0 - 0xC0) * 64 + (b1 - 0x80)) = [b0, b1]"
proof -
  obtain a x where "b0 = 0xC0 + a" "b1 = 0x80 + x" "x < 64"
    using continuation_digit [OF assms(3)] le_Suc_ex [of "0xC0" b0] assms(1) by auto
  then show ?thesis using utf8_char_2 [of a x] assms by simp
qed

lemma utf8_read_3:
  assumes "0xE0 \<le> b0" "b0 \<le> 0xEF" "continuation b1" "b0 = 0xE0 \<longrightarrow> 0xA0 \<le> b1" "b0 = 0xED \<longrightarrow> b1 \<le> 0x9F" "continuation b2"
  shows "scalar ((b0 - 0xE0) * 4096 + (b1 - 0x80) * 64 + (b2 - 0x80)) \<and>
    utf8_char ((b0 - 0xE0) * 4096 + (b1 - 0x80) * 64 + (b2 - 0x80)) = [b0, b1, b2]"
proof -
  obtain a x y where "b0 = 0xE0 + a" "b1 = 0x80 + x" "x < 64" "b2 = 0x80 + y" "y < 64"
    using continuation_digit [OF assms(3)] continuation_digit [OF assms(6)] le_Suc_ex [OF assms(1)] by auto
  then show ?thesis using utf8_char_3 [of a x y] assms by simp
qed

lemma utf8_read_4:
  assumes "0xF0 \<le> b0" "b0 \<le> 0xF4" "continuation b1" "b0 = 0xF0 \<longrightarrow> 0x90 \<le> b1" "b0 = 0xF4 \<longrightarrow> b1 \<le> 0x8F"
    "continuation b2" "continuation b3"
  shows "scalar ((b0 - 0xF0) * 262144 + (b1 - 0x80) * 4096 + (b2 - 0x80) * 64 + (b3 - 0x80)) \<and>
    utf8_char ((b0 - 0xF0) * 262144 + (b1 - 0x80) * 4096 + (b2 - 0x80) * 64 + (b3 - 0x80)) = [b0, b1, b2, b3]"
proof -
  obtain a x y z where "b0 = 0xF0 + a" "b1 = 0x80 + x" "x < 64" "b2 = 0x80 + y" "y < 64" "b3 = 0x80 + z" "z < 64"
    using continuation_digit [OF assms(3)] continuation_digit [OF assms(6)] continuation_digit [OF assms(7)]
      le_Suc_ex [OF assms(1)] by auto
  then show ?thesis using utf8_char_4 [of a x y z] assms by simp
qed

definition utf8_exact :: "nat list \<Rightarrow> bool" where
  "utf8_exact bs \<longleftrightarrow> (\<forall>s. from_utf8_nats bs = Some s \<longrightarrow> list_all scalar s \<and> concat (map utf8_char s) = bs)"

lemma utf8_exact_cons:
  "utf8_exact bs \<Longrightarrow> scalar c \<and> utf8_char c = w \<Longrightarrow> map_option ((#) c) (from_utf8_nats bs) = Some s \<Longrightarrow>
    list_all scalar s \<and> concat (map utf8_char s) = w @ bs"
  by (auto simp: utf8_exact_def)

lemma utf8_exact: "utf8_exact bs"
proof (induction bs rule: from_utf8_nats.induct)
  case 1
  show ?case by (simp add: utf8_exact_def)
next
  case (2 b0 bs)
  show ?case unfolding utf8_exact_def
  proof (intro allI impI)
    fix s assume s: "from_utf8_nats (b0 # bs) = Some s"
    show "list_all scalar s \<and> concat (map utf8_char s) = b0 # bs"
    proof (cases "b0 < 0x80")
      case True
      then show ?thesis using utf8_exact_cons [OF 2(1) utf8_read_1] s by simp
    next
      case b0: False
      then obtain b1 bs1 where bs: "bs = b1 # bs1" using s by (cases bs) simp_all
      show ?thesis
      proof (cases "0xC2 \<le> b0 \<and> b0 \<le> 0xDF")
        case True
        with s b0 bs have c: "continuation b1" by (simp split: if_splits)
        have "from_utf8_nats (b0 # bs) = map_option ((#) ((b0 - 0xC0) * 64 + (b1 - 0x80))) (from_utf8_nats bs1)"
          using b0 True c by (simp only: bs from_utf8_nats.simps if_False if_True list.case simp_thms)
        with utf8_exact_cons [OF 2(2) [OF b0 bs True c] utf8_read_2 [of b0 b1]] s True c bs show ?thesis by simp
      next
        case b1: False
        have "bs1 \<noteq> []"
        proof
          assume "bs1 = []"
          then have "from_utf8_nats (b0 # bs) = None"
            using b0 b1 by (simp only: bs from_utf8_nats.simps if_False list.case simp_thms)
          with s show False by simp
        qed
        then obtain b2 bs2 where bs1: "bs1 = b2 # bs2" by (cases bs1) simp_all
        show ?thesis
        proof (cases "0xE0 \<le> b0 \<and> b0 \<le> 0xEF")
          case True
          with s b0 bs b1 bs1 have c: "continuation b1 \<and> (b0 = 0xE0 \<longrightarrow> 0xA0 \<le> b1) \<and> (b0 = 0xED \<longrightarrow> b1 \<le> 0x9F) \<and> continuation b2"
            by (simp only: from_utf8_nats.simps if_False if_True list.case simp_thms split: if_splits) simp
          have "from_utf8_nats (b0 # bs) =
              map_option ((#) ((b0 - 0xE0) * 4096 + (b1 - 0x80) * 64 + (b2 - 0x80))) (from_utf8_nats bs2)"
            by (simp only: bs bs1 from_utf8_nats.simps if_not_P [OF b0] if_not_P [OF b1] if_P [OF True] if_P [OF c] list.case)
          with utf8_exact_cons [OF 2(3) [OF b0 bs b1 bs1 True c] utf8_read_3 [of b0 b1 b2]] s True c bs bs1
          show ?thesis by simp
        next
          case b2: False
          have "bs2 \<noteq> []"
          proof
            assume "bs2 = []"
            then have "from_utf8_nats (b0 # bs) = None"
              using b0 b1 b2 by (simp only: bs bs1 from_utf8_nats.simps if_False list.case simp_thms)
            with s show False by simp
          qed
          then obtain b3 bs3 where bs2: "bs2 = b3 # bs3" by (cases bs2) simp_all
          have c: "0xF0 \<le> b0 \<and> b0 \<le> 0xF4 \<and> continuation b1 \<and> (b0 = 0xF0 \<longrightarrow> 0x90 \<le> b1) \<and> (b0 = 0xF4 \<longrightarrow> b1 \<le> 0x8F) \<and>
              continuation b2 \<and> continuation b3"
            using s b0 b1 b2
            by (simp only: bs bs1 bs2 from_utf8_nats.simps if_False if_True list.case simp_thms split: if_splits) simp
          have "from_utf8_nats (b0 # bs) =
              map_option ((#) ((b0 - 0xF0) * 262144 + (b1 - 0x80) * 4096 + (b2 - 0x80) * 64 + (b3 - 0x80))) (from_utf8_nats bs3)"
            by (simp only: bs bs1 bs2 from_utf8_nats.simps if_not_P [OF b0] if_not_P [OF b1] if_not_P [OF b2] if_P [OF c] list.case)
          with utf8_exact_cons [OF 2(4) [OF b0 bs b1 bs1 b2 bs2 c] utf8_read_4 [of b0 b1 b2 b3]] s c bs bs1 bs2
          show ?thesis by simp
        qed
      qed
    qed
  qed
qed

lemma encode_utf8_nats: "from_utf8_nats bs = Some s \<Longrightarrow> list_all scalar s \<and> concat (map utf8_char s) = bs"
  using utf8_exact by (simp add: utf8_exact_def)

text \<open>The bytes of a string: \<open>from_utf8\<close> is the exact inverse of \<open>as_bytes\<close>.\<close>

lemma utf8_char_small: "scalar c \<Longrightarrow> list_all (\<lambda>b. b < 256) (utf8_char c)"
  by (cases c rule: scalar_digits)
    (auto simp: utf8_char_def utf8_char_2 utf8_char_3 utf8_char_4)

lemma from_utf8_as_bytes: "list_all scalar s \<Longrightarrow> from_utf8 (as_bytes s) = Some s"
proof -
  assume s: "list_all scalar s"
  have "list_all (\<lambda>b. b < 256) (concat (map utf8_char s))"
    using s utf8_char_small by (induction s) auto
  then have "map unat (map (of_nat :: nat \<Rightarrow> u8) (concat (map utf8_char s))) = concat (map utf8_char s)"
    by (induction "concat (map utf8_char s)") (auto simp: list_all_iff unat_of_nat intro!: map_idI)
  then show ?thesis using decode_utf8_nats [OF s] by (simp add: from_utf8_def as_bytes_def)
qed

lemma as_bytes_from_utf8: "from_utf8 bs = Some s \<Longrightarrow> list_all scalar s \<and> as_bytes s = bs"
  using encode_utf8_nats [of "map unat bs" s] by (simp add: from_utf8_def as_bytes_def map_idI)

lemma as_bytes_inject: "list_all scalar s \<Longrightarrow> list_all scalar s' \<Longrightarrow> as_bytes s = as_bytes s' \<Longrightarrow> s = s'"
  by (metis from_utf8_as_bytes option.inject)

end
