(* ===== verification/SnapBytes.thy ===== *)
theory SnapBytes
  imports Utf8
begin

text \<open>
  The byte level of the snapshot objects, from \<open>bashkit/src/snapshot/objects.rs\<close>: object ids and their
  hexadecimal form, the little-endian writers \<open>put_u32\<close>, \<open>put_u64\<close>, \<open>put_bytes\<close>, and the \<open>Reader\<close> that reads
  them back with bounds checks. The locale \<open>codec\<close> states what a writer and its reader owe each other; every
  pair of the code is an interpretation of it.
\<close>

unbundle bit_operations_syntax

section \<open>Errors\<close>

type_synonym object_id = "u8 list"

datatype snap_error =
    Malformed string
  | MalformedContainer string
  | HashMismatch object_id object_id
  | WrongKind object_id u8 u8
  | ObjectNotFound object_id
  | TooManyParents nat
  | NotUtf8Path
  | SnapshotTooNew "16 word" "16 word"
  | FileTooLarge u64
  | CheckoutTooLarge
  | ChunkTooLarge object_id
  | ExceedsDeclared object_id
  | WrongSize object_id
  | IncrementalCommit
  | TooShort
  | IntegrityFailed
  | CapabilityMismatch
  | NeedsSqlite rstr
  | UnsupportedVersion u32
  | JsonError

type_synonym 'a snap_result = "snap_error + 'a"

section \<open>Object ids\<close>

definition valid_id :: "object_id \<Rightarrow> bool" where
  "valid_id i \<longleftrightarrow> length i = 32"

definition hex_nibble :: "u8 \<Rightarrow> u8 snap_result" where
  "hex_nibble byte =
     (if 48 \<le> byte \<and> byte \<le> 57 then Ok (byte - 48)
      else if 97 \<le> byte \<and> byte \<le> 102 then Ok (byte - 97 + 10)
      else if 65 \<le> byte \<and> byte \<le> 70 then Ok (byte - 65 + 10)
      else Err (Malformed ''object id contains non-hex characters''))"

text \<open>One byte by the format \<open>{b:02x}\<close>.\<close>

definition hex_digit :: "nat \<Rightarrow> uchar" where
  "hex_digit n = (if n < 10 then 48 + n else 87 + n)"

definition hex_byte :: "u8 \<Rightarrow> rstr" where
  "hex_byte b = [hex_digit (unat b div 16), hex_digit (unat b mod 16)]"

definition to_hex :: "object_id \<Rightarrow> rstr" where
  "to_hex i = concat (map hex_byte i)"

fun hex_pairs :: "u8 list \<Rightarrow> object_id snap_result" where
  "hex_pairs (p0 # p1 # rest) =
     res_bind (hex_nibble p0) (\<lambda>hi. res_bind (hex_nibble p1) (\<lambda>lo.
       res_bind (hex_pairs rest) (\<lambda>out. Ok ((push_bit 4 hi OR lo) # out))))"
| "hex_pairs _ = Ok []"

definition from_hex :: "rstr \<Rightarrow> object_id snap_result" where
  "from_hex s =
     (let bytes = as_bytes s
      in if length bytes \<noteq> 64 then Err (Malformed ''object id must be 64 hex characters'')
         else hex_pairs bytes)"

section \<open>Little-endian integers\<close>

fun le_bytes :: "nat \<Rightarrow> nat \<Rightarrow> u8 list" where
  "le_bytes 0 v = []"
| "le_bytes (Suc n) v = of_nat (v mod 256) # le_bytes n (v div 256)"

fun from_le :: "u8 list \<Rightarrow> nat" where
  "from_le [] = 0"
| "from_le (b # bs) = unat b + 256 * from_le bs"

definition put_u32 :: "u32 \<Rightarrow> u8 list" where
  "put_u32 v = le_bytes 4 (unat v)"

definition put_u64 :: "u64 \<Rightarrow> u8 list" where
  "put_u64 v = le_bytes 8 (unat v)"

definition put_bytes :: "u8 list \<Rightarrow> u8 list" where
  "put_bytes v = put_u64 (of_nat (length v)) @ v"

section \<open>The reader\<close>

record reader =
  rd_data :: "u8 list"
  rd_pos :: usize

type_synonym 'a read = "reader \<Rightarrow> ('a \<times> reader) snap_result"

definition reader_new :: "u8 list \<Rightarrow> reader" where
  "reader_new data = \<lparr>rd_data = data, rd_pos = 0\<rparr>"

text \<open>Both cursors of the code advance this way, each with its own errors.\<close>

definition take_slice :: "snap_error \<Rightarrow> snap_error \<Rightarrow> usize \<Rightarrow> u8 list read" where
  "take_slice overflow truncated n r =
     (case checked_add (rd_pos r) n of
        None \<Rightarrow> Err overflow
      | Some e \<Rightarrow>
          if length (rd_data r) < unat e then Err truncated
          else Ok (take (unat n) (drop (unat (rd_pos r)) (rd_data r)), r\<lparr>rd_pos := e\<rparr>))"

definition read_take :: "usize \<Rightarrow> u8 list read" where
  "read_take = take_slice (Malformed ''length overflow'') (Malformed ''truncated object'')"

text \<open>The \<open>?\<close> operator after a read.\<close>

definition rd_bind :: "'a read \<Rightarrow> ('a \<Rightarrow> 'b read) \<Rightarrow> 'b read" where
  "rd_bind g k r = res_bind (g r) (\<lambda>(x, r'). k x r')"

definition rd_return :: "'a \<Rightarrow> 'a read" where
  "rd_return x r = Ok (x, r)"

definition rd_fail :: "snap_error \<Rightarrow> 'a read" where
  "rd_fail e r = Err e"

definition read_u8 :: "u8 read" where
  "read_u8 = rd_bind (read_take 1) (\<lambda>b. rd_return (b ! 0))"

definition read_u32 :: "u32 read" where
  "read_u32 = rd_bind (read_take 4) (\<lambda>b. rd_return (of_nat (from_le b)))"

definition read_u64 :: "u64 read" where
  "read_u64 = rd_bind (read_take 8) (\<lambda>b. rd_return (of_nat (from_le b)))"

definition read_bytes :: "u8 list read" where
  "read_bytes = rd_bind read_u64 read_take"

definition read_string :: "rstr read" where
  "read_string = rd_bind read_bytes (\<lambda>raw.
     case from_utf8 raw of
       None \<Rightarrow> rd_fail (Malformed ''string is not valid UTF-8'')
     | Some s \<Rightarrow> rd_return s)"

definition read_object_id :: "object_id read" where
  "read_object_id = read_take 32"

definition read_finish :: "unit read" where
  "read_finish r =
     (if unat (rd_pos r) \<noteq> length (rd_data r) then Err (Malformed ''trailing bytes after object'') else Ok ((), r))"

text \<open>A loop \<open>for _ in 0..count\<close> that pushes what it reads.\<close>

fun read_many :: "'a read \<Rightarrow> nat \<Rightarrow> 'a list read" where
  "read_many g 0 r = Ok ([], r)"
| "read_many g (Suc n) r = rd_bind g (\<lambda>x. rd_bind (read_many g n) (\<lambda>xs. rd_return (x # xs))) r"

section \<open>What a writer and its reader owe each other\<close>

text \<open>
  A reader that has consumed \<open>pre\<close> and has \<open>rest\<close> left. A byte slice is shorter than the address space.
\<close>

definition reader_at :: "u8 list \<Rightarrow> u8 list \<Rightarrow> reader" where
  "reader_at pre rest = \<lparr>rd_data = pre @ rest, rd_pos = of_nat (length pre)\<rparr>"

definition addressable :: "'a list \<Rightarrow> bool" where
  "addressable bs \<longleftrightarrow> length bs < 2 ^ 64"

locale codec =
  fixes put :: "'a \<Rightarrow> u8 list"
    and get :: "'a read"
    and ok :: "'a \<Rightarrow> bool"
  assumes put_get: "ok x \<Longrightarrow> addressable (pre @ put x @ rest) \<Longrightarrow>
      get (reader_at pre (put x @ rest)) = Ok (x, reader_at (pre @ put x) rest)"
    and get_put: "get (reader_at pre bs) = Ok (x, r) \<Longrightarrow> addressable (pre @ bs) \<Longrightarrow>
      \<exists>rest. ok x \<and> bs = put x @ rest \<and> r = reader_at (pre @ put x) rest"
begin

text \<open>Reading many is the inverse of writing one after the other.\<close>

lemma many_put_get:
  "list_all ok xs \<Longrightarrow> addressable (pre @ concat (map put xs) @ rest) \<Longrightarrow>
   read_many get (length xs) (reader_at pre (concat (map put xs) @ rest)) =
     Ok (xs, reader_at (pre @ concat (map put xs)) rest)"
proof (induction xs arbitrary: pre)
  case (Cons x xs)
  have "get (reader_at pre (put x @ concat (map put xs) @ rest)) =
      Ok (x, reader_at (pre @ put x) (concat (map put xs) @ rest))"
    using Cons.prems by (intro put_get) simp_all
  with Cons.IH [of "pre @ put x"] Cons.prems show ?case
    by (simp add: rd_bind_def rd_return_def)
qed (simp add: reader_at_def)

lemma many_get_put:
  "read_many get n (reader_at pre bs) = Ok (xs, r) \<Longrightarrow> addressable (pre @ bs) \<Longrightarrow>
   \<exists>rest. list_all ok xs \<and> length xs = n \<and> bs = concat (map put xs) @ rest \<and> r = reader_at (pre @ concat (map put xs)) rest"
proof (induction n arbitrary: pre bs xs)
  case (Suc n)
  from Suc.prems(1) obtain x r1 ys where
    get: "get (reader_at pre bs) = Ok (x, r1)" and many: "read_many get n r1 = Ok (ys, r)" and xs: "xs = x # ys"
    by (auto simp: rd_bind_def rd_return_def res_bind_Inr split: prod.splits)
  from get_put [OF get Suc.prems(2)] obtain rest where
    x: "ok x" "bs = put x @ rest" "r1 = reader_at (pre @ put x) rest" by blast
  from Suc.IH [of "pre @ put x" rest ys] many x Suc.prems(2) xs show ?case by auto
qed auto

end

text \<open>Sequencing of reads, as rewriting rules over the laws.\<close>

lemma rd_bind_Ok: "g r = Ok (x, r') \<Longrightarrow> rd_bind g k r = k x r'"
  by (simp add: rd_bind_def)

lemma rd_bind_Err: "g r = Err e \<Longrightarrow> rd_bind g k r = Err e"
  by (simp add: rd_bind_def)

lemma rd_bind_eq_Ok: "rd_bind g k r = Ok y \<longleftrightarrow> (\<exists>x r'. g r = Ok (x, r') \<and> k x r' = Ok y)"
  by (auto simp: rd_bind_def res_bind_Inr)

lemma rd_return_eq [simp]: "rd_return x r = Ok y \<longleftrightarrow> y = (x, r)" "rd_fail e r \<noteq> Ok y"
  by (auto simp: rd_return_def rd_fail_def)

lemma reader_new_at: "reader_new bs = reader_at [] bs"
  by (simp add: reader_new_def reader_at_def)

lemma addressable_append: "addressable (xs @ ys) \<Longrightarrow> addressable xs \<and> addressable ys"
  by (simp add: addressable_def)

lemma unat_length: "addressable bs \<Longrightarrow> unat (of_nat (length bs) :: u64) = length bs"
  by (simp add: addressable_def unat_of_nat)

lemma take_slice_at:
  assumes "addressable (pre @ w @ rest)" and "unat n = length w"
  shows "take_slice o1 o2 n (reader_at pre (w @ rest)) = Ok (w, reader_at (pre @ w) rest)"
proof -
  have l: "length pre + length w < 2 ^ 64" using assms(1) by (simp add: addressable_def)
  then have p: "unat (of_nat (length pre) :: u64) = length pre" by (simp add: unat_of_nat)
  have "checked_add (of_nat (length pre)) n = Some (of_nat (length pre) + n)"
    using l p assms(2) by (simp add: checked_add_Some)
  moreover have "unat (of_nat (length pre) + n) = length pre + length w"
    using l p assms(2) by (simp add: unat_add_small)
  moreover have "of_nat (length pre) + n = of_nat (length pre + length w)"
    using assms(2) [symmetric] by simp
  ultimately show ?thesis using p assms(2) by (simp add: take_slice_def reader_at_def)
qed

lemma take_slice_only:
  assumes "take_slice o1 o2 n (reader_at pre bs) = Ok (w, r)" and "addressable (pre @ bs)"
  shows "\<exists>rest. length w = unat n \<and> bs = w @ rest \<and> r = reader_at (pre @ w) rest"
proof -
  have p: "unat (of_nat (length pre) :: u64) = length pre"
    using assms(2) by (simp add: addressable_def unat_of_nat)
  from assms(1) obtain e where e: "checked_add (of_nat (length pre)) n = Some e" "unat e \<le> length pre + length bs"
    by (auto simp: take_slice_def reader_at_def split: option.splits if_splits)
  then have "unat n \<le> length bs" using unat_checked_add [OF e(1)] p by simp
  then have bs: "length (take (unat n) bs) = unat n" "bs = take (unat n) bs @ drop (unat n) bs" by simp_all
  have "take_slice o1 o2 n (reader_at pre (take (unat n) bs @ drop (unat n) bs)) =
      Ok (take (unat n) bs, reader_at (pre @ take (unat n) bs) (drop (unat n) bs))"
    by (rule take_slice_at) (use bs assms(2) in simp_all)
  with bs(2) assms(1) have "w = take (unat n) bs" "r = reader_at (pre @ take (unat n) bs) (drop (unat n) bs)" by simp_all
  with bs show ?thesis by (intro exI [of _ "drop (unat n) bs"]) simp
qed

lemmas read_take_at = take_slice_at [of _ _ _ _ "Malformed ''length overflow''" "Malformed ''truncated object''", folded read_take_def]
lemmas read_take_only = take_slice_only [of "Malformed ''length overflow''" "Malformed ''truncated object''", folded read_take_def]

lemma read_finish_at: "addressable (pre @ rest) \<Longrightarrow>
    read_finish (reader_at pre rest) = (if rest = [] then Ok ((), reader_at pre rest) else Err (Malformed ''trailing bytes after object''))"
  by (simp add: read_finish_def reader_at_def unat_of_nat addressable_def)

section \<open>The laws hold of the code's writers and readers\<close>

lemma length_le_bytes [simp]: "length (le_bytes n v) = n"
  by (induction n arbitrary: v) simp_all

lemma from_le_le_bytes: "v < 256 ^ n \<Longrightarrow> from_le (le_bytes n v) = v"
proof (induction n arbitrary: v)
  case (Suc n)
  then have "v div 256 < 256 ^ n" by (simp add: less_mult_imp_div_less mult.commute)
  with Suc.IH show ?case by (simp add: unat_of_nat)
qed simp

lemma le_bytes_from_le: "length bs = n \<Longrightarrow> le_bytes n (from_le bs) = bs \<and> from_le bs < 256 ^ n"
proof (induction n arbitrary: bs)
  case (Suc n)
  then obtain b bs' where bs: "bs = b # bs'" "length bs' = n" by (cases bs) auto
  have b: "unat b < 256" using unsigned_less [of b, where ?'a = nat] by simp
  with Suc.IH [OF bs(2)] show ?case by (simp add: bs(1))
qed simp

interpretation u8: codec "\<lambda>b. [b]" read_u8 "\<lambda>_. True"
proof
  show "read_u8 (reader_at pre ([x] @ rest)) = Ok (x, reader_at (pre @ [x]) rest)"
    if "addressable (pre @ [x] @ rest)" for x pre rest
    using read_take_at [OF that, of 1] by (simp add: read_u8_def rd_bind_Ok rd_return_def)
  show "\<exists>rest. True \<and> bs = [x] @ rest \<and> r = reader_at (pre @ [x]) rest"
    if "read_u8 (reader_at pre bs) = Ok (x, r)" "addressable (pre @ bs)" for pre bs x r
  proof -
    from that(1) obtain w where w: "read_take 1 (reader_at pre bs) = Ok (w, r)" "x = w ! 0"
      by (auto simp: read_u8_def rd_bind_eq_Ok)
    from read_take_only [OF w(1) that(2)] obtain rest where
      r: "length w = 1" "bs = w @ rest" "r = reader_at (pre @ w) rest" by auto
    then have "w = [x]" using w(2) by (cases w) auto
    with r show ?thesis by blast
  qed
qed

text \<open>Both integers at once.\<close>

lemma codec_le:
  assumes rd: "rd = rd_bind (take_slice o1 o2 k) (\<lambda>b. rd_return (of_nat (from_le b) :: 'a::len word))"
    and k: "unat k = n" and n: "256 ^ n = (2 :: nat) ^ LENGTH('a)"
  shows "codec (\<lambda>v :: 'a word. le_bytes n (unat v)) rd (\<lambda>_. True)"
proof
  have inverse: "of_nat (from_le (le_bytes n (unat v))) = v" for v :: "'a word"
    using n unsigned_less [of v, where ?'a = nat] by (simp add: from_le_le_bytes)
  show "rd (reader_at pre (le_bytes n (unat x) @ rest)) = Ok (x, reader_at (pre @ le_bytes n (unat x)) rest)"
    if "addressable (pre @ le_bytes n (unat x) @ rest)" for x :: "'a word" and pre rest
    using take_slice_at [OF that, of k] k inverse [of x] by (simp add: rd rd_bind_Ok rd_return_def)
  show "\<exists>rest. True \<and> bs = le_bytes n (unat x) @ rest \<and> r = reader_at (pre @ le_bytes n (unat x)) rest"
    if "rd (reader_at pre bs) = Ok (x, r)" "addressable (pre @ bs)" for pre bs x r
  proof -
    from that(1) obtain w where w: "take_slice o1 o2 k (reader_at pre bs) = Ok (w, r)" "x = of_nat (from_le w)"
      by (auto simp: rd rd_bind_eq_Ok)
    from take_slice_only [OF w(1) that(2)] obtain rest where
      r: "length w = n" "bs = w @ rest" "r = reader_at (pre @ w) rest" using k by auto
    have "le_bytes n (unat x) = w"
      using le_bytes_from_le [OF r(1)] n by (simp add: w(2) unat_of_nat)
    with r show ?thesis by auto
  qed
qed

interpretation u32: codec put_u32 read_u32 "\<lambda>_. True"
  using codec_le [OF read_u32_def [unfolded read_take_def], of 4] by (simp add: put_u32_def [abs_def])

interpretation u64: codec put_u64 read_u64 "\<lambda>_. True"
  using codec_le [OF read_u64_def [unfolded read_take_def], of 8] by (simp add: put_u64_def [abs_def])

interpretation bytes: codec put_bytes read_bytes addressable
proof
  show "read_bytes (reader_at pre (put_bytes x @ rest)) = Ok (x, reader_at (pre @ put_bytes x) rest)"
    if "addressable x" "addressable (pre @ put_bytes x @ rest)" for x pre rest
  proof -
    have "read_u64 (reader_at pre (put_u64 (of_nat (length x)) @ x @ rest)) =
        Ok (of_nat (length x), reader_at (pre @ put_u64 (of_nat (length x))) (x @ rest))"
      using that(2) by (intro u64.put_get) (simp_all add: put_bytes_def)
    moreover have "read_take (of_nat (length x)) (reader_at (pre @ put_u64 (of_nat (length x))) (x @ rest)) =
        Ok (x, reader_at ((pre @ put_u64 (of_nat (length x))) @ x) rest)"
      using that by (intro read_take_at) (simp_all add: put_bytes_def unat_length)
    ultimately show ?thesis by (simp add: read_bytes_def rd_bind_Ok put_bytes_def)
  qed
  show "\<exists>rest. addressable x \<and> bs = put_bytes x @ rest \<and> r = reader_at (pre @ put_bytes x) rest"
    if "read_bytes (reader_at pre bs) = Ok (x, r)" "addressable (pre @ bs)" for pre bs x r
  proof -
    from that(1) obtain n r1 where n: "read_u64 (reader_at pre bs) = Ok (n, r1)" "read_take n r1 = Ok (x, r)"
      by (auto simp: read_bytes_def rd_bind_eq_Ok)
    from u64.get_put [OF n(1) that(2)] obtain rest1 where
      1: "bs = put_u64 n @ rest1" "r1 = reader_at (pre @ put_u64 n) rest1" by blast
    have a: "addressable ((pre @ put_u64 n) @ rest1)" using that(2) 1(1) by simp
    from read_take_only [OF n(2) [unfolded 1(2)] a] obtain rest where
      2: "length x = unat n" "rest1 = x @ rest" "r = reader_at ((pre @ put_u64 n) @ x) rest" by blast
    moreover have "of_nat (length x) = n" "addressable x" using 2(1) by (simp_all add: addressable_def)
    ultimately show ?thesis using 1(1) by (simp add: put_bytes_def)
  qed
qed

definition storable :: "rstr \<Rightarrow> bool" where
  "storable s \<longleftrightarrow> list_all scalar s \<and> addressable (as_bytes s)"

interpretation string: codec "\<lambda>s. put_bytes (as_bytes s)" read_string storable
proof
  show "read_string (reader_at pre (put_bytes (as_bytes x) @ rest)) = Ok (x, reader_at (pre @ put_bytes (as_bytes x)) rest)"
    if "storable x" "addressable (pre @ put_bytes (as_bytes x) @ rest)" for x pre rest
    using bytes.put_get [OF _ that(2)] that(1)
    by (simp add: storable_def read_string_def rd_bind_Ok from_utf8_as_bytes rd_return_def)
  show "\<exists>rest. storable x \<and> bs = put_bytes (as_bytes x) @ rest \<and> r = reader_at (pre @ put_bytes (as_bytes x)) rest"
    if "read_string (reader_at pre bs) = Ok (x, r)" "addressable (pre @ bs)" for pre bs x r
  proof -
    from that(1) obtain raw where "read_bytes (reader_at pre bs) = Ok (raw, r)" "from_utf8 raw = Some x"
      by (auto simp: read_string_def rd_bind_eq_Ok split: option.splits)
    with bytes.get_put [OF _ that(2)] as_bytes_from_utf8 show ?thesis
      by (fastforce simp: storable_def)
  qed
qed

interpretation object_id: codec "\<lambda>i. i" read_object_id valid_id
proof
  show "read_object_id (reader_at pre (x @ rest)) = Ok (x, reader_at (pre @ x) rest)"
    if "valid_id x" "addressable (pre @ x @ rest)" for x pre rest
    using that by (simp add: read_object_id_def read_take_at valid_id_def)
  show "\<exists>rest. valid_id x \<and> bs = x @ rest \<and> r = reader_at (pre @ x) rest"
    if "read_object_id (reader_at pre bs) = Ok (x, r)" "addressable (pre @ bs)" for pre bs x r
    using read_take_only [OF that [unfolded read_object_id_def]] by (simp add: valid_id_def)
qed

section \<open>Hexadecimal ids\<close>

lemma as_bytes_ascii: "list_all (\<lambda>c. c < 128) s \<Longrightarrow> as_bytes s = map of_nat s"
  by (induction s) (simp_all add: as_bytes_def utf8_char_def)

lemma nibbles_or:
  "h < 16 \<Longrightarrow> l < 16 \<Longrightarrow> push_bit 4 (of_nat h) OR of_nat l = (of_nat (h * 16 + l) :: u8)"
proof -
  have all: "list_all (\<lambda>h. list_all (\<lambda>l. push_bit 4 (of_nat h) OR of_nat l = (of_nat (h * 16 + l) :: u8)) [0..<16]) [0..<16]"
    by code_simp
  assume "h < 16" "l < 16"
  then show ?thesis using all by (auto simp: list_all_iff)
qed

lemma nibble_cases: "list_all (\<lambda>n. hex_nibble (of_nat (hex_digit n)) = Ok (of_nat n) \<and> hex_digit n < 128) [0..<16]"
  by code_simp

lemma hex_nibble_digit: "n < 16 \<Longrightarrow> hex_nibble (of_nat (hex_digit n)) = Ok (of_nat n)" "n < 16 \<Longrightarrow> hex_digit n < 128"
  using nibble_cases by (auto simp: list_all_iff)

lemma hex_byte_ascii: "list_all (\<lambda>c. c < 128) (hex_byte b)"
proof -
  have "unat b < 256" using unsigned_less [of b, where ?'a = nat] by simp
  then have "unat b div 16 < 16" by (simp add: less_mult_imp_div_less)
  then show ?thesis by (simp add: hex_byte_def hex_nibble_digit)
qed

lemma to_hex_ascii: "list_all (\<lambda>c. c < 128) (to_hex i)"
  by (induction i) (simp_all add: to_hex_def hex_byte_ascii)

lemma hex_pairs_to_hex: "hex_pairs (map of_nat (to_hex i)) = Ok i"
proof (induction i)
  case (Cons b i)
  have "unat b < 256" using unsigned_less [of b, where ?'a = nat] by simp
  then have "unat b div 16 < 16" "unat b mod 16 < 16" by (simp_all add: less_mult_imp_div_less)
  then show ?case using Cons.IH by (simp add: to_hex_def hex_byte_def hex_nibble_digit nibbles_or)
qed (simp add: to_hex_def)

lemma length_to_hex: "length (to_hex i) = 2 * length i"
  by (induction i) (simp_all add: to_hex_def hex_byte_def)

lemma from_hex_to_hex: "valid_id i \<Longrightarrow> from_hex (to_hex i) = Ok i"
  by (simp add: from_hex_def as_bytes_ascii [OF to_hex_ascii] hex_pairs_to_hex length_to_hex valid_id_def)

lemma hex_pairs_length: "hex_pairs bs = Ok i \<Longrightarrow> length i = length bs div 2"
  by (induction bs arbitrary: i rule: hex_pairs.induct) (auto simp: res_bind_Inr)

lemma from_hex_valid: "from_hex s = Ok i \<Longrightarrow> valid_id i"
  using hex_pairs_length [of "as_bytes s" i] by (simp add: from_hex_def Let_def valid_id_def split: if_splits)

section \<open>Sequencing\<close>

context codec
begin

lemma bind_put_get:
  "ok x \<Longrightarrow> addressable (pre @ put x @ rest) \<Longrightarrow>
   rd_bind get k (reader_at pre (put x @ rest)) = k x (reader_at (pre @ put x) rest)"
  by (rule rd_bind_Ok) (rule put_get)

lemma bind_get_put:
  assumes "rd_bind get k (reader_at pre bs) = Ok y" and "addressable (pre @ bs)"
  shows "\<exists>x rest. ok x \<and> bs = put x @ rest \<and> k x (reader_at (pre @ put x) rest) = Ok y \<and>
    addressable ((pre @ put x) @ rest)"
  using assms get_put unfolding rd_bind_eq_Ok by (metis append.assoc)

lemma many_bind_put_get:
  "list_all ok xs \<Longrightarrow> addressable (pre @ concat (map put xs) @ rest) \<Longrightarrow>
   rd_bind (read_many get (length xs)) k (reader_at pre (concat (map put xs) @ rest)) =
     k xs (reader_at (pre @ concat (map put xs)) rest)"
  by (rule rd_bind_Ok) (rule many_put_get)

lemma many_bind_get_put:
  assumes "rd_bind (read_many get n) k (reader_at pre bs) = Ok y" and "addressable (pre @ bs)"
  shows "\<exists>xs rest. list_all ok xs \<and> length xs = n \<and> bs = concat (map put xs) @ rest \<and>
    k xs (reader_at (pre @ concat (map put xs)) rest) = Ok y"
  using assms many_get_put unfolding rd_bind_eq_Ok by metis

text \<open>Reading a whole object: nothing may be left over.\<close>

lemma whole_put_get:
  "ok x \<Longrightarrow> addressable (put x) \<Longrightarrow>
   rd_bind get (\<lambda>out. rd_bind read_finish (\<lambda>_. rd_return out)) (reader_new (put x)) = Ok (x, reader_at (put x) [])"
  using put_get [of x "[]" "[]"] read_finish_at [of "put x" "[]"]
  by (simp add: reader_new_at rd_bind_def rd_return_def)

lemma whole_get_put:
  assumes "rd_bind get (\<lambda>out. rd_bind read_finish (\<lambda>_. rd_return out)) (reader_new bs) = Ok (x, r)" and "addressable bs"
  shows "ok x \<and> bs = put x"
proof -
  from assms(2) have a: "addressable ([] @ bs)" by simp
  from bind_get_put [OF assms(1) [unfolded reader_new_at] a] obtain y rest where
    y: "ok y" "bs = put y @ rest" "rd_bind read_finish (\<lambda>_. rd_return y) (reader_at ([] @ put y) rest) = Ok (x, r)" by blast
  have "addressable (put y @ rest)" using assms(2) y(2) by simp
  then have "rest = []" "x = y"
    using y(3) by (auto simp: rd_bind_eq_Ok read_finish_at split: if_splits)
  with y show ?thesis by simp
qed

end

end
