(* ===== verification/SnapChunk.thy ===== *)
theory SnapChunk
  imports Prelude
begin

text \<open>
  Content-defined chunking of file content, \<open>bashkit/src/snapshot/chunker.rs\<close>: a gear hash rolls over
  the bytes and a chunk ends where its low bits are zero, between a smallest and a largest size.
\<close>

unbundle bit_operations_syntax

section \<open>The gear table\<close>

text \<open>The loop of \<open>gear_table\<close>, a xorshift sequence.\<close>

fun gear_loop :: "nat \<Rightarrow> u64 \<Rightarrow> u64 list" where
  "gear_loop 0 state = []"
| "gear_loop (Suc n) state =
     (let state = state XOR push_bit 13 state;
          state = state XOR drop_bit 7 state;
          state = state XOR push_bit 17 state
      in state # gear_loop n state)"

definition gear_table :: "u64 list" where
  "gear_table = gear_loop 256 0x2545F4914F6CDD1D"

section \<open>Cutting\<close>

definition MIN_CHUNK :: nat where
  "MIN_CHUNK = 2 * 1024"

definition AVG_BITS :: nat where
  "AVG_BITS = 14"

definition MAX_CHUNK :: nat where
  "MAX_CHUNK = 64 * 1024"

definition INLINE_MAX :: nat where
  "INLINE_MAX = 4 * 1024"

definition MASK :: u64 where
  "MASK = push_bit AVG_BITS 1 - 1"

definition roll :: "u64 \<Rightarrow> u8 \<Rightarrow> u64" where
  "roll hash byte = push_bit 1 hash + gear_table ! unat byte"

fun cut_loop :: "u64 \<Rightarrow> nat \<Rightarrow> u8 list \<Rightarrow> nat \<Rightarrow> nat" where
  "cut_loop hash offset [] limit = limit"
| "cut_loop hash offset (byte # bytes) limit =
     (let hash = roll hash byte
      in if hash AND MASK = 0 then offset + 1 else cut_loop hash (offset + 1) bytes limit)"

definition next_boundary :: "u8 list \<Rightarrow> nat" where
  "next_boundary data =
     (if length data \<le> MIN_CHUNK then length data
      else let limit = min (length data) MAX_CHUNK;
               hash = foldl roll 0 (take MIN_CHUNK data)
           in cut_loop hash MIN_CHUNK (drop MIN_CHUNK (take limit data)) limit)"

lemma cut_loop_bounds:
  "limit = offset + length bs \<Longrightarrow> bs \<noteq> [] \<Longrightarrow> offset < cut_loop hash offset bs limit \<and> cut_loop hash offset bs limit \<le> limit"
proof (induction hash offset bs limit rule: cut_loop.induct)
  case (2 hash offset byte bytes limit)
  then show ?case by (cases bytes) (auto simp: Let_def)
qed simp

lemma chunk_sizes [simp]: "MIN_CHUNK < MAX_CHUNK" "0 < MIN_CHUNK" "0 < MAX_CHUNK"
  by (simp_all add: MIN_CHUNK_def MAX_CHUNK_def)

lemma next_boundary_bounds:
  "next_boundary data \<le> length data" "next_boundary data \<le> MAX_CHUNK"
  "MIN_CHUNK < length data \<Longrightarrow> MIN_CHUNK < next_boundary data"
  "data \<noteq> [] \<Longrightarrow> 0 < next_boundary data"
proof -
  have "MIN_CHUNK < next_boundary data \<and> next_boundary data \<le> min (length data) MAX_CHUNK" if "MIN_CHUNK < length data"
  proof -
    let ?l = "min (length data) MAX_CHUNK" and ?h = "foldl roll 0 (take MIN_CHUNK data)"
    have "MIN_CHUNK < ?l" using that chunk_sizes(1) by simp
    then have "MIN_CHUNK < cut_loop ?h MIN_CHUNK (drop MIN_CHUNK (take ?l data)) ?l \<and>
        cut_loop ?h MIN_CHUNK (drop MIN_CHUNK (take ?l data)) ?l \<le> ?l"
      using that by (intro cut_loop_bounds) (auto simp: MIN_CHUNK_def MAX_CHUNK_def)
    then show ?thesis using that by (simp add: next_boundary_def Let_def)
  qed
  moreover have "next_boundary data = length data" if "\<not> MIN_CHUNK < length data"
    using that by (simp add: next_boundary_def)
  ultimately show "next_boundary data \<le> length data" "next_boundary data \<le> MAX_CHUNK"
    "MIN_CHUNK < length data \<Longrightarrow> MIN_CHUNK < next_boundary data" "data \<noteq> [] \<Longrightarrow> 0 < next_boundary data"
    by (cases "MIN_CHUNK < length data"; force simp: MIN_CHUNK_def MAX_CHUNK_def)+
qed

text \<open>The loop of \<open>chunk\<close>: it advances because every chunk has a byte.\<close>

function chunk :: "u8 list \<Rightarrow> u8 list list" where
  "chunk data =
     (if data = [] then []
      else take (next_boundary data) data # chunk (drop (next_boundary data) data))"
  by auto
termination
  using next_boundary_bounds(4) by (relation "measure length") (auto intro!: diff_less)

declare chunk.simps [simp del]

section \<open>The chunks of a file\<close>

lemma chunk_Nil [simp]: "chunk [] = []"
  by (simp add: chunk.simps)

lemma chunk_step: "data \<noteq> [] \<Longrightarrow> chunk data = take (next_boundary data) data # chunk (drop (next_boundary data) data)"
  by (subst chunk.simps) simp

lemma concat_chunk: "concat (chunk data) = data"
proof (induction data rule: chunk.induct)
  case (1 data)
  then show ?case by (cases "data = []") (simp_all add: chunk_step)
qed

text \<open>Where a chunk ends does not depend on what follows it.\<close>

lemma cut_loop_append:
  "cut_loop hash offset (xs @ ys) limit = offset + length xs \<Longrightarrow> xs \<noteq> [] \<Longrightarrow> ys \<noteq> [] \<Longrightarrow>
   limit = offset + length (xs @ ys) \<Longrightarrow> cut_loop hash offset (xs @ zs) limit' = offset + length xs"
proof (induction xs arbitrary: hash offset)
  case (Cons x xs)
  show ?case
  proof (cases "roll hash x AND MASK = 0")
    case False
    then have rest: "cut_loop (roll hash x) (offset + 1) (xs @ ys) limit = offset + 1 + length xs"
      using Cons.prems(1) by (simp add: Let_def)
    moreover have "xs \<noteq> []"
      using rest cut_loop_bounds [of limit "offset + 1" ys "roll hash x"] Cons.prems(3,4) by auto
    ultimately show ?thesis
      using Cons.IH [of "roll hash x" "offset + 1"] Cons.prems(3,4) False by (simp add: Let_def)
  qed (use Cons.prems in \<open>simp add: Let_def\<close>)
qed simp

lemma next_boundary_append:
  assumes "next_boundary (a @ b) = length a" and "b \<noteq> []"
  shows "next_boundary (a @ b') = length a"
proof -
  have long: "MIN_CHUNK < length (a @ b)"
    using assms by (cases "MIN_CHUNK < length (a @ b)") (auto simp: next_boundary_def)
  have a: "MIN_CHUNK < length a" "length a \<le> MAX_CHUNK"
    using next_boundary_bounds(2,3) [of "a @ b"] long assms(1) by simp_all
  define h where "h = foldl roll 0 (take MIN_CHUNK a)"
  have cut: "next_boundary (a @ c) =
      cut_loop h MIN_CHUNK (drop MIN_CHUNK a @ take (min (length a + length c) MAX_CHUNK - length a) c)
        (min (length a + length c) MAX_CHUNK)" for c
  proof -
    have "take (min (length a + length c) MAX_CHUNK) a = a" using a by simp
    then show ?thesis using a by (simp add: next_boundary_def h_def Let_def)
  qed
  let ?l = "min (length a + length b) MAX_CHUNK" and ?l' = "min (length a + length b') MAX_CHUNK"
  have here: "cut_loop h MIN_CHUNK (drop MIN_CHUNK a @ take (?l - length a) b) ?l = MIN_CHUNK + length (drop MIN_CHUNK a)"
    using cut [of b] assms(1) a(1) by simp
  show ?thesis
  proof (cases "length a < MAX_CHUNK")
    case True
    then have "take (?l - length a) b \<noteq> []" using assms(2) by (simp add: min_def)
    then have "cut_loop h MIN_CHUNK (drop MIN_CHUNK a @ take (?l' - length a) b') ?l' = MIN_CHUNK + length (drop MIN_CHUNK a)"
      using a by (intro cut_loop_append [OF here]) auto
    then show ?thesis using cut [of b'] a(1) by simp
  next
    case False
    then have "?l = length a" "?l' = length a" using a(2) by simp_all
    then show ?thesis using here cut [of b'] a(1) by simp
  qed
qed

lemma chunk_boundary:
  "chunk (a @ b) = cs @ ds \<Longrightarrow> concat cs = a \<Longrightarrow> b \<noteq> [] \<Longrightarrow> ds = chunk b \<and> chunk (a @ b') = cs @ chunk b'"
proof (induction cs arbitrary: a)
  case (Cons c cs)
  let ?n = "next_boundary (a @ b)"
  have c: "c = take ?n (a @ b)" and tail: "chunk (drop ?n (a @ b)) = cs @ ds"
    using Cons.prems(1,3) by (simp_all add: chunk_step)
  obtain a' where a: "a = c @ a'" using Cons.prems(2) by auto
  have n: "?n = length c" using next_boundary_bounds(1) [of "a @ b"] c by simp
  have rest: "chunk (a' @ b) = cs @ ds" using tail unfolding n unfolding a by simp
  moreover have "concat cs = a'" using Cons.prems(2) a by simp
  ultimately have ih: "ds = chunk b" "chunk (a' @ b') = cs @ chunk b'" using Cons.IH Cons.prems(3) by blast+
  have "next_boundary (c @ a' @ b') = length c"
    using next_boundary_append [of c "a' @ b" "a' @ b'"] n a Cons.prems(3) by simp
  moreover have "c \<noteq> []" using next_boundary_bounds(4) [of "a @ b"] n Cons.prems(3) by auto
  ultimately show ?case using ih by (simp add: a chunk_step)
qed simp

text \<open>The test for a cut looks at the last \<open>AVG_BITS\<close> bytes only.\<close>

lemma roll_shift: "foldl roll hash bs = push_bit (length bs) hash + foldl roll 0 bs"
proof (induction bs rule: rev_induct)
  case (snoc b bs)
  then show ?case by (simp add: roll_def push_bit_eq_mult algebra_simps)
qed simp

lemma take_bit_word_add: "take_bit n (a + b) = take_bit n (take_bit n a + take_bit n (b :: 'a::len word))"
  by transfer (simp add: take_bit_take_bit, metis take_bit_add take_bit_take_bit min.idem min.commute)

lemma low_bits_shift: "n \<le> k \<Longrightarrow> take_bit n (push_bit k hash + x) = take_bit n (x :: u64)"
proof -
  assume "n \<le> k"
  then have "take_bit n (push_bit k hash) = 0" by (simp add: take_bit_push_bit)
  moreover have "take_bit n (push_bit k hash + x) = take_bit n (take_bit n (push_bit k hash) + take_bit n x)"
    by (rule take_bit_word_add)
  ultimately show ?thesis by simp
qed

lemma mask_low_bits: "hash AND MASK = take_bit AVG_BITS hash"
  by (simp add: MASK_def take_bit_eq_mask mask_eq_exp_minus_1 push_bit_eq_mult)

lemma cut_test_local:
  assumes "AVG_BITS \<le> length ws"
  shows "foldl roll hash (bs @ ws) AND MASK = 0 \<longleftrightarrow> foldl roll 0 ws AND MASK = 0"
  using low_bits_shift [OF assms, of "foldl roll hash bs" "foldl roll 0 ws"] roll_shift [of "foldl roll hash bs" ws]
  by (simp add: mask_low_bits)

lemma chunk_bounds:
  "concat (chunk data) = data \<and>
   list_all (\<lambda>c. c \<noteq> [] \<and> length c \<le> MAX_CHUNK) (chunk data) \<and>
   list_all (\<lambda>c. MIN_CHUNK < length c) (butlast (chunk data))"
proof (induction data rule: chunk.induct)
  case (1 data)
  show ?case
  proof (cases "data = []")
    case False
    let ?n = "next_boundary data"
    have first: "take ?n data \<noteq> []" "length (take ?n data) \<le> MAX_CHUNK"
      using next_boundary_bounds(2,4) [of data] False by (simp_all add: min.coboundedI2)
    have "MIN_CHUNK < length (take ?n data)" if "chunk (drop ?n data) \<noteq> []"
    proof -
      have "drop ?n data \<noteq> []" using that by auto
      then have "MIN_CHUNK < length data" by (auto simp: next_boundary_def split: if_splits)
      then show ?thesis using next_boundary_bounds(1,3) [of data] by simp
    qed
    then show ?thesis using 1 [OF False] first by (auto simp: chunk_step [OF False])
  qed simp
qed

text \<open>
  Chunking loses nothing and is bounded. The chunks of a file concatenate back to it, none
  is empty or longer than \<open>MAX_CHUNK\<close>, and all but the last are longer than \<open>MIN_CHUNK\<close>; the function
  is total, so the loop ends on every input.
\<close>

theorem chunks_partition_content:
  "concat (chunk data) = data \<and>
   list_all (\<lambda>c. c \<noteq> [] \<and> length c \<le> MAX_CHUNK) (chunk data) \<and>
   list_all (\<lambda>c. MIN_CHUNK < length c) (butlast (chunk data))"
  by (rule chunk_bounds)

text \<open>
  Property C25: an edit re-chunks nothing before it. When a chunk boundary falls at the end of \<open>a\<close>,
  whatever follows \<open>a\<close> may be replaced: the chunks of \<open>a\<close> stay the same, and what comes after is
  chunked as a file of its own, so two files with a common rest share the chunks of that rest. The
  test for a cut depends on the last 14 bytes only.
\<close>

theorem edits_rechunk_locally:
  "(chunk (a @ b) = cs @ ds \<and> concat cs = a \<and> b \<noteq> [] \<longrightarrow> ds = chunk b \<and> chunk (a @ b') = cs @ chunk b') \<and>
   (length ws = 14 \<longrightarrow>
      (foldl roll hash (bs @ ws) AND MASK = 0 \<longleftrightarrow> foldl roll hash' (bs' @ ws) AND MASK = 0))"
  using chunk_boundary [of a b cs ds b'] cut_test_local [of ws hash bs] cut_test_local [of ws hash' bs']
  by (auto simp: AVG_BITS_def)

text \<open>A file of zero bytes is cut at \<open>MAX_CHUNK\<close> only.\<close>

lemma gear_first: "gear_table ! 0 = 0x7F6C280BEAA8E3E7"
proof -
  have "gear_loop 1 0x2545F4914F6CDD1D = [0x7F6C280BEAA8E3E7]" by code_simp
  then have "gear_loop (Suc 255) 0x2545F4914F6CDD1D ! 0 = 0x7F6C280BEAA8E3E7"
    by (simp only: One_nat_def gear_loop.simps Let_def nth_Cons_0 list.inject)
  then show ?thesis by (simp only: gear_table_def) simp
qed

lemma zeroes_no_cut:
  assumes "14 \<le> m"
  shows "foldl roll 0 (replicate m 0) AND MASK \<noteq> 0"
proof -
  have "foldl (\<lambda>h b. push_bit 1 h + 0x7F6C280BEAA8E3E7) 0 (replicate 14 (0 :: u8)) AND MASK \<noteq> 0" by code_simp
  moreover have "foldl roll h (replicate n 0) = foldl (\<lambda>h b. push_bit 1 h + 0x7F6C280BEAA8E3E7) h (replicate n (0 :: u8))" for h n
    by (induction n arbitrary: h) (simp_all add: roll_def gear_first)
  moreover have "replicate m 0 = replicate (m - 14) 0 @ replicate 14 (0 :: u8)"
    using assms by (simp flip: replicate_add)
  ultimately show ?thesis
    using cut_test_local [of "replicate 14 0" 0 "replicate (m - 14) 0"] by (simp add: AVG_BITS_def)
qed

lemma zeroes_cut_loop:
  "14 \<le> m \<Longrightarrow> cut_loop (foldl roll 0 (replicate m 0)) offset (replicate k 0) limit = limit"
proof (induction k arbitrary: m offset)
  case (Suc k)
  have "foldl roll 0 (replicate (Suc m) 0) = roll (foldl roll 0 (replicate m 0)) 0"
    by (simp flip: replicate_append_same)
  then show ?case using Suc.IH [of "Suc m" "offset + 1"] zeroes_no_cut [of "Suc m"] Suc.prems
    by (simp add: Let_def)
qed simp

lemma zeroes_chunk: "chunk (replicate MAX_CHUNK 0 @ [1]) = [replicate MAX_CHUNK 0, [1]]"
proof -
  let ?d = "replicate MAX_CHUNK (0 :: u8) @ [1]"
  have "take MIN_CHUNK ?d = replicate MIN_CHUNK 0" "drop MIN_CHUNK (take MAX_CHUNK ?d) = replicate (MAX_CHUNK - MIN_CHUNK) 0"
    using less_imp_le [OF chunk_sizes(1)] by (simp_all only: take_append drop_append take_replicate drop_replicate length_replicate min.absorb1 min.absorb2) simp_all
  then have n: "next_boundary ?d = MAX_CHUNK"
    using zeroes_cut_loop [of MIN_CHUNK MIN_CHUNK "MAX_CHUNK - MIN_CHUNK" MAX_CHUNK]
    by (simp add: next_boundary_def) (simp add: MIN_CHUNK_def MAX_CHUNK_def)
  have "chunk [1 :: u8] = [[1]]" by (simp add: chunk.simps next_boundary_def MIN_CHUNK_def)
  then show ?thesis by (simp add: chunk_step n)
qed

theorem edits_rechunk_locally_witness:
  "chunk (replicate MAX_CHUNK 0 @ [7, 8]) = [replicate MAX_CHUNK 0, [7, 8]]"
proof -
  have "chunk [7, 8 :: u8] = [[7, 8]]" by (simp add: chunk.simps next_boundary_def MIN_CHUNK_def)
  then show ?thesis
    using edits_rechunk_locally [of "replicate MAX_CHUNK 0" "[1]" "[replicate MAX_CHUNK 0]" "[[1]]" "[7, 8]" "[]" 0 "[]" 0 "[]"]
      zeroes_chunk by simp
qed

end
