(* ===== verification/SnapObjects.thy ===== *)
theory SnapObjects
  imports SnapBytes SnapChunk FsSnapshot "HOL-Library.List_Lexorder" "HOL-Library.Multiset"
begin

text \<open>
  The objects of the snapshot graph, \<open>bashkit/src/snapshot/objects.rs\<close>: content addresses, file manifests, trees,
  canonical JSON and commits. SHA-256 (\<open>sha2\<close>), the deflate codec (\<open>flate2\<close>) and JSON (\<open>serde\<close>, \<open>serde_json\<close>) are
  not code of the repository: they are the fields of the record \<open>outside\<close>, an argument of every definition
  that uses them.
\<close>

section \<open>What comes from outside\<close>

datatype json_number = PosInt u64 | NegInt i64 | Float u64

datatype json =
    JNull
  | JBool bool
  | JNumber json_number
  | JString rstr
  | JArray "json list"
  | JObject "(rstr \<times> json) list"

text \<open>The root object of a snapshot.\<close>

record commit_object =
  cm_parents :: "object_id list"
  cm_tree :: "object_id option"
  cm_shell :: object_id
  cm_caps :: object_id
  cm_session_commands :: u64
  cm_session_exec_calls :: u64
  cm_meta :: "(rstr \<times> rstr) list"

text \<open>The environment that produced a commit, \<open>CapabilityFingerprint\<close> of \<open>capabilities.rs\<close>.\<close>

record capability_fingerprint =
  cf_version :: rstr
  cf_builtins :: "rstr list"
  cf_features :: "rstr list"
  cf_fs_backend :: rstr

text \<open>
  The parameters. \<open>deflate_stream\<close> is the encoder run over the bytes; \<open>inflate_stream n\<close> is the decoder
  read up to \<open>n\<close> bytes, with the count of bytes it consumed, or \<open>None\<close> for a decoder error;
  \<open>scalar_text\<close> is \<open>to_string\<close> of a JSON value that is no array or object; the \<open>_value\<close> fields are
  \<open>to_value\<close> of the derived \<open>Serialize\<close>, the \<open>parse_\<close> fields are \<open>from_slice\<close>. The shell state, of type
  \<open>'s\<close>, is opaque here.
\<close>

record 's outside =
  sha256 :: "u8 list \<Rightarrow> object_id"
  deflate_stream :: "u8 list \<Rightarrow> u8 list option"
  inflate_stream :: "u64 \<Rightarrow> u8 list \<Rightarrow> (u8 list \<times> u64) option"
  scalar_text :: "json \<Rightarrow> u8 list"
  commit_value :: "commit_object \<Rightarrow> json"
  parse_commit :: "u8 list \<Rightarrow> commit_object option"
  caps_value :: "capability_fingerprint \<Rightarrow> json"
  parse_caps :: "u8 list \<Rightarrow> capability_fingerprint option"
  shell_value :: "'s \<Rightarrow> json"
  parse_shell :: "u8 list \<Rightarrow> 's option"

section \<open>Content addresses\<close>

definition KIND_CHUNK :: u8 where "KIND_CHUNK = 1"
definition KIND_FILE :: u8 where "KIND_FILE = 2"
definition KIND_TREE :: u8 where "KIND_TREE = 3"
definition KIND_SHELL :: u8 where "KIND_SHELL = 4"
definition KIND_CAPS :: u8 where "KIND_CAPS = 5"
definition KIND_COMMIT :: u8 where "KIND_COMMIT = 6"

definition MAX_TREE_ENTRIES :: u32 where "MAX_TREE_ENTRIES = 10000000"
definition MAX_FILE_CHUNKS :: u32 where "MAX_FILE_CHUNKS = 10000000"
definition MAX_PARENTS :: nat where "MAX_PARENTS = 64"

lemmas kind_defs = KIND_CHUNK_def KIND_FILE_def KIND_TREE_def KIND_SHELL_def KIND_CAPS_def KIND_COMMIT_def

definition object_id_of :: "'s outside \<Rightarrow> u8 \<Rightarrow> u8 list \<Rightarrow> object_id" where
  "object_id_of X kind payload = sha256 X (kind # payload)"

record encoded =
  enc_id :: object_id
  enc_kind :: u8
  enc_payload :: "u8 list"

definition encoded_new :: "'s outside \<Rightarrow> u8 \<Rightarrow> u8 list \<Rightarrow> encoded" where
  "encoded_new X kind payload =
     \<lparr>enc_id = object_id_of X kind payload, enc_kind = kind, enc_payload = payload\<rparr>"

definition from_storage :: "'s outside \<Rightarrow> object_id \<Rightarrow> u8 list \<Rightarrow> encoded snap_result" where
  "from_storage X expected bytes =
     (case bytes of
        [] \<Rightarrow> Err (Malformed ''empty object'')
      | kind # payload \<Rightarrow>
          (let i = object_id_of X kind payload
           in if i \<noteq> expected then Err (HashMismatch expected i)
              else Ok \<lparr>enc_id = i, enc_kind = kind, enc_payload = payload\<rparr>))"

definition expect_kind :: "u8 \<Rightarrow> encoded \<Rightarrow> unit snap_result" where
  "expect_kind kind e =
     (if enc_kind e \<noteq> kind then Err (WrongKind (enc_id e) (enc_kind e) kind) else Ok ())"

section \<open>File manifests\<close>

datatype file_content = Inline "u8 list" | Chunked u64 "object_id list"

definition FILE_INLINE :: u8 where "FILE_INLINE = 0"
definition FILE_CHUNKED :: u8 where "FILE_CHUNKED = 1"

definition file_bytes :: "file_content \<Rightarrow> u8 list" where
  "file_bytes content =
     (case content of
        Inline bytes \<Rightarrow> FILE_INLINE # put_bytes bytes
      | Chunked sz chunks \<Rightarrow> FILE_CHUNKED # put_u64 sz @ put_u32 (of_nat (length chunks)) @ concat chunks)"

definition encode_file :: "'s outside \<Rightarrow> file_content \<Rightarrow> encoded" where
  "encode_file X content = encoded_new X KIND_FILE (file_bytes content)"

definition read_file_content :: "file_content read" where
  "read_file_content = rd_bind read_u8 (\<lambda>tag.
     if tag = FILE_INLINE then rd_bind read_bytes (\<lambda>bs. rd_return (Inline bs))
     else if tag = FILE_CHUNKED then
       rd_bind read_u64 (\<lambda>sz. rd_bind read_u32 (\<lambda>count.
         if MAX_FILE_CHUNKS < count then rd_fail (Malformed ''file manifest declares too many chunks'')
         else rd_bind (read_many read_object_id (unat count)) (\<lambda>chunks. rd_return (Chunked sz chunks))))
     else rd_fail (Malformed ''unknown file representation''))"

definition decode_file :: "u8 list \<Rightarrow> file_content snap_result" where
  "decode_file payload =
     res_bind (rd_bind read_file_content (\<lambda>out. rd_bind read_finish (\<lambda>_. rd_return out)) (reader_new payload))
       (\<lambda>(out, _). Ok out)"

definition build_file :: "'s outside \<Rightarrow> u8 list \<Rightarrow> encoded \<times> encoded list" where
  "build_file X content =
     (if length content \<le> INLINE_MAX then (encode_file X (Inline content), [])
      else let chunk_objects = map (encoded_new X KIND_CHUNK) (chunk content)
           in (encode_file X (Chunked (of_nat (length content)) (map enc_id chunk_objects)), chunk_objects))"

section \<open>Trees\<close>

definition ENTRY_FILE :: u8 where "ENTRY_FILE = 0"
definition ENTRY_DIR :: u8 where "ENTRY_DIR = 1"
definition ENTRY_SYMLINK :: u8 where "ENTRY_SYMLINK = 2"
definition ENTRY_FIFO :: u8 where "ENTRY_FIFO = 3"

datatype tree_entry_kind = TFile object_id | TDirectory | TSymlink rstr | TFifo

record tree_entry =
  te_path :: rstr
  te_mode :: u32
  te_kind :: tree_entry_kind

definition kind_bytes :: "tree_entry_kind \<Rightarrow> u8 list" where
  "kind_bytes k =
     (case k of
        TFile i \<Rightarrow> ENTRY_FILE # i
      | TDirectory \<Rightarrow> [ENTRY_DIR]
      | TSymlink target \<Rightarrow> ENTRY_SYMLINK # put_bytes (as_bytes target)
      | TFifo \<Rightarrow> [ENTRY_FIFO])"

definition entry_bytes :: "tree_entry \<Rightarrow> u8 list" where
  "entry_bytes e = put_bytes (as_bytes (te_path e)) @ put_u32 (te_mode e) @ kind_bytes (te_kind e)"

definition tree_bytes :: "tree_entry list \<Rightarrow> u8 list" where
  "tree_bytes es = put_u32 (of_nat (length es)) @ concat (map entry_bytes es)"

definition encode_tree :: "'s outside \<Rightarrow> tree_entry list \<Rightarrow> encoded" where
  "encode_tree X es = encoded_new X KIND_TREE (tree_bytes es)"

definition read_entry_kind :: "tree_entry_kind read" where
  "read_entry_kind = rd_bind read_u8 (\<lambda>tag.
     if tag = ENTRY_FILE then rd_bind read_object_id (\<lambda>i. rd_return (TFile i))
     else if tag = ENTRY_DIR then rd_return TDirectory
     else if tag = ENTRY_SYMLINK then rd_bind read_string (\<lambda>target. rd_return (TSymlink target))
     else if tag = ENTRY_FIFO then rd_return TFifo
     else rd_fail (Malformed ''unknown tree entry kind''))"

definition read_tree_entry :: "tree_entry read" where
  "read_tree_entry =
     rd_bind read_string (\<lambda>path. rd_bind read_u32 (\<lambda>m. rd_bind read_entry_kind (\<lambda>k.
       rd_return \<lparr>te_path = path, te_mode = m, te_kind = k\<rparr>)))"

definition read_tree_entries :: "tree_entry list read" where
  "read_tree_entries = rd_bind read_u32 (\<lambda>count.
     if MAX_TREE_ENTRIES < count then rd_fail (Malformed ''tree declares too many entries'')
     else read_many read_tree_entry (unat count))"

definition decode_tree :: "u8 list \<Rightarrow> tree_entry list snap_result" where
  "decode_tree payload =
     res_bind (rd_bind read_tree_entries (\<lambda>out. rd_bind read_finish (\<lambda>_. rd_return out)) (reader_new payload))
       (\<lambda>(out, _). Ok out)"

text \<open>
  A path that is not valid UTF-8 is a list with a code point that is not a scalar value: \<open>Path::to_str\<close>
  gives \<open>None\<close> for it.
\<close>

definition path_to_string :: "rstr \<Rightarrow> rstr snap_result" where
  "path_to_string p = (if list_all scalar p then Ok p else Err NotUtf8Path)"

definition tree_kind :: "'s outside \<Rightarrow> vfs_entry_kind \<Rightarrow> (tree_entry_kind \<times> encoded list) snap_result" where
  "tree_kind X k =
     (case k of
        KFile content \<Rightarrow>
          (let (manifest, chunks) = build_file X content in Ok (TFile (enc_id manifest), manifest # chunks))
      | KDirectory \<Rightarrow> Ok (TDirectory, [])
      | KSymlink target \<Rightarrow> res_bind (path_to_string target) (\<lambda>t. Ok (TSymlink t, []))
      | KFifo \<Rightarrow> Ok (TFifo, []))"

fun tree_entries :: "'s outside \<Rightarrow> vfs_snapshot \<Rightarrow> (tree_entry list \<times> encoded list) snap_result" where
  "tree_entries X [] = Ok ([], [])"
| "tree_entries X (e # es) =
     res_bind (path_to_string (ve_path e)) (\<lambda>path.
     res_bind (tree_kind X (ve_kind e)) (\<lambda>(k, objects).
     res_bind (tree_entries X es) (\<lambda>(rest, more).
       Ok (\<lparr>te_path = path, te_mode = ve_mode e, te_kind = k\<rparr> # rest, objects @ more))))"

text \<open>\<open>sort_by\<close> on the paths is stable and compares strings by their bytes.\<close>

definition sort_entries :: "tree_entry list \<Rightarrow> tree_entry list" where
  "sort_entries es = sort_key (\<lambda>e. as_bytes (te_path e)) es"

definition build_tree :: "'s outside \<Rightarrow> vfs_snapshot \<Rightarrow> (encoded \<times> encoded list) snap_result" where
  "build_tree X vfs =
     res_bind (tree_entries X vfs) (\<lambda>(es, objects). Ok (encode_tree X (sort_entries es), objects))"

text \<open>Rebuilding the entries; \<open>resolve\<close> carries its own state along, the budget of a checkout.\<close>

fun tree_to_vfs :: "tree_entry list \<Rightarrow> (object_id \<Rightarrow> 'b \<Rightarrow> (u8 list \<times> 'b) snap_result) \<Rightarrow> 'b
    \<Rightarrow> (vfs_snapshot \<times> 'b) snap_result" where
  "tree_to_vfs [] resolve b = Ok ([], b)"
| "tree_to_vfs (e # es) resolve b =
     res_bind (case te_kind e of
                 TFile i \<Rightarrow> res_bind (resolve i b) (\<lambda>(content, b). Ok (KFile content, b))
               | TDirectory \<Rightarrow> Ok (KDirectory, b)
               | TSymlink target \<Rightarrow> Ok (KSymlink target, b)
               | TFifo \<Rightarrow> Ok (KFifo, b))
       (\<lambda>(k, b). res_bind (tree_to_vfs es resolve b) (\<lambda>(out, b).
          Ok (\<lparr>ve_path = te_path e, ve_kind = k, ve_mode = te_mode e\<rparr> # out, b)))"

section \<open>Canonical JSON\<close>

fun comma_join :: "u8 list list \<Rightarrow> u8 list" where
  "comma_join [] = []"
| "comma_join [x] = x"
| "comma_join (x # xs) = x @ 44 # comma_join xs"

function write_canonical :: "'s outside \<Rightarrow> json \<Rightarrow> u8 list" where
  "write_canonical X (JObject kvs) =
     123 # comma_join (map (\<lambda>(k, v). scalar_text X (JString k) @ 58 # write_canonical X v)
                           (sort_key (\<lambda>(k, v). as_bytes k) kvs)) @ [125]"
| "write_canonical X (JArray items) = 91 # comma_join (map (write_canonical X) items) @ [93]"
| "write_canonical X JNull = scalar_text X JNull"
| "write_canonical X (JBool b) = scalar_text X (JBool b)"
| "write_canonical X (JNumber n) = scalar_text X (JNumber n)"
| "write_canonical X (JString s) = scalar_text X (JString s)"
  by pat_completeness auto
termination
proof (relation "measure (\<lambda>(X, j). size j)")
  fix X :: "'s outside" and kvs :: "(rstr \<times> json) list" and z :: "rstr \<times> json" and k v
  assume "z \<in> set (sort_key (\<lambda>(k, v). as_bytes k) kvs)" and "(k, v) = z"
  then have "(k, v) \<in> set kvs" by simp
  then show "((X, v), X, JObject kvs) \<in> measure (\<lambda>(X, j). size j)"
    by (induction kvs) auto
next
  fix X :: "'s outside" and items :: "json list" and j
  assume "j \<in> set items"
  then show "((X, j), X, JArray items) \<in> measure (\<lambda>(X, j). size j)"
    by (induction items) auto
qed simp

section \<open>Commits\<close>

definition encode_commit :: "'s outside \<Rightarrow> commit_object \<Rightarrow> encoded snap_result" where
  "encode_commit X c =
     (if MAX_PARENTS < length (cm_parents c) then Err (TooManyParents (length (cm_parents c)))
      else Ok (encoded_new X KIND_COMMIT (write_canonical X (commit_value X c))))"

definition decode_commit :: "'s outside \<Rightarrow> u8 list \<Rightarrow> commit_object snap_result" where
  "decode_commit X payload =
     (case parse_commit X payload of
        None \<Rightarrow> Err JsonError
      | Some c \<Rightarrow>
          if MAX_PARENTS < length (cm_parents c) then Err (Malformed ''commit declares too many parents'')
          else Ok c)"

end
