(* ===== verification/SnapCodec.thy ===== *)
theory SnapCodec
  imports SnapObjects
begin

text \<open>
  Encoding and decoding of snapshot objects are exact inverses: what is decoded re-encodes to the same
  bytes, and truncated, extended or reordered bytes are refused. The readers of file manifests, tree
  entries and trees interpret the locale \<open>codec\<close>.
\<close>

section \<open>File manifests\<close>

fun file_ok :: "file_content \<Rightarrow> bool" where
  "file_ok (Inline bs) = addressable bs"
| "file_ok (Chunked sz chunks) = (length chunks \<le> 10000000 \<and> list_all valid_id chunks)"

lemma unat_length_u32: "length xs \<le> 10000000 \<Longrightarrow> unat (of_nat (length xs) :: u32) = length xs"
  by (simp add: unat_of_nat)

lemma not_less_u32: "\<not> (10000000 :: u32) < n \<longleftrightarrow> unat n \<le> 10000000"
  by (simp add: word_less_nat_alt not_less)

interpretation manifest: codec file_bytes read_file_content file_ok
proof
  show "read_file_content (reader_at pre (file_bytes x @ rest)) = Ok (x, reader_at (pre @ file_bytes x) rest)"
    if "file_ok x" "addressable (pre @ file_bytes x @ rest)" for x pre rest
  proof (cases x)
    case (Inline bs)
    then have f: "file_bytes x = [FILE_INLINE] @ put_bytes bs" by (simp add: file_bytes_def)
    show ?thesis
      using that Inline unfolding f read_file_content_def append_assoc
      by (simp add: u8.bind_put_get [simplified] bytes.bind_put_get rd_return_def)
  next
    case (Chunked sz chunks)
    then have f: "file_bytes x = [FILE_CHUNKED] @ put_u64 sz @ put_u32 (of_nat (length chunks)) @ concat (map (\<lambda>i. i) chunks)"
      by (simp add: file_bytes_def)
    have l: "unat (of_nat (length chunks) :: u32) = length chunks"
      using that(1) Chunked by (simp add: unat_length_u32)
    then have c: "\<not> MAX_FILE_CHUNKS < (of_nat (length chunks) :: u32)"
      using that(1) Chunked by (simp add: MAX_FILE_CHUNKS_def word_less_nat_alt)
    show ?thesis
      using that Chunked l c
      unfolding f read_file_content_def append_assoc
      by (simp add: u8.bind_put_get [simplified] u64.bind_put_get u32.bind_put_get rd_return_def
          object_id.many_bind_put_get [of chunks, simplified] FILE_CHUNKED_def FILE_INLINE_def)
  qed
  show "\<exists>rest. file_ok x \<and> bs = file_bytes x @ rest \<and> r = reader_at (pre @ file_bytes x) rest"
    if "read_file_content (reader_at pre bs) = Ok (x, r)" "addressable (pre @ bs)" for pre bs x r
  proof -
    from u8.bind_get_put [OF that [unfolded read_file_content_def]] obtain tag bs1 where
      1: "bs = [tag] @ bs1" "(if tag = FILE_INLINE then rd_bind read_bytes (\<lambda>bs. rd_return (Inline bs))
         else if tag = FILE_CHUNKED then rd_bind read_u64 (\<lambda>sz. rd_bind read_u32 (\<lambda>count.
           if MAX_FILE_CHUNKS < count then rd_fail (Malformed ''file manifest declares too many chunks'')
           else rd_bind (read_many read_object_id (unat count)) (\<lambda>chunks. rd_return (Chunked sz chunks))))
         else rd_fail (Malformed ''unknown file representation'')) (reader_at (pre @ [tag]) bs1) = Ok (x, r)"
        "addressable ((pre @ [tag]) @ bs1)" by blast
    then consider (i) "tag = FILE_INLINE" "rd_bind read_bytes (\<lambda>bs. rd_return (Inline bs)) (reader_at (pre @ [tag]) bs1) = Ok (x, r)"
      | (c) "tag = FILE_CHUNKED" "rd_bind read_u64 (\<lambda>sz. rd_bind read_u32 (\<lambda>count.
           if MAX_FILE_CHUNKS < count then rd_fail (Malformed ''file manifest declares too many chunks'')
           else rd_bind (read_many read_object_id (unat count)) (\<lambda>chunks. rd_return (Chunked sz chunks))))
          (reader_at (pre @ [tag]) bs1) = Ok (x, r)"
      by (auto split: if_splits)
    then show ?thesis
    proof cases
      case i
      from bytes.bind_get_put [OF i(2) 1(3)] obtain w rest where
        "addressable w" "bs1 = put_bytes w @ rest" "x = Inline w" "r = reader_at ((pre @ [tag]) @ put_bytes w) rest"
        by (auto simp only: rd_return_eq prod.inject)
      then show ?thesis using 1(1) i(1) by (simp add: file_bytes_def)
    next
      case c
      from u64.bind_get_put [OF c(2) 1(3)] obtain sz bs2 where
        2: "bs1 = put_u64 sz @ bs2" "rd_bind read_u32 (\<lambda>count.
           if MAX_FILE_CHUNKS < count then rd_fail (Malformed ''file manifest declares too many chunks'')
           else rd_bind (read_many read_object_id (unat count)) (\<lambda>chunks. rd_return (Chunked sz chunks)))
          (reader_at ((pre @ [tag]) @ put_u64 sz) bs2) = Ok (x, r)"
          "addressable (((pre @ [tag]) @ put_u64 sz) @ bs2)" by blast
      from u32.bind_get_put [OF 2(2,3)] obtain n bs3 where
        3: "bs2 = put_u32 n @ bs3" "\<not> MAX_FILE_CHUNKS < n"
          "rd_bind (read_many read_object_id (unat n)) (\<lambda>chunks. rd_return (Chunked sz chunks))
             (reader_at (((pre @ [tag]) @ put_u64 sz) @ put_u32 n) bs3) = Ok (x, r)"
          "addressable ((((pre @ [tag]) @ put_u64 sz) @ put_u32 n) @ bs3)"
        by (auto split: if_splits)
      from object_id.many_bind_get_put [OF 3(3,4)] obtain chunks rest where
        "list_all valid_id chunks" "length chunks = unat n" "bs3 = concat (map (\<lambda>i. i) chunks) @ rest"
        "x = Chunked sz chunks" "r = reader_at ((((pre @ [tag]) @ put_u64 sz) @ put_u32 n) @ concat (map (\<lambda>i. i) chunks)) rest"
        by auto
      then show ?thesis
        using 1(1) 2(1) 3(1,2) c(1) by (simp add: file_bytes_def MAX_FILE_CHUNKS_def not_less_u32)
    qed
  qed
qed

section \<open>Trees\<close>

fun kind_ok :: "tree_entry_kind \<Rightarrow> bool" where
  "kind_ok (TFile i) = valid_id i"
| "kind_ok (TSymlink target) = storable target"
| "kind_ok _ = True"

definition entry_ok :: "tree_entry \<Rightarrow> bool" where
  "entry_ok e \<longleftrightarrow> storable (te_path e) \<and> kind_ok (te_kind e)"

definition tree_entries_ok :: "tree_entry list \<Rightarrow> bool" where
  "tree_entries_ok es \<longleftrightarrow> length es \<le> 10000000 \<and> list_all entry_ok es"

lemmas entry_tags = ENTRY_FILE_def ENTRY_DIR_def ENTRY_SYMLINK_def ENTRY_FIFO_def

interpretation entry_kind: codec kind_bytes read_entry_kind kind_ok
proof
  show "read_entry_kind (reader_at pre (kind_bytes x @ rest)) = Ok (x, reader_at (pre @ kind_bytes x) rest)"
    if "kind_ok x" "addressable (pre @ kind_bytes x @ rest)" for x pre rest
    using that
    by (cases x) (simp_all add: kind_bytes_def read_entry_kind_def entry_tags u8.bind_put_get [simplified]
        object_id.bind_put_get string.bind_put_get rd_return_def)
  show "\<exists>rest. kind_ok x \<and> bs = kind_bytes x @ rest \<and> r = reader_at (pre @ kind_bytes x) rest"
    if "read_entry_kind (reader_at pre bs) = Ok (x, r)" "addressable (pre @ bs)" for pre bs x r
  proof -
    from u8.bind_get_put [OF that [unfolded read_entry_kind_def]] obtain tag bs1 where
      1: "bs = [tag] @ bs1" "(if tag = ENTRY_FILE then rd_bind read_object_id (\<lambda>i. rd_return (TFile i))
         else if tag = ENTRY_DIR then rd_return TDirectory
         else if tag = ENTRY_SYMLINK then rd_bind read_string (\<lambda>target. rd_return (TSymlink target))
         else if tag = ENTRY_FIFO then rd_return TFifo
         else rd_fail (Malformed ''unknown tree entry kind'')) (reader_at (pre @ [tag]) bs1) = Ok (x, r)"
        "addressable ((pre @ [tag]) @ bs1)" by blast
    consider (f) "tag = ENTRY_FILE" | (d) "tag = ENTRY_DIR" | (s) "tag = ENTRY_SYMLINK" | (p) "tag = ENTRY_FIFO"
      using 1(2) by (auto split: if_splits)
    then show ?thesis
    proof cases
      case f
      then have "rd_bind read_object_id (\<lambda>i. rd_return (TFile i)) (reader_at (pre @ [tag]) bs1) = Ok (x, r)"
        using 1(2) by simp
      from object_id.bind_get_put [OF this 1(3)] obtain i rest where
        "valid_id i" "bs1 = i @ rest" "x = TFile i" "r = reader_at ((pre @ [tag]) @ i) rest"
        by (auto simp only: rd_return_eq prod.inject)
      then show ?thesis using 1(1) f by (simp add: kind_bytes_def)
    next
      case s
      then have "rd_bind read_string (\<lambda>target. rd_return (TSymlink target)) (reader_at (pre @ [tag]) bs1) = Ok (x, r)"
        using 1(2) by (simp add: entry_tags)
      from string.bind_get_put [OF this 1(3)] obtain t rest where
        "storable t" "bs1 = put_bytes (as_bytes t) @ rest" "x = TSymlink t"
        "r = reader_at ((pre @ [tag]) @ put_bytes (as_bytes t)) rest"
        by (auto simp only: rd_return_eq prod.inject)
      then show ?thesis using 1(1) s by (simp add: kind_bytes_def)
    qed (use 1 in \<open>auto simp: kind_bytes_def entry_tags\<close>)
  qed
qed

interpretation tree_entry: codec entry_bytes read_tree_entry entry_ok
proof
  show "read_tree_entry (reader_at pre (entry_bytes x @ rest)) = Ok (x, reader_at (pre @ entry_bytes x) rest)"
    if "entry_ok x" "addressable (pre @ entry_bytes x @ rest)" for x pre rest
    using that by (simp add: entry_ok_def entry_bytes_def read_tree_entry_def string.bind_put_get u32.bind_put_get
        entry_kind.bind_put_get rd_return_def)
  show "\<exists>rest. entry_ok x \<and> bs = entry_bytes x @ rest \<and> r = reader_at (pre @ entry_bytes x) rest"
    if "read_tree_entry (reader_at pre bs) = Ok (x, r)" "addressable (pre @ bs)" for pre bs x r
  proof -
    from string.bind_get_put [OF that [unfolded read_tree_entry_def]] obtain path bs1 where
      1: "storable path" "bs = put_bytes (as_bytes path) @ bs1"
        "rd_bind read_u32 (\<lambda>m. rd_bind read_entry_kind (\<lambda>k. rd_return \<lparr>te_path = path, te_mode = m, te_kind = k\<rparr>))
           (reader_at (pre @ put_bytes (as_bytes path)) bs1) = Ok (x, r)"
        "addressable ((pre @ put_bytes (as_bytes path)) @ bs1)" by blast
    from u32.bind_get_put [OF 1(3,4)] obtain m bs2 where
      2: "bs1 = put_u32 m @ bs2"
        "rd_bind read_entry_kind (\<lambda>k. rd_return \<lparr>te_path = path, te_mode = m, te_kind = k\<rparr>)
           (reader_at ((pre @ put_bytes (as_bytes path)) @ put_u32 m) bs2) = Ok (x, r)"
        "addressable (((pre @ put_bytes (as_bytes path)) @ put_u32 m) @ bs2)" by blast
    from entry_kind.bind_get_put [OF 2(2,3)] obtain k rest where
      "kind_ok k" "bs2 = kind_bytes k @ rest" "x = \<lparr>te_path = path, te_mode = m, te_kind = k\<rparr>"
      "r = reader_at (((pre @ put_bytes (as_bytes path)) @ put_u32 m) @ kind_bytes k) rest"
      by (auto simp only: rd_return_eq prod.inject)
    then show ?thesis using 1(1,2) 2(1) by (simp add: entry_ok_def entry_bytes_def)
  qed
qed

interpretation tree: codec tree_bytes read_tree_entries tree_entries_ok
proof
  show "read_tree_entries (reader_at pre (tree_bytes x @ rest)) = Ok (x, reader_at (pre @ tree_bytes x) rest)"
    if "tree_entries_ok x" "addressable (pre @ tree_bytes x @ rest)" for x pre rest
  proof -
    have l: "unat (of_nat (length x) :: u32) = length x"
      using that(1) by (simp add: tree_entries_ok_def unat_length_u32)
    then have "\<not> MAX_TREE_ENTRIES < (of_nat (length x) :: u32)"
      using that(1) by (simp add: tree_entries_ok_def MAX_TREE_ENTRIES_def word_less_nat_alt)
    with l that show ?thesis
      by (simp add: tree_entries_ok_def tree_bytes_def read_tree_entries_def u32.bind_put_get tree_entry.many_put_get)
  qed
  show "\<exists>rest. tree_entries_ok x \<and> bs = tree_bytes x @ rest \<and> r = reader_at (pre @ tree_bytes x) rest"
    if "read_tree_entries (reader_at pre bs) = Ok (x, r)" "addressable (pre @ bs)" for pre bs x r
  proof -
    from u32.bind_get_put [OF that [unfolded read_tree_entries_def]] obtain n bs1 where
      1: "bs = put_u32 n @ bs1" "\<not> MAX_TREE_ENTRIES < n"
        "read_many read_tree_entry (unat n) (reader_at (pre @ put_u32 n) bs1) = Ok (x, r)"
        "addressable ((pre @ put_u32 n) @ bs1)" by (auto split: if_splits)
    from tree_entry.many_get_put [OF 1(3,4)] obtain rest where
      2: "list_all entry_ok x" "length x = unat n" "bs1 = concat (map entry_bytes x) @ rest"
        "r = reader_at ((pre @ put_u32 n) @ concat (map entry_bytes x)) rest" by blast
    moreover have "of_nat (length x) = n" "length x \<le> 10000000"
      using 1(2) 2(2) not_less_u32 [of n] by (simp_all add: MAX_TREE_ENTRIES_def)
    ultimately show ?thesis using 1(1) by (simp add: tree_entries_ok_def tree_bytes_def)
  qed
qed

section \<open>Whole objects\<close>

lemma decode_file_bytes: "file_ok c \<Longrightarrow> addressable (file_bytes c) \<Longrightarrow> decode_file (file_bytes c) = Ok c"
  by (simp add: decode_file_def manifest.whole_put_get)

lemma decode_file_only: "decode_file bs = Ok c \<Longrightarrow> addressable bs \<Longrightarrow> file_ok c \<and> bs = file_bytes c"
  unfolding decode_file_def res_bind_Inr using manifest.whole_get_put by (auto split: prod.splits)

lemma decode_tree_bytes: "tree_entries_ok es \<Longrightarrow> addressable (tree_bytes es) \<Longrightarrow> decode_tree (tree_bytes es) = Ok es"
  by (simp add: decode_tree_def tree.whole_put_get)

lemma decode_tree_only: "decode_tree bs = Ok es \<Longrightarrow> addressable bs \<Longrightarrow> tree_entries_ok es \<and> bs = tree_bytes es"
  unfolding decode_tree_def res_bind_Inr using tree.whole_get_put by (auto split: prod.splits)

text \<open>
  Property C18: the object encodings are exact. A byte string decodes as a tree exactly when it is the
  encoding of that tree, and likewise for file manifests, so each object has one encoding and no truncated,
  extended or altered encoding is accepted as the same object; in particular a declared count above the
  limits is refused.
\<close>

theorem object_encodings_are_exact:
  assumes "addressable bs"
  shows "(decode_tree bs = Ok es \<longleftrightarrow> tree_entries_ok es \<and> bs = tree_bytes es) \<and>
    (decode_file bs = Ok c \<longleftrightarrow> file_ok c \<and> bs = file_bytes c)"
  using assms decode_tree_bytes decode_tree_only decode_file_bytes decode_file_only by blast

theorem object_encodings_are_exact_witness:
  "decode_tree (tree_bytes [\<lparr>te_path = lit ''/a'', te_mode = 420, te_kind = TSymlink (lit ''/b'')\<rparr>]) =
     Ok [\<lparr>te_path = lit ''/a'', te_mode = 420, te_kind = TSymlink (lit ''/b'')\<rparr>] \<and>
   (\<forall>c. decode_file [0, 2, 0, 0, 0, 0, 0, 0, 0, 7] \<noteq> Ok c)"
proof -
  let ?es = "[\<lparr>te_path = lit ''/a'', te_mode = 420, te_kind = TSymlink (lit ''/b'')\<rparr> :: tree_entry]"
  have "tree_entries_ok ?es" "addressable (tree_bytes ?es)"
    by (simp_all add: tree_entries_ok_def entry_ok_def storable_def scalar_def addressable_def tree_bytes_def entry_bytes_def
        kind_bytes_def put_bytes_def put_u64_def put_u32_def as_bytes_def utf8_char_def lit_def)
  moreover have "decode_file [0, 2, 0, 0, 0, 0, 0, 0, 0, 7] \<noteq> Ok c" for c
  proof
    assume "decode_file [0, 2, 0, 0, 0, 0, 0, 0, 0, 7] = Ok c"
    moreover have "decode_file [0, 2, 0, 0, 0, 0, 0, 0, 0, 7] = Err (Malformed ''truncated object'')"
      by (simp add: decode_file_def read_file_content_def read_u8_def read_bytes_def read_u64_def read_take_def take_slice_def rd_bind_def
          rd_return_def reader_new_def checked_add_def Let_def FILE_INLINE_def)
    ultimately show False by simp
  qed
  ultimately show ?thesis using object_encodings_are_exact [of "tree_bytes ?es" ?es] by simp
qed

section \<open>Canonical JSON\<close>

lemma insort_key_map: "insort_key f (g x) (map g xs) = map g (insort_key (f \<circ> g) x xs)"
  by (induction xs) simp_all

lemma sort_key_map: "sort_key f (map g xs) = map g (sort_key (f \<circ> g) xs)"
  by (induction xs) (simp_all add: insort_key_map comp_def)

text \<open>The text of an object in terms of the texts of its members.\<close>

definition member_texts :: "'s outside \<Rightarrow> (rstr \<times> json) list \<Rightarrow> (rstr \<times> u8 list) list" where
  "member_texts X kvs = map (\<lambda>(k, v). (k, write_canonical X v)) kvs"

lemma write_canonical_object:
  "write_canonical X (JObject kvs) =
     123 # comma_join (map (\<lambda>(k, w). scalar_text X (JString k) @ 58 # w) (sort_key (as_bytes \<circ> fst) (member_texts X kvs))) @ [125]"
  by (simp add: member_texts_def sort_key_map comp_def case_prod_beta')

text \<open>
  Two JSON values that differ in the order of object members only, at any depth. The keys of an object are
  distinct strings.
\<close>

inductive same_json :: "json \<Rightarrow> json \<Rightarrow> bool" where
  same_refl: "same_json v v"
| same_trans: "same_json u v \<Longrightarrow> same_json v w \<Longrightarrow> same_json u w"
| same_order: "mset kvs = mset kvs' \<Longrightarrow> distinct (keys kvs) \<Longrightarrow> list_all (list_all scalar) (keys kvs) \<Longrightarrow>
    same_json (JObject kvs) (JObject kvs')"
| same_member: "same_json v w \<Longrightarrow> same_json (JObject (xs @ (k, v) # ys)) (JObject (xs @ (k, w) # ys))"
| same_item: "same_json v w \<Longrightarrow> same_json (JArray (xs @ v # ys)) (JArray (xs @ w # ys))"

lemma sort_members:
  assumes "mset kvs = mset kvs'" and "distinct (keys kvs)" and "list_all (list_all scalar) (keys kvs)"
  shows "sort_key (as_bytes \<circ> fst) (member_texts X kvs) = sort_key (as_bytes \<circ> fst) (member_texts X kvs')"
proof -
  let ?f = "as_bytes \<circ> fst :: rstr \<times> u8 list \<Rightarrow> u8 list"
  have m: "mset (member_texts X kvs) = mset (member_texts X kvs')"
    unfolding member_texts_def using assms(1) by simp
  have ks: "map fst (member_texts X kvs) = keys kvs" by (simp add: member_texts_def comp_def case_prod_beta')
  have inj: "inj_on ?f (set (member_texts X kvs))"
  proof (rule inj_onI)
    fix p q assume pq: "p \<in> set (member_texts X kvs)" "q \<in> set (member_texts X kvs)" "?f p = ?f q"
    then have "fst p \<in> set (keys kvs)" "fst q \<in> set (keys kvs)" unfolding ks [symmetric] by simp_all
    then have "list_all scalar (fst p)" "list_all scalar (fst q)" using assms(3) unfolding list_all_iff [of "list_all scalar"] by blast+
    then have "fst p = fst q" using pq(3) as_bytes_inject by simp
    then show "p = q" using pq(1,2) assms(2) unfolding ks [symmetric] by (metis eq_key_imp_eq_value prod.collapse)
  qed
  moreover have "distinct (member_texts X kvs)" using assms(2) unfolding ks [symmetric] by (simp add: distinct_map)
  ultimately have d: "distinct (map ?f (member_texts X kvs))" by (simp add: distinct_map)
  moreover have "mset (map ?f (member_texts X kvs)) = mset (map ?f (member_texts X kvs'))" using m by simp
  ultimately have d': "distinct (map ?f (member_texts X kvs'))" by (metis mset_eq_imp_distinct_iff)
  have sd: "distinct (map ?f (sort_key ?f ys))" if "distinct (map ?f ys)" for ys
    using that by (simp add: distinct_map)
  have "set (sort_key ?f (member_texts X kvs)) = set (sort_key ?f (member_texts X kvs'))"
    using mset_eq_setD [OF m] by simp
  then show ?thesis
    using inj mset_eq_setD [OF m] sd [OF d] sd [OF d']
    by (intro map_sorted_distinct_set_unique [of ?f]) simp_all
qed

lemma same_json_text: "same_json v w \<Longrightarrow> write_canonical X v = write_canonical X w"
proof (induction rule: same_json.induct)
  case (same_order kvs kvs')
  then show ?case by (simp only: write_canonical_object sort_members)
next
  case (same_member v w xs k ys)
  have "member_texts X (xs @ (k, v) # ys) = member_texts X (xs @ (k, w) # ys)"
    by (simp add: member_texts_def same_member.IH)
  then show ?case by (simp only: write_canonical_object)
qed simp_all

text \<open>
  Canonical JSON does not depend on the order in which a map is iterated. Two values that differ
  only in the order of object members, at any depth, are written as the same bytes, so they have the same
  content address.
\<close>

theorem canonical_json_ignores_order:
  assumes "same_json v w"
  shows "write_canonical X v = write_canonical X w \<and>
    encoded_new X kind (write_canonical X v) = encoded_new X kind (write_canonical X w)"
  using same_json_text [OF assms, of X] by simp

theorem canonical_json_ignores_order_witness:
  "write_canonical (\<lparr>sha256 = \<lambda>_. [], deflate_stream = \<lambda>_. None, inflate_stream = \<lambda>_ _. None,
      scalar_text = \<lambda>j. case j of JString s \<Rightarrow> 34 # as_bytes s @ [34] | _ \<Rightarrow> [48],
      commit_value = \<lambda>_. JNull, parse_commit = \<lambda>_. None, caps_value = \<lambda>_. JNull, parse_caps = \<lambda>_. None,
      shell_value = \<lambda>_. JNull, parse_shell = \<lambda>_. None\<rparr> :: unit outside)
    (JArray [JObject [(lit ''b'', JNull), (lit ''a'', JString (lit ''x''))]]) =
   map of_char ''[{\"a\":\"x\",\"b\":0}]''"
proof -
  let ?X = "\<lparr>sha256 = \<lambda>_. [], deflate_stream = \<lambda>_. None, inflate_stream = \<lambda>_ _. None,
      scalar_text = \<lambda>j. case j of JString s \<Rightarrow> 34 # as_bytes s @ [34] | _ \<Rightarrow> [48],
      commit_value = \<lambda>_. JNull, parse_commit = \<lambda>_. None, caps_value = \<lambda>_. JNull, parse_caps = \<lambda>_. None,
      shell_value = \<lambda>_. JNull, parse_shell = \<lambda>_. None\<rparr> :: unit outside"
  let ?kvs = "[(lit ''b'', JNull), (lit ''a'', JString (lit ''x''))]" and ?kvs' = "[(lit ''a'', JString (lit ''x'')), (lit ''b'', JNull)]"
  have "same_json (JObject ?kvs) (JObject ?kvs')"
    by (rule same_order) (simp_all add: lit_def scalar_def)
  then have "same_json (JArray ([] @ JObject ?kvs # [])) (JArray ([] @ JObject ?kvs' # []))" by (rule same_item)
  from canonical_json_ignores_order [OF this, of ?X 0]
  show ?thesis by (simp add: lit_def as_bytes_def utf8_char_def)
qed

end
