(* ===== verification/SnapContainer.thy ===== *)
theory SnapContainer
  imports SnapCodec
begin

text \<open>
  \<open>bashkit/src/snapshot/container.rs\<close>: the storage form of an object, compressed when that pays, and the
  container that holds a commit with all its objects in one byte string.
\<close>

section \<open>Ordered maps\<close>

text \<open>A \<open>BTreeMap\<close> is the list of its pairs in the order of the keys.\<close>

fun bt_insert :: "'k::linorder \<Rightarrow> 'v \<Rightarrow> ('k \<times> 'v) list \<Rightarrow> ('k \<times> 'v) list" where
  "bt_insert k v [] = [(k, v)]"
| "bt_insert k v ((k', v') # m) =
     (if k < k' then (k, v) # (k', v') # m else if k = k' then (k, v) # m else (k', v') # bt_insert k v m)"

definition bt_sorted :: "('k::linorder \<times> 'v) list \<Rightarrow> bool" where
  "bt_sorted m \<longleftrightarrow> sorted_wrt (<) (keys m)"

lemma map_of_bt_insert [simp]: "bt_sorted m \<Longrightarrow> map_of (bt_insert k v m) = (map_of m)(k \<mapsto> v)"
proof (induction m)
  case (Cons p m)
  have "map_of m k = None" if "k < fst p"
    using Cons.prems that by (auto simp: bt_sorted_def map_of_eq_None_iff dest: less_trans)
  with Cons show ?case by (cases p) (auto simp: bt_sorted_def fun_eq_iff)
qed simp

lemma keys_bt_insert [simp]: "set (keys (bt_insert k v m)) = insert k (set (keys m))"
  by (induction k v m rule: bt_insert.induct) (simp_all add: insert_commute)

lemma bt_sorted_insert: "bt_sorted m \<Longrightarrow> bt_sorted (bt_insert k v m)"
proof (induction m)
  case (Cons p m)
  have "fst q \<in> insert k (fst ` set m)" if "q \<in> set (bt_insert k v m)" for q
    using keys_bt_insert [of k v m] that by (metis image_eqI list.set_map)
  with Cons show ?case by (cases p) (force simp: bt_sorted_def)
qed (simp add: bt_sorted_def)

text \<open>Inserting the pairs of a sorted list in their order rebuilds it.\<close>

lemma bt_insert_last: "(\<forall>k' \<in> set (keys m). k' < k) \<Longrightarrow> bt_insert k v m = m @ [(k, v)]"
  by (induction m) auto

lemma bt_rebuild: "bt_sorted (acc @ m) \<Longrightarrow> foldl (\<lambda>acc (k, v). bt_insert k v acc) acc m = acc @ m"
proof (induction m arbitrary: acc)
  case (Cons p m)
  then have "bt_insert (fst p) (snd p) acc = acc @ [p]"
    by (subst bt_insert_last) (auto simp: bt_sorted_def sorted_wrt_append)
  with Cons show ?case by (simp add: case_prod_beta)
qed simp

lemma bt_sorted_foldl: "bt_sorted acc \<Longrightarrow> bt_sorted (foldl (\<lambda>acc (k, v). bt_insert k v acc) acc m)"
  by (induction m arbitrary: acc) (simp_all add: bt_sorted_insert case_prod_beta)

section \<open>Storage blobs\<close>

definition COMPRESSION_NONE :: u8 where "COMPRESSION_NONE = 0"
definition COMPRESSION_DEFLATE :: u8 where "COMPRESSION_DEFLATE = 1"
definition MAX_OBJECT_BYTES :: u64 where "MAX_OBJECT_BYTES = 256 * 1024 * 1024"
definition MAX_OBJECTS :: u32 where "MAX_OBJECTS = 50000000"
definition COMPRESSIBILITY_SAMPLE :: nat where "COMPRESSIBILITY_SAMPLE = 4096"
definition COMPRESSIBILITY_MIN_SIZE :: nat where "COMPRESSIBILITY_MIN_SIZE = 8192"

text \<open>
  The sample must shrink below 0.95 of its size. The product of floats \<open>4096.0 * 0.95\<close> lies strictly between
  3891 and 3892, so the comparison with it is the exact one with 95 hundredths.
\<close>

definition looks_compressible :: "'s outside \<Rightarrow> u8 list \<Rightarrow> bool" where
  "looks_compressible X payload =
     (if length payload \<le> COMPRESSIBILITY_MIN_SIZE then True
      else let start = (length payload - COMPRESSIBILITY_SAMPLE) div 2;
               sample = take COMPRESSIBILITY_SAMPLE (drop start payload)
           in case deflate_stream X sample of
                Some out \<Rightarrow> length out * 100 < length sample * 95
              | None \<Rightarrow> False)"

definition storage_blob_from_parts :: "'s outside \<Rightarrow> u8 \<Rightarrow> u8 list \<Rightarrow> u8 list" where
  "storage_blob_from_parts X kind payload =
     (let raw_len = 1 + length payload;
          plain = COMPRESSION_NONE # kind # payload
      in if looks_compressible X payload
         then case deflate_stream X (kind # payload) of
                Some out \<Rightarrow> if length out < raw_len then COMPRESSION_DEFLATE # out else plain
              | None \<Rightarrow> plain
         else plain)"

definition decompress :: "'s outside \<Rightarrow> u8 \<Rightarrow> u8 list \<Rightarrow> u8 list snap_result" where
  "decompress X flag data =
     (if flag = COMPRESSION_NONE then Ok data
      else if flag = COMPRESSION_DEFLATE then
        (case inflate_stream X (MAX_OBJECT_BYTES + 1) data of
           None \<Rightarrow> Err (MalformedContainer ''object failed to decompress'')
         | Some (out, total_in) \<Rightarrow>
             if unat MAX_OBJECT_BYTES < length out
             then Err (MalformedContainer ''object expands beyond the per-object size limit'')
             else if unat total_in \<noteq> length data
             then Err (MalformedContainer ''object has trailing bytes after its deflate stream'')
             else Ok out)
      else Err (MalformedContainer ''unknown compression flag''))"

definition from_storage_blob :: "'s outside \<Rightarrow> u8 list \<Rightarrow> u8 list snap_result" where
  "from_storage_blob X blob =
     (case blob of
        [] \<Rightarrow> Err (MalformedContainer ''empty object blob'')
      | flag # data \<Rightarrow> decompress X flag data)"

section \<open>The container\<close>

definition MAGIC :: "u8 list" where "MAGIC = map of_char ''BKSNAP''"
definition CONTAINER_VERSION :: u8 where "CONTAINER_VERSION = 2"
definition SCHEMA_VERSION :: "16 word" where "SCHEMA_VERSION = 1"
definition MIN_READER :: "16 word" where "MIN_READER = 2"
definition READER_VERSION :: "16 word" where "READER_VERSION = 2"
definition HASH_SHA256 :: u8 where "HASH_SHA256 = 1"

type_synonym objects = "(object_id \<times> u8 list) list"

record container =
  ct_root :: object_id
  ct_objects :: objects

definition put_u16 :: "16 word \<Rightarrow> u8 list" where
  "put_u16 v = le_bytes 2 (unat v)"

definition put_object :: "object_id \<times> u8 list \<Rightarrow> u8 list" where
  "put_object p = fst p @ put_bytes (snd p)"

definition encode_container :: "object_id \<Rightarrow> objects \<Rightarrow> u8 list" where
  "encode_container root objects =
     MAGIC @ [CONTAINER_VERSION, 0] @ put_u16 SCHEMA_VERSION @ put_u16 MIN_READER @ [HASH_SHA256, 0] @
     root @ put_u32 (of_nat (length objects)) @ concat (map put_object objects)"

definition is_v2 :: "u8 list \<Rightarrow> bool" where
  "is_v2 body = prefix MAGIC body"

definition cursor_take :: "usize \<Rightarrow> u8 list read" where
  "cursor_take = take_slice (MalformedContainer ''length overflow'') (MalformedContainer ''truncated container'')"

definition cursor_u16 :: "16 word read" where
  "cursor_u16 = rd_bind (cursor_take 2) (\<lambda>b. rd_return (of_nat (from_le b)))"

definition cursor_u32 :: "u32 read" where
  "cursor_u32 = rd_bind (cursor_take 4) (\<lambda>b. rd_return (of_nat (from_le b)))"

definition cursor_u64 :: "u64 read" where
  "cursor_u64 = rd_bind (cursor_take 8) (\<lambda>b. rd_return (of_nat (from_le b)))"

definition cursor_object :: "(object_id \<times> u8 list) read" where
  "cursor_object = rd_bind (cursor_take 32) (\<lambda>i. rd_bind (rd_bind cursor_u64 cursor_take) (\<lambda>blob. rd_return (i, blob)))"

definition cursor_header :: "object_id read" where
  "cursor_header = rd_bind (cursor_take 6) (\<lambda>magic.
     if magic \<noteq> MAGIC then rd_fail (MalformedContainer ''bad magic'')
     else rd_bind (cursor_take 1) (\<lambda>_. rd_bind (cursor_take 1) (\<lambda>_. rd_bind cursor_u16 (\<lambda>_. rd_bind cursor_u16 (\<lambda>min_reader.
       if READER_VERSION < min_reader then rd_fail (SnapshotTooNew min_reader READER_VERSION)
       else rd_bind (cursor_take 1) (\<lambda>hash_algo.
         if hash_algo ! 0 \<noteq> HASH_SHA256 then rd_fail (MalformedContainer ''unsupported hash algorithm id'')
         else rd_bind (cursor_take 1) (\<lambda>_. cursor_take 32)))))))"

definition cursor_objects :: "objects read" where
  "cursor_objects = rd_bind cursor_u32 (\<lambda>count.
     if MAX_OBJECTS < count then rd_fail (MalformedContainer ''container declares too many objects'')
     else read_many cursor_object (unat count))"

definition decode_container :: "u8 list \<Rightarrow> container snap_result" where
  "decode_container body =
     res_bind (rd_bind cursor_header (\<lambda>root. rd_bind cursor_objects (\<lambda>objects. rd_return (root, objects))) (reader_new body))
       (\<lambda>((root, objects), cur).
          if unat (rd_pos cur) \<noteq> length body then Err (MalformedContainer ''trailing bytes after container'')
          else Ok \<lparr>ct_root = root, ct_objects = foldl (\<lambda>m (i, blob). bt_insert i blob m) [] objects\<rparr>)"

section \<open>The cursor's reads are codecs\<close>

interpretation cursor_u16: codec put_u16 cursor_u16 "\<lambda>_. True"
  using codec_le [OF cursor_u16_def [unfolded cursor_take_def], of 2] by (simp add: put_u16_def [abs_def])

interpretation cursor_u32: codec put_u32 cursor_u32 "\<lambda>_. True"
  using codec_le [OF cursor_u32_def [unfolded cursor_take_def], of 4] by (simp add: put_u32_def [abs_def])

interpretation cursor_u64: codec put_u64 cursor_u64 "\<lambda>_. True"
  using codec_le [OF cursor_u64_def [unfolded cursor_take_def], of 8] by (simp add: put_u64_def [abs_def])

lemmas cursor_take_at = take_slice_at [of _ _ _ _ "MalformedContainer ''length overflow''"
  "MalformedContainer ''truncated container''", folded cursor_take_def]
lemmas cursor_take_only = take_slice_only [of "MalformedContainer ''length overflow''"
  "MalformedContainer ''truncated container''", folded cursor_take_def]

text \<open>Taking a fixed number of bytes.\<close>

lemma codec_take: "unat n = k \<Longrightarrow> codec (\<lambda>w. w) (cursor_take n) (\<lambda>w. length w = k)"
proof
  show "cursor_take n (reader_at pre (x @ rest)) = Ok (x, reader_at (pre @ x) rest)"
    if "unat n = k" "length x = k" "addressable (pre @ x @ rest)" for x pre rest
    using that by (simp add: cursor_take_at)
  show "\<exists>rest. length x = k \<and> bs = x @ rest \<and> r = reader_at (pre @ x) rest"
    if "unat n = k" "cursor_take n (reader_at pre bs) = Ok (x, r)" "addressable (pre @ bs)" for pre bs x r
    using cursor_take_only [OF that(2,3)] that(1) by simp
qed

interpretation take1: codec "\<lambda>w. w" "cursor_take 1" "\<lambda>w. length w = 1"
  by (rule codec_take) simp

interpretation take6: codec "\<lambda>w. w" "cursor_take 6" "\<lambda>w. length w = 6"
  by (rule codec_take) simp

interpretation take32: codec "\<lambda>w. w" "cursor_take 32" "\<lambda>w. length w = 32"
  by (rule codec_take) simp

interpretation cursor_bytes: codec put_bytes "rd_bind cursor_u64 cursor_take" addressable
proof
  show "rd_bind cursor_u64 cursor_take (reader_at pre (put_bytes x @ rest)) = Ok (x, reader_at (pre @ put_bytes x) rest)"
    if "addressable x" "addressable (pre @ put_bytes x @ rest)" for x pre rest
  proof -
    have "rd_bind cursor_u64 cursor_take (reader_at pre (put_u64 (of_nat (length x)) @ x @ rest)) =
        cursor_take (of_nat (length x)) (reader_at (pre @ put_u64 (of_nat (length x))) (x @ rest))"
      using that(2) by (intro cursor_u64.bind_put_get) (simp_all add: put_bytes_def)
    also have "\<dots> = Ok (x, reader_at ((pre @ put_u64 (of_nat (length x))) @ x) rest)"
      using that by (intro cursor_take_at) (simp_all add: put_bytes_def unat_length)
    finally show ?thesis by (simp add: put_bytes_def)
  qed
  show "\<exists>rest. addressable x \<and> bs = put_bytes x @ rest \<and> r = reader_at (pre @ put_bytes x) rest"
    if "rd_bind cursor_u64 cursor_take (reader_at pre bs) = Ok (x, r)" "addressable (pre @ bs)" for pre bs x r
  proof -
    from cursor_u64.bind_get_put [OF that] obtain n rest1 where
      1: "bs = put_u64 n @ rest1" "cursor_take n (reader_at (pre @ put_u64 n) rest1) = Ok (x, r)"
        "addressable ((pre @ put_u64 n) @ rest1)" by blast
    from cursor_take_only [OF 1(2,3)] obtain rest where
      2: "length x = unat n" "rest1 = x @ rest" "r = reader_at ((pre @ put_u64 n) @ x) rest" by blast
    moreover have "of_nat (length x) = n" "addressable x" using 2(1) by (simp_all add: addressable_def)
    ultimately show ?thesis using 1(1) by (simp add: put_bytes_def)
  qed
qed

definition object_ok :: "object_id \<times> u8 list \<Rightarrow> bool" where
  "object_ok p \<longleftrightarrow> valid_id (fst p) \<and> addressable (snd p)"

interpretation cursor_object: codec put_object cursor_object object_ok
proof
  show "cursor_object (reader_at pre (put_object x @ rest)) = Ok (x, reader_at (pre @ put_object x) rest)"
    if "object_ok x" "addressable (pre @ put_object x @ rest)" for x pre rest
    using that by (simp add: object_ok_def valid_id_def put_object_def cursor_object_def take32.bind_put_get
        cursor_bytes.bind_put_get rd_return_def)
  show "\<exists>rest. object_ok x \<and> bs = put_object x @ rest \<and> r = reader_at (pre @ put_object x) rest"
    if "cursor_object (reader_at pre bs) = Ok (x, r)" "addressable (pre @ bs)" for pre bs x r
  proof -
    from take32.bind_get_put [OF that [unfolded cursor_object_def]] obtain i bs1 where
      1: "length i = 32" "bs = i @ bs1"
        "rd_bind (rd_bind cursor_u64 cursor_take) (\<lambda>blob. rd_return (i, blob)) (reader_at (pre @ i) bs1) = Ok (x, r)"
        "addressable ((pre @ i) @ bs1)" by blast
    from cursor_bytes.bind_get_put [OF 1(3,4)] obtain b rest where
      "addressable b" "bs1 = put_bytes b @ rest" "x = (i, b)" "r = reader_at ((pre @ i) @ put_bytes b) rest"
      by auto
    then show ?thesis using 1 by (simp add: object_ok_def valid_id_def put_object_def)
  qed
qed

definition objects_ok :: "objects \<Rightarrow> bool" where
  "objects_ok os \<longleftrightarrow> length os \<le> 50000000 \<and> list_all object_ok os"

definition objects_bytes :: "objects \<Rightarrow> u8 list" where
  "objects_bytes os = put_u32 (of_nat (length os)) @ concat (map put_object os)"

interpretation cursor_objects: codec objects_bytes cursor_objects objects_ok
proof
  have u: "unat (of_nat (length x) :: u32) = length x" if "objects_ok x" for x
    using that by (simp add: objects_ok_def unat_of_nat)
  have m: "\<not> MAX_OBJECTS < n \<longleftrightarrow> unat n \<le> 50000000" for n
    by (simp add: MAX_OBJECTS_def word_less_nat_alt not_less)
  show "cursor_objects (reader_at pre (objects_bytes x @ rest)) = Ok (x, reader_at (pre @ objects_bytes x) rest)"
    if "objects_ok x" "addressable (pre @ objects_bytes x @ rest)" for x pre rest
    using that u [OF that(1)] m [of "of_nat (length x)"]
    by (simp add: objects_ok_def objects_bytes_def cursor_objects_def cursor_u32.bind_put_get cursor_object.many_put_get)
  show "\<exists>rest. objects_ok x \<and> bs = objects_bytes x @ rest \<and> r = reader_at (pre @ objects_bytes x) rest"
    if "cursor_objects (reader_at pre bs) = Ok (x, r)" "addressable (pre @ bs)" for pre bs x r
  proof -
    from cursor_u32.bind_get_put [OF that [unfolded cursor_objects_def]] obtain n bs1 where
      1: "bs = put_u32 n @ bs1" "\<not> MAX_OBJECTS < n"
        "read_many cursor_object (unat n) (reader_at (pre @ put_u32 n) bs1) = Ok (x, r)"
        "addressable ((pre @ put_u32 n) @ bs1)" by (auto split: if_splits)
    from cursor_object.many_get_put [OF 1(3,4)] obtain rest where
      2: "list_all object_ok x" "length x = unat n" "bs1 = concat (map put_object x) @ rest"
        "r = reader_at ((pre @ put_u32 n) @ concat (map put_object x)) rest" by blast
    moreover have "of_nat (length x) = n" "length x \<le> 50000000" using 1(2) 2(2) m by simp_all
    ultimately show ?thesis using 1(1) by (simp add: objects_ok_def objects_bytes_def)
  qed
qed

section \<open>The header\<close>

text \<open>A header as any producer may write it: only \<open>min_reader\<close> decides whether it can be read.\<close>

definition header_bytes :: "u8 \<Rightarrow> u8 \<Rightarrow> 16 word \<Rightarrow> 16 word \<Rightarrow> u8 \<Rightarrow> object_id \<Rightarrow> u8 list" where
  "header_bytes version reserved schema min_reader flags root =
     MAGIC @ [version] @ [reserved] @ put_u16 schema @ put_u16 min_reader @ [HASH_SHA256] @ [flags] @ root"

lemma MAGIC_length [simp]: "length MAGIC = 6"
  by (simp add: MAGIC_def)

lemma header_read:
  assumes "valid_id root" and "\<not> READER_VERSION < m" and "addressable (pre @ header_bytes v rs s m f root @ rest)"
  shows "cursor_header (reader_at pre (header_bytes v rs s m f root @ rest)) =
    Ok (root, reader_at (pre @ header_bytes v rs s m f root) rest)"
  using assms
  unfolding header_bytes_def cursor_header_def append_assoc valid_id_def
  by (simp add: take6.bind_put_get [of MAGIC] take1.bind_put_get [of "[x]" for x, simplified] cursor_u16.bind_put_get
      take32.put_get)

lemma header_too_new:
  assumes "READER_VERSION < m" and "addressable (pre @ MAGIC @ [v] @ [rs] @ put_u16 s @ put_u16 m @ rest)"
  shows "cursor_header (reader_at pre (MAGIC @ [v] @ [rs] @ put_u16 s @ put_u16 m @ rest)) =
    Err (SnapshotTooNew m READER_VERSION)"
  using assms
  unfolding cursor_header_def
  by (simp add: take6.bind_put_get [of MAGIC] take1.bind_put_get [of "[x]" for x, simplified] cursor_u16.bind_put_get
      rd_fail_def)

text \<open>What a reader can have consumed, composed along the reads of a definition.\<close>

definition consumes :: "'a read \<Rightarrow> (u8 list \<Rightarrow> 'a \<Rightarrow> bool) \<Rightarrow> bool" where
  "consumes g P \<longleftrightarrow> (\<forall>pre bs x r. g (reader_at pre bs) = Ok (x, r) \<longrightarrow> addressable (pre @ bs) \<longrightarrow>
     (\<exists>w rest. P w x \<and> bs = w @ rest \<and> r = reader_at (pre @ w) rest))"

lemma consumesD:
  "consumes g P \<Longrightarrow> g (reader_at pre bs) = Ok (x, r) \<Longrightarrow> addressable (pre @ bs) \<Longrightarrow>
   \<exists>w rest. P w x \<and> bs = w @ rest \<and> r = reader_at (pre @ w) rest"
  unfolding consumes_def by blast

lemma consumes_bind:
  assumes "consumes g P" and "\<And>x. consumes (k x) (Q x)"
  shows "consumes (rd_bind g k) (\<lambda>w y. \<exists>u v x. P u x \<and> Q x v y \<and> w = u @ v)"
  unfolding consumes_def
proof (intro allI impI)
  fix pre bs y r assume a: "rd_bind g k (reader_at pre bs) = Ok (y, r)" "addressable (pre @ bs)"
  from a(1) obtain x r1 where g: "g (reader_at pre bs) = Ok (x, r1)" "k x r1 = Ok (y, r)"
    unfolding rd_bind_eq_Ok by blast
  from consumesD [OF assms(1) g(1) a(2)] obtain u rest1 where
    u: "P u x" "bs = u @ rest1" "r1 = reader_at (pre @ u) rest1" by blast
  have "addressable ((pre @ u) @ rest1)" using a(2) u(2) by simp
  from consumesD [OF assms(2) g(2) [unfolded u(3)] this] obtain v rest where
    "Q x v y" "rest1 = v @ rest" "r = reader_at ((pre @ u) @ v) rest" by blast
  with u show "\<exists>w rest. (\<exists>u v x. P u x \<and> Q x v y \<and> w = u @ v) \<and> bs = w @ rest \<and> r = reader_at (pre @ w) rest"
    by (intro exI [of _ "u @ v"] exI [of _ rest]) auto
qed

lemma consumes_if: "(c \<Longrightarrow> consumes g P) \<Longrightarrow> (\<not> c \<Longrightarrow> consumes h Q) \<Longrightarrow>
    consumes (if c then g else h) (\<lambda>w x. if c then P w x else Q w x)"
  by simp

lemma consumes_fail: "consumes (rd_fail e) (\<lambda>_ _. False)"
  by (simp add: consumes_def)

context codec
begin

lemma consumes_codec: "consumes get (\<lambda>w x. ok x \<and> w = put x)"
  unfolding consumes_def using get_put by blast


end

lemma header_only:
  assumes "cursor_header (reader_at pre bs) = Ok (root, r)" and "addressable (pre @ bs)"
  shows "\<exists>v rs s m f rest. valid_id root \<and> \<not> READER_VERSION < m \<and> bs = header_bytes v rs s m f root @ rest \<and>
    r = reader_at (pre @ header_bytes v rs s m f root) rest"
proof -
  note parts = take1.consumes_codec take6.consumes_codec take32.consumes_codec cursor_u16.consumes_codec
  have "\<exists>P. consumes cursor_header P \<and>
      (\<forall>w root. P w root \<longrightarrow> (\<exists>v rs s m f. length root = 32 \<and> \<not> READER_VERSION < m \<and> w = header_bytes v rs s m f root))"
    unfolding cursor_header_def
    by (rule exI, rule conjI, (rule consumes_bind consumes_if consumes_fail parts)+)
      (auto simp: header_bytes_def length_Suc_conv split: if_splits, blast)
  then obtain P where "consumes cursor_header P" and
    "\<And>w root. P w root \<Longrightarrow> \<exists>v rs s m f. length root = 32 \<and> \<not> READER_VERSION < m \<and> w = header_bytes v rs s m f root" by blast
  with consumesD [OF this(1) assms] show ?thesis unfolding valid_id_def by metis
qed

section \<open>Containers\<close>

lemma encode_container_split:
  "encode_container root os = header_bytes CONTAINER_VERSION 0 SCHEMA_VERSION MIN_READER 0 root @ objects_bytes os"
  by (simp add: encode_container_def header_bytes_def objects_bytes_def)

lemma decode_parts:
  assumes "valid_id root" "\<not> READER_VERSION < m" "objects_ok os" "addressable (header_bytes v rs s m f root @ objects_bytes os)"
  shows "decode_container (header_bytes v rs s m f root @ objects_bytes os) =
    Ok \<lparr>ct_root = root, ct_objects = foldl (\<lambda>m (i, blob). bt_insert i blob m) [] os\<rparr>"
proof -
  let ?h = "header_bytes v rs s m f root"
  have "cursor_header (reader_new (?h @ objects_bytes os)) = Ok (root, reader_at ?h (objects_bytes os))"
    using header_read [of root m "[]" v rs s f "objects_bytes os"] assms by (simp add: reader_new_at)
  moreover have "cursor_objects (reader_at ?h (objects_bytes os)) = Ok (os, reader_at (?h @ objects_bytes os) [])"
    using cursor_objects.put_get [of os ?h "[]"] assms by simp
  moreover have "unat (of_nat (length (?h @ objects_bytes os)) :: u64) = length (?h @ objects_bytes os)"
    using assms(4) by (rule unat_length)
  ultimately show ?thesis
    by (simp add: decode_container_def rd_bind_Ok rd_return_def reader_at_def)
qed

lemma decode_container_only:
  assumes "decode_container body = Ok c" and "addressable body"
  shows "\<exists>v rs s m f os. valid_id (ct_root c) \<and> \<not> READER_VERSION < m \<and> objects_ok os \<and>
    body = header_bytes v rs s m f (ct_root c) @ objects_bytes os \<and>
    ct_objects c = foldl (\<lambda>m (i, blob). bt_insert i blob m) [] os"
proof -
  from assms(1) obtain root os r1 r where
    1: "cursor_header (reader_at [] body) = Ok (root, r1)" "cursor_objects r1 = Ok (os, r)" "unat (rd_pos r) = length body"
      "c = \<lparr>ct_root = root, ct_objects = foldl (\<lambda>m (i, blob). bt_insert i blob m) [] os\<rparr>"
    by (auto simp: decode_container_def res_bind_Inr rd_bind_eq_Ok reader_new_at split: if_splits)
  from header_only [OF 1(1)] assms(2) obtain v rs s m f rest where
    2: "valid_id root" "\<not> READER_VERSION < m" "body = header_bytes v rs s m f root @ rest"
      "r1 = reader_at (header_bytes v rs s m f root) rest" by auto
  from cursor_objects.get_put [OF 1(2) [unfolded 2(4)]] assms(2) 2(3) obtain rest' where
    3: "objects_ok os" "rest = objects_bytes os @ rest'"
      "r = reader_at (header_bytes v rs s m f root @ objects_bytes os) rest'" by auto
  have "addressable (header_bytes v rs s m f root @ objects_bytes os)"
    using assms(2) 2(3) 3(2) by (simp add: addressable_def)
  then have "rest' = []"
    using 1(3) unat_length [of "header_bytes v rs s m f root @ objects_bytes os"] 2(3) 3(2,3) by (simp add: reader_at_def)
  with 1(4) 2 3 show ?thesis by (intro exI [of _ v] exI [of _ rs] exI [of _ s] exI [of _ m] exI [of _ f] exI [of _ os]) simp
qed

lemma bt_insert_blobs: "sum_list (map (length \<circ> snd) (bt_insert k v m)) \<le> length v + sum_list (map (length \<circ> snd) m)"
  by (induction k v m rule: bt_insert.induct) auto

lemma bt_foldl_blobs:
  "sum_list (map (length \<circ> snd) (foldl (\<lambda>m (i, blob). bt_insert i blob m) acc os)) \<le>
     sum_list (map (length \<circ> snd) acc) + sum_list (map (length \<circ> snd) os)"
proof (induction os arbitrary: acc)
  case (Cons p os)
  show ?case using Cons [of "bt_insert (fst p) (snd p) acc"] bt_insert_blobs [of "fst p" "snd p" acc]
    by (simp add: case_prod_beta comp_def)
qed simp

lemma objects_bytes_blobs: "sum_list (map (length \<circ> snd) os) \<le> length (objects_bytes os)"
  by (induction os) (simp_all add: objects_bytes_def put_object_def put_bytes_def put_u64_def put_u32_def)

lemma keys_bt_foldl: "set (keys (foldl (\<lambda>m (i, blob). bt_insert i blob m) acc os)) = set (keys acc) \<union> set (keys os)"
proof (induction os arbitrary: acc)
  case (Cons p os)
  show ?case using Cons [of "bt_insert (fst p) (snd p) acc"] keys_bt_insert [of "fst p" "snd p" acc]
    by (simp add: case_prod_beta)
qed simp

lemma decode_encode_container:
  assumes "valid_id root" and "bt_sorted objects" and "objects_ok objects" and "addressable (encode_container root objects)"
  shows "is_v2 (encode_container root objects) \<and>
    decode_container (encode_container root objects) = Ok \<lparr>ct_root = root, ct_objects = objects\<rparr>"
proof -
  have "\<not> READER_VERSION < MIN_READER" by (simp add: READER_VERSION_def MIN_READER_def)
  then have "decode_container (encode_container root objects) =
      Ok \<lparr>ct_root = root, ct_objects = foldl (\<lambda>m (i, blob). bt_insert i blob m) [] objects\<rparr>"
    unfolding encode_container_split using assms by (intro decode_parts) (simp_all add: encode_container_split)
  moreover have "foldl (\<lambda>m (i, blob). bt_insert i blob m) [] objects = objects"
    using bt_rebuild [of "[]" objects] assms(2) by simp
  ultimately show ?thesis by (simp add: is_v2_def encode_container_def)
qed

text \<open>
  Packing loses nothing. A container written from a root and an ordered map of objects is
  recognised as version 2 and decodes to that root and that map.
\<close>

theorem container_round_trip:
  assumes "valid_id root" and "bt_sorted objects" and "objects_ok objects" and "addressable (encode_container root objects)"
  shows "is_v2 (encode_container root objects) \<and>
    decode_container (encode_container root objects) = Ok \<lparr>ct_root = root, ct_objects = objects\<rparr>"
  by (rule decode_encode_container [OF assms])

text \<open>
  Property C22: an untrusted container cannot amplify, and only \<open>min_reader\<close> gates it. Whatever bytes are
  decoded, the result is an ordered map whose ids are well formed and whose blobs together are no longer than
  the input. Any framing version, schema version and flag byte is accepted; a \<open>min_reader\<close> above 2 is refused
  with the typed error.
\<close>

theorem container_untrusted:
  assumes "addressable body"
  shows "(decode_container body = Ok c \<longrightarrow>
      valid_id (ct_root c) \<and> bt_sorted (ct_objects c) \<and> list_all valid_id (keys (ct_objects c)) \<and>
      sum_list (map (length \<circ> snd) (ct_objects c)) \<le> length body) \<and>
    (body = MAGIC @ [v] @ [rs] @ put_u16 s @ put_u16 m @ rest \<and> 2 < m \<longrightarrow>
      decode_container body = Err (SnapshotTooNew m 2)) \<and>
    (body = header_bytes v rs s m f root @ objects_bytes os \<and> m \<le> 2 \<and> valid_id root \<and> objects_ok os \<longrightarrow>
      is_ok (decode_container body))"
proof (intro conjI impI)
  assume "decode_container body = Ok c"
  from decode_container_only [OF this assms] obtain v rs s m f os where
    1: "valid_id (ct_root c)" "objects_ok os" "body = header_bytes v rs s m f (ct_root c) @ objects_bytes os"
      "ct_objects c = foldl (\<lambda>m (i, blob). bt_insert i blob m) [] os" by blast
  show "valid_id (ct_root c)" by (rule 1(1))
  show "bt_sorted (ct_objects c)" unfolding 1(4) by (rule bt_sorted_foldl) (simp add: bt_sorted_def)
  show "list_all valid_id (keys (ct_objects c))"
    using keys_bt_foldl [of "[]" os] 1(2) unfolding 1(4) by (auto simp: list_all_iff objects_ok_def object_ok_def)
  show "sum_list (map (length \<circ> snd) (ct_objects c)) \<le> length body"
    using bt_foldl_blobs [of "[]" os] objects_bytes_blobs [of os] unfolding 1(3,4) by simp
next
  assume b: "body = MAGIC @ [v] @ [rs] @ put_u16 s @ put_u16 m @ rest \<and> 2 < m"
  then have "cursor_header (reader_at [] body) = Err (SnapshotTooNew m READER_VERSION)"
    using header_too_new [of m "[]" v rs s rest] assms by (simp add: READER_VERSION_def)
  then show "decode_container body = Err (SnapshotTooNew m 2)"
    by (simp add: decode_container_def reader_new_at rd_bind_Err READER_VERSION_def)
next
  assume "body = header_bytes v rs s m f root @ objects_bytes os \<and> m \<le> 2 \<and> valid_id root \<and> objects_ok os"
  then show "is_ok (decode_container body)"
    using decode_parts [of root m os v rs s f] assms by (simp add: READER_VERSION_def not_less)
qed

section \<open>Storage blobs read back\<close>

text \<open>
  What \<open>flate2\<close> documents: decoding what the encoder wrote gives the bytes back and consumes all of it, when
  the read is not cut off.
\<close>

definition flate_ok :: "'s outside \<Rightarrow> bool" where
  "flate_ok X \<longleftrightarrow> (\<forall>bs out n. deflate_stream X bs = Some out \<longrightarrow> length bs \<le> unat n \<longrightarrow>
     inflate_stream X n out = Some (bs, of_nat (length out)))"

lemma blob_round_trip:
  assumes "flate_ok X" and "length payload < 268435456"
  shows "from_storage_blob X (storage_blob_from_parts X kind payload) = Ok (kind # payload)"
proof -
  have max: "unat MAX_OBJECT_BYTES = 268435456" "unat (MAX_OBJECT_BYTES + 1) = 268435457" by (simp_all add: MAX_OBJECT_BYTES_def)
  show ?thesis
  proof (cases "\<exists>out. looks_compressible X payload \<and> deflate_stream X (kind # payload) = Some out \<and> length out < 1 + length payload")
    case True
    then obtain out where out: "looks_compressible X payload" "deflate_stream X (kind # payload) = Some out"
      "length out < 1 + length payload" by blast
    have "inflate_stream X (MAX_OBJECT_BYTES + 1) out = Some (kind # payload, of_nat (length out))"
      using assms out(2) max(2) unfolding flate_ok_def by (simp add: Suc_le_eq)
    moreover have "unat (of_nat (length out) :: u64) = length out" using out(3) assms(2) by (simp add: unat_of_nat)
    ultimately show ?thesis
      using out assms(2) max(1)
      by (simp add: storage_blob_from_parts_def from_storage_blob_def decompress_def COMPRESSION_NONE_def COMPRESSION_DEFLATE_def)
  next
    case False
    then have "storage_blob_from_parts X kind payload = COMPRESSION_NONE # kind # payload"
      by (auto simp: storage_blob_from_parts_def Let_def split: option.split)
    then show ?thesis by (simp add: from_storage_blob_def decompress_def)
  qed
qed

end
