(* ===== verification/SnapGraph.thy ===== *)
theory SnapGraph
  imports SnapContainer Counters
begin

text \<open>
  The snapshot object graph, \<open>bashkit/src/snapshot/graph.rs\<close>: reading commits, walking their ancestry, planning
  a checkout against a store that may lack objects or lie, comparing commits, and rebuilding the state that a
  commit describes.
\<close>

section \<open>Reading objects\<close>

text \<open>An \<open>ObjectSource\<close>.\<close>

type_synonym store = "object_id \<Rightarrow> u8 list option"

definition load_object :: "'s outside \<Rightarrow> object_id \<Rightarrow> u8 \<Rightarrow> store \<Rightarrow> u8 list snap_result" where
  "load_object X i kind st =
     (case st i of
        None \<Rightarrow> Err (ObjectNotFound i)
      | Some blob \<Rightarrow>
          res_bind (from_storage_blob X blob) (\<lambda>raw.
          res_bind (from_storage X i raw) (\<lambda>object.
          res_bind (expect_kind kind object) (\<lambda>_. Ok (enc_payload object)))))"

definition read_commit :: "'s outside \<Rightarrow> object_id \<Rightarrow> store \<Rightarrow> commit_object snap_result" where
  "read_commit X root st = res_bind (load_object X root KIND_COMMIT st) (decode_commit X)"

definition parents_of :: "'s outside \<Rightarrow> object_id \<Rightarrow> store \<Rightarrow> object_id list snap_result" where
  "parents_of X root st = res_bind (read_commit X root st) (\<lambda>c. Ok (cm_parents c))"

definition meta_of :: "'s outside \<Rightarrow> object_id \<Rightarrow> store \<Rightarrow> (rstr \<times> rstr) list snap_result" where
  "meta_of X root st = res_bind (read_commit X root st) (\<lambda>c. Ok (cm_meta c))"

definition json_result :: "'a option \<Rightarrow> 'a snap_result" where
  "json_result r = (case r of None \<Rightarrow> Err JsonError | Some x \<Rightarrow> Ok x)"

definition capabilities_of :: "'s outside \<Rightarrow> object_id \<Rightarrow> store \<Rightarrow> capability_fingerprint snap_result" where
  "capabilities_of X root st =
     res_bind (read_commit X root st) (\<lambda>c.
     res_bind (load_object X (cm_caps c) KIND_CAPS st) (\<lambda>payload. json_result (parse_caps X payload)))"

definition read_tree :: "'s outside \<Rightarrow> object_id option \<Rightarrow> store \<Rightarrow> tree_entry list snap_result" where
  "read_tree X t st =
     (case t of None \<Rightarrow> Ok [] | Some i \<Rightarrow> res_bind (load_object X i KIND_TREE st) decode_tree)"

section \<open>Ancestry\<close>

definition MAX_ANCESTRY :: nat where
  "MAX_ANCESTRY = 1000000"

text \<open>The loop of \<open>ancestry\<close>. It ends on every store: a step either shortens the queue or adds to \<open>out\<close>.\<close>

function ancestry_loop :: "'s outside \<Rightarrow> store \<Rightarrow> nat \<Rightarrow> object_id list \<Rightarrow> object_id list \<Rightarrow> object_id list
    \<Rightarrow> object_id list snap_result" where
  "ancestry_loop X st limit seen [] out = Ok out"
| "ancestry_loop X st limit seen (i # queue) out =
     (if limit \<le> length out \<or> i \<in> set seen then ancestry_loop X st limit seen queue out
      else if st i = None then ancestry_loop X st limit (i # seen) queue out
      else case read_commit X i st of
             Inl e \<Rightarrow> Err e
           | Inr c \<Rightarrow> ancestry_loop X st limit (i # seen) (queue @ cm_parents c) (out @ [i]))"
  by pat_completeness auto
termination
  by (relation "measures [\<lambda>(X, st, limit, seen, queue, out). limit - length out,
        \<lambda>(X, st, limit, seen, queue, out). length queue]") auto

definition ancestry :: "'s outside \<Rightarrow> object_id \<Rightarrow> store \<Rightarrow> nat \<Rightarrow> object_id list snap_result" where
  "ancestry X root st limit = ancestry_loop X st (min limit MAX_ANCESTRY) [] [root] []"

section \<open>Walking the graph\<close>

text \<open>What an object of a known kind refers to, with the kind expected there: the \<open>match\<close> of \<open>walk\<close>.\<close>

definition object_refs :: "'s outside \<Rightarrow> u8 \<Rightarrow> u8 list \<Rightarrow> (object_id \<times> u8) list snap_result" where
  "object_refs X kind payload =
     (if kind = KIND_COMMIT then
        res_bind (decode_commit X payload) (\<lambda>c.
          Ok ([(cm_shell c, KIND_SHELL), (cm_caps c, KIND_CAPS)] @
              (case cm_tree c of None \<Rightarrow> [] | Some t \<Rightarrow> [(t, KIND_TREE)])))
      else if kind = KIND_TREE then
        res_bind (decode_tree payload) (\<lambda>es.
          Ok (concat (map (\<lambda>e. case te_kind e of TFile f \<Rightarrow> [(f, KIND_FILE)] | _ \<Rightarrow> []) es)))
      else if kind = KIND_FILE then
        res_bind (decode_file payload) (\<lambda>content.
          Ok (case content of Inline _ \<Rightarrow> [] | Chunked _ chunks \<Rightarrow> map (\<lambda>c. (c, KIND_CHUNK)) chunks))
      else Ok [])"

text \<open>One step of \<open>walk\<close>: \<open>None\<close> when the store lacks the object, otherwise its references.\<close>

definition visit :: "'s outside \<Rightarrow> store \<Rightarrow> object_id \<times> u8 \<Rightarrow> (object_id \<times> u8) list option snap_result" where
  "visit X st p =
     (case st (fst p) of
        None \<Rightarrow> Ok None
      | Some blob \<Rightarrow>
          res_bind (from_storage_blob X blob) (\<lambda>raw.
          res_bind (from_storage X (fst p) raw) (\<lambda>object.
          res_bind (expect_kind (snd p) object) (\<lambda>_.
          res_bind (object_refs X (snd p) (enc_payload object)) (\<lambda>refs. Ok (Some refs))))))"

text \<open>The levels of the graph, counted from below.\<close>

definition kind_rank :: "u8 \<Rightarrow> nat" where
  "kind_rank kind = (if kind = KIND_COMMIT then 3 else if kind = KIND_TREE then 2 else if kind = KIND_FILE then 1 else 0)"

lemma object_refs_rank: "object_refs X kind payload = Ok refs \<Longrightarrow> r \<in> set refs \<Longrightarrow> kind_rank (snd r) < kind_rank kind"
proof -
  assume r: "object_refs X kind payload = Ok refs" "r \<in> set refs"
  consider "kind = KIND_COMMIT" | "kind = KIND_TREE" | "kind = KIND_FILE" | "kind \<notin> {KIND_COMMIT, KIND_TREE, KIND_FILE}"
    by blast
  then show ?thesis
  proof cases
    case 3
    then obtain content where "refs = (case content of Inline _ \<Rightarrow> [] | Chunked _ chunks \<Rightarrow> map (\<lambda>c. (c, KIND_CHUNK)) chunks)"
      using r(1) by (auto simp: object_refs_def kind_defs res_bind_Inr)
    with 3 r(2) show ?thesis by (cases content) (auto simp: kind_rank_def kind_defs)
  qed (use r in \<open>auto simp: object_refs_def kind_rank_def kind_defs res_bind_Inr
      split: option.splits tree_entry_kind.splits\<close>)
qed

lemma visit_refs: "visit X st p = Ok (Some refs) \<Longrightarrow> \<exists>payload. object_refs X (snd p) payload = Ok refs"
  by (auto simp: visit_def res_bind_Inr split: option.splits)

lemma visit_rank: "visit X st p = Ok (Some refs) \<Longrightarrow> r \<in> set refs \<Longrightarrow> kind_rank (snd r) < kind_rank (snd p)"
  using visit_refs object_refs_rank by metis

text \<open>Whatever the store holds, an object only refers to lower levels, so the loop ends.\<close>

lemma rank_decreases:
  assumes "\<And>r. r \<in> set refs \<Longrightarrow> f r < f p"
  shows "(mset (map f (queue @ refs)), mset (map f (p # queue))) \<in> mult (less_than :: (nat \<times> nat) set)"
proof -
  have "(mset (map f queue) + mset (map f refs), mset (map f queue) + {#f p#}) \<in> mult less_than"
    using assms by (intro one_step_implies_mult) auto
  then show ?thesis by simp
qed

function walk_loop :: "'s outside \<Rightarrow> store \<Rightarrow> (object_id \<times> u8) list \<Rightarrow> object_id list \<Rightarrow> object_id list \<Rightarrow> object_id list
    \<Rightarrow> (object_id list \<times> object_id list) snap_result" where
  "walk_loop X st [] seen missing present = Ok (missing, present)"
| "walk_loop X st (p # queue) seen missing present =
     (if fst p \<in> set seen then walk_loop X st queue seen missing present
      else case visit X st p of
             Inl e \<Rightarrow> Err e
           | Inr None \<Rightarrow> walk_loop X st queue (fst p # seen) (insort_insert (fst p) missing) present
           | Inr (Some refs) \<Rightarrow> walk_loop X st (queue @ refs) (fst p # seen) missing (insort_insert (fst p) present))"
  by pat_completeness auto

termination
proof (relation "inv_image (mult less_than) (\<lambda>(X, st, queue, seen, missing, present). mset (map (kind_rank \<circ> snd) queue))")
  show "wf (inv_image (mult less_than) (\<lambda>(X :: 's outside, st :: store, queue, seen :: object_id list, missing :: object_id list,
      present :: object_id list). mset (map (kind_rank \<circ> snd) queue)))"
    by (intro wf_inv_image wf_mult wf_less_than)
next
  fix X :: "'s outside" and st p queue seen missing present o1 refs
  assume v: "visit X st p = Inr o1" "o1 = Some refs"
  have "(mset (map (kind_rank \<circ> snd) (queue @ refs)), mset (map (kind_rank \<circ> snd) (p # queue))) \<in> mult less_than"
    by (rule rank_decreases) (use v visit_rank [of X st p refs] in simp)
  then show "((X, st, queue @ refs, fst p # seen, missing, insort_insert (fst p) present), X, st, p # queue, seen, missing, present)
      \<in> inv_image (mult less_than) (\<lambda>(X, st, queue, seen, missing, present). mset (map (kind_rank \<circ> snd) queue))" by simp
qed (use rank_decreases [of "[]" "kind_rank \<circ> snd"] in auto)

definition plan_checkout :: "'s outside \<Rightarrow> object_id \<Rightarrow> store \<Rightarrow> object_id list snap_result" where
  "plan_checkout X root st = res_bind (walk_loop X st [(root, KIND_COMMIT)] [] [] []) (\<lambda>(missing, _). Ok missing)"

definition reachable :: "'s outside \<Rightarrow> object_id \<Rightarrow> store \<Rightarrow> object_id list snap_result" where
  "reachable X root st =
     res_bind (walk_loop X st [(root, KIND_COMMIT)] [] [] []) (\<lambda>(missing, present).
       case missing of [] \<Rightarrow> Ok present | i # _ \<Rightarrow> Err (ObjectNotFound i))"

end
