(* ===== verification/SnapCheckout.thy ===== *)
theory SnapCheckout
  imports SnapGraph
begin

text \<open>
  Committing, checking out and comparing, from \<open>graph.rs\<close>, \<open>mod.rs\<close> and \<open>capabilities.rs\<close> of
  \<open>bashkit/src/snapshot\<close>: the budget of a checkout, reassembly of files, \<open>materialize\<close>, \<open>diff\<close>, \<open>commit\<close>, the sealed
  byte form, the capability gate, and the order of a restore.
\<close>

section \<open>The budget of a checkout\<close>

definition MAX_CHECKOUT_BYTES :: u64 where
  "MAX_CHECKOUT_BYTES = 4 * 1024 * 1024 * 1024"

record checkout_budget =
  cb_remaining :: u64
  cb_max_file_size :: u64

definition budget_new :: "fs_limits \<Rightarrow> checkout_budget" where
  "budget_new l =
     \<lparr>cb_remaining = min (max_total_bytes l) MAX_CHECKOUT_BYTES, cb_max_file_size = min (max_file_size l) MAX_CHECKOUT_BYTES\<rparr>"

definition spend_file :: "u64 \<Rightarrow> checkout_budget \<Rightarrow> checkout_budget snap_result" where
  "spend_file n b =
     (if cb_max_file_size b < n then Err (FileTooLarge n)
      else case checked_sub (cb_remaining b) n of
             None \<Rightarrow> Err CheckoutTooLarge
           | Some r \<Rightarrow> Ok (b\<lparr>cb_remaining := r\<rparr>))"

section \<open>Files\<close>

fun resolve_chunks :: "'s outside \<Rightarrow> store \<Rightarrow> object_id \<Rightarrow> u64 \<Rightarrow> object_id list \<Rightarrow> u8 list \<Rightarrow> u8 list snap_result" where
  "resolve_chunks X st file_id sz [] out =
     (if (of_nat (length out) :: u64) \<noteq> sz then Err (WrongSize file_id) else Ok out)"
| "resolve_chunks X st file_id sz (c # cs) out =
     (case load_object X c KIND_CHUNK st of
        Inl e \<Rightarrow> Err e
      | Inr chunk_bytes \<Rightarrow>
          if MAX_CHUNK < length chunk_bytes then Err (ChunkTooLarge c)
          else if sz < of_nat (length out) + of_nat (length chunk_bytes) then Err (ExceedsDeclared file_id)
          else resolve_chunks X st file_id sz cs (out @ chunk_bytes))"

definition resolve_file :: "'s outside \<Rightarrow> store \<Rightarrow> object_id \<Rightarrow> checkout_budget \<Rightarrow> (u8 list \<times> checkout_budget) snap_result" where
  "resolve_file X st file_id b =
     res_bind (load_object X file_id KIND_FILE st) (\<lambda>payload.
     res_bind (decode_file payload) (\<lambda>content.
       case content of
         Inline bs \<Rightarrow> res_bind (spend_file (of_nat (length bs)) b) (\<lambda>b. Ok (bs, b))
       | Chunked sz chunks \<Rightarrow>
           res_bind (spend_file sz b) (\<lambda>b.
           res_bind (resolve_chunks X st file_id sz chunks []) (\<lambda>out. Ok (out, b)))))"

section \<open>Snapshots\<close>

definition SNAPSHOT_VERSION :: u32 where
  "SNAPSHOT_VERSION = 1"

record 's snapshot_state =
  sn_version :: u32
  sn_shell :: 's
  sn_vfs :: "vfs_snapshot option"
  sn_session_commands :: u64
  sn_session_exec_calls :: u64

definition materialize_commit :: "'s outside \<Rightarrow> object_id \<Rightarrow> store \<Rightarrow> fs_limits
    \<Rightarrow> ('s snapshot_state \<times> capability_fingerprint) snap_result" where
  "materialize_commit X root st l =
     res_bind (read_commit X root st) (\<lambda>c.
     res_bind (load_object X (cm_caps c) KIND_CAPS st) (\<lambda>caps_payload.
     res_bind (json_result (parse_caps X caps_payload)) (\<lambda>caps.
     res_bind (load_object X (cm_shell c) KIND_SHELL st) (\<lambda>shell_payload.
     res_bind (json_result (parse_shell X shell_payload)) (\<lambda>shell.
     res_bind (case cm_tree c of
                 None \<Rightarrow> Ok None
               | Some t \<Rightarrow>
                   res_bind (load_object X t KIND_TREE st) (\<lambda>payload.
                   res_bind (decode_tree payload) (\<lambda>es.
                   res_bind (tree_to_vfs es (resolve_file X st) (budget_new l)) (\<lambda>(vfs, _). Ok (Some vfs)))))
       (\<lambda>vfs. Ok (\<lparr>sn_version = SNAPSHOT_VERSION, sn_shell = shell, sn_vfs = vfs,
                    sn_session_commands = cm_session_commands c, sn_session_exec_calls = cm_session_exec_calls c\<rparr>, caps)))))))"

section \<open>Comparing commits\<close>

record snapshot_diff =
  sd_added :: "rstr list"
  sd_modified :: "rstr list"
  sd_removed :: "rstr list"
  sd_shell_changed :: bool

text \<open>Keyed by the bytes of the path, which is how a \<open>BTreeMap<&str, _>\<close> orders its keys.\<close>

definition tree_map :: "tree_entry list \<Rightarrow> (u8 list \<times> tree_entry) list" where
  "tree_map es = foldl (\<lambda>m e. bt_insert (as_bytes (te_path e)) e m) [] es"

definition diff_commits :: "'s outside \<Rightarrow> object_id \<Rightarrow> object_id \<Rightarrow> store \<Rightarrow> snapshot_diff snap_result" where
  "diff_commits X a b st =
     res_bind (read_commit X a st) (\<lambda>ca.
     res_bind (read_commit X b st) (\<lambda>cb.
     res_bind (read_tree X (cm_tree ca) st) (\<lambda>tree_a.
     res_bind (read_tree X (cm_tree cb) st) (\<lambda>tree_b.
       let map_a = tree_map tree_a; map_b = tree_map tree_b
       in Ok \<lparr>sd_added = map (te_path \<circ> snd) (filter (\<lambda>(k, e). map_of map_a k = None) map_b),
              sd_modified = map (te_path \<circ> snd) (filter (\<lambda>(k, e). case map_of map_a k of
                  None \<Rightarrow> False | Some before \<Rightarrow> te_mode before \<noteq> te_mode e \<or> te_kind before \<noteq> te_kind e) map_b),
              sd_removed = map (te_path \<circ> snd) (filter (\<lambda>(k, e). \<not> contains_key map_b k) map_a),
              sd_shell_changed = (cm_shell ca \<noteq> cm_shell cb)\<rparr>))))"

definition diff_is_empty :: "snapshot_diff \<Rightarrow> bool" where
  "diff_is_empty d \<longleftrightarrow> sd_added d = [] \<and> sd_modified d = [] \<and> sd_removed d = [] \<and> \<not> sd_shell_changed d"

section \<open>Committing\<close>

record commit_options =
  co_parents :: "object_id list"
  co_meta :: "(rstr \<times> rstr) list"
  co_exclude_filesystem :: bool
  co_exclude_functions :: bool
  co_have :: "object_id list"

definition commit_options_new :: commit_options where
  "commit_options_new = \<lparr>co_parents = [], co_meta = [], co_exclude_filesystem = False, co_exclude_functions = False, co_have = []\<rparr>"

definition co_add_parent :: "object_id \<Rightarrow> commit_options \<Rightarrow> commit_options" where
  "co_add_parent p o1 = o1\<lparr>co_parents := co_parents o1 @ [p]\<rparr>"

definition co_add_have :: "object_id list \<Rightarrow> commit_options \<Rightarrow> commit_options" where
  "co_add_have ids o1 = o1\<lparr>co_have := co_have o1 @ ids\<rparr>"

record packed_commit =
  pc_id :: object_id
  pc_objects :: objects
  pc_self_contained :: bool

text \<open>
  The instance as a commit sees it: the shell state with and without functions, the filesystem's snapshot if it
  has one, the counters, and what \<open>CapabilityFingerprint::capture\<close> reports.
\<close>

record 's instance_state =
  is_shell :: "bool \<Rightarrow> 's"
  is_vfs :: "vfs_snapshot option"
  is_counters :: execution_counters
  is_caps :: capability_fingerprint

definition commit_tree :: "'s outside \<Rightarrow> vfs_snapshot option \<Rightarrow> (object_id option \<times> encoded list) snap_result" where
  "commit_tree X vfs =
     (case vfs of
        None \<Rightarrow> Ok (None, [])
      | Some v \<Rightarrow> res_bind (build_tree X v) (\<lambda>(tree, content). Ok (Some (enc_id tree), tree # content)))"

definition store_objects :: "'s outside \<Rightarrow> object_id \<Rightarrow> object_id list \<Rightarrow> encoded list \<Rightarrow> objects" where
  "store_objects X commit_id have emitted =
     foldl (\<lambda>m object.
        if enc_id object \<noteq> commit_id \<and> enc_id object \<in> set have then m
        else if contains_key m (enc_id object) then m
        else bt_insert (enc_id object) (storage_blob_from_parts X (enc_kind object) (enc_payload object)) m) [] emitted"

text \<open>The first half of \<open>commit\<close>: the commit object and the objects emitted before it.\<close>

definition commit_parts :: "'s outside \<Rightarrow> commit_options \<Rightarrow> 's instance_state \<Rightarrow> (commit_object \<times> encoded list) snap_result" where
  "commit_parts X opts b =
     (let shell = is_shell b (\<not> co_exclude_functions opts);
          vfs = (if co_exclude_filesystem opts then None else is_vfs b)
      in res_bind (commit_tree X vfs) (\<lambda>(tree_id, tree_objects).
         let shell_obj = encoded_new X KIND_SHELL (write_canonical X (shell_value X shell));
             caps_obj = encoded_new X KIND_CAPS (write_canonical X (caps_value X (is_caps b)))
         in Ok (\<lparr>cm_parents = co_parents opts, cm_tree = tree_id, cm_shell = enc_id shell_obj, cm_caps = enc_id caps_obj,
                  cm_session_commands = session_commands (is_counters b),
                  cm_session_exec_calls = session_exec_calls (is_counters b), cm_meta = co_meta opts\<rparr>,
                tree_objects @ [shell_obj, caps_obj])))"

definition commit :: "'s outside \<Rightarrow> commit_options \<Rightarrow> 's instance_state \<Rightarrow> packed_commit snap_result" where
  "commit X opts b =
     res_bind (commit_parts X opts b) (\<lambda>(c, emitted).
     res_bind (encode_commit X c) (\<lambda>commit_obj.
       Ok \<lparr>pc_id = enc_id commit_obj,
           pc_objects = store_objects X (enc_id commit_obj) (co_have opts) (emitted @ [commit_obj]),
           pc_self_contained = (co_have opts = [])\<rparr>))"

section \<open>Sealed bytes\<close>

definition INTEGRITY_TAG :: "u8 list" where "INTEGRITY_TAG = map of_char ''BKSNAP01''"
definition DIGEST_LEN :: nat where "DIGEST_LEN = 32"

definition compute_digest :: "'s outside \<Rightarrow> u8 list \<Rightarrow> u8 list" where
  "compute_digest X payload = sha256 X (INTEGRITY_TAG @ payload)"

text \<open>\<open>hmac\<close> is the HMAC-SHA256 of the crate of that name, a function of the key and the body.\<close>

definition seal :: "'s outside \<Rightarrow> (u8 list \<Rightarrow> u8 list \<Rightarrow> u8 list) \<Rightarrow> u8 list \<Rightarrow> u8 list option \<Rightarrow> u8 list" where
  "seal X hmac body mac_key = (case mac_key of Some k \<Rightarrow> hmac k body | None \<Rightarrow> compute_digest X body) @ body"

definition unseal :: "'s outside \<Rightarrow> (u8 list \<Rightarrow> u8 list \<Rightarrow> u8 list) \<Rightarrow> u8 list \<Rightarrow> u8 list option \<Rightarrow> u8 list snap_result" where
  "unseal X hmac data mac_key =
     (if length data < DIGEST_LEN then Err TooShort
      else let stored = take DIGEST_LEN data; body = drop DIGEST_LEN data
           in if (case mac_key of Some k \<Rightarrow> stored = hmac k body | None \<Rightarrow> stored = compute_digest X body)
              then Ok body else Err IntegrityFailed)"

definition pack :: "'s outside \<Rightarrow> (u8 list \<Rightarrow> u8 list \<Rightarrow> u8 list) \<Rightarrow> u8 list option \<Rightarrow> packed_commit \<Rightarrow> u8 list snap_result" where
  "pack X hmac mac_key p =
     (if \<not> pc_self_contained p then Err IncrementalCommit
      else Ok (seal X hmac (encode_container (pc_id p) (pc_objects p)) mac_key))"

text \<open>\<open>parse_first\<close> reads the JSON of the first format.\<close>

definition decode_sealed :: "'s outside \<Rightarrow> (u8 list \<Rightarrow> u8 list \<Rightarrow> u8 list) \<Rightarrow> (u8 list \<Rightarrow> 's snapshot_state option) \<Rightarrow> u8 list
    \<Rightarrow> u8 list option \<Rightarrow> fs_limits \<Rightarrow> ('s snapshot_state \<times> capability_fingerprint option) snap_result" where
  "decode_sealed X hmac parse_first data mac_key l =
     res_bind (unseal X hmac data mac_key) (\<lambda>body.
       if is_v2 body then
         res_bind (decode_container body) (\<lambda>parsed.
         res_bind (materialize_commit X (ct_root parsed) (map_of (ct_objects parsed)) l) (\<lambda>(snap, caps). Ok (snap, Some caps)))
       else
         res_bind (json_result (parse_first body)) (\<lambda>snap.
           if sn_version snap \<noteq> SNAPSHOT_VERSION then Err (UnsupportedVersion (sn_version snap)) else Ok (snap, None)))"

section \<open>Capabilities\<close>

text \<open>\<open>BTreeSet\<close> difference, in order.\<close>

definition diff_names :: "rstr list \<Rightarrow> rstr list \<Rightarrow> rstr list" where
  "diff_names names other = filter (\<lambda>s. s \<notin> set other) (sort_key as_bytes (remdups names))"

record capability_delta =
  cd_missing_builtins :: "rstr list"
  cd_extra_builtins :: "rstr list"
  cd_missing_features :: "rstr list"
  cd_extra_features :: "rstr list"
  cd_fs_backend_changed :: bool

definition compare_caps :: "capability_fingerprint \<Rightarrow> capability_fingerprint \<Rightarrow> capability_delta" where
  "compare_caps snap live =
     \<lparr>cd_missing_builtins = diff_names (cf_builtins snap) (cf_builtins live),
      cd_extra_builtins = diff_names (cf_builtins live) (cf_builtins snap),
      cd_missing_features = diff_names (cf_features snap) (cf_features live),
      cd_extra_features = diff_names (cf_features live) (cf_features snap),
      cd_fs_backend_changed = (cf_fs_backend snap \<noteq> cf_fs_backend live)\<rparr>"

definition delta_is_empty :: "capability_delta \<Rightarrow> bool" where
  "delta_is_empty d \<longleftrightarrow> cd_missing_builtins d = [] \<and> cd_extra_builtins d = [] \<and> cd_missing_features d = [] \<and>
     cd_extra_features d = [] \<and> \<not> cd_fs_backend_changed d"

definition delta_is_superset :: "capability_delta \<Rightarrow> bool" where
  "delta_is_superset d \<longleftrightarrow> cd_missing_builtins d = [] \<and> cd_missing_features d = [] \<and> \<not> cd_fs_backend_changed d"

datatype checkout_policy = Strict | Superset | Force

definition policy_check :: "checkout_policy \<Rightarrow> capability_delta \<Rightarrow> unit snap_result" where
  "policy_check p d =
     (let ok = (case p of Strict \<Rightarrow> delta_is_empty d | Superset \<Rightarrow> delta_is_superset d | Force \<Rightarrow> True)
      in if ok then Ok () else Err CapabilityMismatch)"

definition SQLITE_MAGIC :: "u8 list" where
  "SQLITE_MAGIC = map of_char ''SQLite format 3'' @ [0]"

text \<open>\<open>has_sqlite\<close> is the compile-time feature.\<close>

fun check_state_evidence :: "bool \<Rightarrow> vfs_snapshot \<Rightarrow> unit snap_result" where
  "check_state_evidence has_sqlite [] = Ok ()"
| "check_state_evidence has_sqlite (e # es) =
     (case ve_kind e of
        KFile content \<Rightarrow>
          if \<not> has_sqlite \<and> prefix SQLITE_MAGIC content then Err (NeedsSqlite (ve_path e))
          else check_state_evidence has_sqlite es
      | _ \<Rightarrow> check_state_evidence has_sqlite es)"

section \<open>Restoring\<close>

datatype restore_error = SnapErr snap_error | FsErr fs_error | ShellErr string

text \<open>
  The live instance and what restoring does to it. The interpreter's part is the argument \<open>sh\<close>: its check of a
  shell state before the restore, resetting the builtins' session state, and installing a shell state, which
  cannot fail.
\<close>

record ('s, 'i) shell_ops =
  so_validate :: "'s \<Rightarrow> 'i \<Rightarrow> string option"
  so_reset_builtins :: "'i \<Rightarrow> 'i"
  so_install :: "'s \<Rightarrow> 'i \<Rightarrow> 'i"

record 'i live =
  lv_interpreter :: 'i
  lv_fs :: mem_fs
  lv_counters :: execution_counters
  lv_caps :: capability_fingerprint

definition restore_session_counters :: "u64 \<Rightarrow> u64 \<Rightarrow> execution_counters \<Rightarrow> execution_counters" where
  "restore_session_counters n m c =
     c\<lparr>session_commands := max (session_commands c) n, session_exec_calls := max (session_exec_calls c) m\<rparr>"

definition restore_snapshot_inner :: "('s, 'i) shell_ops \<Rightarrow> system_time \<Rightarrow> 's snapshot_state \<Rightarrow> 'i live
    \<Rightarrow> (restore_error + unit) \<times> 'i live" where
  "restore_snapshot_inner sh t snap b =
     (case so_validate sh (sn_shell snap) (lv_interpreter b) of
        Some e \<Rightarrow> (Err (ShellErr e), b)
      | None \<Rightarrow>
          (case (case sn_vfs snap of None \<Rightarrow> (Ok (), lv_fs b) | Some vfs \<Rightarrow> restore t vfs (lv_fs b)) of
             (Inl e, fs) \<Rightarrow> (Err (FsErr e), b\<lparr>lv_fs := fs\<rparr>)
           | (Inr _, fs) \<Rightarrow>
               (Ok (), b\<lparr>lv_fs := fs,
                         lv_interpreter := so_install sh (sn_shell snap) (so_reset_builtins sh (lv_interpreter b)),
                         lv_counters := restore_session_counters (sn_session_commands snap) (sn_session_exec_calls snap)
                                          (lv_counters b)\<rparr>)))"

definition apply_checked :: "bool \<Rightarrow> ('s, 'i) shell_ops \<Rightarrow> system_time \<Rightarrow> 's snapshot_state \<Rightarrow> capability_fingerprint
    \<Rightarrow> checkout_policy \<Rightarrow> 'i live \<Rightarrow> (restore_error + unit) \<times> 'i live" where
  "apply_checked has_sqlite sh t snap caps policy b =
     (case policy_check policy (compare_caps caps (lv_caps b)) of
        Inl e \<Rightarrow> (Err (SnapErr e), b)
      | Inr _ \<Rightarrow>
          (case (case sn_vfs snap of None \<Rightarrow> Ok () | Some vfs \<Rightarrow> check_state_evidence has_sqlite vfs) of
             Inl e \<Rightarrow> (Err (SnapErr e), b)
           | Inr _ \<Rightarrow> restore_snapshot_inner sh t snap b))"

definition apply_restore :: "bool \<Rightarrow> ('s, 'i) shell_ops \<Rightarrow> system_time \<Rightarrow> 's snapshot_state \<Rightarrow> capability_fingerprint option
    \<Rightarrow> checkout_policy \<Rightarrow> 'i live \<Rightarrow> (restore_error + unit) \<times> 'i live" where
  "apply_restore has_sqlite sh t snap caps policy b =
     (case caps of
        Some c \<Rightarrow> apply_checked has_sqlite sh t snap c policy b
      | None \<Rightarrow> restore_snapshot_inner sh t snap b)"

definition checkout :: "'s outside \<Rightarrow> bool \<Rightarrow> ('s, 'i) shell_ops \<Rightarrow> system_time \<Rightarrow> object_id \<Rightarrow> store \<Rightarrow> checkout_policy
    \<Rightarrow> 'i live \<Rightarrow> (restore_error + unit) \<times> 'i live" where
  "checkout X has_sqlite sh t root st policy b =
     (case materialize_commit X root st (limits (lv_fs b)) of
        Inl e \<Rightarrow> (Err (SnapErr e), b)
      | Inr (snap, caps) \<Rightarrow> apply_checked has_sqlite sh t snap caps policy b)"

definition restore_with_policy :: "'s outside \<Rightarrow> (u8 list \<Rightarrow> u8 list \<Rightarrow> u8 list) \<Rightarrow> (u8 list \<Rightarrow> 's snapshot_state option) \<Rightarrow> bool
    \<Rightarrow> ('s, 'i) shell_ops \<Rightarrow> system_time \<Rightarrow> u8 list \<Rightarrow> u8 list option \<Rightarrow> checkout_policy
    \<Rightarrow> 'i live \<Rightarrow> (restore_error + unit) \<times> 'i live" where
  "restore_with_policy X hmac parse_first has_sqlite sh t data mac_key policy b =
     (case decode_sealed X hmac parse_first data mac_key (limits (lv_fs b)) of
        Inl e \<Rightarrow> (Err (SnapErr e), b)
      | Inr (snap, caps) \<Rightarrow> apply_restore has_sqlite sh t snap caps policy b)"

end
