(* ===== verification/SnapPlan.thy ===== *)
theory SnapPlan
  imports SnapCheckout
begin

text \<open>
  Planning a checkout: what the walk finds, and why a host that fetches what the plan names, round after round,
  is done after four of them.
\<close>

section \<open>What a checkout needs\<close>

text \<open>The objects a commit needs in a store, with the kind expected and the depth below the commit.\<close>

inductive needed :: "'s outside \<Rightarrow> store \<Rightarrow> object_id \<Rightarrow> nat \<Rightarrow> object_id \<times> u8 \<Rightarrow> bool"
  for X st root where
  needed_root: "needed X st root 0 (root, KIND_COMMIT)"
| needed_ref: "needed X st root n p \<Longrightarrow> visit X st p = Ok (Some refs) \<Longrightarrow> r \<in> set refs \<Longrightarrow> needed X st root (Suc n) r"

inductive_cases needed_SucE: "needed X st root (Suc n) r"

lemma needed_rank: "needed X st root n p \<Longrightarrow> n + kind_rank (snd p) \<le> 3"
proof (induction rule: needed.induct)
  case (needed_ref n p refs r)
  then show ?case using visit_rank [of X st p refs r] by simp
qed (simp add: kind_rank_def)

text \<open>A store from which the commit can be restored: all it needs is there and verifies.\<close>

definition restorable :: "'s outside \<Rightarrow> store \<Rightarrow> object_id \<Rightarrow> bool" where
  "restorable X st root \<longleftrightarrow> (\<forall>n p. needed X st root n p \<longrightarrow> (\<exists>refs. visit X st p = Ok (Some refs)))"

lemma visit_missing: "visit X st p = Ok None \<longleftrightarrow> st (fst p) = None"
  by (auto simp: visit_def res_bind_Inr split: option.splits)

lemma visit_submap: "st \<subseteq>\<^sub>m st' \<Longrightarrow> st (fst p) \<noteq> None \<Longrightarrow> visit X st p = visit X st' p"
  by (auto simp: visit_def map_le_def dom_def)

text \<open>An object has one kind, so two visits that succeed expected the same.\<close>

lemma visit_kind: "visit X st p = Ok (Some refs) \<Longrightarrow> visit X st q = Ok (Some refs') \<Longrightarrow> fst p = fst q \<Longrightarrow> p = q"
  by (cases p; cases q) (auto simp: visit_def res_bind_Inr expect_kind_def split: option.splits if_splits)

section \<open>The walk\<close>

definition walk_inv :: "'s outside \<Rightarrow> store \<Rightarrow> object_id \<Rightarrow> (object_id \<times> u8) list \<Rightarrow> object_id list \<Rightarrow> object_id list \<Rightarrow> object_id list \<Rightarrow> bool" where
  "walk_inv X st root queue seen missing present \<longleftrightarrow>
     set seen = set missing \<union> set present \<and> root \<in> set seen \<union> fst ` set queue \<and>
     (\<forall>i \<in> set missing. st i = None \<and> (\<exists>n k. needed X st root n (i, k))) \<and>
     (\<forall>i \<in> set present. st i \<noteq> None \<and> (\<exists>n k. needed X st root n (i, k))) \<and>
     (\<forall>p \<in> set queue. \<exists>n. needed X st root n p) \<and>
     (\<forall>n p refs. needed X st root n p \<longrightarrow> fst p \<in> set seen \<longrightarrow> visit X st p = Ok (Some refs) \<longrightarrow>
        fst ` set refs \<subseteq> set seen \<union> fst ` set queue)"

lemma walk_invD:
  assumes "walk_inv X st root queue seen missing present"
  shows "set seen = set missing \<union> set present" "root \<in> set seen \<union> fst ` set queue"
    "i \<in> set missing \<Longrightarrow> st i = None \<and> (\<exists>n k. needed X st root n (i, k))"
    "i \<in> set present \<Longrightarrow> st i \<noteq> None \<and> (\<exists>n k. needed X st root n (i, k))"
    "p \<in> set queue \<Longrightarrow> \<exists>n. needed X st root n p"
    "needed X st root n q \<Longrightarrow> fst q \<in> set seen \<Longrightarrow> visit X st q = Ok (Some refs) \<Longrightarrow>
       fst ` set refs \<subseteq> set seen \<union> fst ` set queue"
  using assms unfolding walk_inv_def by (blast, blast, blast, blast, blast, blast)

lemma walk_inv_skip:
  assumes "walk_inv X st root (p # queue) seen missing present" and "fst p \<in> set seen"
  shows "walk_inv X st root queue seen missing present"
proof -
  have s: "set seen \<union> fst ` set (p # queue) = set seen \<union> fst ` set queue" using assms(2) by auto
  show ?thesis using assms(1) unfolding walk_inv_def s by (simp only: list.set insert_iff) blast
qed

text \<open>No needed object is corrupt; some may be absent.\<close>

definition walkable :: "'s outside \<Rightarrow> store \<Rightarrow> object_id \<Rightarrow> bool" where
  "walkable X st root \<longleftrightarrow> (\<forall>n p. needed X st root n p \<longrightarrow> (\<exists>o1. visit X st p = Ok o1))"

lemma set_insort_insert' [simp]: "set (insort_insert x xs) = insert x (set xs)"
  by (rule set_insort_insert)

lemma walk_loop_ok:
  assumes "walkable X st root" and "walk_inv X st root queue seen missing present"
  shows "\<exists>seen' missing' present'. walk_loop X st queue seen missing present = Ok (missing', present') \<and>
    walk_inv X st root [] seen' missing' present'"
  using assms
proof (induction X st queue seen missing present rule: walk_loop.induct)
  case (1 X st seen missing present)
  then show ?case by auto
next
  case (2 X st p queue seen missing present)
  note wk = 2(4) and inv = 2(5)
  from inv obtain n where n: "needed X st root n p" unfolding walk_inv_def by auto
  show ?case
  proof (cases "fst p \<in> set seen")
    case True
    from 2(1) [OF True wk walk_inv_skip [OF inv True]] True show ?thesis by simp
  next
    case new: False
    have pk: "\<exists>n k. needed X st root n (fst p, k)" using n by (metis prod.collapse)
    from wk n obtain o1 where v: "visit X st p = Ok o1" unfolding walkable_def by blast
    show ?thesis
    proof (cases o1)
      case None
      then have none: "st (fst p) = None" using v visit_missing [of X st p] by simp
      have "walk_inv X st root queue (fst p # seen) (insort_insert (fst p) missing) present"
        unfolding walk_inv_def
      proof (intro conjI allI impI ballI)
        fix m q refs assume q: "needed X st root m q" "fst q \<in> set (fst p # seen)" "visit X st q = Ok (Some refs)"
        have "fst q \<noteq> fst p" using q(3) none visit_missing [of X st q] by auto
        then have "fst q \<in> set seen" using q(2) by simp
        from walk_invD(6) [OF inv q(1) this q(3)] show "fst ` set refs \<subseteq> set (fst p # seen) \<union> fst ` set queue" by auto
      qed (use walk_invD(1-5) [OF inv] none pk in auto)
      from 2(2) [OF new v None wk this] new v None show ?thesis by simp
    next
      case (Some refs)
      have "walk_inv X st root (queue @ refs) (fst p # seen) missing (insort_insert (fst p) present)"
        unfolding walk_inv_def
      proof (intro conjI allI impI ballI)
        fix m q refs' assume q: "needed X st root m q" "fst q \<in> set (fst p # seen)" "visit X st q = Ok (Some refs')"
        show "fst ` set refs' \<subseteq> set (fst p # seen) \<union> fst ` set (queue @ refs)"
        proof (cases "fst q = fst p")
          case True
          then have "refs' = refs" using visit_kind [OF q(3) v [unfolded Some]] q(3) v Some by auto
          then show ?thesis by auto
        next
          case False
          then have "fst q \<in> set seen" using q(2) by simp
          from walk_invD(6) [OF inv q(1) this q(3)] show ?thesis by auto
        qed
      next
        fix i assume i: "i \<in> set (insort_insert (fst p) present)"
        have "st (fst p) \<noteq> None" using v Some visit_missing [of X st p] by auto
        then show "st i \<noteq> None" using i walk_invD(4) [OF inv, of i] by auto
        show "\<exists>n k. needed X st root n (i, k)" using i pk walk_invD(4) [OF inv, of i] by auto
      next
        fix q assume "q \<in> set (queue @ refs)"
        then show "\<exists>n. needed X st root n q"
          using walk_invD(5) [OF inv, of q] needed_ref [OF n v [unfolded Some], of q] by auto
      qed (use walk_invD(1-3) [OF inv] in auto)
      from 2(3) [OF new v Some wk this] new v Some show ?thesis by simp
    qed
  qed
qed

lemma walk_done:
  assumes "walk_inv X st root [] seen missing present" and "needed X st root n p"
  shows "fst p \<in> set missing \<union> set present"
  using assms(2,1)
proof (induction rule: needed.induct)
  case (needed_ref n p refs r)
  have "fst p \<in> set seen" using needed_ref(4,5) walk_invD(1) by metis
  from walk_invD(6) [OF needed_ref(5) needed_ref(1) this needed_ref(2)] have "fst r \<in> set seen"
    using needed_ref(3) by auto
  then show ?case using walk_invD(1) [OF needed_ref(5)] by simp
next
  case needed_root
  then show ?case using walk_invD(1,2) [OF needed_root] by simp
qed

lemma plan_checkout_ok:
  assumes "walkable X st root"
  shows "\<exists>ids. plan_checkout X root st = Ok ids \<and>
    (\<forall>i. i \<in> set ids \<longleftrightarrow> st i = None \<and> (\<exists>n k. needed X st root n (i, k)))"
proof -
  have "walk_inv X st root [(root, KIND_COMMIT)] [] [] []"
    using needed_root unfolding walk_inv_def by auto
  from walk_loop_ok [OF assms this] obtain seen missing present where
    w: "walk_loop X st [(root, KIND_COMMIT)] [] [] [] = Ok (missing, present)" "walk_inv X st root [] seen missing present" by blast
  have "i \<in> set missing \<longleftrightarrow> st i = None \<and> (\<exists>n k. needed X st root n (i, k))" for i
  proof
    assume i: "st i = None \<and> (\<exists>n k. needed X st root n (i, k))"
    then obtain n k where "needed X st root n (i, k)" by blast
    from walk_done [OF w(2) this] have "i \<in> set missing \<union> set present" by simp
    then show "i \<in> set missing" using i walk_invD(4) [OF w(2), of i] by blast
  qed (rule walk_invD(3) [OF w(2)])
  with w(1) show ?thesis by (simp add: plan_checkout_def)
qed

section \<open>Fetching round after round\<close>

text \<open>What the module's comment asks of a host: fetch what the plan names, until it names nothing.\<close>

definition fetch_ids :: "store \<Rightarrow> object_id list \<Rightarrow> store \<Rightarrow> store" where
  "fetch_ids remote ids st = (\<lambda>i. if i \<in> set ids then remote i else st i)"

fun fetch_rounds :: "'s outside \<Rightarrow> object_id \<Rightarrow> store \<Rightarrow> nat \<Rightarrow> store \<Rightarrow> store snap_result" where
  "fetch_rounds X root remote 0 st = Ok st"
| "fetch_rounds X root remote (Suc n) st =
     (case plan_checkout X root st of
        Inl e \<Rightarrow> Err e
      | Inr ids \<Rightarrow> if ids = [] then Ok st else fetch_rounds X root remote n (fetch_ids remote ids st))"

lemma needed_submap: "st \<subseteq>\<^sub>m remote \<Longrightarrow> needed X st root n p \<Longrightarrow> needed X remote root n p"
proof (rotate_tac, induction rule: needed.induct)
  case (needed_ref n p refs r)
  then have "st (fst p) \<noteq> None" using visit_missing [of X st p] by auto
  then show ?case using needed_ref visit_submap [of st remote p X] by (metis needed.needed_ref)
qed (rule needed_root)

lemma walkable_submap: "restorable X remote root \<Longrightarrow> st \<subseteq>\<^sub>m remote \<Longrightarrow> walkable X st root"
  unfolding walkable_def restorable_def
  using needed_submap visit_submap visit_missing by metis

text \<open>The levels above \<open>n\<close> are there.\<close>

definition fetched :: "'s outside \<Rightarrow> store \<Rightarrow> object_id \<Rightarrow> nat \<Rightarrow> store \<Rightarrow> bool" where
  "fetched X remote root n st \<longleftrightarrow> st \<subseteq>\<^sub>m remote \<and> (\<forall>m p. m < n \<longrightarrow> needed X remote root m p \<longrightarrow> st (fst p) \<noteq> None)"

lemma fetched_needed: "needed X remote root m p \<Longrightarrow> fetched X remote root m st \<Longrightarrow> needed X st root m p"
proof (induction rule: needed.induct)
  case (needed_ref m p refs r)
  have f: "fetched X remote root m st" using needed_ref(5) unfolding fetched_def by (blast intro: less_SucI)
  have "st (fst p) \<noteq> None" using needed_ref(1,5) unfolding fetched_def by blast
  then have "visit X st p = Ok (Some refs)" using needed_ref(2,5) visit_submap [of st remote p X] unfolding fetched_def by simp
  with needed_ref(4) [OF f] show ?case using needed_ref(3) by (rule needed.needed_ref)
qed (rule needed_root)

lemma fetched_all: "fetched X remote root 4 st \<Longrightarrow> needed X remote root m p \<Longrightarrow> st (fst p) \<noteq> None"
proof -
  assume a: "fetched X remote root 4 st" "needed X remote root m p"
  have "m < 4" using needed_rank [OF a(2)] by simp
  with a show ?thesis unfolding fetched_def by blast
qed

lemma fetch_step:
  assumes "restorable X remote root" and "fetched X remote root n st" and "plan_checkout X root st = Ok ids"
  shows "fetched X remote root (Suc n) (fetch_ids remote ids st)"
proof -
  have sub: "st \<subseteq>\<^sub>m remote" using assms(2) unfolding fetched_def by simp
  from plan_checkout_ok [OF walkable_submap [OF assms(1) sub]] assms(3) have
    ids: "i \<in> set ids \<longleftrightarrow> st i = None \<and> (\<exists>n k. needed X st root n (i, k))" for i by auto
  show ?thesis unfolding fetched_def
  proof (intro conjI allI impI)
    show "fetch_ids remote ids st \<subseteq>\<^sub>m remote" using sub by (auto simp: fetch_ids_def map_le_def dom_def)
    fix m p assume m: "m < Suc n" "needed X remote root m p"
    have r: "remote (fst p) \<noteq> None" using assms(1) m(2) visit_missing [of X remote p] unfolding restorable_def by fastforce
    show "fetch_ids remote ids st (fst p) \<noteq> None"
    proof (cases "m < n")
      case True
      then have "st (fst p) \<noteq> None" using assms(2) m(2) unfolding fetched_def by blast
      then show ?thesis using r by (simp add: fetch_ids_def)
    next
      case False
      then have "needed X st root m p" using fetched_needed [OF m(2)] assms(2) m(1) by (simp add: less_Suc_eq)
      then have "st (fst p) = None \<Longrightarrow> fst p \<in> set ids" using ids [of "fst p"] by (cases p) auto
      then show ?thesis using r by (auto simp: fetch_ids_def)
    qed
  qed
qed

text \<open>A plan that is empty has nothing left to fetch.\<close>

lemma plan_empty_complete:
  assumes "restorable X remote root" and "st \<subseteq>\<^sub>m remote" and "plan_checkout X root st = Ok []" and "needed X remote root m p"
  shows "needed X st root m p \<and> st (fst p) \<noteq> None"
  using assms(4)
proof (induction rule: needed.induct)
  case needed_root
  from plan_checkout_ok [OF walkable_submap [OF assms(1,2)]] assms(3) have
    "\<not> (st root = None \<and> (\<exists>n k. needed X st root n (root, k)))" by simp
  then show ?case using needed.needed_root [of X st root] by auto
next
  case (needed_ref m p refs r)
  from plan_checkout_ok [OF walkable_submap [OF assms(1,2)]] assms(3) have
    ids: "\<not> (st i = None \<and> (\<exists>n k. needed X st root n (i, k)))" for i by simp
  have "visit X st p = Ok (Some refs)" using needed_ref visit_submap [OF assms(2)] by metis
  then have "needed X st root (Suc m) r" using needed_ref by (metis needed.needed_ref)
  then show ?case using ids [of "fst r"] by (cases r) auto
qed

lemma fetched_plan: "restorable X remote root \<Longrightarrow> fetched X remote root 4 st \<Longrightarrow> plan_checkout X root st = Ok []"
proof -
  assume r: "restorable X remote root" and f: "fetched X remote root 4 st"
  have sub: "st \<subseteq>\<^sub>m remote" using f unfolding fetched_def by simp
  from plan_checkout_ok [OF walkable_submap [OF r sub]] obtain ids where
    ids: "plan_checkout X root st = Ok ids" "\<And>i. i \<in> set ids \<longleftrightarrow> st i = None \<and> (\<exists>n k. needed X st root n (i, k))" by blast
  have "i \<notin> set ids" for i
    using ids(2) [of i] needed_submap [OF sub] fetched_all [OF f] by fastforce
  then have "ids = []" by (cases ids) auto
  with ids(1) show ?thesis by simp
qed

lemma fetch_rounds_ok:
  "restorable X remote root \<Longrightarrow> fetched X remote root m st \<Longrightarrow> m + n = 4 \<Longrightarrow>
   \<exists>st'. fetch_rounds X root remote n st = Ok st' \<and> plan_checkout X root st' = Ok [] \<and> st' \<subseteq>\<^sub>m remote"
proof (induction n arbitrary: m st)
  case 0
  then show ?case using fetched_plan [of X remote root st] unfolding fetched_def by auto
next
  case (Suc n)
  have sub: "st \<subseteq>\<^sub>m remote" using Suc.prems(2) unfolding fetched_def by simp
  from plan_checkout_ok [OF walkable_submap [OF Suc.prems(1) sub]] obtain ids where ids: "plan_checkout X root st = Ok ids" by blast
  show ?case
  proof (cases "ids = []")
    case True
    then show ?thesis using ids sub by simp
  next
    case False
    from fetch_step [OF Suc.prems(1,2) ids] have "fetched X remote root (Suc m) (fetch_ids remote ids st)" .
    from Suc.IH [OF Suc.prems(1) this] Suc.prems(3) ids False show ?thesis by simp
  qed
qed

section \<open>The rebuilt state depends on needed objects only\<close>

lemma visit_load:
  "visit X st p = Ok (Some refs) \<longleftrightarrow>
   (\<exists>payload. load_object X (fst p) (snd p) st = Ok payload \<and> object_refs X (snd p) payload = Ok refs)"
  by (auto simp: visit_def load_object_def res_bind_Inr split: option.splits)

lemma load_cong: "st i = st' i \<Longrightarrow> load_object X i k st = load_object X i k st'"
  by (simp add: load_object_def)

lemma tree_to_vfs_cong:
  "(\<And>e f. e \<in> set es \<Longrightarrow> te_kind e = TFile f \<Longrightarrow> g f = h f) \<Longrightarrow> tree_to_vfs es g b = tree_to_vfs es h b"
proof (induction es arbitrary: b)
  case (Cons e es)
  have "tree_to_vfs es g = tree_to_vfs es h" using Cons by (intro ext) auto
  then show ?case using Cons.prems [of e] by (simp split: tree_entry_kind.split)
qed simp

lemma resolve_chunks_cong:
  "(\<And>c. c \<in> set cs \<Longrightarrow> st c = st' c) \<Longrightarrow> resolve_chunks X st f sz cs out = resolve_chunks X st' f sz cs out"
proof (induction cs arbitrary: out)
  case (Cons c cs)
  have "resolve_chunks X st f sz cs o1 = resolve_chunks X st' f sz cs o1" for o1 using Cons by auto
  moreover have "load_object X c KIND_CHUNK st = load_object X c KIND_CHUNK st'" using Cons.prems by (intro load_cong) simp
  ultimately show ?case by (simp split: sum.split)
qed simp

lemma resolve_file_cong:
  assumes "st f = st' f" and "\<And>payload sz cs c. load_object X f KIND_FILE st' = Ok payload \<Longrightarrow>
      decode_file payload = Ok (Chunked sz cs) \<Longrightarrow> c \<in> set cs \<Longrightarrow> st c = st' c"
  shows "resolve_file X st f = resolve_file X st' f"
proof -
  have l: "load_object X f KIND_FILE st = load_object X f KIND_FILE st'" using assms(1) by (rule load_cong)
  show ?thesis
  proof (cases "load_object X f KIND_FILE st'")
    case (Inr payload)
    show ?thesis
    proof (cases "decode_file payload")
      case (Inr content)
      show ?thesis
      proof (cases content)
        case (Chunked sz cs)
        have "resolve_chunks X st f sz cs [] = resolve_chunks X st' f sz cs []"
          using assms(2) \<open>load_object X f KIND_FILE st' = Inr payload\<close> Inr Chunked by (intro resolve_chunks_cong) auto
        then show ?thesis
          using l Inr Chunked \<open>load_object X f KIND_FILE st' = Inr payload\<close> by (intro ext) (simp add: resolve_file_def)
      qed (use l Inr \<open>load_object X f KIND_FILE st' = Inr payload\<close> in \<open>intro ext, simp add: resolve_file_def\<close>)
    qed (use l Inr in \<open>intro ext, simp add: resolve_file_def\<close>)
  qed (use l in \<open>intro ext, simp add: resolve_file_def\<close>)
qed

lemma needed_load:
  assumes "restorable X st root" and "needed X st root n (i, k)"
  obtains payload refs where "load_object X i k st = Ok payload" "object_refs X k payload = Ok refs"
    "\<And>r. r \<in> set refs \<Longrightarrow> needed X st root (Suc n) r"
proof -
  from assms obtain refs where v: "visit X st (i, k) = Ok (Some refs)" unfolding restorable_def by blast
  then obtain payload where "load_object X i k st = Ok payload" "object_refs X k payload = Ok refs"
    unfolding visit_load by auto
  with that needed_ref [OF assms(2) v] show thesis by blast
qed

lemma materialize_commit_cong:
  assumes r: "restorable X remote root" and same: "\<And>n p. needed X remote root n p \<Longrightarrow> st (fst p) = remote (fst p)"
  shows "materialize_commit X root st l = materialize_commit X root remote l"
proof -
  from needed_load [OF r needed_root] obtain payload refs where
    1: "load_object X root KIND_COMMIT remote = Ok payload" "object_refs X KIND_COMMIT payload = Ok refs"
      "\<And>p. p \<in> set refs \<Longrightarrow> needed X remote root 1 p" by (metis One_nat_def)
  then obtain c where c: "decode_commit X payload = Ok c" and refs: "refs = [(cm_shell c, KIND_SHELL), (cm_caps c, KIND_CAPS)] @
      (case cm_tree c of None \<Rightarrow> [] | Some t \<Rightarrow> [(t, KIND_TREE)])"
    by (auto simp: object_refs_def res_bind_Inr)
  have rc: "read_commit X root remote = Ok c" using 1(1) c by (simp add: read_commit_def)
  have rc': "read_commit X root st = Ok c"
    using rc same [OF needed_root] by (simp add: read_commit_def load_object_def)
  have s: "st (cm_shell c) = remote (cm_shell c)" "st (cm_caps c) = remote (cm_caps c)"
    using same [OF 1(3)] refs by fastforce+
  show ?thesis
  proof (cases "cm_tree c")
    case None
    then show ?thesis using rc rc' s by (simp add: materialize_commit_def load_object_def)
  next
    case (Some t)
    then have nt: "needed X remote root 1 (t, KIND_TREE)" using 1(3) refs by simp
    from needed_load [OF r nt] obtain tp trefs where
      t: "load_object X t KIND_TREE remote = Ok tp" "object_refs X KIND_TREE tp = Ok trefs"
        "\<And>p. p \<in> set trefs \<Longrightarrow> needed X remote root 2 p" by (metis Suc_1)
    then obtain es where es: "decode_tree tp = Ok es"
      "trefs = concat (map (\<lambda>e. case te_kind e of TFile f \<Rightarrow> [(f, KIND_FILE)] | _ \<Rightarrow> []) es)"
      by (auto simp: object_refs_def kind_defs res_bind_Inr)
    have "resolve_file X st f = resolve_file X remote f" if e: "e \<in> set es" "te_kind e = TFile f" for e f
    proof (rule resolve_file_cong)
      have nf: "needed X remote root 2 (f, KIND_FILE)" using t(3) es(2) e by force
      then show "st f = remote f" using same by fastforce
      fix fp sz cs ch assume f: "load_object X f KIND_FILE remote = Ok fp" "decode_file fp = Ok (Chunked sz cs)" "ch \<in> set cs"
      from needed_load [OF r nf] f(1) obtain frefs where
        "object_refs X KIND_FILE fp = Ok frefs" "\<And>p. p \<in> set frefs \<Longrightarrow> needed X remote root 3 p"
        by (metis Inr_inject eval_nat_numeral(3))
      then have "needed X remote root 3 (ch, KIND_CHUNK)" using f(2,3) by (auto simp: object_refs_def kind_defs)
      then show "st ch = remote ch" using same by fastforce
    qed
    then have "tree_to_vfs es (resolve_file X st) b = tree_to_vfs es (resolve_file X remote) b" for b
      by (intro tree_to_vfs_cong) blast
    moreover have "load_object X t KIND_TREE st = load_object X t KIND_TREE remote"
      using same [OF nt] by (intro load_cong) simp
    ultimately show ?thesis using rc rc' s Some t(1) es(1) by (simp add: materialize_commit_def load_object_def)
  qed
qed

text \<open>
  Property C16: fetching a commit takes at most four rounds. From any part of a store that holds the commit whole,
  the loop of planning and fetching what is missing never fails and after at most four rounds the plan is empty;
  the state rebuilt from what was fetched is then the one the whole store gives.
\<close>

theorem four_rounds_suffice:
  assumes "restorable X remote root" and "st \<subseteq>\<^sub>m remote"
  shows "\<exists>st'. fetch_rounds X root remote 4 st = Ok st' \<and> plan_checkout X root st' = Ok [] \<and>
    (\<forall>l. materialize_commit X root st' l = materialize_commit X root remote l)"
proof -
  have "fetched X remote root 0 st" using assms(2) by (simp add: fetched_def)
  from fetch_rounds_ok [OF assms(1) this, of 4] obtain st' where
    st': "fetch_rounds X root remote 4 st = Ok st'" "plan_checkout X root st' = Ok []" "st' \<subseteq>\<^sub>m remote" by auto
  have "st' (fst p) = remote (fst p)" if "needed X remote root n p" for n p
    using plan_empty_complete [OF assms(1) st'(3,2) that] st'(3) by (metis domIff map_le_def)
  then have "materialize_commit X root st' l = materialize_commit X root remote l" for l
    by (intro materialize_commit_cong [OF assms(1)])
  with st' show ?thesis by blast
qed

end
