(* ===== verification/SnapSafe.thy ===== *)
theory SnapSafe
  imports SnapCheckout
begin

text \<open>
  What holds of reading snapshots from any store, a hostile one included: a checkout stays within the budget,
  an ancestry walk is bounded and complete, and a checkout that fails changes nothing.
\<close>

section \<open>The budget\<close>

lemma spend_file_ok:
  "spend_file n b = Ok b' \<Longrightarrow> unat n \<le> unat (cb_max_file_size b) \<and> unat (cb_remaining b') + unat n = unat (cb_remaining b) \<and>
     cb_max_file_size b' = cb_max_file_size b"
  by (auto simp: spend_file_def checked_sub_def not_less word_le_nat_alt unat_sub split: if_splits)

lemma read_take_length: "read_take n r = Ok (w, r') \<Longrightarrow> length w < 2 ^ 64"
proof -
  assume "read_take n r = Ok (w, r')"
  then have "length w \<le> unat n" by (auto simp: read_take_def take_slice_def split: option.splits if_splits)
  moreover have "unat n < 2 ^ 64" using unsigned_less [of n, where ?'a = nat] by simp
  ultimately show ?thesis by (rule le_less_trans)
qed

lemma decode_file_inline: "decode_file payload = Ok (Inline bs) \<Longrightarrow> length bs < 2 ^ 64"
  by (auto simp: decode_file_def read_file_content_def res_bind_Inr rd_bind_eq_Ok read_bytes_def
      dest: read_take_length split: if_splits)

lemma resolve_chunks_length:
  "resolve_chunks X st f sz cs out = Ok res \<Longrightarrow> unat sz \<le> 2 ^ 32 \<Longrightarrow> length out \<le> unat sz \<Longrightarrow> length res = unat sz"
proof (induction cs arbitrary: out)
  case Nil
  then show ?case by (auto simp: unat_of_nat split: if_splits)
next
  case (Cons c cs)
  from Cons.prems(1) obtain w where w: "length w \<le> 65536" "\<not> sz < of_nat (length out) + of_nat (length w)"
    "resolve_chunks X st f sz cs (out @ w) = Ok res"
    by (auto simp: MAX_CHUNK_def not_less split: sum.splits if_splits)
  have "unat (of_nat (length out) + of_nat (length w) :: u64) = length out + length w"
    using w(1) Cons.prems(2,3) by (simp flip: of_nat_add add: unat_of_nat)
  then have "length (out @ w) \<le> unat sz" using w(2) by (simp add: word_less_nat_alt not_less)
  from Cons.IH [OF w(3) Cons.prems(2) this] show ?case .
qed

lemma resolve_file_spends:
  assumes "resolve_file X st f b = Ok (bs, b')" and "unat (cb_max_file_size b) \<le> 2 ^ 32"
  shows "length bs \<le> unat (cb_max_file_size b) \<and> unat (cb_remaining b') + length bs = unat (cb_remaining b) \<and>
    cb_max_file_size b' = cb_max_file_size b"
proof -
  from assms(1) obtain payload content where d: "decode_file payload = Ok content"
    and r: "(case content of
         Inline bs \<Rightarrow> res_bind (spend_file (of_nat (length bs)) b) (\<lambda>b. Ok (bs, b))
       | Chunked sz chunks \<Rightarrow>
           res_bind (spend_file sz b) (\<lambda>b.
           res_bind (resolve_chunks X st f sz chunks []) (\<lambda>out. Ok (out, b)))) = Ok (bs, b')"
    by (auto simp: resolve_file_def res_bind_Inr)
  show ?thesis
  proof (cases content)
    case (Inline w)
    then have "spend_file (of_nat (length bs)) b = Ok b'" "w = bs" using r by (auto simp: res_bind_Inr)
    moreover have "unat (of_nat (length bs) :: u64) = length bs"
      using decode_file_inline [OF d [unfolded Inline]] \<open>w = bs\<close> by (simp add: unat_of_nat)
    ultimately show ?thesis using spend_file_ok [of "of_nat (length bs)" b b'] by simp
  next
    case (Chunked sz chunks)
    then have s: "spend_file sz b = Ok b'" "resolve_chunks X st f sz chunks [] = Ok bs" using r by (auto simp: res_bind_Inr)
    note n = spend_file_ok [OF s(1)]
    then have "unat sz \<le> 2 ^ 32" using assms(2) by simp
    from resolve_chunks_length [OF s(2) this] n show ?thesis by simp
  qed
qed

definition files_within :: "nat \<Rightarrow> vfs_snapshot \<Rightarrow> bool" where
  "files_within n vfs \<longleftrightarrow> list_all (\<lambda>e. case ve_kind e of KFile c \<Rightarrow> length c \<le> n | _ \<Rightarrow> True) vfs"

lemma tree_to_vfs_spends:
  "tree_to_vfs es (resolve_file X st) b = Ok (vfs, b') \<Longrightarrow> unat (cb_max_file_size b) \<le> 2 ^ 32 \<Longrightarrow>
   files_within (unat (cb_max_file_size b)) vfs \<and> unat (cb_remaining b') + snapshot_bytes vfs = unat (cb_remaining b)"
proof (induction es arbitrary: b vfs)
  case (Cons e es)
  show ?case
  proof (cases "te_kind e")
    case (TFile f)
    from Cons.prems(1) obtain bs b1 rest where
      1: "resolve_file X st f b = Ok (bs, b1)" "tree_to_vfs es (resolve_file X st) b1 = Ok (rest, b')"
        "vfs = \<lparr>ve_path = te_path e, ve_kind = KFile bs, ve_mode = te_mode e\<rparr> # rest"
      by (auto simp: res_bind_Inr TFile)
    note s = resolve_file_spends [OF 1(1) Cons.prems(2)]
    then have "unat (cb_max_file_size b1) \<le> 2 ^ 32" using Cons.prems(2) by simp
    from Cons.IH [OF 1(2) this] s show ?thesis by (simp add: 1(3) files_within_def snapshot_bytes_def)
  qed (use Cons in \<open>auto simp: res_bind_Inr files_within_def snapshot_bytes_def\<close>)
qed (simp add: files_within_def snapshot_bytes_def)

text \<open>The manifest of a chunked file.\<close>

definition manifest_at :: "'s outside \<Rightarrow> store \<Rightarrow> object_id \<Rightarrow> u64 \<Rightarrow> object_id list \<Rightarrow> bool" where
  "manifest_at X st f sz cs \<longleftrightarrow> (\<exists>payload. load_object X f KIND_FILE st = Ok payload \<and> decode_file payload = Ok (Chunked sz cs))"

lemma load_object_cong: "st' i = st i \<Longrightarrow> load_object X i k st' = load_object X i k st"
  by (simp add: load_object_def)

text \<open>Once the chunks read exceed the declared size the outcome is settled, and no further chunk is looked at.\<close>

lemma resolve_chunks_stops:
  "list_all2 (\<lambda>c d. load_object X c KIND_CHUNK st = Ok d) cs ds \<Longrightarrow> length out \<le> unat sz \<Longrightarrow> unat sz \<le> 2 ^ 32 \<Longrightarrow>
   unat sz < length out + length (concat ds) \<Longrightarrow>
   \<exists>e. \<forall>st' rest. (\<forall>c \<in> set cs. st' c = st c) \<longrightarrow> resolve_chunks X st' f sz (cs @ rest) out = Err e"
proof (induction cs ds arbitrary: out rule: list_all2_induct)
  case (Cons c cs d ds)
  have load: "load_object X c KIND_CHUNK st' = Ok d" if "st' c = st c" for st'
    using Cons.hyps(1) that by (simp add: load_object_def)
  show ?case
  proof (cases "MAX_CHUNK < length d")
    case True
    then show ?thesis using load by (intro exI [of _ "ChunkTooLarge c"]) simp
  next
    case False
    then have d: "length d \<le> 65536" by (simp add: MAX_CHUNK_def)
    have sum: "unat (of_nat (length out) + of_nat (length d) :: u64) = length out + length d"
      using d Cons.prems(1,2) by (simp add: unat_of_nat flip: of_nat_add)
    show ?thesis
    proof (cases "sz < of_nat (length out) + of_nat (length d)")
      case True
      then show ?thesis using False load by (intro exI [of _ "ExceedsDeclared f"]) simp
    next
      case go: False
      then have "length (out @ d) \<le> unat sz" using sum by (simp add: word_less_nat_alt)
      from Cons.IH [OF this Cons.prems(2)] Cons.prems(3) obtain e
        where "\<forall>st' rest. (\<forall>c \<in> set cs. st' c = st c) \<longrightarrow> resolve_chunks X st' f sz (cs @ rest) (out @ d) = Err e" by auto
      then show ?thesis using False go load by (intro exI [of _ e]) simp
    qed
  qed
qed simp

lemma spend_file_refuses: "unat (min (cb_max_file_size b) (cb_remaining b)) < unat n \<Longrightarrow> \<exists>e. spend_file n b = Err e"
  by (auto simp: spend_file_def checked_sub_def word_less_nat_alt min_def split: if_splits)

lemma resolve_manifest:
  assumes "manifest_at X st f sz cs" and "st' f = st f"
  shows "resolve_file X st' f b = res_bind (spend_file sz b) (\<lambda>b. res_bind (resolve_chunks X st' f sz cs []) (\<lambda>out. Ok (out, b)))"
  using assms(1) load_object_cong [of st' f st X KIND_FILE, OF assms(2)] by (auto simp: manifest_at_def resolve_file_def res_bind_def)

text \<open>
  Property C14: a checkout from an untrusted store cannot allocate beyond the filesystem's limits. Whatever the
  store returns, whatever sizes manifests declare and however often they repeat a chunk, if the state is
  rebuilt then each file is at most \<open>max_file_size\<close> long and all of them together at most \<open>max_total_bytes\<close>, and
  neither exceeds 4 GiB even on a filesystem without limits. On the way there a manifest that declares more than the budget
  has left is refused before any of its chunks is read, and reassembly stops with an error at the first chunk that would take the
  file past its declared size: no later chunk is read, whatever the store holds for it (TM-SNAP-004).
\<close>

theorem checkout_is_bounded:
  shows "(materialize_commit X root st l = Ok (snap, caps) \<and> sn_vfs snap = Some vfs \<longrightarrow>
      files_within (min (unat (max_file_size l)) (2 ^ 32)) vfs \<and> snapshot_bytes vfs \<le> min (unat (max_total_bytes l)) (2 ^ 32)) \<and>
    (manifest_at X st f sz (cs @ rest) \<and> unat (cb_max_file_size b) \<le> 2 ^ 32 \<longrightarrow>
      (unat (min (cb_max_file_size b) (cb_remaining b)) < unat sz \<longrightarrow>
         (\<exists>e. \<forall>st'. st' f = st f \<longrightarrow> resolve_file X st' f b = Err e)) \<and>
      (list_all2 (\<lambda>c d. load_object X c KIND_CHUNK st = Ok d) cs ds \<and> unat sz < length (concat ds) \<longrightarrow>
         (\<exists>e. \<forall>st'. (\<forall>i \<in> set (f # cs). st' i = st i) \<longrightarrow> resolve_file X st' f b = Err e)))"
proof (intro conjI impI)
  assume "materialize_commit X root st l = Ok (snap, caps) \<and> sn_vfs snap = Some vfs"
  then obtain es b where t: "tree_to_vfs es (resolve_file X st) (budget_new l) = Ok (vfs, b)"
    by (auto simp: materialize_commit_def res_bind_Inr split: option.splits)
  have m: "unat (min x MAX_CHECKOUT_BYTES) = min (unat x) (2 ^ 32)" for x
    by (auto simp: MAX_CHECKOUT_BYTES_def min_def word_le_nat_alt)
  have "unat (cb_max_file_size (budget_new l)) \<le> 2 ^ 32" by (simp add: budget_new_def m)
  from tree_to_vfs_spends [OF t this] have "files_within (min (unat (max_file_size l)) (2 ^ 32)) vfs"
    "unat (cb_remaining b) + snapshot_bytes vfs = min (unat (max_total_bytes l)) (2 ^ 32)" by (simp_all add: budget_new_def m)
  then show "files_within (min (unat (max_file_size l)) (2 ^ 32)) vfs" "snapshot_bytes vfs \<le> min (unat (max_total_bytes l)) (2 ^ 32)"
    by linarith+
next
  assume mf: "manifest_at X st f sz (cs @ rest) \<and> unat (cb_max_file_size b) \<le> 2 ^ 32"
  note run = resolve_manifest [OF conjunct1 [OF mf], where b = b]
  show "\<exists>e. \<forall>st'. st' f = st f \<longrightarrow> resolve_file X st' f b = Err e"
    if "unat (min (cb_max_file_size b) (cb_remaining b)) < unat sz"
    using spend_file_refuses [OF that] run by (auto simp: res_bind_def)
  show "\<exists>e. \<forall>st'. (\<forall>i \<in> set (f # cs). st' i = st i) \<longrightarrow> resolve_file X st' f b = Err e"
    if big: "list_all2 (\<lambda>c d. load_object X c KIND_CHUNK st = Ok d) cs ds \<and> unat sz < length (concat ds)"
  proof (cases "spend_file sz b")
    case (Inr b')
    then have "unat sz \<le> 2 ^ 32" using spend_file_ok [OF Inr] mf by linarith
    from resolve_chunks_stops [OF conjunct1 [OF big], of "[]" sz f] this big
    show ?thesis using run Inr by (auto simp: res_bind_def)
  qed (use run in \<open>auto simp: res_bind_def\<close>)
qed

section \<open>Ancestry\<close>

text \<open>The state of the loop.\<close>

definition ancestry_inv :: "'s outside \<Rightarrow> store \<Rightarrow> nat \<Rightarrow> object_id list \<Rightarrow> object_id list \<Rightarrow> object_id list \<Rightarrow> bool" where
  "ancestry_inv X st limit seen queue out \<longleftrightarrow>
     distinct out \<and> set out \<subseteq> set seen \<and> length out \<le> limit \<and>
     (\<forall>i \<in> set seen. i \<in> set out \<or> st i = None) \<and>
     (\<forall>i \<in> set out. st i \<noteq> None \<and> (\<exists>c. read_commit X i st = Ok c \<and> (length out < limit \<longrightarrow> set (cm_parents c) \<subseteq> set seen \<union> set queue)))"

lemma ancestry_loop_inv:
  assumes "ancestry_loop X st limit seen queue out = Ok ids" and "ancestry_inv X st limit seen queue out"
  shows "\<exists>seen'. ancestry_inv X st limit seen' [] ids \<and> (length ids < limit \<longrightarrow> set seen \<union> set queue \<subseteq> set seen') \<and> prefix out ids"
  using assms
proof (induction X st limit seen queue out rule: ancestry_loop.induct)
  case (1 X st limit seen out)
  then show ?case by (intro exI [of _ seen]) simp
next
  case (2 X st limit seen i queue out)
  show ?case
  proof (cases "limit \<le> length out \<or> i \<in> set seen")
    case True
    have "ancestry_inv X st limit seen queue out" using 2(5) True unfolding ancestry_inv_def by fastforce
    from 2(1) [OF True _ this] 2(4) True obtain seen' where s:
      "ancestry_inv X st limit seen' [] ids" "length ids < limit \<longrightarrow> set seen \<union> set queue \<subseteq> set seen'" "prefix out ids" by auto
    moreover have "i \<in> set seen" if "length ids < limit" using True that prefix_length_le [OF s(3)] by linarith
    ultimately show ?thesis by (intro exI [of _ seen']) auto
  next
    case new: False
    show ?thesis
    proof (cases "st i = None")
      case True
      have "ancestry_inv X st limit (i # seen) queue out" using 2(5) True unfolding ancestry_inv_def by fastforce
      from 2(2) [OF new True _ this] 2(4) True new show ?thesis by auto
    next
      case False
      then obtain c where c: "read_commit X i st = Ok c" using 2(4) new by (auto split: sum.splits)
      have o: "i \<notin> set out" using 2(5) new unfolding ancestry_inv_def by blast
      have "ancestry_inv X st limit (i # seen) (queue @ cm_parents c) (out @ [i])"
        unfolding ancestry_inv_def
      proof (intro conjI ballI)
        fix j assume j: "j \<in> set (out @ [i])"
        show "st j \<noteq> None" using j False 2(5) unfolding ancestry_inv_def by auto
        show "\<exists>c'. read_commit X j st = Ok c' \<and> (length (out @ [i]) < limit \<longrightarrow>
            set (cm_parents c') \<subseteq> set (i # seen) \<union> set (queue @ cm_parents c))"
        proof (cases "j = i")
          case False
          then obtain c' where "read_commit X j st = Ok c'" "length out < limit \<longrightarrow> set (cm_parents c') \<subseteq> set seen \<union> set (i # queue)"
            using j 2(5) unfolding ancestry_inv_def by auto
          then show ?thesis by (intro exI [of _ c']) auto
        qed (use c in auto)
      qed (use 2(5) new o in \<open>auto simp: ancestry_inv_def\<close>)
      from 2(3) [OF new False c _ this] 2(4) c False new show ?thesis
        by (fastforce simp: prefix_def)
    qed
  qed
qed

lemma ancestry_loop_err: "ancestry_loop X st limit seen queue out = Err e \<Longrightarrow> \<exists>i. st i \<noteq> None \<and> read_commit X i st = Err e"
  by (induction X st limit seen queue out rule: ancestry_loop.induct) (auto split: if_splits sum.splits)

text \<open>
  Property C23: \<open>ancestry\<close> on any store, cyclic and hostile ones included. It always returns; a result names no
  commit twice, is no longer than the limit or a million, starts at the root (it is empty only for a limit of
  zero or an absent root), consists of commits that are present and verify, and, when shorter than the limit, misses no parent the store has. An error means that a
  present object is corrupt: an absent ancestor ends the walk without one.
\<close>

theorem ancestry_on_any_store:
  "case ancestry X root st limit of
     Inl e \<Rightarrow> \<exists>i. st i \<noteq> None \<and> read_commit X i st = Err e
   | Inr ids \<Rightarrow>
       distinct ids \<and> length ids \<le> min limit 1000000 \<and>
       (if limit = 0 \<or> st root = None then ids = [] else ids \<noteq> [] \<and> hd ids = root) \<and>
       (\<forall>i \<in> set ids. \<exists>c. read_commit X i st = Ok c \<and>
          (length ids < min limit 1000000 \<longrightarrow> (\<forall>p \<in> set (cm_parents c). p \<in> set ids \<or> st p = None)))"
proof (cases "ancestry X root st limit")
  case (Inl e)
  then show ?thesis using ancestry_loop_err unfolding ancestry_def by fastforce
next
  case (Inr ids)
  let ?l = "min limit MAX_ANCESTRY"
  have l: "?l = min limit 1000000" by (simp add: MAX_ANCESTRY_def)
  have "ancestry_inv X st ?l [] [root] []" by (simp add: ancestry_inv_def)
  from ancestry_loop_inv [OF Inr [unfolded ancestry_def] this] obtain seen where
    s: "ancestry_inv X st ?l seen [] ids" by blast
  have "if limit = 0 \<or> st root = None then ids = [] else ids \<noteq> [] \<and> hd ids = root"
  proof (cases "?l \<le> 0 \<or> st root = None")
    case True
    then have "ids = []" using Inr unfolding ancestry_def by (auto split: if_splits)
    with True show ?thesis by (auto simp: MAX_ANCESTRY_def min_def split: if_splits)
  next
    case False
    then have nz: "?l \<noteq> 0" "st root \<noteq> None" and pos: "limit \<noteq> 0" by simp_all
    then obtain c where c: "read_commit X root st = Ok c"
      and r: "ancestry_loop X st ?l [root] (cm_parents c) [root] = Ok ids"
      using Inr unfolding ancestry_def by (cases "read_commit X root st") (simp_all only: ancestry_loop.simps
        list.size le_zero_eq nz empty_iff list.set simp_thms if_False sum.case append_Nil sum.distinct)
    have "ancestry_inv X st ?l [root] (cm_parents c) [root]"
      using False c by (auto simp: ancestry_inv_def)
    from ancestry_loop_inv [OF r this] nz(2) pos show ?thesis by (auto simp: prefix_def)
  qed
  then show ?thesis using s Inr unfolding ancestry_inv_def l by fastforce
qed

section \<open>Sealed bytes\<close>

text \<open>
  The seal is exact. With a digest of 32 bytes, \<open>unseal\<close> accepts a byte string exactly when it is
  the sealed form of the body it returns, under the same key or without one; anything shorter than a digest,
  and any other prefix, is refused.
\<close>

theorem seal_is_exact:
  assumes "\<And>bs. length (sha256 X bs) = 32" and "\<And>k bs. length (hmac k bs) = 32"
  shows "unseal X hmac data k = Ok body \<longleftrightarrow> data = seal X hmac body k"
proof -
  have tag: "length (case k of Some k \<Rightarrow> hmac k body | None \<Rightarrow> compute_digest X body) = 32"
    using assms by (simp add: compute_digest_def split: option.split)
  show ?thesis
  proof
    assume "unseal X hmac data k = Ok body"
    then have "body = drop 32 data" "take 32 data = (case k of Some k \<Rightarrow> hmac k body | None \<Rightarrow> compute_digest X body)"
      by (auto simp: unseal_def DIGEST_LEN_def Let_def split: if_splits option.splits)
    then show "data = seal X hmac body k" by (simp add: seal_def) (metis append_take_drop_id)
  next
    assume "data = seal X hmac body k"
    then show "unseal X hmac data k = Ok body"
      using tag by (simp add: unseal_def seal_def DIGEST_LEN_def split: option.split)
  qed
qed

theorem seal_is_exact_witness:
  "unseal (\<lparr>sha256 = \<lambda>_. replicate 32 7, deflate_stream = \<lambda>_. None, inflate_stream = \<lambda>_ _. None,
      scalar_text = \<lambda>_. [], commit_value = \<lambda>_. JNull, parse_commit = \<lambda>_. None, caps_value = \<lambda>_. JNull,
      parse_caps = \<lambda>_. None, shell_value = \<lambda>_. JNull, parse_shell = \<lambda>_. None\<rparr> :: unit outside)
     (\<lambda>k bs. replicate 31 0 @ [hd k]) (replicate 31 0 @ [5, 1, 2, 3]) (Some [5]) = Ok [1, 2, 3]"
  by (subst seal_is_exact) (simp_all add: seal_def)

section \<open>The capability gate\<close>

lemma diff_names_Nil: "diff_names xs ys = [] \<longleftrightarrow> set xs \<subseteq> set ys"
  by (auto simp: diff_names_def filter_empty_conv)

text \<open>
  The gate admits what its policy says. \<open>Strict\<close> admits a snapshot exactly when both environments have
  the same builtins, features and filesystem backend, \<open>Superset\<close> exactly when the live one has at least the
  snapshot's and the same backend, and \<open>Force\<close> always.
\<close>

theorem capability_gate:
  "(policy_check Strict (compare_caps snap live) = Ok () \<longleftrightarrow>
      set (cf_builtins snap) = set (cf_builtins live) \<and> set (cf_features snap) = set (cf_features live) \<and>
      cf_fs_backend snap = cf_fs_backend live) \<and>
   (policy_check Superset (compare_caps snap live) = Ok () \<longleftrightarrow>
      set (cf_builtins snap) \<subseteq> set (cf_builtins live) \<and> set (cf_features snap) \<subseteq> set (cf_features live) \<and>
      cf_fs_backend snap = cf_fs_backend live) \<and>
   policy_check Force (compare_caps snap live) = Ok ()"
  by (auto simp: policy_check_def delta_is_empty_def delta_is_superset_def compare_caps_def diff_names_Nil)

section \<open>All or nothing\<close>

lemma restore_err: "fst (restore t snap fs) = Err e \<Longrightarrow> snd (restore t snap fs) = fs"
  by (auto simp: restore_def split: sum.splits prod.splits if_splits)

lemma restore_inner_err: "restore_snapshot_inner sh t snap b = (Err e, b') \<Longrightarrow> b' = b"
  using restore_err [of t _ "lv_fs b"]
  by (auto simp: restore_snapshot_inner_def split: option.splits sum.splits prod.splits)
    (metis fst_conv live.surjective live.update_convs(2) snd_conv)+

lemma apply_checked_err: "apply_checked q sh t snap caps policy b = (Err e, b') \<Longrightarrow> b' = b"
  using restore_inner_err by (auto simp: apply_checked_def split: sum.splits)

lemma restore_inner_ok:
  assumes "restore_snapshot_inner sh t snap b = (Ok (), b')"
  shows "so_validate sh (sn_shell snap) (lv_interpreter b) = None \<and>
    lv_interpreter b' = so_install sh (sn_shell snap) (so_reset_builtins sh (lv_interpreter b)) \<and>
    session_commands (lv_counters b') = max (session_commands (lv_counters b)) (sn_session_commands snap) \<and>
    session_exec_calls (lv_counters b') = max (session_exec_calls (lv_counters b)) (sn_session_exec_calls snap) \<and>
    (case sn_vfs snap of None \<Rightarrow> lv_fs b' = lv_fs b | Some vfs \<Rightarrow> restore t vfs (lv_fs b) = (Ok (), lv_fs b'))"
  using assms by (auto simp: restore_snapshot_inner_def restore_session_counters_def split: option.splits sum.splits prod.splits)

text \<open>
  Property C15: a restore happens completely or not at all. When restoring sealed bytes fails, for whatever reason
  and at whatever stage, the instance is what it was; when it succeeds, the snapshot passed the interpreter's
  check and, unless it is of the first format, the capability policy, the filesystem accepted the entries, and
  the session counters never went down.
\<close>

theorem restore_is_atomic:
  "case restore_with_policy X hmac parse_first q sh t data k policy b of
     (Inl e, b') \<Rightarrow> b' = b
   | (Inr _, b') \<Rightarrow> \<exists>snap caps.
       decode_sealed X hmac parse_first data k (limits (lv_fs b)) = Ok (snap, caps) \<and>
       so_validate sh (sn_shell snap) (lv_interpreter b) = None \<and>
       lv_interpreter b' = so_install sh (sn_shell snap) (so_reset_builtins sh (lv_interpreter b)) \<and>
       (case caps of None \<Rightarrow> True | Some c \<Rightarrow> policy_check policy (compare_caps c (lv_caps b)) = Ok ()) \<and>
       session_commands (lv_counters b) \<le> session_commands (lv_counters b') \<and>
       session_exec_calls (lv_counters b) \<le> session_exec_calls (lv_counters b') \<and>
       (case sn_vfs snap of None \<Rightarrow> lv_fs b' = lv_fs b | Some vfs \<Rightarrow> restore t vfs (lv_fs b) = (Ok (), lv_fs b'))"
proof (cases "restore_with_policy X hmac parse_first q sh t data k policy b")
  case (Pair r b')
  show ?thesis
  proof (cases "decode_sealed X hmac parse_first data k (limits (lv_fs b))")
    case (Inl e)
    then show ?thesis by (simp add: restore_with_policy_def)
  next
    case (Inr sc)
    obtain snap caps where sc: "sc = (snap, caps)" by (rule prod.exhaust)
    have run: "apply_restore q sh t snap caps policy b = (r, b')"
      using Pair Inr sc by (simp add: restore_with_policy_def)
    show ?thesis
    proof (cases r)
      case (Inl e)
      then have "b' = b"
        using run restore_inner_err apply_checked_err by (auto simp: apply_restore_def split: option.splits)
      then show ?thesis using Pair Inl by simp
    next
      case ok: (Inr u)
      then have "restore_snapshot_inner sh t snap b = (Ok (), b') \<and>
          (case caps of None \<Rightarrow> True | Some c \<Rightarrow> policy_check policy (compare_caps c (lv_caps b)) = Ok ())"
        using run by (auto simp: apply_restore_def apply_checked_def split: option.splits sum.splits)
      then show ?thesis
        using restore_inner_ok [of sh t snap b b'] Pair ok Inr sc by simp
    qed
  qed
qed

end
