(* ===== verification/SnapRestore.thy ===== *)
theory SnapRestore
  imports SnapPlan SnapSafe
begin

text \<open>
  The snapshot subsystem from end to end: what \<open>commit\<close> emits is read back as the same state, whether from a
  store, from a store filled in rounds, or from the sealed bytes of a packed commit.
\<close>

section \<open>Hypotheses about the outside\<close>

text \<open>SHA-256 gives 32 bytes, and no two of the objects in hand have the same digest.\<close>

definition digests_ok :: "'s outside \<Rightarrow> bool" where
  "digests_ok X \<longleftrightarrow> (\<forall>bs. valid_id (sha256 X bs))"

definition collision_free :: "encoded list \<Rightarrow> bool" where
  "collision_free os \<longleftrightarrow> (\<forall>a \<in> set os. \<forall>b \<in> set os. enc_id a = enc_id b \<longrightarrow> a = b)"

text \<open>\<open>serde_json\<close> reads back what was written.\<close>

definition json_reads :: "'s outside \<Rightarrow> 's \<Rightarrow> capability_fingerprint \<Rightarrow> commit_object \<Rightarrow> bool" where
  "json_reads X shell caps c \<longleftrightarrow>
     parse_shell X (write_canonical X (shell_value X shell)) = Some shell \<and>
     parse_caps X (write_canonical X (caps_value X caps)) = Some caps \<and>
     parse_commit X (write_canonical X (commit_value X c)) = Some c"

section \<open>The objects of a tree\<close>

definition entry_of :: "'s outside \<Rightarrow> vfs_entry \<Rightarrow> tree_entry" where
  "entry_of X v =
     \<lparr>te_path = ve_path v, te_mode = ve_mode v,
      te_kind = (case ve_kind v of
        KFile c \<Rightarrow> TFile (enc_id (fst (build_file X c))) | KDirectory \<Rightarrow> TDirectory | KSymlink t \<Rightarrow> TSymlink t | KFifo \<Rightarrow> TFifo)\<rparr>"

definition objects_of :: "'s outside \<Rightarrow> vfs_entry \<Rightarrow> encoded list" where
  "objects_of X v = (case ve_kind v of KFile c \<Rightarrow> fst (build_file X c) # snd (build_file X c) | _ \<Rightarrow> [])"

definition texts_ok :: "vfs_entry \<Rightarrow> bool" where
  "texts_ok v \<longleftrightarrow> list_all scalar (ve_path v) \<and> (case ve_kind v of KSymlink t \<Rightarrow> list_all scalar t | _ \<Rightarrow> True)"

lemma tree_entries_ok_eq:
  "tree_entries X vfs = Ok (es, os) \<longleftrightarrow>
   es = map (entry_of X) vfs \<and> os = concat (map (objects_of X) vfs) \<and> list_all texts_ok vfs"
proof (induction vfs arbitrary: es os)
  case (Cons v vfs)
  show ?case
    by (cases "ve_kind v")
      (auto simp: res_bind_Inr Cons.IH tree_kind_def path_to_string_def entry_of_def objects_of_def texts_ok_def
        split: prod.splits if_splits)
qed auto

definition sort_vfs :: "vfs_snapshot \<Rightarrow> vfs_snapshot" where
  "sort_vfs vfs = sort_key (\<lambda>v. as_bytes (ve_path v)) vfs"

lemma sort_entries_of: "sort_entries (map (entry_of X) vfs) = map (entry_of X) (sort_vfs vfs)"
  by (simp add: sort_entries_def sort_vfs_def sort_key_map comp_def entry_of_def)

section \<open>Storing and loading\<close>

lemma encoded_new_simps [simp]:
  "enc_kind (encoded_new X k p) = k" "enc_payload (encoded_new X k p) = p" "enc_id (encoded_new X k p) = object_id_of X k p"
  by (simp_all add: encoded_new_def)

text \<open>An object whose id is the digest of what it holds.\<close>

definition honest :: "'s outside \<Rightarrow> encoded \<Rightarrow> bool" where
  "honest X e \<longleftrightarrow> e = encoded_new X (enc_kind e) (enc_payload e) \<and> length (enc_payload e) < 268435456"

text \<open>The first object with an id is the one stored, unless the host has it.\<close>

lemma store_objects_lookup:
  "bt_sorted m \<Longrightarrow> bt_sorted (foldl (\<lambda>m object.
        if enc_id object \<noteq> i \<and> enc_id object \<in> set have then m
        else if contains_key m (enc_id object) then m
        else bt_insert (enc_id object) (blob object) m) m os) \<and>
   map_of (foldl (\<lambda>m object.
        if enc_id object \<noteq> i \<and> enc_id object \<in> set have then m
        else if contains_key m (enc_id object) then m
        else bt_insert (enc_id object) (blob object) m) m os) j =
   (case map_of m j of
      Some x \<Rightarrow> Some x
    | None \<Rightarrow> map_option blob (find (\<lambda>e. enc_id e = j \<and> (j = i \<or> j \<notin> set have)) os))"
proof (induction os arbitrary: m)
  case Nil
  then show ?case by (simp split: option.split)
next
  case (Cons o1 os)
  let ?m = "if enc_id o1 \<noteq> i \<and> enc_id o1 \<in> set have then m
        else if contains_key m (enc_id o1) then m else bt_insert (enc_id o1) (blob o1) m"
  have "bt_sorted ?m" using Cons.prems by (simp add: bt_sorted_insert)
  from Cons.IH [OF this] Cons.prems show ?case by (auto simp: contains_key_def split: option.split)
qed

lemma store_sorted: "bt_sorted (store_objects X i have os)"
  unfolding store_objects_def
  by (rule store_objects_lookup [of "[]" i "have" "\<lambda>e. storage_blob_from_parts X (enc_kind e) (enc_payload e)", THEN conjunct1])
    (simp add: bt_sorted_def)

lemma find_collision_free:
  "collision_free os \<Longrightarrow> e \<in> set os \<Longrightarrow> find (\<lambda>e'. enc_id e' = enc_id e \<and> P) os = (if P then Some e else None)"
proof (induction os)
  case (Cons o1 os)
  have c: "collision_free os" using Cons.prems(1) by (simp add: collision_free_def)
  show ?case
  proof (cases "enc_id o1 = enc_id e")
    case True
    then have "o1 = e" using Cons.prems unfolding collision_free_def by (metis list.set_intros(1))
    moreover have "find (\<lambda>e'. False) os = None" by (simp add: find_None_iff)
    ultimately show ?thesis by simp
  next
    case False
    then show ?thesis using Cons.IH [OF c] Cons.prems(2) by auto
  qed
qed simp

lemma store_lookup:
  assumes "collision_free os" and "e \<in> set os"
  shows "map_of (store_objects X i have os) (enc_id e) =
    (if enc_id e = i \<or> enc_id e \<notin> set have then Some (storage_blob_from_parts X (enc_kind e) (enc_payload e)) else None)"
  unfolding store_objects_def
  using store_objects_lookup [of "[]" i "have" "\<lambda>e. storage_blob_from_parts X (enc_kind e) (enc_payload e)" os "enc_id e"]
    find_collision_free [OF assms, of "enc_id e = i \<or> enc_id e \<notin> set have"]
  by (simp add: bt_sorted_def)

text \<open>A store that holds the given objects in their storage form.\<close>

definition holds :: "'s outside \<Rightarrow> store \<Rightarrow> encoded \<Rightarrow> bool" where
  "holds X st e \<longleftrightarrow> st (enc_id e) = Some (storage_blob_from_parts X (enc_kind e) (enc_payload e))"

lemma load_held:
  assumes "flate_ok X" and "honest X e" and "holds X st e"
  shows "load_object X (enc_id e) (enc_kind e) st = Ok (enc_payload e)"
proof -
  have id: "enc_id e = object_id_of X (enc_kind e) (enc_payload e)"
    using assms(2) encoded_new_simps(3) unfolding honest_def by metis
  have "from_storage_blob X (storage_blob_from_parts X (enc_kind e) (enc_payload e)) = Ok (enc_kind e # enc_payload e)"
    using assms(1,2) blob_round_trip unfolding honest_def by blast
  with assms(3) id show ?thesis
    by (simp add: load_object_def holds_def from_storage_def expect_kind_def)
qed

section \<open>Files\<close>

definition stored :: "'s outside \<Rightarrow> store \<Rightarrow> encoded list \<Rightarrow> bool" where
  "stored X st os \<longleftrightarrow> (\<forall>e \<in> set os. honest X e \<and> holds X st e)"

lemma stored_append [simp]: "stored X st (os @ os') \<longleftrightarrow> stored X st os \<and> stored X st os'"
  by (auto simp: stored_def)

lemma stored_simps [simp]: "stored X st []" "stored X st (e # os) \<longleftrightarrow> honest X e \<and> holds X st e \<and> stored X st os"
  by (simp_all add: stored_def)

lemma load_stored: "flate_ok X \<Longrightarrow> stored X st os \<Longrightarrow> encoded_new X k p \<in> set os \<Longrightarrow>
    load_object X (object_id_of X k p) k st = Ok p"
  using load_held [of X "encoded_new X k p" st] by (auto simp: stored_def)

text \<open>The chunks of a file reassemble to it.\<close>

lemma resolve_chunks_stored:
  assumes "flate_ok X" and "stored X st (map (encoded_new X KIND_CHUNK) ps)"
    and "list_all (\<lambda>c. length c \<le> MAX_CHUNK) ps" and "length out + length (concat ps) = unat sz" and "unat sz \<le> 2 ^ 32"
  shows "resolve_chunks X st f sz (map (object_id_of X KIND_CHUNK) ps) out = Ok (out @ concat ps)"
  using assms(2-4)
proof (induction ps arbitrary: out)
  case Nil
  then have "(of_nat (length out) :: u64) = sz" by simp
  then show ?case by simp
next
  case (Cons p ps)
  have "load_object X (object_id_of X KIND_CHUNK p) KIND_CHUNK st = Ok p"
    using load_stored [OF assms(1) Cons.prems(1)] by simp
  moreover have "unat (of_nat (length out) + of_nat (length p) :: u64) = length out + length p"
    using Cons.prems(3) assms(5) by (simp flip: of_nat_add add: unat_of_nat)
  then have "\<not> sz < of_nat (length out) + of_nat (length p)" using Cons.prems(3) by (simp add: word_less_nat_alt)
  moreover have "resolve_chunks X st f sz (map (object_id_of X KIND_CHUNK) ps) (out @ p) = Ok ((out @ p) @ concat ps)"
    using Cons.prems by (intro Cons.IH) simp_all
  ultimately show ?case using Cons.prems(2) by simp
qed

lemma length_concat_ge: "list_all (\<lambda>c. n < length c) cs \<Longrightarrow> length cs * n \<le> length (concat cs)"
  by (induction cs) auto

lemma chunk_count: "length content \<le> 2 ^ 32 \<Longrightarrow> length (chunk content) \<le> 10000000"
proof -
  assume l: "length content \<le> 2 ^ 32"
  have "list_all (\<lambda>c. MIN_CHUNK < length c) (butlast (chunk content))" using chunk_bounds by blast
  then have "length (butlast (chunk content)) * MIN_CHUNK \<le> length (concat (butlast (chunk content)))"
    by (rule length_concat_ge)
  also have "\<dots> \<le> length (concat (chunk content))"
    by (cases "chunk content" rule: rev_cases) simp_all
  also have "\<dots> = length content" by (simp add: concat_chunk)
  finally show ?thesis using l by (simp add: MIN_CHUNK_def)
qed

lemma addressable_small: "length bs < 268435456 \<Longrightarrow> addressable bs"
  by (simp add: addressable_def)

lemma resolve_stored:
  assumes X: "flate_ok X" "digests_ok X" and st: "stored X st (fst (build_file X c) # snd (build_file X c))"
    and l: "length c \<le> unat (cb_max_file_size b)" "length c \<le> unat (cb_remaining b)" "length c \<le> 2 ^ 32"
  shows "resolve_file X st (enc_id (fst (build_file X c))) b = Ok (c, b\<lparr>cb_remaining := cb_remaining b - of_nat (length c)\<rparr>)"
proof -
  have u: "unat (of_nat (length c) :: u64) = length c" using l(3) by (simp add: unat_of_nat)
  then have spend: "spend_file (of_nat (length c)) b = Ok (b\<lparr>cb_remaining := cb_remaining b - of_nat (length c)\<rparr>)"
    using l by (simp add: spend_file_def checked_sub_def word_less_nat_alt)
  show ?thesis
  proof (cases "length c \<le> INLINE_MAX")
    case True
    then have f: "fst (build_file X c) = encoded_new X KIND_FILE (file_bytes (Inline c))"
      by (simp add: build_file_def encode_file_def)
    have a: "addressable (file_bytes (Inline c))" "addressable c"
      using st l(3) unfolding f by (auto simp: honest_def addressable_def)
    have "load_object X (object_id_of X KIND_FILE (file_bytes (Inline c))) KIND_FILE st = Ok (file_bytes (Inline c))"
      using load_stored [OF X(1) st] f by simp
    then show ?thesis using decode_file_bytes [of "Inline c"] a spend by (simp add: f resolve_file_def)
  next
    case False
    let ?ids = "map (object_id_of X KIND_CHUNK) (chunk c)"
    let ?m = "file_bytes (Chunked (of_nat (length c)) ?ids)"
    have f: "fst (build_file X c) = encoded_new X KIND_FILE ?m"
      and cs: "snd (build_file X c) = map (encoded_new X KIND_CHUNK) (chunk c)"
      using False by (simp_all add: build_file_def encode_file_def Let_def comp_def)
    have a: "addressable ?m" using st unfolding f by (auto simp: honest_def addressable_def)
    have ok: "file_ok (Chunked (of_nat (length c)) ?ids)"
      using chunk_count [OF l(3)] X(2) by (simp add: list_all_iff digests_ok_def object_id_of_def)
    have "load_object X (object_id_of X KIND_FILE ?m) KIND_FILE st = Ok ?m"
      using load_stored [OF X(1) st] f by simp
    moreover have "resolve_chunks X st (object_id_of X KIND_FILE ?m) (of_nat (length c)) ?ids [] = Ok ([] @ concat (chunk c))"
    proof (rule resolve_chunks_stored [OF X(1)])
      show "stored X st (map (encoded_new X KIND_CHUNK) (chunk c))" using st cs by simp
      show "list_all (\<lambda>c. length c \<le> MAX_CHUNK) (chunk c)"
        using chunk_bounds [of c] by (simp add: list_all_iff)
    qed (use u l(3) in \<open>simp_all add: concat_chunk\<close>)
    ultimately show ?thesis
      using decode_file_bytes [OF ok a] spend by (simp add: f resolve_file_def concat_chunk)
  qed
qed

lemma snapshot_bytes_Cons: "snapshot_bytes (v # vs) = (case ve_kind v of KFile c \<Rightarrow> length c | _ \<Rightarrow> 0) + snapshot_bytes vs"
  by (simp add: snapshot_bytes_def)

lemma entry_of_sel:
  "te_path (entry_of X v) = ve_path v" "te_mode (entry_of X v) = ve_mode v"
  "te_kind (entry_of X v) = (case ve_kind v of
        KFile c \<Rightarrow> TFile (enc_id (fst (build_file X c))) | KDirectory \<Rightarrow> TDirectory | KSymlink t \<Rightarrow> TSymlink t | KFifo \<Rightarrow> TFifo)"
  by (simp_all add: entry_of_def)

lemma vfs_entry_parts: "ve_kind v = k \<Longrightarrow> \<lparr>ve_path = ve_path v, ve_kind = k, ve_mode = ve_mode v\<rparr> = v"
  by (cases v) simp

lemma tree_to_vfs_stored:
  assumes X: "flate_ok X" "digests_ok X"
  shows "\<forall>v \<in> set vs. stored X st (objects_of X v) \<Longrightarrow> files_within (min (unat (cb_max_file_size b)) (2 ^ 32)) vs \<Longrightarrow>
    snapshot_bytes vs \<le> unat (cb_remaining b) \<Longrightarrow>
    \<exists>b'. tree_to_vfs (map (entry_of X) vs) (resolve_file X st) b = Ok (vs, b')"
proof (induction vs arbitrary: b)
  case (Cons v vs)
  have fs: "files_within (min (unat (cb_max_file_size b)) (2 ^ 32)) vs" using Cons.prems(2) by (simp add: files_within_def)
  show ?case
  proof (cases "ve_kind v")
    case (KFile c)
    have l: "length c \<le> unat (cb_max_file_size b)" "length c \<le> 2 ^ 32" "length c \<le> unat (cb_remaining b)"
      using Cons.prems(2,3) KFile by (simp_all add: files_within_def snapshot_bytes_Cons)
    let ?b = "b\<lparr>cb_remaining := cb_remaining b - of_nat (length c)\<rparr>"
    have r: "resolve_file X st (enc_id (fst (build_file X c))) b = Ok (c, ?b)"
      using Cons.prems(1) KFile l by (intro resolve_stored [OF X]) (simp_all add: objects_of_def)
    have "unat (cb_remaining ?b) = unat (cb_remaining b) - length c"
      using l by (simp add: unat_sub word_le_nat_alt unat_of_nat)
    then have "snapshot_bytes vs \<le> unat (cb_remaining ?b)"
      using Cons.prems(3) KFile by (simp add: snapshot_bytes_Cons)
    from Cons.IH [of ?b] Cons.prems(1) fs this obtain b' where
      "tree_to_vfs (map (entry_of X) vs) (resolve_file X st) ?b = Ok (vs, b')" by auto
    with r show ?thesis by (simp add: entry_of_sel KFile vfs_entry_parts)
  qed (use Cons.IH [of b] Cons.prems fs in \<open>auto simp: entry_of_sel vfs_entry_parts snapshot_bytes_Cons\<close>)
qed simp

section \<open>Trees\<close>

lemma set_sort_vfs [simp]: "set (sort_vfs vfs) = set vfs" "length (sort_vfs vfs) = length vfs"
  by (simp_all add: sort_vfs_def)

lemma mset_sort_vfs: "mset (sort_vfs vfs) = mset vfs"
  by (simp add: sort_vfs_def)

lemma snapshot_bytes_sort [simp]: "snapshot_bytes (sort_vfs vfs) = snapshot_bytes vfs"
proof -
  have "mset (map f (sort_vfs vfs)) = mset (map f vfs)" for f :: "vfs_entry \<Rightarrow> nat" by (simp add: mset_sort_vfs)
  then show ?thesis unfolding snapshot_bytes_def by (metis sum_mset_sum_list)
qed

lemma files_within_sort [simp]: "files_within n (sort_vfs vfs) = files_within n vfs"
  by (simp add: files_within_def list_all_iff)

lemma build_tree_ok:
  "build_tree X vfs = Ok (tree, os) \<longleftrightarrow>
   tree = encode_tree X (map (entry_of X) (sort_vfs vfs)) \<and> os = concat (map (objects_of X) vfs) \<and> list_all texts_ok vfs"
  by (auto simp: build_tree_def res_bind_Inr tree_entries_ok_eq sort_entries_of)

lemma entry_bytes_length: "e \<in> set es \<Longrightarrow> length (entry_bytes e) \<le> length (tree_bytes es)"
  by (induction es) (auto simp: tree_bytes_def put_u32_def)

lemma put_bytes_length [simp]: "length (put_bytes w) = 8 + length w"
  by (simp add: put_bytes_def put_u64_def)

lemma tree_ok_of:
  assumes "digests_ok X" and "list_all texts_ok vs" and "length vs \<le> 10000000" and "length (tree_bytes (map (entry_of X) vs)) < 268435456"
  shows "tree_entries_ok (map (entry_of X) vs)"
proof -
  have "entry_ok (entry_of X v)" if v: "v \<in> set vs" for v
  proof -
    have l: "length (entry_bytes (entry_of X v)) < 268435456"
      using entry_bytes_length [of "entry_of X v" "map (entry_of X) vs"] v assms(4) by simp
    have t: "texts_ok v" using assms(2) v by (simp add: list_all_iff)
    have p: "storable (ve_path v)"
      using l t by (simp add: storable_def texts_ok_def addressable_def entry_bytes_def entry_of_sel)
    have "kind_ok (te_kind (entry_of X v))"
    proof (cases "ve_kind v")
      case (KFile c)
      then show ?thesis
        using assms(1) by (simp add: entry_of_sel build_file_def encode_file_def digests_ok_def object_id_of_def Let_def)
    next
      case (KSymlink w)
      then show ?thesis
        using l t by (simp add: entry_of_sel storable_def texts_ok_def addressable_def entry_bytes_def kind_bytes_def)
    qed (simp_all add: entry_of_sel)
    with p show ?thesis by (simp add: entry_ok_def entry_of_sel)
  qed
  then show ?thesis using assms(3) by (simp add: tree_entries_ok_def list_all_iff)
qed

section \<open>Commits\<close>

text \<open>The snapshot that a commit of an instance describes.\<close>

definition committed_vfs :: "commit_options \<Rightarrow> 's instance_state \<Rightarrow> vfs_snapshot option" where
  "committed_vfs opts b = (if co_exclude_filesystem opts then None else is_vfs b)"

definition committed_state :: "commit_options \<Rightarrow> 's instance_state \<Rightarrow> 's snapshot_state" where
  "committed_state opts b =
     \<lparr>sn_version = SNAPSHOT_VERSION, sn_shell = is_shell b (\<not> co_exclude_functions opts),
      sn_vfs = map_option sort_vfs (committed_vfs opts b),
      sn_session_commands = session_commands (is_counters b), sn_session_exec_calls = session_exec_calls (is_counters b)\<rparr>"

text \<open>A filesystem that fits the limits of the instance it is restored into, and the encoding's own.\<close>

definition fits_limits :: "fs_limits \<Rightarrow> vfs_snapshot option \<Rightarrow> bool" where
  "fits_limits l vfs \<longleftrightarrow> (case vfs of None \<Rightarrow> True | Some v \<Rightarrow>
     length v \<le> 10000000 \<and> files_within (min (unat (max_file_size l)) (2 ^ 32)) v \<and>
     snapshot_bytes v \<le> min (unat (max_total_bytes l)) (2 ^ 32))"

lemma commit_parts_ok:
  assumes "commit_parts X opts b = Ok (c, os)"
  shows "encoded_new X KIND_SHELL (write_canonical X (shell_value X (is_shell b (\<not> co_exclude_functions opts)))) \<in> set os"
    "encoded_new X KIND_CAPS (write_canonical X (caps_value X (is_caps b))) \<in> set os"
    "cm_shell c = object_id_of X KIND_SHELL (write_canonical X (shell_value X (is_shell b (\<not> co_exclude_functions opts))))"
    "cm_caps c = object_id_of X KIND_CAPS (write_canonical X (caps_value X (is_caps b)))"
    "cm_session_commands c = session_commands (is_counters b)" "cm_session_exec_calls c = session_exec_calls (is_counters b)"
    "case committed_vfs opts b of None \<Rightarrow> cm_tree c = None
     | Some vfs \<Rightarrow> cm_tree c = Some (enc_id (encode_tree X (map (entry_of X) (sort_vfs vfs)))) \<and> list_all texts_ok vfs \<and>
         encode_tree X (map (entry_of X) (sort_vfs vfs)) \<in> set os \<and> (\<forall>v \<in> set vfs. set (objects_of X v) \<subseteq> set os)"
  using assms
  by (cases "co_exclude_filesystem opts"; cases "is_vfs b";
      auto simp: commit_parts_def commit_tree_def committed_vfs_def Let_def res_bind_Inr build_tree_ok)+

lemma stored_subset: "stored X st os \<Longrightarrow> set os' \<subseteq> set os \<Longrightarrow> stored X st os'"
  by (auto simp: stored_def)

lemma load_tree_stored:
  assumes X: "flate_ok X" "digests_ok X" and st: "stored X st os" "encode_tree X (map (entry_of X) vs) \<in> set os"
    and vs: "list_all texts_ok vs" "length vs \<le> 10000000"
  shows "load_object X (enc_id (encode_tree X (map (entry_of X) vs))) KIND_TREE st = Ok (tree_bytes (map (entry_of X) vs)) \<and>
    decode_tree (tree_bytes (map (entry_of X) vs)) = Ok (map (entry_of X) vs)"
proof -
  have l: "length (tree_bytes (map (entry_of X) vs)) < 268435456"
    using st by (auto simp: stored_def honest_def encode_tree_def)
  have "load_object X (object_id_of X KIND_TREE (tree_bytes (map (entry_of X) vs))) KIND_TREE st = Ok (tree_bytes (map (entry_of X) vs))"
    using load_stored [OF X(1) st(1)] st(2) by (simp add: encode_tree_def)
  then show ?thesis
    using decode_tree_bytes [OF tree_ok_of [OF X(2) vs l] addressable_small [OF l]] by (simp add: encode_tree_def)
qed

text \<open>Rebuilding a commit whose objects are all in the store.\<close>

lemma materialize_stored:
  assumes X: "flate_ok X" "digests_ok X"
    and c: "commit_parts X opts b = Ok (c, os)" "encode_commit X c = Ok root"
    and st: "stored X st (os @ [root])"
    and json: "json_reads X (is_shell b (\<not> co_exclude_functions opts)) (is_caps b) c"
    and fits: "fits_limits l (committed_vfs opts b)"
  shows "materialize_commit X (enc_id root) st l = Ok (committed_state opts b, is_caps b)"
proof -
  note p = commit_parts_ok [OF c(1)]
  have st': "stored X st os" using st by simp
  have root: "root = encoded_new X KIND_COMMIT (write_canonical X (commit_value X c))" "length (cm_parents c) \<le> MAX_PARENTS"
    using c(2) by (auto simp: encode_commit_def split: if_splits)
  have "load_object X (enc_id root) KIND_COMMIT st = Ok (write_canonical X (commit_value X c))"
    using load_stored [OF X(1) st] root(1) by simp
  then have rc: "read_commit X (enc_id root) st = Ok c"
    using json root(2) by (simp add: read_commit_def decode_commit_def json_reads_def)
  have caps: "load_object X (cm_caps c) KIND_CAPS st = Ok (write_canonical X (caps_value X (is_caps b)))"
    unfolding p(4) by (rule load_stored [OF X(1) st' p(2)])
  have shell: "load_object X (cm_shell c) KIND_SHELL st =
      Ok (write_canonical X (shell_value X (is_shell b (\<not> co_exclude_functions opts))))"
    unfolding p(3) by (rule load_stored [OF X(1) st' p(1)])
  show ?thesis
  proof (cases "committed_vfs opts b")
    case None
    then show ?thesis using rc caps shell json p(5-7)
      by (simp add: materialize_commit_def json_reads_def json_result_def committed_state_def)
  next
    case (Some vfs)
    let ?vs = "sort_vfs vfs" and ?b = "budget_new l"
    have t: "cm_tree c = Some (enc_id (encode_tree X (map (entry_of X) ?vs)))" "list_all texts_ok vfs"
      "encode_tree X (map (entry_of X) ?vs) \<in> set os" "\<forall>v \<in> set vfs. set (objects_of X v) \<subseteq> set os"
      using p(7) Some by auto
    have tree: "load_object X (enc_id (encode_tree X (map (entry_of X) ?vs))) KIND_TREE st = Ok (tree_bytes (map (entry_of X) ?vs))"
      "decode_tree (tree_bytes (map (entry_of X) ?vs)) = Ok (map (entry_of X) ?vs)"
      using load_tree_stored [OF X st' t(3)] t(2) fits Some by (simp_all add: list_all_iff fits_limits_def)
    have m: "unat (min x MAX_CHECKOUT_BYTES) = min (unat x) (2 ^ 32)" for x
      by (auto simp: MAX_CHECKOUT_BYTES_def min_def word_le_nat_alt)
    have "\<exists>b'. tree_to_vfs (map (entry_of X) ?vs) (resolve_file X st) ?b = Ok (?vs, b')"
    proof (rule tree_to_vfs_stored [OF X])
      show "\<forall>v \<in> set ?vs. stored X st (objects_of X v)" using t(4) stored_subset [OF st'] by simp
    qed (use fits Some in \<open>simp_all add: fits_limits_def budget_new_def m\<close>)
    then show ?thesis using rc caps shell json p(5,6) t(1) tree Some
      by (auto simp: materialize_commit_def json_reads_def json_result_def committed_state_def)
  qed
qed

section \<open>A commit's objects are all it needs\<close>

lemma visit_stored:
  "flate_ok X \<Longrightarrow> stored X st os \<Longrightarrow> encoded_new X k p \<in> set os \<Longrightarrow> object_refs X k p = Ok refs \<Longrightarrow>
   visit X st (object_id_of X k p, k) = Ok (Some refs)"
  using load_stored [of X st os k p] by (auto simp: visit_load)

text \<open>What a file's manifest refers to.\<close>

lemma manifest_refs:
  assumes "digests_ok X" and "length c \<le> 2 ^ 32" and "honest X (fst (build_file X c))"
  shows "\<exists>p. fst (build_file X c) = encoded_new X KIND_FILE p \<and>
    object_refs X KIND_FILE p = Ok (map (\<lambda>e. (enc_id e, KIND_CHUNK)) (snd (build_file X c)))"
proof (cases "length c \<le> INLINE_MAX")
  case True
  have a: "addressable (file_bytes (Inline c))" "addressable c"
    using assms(2,3) True by (auto simp: build_file_def encode_file_def honest_def addressable_def)
  then have "decode_file (file_bytes (Inline c)) = Ok (Inline c)" by (intro decode_file_bytes) simp_all
  then show ?thesis
    using True by (intro exI [of _ "file_bytes (Inline c)"]) (simp add: build_file_def encode_file_def object_refs_def kind_defs)
next
  case False
  let ?ids = "map (object_id_of X KIND_CHUNK) (chunk c)"
  have ok: "file_ok (Chunked (of_nat (length c)) ?ids)"
    using chunk_count [OF assms(2)] assms(1) by (simp add: list_all_iff digests_ok_def object_id_of_def)
  have "addressable (file_bytes (Chunked (of_nat (length c)) ?ids))"
    using assms(3) False by (auto simp: build_file_def encode_file_def honest_def addressable_def Let_def comp_def)
  then have "decode_file (file_bytes (Chunked (of_nat (length c)) ?ids)) = Ok (Chunked (of_nat (length c)) ?ids)"
    by (rule decode_file_bytes [OF ok])
  then show ?thesis
    using False by (intro exI [of _ "file_bytes (Chunked (of_nat (length c)) ?ids)"])
      (simp add: build_file_def encode_file_def object_refs_def kind_defs Let_def comp_def)
qed

definition commit_pairs :: "'s outside \<Rightarrow> encoded \<Rightarrow> commit_object \<Rightarrow> vfs_snapshot option \<Rightarrow> (object_id \<times> u8) set" where
  "commit_pairs X root c vfs =
     {(enc_id root, KIND_COMMIT), (cm_shell c, KIND_SHELL), (cm_caps c, KIND_CAPS)} \<union>
     (case vfs of None \<Rightarrow> {} | Some v \<Rightarrow>
        {(enc_id (encode_tree X (map (entry_of X) (sort_vfs v))), KIND_TREE)} \<union>
        {(enc_id (fst (build_file X content)), KIND_FILE) | e content. e \<in> set v \<and> ve_kind e = KFile content} \<union>
        {(enc_id o1, KIND_CHUNK) | o1 e content. e \<in> set v \<and> ve_kind e = KFile content \<and> o1 \<in> set (snd (build_file X content))})"

lemma leaf_refs: "k \<in> {KIND_SHELL, KIND_CAPS, KIND_CHUNK} \<Longrightarrow> object_refs X k p = Ok []"
  by (auto simp: object_refs_def kind_defs)

lemma build_file_chunks: "e \<in> set (snd (build_file X c)) \<Longrightarrow> \<exists>p. e = encoded_new X KIND_CHUNK p"
  by (auto simp: build_file_def Let_def split: if_splits)

lemma commit_pairs_visit:
  assumes X: "flate_ok X" "digests_ok X"
    and c: "commit_parts X opts b = Ok (c, os)" "encode_commit X c = Ok root"
    and st: "stored X st (os @ [root])"
    and json: "json_reads X (is_shell b (\<not> co_exclude_functions opts)) (is_caps b) c"
    and fits: "fits_limits l (committed_vfs opts b)"
    and p: "p \<in> commit_pairs X root c (committed_vfs opts b)"
  shows "\<exists>refs. visit X st p = Ok (Some refs) \<and> set refs \<subseteq> commit_pairs X root c (committed_vfs opts b)"
proof -
  note parts = commit_parts_ok [OF c(1)]
  have st': "stored X st os" using st by simp
  have leaf: "visit X st (object_id_of X k q, k) = Ok (Some [])"
    if "encoded_new X k q \<in> set os" "k \<in> {KIND_SHELL, KIND_CAPS, KIND_CHUNK}" for k q
    using visit_stored [OF X(1) st' that(1) leaf_refs [OF that(2)]] .
  consider (r) "p = (enc_id root, KIND_COMMIT)" | (s) "p = (cm_shell c, KIND_SHELL)" | (k) "p = (cm_caps c, KIND_CAPS)"
    | (t) v where "committed_vfs opts b = Some v" "p = (enc_id (encode_tree X (map (entry_of X) (sort_vfs v))), KIND_TREE)"
    | (f) v e content where "committed_vfs opts b = Some v" "e \<in> set v" "ve_kind e = KFile content" "p = (enc_id (fst (build_file X content)), KIND_FILE)"
    | (ch) v e content o1 where "committed_vfs opts b = Some v" "e \<in> set v" "ve_kind e = KFile content" "o1 \<in> set (snd (build_file X content))" "p = (enc_id o1, KIND_CHUNK)"
  proof (cases "committed_vfs opts b")
    case None
    then show thesis using p that(1-3) by (auto simp: commit_pairs_def)
  next
    case (Some v)
    show thesis using p that(1-3) that(4) [OF Some] that(5) [OF Some] that(6) [OF Some]
      unfolding commit_pairs_def Some option.case by blast
  qed
  then show ?thesis
  proof cases
    case r
    have root: "root = encoded_new X KIND_COMMIT (write_canonical X (commit_value X c))" "length (cm_parents c) \<le> MAX_PARENTS"
      using c(2) by (auto simp: encode_commit_def split: if_splits)
    then have d: "decode_commit X (write_canonical X (commit_value X c)) = Ok c"
      using json by (simp add: decode_commit_def json_reads_def)
    have "visit X st (object_id_of X KIND_COMMIT (write_canonical X (commit_value X c)), KIND_COMMIT) =
        Ok (Some ([(cm_shell c, KIND_SHELL), (cm_caps c, KIND_CAPS)] @ (case cm_tree c of None \<Rightarrow> [] | Some t \<Rightarrow> [(t, KIND_TREE)])))"
      using root(1) d by (intro visit_stored [OF X(1) st]) (simp_all add: object_refs_def)
    moreover have "set (case cm_tree c of None \<Rightarrow> [] | Some t \<Rightarrow> [(t, KIND_TREE)]) \<subseteq> commit_pairs X root c (committed_vfs opts b)"
      using parts(7) by (auto simp: commit_pairs_def split: option.splits)
    ultimately show ?thesis using r root(1) by (auto simp: commit_pairs_def)
  next
    case s
    then show ?thesis using leaf [OF parts(1)] parts(3) by simp
  next
    case k
    then show ?thesis using leaf [OF parts(2)] parts(4) by simp
  next
    case (t v)
    let ?es = "map (entry_of X) (sort_vfs v)"
    have tv: "list_all texts_ok v" "encode_tree X ?es \<in> set os" using parts(7) t(1) by simp_all
    then have d: "decode_tree (tree_bytes ?es) = Ok ?es"
      using load_tree_stored [OF X st' tv(2)] fits t(1) by (simp add: list_all_iff fits_limits_def)
    let ?refs = "concat (map (\<lambda>e. case te_kind e of TFile f \<Rightarrow> [(f, KIND_FILE)] | _ \<Rightarrow> []) ?es)"
    have "visit X st (object_id_of X KIND_TREE (tree_bytes ?es), KIND_TREE) = Ok (Some ?refs)"
      using tv(2) d by (intro visit_stored [OF X(1) st']) (simp_all add: object_refs_def kind_defs encode_tree_def)
    moreover have "set ?refs \<subseteq> commit_pairs X root c (committed_vfs opts b)"
      using t(1) by (auto simp: commit_pairs_def entry_of_sel split: vfs_entry_kind.splits)
    ultimately show ?thesis using t(2) by (auto simp: encode_tree_def)
  next
    case (f v e content)
    have l: "length content \<le> 2 ^ 32" using fits f(1-3) by (auto simp: fits_limits_def files_within_def list_all_iff)
    have "set (objects_of X e) \<subseteq> set os" using parts(7) f(1,2) by simp
    then have man: "fst (build_file X content) \<in> set os" using f(3) by (simp add: objects_of_def)
    then have "honest X (fst (build_file X content))" using st' by (simp add: stored_def)
    from manifest_refs [OF X(2) l this] obtain q where
      q: "fst (build_file X content) = encoded_new X KIND_FILE q"
        "object_refs X KIND_FILE q = Ok (map (\<lambda>e. (enc_id e, KIND_CHUNK)) (snd (build_file X content)))" by blast
    have "visit X st p = Ok (Some (map (\<lambda>e. (enc_id e, KIND_CHUNK)) (snd (build_file X content))))"
      using visit_stored [OF X(1) st' _ q(2)] man q(1) f(4) by simp
    moreover have "set (map (\<lambda>e. (enc_id e, KIND_CHUNK)) (snd (build_file X content))) \<subseteq> commit_pairs X root c (committed_vfs opts b)"
      using f(1-3) unfolding commit_pairs_def by auto
    ultimately show ?thesis by blast
  next
    case (ch v e content o1)
    obtain q where q: "o1 = encoded_new X KIND_CHUNK q" using build_file_chunks [OF ch(4)] by blast
    have "set (objects_of X e) \<subseteq> set os" using parts(7) ch(1,2) by simp
    then have "o1 \<in> set os" using ch(3,4) by (auto simp: objects_of_def)
    then show ?thesis using leaf [of KIND_CHUNK q] q ch(5) by simp
  qed
qed

lemma restorable_stored:
  assumes X: "flate_ok X" "digests_ok X"
    and c: "commit_parts X opts b = Ok (c, os)" "encode_commit X c = Ok root"
    and st: "stored X st (os @ [root])"
    and json: "json_reads X (is_shell b (\<not> co_exclude_functions opts)) (is_caps b) c"
    and fits: "fits_limits l (committed_vfs opts b)"
  shows "restorable X st (enc_id root)"
proof -
  note v = commit_pairs_visit [OF X c st json fits]
  have "p \<in> commit_pairs X root c (committed_vfs opts b)" if "needed X st (enc_id root) n p" for n p
    using that
  proof (induction rule: needed.induct)
    case (needed_ref n p refs r)
    then show ?case using v [of p] by auto
  qed (simp add: commit_pairs_def)
  then show ?thesis unfolding restorable_def using v by blast
qed

section \<open>From end to end\<close>

text \<open>
  Everything the theorems below ask for. The store holds the objects of the commit, whichever commit put them
  there; a full commit's own objects are such a store.
\<close>

definition commit_ok :: "'s outside \<Rightarrow> commit_options \<Rightarrow> 's instance_state \<Rightarrow> commit_object \<Rightarrow> encoded list \<Rightarrow> encoded \<Rightarrow> fs_limits \<Rightarrow> bool" where
  "commit_ok X opts b c os root l \<longleftrightarrow>
     flate_ok X \<and> digests_ok X \<and>
     commit_parts X opts b = Ok (c, os) \<and> encode_commit X c = Ok root \<and>
     collision_free (os @ [root]) \<and> list_all (\<lambda>e. length (enc_payload e) < 268435456) (os @ [root]) \<and>
     json_reads X (is_shell b (\<not> co_exclude_functions opts)) (is_caps b) c \<and>
     fits_limits l (committed_vfs opts b)"

definition is_encoded :: "'s outside \<Rightarrow> encoded \<Rightarrow> bool" where
  "is_encoded X e \<longleftrightarrow> e = encoded_new X (enc_kind e) (enc_payload e)"

lemma is_encoded_new [simp]: "is_encoded X (encoded_new X k p)"
  by (simp add: is_encoded_def)

lemma build_file_encoded [simp]:
  "is_encoded X (fst (build_file X c))" "e \<in> set (snd (build_file X c)) \<Longrightarrow> is_encoded X e"
  by (auto simp: build_file_def encode_file_def Let_def split: if_splits)

lemma objects_of_encoded [simp]: "e \<in> set (objects_of X v) \<Longrightarrow> is_encoded X e"
  by (cases "ve_kind v") (auto simp: objects_of_def)

lemma commit_encoded:
  assumes "commit_parts X opts b = Ok (c, os)" "encode_commit X c = Ok root" "e \<in> set (os @ [root])"
  shows "is_encoded X e"
proof -
  have "is_encoded X e" if "e \<in> set os"
    using assms(1) that
    by (cases "co_exclude_filesystem opts"; cases "is_vfs b")
      (auto simp: commit_parts_def commit_tree_def Let_def res_bind_Inr build_tree_ok encode_tree_def)
  moreover have "is_encoded X root" using assms(2) by (auto simp: encode_commit_def split: if_splits)
  ultimately show ?thesis using assms(3) by auto
qed

lemma commit_eq:
  assumes "commit_ok X opts b c os root l"
  shows "commit X opts b = Ok \<lparr>pc_id = enc_id root, pc_objects = store_objects X (enc_id root) (co_have opts) (os @ [root]),
    pc_self_contained = (co_have opts = [])\<rparr>"
  using assms by (simp add: commit_ok_def commit_def)

lemma commit_stored:
  assumes "commit_ok X opts b c os root l" and "\<And>e. e \<in> set (os @ [root]) \<Longrightarrow> holds X st e"
  shows "stored X st (os @ [root])"
proof -
  have "honest X e" if e: "e \<in> set (os @ [root])" for e
  proof -
    have "is_encoded X e"
      using commit_encoded [of X opts b c os root e] assms(1) e unfolding commit_ok_def by blast
    moreover have "length (enc_payload e) < 268435456" using assms(1) e unfolding commit_ok_def list_all_iff by blast
    ultimately show ?thesis unfolding honest_def is_encoded_def by blast
  qed
  with assms(2) show ?thesis by (simp only: stored_def) blast
qed

lemma full_commit_holds:
  assumes "commit_ok X opts b c os root l" and "co_have opts = []" and "e \<in> set (os @ [root])"
    and "map_of (store_objects X (enc_id root) [] (os @ [root])) \<subseteq>\<^sub>m st"
  shows "holds X st e"
proof -
  have "map_of (store_objects X (enc_id root) [] (os @ [root])) (enc_id e) = Some (storage_blob_from_parts X (enc_kind e) (enc_payload e))"
    using assms(1,3) store_lookup [of "os @ [root]" e X "enc_id root" "[]"] unfolding commit_ok_def by simp
  then show ?thesis using assms(4) unfolding holds_def map_le_def by (metis domI)
qed

lemma full_commit_materializes:
  assumes "commit_ok X opts b c os root l" and "co_have opts = []"
    and "map_of (store_objects X (enc_id root) [] (os @ [root])) \<subseteq>\<^sub>m st"
  shows "materialize_commit X (enc_id root) st l = Ok (committed_state opts b, is_caps b) \<and> restorable X st (enc_id root)"
proof -
  have s: "stored X st (os @ [root])"
    using commit_stored [OF assms(1)] full_commit_holds [OF assms(1,2) _ assms(3)] by blast
  show ?thesis
    using materialize_stored [OF _ _ _ _ s] restorable_stored [OF _ _ _ _ s] assms(1) unfolding commit_ok_def by blast
qed

text \<open>
  A commit checks out to the state that was committed. From any store that has the objects of a full
  commit, whatever else it has, rebuilding the commit gives the shell state, the counters, the capabilities and
  every filesystem entry with its path, mode, kind and bytes, the entries in the order of their paths; and the
  store is one from which the planning loop can fetch the commit.
\<close>

theorem commit_checks_out:
  assumes "commit_ok X opts b c os root l" and "co_have opts = []"
  shows "\<exists>p. commit X opts b = Ok p \<and> pc_self_contained p \<and>
    (\<forall>st. map_of (pc_objects p) \<subseteq>\<^sub>m st \<longrightarrow>
       materialize_commit X (pc_id p) st l = Ok (committed_state opts b, is_caps b) \<and> restorable X st (pc_id p))"
  using full_commit_materializes [OF assms] commit_eq [OF assms(1)] assms(2) by simp

text \<open>
  Property C13: incremental commits add up, for commits that the reader's limits admit. Given a store that already has, in
  their storage form, the objects a commit was told it has, adding what the commit emits gives a store from which it checks
  out to the committed state. The conditions are those of \<open>commit_ok\<close>: the commit can be built, no two of its objects share
  a digest, every payload is below 256 MiB, and the committed filesystem fits the checkout, with at most ten million paths, no file
  above \<open>max_file_size\<close> or 4 GiB and not more than \<open>max_total_bytes\<close> or 4 GiB in all; the libraries for
  compression and JSON read back what they wrote. Without them a commit can succeed that no checkout accepts.
\<close>

theorem incremental_commit_checks_out:
  assumes "commit_ok X opts b c os root l" and "\<And>e. e \<in> set os \<Longrightarrow> enc_id e \<in> set (co_have opts) \<Longrightarrow> holds X st e"
  shows "\<exists>p. commit X opts b = Ok p \<and>
    materialize_commit X (pc_id p) (st ++ map_of (pc_objects p)) l = Ok (committed_state opts b, is_caps b)"
proof -
  let ?os = "store_objects X (enc_id root) (co_have opts) (os @ [root])"
  have cf: "collision_free (os @ [root])" using assms(1) unfolding commit_ok_def by blast
  have "holds X (st ++ map_of ?os) e" if e: "e \<in> set (os @ [root])" for e
  proof (cases "enc_id e = enc_id root \<or> enc_id e \<notin> set (co_have opts)")
    case True
    then show ?thesis using store_lookup [OF cf e, of X "enc_id root" "co_have opts"] by (simp add: holds_def)
  next
    case False
    then have "e \<in> set os" using e by auto
    then have "holds X st e" using assms(2) False by blast
    then show ?thesis
      using False store_lookup [OF cf e, of X "enc_id root" "co_have opts"] by (simp add: holds_def map_add_def)
  qed
  then have "stored X (st ++ map_of ?os) (os @ [root])" using commit_stored [OF assms(1)] by blast
  from materialize_stored [OF _ _ _ _ this] assms(1) commit_eq [OF assms(1)] show ?thesis
    unfolding commit_ok_def by auto
qed

section \<open>Sealed snapshots\<close>

lemma objects_bytes_blob: "p \<in> set os \<Longrightarrow> length (snd p) \<le> length (objects_bytes os)"
  by (induction os) (auto simp: objects_bytes_def put_object_def put_u32_def)

lemma bt_sorted_map_of: "bt_sorted m \<Longrightarrow> (j, x) \<in> set m \<Longrightarrow> map_of m j = Some x"
  by (intro map_of_is_SomeI) (simp_all add: bt_sorted_def strict_sorted_iff)

lemma store_objects_ids:
  assumes "(j, x) \<in> set (store_objects X i have os)"
  shows "\<exists>e \<in> set os. enc_id e = j \<and> x = storage_blob_from_parts X (enc_kind e) (enc_payload e)"
proof -
  have "map_of (store_objects X i have os) j = Some x"
    using bt_sorted_map_of [OF store_sorted assms] .
  moreover have "map_of (store_objects X i have os) j =
      map_option (\<lambda>e. storage_blob_from_parts X (enc_kind e) (enc_payload e))
        (find (\<lambda>e. enc_id e = j \<and> (j = i \<or> j \<notin> set have)) os)"
    unfolding store_objects_def
    using store_objects_lookup [of "[]" i "have" "\<lambda>e. storage_blob_from_parts X (enc_kind e) (enc_payload e)" os j]
    by (simp add: bt_sorted_def)
  ultimately show ?thesis by (auto simp: find_Some_iff)
qed

lemma unseal_seal:
  "digests_ok X \<Longrightarrow> (\<And>k bs. length (hmac k bs) = 32) \<Longrightarrow> unseal X hmac (seal X hmac body k) k = Ok body"
  by (cases k) (simp_all add: unseal_def seal_def compute_digest_def digests_ok_def valid_id_def DIGEST_LEN_def)

text \<open>Packing a full commit and decoding the sealed bytes.\<close>

lemma decode_packed:
  assumes ok: "commit_ok X opts b c os root l" and "co_have opts = []" and hmac: "\<And>k bs. length (hmac k bs) = 32"
    and p: "commit X opts b = Ok p" "length (pc_objects p) \<le> 50000000" "addressable (encode_container (pc_id p) (pc_objects p))"
  shows "\<exists>data. pack X hmac k p = Ok data \<and> decode_sealed X hmac parse_first data k l = Ok (committed_state opts b, Some (is_caps b))"
proof -
  let ?os = "store_objects X (enc_id root) [] (os @ [root])"
  have p': "p = \<lparr>pc_id = enc_id root, pc_objects = ?os, pc_self_contained = True\<rparr>"
    using commit_eq [OF ok] p(1) assms(2) by simp
  have X: "digests_ok X" using ok unfolding commit_ok_def by blast
  have enc: "valid_id (enc_id e)" if "e \<in> set (os @ [root])" for e
  proof -
    have "is_encoded X e" using commit_encoded [of X opts b c os root e] ok that unfolding commit_ok_def by blast
    then have "enc_id e = object_id_of X (enc_kind e) (enc_payload e)" unfolding is_encoded_def by (metis encoded_new_simps(3))
    then show ?thesis using X by (simp add: digests_ok_def object_id_of_def)
  qed
  have "object_ok q" if q: "q \<in> set ?os" for q
  proof -
    have "valid_id (fst q)" using store_objects_ids [of "fst q" "snd q"] q enc by (metis prod.collapse)
    moreover have "addressable (snd q)"
      using objects_bytes_blob [OF q] p(3) by (simp add: p' addressable_def encode_container_split)
    ultimately show ?thesis by (simp add: object_ok_def)
  qed
  then have "objects_ok ?os" using p(2) by (simp add: objects_ok_def list_all_iff p')
  from decode_encode_container [OF enc [of root] store_sorted this] p(3) have
    c: "is_v2 (encode_container (enc_id root) ?os)" "decode_container (encode_container (enc_id root) ?os) = Ok \<lparr>ct_root = enc_id root, ct_objects = ?os\<rparr>"
    by (simp_all add: p')
  have m: "materialize_commit X (enc_id root) (map_of ?os) l = Ok (committed_state opts b, is_caps b)"
    using full_commit_materializes [OF ok assms(2), of "map_of ?os"] by simp
  show ?thesis
    using c m unseal_seal [where X = X and hmac = hmac and k = k and body = "encode_container (enc_id root) ?os", OF X hmac]
    by (simp add: p' pack_def decode_sealed_def)
qed

section \<open>Resuming a session\<close>

text \<open>A snapshot of distinct paths restores to the same filesystem in whatever order its entries come.\<close>

lemma viewed_update:
  "viewed (AList.update k (restored_entry t e) acc) p = (if p = k then Some (ve_kind e, ve_mode e) else viewed acc p)"
  by (auto simp: viewed_def update_conv')

lemma viewed_foldl:
  "viewed (foldl (\<lambda>es e. AList.update (components (ve_path e)) (restored_entry t e) es) acc snap) p =
   (case map_of (map (\<lambda>e. (components (ve_path e), (ve_kind e, ve_mode e))) (rev snap)) p of
      Some v \<Rightarrow> Some v | None \<Rightarrow> viewed acc p)"
proof (induction snap arbitrary: acc)
  case (Cons e snap)
  then show ?case by (simp add: viewed_update map_add_def split: option.split)
qed simp

lemma map_of_mset: "distinct (map fst xs) \<Longrightarrow> mset xs = mset ys \<Longrightarrow> map_of xs = map_of ys"
proof -
  assume d: "distinct (map fst xs)" and m: "mset xs = mset ys"
  have "mset (map fst xs) = mset (map fst ys)" using m by simp
  then have d': "distinct (map fst ys)" using d mset_eq_imp_distinct_iff by blast
  have "set xs = set ys" using m by (rule mset_eq_setD)
  then show ?thesis using d d' by (simp add: map_of_inject_set)
qed

lemma viewed_permuted:
  assumes "distinct (map (\<lambda>e. components (ve_path e)) snap)" and "mset snap = mset snap'"
  shows "viewed (foldl (\<lambda>es e. AList.update (components (ve_path e)) (restored_entry t e) es) [] snap) p =
    viewed (foldl (\<lambda>es e. AList.update (components (ve_path e)) (restored_entry t e) es) [] snap') p"
proof -
  let ?f = "\<lambda>e. (components (ve_path e), (ve_kind e, ve_mode e))"
  have "map_of (map ?f (rev snap)) = map_of (map ?f (rev snap'))"
  proof (rule map_of_mset)
    show "distinct (map fst (map ?f (rev snap)))" using assms(1) by (simp add: comp_def rev_map [symmetric])
    show "mset (map ?f (rev snap)) = mset (map ?f (rev snap'))" using assms(2) by simp
  qed
  then show ?thesis by (simp add: viewed_foldl)
qed

lemma snapshot_paths:
  "tree_ok es \<Longrightarrow> map (\<lambda>e. components (ve_path e)) (concat (map snapshot_entry es)) =
     map fst (filter (\<lambda>pe. entry_view (snd pe) \<noteq> None) es)"
proof (induction es)
  case (Cons pe es)
  have nk: "normal_key (fst pe)" "tree_ok es" using Cons.prems by (auto simp: tree_ok_def)
  then show ?case using Cons.IH path_string_normal [OF nk(1)]
    by (cases "entry_view (snd pe)") (auto simp: snapshot_entry_def)
qed simp

lemma snapshot_paths_distinct: "tree_ok es \<Longrightarrow> distinct (map (\<lambda>e. components (ve_path e)) (concat (map snapshot_entry es)))"
  unfolding snapshot_paths by (simp add: tree_ok_def distinct_map_filter)

lemma restored_with_policy:
  assumes "restore_with_policy X hmac parse_first q sh t data k policy b = (Ok (), b')"
    and "decode_sealed X hmac parse_first data k (limits (lv_fs b)) = Ok (snap, Some caps)"
  shows "restore_snapshot_inner sh t snap b = (Ok (), b')"
  using assms by (auto simp: restore_with_policy_def apply_restore_def apply_checked_def split: sum.splits)

lemma restored_entries:
  "restore t snap fs = (Ok (), fs') \<Longrightarrow>
   entries fs' = foldl (\<lambda>es e. AList.update (components (ve_path e)) (restored_entry t e) es) [] snap"
  by (auto simp: restore_def split: sum.splits prod.splits if_splits)


end
