(* ===== verification/SnapDiff.thy ===== *)
theory SnapDiff
  imports SnapCheckout
begin

text \<open>Comparing two commits: what the lists of a diff contain, against a reading of the trees by path.\<close>

section \<open>A tree as a function of paths\<close>

text \<open>Reference reading: the entry of a path, the last one when a tree names it twice.\<close>

definition entry_at :: "tree_entry list \<Rightarrow> rstr \<Rightarrow> tree_entry option" where
  "entry_at es p = find (\<lambda>e. te_path e = p) (rev es)"

definition text_paths :: "tree_entry list \<Rightarrow> bool" where
  "text_paths es \<longleftrightarrow> list_all (\<lambda>e. list_all scalar (te_path e)) es"

lemma tree_map_step: "bt_sorted m \<Longrightarrow> bt_sorted (foldl (\<lambda>m e. bt_insert (as_bytes (te_path e)) e m) m es) \<and>
    map_of (foldl (\<lambda>m e. bt_insert (as_bytes (te_path e)) e m) m es) k =
      (case find (\<lambda>e. as_bytes (te_path e) = k) (rev es) of Some e \<Rightarrow> Some e | None \<Rightarrow> map_of m k)"
proof (induction es rule: rev_induct)
  case (snoc e es)
  then show ?case by (simp add: bt_sorted_insert)
qed simp

lemma tree_map_facts:
  "bt_sorted (tree_map es)" "map_of (tree_map es) k = find (\<lambda>e. as_bytes (te_path e) = k) (rev es)"
  using tree_map_step [of "[]" es k] by (simp_all add: tree_map_def bt_sorted_def split: option.splits)

lemma find_cong: "(\<And>x. x \<in> set xs \<Longrightarrow> P x = Q x) \<Longrightarrow> find P xs = find Q xs"
  by (induction xs) auto

lemma tree_map_entry:
  assumes "text_paths es" and "list_all scalar p"
  shows "map_of (tree_map es) (as_bytes p) = entry_at es p"
proof -
  have "as_bytes (te_path e) = as_bytes p \<longleftrightarrow> te_path e = p" if "e \<in> set es" for e
    using assms that as_bytes_inject [of "te_path e" p] unfolding text_paths_def list_all_iff [of "\<lambda>e. list_all scalar (te_path e)"] by blast
  then show ?thesis unfolding tree_map_facts(2) entry_at_def by (intro find_cong) simp
qed

lemma find_member: "find P xs = Some x \<Longrightarrow> x \<in> set xs \<and> P x"
  by (induction xs) (auto split: if_splits)

lemma tree_map_pair:
  "text_paths es \<Longrightarrow> (k, e) \<in> set (tree_map es) \<longleftrightarrow> k = as_bytes (te_path e) \<and> list_all scalar (te_path e) \<and> entry_at es (te_path e) = Some e"
proof
  assume t: "text_paths es" and ke: "(k, e) \<in> set (tree_map es)"
  have "map_of (tree_map es) k = Some e"
    using ke tree_map_facts(1) [of es] by (intro map_of_is_SomeI) (simp_all add: bt_sorted_def strict_sorted_iff)
  then have f: "find (\<lambda>e. as_bytes (te_path e) = k) (rev es) = Some e" unfolding tree_map_facts(2) .
  from find_member [OF f] have e: "e \<in> set es" "k = as_bytes (te_path e)" by auto
  then have s: "list_all scalar (te_path e)" using t by (simp add: text_paths_def list_all_iff)
  with f e(2) tree_map_entry [OF t s] show "k = as_bytes (te_path e) \<and> list_all scalar (te_path e) \<and> entry_at es (te_path e) = Some e"
    by (simp add: tree_map_facts(2))
next
  assume t: "text_paths es" and k: "k = as_bytes (te_path e) \<and> list_all scalar (te_path e) \<and> entry_at es (te_path e) = Some e"
  then have "map_of (tree_map es) k = Some e" using tree_map_entry [OF t] by simp
  then show "(k, e) \<in> set (tree_map es)" by (rule map_of_SomeD)
qed

lemma entry_at_path: "entry_at es p = Some e \<Longrightarrow> te_path e = p \<and> e \<in> set es"
  unfolding entry_at_def by (auto dest: find_member)

lemma entry_at_text: "text_paths es \<Longrightarrow> entry_at es p = Some e \<Longrightarrow> list_all scalar p"
  using entry_at_path [of es p e] by (auto simp: text_paths_def list_all_iff)

text \<open>The paths selected from a tree by a test on their entries.\<close>

lemma selected_paths:
  assumes "text_paths es"
  shows "set (map (te_path \<circ> snd) (filter (\<lambda>(k, e). P k e) (tree_map es))) =
    {p. \<exists>e. entry_at es p = Some e \<and> P (as_bytes p) e}"
proof (intro set_eqI iffI)
  fix p assume "p \<in> set (map (te_path \<circ> snd) (filter (\<lambda>(k, e). P k e) (tree_map es)))"
  then obtain k e where "(k, e) \<in> set (tree_map es)" "P k e" "p = te_path e" by auto
  then show "p \<in> {p. \<exists>e. entry_at es p = Some e \<and> P (as_bytes p) e}" using tree_map_pair [OF assms, of k e] by auto
next
  fix p assume "p \<in> {p. \<exists>e. entry_at es p = Some e \<and> P (as_bytes p) e}"
  then obtain e where e: "entry_at es p = Some e" "P (as_bytes p) e" by blast
  then have "(as_bytes p, e) \<in> set (tree_map es)"
    using tree_map_pair [OF assms, of "as_bytes p" e] entry_at_path [OF e(1)] entry_at_text [OF assms e(1)] by simp
  then show "p \<in> set (map (te_path \<circ> snd) (filter (\<lambda>(k, e). P k e) (tree_map es)))"
    using e entry_at_path [OF e(1)] by (force simp: image_iff)
qed

lemma selected_sorted: "sorted (map as_bytes (map (te_path \<circ> snd) (filter (\<lambda>(k, e). P k e) (tree_map es))))" if "text_paths es"
proof -
  have "map as_bytes (map (te_path \<circ> snd) (filter (\<lambda>(k, e). P k e) (tree_map es))) = map fst (filter (\<lambda>(k, e). P k e) (tree_map es))"
    using tree_map_pair [OF that] by (induction "filter (\<lambda>(k, e). P k e) (tree_map es)") (auto simp: case_prod_beta intro!: map_cong)
  moreover have "sorted (map fst (filter Q (tree_map es)))" for Q
  proof -
    have "sorted_wrt (<) (map fst (tree_map es))" using tree_map_facts(1) by (simp add: bt_sorted_def)
    then show ?thesis by (simp add: sorted_map sorted_wrt_map sorted_wrt_filter) (metis (mono_tags, lifting) less_imp_le sorted_wrt_filter sorted_wrt_mono_rel)
  qed
  ultimately show ?thesis by (simp only:)
qed

text \<open>
  Property C24: a diff is exact. The added paths are those that only the second tree has, the removed ones those that
  only the first has, the modified ones those that both have with another mode, type, target or content address,
  each list in the order of the paths' bytes; and the diff is empty exactly when the shell object is the same and
  both trees give every path the same entry.
\<close>

theorem diff_is_exact:
  assumes "read_commit X a st = Ok ca" and "read_commit X b st = Ok cb"
    and "read_tree X (cm_tree ca) st = Ok ta" and "read_tree X (cm_tree cb) st = Ok tb"
    and "text_paths ta" and "text_paths tb"
  shows "\<exists>d. diff_commits X a b st = Ok d \<and>
    set (sd_added d) = {p. entry_at ta p = None \<and> entry_at tb p \<noteq> None} \<and>
    set (sd_removed d) = {p. entry_at ta p \<noteq> None \<and> entry_at tb p = None} \<and>
    set (sd_modified d) = {p. \<exists>e e'. entry_at ta p = Some e \<and> entry_at tb p = Some e' \<and> (te_mode e, te_kind e) \<noteq> (te_mode e', te_kind e')} \<and>
    list_all (\<lambda>ps. sorted (map as_bytes ps)) [sd_added d, sd_modified d, sd_removed d] \<and>
    (diff_is_empty d \<longleftrightarrow> cm_shell ca = cm_shell cb \<and> entry_at ta = entry_at tb)"
proof -
  have in_a: "map_of (tree_map ta) (as_bytes p) = entry_at ta p" if "entry_at tb p = Some e" for p e
    using tree_map_entry [OF assms(5) entry_at_text [OF assms(6) that]] .
  have in_b: "map_of (tree_map tb) (as_bytes p) = entry_at tb p" if "entry_at ta p = Some e" for p e
    using tree_map_entry [OF assms(6) entry_at_text [OF assms(5) that]] .
  let ?added = "map (te_path \<circ> snd) (filter (\<lambda>(k, e). map_of (tree_map ta) k = None) (tree_map tb))"
  let ?modified = "map (te_path \<circ> snd) (filter (\<lambda>(k, e). case map_of (tree_map ta) k of
      None \<Rightarrow> False | Some before \<Rightarrow> te_mode before \<noteq> te_mode e \<or> te_kind before \<noteq> te_kind e) (tree_map tb))"
  let ?removed = "map (te_path \<circ> snd) (filter (\<lambda>(k, e). \<not> contains_key (tree_map tb) k) (tree_map ta))"
  have A: "set ?added = {p. entry_at ta p = None \<and> entry_at tb p \<noteq> None}"
    unfolding selected_paths [OF assms(6)] using in_a by fastforce
  have R: "set ?removed = {p. entry_at ta p \<noteq> None \<and> entry_at tb p = None}"
    unfolding selected_paths [OF assms(5)] using in_b by (fastforce simp: contains_key_def)
  have M: "set ?modified = {p. \<exists>e e'. entry_at ta p = Some e \<and> entry_at tb p = Some e' \<and> (te_mode e, te_kind e) \<noteq> (te_mode e', te_kind e')}"
    unfolding selected_paths [OF assms(6)] using in_a by (fastforce split: option.splits)
  have "entry_at ta = entry_at tb \<longleftrightarrow> ?added = [] \<and> ?modified = [] \<and> ?removed = []"
  proof
    assume "entry_at ta = entry_at tb"
    then have "set ?added = {}" "set ?modified = {}" "set ?removed = {}" unfolding A M R by auto
    then show "?added = [] \<and> ?modified = [] \<and> ?removed = []" by (simp only: set_empty)
  next
    assume "?added = [] \<and> ?modified = [] \<and> ?removed = []"
    then have e: "set ?added = {}" "set ?modified = {}" "set ?removed = {}" by (simp_all only: list.set)
    show "entry_at ta = entry_at tb"
    proof
      fix p
      show "entry_at ta p = entry_at tb p"
      proof (cases "entry_at ta p"; cases "entry_at tb p")
        fix x y assume xy: "entry_at ta p = Some x" "entry_at tb p = Some y"
        then have "te_mode x = te_mode y \<and> te_kind x = te_kind y" using e(2) unfolding M by blast
        moreover have "te_path x = te_path y" using entry_at_path [OF xy(1)] entry_at_path [OF xy(2)] by simp
        ultimately show ?thesis using xy by simp
      next
        fix y assume "entry_at ta p = None" "entry_at tb p = Some y"
        then show ?thesis using e(1) unfolding A by blast
      next
        fix x assume "entry_at ta p = Some x" "entry_at tb p = None"
        then show ?thesis using e(3) unfolding R by blast
      qed simp
    qed
  qed
  then show ?thesis
    using assms(1-4) A M R selected_sorted [OF assms(5)] selected_sorted [OF assms(6)]
    by (auto simp: diff_commits_def Let_def diff_is_empty_def)
qed

end
