(* ===== verification/SnapGc.thy ===== *)
theory SnapGc
  imports SnapPlan
begin

text \<open>
  Garbage collection: what \<open>reachable\<close> names is what a host has to keep of its store, all of it and nothing else.
\<close>

lemma walk_loop_sets:
  "walk_loop X st queue seen missing present = Ok (missing', present') \<Longrightarrow>
   sorted missing \<and> distinct missing \<and> sorted present \<and> distinct present \<Longrightarrow>
   sorted missing' \<and> distinct missing' \<and> sorted present' \<and> distinct present'"
  by (induction X st queue seen missing present rule: walk_loop.induct)
    (auto simp: sorted_insort_insert distinct_insort_insert split: if_splits sum.splits option.splits)

text \<open>What the two entry points of the walk return when nothing needed is corrupt.\<close>

lemma walk_ok:
  assumes "walkable X st root"
  shows "\<exists>missing present. walk_loop X st [(root, KIND_COMMIT)] [] [] [] = Ok (missing, present) \<and>
    set missing = {i. st i = None \<and> (\<exists>n k. needed X st root n (i, k))} \<and>
    set present = {i. st i \<noteq> None \<and> (\<exists>n k. needed X st root n (i, k))} \<and>
    sorted missing \<and> distinct missing \<and> sorted present \<and> distinct present"
proof -
  have "walk_inv X st root [(root, KIND_COMMIT)] [] [] []"
    using needed_root unfolding walk_inv_def by auto
  from walk_loop_ok [OF assms this] obtain seen missing present where
    w: "walk_loop X st [(root, KIND_COMMIT)] [] [] [] = Ok (missing, present)" "walk_inv X st root [] seen missing present" by blast
  have all: "i \<in> set missing \<or> i \<in> set present" if "needed X st root n (i, k)" for i n k
    using walk_done [OF w(2) that] by simp
  have m: "i \<in> set missing \<longleftrightarrow> st i = None \<and> (\<exists>n k. needed X st root n (i, k))" for i
    using all [of _ i] walk_invD(3,4) [OF w(2), of i] by metis
  have p: "i \<in> set present \<longleftrightarrow> st i \<noteq> None \<and> (\<exists>n k. needed X st root n (i, k))" for i
    using all [of _ i] walk_invD(3,4) [OF w(2), of i] by metis
  have "set missing = {i. st i = None \<and> (\<exists>n k. needed X st root n (i, k))} \<and>
    set present = {i. st i \<noteq> None \<and> (\<exists>n k. needed X st root n (i, k))}"
    using m p by (simp add: set_eq_iff)
  moreover have "sorted missing \<and> distinct missing \<and> sorted present \<and> distinct present"
    by (rule walk_loop_sets [OF w(1)]) simp
  ultimately show ?thesis using w(1) by blast
qed

lemma needed_present: "restorable X st root \<Longrightarrow> needed X st root n (i, k) \<Longrightarrow> st i \<noteq> None"
  using visit_missing [of X st "(i, k)"] unfolding restorable_def by fastforce

lemma restorable_walkable: "restorable X st root \<Longrightarrow> walkable X st root"
  unfolding restorable_def walkable_def by blast

lemma reachable_ok:
  assumes "restorable X st root"
  shows "\<exists>ids. reachable X root st = Ok ids \<and> set ids = {i. \<exists>n k. needed X st root n (i, k)} \<and> sorted ids \<and> distinct ids"
proof -
  from walk_ok [OF restorable_walkable [OF assms]] obtain missing present where
    w: "walk_loop X st [(root, KIND_COMMIT)] [] [] [] = Ok (missing, present)"
      "set missing = {i. st i = None \<and> (\<exists>n k. needed X st root n (i, k))}"
      "set present = {i. st i \<noteq> None \<and> (\<exists>n k. needed X st root n (i, k))}" "sorted present" "distinct present" by blast
  have "missing = []" using w(2) needed_present [OF assms] by (auto simp flip: set_empty2)
  moreover have "set present = {i. \<exists>n k. needed X st root n (i, k)}" using w(3) needed_present [OF assms] by blast
  ultimately show ?thesis using w by (simp add: reachable_def)
qed

text \<open>Stores that agree on what one of them needs need the same.\<close>

definition agrees :: "'s outside \<Rightarrow> store \<Rightarrow> object_id \<Rightarrow> store \<Rightarrow> bool" where
  "agrees X st root st' \<longleftrightarrow> (\<forall>n p. needed X st root n p \<longrightarrow> st' (fst p) = st (fst p))"

lemma agreesD: "agrees X st root st' \<Longrightarrow> needed X st root n p \<Longrightarrow> st' (fst p) = st (fst p)"
  unfolding agrees_def by blast

lemma visit_agrees: "agrees X st root st' \<Longrightarrow> needed X st root n p \<Longrightarrow> visit X st' p = visit X st p"
  using agreesD [of X st root st' n p] by (simp add: visit_def)

lemma needed_agrees: "agrees X st root st' \<Longrightarrow> needed X st' root n p = needed X st root n p"
proof
  assume a: "agrees X st root st'"
  show "needed X st root n p \<Longrightarrow> needed X st' root n p"
    by (induction rule: needed.induct) (rule needed_root, metis needed_ref visit_agrees [OF a])
  show "needed X st' root n p \<Longrightarrow> needed X st root n p"
    by (induction rule: needed.induct) (rule needed_root, metis needed_ref visit_agrees [OF a])
qed

lemma restorable_agrees: "restorable X st root \<Longrightarrow> agrees X st root st' \<Longrightarrow> restorable X st' root"
  unfolding restorable_def by (simp add: needed_agrees visit_agrees)

lemma reachable_agrees:
  assumes "restorable X st root" and "agrees X st root st'"
  shows "reachable X root st' = reachable X root st"
proof -
  from reachable_ok [OF assms(1)] obtain a where
    a: "reachable X root st = Ok a" "set a = {i. \<exists>n k. needed X st root n (i, k)}" "sorted a" "distinct a" by blast
  from reachable_ok [OF restorable_agrees [OF assms]] obtain b where
    b: "reachable X root st' = Ok b" "set b = {i. \<exists>n k. needed X st' root n (i, k)}" "sorted b" "distinct b" by blast
  have "set b = set a" using a(2) b(2) by (simp add: needed_agrees [OF assms(2)])
  then have "b = a" using a(3,4) b(3,4) by (simp add: sorted_distinct_set_unique)
  with a(1) b(1) show ?thesis by simp
qed

lemma distinct_card_one: "distinct xs \<Longrightarrow> set xs \<subseteq> {i} \<Longrightarrow> xs \<noteq> [] \<Longrightarrow> xs = [i]"
  by (cases xs; cases "tl xs") auto

lemma plan_without:
  assumes "restorable X st root" and "needed X st root n (i, k)"
  shows "plan_checkout X root (st(i := None)) = Ok [i]"
proof -
  let ?st = "st(i := None)"
  have sub: "?st \<subseteq>\<^sub>m st" by (simp add: map_le_def)
  from walk_ok [OF walkable_submap [OF assms(1) sub]] obtain missing present where
    w: "walk_loop X ?st [(root, KIND_COMMIT)] [] [] [] = Ok (missing, present)"
      "set missing = {j. ?st j = None \<and> (\<exists>n k. needed X ?st root n (j, k))}" "distinct missing" by blast
  have plan: "plan_checkout X root ?st = Ok missing" using w(1) by (simp add: plan_checkout_def)
  have "j = i" if "j \<in> set missing" for j
  proof (rule ccontr)
    assume j: "j \<noteq> i"
    with that obtain m k' where "st j = None" "needed X ?st root m (j, k')" unfolding w(2) by auto
    then show False using needed_present [OF assms(1) needed_submap [OF sub]] by blast
  qed
  then have "set missing \<subseteq> {i}" by blast
  moreover have "missing \<noteq> []"
  proof
    assume "missing = []"
    with plan have "plan_checkout X root ?st = Ok []" by (simp only:)
    from plan_empty_complete [OF assms(1) sub this assms(2)] show False by (simp only: fst_conv fun_upd_same) blast
  qed
  ultimately have "missing = [i]" using w(3) by (metis distinct_card_one)
  with plan show ?thesis by simp
qed

text \<open>
  Property C17: \<open>reachable\<close> names what a collector has to keep. For a commit that can be restored it returns a strictly
  ordered list; every store that keeps the objects of that list, whatever it drops or adds elsewhere, gives the
  same list again and rebuilds the same state; and every one of them is needed: when one is dropped, the plan of a
  checkout names exactly that one.
\<close>

theorem reachable_is_what_to_keep:
  assumes "restorable X st root"
  shows "\<exists>ids. reachable X root st = Ok ids \<and> sorted ids \<and> distinct ids \<and> root \<in> set ids \<and>
    (\<forall>st' l. (\<forall>i \<in> set ids. st' i = st i) \<longrightarrow>
       reachable X root st' = Ok ids \<and> materialize_commit X root st' l = materialize_commit X root st l) \<and>
    (\<forall>i \<in> set ids. plan_checkout X root (st(i := None)) = Ok [i])"
proof -
  from reachable_ok [OF assms] obtain ids where
    r: "reachable X root st = Ok ids" and ids: "set ids = {i. \<exists>n k. needed X st root n (i, k)}" and order: "sorted ids" "distinct ids" by blast
  have root: "root \<in> set ids" using ids needed_root by blast
  have kept: "reachable X root st' = Ok ids" "materialize_commit X root st' l = materialize_commit X root st l"
    if "\<forall>i \<in> set ids. st' i = st i" for st' l
  proof -
    have same: "agrees X st root st'" unfolding agrees_def
    proof (intro allI impI)
      fix n p assume "needed X st root n p"
      then have "fst p \<in> set ids" unfolding ids by (cases p) auto
      with that show "st' (fst p) = st (fst p)" by simp
    qed
    show "reachable X root st' = Ok ids" using reachable_agrees [OF assms same] r by simp
    show "materialize_commit X root st' l = materialize_commit X root st l"
      by (rule materialize_commit_cong [OF assms]) (rule agreesD [OF same])
  qed
  have dropped: "plan_checkout X root (st(i := None)) = Ok [i]" if "i \<in> set ids" for i
    using that plan_without [OF assms] unfolding ids by blast
  show ?thesis
  proof (intro exI [of _ ids] conjI allI impI ballI)
    fix st' l assume "\<forall>i \<in> set ids. st' i = st i"
    then show "reachable X root st' = Ok ids" "materialize_commit X root st' l = materialize_commit X root st l" by (rule kept)+
  qed (fact r order root dropped)+
qed

end
