(* ===== verification/SnapDemo.thy ===== *)
theory SnapDemo
  imports SnapRestore SnapDiff SnapGc
begin

text \<open>
  Concrete instances of the snapshot theorems: an instance with a small filesystem, a digest that keeps the first
  32 bytes, a codec that copies, and a parser that knows the texts in hand. They show that the hypotheses of the
  theorems can be met together.
\<close>

section \<open>The instance\<close>

definition demo_caps :: capability_fingerprint where
  "demo_caps = \<lparr>cf_version = lit ''1'', cf_builtins = [lit ''echo''], cf_features = [], cf_fs_backend = lit ''in-memory''\<rparr>"

definition demo_fs :: mem_fs where
  "demo_fs = fs_run demo_snapshot_ops (with_limits default_fs_limits 0)"

definition demo_instance :: "bool instance_state" where
  "demo_instance = \<lparr>is_shell = \<lambda>_. True, is_vfs = Some (fst (snapshot demo_fs)), is_counters = new_counters\<lparr>session_commands := 5\<rparr>,
     is_caps = demo_caps\<rparr>"

text \<open>The vfs of the instance, evaluated.\<close>

definition demo_vfs :: vfs_snapshot where
  "demo_vfs =
     map (\<lambda>d. \<lparr>ve_path = lit d, ve_kind = KDirectory, ve_mode = MODE_755\<rparr>) [''/'', ''/tmp'', ''/home'', ''/home/user'', ''/dev''] @
     map (\<lambda>f. \<lparr>ve_path = lit f, ve_kind = KFile [], ve_mode = MODE_666\<rparr>) [''/dev/null'', ''/dev/urandom'', ''/dev/random''] @
     [\<lparr>ve_path = lit ''/dev/fd'', ve_kind = KDirectory, ve_mode = MODE_755\<rparr>,
      \<lparr>ve_path = lit ''/tmp/f'', ve_kind = KFile [1, 2], ve_mode = MODE_644\<rparr>]"

lemma demo_fs_run: "demo_fs = with_limits default_fs_limits 0
    \<lparr>entries := entries (with_limits default_fs_limits 0) @
       [([RootDir, Normal (lit ''tmp''), Normal (lit ''f'')], new_file [1, 2] MODE_644 0)]\<rparr>"
  by (simp add: demo_fs_def demo_snapshot_ops_def write_eval path_eval with_limits_def)

lemma demo_no_lazy: "lazy_paths (entries demo_fs) = []"
  unfolding demo_fs_run by (simp add: with_limits_def lazy_paths_def new_directory_def new_file_def)

lemma demo_vfs_eq: "fst (snapshot demo_fs) = demo_vfs"
  unfolding snapshot_def demo_no_lazy
  unfolding demo_fs_run
  by (simp add: with_limits_def snapshot_entry_def entry_view_def new_directory_def new_file_def new_metadata_def
      path_string_def component_string_def path_eval key_values demo_vfs_def lit_def)

section \<open>Its commit\<close>

text \<open>The commit object, which the parser has to know, in terms of the digest alone.\<close>

definition demo_digest :: "u8 list \<Rightarrow> object_id" where
  "demo_digest bs = take 32 (bs @ replicate 32 0)"

definition demo_entry :: "vfs_entry \<Rightarrow> tree_entry" where
  "demo_entry v =
     \<lparr>te_path = ve_path v, te_mode = ve_mode v,
      te_kind = (case ve_kind v of
        KFile c \<Rightarrow> TFile (demo_digest (KIND_FILE # 0 # put_bytes c)) | KDirectory \<Rightarrow> TDirectory | KSymlink t \<Rightarrow> TSymlink t | KFifo \<Rightarrow> TFifo)\<rparr>"

definition demo_tree :: "u8 list" where
  "demo_tree = tree_bytes (map demo_entry (sort_vfs demo_vfs))"

definition demo_commit :: commit_object where
  "demo_commit = \<lparr>cm_parents = [], cm_tree = Some (demo_digest (KIND_TREE # demo_tree)),
     cm_shell = demo_digest [KIND_SHELL, 48], cm_caps = demo_digest [KIND_CAPS, 48],
     cm_session_commands = 5, cm_session_exec_calls = 0, cm_meta = []\<rparr>"

definition demo_X :: "bool outside" where
  "demo_X = \<lparr>sha256 = demo_digest, deflate_stream = \<lambda>bs. Some bs,
     inflate_stream = \<lambda>n bs. if length bs \<le> unat n then Some (bs, of_nat (length bs)) else None,
     scalar_text = \<lambda>_. [48], commit_value = \<lambda>_. JNull, parse_commit = \<lambda>_. Some demo_commit, caps_value = \<lambda>_. JNull,
     parse_caps = \<lambda>_. Some demo_caps, shell_value = \<lambda>_. JNull, parse_shell = \<lambda>_. Some True\<rparr>"

definition demo_objects :: "encoded list" where
  "demo_objects = encoded_new demo_X KIND_TREE demo_tree # concat (map (objects_of demo_X) demo_vfs) @
     [encoded_new demo_X KIND_SHELL [48], encoded_new demo_X KIND_CAPS [48]]"

definition demo_root :: encoded where
  "demo_root = encoded_new demo_X KIND_COMMIT [48]"

lemma demo_X_simps [simp]:
  "sha256 demo_X bs = demo_digest bs" "scalar_text demo_X j = [48]"
  "commit_value demo_X c = JNull" "caps_value demo_X k = JNull" "shell_value demo_X s = JNull"
  "parse_commit demo_X bs = Some demo_commit" "parse_caps demo_X bs = Some demo_caps" "parse_shell demo_X bs = Some True"
  by (simp_all add: demo_X_def)

lemma demo_id: "object_id_of demo_X k p = demo_digest (k # p)"
  by (simp add: object_id_of_def)

lemma demo_digest_Cons: "demo_digest (k # p) = k # take 31 (p @ replicate 32 0)"
  by (simp add: demo_digest_def)

lemma demo_file: "length c \<le> 4096 \<Longrightarrow> build_file demo_X c = (encoded_new demo_X KIND_FILE (0 # put_bytes c), [])"
  by (simp add: build_file_def INLINE_MAX_def encode_file_def file_bytes_def FILE_INLINE_def)

lemma snap_demo_entries: "map (entry_of demo_X) (sort_vfs demo_vfs) = map demo_entry (sort_vfs demo_vfs)"
proof -
  have "list_all (\<lambda>v. entry_of demo_X v = demo_entry v) demo_vfs"
    by (simp add: demo_vfs_def entry_of_def demo_entry_def demo_file demo_id)
  then show ?thesis by (simp add: list_all_iff)
qed

lemma snap_demo_texts: "list_all texts_ok demo_vfs"
  by (simp add: demo_vfs_def texts_ok_def lit_def scalar_def)

lemma demo_parts: "commit_parts demo_X commit_options_new demo_instance = Ok (demo_commit, demo_objects)"
proof -
  have "build_tree demo_X demo_vfs = Ok (encoded_new demo_X KIND_TREE demo_tree, concat (map (objects_of demo_X) demo_vfs))"
    using snap_demo_texts by (simp add: build_tree_ok encode_tree_def snap_demo_entries demo_tree_def)
  then show ?thesis
    by (simp add: commit_parts_def commit_tree_def commit_options_new_def demo_instance_def demo_vfs_eq demo_commit_def
        demo_objects_def demo_id new_counters_def)
qed

lemma demo_object_set:
  "set (demo_objects @ [demo_root]) =
     {encoded_new demo_X KIND_TREE demo_tree, encoded_new demo_X KIND_FILE (0 # put_bytes []),
      encoded_new demo_X KIND_FILE (0 # put_bytes [1, 2]), encoded_new demo_X KIND_SHELL [48], encoded_new demo_X KIND_CAPS [48],
      encoded_new demo_X KIND_COMMIT [48]}"
  by (auto simp: demo_objects_def demo_vfs_def objects_of_def demo_file demo_root_def)

lemma tree_bytes_sorted: "length (tree_bytes (map f (sort_vfs vs))) = length (tree_bytes (map f vs))"
proof -
  have "mset (map (length \<circ> entry_bytes \<circ> f) (sort_vfs vs)) = mset (map (length \<circ> entry_bytes \<circ> f) vs)"
    by (simp add: mset_sort_vfs)
  then have "sum_list (map (length \<circ> entry_bytes \<circ> f) (sort_vfs vs)) = sum_list (map (length \<circ> entry_bytes \<circ> f) vs)"
    by (metis sum_mset_sum_list)
  then show ?thesis by (simp add: tree_bytes_def length_concat comp_def)
qed

lemma demo_tree_length: "length demo_tree < 1000"
  unfolding demo_tree_def tree_bytes_sorted
  by (simp add: tree_bytes_def demo_vfs_def entry_bytes_def demo_entry_def kind_bytes_def demo_digest_def put_u32_def
      as_bytes_def utf8_char_def lit_def)

lemma demo_head: "e \<in> set (demo_objects @ [demo_root]) \<Longrightarrow> hd (enc_id e) = enc_kind e"
  unfolding demo_object_set by (auto simp: demo_id demo_digest_Cons)

lemma demo_files_differ: "demo_digest (KIND_FILE # 0 # put_bytes []) \<noteq> demo_digest (KIND_FILE # 0 # put_bytes [1, 2])"
proof
  have l: "le_bytes 8 v = of_nat (v mod 256) # le_bytes 7 (v div 256)" for v
    using le_bytes.simps(2) [of 7 v] by simp
  assume "demo_digest (KIND_FILE # 0 # put_bytes []) = demo_digest (KIND_FILE # 0 # put_bytes [1, 2])"
  then have "demo_digest (KIND_FILE # 0 # put_bytes []) ! 2 = demo_digest (KIND_FILE # 0 # put_bytes [1, 2]) ! 2" by simp
  then show False by (simp add: demo_digest_def put_bytes_def put_u64_def l)
qed

lemma demo_collision_free: "collision_free (demo_objects @ [demo_root])"
  unfolding collision_free_def
proof (intro ballI impI)
  fix a b assume ab: "a \<in> set (demo_objects @ [demo_root])" "b \<in> set (demo_objects @ [demo_root])" "enc_id a = enc_id b"
  then have "enc_kind a = enc_kind b" using demo_head by metis
  with ab show "a = b"
    unfolding demo_object_set using demo_files_differ by (auto simp: kind_defs demo_id)
qed

lemma demo_ok: "commit_ok demo_X commit_options_new demo_instance demo_commit demo_objects demo_root default_fs_limits"
proof -
  have "flate_ok demo_X" by (simp add: flate_ok_def demo_X_def)
  moreover have "digests_ok demo_X" by (auto simp: digests_ok_def valid_id_def demo_digest_def min_def)
  moreover have "encode_commit demo_X demo_commit = Ok demo_root" by (simp add: encode_commit_def demo_commit_def demo_root_def)
  moreover note demo_collision_free
  moreover have "list_all (\<lambda>e. length (enc_payload e) < 268435456) (demo_objects @ [demo_root])"
    unfolding list_all_iff demo_object_set
    using demo_tree_length by simp
  moreover have "json_reads demo_X True demo_caps demo_commit" by (simp add: json_reads_def)
  moreover have "fits_limits default_fs_limits (Some demo_vfs)"
    by (simp add: fits_limits_def files_within_def demo_vfs_def default_fs_limits_def snapshot_bytes_def)
  ultimately show ?thesis
    using demo_parts demo_vfs_eq
    by (simp add: commit_ok_def committed_vfs_def commit_options_new_def demo_instance_def)
qed

lemma demo_packed:
  "commit demo_X commit_options_new demo_instance = Ok \<lparr>pc_id = enc_id demo_root,
     pc_objects = store_objects demo_X (enc_id demo_root) [] (demo_objects @ [demo_root]), pc_self_contained = True\<rparr>"
  using commit_eq [OF demo_ok] by (simp add: commit_options_new_def)

lemma bt_insert_length: "length (bt_insert k v m) \<le> Suc (length m)"
  by (induction k v m rule: bt_insert.induct) auto

lemma store_objects_length: "length (store_objects X i have os) \<le> length os"
proof -
  have "length (foldl (\<lambda>m object.
        if enc_id object \<noteq> i \<and> enc_id object \<in> set have then m
        else if contains_key m (enc_id object) then m
        else bt_insert (enc_id object) (blob object) m) m os) \<le> length m + length os" for m :: objects and blob
  proof (induction os arbitrary: m)
    case (Cons o1 os)
    let ?m = "if enc_id o1 \<noteq> i \<and> enc_id o1 \<in> set have then m
        else if contains_key m (enc_id o1) then m else bt_insert (enc_id o1) (blob o1) m"
    have "length ?m \<le> Suc (length m)" by (simp add: bt_insert_length)
    with Cons.IH [of ?m] show ?case by simp
  qed simp
  from this [of "\<lambda>e. storage_blob_from_parts X (enc_kind e) (enc_payload e)" "[]"] show ?thesis
    by (simp add: store_objects_def)
qed

section \<open>Witnesses\<close>

theorem commit_checks_out_witness:
  "\<exists>p. commit demo_X commit_options_new demo_instance = Ok p \<and>
     materialize_commit demo_X (pc_id p) (map_of (pc_objects p)) default_fs_limits =
       Ok (\<lparr>sn_version = 1, sn_shell = True, sn_vfs = Some (sort_vfs demo_vfs), sn_session_commands = 5, sn_session_exec_calls = 0\<rparr>,
           demo_caps)"
proof -
  have "co_have commit_options_new = []" by (simp add: commit_options_new_def)
  from commit_checks_out [OF demo_ok this] obtain p where
    "commit demo_X commit_options_new demo_instance = Ok p"
    "materialize_commit demo_X (pc_id p) (map_of (pc_objects p)) default_fs_limits =
       Ok (committed_state commit_options_new demo_instance, is_caps demo_instance)" by auto
  then show ?thesis
    by (simp add: committed_state_def committed_vfs_def commit_options_new_def demo_instance_def demo_vfs_eq SNAPSHOT_VERSION_def
        new_counters_def)
qed

theorem four_rounds_suffice_witness:
  "\<exists>st. fetch_rounds demo_X (enc_id demo_root)
      (map_of (store_objects demo_X (enc_id demo_root) [] (demo_objects @ [demo_root]))) 4 Map.empty = Ok st \<and>
     plan_checkout demo_X (enc_id demo_root) st = Ok []"
proof -
  have "co_have commit_options_new = []" by (simp add: commit_options_new_def)
  from full_commit_materializes [OF demo_ok this map_le_refl] have
    "restorable demo_X (map_of (store_objects demo_X (enc_id demo_root) [] (demo_objects @ [demo_root]))) (enc_id demo_root)" ..
  from four_rounds_suffice [OF this, of Map.empty] show ?thesis by auto
qed

theorem reachable_is_what_to_keep_witness:
  "\<exists>ids. reachable demo_X (enc_id demo_root)
      (map_of (store_objects demo_X (enc_id demo_root) [] (demo_objects @ [demo_root]))) = Ok ids \<and> enc_id demo_root \<in> set ids"
proof -
  have "co_have commit_options_new = []" by (simp add: commit_options_new_def)
  from full_commit_materializes [OF demo_ok this map_le_refl] have
    "restorable demo_X (map_of (store_objects demo_X (enc_id demo_root) [] (demo_objects @ [demo_root]))) (enc_id demo_root)" ..
  from reachable_is_what_to_keep [OF this] show ?thesis by blast
qed

theorem checkout_is_bounded_witness:
  "files_within 10000000 (sort_vfs demo_vfs) \<and> snapshot_bytes (sort_vfs demo_vfs) \<le> 100000000"
proof -
  have "co_have commit_options_new = []" by (simp add: commit_options_new_def)
  from full_commit_materializes [OF demo_ok this map_le_refl] have
    "materialize_commit demo_X (enc_id demo_root) (map_of (store_objects demo_X (enc_id demo_root) [] (demo_objects @ [demo_root])))
       default_fs_limits = Ok (committed_state commit_options_new demo_instance, is_caps demo_instance)" ..
  moreover have "sn_vfs (committed_state commit_options_new demo_instance) = Some (sort_vfs demo_vfs)"
    by (simp add: committed_state_def committed_vfs_def commit_options_new_def demo_instance_def demo_vfs_eq)
  ultimately have "files_within (min (unat (max_file_size default_fs_limits)) (2 ^ 32)) (sort_vfs demo_vfs) \<and>
      snapshot_bytes (sort_vfs demo_vfs) \<le> min (unat (max_total_bytes default_fs_limits)) (2 ^ 32)"
    using checkout_is_bounded by blast
  then show ?thesis by (simp add: default_fs_limits_def)
qed

text \<open>A commit told that the store has the capabilities object.\<close>

theorem incremental_commit_checks_out_witness:
  "\<exists>p. commit demo_X (commit_options_new\<lparr>co_have := [demo_digest [KIND_CAPS, 48]]\<rparr>) demo_instance = Ok p \<and>
     materialize_commit demo_X (pc_id p)
       ([demo_digest [KIND_CAPS, 48] \<mapsto> storage_blob_from_parts demo_X KIND_CAPS [48]] ++ map_of (pc_objects p)) default_fs_limits =
     Ok (committed_state commit_options_new demo_instance, demo_caps)"
proof -
  let ?o = "commit_options_new\<lparr>co_have := [demo_digest [KIND_CAPS, 48]]\<rparr>"
  have same: "commit_parts demo_X ?o demo_instance = commit_parts demo_X commit_options_new demo_instance"
    "committed_vfs ?o demo_instance = committed_vfs commit_options_new demo_instance"
    "committed_state ?o demo_instance = committed_state commit_options_new demo_instance"
    by (simp_all add: commit_parts_def committed_vfs_def committed_state_def)
  have ok: "commit_ok demo_X ?o demo_instance demo_commit demo_objects demo_root default_fs_limits"
    using demo_ok unfolding commit_ok_def same by simp
  have held: "holds demo_X [demo_digest [KIND_CAPS, 48] \<mapsto> storage_blob_from_parts demo_X KIND_CAPS [48]] e"
    if e: "e \<in> set demo_objects" "enc_id e \<in> set (co_have ?o)" for e
  proof -
    have "encoded_new demo_X KIND_CAPS [48] \<in> set (demo_objects @ [demo_root])" unfolding demo_object_set by simp
    moreover have "enc_id (encoded_new demo_X KIND_CAPS [48]) = enc_id e" using e(2) by (simp add: demo_id)
    moreover have "e \<in> set (demo_objects @ [demo_root])" using e(1) by simp
    ultimately have "e = encoded_new demo_X KIND_CAPS [48]"
      using demo_collision_free unfolding collision_free_def by metis
    then show ?thesis by (simp add: holds_def demo_id)
  qed
  from incremental_commit_checks_out [OF ok held] show ?thesis
    unfolding same by (simp add: demo_instance_def)
qed

section \<open>Packing the commit\<close>

lemma demo_blob: "length p \<le> 1000 \<Longrightarrow> length (storage_blob_from_parts demo_X k p) \<le> 1002"
  by (simp add: storage_blob_from_parts_def looks_compressible_def COMPRESSIBILITY_MIN_SIZE_def demo_X_def)

lemma demo_payloads: "e \<in> set (demo_objects @ [demo_root]) \<Longrightarrow> length (enc_payload e) \<le> 1000"
  unfolding demo_object_set using demo_tree_length by auto

lemma objects_bytes_length:
  "(\<And>p. p \<in> set os \<Longrightarrow> length (fst p) \<le> 32 \<and> length (snd p) \<le> n) \<Longrightarrow> length (objects_bytes os) \<le> 4 + length os * (40 + n)"
proof (induction os)
  case (Cons p os)
  have "length (objects_bytes os) \<le> 4 + length os * (40 + n)" using Cons by auto
  then show ?case using Cons.prems [of p] by (simp add: objects_bytes_def put_object_def put_u32_def)
qed (simp add: objects_bytes_def put_u32_def)

lemma demo_pack_fits:
  "length (store_objects demo_X (enc_id demo_root) [] (demo_objects @ [demo_root])) \<le> 50000000"
  "addressable (encode_container (enc_id demo_root) (store_objects demo_X (enc_id demo_root) [] (demo_objects @ [demo_root])))"
proof -
  let ?s = "store_objects demo_X (enc_id demo_root) [] (demo_objects @ [demo_root])"
  have n: "length ?s \<le> 11"
    by (rule order_trans [OF store_objects_length]) (simp add: demo_objects_def demo_vfs_def objects_of_def demo_file)
  then show "length ?s \<le> 50000000" by simp
  have "length (fst p) \<le> 32 \<and> length (snd p) \<le> 1002" if p: "p \<in> set ?s" for p
  proof -
    from store_objects_ids [of "fst p" "snd p"] p obtain e where
      e: "e \<in> set (demo_objects @ [demo_root])" "enc_id e = fst p" "snd p = storage_blob_from_parts demo_X (enc_kind e) (enc_payload e)"
      by (metis prod.collapse)
    have "length (enc_id e) \<le> 32" using e(1) unfolding demo_object_set by (auto simp: demo_id demo_digest_def)
    then show ?thesis using e demo_blob [OF demo_payloads [OF e(1)]] by simp
  qed
  from objects_bytes_length [OF this] have "length (objects_bytes ?s) \<le> 4 + length ?s * 1042" by simp
  also have "\<dots> \<le> 20000" using n by simp
  finally show "addressable (encode_container (enc_id demo_root) ?s)"
    by (simp add: encode_container_split addressable_def header_bytes_def put_u16_def demo_root_def demo_id demo_digest_def)
qed

definition demo_hmac :: "u8 list \<Rightarrow> u8 list \<Rightarrow> u8 list" where
  "demo_hmac k bs = demo_digest (k @ bs)"

lemma demo_hmac_length: "length (demo_hmac k bs) = 32"
  by (simp add: demo_hmac_def demo_digest_def min_def)

theorem container_round_trip_witness:
  "decode_container (encode_container (replicate 32 1) [(replicate 32 0, [0, 1]), (replicate 32 1, [2])]) =
     Ok \<lparr>ct_root = replicate 32 1, ct_objects = [(replicate 32 0, [0, 1]), (replicate 32 1, [2])]\<rparr>"
proof -
  let ?os = "[(replicate 32 0, [0, 1]), (replicate 32 1, [2])] :: objects"
  have "replicate 32 (0 :: u8) < replicate 32 1" by (simp add: numeral_eq_Suc)
  then have "bt_sorted ?os" by (simp add: bt_sorted_def)
  moreover have "objects_ok ?os" by (simp add: objects_ok_def object_ok_def valid_id_def addressable_def)
  moreover have "addressable (encode_container (replicate 32 1) ?os)"
    by (simp add: encode_container_def addressable_def put_u16_def put_u32_def put_object_def MAGIC_def)
  ultimately show ?thesis
    using container_round_trip [of "replicate 32 1" ?os] by (simp add: valid_id_def)
qed

theorem container_untrusted_witness:
  "decode_container (MAGIC @ [9] @ [0] @ put_u16 7 @ put_u16 3 @ []) = Err (SnapshotTooNew 3 2)"
proof -
  have "addressable (MAGIC @ [9] @ [0] @ put_u16 7 @ put_u16 3 @ [])" by (simp add: addressable_def MAGIC_def put_u16_def)
  from container_untrusted [OF this, of undefined 9 0 7 3 "[]" 0 "[]" "[]"] show ?thesis by simp
qed

section \<open>Resuming\<close>

lemma demo_sorted: "sort_vfs demo_vfs =
    map (\<lambda>d. \<lparr>ve_path = lit d, ve_kind = KDirectory, ve_mode = MODE_755\<rparr>) [''/'', ''/dev'', ''/dev/fd''] @
    map (\<lambda>f. \<lparr>ve_path = lit f, ve_kind = KFile [], ve_mode = MODE_666\<rparr>) [''/dev/null'', ''/dev/random'', ''/dev/urandom''] @
    map (\<lambda>d. \<lparr>ve_path = lit d, ve_kind = KDirectory, ve_mode = MODE_755\<rparr>) [''/home'', ''/home/user'', ''/tmp''] @
    [\<lparr>ve_path = lit ''/tmp/f'', ve_kind = KFile [1, 2], ve_mode = MODE_644\<rparr>]"
  by (simp add: sort_vfs_def demo_vfs_def lit_def as_bytes_def utf8_char_def)

lemma demo_restored: "fst (restore 0 (sort_vfs demo_vfs) (new_fs 0)) = Ok ()"
  unfolding demo_sorted
  by (simp add: new_fs_def with_limits_def restore_def path_eval snapshot_entry_counts_toward_file_count_def
      check_file_size_def check_final_file_count_def bytes_len_def)

definition demo_live :: "bool live" where
  "demo_live = \<lparr>lv_interpreter = False, lv_fs = new_fs 0, lv_counters = new_counters, lv_caps = demo_caps\<rparr>"

definition demo_shell_ops :: "(bool, bool) shell_ops" where
  "demo_shell_ops = \<lparr>so_validate = \<lambda>_ _. None, so_reset_builtins = \<lambda>i. i, so_install = \<lambda>s _. s\<rparr>"


section \<open>A diff\<close>

definition diff_entry :: tree_entry where
  "diff_entry = \<lparr>te_path = lit ''/a'', te_mode = 493, te_kind = TDirectory\<rparr>"

definition diff_X :: "bool outside" where
  "diff_X = demo_X\<lparr>parse_commit := \<lambda>bs. Some (demo_commit\<lparr>
     cm_tree := if bs = [1] then None else Some (demo_digest (KIND_TREE # tree_bytes [diff_entry]))\<rparr>)\<rparr>"

definition diff_store :: store where
  "diff_store = [demo_digest [KIND_COMMIT, 1] \<mapsto> [0, KIND_COMMIT, 1], demo_digest [KIND_COMMIT, 2] \<mapsto> [0, KIND_COMMIT, 2],
     demo_digest (KIND_TREE # tree_bytes [diff_entry]) \<mapsto> 0 # KIND_TREE # tree_bytes [diff_entry]]"

theorem diff_is_exact_witness:
  "\<exists>d. diff_commits diff_X (demo_digest [KIND_COMMIT, 1]) (demo_digest [KIND_COMMIT, 2]) diff_store = Ok d \<and>
     set (sd_added d) = {lit ''/a''} \<and> sd_removed d = [] \<and> sd_modified d = [] \<and> \<not> diff_is_empty d"
proof -
  let ?t = "demo_digest (KIND_TREE # tree_bytes [diff_entry])"
  let ?a = "demo_digest [KIND_COMMIT, 1]" and ?b = "demo_digest [KIND_COMMIT, 2]"
  have ids: "?a \<noteq> ?b" "?t \<noteq> ?a" "?t \<noteq> ?b" by (simp_all add: demo_digest_Cons kind_defs take_Cons')
  have load: "load_object diff_X (demo_digest (k # p)) k diff_store = Ok p" if "diff_store (demo_digest (k # p)) = Some (0 # k # p)" for k p
    using that by (simp add: load_object_def from_storage_blob_def decompress_def COMPRESSION_NONE_def from_storage_def object_id_of_def
        diff_X_def expect_kind_def)
  have stored: "diff_store ?a = Some [0, KIND_COMMIT, 1]" "diff_store ?b = Some [0, KIND_COMMIT, 2]"
    "diff_store ?t = Some (0 # KIND_TREE # tree_bytes [diff_entry])"
    using ids by (simp_all add: diff_store_def)
  have commits: "read_commit diff_X ?a diff_store = Ok (demo_commit\<lparr>cm_tree := None\<rparr>)"
    "read_commit diff_X ?b diff_store = Ok (demo_commit\<lparr>cm_tree := Some ?t\<rparr>)"
    using load [OF stored(1)] load [OF stored(2)]
    by (simp_all add: read_commit_def decode_commit_def) (simp_all add: diff_X_def demo_commit_def)
  have "tree_entries_ok [diff_entry]" "addressable (tree_bytes [diff_entry])"
    by (simp_all add: tree_entries_ok_def entry_ok_def storable_def scalar_def addressable_def diff_entry_def tree_bytes_def
        entry_bytes_def kind_bytes_def put_u32_def as_bytes_def utf8_char_def lit_def)
  then have tree: "read_tree diff_X (cm_tree (demo_commit\<lparr>cm_tree := Some ?t\<rparr>)) diff_store = Ok [diff_entry]"
    using load [OF stored(3)] by (simp add: read_tree_def decode_tree_bytes)
  have none: "read_tree diff_X (cm_tree (demo_commit\<lparr>cm_tree := None\<rparr>)) diff_store = Ok []" by (simp add: read_tree_def)
  have "text_paths []" "text_paths [diff_entry]" by (simp_all add: text_paths_def diff_entry_def lit_def scalar_def)
  note exact = diff_is_exact [OF commits none tree this]
  have at: "entry_at [] p = None" "entry_at [diff_entry] p = (if p = lit ''/a'' then Some diff_entry else None)" for p
    by (auto simp: entry_at_def diff_entry_def)
  then have "entry_at [] \<noteq> entry_at [diff_entry]" by (metis option.distinct(1))
  with exact show ?thesis by (auto simp: at split: if_splits)
qed

section \<open>A store whose history is a cycle\<close>

definition cycle_X :: "bool outside" where
  "cycle_X = demo_X\<lparr>parse_commit := \<lambda>bs. Some (demo_commit\<lparr>
     cm_parents := if bs = [1] then [demo_digest [KIND_COMMIT, 2]] else [demo_digest [KIND_COMMIT, 1]]\<rparr>)\<rparr>"

theorem ancestry_on_any_store_witness:
  "\<exists>ids. ancestry cycle_X (demo_digest [KIND_COMMIT, 1]) diff_store 10 = Ok ids \<and>
     distinct ids \<and> hd ids = demo_digest [KIND_COMMIT, 1] \<and> demo_digest [KIND_COMMIT, 2] \<in> set ids"
proof -
  let ?a = "demo_digest [KIND_COMMIT, 1]" and ?b = "demo_digest [KIND_COMMIT, 2]"
  let ?t = "demo_digest (KIND_TREE # tree_bytes [diff_entry])"
  have ids: "?a \<noteq> ?b" "?t \<noteq> ?a" "?t \<noteq> ?b" by (simp_all add: demo_digest_Cons kind_defs take_Cons')
  have stored: "diff_store ?a = Some [0, KIND_COMMIT, 1]" "diff_store ?b = Some [0, KIND_COMMIT, 2]"
    using ids by (simp_all add: diff_store_def)
  have load: "load_object cycle_X (demo_digest (k # p)) k diff_store = Ok p" if "diff_store (demo_digest (k # p)) = Some (0 # k # p)" for k p
    using that by (simp add: load_object_def from_storage_blob_def decompress_def COMPRESSION_NONE_def from_storage_def object_id_of_def
        cycle_X_def expect_kind_def)
  have a: "read_commit cycle_X ?a diff_store = Ok (demo_commit\<lparr>cm_parents := [?b]\<rparr>)"
    using load [OF stored(1)] by (simp add: read_commit_def decode_commit_def) (simp add: cycle_X_def demo_commit_def MAX_PARENTS_def)
  have b: "read_commit cycle_X ?b diff_store = Ok (demo_commit\<lparr>cm_parents := [?a]\<rparr>)"
    using load [OF stored(2)] by (simp add: read_commit_def decode_commit_def) (simp add: cycle_X_def demo_commit_def MAX_PARENTS_def)
  have run: "ancestry cycle_X ?a diff_store 10 = Ok [?a, ?b]"
    using ids(1) stored by (simp add: ancestry_def a b MAX_ANCESTRY_def del: demo_digest_def)
  show ?thesis
    using ancestry_on_any_store [where X = cycle_X and root = ?a and st = diff_store and limit = 10] ids(1) stored by (simp add: run a b)
qed

end
