(* ===== verification/NetIp.thy ===== *)
theory NetIp
  imports Prelude
begin

text \<open>
  IP addresses: the private ranges of \<open>network/allowlist.rs\<close>, the accessors of \<open>std::net\<close> it uses and the
  standard library's parser of address texts. The ranges the code tests octet by octet are shown to be
  intervals.
\<close>

unbundle bit_operations_syntax

datatype ip_addr = V4 "32 word" | V6 "128 word"

section \<open>Octets and segments\<close>

definition octets :: "32 word \<Rightarrow> u8 list" where
  "octets a = map (\<lambda>n. ucast (drop_bit n a)) [24, 16, 8, 0]"

definition segments :: "128 word \<Rightarrow> 16 word list" where
  "segments a = map (\<lambda>n. ucast (drop_bit n a)) [112, 96, 80, 64, 48, 32, 16, 0]"

definition v4_is_loopback :: "32 word \<Rightarrow> bool" where
  "v4_is_loopback a \<longleftrightarrow> octets a ! 0 = 127"

definition v4_is_private :: "32 word \<Rightarrow> bool" where
  "v4_is_private a \<longleftrightarrow>
     octets a ! 0 = 10 \<or>
     octets a ! 0 = 172 \<and> 16 \<le> octets a ! 1 \<and> octets a ! 1 \<le> 31 \<or>
     octets a ! 0 = 192 \<and> octets a ! 1 = 168"

definition v4_is_link_local :: "32 word \<Rightarrow> bool" where
  "v4_is_link_local a \<longleftrightarrow> octets a ! 0 = 169 \<and> octets a ! 1 = 254"

definition v4_is_unspecified :: "32 word \<Rightarrow> bool" where
  "v4_is_unspecified a \<longleftrightarrow> a = 0"

definition is_private_ipv4 :: "32 word \<Rightarrow> bool" where
  "is_private_ipv4 a \<longleftrightarrow>
     v4_is_loopback a \<or> v4_is_private a \<or> v4_is_link_local a \<or> v4_is_unspecified a \<or>
     octets a ! 0 = 100 \<and> octets a ! 1 AND 0xC0 = 64"

text \<open>\<open>to_ipv4_mapped\<close> and \<open>to_ipv4\<close> of the standard library.\<close>

definition to_ipv4_mapped :: "128 word \<Rightarrow> 32 word option" where
  "to_ipv4_mapped a = (if take 6 (segments a) = [0, 0, 0, 0, 0, 0xFFFF] then Some (ucast a) else None)"

definition to_ipv4 :: "128 word \<Rightarrow> 32 word option" where
  "to_ipv4 a =
     (if take 5 (segments a) = [0, 0, 0, 0, 0] \<and> (segments a ! 5 = 0 \<or> segments a ! 5 = 0xFFFF) then Some (ucast a) else None)"

definition is_private_ip :: "ip_addr \<Rightarrow> bool" where
  "is_private_ip ip =
     (case ip of
        V4 a \<Rightarrow> is_private_ipv4 a
      | V6 a \<Rightarrow>
          (case to_ipv4_mapped a of
             Some v4 \<Rightarrow> is_private_ipv4 v4
           | None \<Rightarrow>
               (case to_ipv4 a of
                  Some v4 \<Rightarrow>
                    if list_all (\<lambda>s. s = 0) (take 6 (segments a)) \<and> segments a ! 6 \<noteq> 0 then is_private_ipv4 v4
                    else a = 1 \<or> a = 0 \<or> segments a ! 0 AND 0xFE00 = 0xFC00 \<or> segments a ! 0 AND 0xFFC0 = 0xFE80
                | None \<Rightarrow>
                    a = 1 \<or> a = 0 \<or> segments a ! 0 AND 0xFE00 = 0xFC00 \<or> segments a ! 0 AND 0xFFC0 = 0xFE80)))"

section \<open>The ranges\<close>

lemma and_high_bits: "w AND NOT (mask k) = push_bit k (drop_bit k w)" for w :: "'a::len word"
  by (rule bit_word_eqI) (auto simp: bit_simps)

lemma unat_octet: "unat (ucast (drop_bit n a) :: u8) = unat a div 2 ^ n mod 256" for a :: "32 word"
  by (simp add: unsigned_ucast_eq unsigned_take_bit_eq unat_drop_bit_eq drop_bit_nat_def take_bit_eq_mod)

lemma unat_segment: "unat (ucast (drop_bit n a) :: 16 word) = unat a div 2 ^ n mod 65536" for a :: "128 word"
  by (simp add: unsigned_ucast_eq unsigned_take_bit_eq unat_drop_bit_eq drop_bit_nat_def take_bit_eq_mod)

text \<open>The four octets of an address, read as numbers.\<close>

lemma octet_nat:
  "octets a ! 0 = b \<longleftrightarrow> unat a div 16777216 = unat b"
  "octets a ! 1 = b \<longleftrightarrow> unat a div 65536 mod 256 = unat b"
  "b \<le> octets a ! 1 \<longleftrightarrow> unat b \<le> unat a div 65536 mod 256"
  "octets a ! 1 \<le> b \<longleftrightarrow> unat a div 65536 mod 256 \<le> unat b"
proof -
  have "unat a < 4294967296" using unsigned_less [of a] by simp
  then have "unat a div 16777216 < 256" by linarith
  then have 0: "unat (octets a ! 0) = unat a div 16777216" by (simp add: octets_def unat_octet)
  have 1: "unat (octets a ! 1) = unat a div 65536 mod 256" by (simp add: octets_def unat_octet)
  show "octets a ! 0 = b \<longleftrightarrow> unat a div 16777216 = unat b" by (simp add: word_unat_eq_iff 0)
  show "octets a ! 1 = b \<longleftrightarrow> unat a div 65536 mod 256 = unat b" by (simp add: word_unat_eq_iff 1 del: One_nat_def)
  show "b \<le> octets a ! 1 \<longleftrightarrow> unat b \<le> unat a div 65536 mod 256" by (simp add: word_le_nat_alt 1 del: One_nat_def)
  show "octets a ! 1 \<le> b \<longleftrightarrow> unat a div 65536 mod 256 \<le> unat b" by (simp add: word_le_nat_alt 1 del: One_nat_def)
qed

lemma cgnat_octet: "b AND 0xC0 = 64 \<longleftrightarrow> 64 \<le> b \<and> b \<le> 127" for b :: u8
proof -
  have m: "(0xC0 :: u8) = NOT (mask 6)" by (simp add: mask_eq_exp_minus_1)
  have "b AND 0xC0 = 64 \<longleftrightarrow> unat (b AND 0xC0) = 64" by (simp add: word_unat_eq_iff)
  also have "unat (b AND 0xC0) = unat b div 64 * 64"
  proof -
    have "unat (push_bit 6 (drop_bit 6 b)) = unat b div 64 * 64"
    proof -
      have "unat b < 256" using unsigned_less [of b] by simp
      then have "unat b div 64 * 64 < 256" by linarith
      then show ?thesis by (simp add: unsigned_push_bit_eq unat_drop_bit_eq drop_bit_nat_def push_bit_nat_def take_bit_eq_mod)
    qed
    then show ?thesis unfolding m and_high_bits .
  qed
  also have "unat b div 64 * 64 = 64 \<longleftrightarrow> unat b div 64 = 1" by simp
  also have "\<dots> \<longleftrightarrow> 64 \<le> unat b \<and> unat b \<le> 127" by linarith
  also have "\<dots> \<longleftrightarrow> 64 \<le> b \<and> b \<le> 127" by (simp add: word_le_nat_alt)
  finally show ?thesis .
qed

text \<open>The private IPv4 addresses as intervals of 32-bit numbers.\<close>

definition private_v4_ranges :: "(nat \<times> nat) list" where
  "private_v4_ranges =
     [(0x7F000000, 0x7FFFFFFF), (0x0A000000, 0x0AFFFFFF), (0xAC100000, 0xAC1FFFFF), (0xC0A80000, 0xC0A8FFFF),
      (0xA9FE0000, 0xA9FEFFFF), (0, 0), (0x64400000, 0x647FFFFF)]"

definition in_ranges :: "nat \<Rightarrow> (nat \<times> nat) list \<Rightarrow> bool" where
  "in_ranges n rs \<longleftrightarrow> list_ex (\<lambda>(lo, hi). lo \<le> n \<and> n \<le> hi) rs"

lemma octets_interval:
  fixes n :: nat
  shows "n div 16777216 = q \<longleftrightarrow> q * 16777216 \<le> n \<and> n \<le> q * 16777216 + 16777215"
    and "n div 16777216 = q \<and> lo \<le> n div 65536 mod 256 \<and> n div 65536 mod 256 \<le> hi \<and> hi < 256 \<longleftrightarrow>
         hi < 256 \<and> q * 16777216 + lo * 65536 \<le> n \<and> n \<le> q * 16777216 + hi * 65536 + 65535"
proof -
  show "n div 16777216 = q \<longleftrightarrow> q * 16777216 \<le> n \<and> n \<le> q * 16777216 + 16777215" by linarith
  have d: "n div 16777216 = n div 65536 div 256" by (simp add: div_mult2_eq)
  define m where "m = n div 65536"
  define h r where "h = m div 256" and "r = m mod 256"
  have m: "m * 65536 \<le> n" "n \<le> m * 65536 + 65535" unfolding m_def by linarith+
  have r: "m = h * 256 + r" "r < 256" unfolding h_def r_def by simp_all
  have "h = q \<and> lo \<le> r \<and> r \<le> hi \<and> hi < 256 \<longleftrightarrow>
      hi < 256 \<and> q * 16777216 + lo * 65536 \<le> n \<and> n \<le> q * 16777216 + hi * 65536 + 65535"
  proof (intro iffI conjI; elim conjE)
    assume a: "hi < 256" "q * 16777216 + lo * 65536 \<le> n" "n \<le> q * 16777216 + hi * 65536 + 65535"
    show q: "h = q" using a m r by linarith
    show "lo \<le> r" "r \<le> hi" using a m r q by linarith+
  qed (use m r in linarith)+
  then show "n div 16777216 = q \<and> lo \<le> n div 65536 mod 256 \<and> n div 65536 mod 256 \<le> hi \<and> hi < 256 \<longleftrightarrow>
      hi < 256 \<and> q * 16777216 + lo * 65536 \<le> n \<and> n \<le> q * 16777216 + hi * 65536 + 65535"
    unfolding d h_def r_def m_def .
qed

lemma private_ipv4_ranges: "is_private_ipv4 a \<longleftrightarrow> in_ranges (unat a) private_v4_ranges"
proof -
  note i = octets_interval(2) [of "unat a"]
  have "octets a ! 0 = 172 \<and> 16 \<le> octets a ! 1 \<and> octets a ! 1 \<le> 31 \<longleftrightarrow> 0xAC100000 \<le> unat a \<and> unat a \<le> 0xAC1FFFFF"
    using i [of 172 16 31] unfolding octet_nat by simp
  moreover have "octets a ! 0 = 192 \<and> octets a ! 1 = 168 \<longleftrightarrow> 0xC0A80000 \<le> unat a \<and> unat a \<le> 0xC0A8FFFF"
    using i [of 192 168 168] unfolding octet_nat by (simp add: conj_commute eq_iff [of "unat a div 65536 mod 256"])
  moreover have "octets a ! 0 = 169 \<and> octets a ! 1 = 254 \<longleftrightarrow> 0xA9FE0000 \<le> unat a \<and> unat a \<le> 0xA9FEFFFF"
    using i [of 169 254 254] unfolding octet_nat by (simp add: conj_commute eq_iff [of "unat a div 65536 mod 256"])
  moreover have "octets a ! 0 = 100 \<and> octets a ! 1 AND 0xC0 = 64 \<longleftrightarrow> 0x64400000 \<le> unat a \<and> unat a \<le> 0x647FFFFF"
    using i [of 100 64 127] unfolding cgnat_octet octet_nat by simp
  moreover have "octets a ! 0 = 127 \<longleftrightarrow> 0x7F000000 \<le> unat a \<and> unat a \<le> 0x7FFFFFFF"
    "octets a ! 0 = 10 \<longleftrightarrow> 0x0A000000 \<le> unat a \<and> unat a \<le> 0x0AFFFFFF"
    using octets_interval(1) [of "unat a"] by (simp_all add: octet_nat)
  moreover have "a = 0 \<longleftrightarrow> unat a = 0" by (simp add: unat_eq_0)
  ultimately show ?thesis
    unfolding is_private_ipv4_def v4_is_loopback_def v4_is_private_def v4_is_link_local_def v4_is_unspecified_def
      in_ranges_def private_v4_ranges_def by auto
qed

text \<open>A segment below zero segments is the whole of the number above the next.\<close>

lemma segment_below_zero: "n div (k * 65536) = 0 \<Longrightarrow> n div k mod 65536 = s \<longleftrightarrow> n div k = s" for n k s :: nat
  by (simp add: div_mult2_eq div_eq_0_iff)

lemma segment_nat:
  "i < 8 \<Longrightarrow> segments a ! i = w \<longleftrightarrow> unat a div 2 ^ (112 - 16 * i) mod 65536 = unat w"
proof -
  assume "i < 8"
  then have "i \<in> {0, 1, 2, 3, 4, 5, 6, 7}" by auto
  then have "unat (segments a ! i) = unat a div 2 ^ (112 - 16 * i) mod 65536"
    by (auto simp: segments_def unat_segment unat_segment [of 0, simplified] unat_drop_bit_eq drop_bit_nat_def)
  then show ?thesis by (simp add: word_unat_eq_iff)
qed

lemma take_segments: "take 5 (segments a) = [segments a ! 0, segments a ! 1, segments a ! 2, segments a ! 3, segments a ! 4]"
  "take 6 (segments a) = [segments a ! 0, segments a ! 1, segments a ! 2, segments a ! 3, segments a ! 4, segments a ! 5]"
  by (simp_all add: segments_def numeral_eq_Suc)

lemma high_segments:
  "take 5 (segments a) = [0, 0, 0, 0, 0] \<longleftrightarrow> unat a div 2 ^ 48 = 0"
proof -
  have "unat a < 2 ^ 128" using unsigned_less [of a] by simp
  then have top: "unat a div (2 ^ 112 * 65536) = 0" by simp
  have 0: "segments a ! 0 = 0 \<longleftrightarrow> unat a div 2 ^ 112 = 0"
    using segment_below_zero [OF top, of 0] by (simp add: segment_nat)
  have step: "unat a div 2 ^ k = 0 \<and> unat a div 2 ^ j mod 65536 = 0 \<longleftrightarrow> unat a div 2 ^ j = 0" if "k = j + 16" for k j
  proof -
    have k: "(2 :: nat) ^ k = 2 ^ j * 65536" by (simp add: \<open>k = j + 16\<close> power_add)
    show ?thesis using segment_below_zero [of "unat a" "2 ^ j" 0] unfolding k by (auto simp: div_mult2_eq)
  qed
  have "take 5 (segments a) = [0, 0, 0, 0, 0] \<longleftrightarrow>
      unat a div 2 ^ 112 = 0 \<and> unat a div 2 ^ 96 mod 65536 = 0 \<and> unat a div 2 ^ 80 mod 65536 = 0 \<and>
      unat a div 2 ^ 64 mod 65536 = 0 \<and> unat a div 2 ^ 48 mod 65536 = 0"
    using 0 by (simp add: take_segments segment_nat del: power_numeral)
  also have "\<dots> \<longleftrightarrow> unat a div 2 ^ 48 = 0"
    unfolding conj_assoc [symmetric] by (subst step, simp)+ (rule refl)
  finally show ?thesis .
qed

lemma segment_5: "unat a div 2 ^ 48 = 0 \<Longrightarrow> segments a ! 5 = w \<longleftrightarrow> unat a div 2 ^ 32 = unat w"
  using segment_below_zero [of "unat a" "2 ^ 32" "unat w"] by (simp add: segment_nat)

lemma segment_6: "unat a div 2 ^ 32 = 0 \<Longrightarrow> segments a ! 6 = w \<longleftrightarrow> unat a div 2 ^ 16 = unat w"
  using segment_below_zero [of "unat a" "2 ^ 16" "unat w"] by (simp add: segment_nat)

lemma low_word: "unat (ucast a :: 32 word) = unat a mod 2 ^ 32" for a :: "128 word"
  by (simp add: unsigned_ucast_eq unsigned_take_bit_eq take_bit_eq_mod)

lemma mapped_range:
  "to_ipv4_mapped a = (if unat a div 2 ^ 32 = 65535 then Some (ucast a) else None)"
proof -
  have "unat a div 2 ^ 48 = unat a div 2 ^ 32 div 65536" by (simp add: div_mult2_eq [of _ "2 ^ 32" 65536, simplified])
  moreover have "take 6 (segments a) = [0, 0, 0, 0, 0, 0xFFFF] \<longleftrightarrow> take 5 (segments a) = [0, 0, 0, 0, 0] \<and> segments a ! 5 = 0xFFFF"
    by (simp add: take_segments)
  ultimately have "take 6 (segments a) = [0, 0, 0, 0, 0, 0xFFFF] \<longleftrightarrow> unat a div 2 ^ 32 = 65535"
    using segment_5 [where a = a and w = "0xFFFF"] by (auto simp: high_segments)
  then show ?thesis by (simp add: to_ipv4_mapped_def)
qed

lemma compatible_range:
  "to_ipv4_mapped a = None \<Longrightarrow> to_ipv4 a = (if unat a div 2 ^ 32 = 0 then Some (ucast a) else None)"
  "list_all (\<lambda>s. s = 0) (take 6 (segments a)) \<longleftrightarrow> unat a div 2 ^ 32 = 0"
proof -
  have d: "unat a div 2 ^ 48 = unat a div 2 ^ 32 div 65536" by (simp add: div_mult2_eq [of _ "2 ^ 32" 65536, simplified])
  have z: "take 5 (segments a) = [0, 0, 0, 0, 0] \<and> segments a ! 5 = 0 \<longleftrightarrow> unat a div 2 ^ 32 = 0"
    using segment_5 [where a = a and w = 0] d by (auto simp: high_segments)
  then show "list_all (\<lambda>s. s = 0) (take 6 (segments a)) \<longleftrightarrow> unat a div 2 ^ 32 = 0"
    by (auto simp: take_segments)
  assume "to_ipv4_mapped a = None"
  then have "\<not> (take 5 (segments a) = [0, 0, 0, 0, 0] \<and> segments a ! 5 = 0xFFFF)"
    by (auto simp: to_ipv4_mapped_def take_segments split: if_splits)
  then show "to_ipv4 a = (if unat a div 2 ^ 32 = 0 then Some (ucast a) else None)"
    using z by (auto simp: to_ipv4_def)
qed

lemma and_16: "w AND 0xFE00 = 0xFC00 \<longleftrightarrow> unat w div 512 = 126" "w AND 0xFFC0 = 0xFE80 \<longleftrightarrow> unat w div 64 = 1018" for w :: "16 word"
proof -
  have k: "unat (w AND NOT (mask k)) = unat w div 2 ^ k * 2 ^ k" if "k \<le> 16" for k
  proof -
    have "unat w div 2 ^ k * 2 ^ k \<le> unat w" by simp
    also have "\<dots> < 65536" using unsigned_less [of w] by simp
    finally show ?thesis
      unfolding and_high_bits by (simp add: unsigned_push_bit_eq unat_drop_bit_eq drop_bit_nat_def push_bit_nat_def take_bit_eq_mod)
  qed
  have "(0xFE00 :: 16 word) = NOT (mask 9)" "(0xFFC0 :: 16 word) = NOT (mask 6)" by (simp_all add: mask_eq_exp_minus_1)
  then have "unat (w AND 0xFE00) = unat w div 512 * 512" "unat (w AND 0xFFC0) = unat w div 64 * 64"
    using k [of 9] k [of 6] by simp_all
  then show "w AND 0xFE00 = 0xFC00 \<longleftrightarrow> unat w div 512 = 126" "w AND 0xFFC0 = 0xFE80 \<longleftrightarrow> unat w div 64 = 1018"
    by (simp_all add: word_unat_eq_iff)
qed

text \<open>The private IPv6 addresses, as intervals of 128-bit numbers and of the numbers embedded in them.\<close>

definition private_v6 :: "nat \<Rightarrow> bool" where
  "private_v6 n \<longleftrightarrow>
     0xFFFF00000000 \<le> n \<and> n \<le> 0xFFFFFFFFFFFF \<and> in_ranges (n - 0xFFFF00000000) private_v4_ranges \<or>
     0x10000 \<le> n \<and> n \<le> 0xFFFFFFFF \<and> in_ranges n private_v4_ranges \<or>
     n \<le> 1 \<or>
     0xFC000000000000000000000000000000 \<le> n \<and> n \<le> 0xFDFFFFFFFFFFFFFFFFFFFFFFFFFFFFFF \<or>
     0xFE800000000000000000000000000000 \<le> n \<and> n \<le> 0xFEBFFFFFFFFFFFFFFFFFFFFFFFFFFFFF"

lemma first_segment:
  "segments a ! 0 AND 0xFE00 = 0xFC00 \<longleftrightarrow> 0xFC000000000000000000000000000000 \<le> unat a \<and> unat a \<le> 0xFDFFFFFFFFFFFFFFFFFFFFFFFFFFFFFF"
  "segments a ! 0 AND 0xFFC0 = 0xFE80 \<longleftrightarrow> 0xFE800000000000000000000000000000 \<le> unat a \<and> unat a \<le> 0xFEBFFFFFFFFFFFFFFFFFFFFFFFFFFFFF"
proof -
  have "unat a < 2 ^ 128" using unsigned_less [of a] by simp
  then have "unat a div 2 ^ 112 < 65536" by (simp add: less_mult_imp_div_less)
  then have s: "unat (segments a ! 0) = unat a div 2 ^ 112" by (simp add: segments_def unat_segment)
  show "segments a ! 0 AND 0xFE00 = 0xFC00 \<longleftrightarrow> 0xFC000000000000000000000000000000 \<le> unat a \<and> unat a \<le> 0xFDFFFFFFFFFFFFFFFFFFFFFFFFFFFFFF"
    unfolding and_16 s div_mult2_eq [symmetric] by simp linarith
  show "segments a ! 0 AND 0xFFC0 = 0xFE80 \<longleftrightarrow> 0xFE800000000000000000000000000000 \<le> unat a \<and> unat a \<le> 0xFEBFFFFFFFFFFFFFFFFFFFFFFFFFFFFF"
    unfolding and_16 s div_mult2_eq [symmetric] by simp linarith
qed

lemma private_ipv6_ranges: "is_private_ip (V6 a) \<longleftrightarrow> private_v6 (unat a)"
proof -
  let ?n = "unat a"
  have small: "a = 0 \<longleftrightarrow> ?n = 0" "a = 1 \<longleftrightarrow> ?n = 1" by (simp_all add: word_unat_eq_iff)
  consider "?n div 2 ^ 32 = 65535" | "?n div 2 ^ 32 = 0" | "?n div 2 ^ 32 \<noteq> 65535" "?n div 2 ^ 32 \<noteq> 0" by blast
  then show ?thesis
  proof cases
    case 1
    then have n: "0xFFFF00000000 \<le> ?n" "?n \<le> 0xFFFFFFFFFFFF" by simp_all
    have "?n mod 2 ^ 32 = ?n - 0xFFFF00000000" using 1 by (simp add: modulo_nat_def)
    then have "is_private_ip (V6 a) \<longleftrightarrow> in_ranges (?n - 0xFFFF00000000) private_v4_ranges"
      using 1 by (simp add: is_private_ip_def mapped_range private_ipv4_ranges low_word)
    then show ?thesis using n by (auto simp: private_v6_def)
  next
    case 2
    then have n: "?n < 0x100000000" by simp
    then have low: "?n mod 2 ^ 32 = ?n" by simp
    have none: "to_ipv4_mapped a = None" using 2 by (simp add: mapped_range)
    have six: "segments a ! 6 = 0 \<longleftrightarrow> ?n < 65536" using segment_6 [OF 2, of 0] by (simp add: div_eq_0_iff)
    have "is_private_ip (V6 a) \<longleftrightarrow> (if 65536 \<le> ?n then in_ranges ?n private_v4_ranges else ?n \<le> 1)"
      using n by (auto simp: is_private_ip_def none compatible_range(1) [OF none] compatible_range(2) 2 six first_segment small
          private_ipv4_ranges low_word low)
    then show ?thesis using n by (auto simp: private_v6_def)
  next
    case 3
    then have n: "\<not> (0xFFFF00000000 \<le> ?n \<and> ?n \<le> 0xFFFFFFFFFFFF)" "0xFFFFFFFF < ?n" by simp_all linarith+
    have none: "to_ipv4_mapped a = None" "to_ipv4 a = None" using 3 by (simp_all add: mapped_range compatible_range)
    show ?thesis using n unfolding is_private_ip_def private_v6_def first_segment small by (auto simp: none)
  qed
qed

section \<open>Address texts\<close>

text \<open>
  The parser of \<open>std::net\<close>: a parser takes a prefix of the text or fails without consuming, as \<open>read_atomically\<close>
  does. A number has at most \<open>max_digits\<close> digits, all that are there, and an IPv4 octet no leading zero.
\<close>

definition digit_value :: "nat \<Rightarrow> uchar \<Rightarrow> nat option" where
  "digit_value radix c =
     (let v = (if 48 \<le> c \<and> c \<le> 57 then Some (c - 48)
               else if 97 \<le> c \<and> c \<le> 122 then Some (c - 87)
               else if 65 \<le> c \<and> c \<le> 90 then Some (c - 55) else None)
      in case v of Some d \<Rightarrow> if d < radix then Some d else None | None \<Rightarrow> None)"

definition digits_value :: "nat \<Rightarrow> rstr \<Rightarrow> nat" where
  "digits_value radix ds = foldl (\<lambda>n c. n * radix + the (digit_value radix c)) 0 ds"

definition read_number :: "nat \<Rightarrow> nat \<Rightarrow> bool \<Rightarrow> nat \<Rightarrow> rstr \<Rightarrow> (nat \<times> rstr) option" where
  "read_number radix max_digits zero_prefix limit s =
     (let ds = takeWhile (\<lambda>c. digit_value radix c \<noteq> None) s; n = digits_value radix ds
      in if ds = [] \<or> max_digits < length ds \<or> \<not> zero_prefix \<and> hd ds = 48 \<and> 1 < length ds \<or> limit < n then None
         else Some (n, drop (length ds) s))"

definition read_char :: "uchar \<Rightarrow> rstr \<Rightarrow> rstr option" where
  "read_char c s = (case s of d # r \<Rightarrow> if d = c then Some r else None | [] \<Rightarrow> None)"

definition read_separator :: "uchar \<Rightarrow> nat \<Rightarrow> (rstr \<Rightarrow> ('a \<times> rstr) option) \<Rightarrow> rstr \<Rightarrow> ('a \<times> rstr) option" where
  "read_separator c i inner s = (if 0 < i then Option.bind (read_char c s) inner else inner s)"

definition read_octet :: "nat \<Rightarrow> rstr \<Rightarrow> (nat \<times> rstr) option" where
  "read_octet i = read_separator 46 i (read_number 10 3 False 255)"

definition read_ipv4_addr :: "rstr \<Rightarrow> (nat list \<times> rstr) option" where
  "read_ipv4_addr s =
     Option.bind (read_octet 0 s) (\<lambda>(n0, s). Option.bind (read_octet 1 s) (\<lambda>(n1, s).
     Option.bind (read_octet 2 s) (\<lambda>(n2, s). Option.bind (read_octet 3 s) (\<lambda>(n3, s). Some ([n0, n1, n2, n3], s)))))"

text \<open>The groups of an IPv6 address from index \<open>i\<close> to \<open>limit\<close>, with the flag of an embedded IPv4 address.\<close>

fun read_groups :: "nat \<Rightarrow> nat \<Rightarrow> nat \<Rightarrow> rstr \<Rightarrow> nat list \<times> bool \<times> rstr" where
  "read_groups 0 i limit s = ([], False, s)"
| "read_groups (Suc left) i limit s =
     (case (if i + 1 < limit then read_separator 58 i read_ipv4_addr s else None) of
        Some (octs, s) \<Rightarrow> ([octs ! 0 * 256 + octs ! 1, octs ! 2 * 256 + octs ! 3], True, s)
      | None \<Rightarrow>
          (case read_separator 58 i (read_number 16 4 True 65535) s of
             Some (g, s) \<Rightarrow> (case read_groups left (i + 1) limit s of (gs, v4, s) \<Rightarrow> (g # gs, v4, s))
           | None \<Rightarrow> ([], False, s)))"

definition read_ipv6_addr :: "rstr \<Rightarrow> (nat list \<times> rstr) option" where
  "read_ipv6_addr s =
     (case read_groups 8 0 8 s of (head, head_v4, s) \<Rightarrow>
        if length head = 8 then Some (head, s)
        else if head_v4 then None
        else Option.bind (read_char 58 s) (\<lambda>s. Option.bind (read_char 58 s) (\<lambda>s.
          (case read_groups (7 - length head) 0 (7 - length head) s of (tail, _, s) \<Rightarrow>
             Some (head @ replicate (8 - length head - length tail) 0 @ tail, s)))))"

definition of_groups :: "nat \<Rightarrow> nat list \<Rightarrow> nat" where
  "of_groups base gs = foldl (\<lambda>n g. n * base + g) 0 gs"

definition parse_ip :: "rstr \<Rightarrow> ip_addr option" where
  "parse_ip s =
     (case read_ipv4_addr s of
        Some (octs, r) \<Rightarrow> if r = [] then Some (V4 (of_nat (of_groups 256 octs))) else None
      | None \<Rightarrow>
          (case read_ipv6_addr s of
             Some (gs, r) \<Rightarrow> if r = [] then Some (V6 (of_nat (of_groups 65536 gs))) else None
           | None \<Rightarrow> None))"

text \<open>The text of an IPv4 address, as \<open>Display\<close> writes it, is read back.\<close>

definition octet_text :: "nat \<Rightarrow> rstr" where
  "octet_text n =
     (if n < 10 then [48 + n] else if n < 100 then [48 + n div 10, 48 + n mod 10]
      else [48 + n div 100, 48 + n div 10 mod 10, 48 + n mod 10])"

definition ipv4_text :: "nat list \<Rightarrow> rstr" where
  "ipv4_text octs = octet_text (octs ! 0) @ 46 # octet_text (octs ! 1) @ 46 # octet_text (octs ! 2) @ 46 # octet_text (octs ! 3)"

lemma digit_value_decimal: "d < 10 \<Longrightarrow> digit_value 10 (48 + d) = Some d"
  by (simp add: digit_value_def)

lemma read_number_octet:
  assumes "n < 256" and "r = [] \<or> hd r = 46"
  shows "read_number 10 3 False 255 (octet_text n @ r) = Some (n, r)"
proof -
  have digits: "n div 100 < 10" "n div 10 mod 10 < 10" "n mod 10 < 10" "n < 100 \<Longrightarrow> n div 10 < 10" using assms(1) by simp_all
  have n: "n = n div 10 * 10 + n mod 10" by simp
  have h: "n div 10 = n div 100 * 10 + n div 10 mod 10" using div_mult2_eq [of n 10 10] by simp
  have stop: "takeWhile (\<lambda>c. digit_value 10 c \<noteq> None) r = []"
    using assms(2) by (cases r) (auto simp: digit_value_def)
  have pos: "\<not> n < 10 \<Longrightarrow> n < 100 \<Longrightarrow> n div 10 \<noteq> 0" "\<not> n < 100 \<Longrightarrow> n div 100 \<noteq> 0" by (simp_all add: div_eq_0_iff)
  consider "n < 10" | "\<not> n < 10" "n < 100" | "\<not> n < 100" by blast
  then show ?thesis
  proof cases
    case 1
    then show ?thesis using stop assms(1)
      by (simp add: read_number_def octet_text_def digit_value_decimal digits_value_def)
  next
    case 2
    then show ?thesis using stop assms(1) digits pos(1) n
      by (simp add: read_number_def octet_text_def digit_value_decimal digits_value_def)
  next
    case 3
    then have "\<not> n < 10" by simp
    with 3 show ?thesis using stop assms(1) digits pos(2) n h
      by (simp add: read_number_def octet_text_def digit_value_decimal digits_value_def)
  qed
qed

lemma parse_ipv4_text:
  assumes "length octs = 4" and "list_all (\<lambda>n. n < 256) octs"
  shows "parse_ip (ipv4_text octs) = Some (V4 (of_nat (of_groups 256 octs)))"
proof -
  from assms(1) obtain a b c d where o: "octs = [a, b, c, d]" by (auto simp: length_Suc_conv numeral_eq_Suc)
  then have "a < 256" "b < 256" "c < 256" "d < 256" using assms(2) by simp_all
  then show ?thesis unfolding o
    by (simp add: parse_ip_def read_ipv4_addr_def read_octet_def read_separator_def ipv4_text_def read_number_octet read_char_def
        read_number_octet [of d "[]", simplified])
qed

text \<open>A host text in brackets, the form the \<open>url\<close> crate documents for IPv6 hosts, is not an address text.\<close>

lemma bracketed_not_ip: "parse_ip (91 # s) = None"
proof -
  have n: "read_number radix m z limit (91 # s) = None" for radix m z limit
    by (simp add: read_number_def digit_value_def)
  have 4: "read_ipv4_addr (91 # s) = None" by (simp add: read_ipv4_addr_def read_octet_def read_separator_def n)
  have "read_groups 8 0 8 (91 # s) = ([], False, 91 # s)"
    using read_groups.simps(2) [of 7 0 8 "91 # s"] by (simp add: read_separator_def n 4)
  then have "read_ipv6_addr (91 # s) = None" by (simp add: read_ipv6_addr_def read_char_def)
  with 4 show ?thesis by (simp add: parse_ip_def)
qed

end
