(* ===== verification/NetAllow.thy ===== *)
theory NetAllow
  imports NetIp Utf8
begin

text \<open>
  The allow list for network access, \<open>network/allowlist.rs\<close>. The parser of the \<open>url\<close> crate and its serialiser are
  parameters; a parsed URL is a record of what the code reads of it.
\<close>

section \<open>Parsed URLs\<close>

text \<open>\<open>u_known_port\<close> is \<open>port_or_known_default\<close>, \<open>u_port\<close> the port written in the text.\<close>

record url =
  u_scheme :: rstr
  u_username :: rstr
  u_password :: "rstr option"
  u_host_str :: "rstr option"
  u_port :: "16 word option"
  u_known_port :: "16 word option"
  u_path :: rstr

record url_crate =
  parse_url :: "rstr \<Rightarrow> url option"
  url_to_string :: "url \<Rightarrow> rstr"

section \<open>The allow list\<close>

record network_allowlist =
  na_patterns :: "rstr list"
  na_allow_all :: bool
  na_block_private_ips :: bool

datatype block_reason = EmptyAllowlist | PrivateIp ip_addr | NotInAllowlist rstr

datatype url_match = Allowed | Blocked block_reason | Invalid

definition default_allowlist :: network_allowlist where
  "default_allowlist = \<lparr>na_patterns = [], na_allow_all = False, na_block_private_ips = True\<rparr>"

definition allow_all :: network_allowlist where
  "allow_all = \<lparr>na_patterns = [], na_allow_all = True, na_block_private_ips = True\<rparr>"

definition block_private_ips :: "bool \<Rightarrow> network_allowlist \<Rightarrow> network_allowlist" where
  "block_private_ips block al = al\<lparr>na_block_private_ips := block\<rparr>"

definition allow :: "rstr \<Rightarrow> network_allowlist \<Rightarrow> network_allowlist" where
  "allow pattern al = al\<lparr>na_patterns := List.insert pattern (na_patterns al)\<rparr>"

definition allow_many :: "rstr list \<Rightarrow> network_allowlist \<Rightarrow> network_allowlist" where
  "allow_many patterns al = fold allow patterns al"

definition redact_url :: "url_crate \<Rightarrow> rstr \<Rightarrow> rstr" where
  "redact_url U text =
     (case parse_url U text of
        Some u \<Rightarrow>
          url_to_string U (if u_username u \<noteq> [] \<or> u_password u \<noteq> None
            then u\<lparr>u_username := lit ''***'', u_password := None\<rparr> else u)
      | None \<Rightarrow> lit ''[invalid URL]'')"

text \<open>The match of a path, on the bytes of both texts as in the code.\<close>

definition path_matches :: "rstr \<Rightarrow> rstr \<Rightarrow> bool" where
  "path_matches url_path pattern_path =
     (if pattern_path = lit ''/'' \<or> pattern_path = [] then True
      else if \<not> starts_with url_path pattern_path then False
      else if \<not> ends_with pattern_path (lit ''/'') \<and> byte_len pattern_path < byte_len url_path
      then (let next_char = as_bytes url_path ! byte_len pattern_path in next_char = 47 \<or> next_char = 63 \<or> next_char = 35)
      else True)"

definition matches_pattern :: "url_crate \<Rightarrow> url \<Rightarrow> rstr \<Rightarrow> bool" where
  "matches_pattern U u pattern =
     (case parse_url U pattern of
        None \<Rightarrow> False
      | Some p \<Rightarrow>
          if u_scheme u \<noteq> u_scheme p then False
          else (case (u_host_str u, u_host_str p) of
                  (Some url_host, Some pattern_host) \<Rightarrow>
                    if url_host \<noteq> pattern_host then False
                    else if u_known_port u \<noteq> u_known_port p then False
                    else path_matches (u_path u) (u_path p)
                | _ \<Rightarrow> False))"

text \<open>The literal address of a host that the code blocks, if it is one.\<close>

definition private_literal :: "url \<Rightarrow> ip_addr option" where
  "private_literal u =
     (case Option.bind (u_host_str u) parse_ip of
        Some ip \<Rightarrow> if is_private_ip ip then Some ip else None
      | None \<Rightarrow> None)"

definition check_url :: "url_crate \<Rightarrow> network_allowlist \<Rightarrow> rstr \<Rightarrow> url_match" where
  "check_url U al text =
     (if na_allow_all al then Allowed
      else if na_patterns al = [] then Blocked EmptyAllowlist
      else case parse_url U text of
             None \<Rightarrow> Invalid
           | Some parsed \<Rightarrow>
               (case (if na_block_private_ips al then private_literal parsed else None) of
                  Some ip \<Rightarrow> Blocked (PrivateIp ip)
                | None \<Rightarrow>
                    if list_ex (matches_pattern U parsed) (na_patterns al) then Allowed
                    else Blocked (NotInAllowlist (redact_url U text))))"

definition is_allowed :: "url_crate \<Rightarrow> network_allowlist \<Rightarrow> rstr \<Rightarrow> bool" where
  "is_allowed U al text \<longleftrightarrow> check_url U al text = Allowed"

definition is_enabled :: "network_allowlist \<Rightarrow> bool" where
  "is_enabled al \<longleftrightarrow> na_allow_all al \<or> na_patterns al \<noteq> []"

section \<open>What a pattern covers\<close>

text \<open>The paths below a pattern's path, stated on characters: the path itself and what follows it at a boundary.\<close>

definition covers :: "rstr \<Rightarrow> rstr \<Rightarrow> bool" where
  "covers pattern_path path \<longleftrightarrow>
     pattern_path = [] \<or> pattern_path = lit ''/'' \<or> path = pattern_path \<or>
     (suffix (lit ''/'') pattern_path \<and> prefix pattern_path path) \<or>
     (\<exists>c r. path = pattern_path @ c # r \<and> c \<in> {47, 63, 35})"

lemma as_bytes_append: "as_bytes (s @ t) = as_bytes s @ as_bytes t"
  by (simp add: as_bytes_def)

lemma length_utf8_char: "length (utf8_char c) = len_utf8 c"
  by (simp add: utf8_char_def len_utf8_def)

lemma length_as_bytes: "length (as_bytes s) = byte_len s"
  by (induction s) (simp_all add: as_bytes_def length_utf8_char)

text \<open>The first byte of a character tells whether it is a given ASCII character.\<close>

lemma first_byte:
  assumes "scalar c" and "a < 128"
  shows "as_bytes (c # r) ! 0 = of_nat a \<longleftrightarrow> c = a"
proof -
  define b where "b = hd (utf8_char c)"
  have nth: "as_bytes (c # r) ! 0 = of_nat b"
    by (simp add: as_bytes_def utf8_char_def b_def)
  have "b < 256" using assms(1) by (auto simp: b_def utf8_char_def scalar_def)
  moreover have "b = a \<longleftrightarrow> c = a" using assms by (auto simp: b_def utf8_char_def)
  ultimately show ?thesis using assms(2) unfolding nth by (simp add: word_of_nat_eq_iff take_bit_eq_mod)
qed

lemma path_matches_covers:
  assumes "list_all scalar path"
  shows "path_matches path pattern \<longleftrightarrow> covers pattern path"
proof (cases "prefix pattern path")
  case True
  then obtain r where r: "path = pattern @ r" by (auto simp: prefix_def)
  have "as_bytes path ! byte_len pattern = as_bytes r ! 0" if "r \<noteq> []"
  proof -
    have "as_bytes r \<noteq> []" using that length_as_bytes [of r] by auto
    then show ?thesis unfolding r as_bytes_append by (simp add: nth_append length_as_bytes)
  qed
  then show ?thesis
    using assms first_byte [of _ 47] first_byte [of _ 63] first_byte [of _ 35]
    by (cases r) (auto simp: path_matches_def covers_def starts_with_def ends_with_def r Let_def)
qed (auto simp: path_matches_def covers_def starts_with_def)

text \<open>Same scheme, same host, same port.\<close>

definition same_origin :: "url \<Rightarrow> url \<Rightarrow> bool" where
  "same_origin u v \<longleftrightarrow> u_scheme u = u_scheme v \<and> u_host_str u = u_host_str v \<and> u_host_str u \<noteq> None \<and> u_known_port u = u_known_port v"

text \<open>Paths of parsed URLs are Rust strings.\<close>

definition url_texts :: "url_crate \<Rightarrow> bool" where
  "url_texts U \<longleftrightarrow> (\<forall>s u. parse_url U s = Some u \<longrightarrow> list_all scalar (u_path u))"

lemma matches_pattern_exact:
  assumes "list_all scalar (u_path u)"
  shows "matches_pattern U u pattern \<longleftrightarrow> (\<exists>p. parse_url U pattern = Some p \<and> same_origin u p \<and> covers (u_path p) (u_path u))"
  using assms path_matches_covers by (auto simp: matches_pattern_def same_origin_def split: option.splits)

text \<open>An address in one of the private intervals; the bytes the code tests are not mentioned.\<close>

definition in_private_range :: "ip_addr \<Rightarrow> bool" where
  "in_private_range ip = (case ip of V4 a \<Rightarrow> in_ranges (unat a) private_v4_ranges | V6 a \<Rightarrow> private_v6 (unat a))"

lemma private_ip_ranges: "is_private_ip ip \<longleftrightarrow> in_private_range ip"
  using private_ipv6_ranges by (cases ip) (simp_all add: in_private_range_def is_private_ip_def private_ipv4_ranges)

lemma private_literal_ranges:
  "private_literal u = None \<longleftrightarrow> (\<forall>h ip. u_host_str u = Some h \<and> parse_ip h = Some ip \<longrightarrow> \<not> in_private_range ip)"
  by (auto simp: private_literal_def private_ip_ranges bind_eq_Some_conv split: option.splits)

lemma is_allowed_exact:
  assumes "url_texts U"
  shows "is_allowed U al text \<longleftrightarrow>
    na_allow_all al \<or>
    (\<exists>u. parse_url U text = Some u \<and> (na_block_private_ips al \<longrightarrow> private_literal u = None) \<and>
       (\<exists>pattern \<in> set (na_patterns al). \<exists>p. parse_url U pattern = Some p \<and> same_origin u p \<and> covers (u_path p) (u_path u)))"
proof (cases "parse_url U text")
  case (Some u)
  then have "list_all scalar (u_path u)" using assms unfolding url_texts_def by blast
  note exact = matches_pattern_exact [OF this, of U]
  show ?thesis using Some
    by (auto simp: is_allowed_def check_url_def exact list_ex_iff split: option.splits if_splits)
qed (auto simp: is_allowed_def check_url_def)

lemma dotted_literal:
  assumes "length octs = 4" and "list_all (\<lambda>n. n < 256) octs" and "u_host_str u = Some (ipv4_text octs)"
  shows "private_literal u = None \<longleftrightarrow> \<not> in_ranges (of_groups 256 octs) private_v4_ranges"
proof -
  from assms(1) obtain a b c d where o: "octs = [a, b, c, d]" by (auto simp: length_Suc_conv numeral_eq_Suc)
  then have "of_groups 256 octs < 2 ^ 32" using assms(2) by (simp add: of_groups_def)
  then have "unat (of_nat (of_groups 256 octs) :: 32 word) = of_groups 256 octs"
    by (simp add: unat_of_nat take_bit_eq_mod)
  then show ?thesis
    using parse_ipv4_text [OF assms(1,2)] assms(3)
    by (simp add: private_literal_def is_private_ip_def private_ipv4_ranges)
qed

lemma bracketed_not_blocked: "u_host_str u = Some (91 # s) \<Longrightarrow> private_literal u = None"
  by (simp add: private_literal_def bracketed_not_ip)

text \<open>
  Property C28: the allow list admits exactly what it names. A URL is allowed when everything is allowed, or when it
  parses, some pattern has its scheme, host and port and a path that is a prefix of its path ending at a boundary,
  and, while private addresses are blocked, its host is not a text the standard library reads as an address in one of
  the private intervals; in particular a host that is the dotted text of four octets in such an interval is never
  allowed. A host in brackets, the form of an IPv6 host in a parsed URL, is never read as an address: such a URL is
  allowed with the blocking switched on exactly when it is allowed with it switched off. The private addresses, which
  the client also refuses after name resolution, are exactly these intervals: for IPv4 127.0.0.0/8, 10.0.0.0/8,
  172.16.0.0/12, 192.168.0.0/16, 169.254.0.0/16, 100.64.0.0/10 and 0.0.0.0; for IPv6 the IPv4-mapped form of such an
  address, its IPv4-compatible form from ::1:0 on, :: and ::1, fc00::/7 and fe80::/10. The comments of the source, lines 26,
  59 and 175, and the threat model name fd00::/8 where the code tests fc00::/7, which is twice as large.
\<close>

theorem allowlist_admits_exactly:
  assumes "url_texts U"
  shows "(is_allowed U al text \<longleftrightarrow>
      na_allow_all al \<or>
      (\<exists>u. parse_url U text = Some u \<and>
         (na_block_private_ips al \<longrightarrow>
            (\<forall>h ip. u_host_str u = Some h \<and> parse_ip h = Some ip \<longrightarrow> \<not> in_private_range ip)) \<and>
         (\<exists>pattern \<in> set (na_patterns al). \<exists>p. parse_url U pattern = Some p \<and> same_origin u p \<and> covers (u_path p) (u_path u)))) \<and>
    (\<forall>u octs. parse_url U text = Some u \<and> u_host_str u = Some (ipv4_text octs) \<and> length octs = 4 \<and> list_all (\<lambda>n. n < 256) octs \<and>
       in_ranges (of_groups 256 octs) private_v4_ranges \<and> na_block_private_ips al \<and> \<not> na_allow_all al \<longrightarrow>
       \<not> is_allowed U al text) \<and>
    (\<forall>u s. parse_url U text = Some u \<and> u_host_str u = Some (91 # s) \<longrightarrow>
       (is_allowed U (block_private_ips True al) text \<longleftrightarrow> is_allowed U (block_private_ips False al) text)) \<and>
    (\<forall>ip. is_private_ip ip \<longleftrightarrow> in_private_range ip)"
proof (intro conjI allI impI)
  show "is_private_ip ip \<longleftrightarrow> in_private_range ip" for ip by (rule private_ip_ranges)
  note exact = is_allowed_exact [OF assms]
  show "is_allowed U al text \<longleftrightarrow>
      na_allow_all al \<or>
      (\<exists>u. parse_url U text = Some u \<and>
         (na_block_private_ips al \<longrightarrow>
            (\<forall>h ip. u_host_str u = Some h \<and> parse_ip h = Some ip \<longrightarrow> \<not> in_private_range ip)) \<and>
         (\<exists>pattern \<in> set (na_patterns al). \<exists>p. parse_url U pattern = Some p \<and> same_origin u p \<and> covers (u_path p) (u_path u)))"
    unfolding exact private_literal_ranges ..
  show "\<not> is_allowed U al text"
    if "parse_url U text = Some u \<and> u_host_str u = Some (ipv4_text octs) \<and> length octs = 4 \<and> list_all (\<lambda>n. n < 256) octs \<and>
       in_ranges (of_groups 256 octs) private_v4_ranges \<and> na_block_private_ips al \<and> \<not> na_allow_all al" for u octs
    unfolding exact using that dotted_literal [of octs u] by simp
  show "is_allowed U (block_private_ips True al) text \<longleftrightarrow> is_allowed U (block_private_ips False al) text"
    if "parse_url U text = Some u \<and> u_host_str u = Some (91 # s)" for u s
    unfolding exact using that bracketed_not_blocked [of u s] by (auto simp: block_private_ips_def)
qed

section \<open>An instance\<close>

definition demo_url :: "rstr \<Rightarrow> rstr \<Rightarrow> url" where
  "demo_url host path = \<lparr>u_scheme = lit ''https'', u_username = [], u_password = None, u_host_str = Some host, u_port = None,
     u_known_port = Some 443, u_path = path\<rparr>"

text \<open>A parser that knows four texts.\<close>

definition demo_U :: url_crate where
  "demo_U = \<lparr>parse_url = map_of
       [(lit ''https://a.io/v1'', demo_url (lit ''a.io'') (lit ''/v1'')),
        (lit ''https://a.io/v1/x'', demo_url (lit ''a.io'') (lit ''/v1/x'')),
        (lit ''https://a.io/v10'', demo_url (lit ''a.io'') (lit ''/v10'')),
        (lit ''https://10.0.0.1/'', demo_url (lit ''10.0.0.1'') (lit ''/''))],
     url_to_string = \<lambda>u. u_path u\<rparr>"

lemma demo_texts_scalar: "url_texts demo_U"
  by (auto simp: url_texts_def demo_U_def demo_url_def lit_def scalar_def split: if_splits)

lemma demo_host_text: "parse_ip (lit ''a.io'') = None"
proof -
  have n: "read_number radix m z limit (97 # s) = None" if "radix = 10" for radix m z limit s
    using that by (simp add: read_number_def digit_value_def)
  have 4: "read_ipv4_addr (97 # s) = None" for s by (simp add: read_ipv4_addr_def read_octet_def read_separator_def n)
  have g: "read_number 16 4 True 65535 (97 # 46 # s) = Some (10, 46 # s)" for s
    by (simp add: read_number_def digit_value_def digits_value_def)
  have d: "0 < i \<Longrightarrow> read_separator 58 i f (46 # s) = None" for i f s
    by (simp add: read_separator_def read_char_def)
  have "read_groups 7 1 8 (46 # s) = ([], False, 46 # s)" for s
    using read_groups.simps(2) [of 6 1 8 "46 # s"] by (simp add: d)
  then have "read_groups 8 0 8 (97 # 46 # s) = ([10], False, 46 # s)" for s
    using read_groups.simps(2) [of 7 0 8 "97 # 46 # s"] by (simp add: read_separator_def 4 g)
  then have "read_ipv6_addr (97 # 46 # s) = None" for s by (simp add: read_ipv6_addr_def read_char_def)
  then show ?thesis by (simp add: parse_ip_def 4 lit_def)
qed

lemma demo_host_public: "private_literal (demo_url (lit ''a.io'') p) = None"
  by (simp add: private_literal_def demo_url_def demo_host_text)

lemma demo_host_no_address: "parse_ip (lit ''a.io'') = Some ip \<Longrightarrow> False"
  by (simp add: demo_host_text)

theorem allowlist_admits_exactly_witness:
  "is_allowed demo_U (allow (lit ''https://a.io/v1'') default_allowlist) (lit ''https://a.io/v1/x'') \<and>
   \<not> is_allowed demo_U (allow (lit ''https://a.io/v1'') default_allowlist) (lit ''https://a.io/v10'') \<and>
   \<not> is_allowed demo_U (allow (lit ''https://10.0.0.1/'') default_allowlist) (lit ''https://10.0.0.1/'')"
proof -
  note all = allowlist_admits_exactly [OF demo_texts_scalar]
  note exact = all [THEN conjunct1]
  have "u_host_str (demo_url (lit ''a.io'') q) = Some (lit ''a.io'')" for q by (simp add: demo_url_def)
  then have "is_allowed demo_U (allow (lit ''https://a.io/v1'') default_allowlist) (lit ''https://a.io/v1/x'')"
    unfolding exact using demo_host_no_address
    by (intro disjI2 exI [where x = "demo_url (lit ''a.io'') (lit ''/v1/x'')"])
      (auto simp: demo_U_def allow_def default_allowlist_def same_origin_def covers_def lit_def demo_url_def)
  moreover have "\<not> is_allowed demo_U (allow (lit ''https://a.io/v1'') default_allowlist) (lit ''https://a.io/v10'')"
    unfolding exact by (simp add: demo_U_def allow_def default_allowlist_def same_origin_def covers_def lit_def demo_url_def suffix_def)
  moreover have "\<not> is_allowed demo_U (allow (lit ''https://10.0.0.1/'') default_allowlist) (lit ''https://10.0.0.1/'')"
    by (rule all [THEN conjunct2, THEN conjunct1, rule_format, where u = "demo_url (lit ''10.0.0.1'') (lit ''/'')" and octs = "[10, 0, 0, 1]"])
      (simp add: demo_U_def demo_url_def lit_def ipv4_text_def octet_text_def of_groups_def in_ranges_def private_v4_ranges_def
        default_allowlist_def allow_def)
  ultimately show ?thesis by blast
qed

end
