(* ===== verification/NetCred.thy ===== *)
theory NetCred
  imports NetAllow SnapBytes
begin

text \<open>
  Credential injection, \<open>credential.rs\<close>: the rules of a policy and the \<open>before_http\<close> hook made of them. Unicode
  lower-casing, whose tables are the standard library's, and the random bytes of the system are parameters.
\<close>

section \<open>Texts\<close>

text \<open>\<open>str::matches(..).count()\<close>, without overlaps, and \<open>replacen(.., 1)\<close>.\<close>

function count_matches :: "rstr \<Rightarrow> rstr \<Rightarrow> nat" where
  "count_matches p [] = (if p = [] then 1 else 0)"
| "count_matches p (c # s) =
     (if p = [] then Suc (count_matches p s)
      else if prefix p (c # s) then Suc (count_matches p (drop (length p) (c # s)))
      else count_matches p s)"
  by pat_completeness auto
termination
  by (relation "measure (\<lambda>(p, s). length s)") (auto simp: length_greater_0_conv [symmetric] simp del: length_greater_0_conv)

fun replace_first :: "rstr \<Rightarrow> rstr \<Rightarrow> rstr \<Rightarrow> rstr" where
  "replace_first p q [] = (if p = [] then q else [])"
| "replace_first p q (c # s) =
     (if prefix p (c # s) then q @ drop (length p) (c # s) else c # replace_first p q s)"

definition ascii_lower :: "uchar \<Rightarrow> uchar" where
  "ascii_lower c = (if 65 \<le> c \<and> c \<le> 90 then c + 32 else c)"

definition eq_ignore_ascii_case :: "rstr \<Rightarrow> rstr \<Rightarrow> bool" where
  "eq_ignore_ascii_case s t \<longleftrightarrow> map ascii_lower s = map ascii_lower t"

section \<open>Credentials\<close>

type_synonym header = "rstr \<times> rstr"

datatype credential = Bearer rstr | Header rstr rstr | Headers "header list"

fun to_headers :: "credential \<Rightarrow> header list" where
  "to_headers (Bearer token) = [(lit ''Authorization'', lit ''Bearer '' @ token)]"
| "to_headers (Header name v) = [(name, v)]"
| "to_headers (Headers hs) = hs"

fun header_names :: "(rstr \<Rightarrow> rstr) \<Rightarrow> credential \<Rightarrow> rstr list" where
  "header_names lower (Bearer _) = [lit ''authorization'']"
| "header_names lower (Header name _) = [lower name]"
| "header_names lower (Headers hs) = map (lower \<circ> fst) hs"

fun secret_values :: "credential \<Rightarrow> rstr list" where
  "secret_values (Bearer token) = [token]"
| "secret_values (Header _ v) = [v]"
| "secret_values (Headers hs) = map snd hs"

section \<open>The policy\<close>

record credential_rule =
  cr_pattern :: rstr
  cr_credential :: credential
  cr_placeholder :: "rstr option"

type_synonym credential_policy = "credential_rule list"

definition PLACEHOLDER_PREFIX :: rstr where
  "PLACEHOLDER_PREFIX = lit ''bk_placeholder_''"

text \<open>\<open>random\<close> is what the system's generator put into the 16 bytes.\<close>

definition generate_placeholder :: "u8 list \<Rightarrow> rstr" where
  "generate_placeholder random = PLACEHOLDER_PREFIX @ concat (map hex_byte random)"

definition add_injection :: "rstr \<Rightarrow> credential \<Rightarrow> credential_policy \<Rightarrow> credential_policy" where
  "add_injection pattern c policy = policy @ [\<lparr>cr_pattern = pattern, cr_credential = c, cr_placeholder = None\<rparr>]"

definition add_placeholder :: "u8 list \<Rightarrow> rstr \<Rightarrow> credential \<Rightarrow> credential_policy \<Rightarrow> rstr \<times> credential_policy" where
  "add_placeholder random pattern c policy =
     (let placeholder = generate_placeholder random
      in (placeholder, policy @ [\<lparr>cr_pattern = pattern, cr_credential = c, cr_placeholder = Some placeholder\<rparr>]))"

section \<open>The hook\<close>

record http_request_event =
  ev_method :: rstr
  ev_url :: rstr
  ev_headers :: "header list"

definition rule_matches :: "url_crate \<Rightarrow> rstr \<Rightarrow> credential_rule \<Rightarrow> bool" where
  "rule_matches U text r \<longleftrightarrow> is_allowed U (allow (cr_pattern r) default_allowlist) text"

definition inject :: "(rstr \<Rightarrow> rstr) \<Rightarrow> credential \<Rightarrow> header list \<Rightarrow> header list" where
  "inject lower c hs =
     filter (\<lambda>(name, _). lower name \<notin> set (header_names lower c)) hs @ to_headers c"

definition substitute :: "(rstr \<Rightarrow> rstr) \<Rightarrow> credential \<Rightarrow> rstr \<Rightarrow> header \<Rightarrow> header" where
  "substitute lower c placeholder h =
     (case find (\<lambda>(name, _). eq_ignore_ascii_case name (fst h)) (zip (header_names lower c) (secret_values c)) of
        Some (_, secret) \<Rightarrow>
          if count_matches placeholder (snd h) = 1 then (fst h, replace_first placeholder secret (snd h)) else h
      | None \<Rightarrow> h)"

definition apply_rule :: "url_crate \<Rightarrow> (rstr \<Rightarrow> rstr) \<Rightarrow> credential_rule \<Rightarrow> http_request_event \<Rightarrow> http_request_event" where
  "apply_rule U lower r ev =
     (if \<not> rule_matches U (ev_url ev) r then ev
      else case cr_placeholder r of
             None \<Rightarrow> ev\<lparr>ev_headers := inject lower (cr_credential r) (ev_headers ev)\<rparr>
           | Some placeholder \<Rightarrow> ev\<lparr>ev_headers := map (substitute lower (cr_credential r) placeholder) (ev_headers ev)\<rparr>)"

definition credential_hook :: "url_crate \<Rightarrow> (rstr \<Rightarrow> rstr) \<Rightarrow> credential_policy \<Rightarrow> http_request_event \<Rightarrow> http_request_event" where
  "credential_hook U lower policy ev = fold (apply_rule U lower) policy ev"

section \<open>What the hook does\<close>

lemma apply_rule_url [simp]: "ev_url (apply_rule U lower r ev) = ev_url ev" "ev_method (apply_rule U lower r ev) = ev_method ev"
  by (simp_all add: apply_rule_def split: option.split)

lemma credential_hook_url [simp]: "ev_url (credential_hook U lower policy ev) = ev_url ev"
  "ev_method (credential_hook U lower policy ev) = ev_method ev"
  by (induction policy arbitrary: ev) (simp_all add: credential_hook_def)

lemma credential_hook_matching:
  "credential_hook U lower policy ev = credential_hook U lower (filter (rule_matches U (ev_url ev)) policy) ev"
  unfolding credential_hook_def
proof (induction policy arbitrary: ev)
  case (Cons r policy)
  show ?case
  proof (cases "rule_matches U (ev_url ev) r")
    case True
    then show ?thesis using Cons.IH [of "apply_rule U lower r ev"] by simp
  next
    case False
    then have "apply_rule U lower r ev = ev" by (simp add: apply_rule_def)
    with False show ?thesis using Cons.IH [of ev] by simp
  qed
qed simp

lemma to_headers_names:
  "lower (lit ''Authorization'') = lit ''authorization'' \<Longrightarrow>
   list_all (\<lambda>(name, _). lower name \<in> set (header_names lower c)) (to_headers c)"
  by (cases c) (simp, simp, force simp: list_all_iff)

lemma inject_owns:
  assumes "lower (lit ''Authorization'') = lit ''authorization''"
  shows "filter (\<lambda>(name, _). lower name \<in> set (header_names lower c)) (inject lower c hs) = to_headers c"
proof -
  have "filter (\<lambda>(name, _). lower name \<in> set (header_names lower c)) (to_headers c) = to_headers c"
    using to_headers_names [where lower = lower and c = c] assms by (intro filter_True) (auto simp: list_all_iff)
  then show ?thesis by (simp add: inject_def filter_empty_conv split_def)
qed

lemma header_secrets: "map fst (zip (header_names lower c) (secret_values c)) = header_names lower c"
  by (cases c) simp_all

lemma substitute_exact:
  "fst (substitute lower c p h) = fst h \<and>
   (if count_matches p (snd h) = 1 \<and> (\<exists>owner \<in> set (header_names lower c). eq_ignore_ascii_case owner (fst h))
    then \<exists>owner secret. (owner, secret) \<in> set (zip (header_names lower c) (secret_values c)) \<and>
           eq_ignore_ascii_case owner (fst h) \<and> snd (substitute lower c p h) = replace_first p secret (snd h)
    else snd (substitute lower c p h) = snd h)"
proof (cases "find (\<lambda>(name, _). eq_ignore_ascii_case name (fst h)) (zip (header_names lower c) (secret_values c))")
  case (Some x)
  then have x: "x \<in> set (zip (header_names lower c) (secret_values c))" "eq_ignore_ascii_case (fst x) (fst h)"
    by (auto simp: find_Some_iff split_def in_set_zip)
  then have "fst x \<in> set (header_names lower c)" by (metis set_zip_leftD prod.collapse)
  with Some x show ?thesis by (cases x) (auto simp: substitute_def)
next
  case None
  have "\<not> eq_ignore_ascii_case owner (fst h)" if "owner \<in> set (header_names lower c)" for owner
  proof -
    from that have "owner \<in> fst ` set (zip (header_names lower c) (secret_values c))"
      using header_secrets [of lower c] by (metis set_map)
    with None show ?thesis by (auto simp: find_None_iff)
  qed
  with None show ?thesis by (simp add: substitute_def)
qed

text \<open>
  Property C29: a credential reaches requests of its own pattern only, and there no script can keep a header of the
  same name. The method and the URL are unchanged. Rules whose pattern does not admit the URL have no influence: two
  policies that agree on the others give the same request. After the last matching rule, if it injects, the headers
  with the names of its credential are exactly those of the credential, whatever the script supplied. A matching
  placeholder rule, wherever it stands among the matching rules, is applied to the headers the earlier ones leave, and
  the later ones to its result: it keeps every name and the order, puts a secret of its own credential for the
  placeholder in exactly those headers that have a name of the credential and in which the placeholder occurs once,
  and leaves the others as they are. The lower-casing function is only assumed to lower \<open>Authorization\<close>.
\<close>

theorem credentials_reach_their_host_only:
  assumes "lower (lit ''Authorization'') = lit ''authorization''"
  shows "ev_url (credential_hook U lower policy ev) = ev_url ev \<and> ev_method (credential_hook U lower policy ev) = ev_method ev \<and>
    (filter (rule_matches U (ev_url ev)) policy = filter (rule_matches U (ev_url ev)) policy' \<longrightarrow>
       credential_hook U lower policy ev = credential_hook U lower policy' ev) \<and>
    (filter (rule_matches U (ev_url ev)) policy = rs @ [r] \<and> cr_placeholder r = None \<longrightarrow>
       filter (\<lambda>(name, _). lower name \<in> set (header_names lower (cr_credential r)))
         (ev_headers (credential_hook U lower policy ev)) = to_headers (cr_credential r)) \<and>
    (filter (rule_matches U (ev_url ev)) policy = rs @ r # ss \<and> cr_placeholder r = Some p \<longrightarrow>
       credential_hook U lower policy ev = credential_hook U lower ss (credential_hook U lower (rs @ [r]) ev) \<and>
       list_all2 (\<lambda>(name, v) (name', v'). name' = name \<and>
           (if count_matches p v = 1 \<and> (\<exists>owner \<in> set (header_names lower (cr_credential r)). eq_ignore_ascii_case owner name)
            then \<exists>owner secret. (owner, secret) \<in> set (zip (header_names lower (cr_credential r)) (secret_values (cr_credential r))) \<and>
                   eq_ignore_ascii_case owner name \<and> v' = replace_first p secret v
            else v' = v))
         (ev_headers (credential_hook U lower rs ev)) (ev_headers (credential_hook U lower (rs @ [r]) ev)))"
proof (intro conjI impI)
  let ?m = "rule_matches U (ev_url ev)"
  show "credential_hook U lower policy ev = credential_hook U lower policy' ev" if "filter ?m policy = filter ?m policy'"
    using credential_hook_matching [of U lower policy ev] credential_hook_matching [of U lower policy' ev] that by simp
  show "filter (\<lambda>(name, _). lower name \<in> set (header_names lower (cr_credential r)))
      (ev_headers (credential_hook U lower policy ev)) = to_headers (cr_credential r)"
    if r: "filter ?m policy = rs @ [r] \<and> cr_placeholder r = None"
  proof -
    from r have "r \<in> set (filter ?m policy)" by simp
    then have "?m r" by simp
    then have "ev_headers (credential_hook U lower policy ev) =
        inject lower (cr_credential r) (ev_headers (credential_hook U lower rs ev))"
      using r credential_hook_matching [of U lower policy ev] credential_hook_url(1) [of U lower rs ev]
      by (simp add: credential_hook_def apply_rule_def)
    then show ?thesis using inject_owns [where lower = lower and c = "cr_credential r"] assms by simp
  qed
  assume r: "filter ?m policy = rs @ r # ss \<and> cr_placeholder r = Some p"
  then have "r \<in> set (filter ?m policy)" by simp
  then have "?m r" by simp
  show "credential_hook U lower policy ev = credential_hook U lower ss (credential_hook U lower (rs @ [r]) ev)"
    using r credential_hook_matching [of U lower policy ev] by (simp add: credential_hook_def)
  have e: "ev_headers (credential_hook U lower (rs @ [r]) ev) =
      map (substitute lower (cr_credential r) p) (ev_headers (credential_hook U lower rs ev))"
    using r \<open>?m r\<close> credential_hook_url(1) [of U lower rs ev] by (simp add: credential_hook_def apply_rule_def)
  show "list_all2 (\<lambda>(name, v) (name', v'). name' = name \<and>
           (if count_matches p v = 1 \<and> (\<exists>owner \<in> set (header_names lower (cr_credential r)). eq_ignore_ascii_case owner name)
            then \<exists>owner secret. (owner, secret) \<in> set (zip (header_names lower (cr_credential r)) (secret_values (cr_credential r))) \<and>
                   eq_ignore_ascii_case owner name \<and> v' = replace_first p secret v
            else v' = v))
         (ev_headers (credential_hook U lower rs ev)) (ev_headers (credential_hook U lower (rs @ [r]) ev))"
    unfolding e using substitute_exact [of lower "cr_credential r" p] by (simp add: list_all2_conv_all_nth split_def)
qed simp_all

lemma demo_rule: "rule_matches demo_U (lit ''https://a.io/v1/x'') \<lparr>cr_pattern = lit ''https://a.io/v1'', cr_credential = c, cr_placeholder = p\<rparr>"
proof -
  have "list_all scalar (lit ''/v1/x'')" by (simp add: lit_def scalar_def)
  from path_matches_covers [OF this, of "lit ''/v1''"] have "path_matches (lit ''/v1/x'') (lit ''/v1'')"
    by (simp add: covers_def lit_def)
  moreover have "parse_url demo_U (lit ''https://a.io/v1/x'') = Some (demo_url (lit ''a.io'') (lit ''/v1/x''))"
    "parse_url demo_U (lit ''https://a.io/v1'') = Some (demo_url (lit ''a.io'') (lit ''/v1''))"
    by (simp_all add: demo_U_def lit_def)
  ultimately show ?thesis
    by (simp add: rule_matches_def is_allowed_def check_url_def allow_def default_allowlist_def demo_host_public matches_pattern_def)
      (simp add: demo_url_def)
qed

theorem credentials_reach_their_host_only_witness:
  "filter (\<lambda>(name, _). map ascii_lower name \<in> {lit ''authorization''})
     (ev_headers (credential_hook demo_U (map ascii_lower)
        [\<lparr>cr_pattern = lit ''https://a.io/v1'', cr_credential = Bearer (lit ''t''), cr_placeholder = None\<rparr>]
        \<lparr>ev_method = lit ''GET'', ev_url = lit ''https://a.io/v1/x'', ev_headers = [(lit ''AUTHORIZATION'', lit ''mine'')]\<rparr>)) =
   [(lit ''Authorization'', lit ''Bearer t'')] \<and>
   ev_headers (credential_hook demo_U (map ascii_lower)
        [\<lparr>cr_pattern = lit ''https://a.io/v1'', cr_credential = Header (lit ''K'') (lit ''s''), cr_placeholder = Some (lit ''p'')\<rparr>]
        \<lparr>ev_method = lit ''GET'', ev_url = lit ''https://a.io/v1/x'', ev_headers = [(lit ''k'', lit ''p''), (lit ''k'', lit ''pp''), (lit ''j'', lit ''p'')]\<rparr>) =
     [(lit ''k'', lit ''s''), (lit ''k'', lit ''pp''), (lit ''j'', lit ''p'')]"
proof -
  have low: "map ascii_lower (lit ''Authorization'') = lit ''authorization''" by (simp add: lit_def ascii_lower_def)
  let ?r = "\<lparr>cr_pattern = lit ''https://a.io/v1'', cr_credential = Bearer (lit ''t''), cr_placeholder = None\<rparr>"
  let ?e = "\<lparr>ev_method = lit ''GET'', ev_url = lit ''https://a.io/v1/x'', ev_headers = [(lit ''AUTHORIZATION'', lit ''mine'')]\<rparr>"
  note exact = credentials_reach_their_host_only [where lower = "map ascii_lower" and policy = "[?r]" and ev = ?e and U = demo_U and rs = "[]" and r = ?r, OF low]
  have "filter (rule_matches demo_U (ev_url ?e)) [?r] = [] @ [?r] \<and> cr_placeholder ?r = None" using demo_rule by simp
  with exact have 1: "filter (\<lambda>(name, _). map ascii_lower name \<in> {lit ''authorization''})
      (ev_headers (credential_hook demo_U (map ascii_lower) [?r] ?e)) = [(lit ''Authorization'', lit ''Bearer t'')]"
    by (simp add: lit_def)
  let ?q = "\<lparr>cr_pattern = lit ''https://a.io/v1'', cr_credential = Header (lit ''K'') (lit ''s''), cr_placeholder = Some (lit ''p'')\<rparr>"
  let ?f = "\<lparr>ev_method = lit ''GET'', ev_url = lit ''https://a.io/v1/x'', ev_headers = [(lit ''k'', lit ''p''), (lit ''k'', lit ''pp''), (lit ''j'', lit ''p'')]\<rparr>"
  note placed = credentials_reach_their_host_only [where lower = "map ascii_lower" and policy = "[?q]" and ev = ?f and U = demo_U and rs = "[]" and r = ?q
      and ss = "[]" and p = "lit ''p''", OF low, THEN conjunct2, THEN conjunct2, THEN conjunct2, THEN conjunct2, rule_format]
  have "filter (rule_matches demo_U (ev_url ?f)) [?q] = [] @ ?q # [] \<and> cr_placeholder ?q = Some (lit ''p'')" using demo_rule by simp
  from placed [OF this] have 2: "ev_headers (credential_hook demo_U (map ascii_lower) [?q] ?f) =
      [(lit ''k'', lit ''s''), (lit ''k'', lit ''pp''), (lit ''j'', lit ''p'')]"
    by (auto simp: credential_hook_def [of _ _ "[]"] list_all2_Cons1 lit_def eq_ignore_ascii_case_def ascii_lower_def)
  from 1 2 show ?thesis by blast
qed

end
