(* ===== verification/NetClient.thy ===== *)
theory NetClient
  imports NetCred
begin

text \<open>
  The HTTP client, \<open>network/client.rs\<close>: one pipeline of allow list, address check, hooks, second check, signing and
  dispatch. Name resolution, the signer, the transports and \<open>reqwest\<close> are parameters; since a name can resolve
  differently each time, the two checks are given their own answers.
\<close>

datatype net_error =
    AccessDenied block_reason | InvalidUrl | InvalidForPrecheck | NoHost | PrivateHost rstr | ResolvesPrivate rstr ip_addr
  | Cancelled | TimedOut | TransportFailed rstr | BuildFailed | RequestFailed | ReadFailed | ResponseTooLarge nat

datatype http_method = Get | Post | Put | Delete | Head | Patch

fun method_str :: "http_method \<Rightarrow> rstr" where
  "method_str Get = lit ''GET''"
| "method_str Post = lit ''POST''"
| "method_str Put = lit ''PUT''"
| "method_str Delete = lit ''DELETE''"
| "method_str Head = lit ''HEAD''"
| "method_str Patch = lit ''PATCH''"

record response =
  rs_status :: nat
  rs_headers :: "header list"
  rs_body :: "u8 list"

definition is_success :: "response \<Rightarrow> bool" where
  "is_success r \<longleftrightarrow> 200 \<le> rs_status r \<and> rs_status r < 300"

section \<open>Limits\<close>

text \<open>Durations are milliseconds.\<close>

definition DEFAULT_MAX_RESPONSE_BYTES :: nat where "DEFAULT_MAX_RESPONSE_BYTES = 10 * 1024 * 1024"
definition DEFAULT_TIMEOUT_SECS :: nat where "DEFAULT_TIMEOUT_SECS = 30"
definition MAX_TIMEOUT_SECS :: nat where "MAX_TIMEOUT_SECS = 600"
definition MIN_TIMEOUT_SECS :: nat where "MIN_TIMEOUT_SECS = 1"

definition from_secs :: "nat \<Rightarrow> nat" where
  "from_secs s = 1000 * s"

definition clamp_timeout :: "u64 \<Rightarrow> nat" where
  "clamp_timeout secs = min MAX_TIMEOUT_SECS (max MIN_TIMEOUT_SECS (unat secs))"

record http_limits =
  hl_timeout :: nat
  hl_max_response_bytes :: nat

definition default_http_limits :: http_limits where
  "default_http_limits = \<lparr>hl_timeout = from_secs DEFAULT_TIMEOUT_SECS, hl_max_response_bytes = DEFAULT_MAX_RESPONSE_BYTES\<rparr>"

definition with_timeout_limit :: "nat \<Rightarrow> http_limits \<Rightarrow> http_limits" where
  "with_timeout_limit timeout l = l\<lparr>hl_timeout := timeout\<rparr>"

definition with_max_response_bytes :: "nat \<Rightarrow> http_limits \<Rightarrow> http_limits" where
  "with_max_response_bytes n l = l\<lparr>hl_max_response_bytes := n\<rparr>"

section \<open>Transports\<close>

record transport_request =
  tq_method :: http_method
  tq_url :: rstr
  tq_headers :: "header list"
  tq_body :: "u8 list option"
  tq_timeout :: nat
  tq_connect_timeout :: "nat option"
  tq_pinned_addrs :: "ip_addr list"
  tq_max_response_bytes :: nat

text \<open>What a transport returns; \<open>Elapsed\<close> when the client's own deadline cuts it off.\<close>

datatype transport_result = Elapsed | Failed rstr | Answered response

text \<open>A request of the built-in client; \<open>bq_filtered\<close> tells whether the filtering resolver is installed.\<close>

record builtin_request =
  bq_method :: http_method
  bq_url :: rstr
  bq_headers :: "header list"
  bq_body :: "u8 list option"
  bq_timeout :: nat
  bq_connect_timeout :: nat
  bq_filtered :: bool

datatype builtin_result =
    NoClient | SendTimedOut | SendFailed
  | Answer (an_status: nat) (an_headers: "header list") (an_length: "u64 option") (an_chunks: "(unit + u8 list) list")

datatype sent = ByTransport transport_request | ByReqwest builtin_request

record http_client =
  hc_allowlist :: network_allowlist
  hc_default_timeout :: nat
  hc_max_response_bytes :: nat
  hc_transport :: "(transport_request \<Rightarrow> transport_result) option"
  hc_before_http :: "(http_request_event \<Rightarrow> http_request_event option) list"

definition with_config :: "network_allowlist \<Rightarrow> nat \<Rightarrow> nat \<Rightarrow> http_client" where
  "with_config al timeout max_bytes =
     \<lparr>hc_allowlist = al, hc_default_timeout = timeout, hc_max_response_bytes = max_bytes, hc_transport = None, hc_before_http = []\<rparr>"

definition client_with_limits :: "network_allowlist \<Rightarrow> http_limits \<Rightarrow> http_client" where
  "client_with_limits al l = with_config al (hl_timeout l) (hl_max_response_bytes l)"

definition new_client :: "network_allowlist \<Rightarrow> http_client" where
  "new_client al = client_with_limits al default_http_limits"

definition client_with_timeout :: "network_allowlist \<Rightarrow> nat \<Rightarrow> http_client" where
  "client_with_timeout al timeout = with_config al timeout DEFAULT_MAX_RESPONSE_BYTES"

definition set_transport :: "(transport_request \<Rightarrow> transport_result) \<Rightarrow> http_client \<Rightarrow> http_client" where
  "set_transport execute hc = hc\<lparr>hc_transport := Some execute\<rparr>"

definition set_before_http :: "(http_request_event \<Rightarrow> http_request_event option) list \<Rightarrow> http_client \<Rightarrow> http_client" where
  "set_before_http hooks hc = hc\<lparr>hc_before_http := hooks\<rparr>"

section \<open>The checks\<close>

definition check_allowlist :: "url_crate \<Rightarrow> http_client \<Rightarrow> rstr \<Rightarrow> net_error + unit" where
  "check_allowlist U hc text =
     (case check_url U (hc_allowlist hc) text of
        Allowed \<Rightarrow> Ok ()
      | Blocked reason \<Rightarrow> Err (AccessDenied reason)
      | Invalid \<Rightarrow> Err InvalidUrl)"

text \<open>The addresses a name resolves to, all of them or none: the loop of \<open>check_private_ip\<close>.\<close>

fun validate_addrs :: "rstr \<Rightarrow> ip_addr list \<Rightarrow> net_error + ip_addr list" where
  "validate_addrs host [] = Ok []"
| "validate_addrs host (ip # ips) =
     (if is_private_ip ip then Err (ResolvesPrivate host ip)
      else res_bind (validate_addrs host ips) (\<lambda>validated. Ok (ip # validated)))"

text \<open>\<open>lookup\<close> answers for a host and a port; \<open>None\<close> when the name does not resolve.\<close>

type_synonym lookup = "rstr \<Rightarrow> 16 word \<Rightarrow> ip_addr list option"

definition check_private_ip :: "url_crate \<Rightarrow> lookup \<Rightarrow> rstr \<Rightarrow> net_error + ip_addr list" where
  "check_private_ip U lookup text =
     (case parse_url U text of
        None \<Rightarrow> Err InvalidForPrecheck
      | Some parsed \<Rightarrow>
          (case u_host_str parsed of
             None \<Rightarrow> Err NoHost
           | Some host \<Rightarrow>
               (case parse_ip host of
                  Some ip \<Rightarrow> if is_private_ip ip then Err (PrivateHost host) else Ok [ip]
                | None \<Rightarrow>
                    let port = (case u_port parsed of Some p \<Rightarrow> p | None \<Rightarrow> if u_scheme parsed = lit ''https'' then 443 else 80)
                    in (case lookup host port of
                          None \<Rightarrow> Ok []
                        | Some addrs \<Rightarrow> validate_addrs host addrs))))"

definition enforce_url_security :: "url_crate \<Rightarrow> lookup \<Rightarrow> http_client \<Rightarrow> rstr \<Rightarrow> net_error + ip_addr list" where
  "enforce_url_security U lookup hc text =
     res_bind (check_allowlist U hc text) (\<lambda>_.
       if na_block_private_ips (hc_allowlist hc) then check_private_ip U lookup text else Ok [])"

text \<open>The resolver of the built-in client.\<close>

definition resolve_filtered :: "ip_addr list \<Rightarrow> ip_addr list option" where
  "resolve_filtered addrs =
     (let filtered = filter (\<lambda>ip. \<not> is_private_ip ip) addrs in if filtered = [] then None else Some filtered)"

section \<open>The pipeline\<close>

fun fire_before_http :: "(http_request_event \<Rightarrow> http_request_event option) list \<Rightarrow> http_request_event \<Rightarrow> http_request_event option" where
  "fire_before_http [] ev = Some ev"
| "fire_before_http (hook # hooks) ev =
     (case hook ev of Some ev' \<Rightarrow> fire_before_http hooks ev' | None \<Rightarrow> None)"

fun read_body_with_limit :: "nat \<Rightarrow> u8 list \<Rightarrow> (unit + u8 list) list \<Rightarrow> net_error + u8 list" where
  "read_body_with_limit max_bytes body [] = Ok body"
| "read_body_with_limit max_bytes body (Inl e # cs) = Err ReadFailed"
| "read_body_with_limit max_bytes body (Inr c # cs) =
     (if max_bytes < length body + length c then Err (ResponseTooLarge (length body + length c))
      else read_body_with_limit max_bytes (body @ c) cs)"

definition run_transport :: "(transport_request \<Rightarrow> transport_result) \<Rightarrow> transport_request \<Rightarrow> nat \<Rightarrow> net_error + response" where
  "run_transport execute q max_bytes =
     (case execute q of
        Elapsed \<Rightarrow> Err TimedOut
      | Failed msg \<Rightarrow> Err (TransportFailed msg)
      | Answered r \<Rightarrow> if max_bytes < length (rs_body r) then Err (ResponseTooLarge (length (rs_body r))) else Ok r)"

definition run_builtin :: "(builtin_request \<Rightarrow> builtin_result) \<Rightarrow> builtin_request \<Rightarrow> nat \<Rightarrow> net_error + response" where
  "run_builtin send q max_bytes =
     (case send q of
        NoClient \<Rightarrow> Err BuildFailed
      | SendTimedOut \<Rightarrow> Err TimedOut
      | SendFailed \<Rightarrow> Err RequestFailed
      | Answer status headers content_length chunks \<Rightarrow>
          (case content_length of
             Some n \<Rightarrow> if max_bytes < unat n then Err (ResponseTooLarge (unat n)) else
                 res_bind (read_body_with_limit max_bytes [] chunks) (\<lambda>body.
                   Ok \<lparr>rs_status = status, rs_headers = headers, rs_body = body\<rparr>)
           | None \<Rightarrow>
               res_bind (read_body_with_limit max_bytes [] chunks) (\<lambda>body.
                 Ok \<lparr>rs_status = status, rs_headers = headers, rs_body = body\<rparr>)))"

text \<open>
  \<open>request_with_timeouts\<close> gives its result and what it sent. \<open>sign\<close> yields the headers of the request signer, none
  when signing is off or fails; what the \<open>after_http\<close> hooks return is ignored by the code.
\<close>

definition request_with_timeouts ::
    "url_crate \<Rightarrow> lookup \<Rightarrow> lookup \<Rightarrow> (http_method \<Rightarrow> rstr \<Rightarrow> header list) \<Rightarrow> (builtin_request \<Rightarrow> builtin_result) \<Rightarrow> http_client
     \<Rightarrow> http_method \<Rightarrow> rstr \<Rightarrow> u8 list option \<Rightarrow> header list \<Rightarrow> u64 option \<Rightarrow> u64 option \<Rightarrow> sent list \<times> (net_error + response)" where
  "request_with_timeouts U lookup1 lookup2 sign send hc meth text body headers timeout_secs connect_timeout_secs =
     (case enforce_url_security U lookup1 hc text of
        Inl e \<Rightarrow> ([], Err e)
      | Inr _ \<Rightarrow>
          (case fire_before_http (hc_before_http hc) \<lparr>ev_method = method_str meth, ev_url = text, ev_headers = headers\<rparr> of
             None \<Rightarrow> ([], Err Cancelled)
           | Some ev \<Rightarrow>
               (case enforce_url_security U lookup2 hc (ev_url ev) of
                  Inl e \<Rightarrow> ([], Err e)
                | Inr pinned \<Rightarrow>
                    let signing_headers = sign meth (ev_url ev);
                        request_timeout = (case timeout_secs of Some s \<Rightarrow> from_secs (clamp_timeout s) | None \<Rightarrow> hc_default_timeout hc)
                    in (case hc_transport hc of
                          Some execute \<Rightarrow>
                            let q = \<lparr>tq_method = meth, tq_url = ev_url ev, tq_headers = ev_headers ev @ signing_headers,
                                     tq_body = body, tq_timeout = request_timeout,
                                     tq_connect_timeout = map_option (\<lambda>s. from_secs (clamp_timeout s)) connect_timeout_secs,
                                     tq_pinned_addrs = pinned, tq_max_response_bytes = hc_max_response_bytes hc\<rparr>
                            in ([ByTransport q], run_transport execute q (hc_max_response_bytes hc))
                        | None \<Rightarrow>
                            let custom = timeout_secs \<noteq> None \<or> connect_timeout_secs \<noteq> None;
                                q = \<lparr>bq_method = meth, bq_url = ev_url ev, bq_headers = ev_headers ev @ signing_headers, bq_body = body,
                                     bq_timeout = (if custom then request_timeout else hc_default_timeout hc),
                                     bq_connect_timeout = (if custom
                                       then (case connect_timeout_secs of Some s \<Rightarrow> from_secs (clamp_timeout s)
                                             | None \<Rightarrow> min request_timeout (from_secs 10))
                                       else from_secs 10),
                                     bq_filtered = na_block_private_ips (hc_allowlist hc)\<rparr>
                            in ([ByReqwest q], run_builtin send q (hc_max_response_bytes hc))))))"

definition request_with_timeout ::
    "url_crate \<Rightarrow> lookup \<Rightarrow> lookup \<Rightarrow> (http_method \<Rightarrow> rstr \<Rightarrow> header list) \<Rightarrow> (builtin_request \<Rightarrow> builtin_result) \<Rightarrow> http_client
     \<Rightarrow> http_method \<Rightarrow> rstr \<Rightarrow> u8 list option \<Rightarrow> header list \<Rightarrow> u64 option \<Rightarrow> sent list \<times> (net_error + response)" where
  "request_with_timeout U lookup1 lookup2 sign send hc meth text body headers timeout_secs =
     request_with_timeouts U lookup1 lookup2 sign send hc meth text body headers timeout_secs None"

definition request_with_headers ::
    "url_crate \<Rightarrow> lookup \<Rightarrow> lookup \<Rightarrow> (http_method \<Rightarrow> rstr \<Rightarrow> header list) \<Rightarrow> (builtin_request \<Rightarrow> builtin_result) \<Rightarrow> http_client
     \<Rightarrow> http_method \<Rightarrow> rstr \<Rightarrow> u8 list option \<Rightarrow> header list \<Rightarrow> sent list \<times> (net_error + response)" where
  "request_with_headers U lookup1 lookup2 sign send hc meth text body headers =
     request_with_timeouts U lookup1 lookup2 sign send hc meth text body headers None None"

section \<open>What leaves the sandbox\<close>

fun sent_url :: "sent \<Rightarrow> rstr" where
  "sent_url (ByTransport q) = tq_url q"
| "sent_url (ByReqwest q) = bq_url q"

fun sent_timeout :: "sent \<Rightarrow> nat" where
  "sent_timeout (ByTransport q) = tq_timeout q"
| "sent_timeout (ByReqwest q) = bq_timeout q"

text \<open>The target of a request is public: a literal address, or every address the name resolved to.\<close>

definition public_target :: "url_crate \<Rightarrow> rstr \<Rightarrow> ip_addr list \<Rightarrow> bool" where
  "public_target U text addrs \<longleftrightarrow>
     list_all (\<lambda>ip. \<not> is_private_ip ip) addrs \<and>
     (\<exists>u host. parse_url U text = Some u \<and> u_host_str u = Some host \<and> (\<forall>ip. parse_ip host = Some ip \<longrightarrow> addrs = [ip]))"

text \<open>What the transport gets of the check: the addresses, or the filtering resolver.\<close>

fun guarded :: "ip_addr list \<Rightarrow> sent \<Rightarrow> bool" where
  "guarded addrs (ByTransport q) \<longleftrightarrow> tq_pinned_addrs q = addrs"
| "guarded addrs (ByReqwest q) \<longleftrightarrow> bq_filtered q"

lemma validate_addrs_ok: "validate_addrs host ips = Ok as \<longleftrightarrow> as = ips \<and> list_all (\<lambda>ip. \<not> is_private_ip ip) ips"
  by (induction ips arbitrary: as) (auto simp: res_bind_Inr)

lemma check_private_ip_public: "check_private_ip U lookup text = Ok addrs \<Longrightarrow> public_target U text addrs"
  by (auto simp: check_private_ip_def public_target_def validate_addrs_ok Let_def split: option.splits if_splits)

lemma enforce_ok:
  assumes "enforce_url_security U lookup hc text = Ok addrs"
  shows "is_allowed U (hc_allowlist hc) text \<and> (na_block_private_ips (hc_allowlist hc) \<longrightarrow> public_target U text addrs)"
  using assms check_private_ip_public
  by (auto simp: enforce_url_security_def check_allowlist_def is_allowed_def res_bind_Inr split: url_match.splits if_splits)

lemma read_body_bounded: "read_body_with_limit n body cs = Ok out \<Longrightarrow> length body \<le> n \<Longrightarrow> length out \<le> n"
  by (induction n body cs rule: read_body_with_limit.induct) (auto split: if_splits)

lemma run_transport_bounded: "run_transport execute q n = Ok r \<Longrightarrow> length (rs_body r) \<le> n"
  by (auto simp: run_transport_def split: transport_result.splits if_splits)

lemma run_builtin_bounded: "run_builtin send q n = Ok r \<Longrightarrow> length (rs_body r) \<le> n"
  using read_body_bounded [of n "[]"] by (auto simp: run_builtin_def res_bind_Inr split: builtin_result.splits option.splits if_splits)

lemma clamp_timeout_bounds: "1000 \<le> from_secs (clamp_timeout s) \<and> from_secs (clamp_timeout s) \<le> 600000"
  by (simp add: from_secs_def clamp_timeout_def MAX_TIMEOUT_SECS_def MIN_TIMEOUT_SECS_def)

text \<open>
  Property C27: nothing leaves the sandbox that the policy does not admit. A request sends at most one message, and none
  when it is refused: the URL the script gave and the one the hooks made of it both have to be allowed, and while
  private addresses are blocked the one sent has a public target whose addresses are handed to the transport, or is
  sent through the filtering resolver. A timeout of the script is brought between one second and ten minutes, and a
  response that is returned is no longer than the limit. Hooks, signers, resolvers and transports are arbitrary.
\<close>

theorem requests_obey_policy:
  assumes "request_with_timeouts U lookup1 lookup2 sign send hc meth text body headers timeout_secs connect_timeout_secs = (msgs, result)"
  shows "(\<exists>e. msgs = [] \<and> result = Err e) \<or>
    (\<exists>q addrs. msgs = [q] \<and> is_allowed U (hc_allowlist hc) text \<and> is_allowed U (hc_allowlist hc) (sent_url q) \<and>
       (na_block_private_ips (hc_allowlist hc) \<longrightarrow> public_target U (sent_url q) addrs \<and> guarded addrs q) \<and>
       (case timeout_secs of Some _ \<Rightarrow> 1000 \<le> sent_timeout q \<and> sent_timeout q \<le> 600000 | None \<Rightarrow> sent_timeout q = hc_default_timeout hc) \<and>
       (case result of Inl _ \<Rightarrow> True | Inr r \<Rightarrow> length (rs_body r) \<le> hc_max_response_bytes hc))"
proof (cases "enforce_url_security U lookup1 hc text")
  case (Inr addrs1)
  let ?ev = "\<lparr>ev_method = method_str meth, ev_url = text, ev_headers = headers\<rparr>"
  note req = assms [unfolded request_with_timeouts_def Inr sum.case]
  show ?thesis
  proof (cases "fire_before_http (hc_before_http hc) ?ev")
    case (Some ev)
    show ?thesis
    proof (cases "enforce_url_security U lookup2 hc (ev_url ev)")
      case (Inr addrs)
      note allowed = enforce_ok [OF \<open>enforce_url_security U lookup1 hc text = Inr addrs1\<close>] enforce_ok [OF Inr]
      show ?thesis
      proof (cases "hc_transport hc")
        case None
        then show ?thesis using req Some Inr allowed run_builtin_bounded clamp_timeout_bounds
          by (auto simp: Let_def split: option.splits sum.splits)
      next
        case T: (Some execute)
        then show ?thesis using req Some Inr allowed run_transport_bounded clamp_timeout_bounds
          by (auto simp: Let_def split: option.splits sum.splits)
      qed
    qed (use req Some in auto)
  qed (use req in auto)
qed (use assms in \<open>auto simp: request_with_timeouts_def\<close>)

text \<open>A client with one pattern and a transport that always answers; the name resolves to a public address.\<close>

definition demo_client :: http_client where
  "demo_client = (new_client (allow (lit ''https://a.io/v1'') default_allowlist))
     \<lparr>hc_transport := Some (\<lambda>q. Answered \<lparr>rs_status = 200, rs_headers = [], rs_body = [1]\<rparr>)\<rparr>"

lemma demo_client_simps:
  "na_block_private_ips (hc_allowlist demo_client)" "hc_before_http demo_client = []"
  "hc_allowlist demo_client = allow (lit ''https://a.io/v1'') default_allowlist" "hc_max_response_bytes demo_client = 10485760"
  "hc_transport demo_client = Some (\<lambda>q. Answered \<lparr>rs_status = 200, rs_headers = [], rs_body = [1]\<rparr>)"
  by (simp_all add: demo_client_def new_client_def client_with_limits_def with_config_def default_http_limits_def
      DEFAULT_MAX_RESPONSE_BYTES_def allow_def default_allowlist_def)

lemma demo_enforce:
  "enforce_url_security demo_U (\<lambda>_ _. Some [V4 1]) demo_client (lit ''https://a.io/v1/x'') = Ok [V4 1]"
proof -
  have "parse_url demo_U (lit ''https://a.io/v1/x'') = Some (demo_url (lit ''a.io'') (lit ''/v1/x''))"
    by (simp add: demo_U_def lit_def)
  moreover have "\<not> is_private_ip (V4 1)"
    by (simp add: is_private_ip_def private_ipv4_ranges in_ranges_def private_v4_ranges_def)
  ultimately have "check_private_ip demo_U (\<lambda>_ _. Some [V4 1]) (lit ''https://a.io/v1/x'') = Ok [V4 1]"
    by (simp add: check_private_ip_def) (simp add: demo_url_def demo_host_text)
  moreover have "check_url demo_U (hc_allowlist demo_client) (lit ''https://a.io/v1/x'') = Allowed"
    using demo_rule [of c p] by (simp add: rule_matches_def is_allowed_def demo_client_simps)
  ultimately show ?thesis by (simp add: enforce_url_security_def check_allowlist_def demo_client_simps(1))
qed

theorem requests_obey_policy_witness:
  "\<exists>q r. request_with_timeouts demo_U (\<lambda>_ _. Some [V4 1]) (\<lambda>_ _. Some [V4 1]) (\<lambda>_ _. []) (\<lambda>_. NoClient) demo_client Get
       (lit ''https://a.io/v1/x'') None [] (Some 7200) None = ([q], Ok r) \<and>
     sent_timeout q \<le> 600000 \<and> public_target demo_U (sent_url q) [V4 1] \<and> guarded [V4 1] q"
proof -
  let ?r = "request_with_timeouts demo_U (\<lambda>_ _. Some [V4 1]) (\<lambda>_ _. Some [V4 1]) (\<lambda>_ _. []) (\<lambda>_. NoClient) demo_client Get
       (lit ''https://a.io/v1/x'') None [] (Some 7200) None"
  obtain q r where run: "?r = ([ByTransport q], Ok r)" "tq_pinned_addrs q = [V4 1]"
    by (simp add: request_with_timeouts_def demo_enforce demo_client_simps run_transport_def Let_def)
  from requests_obey_policy [OF run(1)] obtain addrs where
    "public_target demo_U (tq_url q) addrs" "tq_pinned_addrs q = addrs" "tq_timeout q \<le> 600000"
    using demo_client_simps(1) by auto
  with run show ?thesis by (intro exI [of _ "ByTransport q"] exI [of _ r]) simp
qed

end
