(* ===== verification/Ast.thy ===== *)
theory Ast
  imports Prelude
begin

text \<open>
  The syntax tree of shell scripts, \<open>parser/ast.rs\<close>. A struct that only one variant of an enum holds is written as the
  arguments of that constructor, in the order of its fields.
\<close>

record position =
  pos_line :: nat
  pos_column :: nat
  pos_offset :: nat

record span =
  span_start :: position
  span_end :: position

datatype list_operator = OpAnd | OpOr | OpSemicolon | OpBackground

datatype case_terminator = CtBreak | CtFallThrough | CtContinue

datatype parameter_op =
    UseDefault | AssignDefault | UseReplacement | ErrorOp | RemovePrefixShort | RemovePrefixLong | RemoveSuffixShort
  | RemoveSuffixLong | ReplaceFirst rstr rstr | ReplaceAll rstr rstr | UpperFirst | UpperAll | LowerFirst | LowerAll

datatype redirect_kind =
    RedOutput | RedClobber | RedAppend | RedInput | HereDoc | HereDocStrip | HereString | DupOutput | DupInput | OutputBoth

datatype command =
    Simple word "word list" "redirect list" "assignment list" span
  | Pipeline bool "command list" span
  | CommandList command "(list_operator \<times> command) list" span
  | Compound compound_command "redirect list"
  | FunctionDef rstr command "rstr option" span
and compound_command =
    IfCommand "command list" "command list" "(command list \<times> command list) list" "command list option" span
  | ForCommand rstr "word list option" "command list" span
  | ArithmeticForCommand rstr rstr rstr "command list" span
  | WhileCommand "command list" "command list" span
  | UntilCommand "command list" "command list" span
  | CaseCommand word "case_item list" span
  | SelectCommand rstr "word list" "command list" span
  | Subshell "command list"
  | BraceGroup "command list"
  | Arithmetic rstr
  | TimeCommand bool "word option" "word option" bool bool "rstr option" "command option" span
  | Conditional "word list"
  | CoprocCommand rstr command span
and case_item = CaseItem "word list" "command list" case_terminator
and word = Word "word_part list" bool bool "bool list"
and word_part =
    Literal rstr
  | Variable rstr
  | CommandSubstitution "command list"
  | ArithmeticExpansion rstr
  | ParameterExpansion rstr parameter_op rstr bool
  | Length rstr
  | ArrayAccess rstr rstr
  | ArrayLength rstr
  | ArrayIndices rstr
  | Substring rstr rstr "rstr option"
  | ArraySlice rstr rstr "rstr option"
  | IndirectExpansion rstr "parameter_op option" rstr bool
  | PrefixMatch rstr
  | ProcessSubstitution "command list" bool
  | Transformation rstr uchar
and redirect = Redirect "int option" "rstr option" redirect_kind word
and assignment = Assignment rstr "rstr option" assignment_value bool
and assignment_value = Scalar word | ArrayValue "word list"

record script =
  sc_commands :: "command list"
  sc_span :: span

end
