(* ===== verification/StaticBudget.thy ===== *)
theory StaticBudget
  imports Ast Brace
begin

text \<open>
  The static validation of a parsed script before it runs, \<open>parser/budget.rs\<close>: the number of commands, the nesting of
  loops and the size of literal brace ranges. A declarative account of the three demands shows what is accepted, and
  the estimate of a range is compared with its expansion.
\<close>

datatype budget_error =
    BraceRangeTooLarge int int nat nat
  | LoopNestingTooDeep nat nat
  | TooManyCommands nat nat

definition MAX_LOOP_NESTING :: nat where "MAX_LOOP_NESTING = 10"
definition MAX_STATIC_BRACE_RANGE :: nat where "MAX_STATIC_BRACE_RANGE = 100000"
definition MAX_AST_COMMANDS :: nat where "MAX_AST_COMMANDS = 50000"

section \<open>Brace ranges\<close>

text \<open>\<open>content.splitn(3, "..")\<close>\<close>

fun splitn_dots :: "nat \<Rightarrow> rstr \<Rightarrow> rstr list" where
  "splitn_dots n [] = [[]]"
| "splitn_dots n [c] = [[c]]"
| "splitn_dots n (c # d # cs) =
     (if n \<le> 1 then [c # d # cs]
      else if c = 46 \<and> d = 46 then [] # splitn_dots (n - 1) cs
      else (case splitn_dots n (d # cs) of [] \<Rightarrow> [[c]] | p # ps \<Rightarrow> (c # p) # ps))"

definition parse_u64 :: "rstr \<Rightarrow> nat option" where
  "parse_u64 s =
     (let ds = (case s of c # cs \<Rightarrow> if c = 43 then cs else s | [] \<Rightarrow> [])
      in if ds = [] \<or> \<not> list_all is_digit ds then None
         else let v = digits_value ds in if v < 2 ^ 64 then Some v else None)"

definition estimate_brace_range_size :: "rstr \<Rightarrow> nat option" where
  "estimate_brace_range_size content =
     (let parts = splitn_dots 3 content
      in if length parts < 2 then None
         else case (parse_i64 (parts ! 0), parse_i64 (parts ! 1)) of
                (Some start_num, Some end_num) \<Rightarrow>
                  (case (if length parts = 3 then map_option (\<lambda>st. max \<bar>st\<bar> 1) (parse_i64 (parts ! 2)) else Some 1) of
                     None \<Rightarrow> None
                   | Some step \<Rightarrow> Some (min (nat (\<bar>end_num - start_num\<bar> div step + 1)) (2 ^ 64 - 1)))
              | _ \<Rightarrow>
                  if byte_len (parts ! 0) = 1 \<and> byte_len (parts ! 1) = 1 then
                    (let start_byte = hd (parts ! 0); end_byte = hd (parts ! 1);
                         range = (if start_byte \<le> end_byte then end_byte - start_byte else start_byte - end_byte)
                     in (case (if length parts = 3 then map_option (\<lambda>st. max st 1) (parse_u64 (parts ! 2)) else Some 1) of
                           None \<Rightarrow> None
                         | Some step \<Rightarrow> Some (range div step + 1)))
                  else None)"

text \<open>The loop of \<open>check_brace_range\<close> over the opening braces.\<close>

function scan_ranges :: "rstr \<Rightarrow> budget_error + unit" where
  "scan_ranges [] = Ok ()"
| "scan_ranges (c # s) =
     (if c \<noteq> 123 then scan_ranges s
      else if 125 \<notin> set s then Ok ()
      else let content = takeWhile (\<lambda>d. d \<noteq> 125) s
           in (case estimate_brace_range_size content of
                 Some range_size \<Rightarrow>
                   if MAX_STATIC_BRACE_RANGE < range_size
                   then (let parts = splitn_dots 3 content
                         in Err (BraceRangeTooLarge
                              (case parse_i64 (parts ! 0) of Some n \<Rightarrow> n | None \<Rightarrow> 0)
                              (if 1 < length parts then (case parse_i64 (parts ! 1) of Some n \<Rightarrow> n | None \<Rightarrow> 0) else 0)
                              range_size MAX_STATIC_BRACE_RANGE))
                   else scan_ranges (drop (length content + 1) s)
               | None \<Rightarrow> scan_ranges (drop (length content + 1) s)))"
  by pat_completeness auto
termination by (relation "measure length") auto

definition contains_dots :: "rstr \<Rightarrow> bool" where
  "contains_dots s \<longleftrightarrow> 1 < length (splitn_dots 2 s)"

definition check_brace_range :: "rstr \<Rightarrow> budget_error + unit" where
  "check_brace_range s = (if \<not> contains_dots s \<or> 123 \<notin> set s then Ok () else scan_ranges s)"

section \<open>The walk over the tree\<close>

record validation_context =
  vc_loop_depth :: nat
  vc_command_count :: nat

type_synonym validation = "validation_context \<Rightarrow> budget_error + validation_context"

definition enter_nesting :: validation where
  "enter_nesting ctx =
     (let depth = vc_loop_depth ctx + 1
      in if MAX_LOOP_NESTING < depth then Err (LoopNestingTooDeep depth MAX_LOOP_NESTING) else Ok (ctx\<lparr>vc_loop_depth := depth\<rparr>))"

definition leave_nesting :: validation where
  "leave_nesting ctx = Ok (ctx\<lparr>vc_loop_depth := vc_loop_depth ctx - 1\<rparr>)"

definition count_command :: validation where
  "count_command ctx =
     (let n = vc_command_count ctx + 1
      in if MAX_AST_COMMANDS < n then Err (TooManyCommands n MAX_AST_COMMANDS) else Ok (ctx\<lparr>vc_command_count := n\<rparr>))"

text \<open>The loops over children, stopping at the first error.\<close>

definition then_validate :: "validation \<Rightarrow> validation \<Rightarrow> validation" where
  "then_validate v w = (\<lambda>ctx. res_bind (v ctx) w)"

primrec validate_all :: "validation list \<Rightarrow> validation" where
  "validate_all [] = Ok"
| "validate_all (v # vs) = then_validate v (validate_all vs)"

definition validate_loop :: "validation list \<Rightarrow> validation" where
  "validate_loop vs = validate_all ([enter_nesting] @ vs @ [leave_nesting])"

primrec validate_command :: "command \<Rightarrow> validation"
  and validate_compound :: "compound_command \<Rightarrow> validation"
  and validate_case :: "case_item \<Rightarrow> validation"
  and validate_word :: "word \<Rightarrow> validation"
  and validate_word_part :: "word_part \<Rightarrow> bool \<Rightarrow> validation" where
  "validate_command (Simple name args reds asgs sp) =
     validate_all [count_command, validate_word name, validate_all (map validate_word args)]"
| "validate_command (Pipeline neg cs sp) = validate_all [count_command, validate_all (map validate_command cs)]"
| "validate_command (CommandList first rest sp) =
     validate_all [count_command, validate_command first, validate_all (map snd (map (map_prod id validate_command) rest))]"
| "validate_command (Compound compound reds) = validate_all [count_command, validate_compound compound]"
| "validate_command (FunctionDef name body src sp) = validate_all [count_command, validate_command body]"
| "validate_compound (IfCommand cond then_branch elifs else_branch sp) =
     validate_all
       ([validate_all (map validate_command cond), validate_all (map validate_command then_branch)] @
        map (\<lambda>(vs, ws). validate_all [validate_all vs, validate_all ws])
          (map (map_prod (map validate_command) (map validate_command)) elifs) @
        (case map_option (map validate_command) else_branch of None \<Rightarrow> [] | Some vs \<Rightarrow> vs))"
| "validate_compound (ForCommand v words body sp) =
     validate_loop [validate_all (case map_option (map validate_word) words of None \<Rightarrow> [] | Some vs \<Rightarrow> vs), validate_all (map validate_command body)]"
| "validate_compound (ArithmeticForCommand i c st body sp) = validate_loop [validate_all (map validate_command body)]"
| "validate_compound (WhileCommand cond body sp) =
     validate_loop [validate_all (map validate_command cond), validate_all (map validate_command body)]"
| "validate_compound (UntilCommand cond body sp) =
     validate_loop [validate_all (map validate_command cond), validate_all (map validate_command body)]"
| "validate_compound (CaseCommand w cases sp) = validate_all [validate_word w, validate_all (map validate_case cases)]"
| "validate_compound (SelectCommand v words body sp) =
     validate_loop [validate_all (map validate_word words), validate_all (map validate_command body)]"
| "validate_compound (Subshell cs) = validate_all (map validate_command cs)"
| "validate_compound (BraceGroup cs) = validate_all (map validate_command cs)"
| "validate_compound (Arithmetic e) = Ok"
| "validate_compound (TimeCommand p fmt outp app verb err cmd sp) =
     validate_all (case map_option validate_command cmd of None \<Rightarrow> [] | Some v \<Rightarrow> [v])"
| "validate_compound (Conditional ws) = Ok"
| "validate_compound (CoprocCommand name body sp) = validate_command body"
| "validate_case (CaseItem pats cs term) = validate_all (map validate_command cs)"
| "validate_word (Word ps quoted globs part_quoted) = validate_all (map (\<lambda>v. v quoted) (map validate_word_part ps))"
| "validate_word_part (Literal s) quoted = (if quoted then Ok else (\<lambda>ctx. res_bind (check_brace_range s) (\<lambda>_. Ok ctx)))"
| "validate_word_part (Variable v) quoted = Ok"
| "validate_word_part (CommandSubstitution cs) quoted = validate_all (map validate_command cs)"
| "validate_word_part (ArithmeticExpansion e) quoted = Ok"
| "validate_word_part (ParameterExpansion n op1 od c) quoted = Ok"
| "validate_word_part (Length n) quoted = Ok"
| "validate_word_part (ArrayAccess n i) quoted = Ok"
| "validate_word_part (ArrayLength n) quoted = Ok"
| "validate_word_part (ArrayIndices n) quoted = Ok"
| "validate_word_part (Substring n off len) quoted = Ok"
| "validate_word_part (ArraySlice n off len) quoted = Ok"
| "validate_word_part (IndirectExpansion n op1 od c) quoted = Ok"
| "validate_word_part (PrefixMatch n) quoted = Ok"
| "validate_word_part (ProcessSubstitution cs is_input) quoted = validate_all (map validate_command cs)"
| "validate_word_part (Transformation n t) quoted = Ok"

definition validate :: "script \<Rightarrow> budget_error + unit" where
  "validate sc = res_bind (validate_all (map validate_command (sc_commands sc)) \<lparr>vc_loop_depth = 0, vc_command_count = 0\<rparr>) (\<lambda>_. Ok ())"

section \<open>Wide ranges in a literal\<close>

text \<open>
  A text the scan has passed: characters other than an opening brace, and opening braces with the text up to the next
  closing one. An opening brace within such a group is passed without a look.
\<close>

inductive scanned :: "rstr \<Rightarrow> bool" where
  scanned_nil: "scanned []"
| scanned_char: "c \<noteq> 123 \<Longrightarrow> scanned p \<Longrightarrow> scanned (c # p)"
| scanned_group: "125 \<notin> set g \<Longrightarrow> scanned p \<Longrightarrow> scanned (123 # g @ 125 # p)"

text \<open>The text of a numeric range, with or without a step, of more than 100000 elements.\<close>

definition wide_range :: "rstr \<Rightarrow> bool" where
  "wide_range content \<longleftrightarrow>
     (\<exists>a b x y k. parse_i64 a = Some x \<and> parse_i64 b = Some y \<and> 100000 \<le> \<bar>y - x\<bar> div k \<and>
        (content = a @ [46, 46] @ b \<and> k = 1 \<or>
         (\<exists>c z. content = a @ [46, 46] @ b @ [46, 46] @ c \<and> parse_i64 c = Some z \<and> k = max \<bar>z\<bar> 1)))"

definition wide_literal :: "rstr \<Rightarrow> bool" where
  "wide_literal s \<longleftrightarrow>
     (\<exists>before content after. s = before @ 123 # content @ 125 # after \<and> scanned before \<and> 125 \<notin> set content \<and> wide_range content)"

section \<open>What a script demands\<close>

text \<open>
  The commands the walk meets, the deepest nesting of loops on the way and whether all literal ranges are small enough.
  Assignments, redirections, conditionals, patterns and the operands of expansions are not visited.
\<close>

type_synonym demand = "nat \<times> nat \<times> bool"

definition no_demand :: demand where
  "no_demand = (0, 0, True)"

fun both_demands :: "demand \<Rightarrow> demand \<Rightarrow> demand" where
  "both_demands (n, d, ok) (n', d', ok') = (n + n', max d d', ok \<and> ok')"

definition demand_all :: "demand list \<Rightarrow> demand" where
  "demand_all ds = foldr both_demands ds no_demand"

fun counted :: "demand \<Rightarrow> demand" where
  "counted (n, d, ok) = (n + 1, d, ok)"

fun nested :: "demand \<Rightarrow> demand" where
  "nested (n, d, ok) = (n, d + 1, ok)"

primrec demand_command :: "command \<Rightarrow> demand"
  and demand_compound :: "compound_command \<Rightarrow> demand"
  and demand_case :: "case_item \<Rightarrow> demand"
  and demand_word :: "word \<Rightarrow> demand"
  and demand_part :: "word_part \<Rightarrow> bool \<Rightarrow> demand" where
  "demand_command (Simple name args reds asgs sp) = counted (both_demands (demand_word name) (demand_all (map demand_word args)))"
| "demand_command (Pipeline neg cs sp) = counted (demand_all (map demand_command cs))"
| "demand_command (CommandList first rest sp) =
     counted (both_demands (demand_command first) (demand_all (map snd (map (map_prod id demand_command) rest))))"
| "demand_command (Compound compound reds) = counted (demand_compound compound)"
| "demand_command (FunctionDef name body src sp) = counted (demand_command body)"
| "demand_compound (IfCommand cond then_branch elifs else_branch sp) =
     demand_all (map demand_command cond @ map demand_command then_branch @
       concat (map (\<lambda>(ds, es). ds @ es) (map (map_prod (map demand_command) (map demand_command)) elifs)) @
       (case map_option (map demand_command) else_branch of None \<Rightarrow> [] | Some ds \<Rightarrow> ds))"
| "demand_compound (ForCommand v words body sp) =
     nested (demand_all ((case map_option (map demand_word) words of None \<Rightarrow> [] | Some ds \<Rightarrow> ds) @ map demand_command body))"
| "demand_compound (ArithmeticForCommand i c st body sp) = nested (demand_all (map demand_command body))"
| "demand_compound (WhileCommand cond body sp) = nested (demand_all (map demand_command cond @ map demand_command body))"
| "demand_compound (UntilCommand cond body sp) = nested (demand_all (map demand_command cond @ map demand_command body))"
| "demand_compound (CaseCommand w cases sp) = both_demands (demand_word w) (demand_all (map demand_case cases))"
| "demand_compound (SelectCommand v words body sp) = nested (demand_all (map demand_word words @ map demand_command body))"
| "demand_compound (Subshell cs) = demand_all (map demand_command cs)"
| "demand_compound (BraceGroup cs) = demand_all (map demand_command cs)"
| "demand_compound (Arithmetic e) = no_demand"
| "demand_compound (TimeCommand p fmt outp app verb err cmd sp) =
     (case map_option demand_command cmd of None \<Rightarrow> no_demand | Some d \<Rightarrow> d)"
| "demand_compound (Conditional ws) = no_demand"
| "demand_compound (CoprocCommand name body sp) = demand_command body"
| "demand_case (CaseItem pats cs term) = demand_all (map demand_command cs)"
| "demand_word (Word ps quoted globs part_quoted) = demand_all (map (\<lambda>d. d quoted) (map demand_part ps))"
| "demand_part (Literal s) quoted = (0, 0, quoted \<or> \<not> wide_literal s)"
| "demand_part (Variable v) quoted = no_demand"
| "demand_part (CommandSubstitution cs) quoted = demand_all (map demand_command cs)"
| "demand_part (ArithmeticExpansion e) quoted = no_demand"
| "demand_part (ParameterExpansion n op1 od c) quoted = no_demand"
| "demand_part (Length n) quoted = no_demand"
| "demand_part (ArrayAccess n i) quoted = no_demand"
| "demand_part (ArrayLength n) quoted = no_demand"
| "demand_part (ArrayIndices n) quoted = no_demand"
| "demand_part (Substring n off len) quoted = no_demand"
| "demand_part (ArraySlice n off len) quoted = no_demand"
| "demand_part (IndirectExpansion n op1 od c) quoted = no_demand"
| "demand_part (PrefixMatch n) quoted = no_demand"
| "demand_part (ProcessSubstitution cs is_input) quoted = demand_all (map demand_command cs)"
| "demand_part (Transformation n t) quoted = no_demand"

section \<open>The scan finds the wide ranges\<close>

lemma parse_i64_no_dot: "parse_i64 a = Some x \<Longrightarrow> 46 \<notin> set a"
  by (auto simp: parse_i64_def Let_def is_digit_def list_all_iff split: list.splits if_splits)

lemma splitn_dots_ne [simp]: "splitn_dots n s \<noteq> []"
  by (induction n s rule: splitn_dots.induct) (auto split: list.split)

lemma splitn_dots_join: "splitn_dots n s = p # ps \<Longrightarrow> s = p @ concat (map (\<lambda>q. 46 # 46 # q) ps)"
proof (induction n s arbitrary: p ps rule: splitn_dots.induct)
  case (3 n c d cs)
  then show ?case
  proof (cases "n \<le> 1")
    case False
    then show ?thesis
    proof (cases "c = 46 \<and> d = 46")
      case True
      obtain q qs where q: "splitn_dots (n - 1) cs = q # qs" by (cases "splitn_dots (n - 1) cs") auto
      with 3(3) False True have "p = []" "ps = q # qs" by simp_all
      then show ?thesis using 3(1) [OF False True q] True by simp
    next
      case neq: False
      obtain q qs where q: "splitn_dots n (d # cs) = q # qs" by (cases "splitn_dots n (d # cs)") auto
      with 3(3) False neq have "p = c # q" "ps = qs" by (simp_all split: if_splits)
      then show ?thesis using 3(2) [OF False neq q] by simp
    qed
  qed simp
qed auto

lemma splitn_dots_length: "length (splitn_dots n s) \<le> max n 1"
proof (induction n s rule: splitn_dots.induct)
  case (3 n c d cs)
  then show ?case by (auto split: list.split)
qed auto

lemma splitn_dots_last: "46 \<notin> set s \<or> n \<le> 1 \<Longrightarrow> splitn_dots n s = [s]"
  by (induction n s rule: splitn_dots.induct) auto

lemma splitn_dots_first:
  "46 \<notin> set a \<Longrightarrow> 2 \<le> n \<Longrightarrow> splitn_dots n (a @ 46 # 46 # b) = a # splitn_dots (n - 1) b"
proof (induction a)
  case (Cons c a)
  then show ?case by (cases a) auto
qed simp

lemma splitn_dots_two: "2 \<le> n \<Longrightarrow> splitn_dots n (u @ 46 # 46 # v) \<noteq> [p]"
proof (induction n "u @ 46 # 46 # v" arbitrary: u p rule: splitn_dots.induct)
  case (3 n c d cs)
  show ?case
  proof (cases u)
    case Nil
    then show ?thesis using 3(2-4) by auto
  next
    case (Cons e u')
    then have cs: "d # cs = u' @ 46 # 46 # v" using 3(3) by simp
    have "\<not> n \<le> 1" using 3(4) by simp
    show ?thesis
    proof (cases "c = 46 \<and> d = 46")
      case False
      have "splitn_dots n (d # cs) \<noteq> [q]" for q
        using 3(2) [OF \<open>\<not> n \<le> 1\<close> False cs 3(4)] unfolding cs .
      then show ?thesis
        using False \<open>\<not> n \<le> 1\<close> unfolding 3(3) [symmetric] by (auto split: list.split)
    qed (use \<open>\<not> n \<le> 1\<close> in \<open>simp add: 3(3) [symmetric]\<close>)
  qed
qed auto

lemma estimate_char_small:
  assumes "estimate_brace_range_size content = Some r" "length (splitn_dots 3 content) \<ge> 2"
    and "parse_i64 (splitn_dots 3 content ! 0) = None \<or> parse_i64 (splitn_dots 3 content ! 1) = None"
  shows "r \<le> 128"
proof -
  let ?p = "splitn_dots 3 content"
  have small: "hd w < 128" if "byte_len w = 1" for w using that by (cases w) (auto simp: len_utf8_def split: if_splits)
  define d where "d = (if hd (?p ! 0) \<le> hd (?p ! 1) then hd (?p ! 1) - hd (?p ! 0) else hd (?p ! 0) - hd (?p ! 1))"
  have b: "byte_len (?p ! 0) = 1 \<and> byte_len (?p ! 1) = 1" and "\<exists>step. r = d div step + 1"
    using assms by (auto simp: estimate_brace_range_size_def Let_def d_def split: option.splits if_splits)
  moreover from b small[of "?p ! 0"] small[of "?p ! 1"] have "d < 128" by (auto simp: d_def)
  ultimately show ?thesis by (metis Suc_eq_plus1 Suc_leI div_le_dividend le_less_trans)
qed

lemma estimate_wide: "(\<exists>r. estimate_brace_range_size content = Some r \<and> MAX_STATIC_BRACE_RANGE < r) \<longleftrightarrow> wide_range content"
proof
  assume "\<exists>r. estimate_brace_range_size content = Some r \<and> MAX_STATIC_BRACE_RANGE < r"
  then obtain r where r: "estimate_brace_range_size content = Some r" "100000 < r" by (auto simp: MAX_STATIC_BRACE_RANGE_def)
  let ?p = "splitn_dots 3 content"
  have len: "2 \<le> length ?p" using r(1) by (auto simp: estimate_brace_range_size_def Let_def split: if_splits)
  have "\<not> r \<le> 128" using r(2) by simp
  then obtain x y where xy: "parse_i64 (?p ! 0) = Some x" "parse_i64 (?p ! 1) = Some y"
    using estimate_char_small [OF r(1) len] by (metis option.exhaust)
  consider a b where "?p = [a, b]" | a b c where "?p = [a, b, c]"
    using len splitn_dots_length [of 3 content] by (auto simp: le_Suc_eq length_Suc_conv numeral_eq_Suc)
  then show "wide_range content"
  proof cases
    case 1
    then have "100000 \<le> \<bar>y - x\<bar> div 1" using r xy by (auto simp: estimate_brace_range_size_def)
    moreover have "content = a @ [46, 46] @ b" using splitn_dots_join [OF 1] by simp
    ultimately show ?thesis using xy unfolding 1 wide_range_def by fastforce
  next
    case 2
    then obtain z where z: "parse_i64 c = Some z" using r(1) xy by (auto simp: estimate_brace_range_size_def split: option.splits)
    then have "100000 \<le> \<bar>y - x\<bar> div max \<bar>z\<bar> 1" using 2 r xy by (simp add: estimate_brace_range_size_def) linarith
    moreover have "content = a @ [46, 46] @ b @ [46, 46] @ c" using splitn_dots_join [OF 2] by simp
    ultimately show ?thesis using xy z unfolding 2 wide_range_def by fastforce
  qed
next
  assume "wide_range content"
  then obtain a b x y k where ab: "parse_i64 a = Some x" "parse_i64 b = Some y" "100000 \<le> \<bar>y - x\<bar> div k"
    and "content = a @ [46, 46] @ b \<and> k = 1 \<or>
      (\<exists>c z. content = a @ [46, 46] @ b @ [46, 46] @ c \<and> parse_i64 c = Some z \<and> k = max \<bar>z\<bar> 1)"
    unfolding wide_range_def by blast
  then consider "content = a @ 46 # 46 # b" "k = 1"
    | c z where "content = a @ 46 # 46 # b @ 46 # 46 # c" "parse_i64 c = Some z" "k = max \<bar>z\<bar> 1" by auto
  then show "\<exists>r. estimate_brace_range_size content = Some r \<and> MAX_STATIC_BRACE_RANGE < r"
  proof cases
    case 1
    then have "splitn_dots 3 content = [a, b]"
      using parse_i64_no_dot [OF ab(1)] parse_i64_no_dot [OF ab(2)] by (simp add: splitn_dots_first splitn_dots_last)
    with ab 1 show ?thesis by (simp add: estimate_brace_range_size_def MAX_STATIC_BRACE_RANGE_def)
  next
    case 2
    then have "splitn_dots 3 content = [a, b, c]"
      using parse_i64_no_dot [OF ab(1)] parse_i64_no_dot [OF ab(2)] by (simp add: splitn_dots_first splitn_dots_last)
    with ab 2 show ?thesis by (simp add: estimate_brace_range_size_def MAX_STATIC_BRACE_RANGE_def)
  qed
qed

lemma wide_literal_none: "123 \<notin> set s \<or> 125 \<notin> set s \<Longrightarrow> \<not> wide_literal s"
  by (auto simp: wide_literal_def)

lemma wide_literal_char: "c \<noteq> 123 \<Longrightarrow> wide_literal (c # s) \<longleftrightarrow> wide_literal s"
  unfolding wide_literal_def by (auto simp: Cons_eq_append_conv elim: scanned.cases intro: scanned_char)

lemma closing_unique: "125 \<notin> set g \<Longrightarrow> 125 \<notin> set h \<Longrightarrow> g @ 125 # s = h @ 125 # r \<Longrightarrow> g = h \<and> s = r" for g :: rstr
  by (induction g arbitrary: h) (auto simp: Cons_eq_append_conv)

lemma wide_literal_group:
  assumes "125 \<notin> set g"
  shows "wide_literal (123 # g @ 125 # s) \<longleftrightarrow> wide_range g \<or> wide_literal s"
proof
  assume "wide_literal (123 # g @ 125 # s)"
  then obtain before content after where eq: "123 # g @ 125 # s = before @ 123 # content @ 125 # after"
    and w: "scanned before" "125 \<notin> set content" "wide_range content" unfolding wide_literal_def by blast
  show "wide_range g \<or> wide_literal s"
    using w(1)
  proof cases
    case scanned_nil
    then have "g @ 125 # s = content @ 125 # after" using eq by simp
    from closing_unique [OF assms w(2) this] have "g = content" by simp
    then show ?thesis using w(3) by simp
  next
    case (scanned_group h p)
    then have "g @ 125 # s = h @ 125 # p @ 123 # content @ 125 # after" using eq by simp
    from closing_unique [OF assms scanned_group(2) this] have "s = p @ 123 # content @ 125 # after" by simp
    then show ?thesis using scanned_group(3) w unfolding wide_literal_def by blast
  qed (use eq in simp)
next
  assume "wide_range g \<or> wide_literal s"
  then show "wide_literal (123 # g @ 125 # s)"
  proof
    assume "wide_range g"
    then show ?thesis using assms scanned_nil unfolding wide_literal_def by (metis append_Nil)
  next
    assume "wide_literal s"
    then obtain before content after where s: "s = before @ 123 # content @ 125 # after"
      "scanned before" "125 \<notin> set content" "wide_range content" unfolding wide_literal_def by blast
    then have "123 # g @ 125 # s = (123 # g @ 125 # before) @ 123 # content @ 125 # after" by simp
    with s scanned_group [OF assms] show ?thesis unfolding wide_literal_def by blast
  qed
qed

lemma scan_ranges_wide: "is_ok (scan_ranges s) \<longleftrightarrow> \<not> wide_literal s"
proof (induction s rule: scan_ranges.induct)
  case 1
  then show ?case by (simp add: is_ok_def wide_literal_none)
next
  case (2 c s)
  show ?case
  proof (cases "c = 123 \<and> 125 \<in> set s")
    case False
    then show ?thesis
      using 2(1) wide_literal_char [of c s] wide_literal_none [of "c # s"] unfolding scan_ranges.simps(2)
      by (auto simp: is_ok_def simp del: scan_ranges.simps)
  next
    case True
    define g where "g = takeWhile (\<lambda>d. d \<noteq> 125) s"
    have g: "125 \<notin> set g" by (auto simp: g_def dest: set_takeWhileD)
    obtain r where r: "s = g @ 125 # r"
      using True takeWhile_dropWhile_id [of "\<lambda>d. d \<noteq> 125" s] hd_dropWhile [of "\<lambda>d. d \<noteq> 125" s]
      unfolding g_def by (metis (full_types) dropWhile_eq_Nil_conv list.exhaust_sel)
    have rest: "drop (length g + 1) s = r" by (simp add: r)
    have scan: "is_ok (scan_ranges (c # s)) \<longleftrightarrow> \<not> wide_range g \<and> is_ok (scan_ranges r)"
      unfolding scan_ranges.simps(2) [of c s] estimate_wide [symmetric]
      using True rest by (auto simp: Let_def g_def [symmetric] is_ok_def split: option.splits simp del: scan_ranges.simps)
    have "is_ok (scan_ranges r) \<longleftrightarrow> \<not> wide_literal r" if n: "\<not> wide_range g"
    proof (cases "estimate_brace_range_size g")
      case None
      then show ?thesis using 2(2) [OF _ _ g_def] True rest by simp
    next
      case (Some n)
      then have "\<not> MAX_STATIC_BRACE_RANGE < n" using n unfolding estimate_wide [symmetric] by simp
      then show ?thesis using 2(3) [OF _ _ g_def, of n] Some True rest by simp
    qed
    then show ?thesis using scan wide_literal_group [OF g, of r] True r by auto
  qed
qed

lemma check_brace_range_wide: "is_ok (check_brace_range s) \<longleftrightarrow> \<not> wide_literal s"
proof (cases "contains_dots s \<and> 123 \<in> set s")
  case True
  then show ?thesis by (simp add: check_brace_range_def scan_ranges_wide)
next
  case False
  have "contains_dots s" if "wide_literal s"
  proof (rule ccontr)
    assume "\<not> contains_dots s"
    then have "\<exists>p. splitn_dots 2 s = [p]" by (cases "splitn_dots 2 s") (auto simp: contains_dots_def)
    moreover have "\<exists>u v. s = u @ 46 # 46 # v"
    proof -
      from that obtain before content after where c: "s = before @ 123 # content @ 125 # after" "wide_range content"
        unfolding wide_literal_def by blast
      then obtain a b where "content = a @ 46 # 46 # b" unfolding wide_range_def by auto
      with c have "s = (before @ 123 # a) @ 46 # 46 # b @ 125 # after" by simp
      then show ?thesis by blast
    qed
    ultimately show False using splitn_dots_two by blast
  qed
  with False show ?thesis using wide_literal_none [of s] by (auto simp: check_brace_range_def is_ok_def)
qed

section \<open>The walk implements the demands\<close>

definition implements :: "validation \<Rightarrow> demand \<Rightarrow> bool" where
  "implements v dm \<longleftrightarrow> (\<forall>ctx ctx'. v ctx = Ok ctx' \<longleftrightarrow>
     (case dm of (n, d, ok) \<Rightarrow>
        (n = 0 \<or> vc_command_count ctx + n \<le> MAX_AST_COMMANDS) \<and> (d = 0 \<or> vc_loop_depth ctx + d \<le> MAX_LOOP_NESTING) \<and> ok \<and>
        ctx' = ctx\<lparr>vc_command_count := vc_command_count ctx + n\<rparr>))"

lemma implements_none: "implements Ok no_demand"
  by (auto simp: implements_def no_demand_def)

lemma implements_then: "implements v dm \<Longrightarrow> implements w dm' \<Longrightarrow> implements (then_validate v w) (both_demands dm dm')"
  by (cases dm; cases dm') (auto simp: implements_def then_validate_def res_bind_Inr)

lemma both_demands_assoc: "both_demands (both_demands a b) c = both_demands a (both_demands b c)"
  by (cases a; cases b; cases c) auto

lemma both_no_demand [simp]: "both_demands no_demand d = d" "both_demands d no_demand = d"
  by (cases d; simp add: no_demand_def)+

lemma demand_all_simps [simp]:
  "demand_all [] = no_demand" "demand_all (d # ds) = both_demands d (demand_all ds)"
  "demand_all (ds @ es) = both_demands (demand_all ds) (demand_all es)"
  by (simp_all add: demand_all_def) (induction ds, simp_all add: both_demands_assoc)

lemma implements_all: "list_all2 implements vs ds \<Longrightarrow> implements (validate_all vs) (demand_all ds)"
  by (induction rule: list_all2_induct) (simp_all add: implements_none implements_then)

lemma implements_map [intro]:
  "(\<And>x. x \<in> set xs \<Longrightarrow> implements (f x) (g x)) \<Longrightarrow> implements (validate_all (map f xs)) (demand_all (map g xs))"
  by (intro implements_all) (simp add: list_all2_conv_all_nth)

lemma implements_count: "implements count_command (1, 0, True)"
  by (auto simp: implements_def count_command_def Let_def)

lemma counted_both: "counted d = both_demands (1, 0, True) d"
  by (cases d) auto

text \<open>Entering and leaving a loop around a walk that keeps the depth.\<close>

lemma implements_loop:
  assumes "implements (validate_all vs) d"
  shows "implements (validate_loop vs) (nested d)"
proof -
  obtain n k ok where d: "d = (n, k, ok)" by (cases d)
  have all: "validate_all (vs @ ws) ctx = res_bind (validate_all vs ctx) (validate_all ws)" for ws ctx
    by (induction vs arbitrary: ctx) (auto simp: then_validate_def res_bind_def split: sum.splits)
  have "validate_loop vs ctx = res_bind (enter_nesting ctx) (\<lambda>c. res_bind (validate_all vs c) leave_nesting)" for ctx
    by (simp add: validate_loop_def then_validate_def all) (simp add: then_validate_def res_bind_def all split: sum.splits)
  then show ?thesis using assms unfolding implements_def d
    by (auto simp: res_bind_Inr enter_nesting_def leave_nesting_def Let_def)
qed

lemma then_validate_Ok [simp]: "then_validate v Ok = v" "then_validate Ok v = v"
  by (auto simp: then_validate_def res_bind_def fun_eq_iff split: sum.splits)

lemma validate_all_append [simp]: "validate_all (vs @ ws) = then_validate (validate_all vs) (validate_all ws)"
  by (induction vs) (auto simp: then_validate_def res_bind_def fun_eq_iff split: sum.splits)

lemma implements_counted: "implements v d \<Longrightarrow> implements (then_validate count_command v) (counted d)"
  unfolding counted_both by (intro implements_then implements_count)

text \<open>Loops over pairs, as in the rest of a list of commands and the branches of an \<open>elif\<close>.\<close>

lemma implements_rest:
  assumes "\<And>x y. x \<in> set xs \<Longrightarrow> y \<in> Basic_BNFs.snds x \<Longrightarrow> implements (f y) (g y)"
  shows "implements (validate_all (map (\<lambda>x. f (snd x)) xs)) (demand_all (map (\<lambda>x. g (snd x)) xs))"
  using assms by (intro implements_map) (metis snds.intros)

lemma implements_elifs:
  assumes "\<And>x ys y. x \<in> set xs \<Longrightarrow> ys \<in> Basic_BNFs.fsts x \<Longrightarrow> y \<in> set ys \<Longrightarrow> implements (f y) (g y)"
    and "\<And>x ys y. x \<in> set xs \<Longrightarrow> ys \<in> Basic_BNFs.snds x \<Longrightarrow> y \<in> set ys \<Longrightarrow> implements (f y) (g y)"
  shows "implements (validate_all (map (\<lambda>(vs, ws). validate_all [validate_all vs, validate_all ws]) (map (map_prod (map f) (map f)) xs)))
    (demand_all (concat (map (\<lambda>(ds, es). ds @ es) (map (map_prod (map g) (map g)) xs))))"
  using assms
proof (induction xs)
  case (Cons x xs)
  have "fst x \<in> Basic_BNFs.fsts x" "snd x \<in> Basic_BNFs.snds x" by (cases x; simp)+
  then have "implements (validate_all (map f (fst x))) (demand_all (map g (fst x)))"
    "implements (validate_all (map f (snd x))) (demand_all (map g (snd x)))"
    using Cons.prems(1)[of x "fst x"] Cons.prems(2)[of x "snd x"] by auto
  then have "implements (then_validate (validate_all (map f (fst x))) (validate_all (map f (snd x))))
      (both_demands (demand_all (map g (fst x))) (demand_all (map g (snd x))))" by (rule implements_then)
  moreover have "implements (validate_all (map (\<lambda>(vs, ws). validate_all [validate_all vs, validate_all ws]) (map (map_prod (map f) (map f)) xs)))
    (demand_all (concat (map (\<lambda>(ds, es). ds @ es) (map (map_prod (map g) (map g)) xs))))"
    using Cons.prems(1) Cons.prems(2) by (intro Cons.IH) (meson list.set_intros(2))+
  ultimately have "implements
      (then_validate (then_validate (validate_all (map f (fst x))) (validate_all (map f (snd x))))
        (validate_all (map (\<lambda>(vs, ws). validate_all [validate_all vs, validate_all ws]) (map (map_prod (map f) (map f)) xs))))
      (both_demands (both_demands (demand_all (map g (fst x))) (demand_all (map g (snd x))))
        (demand_all (concat (map (\<lambda>(ds, es). ds @ es) (map (map_prod (map g) (map g)) xs)))))"
    by (rule implements_then)
  then show ?case by (cases x) (simp add: both_demands_assoc)
qed (simp add: implements_none)

lemma implements_else:
  assumes "\<And>xs x. xs \<in> set_option ox \<Longrightarrow> x \<in> set xs \<Longrightarrow> implements (f x) (g x)"
  shows "implements (validate_all (case map_option (map f) ox of None \<Rightarrow> [] | Some vs \<Rightarrow> vs))
    (demand_all (case map_option (map g) ox of None \<Rightarrow> [] | Some ds \<Rightarrow> ds))"
  using assms by (cases ox) (auto simp: implements_none)

lemma implements_literal: "implements (validate_word_part (Literal s) quoted) (demand_part (Literal s) quoted)"
  using check_brace_range_wide [of s] by (auto simp: implements_def is_ok_def res_bind_def split: sum.splits)

lemma walk_implements_all:
  fixes r :: redirect and a :: assignment and v :: assignment_value
  shows "implements (validate_command c) (demand_command c)"
    and "implements (validate_compound m) (demand_compound m)"
    and "implements (validate_case i) (demand_case i)"
    and "implements (validate_word w) (demand_word w)"
    and "\<forall>quoted. implements (validate_word_part p quoted) (demand_part p quoted)"
    and "True" and "True" and "True"
proof (induction c and m and i and w and p and r and a and v)
  case (Simple name args reds asgs sp)
  then show ?case by (auto intro!: implements_counted implements_then implements_map)
next
  case (Pipeline neg cs sp)
  then show ?case by (auto intro!: implements_counted implements_map)
next
  case (CommandList first rest sp)
  then show ?case by (auto intro!: implements_counted implements_then implements_rest simp: comp_def)
next
  case (Compound compound reds)
  then show ?case by (auto intro!: implements_counted)
next
  case (FunctionDef name body src sp)
  then show ?case by (auto intro!: implements_counted)
next
  case (IfCommand cond then_branch elifs else_branch sp)
  have c: "implements (validate_all (map validate_command cond)) (demand_all (map demand_command cond))"
    and t: "implements (validate_all (map validate_command then_branch)) (demand_all (map demand_command then_branch))"
    using IfCommand(1,2) by auto
  note l = implements_elifs [where xs = elifs and f = validate_command and g = demand_command]
  have "implements (validate_all (case map_option (map validate_command) else_branch of None \<Rightarrow> [] | Some vs \<Rightarrow> vs))
    (demand_all (case map_option (map demand_command) else_branch of None \<Rightarrow> [] | Some ds \<Rightarrow> ds))"
    by (rule implements_else) (use IfCommand(5) in blast)
  then have "implements
      (then_validate (then_validate (validate_all (map validate_command cond)) (validate_all (map validate_command then_branch)))
        (then_validate (validate_all (map (\<lambda>(vs, ws). validate_all [validate_all vs, validate_all ws])
              (map (map_prod (map validate_command) (map validate_command)) elifs)))
          (validate_all (case map_option (map validate_command) else_branch of None \<Rightarrow> [] | Some vs \<Rightarrow> vs))))
      (both_demands (both_demands (demand_all (map demand_command cond)) (demand_all (map demand_command then_branch)))
        (both_demands (demand_all (concat (map (\<lambda>(ds, es). ds @ es)
              (map (map_prod (map demand_command) (map demand_command)) elifs))))
          (demand_all (case map_option (map demand_command) else_branch of None \<Rightarrow> [] | Some ds \<Rightarrow> ds))))"
    by (intro implements_then c t l) (use IfCommand(3,4) in blast)+
  then show ?case
    by (simp only: validate_compound.simps demand_compound.simps validate_all_append demand_all_simps(3) validate_all.simps
        then_validate_Ok both_demands_assoc)
next
  case (ForCommand v words body sp)
  have b: "implements (validate_all (map validate_command body)) (demand_all (map demand_command body))"
    using ForCommand(2) by auto
  have "implements (validate_all (case map_option (map validate_word) words of None \<Rightarrow> [] | Some vs \<Rightarrow> vs))
    (demand_all (case map_option (map demand_word) words of None \<Rightarrow> [] | Some ds \<Rightarrow> ds))"
    by (rule implements_else) (use ForCommand(1) in blast)
  from implements_then [OF this b] show ?case
    unfolding validate_compound.simps demand_compound.simps
    by (intro implements_loop) (simp only: validate_all.simps then_validate_Ok demand_all_simps(3))
next
  case (ArithmeticForCommand i c st body sp)
  then show ?case by (auto intro!: implements_loop implements_map)
next
  case (WhileCommand cond body sp)
  then show ?case by (auto intro!: implements_loop implements_then implements_map)
next
  case (UntilCommand cond body sp)
  then show ?case by (auto intro!: implements_loop implements_then implements_map)
next
  case (CaseCommand w cases sp)
  then show ?case by (auto intro!: implements_then implements_map)
next
  case (SelectCommand v words body sp)
  then show ?case by (auto intro!: implements_loop implements_then implements_map)
next
  case (TimeCommand p fmt outp app verb err cmd sp)
  then show ?case by (cases cmd) (auto simp: implements_none)
next
  case (Word ps quoted globs part_quoted)
  then show ?case by (auto simp: comp_def intro!: implements_map)
next
  case (Literal s)
  then show ?case by (simp only: implements_literal simp_thms)
next
  case (CommandSubstitution cs)
  then show ?case by auto
next
  case (ProcessSubstitution cs is_input)
  then show ?case by auto
qed (auto simp: implements_none)


text \<open>
  Property C30: the static validation accepts a script exactly when the commands it visits are at most 50000, its loops
  nest at most ten deep and no unquoted literal holds a brace group that is the text of a numeric range of more than
  100000 elements; a group runs from an opening brace, the leftmost outside the groups before it, to the next closing
  brace, so the range within \<open>{a,{1..999999}}\<close> is not looked at. The three demands are computed bottom up from the
  tree, without the mutable context the walk threads through it: the counter of loops is restored on every way out of a
  loop, and the order of the checks does not matter for acceptance. Assignments, redirections, conditionals, patterns
  and the operands of expansions are not visited.
\<close>

theorem validate_accepts_exactly:
  "validate sc = Ok () \<longleftrightarrow>
     (case demand_all (map demand_command (sc_commands sc)) of (n, d, ok) \<Rightarrow> n \<le> MAX_AST_COMMANDS \<and> d \<le> MAX_LOOP_NESTING \<and> ok)"
proof -
  have "implements (validate_all (map validate_command (sc_commands sc))) (demand_all (map demand_command (sc_commands sc)))"
    by (intro implements_map walk_implements_all)
  then show ?thesis
    by (cases "demand_all (map demand_command (sc_commands sc))") (auto simp: validate_def implements_def res_bind_Inr)
qed

section \<open>Ranges before and at run time\<close>

lemma split_dots_ne [simp]: "split_dots s \<noteq> []"
  by (induction s rule: split_dots.induct) (auto split: list.split)

lemma split_dots_single: "split_dots s = [a] \<Longrightarrow> a = s"
  by (induction s arbitrary: a rule: split_dots.induct) (auto split: list.splits if_splits)

lemma splitn_split: "length (split_dots s) \<le> n \<Longrightarrow> splitn_dots n s = split_dots s"
proof (induction n s rule: splitn_dots.induct)
  case (3 n c d cs)
  show ?case
  proof (cases "c = 46 \<and> d = 46")
    case True
    have "1 \<le> length (split_dots cs)" by (simp add: Suc_le_eq)
    with 3 True show ?thesis by auto
  next
    case False
    then show ?thesis using 3 by (cases "split_dots (d # cs)"; cases "n \<le> 1") (auto simp: le_Suc_eq dest: split_dots_single split: list.splits)
  qed
qed auto


lemma parse_step_abs:
  assumes "parse_step parts dflt = Some step" "\<bar>dflt\<bar> = 1"
  shows "(if length parts = 3 then map_option (\<lambda>st. max \<bar>st\<bar> 1) (parse_i64 (parts ! 2)) else Some 1) = Some \<bar>step\<bar>"
    and "step \<noteq> 0"
  using assms by (auto simp: parse_step_def max_def split: option.splits if_splits)

text \<open>
  The estimate the validation makes of a range agrees with what the interpreter makes of it. A numeric range
  that expands has exactly as many words as estimated, whatever its step, and a range that is estimated above the static
  limit of 100000 never expands at run time, where the limit is 10000 elements.
\<close>

theorem static_ranges_agree:
  assumes "estimate_brace_range_size content = Some r"
  shows "(try_expand_range content = Some ws \<and> parse_i64 (split_dots content ! 0) \<noteq> None \<and>
      parse_i64 (split_dots content ! 1) \<noteq> None \<longrightarrow> length ws = r) \<and>
    (MAX_STATIC_BRACE_RANGE < r \<longrightarrow> try_expand_range content = None)"
proof -
  have parts: "splitn_dots 3 content = split_dots content" "2 \<le> length (split_dots content)" if "try_expand_range content = Some vs" for vs
    using that by (auto simp: try_expand_range_def Let_def splitn_split split: if_splits)
  have count: "length vs = r \<and> length vs \<le> 10000"
    if e: "try_expand_range content = Some vs" and x: "parse_i64 (split_dots content ! 0) = Some x"
      and y: "parse_i64 (split_dots content ! 1) = Some y" for vs x y
  proof -
    from numeric_range_exact [OF e x y] obtain step
      where st: "parse_step (split_dots content) (if x \<le> y then 1 else - 1) = Some step"
        and ws: "map parse_i64 vs = map (\<lambda>k. Some (x + (if x \<le> y then \<bar>step\<bar> else - \<bar>step\<bar>) * int k))
          [0..<nat (\<bar>y - x\<bar> div \<bar>step\<bar> + 1)]" and len: "length vs \<le> 10000" by blast
    from ws have n: "length vs = nat (\<bar>y - x\<bar> div \<bar>step\<bar> + 1)" by (metis length_map length_upt diff_zero)
    have "estimate_brace_range_size content = Some (min (length vs) (2 ^ 64 - 1))"
      unfolding estimate_brace_range_size_def Let_def parts(1)[OF e] x y n
      using parts(2)[OF e] parse_step_abs(1)[OF st] by simp
    with assms len show ?thesis by auto
  qed
  have "try_expand_range content = None" if big: "MAX_STATIC_BRACE_RANGE < r"
  proof (rule ccontr)
    assume "try_expand_range content \<noteq> None"
    then obtain vs where e: "try_expand_range content = Some vs" by auto
    have "r \<le> 10000"
      using count[OF e] estimate_char_small[OF assms] parts[OF e]
      by (cases "parse_i64 (split_dots content ! 0)"; cases "parse_i64 (split_dots content ! 1)") auto
    with big show False by (simp add: MAX_STATIC_BRACE_RANGE_def)
  qed
  then show ?thesis using count by auto
qed

theorem static_ranges_agree_witness:
  "estimate_brace_range_size (lit ''8..1..3'') = Some 3 \<and> try_expand_range (lit ''8..1..3'') = Some [lit ''8'', lit ''5'', lit ''2''] \<and>
   estimate_brace_range_size (lit ''1..100001'') = Some 100001 \<and> try_expand_range (lit ''1..100001'') = None"
proof -
  have "estimate_brace_range_size (lit ''8..1..3'') = Some 3" "estimate_brace_range_size (lit ''1..100001'') = Some 100001"
    by (simp_all add: lit_def estimate_brace_range_size_def parse_i64_def is_digit_def digits_value_def)
  moreover have "try_expand_range (lit ''8..1..3'') = Some [lit ''8'', lit ''5'', lit ''2'']"
    by (simp add: lit_def try_expand_range_def parse_i64_def is_digit_def digits_value_def expand_numeric_range_def
        parse_step_def MAX_BRACE_RANGE_def count_down.simps int_to_string_def)
  moreover have "try_expand_range (lit ''1..100001'') = None"
    using static_ranges_agree [of "lit ''1..100001''" 100001 "[]"] calculation(2) by (simp add: MAX_STATIC_BRACE_RANGE_def)
  ultimately show ?thesis by simp
qed

end
