(* ===== verification/StreamData.thy ===== *)
theory StreamData
  imports Utf8
begin

text \<open>
  The byte streams between commands, \<open>stream.rs\<close>: a stream holds its bytes and their text, decoded with
  \<open>String::from_utf8_lossy\<close> of the standard library. Appending decodes again only when the bytes around the seam
  call for it.
\<close>

section \<open>Lossy decoding\<close>

text \<open>
  The standard library replaces every maximal prefix of a sequence that cannot be continued by U+FFFD. The decoder below
  reads byte by byte; its state is the incomplete sequence read so far.
\<close>

definition REPLACEMENT :: uchar where "REPLACEMENT = 0xFFFD"

definition utf8_width :: "nat \<Rightarrow> nat" where
  "utf8_width b =
     (if b < 0x80 then 1 else if 0xC2 \<le> b \<and> b \<le> 0xDF then 2 else if 0xE0 \<le> b \<and> b \<le> 0xEF then 3
      else if 0xF0 \<le> b \<and> b \<le> 0xF4 then 4 else 0)"

definition second_ok :: "nat \<Rightarrow> nat \<Rightarrow> bool" where
  "second_ok b0 b1 \<longleftrightarrow>
     continuation b1 \<and> (b0 = 0xE0 \<longrightarrow> 0xA0 \<le> b1) \<and> (b0 = 0xED \<longrightarrow> b1 \<le> 0x9F) \<and> (b0 = 0xF0 \<longrightarrow> 0x90 \<le> b1) \<and> (b0 = 0xF4 \<longrightarrow> b1 \<le> 0x8F)"

fun accepts :: "nat list \<Rightarrow> nat \<Rightarrow> bool" where
  "accepts [] b \<longleftrightarrow> False"
| "accepts [b0] b \<longleftrightarrow> second_ok b0 b"
| "accepts (b0 # b1 # bs) b \<longleftrightarrow> continuation b"

fun utf8_code :: "nat list \<Rightarrow> uchar" where
  "utf8_code [b0, b1] = (b0 - 0xC0) * 64 + (b1 - 0x80)"
| "utf8_code [b0, b1, b2] = (b0 - 0xE0) * 4096 + (b1 - 0x80) * 64 + (b2 - 0x80)"
| "utf8_code [b0, b1, b2, b3] = (b0 - 0xF0) * 262144 + (b1 - 0x80) * 4096 + (b2 - 0x80) * 64 + (b3 - 0x80)"
| "utf8_code _ = REPLACEMENT"

definition lossy_flush :: "nat list \<Rightarrow> rstr" where
  "lossy_flush q = (if q = [] then [] else [REPLACEMENT])"

text \<open>A byte at the start of a sequence.\<close>

definition lossy_start :: "nat \<Rightarrow> rstr \<times> nat list" where
  "lossy_start b = (if utf8_width b = 1 then ([b], []) else if utf8_width b = 0 then ([REPLACEMENT], []) else ([], [b]))"

definition lossy_step :: "nat list \<Rightarrow> nat \<Rightarrow> rstr \<times> nat list" where
  "lossy_step q b =
     (if accepts q b then (if Suc (length q) = utf8_width (hd q) then ([utf8_code (q @ [b])], []) else ([], q @ [b]))
      else (lossy_flush q @ fst (lossy_start b), snd (lossy_start b)))"

fun lossy_loop :: "nat list \<Rightarrow> nat list \<Rightarrow> rstr" where
  "lossy_loop q [] = lossy_flush q"
| "lossy_loop q (b # bs) = fst (lossy_step q b) @ lossy_loop (snd (lossy_step q b)) bs"

definition from_utf8_lossy :: "u8 list \<Rightarrow> rstr" where
  "from_utf8_lossy bs = lossy_loop [] (map unat bs)"

section \<open>Streams\<close>

record stream_data =
  sd_bytes :: "u8 list"
  sd_text :: rstr

definition stream_new :: stream_data where
  "stream_new = \<lparr>sd_bytes = [], sd_text = []\<rparr>"

definition stream_of_bytes :: "u8 list \<Rightarrow> stream_data" where
  "stream_of_bytes bs = \<lparr>sd_bytes = bs, sd_text = from_utf8_lossy bs\<rparr>"

definition stream_of_string :: "rstr \<Rightarrow> stream_data" where
  "stream_of_string s = \<lparr>sd_bytes = as_bytes s, sd_text = s\<rparr>"

definition stream_text :: "stream_data \<Rightarrow> rstr option" where
  "stream_text s = from_utf8 (sd_bytes s)"

definition stream_len :: "stream_data \<Rightarrow> nat" where
  "stream_len s = length (sd_bytes s)"

definition refresh_text :: "stream_data \<Rightarrow> stream_data" where
  "refresh_text s = s\<lparr>sd_text := from_utf8_lossy (sd_bytes s)\<rparr>"

definition slice :: "nat \<Rightarrow> nat \<Rightarrow> 'a list \<Rightarrow> 'a list" where
  "slice i j xs = take (j - i) (drop i xs)"

definition lossy_decode_changes_at_boundary :: "u8 list \<Rightarrow> nat \<Rightarrow> bool" where
  "lossy_decode_changes_at_boundary bs boundary =
     (let start = boundary - 3; stop = min (length bs) (boundary + 3);
          split = from_utf8_lossy (slice start boundary bs) @ from_utf8_lossy (slice boundary stop bs)
      in split \<noteq> from_utf8_lossy (slice start stop bs))"

definition stream_append :: "stream_data \<Rightarrow> stream_data \<Rightarrow> stream_data" where
  "stream_append s other =
     (let boundary = length (sd_bytes s); s = s\<lparr>sd_bytes := sd_bytes s @ sd_bytes other\<rparr>
      in if lossy_decode_changes_at_boundary (sd_bytes s) boundary then refresh_text s
         else s\<lparr>sd_text := sd_text s @ sd_text other\<rparr>)"

definition stream_append_text :: "stream_data \<Rightarrow> rstr \<Rightarrow> stream_data" where
  "stream_append_text s text = stream_append s (stream_of_string text)"

definition stream_push_byte :: "stream_data \<Rightarrow> u8 \<Rightarrow> stream_data" where
  "stream_push_byte s b = stream_append s (stream_of_bytes [b])"

definition stream_prefix :: "nat \<Rightarrow> stream_data \<Rightarrow> stream_data" where
  "stream_prefix limit s = stream_of_bytes (take (min (length (sd_bytes s)) limit) (sd_bytes s))"

definition command_substitution_text :: "stream_data \<Rightarrow> rstr" where
  "command_substitution_text s = from_utf8_lossy (filter (\<lambda>b. b \<noteq> 0) (sd_bytes s))"

section \<open>The state of the decoder\<close>

primrec lossy_state :: "nat list \<Rightarrow> nat list \<Rightarrow> nat list" where
  "lossy_state q [] = q"
| "lossy_state q (b # bs) = lossy_state (snd (lossy_step q b)) bs"

primrec lossy_out :: "nat list \<Rightarrow> nat list \<Rightarrow> rstr" where
  "lossy_out q [] = []"
| "lossy_out q (b # bs) = fst (lossy_step q b) @ lossy_out (snd (lossy_step q b)) bs"

lemma lossy_loop_append: "lossy_loop q (xs @ ys) = lossy_out q xs @ lossy_loop (lossy_state q xs) ys"
  by (induction xs arbitrary: q) auto

lemma lossy_loop_out: "lossy_loop q xs = lossy_out q xs @ lossy_flush (lossy_state q xs)"
  using lossy_loop_append [of q xs "[]"] by simp

lemma lossy_state_append: "lossy_state q (xs @ ys) = lossy_state (lossy_state q xs) ys"
  by (induction xs arbitrary: q) auto

text \<open>An incomplete sequence: a lead byte and fewer bytes than it announces.\<close>

definition pending :: "nat list \<Rightarrow> bool" where
  "pending q \<longleftrightarrow> q = [] \<or> 2 \<le> utf8_width (hd q) \<and> length q < utf8_width (hd q)"

lemma utf8_width_le: "utf8_width b \<le> 4" "continuation b \<Longrightarrow> utf8_width b = 0"
  by (auto simp: utf8_width_def continuation_def)

lemma accepts_continuation: "accepts q b \<Longrightarrow> continuation b"
  by (cases "(q, b)" rule: accepts.cases) (auto simp: second_ok_def)

lemma lossy_start_pending: "pending (snd (lossy_start b))"
  by (auto simp: lossy_start_def pending_def)

lemma lossy_step_pending: "pending q \<Longrightarrow> pending (snd (lossy_step q b))"
  using lossy_start_pending [of b] by (cases q) (auto simp: lossy_step_def pending_def)

lemma lossy_state_pending: "pending q \<Longrightarrow> pending (lossy_state q xs)"
  by (induction xs arbitrary: q) (auto simp: lossy_step_pending)

text \<open>A byte that continues nothing forgets what came before; three bytes that do use up every sequence.\<close>

lemma lossy_step_forgets: "\<not> continuation b \<Longrightarrow> snd (lossy_step q b) = snd (lossy_start b)"
  using accepts_continuation by (auto simp: lossy_step_def)

lemma lossy_step_continues:
  assumes "pending q" "continuation b"
  shows "snd (lossy_step q b) = [] \<or> q \<noteq> [] \<and> snd (lossy_step q b) = q @ [b]"
  using assms by (auto simp: lossy_step_def lossy_start_def utf8_width_le)

lemma lossy_state_synchronises:
  assumes "pending q" "3 \<le> length xs"
  shows "lossy_state q xs = lossy_state [] xs"
proof -
  obtain a b c ys where xs: "xs = a # b # c # ys" using assms(2) by (auto simp: Suc_le_length_iff numeral_3_eq_3)
  let ?s = "\<lambda>q x. snd (lossy_step q x)"
  have "?s (?s (?s q a) b) c = ?s (?s (?s [] a) b) c"
  proof (cases "continuation a \<and> continuation b \<and> continuation c")
    case True
    have nil: "?s [] x = []" if "continuation x" for x using lossy_step_continues [of "[]" x] that by (simp add: pending_def)
    have short: "length q \<le> 3" using assms(1) utf8_width_le(1) [of "hd q"] by (auto simp: pending_def)
    have p: "pending (?s q a)" "pending (?s (?s q a) b)" "pending (?s (?s (?s q a) b) c)"
      using assms(1) by (simp_all add: lossy_step_pending)
    have "?s (?s (?s q a) b) c = []"
    proof (rule ccontr)
      assume ne: "?s (?s (?s q a) b) c \<noteq> []"
      then have c: "?s (?s (?s q a) b) c = ?s (?s q a) b @ [c]" "?s (?s q a) b \<noteq> []"
        using lossy_step_continues [OF p(2), of c] True by auto
      then have b: "?s (?s q a) b = ?s q a @ [b]" "?s q a \<noteq> []" using lossy_step_continues [OF p(1), of b] True by auto
      then have a: "?s q a = q @ [a]" "q \<noteq> []" using lossy_step_continues [OF assms(1), of a] True by auto
      have "length (?s (?s (?s q a) b) c) < 4"
        using p(3) ne utf8_width_le(1) [of "hd (?s (?s (?s q a) b) c)"] by (auto simp: pending_def)
      then show False using a b c by (cases q) auto
    qed
    then show ?thesis using True nil by simp
  next
    case False
    then show ?thesis using lossy_step_forgets by metis
  qed
  then show ?thesis by (simp add: xs)
qed

text \<open>So the state after some bytes shows in the last three.\<close>

lemma lossy_state_window:
  assumes "length xs = n"
  shows "lossy_state [] (drop (n - 3) xs) = lossy_state [] xs"
proof (cases "3 \<le> n")
  case True
  have "lossy_state [] xs = lossy_state (lossy_state [] (take (n - 3) xs)) (drop (n - 3) xs)"
    by (simp flip: lossy_state_append)
  also have "\<dots> = lossy_state [] (drop (n - 3) xs)"
    using True assms lossy_state_pending [of "[]"] by (intro lossy_state_synchronises) (auto simp: pending_def)
  finally show ?thesis by simp
qed (use assms in simp)

section \<open>The seam\<close>

lemma lossy_loop_rejects: "\<not> accepts q b \<Longrightarrow> lossy_loop q (b # bs) = lossy_flush q @ lossy_loop [] (b # bs)"
  by (simp add: lossy_step_def lossy_flush_def)

lemma lossy_loop_continuation: "continuation b \<Longrightarrow> lossy_loop [] (b # bs) = REPLACEMENT # lossy_loop [] bs"
  by (simp add: lossy_step_def lossy_start_def utf8_width_le lossy_flush_def)

text \<open>A sequence that goes on over the seam is shorter than its two halves.\<close>

lemma lossy_loop_shrinks:
  assumes "pending q" "accepts q b"
  shows "length (lossy_loop q (b # bs)) < length (lossy_flush q @ lossy_loop [] (b # bs))"
  using assms
proof (induction bs arbitrary: q b)
  case Nil
  have "q \<noteq> []" using Nil(2) by auto
  then show ?case using Nil accepts_continuation [OF Nil(2)] lossy_loop_continuation [of b "[]"]
    by (auto simp: lossy_step_def lossy_flush_def)
next
  case (Cons c bs)
  have q: "q \<noteq> []" and b: "continuation b" using Cons.prems accepts_continuation by auto
  show ?case
  proof (cases "Suc (length q) = utf8_width (hd q)")
    case True
    then have "lossy_loop q (b # c # bs) = utf8_code (q @ [b]) # lossy_loop [] (c # bs)"
      unfolding lossy_loop.simps(2) [of q] lossy_step_def if_P [OF Cons.prems(2)] if_P [OF True] by simp
    then show ?thesis using q lossy_loop_continuation [OF b, of "c # bs"] by (simp add: lossy_flush_def del: lossy_loop.simps(2))
  next
    case False
    then have step: "lossy_loop q (b # c # bs) = lossy_loop (q @ [b]) (c # bs)"
      unfolding lossy_loop.simps(2) [of q] lossy_step_def if_P [OF Cons.prems(2)] if_not_P [OF False] by simp
    have p: "pending (q @ [b])" using lossy_step_pending [OF Cons.prems(1), of b] Cons.prems False by (simp add: lossy_step_def)
    have "length (lossy_loop (q @ [b]) (c # bs)) \<le> Suc (length (lossy_loop [] (c # bs)))"
    proof (cases "accepts (q @ [b]) c")
      case True
      from Cons.IH [OF p this] show ?thesis by (simp add: lossy_flush_def)
    next
      case False
      from lossy_loop_rejects [OF this, of bs] show ?thesis by (simp add: lossy_flush_def del: lossy_loop.simps(2))
    qed
    then show ?thesis using q lossy_loop_continuation [OF b, of "c # bs"] unfolding step by (simp add: lossy_flush_def del: lossy_loop.simps(2))
  qed
qed

lemma seam_exact:
  assumes "pending q"
  shows "lossy_loop q ys = lossy_flush q @ lossy_loop [] ys \<longleftrightarrow> ys = [] \<or> \<not> accepts q (hd ys)"
proof (cases ys)
  case (Cons b bs)
  show ?thesis
  proof (cases "accepts q b")
    case True
    from lossy_loop_shrinks [OF assms this, of bs] show ?thesis using Cons True by (metis less_irrefl list.sel(1) list.distinct(1))
  next
    case False
    from lossy_loop_rejects [OF this, of bs] show ?thesis using Cons False by (simp del: lossy_loop.simps(2))
  qed
qed (simp add: lossy_flush_def)


section \<open>Streams decode as one\<close>

lemma lossy_append: "from_utf8_lossy (xs @ ys) = lossy_out [] (map unat xs) @ lossy_loop (lossy_state [] (map unat xs)) (map unat ys)"
  by (simp add: from_utf8_lossy_def lossy_loop_append)

lemma lossy_append_split:
  "from_utf8_lossy xs @ from_utf8_lossy ys = lossy_out [] (map unat xs) @ lossy_flush (lossy_state [] (map unat xs)) @ lossy_loop [] (map unat ys)"
  by (simp add: from_utf8_lossy_def lossy_loop_out [of "[]" "map unat xs"])

text \<open>The test of the seam: the next byte continues the sequence left open.\<close>

lemma boundary_test:
  "lossy_decode_changes_at_boundary (xs @ ys) (length xs) \<longleftrightarrow> ys \<noteq> [] \<and> accepts (lossy_state [] (map unat xs)) (unat (hd ys))"
proof -
  let ?n = "length xs" and ?w = "drop (length xs - 3) xs" and ?v = "take 3 ys"
  have w: "slice (?n - 3) ?n (xs @ ys) = ?w" "slice ?n (min (length (xs @ ys)) (?n + 3)) (xs @ ys) = ?v"
    "slice (?n - 3) (min (length (xs @ ys)) (?n + 3)) (xs @ ys) = ?w @ ?v"
    by (auto simp: slice_def min_def)
  have st: "lossy_state [] (map unat ?w) = lossy_state [] (map unat xs)"
    using lossy_state_window [of "map unat xs" ?n] by (simp add: drop_map)
  have "pending (lossy_state [] (map unat xs))" by (intro lossy_state_pending) (simp add: pending_def)
  from seam_exact [OF this, of "map unat ?v"] show ?thesis
    unfolding lossy_decode_changes_at_boundary_def Let_def w lossy_append lossy_append_split st
    by (cases ys) auto
qed

lemma append_of_bytes: "stream_append (stream_of_bytes xs) (stream_of_bytes ys) = stream_of_bytes (xs @ ys)"
proof -
  have "pending (lossy_state [] (map unat xs))" by (intro lossy_state_pending) (simp add: pending_def)
  from seam_exact [OF this, of "map unat ys"]
  have "from_utf8_lossy xs @ from_utf8_lossy ys = from_utf8_lossy (xs @ ys)" if "\<not> lossy_decode_changes_at_boundary (xs @ ys) (length xs)"
    using that unfolding boundary_test lossy_append lossy_append_split by (cases ys) auto
  then show ?thesis by (simp add: stream_append_def stream_of_bytes_def refresh_text_def Let_def)
qed


text \<open>On valid bytes nothing is replaced.\<close>

lemma lossy_loop_char:
  assumes "scalar c"
  shows "lossy_loop [] (utf8_char c @ bs) = c # lossy_loop [] bs"
  using assms
proof (cases c rule: scalar_digits)
  case 1
  then show ?thesis by (simp add: utf8_char_def lossy_step_def lossy_start_def lossy_flush_def utf8_width_def)
next
  case (2 a x)
  then show ?thesis using utf8_char_2 [of a x]
    by (simp add: lossy_step_def lossy_start_def lossy_flush_def utf8_width_def second_ok_def continuation_def)
next
  case (3 a x y)
  then show ?thesis using utf8_char_3 [of a x y]
    by (simp add: lossy_step_def lossy_start_def lossy_flush_def utf8_width_def second_ok_def continuation_def)
next
  case (4 a x y z)
  then show ?thesis using utf8_char_4 [of a x y z]
    by (simp add: lossy_step_def lossy_start_def lossy_flush_def utf8_width_def second_ok_def continuation_def)
qed

lemma lossy_valid: "from_utf8 bs = Some s \<Longrightarrow> from_utf8_lossy bs = s"
proof -
  assume s: "from_utf8 bs = Some s"
  have "lossy_loop [] (concat (map utf8_char t)) = t" if "list_all scalar t" for t
    using that by (induction t) (simp_all add: lossy_loop_char, simp add: lossy_flush_def)
  from this [of s] show ?thesis using encode_utf8_nats [of "map unat bs" s] s by (simp add: from_utf8_def from_utf8_lossy_def)
qed

lemma stream_of_string_bytes: "list_all scalar t \<Longrightarrow> stream_of_string t = stream_of_bytes (as_bytes t)"
  by (simp add: stream_of_string_def stream_of_bytes_def lossy_valid from_utf8_as_bytes)

text \<open>
  Property C40: the text of a stream does not depend on how its bytes were cut. However a byte string is split into chunks,
  appending the chunks one after another gives the stream of the whole string, text included: a character cut by
  a chunk border is put together again. Pieces given as strings count as their bytes, a cut stream is the stream of the cut
  bytes, and where the bytes are valid UTF-8 the lossy text is the exact one.
\<close>

theorem stream_chunks_do_not_matter:
  "foldl stream_append stream_new (map stream_of_bytes chunks) = stream_of_bytes (concat chunks) \<and>
   (list_all (list_all scalar) texts \<longrightarrow>
      foldl stream_append_text stream_new texts = stream_of_bytes (as_bytes (concat texts))) \<and>
   stream_prefix n (stream_of_bytes bs) = stream_of_bytes (take n bs) \<and>
   (stream_text (stream_of_bytes bs) = Some t \<longrightarrow> sd_text (stream_of_bytes bs) = t)"
proof -
  have new: "stream_new = stream_of_bytes []" by (simp add: stream_new_def stream_of_bytes_def from_utf8_lossy_def lossy_flush_def)
  have chunks: "foldl stream_append (stream_of_bytes xs) (map stream_of_bytes chunks) = stream_of_bytes (xs @ concat chunks)" for xs
    by (induction chunks arbitrary: xs) (simp_all add: append_of_bytes)
  have texts: "foldl stream_append_text (stream_of_bytes xs) texts = stream_of_bytes (xs @ as_bytes (concat texts))"
    if "list_all (list_all scalar) texts" for xs
    using that
  proof (induction texts arbitrary: xs)
    case (Cons t texts)
    then show ?case by (simp add: stream_append_text_def stream_of_string_bytes append_of_bytes) (simp add: as_bytes_def)
  qed (simp add: as_bytes_def)
  have "stream_prefix n (stream_of_bytes bs) = stream_of_bytes (take n bs)"
    by (simp add: stream_prefix_def) (simp add: stream_of_bytes_def take_all_iff min_def)
  then show ?thesis using chunks [of "[]"] texts [of "[]"] lossy_valid [of bs] by (auto simp: new stream_text_def stream_of_bytes_def)
qed

theorem stream_chunks_do_not_matter_witness:
  "sd_text (foldl stream_append stream_new (map stream_of_bytes [[0xF0, 0x9F], [0x98], [0x80, 65]])) = [0x1F600, 65] \<and>
   foldl stream_append_text stream_new [[0xE9], [65]] = stream_of_bytes [0xC3, 0xA9, 65]"
proof -
  have t: "stream_text (stream_of_bytes [0xF0, 0x9F, 0x98, 0x80, 65]) = Some [0x1F600, 65]"
    by (simp add: stream_text_def stream_of_bytes_def from_utf8_def continuation_def)
  have s: "list_all (list_all scalar) [[0xE9], [65]]" by (simp add: scalar_def)
  note p = stream_chunks_do_not_matter [of "[[0xF0, 0x9F], [0x98], [0x80, 65]]" "[[0xE9], [65]]" 0 "[0xF0, 0x9F, 0x98, 0x80, 65]" "[0x1F600, 65]"]
  then show ?thesis using t s by (simp add: as_bytes_def utf8_char_def)
qed

end
