(* ===== verification/Capability.thy ===== *)
theory Capability
  imports Prelude
begin

text \<open>
  Request-scoped host capabilities, \<open>execution_capability.rs\<close>: an execution owns one lease, values are registered with
  it and reached through handles, and revoking it empties them. Handles are used from any thread, so the operations are
  sequences of atomic accesses that interleave freely: the state is one word, the list of registered cells is behind a
  mutex, each cell is behind its own lock. The filesystem view of a request rests on the same lease.
\<close>

section \<open>Shared state\<close>

datatype lease = ACTIVE | REVOKING | REVOKED

record cleanup_report =
  rp_revoked :: bool
  rp_failures :: u8

text \<open>A cell holds a value until it is revoked; a panic of an earlier writer leaves it poisoned.\<close>

record 'v cell =
  ce_value :: "'v option"
  ce_poisoned :: bool

text \<open>
  \<open>sc_cells\<close> are all cells of the program by number, \<open>sc_values\<close> those registered. \<open>sc_lock\<close> is the thread that holds
  the mutex of the list, \<open>sc_poisoned\<close> whether that mutex is poisoned.
\<close>

record 'v scope =
  sc_state :: lease
  sc_values :: "nat list"
  sc_cells :: "'v cell list"
  sc_report :: "cleanup_report option"
  sc_lock :: "nat option"
  sc_poisoned :: bool

definition scope_new :: "'v cell list \<Rightarrow> bool \<Rightarrow> 'v scope" where
  "scope_new cells poisoned =
     \<lparr>sc_state = ACTIVE, sc_values = [], sc_cells = cells, sc_report = None, sc_lock = None, sc_poisoned = poisoned\<rparr>"

definition ensure_active :: "'v scope \<Rightarrow> bool" where
  "ensure_active s \<longleftrightarrow> sc_state s = ACTIVE"

definition cell_value :: "'v scope \<Rightarrow> nat \<Rightarrow> 'v option" where
  "cell_value s c = (if c < length (sc_cells s) then ce_value (sc_cells s ! c) else None)"

text \<open>\<open>CapabilityCell::revoke\<close>: the value is taken; the result tells whether the lock was poisoned.\<close>

definition cell_revoke :: "nat \<Rightarrow> 'v scope \<Rightarrow> bool \<times> 'v scope" where
  "cell_revoke c s =
     (if c < length (sc_cells s)
      then (ce_poisoned (sc_cells s ! c), s\<lparr>sc_cells := (sc_cells s)[c := (sc_cells s ! c)\<lparr>ce_value := None\<rparr>]\<rparr>)
      else (False, s))"

section \<open>Operations as sequences of accesses\<close>

text \<open>
  Where an operation stands. \<open>register\<close>: check, lock, check again, push. \<open>try_with\<close>: check, read the cell, use the
  value, check again. The cleanup of a request: \<open>begin_revoke\<close>, then \<open>finish_revoke\<close>, which looks for a report, locks,
  drains the list cell by cell, sets the report and stores the final state before it unlocks. Dropping a value is taken
  to return: a destructor that panics while the list is drained would empty the list without revoking the rest.
\<close>

datatype 'v cap_pc =
    RegCheck nat | RegLock nat | RegRecheck nat | RegPush nat | Registered nat bool
  | UseCheck nat | UseRead nat | Using nat 'v | UseRecheck nat 'v | Used nat "unit + 'v"
  | BeginRevoke u8 | FinishLook u8 | FinishLock u8 | Draining u8 nat | SetReport u8 nat | StoreState cleanup_report
  | FinishUnlock cleanup_report | Finished cleanup_report

definition failures_of :: "u8 \<Rightarrow> bool \<Rightarrow> nat \<Rightarrow> u8" where
  "failures_of failures poisoned value_failures =
     sat_add (sat_add failures (if poisoned then 1 else 0)) (if value_failures < 256 then of_nat value_failures else - 1)"

fun cap_step :: "nat \<Rightarrow> 'v cap_pc \<Rightarrow> 'v scope \<Rightarrow> ('v cap_pc \<times> 'v scope) option" where
  "cap_step i (RegCheck c) s = Some (if ensure_active s then (RegLock c, s) else (Registered c False, s))"
| "cap_step i (RegLock c) s = (if sc_lock s = None then Some (RegRecheck c, s\<lparr>sc_lock := Some i\<rparr>) else None)"
| "cap_step i (RegRecheck c) s = Some (if ensure_active s then (RegPush c, s) else (Registered c False, s\<lparr>sc_lock := None\<rparr>))"
| "cap_step i (RegPush c) s = Some (Registered c True, s\<lparr>sc_values := sc_values s @ [c], sc_lock := None\<rparr>)"
| "cap_step i (Registered c b) s = None"
| "cap_step i (UseCheck c) s = Some (if ensure_active s then (UseRead c, s) else (Used c (Err ()), s))"
| "cap_step i (UseRead c) s = Some (case cell_value s c of Some v \<Rightarrow> (Using c v, s) | None \<Rightarrow> (Used c (Err ()), s))"
| "cap_step i (Using c v) s = Some (UseRecheck c v, s)"
| "cap_step i (UseRecheck c v) s = Some (Used c (if ensure_active s then Ok v else Err ()), s)"
| "cap_step i (Used c r) s = None"
| "cap_step i (BeginRevoke f) s = Some (FinishLook f, if ensure_active s then s\<lparr>sc_state := REVOKING\<rparr> else s)"
| "cap_step i (FinishLook f) s = Some (case sc_report s of None \<Rightarrow> (FinishLock f, s) | Some r \<Rightarrow> (Finished r, s))"
| "cap_step i (FinishLock f) s = (if sc_lock s = None then Some (Draining f 0, s\<lparr>sc_lock := Some i\<rparr>) else None)"
| "cap_step i (Draining f n) s =
     Some (case sc_values s of
             [] \<Rightarrow> (SetReport f n, s)
           | c # cs \<Rightarrow> (case cell_revoke c s of (bad, s') \<Rightarrow> (Draining f (if bad then Suc n else n), s'\<lparr>sc_values := cs\<rparr>)))"
| "cap_step i (SetReport f n) s =
     (let rep = \<lparr>rp_revoked = True, rp_failures = failures_of f (sc_poisoned s) n\<rparr>
      in Some (StoreState rep, s\<lparr>sc_report := Some (case sc_report s of None \<Rightarrow> rep | Some r \<Rightarrow> r)\<rparr>))"
| "cap_step i (StoreState rep) s = Some (FinishUnlock rep, s\<lparr>sc_state := REVOKED\<rparr>)"
| "cap_step i (FinishUnlock rep) s = Some (Finished rep, s\<lparr>sc_lock := None\<rparr>)"
| "cap_step i (Finished rep) s = None"

text \<open>Threads start operations at any time, on any cell, and each step runs one of them.\<close>

type_synonym 'v cap_system = "'v scope \<times> 'v cap_pc list"

fun starts :: "'v scope \<Rightarrow> 'v cap_pc \<Rightarrow> bool" where
  "starts s (RegCheck c) \<longleftrightarrow> c < length (sc_cells s)"
| "starts s (UseCheck c) \<longleftrightarrow> c < length (sc_cells s)"
| "starts s (BeginRevoke f) \<longleftrightarrow> True"
| "starts s _ \<longleftrightarrow> False"

inductive cap_trans :: "'v cap_system \<Rightarrow> 'v cap_system \<Rightarrow> bool" where
  start: "starts s pc \<Longrightarrow> cap_trans (s, ts) (s, ts @ [pc])"
| new_cell: "cap_trans (s, ts) (s\<lparr>sc_cells := sc_cells s @ [\<lparr>ce_value = Some v, ce_poisoned = False\<rparr>]\<rparr>, ts)"
| run: "i < length ts \<Longrightarrow> cap_step i (ts ! i) s = Some (pc, s') \<Longrightarrow> cap_trans (s, ts) (s', ts[i := pc])"

inductive cap_reach :: "'v cap_system \<Rightarrow> bool" where
  init: "cap_reach (scope_new cells poisoned, [])"
| next_state: "cap_reach x \<Longrightarrow> cap_trans x y \<Longrightarrow> cap_reach y"

inductive_cases cap_trans_cases: "cap_trans (s, ts) (s', ts')"

text \<open>Runs by a schedule.\<close>

datatype 'v action = Start "'v cap_pc" | NewCell 'v | Run nat

fun act :: "'v action \<Rightarrow> 'v cap_system \<Rightarrow> 'v cap_system option" where
  "act (Start pc) (s, ts) = (if starts s pc then Some (s, ts @ [pc]) else None)"
| "act (NewCell v) (s, ts) = Some (s\<lparr>sc_cells := sc_cells s @ [\<lparr>ce_value = Some v, ce_poisoned = False\<rparr>]\<rparr>, ts)"
| "act (Run i) (s, ts) =
     (if i < length ts then map_option (\<lambda>(pc, s'). (s', ts[i := pc])) (cap_step i (ts ! i) s) else None)"

fun acts :: "'v action list \<Rightarrow> 'v cap_system \<Rightarrow> 'v cap_system option" where
  "acts [] x = Some x"
| "acts (a # as) x = (case act a x of Some y \<Rightarrow> acts as y | None \<Rightarrow> None)"

lemma act_trans: "act a x = Some y \<Longrightarrow> cap_trans x y"
  by (cases "(a, x)" rule: act.cases) (auto intro: cap_trans.intros split: if_splits)

lemma acts_reach: "acts as x = Some y \<Longrightarrow> cap_reach x \<Longrightarrow> cap_reach y"
  by (induction as arbitrary: x) (simp, metis acts.simps(2) next_state act_trans option.exhaust option.simps(4,5))

section \<open>The invariant\<close>

text \<open>Which steps run under the mutex, and which follow a revocation or an empty list.\<close>

fun locked :: "'v cap_pc \<Rightarrow> bool" where
  "locked (RegRecheck c) = True"
| "locked (RegPush c) = True"
| "locked (Draining f n) = True"
| "locked (SetReport f n) = True"
| "locked (StoreState r) = True"
| "locked (FinishUnlock r) = True"
| "locked _ = False"

fun revoking :: "'v cap_pc \<Rightarrow> bool" where
  "revoking (FinishLook f) = True"
| "revoking (FinishLock f) = True"
| "revoking (Draining f n) = True"
| "revoking (SetReport f n) = True"
| "revoking (StoreState r) = True"
| "revoking (FinishUnlock r) = True"
| "revoking (Finished r) = True"
| "revoking _ = False"

fun drained :: "'v cap_pc \<Rightarrow> bool" where
  "drained (SetReport f n) = True"
| "drained (StoreState r) = True"
| "drained (FinishUnlock r) = True"
| "drained (Finished r) = True"
| "drained _ = False"

text \<open>Every cell an operation is about exists.\<close>

fun pc_cells :: "'v cap_pc \<Rightarrow> nat set" where
  "pc_cells (RegCheck c) = {c}"
| "pc_cells (RegLock c) = {c}"
| "pc_cells (RegRecheck c) = {c}"
| "pc_cells (RegPush c) = {c}"
| "pc_cells (Registered c b) = {c}"
| "pc_cells _ = {}"

definition in_range :: "'v cap_system \<Rightarrow> bool" where
  "in_range = (\<lambda>(s, ts). (\<forall>i < length ts. \<forall>c \<in> pc_cells (ts ! i). c < length (sc_cells s)) \<and> (\<forall>c \<in> set (sc_values s). c < length (sc_cells s)))"

definition exclusive :: "'v cap_system \<Rightarrow> bool" where
  "exclusive = (\<lambda>(s, ts). \<forall>i. sc_lock s = Some i \<longleftrightarrow> i < length ts \<and> locked (ts ! i))"

definition closed_first :: "'v cap_system \<Rightarrow> bool" where
  "closed_first = (\<lambda>(s, ts). sc_state s = ACTIVE \<longrightarrow> sc_report s = None \<and> (\<forall>i < length ts. \<not> revoking (ts ! i)))"

text \<open>After the list was drained nothing is pushed to it.\<close>

definition is_push :: "'v cap_pc \<Rightarrow> bool" where
  "is_push pc \<longleftrightarrow> (\<exists>c. pc = RegPush c)"

definition drained_stays :: "'v cap_system \<Rightarrow> bool" where
  "drained_stays = (\<lambda>(s, ts). sc_report s \<noteq> None \<or> (\<exists>i < length ts. drained (ts ! i)) \<longrightarrow>
     sc_values s = [] \<and> (\<forall>i < length ts. \<not> is_push (ts ! i)))"

definition registered_or_gone :: "'v cap_system \<Rightarrow> bool" where
  "registered_or_gone = (\<lambda>(s, ts). \<forall>i < length ts. \<forall>c. ts ! i = Registered c True \<longrightarrow>
     c \<in> set (sc_values s) \<or> cell_value s c = None)"

lemmas cap_defs = in_range_def exclusive_def closed_first_def drained_stays_def registered_or_gone_def

lemma cell_revoke_simps [simp]:
  "sc_state (snd (cell_revoke c s)) = sc_state s" "sc_values (snd (cell_revoke c s)) = sc_values s"
  "sc_report (snd (cell_revoke c s)) = sc_report s" "sc_lock (snd (cell_revoke c s)) = sc_lock s"
  "length (sc_cells (snd (cell_revoke c s))) = length (sc_cells s)"
  by (simp_all add: cell_revoke_def)

lemma cell_value_revoke: "cell_value (snd (cell_revoke c s)) d = (if d = c then None else cell_value s d)"
  by (auto simp: cell_revoke_def cell_value_def)

lemma cell_value_cells [simp]: "cell_value (s\<lparr>sc_values := vs\<rparr>) c = cell_value s c"
  "cell_value (s\<lparr>sc_lock := l\<rparr>) c = cell_value s c" "cell_value (s\<lparr>sc_state := st\<rparr>) c = cell_value s c"
  "cell_value (s\<lparr>sc_report := r\<rparr>) c = cell_value s c"
  by (simp_all add: cell_value_def)

lemma start_keeps:
  assumes "starts s pc"
  shows "in_range (s, ts) \<Longrightarrow> in_range (s, ts @ [pc])" "exclusive (s, ts) \<Longrightarrow> exclusive (s, ts @ [pc])"
    "closed_first (s, ts) \<Longrightarrow> closed_first (s, ts @ [pc])" "drained_stays (s, ts) \<Longrightarrow> drained_stays (s, ts @ [pc])"
    "registered_or_gone (s, ts) \<Longrightarrow> registered_or_gone (s, ts @ [pc])"
  using assms by (cases pc; auto simp: cap_defs is_push_def nth_append less_Suc_eq)+


lemma cap_step_range:
  assumes "cap_step i pc s = Some (pc', s')"
  shows "length (sc_cells s') = length (sc_cells s) \<and> pc_cells pc' \<subseteq> pc_cells pc \<and> set (sc_values s') \<subseteq> set (sc_values s) \<union> pc_cells pc"
  using assms by (cases "(i, pc, s)" rule: cap_step.cases)
    (auto simp: Let_def split: if_splits option.splits list.splits prod.splits dest!: arg_cong [where f = snd])

lemma run_in_range:
  assumes "cap_step i (ts ! i) s = Some (pc, s')" "i < length ts" "in_range (s, ts)"
  shows "in_range (s', ts[i := pc])"
  using cap_step_range [OF assms(1)] assms(2,3) by (fastforce simp: in_range_def nth_list_update)

text \<open>The lock changes hands with the step that takes or releases it.\<close>

lemma cap_step_lock:
  assumes "cap_step i pc s = Some (pc', s')"
  shows "locked pc = locked pc' \<and> sc_lock s' = sc_lock s \<or> \<not> locked pc \<and> locked pc' \<and> sc_lock s = None \<and> sc_lock s' = Some i \<or>
    locked pc \<and> \<not> locked pc' \<and> sc_lock s' = None"
  using assms by (cases "(i, pc, s)" rule: cap_step.cases)
    (auto simp: Let_def split: if_splits option.splits list.splits prod.splits dest!: arg_cong [where f = snd])

lemma run_exclusive:
  assumes "cap_step i (ts ! i) s = Some (pc, s')" "i < length ts" "exclusive (s, ts)"
  shows "exclusive (s', ts[i := pc])"
proof -
  have old: "sc_lock s = Some j \<longleftrightarrow> j < length ts \<and> locked (ts ! j)" for j using assms(3) by (simp add: exclusive_def)
  have "sc_lock s' = Some j \<longleftrightarrow> j < length ts \<and> locked (ts[i := pc] ! j)" for j
  proof (cases "j = i")
    case True
    then show ?thesis using cap_step_lock [OF assms(1)] assms(2) old [of i] by auto
  next
    case False
    then have "locked (ts[i := pc] ! j) = locked (ts ! j)" by simp
    moreover have "sc_lock s' = Some j \<longleftrightarrow> sc_lock s = Some j"
      using cap_step_lock [OF assms(1)] assms(2) old [of i] False by auto
    ultimately show ?thesis using old [of j] by simp
  qed
  then show ?thesis by (simp add: exclusive_def)
qed

lemma cap_step_state:
  assumes "cap_step i pc s = Some (pc', s')"
  shows "(sc_state s' = ACTIVE \<longrightarrow> sc_state s = ACTIVE \<and> (revoking pc' \<longrightarrow> revoking pc) \<and> (sc_report s' = None \<or> revoking pc \<or> sc_report s' = sc_report s)) \<and>
    (sc_report s \<noteq> None \<longrightarrow> sc_report s' = sc_report s)"
  using assms by (cases "(i, pc, s)" rule: cap_step.cases)
    (auto simp: Let_def ensure_active_def split: if_splits option.splits list.splits prod.splits dest!: arg_cong [where f = snd])

lemma run_closed_first:
  assumes "cap_step i (ts ! i) s = Some (pc, s')" "i < length ts" "closed_first (s, ts)"
  shows "closed_first (s', ts[i := pc])"
  using cap_step_state [OF assms(1)] assms(2,3) by (auto simp: closed_first_def nth_list_update)


lemma drained_revoking: "drained pc \<Longrightarrow> revoking pc" and push_locked: "is_push pc \<Longrightarrow> locked pc"
  by (cases pc; simp add: is_push_def)+

lemma cap_step_list:
  assumes "cap_step i pc s = Some (pc', s')"
  shows "(sc_values s = [] \<and> \<not> is_push pc \<longrightarrow> sc_values s' = []) \<and> (is_push pc' \<longrightarrow> sc_state s = ACTIVE) \<and>
    (drained pc' \<longrightarrow> drained pc \<or> sc_report s \<noteq> None \<or> sc_values s = [] \<and> locked pc \<and> \<not> is_push pc \<and> \<not> is_push pc') \<and>
    (sc_report s' \<noteq> None \<longrightarrow> sc_report s \<noteq> None \<or> drained pc)"
  using assms by (cases "(i, pc, s)" rule: cap_step.cases)
    (auto simp: Let_def ensure_active_def is_push_def split: if_splits option.splits list.splits prod.splits dest!: arg_cong [where f = snd])

lemma run_drained_stays:
  assumes step: "cap_step i (ts ! i) s = Some (pc, s')" and i: "i < length ts"
    and inv: "drained_stays (s, ts)" "closed_first (s, ts)" "exclusive (s, ts)"
  shows "drained_stays (s', ts[i := pc])"
proof -
  note l = cap_step_list [OF step]
  have "sc_values s' = [] \<and> (\<forall>j < length ts. \<not> is_push (ts[i := pc] ! j))"
    if new: "sc_report s' \<noteq> None \<or> (\<exists>j < length ts. drained (ts[i := pc] ! j))"
  proof (cases "sc_report s \<noteq> None \<or> (\<exists>j < length ts. drained (ts ! j))")
    case True
    then have old: "sc_values s = []" "\<And>j. j < length ts \<Longrightarrow> \<not> is_push (ts ! j)" using inv(1) by (auto simp: drained_stays_def)
    have "sc_state s \<noteq> ACTIVE" using True inv(2) drained_revoking by (auto simp: closed_first_def)
    then show ?thesis using l old i by (auto simp: nth_list_update)
  next
    case False
    then have "sc_values s = [] \<and> locked (ts ! i) \<and> \<not> is_push (ts ! i) \<and> \<not> is_push pc"
      using new l i by (auto simp: nth_list_update split: if_splits)
    moreover have "\<not> is_push (ts ! j)" if "j < length ts" for j
    proof
      assume "is_push (ts ! j)"
      then have "sc_lock s = Some j" using push_locked that inv(3) by (simp add: exclusive_def)
      moreover have "sc_lock s = Some i" using calculation i inv(3) \<open>sc_values s = [] \<and> locked (ts ! i) \<and> \<not> is_push (ts ! i) \<and> \<not> is_push pc\<close>
        by (simp add: exclusive_def)
      ultimately have "i = j" by simp
      then show False using \<open>is_push (ts ! j)\<close> \<open>sc_values s = [] \<and> locked (ts ! i) \<and> \<not> is_push (ts ! i) \<and> \<not> is_push pc\<close> by simp
    qed
    ultimately show ?thesis using l i by (simp add: nth_list_update)
  qed
  then show ?thesis by (simp add: drained_stays_def)
qed

lemma cap_step_cells:
  assumes "cap_step i pc s = Some (pc', s')"
  shows "(cell_value s c = None \<longrightarrow> cell_value s' c = None) \<and> (c \<in> set (sc_values s) \<longrightarrow> c \<in> set (sc_values s') \<or> cell_value s' c = None) \<and>
    (pc' = Registered c True \<longrightarrow> c \<in> set (sc_values s'))"
  using assms by (cases "(i, pc, s)" rule: cap_step.cases)
    (auto simp: Let_def cell_value_revoke split: if_splits option.splits list.splits prod.splits dest!: arg_cong [where f = snd])

lemma run_registered:
  assumes "cap_step i (ts ! i) s = Some (pc, s')" "i < length ts" "registered_or_gone (s, ts)"
  shows "registered_or_gone (s', ts[i := pc])"
proof -
  have "c \<in> set (sc_values s') \<or> cell_value s' c = None" if j: "j < length ts" "ts[i := pc] ! j = Registered c True" for j c
  proof (cases "j = i")
    case True
    then show ?thesis using cap_step_cells [OF assms(1), of c] j by simp
  next
    case False
    then have "ts ! j = Registered c True" using j by simp
    then have "c \<in> set (sc_values s) \<or> cell_value s c = None" using assms(3) j(1) by (auto simp: registered_or_gone_def)
    then show ?thesis using cap_step_cells [OF assms(1), of c] by auto
  qed
  then show ?thesis by (auto simp: registered_or_gone_def)
qed

lemma new_cell_keeps:
  fixes e :: "'v cell"
  assumes "in_range (s, ts)" "exclusive (s, ts)" "closed_first (s, ts)" "drained_stays (s, ts)" "registered_or_gone (s, ts)"
    and s': "s' = s\<lparr>sc_cells := sc_cells s @ [e]\<rparr>"
  shows "in_range (s', ts) \<and> exclusive (s', ts) \<and> closed_first (s', ts) \<and> drained_stays (s', ts) \<and> registered_or_gone (s', ts)"
proof -
  have "cell_value s' c = cell_value s c" if "c < length (sc_cells s)" for c using that by (simp add: s' cell_value_def nth_append)
  then have "registered_or_gone (s', ts)" using assms(1,5) unfolding registered_or_gone_def in_range_def s' by fastforce
  moreover have "in_range (s', ts)" using assms(1) by (fastforce simp: in_range_def s')
  ultimately show ?thesis using assms(2-4) by (simp add: exclusive_def closed_first_def drained_stays_def s')
qed

definition cap_ok :: "'v cap_system \<Rightarrow> bool" where
  "cap_ok x \<longleftrightarrow> in_range x \<and> exclusive x \<and> closed_first x \<and> drained_stays x \<and> registered_or_gone x"

lemma cap_ok_trans: "cap_trans x y \<Longrightarrow> cap_ok x \<Longrightarrow> cap_ok y"
proof (induction rule: cap_trans.induct)
  case (start s pc ts)
  then show ?case using start_keeps [OF start(1), of ts] by (simp add: cap_ok_def)
next
  case (new_cell s ts v)
  then show ?case using new_cell_keeps [OF _ _ _ _ _ refl, of s ts] unfolding cap_ok_def by blast
next
  case (run i ts s pc s')
  then show ?case
    using run_in_range [OF run(2) run(1)] run_exclusive [OF run(2) run(1)] run_closed_first [OF run(2) run(1)]
      run_drained_stays [OF run(2) run(1)] run_registered [OF run(2) run(1)]
    unfolding cap_ok_def by blast
qed

lemma cap_ok_reach: "cap_reach x \<Longrightarrow> cap_ok x"
proof (induction rule: cap_reach.induct)
  case (init cells poisoned)
  show ?case by (simp add: cap_ok_def cap_defs scope_new_def)
qed (rule cap_ok_trans)

lemma cap_step_late:
  assumes "cap_step i pc s = Some (pc', s')" "sc_state s \<noteq> ACTIVE"
  shows "sc_state s' \<noteq> ACTIVE \<and> pc' \<noteq> Used c (Ok v) \<and> (pc' = Registered c True \<longrightarrow> pc = RegPush c)"
  using assms by (cases "(i, pc, s)" rule: cap_step.cases)
    (auto simp: Let_def ensure_active_def split: if_splits option.splits list.splits prod.splits dest!: arg_cong [where f = snd])

lemma cap_trans_late:
  assumes "cap_trans (s, ts) (s', ts')" "sc_state s \<noteq> ACTIVE"
  shows "sc_state s' \<noteq> ACTIVE \<and>
    (\<forall>i < length ts'. \<forall>c v. ts' ! i = Used c (Ok v) \<longrightarrow> i < length ts \<and> ts ! i = Used c (Ok v)) \<and>
    (\<forall>i < length ts'. \<forall>c. ts' ! i = Registered c True \<longrightarrow> i < length ts \<and> (ts ! i = Registered c True \<or> ts ! i = RegPush c))"
  using assms(1)
proof cases
  case (start pc)
  then show ?thesis using assms(2) by (cases pc) (auto simp: nth_append less_Suc_eq)
next
  case (new_cell v)
  then show ?thesis using assms(2) by simp
next
  case (run i pc)
  then show ?thesis using assms(2) cap_step_late [OF run(3)] by (auto simp: nth_list_update split: if_splits)
qed

lemma cap_trans_report: "cap_trans (s, ts) (s', ts') \<Longrightarrow> sc_report s \<noteq> None \<Longrightarrow> sc_report s' = sc_report s"
  by (erule cap_trans_cases) (auto dest: cap_step_state)

section \<open>Reports\<close>

fun report_of :: "'v cap_pc \<Rightarrow> cleanup_report option" where
  "report_of (StoreState r) = Some r"
| "report_of (FinishUnlock r) = Some r"
| "report_of (Finished r) = Some r"
| "report_of _ = None"

definition reports_true :: "'v cap_system \<Rightarrow> bool" where
  "reports_true = (\<lambda>(s, ts). (\<forall>r. sc_report s = Some r \<longrightarrow> rp_revoked r) \<and>
     (\<forall>i < length ts. \<forall>r. report_of (ts ! i) = Some r \<longrightarrow> rp_revoked r \<and> sc_report s \<noteq> None))"

lemma cap_step_report:
  assumes "cap_step i pc s = Some (pc', s')"
  shows "(sc_report s \<noteq> None \<longrightarrow> sc_report s' = sc_report s) \<and>
    (\<forall>r. sc_report s' = Some r \<longrightarrow> sc_report s = Some r \<or> rp_revoked r \<and> (\<exists>f n. pc = SetReport f n) \<and> pc' = StoreState r) \<and>
    (\<forall>r. report_of pc' = Some r \<longrightarrow> report_of pc = Some r \<or> sc_report s = Some r \<or> rp_revoked r \<and> sc_report s' \<noteq> None) \<and>
    (\<forall>r. pc' = Finished r \<longrightarrow> (\<exists>f. pc = FinishLook f \<and> sc_report s = Some r) \<or> pc = FinishUnlock r) \<and>
    (\<forall>f r. pc = FinishLook f \<and> sc_report s = Some r \<longrightarrow> pc' = Finished r)"
  using assms by (cases "(i, pc, s)" rule: cap_step.cases)
    (auto simp: Let_def split: if_splits option.splits list.splits prod.splits dest!: arg_cong [where f = snd])

lemma reports_true_trans: "cap_trans x y \<Longrightarrow> reports_true x \<Longrightarrow> reports_true y"
proof (induction rule: cap_trans.induct)
  case (start s pc ts)
  then show ?case by (cases pc) (auto simp: reports_true_def nth_append less_Suc_eq)
next
  case (new_cell s ts v)
  then show ?case by (simp add: reports_true_def)
next
  case (run i ts s pc s')
  note step = cap_step_report [OF run(2)]
  have old: "\<And>r. sc_report s = Some r \<Longrightarrow> rp_revoked r"
    "\<And>j r. j < length ts \<Longrightarrow> report_of (ts ! j) = Some r \<Longrightarrow> rp_revoked r \<and> sc_report s \<noteq> None"
    using run(3) by (auto simp: reports_true_def)
  have "rp_revoked r" if "sc_report s' = Some r" for r using step that old(1) by blast
  moreover have "rp_revoked r \<and> sc_report s' \<noteq> None" if j: "j < length ts" "report_of (ts[i := pc] ! j) = Some r" for j r
  proof (cases "j = i")
    case True
    then have "report_of pc = Some r" using j by simp
    then have "report_of (ts ! i) = Some r \<or> sc_report s = Some r \<or> rp_revoked r \<and> sc_report s' \<noteq> None" using step by blast
    then show ?thesis using old(1) [of r] old(2) [OF run(1), of r] step by (metis option.distinct(1))
  next
    case False
    then show ?thesis using old(2) [OF j(1), of r] j(2) step by auto
  qed
  ultimately show ?case by (simp add: reports_true_def)
qed

lemma reports_true_reach: "cap_reach x \<Longrightarrow> reports_true x"
proof (induction rule: cap_reach.induct)
  case (init cells poisoned)
  show ?case by (simp add: reports_true_def scope_new_def)
qed (rule reports_true_trans)

lemma cap_trans_finished:
  assumes "cap_trans (s, ts) (s', ts')"
  shows "(\<forall>r. sc_report s = None \<and> sc_report s' = Some r \<longrightarrow> (\<exists>i < length ts. (\<exists>f n. ts ! i = SetReport f n) \<and> ts' ! i = StoreState r)) \<and>
    (\<forall>i < length ts'. \<forall>r. ts' ! i = Finished r \<longrightarrow> i < length ts \<and>
       (ts ! i = Finished r \<or> (\<exists>f. ts ! i = FinishLook f \<and> sc_report s = Some r) \<or> ts ! i = FinishUnlock r)) \<and>
    (\<forall>i < length ts. \<forall>f r. ts ! i = FinishLook f \<and> sc_report s = Some r \<and> ts' ! i \<noteq> ts ! i \<longrightarrow> ts' ! i = Finished r)"
  using assms
proof cases
  case (start pc)
  then show ?thesis by (cases pc) (auto simp: nth_append less_Suc_eq)
next
  case (new_cell v)
  then show ?thesis by auto
next
  case (run i pc)
  note step = cap_step_report [OF run(3)]
  have "\<exists>k < length ts. (\<exists>f n. ts ! k = SetReport f n) \<and> ts' ! k = StoreState r" if "sc_report s = None \<and> sc_report s' = Some r" for r
    using step that run(1,2) by (intro exI [of _ i]) auto
  moreover have "k < length ts \<and> (ts ! k = Finished r \<or> (\<exists>f. ts ! k = FinishLook f \<and> sc_report s = Some r) \<or> ts ! k = FinishUnlock r)"
    if "k < length ts'" "ts' ! k = Finished r" for k r
  proof (cases "k = i")
    case True
    with that \<open>ts' = ts[i := pc]\<close> \<open>i < length ts\<close> have "pc = Finished r" by simp
    moreover have "k < length ts" using that(1) \<open>ts' = ts[i := pc]\<close> \<open>i < length ts\<close> by simp
    ultimately show ?thesis using step True by blast
  qed (use that run in simp)
  moreover have "ts' ! k = Finished r" if "k < length ts" "ts ! k = FinishLook f \<and> sc_report s = Some r \<and> ts' ! k \<noteq> ts ! k" for k f r
  proof (cases "k = i")
    case True
    with that have "pc = Finished r" using step by blast
    then show ?thesis using True that(1) \<open>ts' = ts[i := pc]\<close> \<open>i < length ts\<close> by simp
  qed (use that run in simp)
  ultimately show ?thesis by blast
qed

section \<open>What revocation means\<close>

text \<open>
  Property C39: revocation is complete and final, whatever the interleaving. Once some cleanup has set its report, every
  value whose registration was accepted is gone and the list is empty, and no other registration can succeed. The report
  never changes: a cleanup that looks for it then returns exactly this report, and a cleanup returns either the report
  it found set or the one it made when it drained the list itself; every report that is returned says revoked and was
  preceded by the setting of one. As soon as revocation has begun, no access and no registration started later succeeds:
  the only operation that can still be accepted is a registration that had passed its second check, and no access
  that is checked again after that moment returns a value. The destructors of the values are taken to return.
\<close>

theorem revocation_is_complete:
  assumes "cap_reach (s, ts)" and "cap_trans (s, ts) (s', ts')"
  shows "(sc_report s \<noteq> None \<longrightarrow>
      sc_values s = [] \<and> (\<forall>i < length ts. \<forall>c. ts ! i = Registered c True \<longrightarrow> cell_value s c = None) \<and>
      sc_report s' = sc_report s \<and> sc_state s' \<noteq> ACTIVE \<and>
      (\<forall>i < length ts'. \<forall>c. ts' ! i = Registered c True \<longrightarrow> i < length ts \<and> ts ! i = Registered c True)) \<and>
    (sc_state s \<noteq> ACTIVE \<longrightarrow>
      sc_state s' \<noteq> ACTIVE \<and>
      (\<forall>i < length ts'. \<forall>c v. ts' ! i = Used c (Ok v) \<longrightarrow> i < length ts \<and> ts ! i = Used c (Ok v)) \<and>
      (\<forall>i < length ts'. \<forall>c. ts' ! i = Registered c True \<longrightarrow> i < length ts \<and> (ts ! i = Registered c True \<or> ts ! i = RegPush c))) \<and>
    (\<forall>i < length ts. \<forall>f r. ts ! i = FinishLook f \<and> sc_report s = Some r \<and> ts' ! i \<noteq> ts ! i \<longrightarrow> ts' ! i = Finished r) \<and>
    (\<forall>i < length ts'. \<forall>r. ts' ! i = Finished r \<longrightarrow> rp_revoked r \<and> sc_report s' \<noteq> None \<and>
      (ts ! i = Finished r \<or> (\<exists>f. ts ! i = FinishLook f \<and> sc_report s = Some r) \<or> ts ! i = FinishUnlock r)) \<and>
    (\<forall>r. sc_report s = None \<and> sc_report s' = Some r \<longrightarrow>
      rp_revoked r \<and> (\<exists>i < length ts. (\<exists>f n. ts ! i = SetReport f n) \<and> ts' ! i = StoreState r))"
proof -
  have ok: "cap_ok (s, ts)" by (rule cap_ok_reach [OF assms(1)])
  then have gone: "sc_values s = []" "\<And>i. i < length ts \<Longrightarrow> \<not> is_push (ts ! i)" "sc_state s \<noteq> ACTIVE" if "sc_report s \<noteq> None"
    using that by (auto simp: cap_ok_def drained_stays_def closed_first_def)
  note late = cap_trans_late [OF assms(2)] and rep = cap_trans_report [OF assms(2)] and fin = cap_trans_finished [OF assms(2)]
  have "reports_true (s', ts')" by (rule reports_true_reach [OF next_state [OF assms]])
  then have true: "\<And>r. sc_report s' = Some r \<Longrightarrow> rp_revoked r"
    "\<And>i r. i < length ts' \<Longrightarrow> ts' ! i = Finished r \<Longrightarrow> rp_revoked r \<and> sc_report s' \<noteq> None"
    by (auto simp: reports_true_def)
  have "sc_values s = [] \<and> (\<forall>i < length ts. \<forall>c. ts ! i = Registered c True \<longrightarrow> cell_value s c = None) \<and>
      sc_report s' = sc_report s \<and> sc_state s' \<noteq> ACTIVE \<and>
      (\<forall>i < length ts'. \<forall>c. ts' ! i = Registered c True \<longrightarrow> i < length ts \<and> ts ! i = Registered c True)" if r: "sc_report s \<noteq> None"
  proof (intro conjI allI impI)
    show "sc_values s = []" "sc_report s' = sc_report s" "sc_state s' \<noteq> ACTIVE" using gone [OF r] rep [OF r] late by auto
    show "cell_value s c = None" if "i < length ts" "ts ! i = Registered c True" for i c
      using that ok gone(1) [OF r] by (auto simp: cap_ok_def registered_or_gone_def)
    show "i < length ts" "ts ! i = Registered c True" if "i < length ts'" "ts' ! i = Registered c True" for i c
      using that late [OF gone(3) [OF r]] gone(2) [OF r, of i] by (auto simp: is_push_def)
  qed
  note set = this
  show ?thesis
    by (intro conjI, use set in blast, use late in blast, use fin in blast, use fin true in blast, use fin true in blast)
qed


text \<open>A value is registered and used, the request is cleaned up, and a second access is refused.\<close>

definition demo_schedule :: "nat action list" where
  "demo_schedule = NewCell 7 # Start (RegCheck 0) # replicate 4 (Run 0) @ Start (UseCheck 0) # replicate 4 (Run 1) @
     Start (BeginRevoke 0) # replicate 8 (Run 2)"

theorem revocation_is_complete_witness:
  "\<exists>s ts. acts (demo_schedule @ [Start (UseCheck 0)]) (scope_new [] False, []) = Some (s, ts) \<and>
     ts = [Registered 0 True, Used 0 (Ok 7), Finished \<lparr>rp_revoked = True, rp_failures = 0\<rparr>, UseCheck 0] \<and>
     cell_value s 0 = None \<and> sc_values s = [] \<and> act (Run 3) (s, ts) = Some (s, ts[3 := Used 0 (Err ())])"
proof -
  define rep where "rep = \<lparr>rp_revoked = True, rp_failures = (0 :: u8)\<rparr>"
  define s :: "nat scope" where
    "s = \<lparr>sc_state = REVOKED, sc_values = [], sc_cells = [\<lparr>ce_value = None, ce_poisoned = False\<rparr>], sc_report = Some rep, sc_lock = None, sc_poisoned = False\<rparr>"
  define ts :: "nat cap_pc list" where "ts = [Registered 0 True, Used 0 (Ok 7), Finished rep, UseCheck 0]"
  have run: "acts (demo_schedule @ [Start (UseCheck 0)]) (scope_new [] False, []) = Some (s, ts)"
    by (simp add: demo_schedule_def numeral_eq_Suc scope_new_def ensure_active_def cell_value_def cell_revoke_def failures_of_def sat_add_def
        Let_def s_def ts_def rep_def)
  have step: "act (Run 3) (s, ts) = Some (s, ts[3 := Used 0 (Err ())])"
    by (simp add: s_def ts_def ensure_active_def)
  have "cap_reach (s, ts)" using acts_reach [OF run init] .
  from revocation_is_complete [OF this act_trans [OF step]] have "sc_values s = []" "cell_value s 0 = None"
    by (auto simp: s_def ts_def)
  with run step show ?thesis unfolding ts_def rep_def by blast
qed

end
