(* ===== verification/ScopedFs.thy ===== *)
theory ScopedFs
  imports FsDyn Capability
begin

text \<open>
  The filesystem view of one request, \<open>ExecutionFileSystem\<close> of \<open>execution_capability.rs\<close>: every operation passes the
  lease of the request on its way in and out.
\<close>

definition revoked_error :: fs_error where
  "revoked_error = CapabilityRevoked"

text \<open>\<open>ExecutionScope::run\<close>, seen from outside: \<open>lease_of\<close> reads the request's lease in the state of the program.\<close>

definition scoped_run :: "('w \<Rightarrow> lease) \<Rightarrow> ('a, 'w) fs_io \<Rightarrow> ('a, 'w) fs_io" where
  "scoped_run lease_of m w =
     (if lease_of w \<noteq> ACTIVE then (Err revoked_error, w)
      else case m w of (r, w') \<Rightarrow> (if lease_of w' = ACTIVE then r else Err revoked_error, w'))"

definition default_usage :: fs_usage where
  "default_usage = \<lparr>total_bytes = 0, file_count = 0, dir_count = 0\<rparr>"

definition scoped_dyn :: "nat \<Rightarrow> ('w \<Rightarrow> lease) \<Rightarrow> 'w fs_dyn \<Rightarrow> 'w fs_dyn" where
  "scoped_dyn addr lease_of inner =
     \<lparr>v_id = addr,
      v_read_file = (\<lambda>p. scoped_run lease_of (v_read_file inner p)),
      v_write_file = (\<lambda>t p c. scoped_run lease_of (v_write_file inner t p c)),
      v_append_file = (\<lambda>t p c. scoped_run lease_of (v_append_file inner t p c)),
      v_mkdir = (\<lambda>t p r. scoped_run lease_of (v_mkdir inner t p r)),
      v_remove = (\<lambda>t p r. scoped_run lease_of (v_remove inner t p r)),
      v_stat = (\<lambda>p. scoped_run lease_of (v_stat inner p)),
      v_read_dir = (\<lambda>t p. scoped_run lease_of (v_read_dir inner t p)),
      v_exists = (\<lambda>p. scoped_run lease_of (v_exists inner p)),
      v_rename = (\<lambda>t p q. scoped_run lease_of (v_rename inner t p q)),
      v_copy = (\<lambda>t p q. scoped_run lease_of (v_copy inner t p q)),
      v_symlink = (\<lambda>t target link. scoped_run lease_of (v_symlink inner t target link)),
      v_read_link = (\<lambda>p. scoped_run lease_of (v_read_link inner p)),
      v_chmod = (\<lambda>t p m. scoped_run lease_of (v_chmod inner t p m)),
      v_set_modified_time = (\<lambda>t p time. scoped_run lease_of (v_set_modified_time inner t p time)),
      v_mkfifo = (\<lambda>t p m. scoped_run lease_of (v_mkfifo inner t p m)),
      v_usage = (\<lambda>w. if lease_of w = ACTIVE then v_usage inner w else default_usage),
      v_limits = (\<lambda>w. if lease_of w = ACTIVE then v_limits inner w else default_fs_limits),
      v_vfs_snapshot = (\<lambda>w. if lease_of w = ACTIVE then v_vfs_snapshot inner w else (None, w)),
      v_vfs_restore = (\<lambda>t s w. if lease_of w = ACTIVE then v_vfs_restore inner t s w else (Err revoked_error, w))\<rparr>"

section \<open>The gate\<close>

lemma scoped_open:
  assumes "lease_of w = ACTIVE" and "\<And>w. lease_of (snd (do_call inner c w)) = lease_of w"
  shows "do_call (scoped_dyn addr lease_of inner) c w = do_call inner c w"
  using assms(1) assms(2) [of w]
  by (cases c) (auto simp: scoped_dyn_def scoped_run_def void_def split: prod.splits sum.splits)

lemma scoped_closed:
  "lease_of w \<noteq> ACTIVE \<Longrightarrow> snd (do_call (scoped_dyn addr lease_of inner) c w) = w \<and>
     (c \<noteq> CSnapshot \<longrightarrow> fst (do_call (scoped_dyn addr lease_of inner) c w) = Err revoked_error)"
  by (cases c) (auto simp: scoped_dyn_def scoped_run_def void_def)

lemma scoped_calls_closed: "lease_of w \<noteq> ACTIVE \<Longrightarrow> do_calls (scoped_dyn addr lease_of inner) cs w = w"
  using scoped_closed [of lease_of w] by (induction cs) auto

end
