(* ===== verification/WordSplit.thy ===== *)
theory WordSplit
  imports Limits Brace "HOL-Library.Sublist"
begin

text \<open>
  Field splitting on \<open>IFS\<close>, \<open>ifs_split\<close> and the assembly of mixed words in \<open>interpreter/expansion.rs\<close>. Protected text is
  carried between two marker characters; the loops are shown to compute the fields of a short reference definition.
\<close>

section \<open>Markers\<close>

definition QUOTED_SEGMENT_START :: uchar where "QUOTED_SEGMENT_START = 1"
definition QUOTED_SEGMENT_END :: uchar where "QUOTED_SEGMENT_END = 2"

definition OPERAND_QUOTE_MARK_CANDIDATES :: "uchar list" where
  "OPERAND_QUOTE_MARK_CANDIDATES = [0xE000..<0xE010] @ [0xFDD0..<0xFDE0]"

definition strip_quote_markers :: "rstr \<Rightarrow> rstr" where
  "strip_quote_markers s = filter (\<lambda>c. c \<noteq> QUOTED_SEGMENT_START \<and> c \<noteq> QUOTED_SEGMENT_END) s"

type_synonym mchar = "uchar \<times> bool"

fun quote_marker_loop :: "bool \<Rightarrow> rstr \<Rightarrow> mchar list" where
  "quote_marker_loop quoted [] = []"
| "quote_marker_loop quoted (c # s) =
     (if c = QUOTED_SEGMENT_START then quote_marker_loop True s
      else if c = QUOTED_SEGMENT_END then quote_marker_loop False s
      else (c, quoted) # quote_marker_loop quoted s)"

definition quote_marker_chars :: "rstr \<Rightarrow> mchar list" where
  "quote_marker_chars s = quote_marker_loop False s"

section \<open>Splitting\<close>

datatype split_error = FieldLimitExceeded nat | ByteLimitExceeded nat

text \<open>\<open>saturating_add\<close> on byte counts.\<close>

definition sat_bytes :: "nat \<Rightarrow> nat \<Rightarrow> nat" where
  "sat_bytes bytes n = min (bytes + n) (2 ^ 64 - 1)"

definition push_ifs_field :: "execution_limits \<Rightarrow> rstr list \<Rightarrow> rstr \<Rightarrow> nat \<Rightarrow> nat \<Rightarrow> split_error + rstr list" where
  "push_ifs_field l out field limit bytes =
     (if limit \<le> length out then Err (FieldLimitExceeded limit)
      else if unat (max_word_split_bytes l) < bytes then Err (ByteLimitExceeded (unat (max_word_split_bytes l)))
      else Ok (out @ [field]))"

definition ifs_space :: "uchar \<Rightarrow> bool" where
  "ifs_space c \<longleftrightarrow> c = 32 \<or> c = 9 \<or> c = 10"

definition is_ifs :: "rstr \<Rightarrow> mchar \<Rightarrow> bool" where
  "is_ifs ifs x \<longleftrightarrow> \<not> snd x \<and> fst x \<in> set ifs"

definition is_ifs_ws :: "rstr \<Rightarrow> mchar \<Rightarrow> bool" where
  "is_ifs_ws ifs x \<longleftrightarrow> \<not> snd x \<and> fst x \<in> set ifs \<and> ifs_space (fst x)"

definition is_ifs_nws :: "rstr \<Rightarrow> mchar \<Rightarrow> bool" where
  "is_ifs_nws ifs x \<longleftrightarrow> \<not> snd x \<and> fst x \<in> set ifs \<and> \<not> ifs_space (fst x)"

text \<open>The loop for an \<open>IFS\<close> of white space only.\<close>

fun split_ws_loop :: "execution_limits \<Rightarrow> nat \<Rightarrow> rstr \<Rightarrow> mchar list \<Rightarrow> rstr list \<Rightarrow> rstr \<Rightarrow> nat \<Rightarrow> split_error + rstr list" where
  "split_ws_loop l limit ifs [] out current bytes =
     (if current \<noteq> [] then push_ifs_field l out current limit (sat_bytes bytes (byte_len current)) else Ok out)"
| "split_ws_loop l limit ifs (x # xs) out current bytes =
     (if is_ifs ifs x
      then (if current \<noteq> []
            then (let bytes = sat_bytes bytes (byte_len current)
                  in res_bind (push_ifs_field l out current limit bytes) (\<lambda>out. split_ws_loop l limit ifs xs out [] bytes))
            else split_ws_loop l limit ifs xs out current bytes)
      else split_ws_loop l limit ifs xs out (current @ [fst x]) bytes)"

lemma dropWhile_shorter: "dropWhile P xs = y # ys \<Longrightarrow> length ys < length xs"
  by (metis dropWhile_eq_Cons_conv length_dropWhile_le length_Cons Suc_le_lessD)

text \<open>The loop for any other \<open>IFS\<close>.\<close>

function split_mixed_loop :: "execution_limits \<Rightarrow> nat \<Rightarrow> rstr \<Rightarrow> mchar list \<Rightarrow> rstr list \<Rightarrow> rstr \<Rightarrow> nat \<Rightarrow> split_error + rstr list" where
  "split_mixed_loop l limit ifs [] out current bytes =
     (if current \<noteq> [] then push_ifs_field l out current limit (sat_bytes bytes (byte_len current)) else Ok out)"
| "split_mixed_loop l limit ifs (x # xs) out current bytes =
     (let bytes' = sat_bytes bytes (byte_len current)
      in if is_ifs_nws ifs x
         then res_bind (push_ifs_field l out current limit bytes') (\<lambda>out.
                split_mixed_loop l limit ifs (dropWhile (is_ifs_ws ifs) xs) out [] bytes')
         else if is_ifs_ws ifs x
         then (case dropWhile (is_ifs_ws ifs) xs of
                 [] \<Rightarrow> split_mixed_loop l limit ifs [] out current bytes
               | y # ys \<Rightarrow>
                   if is_ifs_nws ifs y
                   then res_bind (push_ifs_field l out current limit bytes') (\<lambda>out.
                          split_mixed_loop l limit ifs (dropWhile (is_ifs_ws ifs) ys) out [] bytes')
                   else res_bind (push_ifs_field l out current limit bytes') (\<lambda>out.
                          split_mixed_loop l limit ifs (y # ys) out [] bytes'))
         else split_mixed_loop l limit ifs xs out (current @ [fst x]) bytes)"
  by pat_completeness auto

termination
  by (relation "measure (\<lambda>(l, limit, ifs, xs, _). length xs)")
    (auto dest!: dropWhile_shorter simp: le_imp_less_Suc length_dropWhile_le intro: le_less_trans [OF length_dropWhile_le less_SucI])


definition ifs_split_limited :: "execution_limits \<Rightarrow> rstr option \<Rightarrow> rstr \<Rightarrow> nat \<Rightarrow> split_error + rstr list" where
  "ifs_split_limited l ifs_var s limit =
     (let limit = min limit (unat (max_word_split_fields l))
      in if limit = 0 then Ok []
         else let ifs = (case ifs_var of Some v \<Rightarrow> v | None \<Rightarrow> [32, 9, 10])
              in if ifs = [] then (let field = strip_quote_markers s in push_ifs_field l [] field limit (byte_len field))
                 else let chars = quote_marker_chars s
                      in if list_all ifs_space ifs then split_ws_loop l limit ifs chars [] [] 0
                         else let rest = dropWhile (is_ifs_ws ifs) chars
                              in (case rest of
                                    x # xs \<Rightarrow>
                                      if is_ifs_nws ifs x
                                      then res_bind (push_ifs_field l [] [] limit 0) (\<lambda>out.
                                             split_mixed_loop l limit ifs (dropWhile (is_ifs_ws ifs) xs) out [] 0)
                                      else split_mixed_loop l limit ifs rest [] [] 0
                                  | [] \<Rightarrow> split_mixed_loop l limit ifs rest [] [] 0))"

definition ifs_split :: "execution_limits \<Rightarrow> rstr option \<Rightarrow> rstr \<Rightarrow> split_error + rstr list" where
  "ifs_split l ifs_var s = ifs_split_limited l ifs_var s (unat (max_word_split_fields l))"

section \<open>Mixed words\<close>

text \<open>A piece of a word: its value, whether it is protected, whether it keeps an empty field.\<close>

type_synonym segment = "rstr \<times> bool \<times> bool"

definition empty_field_sentinel :: "rstr \<Rightarrow> segment list \<Rightarrow> uchar option" where
  "empty_field_sentinel ifs_or_empty segments =
     (if list_ex (\<lambda>(_, _, preserves). preserves) segments
      then find (\<lambda>c. c \<notin> set (ifs_or_empty @ concat (map fst segments))) OPERAND_QUOTE_MARK_CANDIDATES
      else None)"

definition mark_segment :: "uchar option \<Rightarrow> segment \<Rightarrow> rstr" where
  "mark_segment sentinel = (\<lambda>(v, is_protected, preserves).
     if is_protected
     then QUOTED_SEGMENT_START # (case sentinel of Some c \<Rightarrow> if preserves then [c] else [] | None \<Rightarrow> []) @ v @ [QUOTED_SEGMENT_END]
     else v)"

definition split_segments :: "execution_limits \<Rightarrow> rstr option \<Rightarrow> segment list \<Rightarrow> split_error + rstr list" where
  "split_segments l ifs_var segments =
     (let sentinel = empty_field_sentinel (case ifs_var of Some v \<Rightarrow> v | None \<Rightarrow> []) segments
      in res_bind (ifs_split l ifs_var (concat (map (mark_segment sentinel) segments))) (\<lambda>out.
           Ok (case sentinel of None \<Rightarrow> out | Some c \<Rightarrow> map (filter (\<lambda>ch. ch \<noteq> c)) out)))"

section \<open>The reference\<close>

text \<open>
  A text is cut at each separator that is not white space; the pieces are cut into words at white space, a piece without
  words is an empty field, unless it is the last.
\<close>

primrec cut_at :: "('a \<Rightarrow> bool) \<Rightarrow> 'a list \<Rightarrow> 'a list list" where
  "cut_at P [] = [[]]"
| "cut_at P (x # xs) = (if P x then [] # cut_at P xs else (x # hd (cut_at P xs)) # tl (cut_at P xs))"

definition runs :: "('a \<Rightarrow> bool) \<Rightarrow> 'a list \<Rightarrow> 'a list list" where
  "runs P xs = filter (\<lambda>w. w \<noteq> []) (cut_at P xs)"

text \<open>The separators of the reference, said of a character and its mark: an unmarked character of \<open>IFS\<close>.\<close>

definition separator :: "rstr \<Rightarrow> mchar \<Rightarrow> bool" where
  "separator ifs x = (case x of (c, marked) \<Rightarrow> \<not> marked \<and> c \<in> set ifs)"

definition blank_separator :: "rstr \<Rightarrow> mchar \<Rightarrow> bool" where
  "blank_separator ifs x = (case x of (c, marked) \<Rightarrow> \<not> marked \<and> c \<in> set ifs \<and> c \<in> {32, 9, 10})"

definition hard_separator :: "rstr \<Rightarrow> mchar \<Rightarrow> bool" where
  "hard_separator ifs x = (case x of (c, marked) \<Rightarrow> \<not> marked \<and> c \<in> set ifs \<and> c \<notin> {32, 9, 10})"

definition piece_fields :: "rstr \<Rightarrow> mchar list \<Rightarrow> mchar list list" where
  "piece_fields ifs p = (if runs (blank_separator ifs) p = [] then [[]] else runs (blank_separator ifs) p)"

definition fields_of :: "rstr \<Rightarrow> mchar list \<Rightarrow> mchar list list" where
  "fields_of ifs cs =
     (let ps = cut_at (hard_separator ifs) cs
      in concat (map (piece_fields ifs) (butlast ps)) @ runs (blank_separator ifs) (last ps))"

definition ifs_fields :: "rstr option \<Rightarrow> mchar list \<Rightarrow> rstr list" where
  "ifs_fields ifs_var cs =
     (let ifs = (case ifs_var of Some v \<Rightarrow> v | None \<Rightarrow> [32, 9, 10])
      in map (map fst) (if ifs = [] then [cs] else fields_of ifs cs))"

text \<open>The tests of the loops are these separators.\<close>

lemma separators: "separator = is_ifs" "blank_separator = is_ifs_ws" "hard_separator = is_ifs_nws"
  by (auto simp: fun_eq_iff separator_def blank_separator_def hard_separator_def is_ifs_def is_ifs_ws_def is_ifs_nws_def ifs_space_def)

lemmas piece_fields_seps = piece_fields_def [unfolded separators]
lemmas fields_of_seps = fields_of_def [unfolded separators]

lemma cut_at_ne [simp]: "cut_at P xs \<noteq> []"
  by (induction xs) auto

lemma cut_at_append: "list_all (\<lambda>x. \<not> P x) ys \<Longrightarrow> cut_at P (ys @ xs) = (ys @ hd (cut_at P xs)) # tl (cut_at P xs)"
  by (induction ys) auto

lemma cut_at_sep: "list_all (\<lambda>x. \<not> P x) ys \<Longrightarrow> P x \<Longrightarrow> cut_at P (ys @ x # xs) = ys # cut_at P xs"
  by (simp add: cut_at_append)

lemma runs_simps:
  "runs P [] = []" "P x \<Longrightarrow> runs P (x # xs) = runs P xs"
  "list_all (\<lambda>x. \<not> P x) ys \<Longrightarrow> ys \<noteq> [] \<Longrightarrow> P x \<Longrightarrow> runs P (ys @ x # xs) = ys # runs P xs"
  "list_all (\<lambda>x. \<not> P x) ys \<Longrightarrow> ys \<noteq> [] \<Longrightarrow> runs P ys = [ys]"
  using cut_at_append [of P ys "[]"] by (simp_all add: runs_def cut_at_sep)

lemma runs_ne: "\<not> P x \<Longrightarrow> runs P (x # xs) \<noteq> []"
  by (simp add: runs_def)


section \<open>The loops compute the reference\<close>

lemma seps_split: "is_ifs ifs x \<longleftrightarrow> is_ifs_nws ifs x \<or> is_ifs_ws ifs x" "\<not> (is_ifs_nws ifs x \<and> is_ifs_ws ifs x)"
  by (auto simp: is_ifs_def is_ifs_nws_def is_ifs_ws_def)

lemma ws_not_nws: "is_ifs_ws ifs x \<Longrightarrow> \<not> is_ifs_nws ifs x"
  by (auto simp: is_ifs_nws_def is_ifs_ws_def)

abbreviation word_chars :: "rstr \<Rightarrow> mchar list \<Rightarrow> bool" where
  "word_chars ifs w \<equiv> list_all (\<lambda>x. \<not> is_ifs ifs x) w"

lemma word_chars_seps:
  "word_chars ifs w \<Longrightarrow> list_all (\<lambda>x. \<not> is_ifs_nws ifs x) w \<and> list_all (\<lambda>x. \<not> is_ifs_ws ifs x) w"
  by (auto simp: list_all_iff seps_split)

lemma fields_of_nws:
  assumes "word_chars ifs w" "is_ifs_nws ifs x"
  shows "fields_of ifs (w @ x # xs) = w # fields_of ifs xs"
proof -
  have "runs (is_ifs_ws ifs) w = (if w = [] then [] else [w])"
    using word_chars_seps [OF assms(1)] by (auto simp: runs_simps)
  then have "piece_fields ifs w = [w]" by (simp add: piece_fields_seps)
  then show ?thesis using word_chars_seps [OF assms(1)] assms(2) by (simp add: fields_of_seps Let_def cut_at_sep)
qed

lemma fields_of_ws: "is_ifs_ws ifs x \<Longrightarrow> fields_of ifs (x # xs) = fields_of ifs xs"
proof -
  assume x: "is_ifs_ws ifs x"
  then have "\<not> is_ifs_nws ifs x" by (rule ws_not_nws)
  moreover have "piece_fields ifs (x # p) = piece_fields ifs p" for p using x by (simp add: piece_fields_seps runs_simps)
  ultimately show ?thesis using x
    by (cases "cut_at (is_ifs_nws ifs) xs") (auto simp: fields_of_seps Let_def runs_simps)
qed

lemma fields_of_dropWhile: "fields_of ifs (dropWhile (is_ifs_ws ifs) xs) = fields_of ifs xs"
  by (induction xs) (auto simp: fields_of_ws)

lemma fields_of_word: "word_chars ifs w \<Longrightarrow> w \<noteq> [] \<Longrightarrow> fields_of ifs w = [w]"
  using cut_at_append [of "is_ifs_nws ifs" w "[]"] word_chars_seps [of ifs w]
  by (simp add: fields_of_seps Let_def runs_simps)

text \<open>A word before white space that no other separator follows.\<close>

lemma fields_of_word_ws:
  assumes "word_chars ifs w" "w \<noteq> []" "is_ifs_ws ifs x" "xs = [] \<or> \<not> is_ifs ifs (hd xs)"
  shows "fields_of ifs (w @ x # xs) = w # fields_of ifs xs"
proof -
  have x: "\<not> is_ifs_nws ifs x" using assms(3) by (rule ws_not_nws)
  obtain h t where c: "cut_at (is_ifs_nws ifs) xs = h # t" by (cases "cut_at (is_ifs_nws ifs) xs") simp_all
  have cut: "cut_at (is_ifs_nws ifs) (w @ x # xs) = (w @ x # h) # t"
    using cut_at_append [of "is_ifs_nws ifs" "w @ [x]" xs] word_chars_seps [OF assms(1)] x c by simp
  have r: "runs (is_ifs_ws ifs) (w @ x # h) = w # runs (is_ifs_ws ifs) h"
    using word_chars_seps [OF assms(1)] assms(2,3) by (intro runs_simps) auto
  have "t = [] \<or> runs (is_ifs_ws ifs) h \<noteq> []"
  proof (cases xs)
    case Nil
    then show ?thesis using c by simp
  next
    case (Cons y ys)
    then have "\<not> is_ifs_nws ifs y" "\<not> is_ifs_ws ifs y" using assms(4) seps_split by auto
    then have "\<exists>h'. h = y # h'" using c Cons by auto
    then show ?thesis using \<open>\<not> is_ifs_ws ifs y\<close> runs_ne [of "is_ifs_ws ifs" y] by auto
  qed
  then show ?thesis unfolding fields_of_seps Let_def cut c by (auto simp: r piece_fields_seps)
qed

text \<open>Same with more white space, the way the loop skips it.\<close>

lemma fields_of_word_spaces:
  assumes "word_chars ifs w" "w \<noteq> []" "is_ifs_ws ifs x"
  shows "fields_of ifs (w @ x # xs) = (case dropWhile (is_ifs_ws ifs) xs of
     [] \<Rightarrow> [w]
   | y # ys \<Rightarrow> if is_ifs_nws ifs y then w # fields_of ifs ys else w # fields_of ifs (y # ys))"
proof (induction xs)
  case Nil
  then show ?case using fields_of_word_ws [OF assms, of "[]"] by (simp add: fields_of_seps runs_simps)
next
  case (Cons y ys)
  show ?case
  proof (cases "is_ifs_ws ifs y")
    case True
    have "cut_at (is_ifs_nws ifs) (w @ x # y # ys) = (w @ x # y # hd (cut_at (is_ifs_nws ifs) ys)) # tl (cut_at (is_ifs_nws ifs) ys)"
      "cut_at (is_ifs_nws ifs) (w @ x # ys) = (w @ x # hd (cut_at (is_ifs_nws ifs) ys)) # tl (cut_at (is_ifs_nws ifs) ys)"
      using cut_at_append [of "is_ifs_nws ifs" "w @ [x, y]" ys] cut_at_append [of "is_ifs_nws ifs" "w @ [x]" ys]
        word_chars_seps [OF assms(1)] ws_not_nws [OF assms(3)] ws_not_nws [OF True] by auto
    moreover have "runs (is_ifs_ws ifs) (w @ x # y # p) = runs (is_ifs_ws ifs) (w @ x # p)" for p
      using word_chars_seps [OF assms(1)] assms(2,3) True by (simp add: runs_simps)
    ultimately have "fields_of ifs (w @ x # y # ys) = fields_of ifs (w @ x # ys)" by (simp add: fields_of_seps Let_def piece_fields_seps)
    then show ?thesis using Cons True by simp
  next
    case False
    show ?thesis
    proof (cases "is_ifs_nws ifs y")
      case True
      have cut: "cut_at (is_ifs_nws ifs) (w @ x # y # ys) = (w @ [x]) # cut_at (is_ifs_nws ifs) ys"
        using cut_at_sep [of "is_ifs_nws ifs" "w @ [x]" y ys] word_chars_seps [OF assms(1)] ws_not_nws [OF assms(3)] True by auto
      have "runs (is_ifs_ws ifs) (w @ [x]) = [w]"
        using word_chars_seps [OF assms(1)] assms(2,3) by (subst runs_simps(3)) (auto simp: runs_simps)
      then show ?thesis using True False by (simp add: fields_of_seps Let_def cut piece_fields_seps)
    next
      case nws: False
      with False have "\<not> is_ifs ifs y" by (simp add: seps_split)
      then show ?thesis using False nws fields_of_word_ws [OF assms, of "y # ys"] by simp
    qed
  qed
qed


text \<open>Pushing fields one after another.\<close>

fun push_all :: "execution_limits \<Rightarrow> nat \<Rightarrow> rstr list \<Rightarrow> nat \<Rightarrow> rstr list \<Rightarrow> split_error + rstr list" where
  "push_all l limit out bytes [] = Ok out"
| "push_all l limit out bytes (f # fs) =
     (let bytes = sat_bytes bytes (byte_len f)
      in res_bind (push_ifs_field l out f limit bytes) (\<lambda>out. push_all l limit out bytes fs))"

lemma split_ws_reference:
  assumes "list_all ifs_space ifs" "word_chars ifs w"
  shows "split_ws_loop l limit ifs cs out (map fst w) bytes = push_all l limit out bytes (map (map fst) (fields_of ifs (w @ cs)))"
  using assms(2)
proof (induction cs arbitrary: out w bytes)
  case Nil
  then show ?case using fields_of_word [of ifs w] by (cases "w = []") (auto simp: Let_def res_bind_def fields_of_seps runs_simps split: sum.splits)
next
  case (Cons x cs)
  have nws: "\<not> is_ifs_nws ifs y" for y using assms(1) by (auto simp: is_ifs_nws_def list_all_iff)
  show ?case
  proof (cases "is_ifs ifs x")
    case True
    then have ws: "is_ifs_ws ifs x" using nws seps_split by blast
    have ref: "fields_of ifs (w @ x # cs) = w # fields_of ifs cs" if "w \<noteq> []"
    proof -
      have cut: "cut_at (is_ifs_nws ifs) zs = [zs]" for zs using nws cut_at_append [of "is_ifs_nws ifs" zs "[]"] by (simp add: list_all_iff)
      show ?thesis using that word_chars_seps [OF Cons.prems] ws by (simp add: fields_of_seps Let_def cut runs_simps)
    qed
    show ?thesis
    proof (cases "w = []")
      case True
      then show ?thesis using \<open>is_ifs ifs x\<close> Cons.IH [of "[]"] ws by (simp add: fields_of_ws)
    next
      case False
      then show ?thesis using \<open>is_ifs ifs x\<close> Cons.IH [of "[]"] by (auto simp: ref Let_def res_bind_def split: sum.split)
    qed
  next
    case False
    then show ?thesis using Cons.IH [of "w @ [x]"] Cons.prems by simp
  qed
qed

lemma split_mixed_reference:
  assumes "word_chars ifs w" "w = [] \<longrightarrow> cs = [] \<or> \<not> is_ifs_ws ifs (hd cs)"
  shows "split_mixed_loop l limit ifs cs out (map fst w) bytes = push_all l limit out bytes (map (map fst) (fields_of ifs (w @ cs)))"
  using assms
proof (induction "length cs" arbitrary: cs out w bytes rule: less_induct)
  case less
  have skip: "dropWhile (is_ifs_ws ifs) xs = [] \<or> \<not> is_ifs_ws ifs (hd (dropWhile (is_ifs_ws ifs) xs))" for xs :: "mchar list"
    by (metis hd_dropWhile)
  show ?case
  proof (cases cs)
    case Nil
    then show ?thesis using less.prems fields_of_word [of ifs w]
      by (cases "w = []") (auto simp: Let_def res_bind_def fields_of_seps runs_simps split: sum.splits)
  next
    case (Cons x xs)
    have next_field: "split_mixed_loop l limit ifs (dropWhile (is_ifs_ws ifs) ys) out [] bytes =
        push_all l limit out bytes (map (map fst) (fields_of ifs ys))" if "length ys < length cs" for ys out bytes
    proof -
      have "length (dropWhile (is_ifs_ws ifs) ys) < length cs" using that length_dropWhile_le le_less_trans by blast
      from less.hyps [OF this, of "[]"] skip [of ys] show ?thesis by (simp add: fields_of_dropWhile)
    qed
    consider (nws) "is_ifs_nws ifs x" | (ws) "is_ifs_ws ifs x" "\<not> is_ifs_nws ifs x" | (word) "\<not> is_ifs ifs x"
      using seps_split by blast
    then show ?thesis
    proof cases
      case nws
      then show ?thesis using Cons next_field [of xs] fields_of_nws [OF less.prems(1) nws, of xs]
        by (auto simp: Let_def res_bind_def split: sum.split)
    next
      case ws
      then have w: "w \<noteq> []" using less.prems(2) Cons by auto
      note ref = fields_of_word_spaces [OF less.prems(1) w ws(1), of xs]
      show ?thesis
      proof (cases "dropWhile (is_ifs_ws ifs) xs")
        case Nil
        show ?thesis unfolding Cons ref split_mixed_loop.simps(2) [of l limit ifs x xs out "map fst w" bytes]
          unfolding Nil list.case using ws w by (auto simp: Let_def res_bind_def split: sum.split)
      next
        case (Cons y ys)
        have len: "length (y # ys) \<le> length xs" using Cons length_dropWhile_le [of "is_ifs_ws ifs" xs] by simp
        have y: "\<not> is_ifs_ws ifs y" using skip [of xs] Cons by simp
        have "split_mixed_loop l limit ifs (y # ys) out [] bytes = push_all l limit out bytes (map (map fst) (fields_of ifs (y # ys)))" for out bytes
          using next_field [of "y # ys" out bytes] len y \<open>cs = x # xs\<close> by simp
        then show ?thesis using \<open>cs = x # xs\<close> Cons ws w ref next_field [of ys] len
          by (auto simp: Let_def res_bind_def split: sum.split)
      qed
    next
      case word
      then have "\<not> is_ifs_nws ifs x" "\<not> is_ifs_ws ifs x" by (simp_all add: seps_split)
      then show ?thesis using Cons less.hyps [of xs "w @ [x]"] less.prems(1) word by (simp add: Let_def)
    qed
  qed
qed


lemma push_all_ok:
  assumes "length out \<le> limit"
  shows "push_all l limit out bytes fs = Ok ws \<longleftrightarrow>
    ws = out @ fs \<and> length ws \<le> limit \<and> (fs = [] \<or> sat_bytes bytes (total_len fs) \<le> unat (max_word_split_bytes l))"
  using assms
proof (induction fs arbitrary: out bytes)
  case (Cons f fs)
  have sat: "sat_bytes (sat_bytes bytes (byte_len f)) n = sat_bytes bytes (byte_len f + n)" for n by (simp add: sat_bytes_def)
  have mono: "sat_bytes bytes (byte_len f) \<le> sat_bytes bytes (byte_len f + n)" for n by (simp add: sat_bytes_def)
  show ?case
  proof (cases "limit \<le> length out \<or> unat (max_word_split_bytes l) < sat_bytes bytes (byte_len f)")
    case True
    then show ?thesis using mono [of "total_len fs"] by (auto simp: push_ifs_field_def Let_def total_len_def)
  next
    case False
    then show ?thesis using Cons.IH [of "out @ [f]" "sat_bytes bytes (byte_len f)"]
      by (cases "fs = []") (auto simp: push_ifs_field_def Let_def sat total_len_def)
  qed
qed auto

lemma strip_markers_chars: "strip_quote_markers s = map fst (quote_marker_chars s)"
proof -
  have "filter (\<lambda>c. c \<noteq> QUOTED_SEGMENT_START \<and> c \<noteq> QUOTED_SEGMENT_END) s = map fst (quote_marker_loop q s)" for q
    by (induction s arbitrary: q) simp_all
  from this [of False] show ?thesis by (simp add: quote_marker_chars_def strip_quote_markers_def)
qed

lemma ifs_split_push:
  assumes "byte_len s < 2 ^ 64"
  shows "ifs_split_limited l ifs_var s limit =
     (let limit = min limit (unat (max_word_split_fields l))
      in if limit = 0 then Ok [] else push_all l limit [] 0 (ifs_fields ifs_var (quote_marker_chars s)))"
proof -
  define lim where "lim = min limit (unat (max_word_split_fields l))"
  define ifs where "ifs = (case ifs_var of Some v \<Rightarrow> v | None \<Rightarrow> [32, 9, 10])"
  let ?cs = "quote_marker_chars s" and ?d = "dropWhile (is_ifs_ws ifs) (quote_marker_chars s)"
  have "byte_len (strip_quote_markers s) \<le> byte_len s" by (induction s) (auto simp: strip_quote_markers_def)
  then have len: "byte_len (strip_quote_markers s) = sat_bytes 0 (byte_len (strip_quote_markers s))"
    using assms by (simp add: sat_bytes_def)
  show ?thesis
  proof (cases "lim = 0 \<or> ifs = []")
    case True
    have e: "push_all l lim [] 0 [f] = push_ifs_field l [] f lim (sat_bytes 0 (byte_len f))" for f
      by (simp add: Let_def res_bind_def split: sum.split)
    show ?thesis using True len e [of "strip_quote_markers s"]
      by (auto simp: ifs_split_limited_def ifs_fields_def Let_def strip_markers_chars simp flip: lim_def ifs_def)
  next
    case False
    have nil: "sat_bytes 0 0 = 0" by (simp add: sat_bytes_def)
    have mixed: "(case ?d of [] \<Rightarrow> split_mixed_loop l lim ifs ?d [] [] 0
        | x # xs \<Rightarrow> if is_ifs_nws ifs x
            then res_bind (push_ifs_field l [] [] lim 0) (\<lambda>out. split_mixed_loop l lim ifs (dropWhile (is_ifs_ws ifs) xs) out [] 0)
            else split_mixed_loop l lim ifs ?d [] [] 0) = push_all l lim [] 0 (map (map fst) (fields_of ifs ?cs))"
    proof (cases ?d)
      case Nil
      have "split_mixed_loop l lim ifs [] [] [] 0 = push_all l lim [] 0 (map (map fst) (fields_of ifs ?cs))"
        using split_mixed_reference [of ifs "[]" "[]" l lim "[]" 0] fields_of_dropWhile [of ifs ?cs] Nil by simp
      then show ?thesis unfolding Nil by simp
    next
      case (Cons x xs)
      then have d: "?d \<noteq> []" and hd: "\<not> is_ifs_ws ifs x" using hd_dropWhile [of "is_ifs_ws ifs" ?cs] by auto
      have drop: "dropWhile (is_ifs_ws ifs) xs = [] \<or> \<not> is_ifs_ws ifs (hd (dropWhile (is_ifs_ws ifs) xs))" by (metis hd_dropWhile)
      have ref: "fields_of ifs ?cs = fields_of ifs (x # xs)" using fields_of_dropWhile [of ifs ?cs] Cons by simp
      show ?thesis
      proof (cases "is_ifs_nws ifs x")
        case True
        then show ?thesis unfolding ref Cons
          using fields_of_nws [of ifs "[]" x xs] nil split_mixed_reference [of ifs "[]" "dropWhile (is_ifs_ws ifs) xs" l lim _ 0] drop
          by (auto simp: Let_def fields_of_dropWhile res_bind_def split: sum.split)
      next
        case False
        then show ?thesis unfolding ref Cons using hd split_mixed_reference [of ifs "[]" "x # xs" l lim "[]" 0] by simp
      qed
    qed
    have ws: "split_ws_loop l lim ifs ?cs [] [] 0 = push_all l lim [] 0 (map (map fst) (fields_of ifs ?cs))" if "list_all ifs_space ifs"
      using split_ws_reference [OF that, of "[]" l lim ?cs "[]" 0] by simp
    show ?thesis using False mixed ws
      by (simp add: ifs_split_limited_def ifs_fields_def Let_def flip: lim_def ifs_def)
  qed
qed

text \<open>Nothing but separators is lost.\<close>

lemma concat_cut_at: "concat (cut_at P xs) = filter (\<lambda>x. \<not> P x) xs"
proof (induction xs)
  case (Cons x xs)
  then show ?case by (cases "cut_at P xs") auto
qed simp

lemma concat_runs: "concat (runs P xs) = filter (\<lambda>x. \<not> P x) xs"
proof -
  have "concat (filter (\<lambda>w. w \<noteq> []) zs) = concat zs" for zs :: "'a list list" by (induction zs) auto
  then show ?thesis by (simp add: runs_def concat_cut_at)
qed

lemma concat_fields: "concat (fields_of ifs cs) = filter (\<lambda>x. \<not> is_ifs ifs x) cs"
proof -
  define ps where "ps = cut_at (is_ifs_nws ifs) cs"
  have piece: "concat (piece_fields ifs p) = filter (\<lambda>x. \<not> is_ifs_ws ifs x) p" for p
    using concat_runs [of "is_ifs_ws ifs" p] by (auto simp: piece_fields_seps)
  have pieces: "concat (concat (map (piece_fields ifs) qs)) = filter (\<lambda>x. \<not> is_ifs_ws ifs x) (concat qs)" for qs
    by (induction qs) (simp_all add: piece)
  have "concat (fields_of ifs cs) = filter (\<lambda>x. \<not> is_ifs_ws ifs x) (concat (butlast ps)) @ filter (\<lambda>x. \<not> is_ifs_ws ifs x) (last ps)"
    unfolding fields_of_seps Let_def ps_def [symmetric] concat_append concat_runs pieces ..
  also have "\<dots> = filter (\<lambda>x. \<not> is_ifs_ws ifs x) (concat ps)"
    by (metis append_butlast_last_id concat.simps(1,2) concat_append append_Nil2 cut_at_ne filter_append ps_def)
  also have "\<dots> = filter (\<lambda>x. \<not> is_ifs ifs x) cs" by (simp add: ps_def concat_cut_at seps_split conj_commute)
  finally show ?thesis .
qed


lemma total_len_concat: "total_len ws = byte_len (concat ws)"
  by (induction ws) (auto simp: total_len_def byte_len_def)

lemma byte_len_filter: "byte_len (map fst (filter P cs)) \<le> byte_len (map fst cs)"
  by (induction cs) auto

lemma byte_len_markers: "byte_len (map fst (quote_marker_chars s)) \<le> byte_len s"
proof -
  have "byte_len (filter P s) \<le> byte_len s" for P by (induction s) auto
  then show ?thesis unfolding strip_markers_chars [symmetric] strip_quote_markers_def .
qed

lemma concat_ifs_fields:
  "concat (ifs_fields v cs) = map fst (filter (\<lambda>x. \<not> is_ifs (case v of Some ifs \<Rightarrow> ifs | None \<Rightarrow> [32, 9, 10]) x) cs)"
  by (simp add: ifs_fields_def Let_def concat_fields is_ifs_def flip: map_concat)

section \<open>Protected text\<close>

definition segment_chars :: "uchar option \<Rightarrow> segment \<Rightarrow> mchar list" where
  "segment_chars sentinel = (\<lambda>(v, is_protected, preserves).
     map (\<lambda>c. (c, is_protected)) ((case sentinel of Some c \<Rightarrow> if is_protected \<and> preserves then [c] else [] | None \<Rightarrow> []) @ v))"

definition unmarked :: "rstr \<Rightarrow> bool" where
  "unmarked s \<longleftrightarrow> QUOTED_SEGMENT_START \<notin> set s \<and> QUOTED_SEGMENT_END \<notin> set s"

lemma quote_marker_loop_unmarked: "unmarked v \<Longrightarrow> quote_marker_loop q (v @ s) = map (\<lambda>c. (c, q)) v @ quote_marker_loop q s"
  by (induction v) (auto simp: unmarked_def)

lemma mark_segments_chars:
  assumes "list_all (\<lambda>(v, _, _). unmarked v) segments" "sentinel = None \<or> unmarked [the sentinel]"
  shows "quote_marker_chars (concat (map (mark_segment sentinel) segments)) = concat (map (segment_chars sentinel) segments)"
proof -
  have "quote_marker_loop False (mark_segment sentinel g @ s) = segment_chars sentinel g @ quote_marker_loop False s"
    if "g \<in> set segments" for g s
  proof -
    obtain v p e where g: "g = (v, p, e)" by (cases g)
    have v: "unmarked v" using assms(1) that g by (auto simp: list_all_iff)
    have m: "quote_marker_loop p (QUOTED_SEGMENT_END # s) = quote_marker_loop False s"
      "quote_marker_loop False (QUOTED_SEGMENT_START # s) = quote_marker_loop True s" for p s
      by (simp_all add: QUOTED_SEGMENT_START_def QUOTED_SEGMENT_END_def)
    show ?thesis
    proof (cases "p \<and> e \<and> sentinel \<noteq> None")
      case True
      then obtain c where "sentinel = Some c" "unmarked (c # v)" using assms(2) v by (auto simp: unmarked_def)
      then show ?thesis using True quote_marker_loop_unmarked [of "c # v" True "QUOTED_SEGMENT_END # s"]
        by (simp add: g mark_segment_def segment_chars_def m del: quote_marker_loop.simps)
    next
      case False
      then show ?thesis using quote_marker_loop_unmarked [OF v, of False s] quote_marker_loop_unmarked [OF v, of True "QUOTED_SEGMENT_END # s"]
        by (cases p; cases sentinel) (auto simp: g mark_segment_def segment_chars_def m simp del: quote_marker_loop.simps)
    qed
  qed
  then have "quote_marker_loop False (concat (map (mark_segment sentinel) gs) @ []) = concat (map (segment_chars sentinel) gs) @ quote_marker_loop False []"
    if "set gs \<subseteq> set segments" for gs
    using that by (induction gs) (auto simp del: quote_marker_loop.simps(2))
  from this [of segments] show ?thesis by (simp add: quote_marker_chars_def)
qed

text \<open>
  Property C37: field splitting computes the fields of the reference: with an empty \<open>IFS\<close> the whole text, otherwise the words
  between runs of \<open>IFS\<close> white space, with an empty field wherever a piece between two other separators has no word. The result
  is all of them or an error, never a part, unless the field limit is 0, when it is no field at all: otherwise it is given
  exactly when there are no more fields than the smaller of the two field limits and no more bytes than the byte limit.
  Joined, the fields are the text without its separators; a character that stands between the two markers is never a
  separator, and every other character of \<open>IFS\<close> is one.
\<close>

theorem ifs_split_exact:
  assumes "byte_len s < 2 ^ 64"
  shows "(ifs_split_limited l ifs_var s limit = Ok ws) =
      (if min limit (unat (max_word_split_fields l)) = 0 then ws = []
       else ws = ifs_fields ifs_var (quote_marker_chars s) \<and> length ws \<le> min limit (unat (max_word_split_fields l)) \<and>
         (ws = [] \<or> total_len ws \<le> unat (max_word_split_bytes l))) \<and>
    concat (ifs_fields ifs_var cs) =
      map fst (filter (\<lambda>(c, marked). marked \<or> c \<notin> set (case ifs_var of Some ifs \<Rightarrow> ifs | None \<Rightarrow> [32, 9, 10])) cs) \<and>
    (list_all (\<lambda>(t, _). unmarked t) blocks \<longrightarrow>
      quote_marker_chars (concat (map (\<lambda>(t, marked). if marked then 1 # t @ [2] else t) blocks)) =
      concat (map (\<lambda>(t, marked). map (\<lambda>c. (c, marked)) t) blocks))"
proof (intro conjI impI)
  let ?fs = "ifs_fields ifs_var (quote_marker_chars s)"
  have "total_len ?fs \<le> byte_len (map fst (quote_marker_chars s))"
    unfolding total_len_concat concat_ifs_fields by (rule byte_len_filter)
  then have "sat_bytes 0 (total_len ?fs) = total_len ?fs" using byte_len_markers [of s] assms by (simp add: sat_bytes_def)
  then show "(ifs_split_limited l ifs_var s limit = Ok ws) =
      (if min limit (unat (max_word_split_fields l)) = 0 then ws = []
       else ws = ?fs \<and> length ws \<le> min limit (unat (max_word_split_fields l)) \<and>
         (ws = [] \<or> total_len ws \<le> unat (max_word_split_bytes l)))"
    unfolding ifs_split_push [OF assms] Let_def by (auto simp: push_all_ok)
  show "concat (ifs_fields ifs_var cs) =
      map fst (filter (\<lambda>(c, marked). marked \<or> c \<notin> set (case ifs_var of Some ifs \<Rightarrow> ifs | None \<Rightarrow> [32, 9, 10])) cs)"
    unfolding concat_ifs_fields is_ifs_def by (rule arg_cong [where f = "map fst"], rule filter_cong) auto
  assume "list_all (\<lambda>(t, _). unmarked t) blocks"
  then have "list_all (\<lambda>(v, _, _). unmarked v) (map (\<lambda>(t, m). (t, m, False)) blocks)" by (induction blocks) auto
  from mark_segments_chars [OF this, of None]
  show "quote_marker_chars (concat (map (\<lambda>(t, marked). if marked then 1 # t @ [2] else t) blocks)) =
      concat (map (\<lambda>(t, marked). map (\<lambda>c. (c, marked)) t) blocks)"
    by (simp add: comp_def split_def mark_segment_def segment_chars_def QUOTED_SEGMENT_START_def QUOTED_SEGMENT_END_def cong: if_cong)
qed

theorem ifs_split_exact_witness:
  "ifs_split_limited default_execution_limits (Some (lit '': '')) (lit '' a::b c :'') 10 = Ok [lit ''a'', [], lit ''b'', lit ''c''] \<and>
   quote_marker_chars (1 # lit ''a:'' @ 2 # lit ''b'') = [(97, True), (58, True), (98, False)]"
proof -
  have f: "ifs_fields (Some (lit '': '')) (quote_marker_chars (lit '' a::b c :'')) = [lit ''a'', [], lit ''b'', lit ''c'']"
    by (simp add: lit_def quote_marker_chars_def QUOTED_SEGMENT_START_def QUOTED_SEGMENT_END_def ifs_fields_def fields_of_def
        hard_separator_def blank_separator_def piece_fields_def runs_def)
  have "byte_len (lit '' a::b c :'') < 2 ^ 64" by (simp add: lit_def len_utf8_def)
  from ifs_split_exact [OF this, of default_execution_limits "Some (lit '': '')" 10 "[lit ''a'', [], lit ''b'', lit ''c'']" "[]"
      "[(lit ''a:'', True), (lit ''b'', False)]"] f
  show ?thesis
    by (simp add: default_execution_limits_def total_len_def lit_def len_utf8_def unmarked_def QUOTED_SEGMENT_START_def QUOTED_SEGMENT_END_def)
qed

text \<open>A block without separators stays in one piece.\<close>

lemma cut_at_block:
  assumes "list_all (\<lambda>x. \<not> P x) b"
  shows "\<exists>g \<in> set (cut_at P (pre @ b @ post)). sublist b g"
proof (induction pre)
  case Nil
  then show ?case using cut_at_append [OF assms, of post] by (auto intro!: sublist_appendI [of b "[]", simplified])
next
  case (Cons x pre)
  then obtain g where g: "g \<in> set (cut_at P (pre @ b @ post))" "sublist b g" by blast
  show ?case
  proof (cases "P x")
    case False
    obtain h t where c: "cut_at P (pre @ b @ post) = h # t" by (cases "cut_at P (pre @ b @ post)") simp_all
    have "sublist b (x # h)" if "sublist b h" using that by (simp add: sublist_Cons_right)
    then show ?thesis using g False c by auto
  qed (use g in auto)
qed

lemma runs_block:
  assumes "list_all (\<lambda>x. \<not> P x) b" "b \<noteq> []"
  shows "\<exists>g \<in> set (runs P (pre @ b @ post)). sublist b g"
  using cut_at_block [OF assms(1), of pre post] assms(2) by (auto simp: runs_def)

lemma fields_of_block:
  assumes "word_chars ifs b" "b \<noteq> []"
  shows "\<exists>g \<in> set (fields_of ifs (pre @ b @ post)). sublist b g"
proof -
  let ?ps = "cut_at (is_ifs_nws ifs) (pre @ b @ post)"
  obtain p where p: "p \<in> set ?ps" "sublist b p" using cut_at_block [of "is_ifs_nws ifs" b pre post] word_chars_seps [OF assms(1)] by blast
  then obtain pre' post' where "p = pre' @ b @ post'" by (auto simp: sublist_def)
  then obtain g where g: "g \<in> set (runs (is_ifs_ws ifs) p)" "sublist b g"
    using runs_block [of "is_ifs_ws ifs" b pre' post'] word_chars_seps [OF assms(1)] assms(2) by blast
  have "p \<in> set (butlast ?ps) \<or> p = last ?ps" using p(1) by (metis append_butlast_last_id cut_at_ne in_set_conv_decomp rotate1.simps(2) set_ConsD set_rotate1)
  moreover have "piece_fields ifs p = runs (is_ifs_ws ifs) p" using g(1) by (auto simp: piece_fields_seps)
  ultimately have "g \<in> set (concat (map (piece_fields ifs) (butlast ?ps))) \<or> g \<in> set (runs (is_ifs_ws ifs) (last ?ps))"
  proof (elim disjE)
    assume p: "p \<in> set (butlast ?ps)" and e: "piece_fields ifs p = runs (is_ifs_ws ifs) p"
    have "g \<in> set (piece_fields ifs p)" using g(1) e by simp
    then show ?thesis using p by (intro disjI1) (simp only: set_concat set_map UN_iff image_iff bex_simps, blast)
  qed (use g(1) in simp)
  then have "g \<in> set (fields_of ifs (pre @ b @ post))" unfolding fields_of_seps Let_def set_append by blast
  with g(2) show ?thesis ..
qed


lemma sublist_map: "sublist xs ys \<Longrightarrow> sublist (map f xs) (map f ys)"
  unfolding sublist_def by (metis map_append)

lemma sublist_filter_list: "sublist xs ys \<Longrightarrow> sublist (filter P xs) (filter P ys)"
  unfolding sublist_def by (metis filter_append)

text \<open>The limits apart, the fields of a mixed word.\<close>

lemma split_segments_fields:
  assumes "split_segments l ifs_var segments = Ok ws"
    and "list_all (\<lambda>(v, _, _). unmarked v) segments" and "0 < max_word_split_fields l"
    and "byte_len (concat (map (mark_segment (empty_field_sentinel (case ifs_var of Some v \<Rightarrow> v | None \<Rightarrow> []) segments)) segments)) < 2 ^ 64"
  defines "sentinel \<equiv> empty_field_sentinel (case ifs_var of Some v \<Rightarrow> v | None \<Rightarrow> []) segments"
  shows "ws = (case sentinel of None \<Rightarrow> (\<lambda>fs. fs) | Some c \<Rightarrow> map (filter (\<lambda>ch. ch \<noteq> c)))
      (ifs_fields ifs_var (concat (map (segment_chars sentinel) segments)))"
proof -
  have un: "sentinel = None \<or> unmarked [the sentinel]"
  proof (cases sentinel)
    case (Some c)
    then have "c \<in> set OPERAND_QUOTE_MARK_CANDIDATES"
      by (auto simp: sentinel_def empty_field_sentinel_def find_Some_iff split: if_splits)
    then show ?thesis using Some
      by (auto simp: unmarked_def OPERAND_QUOTE_MARK_CANDIDATES_def QUOTED_SEGMENT_START_def QUOTED_SEGMENT_END_def)
  qed simp
  obtain out where out: "ifs_split l ifs_var (concat (map (mark_segment sentinel) segments)) = Ok out"
    and ws: "ws = (case sentinel of None \<Rightarrow> out | Some c \<Rightarrow> map (filter (\<lambda>ch. ch \<noteq> c)) out)"
    using assms(1) by (auto simp: split_segments_def Let_def res_bind_Inr simp flip: sentinel_def)
  have pos: "unat (max_word_split_fields l) \<noteq> 0" using assms(3) by (simp add: word_less_nat_alt)
  have "out = ifs_fields ifs_var (quote_marker_chars (concat (map (mark_segment sentinel) segments)))"
    using out pos unfolding ifs_split_def ifs_split_push [OF assms(4) [folded sentinel_def]] Let_def by (auto simp: push_all_ok)
  then show ?thesis using ws mark_segments_chars [OF assms(2) un] by (simp split: option.split)
qed

lemma protected_in_a_field:
  assumes "split_segments l ifs_var segments = Ok ws" and "0 < max_word_split_fields l"
    and "list_all (\<lambda>(v, _, _). unmarked v) segments"
    and "byte_len (concat (map (mark_segment (empty_field_sentinel (case ifs_var of Some v \<Rightarrow> v | None \<Rightarrow> []) segments)) segments)) < 2 ^ 64"
    and "(v, True, preserves) \<in> set segments"
    and "v \<noteq> [] \<or> preserves \<and> empty_field_sentinel (case ifs_var of Some v \<Rightarrow> v | None \<Rightarrow> []) segments \<noteq> None"
  shows "\<exists>w \<in> set ws. sublist v w"
proof -
  define sentinel where "sentinel = empty_field_sentinel (case ifs_var of Some v \<Rightarrow> v | None \<Rightarrow> []) segments"
  define ifs where "ifs = (case ifs_var of Some v \<Rightarrow> v | None \<Rightarrow> [32, 9, 10])"
  note ws = split_segments_fields [OF assms(1,3,2,4), folded sentinel_def]
  obtain before after where seg: "segments = before @ (v, True, preserves) # after" using assms(5) by (meson split_list)
  define b where "b = segment_chars sentinel (v, True, preserves)"
  have b: "b \<noteq> []" "word_chars ifs b" and bv: "map fst b = (case sentinel of Some c \<Rightarrow> if preserves then [c] else [] | None \<Rightarrow> []) @ v"
    using assms(6) by (auto simp: b_def segment_chars_def is_ifs_def list_all_iff comp_def simp flip: sentinel_def split: option.split)
  have "\<exists>g \<in> set (ifs_fields ifs_var (concat (map (segment_chars sentinel) segments))). sublist (map fst b) g"
  proof (cases "ifs = []")
    case True
    have "sublist (map fst b) (map fst (concat (map (segment_chars sentinel) segments)))"
      unfolding seg by (intro sublist_map) (auto simp: b_def sublist_def)
    then show ?thesis using True by (auto simp: ifs_fields_def Let_def simp flip: ifs_def)
  next
    case False
    have "\<exists>g \<in> set (fields_of ifs (concat (map (segment_chars sentinel) segments))). sublist b g"
      using fields_of_block [OF b(2,1), of "concat (map (segment_chars sentinel) before)" "concat (map (segment_chars sentinel) after)"]
      unfolding seg by (simp add: b_def)
    then show ?thesis using False sublist_map by (auto simp: ifs_fields_def Let_def simp flip: ifs_def)
  qed
  then obtain g where g: "g \<in> set (ifs_fields ifs_var (concat (map (segment_chars sentinel) segments)))" "sublist (map fst b) g" by blast
  show ?thesis
  proof (cases sentinel)
    case None
    then show ?thesis using g bv ws by auto
  next
    case (Some c)
    then have "c \<notin> set v"
      using assms(5) by (force simp: sentinel_def empty_field_sentinel_def find_Some_iff split: if_splits)
    then have "filter (\<lambda>ch. ch \<noteq> c) (map fst b) = v" unfolding bv using Some by (auto simp: filter_id_conv)
    then have "sublist v (filter (\<lambda>ch. ch \<noteq> c) g)" using sublist_filter_list [OF g(2), of "\<lambda>ch. ch \<noteq> c"] by simp
    then show ?thesis using g(1) ws Some by auto
  qed
qed

text \<open>The limits apart, all that a mixed word loses is its unprotected separators, and the sentinel it was given.\<close>

lemma split_segments_concat:
  assumes "split_segments l ifs_var segments = Ok ws"
    and "list_all (\<lambda>(v, _, _). unmarked v) segments" and "0 < max_word_split_fields l"
    and "byte_len (concat (map (mark_segment (empty_field_sentinel (case ifs_var of Some v \<Rightarrow> v | None \<Rightarrow> []) segments)) segments)) < 2 ^ 64"
  shows "concat ws = concat (map (\<lambda>(v, is_protected, _). if is_protected then v
      else filter (\<lambda>c. c \<notin> set (case ifs_var of Some ifs \<Rightarrow> ifs | None \<Rightarrow> [32, 9, 10])) v) segments)"
proof -
  define sentinel where "sentinel = empty_field_sentinel (case ifs_var of Some v \<Rightarrow> v | None \<Rightarrow> []) segments"
  define ifs where "ifs = (case ifs_var of Some v \<Rightarrow> v | None \<Rightarrow> [32, 9, 10])"
  note ws = split_segments_fields [OF assms(1,2,3,4), folded sentinel_def]
  define keep where "keep = (\<lambda>c. case sentinel of None \<Rightarrow> True | Some s \<Rightarrow> c \<noteq> s)"
  have all: "concat ws = filter keep (concat (ifs_fields ifs_var (concat (map (segment_chars sentinel) segments))))"
  proof (cases sentinel)
    case None
    then show ?thesis unfolding ws by (simp add: keep_def)
  next
    case (Some c)
    then show ?thesis unfolding ws by (simp add: keep_def filter_concat)
  qed
  have free: "keep c" if "(v, p, e) \<in> set segments" "c \<in> set v" for v p e c
    using that by (force simp: keep_def sentinel_def empty_field_sentinel_def find_Some_iff split: if_splits option.split)
  have one: "filter keep (map fst (filter (\<lambda>x. \<not> is_ifs ifs x) (segment_chars sentinel (v, p, e)))) =
      (if p then v else filter (\<lambda>c. c \<notin> set ifs) v)" if g: "(v, p, e) \<in> set segments" for v p e
  proof -
    have "filter keep v = v" using free [OF g] by (simp add: filter_id_conv)
    moreover have "filter keep (filter (\<lambda>c. c \<notin> set ifs) v) = filter (\<lambda>c. c \<notin> set ifs) v"
      by (rule filter_True) (use free [OF g] in auto)
    ultimately show ?thesis
      by (cases sentinel) (simp_all add: segment_chars_def is_ifs_def filter_map comp_def keep_def)
  qed
  have "filter keep (map fst (filter (\<lambda>x. \<not> is_ifs ifs x) (concat (map (segment_chars sentinel) gs)))) =
      concat (map (\<lambda>(v, p, _). if p then v else filter (\<lambda>c. c \<notin> set ifs) v) gs)" if "set gs \<subseteq> set segments" for gs
    using that
  proof (induction gs)
    case (Cons g gs)
    then show ?case using one [of "fst g" "fst (snd g)" "snd (snd g)"] by (auto simp: split_def)
  qed simp
  from this [OF subset_refl] show ?thesis unfolding all concat_ifs_fields ifs_def by simp
qed

text \<open>
  Property C38: in a word of quoted and unquoted parts the quoted text is never split: the value of every protected segment
  that is not empty stands whole in one field, and nothing but the unprotected separators is lost, so that no sentinel
  remains in a field. If a protected segment, empty or not, asks for a field to be kept and one of the 32 candidates for the
  sentinel occurs neither in \<open>IFS\<close> nor in a value, the word has at least one field. All this holds as long as
  the values hold neither of the two marker characters, which a script can produce (see \<open>markers_break_quoting\<close>).
\<close>

theorem quoted_segments_stay_whole:
  assumes "split_segments l ifs_var segments = Ok ws" and "0 < max_word_split_fields l"
    and "list_all (\<lambda>(v, _, _). unmarked v) segments"
    and "byte_len (concat (map (mark_segment (empty_field_sentinel (case ifs_var of Some v \<Rightarrow> v | None \<Rightarrow> []) segments)) segments)) < 2 ^ 64"
    and "(v, True, preserves) \<in> set segments"
  shows "(v \<noteq> [] \<longrightarrow> (\<exists>w \<in> set ws. sublist v w)) \<and>
    (preserves \<and> (\<exists>c \<in> set OPERAND_QUOTE_MARK_CANDIDATES.
        c \<notin> set (case ifs_var of Some v \<Rightarrow> v | None \<Rightarrow> []) \<and> (\<forall>(u, _) \<in> set segments. c \<notin> set u)) \<longrightarrow> ws \<noteq> []) \<and>
    concat ws = concat (map (\<lambda>(v, is_protected, _). if is_protected then v
      else filter (\<lambda>c. c \<notin> set (case ifs_var of Some ifs \<Rightarrow> ifs | None \<Rightarrow> [32, 9, 10])) v) segments)"
proof (intro conjI impI)
  note field = protected_in_a_field [OF assms]
  show "\<exists>w \<in> set ws. sublist v w" if "v \<noteq> []" using field that by blast
  show "concat ws = concat (map (\<lambda>(v, is_protected, _). if is_protected then v
      else filter (\<lambda>c. c \<notin> set (case ifs_var of Some ifs \<Rightarrow> ifs | None \<Rightarrow> [32, 9, 10])) v) segments)"
    by (rule split_segments_concat [OF assms(1,3,2,4)])
  assume p: "preserves \<and> (\<exists>c \<in> set OPERAND_QUOTE_MARK_CANDIDATES.
        c \<notin> set (case ifs_var of Some v \<Rightarrow> v | None \<Rightarrow> []) \<and> (\<forall>(u, _) \<in> set segments. c \<notin> set u))"
  then obtain c where c: "c \<in> set OPERAND_QUOTE_MARK_CANDIDATES" "c \<notin> set (case ifs_var of Some v \<Rightarrow> v | None \<Rightarrow> [])"
    "\<forall>(u, _) \<in> set segments. c \<notin> set u" by blast
  then have "c \<notin> set ((case ifs_var of Some v \<Rightarrow> v | None \<Rightarrow> []) @ concat (map fst segments))" by auto
  moreover have "list_ex (\<lambda>(_, _, preserves). preserves) segments" using assms(5) p by (force simp: list_ex_iff)
  ultimately have "empty_field_sentinel (case ifs_var of Some v \<Rightarrow> v | None \<Rightarrow> []) segments \<noteq> None"
    using c(1) by (auto simp: empty_field_sentinel_def find_None_iff)
  then show "ws \<noteq> []" using field p by auto
qed

lemmas split_demo_defs = split_segments_def empty_field_sentinel_def mark_segment_def QUOTED_SEGMENT_START_def QUOTED_SEGMENT_END_def
  ifs_split_def ifs_split_limited_def quote_marker_chars_def ifs_space_def is_ifs_def is_ifs_ws_def is_ifs_nws_def push_ifs_field_def
  sat_bytes_def Let_def default_execution_limits_def lit_def len_utf8_def

theorem quoted_segments_stay_whole_witness:
  "split_segments default_execution_limits None [(lit ''a b'', False, False), (lit ''c d'', True, False)] = Ok [lit ''a'', lit ''bc d''] \<and>
   (\<exists>w \<in> set [lit ''a'', lit ''bc d'']. sublist (lit ''c d'') w) \<and>
   split_segments default_execution_limits None [([], True, True)] = Ok [[]] \<and> [[] :: rstr] \<noteq> []"
proof -
  let ?segs = "[(lit ''a b'', False, False), (lit ''c d'', True, False)]"
  have r: "split_segments default_execution_limits None ?segs = Ok [lit ''a'', lit ''bc d'']"
    by (simp add: split_demo_defs)
  have "0 < max_word_split_fields default_execution_limits" "list_all (\<lambda>(v, _, _). unmarked v) ?segs"
    "byte_len (concat (map (mark_segment (empty_field_sentinel (case None of Some v \<Rightarrow> v | None \<Rightarrow> []) ?segs)) ?segs)) < 2 ^ 64"
    by (simp_all add: split_demo_defs unmarked_def)
  from quoted_segments_stay_whole [OF r this, of "lit ''c d''" False]
  have 1: "\<exists>w \<in> set [lit ''a'', lit ''bc d'']. sublist (lit ''c d'') w" by (simp add: lit_def)
  let ?empty = "[([], True, True)] :: segment list"
  have e: "split_segments default_execution_limits None ?empty = Ok [[]]"
    by (simp add: split_demo_defs OPERAND_QUOTE_MARK_CANDIDATES_def upt_rec [of 0xE000])
  have "0 < max_word_split_fields default_execution_limits" "list_all (\<lambda>(v, _, _). unmarked v) ?empty"
    "byte_len (concat (map (mark_segment (empty_field_sentinel (case None of Some v \<Rightarrow> v | None \<Rightarrow> []) ?empty)) ?empty)) < 2 ^ 64"
    by (simp_all add: split_demo_defs unmarked_def OPERAND_QUOTE_MARK_CANDIDATES_def upt_rec [of 0xE000])
  from quoted_segments_stay_whole [OF e this, of "[]" True] have "[[] :: rstr] \<noteq> []" by simp
  with r e 1 show ?thesis by blast
qed

text \<open>
  A script can put the marker characters into a variable: the end marker in a quoted value ends its protection, so that
  quoted text is split, and the start marker in an unquoted value protects what follows it. The markers themselves vanish.
\<close>

theorem markers_break_quoting:
  "split_segments default_execution_limits None [(2 # lit ''x y'', True, False)] = Ok [lit ''x'', lit ''y'']"
  "ifs_split default_execution_limits None (1 # lit ''x y'') = Ok [lit ''x y'']"
  by (simp_all add: split_demo_defs)

end
