(* ===== verification/TimeFormat.thy ===== *)
theory TimeFormat
  imports Brace Arith
begin

text \<open>
  The format strings of the reserved word \<open>time\<close>, \<open>interpreter/time_command.rs\<close>: a format is validated before the command
  runs and rendered after it. Rendering relies on the validation (\<open>expect\<close> and \<open>unreachable!\<close>); the theorem says for which
  formats that is justified, and \<open>time_format_panics\<close> shows one for which it is not. The texts that the standard library
  makes of floating-point numbers are parameters.
\<close>

record time_usage =
  tu_elapsed :: nat
  tu_exit_status :: int
  tu_commands :: usize
  tu_loops :: usize
  tu_work_units :: u64

text \<open>\<open>format!("{:.2}", elapsed.as_secs_f64())\<close>, the text of \<open>%E\<close> and the minutes and seconds of the default report, of a duration in nanoseconds.\<close>

record float_texts =
  ft_seconds :: "nat \<Rightarrow> rstr"
  ft_clock :: "nat \<Rightarrow> rstr"
  ft_minutes :: "nat \<Rightarrow> rstr"

definition NAMED_FIELDS :: "rstr list" where
  "NAMED_FIELDS = [lit ''commands'', lit ''loops'', lit ''work_units'']"

definition FIELD_CHARS :: rstr where
  "FIELD_CHARS = lit ''%eExUSMPCKDpXZFRWcwIOrsk''"

text \<open>The characters up to the closing brace, whether it was found, and what follows it.\<close>

fun take_name :: "rstr \<Rightarrow> rstr \<times> bool \<times> rstr" where
  "take_name [] = ([], False, [])"
| "take_name (c # s) = (if c = 125 then ([], True, s) else (case take_name s of (name, closed, rest) \<Rightarrow> (c # name, closed, rest)))"

lemma take_name_shorter: "(name, closed, rest) = take_name s \<Longrightarrow> length rest < Suc (Suc (length s))"
  by (induction s arbitrary: name closed rest) (auto split: if_splits prod.splits)

function validate_time_format :: "rstr \<Rightarrow> rstr + unit" where
  "validate_time_format [] = Ok ()"
| "validate_time_format [c] = (if c = 37 then Err [37] else Ok ())"
| "validate_time_format (c # d # s) =
     (if c \<noteq> 37 then validate_time_format (d # s)
      else if d = 123
      then (case take_name s of (name, closed, rest) \<Rightarrow>
              if \<not> closed \<or> name \<notin> set NAMED_FIELDS then Err ([37, 123] @ name @ [125]) else validate_time_format rest)
      else if d \<notin> set FIELD_CHARS then Err [37, d]
      else validate_time_format s)"
  by pat_completeness auto
termination by (relation "measure length") (auto dest: take_name_shorter)

section \<open>Rendering\<close>

text \<open>Too long a report is the code's error; \<open>Panic\<close> stands for the two places where the code panics.\<close>

datatype render_error = ReportTooLong | RenderPanic

type_synonym report = "render_error + rstr"

definition sat_len :: "nat \<Rightarrow> nat \<Rightarrow> nat" where
  "sat_len a b = min (a + b) (2 ^ 64 - 1)"

text \<open>\<open>push_time_report\<close>, and \<open>push_time_char\<close> for a value of one character.\<close>

definition push_time_report :: "usize \<Rightarrow> rstr \<Rightarrow> rstr \<Rightarrow> report" where
  "push_time_report max_bytes out value =
     (if unat max_bytes < sat_len (byte_len out) (byte_len value) then Err ReportTooLong else Ok (out @ value))"

definition unavailable :: rstr where "unavailable = lit ''unavailable''"

definition named_field :: "time_usage \<Rightarrow> rstr \<Rightarrow> rstr option" where
  "named_field u name =
     (if name = lit ''commands'' then Some (nat_to_string (unat (tu_commands u)))
      else if name = lit ''loops'' then Some (nat_to_string (unat (tu_loops u)))
      else if name = lit ''work_units'' then Some (nat_to_string (unat (tu_work_units u)))
      else None)"

definition field_text :: "float_texts \<Rightarrow> time_usage \<Rightarrow> uchar \<Rightarrow> rstr" where
  "field_text F u d =
     (if d = 37 then [37] else if d = 101 then ft_seconds F (tu_elapsed u) else if d = 69 then ft_clock F (tu_elapsed u)
      else if d = 120 then int_to_string (tu_exit_status u) else unavailable)"

text \<open>One turn of the loop: the pieces it pushes and the characters left; \<open>None\<close> is a panic.\<close>

definition render_turn :: "float_texts \<Rightarrow> time_usage \<Rightarrow> uchar \<Rightarrow> rstr \<Rightarrow> (rstr list \<times> rstr) option" where
  "render_turn F u c s =
     (if c = 92
      then (case s of [] \<Rightarrow> Some ([[92]], [])
            | d # s' \<Rightarrow> Some (if d = 110 then [[10]] else if d = 116 then [[9]] else if d = 92 then [[92]] else [[92], [d]], s'))
      else if c \<noteq> 37 then Some ([[c]], s)
      else (case s of [] \<Rightarrow> None
            | d # s' \<Rightarrow>
                if d = 123
                then (case take_name s' of (name, closed, rest) \<Rightarrow> map_option (\<lambda>v. ([v], rest)) (named_field u name))
                else Some ([field_text F u d], s')))"

primrec push_pieces :: "usize \<Rightarrow> rstr list \<Rightarrow> rstr \<Rightarrow> report" where
  "push_pieces m [] out = Ok out"
| "push_pieces m (v # vs) out = res_bind (push_time_report m out v) (push_pieces m vs)"

lemma render_turn_shorter: "render_turn F u c s = Some (ps, rest) \<Longrightarrow> length rest < Suc (length s)"
  by (auto simp: render_turn_def split: if_splits list.splits prod.splits dest: take_name_shorter [OF sym])

function render_loop :: "float_texts \<Rightarrow> time_usage \<Rightarrow> usize \<Rightarrow> rstr \<Rightarrow> rstr \<Rightarrow> report" where
  "render_loop F u m [] out = Ok out"
| "render_loop F u m (c # s) out =
     (case render_turn F u c s of
        None \<Rightarrow> Err RenderPanic
      | Some (ps, rest) \<Rightarrow> res_bind (push_pieces m ps out) (render_loop F u m rest))"
  by pat_completeness auto
termination by (relation "measure (\<lambda>(F, u, m, s, out). length s)") (auto dest: render_turn_shorter)

definition render_time_format :: "float_texts \<Rightarrow> rstr \<Rightarrow> time_usage \<Rightarrow> usize \<Rightarrow> report" where
  "render_time_format F format u max_bytes =
     res_bind (render_loop F u max_bytes format []) (\<lambda>out.
       if out = [] \<or> last out \<noteq> 10 then push_time_report max_bytes out [10] else Ok out)"

definition verbose_time_report :: "float_texts \<Rightarrow> time_usage \<Rightarrow> rstr" where
  "verbose_time_report F u =
     lit ''Elapsed (wall clock) time: '' @ ft_seconds F (tu_elapsed u) @ [10] @
     lit ''User CPU time: unavailable'' @ [10] @ lit ''System CPU time: unavailable'' @ [10] @
     lit ''Maximum resident set size: unavailable'' @ [10] @
     lit ''Bashkit commands: '' @ nat_to_string (unat (tu_commands u)) @ [10] @
     lit ''Bashkit loop iterations: '' @ nat_to_string (unat (tu_loops u)) @ [10] @
     lit ''Bashkit work units: '' @ nat_to_string (unat (tu_work_units u)) @ [10] @
     lit ''Exit status: '' @ int_to_string (tu_exit_status u) @ [10]"

text \<open>\<open>char::is_control\<close> is the category Cc.\<close>

definition sanitize_time_path :: "rstr \<Rightarrow> rstr" where
  "sanitize_time_path path = map (\<lambda>c. if c < 32 \<or> 127 \<le> c \<and> c < 160 then 63 else c) (take 256 path)"

section \<open>When the validation is enough\<close>

text \<open>Rendering skips the character after a backslash, validation does not: they differ where that character is a percent sign.\<close>

fun plain_escapes :: "rstr \<Rightarrow> bool" where
  "plain_escapes (c # d # s) = (\<not> (c = 92 \<and> d = 37) \<and> plain_escapes (d # s))"
| "plain_escapes _ = True"

lemma plain_tl: "plain_escapes (c # s) \<Longrightarrow> plain_escapes s"
  by (cases s) auto

lemma take_name_parts: "take_name s = (name, True, rest) \<Longrightarrow> s = name @ 125 # rest"
  by (induction s arbitrary: name) (auto split: if_splits prod.splits)

lemma plain_suffix: "plain_escapes (xs @ s) \<Longrightarrow> plain_escapes s"
  by (induction xs) (auto dest: plain_tl)

lemma push_no_panic [simp]: "push_pieces m ps out \<noteq> Err RenderPanic"
  by (induction ps arbitrary: out) (auto simp: res_bind_def push_time_report_def)

lemma valid_skip: "c \<noteq> 37 \<Longrightarrow> validate_time_format (c # s) = validate_time_format s"
  by (cases s) auto

text \<open>What is left after a turn is valid again.\<close>

lemma valid_turn:
  assumes "validate_time_format (c # s) = Ok ()" and "plain_escapes (c # s)"
  shows "\<exists>ps rest. render_turn F u c s = Some (ps, rest) \<and> validate_time_format rest = Ok () \<and> plain_escapes rest"
proof (cases "c = 37")
  case percent: True
  with assms(1) obtain d s' where s: "s = d # s'" by (cases s) auto
  show ?thesis
  proof (cases "d = 123")
    case brace: True
    obtain name closed rest where t: "take_name s' = (name, closed, rest)" by (cases "take_name s'")
    with assms(1) percent brace s have ok: "closed" "name \<in> set NAMED_FIELDS" "validate_time_format rest = Ok ()"
      by (auto split: if_splits)
    have "s' = (name @ [125]) @ rest" using take_name_parts t ok(1) by auto
    then have "plain_escapes rest" using assms(2) plain_suffix s by (metis plain_tl)
    moreover have "named_field u name \<noteq> None" using ok(2) by (auto simp: NAMED_FIELDS_def named_field_def)
    ultimately show ?thesis using ok(3) by (auto simp: render_turn_def percent s brace t)
  next
    case False
    with assms percent s show ?thesis by (auto simp: render_turn_def dest: plain_tl split: if_splits)
  qed
next
  case False
  then have valid: "validate_time_format s = Ok ()" using assms(1) by (simp add: valid_skip)
  have plain: "plain_escapes s" using assms(2) by (rule plain_tl)
  show ?thesis
  proof (cases "c = 92 \<and> s \<noteq> []")
    case True
    then obtain d s' where s: "s = d # s'" by (cases s) auto
    with True assms(2) have "d \<noteq> 37" by simp
    with valid plain s True show ?thesis by (auto simp: render_turn_def valid_skip dest: plain_tl)
  qed (use valid plain False in \<open>auto simp: render_turn_def\<close>)
qed

lemma render_no_panic:
  "validate_time_format s = Ok () \<Longrightarrow> plain_escapes s \<Longrightarrow> render_loop F u m s out \<noteq> Err RenderPanic"
proof (induction F u m s out rule: render_loop.induct)
  case (2 F u m c s out)
  then obtain ps rest where t: "render_turn F u c s = Some (ps, rest)" "validate_time_format rest = Ok ()" "plain_escapes rest"
    using valid_turn by blast
  with "2.IH" [OF t(1) refl] push_no_panic [of m ps out] show ?case
    by (cases "push_pieces m ps out") (auto simp: res_bind_def simp del: push_no_panic)
qed simp

text \<open>Every piece is written within the limit.\<close>

lemma push_report_within: "m \<noteq> - 1 \<Longrightarrow> push_time_report m out v = Ok out' \<Longrightarrow> byte_len out' \<le> unat m"
  unfolding not_u64_max by (auto simp: push_time_report_def sat_len_def not_less min_le_iff_disj split: if_splits)

lemma pieces_within:
  "m \<noteq> - 1 \<Longrightarrow> push_pieces m ps out = Ok out' \<Longrightarrow> byte_len out \<le> unat m \<Longrightarrow> byte_len out' \<le> unat m"
  by (induction ps arbitrary: out) (auto simp: res_bind_def split: sum.splits dest: push_report_within)

lemma render_within:
  "m \<noteq> - 1 \<Longrightarrow> render_loop F u m s out = Ok out' \<Longrightarrow> byte_len out \<le> unat m \<Longrightarrow> byte_len out' \<le> unat m"
proof (induction F u m s out rule: render_loop.induct)
  case (2 F u m c s out)
  from "2.prems"(2) obtain ps rest out2 where t: "render_turn F u c s = Some (ps, rest)" "push_pieces m ps out = Ok out2"
      "render_loop F u m rest out2 = Ok out'"
    by (auto simp: res_bind_def split: option.splits sum.splits)
  show ?case
    by (rule "2.IH" [OF t(1) refl "2.prems"(1) t(3) pieces_within [OF "2.prems"(1) t(2) "2.prems"(3)]])
qed simp

text \<open>
  The format of a \<open>time\<close> command is rendered without a panic and within the output limit, if it passed the
  validation and does not put a backslash right before a percent sign. The report then ends with a newline; the only
  error is that it would be too long.
\<close>

theorem time_format_renders:
  assumes "validate_time_format format = Ok ()" and "plain_escapes format" and "max_bytes \<noteq> - 1"
  shows "render_time_format F format u max_bytes = Err ReportTooLong \<or>
    (\<exists>report. render_time_format F format u max_bytes = Ok report \<and> byte_len report \<le> unat max_bytes \<and>
       report \<noteq> [] \<and> last report = 10)"
proof -
  note no_panic = render_no_panic [OF assms(1,2), of F u max_bytes "[]"]
  show ?thesis
  proof (cases "render_loop F u max_bytes format []")
    case (Inl e)
    with no_panic show ?thesis by (cases e) (auto simp: render_time_format_def res_bind_def)
  next
    case (Inr out)
    then have within: "byte_len out \<le> unat max_bytes" using render_within [OF assms(3) Inr] by simp
    show ?thesis
    proof (cases "out = [] \<or> last out \<noteq> 10")
      case True
      then show ?thesis using Inr push_report_within [OF assms(3), of out "[10]"]
        by (cases "push_time_report max_bytes out [10]")
          (auto simp: render_time_format_def res_bind_def push_time_report_def split: if_splits)
    qed (use Inr within in \<open>auto simp: render_time_format_def res_bind_def\<close>)
  qed
qed

definition demo_usage :: time_usage where
  "demo_usage = \<lparr>tu_elapsed = 0, tu_exit_status = 3, tu_commands = 2, tu_loops = 0, tu_work_units = 5\<rparr>"

definition demo_floats :: float_texts where
  "demo_floats = \<lparr>ft_seconds = (\<lambda>n. nat_to_string (n div 1000000000)), ft_clock = (\<lambda>n. nat_to_string n), ft_minutes = (\<lambda>n. nat_to_string n)\<rparr>"

theorem time_format_renders_witness:
  "\<exists>report. render_time_format demo_floats (lit ''%x %{commands}'') demo_usage 100 = Ok report \<and> byte_len report \<le> 100 \<and> last report = 10"
proof -
  have ok: "validate_time_format (lit ''%x %{commands}'') = Ok ()" "plain_escapes (lit ''%x %{commands}'')"
    by (simp_all add: lit_def FIELD_CHARS_def NAMED_FIELDS_def)
  have "render_time_format demo_floats (lit ''%x %{commands}'') demo_usage 100 \<noteq> Err ReportTooLong"
    by (simp add: render_time_format_def lit_def named_field_def render_turn_def field_text_def push_time_report_def demo_usage_def sat_len_def res_bind_def
        int_to_string_def nat_to_string.simps len_utf8_def)
  with time_format_renders [OF ok, of 100 demo_floats demo_usage] show ?thesis by auto
qed

text \<open>
  A backslash right before a percent sign hides the sign from the rendering only: the format \<open>\%%\<close> passes the validation
  as an escaped percent sign, and the rendering reaches the second sign without a field behind it.
\<close>

theorem time_format_panics:
  "validate_time_format [92, 37, 37] = Ok () \<and> render_time_format F [92, 37, 37] u 100 = Err RenderPanic \<and>
   validate_time_format ([92, 37, 37] @ lit ''{x}'') = Ok () \<and> render_time_format F ([92, 37, 37] @ lit ''{x}'') u 100 = Err RenderPanic"
  by (simp add: FIELD_CHARS_def lit_def render_time_format_def res_bind_def render_turn_def field_text_def push_time_report_def sat_len_def len_utf8_def
      named_field_def)

end
