(* ===== verification/ShellState.thy ===== *)
theory ShellState
  imports MemBudget Counters Budget StaticBudget StreamData TimeFormat
begin

text \<open>
  The state of the interpreter as the execution of commands uses it, from \<open>interpreter/state.rs\<close>, \<open>interpreter/jobs.rs\<close> and
  \<open>interpreter/mod.rs\<close>: results with their control flow, the accumulator of a loop, the table of background jobs, the counters
  and the streaming of output to the host. What the expansion of words and the builtin commands read and write is kept
  apart: \<open>'x\<close> is what a subshell saves and restores, \<open>'y\<close> the call stack and the coprocess buffers, \<open>'w\<close> everything else,
  the filesystem included. Of a result, the final environment, the trace events, the side effects a builtin asks for and the
  report of revoked capabilities are left out.
\<close>

section \<open>Results\<close>

type_synonym i32 = u32

datatype control_flow = NoFlow | Break u32 | Continue u32 | Return i32 | Exit i32

record exec_result =
  er_stdout :: stream_data
  er_stderr :: stream_data
  er_exit_code :: i32
  er_flow :: control_flow
  er_stdout_truncated :: bool
  er_stderr_truncated :: bool
  er_errexit_suppressed :: bool

definition default_result :: exec_result where
  "default_result = \<lparr>er_stdout = stream_new, er_stderr = stream_new, er_exit_code = 0, er_flow = NoFlow,
     er_stdout_truncated = False, er_stderr_truncated = False, er_errexit_suppressed = False\<rparr>"

definition result_ok :: "stream_data \<Rightarrow> exec_result" where
  "result_ok out = default_result\<lparr>er_stdout := out\<rparr>"

definition result_err :: "stream_data \<Rightarrow> i32 \<Rightarrow> exec_result" where
  "result_err err code = default_result\<lparr>er_stderr := err, er_exit_code := code\<rparr>"

definition result_with_code :: "stream_data \<Rightarrow> i32 \<Rightarrow> exec_result" where
  "result_with_code out code = default_result\<lparr>er_stdout := out, er_exit_code := code\<rparr>"

definition result_with_control_flow :: "control_flow \<Rightarrow> exec_result" where
  "result_with_control_flow flow = default_result\<lparr>er_flow := flow\<rparr>"

definition is_success_result :: "exec_result \<Rightarrow> bool" where
  "is_success_result r \<longleftrightarrow> er_exit_code r = 0"

text \<open>The results that the interpreter builds with all other fields at their defaults.\<close>

definition result_of :: "stream_data \<Rightarrow> stream_data \<Rightarrow> i32 \<Rightarrow> control_flow \<Rightarrow> bool \<Rightarrow> exec_result" where
  "result_of out err code flow suppressed =
     default_result\<lparr>er_stdout := out, er_stderr := err, er_exit_code := code, er_flow := flow, er_errexit_suppressed := suppressed\<rparr>"

lemma result_of_simps [simp]:
  "er_stdout (result_of out err code flow b) = out" "er_stderr (result_of out err code flow b) = err"
  "er_exit_code (result_of out err code flow b) = code" "er_flow (result_of out err code flow b) = flow"
  "er_errexit_suppressed (result_of out err code flow b) = b"
  by (simp_all add: result_of_def)

lemma simple_result_simps [simp]:
  "er_stdout (result_ok out) = out" "er_stderr (result_ok out) = stream_new" "er_flow (result_ok out) = NoFlow"
  "er_exit_code (result_ok out) = 0" "er_stdout (result_err err code) = stream_new" "er_stderr (result_err err code) = err"
  "er_exit_code (result_err err code) = code" "er_flow (result_err err code) = NoFlow"
  by (simp_all add: result_ok_def result_err_def default_result_def)

section \<open>The accumulator of a loop\<close>

record loop_accumulator =
  la_stdout :: stream_data
  la_stderr :: stream_data
  la_exit_code :: i32
  la_suppressed :: bool

datatype loop_action = LaNone | LaBreak | LaContinue | LaExit exec_result

definition acc_new :: loop_accumulator where
  "acc_new = \<lparr>la_stdout = stream_new, la_stderr = stream_new, la_exit_code = 0, la_suppressed = False\<rparr>"

definition acc_finish :: "loop_accumulator \<Rightarrow> exec_result" where
  "acc_finish a = result_of (la_stdout a) (la_stderr a) (la_exit_code a) NoFlow (la_suppressed a)"

definition build_exit :: "control_flow \<Rightarrow> loop_accumulator \<Rightarrow> exec_result \<times> loop_accumulator" where
  "build_exit flow a =
     (let code = (case flow of Return c \<Rightarrow> c | Exit c \<Rightarrow> c | _ \<Rightarrow> la_exit_code a)
      in (result_of (la_stdout a) (la_stderr a) code flow False, a\<lparr>la_stdout := stream_new, la_stderr := stream_new\<rparr>))"

definition accumulate :: "exec_result \<Rightarrow> loop_accumulator \<Rightarrow> loop_action \<times> loop_accumulator" where
  "accumulate r a =
     (let a = a\<lparr>la_stdout := stream_append (la_stdout a) (er_stdout r), la_stderr := stream_append (la_stderr a) (er_stderr r),
                la_exit_code := er_exit_code r, la_suppressed := er_errexit_suppressed r\<rparr>
      in case er_flow r of
           Break n \<Rightarrow> if n \<le> 1 then (LaBreak, a) else map_prod LaExit id (build_exit (Break (n - 1)) a)
         | Continue n \<Rightarrow> if n \<le> 1 then (LaContinue, a) else map_prod LaExit id (build_exit (Continue (n - 1)) a)
         | Return code \<Rightarrow> map_prod LaExit id (build_exit (Return code) a)
         | Exit code \<Rightarrow> map_prod LaExit id (build_exit (Exit code) a)
         | NoFlow \<Rightarrow> (LaNone, a))"

section \<open>Background jobs\<close>

text \<open>A \<open>BTreeMap\<close> with keys that only grow is a list in the order of insertion.\<close>

record job_table =
  jt_jobs :: "(nat \<times> exec_result) list"
  jt_next_id :: nat
  jt_last_job_id :: "nat option"

definition jobs_new :: job_table where
  "jobs_new = \<lparr>jt_jobs = [], jt_next_id = 1, jt_last_job_id = None\<rparr>"

definition job_spawn :: "exec_result \<Rightarrow> job_table \<Rightarrow> nat \<times> job_table" where
  "job_spawn r t =
     (let i = jt_next_id t
      in (i, t\<lparr>jt_next_id := jt_next_id t + 1, jt_jobs := AList.update i r (jt_jobs t), jt_last_job_id := Some i\<rparr>))"

definition job_wait_for :: "nat \<Rightarrow> job_table \<Rightarrow> exec_result option \<times> job_table" where
  "job_wait_for i t = (map_of (jt_jobs t) i, t\<lparr>jt_jobs := AList.delete i (jt_jobs t)\<rparr>)"

definition job_wait_all_results :: "job_table \<Rightarrow> exec_result list \<times> job_table" where
  "job_wait_all_results t = (map snd (jt_jobs t), t\<lparr>jt_jobs := []\<rparr>)"

definition job_wait_all :: "job_table \<Rightarrow> i32 \<times> job_table" where
  "job_wait_all t = (case job_wait_all_results t of (rs, t') \<Rightarrow> (if rs = [] then 0 else er_exit_code (last rs), t'))"

definition has_jobs :: "job_table \<Rightarrow> bool" where
  "has_jobs t \<longleftrightarrow> jt_jobs t \<noteq> []"

definition job_count :: "job_table \<Rightarrow> nat" where
  "job_count t = length (jt_jobs t)"

definition jobs_ok :: "job_table \<Rightarrow> bool" where
  "jobs_ok t \<longleftrightarrow> sorted_wrt (<) (map fst (jt_jobs t)) \<and> list_all (\<lambda>i. i < jt_next_id t) (map fst (jt_jobs t))"

lemma job_spawn_appends:
  "jobs_ok t \<Longrightarrow> job_spawn r t = (jt_next_id t, t\<lparr>jt_next_id := jt_next_id t + 1, jt_jobs := jt_jobs t @ [(jt_next_id t, r)], jt_last_job_id := Some (jt_next_id t)\<rparr>)"
proof -
  have "AList.update i r ps = ps @ [(i, r)]" if "i \<notin> set (map fst ps)" for i and ps :: "(nat \<times> exec_result) list"
    using that by (induction ps) auto
  moreover assume ok: "jobs_ok t"
  then have "jt_next_id t \<notin> set (map fst (jt_jobs t))" unfolding jobs_ok_def list_all_iff by blast
  ultimately show ?thesis by (simp add: job_spawn_def Let_def)
qed

lemma jobs_ok_steps:
  "jobs_ok jobs_new" "jobs_ok t \<Longrightarrow> jobs_ok (snd (job_spawn r t))" "jobs_ok t \<Longrightarrow> jobs_ok (snd (job_wait_for i t))"
  "jobs_ok t \<Longrightarrow> jobs_ok (snd (job_wait_all_results t))"
proof -
  show "jobs_ok t \<Longrightarrow> jobs_ok (snd (job_wait_for i t))"
    unfolding jobs_ok_def job_wait_for_def
    by (auto simp: AList.delete_eq list_all_iff sorted_wrt_map intro: sorted_wrt_filter)
qed (auto simp: jobs_ok_def jobs_new_def job_spawn_appends job_wait_all_results_def sorted_wrt_append list_all_iff)

text \<open>A job is waited for once, and waiting for all of them gives the results in the order of their start.\<close>

lemma job_wait_for_spawned:
  assumes "jobs_ok t" and "job_spawn r t = (i, t')"
  shows "fst (job_wait_for i t') = Some r" and "fst (job_wait_for i (snd (job_wait_for i t'))) = None"
    and "fst (job_wait_all_results t') = fst (job_wait_all_results t) @ [r]"
proof -
  have "jt_next_id t \<notin> set (map fst (jt_jobs t))" using assms(1) unfolding jobs_ok_def list_all_iff by blast
  then have "map_of (jt_jobs t) (jt_next_id t) = None" by (simp add: map_of_eq_None_iff)
  then show "fst (job_wait_for i t') = Some r"
    using assms by (auto simp: job_spawn_appends job_wait_for_def map_add_def split: option.split)
  show "fst (job_wait_for i (snd (job_wait_for i t'))) = None"
    by (simp add: job_wait_for_def delete_conv')
qed (use assms in \<open>auto simp: job_spawn_appends job_wait_all_results_def\<close>)

end
