(* ===== verification/ShellFlow.thy ===== *)
theory ShellFlow
  imports ShellState ArithExpand
begin

text \<open>
  Execution of commands, \<open>interpreter/mod.rs\<close>: sequences, lists, pipelines, background jobs, conditionals, loops, subshells,
  coprocesses and the reserved word \<open>time\<close>, with control flow, \<open>set -e\<close>, the traps and the streaming of output. Simple
  commands, the expansion of words, arithmetic, redirections and the parser, which a trap's text is given to, are the fields of
  the record \<open>shell_env\<close>: functions on the whole state, since what they call re-enters the interpreter.
\<close>

section \<open>State\<close>

datatype flow_error =
    FlowCancelled
  | FlowLimit limit_exceeded
  | FlowSession limit_exceeded
  | CommandFailure rstr
  | FlowOther rstr
  | FlowPanic
  | OutOfFuel

record ('x, 'y, 'w) shell =
  sh_scoped :: 'x
  sh_functions :: "(rstr \<times> command) list"
  sh_memory :: memory_budget
  sh_errexit :: bool
  sh_pipefail :: bool
  sh_last_bg :: "nat option"
  sh_frames :: 'y
  sh_last_exit :: i32
  sh_counters :: execution_counters
  sh_budget :: execution_budget
  sh_condition_depth :: nat
  sh_in_trap :: bool
  sh_stdin :: "stream_data option"
  sh_pipestatus :: "i32 list"
  sh_jobs :: job_table
  sh_coproc_next_fd :: i32
  sh_capture_depth :: nat
  sh_line :: nat
  sh_callback :: bool
  sh_emit_count :: nat
  sh_streamed_out :: nat
  sh_streamed_err :: nat
  sh_emitted :: "(stream_data \<times> stream_data) list"
  sh_world :: 'w

type_synonym ('a, 'x, 'y, 'w) act = "('x, 'y, 'w) shell \<Rightarrow> (flow_error + 'a) \<times> ('x, 'y, 'w) shell"
type_synonym ('x, 'y, 'w) run = "(exec_result, 'x, 'y, 'w) act"

definition sh_return :: "'a \<Rightarrow> ('a, 'x, 'y, 'w) act" where
  "sh_return a s = (Ok a, s)"

definition sh_fail :: "flow_error \<Rightarrow> ('a, 'x, 'y, 'w) act" where
  "sh_fail e s = (Err e, s)"

definition sh_bind :: "('a, 'x, 'y, 'w) act \<Rightarrow> ('a \<Rightarrow> ('b, 'x, 'y, 'w) act) \<Rightarrow> ('b, 'x, 'y, 'w) act" where
  "sh_bind m f s = (case m s of (Inl e, s') \<Rightarrow> (Err e, s') | (Inr a, s') \<Rightarrow> f a s')"

definition sh_modify :: "(('x, 'y, 'w) shell \<Rightarrow> ('x, 'y, 'w) shell) \<Rightarrow> (unit, 'x, 'y, 'w) act" where
  "sh_modify f s = (Ok (), f s)"

record ('x, 'y, 'w) shell_env =
  se_limits :: execution_limits
  se_session_limits :: session_limits
  se_memory_limits :: memory_limits
  se_cancelled :: "'w \<Rightarrow> bool"
  se_budget_env :: "'w \<Rightarrow> budget_env"
  se_simple :: "command \<Rightarrow> stream_data option \<Rightarrow> ('x, 'y, 'w) run"
  se_fields :: "word \<Rightarrow> (rstr list, 'x, 'y, 'w) act"
  se_expand :: "word \<Rightarrow> (rstr, 'x, 'y, 'w) act"
  se_glob_item :: "rstr \<Rightarrow> ('x, 'y, 'w) shell \<Rightarrow> (rstr + rstr list) \<times> ('x, 'y, 'w) shell"
  se_positional :: "'y \<Rightarrow> rstr list"
  se_variable :: "rstr \<Rightarrow> 'x \<Rightarrow> rstr option"
  se_set_variable :: "rstr \<Rightarrow> rstr \<Rightarrow> ('x, 'y, 'w) shell \<Rightarrow> ('x, 'y, 'w) shell"
  se_insert_variable :: "rstr \<Rightarrow> rstr \<Rightarrow> ('x, 'y, 'w) shell \<Rightarrow> ('x, 'y, 'w) shell"
  se_matches :: "rstr \<Rightarrow> rstr \<Rightarrow> ('x, 'y, 'w) shell \<Rightarrow> bool"
  se_arith :: "rstr \<Rightarrow> ('x, 'y, 'w) shell \<Rightarrow> i64"
  se_arith_effects :: "rstr \<Rightarrow> ('x, 'y, 'w) shell \<Rightarrow> ('x, 'y, 'w) shell"
  se_arith_command :: "rstr \<Rightarrow> ('x, 'y, 'w) run"
  se_conditional :: "word list \<Rightarrow> ('x, 'y, 'w) run"
  se_redirect_error :: "redirect list \<Rightarrow> rstr option"
  se_redirect_in :: "redirect list \<Rightarrow> (stream_data option, 'x, 'y, 'w) act"
  se_redirect_out :: "exec_result \<Rightarrow> redirect list \<Rightarrow> ('x, 'y, 'w) run"
  se_clear_pending :: "'w \<Rightarrow> 'w"
  se_trap :: "rstr \<Rightarrow> 'x \<Rightarrow> rstr option"
  se_parse_trap :: "rstr \<Rightarrow> ('x, 'y, 'w) shell \<Rightarrow> ('x, 'y, 'w) run option \<times> ('x, 'y, 'w) shell"
  se_set_pipestatus :: "i32 list \<Rightarrow> 'x \<Rightarrow> 'x"
  se_coproc_store :: "rstr \<Rightarrow> i32 \<Rightarrow> i32 \<Rightarrow> rstr list \<Rightarrow> nat \<Rightarrow> 'x \<times> 'y \<Rightarrow> 'x \<times> 'y"
  se_logic_only :: bool
  se_floats :: float_texts
  se_elapsed :: "'w \<Rightarrow> 'w \<Rightarrow> nat"
  se_hardened_timing :: bool
  se_write_report :: "rstr \<Rightarrow> rstr \<Rightarrow> bool \<Rightarrow> ('x, 'y, 'w) shell \<Rightarrow> bool \<times> ('x, 'y, 'w) shell"
  se_exit_hooks :: bool
  se_fire_exit :: "i32 \<Rightarrow> ('x, 'y, 'w) shell \<Rightarrow> i32 option \<times> ('x, 'y, 'w) shell"

section \<open>Streaming\<close>

text \<open>The calls of the host's callback are the list \<open>sh_emitted\<close>.\<close>

definition maybe_emit_output ::
  "('x, 'y, 'w) shell_env \<Rightarrow> stream_data \<Rightarrow> stream_data \<Rightarrow> nat \<Rightarrow> ('x, 'y, 'w) shell \<Rightarrow> ('x, 'y, 'w) shell" where
  "maybe_emit_output E out err count_before s =
     (if \<not> sh_callback s then s
      else if sh_emit_count s \<noteq> count_before then s
      else let out_chunk = stream_prefix (unat (max_stdout_bytes (se_limits E)) - sh_streamed_out s) out;
               err_chunk = stream_prefix (unat (max_stderr_bytes (se_limits E)) - sh_streamed_err s) err
           in if stream_len out_chunk = 0 \<and> stream_len err_chunk = 0 then s
              else s\<lparr>sh_emitted := sh_emitted s @ [(out_chunk, err_chunk)], sh_emit_count := sh_emit_count s + 1,
                     sh_streamed_out := sh_streamed_out s + stream_len out_chunk,
                     sh_streamed_err := sh_streamed_err s + stream_len err_chunk\<rparr>)"

text \<open>A call whose output is passed on unless what it called has done so.\<close>

definition emitting :: "('x, 'y, 'w) shell_env \<Rightarrow> ('x, 'y, 'w) run \<Rightarrow> ('x, 'y, 'w) run" where
  "emitting E m s =
     (case m s of
        (Inl e, s') \<Rightarrow> (Err e, s')
      | (Inr r, s') \<Rightarrow> (Ok r, maybe_emit_output E (er_stdout r) (er_stderr r) (sh_emit_count s) s'))"

section \<open>Charging\<close>

definition check_cancelled :: "('x, 'y, 'w) shell_env \<Rightarrow> (unit, 'x, 'y, 'w) act" where
  "check_cancelled E s = (if se_cancelled E (sh_world s) then (Err FlowCancelled, s) else (Ok (), s))"

definition charge_work :: "('x, 'y, 'w) shell_env \<Rightarrow> u64 \<Rightarrow> (unit, 'x, 'y, 'w) act" where
  "charge_work E units s =
     (case consume_work (se_budget_env E (sh_world s)) units (sh_budget s) of
        (Inl e, b) \<Rightarrow> (Err (FlowLimit e), s\<lparr>sh_budget := b\<rparr>)
      | (Inr _, b) \<Rightarrow> (Ok (), s\<lparr>sh_budget := b\<rparr>))"

definition counting :: "(execution_counters \<Rightarrow> unit counted) \<Rightarrow> (unit, 'x, 'y, 'w) act" where
  "counting f s =
     (case f (sh_counters s) of
        (Inl e, c) \<Rightarrow> (Err (FlowLimit e), s\<lparr>sh_counters := c\<rparr>)
      | (Inr _, c) \<Rightarrow> (Ok (), s\<lparr>sh_counters := c\<rparr>))"

definition check_session :: "('x, 'y, 'w) shell_env \<Rightarrow> (unit, 'x, 'y, 'w) act" where
  "check_session E s =
     (case check_session_limits (se_session_limits E) (sh_counters s) of
        Inl e \<Rightarrow> (Err (FlowSession e), s) | Inr _ \<Rightarrow> (Ok (), s))"

section \<open>Sequences\<close>

fun sequence_loop ::
  "('x, 'y, 'w) shell_env \<Rightarrow> bool \<Rightarrow> ('x, 'y, 'w) run list \<Rightarrow> stream_data \<Rightarrow> stream_data \<Rightarrow> i32 \<Rightarrow> bool \<Rightarrow> ('x, 'y, 'w) run" where
  "sequence_loop E check_errexit [] out err code suppressed = sh_return (result_of out err code NoFlow suppressed)"
| "sequence_loop E check_errexit (m # ms) out err code suppressed =
     sh_bind (emitting E m) (\<lambda>r s.
       let out = stream_append out (er_stdout r); err = stream_append err (er_stderr r);
           code = er_exit_code r; s = s\<lparr>sh_last_exit := code\<rparr>
       in if er_flow r \<noteq> NoFlow then (Ok (result_of out err code (er_flow r) False), s)
          else if check_errexit \<and> sh_errexit s \<and> code \<noteq> 0 \<and> \<not> er_errexit_suppressed r
          then (Ok (result_of out err code NoFlow False), s)
          else sequence_loop E check_errexit ms out err code (er_errexit_suppressed r \<and> code \<noteq> 0) s)"

definition run_sequence :: "('x, 'y, 'w) shell_env \<Rightarrow> ('x, 'y, 'w) run list \<Rightarrow> ('x, 'y, 'w) run" where
  "run_sequence E ms = sequence_loop E True ms stream_new stream_new 0 False"

definition run_condition :: "('x, 'y, 'w) shell_env \<Rightarrow> ('x, 'y, 'w) run list \<Rightarrow> ('x, 'y, 'w) run" where
  "run_condition E ms s =
     (case sequence_loop E False ms stream_new stream_new 0 False (s\<lparr>sh_condition_depth := sh_condition_depth s + 1\<rparr>) of
        (r, s') \<Rightarrow> (r, s'\<lparr>sh_condition_depth := sh_condition_depth s' - 1\<rparr>))"

definition run_captured :: "('x, 'y, 'w) run \<Rightarrow> ('x, 'y, 'w) run" where
  "run_captured m s = (case m (s\<lparr>sh_callback := False\<rparr>) of (r, s') \<Rightarrow> (r, s'\<lparr>sh_callback := sh_callback s\<rparr>))"

text \<open>The trap for \<open>ERR\<close> adds its output to that of the command.\<close>

definition run_err_trap ::
  "('x, 'y, 'w) shell_env \<Rightarrow> stream_data \<Rightarrow> stream_data \<Rightarrow> ('x, 'y, 'w) shell \<Rightarrow> (stream_data \<times> stream_data) \<times> ('x, 'y, 'w) shell" where
  "run_err_trap E out err s =
     (if sh_in_trap s then ((out, err), s)
      else case se_trap E (lit ''ERR'') (sh_scoped s) of
             None \<Rightarrow> ((out, err), s)
           | Some text \<Rightarrow>
               (case se_parse_trap E text s of
                  (None, s) \<Rightarrow> ((out, err), s)
                | (Some m, s) \<Rightarrow>
                    (case m (s\<lparr>sh_in_trap := True\<rparr>) of
                       (Inl e, s') \<Rightarrow> ((out, err), s'\<lparr>sh_in_trap := False\<rparr>)
                     | (Inr r, s') \<Rightarrow>
                         ((stream_append out (er_stdout r), stream_append err (er_stderr r)),
                          maybe_emit_output E (er_stdout r) (er_stderr r) (sh_emit_count s) (s'\<lparr>sh_in_trap := False\<rparr>)))))"


section \<open>Pipelines\<close>

text \<open>A simple command reads the output before it as its standard input; any other command finds it in \<open>sh_stdin\<close>.\<close>

definition run_stage :: "('x, 'y, 'w) shell_env \<Rightarrow> command \<times> ('x, 'y, 'w) run \<Rightarrow> stream_data option \<Rightarrow> ('x, 'y, 'w) run" where
  "run_stage E stage input =
     (case fst stage of
        Simple _ _ _ _ _ \<Rightarrow>
          sh_bind (charge_work E 1) (\<lambda>_. sh_bind (counting (tick_command (se_limits E))) (\<lambda>_. se_simple E (fst stage) input))
      | _ \<Rightarrow> (\<lambda>s. case snd stage (s\<lparr>sh_stdin := input\<rparr>) of
                   (Inl e, s') \<Rightarrow> (Err e, s')
                 | (Inr r, s') \<Rightarrow> (Ok r, s'\<lparr>sh_stdin := sh_stdin s\<rparr>)))"

fun pipeline_loop ::
  "('x, 'y, 'w) shell_env \<Rightarrow> (command \<times> ('x, 'y, 'w) run) list \<Rightarrow> stream_data option \<Rightarrow> stream_data \<Rightarrow> i32 list \<Rightarrow>
   exec_result \<Rightarrow> (exec_result \<times> stream_data \<times> i32 list, 'x, 'y, 'w) act" where
  "pipeline_loop E [] input err statuses final = sh_return (final, err, statuses)"
| "pipeline_loop E (stage # stages) input err statuses final =
     sh_bind (run_stage E stage input) (\<lambda>r.
       let statuses = statuses @ [er_exit_code r]; err = stream_append err (er_stderr r)
       in if stages = [] then sh_return (r, err, statuses)
          else pipeline_loop E stages (Some (er_stdout r)) err statuses final)"

definition run_pipeline :: "('x, 'y, 'w) shell_env \<Rightarrow> bool \<Rightarrow> (command \<times> ('x, 'y, 'w) run) list \<Rightarrow> ('x, 'y, 'w) run" where
  "run_pipeline E negated stages =
     sh_bind (pipeline_loop E stages None stream_new [] (result_ok stream_new)) (\<lambda>(r, err, statuses) s.
       let r = r\<lparr>er_stderr := err\<rparr>;
           s = s\<lparr>sh_pipestatus := statuses, sh_scoped := se_set_pipestatus E statuses (sh_scoped s)\<rparr>;
           r = (if sh_pipefail s
                then (case find (\<lambda>c. c \<noteq> 0) (rev statuses) of Some c \<Rightarrow> r\<lparr>er_exit_code := c\<rparr> | None \<Rightarrow> r) else r);
           r = (if negated then r\<lparr>er_exit_code := (if er_exit_code r = 0 then 1 else 0)\<rparr> else r)
       in (Ok r, s))"

section \<open>Lists\<close>

fun is_empty_sentinel :: "command \<Rightarrow> bool" where
  "is_empty_sentinel (Simple (Word parts _ _ _) args redirects assignments _) \<longleftrightarrow>
     parts = [Literal []] \<and> args = [] \<and> redirects = [] \<and> assignments = []"
| "is_empty_sentinel _ \<longleftrightarrow> False"

definition spawn_in_background ::
  "('x, 'y, 'w) shell_env \<Rightarrow> ('x, 'y, 'w) run \<Rightarrow> stream_data \<Rightarrow> stream_data \<Rightarrow> (stream_data \<times> stream_data, 'x, 'y, 'w) act" where
  "spawn_in_background E m out err =
     sh_bind (emitting E m) (\<lambda>r s.
       case job_spawn (result_with_code stream_new (er_exit_code r)) (sh_jobs s) of
         (i, t) \<Rightarrow> (Ok (stream_append out (er_stdout r), stream_append err (er_stderr r)),
                    s\<lparr>sh_jobs := t, sh_last_bg := Some i, sh_last_exit := 0\<rparr>))"

text \<open>A command of a list after the first: its operator, whether it is the empty command, how it runs.\<close>

type_synonym ('x, 'y, 'w) list_item = "list_operator \<times> bool \<times> ('x, 'y, 'w) run"

definition conditional_op :: "list_operator \<Rightarrow> bool" where
  "conditional_op op \<longleftrightarrow> op = OpAnd \<or> op = OpOr"

definition next_op :: "('x, 'y, 'w) list_item list \<Rightarrow> list_operator option" where
  "next_op rest = (case rest of (op, _) # _ \<Rightarrow> Some op | [] \<Rightarrow> None)"

text \<open>The loop over \<open>list.rest\<close>; \<open>carried\<close> is \<open>exit_code_from_conditional_context\<close>.\<close>

fun list_loop ::
  "('x, 'y, 'w) shell_env \<Rightarrow> ('x, 'y, 'w) list_item list \<Rightarrow> stream_data \<Rightarrow> stream_data \<Rightarrow> i32 \<Rightarrow> bool \<Rightarrow> ('x, 'y, 'w) run" where
  "list_loop E [] out err code carried s =
     (if sh_errexit s \<and> code \<noteq> 0 \<and> \<not> carried \<and> sh_condition_depth s = 0
      then (Ok (result_of out err code NoFlow False), s)
      else (Ok (result_of out err code NoFlow (carried \<and> code \<noteq> 0)), s))"
| "list_loop E ((op, sentinel, m) # rest) out err code carried s =
     (if sentinel then list_loop E rest out err code carried s
      else if op = OpSemicolon \<and> sh_errexit s \<and> code \<noteq> 0 \<and> \<not> carried
      then (Ok (result_of out err code NoFlow False), s)
      else let should_execute = (case op of OpAnd \<Rightarrow> code = 0 | OpOr \<Rightarrow> code \<noteq> 0 | _ \<Rightarrow> True)
           in if \<not> should_execute then list_loop E rest out err code True s
              else if next_op rest = Some OpBackground
              then sh_bind (spawn_in_background E m out err) (\<lambda>(out, err). list_loop E rest out err 0 False) s
              else sh_bind (emitting E m) (\<lambda>r s.
                     let out = stream_append out (er_stdout r); err = stream_append err (er_stderr r);
                         code = er_exit_code r; s = s\<lparr>sh_last_exit := code\<rparr>;
                         carried = ((case rest of (op', sentinel', _) # _ \<Rightarrow> \<not> sentinel' \<and> conditional_op op' | [] \<Rightarrow> False) \<or>
                                    er_errexit_suppressed r)
                     in if er_flow r \<noteq> NoFlow then (Ok (result_of out err code (er_flow r) False), s)
                        else if code \<noteq> 0 \<and> \<not> carried \<and> sh_condition_depth s = 0
                        then (case run_err_trap E out err s of ((out, err), s) \<Rightarrow> list_loop E rest out err code carried s)
                        else list_loop E rest out err code carried s) s)"

definition run_list :: "('x, 'y, 'w) shell_env \<Rightarrow> ('x, 'y, 'w) run \<Rightarrow> ('x, 'y, 'w) list_item list \<Rightarrow> ('x, 'y, 'w) run" where
  "run_list E first rest =
     (if next_op rest = Some OpBackground
      then sh_bind (spawn_in_background E first stream_new stream_new) (\<lambda>(out, err). list_loop E rest out err 0 False)
      else sh_bind (emitting E first) (\<lambda>r s.
             let out = stream_append stream_new (er_stdout r); err = stream_append stream_new (er_stderr r);
                 code = er_exit_code r; s = s\<lparr>sh_last_exit := code\<rparr>;
                 carried = (er_errexit_suppressed r \<or> (case next_op rest of Some op \<Rightarrow> conditional_op op | None \<Rightarrow> False))
             in if er_flow r \<noteq> NoFlow then (Ok (result_of out err code (er_flow r) False), s)
                else if code \<noteq> 0 \<and> next_op rest = Some OpSemicolon \<and> sh_condition_depth s = 0
                then (case run_err_trap E out err s of ((out, err), s) \<Rightarrow> list_loop E rest out err code carried s)
                else list_loop E rest out err code carried s))"


section \<open>Conditionals\<close>

definition with_output_before :: "stream_data \<Rightarrow> stream_data \<Rightarrow> exec_result \<Rightarrow> exec_result" where
  "with_output_before out err r = r\<lparr>er_stdout := stream_append out (er_stdout r), er_stderr := stream_append err (er_stderr r)\<rparr>"

text \<open>A condition with its branch, both as lists of runs.\<close>

type_synonym ('x, 'y, 'w) branch = "('x, 'y, 'w) run list \<times> ('x, 'y, 'w) run list"

fun if_loop ::
  "('x, 'y, 'w) shell_env \<Rightarrow> ('x, 'y, 'w) branch list \<Rightarrow> ('x, 'y, 'w) run list option \<Rightarrow> stream_data \<Rightarrow> stream_data \<Rightarrow> ('x, 'y, 'w) run" where
  "if_loop E [] otherwise out err =
     (case otherwise of
        Some ms \<Rightarrow> sh_bind (run_sequence E ms) (\<lambda>r. sh_return (with_output_before out err r))
      | None \<Rightarrow> sh_return (result_of out err 0 NoFlow False))"
| "if_loop E ((condition, body) # branches) otherwise out err =
     sh_bind (run_condition E condition) (\<lambda>c.
       let out = stream_append out (er_stdout c); err = stream_append err (er_stderr c)
       in if er_exit_code c = 0 then sh_bind (run_sequence E body) (\<lambda>r. sh_return (with_output_before out err r))
          else if_loop E branches otherwise out err)"

definition run_if ::
  "('x, 'y, 'w) shell_env \<Rightarrow> ('x, 'y, 'w) run list \<Rightarrow> ('x, 'y, 'w) run list \<Rightarrow> ('x, 'y, 'w) branch list \<Rightarrow>
   ('x, 'y, 'w) run list option \<Rightarrow> ('x, 'y, 'w) run" where
  "run_if E condition body elifs otherwise = if_loop E ((condition, body) # elifs) otherwise stream_new stream_new"

fun match_patterns :: "('x, 'y, 'w) shell_env \<Rightarrow> rstr \<Rightarrow> word list \<Rightarrow> (bool, 'x, 'y, 'w) act" where
  "match_patterns E value [] = sh_return False"
| "match_patterns E value (p # ps) =
     sh_bind (se_expand E p) (\<lambda>text s. if se_matches E value text s then (Ok True, s) else match_patterns E value ps s)"

fun case_loop ::
  "('x, 'y, 'w) shell_env \<Rightarrow> rstr \<Rightarrow> (word list \<times> ('x, 'y, 'w) run list \<times> case_terminator) list \<Rightarrow> bool \<Rightarrow>
   stream_data \<Rightarrow> stream_data \<Rightarrow> i32 \<Rightarrow> ('x, 'y, 'w) run" where
  "case_loop E value [] fallthrough out err code = sh_return (result_of out err code NoFlow False)"
| "case_loop E value ((patterns, body, terminator) # items) fallthrough out err code =
     sh_bind (if fallthrough then sh_return True else match_patterns E value patterns) (\<lambda>matched.
       if \<not> matched then case_loop E value items fallthrough out err code
       else sh_bind (run_sequence E body) (\<lambda>r.
              let out = stream_append out (er_stdout r); err = stream_append err (er_stderr r); code = er_exit_code r
              in if er_flow r \<noteq> NoFlow then sh_return (result_of out err code (er_flow r) False)
                 else case terminator of
                        CtBreak \<Rightarrow> sh_return (result_of out err code NoFlow False)
                      | CtFallThrough \<Rightarrow> case_loop E value items True out err code
                      | CtContinue \<Rightarrow> case_loop E value items False out err code))"

definition run_case ::
  "('x, 'y, 'w) shell_env \<Rightarrow> word \<Rightarrow> (word list \<times> ('x, 'y, 'w) run list \<times> case_terminator) list \<Rightarrow> ('x, 'y, 'w) run" where
  "run_case E w items = sh_bind (se_expand E w) (\<lambda>value. case_loop E value items False stream_new stream_new 0)"

section \<open>Loops\<close>

definition in_loop :: "('x, 'y, 'w) run \<Rightarrow> ('x, 'y, 'w) run" where
  "in_loop m s =
     (case m (s\<lparr>sh_counters := enter_loop (sh_counters s)\<rparr>) of (r, s') \<Rightarrow> (r, s'\<lparr>sh_counters := exit_loop (sh_counters s')\<rparr>))"

definition tick_loop_run :: "('x, 'y, 'w) shell_env \<Rightarrow> (unit, 'x, 'y, 'w) act" where
  "tick_loop_run E = counting (tick_loop (se_limits E))"

text \<open>The body once, with what the accumulator makes of its result; the flag is \<open>should_errexit\<close>.\<close>

definition loop_turn ::
  "('x, 'y, 'w) shell_env \<Rightarrow> ('x, 'y, 'w) run list \<Rightarrow> loop_accumulator \<Rightarrow> (loop_action \<times> bool \<times> loop_accumulator, 'x, 'y, 'w) act" where
  "loop_turn E body acc =
     sh_bind (emitting E (run_sequence E body)) (\<lambda>r s.
       let stop = sh_errexit s \<and> er_exit_code r \<noteq> 0 \<and> er_flow r = NoFlow \<and> \<not> er_errexit_suppressed r
       in case accumulate r acc of (action, acc) \<Rightarrow> (Ok (action, stop, acc), s))"

definition loop_ends :: "loop_action \<Rightarrow> bool \<Rightarrow> loop_accumulator \<Rightarrow> exec_result option" where
  "loop_ends action stop acc =
     (case action of
        LaNone \<Rightarrow> if stop then Some (acc_finish acc) else None
      | LaContinue \<Rightarrow> None
      | LaBreak \<Rightarrow> Some (acc_finish acc)
      | LaExit r \<Rightarrow> Some r)"

fun glob_items ::
  "('x, 'y, 'w) shell_env \<Rightarrow> rstr list \<Rightarrow> ('x, 'y, 'w) shell \<Rightarrow> (rstr + rstr list) \<times> ('x, 'y, 'w) shell" where
  "glob_items E [] s = (Ok [], s)"
| "glob_items E (item # items) s =
     (case se_glob_item E item s of
        (Inl pat, s) \<Rightarrow> (Err pat, s)
      | (Inr xs, s) \<Rightarrow> (case glob_items E items s of (Inl pat, s) \<Rightarrow> (Err pat, s) | (Inr ys, s) \<Rightarrow> (Ok (xs @ ys), s)))"

fun skips_globbing :: "word \<Rightarrow> bool" where
  "skips_globbing (Word parts is_quoted unquoted_glob part_quoted) \<longleftrightarrow> is_quoted \<and> \<not> unquoted_glob"

text \<open>The values of a loop, or the pattern that matches nothing.\<close>

fun loop_values :: "('x, 'y, 'w) shell_env \<Rightarrow> word list \<Rightarrow> rstr list \<Rightarrow> (rstr + rstr list, 'x, 'y, 'w) act" where
  "loop_values E [] vals = sh_return (Ok vals)"
| "loop_values E (w # ws) vals =
     sh_bind (se_fields E w) (\<lambda>fs s.
       if skips_globbing w then loop_values E ws (vals @ fs) s
       else case glob_items E (concat (map expand_braces fs)) s of
              (Inl pat, s) \<Rightarrow> (Ok (Err pat), s)
            | (Inr items, s) \<Rightarrow> loop_values E ws (vals @ items) s)"

definition no_match :: "rstr \<Rightarrow> ('x, 'y, 'w) run" where
  "no_match pat s = (Ok (result_err (stream_of_string (lit ''-bash: no match: '' @ pat @ [10])) 1), s\<lparr>sh_last_exit := 1\<rparr>)"

fun for_loop ::
  "('x, 'y, 'w) shell_env \<Rightarrow> rstr \<Rightarrow> ('x, 'y, 'w) run list \<Rightarrow> rstr list \<Rightarrow> loop_accumulator \<Rightarrow> ('x, 'y, 'w) run" where
  "for_loop E var body [] acc = sh_return (acc_finish acc)"
| "for_loop E var body (v # vs) acc =
     sh_bind (tick_loop_run E) (\<lambda>_. sh_bind (sh_modify (se_set_variable E var v)) (\<lambda>_.
       sh_bind (loop_turn E body acc) (\<lambda>(action, stop, acc).
         case loop_ends action stop acc of Some r \<Rightarrow> sh_return r | None \<Rightarrow> for_loop E var body vs acc)))"

definition run_for ::
  "('x, 'y, 'w) shell_env \<Rightarrow> rstr \<Rightarrow> word list option \<Rightarrow> ('x, 'y, 'w) run list \<Rightarrow> ('x, 'y, 'w) run" where
  "run_for E var ws body =
     (if \<not> is_valid_var_name var
      then sh_return (result_err (stream_of_string (lit ''bash: `'' @ var @ [39] @ lit '': not a valid identifier'' @ [10])) 1)
      else sh_bind (case ws of Some ws \<Rightarrow> loop_values E ws [] | None \<Rightarrow> (\<lambda>s. (Ok (Ok (se_positional E (sh_frames s))), s))) (\<lambda>values.
             case values of
               Inl pat \<Rightarrow> no_match pat
             | Inr vs \<Rightarrow> in_loop (for_loop E var body vs acc_new)))"

text \<open>The other loops run until a limit stops them; the fuel is more than the limit allows.\<close>

definition loop_fuel :: "('x, 'y, 'w) shell_env \<Rightarrow> nat" where
  "loop_fuel E = unat (max_loop_iterations (se_limits E)) + 2"

fun condition_loop ::
  "('x, 'y, 'w) shell_env \<Rightarrow> nat \<Rightarrow> ('x, 'y, 'w) run list \<Rightarrow> ('x, 'y, 'w) run list \<Rightarrow> bool \<Rightarrow> loop_accumulator \<Rightarrow> ('x, 'y, 'w) run" where
  "condition_loop E 0 condition body break_on_zero acc = sh_fail OutOfFuel"
| "condition_loop E (Suc n) condition body break_on_zero acc =
     sh_bind (tick_loop_run E) (\<lambda>_. sh_bind (emitting E (run_condition E condition)) (\<lambda>c.
       let acc = acc\<lparr>la_stdout := stream_append (la_stdout acc) (er_stdout c), la_stderr := stream_append (la_stderr acc) (er_stderr c)\<rparr>
       in if (er_exit_code c = 0) = break_on_zero then sh_return (acc_finish acc)
          else sh_bind (loop_turn E body acc) (\<lambda>(action, stop, acc).
                 case loop_ends action stop acc of
                   Some r \<Rightarrow> sh_return r | None \<Rightarrow> condition_loop E n condition body break_on_zero acc)))"

definition run_condition_loop ::
  "('x, 'y, 'w) shell_env \<Rightarrow> ('x, 'y, 'w) run list \<Rightarrow> ('x, 'y, 'w) run list \<Rightarrow> bool \<Rightarrow> ('x, 'y, 'w) run" where
  "run_condition_loop E condition body break_on_zero = in_loop (condition_loop E (loop_fuel E) condition body break_on_zero acc_new)"

fun arithmetic_loop ::
  "('x, 'y, 'w) shell_env \<Rightarrow> nat \<Rightarrow> rstr \<Rightarrow> rstr \<Rightarrow> ('x, 'y, 'w) run list \<Rightarrow> loop_accumulator \<Rightarrow> ('x, 'y, 'w) run" where
  "arithmetic_loop E 0 condition step body acc = sh_fail OutOfFuel"
| "arithmetic_loop E (Suc n) condition step body acc =
     sh_bind (tick_loop_run E) (\<lambda>_ s.
       if condition \<noteq> [] \<and> se_arith E condition s = 0 then (Ok (acc_finish acc), s)
       else sh_bind (loop_turn E body acc) (\<lambda>(action, stop, acc).
              case loop_ends action stop acc of
                Some r \<Rightarrow> sh_return r
              | None \<Rightarrow> sh_bind (sh_modify (if step = [] then (\<lambda>s. s) else se_arith_effects E step)) (\<lambda>_.
                          arithmetic_loop E n condition step body acc)) s)"

definition run_arithmetic_for ::
  "('x, 'y, 'w) shell_env \<Rightarrow> rstr \<Rightarrow> rstr \<Rightarrow> rstr \<Rightarrow> ('x, 'y, 'w) run list \<Rightarrow> ('x, 'y, 'w) run" where
  "run_arithmetic_for E init condition step body =
     sh_bind (sh_modify (if init = [] then (\<lambda>s. s) else se_arith_effects E init)) (\<lambda>_.
       in_loop (arithmetic_loop E (loop_fuel E) condition step body acc_new))"


section \<open>The menu loop\<close>

text \<open>
  A line of the standard input: the position of the newline is one of the text and cuts the bytes, which panics where it lies
  behind their end. \<open>None\<close> is the end of the input.
\<close>

definition select_line :: "(rstr option, 'x, 'y, 'w) act" where
  "select_line s =
     (case sh_stdin s of
        None \<Rightarrow> (Ok None, s)
      | Some data \<Rightarrow>
          if stream_len data = 0 then (Ok None, s)
          else if 10 \<in> set (sd_text data)
          then (let line = takeWhile (\<lambda>c. c \<noteq> 10) (sd_text data); start = byte_len line + 1
                in if stream_len data < start then (Err FlowPanic, s)
                   else (Ok (Some line), s\<lparr>sh_stdin := Some (stream_of_bytes (drop start (sd_bytes data)))\<rparr>))
          else (Ok (Some (sd_text data)), s\<lparr>sh_stdin := Some stream_new\<rparr>))"

definition menu_text :: "rstr list \<Rightarrow> rstr" where
  "menu_text vals =
     concat (map (\<lambda>(i, v). (if i = 0 then [] else [10]) @ nat_to_string (i + 1) @ lit '') '' @ v) (zip [0..<length vals] vals))"

definition selected_value :: "rstr list \<Rightarrow> rstr \<Rightarrow> rstr" where
  "selected_value vals line =
     (case parse_u64 (trim line) of
        Some n \<Rightarrow> if 1 \<le> n \<and> n \<le> length vals then vals ! (n - 1) else []
      | None \<Rightarrow> [])"

fun select_loop ::
  "('x, 'y, 'w) shell_env \<Rightarrow> nat \<Rightarrow> rstr \<Rightarrow> rstr list \<Rightarrow> rstr \<Rightarrow> ('x, 'y, 'w) run list \<Rightarrow>
   stream_data \<Rightarrow> stream_data \<Rightarrow> i32 \<Rightarrow> ('x, 'y, 'w) run" where
  "select_loop E 0 var vals ps3 body out err code = sh_fail OutOfFuel"
| "select_loop E (Suc n) var vals ps3 body out err code =
     sh_bind (tick_loop_run E) (\<lambda>_.
       let err = stream_append_text (stream_push_byte (stream_append_text err (menu_text vals)) 10) ps3
       in sh_bind select_line (\<lambda>line.
            case line of
              None \<Rightarrow> sh_return (result_of (stream_push_byte out 10) err 1 NoFlow False)
            | Some line \<Rightarrow>
                sh_bind (sh_modify (\<lambda>s. se_insert_variable E var (selected_value vals line) (se_insert_variable E (lit ''REPLY'') line s))) (\<lambda>_.
                sh_bind (emitting E (run_sequence E body)) (\<lambda>r.
                  let out = stream_append out (er_stdout r); err = stream_append err (er_stderr r); code = er_exit_code r
                  in case er_flow r of
                       Break n' \<Rightarrow> sh_return (if n' \<le> 1 then result_of out err code NoFlow False else result_of out err code (Break (n' - 1)) False)
                     | Continue n' \<Rightarrow>
                         if n' \<le> 1 then select_loop E n var vals ps3 body out err code
                         else sh_return (result_of out err code (Continue (n' - 1)) False)
                     | Return c \<Rightarrow> sh_return (result_of out err c (Return c) False)
                     | Exit c \<Rightarrow> sh_return (result_of out err c (Exit c) False)
                     | NoFlow \<Rightarrow> select_loop E n var vals ps3 body out err code))))"

definition run_select :: "('x, 'y, 'w) shell_env \<Rightarrow> rstr \<Rightarrow> word list \<Rightarrow> ('x, 'y, 'w) run list \<Rightarrow> ('x, 'y, 'w) run" where
  "run_select E var ws body =
     sh_bind (loop_values E ws []) (\<lambda>values.
       case values of
         Inl pat \<Rightarrow> no_match pat
       | Inr vals \<Rightarrow>
           if vals = [] then sh_return (result_of stream_new stream_new 0 NoFlow False)
           else (\<lambda>s. in_loop (select_loop E (loop_fuel E) var vals
                   (case se_variable E (lit ''PS3'') (sh_scoped s) of Some t \<Rightarrow> t | None \<Rightarrow> lit ''#? '') body stream_new stream_new 0) s))"

section \<open>Subshells and substitutions\<close>

text \<open>\<open>snapshot_subshell_state\<close> and \<open>restore_subshell_state\<close>.\<close>

definition restore_subshell_state :: "('x, 'y, 'w) shell \<Rightarrow> ('x, 'y, 'w) shell \<Rightarrow> ('x, 'y, 'w) shell" where
  "restore_subshell_state snap s =
     s\<lparr>sh_scoped := sh_scoped snap, sh_functions := sh_functions snap, sh_memory := sh_memory snap, sh_errexit := sh_errexit snap,
       sh_pipefail := sh_pipefail snap, sh_last_bg := sh_last_bg snap\<rparr>"

text \<open>The trap for \<open>EXIT\<close>, if the subshell has set one of its own.\<close>

definition own_exit_trap :: "('x, 'y, 'w) shell_env \<Rightarrow> ('x, 'y, 'w) shell \<Rightarrow> ('x, 'y, 'w) shell \<Rightarrow> rstr option" where
  "own_exit_trap E snap s =
     (case se_trap E (lit ''EXIT'') (sh_scoped s) of
        Some text \<Rightarrow> if se_trap E (lit ''EXIT'') (sh_scoped snap) = Some text then None else Some text
      | None \<Rightarrow> None)"

definition subshell_exit_trap ::
  "('x, 'y, 'w) shell_env \<Rightarrow> ('x, 'y, 'w) shell \<Rightarrow> flow_error + exec_result \<Rightarrow> ('x, 'y, 'w) run" where
  "subshell_exit_trap E snap result s =
     (case own_exit_trap E snap s of
        None \<Rightarrow> (result, s)
      | Some text \<Rightarrow>
          (case se_parse_trap E text s of
             (None, s) \<Rightarrow> (result, s)
           | (Some m, s) \<Rightarrow>
               (case result of
                  Inl e \<Rightarrow> (result, s)
                | Inr r \<Rightarrow>
                    (case emitting E m s of
                       (Inl e, s) \<Rightarrow> (result, s)
                     | (Inr t, s) \<Rightarrow>
                         (Ok (r\<lparr>er_stdout := stream_append (er_stdout r) (er_stdout t), er_stderr := stream_append (er_stderr r) (er_stderr t)\<rparr>), s)))))"

definition leave_subshell :: "exec_result \<Rightarrow> exec_result" where
  "leave_subshell r =
     (case er_flow r of
        Exit code \<Rightarrow> r\<lparr>er_exit_code := code, er_flow := NoFlow, er_errexit_suppressed := False\<rparr>
      | Return code \<Rightarrow> r\<lparr>er_exit_code := code, er_flow := NoFlow, er_errexit_suppressed := False\<rparr>
      | _ \<Rightarrow> r\<lparr>er_errexit_suppressed := False\<rparr>)"

definition run_subshell :: "('x, 'y, 'w) shell_env \<Rightarrow> ('x, 'y, 'w) run list \<Rightarrow> ('x, 'y, 'w) run" where
  "run_subshell E body =
     sh_bind (counting (push_subshell (se_limits E))) (\<lambda>_ snap.
       case run_sequence E body snap of
         (result, s) \<Rightarrow>
           (case subshell_exit_trap E snap result s of
              (result, s) \<Rightarrow>
                (map_sum id leave_subshell result,
                 (restore_subshell_state snap s)\<lparr>sh_frames := sh_frames snap, sh_last_exit := sh_last_exit snap,
                    sh_counters := pop_subshell (sh_counters s)\<rparr>)))"

text \<open>\<open>execute_cmd_subst\<close>, after its caller has counted the level: the first error leaves it at once.\<close>

fun subst_loop :: "('x, 'y, 'w) run list \<Rightarrow> rstr \<Rightarrow> (rstr, 'x, 'y, 'w) act" where
  "subst_loop [] text = sh_return text"
| "subst_loop (m # ms) text =
     sh_bind m (\<lambda>r s.
       let text = text @ command_substitution_text (er_stdout r); s = s\<lparr>sh_last_exit := er_exit_code r\<rparr>
       in case er_flow r of Exit _ \<Rightarrow> (Ok text, s) | _ \<Rightarrow> subst_loop ms text s)"

definition trim_newlines :: "rstr \<Rightarrow> rstr" where
  "trim_newlines text = rev (dropWhile (\<lambda>c. c = 10) (rev text))"

definition execute_cmd_subst :: "('x, 'y, 'w) shell_env \<Rightarrow> ('x, 'y, 'w) run list \<Rightarrow> (rstr, 'x, 'y, 'w) act" where
  "execute_cmd_subst E body snap =
     sh_bind (subst_loop body []) (\<lambda>text s.
       let (text, s) = (case own_exit_trap E snap s of
                          None \<Rightarrow> (text, s)
                        | Some trap \<Rightarrow>
                            (case se_parse_trap E trap s of
                               (None, s) \<Rightarrow> (text, s)
                             | (Some m, s) \<Rightarrow>
                                 (case run_captured m s of
                                    (Inl e, s) \<Rightarrow> (text, s)
                                  | (Inr t, s) \<Rightarrow> (text @ command_substitution_text (er_stdout t), s))))
       in (Ok (trim_newlines text), (restore_subshell_state snap s)\<lparr>sh_counters := pop_subst (sh_counters s)\<rparr>)) snap"

section \<open>Coprocesses and timing\<close>

text \<open>\<open>str::lines\<close>\<close>

fun split_lines :: "rstr \<Rightarrow> rstr list" where
  "split_lines [] = []"
| "split_lines (c # s) =
     (if c = 10 then [] # split_lines s
      else (case split_lines s of
              [] \<Rightarrow> [[c]]
            | l # ls \<Rightarrow> (c # l) # ls))"

definition str_lines :: "rstr \<Rightarrow> rstr list" where
  "str_lines s =
     (let ls = split_lines s; ended = (s \<noteq> [] \<and> last s = 10);
          strip = (\<lambda>l. if l \<noteq> [] \<and> last l = 13 then butlast l else l)
      in if ended \<or> ls = [] then map strip ls else map strip (butlast ls) @ [last ls])"

definition run_coproc :: "('x, 'y, 'w) shell_env \<Rightarrow> rstr \<Rightarrow> ('x, 'y, 'w) run \<Rightarrow> ('x, 'y, 'w) run" where
  "run_coproc E name body s =
     (let read_fd = sh_coproc_next_fd s; write_fd = sh_coproc_next_fd s - 1
      in case run_captured body (s\<lparr>sh_coproc_next_fd := sh_coproc_next_fd s - 2\<rparr>) of
           (Inl e, s') \<Rightarrow> (Err e, s')
         | (Inr r, s') \<Rightarrow>
             (let pid = (case jt_last_job_id (sh_jobs s') of Some i \<Rightarrow> i | None \<Rightarrow> 0) + 1000;
                  (x, y) = se_coproc_store E name read_fd write_fd (rev (str_lines (sd_text (er_stdout r)))) pid (sh_scoped s', sh_frames s')
              in (Ok (result_ok stream_new), s'\<lparr>sh_scoped := x, sh_frames := y, sh_last_bg := Some pid\<rparr>)))"

definition append_time_stderr :: "('x, 'y, 'w) shell_env \<Rightarrow> exec_result \<Rightarrow> rstr \<Rightarrow> ('x, 'y, 'w) run" where
  "append_time_stderr E r message s =
     (Ok (r\<lparr>er_stderr := stream_append_text (er_stderr r) message\<rparr>),
      maybe_emit_output E stream_new (stream_of_string message) (sh_emit_count s) s)"

definition time_failure :: "rstr \<Rightarrow> i32 \<Rightarrow> exec_result" where
  "time_failure message code = result_err (stream_of_string (lit ''time: '' @ message @ [10])) code"

definition fail_time :: "('x, 'y, 'w) shell_env \<Rightarrow> exec_result \<Rightarrow> rstr \<Rightarrow> ('x, 'y, 'w) run" where
  "fail_time E r message = sh_bind (append_time_stderr E r message) (\<lambda>r. sh_return (r\<lparr>er_exit_code := 1\<rparr>))"

text \<open>What the command has used since \<open>s0\<close>, and the report of it.\<close>

definition usage_since :: "('x, 'y, 'w) shell_env \<Rightarrow> ('x, 'y, 'w) shell \<Rightarrow> exec_result \<Rightarrow> ('x, 'y, 'w) shell \<Rightarrow> time_usage" where
  "usage_since E s0 r s =
     (let elapsed = se_elapsed E (sh_world s0) (sh_world s);
          elapsed = (if se_hardened_timing E then elapsed div 1000000 div 100 * 100 * 1000000 else elapsed)
      in \<lparr>tu_elapsed = elapsed, tu_exit_status = sint (er_exit_code r),
          tu_commands = sat_sub (commands (sh_counters s)) (commands (sh_counters s0)),
          tu_loops = sat_sub (total_loop_iterations (sh_counters s)) (total_loop_iterations (sh_counters s0)),
          tu_work_units = sat_sub (b_work_units (sh_budget s)) (b_work_units (sh_budget s0))\<rparr>)"

definition time_report :: "('x, 'y, 'w) shell_env \<Rightarrow> rstr option \<Rightarrow> bool \<Rightarrow> bool \<Rightarrow> time_usage \<Rightarrow> report" where
  "time_report E format verbose posix u =
     (case format of
        Some f \<Rightarrow> render_time_format (se_floats E) f u (max_stderr_bytes (se_limits E))
      | None \<Rightarrow>
          if verbose then Ok (verbose_time_report (se_floats E) u)
          else if posix
          then Ok (lit ''real '' @ ft_seconds (se_floats E) (tu_elapsed u) @ [10] @ lit ''user unavailable'' @ [10] @ lit ''sys unavailable'' @ [10])
          else Ok ([10] @ lit ''real'' @ [9] @ ft_minutes (se_floats E) (tu_elapsed u) @ [10] @
                   lit ''user'' @ [9] @ lit ''unavailable'' @ [10] @ lit ''sys'' @ [9] @ lit ''unavailable'' @ [10]))"

definition finish_time ::
  "('x, 'y, 'w) shell_env \<Rightarrow> rstr option \<Rightarrow> rstr option \<Rightarrow> bool \<Rightarrow> bool \<Rightarrow> bool \<Rightarrow> ('x, 'y, 'w) shell \<Rightarrow> exec_result \<Rightarrow> ('x, 'y, 'w) run" where
  "finish_time E format output appending verbose posix s0 r s =
     (let too_long = lit ''time: formatted report exceeds output limit'' @ [10]
      in case time_report E format verbose posix (usage_since E s0 r s) of
           Inl ReportTooLong \<Rightarrow> fail_time E r too_long s
         | Inl RenderPanic \<Rightarrow> (Err FlowPanic, s)
         | Inr report \<Rightarrow>
             if unat (max_stderr_bytes (se_limits E)) < byte_len report then fail_time E r too_long s
             else (case output of
                     None \<Rightarrow> append_time_stderr E r report s
                   | Some path \<Rightarrow>
                       (case se_write_report E path report appending s of
                          (True, s) \<Rightarrow> (Ok r, s)
                        | (False, s) \<Rightarrow>
                            fail_time E r (lit ''time: cannot write output file '' @ [39] @ sanitize_time_path path @ [39, 10]) s)))"

definition run_time ::
  "('x, 'y, 'w) shell_env \<Rightarrow> bool \<Rightarrow> word option \<Rightarrow> word option \<Rightarrow> bool \<Rightarrow> bool \<Rightarrow> rstr option \<Rightarrow> ('x, 'y, 'w) run option \<Rightarrow> ('x, 'y, 'w) run" where
  "run_time E posix format output appending verbose option_error body =
     (case option_error of
        Some message \<Rightarrow> sh_return (time_failure message 2)
      | None \<Rightarrow>
          if appending \<and> output = None
          then sh_return (result_err (stream_of_string (lit ''time: option '' @ [39] @ lit ''-a/--append'' @ [39] @ lit '' requires '' @ [39] @
                 lit ''-o/--output'' @ [39, 10])) 2)
          else sh_bind (case format of None \<Rightarrow> sh_return None | Some w \<Rightarrow> sh_bind (se_expand E w) (\<lambda>f. sh_return (Some f))) (\<lambda>f.
            case (case f of None \<Rightarrow> Ok () | Some f \<Rightarrow> validate_time_format f) of
              Inl field \<Rightarrow>
                sh_return (time_failure (lit ''unsupported format field '' @ [39] @ field @ [39]) 2)
            | Inr _ \<Rightarrow>
                if output \<noteq> None \<and> se_logic_only E
                then sh_return (time_failure (lit ''output files disabled in logic-only shell'') 1)
                else sh_bind (case output of None \<Rightarrow> sh_return None | Some w \<Rightarrow> sh_bind (se_expand E w) (\<lambda>p. sh_return (Some p))) (\<lambda>path s0.
                  sh_bind (case body of Some m \<Rightarrow> m | None \<Rightarrow> sh_return (result_ok stream_new))
                    (finish_time E f path appending verbose posix s0) s0)))"


section \<open>Commands\<close>

definition compound_line :: "compound_command \<Rightarrow> nat" where
  "compound_line c =
     (case c of
        IfCommand _ _ _ _ sp \<Rightarrow> pos_line (span_start sp)
      | ForCommand _ _ _ sp \<Rightarrow> pos_line (span_start sp)
      | ArithmeticForCommand _ _ _ _ sp \<Rightarrow> pos_line (span_start sp)
      | WhileCommand _ _ sp \<Rightarrow> pos_line (span_start sp)
      | UntilCommand _ _ sp \<Rightarrow> pos_line (span_start sp)
      | CaseCommand _ _ sp \<Rightarrow> pos_line (span_start sp)
      | SelectCommand _ _ _ sp \<Rightarrow> pos_line (span_start sp)
      | TimeCommand _ _ _ _ _ _ _ sp \<Rightarrow> pos_line (span_start sp)
      | CoprocCommand _ _ sp \<Rightarrow> pos_line (span_start sp)
      | _ \<Rightarrow> 1)"

definition command_line :: "command \<Rightarrow> nat" where
  "command_line c =
     (case c of
        Simple _ _ _ _ sp \<Rightarrow> pos_line (span_start sp)
      | Pipeline _ _ sp \<Rightarrow> pos_line (span_start sp)
      | CommandList _ _ sp \<Rightarrow> pos_line (span_start sp)
      | Compound cc _ \<Rightarrow> compound_line cc
      | FunctionDef _ _ _ sp \<Rightarrow> pos_line (span_start sp))"

definition begin_command :: "('x, 'y, 'w) shell_env \<Rightarrow> command \<Rightarrow> ('x, 'y, 'w) run \<Rightarrow> ('x, 'y, 'w) run" where
  "begin_command E c m =
     sh_bind (check_cancelled E) (\<lambda>_. sh_bind (sh_modify (\<lambda>s. s\<lparr>sh_line := command_line c\<rparr>)) (\<lambda>_.
     sh_bind (charge_work E 1) (\<lambda>_. sh_bind (counting (tick_command (se_limits E))) (\<lambda>_. sh_bind (check_session E) (\<lambda>_. m)))))"

fun redirect_kind_of :: "redirect \<Rightarrow> redirect_kind" where
  "redirect_kind_of (Redirect fd var kind target) = kind"

definition has_output_redirect :: "redirect list \<Rightarrow> bool" where
  "has_output_redirect rs \<longleftrightarrow> list_ex (\<lambda>r. redirect_kind_of r \<notin> {RedInput, HereDoc, HereString}) rs"

definition captures_pending_fd :: "redirect list \<Rightarrow> bool" where
  "captures_pending_fd rs \<longleftrightarrow>
     list_ex (\<lambda>r. redirect_kind_of r = DupOutput) rs \<and>
     list_ex (\<lambda>r. redirect_kind_of r \<in> {RedOutput, RedClobber, RedAppend, OutputBoth}) rs"

text \<open>The state in which the body of a compound command runs, and what is put back after it.\<close>

definition enter_redirects :: "('x, 'y, 'w) shell_env \<Rightarrow> redirect list \<Rightarrow> stream_data option \<Rightarrow> ('x, 'y, 'w) shell \<Rightarrow> ('x, 'y, 'w) shell" where
  "enter_redirects E rs input s =
     (let s = (case input of Some _ \<Rightarrow> s\<lparr>sh_stdin := input\<rparr> | None \<Rightarrow> s);
          s = (if has_output_redirect rs then s\<lparr>sh_callback := False\<rparr> else s)
      in if captures_pending_fd rs
         then (let s = (if sh_capture_depth s = 0 then s\<lparr>sh_world := se_clear_pending E (sh_world s)\<rparr> else s)
               in s\<lparr>sh_capture_depth := sh_capture_depth s + 1\<rparr>)
         else s)"

definition end_capture :: "('x, 'y, 'w) shell_env \<Rightarrow> redirect list \<Rightarrow> bool \<Rightarrow> ('x, 'y, 'w) shell \<Rightarrow> ('x, 'y, 'w) shell" where
  "end_capture E rs failed s =
     (if captures_pending_fd rs
      then (let s = s\<lparr>sh_capture_depth := sh_capture_depth s - 1\<rparr>
            in if failed then s\<lparr>sh_world := se_clear_pending E (sh_world s)\<rparr> else s)
      else s)"

definition leave_redirects :: "redirect list \<Rightarrow> stream_data option \<Rightarrow> ('x, 'y, 'w) shell \<Rightarrow> ('x, 'y, 'w) shell \<Rightarrow> ('x, 'y, 'w) shell" where
  "leave_redirects rs input s0 s =
     (let s = (if has_output_redirect rs \<and> sh_callback s0 then s\<lparr>sh_callback := True\<rparr> else s)
      in case input of Some _ \<Rightarrow> s\<lparr>sh_stdin := sh_stdin s0\<rparr> | None \<Rightarrow> s)"

definition run_redirected :: "('x, 'y, 'w) shell_env \<Rightarrow> redirect list \<Rightarrow> ('x, 'y, 'w) run \<Rightarrow> ('x, 'y, 'w) run" where
  "run_redirected E rs body s =
     (case se_redirect_error E rs of
        Some err \<Rightarrow> (Ok (result_err (stream_of_string err) 1), s)
      | None \<Rightarrow>
          (case se_redirect_in E rs s of
             (Inl (CommandFailure msg), s) \<Rightarrow> (Ok (result_err (stream_of_string msg) 1), s)
           | (Inl e, s) \<Rightarrow> (Err e, s)
           | (Inr input, s) \<Rightarrow>
               (case body (enter_redirects E rs input s) of
                  (Inl e, s') \<Rightarrow> (Err e, end_capture E rs True s')
                | (Inr r, s') \<Rightarrow>
                    (let s' = leave_redirects rs input s (end_capture E rs False s')
                     in if rs = [] then (Ok r, s') else se_redirect_out E r rs s'))))"

definition function_storage_bytes :: "command \<Rightarrow> usize" where
  "function_storage_bytes c =
     (case c of
        FunctionDef name body source sp \<Rightarrow>
          (case source of
             Some text \<Rightarrow> of_nat (byte_len text)
           | None \<Rightarrow> of_nat (pos_offset (span_end sp) - pos_offset (span_start sp)))
      | _ \<Rightarrow> 0)"

definition define_function :: "('x, 'y, 'w) shell_env \<Rightarrow> rstr \<Rightarrow> command \<Rightarrow> ('x, 'y, 'w) run" where
  "define_function E name c s =
     (let body_bytes = function_storage_bytes c; is_new = \<not> contains_key (sh_functions s) name;
          old_bytes = (case map_of (sh_functions s) name of Some f \<Rightarrow> function_storage_bytes f | None \<Rightarrow> 0)
      in (Ok (result_ok stream_new),
          case check_function_insert body_bytes is_new old_bytes (se_memory_limits E) (sh_memory s) of
            Inr _ \<Rightarrow> s\<lparr>sh_memory := record_function_insert body_bytes is_new old_bytes (sh_memory s),
                       sh_functions := AList.update name c (sh_functions s)\<rparr>
          | Inl _ \<Rightarrow> s))"

primrec exec :: "('x, 'y, 'w) shell_env \<Rightarrow> command \<Rightarrow> ('x, 'y, 'w) run"
  and exec_compound :: "('x, 'y, 'w) shell_env \<Rightarrow> compound_command \<Rightarrow> ('x, 'y, 'w) run"
  and exec_case :: "('x, 'y, 'w) shell_env \<Rightarrow> case_item \<Rightarrow> word list \<times> ('x, 'y, 'w) run list \<times> case_terminator" where
  "exec E (Simple name args redirects assignments sp) =
     begin_command E (Simple name args redirects assignments sp) (se_simple E (Simple name args redirects assignments sp) None)"
| "exec E (Pipeline negated cs sp) =
     begin_command E (Pipeline negated cs sp) (run_pipeline E negated (zip cs (map (exec E) cs)))"
| "exec E (CommandList first rest sp) =
     begin_command E (CommandList first rest sp)
       (run_list E (exec E first)
         (map (\<lambda>((op, c), (_, m)). (op, is_empty_sentinel c, m)) (zip rest (map (map_prod id (exec E)) rest))))"
| "exec E (Compound c redirects) = begin_command E (Compound c redirects) (run_redirected E redirects (exec_compound E c))"
| "exec E (FunctionDef name body source sp) =
     begin_command E (FunctionDef name body source sp) (define_function E name (FunctionDef name body source sp))"
| "exec_compound E (IfCommand condition body elifs otherwise sp) =
     run_if E (map (exec E) condition) (map (exec E) body) (map (map_prod (map (exec E)) (map (exec E))) elifs)
       (map_option (map (exec E)) otherwise)"
| "exec_compound E (ForCommand var ws body sp) = run_for E var ws (map (exec E) body)"
| "exec_compound E (ArithmeticForCommand init condition step body sp) = run_arithmetic_for E init condition step (map (exec E) body)"
| "exec_compound E (WhileCommand condition body sp) = run_condition_loop E (map (exec E) condition) (map (exec E) body) False"
| "exec_compound E (UntilCommand condition body sp) = run_condition_loop E (map (exec E) condition) (map (exec E) body) True"
| "exec_compound E (CaseCommand w items sp) = run_case E w (map (exec_case E) items)"
| "exec_compound E (SelectCommand var ws body sp) = run_select E var ws (map (exec E) body)"
| "exec_compound E (Subshell cs) = run_subshell E (map (exec E) cs)"
| "exec_compound E (BraceGroup cs) = run_sequence E (map (exec E) cs)"
| "exec_compound E (Arithmetic text) = se_arith_command E text"
| "exec_compound E (TimeCommand posix format output appending verbose option_error body sp) =
     run_time E posix format output appending verbose option_error (map_option (exec E) body)"
| "exec_compound E (Conditional ws) = se_conditional E ws"
| "exec_compound E (CoprocCommand name body sp) = run_coproc E name (exec E body)"
| "exec_case E (CaseItem patterns body terminator) = (patterns, map (exec E) body, terminator)"

section \<open>Scripts\<close>

text \<open>Output is cut at the limit of the channel; the flag says that some is missing.\<close>

definition add_limited :: "nat \<Rightarrow> stream_data \<times> bool \<Rightarrow> stream_data \<Rightarrow> stream_data \<times> bool" where
  "add_limited limit acc piece =
     (if snd acc then acc
      else let remaining = limit - stream_len (fst acc)
           in if remaining = 0 then (fst acc, stream_len piece \<noteq> 0)
              else if stream_len piece \<le> remaining then (stream_append (fst acc) piece, False)
              else (stream_append (fst acc) (stream_prefix remaining piece), True))"

definition is_list_command :: "command \<Rightarrow> bool" where
  "is_list_command c \<longleftrightarrow> (case c of CommandList _ _ _ \<Rightarrow> True | _ \<Rightarrow> False)"

definition is_negated_pipeline :: "command \<Rightarrow> bool" where
  "is_negated_pipeline c \<longleftrightarrow> (case c of Pipeline negated _ _ \<Rightarrow> negated | _ \<Rightarrow> False)"

type_synonym script_output = "(stream_data \<times> bool) \<times> (stream_data \<times> bool) \<times> i32"

text \<open>The hook for \<open>exit\<close>: the code it settles on, or \<open>None\<close> when it cancels the exit.\<close>

definition exit_code_of_hook :: "('x, 'y, 'w) shell_env \<Rightarrow> bool \<Rightarrow> i32 \<Rightarrow> i32 \<Rightarrow> (i32 option, 'x, 'y, 'w) act" where
  "exit_code_of_hook E fire_exit_hook current code =
     (if \<not> fire_exit_hook then sh_return (Some current)
      else sh_bind (if se_exit_hooks E then charge_work E 100 else sh_return ()) (\<lambda>_ s.
             case se_fire_exit E code s of
               (None, s) \<Rightarrow> (Ok None, s)
             | (Some c, s) \<Rightarrow> (Ok (Some c), s\<lparr>sh_last_exit := c\<rparr>)))"

fun script_loop ::
  "('x, 'y, 'w) shell_env \<Rightarrow> bool \<Rightarrow> (command \<times> ('x, 'y, 'w) run) list \<Rightarrow> script_output \<Rightarrow> (script_output, 'x, 'y, 'w) act" where
  "script_loop E fire_exit_hook [] acc = sh_return acc"
| "script_loop E fire_exit_hook ((c, m) # rest) (out, err, code) =
     sh_bind (check_cancelled E) (\<lambda>_. sh_bind (emitting E m) (\<lambda>r s.
       let out = add_limited (unat (max_stdout_bytes (se_limits E))) out (er_stdout r);
           err = add_limited (unat (max_stderr_bytes (se_limits E))) err (er_stderr r);
           code = er_exit_code r; s = s\<lparr>sh_last_exit := code\<rparr>
       in case er_flow r of
            Exit n \<Rightarrow>
              sh_bind (exit_code_of_hook E fire_exit_hook code n) (\<lambda>settled.
                case settled of
                  Some code \<Rightarrow> sh_return (out, err, code)
                | None \<Rightarrow> script_loop E fire_exit_hook rest (out, err, code)) s
          | NoFlow \<Rightarrow>
              (let suppressed = (is_negated_pipeline c \<or> er_errexit_suppressed r);
                   (traps, s) = (if code \<noteq> 0 \<and> \<not> is_list_command c \<and> \<not> suppressed then run_err_trap E (fst out) (fst err) s
                                 else ((fst out, fst err), s));
                   out = (fst traps, snd out); err = (snd traps, snd err)
               in if sh_errexit s \<and> code \<noteq> 0 \<and> \<not> suppressed then (Ok (out, err, code), s)
                  else script_loop E fire_exit_hook rest (out, err, code) s)
          | _ \<Rightarrow> (Ok (out, err, code), s)))"

definition script_exit_trap :: "('x, 'y, 'w) shell_env \<Rightarrow> script_output \<Rightarrow> (script_output, 'x, 'y, 'w) act" where
  "script_exit_trap E acc s =
     (case se_trap E (lit ''EXIT'') (sh_scoped s) of
        None \<Rightarrow> (Ok acc, s)
      | Some text \<Rightarrow>
          (case se_parse_trap E text s of
             (None, s) \<Rightarrow> (Ok acc, s)
           | (Some m, s) \<Rightarrow>
               (case emitting E m s of
                  (Inl e, s) \<Rightarrow> (Ok acc, s)
                | (Inr t, s) \<Rightarrow>
                    (case acc of ((out, out_cut), (err, err_cut), code) \<Rightarrow>
                       (Ok ((stream_append out (er_stdout t), out_cut), (stream_append err (er_stderr t), err_cut), code), s)))))"

definition execute_script_body :: "('x, 'y, 'w) shell_env \<Rightarrow> command list \<Rightarrow> bool \<Rightarrow> bool \<Rightarrow> ('x, 'y, 'w) run" where
  "execute_script_body E cs run_exit_trap fire_exit_hook =
     sh_bind (script_loop E fire_exit_hook (zip cs (map (exec E) cs)) ((stream_new, False), (stream_new, False), 0)) (\<lambda>acc.
     sh_bind (if run_exit_trap then script_exit_trap E acc else sh_return acc) (\<lambda>((out, out_cut), (err, err_cut), code).
       sh_return ((result_of out err code NoFlow False)\<lparr>er_stdout_truncated := out_cut, er_stderr_truncated := err_cut\<rparr>)))"

definition execute :: "('x, 'y, 'w) shell_env \<Rightarrow> script \<Rightarrow> ('x, 'y, 'w) run" where
  "execute E script s =
     (case execute_script_body E (sc_commands script) True True s of
        (r, s') \<Rightarrow> (r, s'\<lparr>sh_jobs := snd (job_wait_all_results (sh_jobs s'))\<rparr>))"

end
