(* ===== verification/FlowBuiltins.thy ===== *)
theory FlowBuiltins
  imports ShellFlow
begin

text \<open>
  The builtin commands of \<open>builtins/flow.rs\<close>: they produce the control flow that loops, functions, subshells and scripts act on.
\<close>

definition parse_i32 :: "rstr \<Rightarrow> int option" where
  "parse_i32 s = (case parse_i64 s of Some v \<Rightarrow> if - (2 ^ 31) \<le> v \<and> v < 2 ^ 31 then Some v else None | None \<Rightarrow> None)"

definition colon_builtin :: "rstr list \<Rightarrow> exec_result" where
  "colon_builtin args = result_ok (stream_of_string [])"

definition true_builtin :: "rstr list \<Rightarrow> exec_result" where
  "true_builtin args = result_ok (stream_of_string [])"

definition false_builtin :: "rstr list \<Rightarrow> exec_result" where
  "false_builtin args = result_err (stream_of_string []) 1"

text \<open>The status named by the first argument, its lowest eight bits; 0 when there is none or it is no number.\<close>

definition status_argument :: "rstr list \<Rightarrow> i32" where
  "status_argument args =
     (case (case args of a # _ \<Rightarrow> parse_i32 a | [] \<Rightarrow> None) of Some v \<Rightarrow> word_of_int v | None \<Rightarrow> 0) AND 255"

definition level_argument :: "rstr list \<Rightarrow> u32" where
  "level_argument args = (case (case args of a # _ \<Rightarrow> parse_u32 a | [] \<Rightarrow> None) of Some n \<Rightarrow> of_nat n | None \<Rightarrow> 1)"

definition exit_builtin :: "rstr list \<Rightarrow> exec_result" where
  "exit_builtin args = default_result\<lparr>er_exit_code := status_argument args, er_flow := Exit (status_argument args)\<rparr>"

definition break_builtin :: "rstr list \<Rightarrow> exec_result" where
  "break_builtin args = result_with_control_flow (Break (level_argument args))"

definition continue_builtin :: "rstr list \<Rightarrow> exec_result" where
  "continue_builtin args = result_with_control_flow (Continue (level_argument args))"

definition return_builtin :: "rstr list \<Rightarrow> exec_result" where
  "return_builtin args = result_with_control_flow (Return (status_argument args))"

definition flow_builtin :: "rstr \<Rightarrow> (rstr list \<Rightarrow> exec_result) option" where
  "flow_builtin name =
     map_of [(lit '':'', colon_builtin), (lit ''true'', true_builtin), (lit ''false'', false_builtin), (lit ''exit'', exit_builtin),
             (lit ''break'', break_builtin), (lit ''continue'', continue_builtin), (lit ''return'', return_builtin)] name"

text \<open>A status is never more than 255, and it is the number written modulo 256.\<close>

lemma status_in_a_byte:
  "parse_i32 a = Some v \<Longrightarrow> uint (status_argument (a # args)) = v mod 256"
  "status_argument args \<le> 255"
proof -
  have mask: "x AND 255 = take_bit 8 x" for x :: i32
    using take_bit_eq_mask [of 8 x] by (simp add: mask_eq_exp_minus_1)
  show "parse_i32 a = Some v \<Longrightarrow> uint (status_argument (a # args)) = v mod 256"
  proof -
    have "uint (take_bit 8 (word_of_int v :: i32)) = take_bit 8 v" by (simp add: unsigned_take_bit_eq uint_word_of_int_eq)
    also have "\<dots> = v mod 256" by (simp add: take_bit_eq_mod)
    finally show "parse_i32 a = Some v \<Longrightarrow> uint (status_argument (a # args)) = v mod 256" by (simp add: status_argument_def mask)
  qed
  show "status_argument args \<le> 255"
    unfolding status_argument_def by (rule word_and_le1)
qed

end
