(* ===== verification/ShellDemo.thy ===== *)
theory ShellDemo
  imports FlowBuiltins
begin

text \<open>
  A small shell for the instances of the theorems: its simple commands are the builtins of \<open>builtins/flow.rs\<close>, \<open>set\<close>, which keeps its
  arguments, and the printing of any other name; words stand for themselves, there are no redirections and no traps.
\<close>

section \<open>The environment\<close>

fun demo_text :: "word \<Rightarrow> rstr" where
  "demo_text (Word [Literal t] a b c) = t"
| "demo_text _ = []"

type_synonym demo_shell = "(rstr list, unit, unit) shell"

definition demo_simple :: "command \<Rightarrow> stream_data option \<Rightarrow> (rstr list, unit, unit) run" where
  "demo_simple c input s =
     (case c of
        Simple name args _ _ _ \<Rightarrow>
          (case flow_builtin (demo_text name) of
             Some f \<Rightarrow> (Ok (f (map demo_text args)), s)
           | None \<Rightarrow>
               if demo_text name = lit ''set'' then (Ok (result_ok stream_new), s\<lparr>sh_scoped := map demo_text args\<rparr>)
               else (Ok (result_ok (stream_of_string (demo_text name @ [10]))), s))
      | _ \<Rightarrow> (Ok (result_ok stream_new), s))"

definition demo_limits :: execution_limits where
  "demo_limits = default_execution_limits\<lparr>max_loop_iterations := 2\<rparr>"

definition demo_env :: "(rstr list, unit, unit) shell_env" where
  "demo_env = \<lparr>
     se_limits = demo_limits, se_session_limits = default_session_limits, se_memory_limits = default_memory_limits,
     se_cancelled = \<lambda>_. False, se_budget_env = \<lambda>_. \<lparr>now = 0, cancelled = False\<rparr>, se_simple = demo_simple,
     se_fields = \<lambda>w s. (Ok [demo_text w], s), se_expand = \<lambda>w s. (Ok (demo_text w), s), se_glob_item = \<lambda>item s. (Ok [item], s),
     se_positional = \<lambda>_. [], se_variable = \<lambda>_ _. None, se_set_variable = \<lambda>_ _ s. s, se_insert_variable = \<lambda>_ _ s. s,
     se_matches = \<lambda>v p s. v = p, se_arith = \<lambda>_ _. 0, se_arith_effects = \<lambda>_ s. s,
     se_arith_command = \<lambda>_ s. (Ok (result_ok stream_new), s), se_conditional = \<lambda>_ s. (Ok (result_ok stream_new), s),
     se_redirect_error = \<lambda>_. None, se_redirect_in = \<lambda>_ s. (Ok None, s), se_redirect_out = \<lambda>r _ s. (Ok r, s),
     se_clear_pending = \<lambda>w. w, se_trap = \<lambda>_ _. None, se_parse_trap = \<lambda>_ s. (None, s), se_set_pipestatus = \<lambda>_ x. x,
     se_coproc_store = \<lambda>_ _ _ _ _ xy. xy, se_logic_only = False,
     se_floats = \<lparr>ft_seconds = \<lambda>_. [], ft_clock = \<lambda>_. [], ft_minutes = \<lambda>_. []\<rparr>, se_elapsed = \<lambda>_ _. 0, se_hardened_timing = False,
     se_write_report = \<lambda>_ _ _ s. (True, s), se_exit_hooks = False, se_fire_exit = \<lambda>c s. (Some c, s)\<rparr>"

definition demo_start :: demo_shell where
  "demo_start = \<lparr>
     sh_scoped = [], sh_functions = [],
     sh_memory = \<lparr>variable_count = 0, variable_bytes = 0, array_entries = 0, function_count = 0, function_body_bytes = 0\<rparr>,
     sh_errexit = False, sh_pipefail = False, sh_last_bg = None, sh_frames = (), sh_last_exit = 0, sh_counters = new_counters,
     sh_budget = new_budget \<lparr>now = 0, cancelled = False\<rparr> demo_limits, sh_condition_depth = 0, sh_in_trap = False, sh_stdin = None,
     sh_pipestatus = [], sh_jobs = jobs_new, sh_coproc_next_fd = 63, sh_capture_depth = 0, sh_line = 1, sh_callback = True,
     sh_emit_count = 0, sh_streamed_out = 0, sh_streamed_err = 0, sh_emitted = [], sh_world = ()\<rparr>"

definition demo_word :: "string \<Rightarrow> word" where
  "demo_word t = Word [Literal (lit t)] False False []"

definition demo_span :: span where
  "demo_span = \<lparr>span_start = \<lparr>pos_line = 1, pos_column = 1, pos_offset = 0\<rparr>, span_end = \<lparr>pos_line = 1, pos_column = 1, pos_offset = 0\<rparr>\<rparr>"

definition demo_cmd :: "string \<Rightarrow> string list \<Rightarrow> command" where
  "demo_cmd name args = Simple (demo_word name) (map demo_word args) [] [] demo_span"

lemma demo_env_simps [simp]:
  "se_limits demo_env = demo_limits" "se_session_limits demo_env = default_session_limits" "se_cancelled demo_env w = False"
  "se_budget_env demo_env w = \<lparr>now = 0, cancelled = False\<rparr>" "se_simple demo_env = demo_simple" "se_fields demo_env v s = (Ok [demo_text v], s)"
  "se_glob_item demo_env item s = (Ok [item], s)" "se_set_variable demo_env name t s = s" "se_redirect_error demo_env rs = None"
  "se_redirect_in demo_env rs s = (Ok None, s)" "se_trap demo_env name x = None" "se_set_pipestatus demo_env cs x = x"
  "se_exit_hooks demo_env = False" "se_fire_exit demo_env code s = (Some code, s)"
  by (simp_all add: demo_env_def)

text \<open>A command is charged and runs, as long as fewer than a thousand have run before it.\<close>

definition demo_after :: "nat \<Rightarrow> command \<Rightarrow> demo_shell \<Rightarrow> demo_shell" where
  "demo_after n c s =
     s\<lparr>sh_line := command_line c, sh_budget := (sh_budget demo_start)\<lparr>b_work_units := of_nat (Suc n)\<rparr>,
       sh_counters := (sh_counters s)\<lparr>commands := of_nat (Suc n), session_commands := of_nat (Suc n)\<rparr>\<rparr>"

definition demo_ready :: "nat \<Rightarrow> demo_shell \<Rightarrow> bool" where
  "demo_ready n s \<longleftrightarrow>
     sh_budget s = (sh_budget demo_start)\<lparr>b_work_units := of_nat n\<rparr> \<and> commands (sh_counters s) = of_nat n \<and>
     session_commands (sh_counters s) = of_nat n \<and> session_exec_calls (sh_counters s) = 0"

lemma demo_charges:
  assumes "n < 1000" and "demo_ready n s"
  shows "charge_work demo_env 1 s = (Ok (), s\<lparr>sh_budget := (sh_budget demo_start)\<lparr>b_work_units := of_nat (Suc n)\<rparr>\<rparr>)"
    and "tick_command demo_limits (sh_counters s) =
      (Ok (), (sh_counters s)\<lparr>commands := of_nat (Suc n), session_commands := of_nat (Suc n)\<rparr>)"
    and "check_session_limits default_session_limits ((sh_counters s)\<lparr>commands := of_nat (Suc n), session_commands := of_nat (Suc n)\<rparr>) = Ok ()"
proof -
  have n: "unat (of_nat m :: u64) = m" if "m \<le> 1000" for m using that by (simp add: unat_of_nat)
  have up: "of_nat n + 1 = (of_nat (Suc n) :: u64)" by simp
  have step: "\<not> of_nat (Suc n) < (of_nat n :: u64)" "1000 \<le> l \<Longrightarrow> \<not> l < (of_nat (Suc n) :: u64)" for l
    using assms(1) n [of n] n [of "Suc n"] by (simp_all add: word_less_nat_alt word_le_nat_alt del: of_nat_Suc)
  have b: "consume_work \<lparr>now = 0, cancelled = False\<rparr> 1 (sh_budget s) = (Ok (), (sh_budget demo_start)\<lparr>b_work_units := of_nat (Suc n)\<rparr>)"
    using step(1) step(2) [of 100000000] assms(2) by (simp add: demo_ready_def consume_work_def checked_then_def check_def failure_def demo_start_def new_budget_def demo_limits_def
        default_execution_limits_def reserve_atomic_def checked_add_def up Let_def instant_checked_add_def dur_secs_def DEADLINE_GRACE_def del: of_nat_Suc)
  then show "charge_work demo_env 1 s = (Ok (), s\<lparr>sh_budget := (sh_budget demo_start)\<lparr>b_work_units := of_nat (Suc n)\<rparr>\<rparr>)"
    by (simp add: charge_work_def del: of_nat_Suc)
  show "tick_command demo_limits (sh_counters s) =
      (Ok (), (sh_counters s)\<lparr>commands := of_nat (Suc n), session_commands := of_nat (Suc n)\<rparr>)"
    using step(1) step(2) [of 10000] assms(2) by (simp add: demo_ready_def tick_command_def sat_add_def checked_add_def up Let_def demo_limits_def default_execution_limits_def del: of_nat_Suc)
  show "check_session_limits default_session_limits ((sh_counters s)\<lparr>commands := of_nat (Suc n), session_commands := of_nat (Suc n)\<rparr>) = Ok ()"
    using step(2) [of DEFAULT_SESSION_MAX_COMMANDS] assms(2)
    by (simp add: demo_ready_def check_session_limits_def default_session_limits_def new_counters_def DEFAULT_SESSION_MAX_COMMANDS_def
        DEFAULT_SESSION_MAX_EXEC_CALLS_def del: of_nat_Suc)
qed

lemma demo_begin:
  assumes "n < 1000" and "demo_ready n s"
  shows "begin_command demo_env c m s = m (demo_after n c s)"
proof -
  let ?s1 = "s\<lparr>sh_line := command_line c\<rparr>"
  have "demo_ready n ?s1" using assms(2) by (simp add: demo_ready_def)
  then show ?thesis
    using demo_charges(1) [OF assms(1), of ?s1] demo_charges(2,3) [OF assms]
    by (simp add: counting_def begin_command_def sh_bind_def check_cancelled_def sh_modify_def check_session_def demo_after_def del: of_nat_Suc)
qed

text \<open>A simple command in a pipeline is charged the same.\<close>

lemma demo_stage:
  assumes "n < 1000" and "demo_ready n s"
  shows "run_stage demo_env (demo_cmd name args, m) input s = demo_simple (demo_cmd name args) input (demo_after n (demo_cmd name args) s\<lparr>sh_line := sh_line s\<rparr>)"
  using demo_charges(1,2) [OF assms]
  by (simp add: run_stage_def demo_cmd_def sh_bind_def counting_def demo_after_def del: of_nat_Suc)

lemma demo_after_simps [simp]:
  "sh_callback (demo_after n c s) = sh_callback s" "sh_emit_count (demo_after n c s) = sh_emit_count s"
  "sh_streamed_out (demo_after n c s) = sh_streamed_out s" "sh_streamed_err (demo_after n c s) = sh_streamed_err s"
  "sh_emitted (demo_after n c s) = sh_emitted s" "sh_errexit (demo_after n c s) = sh_errexit s" "sh_scoped (demo_after n c s) = sh_scoped s"
  "sh_jobs (demo_after n c s) = sh_jobs s" "sh_stdin (demo_after n c s) = sh_stdin s" "sh_pipefail (demo_after n c s) = sh_pipefail s"
  by (simp_all add: demo_after_def)

lemma demo_start_simps [simp]:
  "sh_callback demo_start" "sh_emit_count demo_start = 0" "sh_streamed_out demo_start = 0" "sh_streamed_err demo_start = 0"
  "sh_emitted demo_start = []" "\<not> sh_errexit demo_start" "sh_scoped demo_start = []" "sh_stdin demo_start = None" "\<not> sh_pipefail demo_start"
  by (simp_all add: demo_start_def)

lemma demo_ready_start: "demo_ready 0 demo_start"
  by (simp add: demo_ready_def demo_start_def new_budget_def new_counters_def)

lemma demo_ready_after: "demo_ready n s \<Longrightarrow> demo_ready (Suc n) (demo_after n c s)"
  by (simp add: demo_ready_def demo_after_def)

lemma demo_ready_updates [simp]:
  "demo_ready n (s\<lparr>sh_scoped := x\<rparr>) = demo_ready n s" "demo_ready n (s\<lparr>sh_last_exit := c\<rparr>) = demo_ready n s"
  "demo_ready n (s\<lparr>sh_stdin := i\<rparr>) = demo_ready n s" "demo_ready n (maybe_emit_output E out err k s) = demo_ready n s"
  "demo_ready n (s\<lparr>sh_counters := (sh_counters s)\<lparr>subshell_depth := d\<rparr>\<rparr>) = demo_ready n s"
  by (simp_all add: demo_ready_def maybe_emit_output_def Let_def)

section \<open>Scripts\<close>

definition demo_script :: "command list \<Rightarrow> script" where
  "demo_script cs = \<lparr>sc_commands = cs, sc_span = demo_span\<rparr>"

definition demo_subshell :: "command list" where
  "demo_subshell = [demo_cmd ''set'' [''y''], demo_cmd ''exit'' [''3'']]"

lemma shell_demo_texts: "flow_builtin (lit ''set'') = None" "flow_builtin (lit ''exit'') = Some exit_builtin" "flow_builtin (lit ''a'') = None"
   "flow_builtin (lit ''true'') = Some true_builtin" "lit ''a'' \<noteq> lit ''set''"
  by (simp_all add: flow_builtin_def lit_def)

lemma demo_simple_set: "demo_simple (demo_cmd ''set'' args) i s = (Ok (result_ok stream_new), s\<lparr>sh_scoped := map lit args\<rparr>)"
  by (simp add: demo_simple_def demo_cmd_def demo_word_def shell_demo_texts comp_def)

lemma demo_simple_exit: "demo_simple (demo_cmd ''exit'' args) i s = (Ok (exit_builtin (map lit args)), s)"
  by (simp add: demo_simple_def demo_cmd_def demo_word_def shell_demo_texts comp_def)

lemma demo_simple_a: "demo_simple (demo_cmd ''a'' []) i s = (Ok (result_ok (stream_of_string [97, 10])), s)"
  by (simp add: demo_simple_def demo_cmd_def demo_word_def shell_demo_texts) (simp add: lit_def)

lemma demo_simple_true: "demo_simple (demo_cmd ''true'' []) i s = (Ok (true_builtin []), s)"
  by (simp add: demo_simple_def demo_cmd_def demo_word_def shell_demo_texts)

lemmas demo_commands = demo_simple_set demo_simple_exit demo_simple_a demo_simple_true

lemma demo_exit_status: "exit_builtin [lit ''3''] = default_result\<lparr>er_exit_code := 3, er_flow := Exit 3\<rparr>"
  by (simp add: exit_builtin_def status_argument_def parse_i32_def parse_i64_def is_digit_def digits_value_def lit_def)

lemma demo_a_bytes: "as_bytes [97, 10] = [97, 10]"
  by (simp add: as_bytes_def utf8_char_def)


lemma demo_exec:
  assumes "demo_ready n s" and "n < 1000"
  shows "exec demo_env (demo_cmd name args) s = demo_simple (demo_cmd name args) None (demo_after n (demo_cmd name args) s)"
  using demo_begin [OF assms(2,1)] by (simp add: demo_cmd_def)

lemma demo_emitting: "m s = (Ok r, s') \<Longrightarrow> emitting demo_env m s = (Ok r, maybe_emit_output demo_env (er_stdout r) (er_stderr r) (sh_emit_count s) s')"
  by (simp add: emitting_def)



lemma scoped_emit [simp]: "sh_scoped (maybe_emit_output E out err k s) = sh_scoped s"
  by (simp add: maybe_emit_output_def Let_def)

lemma demo_subshell_body:
  assumes "demo_ready n s" and "n < 900"
  shows "\<exists>r s'. run_sequence demo_env (map (exec demo_env) demo_subshell) s = (Ok r, s') \<and> er_exit_code r = 3 \<and> er_flow r = Exit 3 \<and>
    sh_scoped s' = [lit ''y'']"
proof -
  let ?set = "demo_cmd ''set'' [''y'']" and ?exit = "demo_cmd ''exit'' [''3'']"
  let ?s1 = "maybe_emit_output demo_env stream_new stream_new (sh_emit_count s) ((demo_after n ?set s)\<lparr>sh_scoped := [lit ''y'']\<rparr>)
    \<lparr>sh_last_exit := 0\<rparr>"
  have first: "exec demo_env ?set s = (Ok (result_ok stream_new), (demo_after n ?set s)\<lparr>sh_scoped := [lit ''y'']\<rparr>)"
    using demo_exec [OF assms(1)] assms(2) demo_commands(1) [of "[''y'']"] by simp
  have "demo_ready (Suc n) ?s1" using demo_ready_after [OF assms(1)] by simp
  then have second: "exec demo_env ?exit ?s1 = (Ok (exit_builtin (map lit [''3''])), demo_after (Suc n) ?exit ?s1)"
    using demo_exec [of "Suc n" ?s1] assms(2) demo_commands(2) [of "[''3'']"] by simp
  show ?thesis
    using demo_emitting [of "exec demo_env ?set", OF first] demo_emitting [of "exec demo_env ?exit", OF second]
    by (simp add: run_sequence_def demo_subshell_def sh_bind_def Let_def demo_exit_status result_ok_def default_result_def)
qed

lemma demo_subshell_runs:
  "\<exists>r s'. run_subshell demo_env (map (exec demo_env) demo_subshell) demo_start = (Ok r, s') \<and> er_exit_code r = 3"
proof -
  let ?s = "demo_start\<lparr>sh_counters := (sh_counters demo_start)\<lparr>subshell_depth := 1\<rparr>\<rparr>"
  have push: "push_subshell demo_limits (sh_counters demo_start) = (Ok (), (sh_counters demo_start)\<lparr>subshell_depth := 1\<rparr>)"
    by (simp add: push_subshell_def demo_start_def new_counters_def demo_limits_def default_execution_limits_def)
  have "demo_ready 0 ?s" using demo_ready_start by simp
  from demo_subshell_body [OF this] obtain r s'
    where "run_sequence demo_env (map (exec demo_env) demo_subshell) ?s = (Ok r, s')" "er_exit_code r = 3" "er_flow r = Exit 3" by auto
  with push show ?thesis
    by (simp add: run_subshell_def sh_bind_def counting_def subshell_exit_trap_def own_exit_trap_def leave_subshell_def)
qed

text \<open>A group that prints, after which nothing else has been printed.\<close>

definition demo_group :: command where
  "demo_group = Compound (BraceGroup [demo_cmd ''a'' []]) []"

lemma demo_group_runs:
  assumes "demo_ready n s" and "n < 900" and "sh_callback s" and "sh_emitted s = []" and "sh_streamed_out s = 0"
  shows "\<exists>r s'. exec demo_env demo_group s = (Ok r, s') \<and> demo_ready (Suc (Suc n)) s' \<and> sd_bytes (er_stdout r) = [97, 10] \<and>
    er_flow r = NoFlow \<and> er_exit_code r = 0 \<and> sd_bytes (er_stderr r) = [] \<and>
    sh_emitted s' = [(stream_of_bytes [97, 10], stream_of_bytes [])] \<and> sh_emit_count s' = Suc (sh_emit_count s) \<and>
    sh_pipefail s' = sh_pipefail s"
proof -
  let ?a = "demo_cmd ''a'' []"
  let ?s1 = "demo_after n demo_group s"
  have r1: "demo_ready (Suc n) ?s1" using demo_ready_after [OF assms(1)] .
  have a: "exec demo_env ?a ?s1 = (Ok (result_ok (stream_of_string [97, 10])), demo_after (Suc n) ?a ?s1)"
    using demo_exec [OF r1] assms(2) demo_commands(3) by simp
  have red: "run_redirected demo_env [] m s = m s" for m s
    by (simp add: run_redirected_def enter_redirects_def leave_redirects_def end_capture_def has_output_redirect_def captures_pending_fd_def
        Let_def split: prod.split sum.split)
  have "exec demo_env demo_group s = run_sequence demo_env [exec demo_env ?a] ?s1"
    using demo_begin [OF _ assms(1), of demo_group] assms(2) by (simp add: demo_group_def red)
  with demo_emitting [of "exec demo_env ?a", OF a]
  have run: "exec demo_env demo_group s =
      (Ok (result_of (stream_append stream_new (stream_of_string [97, 10])) (stream_append stream_new stream_new) 0 NoFlow False),
       (maybe_emit_output demo_env (stream_of_string [97, 10]) stream_new (sh_emit_count s) (demo_after (Suc n) ?a ?s1))\<lparr>sh_last_exit := 0\<rparr>)"
    by (simp add: run_sequence_def sh_bind_def sh_return_def Let_def result_ok_def default_result_def)
  have limits: "unat (max_stdout_bytes demo_limits) = 1048576" by (simp add: demo_limits_def default_execution_limits_def)
  show ?thesis unfolding run
    using assms(3-5) demo_ready_after [OF r1] limits
    by (simp add: stream_append_def refresh_text_def Let_def stream_new_def stream_of_string_def demo_a_bytes)
      (simp add: maybe_emit_output_def Let_def stream_prefix_def stream_len_def stream_of_bytes_def demo_a_bytes)
qed
end
