(* ===== verification/ShellSafe.thy ===== *)
theory ShellSafe
  imports ShellDemo
begin

text \<open>
  Execution ends, whatever the script: a loop is stopped by \<open>max_loop_iterations\<close> before its fuel is used up, and every
  command leaves the stack of loop counters, the depths and the flags that bracket its parts as it found them, on the error
  path too. A subshell gives its state back. What is assumed of the parameters is \<open>tame_env\<close>: they do the same.
\<close>

section \<open>What is bracketed\<close>

text \<open>The loop stack, the three depths, the depth of conditions, the trap flag and the depth of captures.\<close>

datatype bracket_values = Brackets "usize list" usize usize usize nat bool nat

definition brackets :: "('x, 'y, 'w) shell \<Rightarrow> bracket_values" where
  "brackets s =
     Brackets (loop_iterations (sh_counters s)) (subshell_depth (sh_counters s)) (function_depth (sh_counters s))
       (subst_depth (sh_counters s)) (sh_condition_depth s) (sh_in_trap s) (sh_capture_depth s)"

text \<open>An outcome that is no exhausted fuel, with the brackets \<open>k\<close>.\<close>

definition settled :: "bracket_values \<Rightarrow> (flow_error + 'a) \<times> ('x, 'y, 'w) shell \<Rightarrow> bool" where
  "settled k p \<longleftrightarrow> fst p \<noteq> Err OutOfFuel \<and> brackets (snd p) = k"

definition tame :: "('a, 'x, 'y, 'w) act \<Rightarrow> bool" where
  "tame m \<longleftrightarrow> (\<forall>s. settled (brackets s) (m s))"

definition tame_update :: "(('x, 'y, 'w) shell \<Rightarrow> ('x, 'y, 'w) shell) \<Rightarrow> bool" where
  "tame_update f \<longleftrightarrow> (\<forall>s. brackets (f s) = brackets s)"

definition tame_env :: "('x, 'y, 'w) shell_env \<Rightarrow> bool" where
  "tame_env E \<longleftrightarrow>
     (\<forall>c i. tame (se_simple E c i)) \<and> (\<forall>w. tame (se_fields E w)) \<and> (\<forall>w. tame (se_expand E w)) \<and>
     (\<forall>item. tame_update (\<lambda>s. snd (se_glob_item E item s))) \<and> (\<forall>v t. tame_update (se_set_variable E v t)) \<and>
     (\<forall>v t. tame_update (se_insert_variable E v t)) \<and> (\<forall>t. tame_update (se_arith_effects E t)) \<and>
     (\<forall>t. tame (se_arith_command E t)) \<and> (\<forall>ws. tame (se_conditional E ws)) \<and> (\<forall>rs. tame (se_redirect_in E rs)) \<and>
     (\<forall>r rs. tame (se_redirect_out E r rs)) \<and> (\<forall>t. tame_update (\<lambda>s. snd (se_parse_trap E t s))) \<and>
     (\<forall>t s m. fst (se_parse_trap E t s) = Some m \<longrightarrow> tame m) \<and>
     (\<forall>p t a. tame_update (\<lambda>s. snd (se_write_report E p t a s))) \<and> (\<forall>c. tame_update (\<lambda>s. snd (se_fire_exit E c s)))"

lemma brackets_updates [simp]:
  "brackets (s\<lparr>sh_scoped := x\<rparr>) = brackets s" "brackets (s\<lparr>sh_functions := fs\<rparr>) = brackets s" "brackets (s\<lparr>sh_memory := m\<rparr>) = brackets s"
  "brackets (s\<lparr>sh_errexit := b\<rparr>) = brackets s" "brackets (s\<lparr>sh_pipefail := b\<rparr>) = brackets s" "brackets (s\<lparr>sh_last_bg := i\<rparr>) = brackets s"
  "brackets (s\<lparr>sh_frames := y\<rparr>) = brackets s" "brackets (s\<lparr>sh_last_exit := c\<rparr>) = brackets s" "brackets (s\<lparr>sh_budget := bu\<rparr>) = brackets s"
  "brackets (s\<lparr>sh_stdin := st\<rparr>) = brackets s" "brackets (s\<lparr>sh_pipestatus := ps\<rparr>) = brackets s" "brackets (s\<lparr>sh_jobs := t\<rparr>) = brackets s"
  "brackets (s\<lparr>sh_coproc_next_fd := c\<rparr>) = brackets s" "brackets (s\<lparr>sh_line := n\<rparr>) = brackets s" "brackets (s\<lparr>sh_callback := b\<rparr>) = brackets s"
  "brackets (s\<lparr>sh_emit_count := n\<rparr>) = brackets s" "brackets (s\<lparr>sh_streamed_out := n\<rparr>) = brackets s"
  "brackets (s\<lparr>sh_streamed_err := n\<rparr>) = brackets s" "brackets (s\<lparr>sh_emitted := es\<rparr>) = brackets s" "brackets (s\<lparr>sh_world := w\<rparr>) = brackets s"
  by (simp_all add: brackets_def)

lemma brackets_maybe_emit [simp]: "brackets (maybe_emit_output E out err n s) = brackets s"
  by (simp add: maybe_emit_output_def Let_def)

lemma settledI [intro]: "x \<noteq> Err OutOfFuel \<Longrightarrow> brackets s = k \<Longrightarrow> settled k (x, s)"
  by (simp add: settled_def)

lemma settled_Ok [simp]: "settled k (Inr a, s) \<longleftrightarrow> brackets s = k"
  and settled_Err [simp]: "settled k (Inl e, s) \<longleftrightarrow> e \<noteq> OutOfFuel \<and> brackets s = k"
  by (auto simp: settled_def)

lemma tameD: "tame m \<Longrightarrow> brackets s = k \<Longrightarrow> settled k (m s)"
  by (auto simp: tame_def)

lemma tameI: "(\<And>s. settled (brackets s) (m s)) \<Longrightarrow> tame m"
  by (simp add: tame_def)

lemma tame_updateD [simp]: "tame_update f \<Longrightarrow> brackets (f s) = brackets s"
  by (simp add: tame_update_def)

lemma settled_bind:
  assumes "settled k (m s)" and "\<And>a s'. brackets s' = k \<Longrightarrow> settled k (f a s')"
  shows "settled k (sh_bind m f s)"
  using assms by (cases "m s"; cases "fst (m s)") (auto simp: sh_bind_def)

lemma settled_basic [simp]:
  "settled k (sh_return a s) \<longleftrightarrow> brackets s = k" "settled k (sh_fail e s) \<longleftrightarrow> e \<noteq> OutOfFuel \<and> brackets s = k"
  "settled k (sh_modify f s) \<longleftrightarrow> brackets (f s) = k"
  by (simp_all add: sh_return_def sh_fail_def sh_modify_def)

lemma settled_emitting: "settled k (m s) \<Longrightarrow> settled k (emitting E m s)"
  by (cases "m s"; cases "fst (m s)") (auto simp: emitting_def)

lemma settled_captured: "tame m \<Longrightarrow> brackets s = k \<Longrightarrow> settled k (run_captured m s)"
  using tameD [of m "s\<lparr>sh_callback := False\<rparr>" k] by (cases "m (s\<lparr>sh_callback := False\<rparr>)"; auto simp: run_captured_def settled_def)

lemma settled_charges [simp]:
  "brackets s = k \<Longrightarrow> settled k (check_cancelled E s)"
  "brackets s = k \<Longrightarrow> settled k (charge_work E n s)"
  "brackets s = k \<Longrightarrow> settled k (counting (tick_command l) s)"
  "brackets s = k \<Longrightarrow> settled k (check_session E s)"
  by (auto simp: check_cancelled_def charge_work_def counting_def check_session_def tick_command_def brackets_def Let_def
      split: prod.splits sum.splits)

section \<open>Sequences, pipelines, lists\<close>

lemma sequence_settled: "\<forall>m\<in>set ms. tame m \<Longrightarrow> brackets s = k \<Longrightarrow> settled k (sequence_loop E chk ms out err code es s)"
proof (induction ms arbitrary: s out err code es)
  case (Cons m ms)
  then show ?case by (auto simp: Let_def intro!: settled_bind settled_emitting intro: tameD)
qed simp

lemma run_sequence_tame: "\<forall>m\<in>set ms. tame m \<Longrightarrow> tame (run_sequence E ms)"
  by (simp add: tame_def run_sequence_def) (meson sequence_settled tame_def)

lemma run_condition_tame: "\<forall>m\<in>set ms. tame m \<Longrightarrow> tame (run_condition E ms)"
  unfolding tame_def [of "run_condition E ms"]
proof (rule allI)
  fix s assume "\<forall>m\<in>set ms. tame m"
  from sequence_settled [OF this, of "s\<lparr>sh_condition_depth := sh_condition_depth s + 1\<rparr>" _ E False stream_new stream_new 0 False, OF refl]
  show "settled (brackets s) (run_condition E ms s)"
    by (auto simp: run_condition_def settled_def brackets_def split: prod.splits)
qed


lemma run_stage_settled: "tame_env E \<Longrightarrow> tame (snd st) \<Longrightarrow> brackets s = k \<Longrightarrow> settled k (run_stage E st input s)"
proof -
  assume env: "tame_env E" and m: "tame (snd st)" and s: "brackets s = k"
  have other: "settled k (case snd st (s\<lparr>sh_stdin := input\<rparr>) of (Inl e, s') \<Rightarrow> (Err e, s') | (Inr r, s') \<Rightarrow> (Ok r, s'\<lparr>sh_stdin := sh_stdin s\<rparr>))"
    using tameD [OF m, of "s\<lparr>sh_stdin := input\<rparr>" k] s by (auto simp: settled_def split: prod.split sum.split)
  have simple: "settled k (sh_bind (charge_work E 1) (\<lambda>_. sh_bind (counting (tick_command (se_limits E))) (\<lambda>_. se_simple E (fst st) input)) s)"
    using env s by (auto intro!: settled_bind intro: tameD simp: tame_env_def)
  show ?thesis using other simple by (auto simp: run_stage_def split: command.split)
qed

lemma pipeline_settled:
  "tame_env E \<Longrightarrow> \<forall>st\<in>set stages. tame (snd st) \<Longrightarrow> brackets s = k \<Longrightarrow> settled k (pipeline_loop E stages input err statuses final s)"
proof (induction stages arbitrary: s input err statuses final)
  case (Cons st stages)
  then show ?case by (auto simp: Let_def intro!: settled_bind run_stage_settled)
qed simp

lemma run_pipeline_tame:
  assumes "tame_env E" and "\<forall>st\<in>set stages. tame (snd st)"
  shows "tame (run_pipeline E negated stages)"
  unfolding tame_def [of "run_pipeline E negated stages"] unfolding run_pipeline_def
proof (intro allI settled_bind)
  fix s show "settled (brackets s) (pipeline_loop E stages None stream_new [] (result_ok stream_new) s)"
    using assms by (intro pipeline_settled) simp_all
qed (auto simp: Let_def)

lemma brackets_in_trap:
  "brackets s' = brackets (s\<lparr>sh_in_trap := True\<rparr>) \<Longrightarrow> \<not> sh_in_trap s \<Longrightarrow> brackets (s'\<lparr>sh_in_trap := False\<rparr>) = brackets s"
  "brackets s1 = brackets s \<Longrightarrow> sh_in_trap s1 = sh_in_trap s"
  by (simp_all add: brackets_def)

lemma err_trap_brackets [simp]: "tame_env E \<Longrightarrow> brackets (snd (run_err_trap E out err s)) = brackets s"
proof -
  assume env: "tame_env E"
  show ?thesis
  proof (cases "sh_in_trap s \<or> se_trap E (lit ''ERR'') (sh_scoped s) = None")
    case False
    then obtain tx where t: "se_trap E (lit ''ERR'') (sh_scoped s) = Some tx" "\<not> sh_in_trap s" by auto
    obtain m s1 where p: "se_parse_trap E tx s = (m, s1)" by (cases "se_parse_trap E tx s")
    have s1: "brackets s1 = brackets s" using env p unfolding tame_env_def tame_update_def by (metis snd_conv)
    show ?thesis
    proof (cases m)
      case (Some m)
      then have "tame m" using env p unfolding tame_env_def by (metis fst_conv)
      then have "settled (brackets (s1\<lparr>sh_in_trap := True\<rparr>)) (m (s1\<lparr>sh_in_trap := True\<rparr>))" by (simp add: tame_def)
      moreover obtain r s2 where m: "m (s1\<lparr>sh_in_trap := True\<rparr>) = (r, s2)" by (rule prod.exhaust)
      ultimately have "brackets (s2\<lparr>sh_in_trap := False\<rparr>) = brackets s1"
        using t(2) brackets_in_trap [of s2 s1] brackets_in_trap(2) [OF s1] by (simp add: settled_def)
      with t s1 p Some m show ?thesis by (cases r) (simp_all add: run_err_trap_def)
    qed (use t p s1 in \<open>simp add: run_err_trap_def\<close>)
  qed (auto simp: run_err_trap_def)
qed

lemma spawn_settled: "tame m \<Longrightarrow> brackets s = k \<Longrightarrow> settled k (spawn_in_background E m out err s)"
  unfolding spawn_in_background_def by (auto intro!: settled_bind settled_emitting intro: tameD split: prod.split)

text \<open>What both places of a list that fire the trap for \<open>ERR\<close> do next.\<close>

lemma after_trap_settled:
  assumes "tame_env E" and "brackets s = k" and "\<And>out err s. brackets s = k \<Longrightarrow> settled k (f out err s)"
  shows "settled k (case run_err_trap E out err s of ((out, err), s) \<Rightarrow> f out err s)"
proof -
  obtain o' e' s' where t: "run_err_trap E out err s = ((o', e'), s')" by (metis prod.exhaust)
  with err_trap_brackets [OF assms(1), of out err s] assms(2) have "brackets s' = k" by simp
  with assms(3) t show ?thesis by simp
qed

lemma list_settled:
  "tame_env E \<Longrightarrow> \<forall>(op, b, m)\<in>set rest. tame m \<Longrightarrow> brackets s = k \<Longrightarrow> settled k (list_loop E rest out err code carried s)"
proof (induction rest arbitrary: out err code carried s)
  case (Cons item rest)
  obtain op sentinel m where item: "item = (op, sentinel, m)" by (rule prod_cases3)
  have k: "k = brackets s" using Cons.prems(3) by simp
  have m: "tame m" and IH: "settled (brackets s) (list_loop E rest out err code carried s1)" if "brackets s1 = brackets s" for out err code carried s1
    using Cons that by (auto simp: item)
  have bg: "settled (brackets s) (sh_bind (spawn_in_background E m out err) (\<lambda>(out, err). list_loop E rest out err 0 False) s)"
    using m [OF refl] IH by (intro settled_bind spawn_settled) auto
  have emit: "settled (brackets s) (emitting E m s)" using m [OF refl] by (intro settled_emitting tameD) simp_all
  show ?case
    unfolding item list_loop.simps k
    using Cons.prems(1) IH bg
    by (auto simp: Let_def simp del: list_loop.simps intro!: settled_bind emit after_trap_settled)
qed auto

lemma run_list_tame:
  assumes "tame_env E" and "tame first" and "\<forall>(op, b, m)\<in>set rest. tame m"
  shows "tame (run_list E first rest)"
  unfolding tame_def [of "run_list E first rest"]
proof
  fix s
  note IH = list_settled [OF assms(1,3)]
  have bg: "settled (brackets s) (sh_bind (spawn_in_background E first stream_new stream_new) (\<lambda>(out, err). list_loop E rest out err 0 False) s)"
    using assms(2) IH by (intro settled_bind spawn_settled) auto
  have emit: "settled (brackets s) (emitting E first s)" using assms(2) by (intro settled_emitting tameD) simp_all
  show "settled (brackets s) (run_list E first rest s)"
    unfolding run_list_def
    using assms(1) IH bg
    by (auto simp: Let_def simp del: list_loop.simps intro!: settled_bind emit after_trap_settled)
qed


section \<open>Conditionals\<close>

lemma run_sequence_settled: "\<forall>m\<in>set ms. tame m \<Longrightarrow> brackets s = k \<Longrightarrow> settled k (run_sequence E ms s)"
  by (rule tameD [OF run_sequence_tame])

lemma run_condition_settled: "\<forall>m\<in>set ms. tame m \<Longrightarrow> brackets s = k \<Longrightarrow> settled k (run_condition E ms s)"
  by (rule tameD [OF run_condition_tame])

lemma if_settled:
  "\<forall>(c, b)\<in>set branches. (\<forall>m\<in>set c. tame m) \<and> (\<forall>m\<in>set b. tame m) \<Longrightarrow> (\<forall>ms. otherwise = Some ms \<longrightarrow> (\<forall>m\<in>set ms. tame m)) \<Longrightarrow>
   brackets s = k \<Longrightarrow> settled k (if_loop E branches otherwise out err s)"
proof (induction branches arbitrary: out err s)
  case Nil
  then show ?case by (auto split: option.split intro!: settled_bind run_sequence_settled)
next
  case (Cons b branches)
  obtain c body where b: "b = (c, body)" by (rule prod.exhaust)
  show ?case using Cons unfolding b by (auto simp: Let_def intro!: settled_bind run_sequence_settled run_condition_settled)
qed

lemma run_if_tame:
  "\<forall>m\<in>set c. tame m \<Longrightarrow> \<forall>m\<in>set b. tame m \<Longrightarrow> \<forall>(c, b)\<in>set elifs. (\<forall>m\<in>set c. tame m) \<and> (\<forall>m\<in>set b. tame m) \<Longrightarrow>
   (\<forall>ms. otherwise = Some ms \<longrightarrow> (\<forall>m\<in>set ms. tame m)) \<Longrightarrow> tame (run_if E c b elifs otherwise)"
  unfolding run_if_def by (intro tameI if_settled) auto

lemma patterns_settled: "tame_env E \<Longrightarrow> brackets s = k \<Longrightarrow> settled k (match_patterns E value ps s)"
proof (induction ps arbitrary: s)
  case (Cons p ps)
  then show ?case by (auto intro!: settled_bind intro: tameD simp: tame_env_def)
qed simp

lemma case_settled:
  "tame_env E \<Longrightarrow> \<forall>(ps, b, t)\<in>set items. \<forall>m\<in>set b. tame m \<Longrightarrow> brackets s = k \<Longrightarrow>
   settled k (case_loop E value items fallthrough out err code s)"
proof (induction items arbitrary: fallthrough out err code s)
  case (Cons item items)
  obtain ps b t where item: "item = (ps, b, t)" by (rule prod_cases3)
  show ?case using Cons unfolding item
    by (auto simp: Let_def split: case_terminator.split intro!: settled_bind run_sequence_settled patterns_settled)
qed simp

lemma run_case_tame: "tame_env E \<Longrightarrow> \<forall>(ps, b, t)\<in>set items. \<forall>m\<in>set b. tame m \<Longrightarrow> tame (run_case E w items)"
  by (rule tameI) (auto simp: run_case_def tame_env_def intro!: settled_bind intro: tameD case_settled [unfolded tame_env_def])

section \<open>Loops\<close>

text \<open>Inside a loop the top of the stack counts the iterations.\<close>

fun push_turns :: "usize \<Rightarrow> bracket_values \<Rightarrow> bracket_values" where
  "push_turns w (Brackets xs a b c d e f) = Brackets (xs @ [w]) a b c d e f"

definition looping :: "bracket_values \<Rightarrow> (flow_error + 'a) \<times> ('x, 'y, 'w) shell \<Rightarrow> bool" where
  "looping k p \<longleftrightarrow> fst p \<noteq> Err OutOfFuel \<and> (\<exists>w. brackets (snd p) = push_turns w k)"

lemma loopingI: "brackets s = push_turns w k \<Longrightarrow> looping k (Inr a, s)"
  by (auto simp: looping_def)

lemma in_loop_settled:
  assumes "\<And>s'. brackets s' = push_turns 0 k \<Longrightarrow> looping k (m s')" and "brackets s = k"
  shows "settled k (in_loop m s)"
proof -
  have "brackets (s\<lparr>sh_counters := enter_loop (sh_counters s)\<rparr>) = push_turns 0 k"
    using assms(2) by (auto simp: brackets_def enter_loop_def)
  from assms(1) [OF this] obtain r s' w where m: "m (s\<lparr>sh_counters := enter_loop (sh_counters s)\<rparr>) = (r, s')" "r \<noteq> Err OutOfFuel"
      "brackets s' = push_turns w k"
    by (auto simp: looping_def) (metis prod.collapse)
  then have "brackets (s'\<lparr>sh_counters := exit_loop (sh_counters s')\<rparr>) = k"
    by (cases k) (auto simp: brackets_def exit_loop_def)
  with m show ?thesis by (simp add: in_loop_def settled_def)
qed

lemma looping_bind_settled:
  assumes "\<And>k. brackets s = k \<Longrightarrow> settled k (m s)" and "brackets s = push_turns w k"
    and "\<And>a s'. m s = (Ok a, s') \<Longrightarrow> brackets s' = push_turns w k \<Longrightarrow> looping k (f a s')"
  shows "looping k (sh_bind m f s)"
  using assms(1) [OF assms(2)] assms(3)
  by (cases "m s"; cases "fst (m s)") (auto simp: sh_bind_def settled_def looping_def)

text \<open>A tick counts the iteration or stops at the limit.\<close>

lemma looping_tick:
  assumes s: "brackets s = push_turns w k"
    and next_turn: "\<And>s'. brackets s' = push_turns (w + 1) k \<Longrightarrow> w + 1 \<le> max_loop_iterations (se_limits E) \<Longrightarrow> looping k (f () s')"
  shows "looping k (sh_bind (tick_loop_run E) f s)"
proof -
  have stack: "loop_iterations (sh_counters s) \<noteq> []" "last (loop_iterations (sh_counters s)) = w"
    using s by (cases k, auto simp: brackets_def)+
  obtain r c where t: "tick_loop (se_limits E) (sh_counters s) = (r, c)" by (rule prod.exhaust)
  have c: "brackets (s\<lparr>sh_counters := c\<rparr>) = push_turns (w + 1) k"
    using s t stack by (cases k) (auto simp: brackets_def tick_loop_def Let_def split: if_splits)
  show ?thesis
  proof (cases r)
    case (Inl e)
    with t c show ?thesis by (auto simp: sh_bind_def tick_loop_run_def counting_def looping_def)
  next
    case (Inr u)
    then have "w + 1 \<le> max_loop_iterations (se_limits E)" using t stack by (auto simp: tick_loop_def Let_def not_less split: if_splits)
    with next_turn [OF c] t Inr show ?thesis by (simp add: sh_bind_def tick_loop_run_def counting_def)
  qed
qed

lemma turn_settled: "\<forall>m\<in>set body. tame m \<Longrightarrow> brackets s = k \<Longrightarrow> settled k (loop_turn E body acc s)"
  unfolding loop_turn_def by (auto simp: Let_def intro!: settled_bind settled_emitting run_sequence_settled split: prod.split)

lemma looping_turn:
  assumes "\<forall>m\<in>set body. tame m" and "brackets s = push_turns w k"
    and "\<And>acc s'. brackets s' = push_turns w k \<Longrightarrow> looping k (f acc s')"
  shows "looping k (sh_bind (loop_turn E body acc) (\<lambda>(action, stop, acc).
           case loop_ends action stop acc of Some r \<Rightarrow> sh_return r | None \<Rightarrow> f acc) s)"
  using assms by (intro looping_bind_settled [OF turn_settled]) (auto simp: sh_return_def split: option.split intro: loopingI)

lemma looping_modify:
  assumes "tame_update g" and "brackets s = push_turns w k" and "\<And>s'. brackets s' = push_turns w k \<Longrightarrow> looping k (f () s')"
  shows "looping k (sh_bind (sh_modify g) f s)"
  using assms by (simp add: sh_bind_def sh_modify_def tame_update_def)

lemma for_looping:
  "tame_env E \<Longrightarrow> \<forall>m\<in>set body. tame m \<Longrightarrow> brackets s = push_turns w k \<Longrightarrow> looping k (for_loop E var body vs acc s)"
proof (induction vs arbitrary: s w acc)
  case Nil
  then show ?case by (auto simp: sh_return_def intro: loopingI)
next
  case (Cons v vs)
  have "tame_update (se_set_variable E var v)" using Cons.prems(1) by (simp add: tame_env_def)
  with Cons show ?case by (auto intro!: looping_tick looping_modify looping_turn)
qed

lemma fuel_step:
  fixes w :: usize
  assumes "unat limit + 2 \<le> Suc n + unat w" and "w + 1 \<le> limit" and "w \<le> limit" and "limit \<noteq> - 1"
  shows "unat limit + 2 \<le> n + unat (w + 1)"
proof -
  have "unat w < 18446744073709551615" using assms(3,4) not_u64_max [of limit] by (simp add: word_le_nat_alt)
  then have "unat (w + 1) = Suc (unat w)" by (simp add: unat_add_small)
  with assms(1) show ?thesis by simp
qed

lemma no_fuel_left: "unat limit + 2 \<le> unat w \<Longrightarrow> w \<le> limit \<Longrightarrow> False" for w :: usize
  by (simp add: word_le_nat_alt)

lemma condition_looping:
  "\<forall>m\<in>set condition. tame m \<Longrightarrow> \<forall>m\<in>set body. tame m \<Longrightarrow> brackets s = push_turns w k \<Longrightarrow>
   max_loop_iterations (se_limits E) \<noteq> - 1 \<Longrightarrow> w \<le> max_loop_iterations (se_limits E) \<Longrightarrow>
   unat (max_loop_iterations (se_limits E)) + 2 \<le> n + unat w \<Longrightarrow> looping k (condition_loop E n condition body b acc s)"
proof (induction n arbitrary: s w acc)
  case 0
  from no_fuel_left [OF _ 0(5)] 0(6) have False by simp
  then show ?case ..
next
  case (Suc n)
  note finite = Suc.prems(4)
  show ?case unfolding condition_loop.simps
  proof (rule looping_tick [OF Suc.prems(3)])
    fix s1 :: "('a, 'b, 'c) shell"
    assume s1: "brackets s1 = push_turns (w + 1) k" and w: "w + 1 \<le> max_loop_iterations (se_limits E)"
    note fuel = fuel_step [OF Suc.prems(6) w Suc.prems(5) finite]
    show "looping k (sh_bind (emitting E (run_condition E condition)) (\<lambda>c.
       let acc = acc\<lparr>la_stdout := stream_append (la_stdout acc) (er_stdout c), la_stderr := stream_append (la_stderr acc) (er_stderr c)\<rparr>
       in if (er_exit_code c = 0) = b then sh_return (acc_finish acc)
          else sh_bind (loop_turn E body acc) (\<lambda>(action, stop, acc).
                 case loop_ends action stop acc of
                   Some r \<Rightarrow> sh_return r | None \<Rightarrow> condition_loop E n condition body b acc)) s1)"
    proof (rule looping_bind_settled [OF _ s1])
      show "settled k' (emitting E (run_condition E condition) s1)" if "brackets s1 = k'" for k'
        using Suc.prems(1) that by (intro settled_emitting run_condition_settled)
    qed (use Suc.prems(1,2) fuel w finite in \<open>auto simp: Let_def sh_return_def intro!: looping_turn Suc.IH intro: loopingI\<close>)
  qed
qed

lemma arithmetic_looping:
  "tame_env E \<Longrightarrow> \<forall>m\<in>set body. tame m \<Longrightarrow> brackets s = push_turns w k \<Longrightarrow>
   max_loop_iterations (se_limits E) \<noteq> - 1 \<Longrightarrow> w \<le> max_loop_iterations (se_limits E) \<Longrightarrow>
   unat (max_loop_iterations (se_limits E)) + 2 \<le> n + unat w \<Longrightarrow> looping k (arithmetic_loop E n condition step body acc s)"
proof (induction n arbitrary: s w acc)
  case 0
  from no_fuel_left [OF _ 0(5)] 0(6) have False by simp
  then show ?case ..
next
  case (Suc n)
  have eff: "tame_update (if step = [] then (\<lambda>s. s) else se_arith_effects E step)"
    using Suc.prems(1) by (simp add: tame_env_def tame_update_def)
  show ?case unfolding arithmetic_loop.simps
  proof (rule looping_tick [OF Suc.prems(3)])
    fix s1 :: "('a, 'b, 'c) shell"
    assume s1: "brackets s1 = push_turns (w + 1) k" and w: "w + 1 \<le> max_loop_iterations (se_limits E)"
    note fuel = fuel_step [OF Suc.prems(6) w Suc.prems(5,4)]
    have next_turn: "looping k (sh_bind (sh_modify (if step = [] then (\<lambda>s. s) else se_arith_effects E step)) (\<lambda>_.
        arithmetic_loop E n condition step body acc) s2)" if "brackets s2 = push_turns (w + 1) k" for acc s2
      using that Suc.prems fuel w by (intro looping_modify [OF eff] Suc.IH) auto
    show "looping k (if condition \<noteq> [] \<and> se_arith E condition s1 = 0 then (Ok (acc_finish acc), s1)
       else sh_bind (loop_turn E body acc) (\<lambda>(action, stop, acc).
              case loop_ends action stop acc of
                Some r \<Rightarrow> sh_return r
              | None \<Rightarrow> sh_bind (sh_modify (if step = [] then (\<lambda>s. s) else se_arith_effects E step)) (\<lambda>_.
                          arithmetic_loop E n condition step body acc)) s1)"
      using looping_turn [OF Suc.prems(2) s1, of _ E acc, OF next_turn] s1 by (auto intro: loopingI)
  qed
qed


lemma select_line_settled: "brackets s = k \<Longrightarrow> settled k (select_line s)"
  by (auto simp: select_line_def Let_def split: option.split)

lemma select_looping:
  "tame_env E \<Longrightarrow> \<forall>m\<in>set body. tame m \<Longrightarrow> brackets s = push_turns w k \<Longrightarrow>
   max_loop_iterations (se_limits E) \<noteq> - 1 \<Longrightarrow> w \<le> max_loop_iterations (se_limits E) \<Longrightarrow>
   unat (max_loop_iterations (se_limits E)) + 2 \<le> n + unat w \<Longrightarrow> looping k (select_loop E n var vals ps3 body out err code s)"
proof (induction n arbitrary: s w out err code)
  case 0
  from no_fuel_left [OF _ 0(5)] 0(6) have False by simp
  then show ?case ..
next
  case (Suc n)
  have ins: "tame_update (\<lambda>s. se_insert_variable E var v (se_insert_variable E (lit ''REPLY'') line s))" for v line
    using Suc.prems(1) by (simp add: tame_env_def tame_update_def)
  show ?case unfolding select_loop.simps
  proof (rule looping_tick [OF Suc.prems(3)], unfold Let_def, rule looping_bind_settled [OF select_line_settled], assumption, assumption, goal_cases)
    case (1 s1 line s2)
    note fuel = fuel_step [OF Suc.prems(6) 1(2) Suc.prems(5,4)]
    show ?case
    proof (cases line)
      case None
      with 1 show ?thesis by (auto simp: sh_return_def intro: loopingI)
    next
      case (Some typed)
      have body: "settled k' (emitting E (run_sequence E body) s3)" if "brackets s3 = k'" for k' and s3
        using Suc.prems(2) that by (intro settled_emitting run_sequence_settled)
      have IH: "looping k (select_loop E n var vals ps3 body out err code s3)" if "brackets s3 = push_turns (w + 1) k" for out err code s3
        using Suc.prems that fuel 1(2) by (intro Suc.IH) auto
      show ?thesis unfolding Some option.case
        by (rule looping_modify [OF ins 1(4)], rule looping_bind_settled [OF body], assumption, assumption)
          (auto simp: sh_return_def Let_def IH split: control_flow.split intro: loopingI)
    qed
  qed
qed

lemma values_settled: "tame_env E \<Longrightarrow> brackets s = k \<Longrightarrow> settled k (loop_values E ws vals s)"
proof (induction ws arbitrary: vals s)
  case (Cons w ws)
  have items: "brackets (snd (glob_items E items s)) = brackets s" for items s
  proof (induction items arbitrary: s)
    case (Cons item items)
    have "brackets (snd (se_glob_item E item s)) = brackets s" using \<open>tame_env E\<close> by (simp add: tame_env_def tame_update_def)
    with Cons show ?case by (auto split: prod.split sum.split) (metis snd_conv)+
  qed simp
  have fs: "settled k (se_fields E w s)" using Cons.prems by (intro tameD) (auto simp: tame_env_def)
  show ?case unfolding loop_values.simps
  proof (rule settled_bind, rule fs)
    fix vs and s1 :: "('a, 'b, 'c) shell"
    assume s1: "brackets s1 = k"
    obtain r s2 where g: "glob_items E (concat (map expand_braces vs)) s1 = (r, s2)" by (rule prod.exhaust)
    with items [of "concat (map expand_braces vs)" s1] s1 have "brackets s2 = k" by simp
    with g s1 Cons show "settled k (if skips_globbing w then loop_values E ws (vals @ vs) s1
       else case glob_items E (concat (map expand_braces vs)) s1 of
              (Inl pat, s) \<Rightarrow> (Ok (Err pat), s)
            | (Inr items, s) \<Rightarrow> loop_values E ws (vals @ items) s)"
      by (auto split: sum.split)
  qed
qed simp

lemma no_match_settled [simp]: "brackets s = k \<Longrightarrow> settled k (no_match pat s)"
  by (simp add: no_match_def)

abbreviation finite_loops :: "('x, 'y, 'w) shell_env \<Rightarrow> bool" where
  "finite_loops E \<equiv> max_loop_iterations (se_limits E) \<noteq> - 1"

lemma loops_tame:
  assumes env: "tame_env E" and body: "\<forall>m\<in>set body. tame m"
  shows "tame (run_for E var ws body)"
    and "finite_loops E \<Longrightarrow> \<forall>m\<in>set condition. tame m \<Longrightarrow> tame (run_condition_loop E condition body b)"
    and "finite_loops E \<Longrightarrow> tame (run_arithmetic_for E init cond step body)"
    and "finite_loops E \<Longrightarrow> tame (run_select E var vs body)"
proof -
  show "tame (run_for E var ws body)"
    unfolding run_for_def using env body
    by (intro tameI) (auto split: option.split sum.split intro!: settled_bind values_settled in_loop_settled for_looping)
  show "finite_loops E \<Longrightarrow> \<forall>m\<in>set condition. tame m \<Longrightarrow> tame (run_condition_loop E condition body b)"
    unfolding run_condition_loop_def loop_fuel_def using body
    by (intro tameI in_loop_settled condition_looping) auto
  have init: "tame_update (if init = [] then (\<lambda>s. s) else se_arith_effects E init)" using env by (simp add: tame_env_def tame_update_def)
  show "finite_loops E \<Longrightarrow> tame (run_arithmetic_for E init cond step body)"
    unfolding run_arithmetic_for_def loop_fuel_def using env body
    by (intro tameI settled_bind in_loop_settled arithmetic_looping) (auto simp: init)
  show "finite_loops E \<Longrightarrow> tame (run_select E var vs body)"
    unfolding run_select_def loop_fuel_def using env body
    by (intro tameI settled_bind values_settled) (auto simp del: select_loop.simps split: sum.split intro!: in_loop_settled select_looping)
qed


section \<open>Subshells, coprocesses, timing\<close>

lemma parse_trap_tame:
  assumes "tame_env E" and "se_parse_trap E tx s = (m, s')"
  shows "brackets s' = brackets s" and "m = Some run \<Longrightarrow> tame run"
  using assms unfolding tame_env_def tame_update_def by (metis snd_conv, metis fst_conv)

lemma exit_trap_settled:
  assumes "tame_env E" and "brackets s = k" and "result \<noteq> Err OutOfFuel"
  shows "settled k (subshell_exit_trap E snap result s)"
proof (cases "own_exit_trap E snap s")
  case (Some tx)
  obtain m s1 where p: "se_parse_trap E tx s = (m, s1)" by (rule prod.exhaust)
  note t = parse_trap_tame [OF assms(1) p]
  show ?thesis
  proof (cases m)
    case (Some run)
    with t assms(2) have "settled k (emitting E run s1)" by (intro settled_emitting tameD) simp_all
    then show ?thesis using p Some t assms(2,3) \<open>own_exit_trap E snap s = Some tx\<close>
      by (cases "emitting E run s1"; cases "fst (emitting E run s1)") (auto simp: subshell_exit_trap_def split: sum.split)
  qed (use p t assms Some in \<open>auto simp: subshell_exit_trap_def\<close>)
qed (use assms in \<open>auto simp: subshell_exit_trap_def\<close>)

lemma brackets_restore [simp]: "brackets (restore_subshell_state snap s) = brackets s"
  by (simp add: restore_subshell_state_def)

lemma run_subshell_tame:
  assumes "tame_env E" and "\<forall>m\<in>set body. tame m"
  shows "tame (run_subshell E body)"
proof (rule tameI)
  fix s :: "('a, 'b, 'c) shell"
  let ?l = "se_limits E"
  show "settled (brackets s) (run_subshell E body s)"
  proof (cases "subshell_depth (sh_counters s) < max_subshell_depth ?l")
    case False
    then show ?thesis by (auto simp: run_subshell_def sh_bind_def counting_def push_subshell_def brackets_def not_less)
  next
    case True
    define c1 where "c1 = (sh_counters s)\<lparr>subshell_depth := subshell_depth (sh_counters s) + 1\<rparr>"
    let ?snap = "s\<lparr>sh_counters := c1\<rparr>"
    have push: "push_subshell ?l (sh_counters s) = (Ok (), c1)" using True by (simp add: push_subshell_def c1_def not_le)
    have pop: "subshell_depth (pop_subshell c1) = subshell_depth (sh_counters s)"
      using subshell_guard.push_pop [OF True] push by simp
    obtain r s1 where body: "run_sequence E body ?snap = (r, s1)" by (rule prod.exhaust)
    have "settled (brackets ?snap) (r, s1)" using run_sequence_settled [OF assms(2), of ?snap] body by metis
    then have r: "r \<noteq> Err OutOfFuel" "brackets s1 = brackets ?snap" by (auto simp: settled_def)
    obtain r2 s2 where trap: "subshell_exit_trap E ?snap r s1 = (r2, s2)" by (rule prod.exhaust)
    with exit_trap_settled [OF assms(1) r(2,1), of ?snap] have r2: "r2 \<noteq> Err OutOfFuel" "brackets s2 = brackets ?snap" by (auto simp: settled_def)
    then have "brackets (s2\<lparr>sh_counters := pop_subshell (sh_counters s2)\<rparr>) = brackets s"
      using pop by (simp add: brackets_def c1_def pop_subshell_def)
    then have "brackets ((restore_subshell_state ?snap s2)\<lparr>sh_frames := sh_frames ?snap, sh_last_exit := sh_last_exit ?snap,
                    sh_counters := pop_subshell (sh_counters s2)\<rparr>) = brackets s"
      by (simp add: brackets_def restore_subshell_state_def)
    with r2(1) push body trap show ?thesis
      by (cases r2) (auto simp: run_subshell_def sh_bind_def counting_def settled_def)
  qed
qed

lemma run_coproc_tame: "tame m \<Longrightarrow> tame (run_coproc E name m)"
proof (rule tameI)
  fix s :: "('a, 'b, 'c) shell"
  assume "tame m"
  then have "settled (brackets s) (run_captured m (s\<lparr>sh_coproc_next_fd := sh_coproc_next_fd s - 2\<rparr>))" by (intro settled_captured) simp_all
  then show "settled (brackets s) (run_coproc E name m s)"
    by (auto simp: run_coproc_def Let_def settled_def split: prod.splits sum.splits)
qed

lemma time_steps_settled:
  "brackets s = k \<Longrightarrow> settled k (append_time_stderr E r msg s)" "brackets s = k \<Longrightarrow> settled k (fail_time E r msg s)"
  by (auto simp: append_time_stderr_def fail_time_def sh_bind_def sh_return_def)

lemma finish_time_settled:
  assumes "tame_env E" and "brackets s = k"
  shows "settled k (finish_time E format output app verbose posix s0 r s)"
proof -
  have w: "brackets (snd (se_write_report E p t app s)) = k" for p t
    using assms by (simp add: tame_env_def tame_update_def)
  have "brackets s' = k" if "se_write_report E p t app s = (b, s')" for p t b s' using w [of p t] that by simp
  then show ?thesis using assms(2)
    by (auto simp: finish_time_def Let_def time_steps_settled split: sum.split render_error.split option.split prod.split bool.split)
qed

lemma run_time_tame:
  assumes "tame_env E" and "\<And>m. body = Some m \<Longrightarrow> tame m"
  shows "tame (run_time E posix format output app verbose option_error body)"
proof -
  have ex: "settled k (se_expand E w s)" if "brackets s = k" for w s k using assms(1) that by (simp add: tame_env_def tameD)
  show ?thesis unfolding run_time_def
    by (rule tameI) (auto split: option.split sum.split intro!: settled_bind ex finish_time_settled [OF assms(1)] intro: tameD [OF assms(2)])
qed

section \<open>Commands\<close>

lemma brackets_capture: "brackets (s\<lparr>sh_capture_depth := n\<rparr>) = brackets s \<longleftrightarrow> n = sh_capture_depth s"
  by (auto simp: brackets_def)

lemma enter_end_capture:
  "brackets s' = brackets (enter_redirects E rs input s) \<Longrightarrow> brackets (end_capture E rs failed s') = brackets s"
  by (auto simp: enter_redirects_def end_capture_def Let_def brackets_def split: option.splits if_splits)

lemma leave_redirects_brackets [simp]: "brackets (leave_redirects rs input s0 s) = brackets s"
  by (auto simp: leave_redirects_def Let_def split: option.split)

lemma run_redirected_tame:
  assumes "tame_env E" and "tame m"
  shows "tame (run_redirected E rs m)"
proof (rule tameI)
  fix s :: "('a, 'b, 'c) shell"
  obtain i s1 where red: "se_redirect_in E rs s = (i, s1)" by (rule prod.exhaust)
  have "tame (se_redirect_in E rs)" using assms(1) by (simp add: tame_env_def)
  then have "settled (brackets s) (i, s1)" using red tameD [of "se_redirect_in E rs" s "brackets s"] by simp
  then have i: "i \<noteq> Err OutOfFuel" "brackets s1 = brackets s" by (auto simp: settled_def)
  have out: "settled k (se_redirect_out E r rs s')" if "brackets s' = k" for r s' k using assms(1) that by (simp add: tame_env_def tameD)
  have body: "settled (brackets s) (case m (enter_redirects E rs input s1) of
      (Inl e, s') \<Rightarrow> (Err e, end_capture E rs True s')
    | (Inr r, s') \<Rightarrow>
        (let s' = leave_redirects rs input s1 (end_capture E rs False s')
         in if rs = [] then (Ok r, s') else se_redirect_out E r rs s'))" for input
  proof -
    obtain r s2 where m: "m (enter_redirects E rs input s1) = (r, s2)" by (rule prod.exhaust)
    with tameD [OF assms(2) refl, of "enter_redirects E rs input s1"]
    have "r \<noteq> Err OutOfFuel" "brackets s2 = brackets (enter_redirects E rs input s1)" by (auto simp: settled_def)
    with enter_end_capture [OF this(2)] m i(2) show ?thesis by (auto simp: Let_def out split: sum.split)
  qed
  show "settled (brackets s) (run_redirected E rs m s)"
    using red i body by (auto simp: run_redirected_def split: option.split sum.split flow_error.split)
qed

lemma begin_command_tame: "tame m \<Longrightarrow> tame (begin_command E c m)"
  unfolding begin_command_def by (rule tameI) (auto intro!: settled_bind intro: tameD)

lemma define_function_tame: "tame (define_function E name c)"
  by (rule tameI) (auto simp: define_function_def Let_def split: sum.split)

lemma exec_tame:
  assumes "tame_env E" and "finite_loops E"
  shows "tame (exec E c)"
proof -
  have leaf: "tame (se_simple E c i)" "tame (se_arith_command E t)" "tame (se_conditional E ws)" for c i t ws
    using assms(1) by (simp_all add: tame_env_def)
  have "tame (exec E c)" and "tame (exec_compound E cc)" and "\<And>ps b t. exec_case E ci = (ps, b, t) \<Longrightarrow> \<forall>m\<in>set b. tame m"
      and "True" and "True" and "True" and "True" and "True" for cc ci and w :: word and wp :: word_part and rd :: redirect and asg :: assignment and av :: assignment_value
  proof (induction c and cc and ci and w and wp and rd and asg and av)
    case (CommandList first rest sp)
    then show ?case using assms
      by (auto intro!: begin_command_tame run_list_tame simp: zip_map2 zip_same_conv_map elim!: snds.cases)
  next
    case (Pipeline negated cs sp)
    have "tame (snd st)" if "st \<in> set (zip cs (map (exec E) cs))" for st
    proof -
      have "snd st \<in> set (map (exec E) cs)" using that by (metis prod.collapse set_zip_rightD)
      with Pipeline show ?thesis by auto
    qed
    then show ?case using assms(1) by (auto intro!: begin_command_tame run_pipeline_tame)
  next
    case (IfCommand condition body elifs otherwise sp)
    have "\<forall>m\<in>set (map (exec E) c) \<union> set (map (exec E) b). tame m" if "(c, b) \<in> set elifs" for c b
      using IfCommand(3) [OF that] IfCommand(4) [OF that] by auto
    then show ?case using IfCommand(1,2,5) by (auto intro!: run_if_tame)
  next
    case (CaseCommand w items sp)
    have "\<forall>m\<in>set b. tame m" if "(ps, b, t) \<in> set (map (exec_case E) items)" for ps b t
      using that CaseCommand(2) by (metis imageE list.set_map)
    then show ?case using assms(1) by (auto intro!: run_case_tame simp del: set_map)
  qed (use assms leaf in \<open>auto intro!: begin_command_tame run_pipeline_tame run_redirected_tame define_function_tame loops_tame run_subshell_tame
      run_sequence_tame run_coproc_tame run_time_tame\<close>)
  then show ?thesis by blast
qed


section \<open>Scripts\<close>

lemma hook_settled: "tame_env E \<Longrightarrow> brackets s = k \<Longrightarrow> settled k (exit_code_of_hook E fire current code s)"
proof -
  assume "tame_env E" "brackets s = k"
  moreover have "brackets s2 = brackets s1" if "se_fire_exit E code s1 = (r, s2)" for s1 r s2
    using that \<open>tame_env E\<close> unfolding tame_env_def tame_update_def by (metis snd_conv)
  ultimately show ?thesis
    by (auto simp: exit_code_of_hook_def intro!: settled_bind split: prod.split option.split)
qed

lemma settled_case: "brackets (snd x) = k \<Longrightarrow> (\<And>a s. brackets s = k \<Longrightarrow> settled k (f a s)) \<Longrightarrow> settled k (case x of (a, s) \<Rightarrow> f a s)"
  by (cases x) simp

lemma script_settled:
  "tame_env E \<Longrightarrow> \<forall>(c, m)\<in>set cs. tame m \<Longrightarrow> brackets s = k \<Longrightarrow> settled k (script_loop E fire cs (out, err, code) s)"
proof (induction cs arbitrary: s out err code)
  case (Cons x cs)
  obtain c m where x: "x = (c, m)" by (rule prod.exhaust)
  have m: "tame m" using Cons.prems(2) by (simp add: x)
  have k: "k = brackets s" using Cons.prems(3) by simp
  have IH: "settled (brackets s) (script_loop E fire cs (out, err, code) s1)" if "brackets s1 = brackets s" for s1 out err code
    using Cons that by (auto simp: x)
  show ?case unfolding x script_loop.simps Let_def k
    using Cons.prems(1)
    by (intro settled_bind settled_emitting tameD [OF m])
      (auto split: control_flow.split option.split intro!: settled_bind hook_settled settled_case IH)
qed simp

lemma exit_trap_script_settled: "tame_env E \<Longrightarrow> brackets s = k \<Longrightarrow> settled k (script_exit_trap E acc s)"
proof (cases "se_trap E (lit ''EXIT'') (sh_scoped s)")
  case (Some tx)
  assume env: "tame_env E" and s: "brackets s = k"
  obtain m s1 where p: "se_parse_trap E tx s = (m, s1)" by (rule prod.exhaust)
  note t = parse_trap_tame [OF env p]
  show ?thesis
  proof (cases m)
    case (Some run)
    with t s have "settled k (emitting E run s1)" by (intro settled_emitting tameD) simp_all
    then show ?thesis using p Some \<open>se_trap E (lit ''EXIT'') (sh_scoped s) = Some tx\<close>
      by (cases "emitting E run s1"; cases "fst (emitting E run s1)") (auto simp: script_exit_trap_def split: prod.split)
  qed (use p t s Some in \<open>auto simp: script_exit_trap_def\<close>)
qed (auto simp: script_exit_trap_def)

lemma body_settled:
  assumes "tame_env E" and "finite_loops E" and "brackets s = k"
  shows "settled k (execute_script_body E cs run_exit_trap fire s)"
proof -
  have "tame m" if "(c, m) \<in> set (zip cs (map (exec E) cs))" for c m
    using set_zip_rightD [OF that] exec_tame [OF assms(1,2)] by auto
  with assms show ?thesis unfolding execute_script_body_def
    by (intro settled_bind script_settled) (auto intro!: settled_bind exit_trap_script_settled)
qed



section \<open>Isolation\<close>

text \<open>What the trap of a subshell leaves of the result: its status and its control flow.\<close>

lemma subshell_exit_trap_result:
  assumes "subshell_exit_trap E snap result s = (result', s')"
  shows "case result of
      Inl e \<Rightarrow> result' = Err e
    | Inr r \<Rightarrow> \<exists>r'. result' = Ok r' \<and> er_exit_code r' = er_exit_code r \<and> er_flow r' = er_flow r"
  using assms by (auto simp: subshell_exit_trap_def split: option.splits prod.splits sum.splits)

lemma leave_subshell_simps:
  "er_exit_code (leave_subshell r) = (case er_flow r of Exit c \<Rightarrow> c | Return c \<Rightarrow> c | _ \<Rightarrow> er_exit_code r)"
  "er_flow (leave_subshell r) = (case er_flow r of Exit c \<Rightarrow> NoFlow | Return c \<Rightarrow> NoFlow | flow \<Rightarrow> flow)"
  "\<not> er_errexit_suppressed (leave_subshell r)"
  by (auto simp: leave_subshell_def split: control_flow.split)

lemma run_subshell_steps:
  assumes "run_subshell E body s = (r, s')" and "push_subshell (se_limits E) (sh_counters s) = (Ok (), c)"
  obtains r1 s1 r2 s2 where "run_sequence E body (s\<lparr>sh_counters := c\<rparr>) = (r1, s1)"
    "subshell_exit_trap E (s\<lparr>sh_counters := c\<rparr>) r1 s1 = (r2, s2)" "r = map_sum id leave_subshell r2"
    "s' = (restore_subshell_state (s\<lparr>sh_counters := c\<rparr>) s2)
      \<lparr>sh_frames := sh_frames s, sh_last_exit := sh_last_exit s, sh_counters := pop_subshell (sh_counters s2)\<rparr>"
proof -
  obtain r1 s1 where body: "run_sequence E body (s\<lparr>sh_counters := c\<rparr>) = (r1, s1)" by (rule prod.exhaust)
  obtain r2 s2 where trap: "subshell_exit_trap E (s\<lparr>sh_counters := c\<rparr>) r1 s1 = (r2, s2)" by (rule prod.exhaust)
  show ?thesis
    by (rule that [OF body trap]) (use assms in \<open>auto simp: run_subshell_def sh_bind_def counting_def body trap\<close>)
qed



section \<open>Instances\<close>

lemma demo_tame: "tame_env demo_env"
proof -
  have "tame (demo_simple c i)" for c i
    by (rule tameI) (auto simp: demo_simple_def split: command.split option.split)
  then show ?thesis
    unfolding tame_env_def by (simp add: tame_update_def tame_def demo_env_def)
qed

lemma demo_finite: "max_loop_iterations (se_limits demo_env) \<noteq> - 1"
  by (simp add: demo_limits_def)

text \<open>\<open>while true; do :; done\<close> ends too.\<close>

definition demo_endless :: command where
  "demo_endless = Compound (WhileCommand [demo_cmd ''true'' []] [demo_cmd '':'' []] demo_span) []"



end
