(* ===== verification/ShellStream.thy ===== *)
theory ShellStream
  imports ShellDemo
begin

text \<open>
  Streaming: what the host's callback is given while a script runs is what the script returns at its end. A command either
  says nothing, and then whoever called it passes its output on, or has passed on all of it; counting the calls
  tells the two apart. Pipelines of compound commands, menus and timed commands break the rule, as the last section shows.
\<close>

section \<open>What has been sent\<close>

definition sent_out :: "('x, 'y, 'w) shell \<Rightarrow> u8 list" where
  "sent_out s = concat (map (\<lambda>p. sd_bytes (fst p)) (sh_emitted s))"

definition sent_err :: "('x, 'y, 'w) shell \<Rightarrow> u8 list" where
  "sent_err s = concat (map (\<lambda>p. sd_bytes (snd p)) (sh_emitted s))"

abbreviation out_limit :: "('x, 'y, 'w) shell_env \<Rightarrow> nat" where
  "out_limit E \<equiv> unat (max_stdout_bytes (se_limits E))"

abbreviation err_limit :: "('x, 'y, 'w) shell_env \<Rightarrow> nat" where
  "err_limit E \<equiv> unat (max_stderr_bytes (se_limits E))"

definition capped :: "nat \<Rightarrow> 'a list \<Rightarrow> 'a list" where
  "capped n xs = take n xs"

lemma capped_append: "length xs \<le> n \<Longrightarrow> capped n (xs @ ys) = xs @ take (n - length xs) ys"
  by (simp add: capped_def)

lemma capped_capped: "capped n (capped n xs @ ys) = capped n (xs @ ys)"
  by (simp add: capped_def min_def)

lemma length_capped: "length (capped n xs) = min n (length xs)"
  by (simp add: capped_def min_def)

lemma capped_id: "length xs \<le> n \<Longrightarrow> capped n xs = xs"
  by (simp add: capped_def)

definition stream_ok :: "('x, 'y, 'w) shell_env \<Rightarrow> ('x, 'y, 'w) shell \<Rightarrow> bool" where
  "stream_ok E s \<longleftrightarrow>
     sh_streamed_out s = length (sent_out s) \<and> sh_streamed_err s = length (sent_err s) \<and>
     length (sent_out s) \<le> out_limit E \<and> length (sent_err s) \<le> err_limit E"

text \<open>The part of the state that streaming concerns.\<close>

definition stream_view :: "('x, 'y, 'w) shell \<Rightarrow> bool \<times> nat \<times> nat \<times> nat \<times> (stream_data \<times> stream_data) list" where
  "stream_view s = (sh_callback s, sh_emit_count s, sh_streamed_out s, sh_streamed_err s, sh_emitted s)"

definition quiet :: "('x, 'y, 'w) shell \<Rightarrow> ('x, 'y, 'w) shell \<Rightarrow> bool" where
  "quiet s s' \<longleftrightarrow> stream_view s' = stream_view s"

text \<open>From \<open>s0\<close> to \<open>s\<close> exactly the output \<open>out\<close>, \<open>err\<close> has been sent, as far as the limits allow.\<close>

definition follows ::
  "('x, 'y, 'w) shell_env \<Rightarrow> ('x, 'y, 'w) shell \<Rightarrow> stream_data \<Rightarrow> stream_data \<Rightarrow> ('x, 'y, 'w) shell \<Rightarrow> bool" where
  "follows E s0 out err s \<longleftrightarrow>
     stream_ok E s \<and> sh_callback s = sh_callback s0 \<and>
     (if sh_callback s0
      then sent_out s = capped (out_limit E) (sent_out s0 @ sd_bytes out) \<and>
           sent_err s = capped (err_limit E) (sent_err s0 @ sd_bytes err) \<and>
           sh_emit_count s0 \<le> sh_emit_count s \<and> (sh_emit_count s = sh_emit_count s0 \<longrightarrow> sh_emitted s = sh_emitted s0)
      else quiet s0 s)"

definition delivers :: "('x, 'y, 'w) shell_env \<Rightarrow> ('x, 'y, 'w) run \<Rightarrow> bool" where
  "delivers E m \<longleftrightarrow> (\<forall>s r s'. stream_ok E s \<longrightarrow> m s = (Ok r, s') \<longrightarrow> quiet s s' \<or> follows E s (er_stdout r) (er_stderr r) s')"

definition silent :: "('a, 'x, 'y, 'w) act \<Rightarrow> bool" where
  "silent m \<longleftrightarrow> (\<forall>s a s'. m s = (Ok a, s') \<longrightarrow> quiet s s')"

lemma bytes_append [simp]: "sd_bytes (stream_append a b) = sd_bytes a @ sd_bytes b"
  by (simp add: stream_append_def refresh_text_def Let_def)

lemma bytes_basic [simp]: "sd_bytes stream_new = []" "sd_bytes (stream_prefix n a) = take n (sd_bytes a)"
  by (simp_all add: stream_new_def stream_prefix_def stream_of_bytes_def min_def)

lemma quiet_refl [simp]: "quiet s s"
  by (simp add: quiet_def)

lemma quiet_trans: "quiet s s1 \<Longrightarrow> quiet s1 s2 \<Longrightarrow> quiet s s2"
  by (simp add: quiet_def)

lemma quiet_updates [simp]:
  "quiet s (s1\<lparr>sh_scoped := x\<rparr>) = quiet s s1" "quiet s (s1\<lparr>sh_functions := fs\<rparr>) = quiet s s1" "quiet s (s1\<lparr>sh_memory := m\<rparr>) = quiet s s1"
  "quiet s (s1\<lparr>sh_errexit := b\<rparr>) = quiet s s1" "quiet s (s1\<lparr>sh_pipefail := b\<rparr>) = quiet s s1" "quiet s (s1\<lparr>sh_last_bg := i\<rparr>) = quiet s s1"
  "quiet s (s1\<lparr>sh_frames := y\<rparr>) = quiet s s1" "quiet s (s1\<lparr>sh_last_exit := c\<rparr>) = quiet s s1" "quiet s (s1\<lparr>sh_budget := bu\<rparr>) = quiet s s1"
  "quiet s (s1\<lparr>sh_stdin := st\<rparr>) = quiet s s1" "quiet s (s1\<lparr>sh_pipestatus := ps\<rparr>) = quiet s s1" "quiet s (s1\<lparr>sh_jobs := t\<rparr>) = quiet s s1"
  "quiet s (s1\<lparr>sh_coproc_next_fd := c\<rparr>) = quiet s s1" "quiet s (s1\<lparr>sh_line := n\<rparr>) = quiet s s1" "quiet s (s1\<lparr>sh_world := w\<rparr>) = quiet s s1"
  "quiet s (s1\<lparr>sh_counters := cs\<rparr>) = quiet s s1" "quiet s (s1\<lparr>sh_condition_depth := n\<rparr>) = quiet s s1" "quiet s (s1\<lparr>sh_in_trap := b\<rparr>) = quiet s s1"
  "quiet s (s1\<lparr>sh_capture_depth := n\<rparr>) = quiet s s1"
  by (simp_all add: quiet_def stream_view_def)

lemma quiet_ok: "quiet s s' \<Longrightarrow> stream_ok E s' = stream_ok E s"
  by (simp add: quiet_def stream_view_def stream_ok_def sent_out_def sent_err_def)

lemma quiet_follows: "stream_ok E s \<Longrightarrow> quiet s s' \<Longrightarrow> follows E s stream_new stream_new s'"
  by (simp add: follows_def quiet_ok) (simp add: quiet_def stream_view_def stream_ok_def sent_out_def sent_err_def capped_id)

lemma follows_trans:
  "follows E s0 o1 e1 s1 \<Longrightarrow> follows E s1 o2 e2 s2 \<Longrightarrow> follows E s0 (stream_append o1 o2) (stream_append e1 e2) s2"
proof (cases "sh_callback s0")
  case True
  assume "follows E s0 o1 e1 s1" "follows E s1 o2 e2 s2"
  with True show ?thesis
    by (auto simp: follows_def) (metis append.assoc capped_capped)+
qed (auto simp: follows_def dest: quiet_trans)

lemma follows_bytes:
  "follows E s0 o1 e1 s \<Longrightarrow> sd_bytes o2 = sd_bytes o1 \<Longrightarrow> sd_bytes e2 = sd_bytes e1 \<Longrightarrow> follows E s0 o2 e2 s"
  by (simp add: follows_def)

lemma follows_quiet:
  assumes "follows E s0 out err s" and "quiet s s'"
  shows "follows E s0 out err s'"
proof -
  have "stream_ok E s" using assms(1) by (simp add: follows_def)
  from follows_trans [OF assms(1) quiet_follows [OF this assms(2)]] show ?thesis by (rule follows_bytes) simp_all
qed

lemma quiet_then_follows:
  assumes "stream_ok E s" and "quiet s s1" and "follows E s1 out err s2"
  shows "follows E s out err s2"
  using follows_trans [OF quiet_follows [OF assms(1,2)] assms(3)] by (rule follows_bytes) simp_all

lemma follows_ok: "follows E s0 out err s \<Longrightarrow> stream_ok E s"
  by (simp add: follows_def)

section \<open>One call\<close>

text \<open>Passing on after a silent call sends what the call returned; after one that has sent it already nothing is left to send.\<close>

lemma emit_after_quiet:
  assumes "stream_ok E s" and "quiet s s1"
  shows "follows E s out err (maybe_emit_output E out err (sh_emit_count s) s1)"
proof (cases "sh_callback s")
  case False
  then have cb: "\<not> sh_callback s1" using assms(2) by (simp add: quiet_def stream_view_def)
  with False assms quiet_ok [OF assms(2), of E] show ?thesis by (simp add: follows_def maybe_emit_output_def)
next
  case True
  let ?o = "take (out_limit E - sh_streamed_out s) (sd_bytes out)" and ?e = "take (err_limit E - sh_streamed_err s) (sd_bytes err)"
  have view: "sh_callback s1" "sh_emit_count s1 = sh_emit_count s" "sh_streamed_out s1 = sh_streamed_out s" "sh_streamed_err s1 = sh_streamed_err s"
      "sh_emitted s1 = sh_emitted s"
    using assms(2) True by (simp_all add: quiet_def stream_view_def)
  have o: "sent_out s @ ?o = capped (out_limit E) (sent_out s @ sd_bytes out)" and e: "sent_err s @ ?e = capped (err_limit E) (sent_err s @ sd_bytes err)"
    using assms(1) by (simp_all add: stream_ok_def capped_append)
  show ?thesis
  proof (cases "?o = [] \<and> ?e = []")
    case True
    then have "maybe_emit_output E out err (sh_emit_count s) s1 = s1"
      using view by (simp add: maybe_emit_output_def Let_def stream_len_def)
    moreover have "sent_out s = capped (out_limit E) (sent_out s @ sd_bytes out)" "sent_err s = capped (err_limit E) (sent_err s @ sd_bytes err)"
      using True o e by (metis append_Nil2)+
    moreover have "sent_out s1 = sent_out s" "sent_err s1 = sent_err s" using view by (simp_all add: sent_out_def sent_err_def)
    ultimately show ?thesis using view \<open>sh_callback s\<close> assms quiet_ok [OF assms(2), of E] by (simp add: follows_def)
  next
    case False
    define s2 where "s2 =
        s1\<lparr>sh_emitted := sh_emitted s1 @ [(stream_prefix (out_limit E - sh_streamed_out s) out, stream_prefix (err_limit E - sh_streamed_err s) err)],
           sh_emit_count := sh_emit_count s1 + 1, sh_streamed_out := sh_streamed_out s1 + length ?o, sh_streamed_err := sh_streamed_err s1 + length ?e\<rparr>"
    have emit: "maybe_emit_output E out err (sh_emit_count s) s1 = s2"
      using view False by (auto simp: maybe_emit_output_def Let_def stream_len_def s2_def)
    have sent: "sent_out s2 = sent_out s @ ?o" "sent_err s2 = sent_err s @ ?e"
      using view by (simp_all add: s2_def sent_out_def sent_err_def)
    have "length (sent_out s2) \<le> out_limit E" "length (sent_err s2) \<le> err_limit E"
      unfolding sent o e by (simp_all add: length_capped)
    moreover have "sh_streamed_out s2 = length (sent_out s2)" "sh_streamed_err s2 = length (sent_err s2)"
      unfolding sent using view assms(1) by (simp_all add: s2_def stream_ok_def)
    moreover have "sh_callback s2" "sh_emit_count s2 = sh_emit_count s + 1" using view by (simp_all add: s2_def)
    ultimately show ?thesis unfolding emit follows_def stream_ok_def
      using sent o e \<open>sh_callback s\<close> by simp
  qed
qed

lemma emit_after_all:
  assumes "stream_ok E s" and "follows E s out err s1"
  shows "maybe_emit_output E out err (sh_emit_count s) s1 = s1"
proof (cases "sh_callback s \<and> sh_emit_count s1 = sh_emit_count s")
  case False
  with assms(2) show ?thesis by (auto simp: maybe_emit_output_def follows_def)
next
  case True
  with assms have f: "sent_out s = capped (out_limit E) (sent_out s @ sd_bytes out)" "sent_err s = capped (err_limit E) (sent_err s @ sd_bytes err)"
      "sent_out s1 = sent_out s" "sent_err s1 = sent_err s"
    by (auto simp: follows_def sent_out_def sent_err_def)
  have ok: "sh_streamed_out s1 = length (sent_out s)" "sh_streamed_err s1 = length (sent_err s)"
    using follows_ok [OF assms(2)] f(3,4) by (simp_all add: stream_ok_def)
  have "length (sent_out s) = min (out_limit E) (length (sent_out s) + length (sd_bytes out))"
      "length (sent_err s) = min (err_limit E) (length (sent_err s) + length (sd_bytes err))"
    using arg_cong [OF f(1), of length] arg_cong [OF f(2), of length] by (simp_all add: length_capped)
  then have "take (out_limit E - sh_streamed_out s1) (sd_bytes out) = []" "take (err_limit E - sh_streamed_err s1) (sd_bytes err) = []"
    unfolding ok by (auto simp: min_def split: if_splits)
  then show ?thesis by (simp add: maybe_emit_output_def Let_def stream_len_def)
qed

lemma emitting_follows:
  assumes "delivers E m" and "stream_ok E s" and "emitting E m s = (Ok r, s')"
  shows "follows E s (er_stdout r) (er_stderr r) s'"
proof -
  obtain s1 where m: "m s = (Ok r, s1)" and s': "s' = maybe_emit_output E (er_stdout r) (er_stderr r) (sh_emit_count s) s1"
    using assms(3) by (auto simp: emitting_def split: prod.splits sum.splits)
  from assms(1,2) m have "quiet s s1 \<or> follows E s (er_stdout r) (er_stderr r) s1" by (auto simp: delivers_def)
  then show ?thesis using emit_after_quiet [OF assms(2)] emit_after_all [OF assms(2)] s' by metis
qed


section \<open>The constructs\<close>

lemma quiet_sym: "quiet s s' \<Longrightarrow> quiet s' s"
  by (simp add: quiet_def)

lemma follows_quiet_iff: "quiet s s' \<Longrightarrow> follows E s0 out err s' = follows E s0 out err s"
  by (metis follows_quiet quiet_sym)

lemma follows_start_iff: "quiet s s' \<Longrightarrow> follows E s' out err s1 = follows E s out err s1"
  by (auto simp: follows_def quiet_def stream_view_def sent_out_def sent_err_def)

lemma follows_updates [simp]:
  "follows E s0 out err (s\<lparr>sh_last_exit := c\<rparr>) = follows E s0 out err s"
  "follows E s0 out err (s\<lparr>sh_condition_depth := n\<rparr>) = follows E s0 out err s"
  "follows E s0 out err (s\<lparr>sh_counters := cs\<rparr>) = follows E s0 out err s"
  "follows E s0 out err (s\<lparr>sh_stdin := st\<rparr>) = follows E s0 out err s"
  "follows E s0 out err (s\<lparr>sh_jobs := t\<rparr>) = follows E s0 out err s"
  "follows E s0 out err (s\<lparr>sh_last_bg := i\<rparr>) = follows E s0 out err s"
  "follows E s0 out err (s\<lparr>sh_frames := y\<rparr>) = follows E s0 out err s"
  "follows E s0 out err (restore_subshell_state snap s) = follows E s0 out err s"
  by (rule follows_quiet_iff, simp add: restore_subshell_state_def)+

lemma follows_starts [simp]:
  "follows E (s0\<lparr>sh_condition_depth := n\<rparr>) out err s = follows E s0 out err s"
  "follows E (s0\<lparr>sh_counters := cs\<rparr>) out err s = follows E s0 out err s"
  "follows E (s0\<lparr>sh_last_exit := c\<rparr>) out err s = follows E s0 out err s"
  by (rule follows_start_iff, simp)+

definition good :: "('x, 'y, 'w) shell_env \<Rightarrow> ('x, 'y, 'w) shell \<Rightarrow> (flow_error + exec_result) \<times> ('x, 'y, 'w) shell \<Rightarrow> bool" where
  "good E s0 p \<longleftrightarrow> (\<forall>r s. p = (Ok r, s) \<longrightarrow> follows E s0 (er_stdout r) (er_stderr r) s)"

lemma good_Ok [simp]: "good E s0 (Inr r, s) \<longleftrightarrow> follows E s0 (er_stdout r) (er_stderr r) s"
  and good_Err [simp]: "good E s0 (Inl e, s)"
  by (auto simp: good_def)

lemma good_bind: "(\<And>a s1. m s = (Ok a, s1) \<Longrightarrow> good E s0 (f a s1)) \<Longrightarrow> good E s0 (sh_bind m f s)"
  by (cases "m s"; cases "fst (m s)") (auto simp: sh_bind_def)

lemma good_basic [simp]: "good E s0 (sh_return r s) \<longleftrightarrow> follows E s0 (er_stdout r) (er_stderr r) s" "good E s0 (sh_fail e s)"
  by (simp_all add: sh_return_def sh_fail_def)

lemma deliversI: "(\<And>s. stream_ok E s \<Longrightarrow> good E s (m s)) \<Longrightarrow> delivers E m"
  by (auto simp: delivers_def good_def)

lemma silent_delivers: "silent m \<Longrightarrow> delivers E m"
  by (auto simp: delivers_def silent_def)

lemma silentI: "(\<And>s a s'. m s = (Ok a, s') \<Longrightarrow> quiet s s') \<Longrightarrow> silent m"
  by (auto simp: silent_def)

lemma silentD: "silent m \<Longrightarrow> m s = (Ok a, s') \<Longrightarrow> quiet s s'"
  by (auto simp: silent_def)

lemma silent_bind: "silent m \<Longrightarrow> (\<And>a. silent (f a)) \<Longrightarrow> silent (sh_bind m f)"
  by (rule silentI) (auto simp: sh_bind_def split: prod.splits sum.splits dest!: silentD intro: quiet_trans)

lemma silent_charges [simp]:
  "silent (check_cancelled E)" "silent (charge_work E n)" "silent (counting f)" "silent (check_session E)" "silent (sh_return a)"
  by (auto intro!: silentI simp: check_cancelled_def charge_work_def counting_def check_session_def sh_return_def
      split: if_splits prod.splits sum.splits)

text \<open>An emitting call in a loop, after the output so far.\<close>

lemma emitting_step:
  assumes "delivers E m" and "follows E s0 out err s" and "emitting E m s = (Ok r, s')"
  shows "follows E s0 (stream_append out (er_stdout r)) (stream_append err (er_stderr r)) s'"
  using follows_trans [OF assms(2) emitting_follows [OF assms(1) follows_ok [OF assms(2)] assms(3)]] .

lemma sequence_good:
  "\<forall>m\<in>set ms. delivers E m \<Longrightarrow> follows E s0 out err s \<Longrightarrow> good E s0 (sequence_loop E chk ms out err code es s)"
proof (induction ms arbitrary: s out err code es)
  case (Cons m ms)
  show ?case unfolding sequence_loop.simps
    using Cons by (intro good_bind) (auto simp: Let_def dest: emitting_step)
qed simp

lemma follows_refl: "stream_ok E s \<Longrightarrow> follows E s stream_new stream_new s"
  by (simp add: quiet_follows)

lemma run_sequence_good: "\<forall>m\<in>set ms. delivers E m \<Longrightarrow> stream_ok E s \<Longrightarrow> good E s (run_sequence E ms s)"
  unfolding run_sequence_def by (intro sequence_good follows_refl)

lemma run_sequence_delivers: "\<forall>m\<in>set ms. delivers E m \<Longrightarrow> delivers E (run_sequence E ms)"
  by (intro deliversI run_sequence_good)

lemma run_condition_good:
  assumes "\<forall>m\<in>set ms. delivers E m" and "stream_ok E s"
  shows "good E s (run_condition E ms s)"
proof -
  let ?s = "s\<lparr>sh_condition_depth := sh_condition_depth s + 1\<rparr>"
  have "stream_ok E ?s" using assms(2) quiet_ok [of s ?s E] by simp
  from sequence_good [OF assms(1) follows_refl [OF this], of False 0 False]
  show ?thesis by (auto simp: run_condition_def good_def split: prod.splits)
qed

lemma run_condition_delivers: "\<forall>m\<in>set ms. delivers E m \<Longrightarrow> delivers E (run_condition E ms)"
  by (intro deliversI run_condition_good)

lemma captured_silent: 
  assumes "delivers E m" and "stream_ok E s" and "run_captured m s = (Ok r, s')"
  shows "quiet s s'"
proof -
  let ?s = "s\<lparr>sh_callback := False\<rparr>"
  obtain s1 where m: "m ?s = (Ok r, s1)" and s': "s' = s1\<lparr>sh_callback := sh_callback s\<rparr>"
    using assms(3) by (auto simp: run_captured_def split: prod.splits)
  have "stream_ok E ?s" using assms(2) by (simp add: stream_ok_def sent_out_def sent_err_def)
  with assms(1) m have "quiet ?s s1" by (auto simp: delivers_def follows_def)
  then show ?thesis by (simp add: s' quiet_def stream_view_def)
qed

section \<open>What is assumed\<close>

text \<open>
  Simple commands and the two other leaves deliver; words, redirections and the rest say nothing; redirections of the input
  leave the output alone; no trap for \<open>ERR\<close> or \<open>EXIT\<close> is set.
\<close>

definition stream_env :: "('x, 'y, 'w) shell_env \<Rightarrow> bool" where
  "stream_env E \<longleftrightarrow>
     (\<forall>c i. delivers E (se_simple E c i)) \<and> (\<forall>t. delivers E (se_arith_command E t)) \<and> (\<forall>ws. delivers E (se_conditional E ws)) \<and>
     (\<forall>w. silent (se_fields E w)) \<and> (\<forall>w. silent (se_expand E w)) \<and> (\<forall>item s. quiet s (snd (se_glob_item E item s))) \<and>
     (\<forall>v t s. quiet s (se_set_variable E v t s)) \<and> (\<forall>t s. quiet s (se_arith_effects E t s)) \<and>
     (\<forall>rs s. quiet s (snd (se_redirect_in E rs s))) \<and> (\<forall>r rs. silent (se_redirect_out E r rs)) \<and>
     (\<forall>r rs s r' s'. \<not> has_output_redirect rs \<longrightarrow> se_redirect_out E r rs s = (Ok r', s') \<longrightarrow>
        sd_bytes (er_stdout r') = sd_bytes (er_stdout r) \<and> sd_bytes (er_stderr r') = sd_bytes (er_stderr r)) \<and>
     (\<forall>x. se_trap E (lit ''ERR'') x = None) \<and> (\<forall>x. se_trap E (lit ''EXIT'') x = None) \<and>
     (\<forall>c s. quiet s (snd (se_fire_exit E c s)))"

text \<open>The commands the rule holds for; \<open>q\<close> are the commands that may stand in a pipeline.\<close>

primrec streamable :: "(command \<Rightarrow> bool) \<Rightarrow> command \<Rightarrow> bool"
  and streamable_compound :: "(command \<Rightarrow> bool) \<Rightarrow> compound_command \<Rightarrow> bool"
  and streamable_case :: "(command \<Rightarrow> bool) \<Rightarrow> case_item \<Rightarrow> bool" where
  "streamable q (Simple name args redirects assignments sp) \<longleftrightarrow> True"
| "streamable q (Pipeline negated cs sp) \<longleftrightarrow> list_all q cs"
| "streamable q (CommandList first rest sp) \<longleftrightarrow> streamable q first \<and> list_all snd (map (map_prod id (streamable q)) rest)"
| "streamable q (Compound c redirects) \<longleftrightarrow> streamable_compound q c"
| "streamable q (FunctionDef name body source sp) \<longleftrightarrow> True"
| "streamable_compound q (IfCommand condition body elifs otherwise sp) \<longleftrightarrow>
     list_all id (map (streamable q) condition) \<and> list_all id (map (streamable q) body) \<and>
     list_all (\<lambda>(c, b). list_all id c \<and> list_all id b) (map (map_prod (map (streamable q)) (map (streamable q))) elifs) \<and>
     (case map_option (map (streamable q)) otherwise of None \<Rightarrow> True | Some bs \<Rightarrow> list_all id bs)"
| "streamable_compound q (ForCommand var ws body sp) \<longleftrightarrow> list_all id (map (streamable q) body)"
| "streamable_compound q (ArithmeticForCommand i c st body sp) \<longleftrightarrow> list_all id (map (streamable q) body)"
| "streamable_compound q (WhileCommand condition body sp) \<longleftrightarrow>
     list_all id (map (streamable q) condition) \<and> list_all id (map (streamable q) body)"
| "streamable_compound q (UntilCommand condition body sp) \<longleftrightarrow>
     list_all id (map (streamable q) condition) \<and> list_all id (map (streamable q) body)"
| "streamable_compound q (CaseCommand w items sp) \<longleftrightarrow> list_all id (map (streamable_case q) items)"
| "streamable_compound q (SelectCommand var ws body sp) \<longleftrightarrow> False"
| "streamable_compound q (Subshell cs) \<longleftrightarrow> list_all id (map (streamable q) cs)"
| "streamable_compound q (BraceGroup cs) \<longleftrightarrow> list_all id (map (streamable q) cs)"
| "streamable_compound q (Arithmetic t) \<longleftrightarrow> True"
| "streamable_compound q (TimeCommand p f out a v e body sp) \<longleftrightarrow> False"
| "streamable_compound q (Conditional ws) \<longleftrightarrow> True"
| "streamable_compound q (CoprocCommand name body sp) \<longleftrightarrow> streamable q body"
| "streamable_case q (CaseItem ps body t) \<longleftrightarrow> list_all id (map (streamable q) body)"

text \<open>A simple command that says nothing while it runs.\<close>

definition quiet_simple :: "('x, 'y, 'w) shell_env \<Rightarrow> command \<Rightarrow> bool" where
  "quiet_simple E c \<longleftrightarrow> (case c of Simple _ _ _ _ _ \<Rightarrow> \<forall>i. silent (se_simple E c i) | _ \<Rightarrow> False)"


section \<open>Pipelines and lists\<close>

lemma no_traps:
  assumes "stream_env E"
  shows "run_err_trap E out err s = ((out, err), s)" "own_exit_trap E snap s = None" "script_exit_trap E acc s = (Ok acc, s)"
  using assms by (auto simp: stream_env_def run_err_trap_def own_exit_trap_def script_exit_trap_def)

lemma quiet_stage:
  assumes "quiet_simple E (fst st)"
  shows "silent (run_stage E st input)"
proof -
  obtain n a r g sp where st: "fst st = Simple n a r g sp" "\<And>i. silent (se_simple E (Simple n a r g sp) i)"
    using assms by (auto simp: quiet_simple_def split: command.splits)
  then show ?thesis by (auto simp: run_stage_def intro!: silent_bind)
qed

lemma pipeline_silent: "\<forall>st\<in>set stages. quiet_simple E (fst st) \<Longrightarrow> silent (pipeline_loop E stages input err statuses final)"
  by (induction stages arbitrary: input err statuses final) (auto simp: Let_def intro!: silent_bind quiet_stage)

lemma run_pipeline_delivers: "\<forall>st\<in>set stages. quiet_simple E (fst st) \<Longrightarrow> delivers E (run_pipeline E negated stages)"
  unfolding run_pipeline_def
  by (intro silent_delivers silent_bind pipeline_silent) (auto intro!: silentI simp: Let_def split: prod.splits)

lemma spawn_step:
  assumes "delivers E m" and "follows E s0 out err s" and "spawn_in_background E m out err s = (Ok p, s')"
  shows "follows E s0 (fst p) (snd p) s'"
  using assms(3) emitting_step [OF assms(1,2)]
  by (auto simp: spawn_in_background_def sh_bind_def split: prod.splits sum.splits)

lemma list_good:
  "stream_env E \<Longrightarrow> \<forall>(op, b, m)\<in>set rest. delivers E m \<Longrightarrow> follows E s0 out err s \<Longrightarrow> good E s0 (list_loop E rest out err code carried s)"
proof (induction rest arbitrary: out err code carried s)
  case (Cons item rest)
  obtain op sentinel m where item: "item = (op, sentinel, m)" by (rule prod_cases3)
  have m: "delivers E m" and IH: "good E s0 (list_loop E rest out err code carried s1)" if "follows E s0 out err s1" for out err code carried s1
    using Cons that by (auto simp: item)
  have bg: "good E s0 (sh_bind (spawn_in_background E m out err) (\<lambda>(out, err). list_loop E rest out err 0 False) s)"
    using spawn_step [OF m Cons.prems(3)] Cons.prems(3) IH by (intro good_bind) (auto split: prod.split)
  have fg: "good E s0 (sh_bind (emitting E m) f s)"
    if "\<And>r s1. follows E s0 (stream_append out (er_stdout r)) (stream_append err (er_stderr r)) s1 \<Longrightarrow> good E s0 (f r s1)" for f
    using emitting_step [OF m Cons.prems(3)] Cons.prems(3) that by (intro good_bind) blast
  show ?case
    unfolding item list_loop.simps
    using Cons.prems(3) IH bg
    by (auto simp: Let_def no_traps [OF Cons.prems(1)] simp del: list_loop.simps intro!: fg)
qed auto

lemma run_list_delivers:
  assumes "stream_env E" and "delivers E first" and "\<forall>(op, b, m)\<in>set rest. delivers E m"
  shows "delivers E (run_list E first rest)"
proof (rule deliversI)
  fix s assume "stream_ok E s"
  note start = follows_refl [OF this]
  have bg: "good E s (sh_bind (spawn_in_background E first stream_new stream_new) (\<lambda>(out, err). list_loop E rest out err 0 False) s)"
    using spawn_step [OF assms(2) start] by (intro good_bind) (auto split: prod.split intro: list_good [OF assms(1,3)])
  show "good E s (run_list E first rest s)"
    unfolding run_list_def
    using bg emitting_step [OF assms(2) start]
    by (auto simp: Let_def no_traps [OF assms(1)] intro!: good_bind list_good [OF assms(1,3)])
qed

section \<open>Conditionals and loops\<close>

text \<open>A call that is not wrapped in \<open>emitting\<close> has to pass on all it returns itself.\<close>

definition sends :: "('x, 'y, 'w) shell_env \<Rightarrow> ('x, 'y, 'w) run \<Rightarrow> bool" where
  "sends E m \<longleftrightarrow> (\<forall>s. stream_ok E s \<longrightarrow> good E s (m s))"

lemma sends_sequences: "\<forall>m\<in>set ms. delivers E m \<Longrightarrow> sends E (run_sequence E ms)" "\<forall>m\<in>set ms. delivers E m \<Longrightarrow> sends E (run_condition E ms)"
  by (auto simp: sends_def intro: run_sequence_good run_condition_good)

lemma sends_step:
  assumes "sends E m" and "follows E s0 out err s" and "m s = (Ok r, s')"
  shows "follows E s0 (stream_append out (er_stdout r)) (stream_append err (er_stderr r)) s'"
  using assms follows_ok [OF assms(2)] follows_trans [OF assms(2)] by (auto simp: sends_def good_def)

lemma good_sends:
  assumes "sends E m" and "follows E s0 out err s"
    and "\<And>r s'. follows E s0 (stream_append out (er_stdout r)) (stream_append err (er_stderr r)) s' \<Longrightarrow> good E s0 (f r s')"
  shows "good E s0 (sh_bind m f s)"
  using sends_step [OF assms(1,2)] assms(3) by (intro good_bind) blast

lemma good_silent:
  assumes "silent m" and "follows E s0 out err s" and "\<And>a s'. follows E s0 out err s' \<Longrightarrow> good E s0 (f a s')"
  shows "good E s0 (sh_bind m f s)"
  using silentD [OF assms(1)] follows_quiet [OF assms(2)] assms(3) by (intro good_bind) blast


lemma with_before_simps [simp]:
  "er_stdout (with_output_before out err r) = stream_append out (er_stdout r)"
  "er_stderr (with_output_before out err r) = stream_append err (er_stderr r)"
  by (simp_all add: with_output_before_def)

lemma if_good:
  "\<forall>(c, b)\<in>set branches. (\<forall>m\<in>set c. delivers E m) \<and> (\<forall>m\<in>set b. delivers E m) \<Longrightarrow>
   (\<forall>ms. otherwise = Some ms \<longrightarrow> (\<forall>m\<in>set ms. delivers E m)) \<Longrightarrow> follows E s0 out err s \<Longrightarrow>
   good E s0 (if_loop E branches otherwise out err s)"
proof (induction branches arbitrary: out err s)
  case Nil
  then show ?case by (auto split: option.split intro!: good_sends [OF sends_sequences(1)])
next
  case (Cons b branches)
  obtain c body where b: "b = (c, body)" by (rule prod.exhaust)
  have c: "\<forall>m\<in>set c. delivers E m" and body: "\<forall>m\<in>set body. delivers E m" using Cons.prems(1) by (auto simp: b)
  show ?case unfolding b if_loop.simps
    by (rule good_sends [OF sends_sequences(2) [OF c] Cons.prems(3)])
      (use Cons in \<open>auto simp: Let_def intro!: good_sends [OF sends_sequences(1) [OF body]]\<close>)
qed

lemma run_if_delivers:
  "\<forall>m\<in>set c. delivers E m \<Longrightarrow> \<forall>m\<in>set b. delivers E m \<Longrightarrow> \<forall>(c, b)\<in>set elifs. (\<forall>m\<in>set c. delivers E m) \<and> (\<forall>m\<in>set b. delivers E m) \<Longrightarrow>
   (\<forall>ms. otherwise = Some ms \<longrightarrow> (\<forall>m\<in>set ms. delivers E m)) \<Longrightarrow> delivers E (run_if E c b elifs otherwise)"
  unfolding run_if_def by (intro deliversI if_good follows_refl) auto

lemma patterns_silent: "stream_env E \<Longrightarrow> silent (match_patterns E value ps)"
proof (induction ps)
  case (Cons p ps)
  then have p: "silent (se_expand E p)" and ps: "silent (match_patterns E value ps)" by (auto simp: stream_env_def)
  show ?case unfolding match_patterns.simps
    using silentD [OF ps] by (intro silent_bind [OF p] silentI) (auto split: if_splits)
qed simp

lemma case_good:
  "stream_env E \<Longrightarrow> \<forall>(ps, b, t)\<in>set items. \<forall>m\<in>set b. delivers E m \<Longrightarrow> follows E s0 out err s \<Longrightarrow>
   good E s0 (case_loop E value items fallthrough out err code s)"
proof (induction items arbitrary: fallthrough out err code s)
  case (Cons item items)
  obtain ps b t where item: "item = (ps, b, t)" by (rule prod_cases3)
  have b: "\<forall>m\<in>set b. delivers E m" using Cons.prems(2) by (auto simp: item)
  have IH: "good E s0 (case_loop E value items fallthrough out err code s1)" if "follows E s0 out err s1" for fallthrough out err code s1
    using Cons that by (auto simp: item)
  have body: "good E s0 (sh_bind (run_sequence E b) (\<lambda>r.
              let out = stream_append out (er_stdout r); err = stream_append err (er_stderr r); code = er_exit_code r
              in if er_flow r \<noteq> NoFlow then sh_return (result_of out err code (er_flow r) False)
                 else case t of
                        CtBreak \<Rightarrow> sh_return (result_of out err code NoFlow False)
                      | CtFallThrough \<Rightarrow> case_loop E value items True out err code
                      | CtContinue \<Rightarrow> case_loop E value items False out err code) s1)" if "follows E s0 out err s1" for s1
    by (rule good_sends [OF sends_sequences(1) [OF b] that]) (auto simp: Let_def IH split: case_terminator.split)
  show ?case unfolding item case_loop.simps
    by (rule good_silent [OF _ Cons.prems(3)]) (auto simp: patterns_silent Cons.prems(1) IH body)
qed simp

lemma run_case_delivers: "stream_env E \<Longrightarrow> \<forall>(ps, b, t)\<in>set items. \<forall>m\<in>set b. delivers E m \<Longrightarrow> delivers E (run_case E w items)"
proof (unfold run_case_def, rule deliversI)
  fix s assume env: "stream_env E" and items: "\<forall>(ps, b, t)\<in>set items. \<forall>m\<in>set b. delivers E m" and s: "stream_ok E s"
  have w: "silent (se_expand E w)" using env by (simp add: stream_env_def)
  show "good E s (sh_bind (se_expand E w) (\<lambda>value. case_loop E value items False stream_new stream_new 0) s)"
    by (rule good_silent [OF w follows_refl [OF s]]) (rule case_good [OF env items])
qed

text \<open>The accumulator of a loop holds what has been sent.\<close>

definition held :: "('x, 'y, 'w) shell_env \<Rightarrow> ('x, 'y, 'w) shell \<Rightarrow> loop_accumulator \<Rightarrow> ('x, 'y, 'w) shell \<Rightarrow> bool" where
  "held E s0 acc s \<longleftrightarrow> follows E s0 (la_stdout acc) (la_stderr acc) s"

lemma held_turn:
  assumes "\<forall>m\<in>set body. delivers E m" and "held E s0 acc s" and "\<And>acc s'. held E s0 acc s' \<Longrightarrow> good E s0 (f acc s')"
  shows "good E s0 (sh_bind (loop_turn E body acc) (\<lambda>(action, stop, acc).
           case loop_ends action stop acc of Some r \<Rightarrow> sh_return r | None \<Rightarrow> f acc) s)"
proof (rule good_bind)
  fix p s1
  assume t: "loop_turn E body acc s = (Ok p, s1)"
  then obtain r where e: "emitting E (run_sequence E body) s = (Ok r, s1)" and p: "p = (fst (accumulate r acc),
      sh_errexit s1 \<and> er_exit_code r \<noteq> 0 \<and> er_flow r = NoFlow \<and> \<not> er_errexit_suppressed r, snd (accumulate r acc))"
    by (auto simp: loop_turn_def sh_bind_def Let_def split: prod.splits sum.splits)
  have "follows E s0 (stream_append (la_stdout acc) (er_stdout r)) (stream_append (la_stderr acc) (er_stderr r)) s1"
    using emitting_step [OF run_sequence_delivers [OF assms(1)] _ e] assms(2) by (simp add: held_def)
  then show "good E s0 ((case p of (action, stop, acc) \<Rightarrow> case loop_ends action stop acc of Some r \<Rightarrow> sh_return r | None \<Rightarrow> f acc) s1)"
    unfolding p using assms(3)
    by (auto simp: accumulate_def build_exit_def loop_ends_def acc_finish_def Let_def held_def split: control_flow.split loop_action.splits)
qed

lemma for_good: "stream_env E \<Longrightarrow> \<forall>m\<in>set body. delivers E m \<Longrightarrow> held E s0 acc s \<Longrightarrow> good E s0 (for_loop E var body vs acc s)"
proof (induction vs arbitrary: acc s)
  case Nil
  then show ?case by (simp add: held_def acc_finish_def)
next
  case (Cons v vs)
  have tick: "silent (tick_loop_run E)" by (simp add: tick_loop_run_def)
  have set: "silent (sh_modify (se_set_variable E var v))" using Cons.prems(1) by (auto simp: stream_env_def sh_modify_def intro!: silentI)
  note start = Cons.prems(3) [unfolded held_def]
  show ?case unfolding for_loop.simps
    by (rule good_silent [OF tick start], rule good_silent [OF set], assumption, rule held_turn [OF Cons.prems(2)], simp add: held_def)
      (rule Cons.IH [OF Cons.prems(1,2)])
qed

lemma condition_good:
  "\<forall>m\<in>set condition. delivers E m \<Longrightarrow> \<forall>m\<in>set body. delivers E m \<Longrightarrow> held E s0 acc s \<Longrightarrow>
   good E s0 (condition_loop E n condition body b acc s)"
proof (induction n arbitrary: acc s)
  case (Suc n)
  have tick: "silent (tick_loop_run E)" by (simp add: tick_loop_run_def)
  show ?case unfolding condition_loop.simps
  proof (rule good_silent [OF tick Suc.prems(3) [unfolded held_def]], rule good_bind, goal_cases)
    case (1 _ s1 c s2)
    from emitting_step [OF run_condition_delivers [OF Suc.prems(1)] 1] show ?case
      by (auto simp: Let_def held_def acc_finish_def intro!: held_turn [OF Suc.prems(2)] Suc.IH [OF Suc.prems(1,2)])
  qed
qed simp

lemma arithmetic_good:
  "stream_env E \<Longrightarrow> \<forall>m\<in>set body. delivers E m \<Longrightarrow> held E s0 acc s \<Longrightarrow> good E s0 (arithmetic_loop E n condition step body acc s)"
proof (induction n arbitrary: acc s)
  case (Suc n)
  have tick: "silent (tick_loop_run E)" by (simp add: tick_loop_run_def)
  have eff: "silent (sh_modify (if step = [] then (\<lambda>s. s) else se_arith_effects E step))"
    using Suc.prems(1) by (auto simp: stream_env_def sh_modify_def intro!: silentI)
  have again: "good E s0 (sh_bind (sh_modify (if step = [] then (\<lambda>s. s) else se_arith_effects E step)) (\<lambda>_.
      arithmetic_loop E n condition step body acc) s1)" if "held E s0 acc s1" for acc s1
    using that by (intro good_silent [OF eff]) (auto simp: held_def intro!: Suc.IH [unfolded held_def] Suc.prems(1,2))
  show ?case unfolding arithmetic_loop.simps
  proof (rule good_silent [OF tick Suc.prems(3) [unfolded held_def]], goal_cases)
    case (1 _ s1)
    then show ?case using held_turn [OF Suc.prems(2), of s0 acc s1, OF _ again] by (auto simp: held_def acc_finish_def)
  qed
qed simp


lemma delivers_bind: "silent m \<Longrightarrow> (\<And>a. delivers E (f a)) \<Longrightarrow> delivers E (sh_bind m f)"
  unfolding delivers_def [of E "sh_bind m f"]
proof (intro allI impI)
  fix s r s' assume m: "silent m" and f: "\<And>a. delivers E (f a)" and s: "stream_ok E s" and run: "sh_bind m f s = (Ok r, s')"
  obtain a s1 where a: "m s = (Ok a, s1)" "f a s1 = (Ok r, s')"
    using run by (auto simp: sh_bind_def split: prod.splits sum.splits)
  have q: "quiet s s1" by (rule silentD [OF m a(1)])
  then have "stream_ok E s1" using s quiet_ok by blast
  then have "quiet s1 s' \<or> follows E s1 (er_stdout r) (er_stderr r) s'" using f a(2) by (auto simp: delivers_def)
  then show "quiet s s' \<or> follows E s (er_stdout r) (er_stderr r) s'" using q quiet_trans follows_start_iff by metis
qed

lemma in_loop_delivers: "delivers E m \<Longrightarrow> delivers E (in_loop m)"
  unfolding delivers_def [of E "in_loop m"]
proof (intro allI impI)
  fix s r s' assume m: "delivers E m" and s: "stream_ok E s" and run: "in_loop m s = (Ok r, s')"
  let ?s = "s\<lparr>sh_counters := enter_loop (sh_counters s)\<rparr>"
  obtain s1 where m1: "m ?s = (Ok r, s1)" and s': "s' = s1\<lparr>sh_counters := exit_loop (sh_counters s1)\<rparr>"
    using run by (auto simp: in_loop_def split: prod.splits)
  have "quiet s ?s" by simp
  then have "stream_ok E ?s" using s quiet_ok by blast
  then have "quiet ?s s1 \<or> follows E s (er_stdout r) (er_stderr r) s1" using m m1 by (auto simp: delivers_def)
  then show "quiet s s' \<or> follows E s (er_stdout r) (er_stderr r) s'" unfolding s'
    using quiet_trans [OF \<open>quiet s ?s\<close>] by auto
qed

lemma held_new: "stream_ok E s \<Longrightarrow> held E s acc_new s"
  by (simp add: held_def acc_new_def follows_refl)

lemma values_silent: "stream_env E \<Longrightarrow> silent (loop_values E ws vals)"
proof (induction ws arbitrary: vals)
  case (Cons w ws)
  have items: "quiet s (snd (glob_items E items s))" for items s
  proof (induction items arbitrary: s)
    case (Cons item items)
    have "quiet s (snd (se_glob_item E item s))" using \<open>stream_env E\<close> by (simp add: stream_env_def)
    with Cons show ?case by (auto split: prod.split sum.split) (metis quiet_trans snd_conv)+
  qed simp
  have fs: "silent (se_fields E w)" using Cons.prems by (simp add: stream_env_def)
  have rest: "silent (loop_values E ws vals)" for vals using Cons by simp
  show ?case unfolding loop_values.simps
  proof (rule silent_bind [OF fs], rule silentI)
    fix fs s p s' assume run: "(if skips_globbing w then loop_values E ws (vals @ fs) s
       else case glob_items E (concat (map expand_braces fs)) s of
              (Inl pat, s) \<Rightarrow> (Ok (Err pat), s)
            | (Inr items, s) \<Rightarrow> loop_values E ws (vals @ items) s) = (Ok p, s')"
    obtain r s1 where g: "glob_items E (concat (map expand_braces fs)) s = (r, s1)" by (rule prod.exhaust)
    with items [of s "concat (map expand_braces fs)"] have "quiet s s1" by simp
    with run g show "quiet s s'" by (auto dest: silentD [OF rest] intro: quiet_trans split: if_splits sum.splits)
  qed
qed simp

lemma loops_deliver:
  assumes env: "stream_env E" and body: "\<forall>m\<in>set body. delivers E m"
  shows "delivers E (run_for E var ws body)"
    and "\<forall>m\<in>set condition. delivers E m \<Longrightarrow> delivers E (run_condition_loop E condition body b)"
    and "delivers E (run_arithmetic_for E init cond step body)"
proof -
  have vals: "silent (case ws of Some ws \<Rightarrow> loop_values E ws [] | None \<Rightarrow> (\<lambda>s. (Ok (Ok (se_positional E (sh_frames s))), s)))"
    by (cases ws) (auto simp: values_silent [OF env] intro: silentI)
  have none: "delivers E (no_match pat)" for pat
    by (rule silent_delivers, rule silentI) (auto simp: no_match_def)
  have "delivers E (in_loop (for_loop E var body vs acc_new))" for vs
    by (intro in_loop_delivers deliversI for_good [OF env body] held_new)
  with none show "delivers E (run_for E var ws body)"
    unfolding run_for_def by (auto simp: silent_delivers intro!: delivers_bind vals split: sum.split)
  show "\<forall>m\<in>set condition. delivers E m \<Longrightarrow> delivers E (run_condition_loop E condition body b)"
    unfolding run_condition_loop_def by (intro in_loop_delivers deliversI condition_good body held_new)
  have eff: "silent (sh_modify (if init = [] then (\<lambda>s. s) else se_arith_effects E init))"
    using env by (auto simp: stream_env_def sh_modify_def intro!: silentI)
  show "delivers E (run_arithmetic_for E init cond step body)"
    unfolding run_arithmetic_for_def by (intro delivers_bind [OF eff] in_loop_delivers deliversI arithmetic_good env body held_new)
qed

section \<open>Commands\<close>

lemma leave_subshell_output [simp]: "er_stdout (leave_subshell r) = er_stdout r" "er_stderr (leave_subshell r) = er_stderr r"
  by (simp_all add: leave_subshell_def split: control_flow.split)

lemma run_subshell_delivers:
  assumes "stream_env E" and "\<forall>m\<in>set body. delivers E m"
  shows "delivers E (run_subshell E body)"
proof (unfold run_subshell_def, rule delivers_bind, simp, rule deliversI)
  fix snap :: "('a, 'b, 'c) shell" assume s: "stream_ok E snap"
  obtain r s1 where run: "run_sequence E body snap = (r, s1)" by (rule prod.exhaust)
  with run_sequence_good [OF assms(2) s] have "good E snap (r, s1)" by simp
  with run show "good E snap (case run_sequence E body snap of
         (result, s) \<Rightarrow>
           (case subshell_exit_trap E snap result s of
              (result, s) \<Rightarrow>
                (map_sum id leave_subshell result,
                 (restore_subshell_state snap s)\<lparr>sh_frames := sh_frames snap, sh_last_exit := sh_last_exit snap,
                    sh_counters := pop_subshell (sh_counters s)\<rparr>)))"
    by (cases r) (simp_all add: subshell_exit_trap_def no_traps [OF assms(1)])
qed

lemma run_coproc_delivers: "delivers E m \<Longrightarrow> delivers E (run_coproc E name m)"
proof (unfold delivers_def [of E "run_coproc E name m"], intro allI impI disjI1)
  fix s r s' assume m: "delivers E m" and s: "stream_ok E s" and run: "run_coproc E name m s = (Ok r, s')"
  let ?s = "s\<lparr>sh_coproc_next_fd := sh_coproc_next_fd s - 2\<rparr>"
  have "quiet s ?s" by simp
  then have ok: "stream_ok E ?s" using s quiet_ok by blast
  obtain r1 s1 where c: "run_captured m ?s = (Ok r1, s1)" "quiet s1 s'"
    using run by (auto simp: run_coproc_def Let_def split: prod.splits sum.splits)
  from quiet_trans [OF captured_silent [OF m ok c(1)] c(2)] show "quiet s s'" using quiet_trans [OF \<open>quiet s ?s\<close>] by blast
qed

lemma begin_command_delivers: "delivers E m \<Longrightarrow> delivers E (begin_command E c m)"
  unfolding begin_command_def
  by (intro delivers_bind) (auto simp: sh_modify_def intro!: silentI)

lemma define_function_delivers: "delivers E (define_function E name c)"
  by (rule silent_delivers, rule silentI) (auto simp: define_function_def Let_def split: sum.splits)

lemma enter_quiet: "\<not> has_output_redirect rs \<Longrightarrow> quiet s (enter_redirects E rs input s)"
  "has_output_redirect rs \<Longrightarrow> quiet (s\<lparr>sh_callback := False\<rparr>) (enter_redirects E rs input s)"
  by (auto simp: enter_redirects_def Let_def quiet_def stream_view_def split: option.split)

lemma end_capture_quiet: "quiet s (end_capture E rs failed s)"
  by (simp add: end_capture_def Let_def)

lemma leave_quiet: "\<not> has_output_redirect rs \<Longrightarrow> quiet s (leave_redirects rs input s0 s)"
  "has_output_redirect rs \<Longrightarrow> quiet (s0\<lparr>sh_callback := False\<rparr>) s \<Longrightarrow> quiet s0 (leave_redirects rs input s0 s)"
  by (auto simp: leave_redirects_def Let_def quiet_def stream_view_def split: option.split)

lemma run_redirected_delivers:
  assumes env: "stream_env E" and m: "delivers E m"
  shows "delivers E (run_redirected E rs m)"
  unfolding delivers_def
proof (intro allI impI)
  fix s r s' assume s: "stream_ok E s" and run: "run_redirected E rs m s = (Ok r, s')"
  have in_quiet: "quiet s s1" if "se_redirect_in E rs s = (p, s1)" for p s1
    using env that unfolding stream_env_def by (metis snd_conv)
  have out_quiet: "\<And>r. silent (se_redirect_out E r rs)" using env by (auto simp: stream_env_def)
  show "quiet s s' \<or> follows E s (er_stdout r) (er_stderr r) s'"
  proof (cases "\<exists>input s1. se_redirect_error E rs = None \<and> se_redirect_in E rs s = (Ok input, s1)")
    case False
    then show ?thesis using run in_quiet
      by (auto simp: run_redirected_def split: option.splits prod.splits sum.splits flow_error.splits)
  next
    case True
    then obtain input s1 where e: "se_redirect_error E rs = None" and i: "se_redirect_in E rs s = (Ok input, s1)" by blast
    let ?s = "enter_redirects E rs input s1"
    obtain r1 s2 where body: "m ?s = (Ok r1, s2)"
      using run e i by (auto split: sum.splits prod.splits simp: run_redirected_def)
    define s3 where "s3 = leave_redirects rs input s1 (end_capture E rs False s2)"
    have q1: "quiet s s1" by (rule in_quiet [OF i])
    have ok1: "stream_ok E s1" using s quiet_ok [OF q1] by simp
    have out: "quiet s3 s'" "rs = [] \<Longrightarrow> r = r1" "rs \<noteq> [] \<Longrightarrow> se_redirect_out E r1 rs s3 = (Ok r, s')"
      using run e i body silentD [OF out_quiet] by (auto simp: run_redirected_def Let_def s3_def split: if_splits)
    show ?thesis
    proof (cases "has_output_redirect rs")
      case True
      have "stream_ok E (s1\<lparr>sh_callback := False\<rparr>)" using ok1 by (simp add: stream_ok_def sent_out_def sent_err_def)
      then have "stream_ok E ?s" using enter_quiet(2) [OF True] quiet_ok by blast
      moreover have "\<not> sh_callback ?s" using enter_quiet(2) [OF True, of s1 E input] by (simp add: quiet_def stream_view_def)
      ultimately have "quiet ?s s2" using m body by (auto simp: delivers_def follows_def)
      then have "quiet (s1\<lparr>sh_callback := False\<rparr>) (end_capture E rs False s2)"
        using enter_quiet(2) [OF True] end_capture_quiet quiet_trans by metis
      from quiet_trans [OF q1 quiet_trans [OF leave_quiet(2) [OF True this] out(1) [unfolded s3_def]]] show ?thesis ..
    next
      case False
      have q: "quiet s ?s" using quiet_trans [OF q1 enter_quiet(1) [OF False]] .
      have tail: "quiet s2 s'" using quiet_trans [OF end_capture_quiet quiet_trans [OF leave_quiet(1) [OF False] out(1) [unfolded s3_def]]] .
      have bytes: "sd_bytes (er_stdout r) = sd_bytes (er_stdout r1)" "sd_bytes (er_stderr r) = sd_bytes (er_stderr r1)"
        using out(2,3) env False by (auto simp: stream_env_def) metis+
      have "stream_ok E ?s" using s q quiet_ok by blast
      then have "quiet ?s s2 \<or> follows E ?s (er_stdout r1) (er_stderr r1) s2" using m body by (auto simp: delivers_def)
      then show ?thesis
      proof
        assume "quiet ?s s2"
        with q tail show ?thesis using quiet_trans by blast
      next
        assume "follows E ?s (er_stdout r1) (er_stderr r1) s2"
        then have "follows E s (er_stdout r1) (er_stderr r1) s'" using follows_start_iff [OF q] follows_quiet [OF _ tail] by blast
        from follows_bytes [OF this bytes] show ?thesis ..
      qed
    qed
  qed
qed


lemma exec_delivers:
  assumes "stream_env E"
  shows "streamable (quiet_simple E) c \<Longrightarrow> delivers E (exec E c)"
proof -
  have leaf: "delivers E (se_simple E c i)" "delivers E (se_arith_command E t)" "delivers E (se_conditional E ws)" for c i t ws
    using assms by (simp_all add: stream_env_def)
  have "streamable (quiet_simple E) c \<Longrightarrow> delivers E (exec E c)"
      and "streamable_compound (quiet_simple E) cc \<Longrightarrow> delivers E (exec_compound E cc)"
      and "\<And>ps b t. streamable_case (quiet_simple E) ci \<Longrightarrow> exec_case E ci = (ps, b, t) \<Longrightarrow> \<forall>m\<in>set b. delivers E m"
      and "True" and "True" and "True" and "True" and "True"
    for cc ci and w :: word and wp :: word_part and rd :: redirect and asg :: assignment and av :: assignment_value
  proof (induction c and cc and ci and w and wp and rd and asg and av)
    case (CommandList first rest sp)
    have "delivers E (exec E c)" if "(op, c) \<in> set rest" for op c
      using CommandList(2) [OF that] CommandList.prems that by (auto simp: list_all_iff)
    then show ?case using assms CommandList(1) CommandList.prems
      by (auto intro!: begin_command_delivers run_list_delivers simp: zip_map2 zip_same_conv_map)
  next
    case (Pipeline negated cs sp)
    have "quiet_simple E (fst st)" if "st \<in> set (zip cs (map (exec E) cs))" for st
    proof -
      have "fst st \<in> set cs" using that by (metis prod.collapse set_zip_leftD)
      with Pipeline.prems show ?thesis by (simp add: list_all_iff)
    qed
    then show ?case by (auto intro!: begin_command_delivers run_pipeline_delivers)
  next
    case (IfCommand condition body elifs otherwise sp)
    have "(\<forall>m\<in>set c. delivers E (exec E m)) \<and> (\<forall>m\<in>set b. delivers E (exec E m))" if "(c, b) \<in> set elifs" for c b
    proof -
      have "\<forall>m\<in>set c \<union> set b. streamable (quiet_simple E) m" using IfCommand.prems that by (auto simp: list_all_iff dest!: bspec [OF _ that])
      then show ?thesis using IfCommand(3) [OF that] IfCommand(4) [OF that] by auto
    qed
    then show ?case using IfCommand(1,2,5) IfCommand.prems by (auto simp: list_all_iff intro!: run_if_delivers)
  next
    case (CaseCommand w items sp)
    have "\<forall>m\<in>set b. delivers E m" if mem: "(ps, b, t) \<in> set (map (exec_case E) items)" for ps b t
    proof -
      obtain x where "x \<in> set items" "exec_case E x = (ps, b, t)" using mem by auto
      moreover from this(1) have "streamable_case (quiet_simple E) x" using CaseCommand.prems by (simp add: list_all_iff)
      ultimately show ?thesis using CaseCommand(2) by blast
    qed
    then show ?case using assms by (auto intro!: run_case_delivers simp del: set_map)
  next
    case (ForCommand var ws body sp)
    then show ?case using assms by (auto simp: list_all_iff intro!: loops_deliver)
  next
    case (ArithmeticForCommand i c st body sp)
    then show ?case using assms by (auto simp: list_all_iff intro!: loops_deliver)
  next
    case (WhileCommand condition body sp)
    then show ?case using assms by (auto simp: list_all_iff intro!: loops_deliver)
  next
    case (UntilCommand condition body sp)
    then show ?case using assms by (auto simp: list_all_iff intro!: loops_deliver)
  next
    case (Subshell cs)
    then show ?case using assms by (auto simp: list_all_iff intro!: run_subshell_delivers)
  next
    case (BraceGroup cs)
    then show ?case by (auto simp: list_all_iff intro!: run_sequence_delivers)
  next
    case (Compound c rs)
    then show ?case using assms by (auto intro!: begin_command_delivers run_redirected_delivers)
  next
    case (Simple name args rs as sp)
    then show ?case using leaf by (auto intro!: begin_command_delivers)
  next
    case (FunctionDef name body source sp)
    then show ?case by (auto intro!: begin_command_delivers define_function_delivers)
  next
    case (CaseItem ps body t)
    then show ?case by (auto simp: list_all_iff)
  next
    case (CoprocCommand name body sp)
    then show ?case by (auto intro!: run_coproc_delivers)
  qed (simp_all add: leaf)
  then show "streamable (quiet_simple E) c \<Longrightarrow> delivers E (exec E c)" by blast
qed

section \<open>Scripts\<close>

text \<open>The script's output so far is what has been sent, and it is full when some is missing.\<close>

definition tracked :: "nat \<Rightarrow> u8 list \<Rightarrow> stream_data \<times> bool \<Rightarrow> bool" where
  "tracked limit sent acc \<longleftrightarrow> sd_bytes (fst acc) = sent \<and> length sent \<le> limit \<and> (snd acc \<longrightarrow> length sent = limit)"

lemma add_limited_tracked:
  "tracked limit sent acc \<Longrightarrow> tracked limit (capped limit (sent @ sd_bytes piece)) (add_limited limit acc piece)"
  by (auto simp: tracked_def add_limited_def capped_def Let_def stream_len_def)

definition tracks ::
  "('x, 'y, 'w) shell_env \<Rightarrow> (stream_data \<times> bool) \<times> (stream_data \<times> bool) \<times> i32 \<Rightarrow> ('x, 'y, 'w) shell \<Rightarrow> bool" where
  "tracks E acc s \<longleftrightarrow>
     stream_ok E s \<and> sh_callback s \<and> tracked (out_limit E) (sent_out s) (fst acc) \<and> tracked (err_limit E) (sent_err s) (fst (snd acc))"

lemma tracks_step:
  assumes "tracks E (out, err, code) s" and "delivers E m" and "emitting E m s = (Ok r, s')"
  shows "tracks E (add_limited (out_limit E) out (er_stdout r), add_limited (err_limit E) err (er_stderr r), code') s'"
proof -
  have "follows E s (er_stdout r) (er_stderr r) s'"
    using emitting_follows [OF assms(2) _ assms(3)] assms(1) by (simp add: tracks_def)
  with assms(1) show ?thesis by (auto simp: tracks_def follows_def intro: add_limited_tracked)
qed

lemma tracks_quiet: "tracks E (out, err, code) s \<Longrightarrow> quiet s s' \<Longrightarrow> tracks E (out, err, code') s'"
  unfolding tracks_def by (auto simp: quiet_ok) (auto simp: quiet_def stream_view_def sent_out_def sent_err_def)

lemma hook_silent: "stream_env E \<Longrightarrow> silent (exit_code_of_hook E fire current code)"
proof -
  assume env: "stream_env E"
  have fired: "quiet s1 s2" if "se_fire_exit E code s1 = (r, s2)" for s1 r s2
    using env that unfolding stream_env_def by (metis snd_conv)
  have "silent (\<lambda>s. case se_fire_exit E code s of (None, s) \<Rightarrow> (Ok None, s) | (Some c, s) \<Rightarrow> (Ok (Some c), s\<lparr>sh_last_exit := c\<rparr>))"
    by (rule silentI) (auto split: prod.splits option.splits dest: fired)
  then show ?thesis unfolding exit_code_of_hook_def by (auto intro: silent_bind)
qed

lemma bind_OkD: "sh_bind m f s = (Inr b, s') \<Longrightarrow> \<exists>a s1. m s = (Inr a, s1) \<and> f a s1 = (Inr b, s')"
  by (auto simp: sh_bind_def split: prod.splits sum.splits)

lemma script_tracks:
  "stream_env E \<Longrightarrow> \<forall>(c, m)\<in>set cs. delivers E m \<Longrightarrow> tracks E (out, err, code) s \<Longrightarrow>
   script_loop E fire cs (out, err, code) s = (Ok acc, s') \<Longrightarrow> tracks E acc s'"
proof (induction cs arbitrary: s out err code)
  case (Cons x cs)
  obtain c m where x: "x = (c, m)" by (rule prod.exhaust)
  have m: "delivers E m" using Cons.prems(2) by (simp add: x)
  have IH: "tracks E acc s'" if "tracks E (out, err, code) s1" "script_loop E fire cs (out, err, code) s1 = (Ok acc, s')" for s1 out err code
    using Cons that by (auto simp: x)
  obtain u s1 where c: "check_cancelled E s = (Ok u, s1)"
      and rest: "sh_bind (emitting E m) (\<lambda>r s.
       let out = add_limited (unat (max_stdout_bytes (se_limits E))) out (er_stdout r);
           err = add_limited (unat (max_stderr_bytes (se_limits E))) err (er_stderr r);
           code = er_exit_code r; s = s\<lparr>sh_last_exit := code\<rparr>
       in case er_flow r of
            Exit n \<Rightarrow>
              sh_bind (exit_code_of_hook E fire code n) (\<lambda>settled.
                case settled of
                  Some code \<Rightarrow> sh_return (out, err, code)
                | None \<Rightarrow> script_loop E fire cs (out, err, code)) s
          | NoFlow \<Rightarrow>
              (let suppressed = (is_negated_pipeline c \<or> er_errexit_suppressed r);
                   (traps, s) = (if code \<noteq> 0 \<and> \<not> is_list_command c \<and> \<not> suppressed then run_err_trap E (fst out) (fst err) s
                                 else ((fst out, fst err), s));
                   out = (fst traps, snd out); err = (snd traps, snd err)
               in if sh_errexit s \<and> code \<noteq> 0 \<and> \<not> suppressed then (Ok (out, err, code), s)
                  else script_loop E fire cs (out, err, code) s)
          | _ \<Rightarrow> (Ok (out, err, code), s)) s1 = (Ok acc, s')"
    using bind_OkD [OF Cons.prems(4) [unfolded x script_loop.simps]] by blast
  have t1: "tracks E (out, err, code) s1" using tracks_quiet [OF Cons.prems(3) silentD [OF silent_charges(1) c]] .
  obtain r s2 where e: "emitting E m s1 = (Ok r, s2)" using bind_OkD [OF rest] by blast
  define out' where "out' = add_limited (out_limit E) out (er_stdout r)"
  define err' where "err' = add_limited (err_limit E) err (er_stderr r)"
  define s3 where "s3 = s2\<lparr>sh_last_exit := er_exit_code r\<rparr>"
  have t3: "tracks E (out', err', code) s3" for code
    unfolding s3_def out'_def err'_def using tracks_quiet [OF tracks_step [OF t1 m e]] by simp
  have stop: "tracks E acc s'" if run: "sh_bind (exit_code_of_hook E fire (er_exit_code r) n) (\<lambda>settled.
      case settled of Some code \<Rightarrow> sh_return (out', err', code) | None \<Rightarrow> script_loop E fire cs (out', err', er_exit_code r)) s3 = (Ok acc, s')" for n
  proof -
    obtain settled s4 where h: "exit_code_of_hook E fire (er_exit_code r) n s3 = (Ok settled, s4)"
        and then4: "(case settled of Some code \<Rightarrow> sh_return (out', err', code) | None \<Rightarrow> script_loop E fire cs (out', err', er_exit_code r)) s4 = (Ok acc, s')"
      using bind_OkD [OF run] by blast
    have "tracks E (out', err', code) s4" for code using tracks_quiet [OF t3 silentD [OF hook_silent [OF Cons.prems(1)] h]] .
    with then4 show ?thesis by (auto simp: sh_return_def intro: IH split: option.splits)
  qed
  have go: "script_loop E fire cs (out', err', code) s3 = (Ok acc, s') \<Longrightarrow> tracks E acc s'" for code
    using IH [OF t3] .
  note rest' = rest [unfolded sh_bind_def [of "emitting E m"] e Let_def no_traps [OF Cons.prems(1)], simplified, folded out'_def err'_def s3_def]
  show ?case
  proof (cases "er_flow r")
    case NoFlow
    with rest' show ?thesis using go t3 by (simp split: if_splits) metis+
  next
    case (Exit n)
    with rest' show ?thesis using stop by simp
  qed (use rest' t3 in auto)
qed (simp add: sh_return_def)




section \<open>Instances\<close>

lemma demo_silent: "silent (demo_simple c i)"
  by (rule silentI) (auto simp: demo_simple_def split: command.splits option.splits if_splits)

lemma demo_stream_env: "stream_env demo_env"
proof -
  have leaves: "delivers demo_env (se_simple demo_env c i)" for c i
    by (simp add: silent_delivers demo_silent)
  moreover have "delivers demo_env (se_arith_command demo_env t)" "delivers demo_env (se_conditional demo_env ws)"
      "silent (se_fields demo_env w)" "silent (se_expand demo_env w)" "silent (se_redirect_out demo_env r rs)" for t ws w r rs
    by (auto simp: demo_env_def intro!: silent_delivers silentI)
  ultimately show ?thesis by (simp add: stream_env_def) (simp add: demo_env_def)
qed

lemma demo_one_command:
  assumes "exec demo_env c demo_start = (Ok r, s')" and "er_flow r = NoFlow" and "er_exit_code r = 0"
    and "sd_bytes (er_stdout r) = out" and "length out \<le> 100"
  shows "\<exists>res s1. execute demo_env (demo_script [c]) demo_start = (Ok res, s1) \<and> sd_bytes (er_stdout res) = out \<and>
    sent_out s1 = sent_out (maybe_emit_output demo_env (er_stdout r) (er_stderr r) 0 s')"
proof -
  have e: "emitting demo_env (exec demo_env c) demo_start = (Ok r, maybe_emit_output demo_env (er_stdout r) (er_stderr r) 0 s')"
    using demo_emitting [of "exec demo_env c", OF assms(1)] by simp
  have keep: "sd_bytes (fst (add_limited (unat (max_stdout_bytes demo_limits)) (stream_new, False) (er_stdout r))) = out"
    using assms(4,5) by (simp add: add_limited_def stream_len_def Let_def demo_limits_def default_execution_limits_def)
  show ?thesis
    using e keep assms(2,3)
    by (simp add: execute_def execute_script_body_def demo_script_def sh_bind_def check_cancelled_def Let_def sh_return_def script_exit_trap_def
        split_def sent_out_def)
qed


text \<open>A compound command in a pipeline has its output passed on although the next command reads it: \<open>{ a; } | true\<close>.\<close>

theorem piped_output_is_streamed:
  "\<exists>r s'. execute demo_env (demo_script [Pipeline False [demo_group, demo_cmd ''true'' []] demo_span]) demo_start = (Ok r, s') \<and>
     sd_bytes (er_stdout r) = [] \<and> sent_out s' = [97, 10]"
proof -
  let ?p = "Pipeline False [demo_group, demo_cmd ''true'' []] demo_span"
  let ?s = "demo_after 0 ?p demo_start"
  have ready: "demo_ready (Suc 0) (?s\<lparr>sh_stdin := None\<rparr>)" using demo_ready_after [OF demo_ready_start] by simp
  obtain r s where group: "exec demo_env demo_group (?s\<lparr>sh_stdin := None\<rparr>) = (Ok r, s)" "demo_ready (Suc (Suc (Suc 0))) s" "sd_bytes (er_stdout r) = [97, 10]"
      "er_exit_code r = 0" "sd_bytes (er_stderr r) = []" "sh_emitted s = [(stream_of_bytes [97, 10], stream_of_bytes [])]"
      "sh_emit_count s = 1" "\<not> sh_pipefail s"
    using demo_group_runs [OF ready] by auto
  let ?t = "s\<lparr>sh_stdin := None\<rparr>"
  have stage1: "run_stage demo_env (demo_group, exec demo_env demo_group) None ?s = (Ok r, ?t)"
    using group(1) by (simp add: run_stage_def demo_group_def)
  have "demo_ready (Suc (Suc (Suc 0))) ?t" using group(2) by simp
  then obtain u where stage2: "run_stage demo_env (demo_cmd ''true'' [], exec demo_env (demo_cmd ''true'' [])) (Some (er_stdout r)) ?t = (Ok (true_builtin []), u)"
      and u: "sh_emitted u = sh_emitted s" "sh_emit_count u = 1" "\<not> sh_pipefail u"
    using demo_stage [of "Suc (Suc (Suc 0))" ?t "''true''" "[]" "exec demo_env (demo_cmd ''true'' [])" "Some (er_stdout r)"] group(7,8)
    by (simp add: demo_commands(4))
  have "exec demo_env ?p demo_start = run_pipeline demo_env False (zip [demo_group, demo_cmd ''true'' []] (map (exec demo_env) [demo_group, demo_cmd ''true'' []])) ?s"
    using demo_begin [OF _ demo_ready_start, of ?p] by simp
  then obtain r2 s2 where run: "exec demo_env ?p demo_start = (Ok r2, s2)" "er_flow r2 = NoFlow" "er_exit_code r2 = 0" "sd_bytes (er_stdout r2) = []"
      "sh_emitted s2 = sh_emitted s" "sh_emit_count s2 = 1"
    using stage1 stage2 u
    by (simp add: run_pipeline_def sh_bind_def Let_def sh_return_def true_builtin_def stream_of_string_def as_bytes_def)
  from demo_one_command [OF run(1-4)] obtain res s3 where "execute demo_env (demo_script [?p]) demo_start = (Ok res, s3)" "sd_bytes (er_stdout res) = []"
      "sent_out s3 = sent_out (maybe_emit_output demo_env (er_stdout r2) (er_stderr r2) 0 s2)"
    by auto
  moreover have "sent_out (maybe_emit_output demo_env (er_stdout r2) (er_stderr r2) 0 s2) = [97, 10]"
    using run(5,6) group(6) by (simp add: maybe_emit_output_def sent_out_def stream_of_bytes_def)
  ultimately show ?thesis by simp
qed

end
